(* ===== verification/Prelude.thy ===== *)
theory Prelude
  imports Main "HOL-Library.Word" "HOL-Library.Monad_Syntax"
begin

text \<open>
  What the components share: the machine integers of the target (a little-endian Cortex-M4 with
  32-bit \<open>int\<close> and \<open>size_t\<close>), byte buffers with checked accesses, and the simp collections that
  carry the component proofs.

  A C array is a list of bytes.  An access outside the array is undefined behaviour in C; here it
  is \<open>None\<close>.  Every handler of the development returns an option for that reason, and the
  memory-safety theorems say that \<open>None\<close> is never reached from a well-formed state.
\<close>

unbundle bit_operations_syntax

type_synonym u8 = "8 word"
type_synonym u16 = "16 word"
type_synonym u32 = "32 word"
type_synonym u64 = "64 word"
type_synonym buffer = "8 word list"

named_theorems mem_simps \<open>accesses to a buffer whose bounds the simplifier can decide\<close>
named_theorems wf_simps \<open>the well-formedness predicates, unfolded\<close>

subsection \<open>Reading and writing bytes\<close>

definition rd8 :: "buffer \<Rightarrow> nat \<Rightarrow> u8 option" where
  "rd8 b i = (if i < length b then Some (b ! i) else None)"

definition wr8 :: "buffer \<Rightarrow> nat \<Rightarrow> u8 \<Rightarrow> buffer option" where
  "wr8 b i v = (if i < length b then Some (b[i := v]) else None)"

lemma rd8_in [mem_simps]: "i < length b \<Longrightarrow> rd8 b i = Some (b ! i)"
  by (simp add: rd8_def)

lemma wr8_in [mem_simps]: "i < length b \<Longrightarrow> wr8 b i v = Some (b[i := v])"
  by (simp add: wr8_def)

lemma wr8_length: "wr8 b i v = Some b' \<Longrightarrow> length b' = length b"
  by (auto simp: wr8_def split: if_splits)

lemma wr8_SomeD: "wr8 b i v = Some b' \<Longrightarrow> i < length b \<and> b' = b[i := v]"
  by (auto simp: wr8_def split: if_splits)

subsection \<open>16-bit members of packed structures\<close>

text \<open>
  A \<open>uint16_t\<close> member of a packed structure is two bytes in the byte order of the CPU, which is
  little-endian (\<open>_CPU_BIG_ENDIAN\<close> is not defined for this target).
\<close>

definition get16 :: "buffer \<Rightarrow> nat \<Rightarrow> u16" where
  "get16 b i = ucast (b ! i) OR push_bit 8 (ucast (b ! Suc i))"

definition set16 :: "buffer \<Rightarrow> nat \<Rightarrow> u16 \<Rightarrow> buffer" where
  "set16 b i v = b[i := ucast v, Suc i := ucast (drop_bit 8 v)]"

definition rd16 :: "buffer \<Rightarrow> nat \<Rightarrow> u16 option" where
  "rd16 b i = (if Suc i < length b then Some (get16 b i) else None)"

definition wr16 :: "buffer \<Rightarrow> nat \<Rightarrow> u16 \<Rightarrow> buffer option" where
  "wr16 b i v = (if Suc i < length b then Some (set16 b i v) else None)"

lemma rd16_in [mem_simps]: "Suc i < length b \<Longrightarrow> rd16 b i = Some (get16 b i)"
  by (simp add: rd16_def)

lemma wr16_in [mem_simps]: "Suc i < length b \<Longrightarrow> wr16 b i v = Some (set16 b i v)"
  by (simp add: wr16_def)

lemma length_set16 [simp]: "length (set16 b i v) = length b"
  by (simp add: set16_def)

lemma get16_set16_same [simp]: "Suc i < length b \<Longrightarrow> get16 (set16 b i v) i = v"
  by (simp add: get16_def set16_def) (rule bit_word_eqI, auto simp: bit_simps)

lemma get16_set16_other [simp]:
  "Suc j < i \<or> Suc i < j \<Longrightarrow> get16 (set16 b i v) j = get16 b j"
  by (auto simp: get16_def set16_def)

lemma get16_upd8_other [simp]: "i \<noteq> j \<Longrightarrow> i \<noteq> Suc j \<Longrightarrow> get16 (b[i := v]) j = get16 b j"
  by (auto simp: get16_def)

lemma nth_set16_other [simp]: "j \<noteq> i \<Longrightarrow> j \<noteq> Suc i \<Longrightarrow> set16 b i v ! j = b ! j"
  by (simp add: set16_def)

subsection \<open>Copying bytes\<close>

text \<open>\<open>memcpy\<close> into and out of a buffer.\<close>

definition blit :: "buffer \<Rightarrow> nat \<Rightarrow> buffer \<Rightarrow> buffer" where
  "blit b i vs = take i b @ vs @ drop (i + length vs) b"

definition wrs :: "buffer \<Rightarrow> nat \<Rightarrow> buffer \<Rightarrow> buffer option" where
  "wrs b i vs = (if i + length vs \<le> length b then Some (blit b i vs) else None)"

definition rds :: "buffer \<Rightarrow> nat \<Rightarrow> nat \<Rightarrow> buffer option" where
  "rds b i n = (if i + n \<le> length b then Some (take n (drop i b)) else None)"

lemma wrs_in [mem_simps]: "i + length vs \<le> length b \<Longrightarrow> wrs b i vs = Some (blit b i vs)"
  by (simp add: wrs_def)

lemma rds_in [mem_simps]: "i + n \<le> length b \<Longrightarrow> rds b i n = Some (take n (drop i b))"
  by (simp add: rds_def)

lemma blit_Nil [simp]: "blit b i [] = b"
  by (simp add: blit_def)

lemma length_blit [simp]: "i + length vs \<le> length b \<Longrightarrow> length (blit b i vs) = length b"
  by (simp add: blit_def)

lemma nth_blit_inside:
  "i + length vs \<le> length b \<Longrightarrow> i \<le> j \<Longrightarrow> j < i + length vs \<Longrightarrow> blit b i vs ! j = vs ! (j - i)"
  by (auto simp: blit_def nth_append)

lemma nth_blit_below: "i \<le> length b \<Longrightarrow> j < i \<Longrightarrow> blit b i vs ! j = b ! j"
  by (simp add: blit_def nth_append)

lemma nth_blit_above:
  "i + length vs \<le> length b \<Longrightarrow> i + length vs \<le> j \<Longrightarrow> blit b i vs ! j = b ! j"
  by (cases vs) (auto simp: blit_def nth_append min_def)

lemma nth_blit:
  "i + length vs \<le> length b \<Longrightarrow>
   blit b i vs ! j = (if i \<le> j \<and> j < i + length vs then vs ! (j - i) else b ! j)"
  by (metis add_leD1 linorder_not_le nth_blit_above nth_blit_below nth_blit_inside)

lemma take_blit_below: "i \<le> length b \<Longrightarrow> n \<le> i \<Longrightarrow> take n (blit b i vs) = take n b"
  by (simp add: blit_def min_def)

lemma take_blit_end:
  "i \<le> length b \<Longrightarrow> take (i + length vs) (blit b i vs) = take i b @ vs"
  by (simp add: blit_def)

lemma blit_blit:
  "i + length xs + length ys \<le> length b \<Longrightarrow> blit (blit b i xs) (i + length xs) ys = blit b i (xs @ ys)"
  by (simp add: blit_def ac_simps)

subsection \<open>Numbers\<close>

text \<open>C's conversion of an \<open>int\<close> or a \<open>size_t\<close> to a narrower unsigned type is \<open>word_of_nat\<close>.\<close>

text \<open>Bit \<open>i\<close> of a field of \<open>q\<close> bits lies in one of its \<open>(q + 7) / 8\<close> bytes.\<close>

lemma byte_index_less: "i < q \<Longrightarrow> i div 8 < (q + 7) div (8::nat)"
proof -
  assume "i < q"
  then have "(i + 8) div 8 \<le> (q + 7) div 8" by (intro div_le_mono) simp
  then show ?thesis by simp
qed

lemma unat_of_nat_u8 [simp]: "n < 256 \<Longrightarrow> unat (word_of_nat n :: u8) = n"
  by (simp add: unsigned_of_nat take_bit_nat_eq_self)

lemma unat_of_nat_u16 [simp]: "n < 65536 \<Longrightarrow> unat (word_of_nat n :: u16) = n"
  by (simp add: unsigned_of_nat take_bit_nat_eq_self)

lemma unat_u8_bound [simp]: "unat (x :: u8) < 256"
  using unsigned_less [of x] by simp

lemma unat_u16_bound [simp]: "unat (x :: u16) < 65536"
  using unsigned_less [of x] by simp

end
