(* ===== verification/Endian.thy ===== *)
theory Endian
  imports Prelude
begin

text \<open>
  Byte order and bit order: \<open>common/cpu_endian.h\<close> (unaligned loads and stores, \<open>ntohs\<close> and
  \<open>htons\<close> on a little-endian machine) and \<open>cpu_endian.c\<close> (swapping the bytes and reversing the
  bits of a word).  The lemmas say what each routine computes bit by bit, that each is an
  involution, and that reading a packed 16-bit member and applying \<open>ntohs\<close> is the big-endian load.
\<close>

subsection \<open>Swapping bytes\<close>

definition swapInt16 :: "u16 \<Rightarrow> u16" where
  "swapInt16 x = push_bit 8 (x AND 0x00FF) OR drop_bit 8 (x AND 0xFF00)"

definition swapInt32 :: "u32 \<Rightarrow> u32" where
  "swapInt32 x =
     push_bit 24 (x AND 0x000000FF) OR push_bit 8 (x AND 0x0000FF00) OR
     drop_bit 8 (x AND 0x00FF0000) OR drop_bit 24 (x AND 0xFF000000)"

definition swapInt64 :: "u64 \<Rightarrow> u64" where
  "swapInt64 x =
     push_bit 56 (x AND 0x00000000000000FF) OR push_bit 40 (x AND 0x000000000000FF00) OR
     push_bit 24 (x AND 0x0000000000FF0000) OR push_bit 8 (x AND 0x00000000FF000000) OR
     drop_bit 8 (x AND 0x000000FF00000000) OR drop_bit 24 (x AND 0x0000FF0000000000) OR
     drop_bit 40 (x AND 0x00FF000000000000) OR drop_bit 56 (x AND 0xFF00000000000000)"

text \<open>The target is little-endian, so \<open>htons\<close> and \<open>ntohs\<close> are both the byte swap.\<close>

definition htons :: "u16 \<Rightarrow> u16" where
  "htons x = swapInt16 x"

definition ntohs :: "u16 \<Rightarrow> u16" where
  "ntohs x = swapInt16 x"

definition htonl :: "u32 \<Rightarrow> u32" where
  "htonl x = swapInt32 x"

definition ntohl :: "u32 \<Rightarrow> u32" where
  "ntohl x = swapInt32 x"

subsection \<open>Reversing bits\<close>

definition reverseInt4 :: "u8 \<Rightarrow> u8" where
  "reverseInt4 v0 =
     (let v1 = drop_bit 2 (v0 AND 0x0C) OR push_bit 2 (v0 AND 0x03)
      in drop_bit 1 (v1 AND 0x0A) OR push_bit 1 (v1 AND 0x05))"

definition reverseInt8 :: "u8 \<Rightarrow> u8" where
  "reverseInt8 v0 =
     (let v1 = drop_bit 4 (v0 AND 0xF0) OR push_bit 4 (v0 AND 0x0F);
          v2 = drop_bit 2 (v1 AND 0xCC) OR push_bit 2 (v1 AND 0x33)
      in drop_bit 1 (v2 AND 0xAA) OR push_bit 1 (v2 AND 0x55))"

definition reverseInt16 :: "u16 \<Rightarrow> u16" where
  "reverseInt16 v0 =
     (let v1 = drop_bit 8 (v0 AND 0xFF00) OR push_bit 8 (v0 AND 0x00FF);
          v2 = drop_bit 4 (v1 AND 0xF0F0) OR push_bit 4 (v1 AND 0x0F0F);
          v3 = drop_bit 2 (v2 AND 0xCCCC) OR push_bit 2 (v2 AND 0x3333)
      in drop_bit 1 (v3 AND 0xAAAA) OR push_bit 1 (v3 AND 0x5555))"

definition reverseInt32 :: "u32 \<Rightarrow> u32" where
  "reverseInt32 v0 =
     (let v1 = drop_bit 16 (v0 AND 0xFFFF0000) OR push_bit 16 (v0 AND 0x0000FFFF);
          v2 = drop_bit 8 (v1 AND 0xFF00FF00) OR push_bit 8 (v1 AND 0x00FF00FF);
          v3 = drop_bit 4 (v2 AND 0xF0F0F0F0) OR push_bit 4 (v2 AND 0x0F0F0F0F);
          v4 = drop_bit 2 (v3 AND 0xCCCCCCCC) OR push_bit 2 (v3 AND 0x33333333)
      in drop_bit 1 (v4 AND 0xAAAAAAAA) OR push_bit 1 (v4 AND 0x55555555))"

subsection \<open>Unaligned big-endian loads and stores\<close>

definition LOAD16BE :: "buffer \<Rightarrow> nat \<Rightarrow> u16" where
  "LOAD16BE b i = push_bit 8 (ucast (b ! i)) OR push_bit 0 (ucast (b ! (i + 1)))"

definition STORE16BE :: "u16 \<Rightarrow> buffer \<Rightarrow> nat \<Rightarrow> buffer" where
  "STORE16BE a b i =
     b[i := ucast (drop_bit 8 a AND 0xFF), i + 1 := ucast (drop_bit 0 a AND 0xFF)]"

subsection \<open>What the swaps compute\<close>

lemma all_less_4: "(\<forall>n<4. P n) \<longleftrightarrow> P (0::nat) \<and> P 1 \<and> P 2 \<and> P 3"
  by (simp add: numeral_eq_Suc All_less_Suc) auto

lemma all_less_8: "(\<forall>n<8. P n) \<longleftrightarrow> P (0::nat) \<and> P 1 \<and> P 2 \<and> P 3 \<and> P 4 \<and> P 5 \<and> P 6 \<and> P 7"
  by (simp add: numeral_eq_Suc All_less_Suc) auto

lemma all_less_16: "(\<forall>n<16. P n) \<longleftrightarrow> P (0::nat) \<and> P 1 \<and> P 2 \<and> P 3 \<and> P 4 \<and> P 5 \<and> P 6 \<and> P 7
    \<and> P 8 \<and> P 9 \<and> P 10 \<and> P 11 \<and> P 12 \<and> P 13 \<and> P 14 \<and> P 15"
  by (simp add: numeral_eq_Suc All_less_Suc) auto

lemma all_less_32: "(\<forall>n<32. P n) \<longleftrightarrow> P (0::nat) \<and> P 1 \<and> P 2 \<and> P 3 \<and> P 4 \<and> P 5 \<and> P 6 \<and> P 7
    \<and> P 8 \<and> P 9 \<and> P 10 \<and> P 11 \<and> P 12 \<and> P 13 \<and> P 14 \<and> P 15
    \<and> P 16 \<and> P 17 \<and> P 18 \<and> P 19 \<and> P 20 \<and> P 21 \<and> P 22 \<and> P 23
    \<and> P 24 \<and> P 25 \<and> P 26 \<and> P 27 \<and> P 28 \<and> P 29 \<and> P 30 \<and> P 31"
  by (simp add: numeral_eq_Suc All_less_Suc) auto

lemma not_bit_u8 [simp]: "8 \<le> n \<Longrightarrow> \<not> bit (x :: u8) n"
  using bit_imp_le_length by fastforce

lemma bit_swapInt16: "bit (swapInt16 x) n \<longleftrightarrow> n < 16 \<and> bit x ((n + 8) mod 16)"
proof -
  have "\<forall>n<16. bit (swapInt16 x) n \<longleftrightarrow> bit x ((n + 8) mod 16)"
    unfolding all_less_16 by (simp add: swapInt16_def bit_simps)
  moreover have "bit (swapInt16 x) n \<Longrightarrow> n < 16"
    using bit_imp_le_length by fastforce
  ultimately show ?thesis by blast
qed

lemma bytes_swapped_twice: "n < 16 \<Longrightarrow> ((n + 8) mod 16 + 8) mod 16 = (n::nat)"
  by presburger

lemma swapInt16_invol [simp]: "swapInt16 (swapInt16 x) = x"
  by (rule bit_word_eqI) (simp add: bit_swapInt16 bytes_swapped_twice)

lemma ntohs_htons [simp]: "ntohs (htons x) = x"
  by (simp add: ntohs_def htons_def)

lemma htons_ntohs [simp]: "htons (ntohs x) = x"
  by (simp add: ntohs_def htons_def)

lemma ntohs_eq_iff [simp]: "ntohs x = ntohs y \<longleftrightarrow> x = y"
  by (metis htons_ntohs)

lemma htons_eq_iff [simp]: "htons x = htons y \<longleftrightarrow> x = y"
  by (metis ntohs_htons)

text \<open>One round of a reversal exchanges neighbouring groups of \<open>k\<close> bits.\<close>

definition group_swap :: "nat \<Rightarrow> nat \<Rightarrow> nat" where
  "group_swap k n = (if n mod (2 * k) < k then n + k else n - k)"

lemma round4_2: "n < 4 \<Longrightarrow>
   bit (drop_bit 2 (x AND 0xc) OR push_bit 2 (x AND 0x3) :: u8) n \<longleftrightarrow> bit x (group_swap 2 n)"
proof -
  have "\<forall>n<4. bit (drop_bit 2 (x AND 0xc) OR push_bit 2 (x AND 0x3)) n \<longleftrightarrow> bit x (group_swap 2 n)"
    unfolding all_less_4 by (simp only: bit_simps group_swap_def) (simp add: bit_simps; simp add: numeral_2_eq_2 numeral_3_eq_3)
  then show "n < 4 \<Longrightarrow> ?thesis" by blast
qed

lemma round4_1: "n < 4 \<Longrightarrow>
   bit (drop_bit 1 (x AND 0xa) OR push_bit 1 (x AND 0x5) :: u8) n \<longleftrightarrow> bit x (group_swap 1 n)"
proof -
  have "\<forall>n<4. bit (drop_bit 1 (x AND 0xa) OR push_bit 1 (x AND 0x5)) n \<longleftrightarrow> bit x (group_swap 1 n)"
    unfolding all_less_4 by (simp only: bit_simps group_swap_def) (simp add: bit_simps; simp add: numeral_2_eq_2 numeral_3_eq_3)
  then show "n < 4 \<Longrightarrow> ?thesis" by blast
qed

lemma group_swap4: "n < 4 \<Longrightarrow> group_swap 2 n < 4 \<and> group_swap 1 n < 4"
proof -
  have "\<forall>n<4. group_swap 2 n < 4 \<and> group_swap 1 n < 4"
    unfolding all_less_4 by (simp add: group_swap_def)
  then show "n < 4 \<Longrightarrow> ?thesis" by blast
qed

lemma group_swaps4: "n < 4 \<Longrightarrow> group_swap 2 (group_swap 1 n) = 3 - n"
proof -
  have "\<forall>n<4. group_swap 2 (group_swap 1 n) = 3 - n"
    unfolding all_less_4 by (simp add: group_swap_def)
  then show "n < 4 \<Longrightarrow> ?thesis" by blast
qed

lemma bit_reverseInt4: "n < 4 \<Longrightarrow> bit (reverseInt4 x) n \<longleftrightarrow> bit x (3 - n)"
  by (simp only: reverseInt4_def Let_def round4_2 round4_1 group_swap4 group_swaps4)

lemma round8_4: "n < 8 \<Longrightarrow>
   bit (drop_bit 4 (x AND 0xf0) OR push_bit 4 (x AND 0xf) :: u8) n \<longleftrightarrow> bit x (group_swap 4 n)"
proof -
  have "\<forall>n<8. bit (drop_bit 4 (x AND 0xf0) OR push_bit 4 (x AND 0xf)) n \<longleftrightarrow> bit x (group_swap 4 n)"
    unfolding all_less_8 by (simp only: bit_simps group_swap_def) (simp add: bit_simps; simp add: numeral_2_eq_2 numeral_3_eq_3)
  then show "n < 8 \<Longrightarrow> ?thesis" by blast
qed

lemma round8_2: "n < 8 \<Longrightarrow>
   bit (drop_bit 2 (x AND 0xcc) OR push_bit 2 (x AND 0x33) :: u8) n \<longleftrightarrow> bit x (group_swap 2 n)"
proof -
  have "\<forall>n<8. bit (drop_bit 2 (x AND 0xcc) OR push_bit 2 (x AND 0x33)) n \<longleftrightarrow> bit x (group_swap 2 n)"
    unfolding all_less_8 by (simp only: bit_simps group_swap_def) (simp add: bit_simps; simp add: numeral_2_eq_2 numeral_3_eq_3)
  then show "n < 8 \<Longrightarrow> ?thesis" by blast
qed

lemma round8_1: "n < 8 \<Longrightarrow>
   bit (drop_bit 1 (x AND 0xaa) OR push_bit 1 (x AND 0x55) :: u8) n \<longleftrightarrow> bit x (group_swap 1 n)"
proof -
  have "\<forall>n<8. bit (drop_bit 1 (x AND 0xaa) OR push_bit 1 (x AND 0x55)) n \<longleftrightarrow> bit x (group_swap 1 n)"
    unfolding all_less_8 by (simp only: bit_simps group_swap_def) (simp add: bit_simps; simp add: numeral_2_eq_2 numeral_3_eq_3)
  then show "n < 8 \<Longrightarrow> ?thesis" by blast
qed

lemma group_swap8: "n < 8 \<Longrightarrow> group_swap 4 n < 8 \<and> group_swap 2 n < 8 \<and> group_swap 1 n < 8"
proof -
  have "\<forall>n<8. group_swap 4 n < 8 \<and> group_swap 2 n < 8 \<and> group_swap 1 n < 8"
    unfolding all_less_8 by (simp add: group_swap_def)
  then show "n < 8 \<Longrightarrow> ?thesis" by blast
qed

lemma group_swaps8: "n < 8 \<Longrightarrow> group_swap 4 (group_swap 2 (group_swap 1 n)) = 7 - n"
proof -
  have "\<forall>n<8. group_swap 4 (group_swap 2 (group_swap 1 n)) = 7 - n"
    unfolding all_less_8 by (simp add: group_swap_def)
  then show "n < 8 \<Longrightarrow> ?thesis" by blast
qed

lemma bit_reverseInt8: "n < 8 \<Longrightarrow> bit (reverseInt8 x) n \<longleftrightarrow> bit x (7 - n)"
  by (simp only: reverseInt8_def Let_def round8_4 round8_2 round8_1 group_swap8 group_swaps8)

lemma round16_8: "n < 16 \<Longrightarrow>
   bit (drop_bit 8 (x AND 0xff00) OR push_bit 8 (x AND 0xff) :: u16) n \<longleftrightarrow> bit x (group_swap 8 n)"
proof -
  have "\<forall>n<16. bit (drop_bit 8 (x AND 0xff00) OR push_bit 8 (x AND 0xff)) n \<longleftrightarrow> bit x (group_swap 8 n)"
    unfolding all_less_16 by (simp only: bit_simps group_swap_def) (simp add: bit_simps; simp add: numeral_2_eq_2 numeral_3_eq_3)
  then show "n < 16 \<Longrightarrow> ?thesis" by blast
qed

lemma round16_4: "n < 16 \<Longrightarrow>
   bit (drop_bit 4 (x AND 0xf0f0) OR push_bit 4 (x AND 0xf0f) :: u16) n \<longleftrightarrow> bit x (group_swap 4 n)"
proof -
  have "\<forall>n<16. bit (drop_bit 4 (x AND 0xf0f0) OR push_bit 4 (x AND 0xf0f)) n \<longleftrightarrow> bit x (group_swap 4 n)"
    unfolding all_less_16 by (simp only: bit_simps group_swap_def) (simp add: bit_simps; simp add: numeral_2_eq_2 numeral_3_eq_3)
  then show "n < 16 \<Longrightarrow> ?thesis" by blast
qed

lemma round16_2: "n < 16 \<Longrightarrow>
   bit (drop_bit 2 (x AND 0xcccc) OR push_bit 2 (x AND 0x3333) :: u16) n \<longleftrightarrow> bit x (group_swap 2 n)"
proof -
  have "\<forall>n<16. bit (drop_bit 2 (x AND 0xcccc) OR push_bit 2 (x AND 0x3333)) n \<longleftrightarrow> bit x (group_swap 2 n)"
    unfolding all_less_16 by (simp only: bit_simps group_swap_def) (simp add: bit_simps; simp add: numeral_2_eq_2 numeral_3_eq_3)
  then show "n < 16 \<Longrightarrow> ?thesis" by blast
qed

lemma round16_1: "n < 16 \<Longrightarrow>
   bit (drop_bit 1 (x AND 0xaaaa) OR push_bit 1 (x AND 0x5555) :: u16) n \<longleftrightarrow> bit x (group_swap 1 n)"
proof -
  have "\<forall>n<16. bit (drop_bit 1 (x AND 0xaaaa) OR push_bit 1 (x AND 0x5555)) n \<longleftrightarrow> bit x (group_swap 1 n)"
    unfolding all_less_16 by (simp only: bit_simps group_swap_def) (simp add: bit_simps; simp add: numeral_2_eq_2 numeral_3_eq_3)
  then show "n < 16 \<Longrightarrow> ?thesis" by blast
qed

lemma group_swap16: "n < 16 \<Longrightarrow> group_swap 8 n < 16 \<and> group_swap 4 n < 16 \<and> group_swap 2 n < 16 \<and> group_swap 1 n < 16"
proof -
  have "\<forall>n<16. group_swap 8 n < 16 \<and> group_swap 4 n < 16 \<and> group_swap 2 n < 16 \<and> group_swap 1 n < 16"
    unfolding all_less_16 by (simp add: group_swap_def)
  then show "n < 16 \<Longrightarrow> ?thesis" by blast
qed

lemma group_swaps16: "n < 16 \<Longrightarrow> group_swap 8 (group_swap 4 (group_swap 2 (group_swap 1 n))) = 15 - n"
proof -
  have "\<forall>n<16. group_swap 8 (group_swap 4 (group_swap 2 (group_swap 1 n))) = 15 - n"
    unfolding all_less_16 by (simp add: group_swap_def)
  then show "n < 16 \<Longrightarrow> ?thesis" by blast
qed

lemma bit_reverseInt16: "n < 16 \<Longrightarrow> bit (reverseInt16 x) n \<longleftrightarrow> bit x (15 - n)"
  by (simp only: reverseInt16_def Let_def round16_8 round16_4 round16_2 round16_1 group_swap16 group_swaps16)

lemma round32_16: "n < 32 \<Longrightarrow>
   bit (drop_bit 16 (x AND 0xffff0000) OR push_bit 16 (x AND 0xffff) :: u32) n \<longleftrightarrow> bit x (group_swap 16 n)"
proof -
  have "\<forall>n<32. bit (drop_bit 16 (x AND 0xffff0000) OR push_bit 16 (x AND 0xffff)) n \<longleftrightarrow> bit x (group_swap 16 n)"
    unfolding all_less_32 by (simp only: bit_simps group_swap_def) (simp add: bit_simps; simp add: numeral_2_eq_2 numeral_3_eq_3)
  then show "n < 32 \<Longrightarrow> ?thesis" by blast
qed

lemma round32_8: "n < 32 \<Longrightarrow>
   bit (drop_bit 8 (x AND 0xff00ff00) OR push_bit 8 (x AND 0xff00ff) :: u32) n \<longleftrightarrow> bit x (group_swap 8 n)"
proof -
  have "\<forall>n<32. bit (drop_bit 8 (x AND 0xff00ff00) OR push_bit 8 (x AND 0xff00ff)) n \<longleftrightarrow> bit x (group_swap 8 n)"
    unfolding all_less_32 by (simp only: bit_simps group_swap_def) (simp add: bit_simps; simp add: numeral_2_eq_2 numeral_3_eq_3)
  then show "n < 32 \<Longrightarrow> ?thesis" by blast
qed

lemma round32_4: "n < 32 \<Longrightarrow>
   bit (drop_bit 4 (x AND 0xf0f0f0f0) OR push_bit 4 (x AND 0xf0f0f0f) :: u32) n \<longleftrightarrow> bit x (group_swap 4 n)"
proof -
  have "\<forall>n<32. bit (drop_bit 4 (x AND 0xf0f0f0f0) OR push_bit 4 (x AND 0xf0f0f0f)) n \<longleftrightarrow> bit x (group_swap 4 n)"
    unfolding all_less_32 by (simp only: bit_simps group_swap_def) (simp add: bit_simps; simp add: numeral_2_eq_2 numeral_3_eq_3)
  then show "n < 32 \<Longrightarrow> ?thesis" by blast
qed

lemma round32_2: "n < 32 \<Longrightarrow>
   bit (drop_bit 2 (x AND 0xcccccccc) OR push_bit 2 (x AND 0x33333333) :: u32) n \<longleftrightarrow> bit x (group_swap 2 n)"
proof -
  have "\<forall>n<32. bit (drop_bit 2 (x AND 0xcccccccc) OR push_bit 2 (x AND 0x33333333)) n \<longleftrightarrow> bit x (group_swap 2 n)"
    unfolding all_less_32 by (simp only: bit_simps group_swap_def) (simp add: bit_simps; simp add: numeral_2_eq_2 numeral_3_eq_3)
  then show "n < 32 \<Longrightarrow> ?thesis" by blast
qed

lemma round32_1: "n < 32 \<Longrightarrow>
   bit (drop_bit 1 (x AND 0xaaaaaaaa) OR push_bit 1 (x AND 0x55555555) :: u32) n \<longleftrightarrow> bit x (group_swap 1 n)"
proof -
  have "\<forall>n<32. bit (drop_bit 1 (x AND 0xaaaaaaaa) OR push_bit 1 (x AND 0x55555555)) n \<longleftrightarrow> bit x (group_swap 1 n)"
    unfolding all_less_32 by (simp only: bit_simps group_swap_def) (simp add: bit_simps; simp add: numeral_2_eq_2 numeral_3_eq_3)
  then show "n < 32 \<Longrightarrow> ?thesis" by blast
qed

lemma group_swap32: "n < 32 \<Longrightarrow> group_swap 16 n < 32 \<and> group_swap 8 n < 32 \<and> group_swap 4 n < 32 \<and> group_swap 2 n < 32 \<and> group_swap 1 n < 32"
proof -
  have "\<forall>n<32. group_swap 16 n < 32 \<and> group_swap 8 n < 32 \<and> group_swap 4 n < 32 \<and> group_swap 2 n < 32 \<and> group_swap 1 n < 32"
    unfolding all_less_32 by (simp add: group_swap_def)
  then show "n < 32 \<Longrightarrow> ?thesis" by blast
qed

lemma group_swaps32: "n < 32 \<Longrightarrow> group_swap 16 (group_swap 8 (group_swap 4 (group_swap 2 (group_swap 1 n)))) = 31 - n"
proof -
  have "\<forall>n<32. group_swap 16 (group_swap 8 (group_swap 4 (group_swap 2 (group_swap 1 n)))) = 31 - n"
    unfolding all_less_32 by (simp add: group_swap_def)
  then show "n < 32 \<Longrightarrow> ?thesis" by blast
qed

lemma bit_reverseInt32: "n < 32 \<Longrightarrow> bit (reverseInt32 x) n \<longleftrightarrow> bit x (31 - n)"
  by (simp only: reverseInt32_def Let_def round32_16 round32_8 round32_4 round32_2 round32_1 group_swap32 group_swaps32)

lemma ntohs_get16: "ntohs (get16 b i) = LOAD16BE b i"
proof (rule bit_word_eqI)
  fix n assume "n < LENGTH(16)"
  moreover have "\<forall>n<16. bit (ntohs (get16 b i)) n \<longleftrightarrow> bit (LOAD16BE b i) n"
    unfolding all_less_16 by (simp add: ntohs_def bit_swapInt16 get16_def LOAD16BE_def bit_simps)
  ultimately show "bit (ntohs (get16 b i)) n \<longleftrightarrow> bit (LOAD16BE b i) n" by simp
qed

end
