(* ===== verification/OsPort.thy ===== *)
theory OsPort
  imports Prelude
begin

text \<open>
  The status codes of \<open>common/error.h\<close> and the wrap-around clock of \<open>common/os_port.h\<close>.

  The enumeration has 197 codes.  The codes the modelled code returns or compares with are
  constructors; every other code is \<open>ERROR_OTHER\<close> with its number, so that a user callback or a
  socket may return any code of the enumeration.
\<close>

datatype (plugins only: code size) error_t =
    NO_ERROR
  | ERROR_FAILURE
  | ERROR_INVALID_PARAMETER
  | ERROR_INVALID_INTERFACE
  | ERROR_OUT_OF_MEMORY
  | ERROR_OUT_OF_RESOURCES
  | ERROR_NOT_IMPLEMENTED
  | ERROR_INVALID_SYNTAX
  | ERROR_UNEXPECTED_RESPONSE
  | ERROR_INVALID_RESPONSE
  | ERROR_OPEN_FAILED
  | ERROR_CONNECTION_FAILED
  | ERROR_CONNECTION_CLOSING
  | ERROR_CONNECTION_RESET
  | ERROR_NOT_CONNECTED
  | ERROR_ALREADY_CONNECTED
  | ERROR_INVALID_SOCKET
  | ERROR_INVALID_HEADER
  | ERROR_WRONG_CHECKSUM
  | ERROR_WRONG_IDENTIFIER
  | ERROR_TIMEOUT
  | ERROR_WOULD_BLOCK
  | ERROR_INVALID_ADDRESS
  | ERROR_INVALID_LENGTH
  | ERROR_INVALID_VALUE
  | ERROR_OUT_OF_RANGE
  | ERROR_NOT_FOUND
  | ERROR_EXCEPTION_RECEIVED
  | ERROR_NOT_CONFIGURED
  | ERROR_WRONG_STATE
  | ERROR_END_OF_STREAM
  | ERROR_IN_PROGRESS
  | ERROR_WRITE_FAILED
  | ERROR_READ_FAILED
  | ERROR_INVALID_FUNCTION_CODE
  | ERROR_DEVICE_BUSY
  | ERROR_MESSAGE_TOO_LONG
  | ERROR_NO_ROUTE
  | ERROR_NO_ADDRESS
  | ERROR_ADDRESS_NOT_FOUND
  | ERROR_PROTOCOL_UNREACHABLE
  | ERROR_PORT_UNREACHABLE
  | ERROR_INVALID_PROTOCOL
  | ERROR_TRANSMITTER_BUSY
  | ERROR_UNEXPECTED_STATE
  | ERROR_INVALID_PACKET
  | ERROR_BUFFER_EMPTY
  | ERROR_OTHER nat

type_synonym systime_t = u32

text \<open>\<open>timeCompare(t1, t2)\<close> is the signed reading of the 32-bit difference.\<close>

definition timeCompare :: "systime_t \<Rightarrow> systime_t \<Rightarrow> int" where
  "timeCompare t1 t2 = sint (t1 - t2)"

lemma even_half_iff: "0 \<le> k \<Longrightarrow> k < 2 * c \<Longrightarrow> even (k div c) \<longleftrightarrow> k < (c :: int)"
proof (cases "k < c")
  case False
  assume "0 \<le> k" and "k < 2 * c"
  with False have "k div c = 1"
    by (intro int_div_pos_eq [where r = "k - c"]) auto
  with False show ?thesis by simp
qed simp

lemma sint_nonneg_iff: "0 \<le> sint (x :: u32) \<longleftrightarrow> unat x < 2147483648"
proof -
  have "0 \<le> sint x \<longleftrightarrow> even (uint x div 2147483648)"
    unfolding sint_uint signed_take_bit_nonnegative_iff by (subst bit_iff_odd) simp
  also have "\<dots> \<longleftrightarrow> uint x < 2147483648"
    using uint_lt2p [of x] by (intro even_half_iff) simp_all
  also have "\<dots> \<longleftrightarrow> unat x < 2147483648"
    by (simp only: uint_nat of_nat_less_numeral_iff)
  finally show ?thesis .
qed

lemma unat_of_nat_u32 [simp]: "n < 4294967296 \<Longrightarrow> unat (word_of_nat n :: u32) = n"
  by (simp add: unsigned_of_nat take_bit_nat_eq_self)

text \<open>
  With a start time, an age and a timeout less than \<open>2 ^ 31\<close> ticks apart, the comparison is right
  even when the tick counter wrapped in between.
\<close>

lemma timeCompare_deadline:
  assumes "age < 2147483648 + timeout" and "timeout < 2147483648"
  shows "0 \<le> timeCompare (start + word_of_nat age) (start + word_of_nat timeout) \<longleftrightarrow> timeout \<le> age"
proof -
  have eq: "(start + word_of_nat age) - (start + word_of_nat timeout)
      = (word_of_nat age - word_of_nat timeout :: u32)"
    by simp
  have "unat (word_of_nat age - word_of_nat timeout :: u32) =
      (if timeout \<le> age then age - timeout else age + 4294967296 - timeout)"
    using assms by (simp add: unat_sub_if_size word_size)
  then show ?thesis
    unfolding timeCompare_def eq sint_nonneg_iff using assms by auto
qed

section \<open>The socket layer as Modbus sees it\<close>

text \<open>
  The socket layer and the operating system as the Modbus client and server see them: the operations
  they call, over the world \<open>'w\<close>, and the laws they rely on.  A handle \<open>None\<close> is the null pointer.
  \<open>socketReceive\<close> returns the status and the bytes it stored through the pointer (their number is
  \<open>*received\<close>); \<open>socketSend\<close> returns the status and the number of bytes it took.
\<close>

type_synonym socket_handle = nat

abbreviation (input) SOCKET_EVENT_TX_READY :: nat where "SOCKET_EVENT_TX_READY \<equiv> 0x0004"
abbreviation (input) SOCKET_EVENT_RX_READY :: nat where "SOCKET_EVENT_RX_READY \<equiv> 0x0040"

text \<open>\<open>SocketEventDesc\<close> without the flags, which \<open>socketPoll\<close> returns.\<close>

record SocketEventDesc =
  desc_socket :: "socket_handle option"
  eventMask :: nat

record 'w net_ops =
  osGetSystemTime :: "'w \<Rightarrow> systime_t \<times> 'w"
  osCreateEvent :: "'w \<Rightarrow> bool \<times> 'w"
  osDeleteEvent :: "'w \<Rightarrow> 'w"
  socketOpen :: "'w \<Rightarrow> socket_handle option \<times> 'w"
  socketBindToInterface :: "socket_handle option \<Rightarrow> nat option \<Rightarrow> 'w \<Rightarrow> error_t \<times> 'w"
  socketBind :: "socket_handle option \<Rightarrow> u16 \<Rightarrow> 'w \<Rightarrow> error_t \<times> 'w"
  socketListen :: "socket_handle option \<Rightarrow> nat \<Rightarrow> 'w \<Rightarrow> error_t \<times> 'w"
  socketAccept :: "socket_handle option \<Rightarrow> 'w \<Rightarrow> socket_handle option \<times> 'w"
  socketSetTimeout :: "socket_handle option \<Rightarrow> systime_t \<Rightarrow> 'w \<Rightarrow> error_t \<times> 'w"
  socketReceive :: "socket_handle option \<Rightarrow> nat \<Rightarrow> 'w \<Rightarrow> error_t \<times> buffer \<times> 'w"
  socketSend :: "socket_handle option \<Rightarrow> buffer \<Rightarrow> 'w \<Rightarrow> error_t \<times> nat \<times> 'w"
  socketClose :: "socket_handle option \<Rightarrow> 'w \<Rightarrow> 'w"
  socketPoll :: "SocketEventDesc list \<Rightarrow> systime_t \<Rightarrow> 'w \<Rightarrow> error_t \<times> nat list \<times> 'w"
  socketConnect :: "socket_handle option \<Rightarrow> u32 \<Rightarrow> u16 \<Rightarrow> 'w \<Rightarrow> error_t \<times> 'w"
  netGetRand :: "'w \<Rightarrow> u32 \<times> 'w"
  osCreateTask :: "'w \<Rightarrow> bool \<times> 'w"

text \<open>
  What the client and the server rely on from the socket layer: a receive stores at most the bytes it was asked
  for, a send takes at most the bytes it was given, and a poll fills in one flag word per
  descriptor.
\<close>

definition net_ok :: "'w net_ops \<Rightarrow> bool" where
  "net_ok ops \<longleftrightarrow>
     (\<forall>k n w. length (fst (snd (socketReceive ops k n w))) \<le> n) \<and>
     (\<forall>k d w. fst (snd (socketSend ops k d w)) \<le> length d) \<and>
     (\<forall>ds t w. length (fst (snd (socketPoll ops ds t w))) = length ds)"

lemma net_okD:
  assumes "net_ok ops"
  shows "socketReceive ops k n w = (e, data, w1) \<Longrightarrow> length data \<le> n"
    and "socketSend ops k d w = (e, m, w1) \<Longrightarrow> m \<le> length d"
    and "socketPoll ops ds t w = (e, fs, w1) \<Longrightarrow> length fs = length ds"
  using assms unfolding net_ok_def by (metis fst_conv snd_conv)+

end
