(* ===== verification/ModbusCommon.thy ===== *)
theory ModbusCommon
  imports Endian OsPort
begin

text \<open>
  \<open>modbus/modbus_common.h\<close>: the protocol constants, the sizes of the packed PDU structures and
  the macros that set, reset and test one coil of a packed bit field.

  Function codes and exception codes are bytes on the wire and the code casts an arbitrary byte to
  the C enumeration, so they are values of type \<open>u8\<close>.  A structure of the wire format is a range of
  an ADU buffer; its members are read and written at the offsets the header comments give.
\<close>

subsection \<open>Constants\<close>

abbreviation (input) MODBUS_TCP_PORT :: u16 where "MODBUS_TCP_PORT \<equiv> 502"
abbreviation (input) MODBUS_PROTOCOL_ID :: u16 where "MODBUS_PROTOCOL_ID \<equiv> 0"
abbreviation (input) MODBUS_DEFAULT_UNIT_ID :: u8 where "MODBUS_DEFAULT_UNIT_ID \<equiv> 255"
abbreviation (input) MODBUS_MAX_PDU_SIZE :: nat where "MODBUS_MAX_PDU_SIZE \<equiv> 253"
abbreviation (input) MODBUS_MAX_ADU_SIZE :: nat where "MODBUS_MAX_ADU_SIZE \<equiv> 260"
abbreviation (input) MODBUS_FUNCTION_CODE_MASK :: u8 where "MODBUS_FUNCTION_CODE_MASK \<equiv> 0x7F"
abbreviation (input) MODBUS_EXCEPTION_MASK :: u8 where "MODBUS_EXCEPTION_MASK \<equiv> 0x80"

abbreviation (input) MODBUS_FUNCTION_READ_COILS :: u8 where "MODBUS_FUNCTION_READ_COILS \<equiv> 1"
abbreviation (input) MODBUS_FUNCTION_READ_DISCRETE_INPUTS :: u8 where
  "MODBUS_FUNCTION_READ_DISCRETE_INPUTS \<equiv> 2"
abbreviation (input) MODBUS_FUNCTION_READ_HOLDING_REGS :: u8 where "MODBUS_FUNCTION_READ_HOLDING_REGS \<equiv> 3"
abbreviation (input) MODBUS_FUNCTION_READ_INPUT_REGS :: u8 where "MODBUS_FUNCTION_READ_INPUT_REGS \<equiv> 4"
abbreviation (input) MODBUS_FUNCTION_WRITE_SINGLE_COIL :: u8 where "MODBUS_FUNCTION_WRITE_SINGLE_COIL \<equiv> 5"
abbreviation (input) MODBUS_FUNCTION_WRITE_SINGLE_REG :: u8 where "MODBUS_FUNCTION_WRITE_SINGLE_REG \<equiv> 6"
abbreviation (input) MODBUS_FUNCTION_WRITE_MULTIPLE_COILS :: u8 where
  "MODBUS_FUNCTION_WRITE_MULTIPLE_COILS \<equiv> 15"
abbreviation (input) MODBUS_FUNCTION_WRITE_MULTIPLE_REGS :: u8 where
  "MODBUS_FUNCTION_WRITE_MULTIPLE_REGS \<equiv> 16"
abbreviation (input) MODBUS_FUNCTION_MASK_WRITE_REG :: u8 where "MODBUS_FUNCTION_MASK_WRITE_REG \<equiv> 22"
abbreviation (input) MODBUS_FUNCTION_READ_WRITE_MULTIPLE_REGS :: u8 where
  "MODBUS_FUNCTION_READ_WRITE_MULTIPLE_REGS \<equiv> 23"

abbreviation (input) MODBUS_EXCEPTION_ILLEGAL_FUNCTION :: u8 where "MODBUS_EXCEPTION_ILLEGAL_FUNCTION \<equiv> 1"
abbreviation (input) MODBUS_EXCEPTION_ILLEGAL_DATA_ADDRESS :: u8 where
  "MODBUS_EXCEPTION_ILLEGAL_DATA_ADDRESS \<equiv> 2"
abbreviation (input) MODBUS_EXCEPTION_ILLEGAL_DATA_VALUE :: u8 where
  "MODBUS_EXCEPTION_ILLEGAL_DATA_VALUE \<equiv> 3"
abbreviation (input) MODBUS_EXCEPTION_SLAVE_DEVICE_FAILURE :: u8 where
  "MODBUS_EXCEPTION_SLAVE_DEVICE_FAILURE \<equiv> 4"
abbreviation (input) MODBUS_EXCEPTION_SLAVE_DEVICE_BUSY :: u8 where
  "MODBUS_EXCEPTION_SLAVE_DEVICE_BUSY \<equiv> 6"

abbreviation (input) MODBUS_COIL_STATE_OFF :: u16 where "MODBUS_COIL_STATE_OFF \<equiv> 0x0000"
abbreviation (input) MODBUS_COIL_STATE_ON :: u16 where "MODBUS_COIL_STATE_ON \<equiv> 0xFF00"

subsection \<open>Sizes of the packed structures\<close>

abbreviation (input) sizeof_ModbusHeader :: nat where "sizeof_ModbusHeader \<equiv> 7"
abbreviation (input) sizeof_ModbusReadReq :: nat where "sizeof_ModbusReadReq \<equiv> 5"
abbreviation (input) sizeof_ModbusReadResp :: nat where "sizeof_ModbusReadResp \<equiv> 2"
abbreviation (input) sizeof_ModbusWriteSingle :: nat where "sizeof_ModbusWriteSingle \<equiv> 5"
abbreviation (input) sizeof_ModbusWriteMultipleReq :: nat where "sizeof_ModbusWriteMultipleReq \<equiv> 6"
abbreviation (input) sizeof_ModbusWriteMultipleResp :: nat where "sizeof_ModbusWriteMultipleResp \<equiv> 5"
abbreviation (input) sizeof_ModbusMaskWriteReg :: nat where "sizeof_ModbusMaskWriteReg \<equiv> 7"
abbreviation (input) sizeof_ModbusReadWriteMultipleRegsReq :: nat where
  "sizeof_ModbusReadWriteMultipleRegsReq \<equiv> 10"
abbreviation (input) sizeof_ModbusExceptionResp :: nat where "sizeof_ModbusExceptionResp \<equiv> 2"

subsection \<open>Coils packed in bytes\<close>

text \<open>The pointer \<open>a\<close> is the offset of the bit field in the buffer.\<close>

definition MODBUS_SET_COIL :: "buffer \<Rightarrow> nat \<Rightarrow> nat \<Rightarrow> buffer option" where
  "MODBUS_SET_COIL b a n = do {
     x \<leftarrow> rd8 b (a + n div 8);
     wr8 b (a + n div 8) (x OR push_bit (n mod 8) 1)
   }"

definition MODBUS_RESET_COIL :: "buffer \<Rightarrow> nat \<Rightarrow> nat \<Rightarrow> buffer option" where
  "MODBUS_RESET_COIL b a n = do {
     x \<leftarrow> rd8 b (a + n div 8);
     wr8 b (a + n div 8) (x AND NOT (push_bit (n mod 8) 1))
   }"

definition MODBUS_TEST_COIL :: "buffer \<Rightarrow> nat \<Rightarrow> nat \<Rightarrow> bool option" where
  "MODBUS_TEST_COIL b a n = do {
     x \<leftarrow> rd8 b (a + n div 8);
     Some (drop_bit (n mod 8) x AND 1 = 1)
   }"

text \<open>The coil a buffer holds at position \<open>n\<close>: the abstraction the macros work on.\<close>

definition coil_at :: "buffer \<Rightarrow> nat \<Rightarrow> nat \<Rightarrow> bool" where
  "coil_at b a n = bit (b ! (a + n div 8)) (n mod 8)"

definition put_coil :: "buffer \<Rightarrow> nat \<Rightarrow> nat \<Rightarrow> bool \<Rightarrow> buffer" where
  "put_coil b a n s = b[a + n div 8 := (if s then set_bit else unset_bit) (n mod 8) (b ! (a + n div 8))]"

lemma MODBUS_SET_COIL_in [mem_simps]:
  "a + n div 8 < length b \<Longrightarrow> MODBUS_SET_COIL b a n = Some (put_coil b a n True)"
  by (simp add: MODBUS_SET_COIL_def put_coil_def mem_simps set_bit_eq_or)

lemma MODBUS_RESET_COIL_in [mem_simps]:
  "a + n div 8 < length b \<Longrightarrow> MODBUS_RESET_COIL b a n = Some (put_coil b a n False)"
  by (simp add: MODBUS_RESET_COIL_def put_coil_def mem_simps unset_bit_eq_and_not)

lemma MODBUS_TEST_COIL_in [mem_simps]:
  "a + n div 8 < length b \<Longrightarrow> MODBUS_TEST_COIL b a n = Some (coil_at b a n)"
  by (simp add: MODBUS_TEST_COIL_def coil_at_def mem_simps bit_iff_and_drop_bit_eq_1 and_one_eq odd_iff_mod_2_eq_one)

lemma length_put_coil [simp]: "length (put_coil b a n s) = length b"
  by (simp add: put_coil_def)

lemma coil_at_put_coil_same [simp]:
  "a + n div 8 < length b \<Longrightarrow> coil_at (put_coil b a n s) a n = s"
  by (simp add: coil_at_def put_coil_def bit_set_bit_iff bit_unset_bit_iff)

lemma coil_at_put_coil_other [simp]:
  "m \<noteq> n \<Longrightarrow> coil_at (put_coil b a n s) a m = coil_at b a m"
proof (cases "m div 8 = n div 8")
  case True
  assume "m \<noteq> n"
  with True have "m mod 8 \<noteq> n mod 8" by (metis div_mult_mod_eq)
  with True show ?thesis
    by (cases "a + n div 8 < length b")
      (auto simp: coil_at_def put_coil_def bit_set_bit_iff bit_unset_bit_iff list_update_beyond)
next
  case False
  then show ?thesis by (auto simp: coil_at_def put_coil_def)
qed

lemma nth_put_coil_outside [simp]: "j \<noteq> a + n div 8 \<Longrightarrow> put_coil b a n s ! j = b ! j"
  by (simp add: put_coil_def)

subsection \<open>A received MBAP header\<close>

text \<open>What the client and the server accept: their three checks on a received header.\<close>

definition mbap_length :: "buffer \<Rightarrow> nat" where
  "mbap_length req = unat (ntohs (get16 req 4))"

definition mbap_acceptable :: "buffer \<Rightarrow> bool" where
  "mbap_acceptable req \<longleftrightarrow> 1 \<le> mbap_length req \<and> mbap_length req \<le> 254 \<and> ntohs (get16 req 2) = 0"

end
