(* ===== verification/NetMem.thy ===== *)
theory NetMem
  imports OsPort
begin

text \<open>
  The multi-part buffers of \<open>net_mem.c\<close>, with \<open>NET_MEM_POOL_SUPPORT\<close> disabled (its default): blocks
  come from \<open>osAllocMem\<close>.

  Memory is a heap of blocks of bytes and a pointer is a block and an offset in it.  An access
  outside a live block is undefined behaviour in C and \<open>None\<close> here.  The chunk array of a
  \<open>NetBuffer\<close> with its counter \<open>chunkCount\<close> is the list of the chunks in use: the code never reads a
  descriptor at or above the counter before it has set it.
\<close>

type_synonym pointer = "nat \<times> nat"

record heap =
  blocks :: "nat \<Rightarrow> buffer option"
  fresh_block :: nat

text \<open>The heap, and the rest of the world: the state of the operating system and of the network.\<close>

record 'w sys =
  mem :: heap
  world :: 'w

definition load :: "heap \<Rightarrow> pointer \<Rightarrow> nat \<Rightarrow> buffer option" where
  "load h p n = Option.bind (blocks h (fst p)) (\<lambda>d. rds d (snd p) n)"

definition store_bytes :: "heap \<Rightarrow> pointer \<Rightarrow> buffer \<Rightarrow> heap option" where
  "store_bytes h p vs = do {
     d \<leftarrow> blocks h (fst p);
     d \<leftarrow> wrs d (snd p) vs;
     Some (h\<lparr>blocks := (blocks h)(fst p \<mapsto> d)\<rparr>)
   }"

text \<open>\<open>memcpy\<close> between overlapping regions is undefined.\<close>

definition memcpy :: "heap \<Rightarrow> pointer \<Rightarrow> pointer \<Rightarrow> nat \<Rightarrow> heap option" where
  "memcpy h p q n =
     (if fst p = fst q \<and> snd p < snd q + n \<and> snd q < snd p + n then None
      else Option.bind (load h q n) (store_bytes h p))"

subsection \<open>Allocation\<close>

text \<open>
  \<open>osAllocMem\<close> is a parameter: it returns the uninitialised bytes of the new block, or \<open>None\<close> for a
  null pointer.  The law it must keep is that the block has the size asked for.
\<close>

type_synonym 'w allocator = "nat \<Rightarrow> 'w \<Rightarrow> buffer option \<times> 'w"

definition alloc_ok :: "'w allocator \<Rightarrow> bool" where
  "alloc_ok alloc \<longleftrightarrow> (\<forall>n w d w'. alloc n w = (Some d, w') \<longrightarrow> length d = n)"

definition memPoolAlloc :: "'w allocator \<Rightarrow> nat \<Rightarrow> 'w sys \<Rightarrow> pointer option \<times> 'w sys" where
  "memPoolAlloc alloc n s =
     (case alloc n (world s) of
        (None, w) \<Rightarrow> (None, s\<lparr>world := w\<rparr>)
      | (Some d, w) \<Rightarrow>
          (Some (fresh_block (mem s), 0),
           \<lparr>mem = \<lparr>blocks = (blocks (mem s))(fresh_block (mem s) \<mapsto> d), fresh_block = Suc (fresh_block (mem s))\<rparr>,
            world = w\<rparr>))"

definition memPoolFree :: "pointer \<Rightarrow> 'w sys \<Rightarrow> 'w sys option" where
  "memPoolFree p s =
     (if snd p = 0 \<and> blocks (mem s) (fst p) \<noteq> None
      then Some (s\<lparr>mem := (mem s)\<lparr>blocks := (blocks (mem s))(fst p := None)\<rparr>\<rparr>)
      else None)"

subsection \<open>Multi-part buffers\<close>

abbreviation (input) NET_MEM_POOL_BUFFER_SIZE :: nat where "NET_MEM_POOL_BUFFER_SIZE \<equiv> 1536"
abbreviation (input) MAX_CHUNK_COUNT :: nat where "MAX_CHUNK_COUNT \<equiv> 9"
abbreviation (input) CHUNKED_BUFFER_HEADER_SIZE :: nat where "CHUNKED_BUFFER_HEADER_SIZE \<equiv> 80"

record ChunkDesc =
  chunk_address :: "pointer option"
  chunk_length :: nat
  chunk_size :: nat

record NetBuffer =
  maxChunkCount :: nat
  chunks :: "ChunkDesc list"

abbreviation chunkCount :: "NetBuffer \<Rightarrow> nat" where "chunkCount b \<equiv> length (chunks b)"

text \<open>A pointer into a chunk; arithmetic on a null pointer is undefined.\<close>

definition chunk_at :: "ChunkDesc \<Rightarrow> nat \<Rightarrow> pointer option" where
  "chunk_at c i = map_option (\<lambda>(b, k). (b, k + i)) (chunk_address c)"

definition netBufferGetLength :: "NetBuffer \<Rightarrow> nat" where
  "netBufferGetLength b = fold (\<lambda>c n. n + chunk_length c) (chunks b) 0"

text \<open>
  \<open>netBufferSetLength\<close>.  The first loop walks over the chunks while length is left; it yields the
  chunks it passed, the length left, and the chunks behind them.
\<close>

fun adjust_chunks :: "ChunkDesc list \<Rightarrow> nat \<Rightarrow> ChunkDesc list \<times> nat \<times> ChunkDesc list" where
  "adjust_chunks [] len = ([], len, [])"
| "adjust_chunks (c # cs) len =
     (if len = 0 then ([], 0, c # cs)
      else
        let c' = (if len \<le> chunk_length c then c\<lparr>chunk_length := len\<rparr>
                  else if chunk_size c > 0 \<and> cs = [] then c\<lparr>chunk_length := min len (chunk_size c)\<rparr>
                  else c);
            (kept, left, rest) = adjust_chunks cs (len - chunk_length c')
        in (c' # kept, left, rest))"

fun free_chunks :: "ChunkDesc list \<Rightarrow> 'w sys \<Rightarrow> 'w sys option" where
  "free_chunks [] s = Some s"
| "free_chunks (c # cs) s =
     (if chunk_size c > 0
      then do { p \<leftarrow> chunk_address c; s \<leftarrow> memPoolFree p s; free_chunks cs s }
      else free_chunks cs s)"

text \<open>The last loop adds chunks; \<open>room\<close> is \<open>maxChunkCount - i\<close>.\<close>

fun grow_chunks ::
    "'w allocator \<Rightarrow> nat \<Rightarrow> ChunkDesc list \<Rightarrow> nat \<Rightarrow> 'w sys \<Rightarrow> error_t \<times> ChunkDesc list \<times> 'w sys" where
  "grow_chunks alloc 0 cs len s = (if len > 0 then ERROR_OUT_OF_RESOURCES else NO_ERROR, cs, s)"
| "grow_chunks alloc (Suc room) cs len s =
     (if len > 0 then
        (case memPoolAlloc alloc NET_MEM_POOL_BUFFER_SIZE s of
           (None, s) \<Rightarrow> (ERROR_OUT_OF_MEMORY, cs, s)
         | (Some p, s) \<Rightarrow>
             let n = min len NET_MEM_POOL_BUFFER_SIZE
             in grow_chunks alloc room
                  (cs @ [\<lparr>chunk_address = Some p, chunk_length = n, chunk_size = NET_MEM_POOL_BUFFER_SIZE\<rparr>])
                  (len - n) s)
      else (NO_ERROR, cs, s))"

definition netBufferSetLength ::
    "'w allocator \<Rightarrow> NetBuffer \<Rightarrow> nat \<Rightarrow> 'w sys \<Rightarrow> (error_t \<times> NetBuffer \<times> 'w sys) option" where
  "netBufferSetLength alloc b len s =
     (case adjust_chunks (chunks b) len of (kept, left, rest) \<Rightarrow>
        if left = 0 then do {
          s \<leftarrow> free_chunks rest s;
          Some (NO_ERROR, b\<lparr>chunks := kept\<rparr>, s)
        }
        else
          (case grow_chunks alloc (maxChunkCount b - length kept) kept left s of (e, cs, s) \<Rightarrow>
             Some (e, b\<lparr>chunks := cs\<rparr>, s)))"

text \<open>
  \<open>netBufferAlloc\<close> places the descriptors at the start of the block it allocates; they are the value
  returned, and the first chunk is the rest of the block.  \<open>netBufferFree\<close> gets both back.
\<close>

definition netBufferFree :: "'w allocator \<Rightarrow> pointer \<Rightarrow> NetBuffer \<Rightarrow> 'w sys \<Rightarrow> 'w sys option" where
  "netBufferFree alloc p b s = do {
     (_, _, s) \<leftarrow> netBufferSetLength alloc b 0 s;
     memPoolFree p s
   }"

definition netBufferAlloc ::
    "'w allocator \<Rightarrow> nat \<Rightarrow> 'w sys \<Rightarrow> ((pointer \<times> NetBuffer) option \<times> 'w sys) option" where
  "netBufferAlloc alloc len s =
     (case memPoolAlloc alloc NET_MEM_POOL_BUFFER_SIZE s of
        (None, s) \<Rightarrow> Some (None, s)
      | (Some p, s) \<Rightarrow> do {
          let b = \<lparr>maxChunkCount = MAX_CHUNK_COUNT, chunks =
            [\<lparr>chunk_address = Some (fst p, snd p + CHUNKED_BUFFER_HEADER_SIZE),
              chunk_length = NET_MEM_POOL_BUFFER_SIZE - CHUNKED_BUFFER_HEADER_SIZE, chunk_size = 0\<rparr>]\<rparr>;
          (error, b, s) \<leftarrow> netBufferSetLength alloc b len s;
          if error \<noteq> NO_ERROR then do { s \<leftarrow> netBufferFree alloc p b s; Some (None, s) }
          else Some (Some (p, b), s)
        })"

text \<open>The search loop of \<open>netBufferAt\<close>, \<open>netBufferConcat\<close> and \<open>netBufferCopy\<close>: the chunk that holds the
  offset with the chunks behind it, and the offset in it.\<close>

fun skip_chunks :: "ChunkDesc list \<Rightarrow> nat \<Rightarrow> (ChunkDesc list \<times> nat) option" where
  "skip_chunks [] off = None"
| "skip_chunks (c # cs) off =
     (if off < chunk_length c then Some (c # cs, off) else skip_chunks cs (off - chunk_length c))"

definition netBufferAt :: "NetBuffer \<Rightarrow> nat \<Rightarrow> pointer option" where
  "netBufferAt b off =
     (case skip_chunks (chunks b) off of
        Some (c # _, off) \<Rightarrow> chunk_at c off
      | _ \<Rightarrow> None)"

fun concat_chunks :: "nat \<Rightarrow> ChunkDesc list \<Rightarrow> ChunkDesc list \<Rightarrow> nat \<Rightarrow> nat \<Rightarrow> (error_t \<times> ChunkDesc list) option" where
  "concat_chunks room ds [] off len = Some (if len > 0 then ERROR_FAILURE else NO_ERROR, ds)"
| "concat_chunks room ds (c # cs) off len =
     (if len > 0 \<and> room > 0 then do {
        p \<leftarrow> chunk_at c off;
        let n = min len (chunk_length c - off);
        concat_chunks (room - 1) (ds @ [\<lparr>chunk_address = Some p, chunk_length = n, chunk_size = 0\<rparr>]) cs 0 (len - n)
      }
      else Some (if len > 0 then ERROR_FAILURE else NO_ERROR, ds))"

definition netBufferConcat :: "NetBuffer \<Rightarrow> NetBuffer \<Rightarrow> nat \<Rightarrow> nat \<Rightarrow> (error_t \<times> NetBuffer) option" where
  "netBufferConcat dest src off len =
     (case skip_chunks (chunks src) off of
        None \<Rightarrow> Some (ERROR_INVALID_PARAMETER, dest)
      | Some (cs, off) \<Rightarrow> do {
          (e, ds) \<leftarrow> concat_chunks (maxChunkCount dest - chunkCount dest) (chunks dest) cs off len;
          Some (e, dest\<lparr>chunks := ds\<rparr>)
        })"

text \<open>The copy loop keeps the chunks it has not passed and the offsets in the first of them.\<close>

function copy_chunks :: "ChunkDesc list \<Rightarrow> nat \<Rightarrow> ChunkDesc list \<Rightarrow> nat \<Rightarrow> nat \<Rightarrow> heap \<Rightarrow> (error_t \<times> heap) option" where
  "copy_chunks (d # ds) doff (c # cs) off len h =
     (if len > 0 then do {
        p \<leftarrow> chunk_at d doff;
        q \<leftarrow> chunk_at c off;
        let n = min (min len (chunk_length d - doff)) (chunk_length c - off);
        h \<leftarrow> memcpy h p q n;
        (if doff + n \<ge> chunk_length d
         then if off + n \<ge> chunk_length c then copy_chunks ds 0 cs 0 (len - n) h
              else copy_chunks ds 0 (c # cs) (off + n) (len - n) h
         else if off + n \<ge> chunk_length c then copy_chunks (d # ds) (doff + n) cs 0 (len - n) h
              else copy_chunks (d # ds) (doff + n) (c # cs) (off + n) (len - n) h)
      }
      else Some (NO_ERROR, h))"
| "copy_chunks [] doff cs off len h = Some (if len > 0 then ERROR_FAILURE else NO_ERROR, h)"
| "copy_chunks (d # ds) doff [] off len h = Some (if len > 0 then ERROR_FAILURE else NO_ERROR, h)"
  by pat_completeness auto

termination
  by (relation "measure (\<lambda>(ds, doff, cs, off, len, h). length ds + length cs + len)") (auto simp: less_Suc_eq_le)

definition netBufferCopy :: "NetBuffer \<Rightarrow> nat \<Rightarrow> NetBuffer \<Rightarrow> nat \<Rightarrow> nat \<Rightarrow> heap \<Rightarrow> (error_t \<times> heap) option" where
  "netBufferCopy dest doff src off len h =
     (case skip_chunks (chunks dest) doff of
        None \<Rightarrow> Some (ERROR_INVALID_PARAMETER, h)
      | Some (ds, doff) \<Rightarrow>
          (case skip_chunks (chunks src) off of
             None \<Rightarrow> Some (ERROR_INVALID_PARAMETER, h)
           | Some (cs, off) \<Rightarrow> copy_chunks ds doff cs off len h))"

text \<open>The length of a chunk is a \<open>uint16_t\<close>.\<close>

definition netBufferAppend :: "NetBuffer \<Rightarrow> pointer \<Rightarrow> nat \<Rightarrow> error_t \<times> NetBuffer" where
  "netBufferAppend dest src len =
     (if chunkCount dest \<ge> maxChunkCount dest then (ERROR_FAILURE, dest)
      else (NO_ERROR, dest\<lparr>chunks := chunks dest @
        [\<lparr>chunk_address = Some src, chunk_length = len mod 65536, chunk_size = 0\<rparr>]\<rparr>))"

fun write_chunks :: "ChunkDesc list \<Rightarrow> nat \<Rightarrow> buffer \<Rightarrow> heap \<Rightarrow> (nat \<times> heap) option" where
  "write_chunks [] off vs h = Some (0, h)"
| "write_chunks (c # cs) off vs h =
     (if vs = [] then Some (0, h)
      else if off < chunk_length c then do {
        p \<leftarrow> chunk_at c off;
        let n = min (length vs) (chunk_length c - off);
        h \<leftarrow> store_bytes h p (take n vs);
        (m, h) \<leftarrow> write_chunks cs 0 (drop n vs) h;
        Some (n + m, h)
      }
      else write_chunks cs (off - chunk_length c) vs h)"

definition netBufferWrite :: "NetBuffer \<Rightarrow> nat \<Rightarrow> buffer \<Rightarrow> heap \<Rightarrow> (nat \<times> heap) option" where
  "netBufferWrite dest off vs h = write_chunks (chunks dest) off vs h"

text \<open>The bytes \<open>netBufferRead\<close> stores at its destination; their number is its return value.\<close>

fun read_chunks :: "ChunkDesc list \<Rightarrow> nat \<Rightarrow> nat \<Rightarrow> heap \<Rightarrow> buffer option" where
  "read_chunks [] off len h = Some []"
| "read_chunks (c # cs) off len h =
     (if len = 0 then Some []
      else if off < chunk_length c then do {
        p \<leftarrow> chunk_at c off;
        let n = min len (chunk_length c - off);
        d \<leftarrow> load h p n;
        r \<leftarrow> read_chunks cs 0 (len - n) h;
        Some (d @ r)
      }
      else read_chunks cs (off - chunk_length c) len h)"

definition netBufferRead :: "NetBuffer \<Rightarrow> nat \<Rightarrow> nat \<Rightarrow> heap \<Rightarrow> buffer option" where
  "netBufferRead src off len h = read_chunks (chunks src) off len h"

end
