(* ===== verification/NetMemSpec.thy ===== *)
theory NetMemSpec
  imports NetMem
begin

text \<open>
  A multi-part buffer as the sequence of its bytes: \<open>contents\<close> is the abstraction, \<open>chunks_ok\<close> the
  invariant, and every operation of \<open>NetMem\<close> is a list operation on the contents.
\<close>

definition chunk_bytes :: "heap \<Rightarrow> ChunkDesc \<Rightarrow> buffer" where
  "chunk_bytes h c =
     (case chunk_address c of
        None \<Rightarrow> []
      | Some (b, k) \<Rightarrow> (case blocks h b of None \<Rightarrow> [] | Some d \<Rightarrow> take (chunk_length c) (drop k d)))"

definition chunk_ok :: "heap \<Rightarrow> ChunkDesc \<Rightarrow> bool" where
  "chunk_ok h c \<longleftrightarrow>
     (\<exists>b k d. chunk_address c = Some (b, k) \<and> blocks h b = Some d \<and> k + chunk_length c \<le> length d)"

definition chunk_block :: "ChunkDesc \<Rightarrow> nat" where
  "chunk_block c = fst (the (chunk_address c))"

abbreviation chunk_blocks :: "ChunkDesc list \<Rightarrow> nat set" where
  "chunk_blocks cs \<equiv> chunk_block ` set cs"

definition contents :: "heap \<Rightarrow> ChunkDesc list \<Rightarrow> buffer" where
  "contents h cs = concat (map (chunk_bytes h) cs)"

definition chunks_total :: "ChunkDesc list \<Rightarrow> nat" where
  "chunks_total cs = sum_list (map chunk_length cs)"

definition chunks_ok :: "heap \<Rightarrow> ChunkDesc list \<Rightarrow> bool" where
  "chunks_ok h cs \<longleftrightarrow> (\<forall>c \<in> set cs. chunk_ok h c)"

lemma contents_simps [simp]:
  "contents h [] = []" "contents h (c # cs) = chunk_bytes h c @ contents h cs"
  "contents h (cs @ ds) = contents h cs @ contents h ds"
  by (simp_all add: contents_def)

lemma total_simps [simp]:
  "chunks_total [] = 0" "chunks_total (c # cs) = chunk_length c + chunks_total cs" "chunks_total (cs @ ds) = chunks_total cs + chunks_total ds"
  by (simp_all add: chunks_total_def)

lemma chunks_ok_simps [simp]:
  "chunks_ok h []" "chunks_ok h (c # cs) \<longleftrightarrow> chunk_ok h c \<and> chunks_ok h cs"
  "chunks_ok h (cs @ ds) \<longleftrightarrow> chunks_ok h cs \<and> chunks_ok h ds"
  by (auto simp: chunks_ok_def)

lemma length_chunk_bytes [simp]: "chunk_ok h c \<Longrightarrow> length (chunk_bytes h c) = chunk_length c"
  by (auto simp: chunk_ok_def chunk_bytes_def)

lemma length_contents [simp]: "chunks_ok h cs \<Longrightarrow> length (contents h cs) = chunks_total cs"
  by (induction cs) auto

lemma getLength_fold: "fold (\<lambda>c n. n + chunk_length c) cs k = k + chunks_total cs"
  by (induction cs arbitrary: k) auto

lemma netBufferGetLength_eq: "netBufferGetLength b = chunks_total (chunks b)"
  by (simp add: netBufferGetLength_def getLength_fold)

subsection \<open>Reading\<close>

lemma load_chunk:
  assumes "chunk_ok h c" and "i + n \<le> chunk_length c"
  shows "\<exists>p. chunk_at c i = Some p \<and> fst p = chunk_block c \<and> load h p n = Some (take n (drop i (chunk_bytes h c)))"
  using assms by (auto simp: chunk_ok_def chunk_at_def load_def rds_def chunk_bytes_def chunk_block_def drop_take add.commute)

lemma read_chunks_eq:
  "chunks_ok h cs \<Longrightarrow> read_chunks cs off len h = Some (take len (drop off (contents h cs)))"
proof (induction cs off len h rule: read_chunks.induct)
  case (2 c cs off len h)
  show ?case
  proof (cases "len = 0 \<or> chunk_length c \<le> off")
    case True
    then show ?thesis using 2 by (auto simp: drop_append)
  next
    case False
    let ?n = "min len (chunk_length c - off)"
    have "off + ?n \<le> chunk_length c" using False by arith
    with load_chunk [of h c off ?n] 2(3) obtain p where
      p: "chunk_at c off = Some p" "load h p ?n = Some (take ?n (drop off (chunk_bytes h c)))"
      unfolding chunks_ok_simps by blast
    have "read_chunks cs 0 (len - ?n) h = Some (take (len - ?n) (drop 0 (contents h cs)))"
      using 2(1) [OF _ _ p(1) refl p(2)] 2(3) False by simp
    with p False 2(3) show ?thesis by (auto simp: min_def)
  qed
qed simp

subsection \<open>Writing\<close>

text \<open>\<open>writes_in B h h'\<close>: only bytes of the blocks \<open>B\<close> changed.\<close>

definition writes_in :: "nat set \<Rightarrow> heap \<Rightarrow> heap \<Rightarrow> bool" where
  "writes_in B h h' \<longleftrightarrow> fresh_block h' = fresh_block h \<and> (\<forall>b. b \<notin> B \<longrightarrow> blocks h' b = blocks h b) \<and>
     (\<forall>b. map_option length (blocks h' b) = map_option length (blocks h b))"

lemma writes_in_refl [simp]: "writes_in B h h"
  by (simp add: writes_in_def)

lemma writes_in_trans: "writes_in A h h1 \<Longrightarrow> writes_in B h1 h2 \<Longrightarrow> A \<subseteq> C \<Longrightarrow> B \<subseteq> C \<Longrightarrow> writes_in C h h2"
  unfolding writes_in_def by (metis subsetD)

lemma writes_in_mono: "writes_in A h h1 \<Longrightarrow> A \<subseteq> C \<Longrightarrow> writes_in C h h1"
  by (auto simp: writes_in_def)

lemma chunk_ok_length:
  "chunk_ok h c \<longleftrightarrow> (\<exists>b k n. chunk_address c = Some (b, k) \<and> map_option length (blocks h b) = Some n \<and>
     k + chunk_length c \<le> n)"
  by (auto simp: chunk_ok_def)

lemma chunk_ok_writes: "writes_in B h h' \<Longrightarrow> chunk_ok h' c \<longleftrightarrow> chunk_ok h c"
  by (simp add: chunk_ok_length writes_in_def)

lemma chunks_ok_writes: "writes_in B h h' \<Longrightarrow> chunks_ok h' cs \<longleftrightarrow> chunks_ok h cs"
  by (simp add: chunks_ok_def chunk_ok_writes)

lemma chunk_bytes_frame: "writes_in B h h' \<Longrightarrow> chunk_block c \<notin> B \<Longrightarrow> chunk_bytes h' c = chunk_bytes h c"
  by (auto simp: writes_in_def chunk_bytes_def chunk_block_def split: option.splits)

lemma contents_frame: "writes_in B h h' \<Longrightarrow> chunk_blocks cs \<inter> B = {} \<Longrightarrow> contents h' cs = contents h cs"
  unfolding contents_def by (intro arg_cong [of _ _ concat] map_cong) (auto intro: chunk_bytes_frame)

lemma take_drop_blit:
  assumes "k + n \<le> length d" and "i + length vs \<le> n"
  shows "take n (drop k (blit d (k + i) vs)) = blit (take n (drop k d)) i vs"
  using assms by (intro nth_equalityI) (auto simp: nth_blit)

lemma store_chunk:
  assumes "chunk_ok h c" and "i + length vs \<le> chunk_length c"
  shows "\<exists>p h'. chunk_at c i = Some p \<and> fst p = chunk_block c \<and> store_bytes h p vs = Some h' \<and>
    writes_in {chunk_block c} h h' \<and> chunk_bytes h' c = blit (chunk_bytes h c) i vs"
proof -
  from assms(1) obtain b k d where c: "chunk_address c = Some (b, k)" "blocks h b = Some d" "k + chunk_length c \<le> length d"
    by (auto simp: chunk_ok_def)
  with assms(2) show ?thesis
    by (auto simp: chunk_at_def store_bytes_def wrs_def chunk_block_def writes_in_def chunk_bytes_def
        take_drop_blit [where k = k])
qed

lemma blit_append_left: "i + length vs \<le> length xs \<Longrightarrow> blit (xs @ ys) i vs = blit xs i vs @ ys"
  by (simp add: blit_def)

lemma blit_append_right: "length xs \<le> i \<Longrightarrow> blit (xs @ ys) i vs = xs @ blit ys (i - length xs) vs"
  by (simp add: blit_def)

lemma take_drop_append: "take k vs @ drop k vs @ ys = vs @ ys"
  by (simp flip: append_assoc)

lemma blit_append_cross:
  assumes "i \<le> length xs" and "length xs - i \<le> length vs"
  shows "blit (xs @ ys) i vs = blit xs i (take (length xs - i) vs) @ blit ys 0 (drop (length xs - i) vs)"
proof -
  have "drop (i + length vs) (xs @ ys) = drop (length vs - (length xs - i)) ys"
    using assms by (simp add: add.commute)
  with assms show ?thesis by (simp add: blit_def take_drop_append)
qed

definition block_distinct :: "ChunkDesc list \<Rightarrow> bool" where
  "block_distinct cs \<longleftrightarrow> distinct (map chunk_block cs)"

lemma block_distinct_simps [simp]:
  "block_distinct []" "block_distinct (c # cs) \<longleftrightarrow> chunk_block c \<notin> chunk_blocks cs \<and> block_distinct cs"
  by (simp_all add: block_distinct_def)

lemma write_chunks_eq:
  assumes "chunks_ok h cs" and "block_distinct cs"
  shows "\<exists>h'. write_chunks cs off vs h = Some (min (length vs) (chunks_total cs - off), h') \<and>
    writes_in (chunk_blocks cs) h h' \<and> contents h' cs = blit (contents h cs) off (take (chunks_total cs - off) vs)"
  using assms
proof (induction cs off vs h rule: write_chunks.induct)
  case (2 c cs off vs h)
  show ?case
  proof (cases "vs = [] \<or> chunk_length c \<le> off")
    case True
    show ?thesis
    proof (cases "vs = []")
      case False
      with True have off: "chunk_length c \<le> off" by simp
      from 2(2) [OF False _] 2(3,4) off obtain h' where
        h: "write_chunks cs (off - chunk_length c) vs h = Some (min (length vs) (chunks_total cs - (off - chunk_length c)), h')"
          "writes_in (chunk_blocks cs) h h'"
          "contents h' cs = blit (contents h cs) (off - chunk_length c) (take (chunks_total cs - (off - chunk_length c)) vs)"
        by auto
      have "chunk_bytes h' c = chunk_bytes h c" using 2(4) h(2) by (intro chunk_bytes_frame) auto
      with h 2(3) off False show ?thesis by (auto simp: blit_append_right add.commute intro: writes_in_mono)
    qed simp
  next
    case False
    let ?n = "min (length vs) (chunk_length c - off)"
    have "off + length (take ?n vs) \<le> chunk_length c" using False by auto
    with store_chunk [of h c off "take ?n vs"] 2(3) obtain p h1 where
      p: "chunk_at c off = Some p" "store_bytes h p (take ?n vs) = Some h1" "writes_in {chunk_block c} h h1"
        "chunk_bytes h1 c = blit (chunk_bytes h c) off (take ?n vs)"
      unfolding chunks_ok_simps by blast
    have "chunks_ok h1 cs" using 2(3) p(3) by (simp add: chunks_ok_writes)
    with 2(1) [OF _ _ p(1) refl p(2)] 2(4) False obtain h2 where
      h: "write_chunks cs 0 (drop ?n vs) h1 = Some (min (length (drop ?n vs)) (chunks_total cs), h2)"
        "writes_in (chunk_blocks cs) h1 h2"
        "contents h2 cs = blit (contents h1 cs) 0 (take (chunks_total cs) (drop ?n vs))" by auto
    have 1: "chunk_bytes h2 c = chunk_bytes h1 c" using 2(4) h(2) by (intro chunk_bytes_frame) auto
    have 2: "contents h1 cs = contents h cs" by (rule contents_frame [OF p(3)]) (use 2(4) in auto)
    have "writes_in (chunk_blocks (c # cs)) h h2" by (rule writes_in_trans [OF p(3) h(2)]) auto
    moreover have "?n + min (length (drop ?n vs)) (chunks_total cs) = min (length vs) (chunks_total (c # cs) - off)" using False by auto
    moreover have "contents h2 (c # cs) = blit (contents h (c # cs)) off (take (chunks_total (c # cs) - off) vs)"
    proof (cases "length vs \<le> chunk_length c - off")
      case True
      then have "off + length vs \<le> chunk_length c" using False by arith
      with True \<open>chunks_ok h1 cs\<close> 1 2 p h "2.prems" False show ?thesis by (simp add: blit_append_left)
    next
      case long: False
      have "take (chunk_length c - off) (take (chunks_total (c # cs) - off) vs) = take ?n vs"
        "drop (chunk_length c - off) (take (chunks_total (c # cs) - off) vs) = take (chunks_total cs) (drop ?n vs)"
        using False long by (auto simp: drop_take)
      with 1 2 p h "2.prems" False long show ?thesis by (simp add: blit_append_cross)
    qed
    ultimately show ?thesis using p h False by auto
  qed
qed simp

subsection \<open>Positions\<close>

lemma skip_chunks_Some:
  assumes "off < chunks_total cs"
  obtains pre c ds i where "skip_chunks cs off = Some (c # ds, i)" "cs = pre @ c # ds" "off = chunks_total pre + i"
    "i < chunk_length c"
proof -
  have "\<exists>pre c ds i. skip_chunks cs off = Some (c # ds, i) \<and> cs = pre @ c # ds \<and> off = chunks_total pre + i \<and>
      i < chunk_length c"
    using assms
  proof (induction cs arbitrary: off)
    case (Cons c cs)
    show ?case
    proof (cases "off < chunk_length c")
      case True
      then show ?thesis by (auto intro!: exI [of _ "[]"])
    next
      case False
      with Cons.prems have "off - chunk_length c < chunks_total cs" by simp
      from Cons.IH [OF this] obtain pre d ds i where
        "skip_chunks cs (off - chunk_length c) = Some (d # ds, i)" "cs = pre @ d # ds"
        "off - chunk_length c = chunks_total pre + i" "i < chunk_length d" by blast
      with False show ?thesis by (auto intro!: exI [of _ "c # pre"])
    qed
  qed simp
  with that show thesis by blast
qed

lemma skip_chunks_None: "chunks_total cs \<le> off \<Longrightarrow> skip_chunks cs off = None"
  by (induction cs arbitrary: off) auto

lemma contents_at:
  assumes "chunks_ok h pre" and "off = chunks_total pre + i"
  shows "drop off (contents h (pre @ cs)) = drop i (contents h cs)"
  using assms by simp

subsection \<open>Copying\<close>

lemma memcpy_chunks:
  assumes "chunk_ok h d" and "chunk_ok h c" and "chunk_block d \<noteq> chunk_block c"
    and "i + n \<le> chunk_length d" and "j + n \<le> chunk_length c"
  shows "\<exists>p q h'. chunk_at d i = Some p \<and> chunk_at c j = Some q \<and> memcpy h p q n = Some h' \<and>
    writes_in {chunk_block d} h h' \<and> chunk_bytes h' d = blit (chunk_bytes h d) i (take n (drop j (chunk_bytes h c)))"
proof -
  from load_chunk [OF assms(2,5)] obtain q where
    q: "chunk_at c j = Some q" "fst q = chunk_block c" "load h q n = Some (take n (drop j (chunk_bytes h c)))" by blast
  have len: "length (take n (drop j (chunk_bytes h c))) = n" using assms(2,5) by simp
  then have "i + length (take n (drop j (chunk_bytes h c))) \<le> chunk_length d" using assms(4) by simp
  from store_chunk [OF assms(1) this] obtain p h' where
    p: "chunk_at d i = Some p" "fst p = chunk_block d" "store_bytes h p (take n (drop j (chunk_bytes h c))) = Some h'"
      "writes_in {chunk_block d} h h'" "chunk_bytes h' d = blit (chunk_bytes h d) i (take n (drop j (chunk_bytes h c)))"
    by blast
  have "memcpy h p q n = Some h'" using p q assms(3) by (simp add: memcpy_def)
  with p q show ?thesis by blast
qed

lemma copy_chunks_eq:
  assumes "chunks_ok h ds" and "chunks_ok h cs" and "block_distinct ds" and "chunk_blocks ds \<inter> chunk_blocks cs = {}"
    and "\<And>d ds'. ds = d # ds' \<Longrightarrow> doff \<le> chunk_length d" and "\<And>c cs'. cs = c # cs' \<Longrightarrow> off \<le> chunk_length c"
    and "len \<le> chunks_total ds - doff" and "len \<le> chunks_total cs - off"
  shows "\<exists>h'. copy_chunks ds doff cs off len h = Some (NO_ERROR, h') \<and> writes_in (chunk_blocks ds) h h' \<and>
    contents h' ds = blit (contents h ds) doff (take len (drop off (contents h cs)))"
  using assms
proof (induction ds doff cs off len h rule: copy_chunks.induct)
  case (1 d ds doff c cs off len h)
  show ?case
  proof (cases "len = 0")
    case False
    define n where "n = min (min len (chunk_length d - doff)) (chunk_length c - off)"
    let ?D = "contents h (d # ds)" and ?S = "contents h (c # cs)"
    have dl: "doff \<le> chunk_length d" and cl: "off \<le> chunk_length c" using 1(9,10) by auto
    have le: "doff + n \<le> chunk_length d" "off + n \<le> chunk_length c" "n \<le> len" using dl cl by (auto simp: n_def)
    have ne: "chunk_block d \<noteq> chunk_block c" using 1(8) by auto
    from 1(5,6) have ok: "chunk_ok h d" "chunks_ok h ds" "chunk_ok h c" "chunks_ok h cs" by simp_all
    from memcpy_chunks [OF ok(1,3) ne le(1,2)] obtain p q h1 where
      m: "chunk_at d doff = Some p" "chunk_at c off = Some q" "memcpy h p q n = Some h1" "writes_in {chunk_block d} h h1"
        "chunk_bytes h1 d = blit (chunk_bytes h d) doff (take n (drop off (chunk_bytes h c)))" by blast
    have frame: "contents h1 ds = contents h ds" "contents h1 (c # cs) = ?S" "contents h1 cs = contents h cs"
      by (rule contents_frame [OF m(4)]; use 1(7,8) in auto)+
    have ok1: "chunks_ok h1 (d # ds)" "chunks_ok h1 (c # cs)" using 1(5,6) m(4) by (simp_all add: chunks_ok_writes chunk_ok_writes)
    have D1: "contents h1 (d # ds) = blit ?D doff (take n (drop off ?S))"
      using m(5) frame(1) le ok by (simp add: blit_append_left drop_append)
    let ?Y = "take (len - n) (drop (off + n) ?S)"
    have len_tot: "len \<le> chunk_length d + chunks_total ds - doff" "len \<le> chunk_length c + chunks_total cs - off"
      using 1(11,12) by simp_all
    have lenX: "length (take n (drop off ?S)) = n" using ok le len_tot cl by simp
    have "\<exists>h'. (if doff + n \<ge> chunk_length d
         then if off + n \<ge> chunk_length c then copy_chunks ds 0 cs 0 (len - n) h1
              else copy_chunks ds 0 (c # cs) (off + n) (len - n) h1
         else if off + n \<ge> chunk_length c then copy_chunks (d # ds) (doff + n) cs 0 (len - n) h1
              else copy_chunks (d # ds) (doff + n) (c # cs) (off + n) (len - n) h1) = Some (NO_ERROR, h') \<and>
       writes_in (chunk_blocks (d # ds)) h1 h' \<and> contents h' (d # ds) = blit (contents h1 (d # ds)) (doff + n) ?Y"
    proof (cases "doff + n \<ge> chunk_length d")
      case True
      then have dn: "doff + n = chunk_length d" using le by simp
      have X: "\<exists>h'. (if off + n \<ge> chunk_length c then copy_chunks ds 0 cs 0 (len - n) h1
              else copy_chunks ds 0 (c # cs) (off + n) (len - n) h1) = Some (NO_ERROR, h') \<and>
          writes_in (chunk_blocks ds) h1 h' \<and> contents h' ds = blit (contents h1 ds) 0 ?Y"
      proof (cases "off + n \<ge> chunk_length c")
        case True
        then have cn: "off + n = chunk_length c" using le by simp
        have "\<exists>h'. copy_chunks ds 0 cs 0 (len - n) h1 = Some (NO_ERROR, h') \<and> writes_in (chunk_blocks ds) h1 h' \<and>
          contents h' ds = blit (contents h1 ds) 0 (take (len - n) (drop 0 (contents h1 cs)))"
          by (rule 1(1) [OF _ m(1) m(2) n_def m(3)]) (use False dn cn ok1 1(7,8) len_tot in auto)
        moreover have "contents h1 cs = drop (off + n) ?S" using frame(3) ok cn by simp
        ultimately show ?thesis using cn by simp
      next
        case cn: False
        have "\<exists>h'. copy_chunks ds 0 (c # cs) (off + n) (len - n) h1 = Some (NO_ERROR, h') \<and> writes_in (chunk_blocks ds) h1 h' \<and>
          contents h' ds = blit (contents h1 ds) 0 (take (len - n) (drop (off + n) (contents h1 (c # cs))))"
          by (rule 1(2) [OF _ m(1) m(2) n_def m(3)]) (use False dn cn ok1 1(7,8) len_tot in auto)
        with cn frame(2) show ?thesis by simp
      qed
      then obtain h' where h': "(if off + n \<ge> chunk_length c then copy_chunks ds 0 cs 0 (len - n) h1
              else copy_chunks ds 0 (c # cs) (off + n) (len - n) h1) = Some (NO_ERROR, h')"
          "writes_in (chunk_blocks ds) h1 h'" "contents h' ds = blit (contents h1 ds) 0 ?Y" by blast
      have "chunk_bytes h' d = chunk_bytes h1 d" using 1(7) h'(2) by (intro chunk_bytes_frame) auto
      moreover have "writes_in (chunk_blocks (d # ds)) h1 h'" using h'(2) by (rule writes_in_mono) auto
      ultimately show ?thesis using h' True dn ok1 by (simp add: blit_append_right)
    next
      case dn: False
      show ?thesis
      proof (cases "off + n \<ge> chunk_length c")
        case True
        then have cn: "off + n = chunk_length c" using le by simp
        have "\<exists>h'. copy_chunks (d # ds) (doff + n) cs 0 (len - n) h1 = Some (NO_ERROR, h') \<and>
          writes_in (chunk_blocks (d # ds)) h1 h' \<and>
          contents h' (d # ds) = blit (contents h1 (d # ds)) (doff + n) (take (len - n) (drop 0 (contents h1 cs)))"
          by (rule 1(3) [OF _ m(1) m(2) n_def m(3)]) (use False dn cn ok1 1(7,8) len_tot in auto)
        moreover have "contents h1 cs = drop (off + n) ?S" using frame(3) ok cn by simp
        ultimately show ?thesis using dn cn by simp
      next
        case cn: False
        have "\<exists>h'. copy_chunks (d # ds) (doff + n) (c # cs) (off + n) (len - n) h1 = Some (NO_ERROR, h') \<and>
          writes_in (chunk_blocks (d # ds)) h1 h' \<and>
          contents h' (d # ds) = blit (contents h1 (d # ds)) (doff + n) (take (len - n) (drop (off + n) (contents h1 (c # cs))))"
          by (rule 1(4) [OF _ m(1) m(2) n_def m(3)]) (use False dn cn ok1 1(7,8) len_tot in auto)
        with dn cn frame(2) show ?thesis by simp
      qed
    qed
    then obtain h' where h': "(if doff + n \<ge> chunk_length d
         then if off + n \<ge> chunk_length c then copy_chunks ds 0 cs 0 (len - n) h1
              else copy_chunks ds 0 (c # cs) (off + n) (len - n) h1
         else if off + n \<ge> chunk_length c then copy_chunks (d # ds) (doff + n) cs 0 (len - n) h1
              else copy_chunks (d # ds) (doff + n) (c # cs) (off + n) (len - n) h1) = Some (NO_ERROR, h')"
       "writes_in (chunk_blocks (d # ds)) h1 h'" "contents h' (d # ds) = blit (contents h1 (d # ds)) (doff + n) ?Y" by blast
    have c: "copy_chunks (d # ds) doff (c # cs) off len h = Some (NO_ERROR, h')"
      using False m(1-3) h'(1) by (simp add: n_def [symmetric] del: if_split)
    have "contents h' (d # ds) = blit ?D doff (take n (drop off ?S) @ ?Y)"
    proof -
      have "doff + length (take n (drop off ?S)) + length ?Y \<le> length ?D"
        using lenX 1(5) len_tot le dl ok by simp
      from blit_blit [OF this] show ?thesis using h'(3) D1 lenX by simp
    qed
    moreover have "take n (drop off ?S) @ ?Y = take len (drop off ?S)"
      using le(3) by (metis add.commute drop_drop le_add_diff_inverse take_add)
    moreover have "writes_in (chunk_blocks (d # ds)) h h'" by (rule writes_in_trans [OF m(4) h'(2)]) auto
    ultimately show ?thesis using c by metis
  qed simp
qed auto

end
