(* ===== verification/NetMemOwn.thy ===== *)
theory NetMemOwn
  imports NetMemSpec
begin

text \<open>
  Which blocks a multi-part buffer owns, and what allocation, release, resizing and concatenation do
  to them.  A chunk with a non-zero \<open>size\<close> owns its block; the others point into memory of somebody else.
\<close>

definition owning :: "ChunkDesc list \<Rightarrow> ChunkDesc list" where
  "owning cs = filter (\<lambda>c. chunk_size c > 0) cs"

abbreviation owned_blocks :: "ChunkDesc list \<Rightarrow> nat set" where
  "owned_blocks cs \<equiv> chunk_blocks (owning cs)"

definition block_owner :: "heap \<Rightarrow> ChunkDesc \<Rightarrow> bool" where
  "block_owner h c \<longleftrightarrow> (\<exists>b d. chunk_address c = Some (b, 0) \<and> blocks h b = Some d \<and> length d = chunk_size c)"

definition owners_ok :: "heap \<Rightarrow> ChunkDesc list \<Rightarrow> bool" where
  "owners_ok h cs \<longleftrightarrow> (\<forall>c \<in> set (owning cs). block_owner h c) \<and> block_distinct (owning cs)"

definition heap_ok :: "heap \<Rightarrow> bool" where
  "heap_ok h \<longleftrightarrow> (\<forall>b. blocks h b \<noteq> None \<longrightarrow> b < fresh_block h)"

definition live :: "heap \<Rightarrow> nat set" where
  "live h = {b. blocks h b \<noteq> None}"

lemma owning_simps [simp]:
  "owning [] = []" "owning (c # cs) = (if chunk_size c > 0 then c # owning cs else owning cs)"
  "owning (cs @ ds) = owning cs @ owning ds"
  by (simp_all add: owning_def)

lemma owners_ok_simps [simp]:
  "owners_ok h []"
  "owners_ok h (c # cs) \<longleftrightarrow> owners_ok h cs \<and> (chunk_size c > 0 \<longrightarrow> block_owner h c \<and> chunk_block c \<notin> owned_blocks cs)"
  by (auto simp: owners_ok_def)

lemma owners_ok_append:
  "owners_ok h (cs @ ds) \<longleftrightarrow> owners_ok h cs \<and> owners_ok h ds \<and> owned_blocks cs \<inter> owned_blocks ds = {}"
  by (auto simp: owners_ok_def block_distinct_def)

lemma block_owner_length:
  "block_owner h c \<longleftrightarrow> (\<exists>b. chunk_address c = Some (b, 0) \<and> map_option length (blocks h b) = Some (chunk_size c))"
  by (auto simp: block_owner_def)

lemma owners_ok_cong:
  assumes "\<And>b. b \<in> owned_blocks cs \<Longrightarrow> map_option length (blocks h' b) = map_option length (blocks h b)"
  shows "owners_ok h' cs \<longleftrightarrow> owners_ok h cs"
  using assms
proof (induction cs)
  case (Cons c cs)
  have "block_owner h' c \<longleftrightarrow> block_owner h c" if "chunk_size c > 0"
    using Cons.prems [of "chunk_block c"] that
    unfolding block_owner_length by (cases "chunk_address c") (auto simp: chunk_block_def simp del: map_option_eq_Some)
  with Cons show ?case by auto
qed simp

lemma owner_live: "owners_ok h cs \<Longrightarrow> owned_blocks cs \<subseteq> live h"
  by (auto simp: owners_ok_def block_owner_def live_def chunk_block_def)

subsection \<open>Allocation and release\<close>

definition freed :: "nat set \<Rightarrow> heap \<Rightarrow> heap" where
  "freed B h = h\<lparr>blocks := (\<lambda>b. if b \<in> B then None else blocks h b)\<rparr>"

lemma freed_empty [simp]: "freed {} h = h"
  by (simp add: freed_def)

lemma free_chunks_eq:
  "owners_ok (mem s) cs \<Longrightarrow> free_chunks cs s = Some (s\<lparr>mem := freed (owned_blocks cs) (mem s)\<rparr>)"
proof (induction cs arbitrary: s)
  case (Cons c cs)
  show ?case
  proof (cases "chunk_size c > 0")
    case True
    with Cons.prems obtain b d where c: "chunk_address c = Some (b, 0)" "blocks (mem s) b = Some d" "chunk_block c = b"
      "b \<notin> owned_blocks cs" by (auto simp: block_owner_def chunk_block_def)
    let ?s = "s\<lparr>mem := (mem s)\<lparr>blocks := (blocks (mem s))(b := None)\<rparr>\<rparr>"
    have "owners_ok (mem ?s) cs \<longleftrightarrow> owners_ok (mem s) cs" using c(4) by (intro owners_ok_cong) auto
    with Cons.IH [of ?s] Cons.prems have "free_chunks cs ?s = Some (?s\<lparr>mem := freed (owned_blocks cs) (mem ?s)\<rparr>)" by simp
    moreover have "freed (owned_blocks cs) (mem ?s) = freed (owned_blocks (c # cs)) (mem s)"
      using True c(3) by (auto simp: freed_def fun_eq_iff)
    ultimately show ?thesis using True c by (simp add: memPoolFree_def)
  qed (use Cons in simp)
qed simp

lemma memPoolAlloc_cases:
  assumes "alloc_ok alloc" and "memPoolAlloc alloc n s = (r, s')" and "heap_ok (mem s)"
  shows "r = None \<and> mem s' = mem s \<or>
    (\<exists>b d. r = Some (b, 0) \<and> length d = n \<and> b \<notin> live (mem s) \<and> blocks (mem s') = (blocks (mem s))(b \<mapsto> d) \<and>
       heap_ok (mem s') \<and> fresh_block (mem s') = Suc b)"
  using assms
  by (fastforce simp: memPoolAlloc_def alloc_ok_def heap_ok_def live_def split: prod.splits option.splits if_splits)

subsection \<open>Resizing\<close>

definition same_chunk :: "ChunkDesc \<Rightarrow> ChunkDesc \<Rightarrow> bool" where
  "same_chunk c c' \<longleftrightarrow> chunk_address c' = chunk_address c \<and> chunk_size c' = chunk_size c"

lemma same_chunk_simps [simp]: "same_chunk c c" "same_chunk c (c\<lparr>chunk_length := n\<rparr>)"
  by (simp_all add: same_chunk_def)

lemma same_chunk_owners:
  assumes "list_all2 same_chunk cs cs'"
  shows "owned_blocks cs' = owned_blocks cs" and "owners_ok h cs' \<longleftrightarrow> owners_ok h cs"
    and "chunk_blocks cs' = chunk_blocks cs"
proof -
  have b: "same_chunk c c' \<Longrightarrow> chunk_block c' = chunk_block c \<and> chunk_size c' = chunk_size c \<and>
      (block_owner h c' \<longleftrightarrow> block_owner h c)" for c c'
    by (auto simp: same_chunk_def chunk_block_def block_owner_def)
  show 1: "owned_blocks cs' = owned_blocks cs"
    using assms by (induction rule: list_all2_induct) (auto dest: b)
  show "owners_ok h cs' \<longleftrightarrow> owners_ok h cs"
    using assms
  proof (induction rule: list_all2_induct)
    case (Cons x xs y ys)
    have "owned_blocks ys = owned_blocks xs" using Cons.hyps(2) by (induction rule: list_all2_induct) (auto dest: b)
    with Cons b [OF Cons.hyps(1)] show ?case by auto
  qed simp
  show "chunk_blocks cs' = chunk_blocks cs"
    using assms by (induction rule: list_all2_induct) (auto dest: b)
qed

lemma adjust_shrink:
  assumes "chunks_ok h cs" and "len \<le> chunks_total cs"
  shows "\<exists>kept pre rest. adjust_chunks cs len = (kept, 0, rest) \<and> cs = pre @ rest \<and> list_all2 same_chunk pre kept \<and>
    chunks_ok h kept \<and> chunks_total kept = len \<and> contents h kept = take len (contents h cs)"
  using assms
proof (induction cs arbitrary: len)
  case (Cons c cs)
  show ?case
  proof (cases "len = 0")
    case True
    then show ?thesis
      by (intro exI [of _ "[] :: ChunkDesc list"] exI [of _ "c # cs"]) simp
  next
    case False
    show ?thesis
    proof (cases "len \<le> chunk_length c")
      case True
      let ?c = "c\<lparr>chunk_length := len\<rparr>"
      have "adjust_chunks cs 0 = ([], 0, cs)" by (cases cs) auto
      moreover have "chunk_ok h ?c" using Cons.prems(1) True by (auto simp: chunk_ok_def)
      moreover have "chunk_bytes h ?c = take len (chunk_bytes h c)"
        using Cons.prems(1) True by (auto simp: chunk_bytes_def chunk_ok_def min_def)
      ultimately show ?thesis using False True Cons.prems
        by (intro exI [of _ "[?c]"] exI [of _ "[c]"] exI [of _ cs]) auto
    next
      case long: False
      with Cons.prems have ne: "cs \<noteq> []" by auto
      from Cons.prems long have "chunks_ok h cs" "len - chunk_length c \<le> chunks_total cs" by auto
      from Cons.IH [OF this] obtain kept pre rest where
        k: "adjust_chunks cs (len - chunk_length c) = (kept, 0, rest)" "cs = pre @ rest" "list_all2 same_chunk pre kept"
          "chunks_ok h kept" "chunks_total kept = len - chunk_length c"
          "contents h kept = take (len - chunk_length c) (contents h cs)" by blast
      with long ne False Cons.prems show ?thesis
        by (intro exI [of _ "c # kept"] exI [of _ "c # pre"] exI [of _ rest]) auto
    qed
  qed
qed simp

lemma adjust_grow:
  assumes "chunks_ok h cs" and "owners_ok h cs" and "chunks_total cs < len"
  shows "\<exists>kept. adjust_chunks cs len = (kept, len - chunks_total kept, []) \<and> list_all2 same_chunk cs kept \<and> chunks_ok h kept \<and>
    chunks_total kept \<le> len \<and> take (chunks_total cs) (contents h kept) = contents h cs"
  using assms
proof (induction cs arbitrary: len)
  case (Cons c cs)
  have "len \<noteq> 0" "\<not> len \<le> chunk_length c" using Cons.prems by auto
  show ?case
  proof (cases "cs = [] \<and> chunk_size c > 0")
    case True
    let ?c = "c\<lparr>chunk_length := min len (chunk_size c)\<rparr>"
    from True Cons.prems obtain b d where o: "chunk_address c = Some (b, 0)" "blocks h b = Some d" "length d = chunk_size c"
      by (auto simp: block_owner_def)
    have "chunk_ok h ?c" using o by (simp add: chunk_ok_def)
    moreover have "chunk_length c \<le> chunk_size c" using Cons.prems(1) o by (auto simp: chunk_ok_def)
    moreover have "take (chunk_length c) (chunk_bytes h ?c) = chunk_bytes h c"
      using o \<open>chunk_length c \<le> chunk_size c\<close> \<open>\<not> len \<le> chunk_length c\<close> by (simp add: chunk_bytes_def min_def)
    ultimately show ?thesis using True \<open>len \<noteq> 0\<close> \<open>\<not> len \<le> chunk_length c\<close>
      by (intro exI [of _ "[?c]"]) auto
  next
    case False
    have pre: "chunks_ok h cs" "owners_ok h cs" "chunks_total cs < len - chunk_length c" using Cons.prems by auto
    from Cons.IH [OF pre] obtain kept where
      k: "adjust_chunks cs (len - chunk_length c) = (kept, len - chunk_length c - chunks_total kept, [])"
        "list_all2 same_chunk cs kept" "chunks_ok h kept" "chunks_total kept \<le> len - chunk_length c"
        "take (chunks_total cs) (contents h kept) = contents h cs" by blast
    with False \<open>len \<noteq> 0\<close> \<open>\<not> len \<le> chunk_length c\<close> Cons.prems show ?thesis
      by (intro exI [of _ "c # kept"]) auto
  qed
qed simp

lemma grow_chunks_ok:
  assumes "alloc_ok alloc" and "grow_chunks alloc room cs len s = (e, cs', s')" and "heap_ok (mem s)"
  shows "\<exists>new. cs' = cs @ new \<and> heap_ok (mem s') \<and> chunks_ok (mem s') new \<and> owners_ok (mem s') new \<and>
    live (mem s') = live (mem s) \<union> chunk_blocks new \<and> chunk_blocks new \<inter> live (mem s) = {} \<and>
    (\<forall>b \<in> live (mem s). blocks (mem s') b = blocks (mem s) b) \<and> owning new = new \<and>
    (\<forall>c \<in> set new. chunk_size c = 1536) \<and> (\<forall>c \<in> set (butlast new). chunk_length c = 1536) \<and>
    (if e = NO_ERROR then chunks_total new = len else e = ERROR_OUT_OF_MEMORY \<or> e = ERROR_OUT_OF_RESOURCES)"
  using assms(2,3)
proof (induction room arbitrary: cs len s)
  case (Suc room)
  show ?case
  proof (cases "len > 0")
    case True
    obtain r s1 where a: "memPoolAlloc alloc 1536 s = (r, s1)" by fastforce
    from memPoolAlloc_cases [OF assms(1) a Suc.prems(2)] show ?thesis
    proof (elim disjE exE conjE)
      assume "r = None" "mem s1 = mem s"
      with a True Suc.prems show ?thesis by (auto intro!: exI [of _ "[]"])
    next
      fix b d
      assume r: "r = Some (b, 0)" "length d = 1536" "b \<notin> live (mem s)" "blocks (mem s1) = (blocks (mem s))(b \<mapsto> d)"
        "heap_ok (mem s1)"
      define n where "n = min len 1536"
      let ?c = "\<lparr>chunk_address = Some (b, 0 :: nat), chunk_length = n, chunk_size = 1536\<rparr>"
      have "grow_chunks alloc room (cs @ [?c]) (len - n) s1 = (e, cs', s')"
        using Suc.prems(1) a r True by (simp add: Let_def n_def)
      from Suc.IH [OF this r(5)] obtain new where new: "cs' = cs @ ?c # new" "heap_ok (mem s')" "chunks_ok (mem s') new"
        "owners_ok (mem s') new" "live (mem s') = live (mem s1) \<union> chunk_blocks new" "chunk_blocks new \<inter> live (mem s1) = {}"
        "\<And>b. b \<in> live (mem s1) \<Longrightarrow> blocks (mem s') b = blocks (mem s1) b" "owning new = new"
        "\<And>c. c \<in> set new \<Longrightarrow> chunk_size c = 1536" "\<And>c. c \<in> set (butlast new) \<Longrightarrow> chunk_length c = 1536"
        "if e = NO_ERROR then chunks_total new = len - n else e = ERROR_OUT_OF_MEMORY \<or> e = ERROR_OUT_OF_RESOURCES"
        by auto
      have l: "live (mem s1) = insert b (live (mem s))" using r by (auto simp: live_def)
      with new(7) [of b] r have b: "blocks (mem s') b = Some d" by simp
      have c: "chunk_ok (mem s') ?c" "block_owner (mem s') ?c" "chunk_block ?c = b"
        using b r by (auto simp: chunk_ok_def block_owner_def chunk_block_def n_def)
      have keep: "blocks (mem s') x = blocks (mem s) x" if "x \<in> live (mem s)" for x
        using new(7) [of x] that l r by auto
      have full: "n = 1536" if "new \<noteq> []"
      proof (rule ccontr)
        assume "n \<noteq> 1536"
        then have "len - n = 0" by (auto simp: n_def)
        moreover have "grow_chunks alloc room (cs @ [?c]) 0 s1 = (NO_ERROR, cs @ [?c], s1)" by (cases room) auto
        ultimately have "cs' = cs @ [?c]"
          using \<open>grow_chunks alloc room (cs @ [?c]) (len - n) s1 = (e, cs', s')\<close> by simp
        with new(1) that show False by simp
      qed
      have bl: "chunk_length x = 1536" if "x \<in> set (butlast (?c # new))" for x
        using that full new(10) by (cases "new = []") auto
      have "b \<notin> chunk_blocks new" "b \<notin> owned_blocks new" using new(6,8) l by auto
      with new b c keep l r bl show ?thesis
        by (intro exI [of _ "?c # new"]) (auto simp: n_def)
    qed
  qed (use Suc.prems in \<open>auto intro!: exI [of _ "[]"]\<close>)
qed (auto intro!: exI [of _ "[]"] split: if_splits)

definition alias_free :: "ChunkDesc list \<Rightarrow> bool" where
  "alias_free cs \<longleftrightarrow> (\<forall>c \<in> set cs. chunk_size c = 0 \<longrightarrow> chunk_block c \<notin> owned_blocks cs)"

lemma alias_free_same:
  assumes "list_all2 same_chunk cs cs'"
  shows "alias_free cs' \<longleftrightarrow> alias_free cs"
proof -
  have alt: "alias_free ds \<longleftrightarrow> set (map chunk_block (filter (\<lambda>c. chunk_size c = 0) ds)) \<inter> owned_blocks ds = {}" for ds
    by (auto simp: alias_free_def)
  have "map chunk_block (filter (\<lambda>c. chunk_size c = 0) cs') = map chunk_block (filter (\<lambda>c. chunk_size c = 0) cs)"
    using assms by (induction rule: list_all2_induct) (auto simp: same_chunk_def chunk_block_def)
  with same_chunk_owners(1) [OF assms] show ?thesis by (simp only: alt)
qed

lemma alias_free_appendD:
  assumes "alias_free (pre @ rest)" and "owned_blocks pre \<inter> owned_blocks rest = {}"
  shows "alias_free pre" and "chunk_blocks pre \<inter> owned_blocks rest = {}"
proof -
  show "alias_free pre" using assms(1) by (auto simp: alias_free_def)
  show "chunk_blocks pre \<inter> owned_blocks rest = {}"
  proof (rule ccontr)
    assume "chunk_blocks pre \<inter> owned_blocks rest \<noteq> {}"
    then obtain c where c: "c \<in> set pre" "chunk_block c \<in> owned_blocks rest" by auto
    show False
    proof (cases "chunk_size c = 0")
      case True
      with c assms(1) show False by (auto simp: alias_free_def)
    next
      case False
      then have "chunk_block c \<in> owned_blocks pre" using c(1) by (auto simp: owning_def)
      with c(2) assms(2) show False by blast
    qed
  qed
qed

definition nb_ok :: "heap \<Rightarrow> NetBuffer \<Rightarrow> bool" where
  "nb_ok h b \<longleftrightarrow> chunks_ok h (chunks b) \<and> owners_ok h (chunks b) \<and> alias_free (chunks b)"

lemma set_length_zero:
  assumes "owners_ok (mem s) (chunks b)"
  shows "netBufferSetLength alloc b 0 s =
    Some (NO_ERROR, b\<lparr>chunks := []\<rparr>, s\<lparr>mem := freed (owned_blocks (chunks b)) (mem s)\<rparr>)"
proof -
  have "adjust_chunks (chunks b) 0 = ([], 0, chunks b)" by (cases "chunks b") auto
  with free_chunks_eq [OF assms] show ?thesis by (simp add: netBufferSetLength_def)
qed

lemma chunk_ok_freed: "chunk_block c \<notin> B \<Longrightarrow> chunk_ok (freed B h) c \<longleftrightarrow> chunk_ok h c"
  by (auto simp: chunk_ok_def chunk_block_def freed_def)

lemma chunks_ok_freed: "chunk_blocks cs \<inter> B = {} \<Longrightarrow> chunks_ok (freed B h) cs \<longleftrightarrow> chunks_ok h cs"
  unfolding chunks_ok_def by (intro ball_cong refl chunk_ok_freed) auto

lemma contents_freed: "chunk_blocks cs \<inter> B = {} \<Longrightarrow> contents (freed B h) cs = contents h cs"
  unfolding contents_def chunk_bytes_def freed_def chunk_block_def
  by (intro arg_cong [of _ _ concat] map_cong) (auto split: option.splits)

lemma owners_ok_freed: "owned_blocks cs \<inter> B = {} \<Longrightarrow> owners_ok (freed B h) cs \<longleftrightarrow> owners_ok h cs"
  by (intro owners_ok_cong) (auto simp: freed_def)

lemma set_length_shrink:
  assumes "nb_ok (mem s) b" and "len \<le> chunks_total (chunks b)"
  shows "\<exists>kept F. netBufferSetLength alloc b len s =
      Some (NO_ERROR, b\<lparr>chunks := kept\<rparr>, s\<lparr>mem := freed F (mem s)\<rparr>) \<and>
    F \<subseteq> owned_blocks (chunks b) \<and> nb_ok (freed F (mem s)) (b\<lparr>chunks := kept\<rparr>) \<and> chunks_total kept = len \<and>
    owned_blocks kept = owned_blocks (chunks b) - F \<and> chunk_blocks kept \<subseteq> chunk_blocks (chunks b) \<and>
    contents (freed F (mem s)) kept = take len (contents (mem s) (chunks b))"
proof -
  from assms have ok: "chunks_ok (mem s) (chunks b)" "owners_ok (mem s) (chunks b)" "alias_free (chunks b)"
    by (simp_all add: nb_ok_def)
  from adjust_shrink [OF ok(1) assms(2)] obtain kept pre rest where
    k: "adjust_chunks (chunks b) len = (kept, 0, rest)" "chunks b = pre @ rest" "list_all2 same_chunk pre kept"
      "chunks_ok (mem s) kept" "chunks_total kept = len" "contents (mem s) kept = take len (contents (mem s) (chunks b))"
    by blast
  note same = same_chunk_owners [OF k(3)]
  from ok(2) k(2) have o: "owners_ok (mem s) pre" "owners_ok (mem s) rest" "owned_blocks pre \<inter> owned_blocks rest = {}"
    by (auto simp: owners_ok_append)
  from alias_free_appendD [OF ok(3) [unfolded k(2)] o(3)]
  have disj: "chunk_blocks kept \<inter> owned_blocks rest = {}" and "alias_free kept"
    using alias_free_same [OF k(3)] same(3) by simp_all
  moreover have "owners_ok (mem s) kept" using o(1) same(2) by simp
  moreover have "owned_blocks kept \<inter> owned_blocks rest = {}" using o(3) same(1) by simp
  ultimately have nb: "nb_ok (freed (owned_blocks rest) (mem s)) (b\<lparr>chunks := kept\<rparr>)"
    using k(4) disj by (simp add: nb_ok_def chunks_ok_freed owners_ok_freed)
  have f: "netBufferSetLength alloc b len s =
      Some (NO_ERROR, b\<lparr>chunks := kept\<rparr>, s\<lparr>mem := freed (owned_blocks rest) (mem s)\<rparr>)"
    using free_chunks_eq [OF o(2)] k(1) by (simp add: netBufferSetLength_def)
  have F: "owned_blocks rest \<subseteq> owned_blocks (chunks b)" "owned_blocks kept = owned_blocks (chunks b) - owned_blocks rest"
    "chunk_blocks kept \<subseteq> chunk_blocks (chunks b)"
    using k(2) same o(3) by auto
  from f nb F k(5,6) contents_freed [OF disj] show ?thesis
    by (intro exI [of _ kept] exI [of _ "owned_blocks rest"]) simp
qed

lemma set_length_grow:
  assumes "alloc_ok alloc" and "heap_ok (mem s)" and "nb_ok (mem s) b" and "chunks_total (chunks b) < len"
    and "netBufferSetLength alloc b len s = Some (e, b', s')" and "chunk_blocks (chunks b) \<subseteq> live (mem s)"
  shows "heap_ok (mem s') \<and> nb_ok (mem s') b' \<and> maxChunkCount b' = maxChunkCount b \<and>
    take (chunks_total (chunks b)) (contents (mem s') (chunks b')) = contents (mem s) (chunks b) \<and>
    (\<forall>x \<in> live (mem s). blocks (mem s') x = blocks (mem s) x) \<and> live (mem s) \<subseteq> live (mem s') \<and>
    owned_blocks (chunks b') - owned_blocks (chunks b) = live (mem s') - live (mem s) \<and>
    owned_blocks (chunks b) \<subseteq> owned_blocks (chunks b') \<and>
    (if e = NO_ERROR then chunks_total (chunks b') = len else e = ERROR_OUT_OF_MEMORY \<or> e = ERROR_OUT_OF_RESOURCES)"
proof -
  from assms(3) have ok: "chunks_ok (mem s) (chunks b)" "owners_ok (mem s) (chunks b)" "alias_free (chunks b)"
    by (simp_all add: nb_ok_def)
  from adjust_grow [OF ok(1,2) assms(4)] obtain kept where
    k: "adjust_chunks (chunks b) len = (kept, len - chunks_total kept, [])" "list_all2 same_chunk (chunks b) kept"
      "chunks_ok (mem s) kept" "chunks_total kept \<le> len"
      "take (chunks_total (chunks b)) (contents (mem s) kept) = contents (mem s) (chunks b)" by blast
  note same = same_chunk_owners [OF k(2)]
  have ow: "owners_ok (mem s) kept" using ok(2) same(2) by simp
  have al: "alias_free kept" using ok(3) alias_free_same [OF k(2)] by simp
  have le: "chunks_total (chunks b) \<le> chunks_total kept"
    using arg_cong [OF k(5), of length] k(3) ok(1) by simp
  have "\<exists>new. chunks b' = kept @ new \<and> maxChunkCount b' = maxChunkCount b \<and> heap_ok (mem s') \<and> chunks_ok (mem s') new \<and>
    owners_ok (mem s') new \<and> owning new = new \<and>
    live (mem s') = live (mem s) \<union> chunk_blocks new \<and> chunk_blocks new \<inter> live (mem s) = {} \<and>
    (\<forall>x \<in> live (mem s). blocks (mem s') x = blocks (mem s) x) \<and>
    (if e = NO_ERROR then chunks_total (chunks b') = len else e = ERROR_OUT_OF_MEMORY \<or> e = ERROR_OUT_OF_RESOURCES)"
  proof (cases "len - chunks_total kept = 0")
    case True
    with assms(5) k(1,4) have "b' = b\<lparr>chunks := kept\<rparr>" "s' = s" "e = NO_ERROR"
      by (simp_all add: netBufferSetLength_def)
    with True k(4) assms(2) show ?thesis by (intro exI [of _ "[]"]) simp
  next
    case False
    obtain e1 cs1 s1 where g: "grow_chunks alloc (maxChunkCount b - length kept) kept (len - chunks_total kept) s = (e1, cs1, s1)"
      by (metis prod_cases3)
    with assms(5) k(1) False have r: "b' = b\<lparr>chunks := cs1\<rparr>" "s' = s1" "e = e1"
      by (auto simp: netBufferSetLength_def)
    from grow_chunks_ok [OF assms(1) g assms(2)] k(4) show ?thesis unfolding r by auto
  qed
  then obtain new where n: "chunks b' = kept @ new" "maxChunkCount b' = maxChunkCount b" "heap_ok (mem s')"
    "chunks_ok (mem s') new" "owners_ok (mem s') new" "owning new = new" "live (mem s') = live (mem s) \<union> chunk_blocks new"
    "chunk_blocks new \<inter> live (mem s) = {}" "\<And>x. x \<in> live (mem s) \<Longrightarrow> blocks (mem s') x = blocks (mem s) x"
    "if e = NO_ERROR then chunks_total (chunks b') = len else e = ERROR_OUT_OF_MEMORY \<or> e = ERROR_OUT_OF_RESOURCES"
    by blast
  have sub: "chunk_blocks kept \<subseteq> live (mem s)" using assms(6) same(3) by simp
  then have osub: "owned_blocks kept \<subseteq> live (mem s)" by (auto simp: owning_def)
  have ck: "chunks_ok (mem s') kept"
    unfolding chunks_ok_def
  proof
    fix c assume "c \<in> set kept"
    then have "blocks (mem s') (chunk_block c) = blocks (mem s) (chunk_block c)" using sub n(9) by auto
    with k(3) \<open>c \<in> set kept\<close> show "chunk_ok (mem s') c" by (auto simp: chunks_ok_def chunk_ok_def chunk_block_def)
  qed
  have ok': "owners_ok (mem s') kept \<longleftrightarrow> owners_ok (mem s) kept"
    using osub n(9) by (intro owners_ok_cong) auto
  have "contents (mem s') kept = contents (mem s) kept"
    unfolding contents_def
  proof (intro arg_cong [of _ _ concat] map_cong refl)
    fix c assume "c \<in> set kept"
    then have "blocks (mem s') (chunk_block c) = blocks (mem s) (chunk_block c)" using sub n(9) by auto
    then show "chunk_bytes (mem s') c = chunk_bytes (mem s) c"
      by (auto simp: chunk_bytes_def chunk_block_def split: option.splits)
  qed
  then have cont: "take (chunks_total (chunks b)) (contents (mem s') (chunks b')) = contents (mem s) (chunks b)"
    using k(3,5) le ck by (simp add: n(1))
  have "owners_ok (mem s') (chunks b')"
    unfolding n(1) owners_ok_append using ok' ow n(5,6,8) osub by auto
  moreover have "alias_free (chunks b')"
    unfolding alias_free_def n(1)
  proof (intro ballI impI)
    fix c assume c: "c \<in> set (kept @ new)" "chunk_size c = 0"
    have "c \<notin> set new" using c(2) n(6) by (metis mem_Collect_eq not_less_zero owning_def set_filter)
    with c have "c \<in> set kept" by simp
    then have "chunk_block c \<in> live (mem s)" using sub by auto
    with n(8) have "chunk_block c \<notin> chunk_blocks new" by auto
    with al c(2) n(6) \<open>c \<in> set kept\<close> show "chunk_block c \<notin> owned_blocks (kept @ new)"
      by (simp add: alias_free_def image_Un)
  qed
  ultimately have "nb_ok (mem s') b'" using ck n(1,4) by (simp add: nb_ok_def)
  moreover have "owned_blocks (chunks b') - owned_blocks (chunks b) = live (mem s') - live (mem s)"
    using n(6,7,8) osub same(1) by (auto simp: n(1))
  moreover have "owned_blocks (chunks b) \<subseteq> owned_blocks (chunks b')"
    using same(1) by (auto simp: n(1))
  ultimately show ?thesis using n cont by auto
qed

subsection \<open>Concatenation\<close>

text \<open>The number of chunks a range spans.\<close>

fun spans :: "ChunkDesc list \<Rightarrow> nat \<Rightarrow> nat \<Rightarrow> nat" where
  "spans [] off len = 0"
| "spans (c # cs) off len = (if len = 0 then 0 else Suc (spans cs 0 (len - (chunk_length c - off))))"

lemma chunk_part:
  assumes "chunk_ok h c" and "off + n \<le> chunk_length c"
  shows "\<exists>p. chunk_at c off = Some p \<and> fst p = chunk_block c \<and>
    chunk_ok h \<lparr>chunk_address = Some p, chunk_length = n, chunk_size = 0\<rparr> \<and>
    chunk_bytes h \<lparr>chunk_address = Some p, chunk_length = n, chunk_size = 0\<rparr> = take n (drop off (chunk_bytes h c))"
  using assms by (auto simp: chunk_ok_def chunk_at_def chunk_bytes_def chunk_block_def drop_take add.commute)

lemma concat_chunks_eq:
  assumes "chunks_ok h cs" and "\<And>c cs'. cs = c # cs' \<Longrightarrow> off \<le> chunk_length c"
  shows "\<exists>e new. concat_chunks room ds cs off len = Some (e, ds @ new) \<and> chunks_ok h new \<and>
    (\<forall>c \<in> set new. chunk_size c = 0) \<and> chunk_blocks new \<subseteq> chunk_blocks cs \<and>
    (if len \<le> chunks_total cs - off \<and> spans cs off len \<le> room
     then e = NO_ERROR \<and> contents h new = take len (drop off (contents h cs)) \<and> length new = spans cs off len
     else e = ERROR_FAILURE)"
  using assms
proof (induction room ds cs off len rule: concat_chunks.induct)
  case (2 room ds c cs off len)
  show ?case
  proof (cases "len > 0 \<and> room > 0")
    case True
    define n where "n = min len (chunk_length c - off)"
    have "off + n \<le> chunk_length c" using 2(3) by (simp add: n_def)
    with chunk_part [of h c off n] 2(2) obtain p where
      p: "chunk_at c off = Some p" "fst p = chunk_block c"
        "chunk_ok h \<lparr>chunk_address = Some p, chunk_length = n, chunk_size = 0\<rparr>"
        "chunk_bytes h \<lparr>chunk_address = Some p, chunk_length = n, chunk_size = 0\<rparr> = take n (drop off (chunk_bytes h c))"
      by auto
    let ?c = "\<lparr>chunk_address = Some p, chunk_length = n, chunk_size = 0\<rparr>"
    from 2(1) [OF True p(1) n_def] 2(2) obtain e new where
      r: "concat_chunks (room - 1) (ds @ [?c]) cs 0 (len - n) = Some (e, (ds @ [?c]) @ new)" "chunks_ok h new"
        "\<forall>c \<in> set new. chunk_size c = 0" "chunk_blocks new \<subseteq> chunk_blocks cs"
        "if len - n \<le> chunks_total cs \<and> spans cs 0 (len - n) \<le> room - 1
         then e = NO_ERROR \<and> contents h new = take (len - n) (contents h cs) \<and> length new = spans cs 0 (len - n)
         else e = ERROR_FAILURE" by auto
    have sp: "len - (chunk_length c - off) = len - n" by (simp add: n_def)
    have co: "len \<le> chunks_total (c # cs) - off \<and> spans (c # cs) off len \<le> room \<longleftrightarrow>
        len - n \<le> chunks_total cs \<and> spans cs 0 (len - n) \<le> room - 1"
    proof -
      have "off \<le> chunk_length c" using 2(3) by simp
      then have "len \<le> chunk_length c + chunks_total cs - off \<longleftrightarrow> len - n \<le> chunks_total cs"
        unfolding n_def by arith
      moreover have "spans (c # cs) off len = Suc (spans cs 0 (len - n))" using True sp by simp
      ultimately show ?thesis using True by auto
    qed
    have "take len (drop off (contents h (c # cs))) = take n (drop off (chunk_bytes h c)) @ take (len - n) (contents h cs)"
      using 2(2,3) by (auto simp: n_def drop_append min_def)
    then have "concat_chunks room ds (c # cs) off len = Some (e, ds @ ?c # new) \<and> chunks_ok h (?c # new) \<and>
       (\<forall>c \<in> set (?c # new). chunk_size c = 0) \<and> chunk_blocks (?c # new) \<subseteq> chunk_blocks (c # cs) \<and>
       (if len \<le> chunks_total (c # cs) - off \<and> spans (c # cs) off len \<le> room
        then e = NO_ERROR \<and> contents h (?c # new) = take len (drop off (contents h (c # cs))) \<and>
          length (?c # new) = spans (c # cs) off len
        else e = ERROR_FAILURE)"
      using True p r sp unfolding co by (auto simp: n_def [symmetric] chunk_block_def Let_def split: if_splits)
    then show ?thesis by blast
  next
    case False
    have "concat_chunks room ds (c # cs) off len = Some (if len > 0 then ERROR_FAILURE else NO_ERROR, ds)"
      using False by auto
    then show ?thesis using False
      by (intro exI [of _ "if len > 0 then ERROR_FAILURE else NO_ERROR"] exI [of _ "[]"]) auto
  qed
qed (auto intro!: exI [of _ "[]"])

lemma spans_short:
  assumes "\<And>c. c \<in> set (butlast cs) \<Longrightarrow> len \<le> chunk_length c" and "len \<le> chunks_total cs"
  shows "spans cs 0 len \<le> 1"
proof (cases cs)
  case (Cons c ds)
  then have "len \<le> chunk_length c" using assms by (cases ds) auto
  then have "spans ds 0 (len - chunk_length c) = 0" by (cases ds) auto
  with Cons show ?thesis by simp
qed simp

lemma spans_two:
  assumes "\<And>c. c \<in> set (butlast cs) \<Longrightarrow> len \<le> chunk_length c" and "len \<le> chunks_total cs - off"
    and "\<And>c cs'. cs = c # cs' \<Longrightarrow> off \<le> chunk_length c"
  shows "spans cs off len \<le> 2"
proof (cases cs)
  case (Cons c ds)
  have "spans ds 0 (len - (chunk_length c - off)) \<le> 1"
  proof (rule spans_short)
    fix d assume "d \<in> set (butlast ds)"
    then have "d \<in> set (butlast cs)" using Cons by (cases ds) auto
    from assms(1) [OF this] show "len - (chunk_length c - off) \<le> chunk_length d" by simp
  qed (use assms(2,3) Cons in auto)
  with Cons show ?thesis by auto
qed simp

lemma netBufferConcat_eq:
  assumes "chunks_ok h (chunks src)"
  shows "\<exists>e new. netBufferConcat dest src off len = Some (e, dest\<lparr>chunks := chunks dest @ new\<rparr>) \<and> chunks_ok h new \<and>
    (\<forall>c \<in> set new. chunk_size c = 0) \<and> chunk_blocks new \<subseteq> chunk_blocks (chunks src) \<and>
    (e = NO_ERROR \<longrightarrow> contents h new = take len (drop off (contents h (chunks src))) \<and> off + len \<le> chunks_total (chunks src)) \<and>
    (off < chunks_total (chunks src) \<and> off + len \<le> chunks_total (chunks src) \<and>
       (\<forall>c \<in> set (butlast (chunks src)). len \<le> chunk_length c) \<and> chunkCount dest + 2 \<le> maxChunkCount dest
       \<longrightarrow> e = NO_ERROR \<and> length new \<le> 2)"
proof (cases "off < chunks_total (chunks src)")
  case True
  obtain pre c cs i where s: "skip_chunks (chunks src) off = Some (c # cs, i)" "chunks src = pre @ c # cs"
    "off = chunks_total pre + i" "i < chunk_length c"
    by (rule skip_chunks_Some [OF True])
  have ok: "chunks_ok h (c # cs)" "chunks_ok h pre" using assms s(2) by simp_all
  have d: "drop off (contents h (chunks src)) = drop i (contents h (c # cs))"
    using contents_at [OF ok(2) s(3), of "c # cs"] s(2) by simp
  have t: "chunks_total (c # cs) - i = chunks_total (chunks src) - off" using s(2,3) by simp
  let ?fits = "len \<le> chunks_total (c # cs) - i \<and> spans (c # cs) i len \<le> maxChunkCount dest - chunkCount dest"
  have "\<exists>e new. concat_chunks (maxChunkCount dest - chunkCount dest) (chunks dest) (c # cs) i len =
      Some (e, chunks dest @ new) \<and> chunks_ok h new \<and>
    (\<forall>c \<in> set new. chunk_size c = 0) \<and> chunk_blocks new \<subseteq> chunk_blocks (c # cs) \<and>
    (if ?fits then e = NO_ERROR \<and> contents h new = take len (drop i (contents h (c # cs))) \<and> length new = spans (c # cs) i len
     else e = ERROR_FAILURE)"
    by (rule concat_chunks_eq [OF ok(1)]) (use s(4) in auto)
  then obtain e new where
    n: "concat_chunks (maxChunkCount dest - chunkCount dest) (chunks dest) (c # cs) i len = Some (e, chunks dest @ new)"
      "chunks_ok h new" "\<forall>c \<in> set new. chunk_size c = 0" "chunk_blocks new \<subseteq> chunk_blocks (c # cs)"
      and fit: "if ?fits then e = NO_ERROR \<and> contents h new = take len (drop i (contents h (c # cs))) \<and>
          length new = spans (c # cs) i len
        else e = ERROR_FAILURE" by (elim exE conjE)
  have fit1: "?fits \<Longrightarrow> e = NO_ERROR \<and> contents h new = take len (drop i (contents h (c # cs))) \<and> length new = spans (c # cs) i len"
    and fit2: "e = NO_ERROR \<Longrightarrow> ?fits" using fit by (simp_all only: if_True if_False split: if_splits) simp_all
  have sp: "spans (c # cs) i len \<le> 2"
    if "\<forall>c \<in> set (butlast (chunks src)). len \<le> chunk_length c" "off + len \<le> chunks_total (chunks src)"
  proof (rule spans_two)
    fix d assume "d \<in> set (butlast (c # cs))"
    then show "len \<le> chunk_length d" using that(1) s(2) by (simp add: butlast_append)
  qed (use that(2) t s(4) in auto)
  have "netBufferConcat dest src off len = Some (e, dest\<lparr>chunks := chunks dest @ new\<rparr>)"
    using s(1) n(1) by (simp add: netBufferConcat_def)
  moreover have "chunk_blocks new \<subseteq> chunk_blocks (chunks src)" using n(4) s(2) by auto
  moreover have "e = NO_ERROR \<longrightarrow> contents h new = take len (drop off (contents h (chunks src))) \<and>
      off + len \<le> chunks_total (chunks src)"
  proof
    assume "e = NO_ERROR"
    from fit1 [OF fit2 [OF this]] fit2 [OF this] d t True show "contents h new = take len (drop off (contents h (chunks src))) \<and>
      off + len \<le> chunks_total (chunks src)" by auto
  qed
  moreover have "off < chunks_total (chunks src) \<and> off + len \<le> chunks_total (chunks src) \<and>
      (\<forall>c \<in> set (butlast (chunks src)). len \<le> chunk_length c) \<and> chunkCount dest + 2 \<le> maxChunkCount dest
      \<longrightarrow> e = NO_ERROR \<and> length new \<le> 2"
  proof (intro impI, elim conjE)
    assume a: "off + len \<le> chunks_total (chunks src)" "\<forall>c \<in> set (butlast (chunks src)). len \<le> chunk_length c"
      "chunkCount dest + 2 \<le> maxChunkCount dest"
    from sp [OF a(2,1)] have "?fits" using a t by linarith
    with fit1 sp [OF a(2,1)] show "e = NO_ERROR \<and> length new \<le> 2" by metis
  qed
  ultimately show ?thesis using n(2,3) by (intro exI [of _ e] exI [of _ new] conjI)
next
  case False
  then have "netBufferConcat dest src off len = Some (ERROR_INVALID_PARAMETER, dest)"
    by (simp add: netBufferConcat_def skip_chunks_None)
  then show ?thesis using False by (intro exI [of _ ERROR_INVALID_PARAMETER] exI [of _ "[]"]) simp
qed

end
