(* ===== verification/IpChecksum.thy ===== *)
theory IpChecksum
  imports Endian NetMemOwn
begin

text \<open>
  The Internet checksum of \<open>ip.c\<close>: \<open>ipCalcChecksum\<close>, which sums 32-bit words at whatever alignment the data
  has, and \<open>ipCalcChecksumEx\<close>, which does so over the chunks of a multi-part buffer.  Both are shown equal
  to the one's complement sum of RFC 1071 on the plain bytes.

  Blocks of the heap are aligned, so the alignment of an address is that of its offset.
\<close>

subsection \<open>The code\<close>

definition fold16 :: "u32 \<Rightarrow> u32" where
  "fold16 c = (c AND 0xFFFF) + drop_bit 16 c"

definition swap_checksum :: "u32 \<Rightarrow> u32" where
  "swap_checksum c = (drop_bit 8 c OR push_bit 8 c) AND 0xFFFF"

definition le_word :: "u8 \<Rightarrow> u8 \<Rightarrow> u8 \<Rightarrow> u8 \<Rightarrow> u32" where
  "le_word b0 b1 b2 b3 = ucast b0 OR push_bit 8 (ucast b1) OR push_bit 16 (ucast b2) OR push_bit 24 (ucast b3)"

text \<open>The main loop: 32-bit words, the carry added back.  It yields the sum and the bytes left over.\<close>

function (sequential) sum_words :: "u32 \<Rightarrow> buffer \<Rightarrow> u32 \<times> buffer" where
  "sum_words checksum (b0 # b1 # b2 # b3 # p) =
     (let temp = checksum + le_word b0 b1 b2 b3
      in sum_words (if temp < checksum then temp + 1 else temp) p)"
| "sum_words checksum p = (checksum, p)"
  by pat_completeness auto

termination
  by (relation "measure (\<lambda>(checksum, p). length p)") auto

text \<open>The steps after the optional first byte, at an even address.\<close>

definition checksum_tail :: "nat \<Rightarrow> u32 \<Rightarrow> buffer \<Rightarrow> u32" where
  "checksum_tail a checksum p =
     (let (checksum, p) = (if odd (a div 2) \<and> length p \<ge> 2 then (checksum + ucast (get16 p 0), drop 2 p) else (checksum, p));
          (checksum, p) = sum_words checksum p;
          checksum = fold16 checksum;
          (checksum, p) = (if length p \<ge> 2 then (checksum + ucast (get16 p 0), drop 2 p) else (checksum, p));
          checksum = (if p \<noteq> [] then checksum + ucast (hd p) else checksum)
      in fold16 (fold16 checksum))"

definition ipCalcChecksum :: "nat \<Rightarrow> buffer \<Rightarrow> u16" where
  "ipCalcChecksum addr data =
     (let checksum =
            (if odd addr \<and> data \<noteq> [] then checksum_tail (addr + 1) (push_bit 8 (ucast (hd data))) (tl data)
             else checksum_tail addr 0 data);
          checksum = (if odd addr then swap_checksum checksum else checksum)
      in ucast (checksum XOR 0xFFFF))"

text \<open>Adding the sum of the data at an address to the sum of the \<open>pos\<close> bytes before them.\<close>

definition add_chunk :: "nat \<Rightarrow> u32 \<Rightarrow> nat \<Rightarrow> buffer \<Rightarrow> u32" where
  "add_chunk pos checksum addr data =
     (let checksum = (if odd pos then swap_checksum checksum else checksum);
          checksum = fold16 (checksum + (ucast (ipCalcChecksum addr data) XOR 0xFFFF))
      in if odd pos then swap_checksum checksum else checksum)"

fun checksum_chunks :: "ChunkDesc list \<Rightarrow> nat \<Rightarrow> nat \<Rightarrow> nat \<Rightarrow> u32 \<Rightarrow> heap \<Rightarrow> u32 option" where
  "checksum_chunks [] offset len pos checksum h = Some checksum"
| "checksum_chunks (c # cs) offset len pos checksum h =
     (if \<not> pos < len then Some checksum
      else if offset < chunk_length c then do {
        p \<leftarrow> chunk_at c offset;
        let n = min (chunk_length c - offset) (len - pos);
        data \<leftarrow> load h p n;
        checksum_chunks cs 0 len (pos + n) (add_chunk pos checksum (snd p) data) h
      }
      else checksum_chunks cs (offset - chunk_length c) len pos checksum h)"

definition ipCalcChecksumEx :: "NetBuffer \<Rightarrow> nat \<Rightarrow> nat \<Rightarrow> heap \<Rightarrow> u16 option" where
  "ipCalcChecksumEx b offset len h =
     map_option (\<lambda>c. ucast (c XOR 0xFFFF)) (checksum_chunks (chunks b) offset len 0 0 h)"

text \<open>A pseudo header is a local variable, aligned.\<close>

definition ipCalcUpperLayerChecksum :: "buffer \<Rightarrow> nat \<Rightarrow> buffer \<Rightarrow> u16" where
  "ipCalcUpperLayerChecksum pseudoHeader addr data =
     (let checksum = (ucast (ipCalcChecksum 0 pseudoHeader) XOR 0xFFFF :: u32);
          checksum = checksum + (ucast (ipCalcChecksum addr data) XOR 0xFFFF)
      in ucast (fold16 checksum XOR 0xFFFF))"

definition ipCalcUpperLayerChecksumEx :: "buffer \<Rightarrow> NetBuffer \<Rightarrow> nat \<Rightarrow> nat \<Rightarrow> heap \<Rightarrow> u16 option" where
  "ipCalcUpperLayerChecksumEx pseudoHeader b offset len h =
     (case ipCalcChecksumEx b offset len h of
        None \<Rightarrow> None
      | Some x \<Rightarrow>
          let checksum = (ucast (ipCalcChecksum 0 pseudoHeader) XOR 0xFFFF :: u32);
              checksum = checksum + (ucast x XOR 0xFFFF)
          in Some (ucast (fold16 checksum XOR 0xFFFF)))"

subsection \<open>One's complement sums\<close>

text \<open>The sum of the 16-bit words of RFC 1071 (in the byte order of the CPU), the last one padded with zero.\<close>

fun word_sum :: "buffer \<Rightarrow> nat" where
  "word_sum [] = 0"
| "word_sum [b] = unat b"
| "word_sum (b0 # b1 # bs) = unat b0 + 256 * unat b1 + word_sum bs"

text \<open>Its one's complement value on 16 bits: congruent modulo 65535, and zero only for zero.\<close>

definition ones_sum :: "nat \<Rightarrow> nat" where
  "ones_sum n = (if n = 0 then 0 else (n - 1) mod 65535 + 1)"

definition rfc1071 :: "buffer \<Rightarrow> u16" where
  "rfc1071 data = NOT (word_of_nat (ones_sum (word_sum data)))"

lemma ones_sum_le: "ones_sum n \<le> 65535"
proof -
  have "(n - 1) mod 65535 < 65535" by (rule mod_less_divisor) simp
  then show ?thesis by (simp only: ones_sum_def split: if_split) linarith
qed

lemma ones_sum_zero [simp]: "ones_sum n = 0 \<longleftrightarrow> n = 0"
  by (simp add: ones_sum_def)

lemma ones_sum_0 [simp]: "ones_sum 0 = 0"
  by (simp add: ones_sum_def)

lemma ones_sum_mod: "ones_sum n mod 65535 = n mod 65535"
proof (cases "n = 0")
  case False
  then have "n mod 65535 = Suc ((n - 1) mod 65535) mod 65535" by (simp add: mod_Suc_eq)
  with False show ?thesis by (simp add: ones_sum_def)
qed (simp add: ones_sum_def)

lemma mod_65535_cases:
  fixes a b :: nat
  assumes "a \<le> 65535" and "b \<le> 65535" and "a mod 65535 = b mod 65535"
  shows "a = b \<or> a = 0 \<and> b = 65535 \<or> a = 65535 \<and> b = 0"
proof (cases "a = 65535 \<or> b = 65535")
  case True
  then have "a mod 65535 = 0" "b mod 65535 = 0" using assms(3) by auto
  then have "a = 0 \<or> a = 65535" "b = 0 \<or> b = 65535"
    using assms(1,2) by (metis le_neq_implies_less mod_less)+
  with True show ?thesis by auto
next
  case False
  with assms(1,2) have "a mod 65535 = a" "b mod 65535 = b" by simp_all
  with assms(3) show ?thesis by simp
qed

lemma ones_sum_unique:
  assumes "x \<le> 65535" and "x mod 65535 = n mod 65535" and "x = 0 \<longleftrightarrow> n = 0"
  shows "x = ones_sum n"
  using mod_65535_cases [OF assms(1) ones_sum_le, of n] assms(2,3) ones_sum_mod [of n] ones_sum_zero [of n] by auto

lemma ones_sum_cong: "m mod 65535 = n mod 65535 \<Longrightarrow> (m = 0 \<longleftrightarrow> n = 0) \<Longrightarrow> ones_sum m = ones_sum n"
  by (intro ones_sum_unique) (auto simp: ones_sum_le ones_sum_mod)

lemma mod_fold: "(n mod 65536 + n div 65536) mod 65535 = n mod (65535 :: nat)"
proof -
  have "n = n mod 65536 + n div 65536 + 65535 * (n div 65536)" by simp
  then show ?thesis by (metis mod_mult_self2)
qed

lemma fold_zero: "n mod 65536 + n div 65536 = 0 \<longleftrightarrow> n = (0 :: nat)"
  using div_mult_mod_eq [of n 65536] by fastforce

lemma unat_bit_ops:
  "unat (take_bit n (c :: u32)) = unat c mod 2 ^ n" "unat (drop_bit n c) = unat c div 2 ^ n"
proof -
  show "unat (take_bit n c) = unat c mod 2 ^ n" by (rule trans [OF unsigned_take_bit_eq take_bit_eq_mod])
  have "unat (drop_bit n c) = drop_bit n (unat c)" using unsigned_less [of c, where ?'a = nat]
    by (simp add: unsigned_drop_bit_eq take_bit_nat_eq_self)
  then show "unat (drop_bit n c) = unat c div 2 ^ n" by (simp only: drop_bit_eq_div)
qed

lemma unat_push_bit:
  assumes "2 ^ n * unat c < 4294967296"
  shows "unat (push_bit n (c :: u32)) = 2 ^ n * unat c"
proof -
  have "unat (push_bit n c) = take_bit 32 (push_bit n (unat c))" by (simp only: unsigned_push_bit_eq) simp
  also have "push_bit n (unat c) = 2 ^ n * unat c" by (simp only: push_bit_eq_mult mult.commute)
  finally show ?thesis using assms by (simp add: take_bit_nat_eq_self)
qed

lemma mask16: "(0xFFFF :: u32) = mask 16"
  by (simp add: mask_eq_exp_minus_1)

lemma unat_fold16: "unat (fold16 c) = unat c mod 65536 + unat c div 65536"
proof -
  have "c AND 0xFFFF = take_bit 16 c" by (simp only: mask16 take_bit_eq_mask)
  then have a: "unat (c AND 0xFFFF) = unat c mod 65536" using unat_bit_ops(1) [of 16 c] by simp
  have b: "unat (drop_bit 16 c) = unat c div 65536" using unat_bit_ops(2) [of 16 c] by simp
  have "unat c < 65536 * 65536" using unsigned_less [of c, where ?'a = nat] by simp
  then have "unat c div 65536 < 65536" by (rule less_mult_imp_div_less)
  then have "unat c div 65536 \<le> 65535" by linarith
  moreover have "unat c mod 65536 \<le> 65535" using mod_less_divisor [of 65536 "unat c"] by simp
  ultimately have "unat c mod 65536 + unat c div 65536 < 4294967296" by simp
  then show ?thesis unfolding fold16_def by (subst unat_add_lem [THEN iffD1]) (simp_all add: a b)
qed

text \<open>Adding and folding, and swapping the bytes, are operations on one's complement values.\<close>

lemma fold_add:
  assumes "unat x \<le> 65535" and "unat y \<le> 65535" and "unat x = ones_sum m" and "unat y = ones_sum n"
  shows "unat (fold16 (x + y)) = ones_sum (m + n)"
proof (rule ones_sum_unique)
  have u: "unat (x + y) = unat x + unat y" using assms(1,2) by (subst unat_add_lem [THEN iffD1]) simp_all
  show "unat (fold16 (x + y)) mod 65535 = (m + n) mod 65535"
    unfolding unat_fold16 mod_fold u assms(3,4) by (metis mod_add_eq ones_sum_mod)
  show "unat (fold16 (x + y)) = 0 \<longleftrightarrow> m + n = 0"
    unfolding unat_fold16 fold_zero u assms(3,4) by simp
  show "unat (fold16 (x + y)) \<le> 65535"
  proof (cases "unat x + unat y < 65536")
    case False
    then have "unat x + unat y = 65536 + (unat x + unat y - 65536)" "unat x + unat y - 65536 < 65535"
      using assms(1,2) by simp_all
    then obtain k where k: "unat x + unat y = 65536 + k" "k < 65535" by blast
    then show ?thesis unfolding unat_fold16 u k(1) by simp
  qed (simp add: unat_fold16 u)
qed

lemma swap_bytes_word:
  assumes "unat c \<le> 65535"
  shows "swap_checksum c = push_bit 8 (take_bit 8 c) + take_bit 8 (drop_bit 8 c)"
proof -
  have "take_bit 16 c = c" using assms unat_bit_ops(1) [of 16 c] by (intro word_unat_eq_iff [THEN iffD2]) simp
  then have low: "bit c n \<Longrightarrow> n < 16" for n by (metis bit_take_bit_iff)
  have "swap_checksum c = push_bit 8 (take_bit 8 c) OR take_bit 8 (drop_bit 8 c)"
    unfolding swap_checksum_def mask16 by (rule bit_word_eqI) (auto simp: bit_simps dest: low)
  also have "\<dots> = push_bit 8 (take_bit 8 c) + take_bit 8 (drop_bit 8 c)"
    by (rule disjunctive_add [symmetric]) (auto simp: bit_simps)
  finally show ?thesis .
qed

lemma unat_swap:
  assumes "unat c \<le> 65535"
  shows "unat (swap_checksum c) = 256 * (unat c mod 256) + unat c div 256 mod 256"
proof -
  have c: "unat (take_bit 8 c) = unat c mod 256" using unat_bit_ops(1) [of 8 c] by simp
  have "unat c mod 256 < 256" by simp
  then have a: "unat (push_bit 8 (take_bit 8 c)) = 256 * (unat c mod 256)"
    using unat_push_bit [of 8 "take_bit 8 c"] unfolding c by (simp del: mod_less_divisor)
  have b: "unat (take_bit 8 (drop_bit 8 c)) = unat c div 256 mod 256"
    using unat_bit_ops(1) [of 8 "drop_bit 8 c"] unat_bit_ops(2) [of 8 c] by simp
  have "unat c mod 256 < 256" "unat c div 256 mod 256 < 256" by simp_all
  then have "256 * (unat c mod 256) + unat c div 256 mod 256 < 4294967296" by linarith
  then show ?thesis unfolding swap_bytes_word [OF assms] by (subst unat_add_lem [THEN iffD1]) (simp_all add: a b)
qed

lemma swap_ones:
  assumes "unat c = ones_sum n"
  shows "unat (swap_checksum c) = ones_sum (256 * n)"
proof (rule ones_sum_unique)
  have le: "unat c \<le> 65535" using assms ones_sum_le by simp
  then have d: "unat c div 256 < 256" by simp
  then have u: "unat (swap_checksum c) = 256 * (unat c mod 256) + unat c div 256" using le by (simp add: unat_swap)
  have c: "unat c = 256 * (unat c div 256) + unat c mod 256" by simp
  show "unat (swap_checksum c) \<le> 65535" using u d mod_less_divisor [of 256 "unat c"] by linarith
  have "256 * unat c = unat (swap_checksum c) + 65535 * (unat c div 256)" using u c by linarith
  then have "unat (swap_checksum c) mod 65535 = 256 * unat c mod 65535" by (metis mod_mult_self2)
  also have "\<dots> = 256 * n mod 65535" unfolding assms by (metis mod_mult_right_eq ones_sum_mod)
  finally show "unat (swap_checksum c) mod 65535 = 256 * n mod 65535" .
  show "unat (swap_checksum c) = 0 \<longleftrightarrow> 256 * n = 0"
    using u c assms ones_sum_zero [of n] by (metis add_is_0 mult_is_0 zero_neq_numeral)
qed

lemma ones_sum_swap_twice: "ones_sum (256 * (256 * n)) = ones_sum n"
proof (rule ones_sum_cong)
  have "256 * (256 * n) = n + 65535 * n" by simp
  then show "256 * (256 * n) mod 65535 = n mod 65535" by (metis mod_mult_self2)
qed simp

text \<open>The little-endian number of the bytes has the same one's complement value as the sum of the words.\<close>

fun le_value :: "buffer \<Rightarrow> nat" where
  "le_value [] = 0"
| "le_value (b # bs) = unat b + 256 * le_value bs"

lemma le_value_append: "le_value (xs @ ys) = le_value xs + 256 ^ length xs * le_value ys"
  by (induction xs) (simp_all add: algebra_simps)

lemma ones_sum_add: "ones_sum (m + ones_sum n) = ones_sum (m + n)"
proof (rule ones_sum_cong)
  show "(m + ones_sum n) mod 65535 = (m + n) mod 65535" by (metis mod_add_right_eq ones_sum_mod)
qed simp

lemma ones_sum_add_cong: "ones_sum m = ones_sum m' \<Longrightarrow> ones_sum n = ones_sum n' \<Longrightarrow> ones_sum (m + n) = ones_sum (m' + n')"
  by (metis add.commute ones_sum_add)

lemma word_sum_le_value: "ones_sum (word_sum bs) = ones_sum (le_value bs)"
proof (induction bs rule: word_sum.induct)
  case (3 b0 b1 bs)
  have "ones_sum (256 * (256 * le_value bs)) = ones_sum (word_sum bs)" using 3 by (simp only: ones_sum_swap_twice)
  then have "ones_sum (unat b0 + 256 * unat b1 + word_sum bs) = ones_sum (unat b0 + 256 * unat b1 + 256 * (256 * le_value bs))"
    by (intro ones_sum_add_cong) simp_all
  then show ?case by (simp add: algebra_simps)
qed simp_all

subsection \<open>The checksum of contiguous data\<close>

lemma ones_sum_shift16: "ones_sum (m + 65536 * n) = ones_sum (m + n)"
proof (rule ones_sum_cong)
  have "m + 65536 * n = (m + n) + 65535 * n" by simp
  then show "(m + 65536 * n) mod 65535 = (m + n) mod 65535" by (metis mod_mult_self2)
qed simp

lemma ones_sum_fold: "ones_sum (unat (fold16 c)) = ones_sum (unat c)"
  unfolding unat_fold16 by (rule ones_sum_cong) (simp_all only: mod_fold fold_zero)

lemma add_carry:
  fixes x y :: u32
  defines "t \<equiv> x + y"
  shows "ones_sum (unat (if t < x then t + 1 else t)) = ones_sum (unat x + unat y)"
proof (cases "unat x + unat y < 4294967296")
  case True
  then have t: "unat t = unat x + unat y" unfolding t_def by (subst unat_add_lem [THEN iffD1]) simp_all
  then have "\<not> t < x" by (simp add: word_less_nat_alt)
  with t show ?thesis by simp
next
  case False
  have b: "unat x < 4294967296" "unat y < 4294967296" using unsigned_less [of x] unsigned_less [of y] by simp_all
  then have t: "unat t = unat x + unat y - 4294967296"
    unfolding t_def using False by (simp add: unat_plus_if_size word_size)
  then have lt: "t < x" using b False by (simp add: word_less_nat_alt)
  have "unat t + 1 < 4294967296" using t b by simp
  then have "unat (t + 1) = unat t + 1" by (subst unat_add_lem [THEN iffD1]) simp_all
  then have u: "unat x + unat y = unat (t + 1) + 65535 * 65537" using t False by simp
  have "ones_sum (unat x + unat y) = ones_sum (unat (t + 1))"
  proof (rule ones_sum_cong)
    show "(unat x + unat y) mod 65535 = unat (t + 1) mod 65535" unfolding u by (rule mod_mult_self2)
    have "unat x + unat y \<noteq> 0" using False by linarith
    moreover have "unat (t + 1) \<noteq> 0" using \<open>unat (t + 1) = unat t + 1\<close> by simp
    ultimately show "unat x + unat y = 0 \<longleftrightarrow> unat (t + 1) = 0" by blast
  qed
  with lt show ?thesis by simp
qed

lemma unat_le_bytes:
  "unat (le_word b0 b1 b2 b3) = le_value [b0, b1, b2, b3]" (is ?four)
  "unat (get16 (c0 # c1 # bs) 0) = le_value [c0, c1]" (is ?two)
proof -
  let ?w = "\<lambda>b :: u8. ucast b :: u32"
  have lt: "unat b < 256" for b :: u8 by simp
  have le: "unat b \<le> 255" for b :: u8 using lt [of b] by linarith
  have u: "unat (?w b) = unat b" for b
    using less_le_trans [OF lt [of b], of "2 ^ 32"] by (simp add: unsigned_ucast_eq take_bit_nat_eq_self)
  have sh: "unat (push_bit k (?w b)) = 2 ^ k * unat b" if "k \<le> 24" for k b
  proof -
    have "(2 :: nat) ^ k \<le> 2 ^ 24" using that by (intro power_increasing) auto
    then have "2 ^ k * unat b < 2 ^ 24 * 256" using lt [of b] by (intro mult_le_less_imp_less) auto
    then show ?thesis using unat_push_bit [of k "?w b"] u [of b] by simp
  qed
  have or: "le_word b0 b1 b2 b3 =
      ?w b0 + (push_bit 8 (?w b1) + (push_bit 16 (?w b2) + push_bit 24 (?w b3)))"
    unfolding le_word_def by (subst (1 2 3) disjunctive_add) (auto simp: bit_simps)
  have s: "unat (push_bit 8 (?w b1)) = 256 * unat b1" "unat (push_bit 16 (?w b2)) = 65536 * unat b2"
    "unat (push_bit 24 (?w b3)) = 16777216 * unat b3"
    using sh [of 8 b1] sh [of 16 b2] sh [of 24 b3] by simp_all
  have "unat (push_bit 16 (?w b2) + push_bit 24 (?w b3)) = 65536 * unat b2 + 16777216 * unat b3"
    using le [of b2] le [of b3] by (subst unat_add_lem [THEN iffD1]) (simp_all add: s)
  then have "unat (push_bit 8 (?w b1) + (push_bit 16 (?w b2) + push_bit 24 (?w b3))) =
      256 * unat b1 + (65536 * unat b2 + 16777216 * unat b3)"
    using le [of b1] le [of b2] le [of b3] by (subst unat_add_lem [THEN iffD1]) (simp_all add: s)
  then show ?four
    unfolding or using le [of b0] le [of b1] le [of b2] le [of b3]
    by (subst unat_add_lem [THEN iffD1]) (simp_all add: u)
  have "unat (get16 (c0 # c1 # bs) 0) = unat (ucast (get16 (c0 # c1 # bs) 0) :: u32)"
    using less_le_trans [OF unat_u16_bound [of "get16 (c0 # c1 # bs) 0"], of "2 ^ 32"]
    by (simp add: unsigned_ucast_eq take_bit_nat_eq_self)
  also have "(ucast (get16 (c0 # c1 # bs) 0) :: u32) = ?w c0 + push_bit 8 (?w c1)"
  proof -
    have "bit c1 n \<Longrightarrow> n < 8" for n using bit_imp_le_length [of c1 n] by simp
    then have "bit c1 (n - 8) \<Longrightarrow> n < 16 \<and> n - 8 < 16 \<and> n - 8 < 32" for n by fastforce
    then show ?thesis by (subst disjunctive_add) (auto simp: bit_simps get16_def intro!: bit_word_eqI)
  qed
  also have "unat \<dots> = unat c0 + 256 * unat c1"
    using sh [of 8 c1] le [of c0] le [of c1] by (subst unat_add_lem [THEN iffD1]) (simp_all add: u)
  finally show ?two by simp
qed

lemma sum_words_rep:
  "ones_sum (unat (fst (sum_words c p)) + le_value (snd (sum_words c p))) = ones_sum (unat c + le_value p) \<and>
   length (snd (sum_words c p)) < 4"
proof (induction c p rule: sum_words.induct)
  case (1 c b0 b1 b2 b3 p)
  define w where "w = le_word b0 b1 b2 b3"
  define t where "t = c + w"
  have "le_value (b0 # b1 # b2 # b3 # p) = unat w + 65536 * (65536 * le_value p)"
    unfolding w_def unat_le_bytes by simp
  from this have "ones_sum (unat c + le_value (b0 # b1 # b2 # b3 # p)) = ones_sum ((unat c + unat w) + 65536 * (65536 * le_value p))"
    by (simp only: add.assoc)
  also have "\<dots> = ones_sum ((unat c + unat w) + 65536 * le_value p)" by (rule ones_sum_shift16)
  also have "\<dots> = ones_sum ((unat c + unat w) + le_value p)" by (rule ones_sum_shift16)
  also have "\<dots> = ones_sum (unat (if t < c then t + 1 else t) + le_value p)"
    unfolding t_def by (rule ones_sum_add_cong [OF add_carry [symmetric] refl])
  finally show ?case using 1 [OF refl, folded w_def, folded t_def]
    by (simp add: Let_def w_def [symmetric] t_def [symmetric])
qed simp_all

lemma unat_ucast16: "unat (ucast (x :: u16) :: u32) = unat x"
  using less_le_trans [OF unat_u16_bound [of x], of "2 ^ 32"] by (simp add: unsigned_ucast_eq take_bit_nat_eq_self)

lemma unat_ucast8: "unat (ucast (x :: u8) :: u32) = unat x"
  using less_le_trans [OF unat_u8_bound [of x], of "2 ^ 32"] by (simp add: unsigned_ucast_eq take_bit_nat_eq_self)

lemma two_bytes: "length p \<ge> 2 \<Longrightarrow> le_value p = unat (get16 p 0) + 65536 * le_value (drop 2 p) \<and> unat (get16 p 0) \<le> 65535"
proof
  assume "length p \<ge> 2"
  then obtain b0 b1 bs where "p = b0 # b1 # bs" by (metis Suc_le_length_iff numeral_2_eq_2)
  then show "le_value p = unat (get16 p 0) + 65536 * le_value (drop 2 p)" by (simp add: unat_le_bytes)
  show "unat (get16 p 0) \<le> 65535" using unat_u16_bound [of "get16 p 0"] by linarith
qed

lemma fold16_twice_le: "unat c \<le> 262143 \<Longrightarrow> unat (fold16 (fold16 c)) \<le> 65535"
proof -
  assume "unat c \<le> 262143"
  then have "unat c div 65536 \<le> 3" "unat c mod 65536 \<le> 65535" by (auto simp: less_Suc_eq_le [symmetric])
  then have "unat (fold16 c) \<le> 65538" unfolding unat_fold16 by linarith
  show "unat (fold16 (fold16 c)) \<le> 65535"
  proof (cases "unat (fold16 c) < 65536")
    case False
    then obtain k where k: "unat (fold16 c) = 65536 + k" by (metis le_Suc_ex linorder_not_less)
    with \<open>unat (fold16 c) \<le> 65538\<close> have "k \<le> 2" by linarith
    then show ?thesis unfolding unat_fold16 [of "fold16 c"] k by simp
  qed (simp add: unat_fold16 [of "fold16 c"])
qed

lemma checksum_tail_eq:
  assumes "unat c \<le> 65535"
  shows "unat (checksum_tail a c p) = ones_sum (unat c + le_value p)"
proof -
  obtain c1 p1 where 1: "(if odd (a div 2) \<and> length p \<ge> 2 then (c + ucast (get16 p 0), drop 2 p) else (c, p)) = (c1, p1)"
    by fastforce
  have r1: "ones_sum (unat c1 + le_value p1) = ones_sum (unat c + le_value p)"
  proof (cases "odd (a div 2) \<and> length p \<ge> 2")
    case True
    with 1 have e: "c1 = c + ucast (get16 p 0)" "p1 = drop 2 p" by auto
    from True two_bytes [of p] have g: "le_value p = unat (get16 p 0) + 65536 * le_value p1" "unat (get16 p 0) \<le> 65535" using e by auto
    have "unat c1 = unat c + unat (get16 p 0)"
      unfolding e(1) using assms g(2) by (subst unat_add_lem [THEN iffD1]) (simp_all add: unat_ucast16)
    then show ?thesis using ones_sum_shift16 [of "unat c + unat (get16 p 0)" "le_value p1"] g(1) by (simp add: add.assoc)
  qed (use 1 in auto)
  obtain c2 p2 where 2: "sum_words c1 p1 = (c2, p2)" by fastforce
  from sum_words_rep [of c1 p1] 2 have r2: "ones_sum (unat c2 + le_value p2) = ones_sum (unat c1 + le_value p1)" "length p2 < 4"
    by simp_all
  define c3 where "c3 = fold16 c2"
  have "unat c2 div 65536 < 65536" using unsigned_less [of c2, where ?'a = nat] by (intro less_mult_imp_div_less) simp
  moreover have "unat c2 mod 65536 < 65536" by simp
  ultimately have le3: "unat c3 \<le> 131070" unfolding c3_def unat_fold16 by linarith
  have r3: "ones_sum (unat c3 + le_value p2) = ones_sum (unat c2 + le_value p2)"
    unfolding c3_def by (rule ones_sum_add_cong [OF ones_sum_fold refl])
  obtain c4 p4 where 4: "(if length p2 \<ge> 2 then (c3 + ucast (get16 p2 0), drop 2 p2) else (c3, p2)) = (c4, p4)"
    by fastforce
  have r4: "ones_sum (unat c4 + le_value p4) = ones_sum (unat c3 + le_value p2) \<and> unat c4 \<le> 196605 \<and> length p4 < 2"
  proof (cases "length p2 \<ge> 2")
    case True
    with 4 have e: "c4 = c3 + ucast (get16 p2 0)" "p4 = drop 2 p2" by auto
    from True two_bytes [of p2] have g: "le_value p2 = unat (get16 p2 0) + 65536 * le_value p4" "unat (get16 p2 0) \<le> 65535"
      using e by auto
    have "unat c4 = unat c3 + unat (get16 p2 0)"
      unfolding e(1) using le3 g(2) by (subst unat_add_lem [THEN iffD1]) (simp_all add: unat_ucast16)
    then show ?thesis using ones_sum_shift16 [of "unat c3 + unat (get16 p2 0)" "le_value p4"] g le3 r2(2) e(2)
      by (simp add: add.assoc)
  qed (use 4 le3 in auto)
  define c5 where "c5 = (if p4 \<noteq> [] then c4 + ucast (hd p4) else c4)"
  have r5: "unat c5 = unat c4 + le_value p4 \<and> unat c5 \<le> 262143"
  proof (cases p4)
    case (Cons b bs)
    then have "bs = []" using r4 by auto
    moreover have "unat b \<le> 255" using unat_u8_bound [of b] by linarith
    moreover have "unat (c4 + ucast b) = unat c4 + unat b"
      using r4 \<open>unat b \<le> 255\<close> by (subst unat_add_lem [THEN iffD1]) (simp_all add: unat_ucast8)
    ultimately show ?thesis using Cons r4 by (simp add: c5_def)
  qed (use r4 in \<open>simp add: c5_def\<close>)
  have t: "checksum_tail a c p = fold16 (fold16 c5)"
    by (simp add: checksum_tail_def 1 2 4 c3_def [symmetric] c5_def)
  have "ones_sum (unat (fold16 (fold16 c5))) = ones_sum (unat c + le_value p)"
    using ones_sum_fold r1 r2(1) r3 r4 r5 by metis
  moreover have "ones_sum (unat (fold16 (fold16 c5))) = unat (fold16 (fold16 c5))"
    using fold16_twice_le r5 by (intro ones_sum_unique [symmetric]) auto
  ultimately show ?thesis using t by simp
qed

text \<open>Complementing a sum of 16 bits.\<close>

lemma complement16:
  fixes c :: u32
  assumes "unat c \<le> 65535"
  shows "(ucast (c XOR 0xFFFF) :: u16) = NOT (word_of_nat (unat c))"
proof -
  have "(ucast (c XOR 0xFFFF) :: u16) = NOT (ucast c)"
    unfolding mask16 by (rule bit_word_eqI) (auto simp: bit_simps)
  moreover have "(ucast c :: u16) = word_of_nat (unat c)" by simp
  ultimately show ?thesis by (simp only:)
qed

lemma rfc1071_ones: "unat (c :: u32) = ones_sum (le_value data) \<Longrightarrow> (ucast (c XOR 0xFFFF) :: u16) = rfc1071 data"
  using complement16 [of c] ones_sum_le by (simp add: rfc1071_def word_sum_le_value)

lemma ipCalcChecksum_eq: "ipCalcChecksum addr data = rfc1071 data"
proof (cases "odd addr \<and> data \<noteq> []")
  case True
  then obtain b bs where d: "data = b # bs" by (cases data) auto
  have le: "unat b \<le> 255" using unat_u8_bound [of b] by linarith
  have b: "unat (push_bit 8 (ucast b :: u32)) = 256 * unat b"
    using unat_push_bit [of 8 "ucast b"] le by (simp add: unat_ucast8)
  with le have "unat (checksum_tail (addr + 1) (push_bit 8 (ucast b)) bs) = ones_sum (256 * unat b + le_value bs)"
    by (subst checksum_tail_eq) simp_all
  from swap_ones [OF this]
  have "unat (swap_checksum (checksum_tail (addr + 1) (push_bit 8 (ucast b)) bs)) = ones_sum (256 * (256 * unat b) + 256 * le_value bs)"
    by (simp add: algebra_simps)
  also have "\<dots> = ones_sum (le_value data)"
    using ones_sum_add_cong [OF ones_sum_swap_twice [of "unat b"] refl] d by simp
  finally show ?thesis using True d rfc1071_ones [of _ data] by (simp add: ipCalcChecksum_def Let_def)
next
  case False
  have t: "unat (checksum_tail addr 0 data) = ones_sum (le_value data)" using checksum_tail_eq [of 0 addr data] by simp
  show ?thesis
  proof (cases "odd addr")
    case True
    with False have "data = []" by simp
    with t have "unat (swap_checksum (checksum_tail addr 0 data)) = ones_sum (le_value data)"
      using swap_ones [of "checksum_tail addr 0 data" 0] by (simp add: ones_sum_def)
    with True False show ?thesis using rfc1071_ones [of _ data] by (simp add: ipCalcChecksum_def Let_def)
  next
    case even: False
    with t show ?thesis using rfc1071_ones [of _ data] by (simp add: ipCalcChecksum_def Let_def)
  qed
qed

subsection \<open>Multi-part data\<close>

lemma rfc1071_back: "unat (ucast (rfc1071 data) XOR 0xFFFF :: u32) = ones_sum (le_value data)"
proof -
  define c where "c = (word_of_nat (ones_sum (le_value data)) :: u32)"
  have le: "ones_sum (le_value data) \<le> 65535" by (rule ones_sum_le)
  then have c: "unat c = ones_sum (le_value data)" unfolding c_def by (intro unat_of_nat_u32) simp
  then have "take_bit 16 c = c" using le unat_bit_ops(1) [of 16 c] by (intro word_unat_eq_iff [THEN iffD2]) simp
  then have low: "bit c n \<Longrightarrow> n < 16" for n by (metis bit_take_bit_iff)
  have "rfc1071 data = ucast (c XOR 0xFFFF)" using rfc1071_ones [OF c] by simp
  moreover have "ucast (ucast (c XOR 0xFFFF) :: u16) XOR 0xFFFF = c"
    unfolding mask16 by (rule bit_word_eqI) (auto simp: bit_simps dest: low)
  ultimately show ?thesis using c by simp
qed

lemma ones_sum_parity:
  "ones_sum (le_value (pre @ data)) = ones_sum (le_value pre + (if odd (length pre) then 256 else 1) * le_value data)"
proof (induction pre rule: word_sum.induct)
  case (3 b0 b1 bs)
  let ?k = "(if odd (length bs) then 256 else 1) * le_value data" and ?b = "unat b0 + 256 * unat b1"
  have "ones_sum (le_value ((b0 # b1 # bs) @ data)) = ones_sum (?b + 65536 * le_value (bs @ data))"
    by (simp add: algebra_simps)
  also have "\<dots> = ones_sum (?b + le_value (bs @ data))" by (rule ones_sum_shift16)
  also have "\<dots> = ones_sum (?b + (le_value bs + ?k))" by (rule ones_sum_add_cong [OF refl 3])
  also have "\<dots> = ones_sum ((?b + ?k) + le_value bs)" by (simp only: ac_simps)
  also have "\<dots> = ones_sum ((?b + ?k) + 65536 * le_value bs)" by (rule ones_sum_shift16 [symmetric])
  also have "\<dots> = ones_sum (le_value (b0 # b1 # bs) + ?k)" by (simp add: algebra_simps)
  finally show ?case by simp
qed simp_all

lemma checksum_chunks_eq:
  assumes "chunks_ok h cs" and "unat c = ones_sum (le_value pre)" and "pos = length pre"
  shows "\<exists>c'. checksum_chunks cs off len pos c h = Some c' \<and>
    unat c' = ones_sum (le_value (pre @ take (len - pos) (drop off (contents h cs))))"
  using assms
proof (induction cs off len pos c h arbitrary: pre rule: checksum_chunks.induct)
  case (2 d cs off len pos c h)
  show ?case
  proof (cases "\<not> pos < len \<or> chunk_length d \<le> off")
    case True
    show ?thesis
    proof (cases "pos < len")
      case below: True
      then have "\<not> off < chunk_length d" using True by simp
      from 2(2) [OF _ this] below 2(3-5) \<open>\<not> off < chunk_length d\<close> show ?thesis by (simp add: drop_append)
    qed (use 2(4) in simp)
  next
    case False
    define n where "n = min (chunk_length d - off) (len - pos)"
    define X where "X = take n (drop off (chunk_bytes h d))"
    have ok: "chunk_ok h d" "chunks_ok h cs" using 2(3) by simp_all
    have "off + n \<le> chunk_length d" using False by (auto simp: n_def)
    from load_chunk [OF ok(1) this] obtain p where
      p: "chunk_at d off = Some p" "load h p n = Some X" by (auto simp: X_def)
    have X: "length X = n" using ok(1) \<open>off + n \<le> chunk_length d\<close> by (simp add: X_def)
    let ?k = "if odd pos then 256 else 1" and ?c3 = "add_chunk pos c (snd p) X"
    define c1 where "c1 = (if odd pos then swap_checksum c else c)"
    define c2 where "c2 = fold16 (c1 + (ucast (ipCalcChecksum (snd p) X) XOR 0xFFFF))"
    have c3: "?c3 = (if odd pos then swap_checksum c2 else c2)" by (simp add: add_chunk_def c1_def c2_def Let_def)
    have c1: "unat c1 = ones_sum (?k * le_value pre)" using 2(4) by (simp add: c1_def swap_ones)
    have "unat c2 = ones_sum (?k * le_value pre + le_value X)"
      unfolding c2_def ipCalcChecksum_eq by (rule fold_add) (use c1 rfc1071_back [of X] ones_sum_le in simp_all)
    then have "unat ?c3 = ones_sum (le_value pre + ?k * le_value X)"
      using ones_sum_add_cong [OF ones_sum_swap_twice [of "le_value pre"] refl, of "256 * le_value X"]
      by (auto simp: c3 swap_ones algebra_simps)
    then have c3: "unat ?c3 = ones_sum (le_value (pre @ X))" using 2(5) by (simp add: ones_sum_parity)
    have "checksum_chunks (d # cs) off len pos c h = checksum_chunks cs 0 len (pos + n) ?c3 h"
      using False p by (simp add: n_def [symmetric] Let_def)
    moreover have "\<exists>c'. checksum_chunks cs 0 len (pos + n) ?c3 h = Some c' \<and>
        unat c' = ones_sum (le_value ((pre @ X) @ take (len - (pos + n)) (drop 0 (contents h cs))))"
      by (rule 2(1) [OF _ _ p(1) n_def p(2) ok(2) c3]) (use False X 2(5) in simp_all)
    moreover have "X @ take (len - (pos + n)) (contents h cs) = take (len - pos) (drop off (contents h (d # cs)))"
      using ok(1) False by (auto simp: X_def n_def min_def drop_append)
    ultimately show ?thesis by simp
  qed
qed simp

lemma ipCalcChecksumEx_eq:
  assumes "chunks_ok h (chunks b)"
  shows "ipCalcChecksumEx b off len h = Some (rfc1071 (take len (drop off (contents h (chunks b)))))"
  using checksum_chunks_eq [OF assms, of 0 "[]" 0 off len] rfc1071_ones
  by (auto simp: ipCalcChecksumEx_def ones_sum_def)

lemma upper_layer_sum:
  assumes "even (length ph)"
  shows "(ucast (fold16 ((ucast (rfc1071 ph) XOR 0xFFFF) + (ucast (rfc1071 data) XOR 0xFFFF) :: u32) XOR 0xFFFF) :: u16) =
    rfc1071 (ph @ data)"
proof (rule rfc1071_ones)
  have "unat (fold16 ((ucast (rfc1071 ph) XOR 0xFFFF) + (ucast (rfc1071 data) XOR 0xFFFF) :: u32)) =
      ones_sum (le_value ph + le_value data)"
    by (rule fold_add) (simp_all add: rfc1071_back ones_sum_le)
  then show "unat (fold16 ((ucast (rfc1071 ph) XOR 0xFFFF) + (ucast (rfc1071 data) XOR 0xFFFF) :: u32)) =
      ones_sum (le_value (ph @ data))"
    using assms by (simp add: ones_sum_parity)
qed

lemma ipCalcUpperLayerChecksum_eq:
  "even (length ph) \<Longrightarrow> ipCalcUpperLayerChecksum ph addr data = rfc1071 (ph @ data)"
  by (simp add: ipCalcUpperLayerChecksum_def ipCalcChecksum_eq Let_def upper_layer_sum)

lemma ipCalcUpperLayerChecksumEx_eq:
  "even (length ph) \<Longrightarrow> chunks_ok h (chunks b) \<Longrightarrow>
   ipCalcUpperLayerChecksumEx ph b off len h = Some (rfc1071 (ph @ take len (drop off (contents h (chunks b)))))"
  by (simp add: ipCalcUpperLayerChecksumEx_def ipCalcChecksum_eq ipCalcChecksumEx_eq Let_def upper_layer_sum)

subsection \<open>Verification\<close>

lemma rfc1071_zero_iff: "rfc1071 data = 0 \<longleftrightarrow> le_value data mod 65535 = 0 \<and> le_value data \<noteq> 0"
proof -
  let ?n = "ones_sum (le_value data)"
  have "rfc1071 data = 0 \<longleftrightarrow> unat (ucast (rfc1071 data) XOR 0xFFFF :: u32) = 65535"
  proof
    assume "unat (ucast (rfc1071 data) XOR 0xFFFF :: u32) = 65535"
    then have "(ucast (rfc1071 data) XOR 0xFFFF :: u32) = 0xFFFF" by (intro word_unat_eq_iff [THEN iffD2]) simp
    then have "(ucast (rfc1071 data) XOR 0xFFFF :: u32) XOR 0xFFFF = 0xFFFF XOR 0xFFFF" by (rule arg_cong)
    then have "(ucast (rfc1071 data) :: u32) = 0" by (simp only: xor.assoc xor_self_eq xor.right_neutral)
    then have "unat (rfc1071 data) = unat (0 :: u32)" by (simp only: unat_ucast16 [symmetric])
    then show "rfc1071 data = 0" by (simp add: unsigned_eq_0_iff)
  qed simp
  also have "\<dots> \<longleftrightarrow> ?n = 65535" by (simp only: rfc1071_back)
  also have "\<dots> \<longleftrightarrow> le_value data mod 65535 = 0 \<and> le_value data \<noteq> 0"
  proof
    assume "?n = 65535"
    then show "le_value data mod 65535 = 0 \<and> le_value data \<noteq> 0"
      using ones_sum_mod [of "le_value data"] ones_sum_zero [of "le_value data"] by simp
  next
    assume "le_value data mod 65535 = 0 \<and> le_value data \<noteq> 0"
    then show "?n = 65535" by (intro ones_sum_unique [symmetric]) simp_all
  qed
  finally show ?thesis .
qed

lemma ones_sum_word_at:
  assumes "even (length pre)"
  shows "ones_sum (le_value (pre @ [b0, b1] @ post)) = ones_sum ((le_value pre + le_value post) + (unat b0 + 256 * unat b1))"
proof -
  have "ones_sum (le_value (pre @ [b0, b1] @ post)) =
      ones_sum ((le_value pre + (unat b0 + 256 * unat b1)) + 65536 * le_value post)"
    using assms by (simp add: ones_sum_parity algebra_simps)
  also have "\<dots> = ones_sum ((le_value pre + (unat b0 + 256 * unat b1)) + le_value post)" by (rule ones_sum_shift16)
  finally show ?thesis by (simp only: ac_simps)
qed

lemma word_bytes_le: "unat (ucast (r :: u16) :: u8) + 256 * unat (ucast (drop_bit 8 r) :: u8) = unat r"
proof -
  have "get16 [ucast r, ucast (drop_bit 8 r)] 0 = r"
    by (rule bit_word_eqI) (auto simp: get16_def bit_simps)
  then show ?thesis using unat_le_bytes(2) [of "ucast r" "ucast (drop_bit 8 r)" "[]"] by simp
qed

lemma unat_numeral_65535: "unat (0xFFFF :: u16) = 65535"
  by simp

lemma unat_not16: "unat (NOT (x :: u16)) = 65535 - unat x"
proof -
  have "(- 1 :: u16) = 0xFFFF" by simp
  then have m: "unat (- 1 :: u16) = 65535" by (metis unat_numeral_65535)
  have "x \<le> - 1" using unat_u16_bound [of x] by (simp add: word_le_nat_alt m del: unat_u16_bound)
  then have "unat (- 1 - x) = 65535 - unat x" using m by (simp add: unat_sub)
  moreover have "NOT x = - 1 - x" by (simp add: not_eq_complement)
  ultimately show ?thesis by (simp only:)
qed

text \<open>Storing the checksum of data in a field that was zero makes the checksum of the result zero.\<close>

lemma rfc1071_verifies:
  assumes "even (length pre)" and "r = rfc1071 (pre @ [0, 0] @ post)"
  shows "rfc1071 (pre @ [ucast r, ucast (drop_bit 8 r)] @ post) = 0"
proof -
  let ?m = "le_value pre + le_value post" and ?d = "pre @ [ucast r, ucast (drop_bit 8 r)] @ post"
  have "ones_sum (le_value (pre @ [0, 0] @ post)) = ones_sum ?m" using ones_sum_word_at [OF assms(1), of 0 0 post] by simp
  then have r: "r = NOT (word_of_nat (ones_sum ?m))" by (simp add: assms(2) rfc1071_def word_sum_le_value)
  have n: "unat (word_of_nat (ones_sum ?m) :: u16) = ones_sum ?m" using ones_sum_le [of ?m] by (intro unat_of_nat_u16) simp
  have "unat r = 65535 - ones_sum ?m"
    unfolding r unat_not16 n by simp
  then have sum: "ones_sum ?m + unat r = 65535" using ones_sum_le [of ?m] by simp
  have "ones_sum (le_value ?d) = ones_sum (?m + unat r)"
    using ones_sum_word_at [OF assms(1)] by (simp only: word_bytes_le)
  also have "\<dots> = ones_sum (ones_sum ?m + unat r)" by (metis add.commute ones_sum_add)
  also have "\<dots> = 65535" unfolding sum by (simp add: ones_sum_def)
  finally have e: "ones_sum (le_value ?d) = 65535" .
  then have "le_value ?d mod 65535 = 0" using ones_sum_mod [of "le_value ?d"] by simp
  moreover have "le_value ?d \<noteq> 0" using e ones_sum_zero [of "le_value ?d"] by simp
  ultimately show ?thesis by (intro rfc1071_zero_iff [THEN iffD2] conjI)
qed

text \<open>A change of one aligned 16-bit word is detected, but for \<open>0x0000\<close> and \<open>0xFFFF\<close>.\<close>

lemma rfc1071_detects:
  assumes "even (length pre)" and "rfc1071 (pre @ [b0, b1] @ post) = 0" and "rfc1071 (pre @ [c0, c1] @ post) = 0"
  shows "[b0, b1] = [c0, c1] \<or> {[b0, b1], [c0, c1]} = {[0, 0], [0xFF, 0xFF]}"
proof -
  let ?m = "le_value pre + le_value post" and ?v = "\<lambda>x y :: u8. unat x + 256 * unat y"
  have "ones_sum (le_value (pre @ [x, y] @ post)) = 65535" if "rfc1071 (pre @ [x, y] @ post) = 0" for x y
    using that unfolding rfc1071_zero_iff by (intro ones_sum_unique [symmetric]) simp_all
  then have "ones_sum (?m + ?v b0 b1) = 65535" "ones_sum (?m + ?v c0 c1) = 65535"
    using assms(2,3) ones_sum_word_at [OF assms(1)] by metis+
  then have "(?m + ?v b0 b1) mod 65535 = (?m + ?v c0 c1) mod 65535" by (metis ones_sum_mod)
  from arg_cong [OF this, of int] have "int (?m + ?v b0 b1) mod 65535 = int (?m + ?v c0 c1) mod 65535"
    by (simp only: of_nat_mod of_nat_numeral)
  from mod_diff_cong [OF this refl, of "int ?m"] have "int (?v b0 b1) mod 65535 = int (?v c0 c1) mod 65535" by simp
  then have eq: "?v b0 b1 mod 65535 = ?v c0 c1 mod 65535" by (metis nat_int of_nat_mod of_nat_numeral)
  have le: "unat x \<le> 255" for x :: u8 using unat_u8_bound [of x] by linarith
  have b: "?v x y \<le> 65535" for x y :: u8 using le [of x] le [of y] by linarith
  have inj: "x = x' \<and> y = y'" if "?v x y = ?v x' y'" for x y x' y' :: u8
  proof -
    have "?v x y mod 256 = unat x" "?v x' y' mod 256 = unat x'" using le [of x] le [of x'] by simp_all
    with that have "unat x = unat x'" by metis
    with that have "unat y = unat y'" by simp
    with \<open>unat x = unat x'\<close> show ?thesis by (simp add: word_unat_eq_iff)
  qed
  have ends: "?v (0 :: u8) 0 = 0" "?v (0xFF :: u8) 0xFF = 65535" by simp_all
  have "?v b0 b1 = ?v c0 c1 \<or> ?v b0 b1 = 0 \<and> ?v c0 c1 = 65535 \<or> ?v b0 b1 = 65535 \<and> ?v c0 c1 = 0"
    by (rule mod_65535_cases [OF b b eq])
  then show ?thesis
  proof (elim disjE conjE)
    assume "?v b0 b1 = ?v c0 c1" from inj [OF this] show ?thesis by simp
  next
    assume "?v b0 b1 = 0" "?v c0 c1 = 65535"
    with inj [of b0 b1 0 0] inj [of c0 c1 "0xFF" "0xFF"] ends show ?thesis by simp
  next
    assume "?v b0 b1 = 65535" "?v c0 c1 = 0"
    with inj [of c0 c1 0 0] inj [of b0 b1 "0xFF" "0xFF"] ends show ?thesis by auto
  qed
qed

end
