(* ===== verification/BaseProperties.thy ===== *)
theory BaseProperties
  imports ModbusCommon IpChecksum
begin

text \<open>
  The properties of the shared routines: byte order, bit reversal, the wrap-around clock and the
  packed coils.
\<close>

text \<open>
  \<open>reverseInt8\<close>, \<open>reverseInt16\<close> and \<open>reverseInt32\<close> of \<open>cpu_endian.c\<close> reverse the bits of a word: bit
  \<open>n\<close> of the result is bit \<open>w - 1 - n\<close> of the argument.
\<close>

lemma reverse_bits:
  "(\<forall>n\<in>{..<8}. bit (reverseInt8 a) n = bit a (7 - n)) \<and>
   (\<forall>n\<in>{..<16}. bit (reverseInt16 b) n = bit b (15 - n)) \<and>
   (\<forall>n\<in>{..<32}. bit (reverseInt32 c) n = bit c (31 - n))"
  by (simp add: bit_reverseInt8 bit_reverseInt16 bit_reverseInt32)

definition swapped_index :: "nat \<Rightarrow> nat" where
  "swapped_index n = 8 * (3 - n div 8) + n mod 8"

lemma bit_swapInt32: "n < 32 \<Longrightarrow> bit (swapInt32 x) n \<longleftrightarrow> bit x (swapped_index n)"
proof -
  have "\<forall>n<32. bit (swapInt32 x) n \<longleftrightarrow> bit x (swapped_index n)"
    unfolding all_less_32
    by (simp add: swapInt32_def swapped_index_def bit_simps; simp add: numeral_2_eq_2 numeral_3_eq_3)
  then show "n < 32 \<Longrightarrow> ?thesis" by blast
qed

lemma swapped_index: "n < 32 \<Longrightarrow> swapped_index n < 32 \<and> swapped_index (swapped_index n) = n"
proof -
  have "\<forall>n<32. swapped_index n < 32 \<and> swapped_index (swapped_index n) = n"
    unfolding all_less_32 by (simp add: swapped_index_def)
  then show "n < 32 \<Longrightarrow> ?thesis" by blast
qed

lemma swapInt32_swapped_twice: "swapInt32 (swapInt32 x) = x"
  by (rule bit_word_eqI) (simp add: bit_swapInt32 swapped_index)

text \<open>
  Reading a 16-bit member of a packed structure and applying \<open>ntohs\<close> is the big-endian load of its
  two bytes, and \<open>ntohs\<close> undoes \<open>htons\<close>; likewise the 32-bit swap is its own inverse.
\<close>

lemma network_byte_order:
  "ntohs (get16 b i) = LOAD16BE b i \<and> ntohs (htons x) = x \<and> ntohl (htonl y) = y"
  by (simp add: ntohs_get16 ntohl_def htonl_def swapInt32_swapped_twice)

text \<open>
  Comparing a time with a deadline is right across a wrap of the 32-bit tick counter, as long as
  the deadline is less than \<open>2 ^ 31\<close> ticks away.
\<close>

lemma time_compare_wraps:
  assumes "age < 2147483648 + timeout" and "timeout < 2147483648"
  shows "0 \<le> timeCompare (start + word_of_nat age) (start + word_of_nat timeout) \<longleftrightarrow> timeout \<le> age"
  by (rule timeCompare_deadline [OF assms])

lemma time_compare_wraps_example:
  "0 \<le> timeCompare (0xFFFFFF00 + word_of_nat 1000) (0xFFFFFF00 + word_of_nat 1000) \<and>
   \<not> 0 \<le> timeCompare (0xFFFFFF00 + word_of_nat 999) (0xFFFFFF00 + word_of_nat 1000)"
  using time_compare_wraps [of 1000 1000 "0xFFFFFF00"] time_compare_wraps [of 999 1000 "0xFFFFFF00"]
  by (simp del: of_nat_numeral)

text \<open>
  The coil macros work on one bit of the packed field: inside the buffer, setting or resetting
  coil \<open>n\<close> makes \<open>MODBUS_TEST_COIL\<close> return that state at \<open>n\<close> and the old state everywhere else.
\<close>

lemma coil_macros:
  assumes "a + n div 8 < length b" and "a + m div 8 < length b"
  shows "(do { b' \<leftarrow> (if s then MODBUS_SET_COIL b a n else MODBUS_RESET_COIL b a n); MODBUS_TEST_COIL b' a m }) =
    (if m = n then Some s else MODBUS_TEST_COIL b a m)"
  using assms by (auto simp: mem_simps)

section \<open>Buffers and checksums\<close>

text \<open>
  The properties of the multi-part buffers and of the Internet checksum.
\<close>

subsection \<open>Multi-part buffers as byte sequences\<close>

lemma netBufferWrite_contents:
  assumes "chunks_ok h (chunks dest)" and "block_distinct (chunks dest)"
  obtains h' where "netBufferWrite dest off vs h = Some (min (length vs) (netBufferGetLength dest - off), h')"
    and "writes_in (chunk_blocks (chunks dest)) h h'"
    and "contents h' (chunks dest) = blit (contents h (chunks dest)) off (take (netBufferGetLength dest - off) vs)"
  using write_chunks_eq [OF assms, of off vs] unfolding netBufferWrite_def netBufferGetLength_eq by blast

lemma netBufferCopy_contents:
  assumes d: "chunks_ok h (chunks dest)" "block_distinct (chunks dest)" and s: "chunks_ok h (chunks src)"
    and apart: "chunk_blocks (chunks dest) \<inter> chunk_blocks (chunks src) = {}"
    and fits: "doff < netBufferGetLength dest" "off < netBufferGetLength src"
      "doff + len \<le> netBufferGetLength dest" "off + len \<le> netBufferGetLength src"
  obtains h' where "netBufferCopy dest doff src off len h = Some (NO_ERROR, h')"
    and "contents h' (chunks dest) = blit (contents h (chunks dest)) doff (take len (drop off (contents h (chunks src))))"
    and "contents h' (chunks src) = contents h (chunks src)"
proof -
  obtain pre d ds i where sd: "skip_chunks (chunks dest) doff = Some (d # ds, i)" "chunks dest = pre @ d # ds"
    "doff = chunks_total pre + i" "i < chunk_length d"
    using fits(1) unfolding netBufferGetLength_eq by (rule skip_chunks_Some)
  obtain pre' c cs j where ss: "skip_chunks (chunks src) off = Some (c # cs, j)" "chunks src = pre' @ c # cs"
    "off = chunks_total pre' + j" "j < chunk_length c"
    using fits(2) unfolding netBufferGetLength_eq by (rule skip_chunks_Some)
  have dok: "chunks_ok h pre" "chunks_ok h (d # ds)" "block_distinct (d # ds)" "chunk_blocks pre \<inter> chunk_blocks (d # ds) = {}"
    using d unfolding sd(2) block_distinct_def by auto
  have sok: "chunks_ok h pre'" "chunks_ok h (c # cs)" using s unfolding ss(2) by simp_all
  have bl: "chunk_blocks (d # ds) \<inter> chunk_blocks (c # cs) = {}" using apart unfolding sd(2) ss(2) by auto
  have len: "len \<le> chunks_total (d # ds) - i" "len \<le> chunks_total (c # cs) - j"
    using fits(3,4) unfolding netBufferGetLength_eq sd(2,3) ss(2,3) by simp_all
  obtain h' where h': "copy_chunks (d # ds) i (c # cs) j len h = Some (NO_ERROR, h')" "writes_in (chunk_blocks (d # ds)) h h'"
    "contents h' (d # ds) = blit (contents h (d # ds)) i (take len (drop j (contents h (c # cs))))"
    using copy_chunks_eq [OF dok(2) sok(2) dok(3) bl _ _ len] sd(4) ss(4) by auto
  have pre: "contents h' pre = contents h pre" using contents_frame [OF h'(2) dok(4)] .
  have src: "contents h' (chunks src) = contents h (chunks src)"
    using contents_frame [OF h'(2), of "chunks src"] apart unfolding sd(2) by auto
  have "contents h' (chunks dest) = blit (contents h (chunks dest)) doff (take len (drop off (contents h (chunks src))))"
    using h'(3) pre blit_append_right [of "contents h pre" doff] dok(1) contents_at [OF sok(1) ss(3), of "c # cs"]
    unfolding sd(2) ss(2) contents_simps(3) by (simp add: sd(3))
  then show ?thesis using that h'(1) src sd(1) ss(1) by (simp add: netBufferCopy_def)
qed

text \<open>
  C35: The multi-part buffers refine byte sequences.  However the bytes of a buffer are spread over its chunks,
  reading, writing and copying at an offset are \<open>take\<close>/\<open>drop\<close> and block replacement on the contents; a write stops
  at the end of the buffer, and a copy leaves its source alone.  No access leaves the chunks.
\<close>

theorem net_buffer_refines_bytes:
  assumes "chunks_ok h (chunks dest)" and "block_distinct (chunks dest)" and "chunks_ok h (chunks src)"
    and "chunk_blocks (chunks dest) \<inter> chunk_blocks (chunks src) = {}"
  shows "netBufferGetLength src = length (contents h (chunks src)) \<and>
    netBufferRead src off len h = Some (take len (drop off (contents h (chunks src)))) \<and>
    (\<exists>h'. netBufferWrite dest doff vs h = Some (min (length vs) (netBufferGetLength dest - doff), h') \<and>
      contents h' (chunks dest) = blit (contents h (chunks dest)) doff (take (netBufferGetLength dest - doff) vs)) \<and>
    (doff < netBufferGetLength dest \<and> off < netBufferGetLength src \<and> doff + len \<le> netBufferGetLength dest \<and>
      off + len \<le> netBufferGetLength src \<longrightarrow>
      (\<exists>h'. netBufferCopy dest doff src off len h = Some (NO_ERROR, h') \<and>
        contents h' (chunks dest) = blit (contents h (chunks dest)) doff (take len (drop off (contents h (chunks src)))) \<and>
        contents h' (chunks src) = contents h (chunks src)))"
proof (intro conjI impI)
  show "netBufferGetLength src = length (contents h (chunks src))" using assms(3) by (simp add: netBufferGetLength_eq)
  show "netBufferRead src off len h = Some (take len (drop off (contents h (chunks src))))"
    using read_chunks_eq [OF assms(3)] by (simp add: netBufferRead_def)
  show "\<exists>h'. netBufferWrite dest doff vs h = Some (min (length vs) (netBufferGetLength dest - doff), h') \<and>
      contents h' (chunks dest) = blit (contents h (chunks dest)) doff (take (netBufferGetLength dest - doff) vs)"
    by (rule netBufferWrite_contents [OF assms(1,2)]) blast
  assume fits: "doff < netBufferGetLength dest \<and> off < netBufferGetLength src \<and> doff + len \<le> netBufferGetLength dest \<and>
      off + len \<le> netBufferGetLength src"
  show "\<exists>h'. netBufferCopy dest doff src off len h = Some (NO_ERROR, h') \<and>
        contents h' (chunks dest) = blit (contents h (chunks dest)) doff (take len (drop off (contents h (chunks src)))) \<and>
        contents h' (chunks src) = contents h (chunks src)"
    using netBufferCopy_contents [OF assms, of doff off len] fits by blast
qed

text \<open>Two buffers of two chunks each, in four blocks.\<close>

definition sample_heap :: heap where
  "sample_heap = \<lparr>blocks = [0 \<mapsto> [1, 2, 3], 1 \<mapsto> [9, 4, 5], 2 \<mapsto> [0, 0], 3 \<mapsto> [0, 0, 0]], fresh_block = 4\<rparr>"

definition sample_src :: NetBuffer where
  "sample_src = \<lparr>maxChunkCount = 3, chunks =
     [\<lparr>chunk_address = Some (0, 0), chunk_length = 3, chunk_size = 0\<rparr>,
      \<lparr>chunk_address = Some (1, 1), chunk_length = 2, chunk_size = 0\<rparr>]\<rparr>"

definition sample_dest :: NetBuffer where
  "sample_dest = \<lparr>maxChunkCount = 3, chunks =
     [\<lparr>chunk_address = Some (2, 0), chunk_length = 2, chunk_size = 2\<rparr>,
      \<lparr>chunk_address = Some (3, 0), chunk_length = 3, chunk_size = 3\<rparr>]\<rparr>"

lemmas sample_defs = sample_heap_def sample_src_def sample_dest_def

lemma sample_ok:
  "chunks_ok sample_heap (chunks sample_dest)" "block_distinct (chunks sample_dest)"
  "chunks_ok sample_heap (chunks sample_src)"
  "chunk_blocks (chunks sample_dest) \<inter> chunk_blocks (chunks sample_src) = {}"
  by (simp_all add: sample_defs chunk_ok_def chunk_block_def)

lemma sample_contents:
  "contents sample_heap (chunks sample_src) = [1, 2, 3, 4, 5]" "contents sample_heap (chunks sample_dest) = [0, 0, 0, 0, 0]"
  "netBufferGetLength sample_src = 5" "netBufferGetLength sample_dest = 5"
  by (simp_all add: sample_defs contents_def chunk_bytes_def netBufferGetLength_def)

theorem net_buffer_refines_bytes_witness:
  "netBufferRead sample_src 1 3 sample_heap = Some [2, 3, 4] \<and>
   (\<exists>h'. netBufferCopy sample_dest 1 sample_src 1 3 sample_heap = Some (NO_ERROR, h') \<and>
      contents h' (chunks sample_dest) = [0, 2, 3, 4, 0])"
  using net_buffer_refines_bytes [OF sample_ok, of 1 3 1 "[]"] by (auto simp: sample_contents blit_def)

subsection \<open>Resizing\<close>

text \<open>
  C36: \<open>netBufferSetLength\<close> shortens or extends a buffer: what was there up to the new length stays, a failure is
  one of the two resource errors and leaves a buffer that is still in order, the blocks of everybody else are as
  they were, and every block the buffer no longer uses is released.
\<close>

theorem net_buffer_set_length:
  assumes "alloc_ok alloc" and "heap_ok (mem s)" and "nb_ok (mem s) b" and "chunk_blocks (chunks b) \<subseteq> live (mem s)"
  shows "\<exists>e b' s'. netBufferSetLength alloc b len s = Some (e, b', s') \<and> nb_ok (mem s') b' \<and>
    (if e = NO_ERROR then netBufferGetLength b' = len else e = ERROR_OUT_OF_MEMORY \<or> e = ERROR_OUT_OF_RESOURCES) \<and>
    (len \<le> netBufferGetLength b \<longrightarrow> e = NO_ERROR) \<and>
    take (min len (netBufferGetLength b)) (contents (mem s') (chunks b')) = take len (contents (mem s) (chunks b)) \<and>
    (\<forall>x \<in> live (mem s) - owned_blocks (chunks b). blocks (mem s') x = blocks (mem s) x) \<and>
    live (mem s') - owned_blocks (chunks b') \<subseteq> live (mem s) - owned_blocks (chunks b)"
proof (cases "len \<le> chunks_total (chunks b)")
  case True
  obtain kept F where r: "netBufferSetLength alloc b len s =
      Some (NO_ERROR, b\<lparr>chunks := kept\<rparr>, s\<lparr>mem := freed F (mem s)\<rparr>)"
    and f: "F \<subseteq> owned_blocks (chunks b)" "nb_ok (freed F (mem s)) (b\<lparr>chunks := kept\<rparr>)" "chunks_total kept = len"
      "owned_blocks kept = owned_blocks (chunks b) - F"
      "contents (freed F (mem s)) kept = take len (contents (mem s) (chunks b))"
    using set_length_shrink [OF assms(3) True, of alloc] by (elim exE conjE)
  have "live (freed F (mem s)) = live (mem s) - F" by (auto simp: live_def freed_def)
  then show ?thesis
    using r f True by (intro exI [of _ NO_ERROR] exI [of _ "b\<lparr>chunks := kept\<rparr>"] exI [of _ "s\<lparr>mem := freed F (mem s)\<rparr>"])
      (auto simp: netBufferGetLength_eq freed_def)
next
  case False
  have ok: "chunks_ok (mem s) (chunks b)" "owners_ok (mem s) (chunks b)" "chunks_total (chunks b) < len"
    using assms(3) False by (simp_all add: nb_ok_def)
  obtain kept where "adjust_chunks (chunks b) len = (kept, len - chunks_total kept, [])"
    using adjust_grow [OF ok] by blast
  then have "netBufferSetLength alloc b len s \<noteq> None"
    by (auto simp: netBufferSetLength_def split: prod.split)
  then obtain e b' s' where r: "netBufferSetLength alloc b len s = Some (e, b', s')" by (metis option.exhaust surj_pair)
  note g = set_length_grow [OF assms(1-3) ok(3) r assms(4)]
  then have "live (mem s') - owned_blocks (chunks b') \<subseteq> live (mem s) - owned_blocks (chunks b)" by blast
  then show ?thesis
    using g r ok(1,3) False by (intro exI [of _ e] exI [of _ b'] exI [of _ s']) (auto simp: netBufferGetLength_eq)
qed

text \<open>An allocator that always succeeds.\<close>

definition zero_alloc :: "nat \<Rightarrow> unit \<Rightarrow> buffer option \<times> unit" where
  "zero_alloc n w = (Some (replicate n 0), w)"

theorem net_buffer_set_length_witness:
  "\<exists>b' s'. netBufferSetLength zero_alloc sample_dest 3 \<lparr>mem = sample_heap, world = ()\<rparr> = Some (NO_ERROR, b', s') \<and>
     netBufferGetLength b' = 3 \<and> take 3 (contents (mem s') (chunks b')) = [0, 0, 0]"
proof -
  have "alloc_ok zero_alloc" by (simp add: alloc_ok_def zero_alloc_def)
  moreover have "heap_ok (mem \<lparr>mem = sample_heap, world = ()\<rparr>)" by (simp add: heap_ok_def sample_heap_def)
  moreover have "nb_ok (mem \<lparr>mem = sample_heap, world = ()\<rparr>) sample_dest"
    by (simp add: nb_ok_def sample_defs chunk_ok_def block_owner_def alias_free_def chunk_block_def)
  moreover have "chunk_blocks (chunks sample_dest) \<subseteq> live (mem \<lparr>mem = sample_heap, world = ()\<rparr>)"
    by (simp add: sample_defs chunk_block_def live_def)
  ultimately show ?thesis
    using net_buffer_set_length [of zero_alloc "\<lparr>mem = sample_heap, world = ()\<rparr>" sample_dest 3]
    by (fastforce simp: sample_contents split: if_splits)
qed

subsection \<open>The Internet checksum\<close>

text \<open>
  C37: The checksum routines compute the one's complement checksum of RFC 1071, at every alignment of the data
  and however it is spread over the chunks of a buffer, with and without a pseudo header.
\<close>

theorem checksum_is_rfc1071:
  assumes "chunks_ok h (chunks b)" and "even (length ph)"
  shows "ipCalcChecksum addr data = rfc1071 data \<and>
    ipCalcChecksumEx b off len h = Some (rfc1071 (take len (drop off (contents h (chunks b))))) \<and>
    ipCalcUpperLayerChecksum ph addr data = rfc1071 (ph @ data) \<and>
    ipCalcUpperLayerChecksumEx ph b off len h = Some (rfc1071 (ph @ take len (drop off (contents h (chunks b)))))"
  using ipCalcChecksum_eq ipCalcChecksumEx_eq [OF assms(1)] ipCalcUpperLayerChecksum_eq [OF assms(2)]
    ipCalcUpperLayerChecksumEx_eq [OF assms(2,1)] by simp

theorem checksum_is_rfc1071_witness:
  "ipCalcUpperLayerChecksumEx [7, 8] sample_src 1 3 sample_heap = Some (rfc1071 [7, 8, 2, 3, 4]) \<and>
   ipCalcChecksum 1 [0x45, 0x00, 0x11] = rfc1071 [0x45, 0x00, 0x11]"
  using checksum_is_rfc1071 [OF sample_ok(3), of "[7, 8]" 1 "[0x45, 0x00, 0x11]" 1 3] by (simp add: sample_contents)

text \<open>
  A datagram with its checksum filled in verifies (the sum over it is zero), and no change of a single 16-bit
  word leaves it so, except between the two representations of zero.
\<close>

lemma checksum_round_trip:
  assumes "even (length pre)" and "r = ipCalcChecksum addr (pre @ [0, 0] @ post)"
  shows "ipCalcChecksum addr' (pre @ [ucast r, ucast (drop_bit 8 r)] @ post) = 0 \<and>
    (\<forall>b c b' c' front rest. even (length front) \<and>
       pre @ [ucast r, ucast (drop_bit 8 r)] @ post = front @ [b, c] @ rest \<and>
       ipCalcChecksum addr' (front @ [b', c'] @ rest) = 0 \<longrightarrow>
       [b, c] = [b', c'] \<or> {[b, c], [b', c']} = {[0, 0], [0xFF, 0xFF]})"
proof (intro conjI allI impI)
  show v: "ipCalcChecksum addr' (pre @ [ucast r, ucast (drop_bit 8 r)] @ post) = 0"
    using rfc1071_verifies [OF assms(1)] assms(2) by (simp add: ipCalcChecksum_eq)
  fix b c b' c' front rest
  assume a: "even (length front) \<and> pre @ [ucast r, ucast (drop_bit 8 r)] @ post = front @ [b, c] @ rest \<and>
       ipCalcChecksum addr' (front @ [b', c'] @ rest) = 0"
  show "[b, c] = [b', c'] \<or> {[b, c], [b', c']} = {[0, 0], [0xFF, 0xFF]}"
    by (rule rfc1071_detects [of front b c rest b' c']) (use a v in \<open>simp_all add: ipCalcChecksum_eq\<close>)
qed

lemma checksum_round_trip_example:
  "ipCalcChecksum 0 ([0x45, 0x00] @ [ucast (ipCalcChecksum 0 [0x45, 0x00, 0, 0, 0x11]),
     ucast (drop_bit 8 (ipCalcChecksum 0 [0x45, 0x00, 0, 0, 0x11]))] @ [0x11]) = 0"
  using checksum_round_trip [of "[0x45, 0x00]" "ipCalcChecksum 0 [0x45, 0x00, 0, 0, 0x11]" 0 "[0x11]" 0] by simp

end
