(* ===== verification/ModbusServerMisc.thy ===== *)
theory ModbusServerMisc
  imports ModbusCommon OsPort
begin

text \<open>
  The state of the Modbus/TCP server (\<open>modbus_server.h\<close>) and the helpers of
  \<open>modbus_server_misc.c\<close> that work on one connection: parsing and formatting the MBAP header,
  locating the PDUs, the calls of the user callbacks and the translation of status codes.

  The type parameter \<open>'w\<close> is the state of everything outside the server: the tables the user
  callbacks read and write, the sockets and the clock.  A callback that writes through a pointer
  (\<open>bool_t *state\<close>) takes the old content of the pointed-to variable and returns the new one.
\<close>

subsection \<open>Data\<close>

datatype ModbusConnectionState =
    MODBUS_CONNECTION_STATE_CLOSED
  | MODBUS_CONNECTION_STATE_RECEIVING
  | MODBUS_CONNECTION_STATE_SENDING

record 'w ModbusServerSettings =
  "interface" :: "nat option"
  port :: u16
  unitId :: u8
  lockCallback :: "('w \<Rightarrow> 'w) option"
  unlockCallback :: "('w \<Rightarrow> 'w) option"
  readCoilCallback :: "(u16 \<Rightarrow> bool \<Rightarrow> 'w \<Rightarrow> error_t \<times> bool \<times> 'w) option"
  writeCoilCallback :: "(u16 \<Rightarrow> bool \<Rightarrow> bool \<Rightarrow> 'w \<Rightarrow> error_t \<times> 'w) option"
  readRegCallback :: "(u16 \<Rightarrow> u16 \<Rightarrow> 'w \<Rightarrow> error_t \<times> u16 \<times> 'w) option"
  writeRegValueCallback :: "(u16 \<Rightarrow> u16 \<Rightarrow> bool \<Rightarrow> 'w \<Rightarrow> error_t \<times> 'w) option"

text \<open>
  The member \<open>context\<close> of the C structure, the pointer back to the server, is not in the record:
  the operations take the settings they reach through it as an argument.
\<close>

record ModbusClientConnection =
  state :: ModbusConnectionState
  socket :: "socket_handle option"
  timestamp :: systime_t
  requestAdu :: buffer
  requestAduLen :: nat
  requestAduPos :: nat
  requestUnitId :: u8
  responseAdu :: buffer
  responseAduLen :: nat
  responseAduPos :: nat

text \<open>The structure after \<open>memset(connection, 0, sizeof(ModbusClientConnection))\<close>.\<close>

definition cleared_connection :: ModbusClientConnection where
  "cleared_connection =
     \<lparr>state = MODBUS_CONNECTION_STATE_CLOSED, socket = None, timestamp = 0,
      requestAdu = replicate MODBUS_MAX_ADU_SIZE 0, requestAduLen = 0, requestAduPos = 0,
      requestUnitId = 0, responseAdu = replicate MODBUS_MAX_ADU_SIZE 0, responseAduLen = 0,
      responseAduPos = 0\<rparr>"

subsection \<open>The MBAP header\<close>

definition modbusServerParseMbapHeader ::
    "ModbusClientConnection \<Rightarrow> (error_t \<times> ModbusClientConnection) option" where
  "modbusServerParseMbapHeader connection =
     (if requestAduPos connection < sizeof_ModbusHeader then Some (ERROR_INVALID_LENGTH, connection)
      else do {
        len \<leftarrow> rd16 (requestAdu connection) 4;
        let n = unat (ntohs len);
        if n < 1 then Some (ERROR_INVALID_LENGTH, connection)
        else do {
          let n = n - 1;
          protocolId \<leftarrow> rd16 (requestAdu connection) 2;
          if ntohs protocolId \<noteq> MODBUS_PROTOCOL_ID then Some (ERROR_WRONG_IDENTIFIER, connection)
          else if n > MODBUS_MAX_PDU_SIZE then Some (ERROR_INVALID_LENGTH, connection)
          else do {
            uid \<leftarrow> rd8 (requestAdu connection) 6;
            Some (NO_ERROR, connection\<lparr>requestUnitId := uid,
              requestAduLen := sizeof_ModbusHeader + n\<rparr>)
          }
        }
      })"

definition modbusServerFormatMbapHeader ::
    "ModbusClientConnection \<Rightarrow> nat \<Rightarrow> (error_t \<times> ModbusClientConnection) option" where
  "modbusServerFormatMbapHeader connection len =
     (if requestAduPos connection < sizeof_ModbusHeader then Some (ERROR_INVALID_LENGTH, connection)
      else do {
        transactionId \<leftarrow> rd16 (requestAdu connection) 0;
        adu \<leftarrow> wr16 (responseAdu connection) 0 transactionId;
        protocolId \<leftarrow> rd16 (requestAdu connection) 2;
        adu \<leftarrow> wr16 adu 2 protocolId;
        adu \<leftarrow> wr16 adu 4 (htons (word_of_nat (len + 1)));
        uid \<leftarrow> rd8 (requestAdu connection) 6;
        adu \<leftarrow> wr8 adu 6 uid;
        Some (NO_ERROR, connection\<lparr>responseAdu := adu,
          responseAduLen := sizeof_ModbusHeader + len,
          responseAduPos := 0,
          state := MODBUS_CONNECTION_STATE_SENDING\<rparr>)
      })"

subsection \<open>The PDUs inside the ADUs\<close>

text \<open>A pointer into an ADU is the offset; the request PDU comes with its length.\<close>

definition modbusServerGetRequestPdu :: "ModbusClientConnection \<Rightarrow> nat \<times> nat" where
  "modbusServerGetRequestPdu connection =
     (sizeof_ModbusHeader,
      if requestAduLen connection \<ge> sizeof_ModbusHeader
      then requestAduLen connection - sizeof_ModbusHeader else 0)"

definition modbusServerGetResponsePdu :: "ModbusClientConnection \<Rightarrow> nat" where
  "modbusServerGetResponsePdu connection = sizeof_ModbusHeader"

lemma modbusServerGetResponsePdu_simp [simp]: "modbusServerGetResponsePdu c = 7"
  by (simp add: modbusServerGetResponsePdu_def)

subsection \<open>Calling the user callbacks\<close>

definition modbusServerLock :: "'w ModbusServerSettings \<Rightarrow> 'w \<Rightarrow> 'w" where
  "modbusServerLock S w = (case lockCallback S of None \<Rightarrow> w | Some f \<Rightarrow> f w)"

text \<open>
  The guard tests the lock callback, not the unlock callback; with a lock callback alone the code
  calls a null pointer.
\<close>

definition modbusServerUnlock :: "'w ModbusServerSettings \<Rightarrow> 'w \<Rightarrow> 'w option" where
  "modbusServerUnlock S w =
     (case lockCallback S of None \<Rightarrow> Some w
      | Some _ \<Rightarrow> (case unlockCallback S of None \<Rightarrow> None | Some f \<Rightarrow> Some (f w)))"

definition modbusServerReadCoil ::
    "'w ModbusServerSettings \<Rightarrow> u16 \<Rightarrow> bool \<Rightarrow> 'w \<Rightarrow> error_t \<times> bool \<times> 'w" where
  "modbusServerReadCoil S address st w =
     (case readCoilCallback S of None \<Rightarrow> (ERROR_INVALID_ADDRESS, st, w) | Some f \<Rightarrow> f address st w)"

definition modbusServerWriteCoil ::
    "'w ModbusServerSettings \<Rightarrow> u16 \<Rightarrow> bool \<Rightarrow> bool \<Rightarrow> 'w \<Rightarrow> error_t \<times> 'w" where
  "modbusServerWriteCoil S address st commit w =
     (case writeCoilCallback S of None \<Rightarrow> (ERROR_INVALID_ADDRESS, w) | Some f \<Rightarrow> f address st commit w)"

definition modbusServerReadReg ::
    "'w ModbusServerSettings \<Rightarrow> u16 \<Rightarrow> u16 \<Rightarrow> 'w \<Rightarrow> error_t \<times> u16 \<times> 'w" where
  "modbusServerReadReg S address v w =
     (case readRegCallback S of None \<Rightarrow> (ERROR_INVALID_ADDRESS, v, w) | Some f \<Rightarrow> f address v w)"

definition modbusServerWriteReg ::
    "'w ModbusServerSettings \<Rightarrow> u16 \<Rightarrow> u16 \<Rightarrow> bool \<Rightarrow> 'w \<Rightarrow> error_t \<times> 'w" where
  "modbusServerWriteReg S address v commit w =
     (case writeRegValueCallback S of None \<Rightarrow> (ERROR_INVALID_ADDRESS, w) | Some f \<Rightarrow> f address v commit w)"

definition modbusServerTranslateExceptionCode :: "error_t \<Rightarrow> u8" where
  "modbusServerTranslateExceptionCode status =
     (case status of
        ERROR_INVALID_FUNCTION_CODE \<Rightarrow> MODBUS_EXCEPTION_ILLEGAL_FUNCTION
      | ERROR_INVALID_ADDRESS \<Rightarrow> MODBUS_EXCEPTION_ILLEGAL_DATA_ADDRESS
      | ERROR_INVALID_VALUE \<Rightarrow> MODBUS_EXCEPTION_ILLEGAL_DATA_VALUE
      | ERROR_DEVICE_BUSY \<Rightarrow> MODBUS_EXCEPTION_SLAVE_DEVICE_BUSY
      | _ \<Rightarrow> MODBUS_EXCEPTION_SLAVE_DEVICE_FAILURE)"

subsection \<open>Well-formed connections\<close>

text \<open>
  What every operation keeps: the two ADU buffers have their declared size and the length fields
  stay within them.
\<close>

definition conn_wf :: "ModbusClientConnection \<Rightarrow> bool" where
  "conn_wf c \<longleftrightarrow>
     length (requestAdu c) = MODBUS_MAX_ADU_SIZE \<and> length (responseAdu c) = MODBUS_MAX_ADU_SIZE \<and>
     requestAduLen c \<le> MODBUS_MAX_ADU_SIZE \<and> responseAduLen c \<le> MODBUS_MAX_ADU_SIZE"

lemma conn_wfD:
  assumes "conn_wf c"
  shows "length (requestAdu c) = 260" "length (responseAdu c) = 260"
    "requestAduLen c \<le> 260" "responseAduLen c \<le> 260"
  using assms by (simp_all add: conn_wf_def)

text \<open>Record updates that do not break it, as rewrite rules.\<close>

lemma conn_wf_update [simp]:
  "conn_wf (c\<lparr>state := s\<rparr>) = conn_wf c" "conn_wf (c\<lparr>socket := k\<rparr>) = conn_wf c"
  "conn_wf (c\<lparr>timestamp := t\<rparr>) = conn_wf c" "conn_wf (c\<lparr>requestAduPos := n\<rparr>) = conn_wf c"
  "conn_wf (c\<lparr>requestUnitId := u\<rparr>) = conn_wf c" "conn_wf (c\<lparr>responseAduPos := n\<rparr>) = conn_wf c"
  by (simp_all add: conn_wf_def)

lemma conn_wf_updateI [intro]:
  "conn_wf c \<Longrightarrow> length b = 260 \<Longrightarrow> conn_wf (c\<lparr>responseAdu := b\<rparr>)"
  "conn_wf c \<Longrightarrow> length b = 260 \<Longrightarrow> conn_wf (c\<lparr>requestAdu := b\<rparr>)"
  "conn_wf c \<Longrightarrow> n \<le> 260 \<Longrightarrow> conn_wf (c\<lparr>requestAduLen := n\<rparr>)"
  "conn_wf c \<Longrightarrow> n \<le> 260 \<Longrightarrow> conn_wf (c\<lparr>responseAduLen := n\<rparr>)"
  by (simp_all add: conn_wf_def)

lemma cleared_connection_wf: "conn_wf cleared_connection"
  by (simp add: conn_wf_def cleared_connection_def)

text \<open>The MBAP header of a response, in the buffer: what \<open>modbusServerFormatMbapHeader\<close> writes.\<close>

definition mbap_reply :: "buffer \<Rightarrow> nat \<Rightarrow> buffer \<Rightarrow> buffer" where
  "mbap_reply req len resp =
     (set16 (set16 (set16 resp 0 (get16 req 0)) 2 (get16 req 2)) 4 (htons (word_of_nat (len + 1))))
       [6 := req ! 6]"

lemma length_mbap_reply [simp]: "length (mbap_reply req len resp) = length resp"
  by (simp add: mbap_reply_def)

lemma nth_mbap_reply_pdu [simp]: "7 \<le> j \<Longrightarrow> mbap_reply req len resp ! j = resp ! j"
  by (simp add: mbap_reply_def)

lemma format_mbap_ok:
  assumes "conn_wf c" and "7 \<le> requestAduPos c"
  shows "modbusServerFormatMbapHeader c len = Some (NO_ERROR,
    c\<lparr>responseAdu := mbap_reply (requestAdu c) len (responseAdu c), responseAduLen := 7 + len,
      responseAduPos := 0, state := MODBUS_CONNECTION_STATE_SENDING\<rparr>)"
  using assms
  by (simp add: modbusServerFormatMbapHeader_def mem_simps conn_wfD mbap_reply_def)

lemma parse_mbap_ok:
  assumes "conn_wf c" and "7 \<le> requestAduPos c" and "mbap_acceptable (requestAdu c)"
  shows "modbusServerParseMbapHeader c = Some (NO_ERROR,
    c\<lparr>requestUnitId := requestAdu c ! 6, requestAduLen := 6 + mbap_length (requestAdu c)\<rparr>)"
  using assms(2,3) conn_wfD(1) [OF assms(1)]
  by (simp add: modbusServerParseMbapHeader_def mem_simps mbap_acceptable_def mbap_length_def Let_def
      del: unat_u16_bound) arith

lemma parse_mbap_reject:
  assumes "conn_wf c" and "\<not> (7 \<le> requestAduPos c \<and> mbap_acceptable (requestAdu c))"
  shows "\<exists>e. e \<noteq> NO_ERROR \<and> modbusServerParseMbapHeader c = Some (e, c)"
  using assms(2) conn_wfD(1) [OF assms(1)]
  by (simp add: modbusServerParseMbapHeader_def mem_simps mbap_acceptable_def mbap_length_def Let_def
      not_less not_le) linarith

end
