(* ===== verification/ModbusServerPdu.thy ===== *)
theory ModbusServerPdu
  imports ModbusServerMisc
begin

text \<open>
  \<open>modbus_server_pdu.c\<close>: one definition per handler, each the whole C function, and
  \<open>modbusServerProcessRequest\<close>, which dispatches on the function code and turns a failed request
  into an exception response.

  A handler takes the settings, the connection, the pointer to the request PDU (an offset in
  \<open>requestAdu\<close>) with its length, and the outside world.  It returns \<open>None\<close> for undefined behaviour
  and otherwise the status code, the connection and the world.  \<open>stack_locals\<close> is what the
  uninitialised local variables \<open>state\<close> and \<open>value\<close> of a handler hold when it starts.
  The trace and dump calls of the code print only and are left out.
\<close>

record stack_locals =
  junk_state :: bool
  junk_value :: u16

type_synonym 'w handler_result = "(error_t \<times> ModbusClientConnection \<times> 'w) option"

subsection \<open>The loops\<close>

text \<open>
  \<open>for(i = 0; i < quantity && !error; i++)\<close> over coils.  The 16-bit counter cannot wrap because it
  stays below the 16-bit \<open>quantity\<close>; the sum \<open>address + i\<close> wraps when it is passed as a
  \<open>uint16_t\<close>.
\<close>

function readCoils_loop ::
    "'w ModbusServerSettings \<Rightarrow> u16 \<Rightarrow> nat \<Rightarrow> nat \<Rightarrow> nat \<Rightarrow> error_t \<Rightarrow> bool \<Rightarrow> buffer \<Rightarrow> 'w \<Rightarrow>
     (error_t \<times> buffer \<times> 'w) option" where
  "readCoils_loop S address quantity a i error st adu w =
     (if i < quantity \<and> error = NO_ERROR then
        (case modbusServerReadCoil S (address + word_of_nat i) st w of
           (error, st, w) \<Rightarrow> do {
             adu \<leftarrow> (if error = NO_ERROR
                    then (if st then MODBUS_SET_COIL adu a i else MODBUS_RESET_COIL adu a i)
                    else Some adu);
             readCoils_loop S address quantity a (Suc i) error st adu w
           })
      else Some (error, adu, w))"
  by pat_completeness auto
termination
  by (relation "measure (\<lambda>(S, address, quantity, a, i, _). quantity - i)") auto

function readRegs_loop ::
    "'w ModbusServerSettings \<Rightarrow> u16 \<Rightarrow> nat \<Rightarrow> nat \<Rightarrow> nat \<Rightarrow> error_t \<Rightarrow> u16 \<Rightarrow> buffer \<Rightarrow> 'w \<Rightarrow>
     (error_t \<times> buffer \<times> 'w) option" where
  "readRegs_loop S address quantity a i error v adu w =
     (if i < quantity \<and> error = NO_ERROR then
        (case modbusServerReadReg S (address + word_of_nat i) v w of
           (error, v, w) \<Rightarrow> do {
             adu \<leftarrow> wr16 adu (a + 2 * i) (htons v);
             readRegs_loop S address quantity a (Suc i) error v adu w
           })
      else Some (error, adu, w))"
  by pat_completeness auto
termination
  by (relation "measure (\<lambda>(S, address, quantity, a, i, _). quantity - i)") auto

function writeCoils_loop ::
    "'w ModbusServerSettings \<Rightarrow> u16 \<Rightarrow> nat \<Rightarrow> buffer \<Rightarrow> nat \<Rightarrow> bool \<Rightarrow> nat \<Rightarrow> error_t \<Rightarrow> 'w \<Rightarrow>
     (error_t \<times> 'w) option" where
  "writeCoils_loop S address quantity req a commit i error w =
     (if i < quantity \<and> error = NO_ERROR then do {
        st \<leftarrow> MODBUS_TEST_COIL req a i;
        (case modbusServerWriteCoil S (address + word_of_nat i) st commit w of
           (error, w) \<Rightarrow> writeCoils_loop S address quantity req a commit (Suc i) error w)
      }
      else Some (error, w))"
  by pat_completeness auto
termination
  by (relation "measure (\<lambda>(S, address, quantity, req, a, commit, i, _). quantity - i)") auto

function writeRegs_loop ::
    "'w ModbusServerSettings \<Rightarrow> u16 \<Rightarrow> nat \<Rightarrow> buffer \<Rightarrow> nat \<Rightarrow> bool \<Rightarrow> nat \<Rightarrow> error_t \<Rightarrow> 'w \<Rightarrow>
     (error_t \<times> 'w) option" where
  "writeRegs_loop S address quantity req a commit i error w =
     (if i < quantity \<and> error = NO_ERROR then do {
        v \<leftarrow> rd16 req (a + 2 * i);
        (case modbusServerWriteReg S (address + word_of_nat i) (ntohs v) commit w of
           (error, w) \<Rightarrow> writeRegs_loop S address quantity req a commit (Suc i) error w)
      }
      else Some (error, w))"
  by pat_completeness auto
termination
  by (relation "measure (\<lambda>(S, address, quantity, req, a, commit, i, _). quantity - i)") auto

declare readCoils_loop.simps [simp del] readRegs_loop.simps [simp del]
  writeCoils_loop.simps [simp del] writeRegs_loop.simps [simp del]

subsection \<open>Sending a response\<close>

text \<open>\<open>return modbusServerFormatMbapHeader(connection, length)\<close>, with the response PDU in place.\<close>

definition finish_response :: "ModbusClientConnection \<Rightarrow> buffer \<Rightarrow> nat \<Rightarrow> 'w \<Rightarrow> 'w handler_result" where
  "finish_response connection adu len w = do {
     (error, connection) \<leftarrow> modbusServerFormatMbapHeader (connection\<lparr>responseAdu := adu\<rparr>) len;
     Some (error, connection, w)
   }"

subsection \<open>Reading coils and discrete inputs\<close>

definition modbusServerProcessReadCoilsReq ::
    "'w ModbusServerSettings \<Rightarrow> stack_locals \<Rightarrow> ModbusClientConnection \<Rightarrow> nat \<Rightarrow> nat \<Rightarrow> 'w \<Rightarrow>
     'w handler_result" where
  "modbusServerProcessReadCoilsReq S locals connection request len w =
     (if len < sizeof_ModbusReadReq then Some (ERROR_INVALID_LENGTH, connection, w)
      else do {
        startingAddr \<leftarrow> rd16 (requestAdu connection) (request + 1);
        let address = ntohs startingAddr;
        quantityOfCoils \<leftarrow> rd16 (requestAdu connection) (request + 3);
        let quantity = unat (ntohs quantityOfCoils);
        if quantity < 1 \<or> quantity > 2000 then Some (ERROR_INVALID_VALUE, connection, w)
        else do {
          let response = modbusServerGetResponsePdu connection;
          functionCode \<leftarrow> rd8 (requestAdu connection) request;
          adu \<leftarrow> wr8 (responseAdu connection) response functionCode;
          adu \<leftarrow> wr8 adu (response + 1) (word_of_nat ((quantity + 7) div 8));
          byteCount \<leftarrow> rd8 adu (response + 1);
          adu \<leftarrow> (if quantity mod 8 \<noteq> 0 then wr8 adu (response + 2 + (unat byteCount - 1)) 0
                 else Some adu);
          let w = modbusServerLock S w;
          (error, adu, w) \<leftarrow>
             readCoils_loop S address quantity (response + 2) 0 NO_ERROR (junk_state locals) adu w;
          w \<leftarrow> modbusServerUnlock S w;
          if error \<noteq> NO_ERROR then Some (error, connection\<lparr>responseAdu := adu\<rparr>, w)
          else do {
            byteCount \<leftarrow> rd8 adu (response + 1);
            finish_response connection adu (sizeof_ModbusReadResp + unat byteCount) w
          }
        }
      })"

definition modbusServerProcessReadDiscreteInputsReq ::
    "'w ModbusServerSettings \<Rightarrow> stack_locals \<Rightarrow> ModbusClientConnection \<Rightarrow> nat \<Rightarrow> nat \<Rightarrow> 'w \<Rightarrow>
     'w handler_result" where
  "modbusServerProcessReadDiscreteInputsReq S locals connection request len w =
     (if len < sizeof_ModbusReadReq then Some (ERROR_INVALID_LENGTH, connection, w)
      else do {
        startingAddr \<leftarrow> rd16 (requestAdu connection) (request + 1);
        let address = ntohs startingAddr;
        quantityOfInputs \<leftarrow> rd16 (requestAdu connection) (request + 3);
        let quantity = unat (ntohs quantityOfInputs);
        if quantity < 1 \<or> quantity > 2000 then Some (ERROR_INVALID_VALUE, connection, w)
        else do {
          let response = modbusServerGetResponsePdu connection;
          functionCode \<leftarrow> rd8 (requestAdu connection) request;
          adu \<leftarrow> wr8 (responseAdu connection) response functionCode;
          adu \<leftarrow> wr8 adu (response + 1) (word_of_nat ((quantity + 7) div 8));
          byteCount \<leftarrow> rd8 adu (response + 1);
          adu \<leftarrow> (if quantity mod 8 \<noteq> 0 then wr8 adu (response + 2 + (unat byteCount - 1)) 0
                 else Some adu);
          let w = modbusServerLock S w;
          (error, adu, w) \<leftarrow>
             readCoils_loop S address quantity (response + 2) 0 NO_ERROR (junk_state locals) adu w;
          w \<leftarrow> modbusServerUnlock S w;
          if error \<noteq> NO_ERROR then Some (error, connection\<lparr>responseAdu := adu\<rparr>, w)
          else do {
            byteCount \<leftarrow> rd8 adu (response + 1);
            finish_response connection adu (sizeof_ModbusReadResp + unat byteCount) w
          }
        }
      })"

subsection \<open>Reading registers\<close>

definition modbusServerProcessReadHoldingRegsReq ::
    "'w ModbusServerSettings \<Rightarrow> stack_locals \<Rightarrow> ModbusClientConnection \<Rightarrow> nat \<Rightarrow> nat \<Rightarrow> 'w \<Rightarrow>
     'w handler_result" where
  "modbusServerProcessReadHoldingRegsReq S locals connection request len w =
     (if len < sizeof_ModbusReadReq then Some (ERROR_INVALID_LENGTH, connection, w)
      else do {
        startingAddr \<leftarrow> rd16 (requestAdu connection) (request + 1);
        let address = ntohs startingAddr;
        quantityOfRegs \<leftarrow> rd16 (requestAdu connection) (request + 3);
        let quantity = unat (ntohs quantityOfRegs);
        if quantity < 1 \<or> quantity > 125 then Some (ERROR_INVALID_VALUE, connection, w)
        else do {
          let response = modbusServerGetResponsePdu connection;
          functionCode \<leftarrow> rd8 (requestAdu connection) request;
          adu \<leftarrow> wr8 (responseAdu connection) response functionCode;
          adu \<leftarrow> wr8 adu (response + 1) (word_of_nat (quantity * 2));
          let w = modbusServerLock S w;
          (error, adu, w) \<leftarrow>
             readRegs_loop S address quantity (response + 2) 0 NO_ERROR (junk_value locals) adu w;
          w \<leftarrow> modbusServerUnlock S w;
          if error \<noteq> NO_ERROR then Some (error, connection\<lparr>responseAdu := adu\<rparr>, w)
          else do {
            byteCount \<leftarrow> rd8 adu (response + 1);
            finish_response connection adu (sizeof_ModbusReadResp + unat byteCount) w
          }
        }
      })"

definition modbusServerProcessReadInputRegsReq ::
    "'w ModbusServerSettings \<Rightarrow> stack_locals \<Rightarrow> ModbusClientConnection \<Rightarrow> nat \<Rightarrow> nat \<Rightarrow> 'w \<Rightarrow>
     'w handler_result" where
  "modbusServerProcessReadInputRegsReq S locals connection request len w =
     (if len < sizeof_ModbusReadReq then Some (ERROR_INVALID_LENGTH, connection, w)
      else do {
        startingAddr \<leftarrow> rd16 (requestAdu connection) (request + 1);
        let address = ntohs startingAddr;
        quantityOfRegs \<leftarrow> rd16 (requestAdu connection) (request + 3);
        let quantity = unat (ntohs quantityOfRegs);
        if quantity < 1 \<or> quantity > 125 then Some (ERROR_INVALID_VALUE, connection, w)
        else do {
          let response = modbusServerGetResponsePdu connection;
          functionCode \<leftarrow> rd8 (requestAdu connection) request;
          adu \<leftarrow> wr8 (responseAdu connection) response functionCode;
          adu \<leftarrow> wr8 adu (response + 1) (word_of_nat (quantity * 2));
          let w = modbusServerLock S w;
          (error, adu, w) \<leftarrow>
             readRegs_loop S address quantity (response + 2) 0 NO_ERROR (junk_value locals) adu w;
          w \<leftarrow> modbusServerUnlock S w;
          if error \<noteq> NO_ERROR then Some (error, connection\<lparr>responseAdu := adu\<rparr>, w)
          else do {
            byteCount \<leftarrow> rd8 adu (response + 1);
            finish_response connection adu (sizeof_ModbusReadResp + unat byteCount) w
          }
        }
      })"

subsection \<open>Writing one coil or register\<close>

definition modbusServerProcessWriteSingleCoilReq ::
    "'w ModbusServerSettings \<Rightarrow> ModbusClientConnection \<Rightarrow> nat \<Rightarrow> nat \<Rightarrow> 'w \<Rightarrow> 'w handler_result" where
  "modbusServerProcessWriteSingleCoilReq S connection request len w =
     (if len < sizeof_ModbusWriteSingle then Some (ERROR_INVALID_LENGTH, connection, w)
      else do {
        outputAddr \<leftarrow> rd16 (requestAdu connection) (request + 1);
        let address = ntohs outputAddr;
        outputValue \<leftarrow> rd16 (requestAdu connection) (request + 3);
        if ntohs outputValue \<noteq> MODBUS_COIL_STATE_ON \<and> ntohs outputValue \<noteq> MODBUS_COIL_STATE_OFF
        then Some (ERROR_INVALID_VALUE, connection, w)
        else do {
          let st = (ntohs outputValue = MODBUS_COIL_STATE_ON);
          let w = modbusServerLock S w;
          let (error, w) = modbusServerWriteCoil S address st True w;
          w \<leftarrow> modbusServerUnlock S w;
          if error \<noteq> NO_ERROR then Some (error, connection, w)
          else do {
            let response = modbusServerGetResponsePdu connection;
            functionCode \<leftarrow> rd8 (requestAdu connection) request;
            adu \<leftarrow> wr8 (responseAdu connection) response functionCode;
            adu \<leftarrow> wr16 adu (response + 1) outputAddr;
            adu \<leftarrow> wr16 adu (response + 3) outputValue;
            finish_response connection adu sizeof_ModbusWriteSingle w
          }
        }
      })"

definition modbusServerProcessWriteSingleRegReq ::
    "'w ModbusServerSettings \<Rightarrow> ModbusClientConnection \<Rightarrow> nat \<Rightarrow> nat \<Rightarrow> 'w \<Rightarrow> 'w handler_result" where
  "modbusServerProcessWriteSingleRegReq S connection request len w =
     (if len < sizeof_ModbusWriteSingle then Some (ERROR_INVALID_LENGTH, connection, w)
      else do {
        regAddr \<leftarrow> rd16 (requestAdu connection) (request + 1);
        regValue \<leftarrow> rd16 (requestAdu connection) (request + 3);
        let w = modbusServerLock S w;
        let (error, w) = modbusServerWriteReg S (ntohs regAddr) (ntohs regValue) True w;
        w \<leftarrow> modbusServerUnlock S w;
        if error \<noteq> NO_ERROR then Some (error, connection, w)
        else do {
          let response = modbusServerGetResponsePdu connection;
          functionCode \<leftarrow> rd8 (requestAdu connection) request;
          adu \<leftarrow> wr8 (responseAdu connection) response functionCode;
          adu \<leftarrow> wr16 adu (response + 1) regAddr;
          adu \<leftarrow> wr16 adu (response + 3) regValue;
          finish_response connection adu sizeof_ModbusWriteSingle w
        }
      })"

subsection \<open>Writing several coils or registers: validate all, then commit all\<close>

definition modbusServerProcessWriteMultipleCoilsReq ::
    "'w ModbusServerSettings \<Rightarrow> ModbusClientConnection \<Rightarrow> nat \<Rightarrow> nat \<Rightarrow> 'w \<Rightarrow> 'w handler_result" where
  "modbusServerProcessWriteMultipleCoilsReq S connection request len w =
     (if len < sizeof_ModbusWriteMultipleReq then Some (ERROR_INVALID_LENGTH, connection, w)
      else do {
        let len = len - sizeof_ModbusWriteMultipleReq;
        byteCount \<leftarrow> rd8 (requestAdu connection) (request + 5);
        if len < unat byteCount then Some (ERROR_INVALID_LENGTH, connection, w)
        else do {
          startingAddr \<leftarrow> rd16 (requestAdu connection) (request + 1);
          let address = ntohs startingAddr;
          quantityOfOutputs \<leftarrow> rd16 (requestAdu connection) (request + 3);
          let quantity = unat (ntohs quantityOfOutputs);
          if quantity < 1 \<or> quantity > 2000 then Some (ERROR_INVALID_VALUE, connection, w)
          else if unat byteCount \<noteq> (quantity + 7) div 8 then Some (ERROR_INVALID_VALUE, connection, w)
          else do {
            let w = modbusServerLock S w;
            (error, w) \<leftarrow>
               writeCoils_loop S address quantity (requestAdu connection) (request + 6) False 0 NO_ERROR w;
            (error, w) \<leftarrow>
               writeCoils_loop S address quantity (requestAdu connection) (request + 6) True 0 error w;
            w \<leftarrow> modbusServerUnlock S w;
            if error \<noteq> NO_ERROR then Some (error, connection, w)
            else do {
              let response = modbusServerGetResponsePdu connection;
              functionCode \<leftarrow> rd8 (requestAdu connection) request;
              adu \<leftarrow> wr8 (responseAdu connection) response functionCode;
              adu \<leftarrow> wr16 adu (response + 1) startingAddr;
              adu \<leftarrow> wr16 adu (response + 3) quantityOfOutputs;
              finish_response connection adu sizeof_ModbusWriteMultipleResp w
            }
          }
        }
      })"

definition modbusServerProcessWriteMultipleRegsReq ::
    "'w ModbusServerSettings \<Rightarrow> ModbusClientConnection \<Rightarrow> nat \<Rightarrow> nat \<Rightarrow> 'w \<Rightarrow> 'w handler_result" where
  "modbusServerProcessWriteMultipleRegsReq S connection request len w =
     (if len < sizeof_ModbusWriteMultipleReq then Some (ERROR_INVALID_LENGTH, connection, w)
      else do {
        let len = len - sizeof_ModbusWriteMultipleReq;
        byteCount \<leftarrow> rd8 (requestAdu connection) (request + 5);
        if len < unat byteCount then Some (ERROR_INVALID_LENGTH, connection, w)
        else do {
          startingAddr \<leftarrow> rd16 (requestAdu connection) (request + 1);
          let address = ntohs startingAddr;
          quantityOfRegs \<leftarrow> rd16 (requestAdu connection) (request + 3);
          let quantity = unat (ntohs quantityOfRegs);
          if quantity < 1 \<or> quantity > 123 then Some (ERROR_INVALID_VALUE, connection, w)
          else if unat byteCount \<noteq> quantity * 2 then Some (ERROR_INVALID_VALUE, connection, w)
          else do {
            let w = modbusServerLock S w;
            (error, w) \<leftarrow>
               writeRegs_loop S address quantity (requestAdu connection) (request + 6) False 0 NO_ERROR w;
            (error, w) \<leftarrow>
               writeRegs_loop S address quantity (requestAdu connection) (request + 6) True 0 error w;
            w \<leftarrow> modbusServerUnlock S w;
            if error \<noteq> NO_ERROR then Some (error, connection, w)
            else do {
              let response = modbusServerGetResponsePdu connection;
              functionCode \<leftarrow> rd8 (requestAdu connection) request;
              adu \<leftarrow> wr8 (responseAdu connection) response functionCode;
              adu \<leftarrow> wr16 adu (response + 1) startingAddr;
              adu \<leftarrow> wr16 adu (response + 3) quantityOfRegs;
              finish_response connection adu sizeof_ModbusWriteMultipleResp w
            }
          }
        }
      })"

subsection \<open>Mask write and read/write\<close>

definition mask_reg :: "u16 \<Rightarrow> u16 \<Rightarrow> u16 \<Rightarrow> u16" where
  "mask_reg v andMask orMask = (v AND andMask) OR (orMask AND NOT andMask)"

definition modbusServerProcessMaskWriteRegReq ::
    "'w ModbusServerSettings \<Rightarrow> stack_locals \<Rightarrow> ModbusClientConnection \<Rightarrow> nat \<Rightarrow> nat \<Rightarrow> 'w \<Rightarrow>
     'w handler_result" where
  "modbusServerProcessMaskWriteRegReq S locals connection request len w =
     (if len < sizeof_ModbusMaskWriteReg then Some (ERROR_INVALID_LENGTH, connection, w)
      else do {
        referenceAddr \<leftarrow> rd16 (requestAdu connection) (request + 1);
        let address = ntohs referenceAddr;
        andMask \<leftarrow> rd16 (requestAdu connection) (request + 3);
        orMask \<leftarrow> rd16 (requestAdu connection) (request + 5);
        let w = modbusServerLock S w;
        let (error, v, w) = modbusServerReadReg S address (junk_value locals) w;
        let (error, w) =
           (if error = NO_ERROR
            then modbusServerWriteReg S address (mask_reg v (ntohs andMask) (ntohs orMask)) True w
            else (error, w));
        w \<leftarrow> modbusServerUnlock S w;
        if error \<noteq> NO_ERROR then Some (error, connection, w)
        else do {
          let response = modbusServerGetResponsePdu connection;
          functionCode \<leftarrow> rd8 (requestAdu connection) request;
          adu \<leftarrow> wr8 (responseAdu connection) response functionCode;
          adu \<leftarrow> wr16 adu (response + 1) referenceAddr;
          adu \<leftarrow> wr16 adu (response + 3) andMask;
          adu \<leftarrow> wr16 adu (response + 5) orMask;
          finish_response connection adu sizeof_ModbusMaskWriteReg w
        }
      })"

text \<open>
  The code subtracts the size of \<open>ModbusWriteMultipleRegsReq\<close> (6) where the header of this request
  is \<open>ModbusReadWriteMultipleRegsReq\<close> (10), so the length check is four bytes too weak.
\<close>

definition modbusServerProcessReadWriteMultipleRegsReq ::
    "'w ModbusServerSettings \<Rightarrow> stack_locals \<Rightarrow> ModbusClientConnection \<Rightarrow> nat \<Rightarrow> nat \<Rightarrow> 'w \<Rightarrow>
     'w handler_result" where
  "modbusServerProcessReadWriteMultipleRegsReq S locals connection request len w =
     (if len < sizeof_ModbusReadWriteMultipleRegsReq then Some (ERROR_INVALID_LENGTH, connection, w)
      else do {
        let len = len - sizeof_ModbusWriteMultipleReq;
        writeByteCount \<leftarrow> rd8 (requestAdu connection) (request + 9);
        if len < unat writeByteCount then Some (ERROR_INVALID_LENGTH, connection, w)
        else do {
          readStartingAddr \<leftarrow> rd16 (requestAdu connection) (request + 1);
          let readAddress = ntohs readStartingAddr;
          quantityToRead \<leftarrow> rd16 (requestAdu connection) (request + 3);
          let readQuantity = unat (ntohs quantityToRead);
          writeStartingAddr \<leftarrow> rd16 (requestAdu connection) (request + 5);
          let writeAddress = ntohs writeStartingAddr;
          quantityToWrite \<leftarrow> rd16 (requestAdu connection) (request + 7);
          let writeQuantity = unat (ntohs quantityToWrite);
          if readQuantity < 1 \<or> readQuantity > 125 then Some (ERROR_INVALID_VALUE, connection, w)
          else if writeQuantity < 1 \<or> writeQuantity > 121 then Some (ERROR_INVALID_VALUE, connection, w)
          else if unat writeByteCount \<noteq> writeQuantity * 2 then Some (ERROR_INVALID_VALUE, connection, w)
          else do {
            let response = modbusServerGetResponsePdu connection;
            functionCode \<leftarrow> rd8 (requestAdu connection) request;
            adu \<leftarrow> wr8 (responseAdu connection) response functionCode;
            adu \<leftarrow> wr8 adu (response + 1) (word_of_nat (readQuantity * 2));
            let w = modbusServerLock S w;
            (error, adu, w) \<leftarrow>
               readRegs_loop S readAddress readQuantity (response + 2) 0 NO_ERROR (junk_value locals) adu w;
            (error, w) \<leftarrow>
               writeRegs_loop S writeAddress writeQuantity (requestAdu connection) (request + 10) False 0 error w;
            (error, w) \<leftarrow>
               writeRegs_loop S writeAddress writeQuantity (requestAdu connection) (request + 10) True 0 error w;
            w \<leftarrow> modbusServerUnlock S w;
            if error \<noteq> NO_ERROR then Some (error, connection\<lparr>responseAdu := adu\<rparr>, w)
            else do {
              readByteCount \<leftarrow> rd8 adu (response + 1);
              finish_response connection adu (sizeof_ModbusReadResp + unat readByteCount) w
            }
          }
        }
      })"

subsection \<open>Exception responses and dispatch\<close>

definition modbusServerFormatExceptionResp ::
    "ModbusClientConnection \<Rightarrow> u8 \<Rightarrow> u8 \<Rightarrow> 'w \<Rightarrow> 'w handler_result" where
  "modbusServerFormatExceptionResp connection functionCode exceptionCode w = do {
     let response = modbusServerGetResponsePdu connection;
     adu \<leftarrow> wr8 (responseAdu connection) response (MODBUS_EXCEPTION_MASK OR functionCode);
     adu \<leftarrow> wr8 adu (response + 1) exceptionCode;
     finish_response connection adu sizeof_ModbusExceptionResp w
   }"

text \<open>The status codes that are answered with an exception response.\<close>

definition is_exception :: "error_t \<Rightarrow> bool" where
  "is_exception error \<longleftrightarrow>
     error = ERROR_INVALID_FUNCTION_CODE \<or> error = ERROR_INVALID_ADDRESS \<or>
     error = ERROR_INVALID_VALUE \<or> error = ERROR_WRITE_FAILED \<or>
     error = ERROR_READ_FAILED \<or> error = ERROR_DEVICE_BUSY"

definition modbusServerDispatch ::
    "'w ModbusServerSettings \<Rightarrow> stack_locals \<Rightarrow> u8 \<Rightarrow> ModbusClientConnection \<Rightarrow> nat \<Rightarrow> nat \<Rightarrow> 'w \<Rightarrow>
     'w handler_result" where
  "modbusServerDispatch S locals functionCode connection pdu n w =
     (if functionCode = MODBUS_FUNCTION_READ_COILS
      then modbusServerProcessReadCoilsReq S locals connection pdu n w
      else if functionCode = MODBUS_FUNCTION_READ_DISCRETE_INPUTS
      then modbusServerProcessReadDiscreteInputsReq S locals connection pdu n w
      else if functionCode = MODBUS_FUNCTION_READ_HOLDING_REGS
      then modbusServerProcessReadHoldingRegsReq S locals connection pdu n w
      else if functionCode = MODBUS_FUNCTION_READ_INPUT_REGS
      then modbusServerProcessReadInputRegsReq S locals connection pdu n w
      else if functionCode = MODBUS_FUNCTION_WRITE_SINGLE_COIL
      then modbusServerProcessWriteSingleCoilReq S connection pdu n w
      else if functionCode = MODBUS_FUNCTION_WRITE_SINGLE_REG
      then modbusServerProcessWriteSingleRegReq S connection pdu n w
      else if functionCode = MODBUS_FUNCTION_WRITE_MULTIPLE_COILS
      then modbusServerProcessWriteMultipleCoilsReq S connection pdu n w
      else if functionCode = MODBUS_FUNCTION_WRITE_MULTIPLE_REGS
      then modbusServerProcessWriteMultipleRegsReq S connection pdu n w
      else if functionCode = MODBUS_FUNCTION_MASK_WRITE_REG
      then modbusServerProcessMaskWriteRegReq S locals connection pdu n w
      else if functionCode = MODBUS_FUNCTION_READ_WRITE_MULTIPLE_REGS
      then modbusServerProcessReadWriteMultipleRegsReq S locals connection pdu n w
      else Some (ERROR_INVALID_FUNCTION_CODE, connection, w))"

definition modbusServerProcessRequest ::
    "'w ModbusServerSettings \<Rightarrow> stack_locals \<Rightarrow> ModbusClientConnection \<Rightarrow> 'w \<Rightarrow> 'w handler_result" where
  "modbusServerProcessRequest S locals connection w =
     (case modbusServerGetRequestPdu connection of
        (pdu, n) \<Rightarrow>
          if n = 0 then Some (ERROR_INVALID_LENGTH, connection, w)
          else do {
            functionCode \<leftarrow> rd8 (requestAdu connection) pdu;
            (error, connection, w) \<leftarrow> modbusServerDispatch S locals functionCode connection pdu n w;
            if is_exception error
            then modbusServerFormatExceptionResp connection functionCode
                   (modbusServerTranslateExceptionCode error) w
            else Some (error, connection, w)
          })"

end
