(* ===== verification/ModbusServerSafe.thy ===== *)
theory ModbusServerSafe
  imports ModbusServerPdu
begin

text \<open>
  What holds for every choice of user callbacks: no handler leaves its buffers, every handler
  keeps the connection well formed, a successful handler leaves exactly one response whose MBAP
  header echoes the request, and a failed handler leaves the connection as it was but for the
  contents of the response buffer.
\<close>

subsection \<open>The loops stay inside the buffers\<close>

lemma readCoils_loop_safe:
  assumes "a + (quantity + 7) div 8 \<le> length adu"
  shows "\<exists>e adu' w'. readCoils_loop S address quantity a i error st adu w = Some (e, adu', w') \<and>
    length adu' = length adu \<and> (\<forall>j<a. adu' ! j = adu ! j)"
  using assms
proof (induction S address quantity a i error st adu w rule: readCoils_loop.induct)
  case (1 S address quantity a i error st adu w)
  show ?case
  proof (cases "i < quantity \<and> error = NO_ERROR")
    case True
    obtain e s w1 where r: "modbusServerReadCoil S (address + word_of_nat i) st w = (e, s, w1)"
      by (metis prod_cases3)
    let ?adu = "if e = NO_ERROR then put_coil adu a i s else adu"
    from True "1.prems" have "a + i div 8 < length adu" using byte_index_less [of i quantity] by simp
    then have step: "(if e = NO_ERROR then if s then MODBUS_SET_COIL adu a i else MODBUS_RESET_COIL adu a i
        else Some adu) = Some ?adu"
      by (cases s) (simp_all add: mem_simps)
    have "\<exists>e' adu' w'. readCoils_loop S address quantity a (Suc i) e s ?adu w1 = Some (e', adu', w') \<and>
        length adu' = length ?adu \<and> (\<forall>j<a. adu' ! j = ?adu ! j)"
      using "1.IH" [OF True r [symmetric] refl step] "1.prems" by simp
    with True r step show ?thesis
      by (subst readCoils_loop.simps) auto
  next
    case False
    then show ?thesis by (subst readCoils_loop.simps) auto
  qed
qed

lemma readRegs_loop_safe:
  assumes "a + 2 * quantity \<le> length adu"
  shows "\<exists>e adu' w'. readRegs_loop S address quantity a i error v adu w = Some (e, adu', w') \<and>
    length adu' = length adu \<and> (\<forall>j<a. adu' ! j = adu ! j)"
  using assms
proof (induction S address quantity a i error v adu w rule: readRegs_loop.induct)
  case (1 S address quantity a i error v adu w)
  show ?case
  proof (cases "i < quantity \<and> error = NO_ERROR")
    case True
    obtain e s w1 where r: "modbusServerReadReg S (address + word_of_nat i) v w = (e, s, w1)"
      by (metis prod_cases3)
    let ?adu = "set16 adu (a + 2 * i) (htons s)"
    from True "1.prems" have step: "wr16 adu (a + 2 * i) (htons s) = Some ?adu"
      by (simp add: mem_simps)
    have "\<exists>e' adu' w'. readRegs_loop S address quantity a (Suc i) e s ?adu w1 = Some (e', adu', w') \<and>
        length adu' = length ?adu \<and> (\<forall>j<a. adu' ! j = ?adu ! j)"
      using "1.IH" [OF True r [symmetric] refl step] "1.prems" by simp
    with True r step show ?thesis
      by (subst readRegs_loop.simps) auto
  next
    case False
    then show ?thesis by (subst readRegs_loop.simps) auto
  qed
qed

lemma writeCoils_loop_safe:
  assumes "a + (quantity + 7) div 8 \<le> length req"
  shows "\<exists>e w'. writeCoils_loop S address quantity req a commit i error w = Some (e, w')"
  using assms
proof (induction S address quantity req a commit i error w rule: writeCoils_loop.induct)
  case (1 S address quantity req a commit i error w)
  show ?case
  proof (cases "i < quantity \<and> error = NO_ERROR")
    case True
    from True "1.prems" have "a + i div 8 < length req" using byte_index_less [of i quantity] by simp
    with True "1.IH" [OF True] "1.prems" show ?thesis
      by (subst writeCoils_loop.simps) (auto simp: mem_simps split: prod.split)
  next
    case False
    then show ?thesis by (subst writeCoils_loop.simps) auto
  qed
qed

lemma writeRegs_loop_safe:
  assumes "a + 2 * quantity \<le> length req"
  shows "\<exists>e w'. writeRegs_loop S address quantity req a commit i error w = Some (e, w')"
  using assms
proof (induction S address quantity req a commit i error w rule: writeRegs_loop.induct)
  case (1 S address quantity req a commit i error w)
  show ?case
  proof (cases "i < quantity \<and> error = NO_ERROR")
    case True
    with "1.IH" [OF True] "1.prems" show ?thesis
      by (subst writeRegs_loop.simps) (auto simp: mem_simps split: prod.split)
  next
    case False
    then show ?thesis by (subst writeRegs_loop.simps) auto
  qed
qed

subsection \<open>What a handler leaves behind\<close>

text \<open>
  \<open>replied c c' len\<close>: the connection \<open>c'\<close> is \<open>c\<close> with a response of \<open>len\<close> PDU bytes ready to be
  sent, under an MBAP header that copies the identifiers of the request.
\<close>

definition replied :: "ModbusClientConnection \<Rightarrow> ModbusClientConnection \<Rightarrow> nat \<Rightarrow> bool" where
  "replied c c' len \<longleftrightarrow>
     (\<exists>adu. length adu = MODBUS_MAX_ADU_SIZE \<and>
        c' = c\<lparr>responseAdu := mbap_reply (requestAdu c) len adu,
               responseAduLen := sizeof_ModbusHeader + len, responseAduPos := 0,
               state := MODBUS_CONNECTION_STATE_SENDING\<rparr>) \<and>
     2 \<le> len \<and> len \<le> MODBUS_MAX_PDU_SIZE"

definition handler_ok :: "ModbusClientConnection \<Rightarrow> 'w handler_result \<Rightarrow> bool" where
  "handler_ok c r \<longleftrightarrow>
     (\<exists>e c' w'. r = Some (e, c', w') \<and>
        (if e = NO_ERROR then \<exists>len. replied c c' len
         else \<exists>adu. length adu = MODBUS_MAX_ADU_SIZE \<and> c' = c\<lparr>responseAdu := adu\<rparr>))"

text \<open>The user registers a lock callback only together with an unlock callback.\<close>

definition callbacks_ok :: "'w ModbusServerSettings \<Rightarrow> bool" where
  "callbacks_ok S \<longleftrightarrow> (lockCallback S \<noteq> None \<longrightarrow> unlockCallback S \<noteq> None)"

lemma unlock_total: "callbacks_ok S \<Longrightarrow> \<exists>w'. modbusServerUnlock S w = Some w'"
  by (auto simp: callbacks_ok_def modbusServerUnlock_def split: option.splits)

lemma handler_ok_keep:
  "conn_wf c \<Longrightarrow> e \<noteq> NO_ERROR \<Longrightarrow> handler_ok c (Some (e, c, w))"
  unfolding handler_ok_def
  by (rule exI [of _ e], rule exI [of _ c], rule exI [of _ w])
    (auto simp: conn_wfD intro!: exI [of _ "responseAdu c"])

lemma handler_ok_failed:
  "length adu = 260 \<Longrightarrow> e \<noteq> NO_ERROR \<Longrightarrow> handler_ok c (Some (e, c\<lparr>responseAdu := adu\<rparr>, w))"
  unfolding handler_ok_def by auto

lemma finish_response_eq:
  assumes "conn_wf c" and "7 \<le> requestAduPos c" and "length adu = 260"
  shows "finish_response c adu len w = Some (NO_ERROR,
    c\<lparr>responseAdu := mbap_reply (requestAdu c) len adu, responseAduLen := 7 + len,
      responseAduPos := 0, state := MODBUS_CONNECTION_STATE_SENDING\<rparr>, w)"
  using assms format_mbap_ok [of "c\<lparr>responseAdu := adu\<rparr>" len]
  by (simp add: finish_response_def conn_wf_updateI)

lemma handler_ok_finish:
  assumes "conn_wf c" and "7 \<le> requestAduPos c" and "length adu = 260" and "2 \<le> len" and "len \<le> 253"
  shows "handler_ok c (finish_response c adu len w)"
proof -
  have "replied c (c\<lparr>responseAdu := mbap_reply (requestAdu c) len adu, responseAduLen := 7 + len,
      responseAduPos := 0, state := MODBUS_CONNECTION_STATE_SENDING\<rparr>) len"
    unfolding replied_def using assms by blast
  with assms show ?thesis by (auto simp: finish_response_eq handler_ok_def)
qed

lemmas handler_okI = handler_ok_keep handler_ok_failed handler_ok_finish

lemma replied_wf: "conn_wf c \<Longrightarrow> replied c c' len \<Longrightarrow> conn_wf c'"
  by (auto simp: replied_def conn_wf_def)

lemma handler_ok_wf:
  "handler_ok c (Some (e, c', w')) \<Longrightarrow> conn_wf c \<Longrightarrow> conn_wf c'"
  by (auto simp: handler_ok_def conn_wf_updateI dest: replied_wf split: if_splits)

subsection \<open>Every handler\<close>

lemma coil_bytes_le: "q \<le> 2000 \<Longrightarrow> (q + 7) div 8 \<le> (250::nat)"
  using div_le_mono [of "q + 7" 2007 8] by simp

text \<open>
  The two members of a request that carry an address and a quantity, and the response buffer a
  coil request prepares before its loop.
\<close>

definition coils_header :: "ModbusClientConnection \<Rightarrow> nat \<Rightarrow> buffer" where
  "coils_header c q =
     (let adu = (responseAdu c)[7 := requestAdu c ! 7, 8 := word_of_nat ((q + 7) div 8)]
      in if q mod 8 \<noteq> 0 then adu[8 + (q + 7) div 8 := 0] else adu)"

lemma length_coils_header [simp]: "length (coils_header c q) = length (responseAdu c)"
  by (simp add: coils_header_def Let_def)

lemma coil_bytes_word:
  assumes "q \<le> 2000" shows "unat (word_of_nat ((q + 7) div 8) :: u8) = (q + 7) div 8"
  using coil_bytes_le [OF assms] by (intro unat_of_nat_u8) simp

lemma coils_header_byteCount:
  assumes "conn_wf c" shows "coils_header c q ! 8 = word_of_nat ((q + 7) div 8)"
proof (cases "q mod 8 = 0")
  case False
  then have "0 < (q + 7) div 8" by (cases q) auto
  then show ?thesis using conn_wfD [OF assms] by (auto simp: coils_header_def Let_def)
next
  case True
  then show ?thesis using conn_wfD [OF assms] by (simp add: coils_header_def Let_def)
qed

lemma read_coils_unfold:
  assumes "conn_wf c" and "unat (ntohs (get16 (requestAdu c) 10)) = q"
    and "5 \<le> len" and "1 \<le> q" and "q \<le> 2000"
  shows "modbusServerProcessReadCoilsReq S locals c 7 len w = do {
    (error, adu, w) \<leftarrow> readCoils_loop S (ntohs (get16 (requestAdu c) 8)) q 9 0 NO_ERROR
       (junk_state locals) (coils_header c q) (modbusServerLock S w);
    w \<leftarrow> modbusServerUnlock S w;
    if error \<noteq> NO_ERROR then Some (error, c\<lparr>responseAdu := adu\<rparr>, w)
    else do {
      byteCount \<leftarrow> rd8 adu 8;
      finish_response c adu (2 + unat byteCount) w
    }
  }"
proof -
  have "9 + ((q + 7) div 8 - 1) = 8 + (q + 7) div 8" using assms(4) by simp
  then show ?thesis
    using assms conn_wfD [OF assms(1)] coil_bytes_le [OF assms(5)]
    by (simp add: modbusServerProcessReadCoilsReq_def mem_simps Let_def coils_header_def coil_bytes_word
        cong: if_cong)
qed

lemma read_coils_ok:
  assumes "conn_wf c" and "7 \<le> requestAduPos c" and "callbacks_ok S"
  shows "handler_ok c (modbusServerProcessReadCoilsReq S locals c 7 len w)"
proof (cases "len < 5 \<or> unat (ntohs (get16 (requestAdu c) 10)) < 1 \<or> unat (ntohs (get16 (requestAdu c) 10)) > 2000")
  case True
  with assms(1) conn_wfD(1) [OF assms(1)] show ?thesis
    by (auto simp: modbusServerProcessReadCoilsReq_def mem_simps Let_def intro: handler_ok_keep)
next
  case False
  define q where "q = unat (ntohs (get16 (requestAdu c) 10))"
  from False have q: "1 \<le> q" "q \<le> 2000" "5 \<le> len" by (auto simp: q_def)
  note L = conn_wfD [OF assms(1)] coil_bytes_le [OF q(2)]
  have fit: "9 + (q + 7) div 8 \<le> length (coils_header c q)" using L by simp
  from readCoils_loop_safe [OF fit, of S "ntohs (get16 (requestAdu c) 8)" 0 NO_ERROR "junk_state locals"
      "modbusServerLock S w"]
  obtain e adu w1 where loop: "readCoils_loop S (ntohs (get16 (requestAdu c) 8)) q 9 0 NO_ERROR
      (junk_state locals) (coils_header c q) (modbusServerLock S w) = Some (e, adu, w1)"
    and adu: "length adu = 260" "adu ! 8 = word_of_nat ((q + 7) div 8)"
    using L(2) coils_header_byteCount [OF assms(1)] by auto
  obtain w2 where u: "modbusServerUnlock S w1 = Some w2" using unlock_total [OF assms(3)] by blast
  have "2 \<le> 2 + unat (adu ! 8)" "2 + unat (adu ! 8) \<le> 253"
    using adu(2) coil_bytes_word [OF q(2)] L by simp_all
  then show ?thesis
    unfolding read_coils_unfold [OF assms(1) q_def [symmetric] q(3,1,2)]
    using loop u adu assms(1,2) by (simp add: mem_simps handler_ok_failed handler_ok_finish)
qed

text \<open>The C text of the two coil handlers differs only in the names of the structures.\<close>

lemma read_discrete_inputs_eq:
  "modbusServerProcessReadDiscreteInputsReq S locals c request len w =
   modbusServerProcessReadCoilsReq S locals c request len w"
  by (simp add: modbusServerProcessReadDiscreteInputsReq_def modbusServerProcessReadCoilsReq_def)

lemma read_input_regs_eq:
  "modbusServerProcessReadInputRegsReq S locals c request len w =
   modbusServerProcessReadHoldingRegsReq S locals c request len w"
  by (simp add: modbusServerProcessReadInputRegsReq_def modbusServerProcessReadHoldingRegsReq_def)

definition regs_header :: "ModbusClientConnection \<Rightarrow> nat \<Rightarrow> buffer" where
  "regs_header c q = (responseAdu c)[7 := requestAdu c ! 7, 8 := word_of_nat (q * 2)]"

lemma length_regs_header [simp]: "length (regs_header c q) = length (responseAdu c)"
  by (simp add: regs_header_def)

lemma regs_header_byteCount:
  "conn_wf c \<Longrightarrow> regs_header c q ! 8 = word_of_nat (q * 2)"
  by (simp add: regs_header_def conn_wfD)

lemma read_regs_unfold:
  assumes "conn_wf c" and "unat (ntohs (get16 (requestAdu c) 10)) = q"
    and "5 \<le> len" and "1 \<le> q" and "q \<le> 125"
  shows "modbusServerProcessReadHoldingRegsReq S locals c 7 len w = do {
    (error, adu, w) \<leftarrow> readRegs_loop S (ntohs (get16 (requestAdu c) 8)) q 9 0 NO_ERROR
       (junk_value locals) (regs_header c q) (modbusServerLock S w);
    w \<leftarrow> modbusServerUnlock S w;
    if error \<noteq> NO_ERROR then Some (error, c\<lparr>responseAdu := adu\<rparr>, w)
    else do {
      byteCount \<leftarrow> rd8 adu 8;
      finish_response c adu (2 + unat byteCount) w
    }
  }"
  using assms conn_wfD [OF assms(1)]
  by (simp add: modbusServerProcessReadHoldingRegsReq_def mem_simps Let_def regs_header_def
      cong: if_cong del: of_nat_mult)

lemma reg_bytes_word: "q \<le> 127 \<Longrightarrow> unat (word_of_nat (q * 2) :: u8) = q * 2"
  by (intro unat_of_nat_u8) simp

lemma read_regs_ok:
  assumes "conn_wf c" and "7 \<le> requestAduPos c" and "callbacks_ok S"
  shows "handler_ok c (modbusServerProcessReadHoldingRegsReq S locals c 7 len w)"
proof (cases "len < 5 \<or> unat (ntohs (get16 (requestAdu c) 10)) < 1 \<or> unat (ntohs (get16 (requestAdu c) 10)) > 125")
  case True
  with assms(1) conn_wfD(1) [OF assms(1)] show ?thesis
    by (auto simp: modbusServerProcessReadHoldingRegsReq_def mem_simps Let_def intro: handler_ok_keep)
next
  case False
  define q where "q = unat (ntohs (get16 (requestAdu c) 10))"
  from False have q: "1 \<le> q" "q \<le> 125" "5 \<le> len" by (auto simp: q_def)
  note L = conn_wfD [OF assms(1)]
  have fit: "9 + 2 * q \<le> length (regs_header c q)" using L q by simp
  from readRegs_loop_safe [OF fit, of S "ntohs (get16 (requestAdu c) 8)" 0 NO_ERROR "junk_value locals"
      "modbusServerLock S w"]
  obtain e adu w1 where loop: "readRegs_loop S (ntohs (get16 (requestAdu c) 8)) q 9 0 NO_ERROR
      (junk_value locals) (regs_header c q) (modbusServerLock S w) = Some (e, adu, w1)"
    and adu: "length adu = 260" "adu ! 8 = word_of_nat (q * 2)"
    using L(2) regs_header_byteCount [OF assms(1)] by auto
  obtain w2 where u: "modbusServerUnlock S w1 = Some w2" using unlock_total [OF assms(3)] by blast
  have "2 \<le> 2 + unat (adu ! 8)" "2 + unat (adu ! 8) \<le> 253"
    using adu(2) q reg_bytes_word [of q] by simp_all
  then show ?thesis
    unfolding read_regs_unfold [OF assms(1) q_def [symmetric] q(3,1,2)]
    using loop u adu assms(1,2) by (simp add: mem_simps handler_ok_failed handler_ok_finish)
qed

text \<open>The normal response of a write echoes the first five bytes of the request PDU.\<close>

definition echo5 :: "ModbusClientConnection \<Rightarrow> buffer" where
  "echo5 c = set16 (set16 ((responseAdu c)[7 := requestAdu c ! 7]) 8 (get16 (requestAdu c) 8))
     10 (get16 (requestAdu c) 10)"

lemma length_echo5 [simp]: "length (echo5 c) = length (responseAdu c)"
  by (simp add: echo5_def)

text \<open>The common end of a write: unlock, then report the error or send the prepared response.\<close>

definition end_write ::
    "'w ModbusServerSettings \<Rightarrow> ModbusClientConnection \<Rightarrow> buffer \<Rightarrow> nat \<Rightarrow> error_t \<times> 'w \<Rightarrow>
     'w handler_result" where
  "end_write S c adu len r = (case r of (error, w) \<Rightarrow> do {
     w \<leftarrow> modbusServerUnlock S w;
     if error \<noteq> NO_ERROR then Some (error, c, w) else finish_response c adu len w
   })"

lemma end_write_ok:
  assumes "conn_wf c" and "7 \<le> requestAduPos c" and "callbacks_ok S" and "length adu = 260"
    and "2 \<le> len" and "len \<le> 253"
  shows "handler_ok c (end_write S c adu len r)"
proof -
  obtain e w1 where r: "r = (e, w1)" by (cases r)
  obtain w2 where u: "modbusServerUnlock S w1 = Some w2" using unlock_total [OF assms(3)] by blast
  from r u assms show ?thesis by (simp add: end_write_def handler_ok_keep handler_ok_finish)
qed

lemma write_single_coil_unfold:
  assumes "conn_wf c" and "v = ntohs (get16 (requestAdu c) 10)"
    and "5 \<le> len" and "v = MODBUS_COIL_STATE_ON \<or> v = MODBUS_COIL_STATE_OFF"
  shows "modbusServerProcessWriteSingleCoilReq S c 7 len w =
    end_write S c (echo5 c) 5 (modbusServerWriteCoil S (ntohs (get16 (requestAdu c) 8))
      (v = MODBUS_COIL_STATE_ON) True (modbusServerLock S w))"
  using assms(3,4) conn_wfD [OF assms(1)] unfolding assms(2)
  by (auto simp: modbusServerProcessWriteSingleCoilReq_def end_write_def mem_simps Let_def echo5_def
      split_def cong: if_cong)

lemma write_single_coil_ok:
  assumes "conn_wf c" and "7 \<le> requestAduPos c" and "callbacks_ok S"
  shows "handler_ok c (modbusServerProcessWriteSingleCoilReq S c 7 len w)"
proof (cases "5 \<le> len \<and> (ntohs (get16 (requestAdu c) 10) = MODBUS_COIL_STATE_ON \<or>
    ntohs (get16 (requestAdu c) 10) = MODBUS_COIL_STATE_OFF)")
  case True
  then show ?thesis
    using assms conn_wfD [OF assms(1)]
    by (simp add: write_single_coil_unfold [OF assms(1) refl] end_write_ok)
next
  case False
  then show ?thesis
    using assms conn_wfD [OF assms(1)]
    by (auto simp: modbusServerProcessWriteSingleCoilReq_def mem_simps Let_def intro: handler_ok_keep)
qed

lemma write_single_reg_unfold:
  assumes "conn_wf c" and "5 \<le> len"
  shows "modbusServerProcessWriteSingleRegReq S c 7 len w =
    end_write S c (echo5 c) 5 (modbusServerWriteReg S (ntohs (get16 (requestAdu c) 8))
      (ntohs (get16 (requestAdu c) 10)) True (modbusServerLock S w))"
  using assms(2) conn_wfD [OF assms(1)]
  by (auto simp: modbusServerProcessWriteSingleRegReq_def end_write_def mem_simps Let_def echo5_def
      split_def cong: if_cong)

lemma write_single_reg_ok:
  assumes "conn_wf c" and "7 \<le> requestAduPos c" and "callbacks_ok S"
  shows "handler_ok c (modbusServerProcessWriteSingleRegReq S c 7 len w)"
proof (cases "5 \<le> len")
  case True
  then show ?thesis
    using assms conn_wfD [OF assms(1)] by (simp add: write_single_reg_unfold end_write_ok)
next
  case False
  then show ?thesis
    using assms by (simp add: modbusServerProcessWriteSingleRegReq_def handler_ok_keep)
qed

lemma write_coils_unfold:
  assumes "conn_wf c" and "unat (ntohs (get16 (requestAdu c) 10)) = q"
    and "unat (requestAdu c ! 12) = (q + 7) div 8" and "6 + (q + 7) div 8 \<le> len"
    and "1 \<le> q" and "q \<le> 2000"
  shows "modbusServerProcessWriteMultipleCoilsReq S c 7 len w = do {
    (error, w) \<leftarrow> writeCoils_loop S (ntohs (get16 (requestAdu c) 8)) q (requestAdu c) 13 False 0
       NO_ERROR (modbusServerLock S w);
    (error, w) \<leftarrow> writeCoils_loop S (ntohs (get16 (requestAdu c) 8)) q (requestAdu c) 13 True 0 error w;
    end_write S c (echo5 c) 5 (error, w)
  }"
proof -
  have "\<not> len - 6 < (q + 7) div 8" using assms(4) by simp
  then show ?thesis
    using assms conn_wfD [OF assms(1)]
    by (simp add: modbusServerProcessWriteMultipleCoilsReq_def end_write_def mem_simps Let_def echo5_def
        cong: if_cong)
qed

lemma write_coils_ok:
  assumes "conn_wf c" and "7 \<le> requestAduPos c" and "callbacks_ok S" and "len \<le> 253"
  shows "handler_ok c (modbusServerProcessWriteMultipleCoilsReq S c 7 len w)"
proof -
  define q where "q = unat (ntohs (get16 (requestAdu c) 10))"
  note L = conn_wfD [OF assms(1)]
  show ?thesis
  proof (cases "6 + unat (requestAdu c ! 12) \<le> len \<and> 1 \<le> q \<and> q \<le> 2000 \<and>
      unat (requestAdu c ! 12) = (q + 7) div 8")
    case True
    then have fit: "13 + (q + 7) div 8 \<le> length (requestAdu c)" using L assms(4) by simp
    let ?loop = "\<lambda>commit. writeCoils_loop S (ntohs (get16 (requestAdu c) 8)) q (requestAdu c) 13 commit 0"
    obtain e1 w1 where 1: "?loop False NO_ERROR (modbusServerLock S w) = Some (e1, w1)"
      using writeCoils_loop_safe [OF fit, of S "ntohs (get16 (requestAdu c) 8)" False 0 NO_ERROR "modbusServerLock S w"] by blast
    obtain e2 w2 where 2: "?loop True e1 w1 = Some (e2, w2)"
      using writeCoils_loop_safe [OF fit, of S "ntohs (get16 (requestAdu c) 8)" True 0 e1 w1] by blast
    from True have u: "6 + (q + 7) div 8 \<le> len" "unat (requestAdu c ! 12) = (q + 7) div 8" "1 \<le> q" "q \<le> 2000"
      by auto
    show ?thesis
      unfolding write_coils_unfold [OF assms(1) q_def [symmetric] u(2,1,3,4)]
      using 1 2 assms L by (simp add: end_write_ok)
  next
    case False
    then have "len < 6 \<or> len - 6 < unat (requestAdu c ! 12) \<or> q < 1 \<or> q > 2000 \<or>
        unat (requestAdu c ! 12) \<noteq> (q + 7) div 8" by arith
    then show ?thesis
      using assms(1) L unfolding q_def
      by (auto simp: modbusServerProcessWriteMultipleCoilsReq_def mem_simps Let_def intro: handler_ok_keep)
  qed
qed

lemma write_regs_unfold:
  assumes "conn_wf c" and "unat (ntohs (get16 (requestAdu c) 10)) = q"
    and "unat (requestAdu c ! 12) = q * 2" and "6 + q * 2 \<le> len" and "1 \<le> q" and "q \<le> 123"
  shows "modbusServerProcessWriteMultipleRegsReq S c 7 len w = do {
    (error, w) \<leftarrow> writeRegs_loop S (ntohs (get16 (requestAdu c) 8)) q (requestAdu c) 13 False 0
       NO_ERROR (modbusServerLock S w);
    (error, w) \<leftarrow> writeRegs_loop S (ntohs (get16 (requestAdu c) 8)) q (requestAdu c) 13 True 0 error w;
    end_write S c (echo5 c) 5 (error, w)
  }"
proof -
  have "\<not> len - 6 < q * 2" using assms(4) by simp
  then show ?thesis
    using assms conn_wfD [OF assms(1)]
    by (simp add: modbusServerProcessWriteMultipleRegsReq_def end_write_def mem_simps Let_def echo5_def
        cong: if_cong)
qed

lemma write_regs_ok:
  assumes "conn_wf c" and "7 \<le> requestAduPos c" and "callbacks_ok S"
  shows "handler_ok c (modbusServerProcessWriteMultipleRegsReq S c 7 len w)"
proof -
  define q where "q = unat (ntohs (get16 (requestAdu c) 10))"
  note L = conn_wfD [OF assms(1)]
  show ?thesis
  proof (cases "6 + unat (requestAdu c ! 12) \<le> len \<and> 1 \<le> q \<and> q \<le> 123 \<and>
      unat (requestAdu c ! 12) = q * 2")
    case True
    then have fit: "13 + 2 * q \<le> length (requestAdu c)" using L by simp
    let ?loop = "\<lambda>commit. writeRegs_loop S (ntohs (get16 (requestAdu c) 8)) q (requestAdu c) 13 commit 0"
    obtain e1 w1 where 1: "?loop False NO_ERROR (modbusServerLock S w) = Some (e1, w1)"
      using writeRegs_loop_safe [OF fit, of S "ntohs (get16 (requestAdu c) 8)" False 0 NO_ERROR "modbusServerLock S w"] by blast
    obtain e2 w2 where 2: "?loop True e1 w1 = Some (e2, w2)"
      using writeRegs_loop_safe [OF fit, of S "ntohs (get16 (requestAdu c) 8)" True 0 e1 w1] by blast
    from True have u: "6 + q * 2 \<le> len" "unat (requestAdu c ! 12) = q * 2" "1 \<le> q" "q \<le> 123"
      by auto
    show ?thesis
      unfolding write_regs_unfold [OF assms(1) q_def [symmetric] u(2,1,3,4)]
      using 1 2 assms L by (simp add: end_write_ok)
  next
    case False
    then have "len < 6 \<or> len - 6 < unat (requestAdu c ! 12) \<or> q < 1 \<or> q > 123 \<or>
        unat (requestAdu c ! 12) \<noteq> q * 2" by arith
    then show ?thesis
      using assms(1) L unfolding q_def
      by (auto simp: modbusServerProcessWriteMultipleRegsReq_def mem_simps Let_def intro: handler_ok_keep)
  qed
qed

definition echo7 :: "ModbusClientConnection \<Rightarrow> buffer" where
  "echo7 c = set16 (echo5 c) 12 (get16 (requestAdu c) 12)"

lemma length_echo7 [simp]: "length (echo7 c) = length (responseAdu c)"
  by (simp add: echo7_def)

text \<open>The read and the conditional write of a mask request.\<close>

definition mask_write ::
    "'w ModbusServerSettings \<Rightarrow> u16 \<Rightarrow> u16 \<Rightarrow> u16 \<Rightarrow> u16 \<Rightarrow> 'w \<Rightarrow> error_t \<times> 'w" where
  "mask_write S junk address andMask orMask w =
     (case modbusServerReadReg S address junk w of (error, v, w) \<Rightarrow>
        if error = NO_ERROR then modbusServerWriteReg S address (mask_reg v andMask orMask) True w
        else (error, w))"

lemma mask_write_reg_unfold:
  assumes "conn_wf c" and "7 \<le> len"
  shows "modbusServerProcessMaskWriteRegReq S locals c 7 len w =
    end_write S c (echo7 c) 7 (mask_write S (junk_value locals) (ntohs (get16 (requestAdu c) 8))
      (ntohs (get16 (requestAdu c) 10)) (ntohs (get16 (requestAdu c) 12)) (modbusServerLock S w))"
proof -
  obtain e v w1 where r: "modbusServerReadReg S (ntohs (get16 (requestAdu c) 8)) (junk_value locals)
      (modbusServerLock S w) = (e, v, w1)"
    by (metis prod_cases3)
  show ?thesis
    using assms(2) conn_wfD [OF assms(1)] r
    by (simp add: modbusServerProcessMaskWriteRegReq_def end_write_def mask_write_def mem_simps Let_def
        echo5_def echo7_def split_def cong: if_cong)
qed

lemma mask_write_reg_ok:
  assumes "conn_wf c" and "7 \<le> requestAduPos c" and "callbacks_ok S"
  shows "handler_ok c (modbusServerProcessMaskWriteRegReq S locals c 7 len w)"
proof (cases "7 \<le> len")
  case True
  then show ?thesis
    using assms conn_wfD [OF assms(1)] by (simp add: mask_write_reg_unfold end_write_ok)
next
  case False
  then show ?thesis
    using assms by (simp add: modbusServerProcessMaskWriteRegReq_def handler_ok_keep)
qed

lemma read_write_regs_unfold:
  assumes "conn_wf c" and "unat (ntohs (get16 (requestAdu c) 10)) = rq"
    and "unat (ntohs (get16 (requestAdu c) 14)) = wq" and "unat (requestAdu c ! 16) = wq * 2"
    and "6 + wq * 2 \<le> len" and "10 \<le> len" and "1 \<le> rq" and "rq \<le> 125" and "1 \<le> wq" and "wq \<le> 121"
  shows "modbusServerProcessReadWriteMultipleRegsReq S locals c 7 len w = do {
    (error, adu, w) \<leftarrow> readRegs_loop S (ntohs (get16 (requestAdu c) 8)) rq 9 0 NO_ERROR
       (junk_value locals) (regs_header c rq) (modbusServerLock S w);
    (error, w) \<leftarrow> writeRegs_loop S (ntohs (get16 (requestAdu c) 12)) wq (requestAdu c) 17 False 0 error w;
    (error, w) \<leftarrow> writeRegs_loop S (ntohs (get16 (requestAdu c) 12)) wq (requestAdu c) 17 True 0 error w;
    w \<leftarrow> modbusServerUnlock S w;
    if error \<noteq> NO_ERROR then Some (error, c\<lparr>responseAdu := adu\<rparr>, w)
    else do {
      byteCount \<leftarrow> rd8 adu 8;
      finish_response c adu (2 + unat byteCount) w
    }
  }"
proof -
  have "\<not> len - 6 < wq * 2" using assms(5) by simp
  then show ?thesis
    using assms conn_wfD [OF assms(1)]
    by (simp add: modbusServerProcessReadWriteMultipleRegsReq_def mem_simps Let_def regs_header_def
        cong: if_cong del: of_nat_mult)
qed

lemma read_write_regs_ok:
  assumes "conn_wf c" and "7 \<le> requestAduPos c" and "callbacks_ok S"
  shows "handler_ok c (modbusServerProcessReadWriteMultipleRegsReq S locals c 7 len w)"
proof -
  define rq where "rq = unat (ntohs (get16 (requestAdu c) 10))"
  define wq where "wq = unat (ntohs (get16 (requestAdu c) 14))"
  note L = conn_wfD [OF assms(1)]
  show ?thesis
  proof (cases "10 \<le> len \<and> 6 + unat (requestAdu c ! 16) \<le> len \<and> 1 \<le> rq \<and> rq \<le> 125 \<and> 1 \<le> wq \<and>
      wq \<le> 121 \<and> unat (requestAdu c ! 16) = wq * 2")
    case True
    then have q: "unat (requestAdu c ! 16) = wq * 2" "6 + wq * 2 \<le> len" "10 \<le> len" "1 \<le> rq" "rq \<le> 125"
      "1 \<le> wq" "wq \<le> 121" by auto
    have fit: "9 + 2 * rq \<le> length (regs_header c rq)" "17 + 2 * wq \<le> length (requestAdu c)"
      using L q by simp_all
    from readRegs_loop_safe [OF fit(1), of S "ntohs (get16 (requestAdu c) 8)" 0 NO_ERROR
        "junk_value locals" "modbusServerLock S w"]
    obtain e adu w1 where loop: "readRegs_loop S (ntohs (get16 (requestAdu c) 8)) rq 9 0 NO_ERROR
        (junk_value locals) (regs_header c rq) (modbusServerLock S w) = Some (e, adu, w1)"
      and adu: "length adu = 260" "adu ! 8 = word_of_nat (rq * 2)"
      using L(2) regs_header_byteCount [OF assms(1)] by auto
    let ?loop = "\<lambda>commit. writeRegs_loop S (ntohs (get16 (requestAdu c) 12)) wq (requestAdu c) 17 commit 0"
    obtain e1 w2 where 1: "?loop False e w1 = Some (e1, w2)"
      using writeRegs_loop_safe [OF fit(2), of S "ntohs (get16 (requestAdu c) 12)" False 0 e w1] by blast
    obtain e2 w3 where 2: "?loop True e1 w2 = Some (e2, w3)"
      using writeRegs_loop_safe [OF fit(2), of S "ntohs (get16 (requestAdu c) 12)" True 0 e1 w2] by blast
    obtain w4 where u: "modbusServerUnlock S w3 = Some w4" using unlock_total [OF assms(3)] by blast
    have "2 \<le> 2 + unat (adu ! 8)" "2 + unat (adu ! 8) \<le> 253"
      using adu(2) q reg_bytes_word [of rq] by simp_all
    then show ?thesis
      unfolding read_write_regs_unfold [OF assms(1) rq_def [symmetric] wq_def [symmetric] q]
      using loop 1 2 u adu assms(1,2) by (simp add: mem_simps handler_ok_failed handler_ok_finish)
  next
    case False
    then have "len < 10 \<or> len - 6 < unat (requestAdu c ! 16) \<or> rq < 1 \<or> rq > 125 \<or> wq < 1 \<or> wq > 121 \<or>
        unat (requestAdu c ! 16) \<noteq> wq * 2" by arith
    then show ?thesis
      using assms(1) L unfolding rq_def wq_def
      by (auto simp: modbusServerProcessReadWriteMultipleRegsReq_def mem_simps Let_def
          intro: handler_ok_keep)
  qed
qed

subsection \<open>Exception responses, dispatch and the whole request\<close>

lemma exception_resp_eq:
  assumes "conn_wf c" and "7 \<le> requestAduPos c"
  shows "modbusServerFormatExceptionResp c fc ec w =
    finish_response c ((responseAdu c)[7 := MODBUS_EXCEPTION_MASK OR fc, 8 := ec]) 2 w"
  using assms conn_wfD [OF assms(1)] by (simp add: modbusServerFormatExceptionResp_def mem_simps)

lemma dispatch_ok:
  assumes "conn_wf c" and "7 \<le> requestAduPos c" and "callbacks_ok S" and "len \<le> 253"
  shows "handler_ok c (modbusServerDispatch S locals fc c 7 len w)"
  using assms
  by (simp add: modbusServerDispatch_def read_coils_ok read_regs_ok read_discrete_inputs_eq
      read_input_regs_eq write_single_coil_ok write_single_reg_ok write_coils_ok write_regs_ok
      mask_write_reg_ok read_write_regs_ok handler_ok_keep)

lemma replied_responseAdu [simp]: "replied (c\<lparr>responseAdu := b\<rparr>) = replied c"
  by (simp add: replied_def fun_eq_iff)

lemma handler_ok_responseAdu [simp]: "handler_ok (c\<lparr>responseAdu := b\<rparr>) = handler_ok c"
  by (simp add: handler_ok_def fun_eq_iff)

lemma process_request_ok:
  assumes "conn_wf c" and "7 \<le> requestAduPos c" and "callbacks_ok S"
  shows "handler_ok c (modbusServerProcessRequest S locals c w)"
proof (cases "requestAduLen c \<le> 7")
  case True
  then show ?thesis
    using assms by (simp add: modbusServerProcessRequest_def modbusServerGetRequestPdu_def handler_ok_keep)
next
  case False
  note L = conn_wfD [OF assms(1)]
  let ?n = "requestAduLen c - 7"
  have "handler_ok c (modbusServerDispatch S locals (requestAdu c ! 7) c 7 ?n w)"
    using assms L(3) by (intro dispatch_ok) simp_all
  then obtain e c1 w1 where d: "modbusServerDispatch S locals (requestAdu c ! 7) c 7 ?n w = Some (e, c1, w1)"
    and ok: "if e = NO_ERROR then \<exists>len. replied c c1 len
      else \<exists>adu. length adu = 260 \<and> c1 = c\<lparr>responseAdu := adu\<rparr>"
    unfolding handler_ok_def by blast
  have run: "modbusServerProcessRequest S locals c w =
      (if is_exception e then modbusServerFormatExceptionResp c1 (requestAdu c ! 7)
         (modbusServerTranslateExceptionCode e) w1 else Some (e, c1, w1))"
    using False L(1) d by (simp add: modbusServerProcessRequest_def modbusServerGetRequestPdu_def mem_simps)
  show ?thesis
  proof (cases "is_exception e")
    case True
    then have "e \<noteq> NO_ERROR" by (auto simp: is_exception_def)
    with ok obtain adu where c1: "c1 = c\<lparr>responseAdu := adu\<rparr>" and len: "length adu = 260" by auto
    have wf: "conn_wf c1" using c1 len assms(1) by (simp add: conn_wf_updateI)
    have pos: "7 \<le> requestAduPos c1" using c1 assms(2) by simp
    have "handler_ok c1 (modbusServerProcessRequest S locals c w)"
      unfolding run if_P [OF True] exception_resp_eq [OF wf pos]
      by (rule handler_ok_finish [OF wf pos]) (use c1 len in simp_all)
    then show ?thesis unfolding c1 by simp
  next
    case False
    then show ?thesis unfolding run handler_ok_def using ok by simp
  qed
qed

end
