(* ===== verification/ModbusServer.thy ===== *)
theory ModbusServer
  imports ModbusServerSafe
begin

text \<open>
  \<open>modbus_server.c\<close> and the connection management of \<open>modbus_server_misc.c\<close>: the server context,
  start-up, accepting and closing connections, the idle timeout, the per-connection event handler
  and one round of the server task.  Pointers the functions test against \<open>NULL\<close> on entry are taken
  to be valid.
\<close>

abbreviation (input) MODBUS_SERVER_MAX_CONNECTIONS :: nat where "MODBUS_SERVER_MAX_CONNECTIONS \<equiv> 2"
abbreviation (input) MODBUS_SERVER_TIMEOUT :: systime_t where "MODBUS_SERVER_TIMEOUT \<equiv> 60000"
abbreviation (input) MODBUS_SERVER_TICK_INTERVAL :: systime_t where "MODBUS_SERVER_TICK_INTERVAL \<equiv> 1000"

record 'w ModbusServerContext =
  settings :: "'w ModbusServerSettings"
  listener :: "socket_handle option"
  connection :: "ModbusClientConnection list"

subsection \<open>Start-up\<close>

definition modbusServerGetDefaultSettings :: "'w ModbusServerSettings" where
  "modbusServerGetDefaultSettings =
     \<lparr>interface = None, port = MODBUS_TCP_PORT, unitId = MODBUS_DEFAULT_UNIT_ID,
      lockCallback = None, unlockCallback = None, readCoilCallback = None,
      writeCoilCallback = None, readRegCallback = None, writeRegValueCallback = None\<rparr>"

text \<open>
  The \<open>do ... while(0)\<close> block of the code: each step runs only if the one before succeeded, and an
  error releases the event and the socket.
\<close>

definition modbusServerInit ::
    "'w net_ops \<Rightarrow> 'w ModbusServerSettings \<Rightarrow> 'w \<Rightarrow> error_t \<times> 'w ModbusServerContext \<times> 'w" where
  "modbusServerInit ops S w =
     (let ctx = \<lparr>settings = S, listener = None,
                 connection = replicate MODBUS_SERVER_MAX_CONNECTIONS cleared_connection\<rparr>
      in case osCreateEvent ops w of (created, w) \<Rightarrow>
         if \<not> created then (ERROR_OUT_OF_RESOURCES, ctx, w)
         else case socketOpen ops w of (k, w) \<Rightarrow>
           (let ctx = ctx\<lparr>listener := k\<rparr>;
                (error, w) =
                  (if k = None then (ERROR_OPEN_FAILED, w)
                   else case socketBindToInterface ops k (interface S) w of (error, w) \<Rightarrow>
                     if error \<noteq> NO_ERROR then (error, w)
                     else case socketBind ops k (port S) w of (error, w) \<Rightarrow>
                       if error \<noteq> NO_ERROR then (error, w)
                       else socketListen ops k 0 w)
            in if error \<noteq> NO_ERROR then (error, ctx, socketClose ops k (osDeleteEvent ops w))
               else (error, ctx, w)))"

text \<open>The task runs \<open>modbusServerTask\<close>.\<close>

definition modbusServerStart :: "'w net_ops \<Rightarrow> 'w \<Rightarrow> error_t \<times> 'w" where
  "modbusServerStart ops w =
     (case osCreateTask ops w of (created, w) \<Rightarrow>
        if \<not> created then (ERROR_OUT_OF_RESOURCES, w) else (NO_ERROR, w))"

subsection \<open>Closing and accepting connections\<close>

definition modbusServerCloseConnection ::
    "'w net_ops \<Rightarrow> ModbusClientConnection \<Rightarrow> 'w \<Rightarrow> ModbusClientConnection \<times> 'w" where
  "modbusServerCloseConnection ops c w =
     (let (c, w) = (if socket c \<noteq> None then (c\<lparr>socket := None\<rparr>, socketClose ops (socket c) w) else (c, w))
      in (c\<lparr>state := MODBUS_CONNECTION_STATE_CLOSED\<rparr>, w))"

text \<open>
  The loop of \<open>modbusServerAcceptConnection\<close>: it stops at the first closed entry and otherwise
  remembers the entry whose age, a difference of 32-bit ticks, is largest.  The result is the index
  at which the loop stopped and the oldest entry seen.
\<close>

fun accept_scan ::
    "systime_t \<Rightarrow> ModbusClientConnection list \<Rightarrow> nat \<Rightarrow> (nat \<times> systime_t) option \<Rightarrow>
     nat \<times> (nat \<times> systime_t) option" where
  "accept_scan time [] i oldest = (i, oldest)"
| "accept_scan time (c # cs) i oldest =
     (if state c = MODBUS_CONNECTION_STATE_CLOSED then (i, oldest)
      else accept_scan time cs (Suc i)
        (case oldest of
           None \<Rightarrow> Some (i, timestamp c)
         | Some (j, t) \<Rightarrow> if time - timestamp c > time - t then Some (i, timestamp c) else Some (j, t)))"

definition modbusServerAcceptConnection ::
    "'w net_ops \<Rightarrow> 'w ModbusServerContext \<Rightarrow> 'w \<Rightarrow> ('w ModbusServerContext \<times> 'w) option" where
  "modbusServerAcceptConnection ops ctx w =
     (case osGetSystemTime ops w of (time, w) \<Rightarrow>
      case socketAccept ops (listener ctx) w of (k, w) \<Rightarrow>
        if k = None then Some (ctx, w)
        else
          (case socketSetTimeout ops k 0 w of (_, w) \<Rightarrow>
           case accept_scan time (connection ctx) 0 None of (i, oldest) \<Rightarrow> do {
             (i, w) \<leftarrow>
               (if i \<ge> MODBUS_SERVER_MAX_CONNECTIONS then
                  (case oldest of
                     None \<Rightarrow> None
                   | Some (j, _) \<Rightarrow>
                       Some (j, snd (modbusServerCloseConnection ops (connection ctx ! j) w)))
                else Some (i, w));
             Some (ctx\<lparr>connection := (connection ctx)
               [i := cleared_connection\<lparr>socket := k, timestamp := time,
                       state := MODBUS_CONNECTION_STATE_RECEIVING\<rparr>]\<rparr>, w)
           }))"

subsection \<open>Idle timeout\<close>

fun tick_loop ::
    "'w net_ops \<Rightarrow> systime_t \<Rightarrow> ModbusClientConnection list \<Rightarrow> 'w \<Rightarrow> ModbusClientConnection list \<times> 'w" where
  "tick_loop ops time [] w = ([], w)"
| "tick_loop ops time (c # cs) w =
     (let (c, w) =
        (if state c \<noteq> MODBUS_CONNECTION_STATE_CLOSED \<and>
            timeCompare time (timestamp c + MODBUS_SERVER_TIMEOUT) \<ge> 0
         then modbusServerCloseConnection ops c w else (c, w));
        (cs, w) = tick_loop ops time cs w
      in (c # cs, w))"

definition modbusServerTick ::
    "'w net_ops \<Rightarrow> 'w ModbusServerContext \<Rightarrow> 'w \<Rightarrow> 'w ModbusServerContext \<times> 'w" where
  "modbusServerTick ops ctx w =
     (case osGetSystemTime ops w of (time, w) \<Rightarrow>
      case tick_loop ops time (connection ctx) w of (cs, w) \<Rightarrow> (ctx\<lparr>connection := cs\<rparr>, w))"

subsection \<open>The event handler of one connection\<close>

definition receive_request ::
    "'w ModbusServerSettings \<Rightarrow> 'w net_ops \<Rightarrow> stack_locals \<Rightarrow> ModbusClientConnection \<Rightarrow> 'w \<Rightarrow>
     'w handler_result" where
  "receive_request S ops locals c w =
     (if requestAduPos c < sizeof_ModbusHeader then
        (case socketReceive ops (socket c) (sizeof_ModbusHeader - requestAduPos c) w of
           (error, data, w) \<Rightarrow> do {
             adu \<leftarrow> wrs (requestAdu c) (requestAduPos c) data;
             let c = c\<lparr>requestAdu := adu\<rparr>;
             if error \<noteq> NO_ERROR then Some (error, c, w)
             else do {
               let c = c\<lparr>requestAduPos := requestAduPos c + length data\<rparr>;
               if requestAduPos c \<ge> sizeof_ModbusHeader then do {
                 (error, c) \<leftarrow> modbusServerParseMbapHeader c;
                 Some (error, c, w)
               }
               else Some (NO_ERROR, c, w)
             }
           })
      else if requestAduPos c < requestAduLen c then
        (case socketReceive ops (socket c) (requestAduLen c - requestAduPos c) w of
           (error, data, w) \<Rightarrow> do {
             adu \<leftarrow> wrs (requestAdu c) (requestAduPos c) data;
             let c = c\<lparr>requestAdu := adu\<rparr>;
             if error \<noteq> NO_ERROR then Some (error, c, w)
             else do {
               let c = c\<lparr>requestAduPos := requestAduPos c + length data\<rparr>;
               if requestAduPos c \<ge> requestAduLen c \<and>
                  (unitId S = 0 \<or> unitId S = 255 \<or> unitId S = requestUnitId c)
               then modbusServerProcessRequest S locals c w
               else Some (NO_ERROR, c, w)
             }
           })
      else Some (ERROR_WRONG_STATE, c, w))"

definition send_response ::
    "'w net_ops \<Rightarrow> ModbusClientConnection \<Rightarrow> 'w \<Rightarrow> 'w handler_result" where
  "send_response ops c w =
     (if responseAduPos c < responseAduLen c then do {
        data \<leftarrow> rds (responseAdu c) (responseAduPos c) (responseAduLen c - responseAduPos c);
        (case socketSend ops (socket c) data w of
           (error, n, w) \<Rightarrow>
             if error \<noteq> NO_ERROR then Some (error, c, w)
             else
               (let c = c\<lparr>responseAduPos := responseAduPos c + n\<rparr>
                in if responseAduPos c \<ge> responseAduLen c
                   then Some (NO_ERROR, c\<lparr>requestAduLen := 0, requestAduPos := 0,
                          state := MODBUS_CONNECTION_STATE_RECEIVING\<rparr>, w)
                   else Some (NO_ERROR, c, w)))
      }
      else Some (ERROR_WRONG_STATE, c, w))"

definition modbusServerProcessConnectionEvents ::
    "'w ModbusServerSettings \<Rightarrow> 'w net_ops \<Rightarrow> stack_locals \<Rightarrow> ModbusClientConnection \<Rightarrow> 'w \<Rightarrow>
     (ModbusClientConnection \<times> 'w) option" where
  "modbusServerProcessConnectionEvents S ops locals c w =
     (case osGetSystemTime ops w of (time, w) \<Rightarrow> do {
        let c = c\<lparr>timestamp := time\<rparr>;
        (error, c, w) \<leftarrow>
          (case state c of
             MODBUS_CONNECTION_STATE_RECEIVING \<Rightarrow> receive_request S ops locals c w
           | MODBUS_CONNECTION_STATE_SENDING \<Rightarrow> send_response ops c w
           | _ \<Rightarrow> Some (ERROR_WRONG_STATE, c, w));
        if error \<noteq> NO_ERROR \<and> error \<noteq> ERROR_TIMEOUT
        then Some (modbusServerCloseConnection ops c w)
        else Some (c, w)
      })"

subsection \<open>One round of the server task\<close>

definition connection_desc :: "ModbusClientConnection \<Rightarrow> SocketEventDesc" where
  "connection_desc c =
     (case state c of
        MODBUS_CONNECTION_STATE_RECEIVING \<Rightarrow> \<lparr>desc_socket = socket c, eventMask = SOCKET_EVENT_RX_READY\<rparr>
      | MODBUS_CONNECTION_STATE_SENDING \<Rightarrow> \<lparr>desc_socket = socket c, eventMask = SOCKET_EVENT_TX_READY\<rparr>
      | _ \<Rightarrow> \<lparr>desc_socket = None, eventMask = 0\<rparr>)"

fun events_loop ::
    "'w ModbusServerSettings \<Rightarrow> 'w net_ops \<Rightarrow> stack_locals \<Rightarrow> nat list \<Rightarrow> ModbusClientConnection list \<Rightarrow>
     'w \<Rightarrow> (ModbusClientConnection list \<times> 'w) option" where
  "events_loop S ops locals (f # fs) (c # cs) w = do {
     (c, w) \<leftarrow>
       (if (state c = MODBUS_CONNECTION_STATE_RECEIVING \<or> state c = MODBUS_CONNECTION_STATE_SENDING) \<and>
           f \<noteq> 0
        then modbusServerProcessConnectionEvents S ops locals c w else Some (c, w));
     (cs, w) \<leftarrow> events_loop S ops locals fs cs w;
     Some (c # cs, w)
   }"
| "events_loop S ops locals fs [] w = Some ([], w)"
| "events_loop S ops locals [] (c # cs) w = None"

definition modbusServerTask ::
    "'w net_ops \<Rightarrow> stack_locals \<Rightarrow> 'w ModbusServerContext \<Rightarrow> 'w \<Rightarrow> ('w ModbusServerContext \<times> 'w) option" where
  "modbusServerTask ops locals ctx w = do {
     let descs = map connection_desc (connection ctx) @
                   [\<lparr>desc_socket = listener ctx, eventMask = SOCKET_EVENT_RX_READY\<rparr>];
     (case socketPoll ops descs MODBUS_SERVER_TICK_INTERVAL w of
        (error, flags, w) \<Rightarrow> do {
          (ctx, w) \<leftarrow>
            (if error = NO_ERROR then do {
               (cs, w) \<leftarrow> events_loop (settings ctx) ops locals flags (connection ctx) w;
               let ctx = ctx\<lparr>connection := cs\<rparr>;
               if length flags \<le> MODBUS_SERVER_MAX_CONNECTIONS then None
               else if flags ! MODBUS_SERVER_MAX_CONNECTIONS \<noteq> 0
               then modbusServerAcceptConnection ops ctx w
               else Some (ctx, w)
             }
             else Some (ctx, w));
          Some (modbusServerTick ops ctx w)
        })
   }"

subsection \<open>The invariant of the connections\<close>

text \<open>
  A connection is closed exactly when it has no socket.  While it receives, at most the bytes of the
  announced ADU have been stored; while it sends, part of the response is still to be sent.
\<close>

definition conn_inv :: "ModbusClientConnection \<Rightarrow> bool" where
  "conn_inv c \<longleftrightarrow> conn_wf c \<and>
     (case state c of
        MODBUS_CONNECTION_STATE_CLOSED \<Rightarrow> socket c = None
      | MODBUS_CONNECTION_STATE_RECEIVING \<Rightarrow>
          socket c \<noteq> None \<and> (requestAduPos c < 7 \<or> requestAduPos c \<le> requestAduLen c)
      | MODBUS_CONNECTION_STATE_SENDING \<Rightarrow> socket c \<noteq> None \<and> responseAduPos c < responseAduLen c)"

lemma close_connection_inv:
  "conn_wf c \<Longrightarrow> conn_inv (fst (modbusServerCloseConnection ops c w))"
  by (auto simp: modbusServerCloseConnection_def conn_inv_def Let_def split_def)

lemma close_connection_closed:
  "state (fst (modbusServerCloseConnection ops c w)) = MODBUS_CONNECTION_STATE_CLOSED"
  "socket (fst (modbusServerCloseConnection ops c w)) = None"
  by (auto simp: modbusServerCloseConnection_def Let_def split_def)

lemma parse_mbap_error_codes:
  "modbusServerParseMbapHeader c = Some (e, c') \<Longrightarrow>
   e \<in> {NO_ERROR, ERROR_INVALID_LENGTH, ERROR_WRONG_IDENTIFIER}"
  by (auto simp: modbusServerParseMbapHeader_def Let_def bind_eq_Some_conv split: if_splits)

text \<open>What each branch of the event handler leaves: a state from which closing or going on is safe.\<close>

definition branch_ok :: "'w handler_result \<Rightarrow> bool" where
  "branch_ok r \<longleftrightarrow> (\<exists>e c w. r = Some (e, c, w) \<and> conn_wf c \<and>
     (e = NO_ERROR \<or> e = ERROR_TIMEOUT \<longrightarrow> conn_inv c))"

lemma conn_inv_wf: "conn_inv c \<Longrightarrow> conn_wf c"
  by (simp add: conn_inv_def)

lemma branch_ok_Some:
  "branch_ok (Some (e, c, w)) \<longleftrightarrow> conn_wf c \<and> (e = NO_ERROR \<or> e = ERROR_TIMEOUT \<longrightarrow> conn_inv c)"
  by (simp add: branch_ok_def)

lemma replied_inv:
  "conn_wf c \<Longrightarrow> socket c \<noteq> None \<Longrightarrow> replied c c' len \<Longrightarrow> conn_inv c'"
  using replied_wf [of c c' len] by (auto simp: replied_def conn_inv_def)

lemma handler_ok_branch_ok:
  assumes "handler_ok c r" and "conn_wf c" and "state c = MODBUS_CONNECTION_STATE_RECEIVING"
    and "socket c \<noteq> None" and "requestAduPos c \<le> requestAduLen c"
  shows "branch_ok r"
proof -
  from assms(1) obtain e c' w' where r: "r = Some (e, c', w')"
    and ok: "if e = NO_ERROR then \<exists>len. replied c c' len
      else \<exists>adu. length adu = 260 \<and> c' = c\<lparr>responseAdu := adu\<rparr>"
    unfolding handler_ok_def by blast
  show ?thesis
  proof (cases "e = NO_ERROR")
    case True
    with ok r assms show ?thesis
      unfolding branch_ok_def by (auto intro: replied_inv dest: replied_wf)
  next
    case False
    with ok obtain adu where "length adu = 260" "c' = c\<lparr>responseAdu := adu\<rparr>" by auto
    with r assms show ?thesis
      unfolding branch_ok_def by (auto simp: conn_inv_def conn_wf_updateI)
  qed
qed

lemma receive_request_ok:
  assumes "conn_inv c" and "state c = MODBUS_CONNECTION_STATE_RECEIVING" and "callbacks_ok S" and "net_ok ops"
  shows "branch_ok (receive_request S ops locals c w)"
proof -
  have wf: "conn_wf c" and sock: "socket c \<noteq> None"
    and pos: "requestAduPos c < 7 \<or> requestAduPos c \<le> requestAduLen c"
    using assms(1,2) by (auto simp: conn_inv_def)
  note L = conn_wfD [OF wf]
  consider (header) "requestAduPos c < 7" | (body) "7 \<le> requestAduPos c" "requestAduPos c < requestAduLen c"
    | (full) "7 \<le> requestAduPos c" "requestAduLen c \<le> requestAduPos c" by linarith
  then show ?thesis
  proof cases
    case header
    obtain e data w1 where r: "socketReceive ops (socket c) (7 - requestAduPos c) w = (e, data, w1)"
      by (metis prod_cases3)
    with assms(4) have n: "requestAduPos c + length data \<le> 7" using net_okD(1) header by fastforce
    let ?adu = "blit (requestAdu c) (requestAduPos c) data"
    let ?c = "c\<lparr>requestAdu := ?adu, requestAduPos := requestAduPos c + length data\<rparr>"
    have len: "length ?adu = 260" using n L by simp
    have wf': "conn_wf ?c" using wf len by (auto intro: conn_wf_updateI)
    show ?thesis
    proof (cases "e = NO_ERROR \<and> 7 \<le> requestAduPos c + length data")
      case False
      with header r n L len wf wf' sock assms(2) show ?thesis
        by (auto simp: receive_request_def branch_ok_def mem_simps conn_inv_def conn_wf_updateI Let_def)
    next
      case True
      then have 7: "requestAduPos ?c = 7" using n by simp
      show ?thesis
      proof (cases "mbap_acceptable ?adu")
        case True
        with parse_mbap_ok [OF wf'] 7
        have "modbusServerParseMbapHeader ?c = Some (NO_ERROR,
            ?c\<lparr>requestUnitId := ?adu ! 6, requestAduLen := 6 + mbap_length ?adu\<rparr>)" by simp
        moreover have "conn_inv (?c\<lparr>requestUnitId := ?adu ! 6, requestAduLen := 6 + mbap_length ?adu\<rparr>)"
          using True 7 wf' sock assms(2) by (simp add: conn_inv_def conn_wf_def mbap_acceptable_def)
        then have "branch_ok (Some (NO_ERROR,
            ?c\<lparr>requestUnitId := ?adu ! 6, requestAduLen := 6 + mbap_length ?adu\<rparr>, w1))"
          by (simp only: branch_ok_Some conn_inv_wf simp_thms)
        ultimately show ?thesis
          using \<open>e = NO_ERROR \<and> _\<close> header r n L
          by (simp add: receive_request_def mem_simps)
      next
        case False
        with parse_mbap_reject [OF wf'] obtain e' where e': "e' \<noteq> NO_ERROR"
          "modbusServerParseMbapHeader ?c = Some (e', ?c)" by auto
        then have "e' \<noteq> ERROR_TIMEOUT" using parse_mbap_error_codes by fastforce
        with e' show ?thesis
          using \<open>e = NO_ERROR \<and> _\<close> header r n L wf'
          by (auto simp: receive_request_def branch_ok_def mem_simps)
      qed
    qed
  next
    case body
    obtain e data w1 where r:
      "socketReceive ops (socket c) (requestAduLen c - requestAduPos c) w = (e, data, w1)"
      by (metis prod_cases3)
    with assms(4) have n: "requestAduPos c + length data \<le> requestAduLen c"
      using net_okD(1) body by fastforce
    let ?adu = "blit (requestAdu c) (requestAduPos c) data"
    let ?c = "c\<lparr>requestAdu := ?adu, requestAduPos := requestAduPos c + length data\<rparr>"
    have fit: "requestAduPos c + length data \<le> length (requestAdu c)" using n L by simp
    have len: "length ?adu = 260" using fit L by simp
    have wf': "conn_wf ?c" using wf len by (auto intro: conn_wf_updateI)
    have "branch_ok (modbusServerProcessRequest S locals ?c w1)"
      using handler_ok_branch_ok [OF process_request_ok [OF wf' _ assms(3)] wf'] assms(2) sock n body
      by simp
    with body r n L fit wf wf' len sock assms(2) show ?thesis
      by (auto simp: receive_request_def branch_ok_def mem_simps conn_inv_def conn_wf_updateI Let_def)
  next
    case full
    with wf show ?thesis by (simp add: receive_request_def branch_ok_def)
  qed
qed

lemma send_response_ok:
  assumes "conn_inv c" and "state c = MODBUS_CONNECTION_STATE_SENDING" and "net_ok ops"
  shows "branch_ok (send_response ops c w)"
proof -
  have wf: "conn_wf c" and sock: "socket c \<noteq> None" and pos: "responseAduPos c < responseAduLen c"
    using assms(1,2) by (auto simp: conn_inv_def)
  note L = conn_wfD [OF wf]
  let ?data = "take (responseAduLen c - responseAduPos c) (drop (responseAduPos c) (responseAdu c))"
  obtain e n w1 where r: "socketSend ops (socket c) ?data w = (e, n, w1)" by (metis prod_cases3)
  have fit: "responseAduPos c + (responseAduLen c - responseAduPos c) \<le> length (responseAdu c)"
    using L pos by simp
  from r have run: "send_response ops c w =
      (if e \<noteq> NO_ERROR then Some (e, c, w1)
       else if responseAduLen c \<le> responseAduPos c + n
       then Some (NO_ERROR, c\<lparr>responseAduPos := responseAduPos c + n, requestAduLen := 0,
          requestAduPos := 0, state := MODBUS_CONNECTION_STATE_RECEIVING\<rparr>, w1)
       else Some (NO_ERROR, c\<lparr>responseAduPos := responseAduPos c + n\<rparr>, w1))"
    using pos fit by (simp add: send_response_def mem_simps Let_def)
  show ?thesis
    unfolding run using wf sock assms(1,2) L
    by (simp add: branch_ok_Some conn_inv_def conn_wf_def)
qed

lemma process_events_ok:
  assumes "conn_inv c" and "state c \<noteq> MODBUS_CONNECTION_STATE_CLOSED" and "callbacks_ok S" and "net_ok ops"
  shows "\<exists>c' w'. modbusServerProcessConnectionEvents S ops locals c w = Some (c', w') \<and> conn_inv c'"
proof -
  obtain time w1 where t: "osGetSystemTime ops w = (time, w1)" by (metis surj_pair)
  let ?c = "c\<lparr>timestamp := time\<rparr>"
  let ?step = "case state c of
      MODBUS_CONNECTION_STATE_RECEIVING \<Rightarrow> receive_request S ops locals ?c w1
    | MODBUS_CONNECTION_STATE_SENDING \<Rightarrow> send_response ops ?c w1
    | _ \<Rightarrow> Some (ERROR_WRONG_STATE, ?c, w1)"
  have inv: "conn_inv ?c" using assms(1) by (cases "state c") (simp_all add: conn_inv_def)
  have "branch_ok ?step"
    using assms(2-) receive_request_ok [OF inv] send_response_ok [OF inv]
    by (cases "state c") simp_all
  then obtain e c1 w2 where st: "?step = Some (e, c1, w2)" and wf: "conn_wf c1"
    and ok: "e = NO_ERROR \<or> e = ERROR_TIMEOUT \<longrightarrow> conn_inv c1"
    unfolding branch_ok_def by blast
  show ?thesis
    unfolding modbusServerProcessConnectionEvents_def t
    using st ok close_connection_inv [OF wf, of ops w2]
    by (cases "modbusServerCloseConnection ops c1 w2") (auto simp: Let_def)
qed

subsection \<open>The invariant of the server\<close>

definition server_inv :: "'w ModbusServerContext \<Rightarrow> bool" where
  "server_inv ctx \<longleftrightarrow> length (connection ctx) = MODBUS_SERVER_MAX_CONNECTIONS \<and>
     (\<forall>c\<in>set (connection ctx). conn_inv c)"

lemma cleared_connection_inv: "conn_inv cleared_connection"
  using cleared_connection_wf by (simp add: conn_inv_def cleared_connection_def)

lemma events_loop_ok:
  assumes "callbacks_ok S" and "net_ok ops" and "length cs \<le> length fs" and "\<forall>c\<in>set cs. conn_inv c"
  shows "\<exists>cs' w'. events_loop S ops locals fs cs w = Some (cs', w') \<and> length cs' = length cs \<and>
    (\<forall>c\<in>set cs'. conn_inv c)"
  using assms(3,4)
proof (induction fs cs arbitrary: w rule: list_induct2')
  case (4 f fs c cs)
  have "\<exists>c' w'. (if (state c = MODBUS_CONNECTION_STATE_RECEIVING \<or>
      state c = MODBUS_CONNECTION_STATE_SENDING) \<and> f \<noteq> 0
      then modbusServerProcessConnectionEvents S ops locals c w else Some (c, w)) = Some (c', w') \<and> conn_inv c'"
    using process_events_ok [OF _ _ assms(1,2), of c locals w] "4.prems" by auto
  then obtain c' w' where step: "(if (state c = MODBUS_CONNECTION_STATE_RECEIVING \<or>
      state c = MODBUS_CONNECTION_STATE_SENDING) \<and> f \<noteq> 0
      then modbusServerProcessConnectionEvents S ops locals c w else Some (c, w)) = Some (c', w')"
    "conn_inv c'" by blast
  from "4.IH" [of w'] "4.prems" obtain cs' w'' where
    "events_loop S ops locals fs cs w' = Some (cs', w'')" "length cs' = length cs" "\<forall>c\<in>set cs'. conn_inv c"
    by auto
  with step show ?case by simp
qed simp_all

text \<open>
  The scan of \<open>modbusServerAcceptConnection\<close>: it stops at the first closed entry; when there is none,
  the entry it remembers is the first of those with the greatest age.
\<close>

definition older :: "systime_t \<Rightarrow> ModbusClientConnection \<Rightarrow> ModbusClientConnection \<Rightarrow> bool" where
  "older time c d \<longleftrightarrow> time - timestamp d < time - timestamp c"

lemma accept_scan_closed:
  assumes "j < length cs" and "state (cs ! j) = MODBUS_CONNECTION_STATE_CLOSED"
    and "\<forall>k<j. state (cs ! k) \<noteq> MODBUS_CONNECTION_STATE_CLOSED"
  shows "fst (accept_scan time cs i old) = i + j"
  using assms
proof (induction cs arbitrary: i old j)
  case (Cons c cs)
  show ?case
  proof (cases j)
    case 0
    with Cons.prems show ?thesis by simp
  next
    case (Suc k)
    have "\<forall>l<k. state (cs ! l) \<noteq> MODBUS_CONNECTION_STATE_CLOSED"
      using Cons.prems(3) Suc by (metis Suc_less_eq nth_Cons_Suc)
    moreover have "state c \<noteq> MODBUS_CONNECTION_STATE_CLOSED" using Cons.prems(3) Suc by force
    ultimately show ?thesis using Cons.IH [of k "Suc i"] Cons.prems Suc by simp
  qed
qed simp

lemma accept_scan_two:
  assumes "state c \<noteq> MODBUS_CONNECTION_STATE_CLOSED" and "state d \<noteq> MODBUS_CONNECTION_STATE_CLOSED"
  shows "accept_scan time [c, d] 0 None =
    (2, Some (if older time d c then (1, timestamp d) else (0, timestamp c)))"
  using assms by (simp add: older_def)

text \<open>The slot a new connection takes, and the table afterwards.\<close>

definition accept_slot :: "systime_t \<Rightarrow> ModbusClientConnection list \<Rightarrow> nat" where
  "accept_slot time cs =
     (if state (cs ! 0) = MODBUS_CONNECTION_STATE_CLOSED then 0
      else if state (cs ! 1) = MODBUS_CONNECTION_STATE_CLOSED then 1
      else if older time (cs ! 1) (cs ! 0) then 1 else 0)"

definition fresh_connection :: "socket_handle option \<Rightarrow> systime_t \<Rightarrow> ModbusClientConnection" where
  "fresh_connection k time = cleared_connection\<lparr>socket := k, timestamp := time,
     state := MODBUS_CONNECTION_STATE_RECEIVING\<rparr>"

lemma two_entries: "length cs = 2 \<Longrightarrow> \<exists>c d. cs = [c, d]"
  by (cases cs; cases "tl cs") auto

lemma accept_eq:
  assumes "length (connection ctx) = 2" and "osGetSystemTime ops w = (time, w1)"
    and "socketAccept ops (listener ctx) w1 = (Some k, w2)"
    and "socketSetTimeout ops (Some k) 0 w2 = (e, w3)"
  shows "modbusServerAcceptConnection ops ctx w = Some
    (ctx\<lparr>connection := (connection ctx)[accept_slot time (connection ctx) := fresh_connection (Some k) time]\<rparr>,
     if \<forall>c\<in>set (connection ctx). state c \<noteq> MODBUS_CONNECTION_STATE_CLOSED
     then snd (modbusServerCloseConnection ops (connection ctx ! accept_slot time (connection ctx)) w3) else w3)"
proof -
  obtain c d where cs: "connection ctx = [c, d]" using two_entries [OF assms(1)] by blast
  show ?thesis
  proof (cases "state c = MODBUS_CONNECTION_STATE_CLOSED \<or> state d = MODBUS_CONNECTION_STATE_CLOSED")
    case True
    then show ?thesis
      using assms(2-) cs
      by (auto simp: modbusServerAcceptConnection_def accept_slot_def fresh_connection_def)
  next
    case False
    then show ?thesis
      using assms(2-) cs accept_scan_two [of c d time]
      by (simp add: modbusServerAcceptConnection_def accept_slot_def fresh_connection_def)
  qed
qed

lemma fresh_connection_inv: "conn_inv (fresh_connection (Some k) time)"
  by (simp add: conn_inv_def fresh_connection_def cleared_connection_def conn_wf_def)

lemma accept_ok:
  assumes "server_inv ctx"
  shows "\<exists>ctx' w'. modbusServerAcceptConnection ops ctx w = Some (ctx', w') \<and> server_inv ctx' \<and>
    settings ctx' = settings ctx \<and> listener ctx' = listener ctx"
proof -
  obtain time w1 where t: "osGetSystemTime ops w = (time, w1)" by (metis surj_pair)
  obtain k w2 where a: "socketAccept ops (listener ctx) w1 = (k, w2)" by (metis surj_pair)
  have len: "length (connection ctx) = 2" using assms by (simp add: server_inv_def)
  show ?thesis
  proof (cases k)
    case None
    with t a assms show ?thesis by (simp add: modbusServerAcceptConnection_def)
  next
    case (Some h)
    obtain e w3 where st: "socketSetTimeout ops (Some h) 0 w2 = (e, w3)" by (metis surj_pair)
    have "set ((connection ctx)[i := fresh_connection (Some h) time]) \<subseteq>
        insert (fresh_connection (Some h) time) (set (connection ctx))" for i
      by (rule set_update_subset_insert)
    then have "\<forall>c\<in>set ((connection ctx)[i := fresh_connection (Some h) time]). conn_inv c" for i
      using assms fresh_connection_inv [of h time] by (auto simp: server_inv_def)
    then show ?thesis
      using accept_eq [OF len t a [unfolded Some] st] len by (simp add: server_inv_def)
  qed
qed

text \<open>What the idle timeout does to one connection.\<close>

definition idle :: "systime_t \<Rightarrow> ModbusClientConnection \<Rightarrow> bool" where
  "idle time c \<longleftrightarrow> state c \<noteq> MODBUS_CONNECTION_STATE_CLOSED \<and>
     timeCompare time (timestamp c + MODBUS_SERVER_TIMEOUT) \<ge> 0"

definition closed :: "ModbusClientConnection \<Rightarrow> ModbusClientConnection" where
  "closed c = c\<lparr>socket := None, state := MODBUS_CONNECTION_STATE_CLOSED\<rparr>"

lemma close_connection_fst: "fst (modbusServerCloseConnection ops c w) = closed c"
  by (cases c) (auto simp: modbusServerCloseConnection_def closed_def Let_def split_def)

lemma tick_loop_eq: "fst (tick_loop ops time cs w) = map (\<lambda>c. if idle time c then closed c else c) cs"
proof (induction cs arbitrary: w)
  case (Cons c cs)
  obtain w1 where "modbusServerCloseConnection ops c w = (closed c, w1)"
    using close_connection_fst [of ops c w] by (metis prod.collapse)
  then have "fst (tick_loop ops time (c # cs) w) = (if idle time c then closed c else c) #
      fst (tick_loop ops time cs (if idle time c then w1 else w))"
    by (simp add: idle_def Let_def split: prod.split)
  then show ?case by (simp add: Cons.IH)
qed simp

lemma tick_eq:
  assumes "osGetSystemTime ops w = (time, w1)"
  shows "fst (modbusServerTick ops ctx w) =
    ctx\<lparr>connection := map (\<lambda>c. if idle time c then closed c else c) (connection ctx)\<rparr>"
  using assms tick_loop_eq [of ops time "connection ctx" w1]
  by (cases "tick_loop ops time (connection ctx) w1") (simp add: modbusServerTick_def)

lemma closed_inv: "conn_inv c \<Longrightarrow> conn_inv (closed c)"
  by (simp add: conn_inv_def closed_def)

lemma tick_ok:
  assumes "server_inv ctx"
  shows "server_inv (fst (modbusServerTick ops ctx w)) \<and>
    settings (fst (modbusServerTick ops ctx w)) = settings ctx \<and>
    listener (fst (modbusServerTick ops ctx w)) = listener ctx"
proof -
  obtain time w1 where t: "osGetSystemTime ops w = (time, w1)" by (metis surj_pair)
  show ?thesis using assms closed_inv by (auto simp: tick_eq [OF t] server_inv_def)
qed

lemma task_ok:
  assumes "server_inv ctx" and "callbacks_ok (settings ctx)" and "net_ok ops"
  shows "\<exists>ctx' w'. modbusServerTask ops locals ctx w = Some (ctx', w') \<and> server_inv ctx' \<and>
    settings ctx' = settings ctx \<and> listener ctx' = listener ctx"
proof -
  let ?descs = "map connection_desc (connection ctx) @
    [\<lparr>desc_socket = listener ctx, eventMask = SOCKET_EVENT_RX_READY\<rparr>]"
  obtain e fs w1 where p: "socketPoll ops ?descs 1000 w = (e, fs, w1)" by (metis prod_cases3)
  have len: "length (connection ctx) = 2" and inv: "\<forall>c\<in>set (connection ctx). conn_inv c"
    using assms(1) by (simp_all add: server_inv_def)
  have fs: "length fs = 3" using net_okD(3) [OF assms(3) p] len by simp
  obtain cs w2 where ev: "events_loop (settings ctx) ops locals fs (connection ctx) w1 = Some (cs, w2)"
    and cs: "length cs = 2" "\<forall>c\<in>set cs. conn_inv c"
    using events_loop_ok [OF assms(2,3), of "connection ctx" fs locals w1] len fs inv by auto
  let ?ctx = "ctx\<lparr>connection := cs\<rparr>"
  have "server_inv ?ctx" using cs by (simp add: server_inv_def)
  from accept_ok [OF this, of ops w2] obtain ctx2 w3 where
    acc: "modbusServerAcceptConnection ops ?ctx w2 = Some (ctx2, w3)" "server_inv ctx2"
      "settings ctx2 = settings ctx" "listener ctx2 = listener ctx" by auto
  define mid where "mid = (if e \<noteq> NO_ERROR then (ctx, w1) else if fs ! 2 = 0 then (?ctx, w2) else (ctx2, w3))"
  have mid: "server_inv (fst mid)" "settings (fst mid) = settings ctx" "listener (fst mid) = listener ctx"
    using acc \<open>server_inv ?ctx\<close> assms(1) by (simp_all add: mid_def)
  have "modbusServerTask ops locals ctx w = Some (modbusServerTick ops (fst mid) (snd mid))"
    using p fs ev acc(1) by (simp add: modbusServerTask_def Let_def mid_def)
  then show ?thesis
    using tick_ok [OF mid(1), of ops "snd mid"] mid(2,3)
    by (cases "modbusServerTick ops (fst mid) (snd mid)") auto
qed

text \<open>\<open>while(1)\<close>: the first \<open>n\<close> rounds.\<close>

fun server_rounds ::
    "'w net_ops \<Rightarrow> stack_locals \<Rightarrow> nat \<Rightarrow> 'w ModbusServerContext \<Rightarrow> 'w \<Rightarrow>
     ('w ModbusServerContext \<times> 'w) option" where
  "server_rounds ops locals 0 ctx w = Some (ctx, w)"
| "server_rounds ops locals (Suc n) ctx w = do {
     (ctx, w) \<leftarrow> modbusServerTask ops locals ctx w;
     server_rounds ops locals n ctx w
   }"

lemma server_rounds_ok:
  assumes "server_inv ctx" and "callbacks_ok (settings ctx)" and "net_ok ops"
  shows "\<exists>ctx' w'. server_rounds ops locals n ctx w = Some (ctx', w') \<and> server_inv ctx' \<and>
    settings ctx' = settings ctx"
  using assms(1,2)
proof (induction n arbitrary: ctx w)
  case (Suc n)
  from task_ok [OF Suc.prems assms(3), of locals w] obtain ctx1 w1 where
    1: "modbusServerTask ops locals ctx w = Some (ctx1, w1)" "server_inv ctx1" "settings ctx1 = settings ctx"
    by auto
  show ?case
    using Suc.IH [of ctx1 w1] 1 Suc.prems by simp
qed simp

lemma init_inv: "server_inv (fst (snd (modbusServerInit ops S w)))"
  using cleared_connection_inv
  by (auto simp: modbusServerInit_def server_inv_def Let_def numeral_2_eq_2 split: prod.splits)

lemma init_settings: "settings (fst (snd (modbusServerInit ops S w))) = S"
  by (auto simp: modbusServerInit_def Let_def split: prod.splits)

end
