(* ===== verification/ModbusSpec.thy ===== *)
theory ModbusSpec
  imports ModbusCommon
begin

text \<open>
  The reference specification of a Modbus server: a pure function from the data tables and a request
  PDU (a list of bytes) to an outcome.  It mentions no buffers, offsets, callbacks or connections;
  \<open>ModbusTable\<close> proves that the handlers of \<open>modbus_server_pdu.c\<close> implement it.
\<close>

subsection \<open>Tables, register bytes and packed coils\<close>

record tables =
  coils :: "u16 \<rightharpoonup> bool"
  regs :: "u16 \<rightharpoonup> u16"

text \<open>A request that is \<open>Malformed\<close> gets no answer, only its connection is closed.\<close>

datatype outcome =
    Malformed
  | Exception u8
  | Reply buffer tables

text \<open>Consecutive addresses, which wrap at the 16-bit boundary.\<close>

definition defined :: "(u16 \<rightharpoonup> 'a) \<Rightarrow> u16 \<Rightarrow> nat \<Rightarrow> bool" where
  "defined t a q \<longleftrightarrow> (\<forall>i<q. t (a + word_of_nat i) \<noteq> None)"

definition fetch :: "(u16 \<rightharpoonup> 'a) \<Rightarrow> u16 \<Rightarrow> nat \<Rightarrow> 'a list" where
  "fetch t a q = map (\<lambda>i. the (t (a + word_of_nat i))) [0..<q]"

fun store :: "(u16 \<rightharpoonup> 'a) \<Rightarrow> u16 \<Rightarrow> 'a list \<Rightarrow> (u16 \<rightharpoonup> 'a)" where
  "store t a [] = t"
| "store t a (v # vs) = store (t(a \<mapsto> v)) (a + 1) vs"

text \<open>A register is two bytes, the most significant first.\<close>

definition be_bytes :: "u16 \<Rightarrow> buffer" where
  "be_bytes v = [ucast (drop_bit 8 v), ucast v]"

definition reg_bytes :: "u16 list \<Rightarrow> buffer" where
  "reg_bytes vs = concat (map be_bytes vs)"

definition bytes_regs :: "buffer \<Rightarrow> nat \<Rightarrow> nat \<Rightarrow> u16 list" where
  "bytes_regs b a q = map (\<lambda>k. LOAD16BE b (a + 2 * k)) [0..<q]"

text \<open>Eight coils are one byte, the first in the least significant bit; the last byte is padded with 0.\<close>

definition pack :: "bool list \<Rightarrow> buffer" where
  "pack bs = map (\<lambda>j. horner_sum of_bool 2 (take 8 (drop (8 * j) bs))) [0..<(length bs + 7) div 8]"

definition unpack :: "buffer \<Rightarrow> nat \<Rightarrow> nat \<Rightarrow> bool list" where
  "unpack b a q = map (coil_at b a) [0..<q]"

subsection \<open>The functions of the protocol\<close>

definition spec_read_bits :: "tables \<Rightarrow> buffer \<Rightarrow> outcome" where
  "spec_read_bits t pdu =
     (if length pdu < 5 then Malformed
      else let a = LOAD16BE pdu 1; q = unat (LOAD16BE pdu 3)
        in if q < 1 \<or> 2000 < q then Exception MODBUS_EXCEPTION_ILLEGAL_DATA_VALUE
           else if \<not> defined (coils t) a q then Exception MODBUS_EXCEPTION_ILLEGAL_DATA_ADDRESS
           else Reply (pdu ! 0 # word_of_nat ((q + 7) div 8) # pack (fetch (coils t) a q)) t)"

definition spec_read_regs :: "tables \<Rightarrow> buffer \<Rightarrow> outcome" where
  "spec_read_regs t pdu =
     (if length pdu < 5 then Malformed
      else let a = LOAD16BE pdu 1; q = unat (LOAD16BE pdu 3)
        in if q < 1 \<or> 125 < q then Exception MODBUS_EXCEPTION_ILLEGAL_DATA_VALUE
           else if \<not> defined (regs t) a q then Exception MODBUS_EXCEPTION_ILLEGAL_DATA_ADDRESS
           else Reply (pdu ! 0 # word_of_nat (q * 2) # reg_bytes (fetch (regs t) a q)) t)"

definition spec_write_coil :: "tables \<Rightarrow> buffer \<Rightarrow> outcome" where
  "spec_write_coil t pdu =
     (if length pdu < 5 then Malformed
      else let a = LOAD16BE pdu 1; v = LOAD16BE pdu 3
        in if v \<noteq> MODBUS_COIL_STATE_ON \<and> v \<noteq> MODBUS_COIL_STATE_OFF
           then Exception MODBUS_EXCEPTION_ILLEGAL_DATA_VALUE
           else if coils t a = None then Exception MODBUS_EXCEPTION_ILLEGAL_DATA_ADDRESS
           else Reply (take 5 pdu) (t\<lparr>coils := (coils t)(a \<mapsto> (v = MODBUS_COIL_STATE_ON))\<rparr>))"

definition spec_write_reg :: "tables \<Rightarrow> buffer \<Rightarrow> outcome" where
  "spec_write_reg t pdu =
     (if length pdu < 5 then Malformed
      else let a = LOAD16BE pdu 1
        in if regs t a = None then Exception MODBUS_EXCEPTION_ILLEGAL_DATA_ADDRESS
           else Reply (take 5 pdu) (t\<lparr>regs := (regs t)(a \<mapsto> LOAD16BE pdu 3)\<rparr>))"

definition spec_write_coils :: "tables \<Rightarrow> buffer \<Rightarrow> outcome" where
  "spec_write_coils t pdu =
     (if length pdu < 6 \<or> length pdu < 6 + unat (pdu ! 5) then Malformed
      else let a = LOAD16BE pdu 1; q = unat (LOAD16BE pdu 3)
        in if q < 1 \<or> 2000 < q \<or> unat (pdu ! 5) \<noteq> (q + 7) div 8
           then Exception MODBUS_EXCEPTION_ILLEGAL_DATA_VALUE
           else if \<not> defined (coils t) a q then Exception MODBUS_EXCEPTION_ILLEGAL_DATA_ADDRESS
           else Reply (take 5 pdu) (t\<lparr>coils := store (coils t) a (unpack pdu 6 q)\<rparr>))"

definition spec_write_regs :: "tables \<Rightarrow> buffer \<Rightarrow> outcome" where
  "spec_write_regs t pdu =
     (if length pdu < 6 \<or> length pdu < 6 + unat (pdu ! 5) then Malformed
      else let a = LOAD16BE pdu 1; q = unat (LOAD16BE pdu 3)
        in if q < 1 \<or> 123 < q \<or> unat (pdu ! 5) \<noteq> q * 2
           then Exception MODBUS_EXCEPTION_ILLEGAL_DATA_VALUE
           else if \<not> defined (regs t) a q then Exception MODBUS_EXCEPTION_ILLEGAL_DATA_ADDRESS
           else Reply (take 5 pdu) (t\<lparr>regs := store (regs t) a (bytes_regs pdu 6 q)\<rparr>))"

definition spec_mask_reg :: "tables \<Rightarrow> buffer \<Rightarrow> outcome" where
  "spec_mask_reg t pdu =
     (if length pdu < 7 then Malformed
      else let a = LOAD16BE pdu 1; am = LOAD16BE pdu 3; om = LOAD16BE pdu 5
        in case regs t a of
             None \<Rightarrow> Exception MODBUS_EXCEPTION_ILLEGAL_DATA_ADDRESS
           | Some v \<Rightarrow> Reply (take 7 pdu) (t\<lparr>regs := (regs t)(a \<mapsto> (v AND am) OR (om AND NOT am))\<rparr>))"

text \<open>
  The write comes before the read: an address in both ranges is read with the value just written
  (so the comment in the client's \<open>modbusClientReadWriteMultipleRegs\<close>, after the Modbus specification).
\<close>

definition spec_read_write_regs :: "tables \<Rightarrow> buffer \<Rightarrow> outcome" where
  "spec_read_write_regs t pdu =
     (if length pdu < 10 \<or> length pdu < 10 + unat (pdu ! 9) then Malformed
      else let ra = LOAD16BE pdu 1; rq = unat (LOAD16BE pdu 3);
               wa = LOAD16BE pdu 5; wq = unat (LOAD16BE pdu 7)
        in if rq < 1 \<or> 125 < rq \<or> wq < 1 \<or> 121 < wq \<or> unat (pdu ! 9) \<noteq> wq * 2
           then Exception MODBUS_EXCEPTION_ILLEGAL_DATA_VALUE
           else if \<not> (defined (regs t) ra rq \<and> defined (regs t) wa wq)
           then Exception MODBUS_EXCEPTION_ILLEGAL_DATA_ADDRESS
           else let written = store (regs t) wa (bytes_regs pdu 10 wq)
             in Reply (pdu ! 0 # word_of_nat (rq * 2) # reg_bytes (fetch written ra rq))
                  (t\<lparr>regs := written\<rparr>))"

text \<open>What the code does instead: it reads the values before it writes the others.\<close>

definition read_then_write_regs :: "tables \<Rightarrow> buffer \<Rightarrow> outcome" where
  "read_then_write_regs t pdu =
     (if length pdu < 10 \<or> length pdu < 10 + unat (pdu ! 9) then Malformed
      else let ra = LOAD16BE pdu 1; rq = unat (LOAD16BE pdu 3);
               wa = LOAD16BE pdu 5; wq = unat (LOAD16BE pdu 7)
        in if rq < 1 \<or> 125 < rq \<or> wq < 1 \<or> 121 < wq \<or> unat (pdu ! 9) \<noteq> wq * 2
           then Exception MODBUS_EXCEPTION_ILLEGAL_DATA_VALUE
           else if \<not> (defined (regs t) ra rq \<and> defined (regs t) wa wq)
           then Exception MODBUS_EXCEPTION_ILLEGAL_DATA_ADDRESS
           else Reply (pdu ! 0 # word_of_nat (rq * 2) # reg_bytes (fetch (regs t) ra rq))
                  (t\<lparr>regs := store (regs t) wa (bytes_regs pdu 10 wq)\<rparr>))"

definition spec :: "tables \<Rightarrow> buffer \<Rightarrow> outcome" where
  "spec t pdu =
     (if pdu = [] then Malformed
      else let f = pdu ! 0
        in if f = MODBUS_FUNCTION_READ_COILS \<or> f = MODBUS_FUNCTION_READ_DISCRETE_INPUTS
           then spec_read_bits t pdu
           else if f = MODBUS_FUNCTION_READ_HOLDING_REGS \<or> f = MODBUS_FUNCTION_READ_INPUT_REGS
           then spec_read_regs t pdu
           else if f = MODBUS_FUNCTION_WRITE_SINGLE_COIL then spec_write_coil t pdu
           else if f = MODBUS_FUNCTION_WRITE_SINGLE_REG then spec_write_reg t pdu
           else if f = MODBUS_FUNCTION_WRITE_MULTIPLE_COILS then spec_write_coils t pdu
           else if f = MODBUS_FUNCTION_WRITE_MULTIPLE_REGS then spec_write_regs t pdu
           else if f = MODBUS_FUNCTION_MASK_WRITE_REG then spec_mask_reg t pdu
           else if f = MODBUS_FUNCTION_READ_WRITE_MULTIPLE_REGS then spec_read_write_regs t pdu
           else Exception MODBUS_EXCEPTION_ILLEGAL_FUNCTION)"

text \<open>
  The two classes of requests on which the code departs from the specification: a read/write request
  that is up to four bytes shorter than its byte count says, and one whose two ranges overlap.
\<close>

definition truncated_read_write :: "buffer \<Rightarrow> bool" where
  "truncated_read_write pdu \<longleftrightarrow> 10 \<le> length pdu \<and> pdu ! 0 = MODBUS_FUNCTION_READ_WRITE_MULTIPLE_REGS \<and>
     6 + unat (pdu ! 9) \<le> length pdu \<and> length pdu < 10 + unat (pdu ! 9)"

definition overlap :: "u16 \<Rightarrow> nat \<Rightarrow> u16 \<Rightarrow> nat \<Rightarrow> bool" where
  "overlap a p b q \<longleftrightarrow> (\<exists>i<p. \<exists>j<q. a + word_of_nat i = b + word_of_nat j)"

definition overlapping_read_write :: "buffer \<Rightarrow> bool" where
  "overlapping_read_write pdu \<longleftrightarrow> 10 \<le> length pdu \<and> pdu ! 0 = MODBUS_FUNCTION_READ_WRITE_MULTIPLE_REGS \<and>
     overlap (LOAD16BE pdu 1) (unat (LOAD16BE pdu 3)) (LOAD16BE pdu 5) (unat (LOAD16BE pdu 7))"

subsection \<open>Laws\<close>

lemma defined_0 [simp]: "defined t a 0"
  by (simp add: defined_def)

lemma defined_Suc: "defined t a (Suc q) \<longleftrightarrow> t a \<noteq> None \<and> defined t (a + 1) q"
  by (simp add: defined_def All_less_Suc2 ac_simps)

lemma defined_upd: "defined t b q \<Longrightarrow> defined (t(a \<mapsto> v)) b q"
  by (simp add: defined_def)

lemma fetch_Suc: "fetch t a (Suc q) = the (t a) # fetch t (a + 1) q"
  by (simp add: fetch_def upt_conv_Cons map_Suc_upt [symmetric] ac_simps del: upt_Suc)

lemma length_fetch [simp]: "length (fetch t a q) = q"
  by (simp add: fetch_def)

lemma nth_fetch: "i < q \<Longrightarrow> fetch t a q ! i = the (t (a + word_of_nat i))"
  by (simp add: fetch_def)

lemma length_be_bytes [simp]: "length (be_bytes v) = 2"
  by (simp add: be_bytes_def)

lemma reg_bytes_simps [simp]: "reg_bytes [] = []" "reg_bytes (v # vs) = be_bytes v @ reg_bytes vs"
  by (simp_all add: reg_bytes_def)

lemma length_reg_bytes [simp]: "length (reg_bytes vs) = 2 * length vs"
  by (induction vs) simp_all

lemma reg_bytes_append: "reg_bytes (us @ vs) = reg_bytes us @ reg_bytes vs"
  by (simp add: reg_bytes_def)

lemma length_bytes_regs [simp]: "length (bytes_regs b a q) = q"
  by (simp add: bytes_regs_def)

lemma length_pack [simp]: "length (pack bs) = (length bs + 7) div 8"
  by (simp add: pack_def)

lemma length_unpack [simp]: "length (unpack b a q) = q"
  by (simp add: unpack_def)

lemma dom_store: "defined t a (length vs) \<Longrightarrow> dom (store t a vs) = dom t"
  by (induction vs arbitrary: t a) (auto simp: defined_Suc defined_upd)

lemma store_other: "(\<And>j. j < length vs \<Longrightarrow> x \<noteq> a + word_of_nat j) \<Longrightarrow> store t a vs x = t x"
proof (induction vs arbitrary: t a)
  case (Cons v vs)
  have "x \<noteq> a + 1 + word_of_nat j" if "j < length vs" for j
    using Cons.prems [of "Suc j"] that by (simp add: ac_simps)
  moreover have "x \<noteq> a" using Cons.prems [of 0] by simp
  ultimately show ?case by (simp, subst Cons.IH) auto
qed simp

lemma fetch_store_disjoint:
  "\<not> overlap a p b (length vs) \<Longrightarrow> fetch (store t b vs) a p = fetch t a p"
  unfolding fetch_def overlap_def by (intro map_cong refl arg_cong [where f = the] store_other) auto

lemma store_append: "store t a (us @ vs) = store (store t a us) (a + word_of_nat (length us)) vs"
  by (induction us arbitrary: t a) (simp_all add: add.assoc add.commute)

text \<open>The order of the write and the read does not matter when the two ranges are apart.\<close>

lemma read_then_write_spec:
  assumes "\<not> overlapping_read_write pdu" and "pdu ! 0 = MODBUS_FUNCTION_READ_WRITE_MULTIPLE_REGS"
  shows "spec_read_write_regs t pdu = read_then_write_regs t pdu"
proof (cases "10 \<le> length pdu")
  case True
  with assms have "\<not> overlap (LOAD16BE pdu 1) (unat (LOAD16BE pdu 3)) (LOAD16BE pdu 5) (unat (LOAD16BE pdu 7))"
    by (simp add: overlapping_read_write_def)
  from fetch_store_disjoint [of _ _ _ "bytes_regs pdu 10 (unat (LOAD16BE pdu 7))", unfolded length_bytes_regs, OF this]
  show ?thesis by (simp add: spec_read_write_regs_def read_then_write_regs_def Let_def)
qed (simp add: spec_read_write_regs_def read_then_write_regs_def)

lemma bit_pack:
  assumes "j < (length bs + 7) div 8" and "k < 8"
  shows "bit (pack bs ! j) k \<longleftrightarrow> 8 * j + k < length bs \<and> bs ! (8 * j + k)"
  using assms by (auto simp: pack_def bit_horner_sum_bit_word_iff)

text \<open>A buffer region whose coils are the list and whose padding is zero is the packed list.\<close>

lemma pack_eqI:
  assumes "length b = (length bs + 7) div 8"
    and "\<And>i. i < length bs \<Longrightarrow> coil_at b 0 i = bs ! i"
    and "\<And>i. length bs \<le> i \<Longrightarrow> i < 8 * length b \<Longrightarrow> \<not> coil_at b 0 i"
  shows "b = pack bs"
proof (rule nth_equalityI)
  fix j assume j: "j < length b"
  show "b ! j = pack bs ! j"
  proof (rule bit_word_eqI)
    fix k assume "k < LENGTH(8)"
    then have k: "k < 8" by simp
    have c: "coil_at b 0 (8 * j + k) = bit (b ! j) k" using k by (simp add: coil_at_def)
    have "8 * j + k < 8 * length b" using j k by simp
    then show "bit (b ! j) k = bit (pack bs ! j) k"
      using assms(2,3) [of "8 * j + k"] c j k
      unfolding bit_pack [OF j [unfolded assms(1)] k] by (cases "8 * j + k < length bs") auto
  qed
qed (simp add: assms(1))

lemma coil_at_pack: "i < length bs \<Longrightarrow> coil_at (pack bs) 0 i = bs ! i"
  using bit_pack [of "i div 8" bs "i mod 8"] byte_index_less [of i "length bs"] by (simp add: coil_at_def)

lemma coil_at_drop: "a \<le> length b \<Longrightarrow> coil_at (drop a b) p i = coil_at b (a + p) i"
  by (simp add: coil_at_def add.assoc)

lemma unpack_pack: "length bs = q \<Longrightarrow> unpack (pack bs) 0 q = bs"
  by (rule nth_equalityI) (auto simp: unpack_def coil_at_pack)

lemma htons_bytes:
  "ucast (drop_bit 8 (htons v)) = (ucast v :: u8)" "ucast (htons v) = (ucast (drop_bit 8 v) :: u8)"
  by (rule bit_word_eqI; simp add: htons_def bit_swapInt16 bit_simps add.commute)+

lemma set16_blit:
  assumes "Suc i < length b" shows "set16 b i (htons v) = blit b i (be_bytes v)"
proof (rule nth_equalityI)
  fix j assume "j < length (set16 b i (htons v))"
  then show "set16 b i (htons v) ! j = blit b i (be_bytes v) ! j"
    using assms by (auto simp: nth_blit be_bytes_def set16_def htons_bytes nth_list_update less_Suc_eq)
qed (use assms in simp)

text \<open>A PDU as a list and the same bytes in the buffer it was taken from.\<close>

lemma pdu_bytes:
  assumes "pdu = take len (drop 7 b)" and "7 + len \<le> length b"
  shows "length pdu = len" and "i < len \<Longrightarrow> pdu ! i = b ! (7 + i)"
    and "Suc i < len \<Longrightarrow> LOAD16BE pdu i = ntohs (get16 b (7 + i))"
    and "a + 2 * q \<le> len \<Longrightarrow> bytes_regs pdu a q = bytes_regs b (7 + a) q"
    and "a + (q + 7) div 8 \<le> len \<Longrightarrow> unpack pdu a q = unpack b (7 + a) q"
proof -
  show "length pdu = len" "i < len \<Longrightarrow> pdu ! i = b ! (7 + i)" using assms by simp_all
  have ld: "Suc i < len \<Longrightarrow> LOAD16BE pdu i = LOAD16BE b (7 + i)" for i
    using assms by (simp add: LOAD16BE_def)
  then show "Suc i < len \<Longrightarrow> LOAD16BE pdu i = ntohs (get16 b (7 + i))" by (simp add: ntohs_get16)
  show "bytes_regs pdu a q = bytes_regs b (7 + a) q" if "a + 2 * q \<le> len"
    unfolding bytes_regs_def using that by (intro map_cong refl) (simp add: ld add.assoc)
  show "unpack pdu a q = unpack b (7 + a) q" if "a + (q + 7) div 8 \<le> len"
  proof -
    have "coil_at pdu a i = coil_at b (7 + a) i" if "i < q" for i
      using \<open>a + (q + 7) div 8 \<le> len\<close> byte_index_less [OF that] assms
      by (simp add: coil_at_def add.assoc)
    then show ?thesis unfolding unpack_def by (intro map_cong refl) simp
  qed
qed

end
