(* ===== verification/ModbusTable.thy ===== *)
theory ModbusTable
  imports ModbusServerSafe ModbusSpec
begin

text \<open>
  The contract between the server and the user callbacks, and what the server does when it holds.

  The locale \<open>modbus_table\<close> says that the callbacks implement a table of coils and registers: a read
  returns the stored value, a write in the validation phase (\<open>commit = FALSE\<close>) changes nothing and
  predicts whether the write phase succeeds, and an address outside the table is
  \<open>ERROR_INVALID_ADDRESS\<close>.  Under the contract every handler refines the reference specification.
\<close>

subsection \<open>What it means for a handler to serve a request\<close>

definition request_pdu :: "ModbusClientConnection \<Rightarrow> buffer" where
  "request_pdu c = take (requestAduLen c - sizeof_ModbusHeader) (drop sizeof_ModbusHeader (requestAdu c))"

definition response_pdu :: "ModbusClientConnection \<Rightarrow> buffer" where
  "response_pdu c = take (responseAduLen c - sizeof_ModbusHeader) (drop sizeof_ModbusHeader (responseAdu c))"

definition serves ::
    "('w \<Rightarrow> tables) \<Rightarrow> tables \<Rightarrow> outcome \<Rightarrow> 'w handler_result \<Rightarrow> bool" where
  "serves tab t out r \<longleftrightarrow> (\<exists>e c w. r = Some (e, c, w) \<and>
     (case out of
        Malformed \<Rightarrow> e = ERROR_INVALID_LENGTH \<and> tab w = t
      | Exception x \<Rightarrow> is_exception e \<and> modbusServerTranslateExceptionCode e = x \<and> tab w = t
      | Reply rsp t' \<Rightarrow> e = NO_ERROR \<and> tab w = t' \<and> response_pdu c = rsp))"

lemma serves_Malformed:
  "tab w = t \<Longrightarrow> serves tab t Malformed (Some (ERROR_INVALID_LENGTH, c, w))"
  by (simp add: serves_def)

lemma serves_value:
  "tab w = t \<Longrightarrow> serves tab t (Exception 3) (Some (ERROR_INVALID_VALUE, c, w))"
  by (simp add: serves_def is_exception_def modbusServerTranslateExceptionCode_def)

lemma serves_address:
  "tab w = t \<Longrightarrow> serves tab t (Exception 2) (Some (ERROR_INVALID_ADDRESS, c, w))"
  by (simp add: serves_def is_exception_def modbusServerTranslateExceptionCode_def)

lemma take_drop_mbap_reply:
  assumes "length adu = 260"
  shows "take n (drop 7 (mbap_reply req len adu)) = take n (drop 7 adu)"
  using assms by (intro nth_equalityI) auto

lemma serves_finish:
  assumes "conn_wf c" and "7 \<le> requestAduPos c" and "length adu = 260" and "tab w = t'"
  shows "serves tab t (Reply (take len (drop 7 adu)) t') (finish_response c adu len w)"
  using assms by (simp add: finish_response_eq serves_def response_pdu_def take_drop_mbap_reply)

lemma coils_header_padding:
  assumes "conn_wf c" and "q \<le> 2000" and "q \<le> k" and "k < 8 * ((q + 7) div 8)"
  shows "\<not> coil_at (coils_header c q) 9 k"
proof -
  let ?n = "(q + 7) div 8"
  have "q mod 8 \<noteq> 0"
  proof
    assume "q mod 8 = 0"
    then have "?n = q div 8" and "8 * (q div 8) = q" by (auto elim!: dvdE)
    with assms show False by simp
  qed
  moreover have "k div 8 = ?n - 1"
  proof -
    have "k div 8 < ?n" using assms(4) by (simp add: less_mult_imp_div_less mult.commute)
    moreover have "q div 8 \<le> k div 8" using assms(3) by (rule div_le_mono)
    moreover have "?n \<le> (q + 8) div 8" by (intro div_le_mono) simp
    ultimately show ?thesis by simp
  qed
  moreover have "0 < ?n" using assms(4) by (cases "?n") auto
  ultimately have "coils_header c q ! (9 + k div 8) = 0"
    using conn_wfD [OF assms(1)] coil_bytes_le [OF assms(2)] by (simp add: coils_header_def Let_def)
  then show ?thesis by (simp add: coil_at_def)
qed

lemma coils_header_function:
  assumes "conn_wf c" shows "coils_header c q ! 7 = requestAdu c ! 7"
  using conn_wfD [OF assms] by (simp add: coils_header_def Let_def)

lemma take_Suc_Suc_drop7:
  "9 + n \<le> length adu \<Longrightarrow> take (2 + n) (drop 7 adu) = adu ! 7 # adu ! 8 # take n (drop 9 (adu :: buffer))"
  by (simp add: Cons_nth_drop_Suc [symmetric] take_Cons' numeral_eq_Suc)

text \<open>Copying a 16-bit member without swapping copies its two bytes.\<close>

lemma ucast_get16:
  "ucast (get16 r i) = (r ! i :: u8)" "ucast (drop_bit 8 (get16 r i)) = (r ! Suc i :: u8)"
  by (rule bit_word_eqI; simp add: get16_def bit_simps)+

lemma echo5_bytes:
  assumes "conn_wf c" shows "take 5 (drop 7 (echo5 c)) = take 5 (drop 7 (requestAdu c))"
proof (rule nth_equalityI)
  note L = conn_wfD [OF assms]
  fix j assume "j < length (take 5 (drop 7 (echo5 c)))"
  then have "j = 0 \<or> j = 1 \<or> j = 2 \<or> j = 3 \<or> j = 4" by auto
  with L show "take 5 (drop 7 (echo5 c)) ! j = take 5 (drop 7 (requestAdu c)) ! j"
    by (auto simp: echo5_def set16_def ucast_get16)
qed (use conn_wfD [OF assms] in simp)

lemma echo7_bytes:
  assumes "conn_wf c" shows "take 7 (drop 7 (echo7 c)) = take 7 (drop 7 (requestAdu c))"
proof (rule nth_equalityI)
  note L = conn_wfD [OF assms]
  fix j assume "j < length (take 7 (drop 7 (echo7 c)))"
  then have j: "j < 7" by simp
  show "take 7 (drop 7 (echo7 c)) ! j = take 7 (drop 7 (requestAdu c)) ! j"
  proof (cases "j < 5")
    case True
    then have "echo5 c ! (7 + j) = requestAdu c ! (7 + j)"
      using arg_cong [OF echo5_bytes [OF assms], of "\<lambda>xs. xs ! j"] L by simp
    with True L show ?thesis by (simp add: echo7_def)
  next
    case False
    with j have "j = 5 \<or> j = 6" by linarith
    with L show ?thesis by (auto simp: echo7_def set16_def ucast_get16)
  qed
qed (use conn_wfD [OF assms] in simp)

text \<open>The same for the whole request: an exception is now a response of two bytes.\<close>

definition answered ::
    "('w \<Rightarrow> tables) \<Rightarrow> tables \<Rightarrow> outcome \<Rightarrow> buffer \<Rightarrow> 'w handler_result \<Rightarrow> bool" where
  "answered tab t out pdu r \<longleftrightarrow> (\<exists>e c w. r = Some (e, c, w) \<and>
     (case out of
        Malformed \<Rightarrow> e = ERROR_INVALID_LENGTH \<and> tab w = t
      | Exception x \<Rightarrow> e = NO_ERROR \<and> tab w = t \<and>
          response_pdu c = [MODBUS_EXCEPTION_MASK OR pdu ! 0, x]
      | Reply rsp t' \<Rightarrow> e = NO_ERROR \<and> tab w = t' \<and> response_pdu c = rsp))"

subsection \<open>The contract\<close>

locale modbus_table =
  fixes S :: "'w ModbusServerSettings" and tab :: "'w \<Rightarrow> tables"
  assumes read_coil: "modbusServerReadCoil S a s w = (e, s', w') \<Longrightarrow> tab w' = tab w \<and>
      (case coils (tab w) a of Some b \<Rightarrow> e = NO_ERROR \<and> s' = b | None \<Rightarrow> e = ERROR_INVALID_ADDRESS)"
    and read_reg: "modbusServerReadReg S a v w = (e, v', w') \<Longrightarrow> tab w' = tab w \<and>
      (case regs (tab w) a of Some x \<Rightarrow> e = NO_ERROR \<and> v' = x | None \<Rightarrow> e = ERROR_INVALID_ADDRESS)"
    and write_coil: "modbusServerWriteCoil S a s commit w = (e, w') \<Longrightarrow>
      (if coils (tab w) a = None then e = ERROR_INVALID_ADDRESS \<and> tab w' = tab w
       else e = NO_ERROR \<and>
         tab w' = (if commit then (tab w)\<lparr>coils := (coils (tab w))(a \<mapsto> s)\<rparr> else tab w))"
    and write_reg: "modbusServerWriteReg S a v commit w = (e, w') \<Longrightarrow>
      (if regs (tab w) a = None then e = ERROR_INVALID_ADDRESS \<and> tab w' = tab w
       else e = NO_ERROR \<and>
         tab w' = (if commit then (tab w)\<lparr>regs := (regs (tab w))(a \<mapsto> v)\<rparr> else tab w))"
    and tab_lock: "tab (modbusServerLock S w) = tab w"
    and tab_unlock: "\<exists>w'. modbusServerUnlock S w = Some w' \<and> tab w' = tab w"
begin

text \<open>The status a range gives: an error exactly when some address of it is outside the table.\<close>

abbreviation (input) status :: "(u16 \<rightharpoonup> 'b) \<Rightarrow> u16 \<Rightarrow> nat \<Rightarrow> error_t" where
  "status t a q \<equiv> if defined t a q then NO_ERROR else ERROR_INVALID_ADDRESS"

lemma readCoils_loop_spec:
  assumes "p + (q + 7) div 8 \<le> length adu"
  shows "\<exists>adu' w'. readCoils_loop S a q p i NO_ERROR st adu w =
      Some (status (coils (tab w)) (a + word_of_nat i) (q - i), adu', w') \<and> tab w' = tab w \<and>
    length adu' = length adu \<and> (\<forall>j<p. adu' ! j = adu ! j) \<and>
    (defined (coils (tab w)) (a + word_of_nat i) (q - i) \<longrightarrow>
      (\<forall>k. coil_at adu' p k = (if i \<le> k \<and> k < q then the (coils (tab w) (a + word_of_nat k)) else coil_at adu p k)))"
  using assms
proof (induction "q - i" arbitrary: i st adu w)
  case 0
  then show ?case by (subst readCoils_loop.simps) auto
next
  case (Suc n)
  then have i: "i < q" "q - i = Suc (q - Suc i)" "n = q - Suc i" by simp_all
  obtain e s w1 where r: "modbusServerReadCoil S (a + word_of_nat i) st w = (e, s, w1)" by (metis prod_cases3)
  note law = read_coil [OF r]
  show ?case
  proof (cases "coils (tab w) (a + word_of_nat i)")
    case None
    with law r i show ?thesis
      by (subst readCoils_loop.simps, simp add: defined_Suc, subst readCoils_loop.simps) auto
  next
    case (Some b)
    let ?adu = "put_coil adu p i b"
    from Suc.prems i have fit: "p + i div 8 < length adu" using byte_index_less [of i q] by simp
    from law r i Some fit have step: "readCoils_loop S a q p i NO_ERROR st adu w =
        readCoils_loop S a q p (Suc i) NO_ERROR b ?adu w1"
      by (subst readCoils_loop.simps) (auto simp: mem_simps)
    have dd: "defined (coils (tab w)) (a + word_of_nat i) (q - i) \<longleftrightarrow>
        defined (coils (tab w)) (a + word_of_nat (Suc i)) (q - Suc i)"
      using Some i by (simp add: defined_Suc ac_simps)
    from Suc.hyps(1) [OF i(3), where adu = ?adu and w = w1 and st = b] Suc.prems law
    obtain adu' w' where IH: "readCoils_loop S a q p (Suc i) NO_ERROR b ?adu w1 =
        Some (status (coils (tab w)) (a + word_of_nat (Suc i)) (q - Suc i), adu', w')"
      "tab w' = tab w" "length adu' = length adu" "\<forall>j<p. adu' ! j = ?adu ! j"
      "defined (coils (tab w)) (a + word_of_nat (Suc i)) (q - Suc i) \<longrightarrow>
        (\<forall>k. coil_at adu' p k = (if Suc i \<le> k \<and> k < q then the (coils (tab w) (a + word_of_nat k))
          else coil_at ?adu p k))"
      by (auto simp del: of_nat_Suc)
    have "coil_at adu' p k = (if i \<le> k \<and> k < q then the (coils (tab w) (a + word_of_nat k)) else coil_at adu p k)"
      if "defined (coils (tab w)) (a + word_of_nat (Suc i)) (q - Suc i)" for k
      using IH(5) that Some i(1) fit by (cases "k = i") (auto simp del: of_nat_Suc)
    with IH(1-4) show ?thesis unfolding step dd by auto
  qed
qed

lemma readRegs_loop_spec:
  assumes "p + 2 * q \<le> length adu"
  shows "\<exists>adu' w'. readRegs_loop S a q p i NO_ERROR v adu w =
      Some (status (regs (tab w)) (a + word_of_nat i) (q - i), adu', w') \<and> tab w' = tab w \<and>
    length adu' = length adu \<and>
    (defined (regs (tab w)) (a + word_of_nat i) (q - i) \<longrightarrow>
      adu' = blit adu (p + 2 * i) (reg_bytes (fetch (regs (tab w)) (a + word_of_nat i) (q - i))))"
  using assms
proof (induction "q - i" arbitrary: i v adu w)
  case 0
  then show ?case by (subst readRegs_loop.simps) (auto simp: fetch_def)
next
  case (Suc n)
  then have i: "i < q" "q - i = Suc (q - Suc i)" "n = q - Suc i" by simp_all
  obtain e x w1 where r: "modbusServerReadReg S (a + word_of_nat i) v w = (e, x, w1)" by (metis prod_cases3)
  note law = read_reg [OF r]
  show ?case
  proof (cases "regs (tab w) (a + word_of_nat i)")
    case None
    with law r i Suc.prems show ?thesis
      by (subst readRegs_loop.simps, simp add: defined_Suc mem_simps, subst readRegs_loop.simps) auto
  next
    case (Some y)
    let ?adu = "blit adu (p + 2 * i) (be_bytes y)"
    from Suc.prems i have fit: "Suc (p + 2 * i) < length adu" by simp
    from law r i Some fit have step: "readRegs_loop S a q p i NO_ERROR v adu w =
        readRegs_loop S a q p (Suc i) NO_ERROR y ?adu w1"
      by (subst readRegs_loop.simps) (auto simp: mem_simps set16_blit)
    have dd: "defined (regs (tab w)) (a + word_of_nat i) (q - i) \<longleftrightarrow>
        defined (regs (tab w)) (a + word_of_nat (Suc i)) (q - Suc i)"
      "fetch (regs (tab w)) (a + word_of_nat i) (q - i) =
        y # fetch (regs (tab w)) (a + word_of_nat (Suc i)) (q - Suc i)"
      using Some i by (simp_all add: defined_Suc fetch_Suc ac_simps)
    have len: "length ?adu = length adu" using fit by simp
    have fit2: "p + 2 * q \<le> length ?adu" using len Suc.prems by simp
    from Suc.hyps(1) [OF i(3) fit2, of y w1] law len
    obtain adu' w' where IH: "readRegs_loop S a q p (Suc i) NO_ERROR y ?adu w1 =
        Some (status (regs (tab w)) (a + word_of_nat (Suc i)) (q - Suc i), adu', w')"
      "tab w' = tab w" "length adu' = length adu"
      "defined (regs (tab w)) (a + word_of_nat (Suc i)) (q - Suc i) \<longrightarrow>
        adu' = blit ?adu (p + 2 * Suc i) (reg_bytes (fetch (regs (tab w)) (a + word_of_nat (Suc i)) (q - Suc i)))"
      by (auto simp del: of_nat_Suc)
    have "blit ?adu (p + 2 * Suc i) (reg_bytes xs) = blit adu (p + 2 * i) (be_bytes y @ reg_bytes xs)"
      if "length xs = q - Suc i" for xs
      using blit_blit [of "p + 2 * i" "be_bytes y" "reg_bytes xs" adu] that Suc.prems i by simp
    with IH show ?thesis unfolding step dd by (auto simp del: of_nat_Suc)
  qed
qed

lemma loop_Suc:
  assumes "Suc n = q - i" shows "i < q" "q - i = Suc (q - Suc i)" "n = q - Suc i"
  using assms by simp_all

lemma writeCoils_loop_validate:
  assumes "p + (q + 7) div 8 \<le> length req"
  shows "\<exists>w'. writeCoils_loop S a q req p False i NO_ERROR w =
    Some (status (coils (tab w)) (a + word_of_nat i) (q - i), w') \<and> tab w' = tab w"
proof (induction "q - i" arbitrary: i w)
  case 0
  then show ?case by (subst writeCoils_loop.simps) auto
next
  case (Suc n)
  note i = loop_Suc [OF Suc.hyps(2)]
  have fit: "p + i div 8 < length req" using assms byte_index_less [OF i(1)] by simp
  obtain e w1 where r: "modbusServerWriteCoil S (a + word_of_nat i) (coil_at req p i) False w = (e, w1)"
    by (metis surj_pair)
  from Suc.hyps(1) [OF i(3), of w1] write_coil [OF r] r fit i(1) show ?case
    unfolding i(2)
    by (cases "coils (tab w) (a + word_of_nat i) = None"; subst writeCoils_loop.simps)
      (auto simp: mem_simps defined_Suc ac_simps writeCoils_loop.simps [of S a q req p False "Suc i" ERROR_INVALID_ADDRESS])
qed

lemma writeCoils_loop_commit:
  assumes "p + (q + 7) div 8 \<le> length req" and "defined (coils (tab w)) (a + word_of_nat i) (q - i)"
  shows "\<exists>w'. writeCoils_loop S a q req p True i NO_ERROR w = Some (NO_ERROR, w') \<and>
    tab w' = (tab w)\<lparr>coils := store (coils (tab w)) (a + word_of_nat i) (map (coil_at req p) [i..<q])\<rparr>"
  using assms(2)
proof (induction "q - i" arbitrary: i w)
  case 0
  then show ?case by (subst writeCoils_loop.simps) auto
next
  case (Suc n)
  note i = loop_Suc [OF Suc.hyps(2)]
  have fit: "p + i div 8 < length req" using assms(1) byte_index_less [OF i(1)] by simp
  obtain e w1 where r: "modbusServerWriteCoil S (a + word_of_nat i) (coil_at req p i) True w = (e, w1)"
    by (metis surj_pair)
  have d: "coils (tab w) (a + word_of_nat i) \<noteq> None"
    "defined (coils (tab w)) (a + word_of_nat (Suc i)) (q - Suc i)"
    using Suc.prems unfolding i(2) by (simp_all add: defined_Suc ac_simps)
  with write_coil [OF r] have w1: "e = NO_ERROR"
    "tab w1 = (tab w)\<lparr>coils := (coils (tab w))(a + word_of_nat i \<mapsto> coil_at req p i)\<rparr>" by simp_all
  with d(2) have "defined (coils (tab w1)) (a + word_of_nat (Suc i)) (q - Suc i)"
    by (simp add: defined_upd del: of_nat_Suc)
  from Suc.hyps(1) [OF i(3) this] w1 r fit i(1) show ?case
    by (subst writeCoils_loop.simps) (auto simp: mem_simps upt_conv_Cons ac_simps)
qed

lemma writeRegs_loop_validate:
  assumes "p + 2 * q \<le> length req"
  shows "\<exists>w'. writeRegs_loop S a q req p False i NO_ERROR w =
    Some (status (regs (tab w)) (a + word_of_nat i) (q - i), w') \<and> tab w' = tab w"
proof (induction "q - i" arbitrary: i w)
  case 0
  then show ?case by (subst writeRegs_loop.simps) auto
next
  case (Suc n)
  note i = loop_Suc [OF Suc.hyps(2)]
  have fit: "Suc (p + 2 * i) < length req" using assms i(1) by simp
  obtain e w1 where r: "modbusServerWriteReg S (a + word_of_nat i) (ntohs (get16 req (p + 2 * i))) False w = (e, w1)"
    by (metis surj_pair)
  from Suc.hyps(1) [OF i(3), of w1] write_reg [OF r] r fit i(1) show ?case
    unfolding i(2)
    by (cases "regs (tab w) (a + word_of_nat i) = None"; subst writeRegs_loop.simps)
      (auto simp: mem_simps defined_Suc ac_simps writeRegs_loop.simps [of S a q req p False "Suc i" ERROR_INVALID_ADDRESS])
qed

lemma writeRegs_loop_commit:
  assumes "p + 2 * q \<le> length req" and "defined (regs (tab w)) (a + word_of_nat i) (q - i)"
  shows "\<exists>w'. writeRegs_loop S a q req p True i NO_ERROR w = Some (NO_ERROR, w') \<and>
    tab w' = (tab w)\<lparr>regs := store (regs (tab w)) (a + word_of_nat i)
      (map (\<lambda>k. LOAD16BE req (p + 2 * k)) [i..<q])\<rparr>"
  using assms(2)
proof (induction "q - i" arbitrary: i w)
  case 0
  then show ?case by (subst writeRegs_loop.simps) auto
next
  case (Suc n)
  note i = loop_Suc [OF Suc.hyps(2)]
  have fit: "Suc (p + 2 * i) < length req" using assms(1) i(1) by simp
  obtain e w1 where r: "modbusServerWriteReg S (a + word_of_nat i) (ntohs (get16 req (p + 2 * i))) True w = (e, w1)"
    by (metis surj_pair)
  have d: "regs (tab w) (a + word_of_nat i) \<noteq> None"
    "defined (regs (tab w)) (a + word_of_nat (Suc i)) (q - Suc i)"
    using Suc.prems unfolding i(2) by (simp_all add: defined_Suc ac_simps)
  with write_reg [OF r] have w1: "e = NO_ERROR"
    "tab w1 = (tab w)\<lparr>regs := (regs (tab w))(a + word_of_nat i \<mapsto> LOAD16BE req (p + 2 * i))\<rparr>"
    by (simp_all add: ntohs_get16)
  with d(2) have "defined (regs (tab w1)) (a + word_of_nat (Suc i)) (q - Suc i)"
    by (simp add: defined_upd del: of_nat_Suc)
  from Suc.hyps(1) [OF i(3) this] w1 r fit i(1) show ?case
    by (subst writeRegs_loop.simps) (auto simp: mem_simps upt_conv_Cons ac_simps)
qed

text \<open>
  The two passes together: all or nothing.  The second pass starts with the status of the first, so
  it runs only after every address was accepted.
\<close>

lemma writeCoils_two_phase:
  assumes "p + (q + 7) div 8 \<le> length req"
  shows "\<exists>e w1 w2. writeCoils_loop S a q req p False 0 NO_ERROR w = Some (e, w1) \<and>
    writeCoils_loop S a q req p True 0 e w1 = Some (status (coils (tab w)) a q, w2) \<and>
    tab w2 = (if defined (coils (tab w)) a q
      then (tab w)\<lparr>coils := store (coils (tab w)) a (unpack req p q)\<rparr> else tab w)"
proof -
  from writeCoils_loop_validate [OF assms, of a 0 w] obtain w1 where
    1: "writeCoils_loop S a q req p False 0 NO_ERROR w = Some (status (coils (tab w)) a q, w1)" "tab w1 = tab w"
    by auto
  with writeCoils_loop_commit [OF assms, of w1 a 0] show ?thesis
    by (cases "defined (coils (tab w)) a q")
      (auto simp: unpack_def writeCoils_loop.simps [of S a q req p True 0 ERROR_INVALID_ADDRESS])
qed

lemma writeRegs_two_phase:
  assumes "p + 2 * q \<le> length req"
  shows "\<exists>e w1 w2. writeRegs_loop S a q req p False 0 NO_ERROR w = Some (e, w1) \<and>
    writeRegs_loop S a q req p True 0 e w1 = Some (status (regs (tab w)) a q, w2) \<and>
    tab w2 = (if defined (regs (tab w)) a q
      then (tab w)\<lparr>regs := store (regs (tab w)) a (bytes_regs req p q)\<rparr> else tab w)"
proof -
  from writeRegs_loop_validate [OF assms, of a 0 w] obtain w1 where
    1: "writeRegs_loop S a q req p False 0 NO_ERROR w = Some (status (regs (tab w)) a q, w1)" "tab w1 = tab w"
    by auto
  with writeRegs_loop_commit [OF assms, of w1 a 0] show ?thesis
    by (cases "defined (regs (tab w)) a q")
      (auto simp: bytes_regs_def writeRegs_loop.simps [of S a q req p True 0 ERROR_INVALID_ADDRESS])
qed

end

subsection \<open>The handlers refine the specification\<close>

context modbus_table
begin

lemma lock_unlock:
  obtains w' where "modbusServerUnlock S w = Some w'" and "tab w' = tab w"
  using tab_unlock by blast

lemma read_coils_serves:
  assumes "conn_wf c" and "7 \<le> requestAduPos c" and "pdu = take len (drop 7 (requestAdu c))" and "7 + len \<le> 260"
  shows "serves tab (tab w) (spec_read_bits (tab w) pdu) (modbusServerProcessReadCoilsReq S locals c 7 len w)"
proof -
  define q where "q = unat (ntohs (get16 (requestAdu c) 10))"
  note L = conn_wfD [OF assms(1)]
  note P = pdu_bytes [OF assms(3)]
  consider "len < 5" | "5 \<le> len" "q < 1 \<or> 2000 < q" | (ok) "5 \<le> len" "1 \<le> q" "q \<le> 2000" by linarith
  then show ?thesis
  proof cases
    case ok
    note nb = coil_bytes_le [OF ok(3)]
    let ?a = "ntohs (get16 (requestAdu c) 8)" and ?n = "(q + 7) div 8"
    let ?st = "if defined (coils (tab w)) ?a q then NO_ERROR else ERROR_INVALID_ADDRESS"
    have sp: "spec_read_bits (tab w) pdu = (if \<not> defined (coils (tab w)) ?a q then Exception 2
        else Reply (requestAdu c ! 7 # word_of_nat ?n # pack (fetch (coils (tab w)) ?a q)) (tab w))"
      using ok P(1-3) L assms(4) by (simp add: spec_read_bits_def q_def Let_def)
    have fit: "9 + ?n \<le> length (coils_header c q)" using L nb by simp
    from readCoils_loop_spec [OF fit, of ?a 0 "junk_state locals" "modbusServerLock S w"]
    obtain adu w1 where loop: "readCoils_loop S ?a q 9 0 NO_ERROR (junk_state locals) (coils_header c q)
        (modbusServerLock S w) = Some (?st, adu, w1)" and w1: "tab w1 = tab w"
      and adu: "length adu = 260" "\<forall>j<9. adu ! j = coils_header c q ! j"
      and bits: "defined (coils (tab w)) ?a q \<longrightarrow> (\<forall>k. coil_at adu 9 k =
        (if k < q then the (coils (tab w) (?a + word_of_nat k)) else coil_at (coils_header c q) 9 k))"
      using L by (auto simp: tab_lock)
    obtain w2 where u: "modbusServerUnlock S w1 = Some w2" "tab w2 = tab w" using lock_unlock w1 by metis
    note run = read_coils_unfold [OF assms(1) q_def [symmetric] ok, of S locals w]
    show ?thesis
    proof (cases "defined (coils (tab w)) ?a q")
      case True
      have "take ?n (drop 9 adu) = pack (fetch (coils (tab w)) ?a q)"
        using True bits adu(1) nb coils_header_padding [OF assms(1) ok(3)]
        by (intro pack_eqI) (auto simp: coil_at_def nth_fetch byte_index_less min_def less_mult_imp_div_less mult.commute)
      then have "take (2 + ?n) (drop 7 adu) =
          requestAdu c ! 7 # word_of_nat ?n # pack (fetch (coils (tab w)) ?a q)"
        using adu nb coils_header_byteCount [OF assms(1), of q] coils_header_function [OF assms(1), of q]
        by (subst take_Suc_Suc_drop7) simp_all
      then show ?thesis
        unfolding sp run
        using True loop u adu coils_header_byteCount [OF assms(1), of q] coil_bytes_word [OF ok(3)]
          serves_finish [where tab = tab, OF assms(1,2) adu(1) u(2), of "tab w" "2 + ?n"]
        by (simp add: mem_simps)
    next
      case False
      then show ?thesis unfolding sp run using loop u by (simp add: serves_address)
    qed
  qed (use P(1-3) L assms(1,4) in \<open>auto simp: spec_read_bits_def modbusServerProcessReadCoilsReq_def mem_simps
      Let_def q_def intro: serves_Malformed serves_value\<close>)
qed

lemma read_regs_serves:
  assumes "conn_wf c" and "7 \<le> requestAduPos c" and "pdu = take len (drop 7 (requestAdu c))" and "7 + len \<le> 260"
  shows "serves tab (tab w) (spec_read_regs (tab w) pdu) (modbusServerProcessReadHoldingRegsReq S locals c 7 len w)"
proof -
  define q where "q = unat (ntohs (get16 (requestAdu c) 10))"
  note L = conn_wfD [OF assms(1)]
  note P = pdu_bytes [OF assms(3)]
  consider "len < 5" | "5 \<le> len" "q < 1 \<or> 125 < q" | (ok) "5 \<le> len" "1 \<le> q" "q \<le> 125" by linarith
  then show ?thesis
  proof cases
    case ok
    let ?a = "ntohs (get16 (requestAdu c) 8)"
    let ?st = "if defined (regs (tab w)) ?a q then NO_ERROR else ERROR_INVALID_ADDRESS"
    have sp: "spec_read_regs (tab w) pdu = (if \<not> defined (regs (tab w)) ?a q then Exception 2
        else Reply (requestAdu c ! 7 # word_of_nat (q * 2) # reg_bytes (fetch (regs (tab w)) ?a q)) (tab w))"
      using ok P(1-3) L assms(4) by (simp add: spec_read_regs_def q_def Let_def del: of_nat_mult)
    have fit: "9 + 2 * q \<le> length (regs_header c q)" using L ok by simp
    from readRegs_loop_spec [OF fit, of ?a 0 "junk_value locals" "modbusServerLock S w"]
    obtain adu w1 where loop: "readRegs_loop S ?a q 9 0 NO_ERROR (junk_value locals) (regs_header c q)
        (modbusServerLock S w) = Some (?st, adu, w1)" and w1: "tab w1 = tab w" and len: "length adu = 260"
      and adu: "defined (regs (tab w)) ?a q \<longrightarrow>
        adu = blit (regs_header c q) 9 (reg_bytes (fetch (regs (tab w)) ?a q))"
      using L by (auto simp: tab_lock)
    obtain w2 where u: "modbusServerUnlock S w1 = Some w2" "tab w2 = tab w" using lock_unlock w1 by metis
    note run = read_regs_unfold [OF assms(1) q_def [symmetric] ok, of S locals w]
    show ?thesis
    proof (cases "defined (regs (tab w)) ?a q")
      case True
      have "take (2 + 2 * q) (drop 7 adu) = regs_header c q ! 7 # regs_header c q ! 8 #
          reg_bytes (fetch (regs (tab w)) ?a q)"
        using adu True fit L ok by (subst take_Suc_Suc_drop7) (simp_all add: nth_blit, simp add: blit_def)
      then have "take (2 + q * 2) (drop 7 adu) = requestAdu c ! 7 # word_of_nat (q * 2) #
          reg_bytes (fetch (regs (tab w)) ?a q)" and "adu ! 8 = word_of_nat (q * 2)"
        using adu True fit L by (simp_all add: regs_header_def nth_blit mult.commute)
      then show ?thesis
        unfolding sp run
        using True loop u len reg_bytes_word [of q] ok
          serves_finish [where tab = tab, OF assms(1,2) len u(2), of "tab w" "2 + q * 2"]
        by (simp add: mem_simps del: of_nat_mult)
    next
      case False
      then show ?thesis unfolding sp run using loop u by (simp add: serves_address)
    qed
  qed (use P(1-3) L assms(1,4) in \<open>auto simp: spec_read_regs_def modbusServerProcessReadHoldingRegsReq_def mem_simps
      Let_def q_def intro: serves_Malformed serves_value\<close>)
qed

lemma end_write_serves:
  assumes "conn_wf c" and "7 \<le> requestAduPos c" and "length adu = 260"
    and "if e = NO_ERROR then out = Reply (take len (drop 7 adu)) (tab w)
      else e = ERROR_INVALID_ADDRESS \<and> out = Exception 2 \<and> tab w = t"
  shows "serves tab t out (end_write S c adu len (e, w))"
proof -
  obtain w' where u: "modbusServerUnlock S w = Some w'" "tab w' = tab w" using lock_unlock by blast
  with assms(4) serves_finish [where tab = tab, OF assms(1,2,3) u(2)] show ?thesis
    by (auto simp: end_write_def serves_address split: if_splits)
qed

lemma write_single_coil_serves:
  assumes "conn_wf c" and "7 \<le> requestAduPos c" and "pdu = take len (drop 7 (requestAdu c))" and "7 + len \<le> 260"
  shows "serves tab (tab w) (spec_write_coil (tab w) pdu) (modbusServerProcessWriteSingleCoilReq S c 7 len w)"
proof -
  define v where "v = ntohs (get16 (requestAdu c) 10)"
  note L = conn_wfD [OF assms(1)]
  note P = pdu_bytes(1-3) [OF assms(3)]
  consider "len < 5" | "5 \<le> len" "v \<noteq> 0xFF00 \<and> v \<noteq> 0" | (ok) "5 \<le> len" "v = 0xFF00 \<or> v = 0" by linarith
  then show ?thesis
  proof cases
    case ok
    let ?a = "ntohs (get16 (requestAdu c) 8)"
    obtain e w1 where r: "modbusServerWriteCoil S ?a (v = 0xFF00) True (modbusServerLock S w) = (e, w1)"
      by (metis surj_pair)
    have "take 5 pdu = take 5 (drop 7 (echo5 c))" using ok assms(3) echo5_bytes [OF assms(1)] by simp
    then have "spec_write_coil (tab w) pdu = (if coils (tab w) ?a = None then Exception 2
        else Reply (take 5 (drop 7 (echo5 c))) ((tab w)\<lparr>coils := (coils (tab w))(?a \<mapsto> (v = 0xFF00))\<rparr>))"
      using ok P L assms(4) by (auto simp: spec_write_coil_def v_def Let_def)
    then show ?thesis
      unfolding write_single_coil_unfold [OF assms(1) v_def ok] r
      using write_coil [OF r] L assms(1,2) by (intro end_write_serves) (auto simp: tab_lock split: if_splits)
  qed (use P L assms(1,4) in \<open>auto simp: spec_write_coil_def modbusServerProcessWriteSingleCoilReq_def mem_simps
      Let_def v_def intro: serves_Malformed serves_value\<close>)
qed

lemma write_single_reg_serves:
  assumes "conn_wf c" and "7 \<le> requestAduPos c" and "pdu = take len (drop 7 (requestAdu c))" and "7 + len \<le> 260"
  shows "serves tab (tab w) (spec_write_reg (tab w) pdu) (modbusServerProcessWriteSingleRegReq S c 7 len w)"
proof -
  note L = conn_wfD [OF assms(1)]
  note P = pdu_bytes(1-3) [OF assms(3)]
  show ?thesis
  proof (cases "5 \<le> len")
    case True
    let ?a = "ntohs (get16 (requestAdu c) 8)" and ?v = "ntohs (get16 (requestAdu c) 10)"
    obtain e w1 where r: "modbusServerWriteReg S ?a ?v True (modbusServerLock S w) = (e, w1)"
      by (metis surj_pair)
    have "take 5 pdu = take 5 (drop 7 (echo5 c))" using True assms(3) echo5_bytes [OF assms(1)] by simp
    then have "spec_write_reg (tab w) pdu = (if regs (tab w) ?a = None then Exception 2
        else Reply (take 5 (drop 7 (echo5 c))) ((tab w)\<lparr>regs := (regs (tab w))(?a \<mapsto> ?v)\<rparr>))"
      using True P L assms(4) by (auto simp: spec_write_reg_def Let_def)
    then show ?thesis
      unfolding write_single_reg_unfold [OF assms(1) True] r
      using write_reg [OF r] L assms(1,2) by (intro end_write_serves) (auto simp: tab_lock split: if_splits)
  qed (use P L assms(1,4) in \<open>auto simp: spec_write_reg_def modbusServerProcessWriteSingleRegReq_def
      intro: serves_Malformed\<close>)
qed

lemma write_coils_serves:
  assumes "conn_wf c" and "7 \<le> requestAduPos c" and "pdu = take len (drop 7 (requestAdu c))" and "7 + len \<le> 260"
  shows "serves tab (tab w) (spec_write_coils (tab w) pdu) (modbusServerProcessWriteMultipleCoilsReq S c 7 len w)"
proof -
  define q where "q = unat (ntohs (get16 (requestAdu c) 10))"
  define n where "n = unat (requestAdu c ! 12)"
  note L = conn_wfD [OF assms(1)]
  note P = pdu_bytes [OF assms(3)]
  consider "len < 6 \<or> len < 6 + n" | "6 \<le> len" "6 + n \<le> len" "q < 1 \<or> 2000 < q \<or> n \<noteq> (q + 7) div 8"
    | (ok) "n = (q + 7) div 8" "6 + (q + 7) div 8 \<le> len" "1 \<le> q" "q \<le> 2000" by linarith
  then show ?thesis
  proof cases
    case ok
    let ?a = "ntohs (get16 (requestAdu c) 8)"
    have "take 5 pdu = take 5 (drop 7 (echo5 c))" using ok assms(3) echo5_bytes [OF assms(1)] by simp
    moreover have "unpack pdu 6 q = unpack (requestAdu c) 13 q"
      using P(5) [of 6 q] ok L(1) assms(4) by simp
    ultimately have sp: "spec_write_coils (tab w) pdu = (if \<not> defined (coils (tab w)) ?a q then Exception 2
        else Reply (take 5 (drop 7 (echo5 c)))
          ((tab w)\<lparr>coils := store (coils (tab w)) ?a (unpack (requestAdu c) 13 q)\<rparr>))"
      using ok P(1-3) L assms(4) by (simp add: spec_write_coils_def q_def n_def Let_def)
    have fit: "13 + (q + 7) div 8 \<le> length (requestAdu c)" using ok L assms(4) by simp
    from writeCoils_two_phase [OF fit, of ?a "modbusServerLock S w"] obtain e w1 w2 where
      "writeCoils_loop S ?a q (requestAdu c) 13 False 0 NO_ERROR (modbusServerLock S w) = Some (e, w1)"
      and "writeCoils_loop S ?a q (requestAdu c) 13 True 0 e w1 =
        Some (if defined (coils (tab w)) ?a q then NO_ERROR else ERROR_INVALID_ADDRESS, w2)"
      and "tab w2 = (if defined (coils (tab w)) ?a q
        then (tab w)\<lparr>coils := store (coils (tab w)) ?a (unpack (requestAdu c) 13 q)\<rparr> else tab w)"
      by (auto simp: tab_lock)
    then show ?thesis
      unfolding write_coils_unfold [OF assms(1) q_def [symmetric] ok(1) [unfolded n_def] ok(2-4)] sp
      using L assms(1,2) by (auto intro!: end_write_serves)
  qed (use P(1-3) L assms(1,4) in \<open>auto simp: spec_write_coils_def modbusServerProcessWriteMultipleCoilsReq_def
      mem_simps Let_def q_def n_def intro: serves_Malformed serves_value\<close>)
qed

lemma write_regs_serves:
  assumes "conn_wf c" and "7 \<le> requestAduPos c" and "pdu = take len (drop 7 (requestAdu c))" and "7 + len \<le> 260"
  shows "serves tab (tab w) (spec_write_regs (tab w) pdu) (modbusServerProcessWriteMultipleRegsReq S c 7 len w)"
proof -
  define q where "q = unat (ntohs (get16 (requestAdu c) 10))"
  define n where "n = unat (requestAdu c ! 12)"
  note L = conn_wfD [OF assms(1)]
  note P = pdu_bytes [OF assms(3)]
  consider "len < 6 \<or> len < 6 + n" | "6 \<le> len" "6 + n \<le> len" "q < 1 \<or> 123 < q \<or> n \<noteq> q * 2"
    | (ok) "n = q * 2" "6 + q * 2 \<le> len" "1 \<le> q" "q \<le> 123" by linarith
  then show ?thesis
  proof cases
    case ok
    let ?a = "ntohs (get16 (requestAdu c) 8)"
    have "take 5 pdu = take 5 (drop 7 (echo5 c))" using ok assms(3) echo5_bytes [OF assms(1)] by simp
    moreover have "bytes_regs pdu 6 q = bytes_regs (requestAdu c) 13 q"
      using P(4) [of 6 q] ok L(1) assms(4) by simp
    ultimately have sp: "spec_write_regs (tab w) pdu = (if \<not> defined (regs (tab w)) ?a q then Exception 2
        else Reply (take 5 (drop 7 (echo5 c)))
          ((tab w)\<lparr>regs := store (regs (tab w)) ?a (bytes_regs (requestAdu c) 13 q)\<rparr>))"
      using ok P(1-3) L assms(4) by (simp add: spec_write_regs_def q_def n_def Let_def)
    have fit: "13 + 2 * q \<le> length (requestAdu c)" using ok L assms(4) by simp
    from writeRegs_two_phase [OF fit, of ?a "modbusServerLock S w"] obtain e w1 w2 where
      "writeRegs_loop S ?a q (requestAdu c) 13 False 0 NO_ERROR (modbusServerLock S w) = Some (e, w1)"
      and "writeRegs_loop S ?a q (requestAdu c) 13 True 0 e w1 =
        Some (if defined (regs (tab w)) ?a q then NO_ERROR else ERROR_INVALID_ADDRESS, w2)"
      and "tab w2 = (if defined (regs (tab w)) ?a q
        then (tab w)\<lparr>regs := store (regs (tab w)) ?a (bytes_regs (requestAdu c) 13 q)\<rparr> else tab w)"
      by (auto simp: tab_lock)
    then show ?thesis
      unfolding write_regs_unfold [OF assms(1) q_def [symmetric] ok(1) [unfolded n_def] ok(2-4)] sp
      using L assms(1,2) by (auto intro!: end_write_serves)
  qed (use P(1-3) L assms(1,4) in \<open>auto simp: spec_write_regs_def modbusServerProcessWriteMultipleRegsReq_def
      mem_simps Let_def q_def n_def intro: serves_Malformed serves_value\<close>)
qed

lemma mask_write_reg_serves:
  assumes "conn_wf c" and "7 \<le> requestAduPos c" and "pdu = take len (drop 7 (requestAdu c))" and "7 + len \<le> 260"
  shows "serves tab (tab w) (spec_mask_reg (tab w) pdu) (modbusServerProcessMaskWriteRegReq S locals c 7 len w)"
proof -
  note L = conn_wfD [OF assms(1)]
  note P = pdu_bytes(1-3) [OF assms(3)]
  show ?thesis
  proof (cases "7 \<le> len")
    case True
    let ?a = "ntohs (get16 (requestAdu c) 8)" and ?am = "ntohs (get16 (requestAdu c) 10)"
      and ?om = "ntohs (get16 (requestAdu c) 12)"
    obtain e v w1 where r: "modbusServerReadReg S ?a (junk_value locals) (modbusServerLock S w) = (e, v, w1)"
      by (metis prod_cases3)
    obtain e2 w2 where r2: "modbusServerWriteReg S ?a (mask_reg v ?am ?om) True w1 = (e2, w2)"
      by (metis surj_pair)
    have "take 7 pdu = take 7 (drop 7 (echo7 c))" using True assms(3) echo7_bytes [OF assms(1)] by simp
    then have sp: "spec_mask_reg (tab w) pdu = (case regs (tab w) ?a of None \<Rightarrow> Exception 2
        | Some v \<Rightarrow> Reply (take 7 (drop 7 (echo7 c)))
            ((tab w)\<lparr>regs := (regs (tab w))(?a \<mapsto> mask_reg v ?am ?om)\<rparr>))"
      using True P L assms(4) by (auto simp: spec_mask_reg_def mask_reg_def Let_def split: option.splits)
    have "mask_write S (junk_value locals) ?a ?am ?om (modbusServerLock S w) =
        (if e = NO_ERROR then (e2, w2) else (e, w1))"
      by (simp add: mask_write_def r r2)
    then show ?thesis
      unfolding mask_write_reg_unfold [OF assms(1) True] sp
      using read_reg [OF r] write_reg [OF r2] L assms(1,2)
      by (cases "regs (tab w) ?a") (auto intro!: end_write_serves simp: tab_lock)
  qed (use P L assms(1,4) in \<open>auto simp: spec_mask_reg_def modbusServerProcessMaskWriteRegReq_def
      intro: serves_Malformed\<close>)
qed

lemma read_write_regs_serves:
  assumes "conn_wf c" and "7 \<le> requestAduPos c" and "pdu = take len (drop 7 (requestAdu c))" and "7 + len \<le> 260"
    and full: "len < 10 \<or> len < 6 + unat (requestAdu c ! 16) \<or> 10 + unat (requestAdu c ! 16) \<le> len"
  shows "serves tab (tab w) (read_then_write_regs (tab w) pdu)
    (modbusServerProcessReadWriteMultipleRegsReq S locals c 7 len w)"
proof -
  define rq where "rq = unat (ntohs (get16 (requestAdu c) 10))"
  define wq where "wq = unat (ntohs (get16 (requestAdu c) 14))"
  define n where "n = unat (requestAdu c ! 16)"
  note L = conn_wfD [OF assms(1)]
  note P = pdu_bytes [OF assms(3)]
  consider "len < 10 \<or> len < 6 + n"
    | "10 \<le> len" "10 + n \<le> len" "rq < 1 \<or> 125 < rq \<or> wq < 1 \<or> 121 < wq \<or> n \<noteq> wq * 2"
    | (ok) "n = wq * 2" "10 + wq * 2 \<le> len" "10 \<le> len" "1 \<le> rq" "rq \<le> 125" "1 \<le> wq" "wq \<le> 121"
    using full unfolding n_def by linarith
  then show ?thesis
  proof cases
    case ok
    let ?ra = "ntohs (get16 (requestAdu c) 8)" and ?wa = "ntohs (get16 (requestAdu c) 12)"
    let ?R = "defined (regs (tab w)) ?ra rq" and ?W = "defined (regs (tab w)) ?wa wq"
    let ?t = "(tab w)\<lparr>regs := store (regs (tab w)) ?wa (bytes_regs (requestAdu c) 17 wq)\<rparr>"
    have "bytes_regs pdu 10 wq = bytes_regs (requestAdu c) 17 wq"
      using P(4) [of 10 wq] ok L(1) assms(4) by simp
    then have sp: "read_then_write_regs (tab w) pdu = (if \<not> (?R \<and> ?W) then Exception 2
        else Reply (requestAdu c ! 7 # word_of_nat (rq * 2) # reg_bytes (fetch (regs (tab w)) ?ra rq)) ?t)"
      using ok P(1-3) L assms(4)
      by (simp add: read_then_write_regs_def rq_def wq_def n_def Let_def del: of_nat_mult)
    have fit: "9 + 2 * rq \<le> length (regs_header c rq)" "17 + 2 * wq \<le> length (requestAdu c)"
      using L ok assms(4) by simp_all
    from readRegs_loop_spec [OF fit(1), of ?ra 0 "junk_value locals" "modbusServerLock S w"]
    obtain adu w1 where loop: "readRegs_loop S ?ra rq 9 0 NO_ERROR (junk_value locals) (regs_header c rq)
        (modbusServerLock S w) = Some (if ?R then NO_ERROR else ERROR_INVALID_ADDRESS, adu, w1)"
      and w1: "tab w1 = tab w" and len: "length adu = 260"
      and adu: "?R \<longrightarrow> adu = blit (regs_header c rq) 9 (reg_bytes (fetch (regs (tab w)) ?ra rq))"
      using L by (auto simp: tab_lock)
    from writeRegs_two_phase [OF fit(2), of ?wa w1] obtain e w2 w3 where
      two: "writeRegs_loop S ?wa wq (requestAdu c) 17 False 0 NO_ERROR w1 = Some (e, w2)"
        "writeRegs_loop S ?wa wq (requestAdu c) 17 True 0 e w2 =
          Some (if ?W then NO_ERROR else ERROR_INVALID_ADDRESS, w3)"
      and w3: "tab w3 = (if ?W then ?t else tab w)"
      by (auto simp: w1)
    have len': "6 + wq * 2 \<le> len" using ok(2) by simp
    note run = read_write_regs_unfold [OF assms(1) rq_def [symmetric] wq_def [symmetric]
        ok(1) [unfolded n_def] len' ok(3-7), of S locals w]
    have stop: "writeRegs_loop S ?wa wq (requestAdu c) 17 b 0 ERROR_INVALID_ADDRESS w =
        Some (ERROR_INVALID_ADDRESS, w)" for b w
      by (subst writeRegs_loop.simps) simp
    consider "\<not> ?R" | "?R" "\<not> ?W" | (both) "?R" "?W" by blast
    then show ?thesis
    proof cases
      case 1
      obtain w4 where "modbusServerUnlock S w1 = Some w4" "tab w4 = tab w" using lock_unlock w1 by metis
      with 1 show ?thesis unfolding sp run using loop by (simp add: stop serves_address)
    next
      case 2
      obtain w4 where "modbusServerUnlock S w3 = Some w4" "tab w4 = tab w" using lock_unlock w3 2 by metis
      with 2 show ?thesis unfolding sp run using loop two by (simp add: serves_address)
    next
      case both
      obtain w4 where u: "modbusServerUnlock S w3 = Some w4" "tab w4 = ?t" using lock_unlock w3 both by metis
      have "take (2 + 2 * rq) (drop 7 adu) = regs_header c rq ! 7 # regs_header c rq ! 8 #
          reg_bytes (fetch (regs (tab w)) ?ra rq)"
        using adu both fit L ok by (subst take_Suc_Suc_drop7) (simp_all add: nth_blit, simp add: blit_def)
      then have "take (2 + rq * 2) (drop 7 adu) = requestAdu c ! 7 # word_of_nat (rq * 2) #
          reg_bytes (fetch (regs (tab w)) ?ra rq)" and "adu ! 8 = word_of_nat (rq * 2)"
        using adu both fit L by (simp_all add: regs_header_def nth_blit mult.commute)
      then show ?thesis
        unfolding sp run
        using both loop two u len reg_bytes_word [of rq] ok
          serves_finish [where tab = tab, OF assms(1,2) len u(2), of "tab w" "2 + rq * 2"]
        by (simp add: mem_simps del: of_nat_mult)
    qed
  next
    case 1
    have n: "n = unat (pdu ! 9)" if "10 \<le> len" using P(1,2) L that assms(4) by (simp add: n_def)
    from 1 have "read_then_write_regs (tab w) pdu = Malformed"
      using n P(1) L assms(4) by (auto simp: read_then_write_regs_def)
    moreover from 1 have "modbusServerProcessReadWriteMultipleRegsReq S locals c 7 len w =
        Some (ERROR_INVALID_LENGTH, c, w)"
      using L n_def by (auto simp: modbusServerProcessReadWriteMultipleRegsReq_def mem_simps)
    ultimately show ?thesis by (simp add: serves_Malformed)
  next
    case 2
    from 2 have "read_then_write_regs (tab w) pdu = Exception 3"
      using P(1-3) L assms(4) by (simp add: read_then_write_regs_def rq_def wq_def n_def Let_def)
    moreover from 2 have "modbusServerProcessReadWriteMultipleRegsReq S locals c 7 len w =
        Some (ERROR_INVALID_VALUE, c, w)"
      using L unfolding rq_def wq_def n_def
      by (auto simp: modbusServerProcessReadWriteMultipleRegsReq_def mem_simps Let_def)
    ultimately show ?thesis by (simp add: serves_value)
  qed
qed

lemma dispatch_read_write:
  assumes "conn_wf c" and "7 \<le> requestAduPos c" and "7 < requestAduLen c"
    and "request_pdu c ! 0 = 23" and "\<not> truncated_read_write (request_pdu c)"
  shows "serves tab (tab w) (read_then_write_regs (tab w) (request_pdu c))
    (modbusServerDispatch S locals (requestAdu c ! 7) c 7 (requestAduLen c - 7) w)"
proof -
  note L = conn_wfD [OF assms(1)]
  let ?len = "requestAduLen c - 7"
  have pdu: "request_pdu c = take ?len (drop 7 (requestAdu c))" and fit: "7 + ?len \<le> 260"
    using L assms(3) by (simp_all add: request_pdu_def)
  have P: "length (request_pdu c) = ?len" "\<And>i. i < ?len \<Longrightarrow> request_pdu c ! i = requestAdu c ! (7 + i)"
    using pdu_bytes(1,2) [OF pdu] fit L by simp_all
  have f: "requestAdu c ! 7 = 23" using P(2) [of 0] assms(3,4) by simp
  have "?len < 10 \<or> ?len < 6 + unat (requestAdu c ! 16) \<or> 10 + unat (requestAdu c ! 16) \<le> ?len"
    using assms(4,5) P(1) P(2) [of 9] unfolding truncated_read_write_def by (cases "?len < 10") auto
  from read_write_regs_serves [OF assms(1,2) pdu fit this, of w locals]
  show ?thesis by (simp add: modbusServerDispatch_def f)
qed

lemma dispatch_serves:
  assumes "conn_wf c" and "7 \<le> requestAduPos c" and "7 < requestAduLen c"
    and "\<not> truncated_read_write (request_pdu c)" and "\<not> overlapping_read_write (request_pdu c)"
  shows "serves tab (tab w) (spec (tab w) (request_pdu c))
    (modbusServerDispatch S locals (requestAdu c ! 7) c 7 (requestAduLen c - 7) w)"
proof -
  note L = conn_wfD [OF assms(1)]
  let ?len = "requestAduLen c - 7"
  have pdu: "request_pdu c = take ?len (drop 7 (requestAdu c))" and fit: "7 + ?len \<le> 260"
    using L assms(3) by (simp_all add: request_pdu_def)
  have P: "length (request_pdu c) = ?len" "\<And>i. i < ?len \<Longrightarrow> request_pdu c ! i = requestAdu c ! (7 + i)"
    using pdu_bytes(1,2) [OF pdu] fit L by simp_all
  have f: "request_pdu c ! 0 = requestAdu c ! 7" and ne: "request_pdu c \<noteq> []"
    using P assms(3) by auto
  note H = assms(1,2) pdu fit
  show ?thesis
  proof (cases "requestAdu c ! 7 = 23")
    case True
    then have "spec (tab w) (request_pdu c) = read_then_write_regs (tab w) (request_pdu c)"
      using read_then_write_spec [OF assms(5)] f ne by (simp add: spec_def)
    with dispatch_read_write [OF assms(1-3) _ assms(4), of w locals] True f show ?thesis by simp
  next
    case False
    then show ?thesis
      unfolding modbusServerDispatch_def spec_def Let_def f if_not_P [OF ne]
      using read_coils_serves [OF H] read_regs_serves [OF H] write_single_coil_serves [OF H]
        write_single_reg_serves [OF H] write_coils_serves [OF H] write_regs_serves [OF H]
        mask_write_reg_serves [OF H]
      by (simp add: read_discrete_inputs_eq read_input_regs_eq)
        (simp add: serves_def is_exception_def modbusServerTranslateExceptionCode_def)
  qed
qed

lemma callbacks_ok: "callbacks_ok S"
proof -
  obtain w' where "modbusServerUnlock S undefined = Some w'" using tab_unlock by blast
  then show ?thesis by (auto simp: callbacks_ok_def modbusServerUnlock_def split: option.splits)
qed

lemma serves_answered:
  assumes "conn_wf c" and "7 \<le> requestAduPos c" and "7 < requestAduLen c"
    and "serves tab (tab w) out (modbusServerDispatch S locals (requestAdu c ! 7) c 7 (requestAduLen c - 7) w)"
  shows "answered tab (tab w) out (request_pdu c) (modbusServerProcessRequest S locals c w)"
proof -
  note L = conn_wfD [OF assms(1)]
  let ?n = "requestAduLen c - 7"
  from assms(4) obtain e c1 w1 where d: "modbusServerDispatch S locals (requestAdu c ! 7) c 7 ?n w = Some (e, c1, w1)"
    and sv: "case out of
        Malformed \<Rightarrow> e = ERROR_INVALID_LENGTH \<and> tab w1 = tab w
      | Exception x \<Rightarrow> is_exception e \<and> modbusServerTranslateExceptionCode e = x \<and> tab w1 = tab w
      | Reply rsp t' \<Rightarrow> e = NO_ERROR \<and> tab w1 = t' \<and> response_pdu c1 = rsp"
    unfolding serves_def by auto
  have "handler_ok c (Some (e, c1, w1))"
    unfolding d [symmetric] using assms(1,2) callbacks_ok L by (intro dispatch_ok) simp_all
  then have ok: "e \<noteq> NO_ERROR \<Longrightarrow> \<exists>adu. length adu = 260 \<and> c1 = c\<lparr>responseAdu := adu\<rparr>"
    by (auto simp: handler_ok_def)
  have f: "request_pdu c ! 0 = requestAdu c ! 7" using L assms(3) by (simp add: request_pdu_def)
  have run: "modbusServerProcessRequest S locals c w =
      (if is_exception e then modbusServerFormatExceptionResp c1 (requestAdu c ! 7)
         (modbusServerTranslateExceptionCode e) w1 else Some (e, c1, w1))"
    using assms(3) L(1) d by (simp add: modbusServerProcessRequest_def modbusServerGetRequestPdu_def mem_simps)
  show ?thesis
  proof (cases "is_exception e")
    case True
    then have ne: "e \<noteq> NO_ERROR" "e \<noteq> ERROR_INVALID_LENGTH" by (auto simp: is_exception_def)
    with sv True obtain x where x: "out = Exception x"
      "modbusServerTranslateExceptionCode e = x" "tab w1 = tab w"
      by (auto split: outcome.splits)
    from ok ne obtain adu where c1: "c1 = c\<lparr>responseAdu := adu\<rparr>" and len: "length adu = 260" by auto
    have wf: "conn_wf c1" "7 \<le> requestAduPos c1" "length (responseAdu c1) = 260"
      using c1 len assms(1,2) by (simp_all add: conn_wf_updateI)
    let ?adu = "(responseAdu c1)[7 := MODBUS_EXCEPTION_MASK OR requestAdu c ! 7, 8 := x]"
    have bytes: "take 2 (drop 7 ?adu) = [MODBUS_EXCEPTION_MASK OR requestAdu c ! 7, x]"
      using wf(3) by (intro nth_equalityI) (auto simp: less_Suc_eq numeral_2_eq_2)
    show ?thesis
      unfolding run if_P [OF True] exception_resp_eq [OF wf(1,2)] x
      using wf bytes f x(3)
      by (simp add: finish_response_eq answered_def response_pdu_def take_drop_mbap_reply del: take_drop)
  next
    case False
    then show ?thesis unfolding run using sv by (auto simp: answered_def split: outcome.splits)
  qed
qed

lemma process_request_answered:
  assumes "conn_wf c" and "7 \<le> requestAduPos c"
    and "\<not> truncated_read_write (request_pdu c)" and "\<not> overlapping_read_write (request_pdu c)"
  shows "answered tab (tab w) (spec (tab w) (request_pdu c)) (request_pdu c)
    (modbusServerProcessRequest S locals c w)"
proof (cases "requestAduLen c \<le> 7")
  case True
  then show ?thesis
    by (simp add: modbusServerProcessRequest_def modbusServerGetRequestPdu_def request_pdu_def spec_def answered_def)
next
  case False
  then show ?thesis using serves_answered [OF assms(1,2) _ dispatch_serves [OF assms(1,2) _ assms(3,4)]] by simp
qed

text \<open>A read/write request that the specification answers returns the registers as they were before its write.\<close>

lemma read_write_old_values:
  assumes "conn_wf c" and "7 \<le> requestAduPos c" and "\<not> truncated_read_write pdu" and "request_pdu c = pdu"
    and "pdu ! 0 = 23" and "spec (tab w) pdu = Reply rsp t"
  shows "\<exists>c' w'. modbusServerProcessRequest S locals c w = Some (NO_ERROR, c', w') \<and> tab w' = t \<and>
    response_pdu c' = 23 # word_of_nat (unat (LOAD16BE pdu 3) * 2) #
      reg_bytes (fetch (regs (tab w)) (LOAD16BE pdu 1) (unat (LOAD16BE pdu 3)))"
proof -
  from assms(6) have "pdu \<noteq> []" by (auto simp: spec_def)
  with assms(4) have long: "7 < requestAduLen c" by (auto simp: request_pdu_def)
  have "spec_read_write_regs (tab w) pdu = Reply rsp t" using assms(5,6) \<open>pdu \<noteq> []\<close> by (simp add: spec_def)
  then have "read_then_write_regs (tab w) pdu = Reply (23 # word_of_nat (unat (LOAD16BE pdu 3) * 2) #
      reg_bytes (fetch (regs (tab w)) (LOAD16BE pdu 1) (unat (LOAD16BE pdu 3)))) t"
    using assms(5)
    by (auto simp: spec_read_write_regs_def read_then_write_regs_def Let_def simp del: One_nat_def split: if_splits)
  with serves_answered [OF assms(1,2) long dispatch_read_write [OF assms(1,2) long], of w locals] assms(3-5)
  show ?thesis by (auto simp: answered_def)
qed

text \<open>
  The read/write handler compares the length with its announced one four bytes too late: a request
  short by up to four bytes is served as if it were complete, with whatever the buffer holds.
\<close>

lemma read_write_length_irrelevant:
  assumes "conn_wf c" and "10 \<le> len" and "6 + unat (requestAdu c ! 16) \<le> len"
  shows "modbusServerProcessReadWriteMultipleRegsReq S locals c 7 len w =
    modbusServerProcessReadWriteMultipleRegsReq S locals c 7 (10 + unat (requestAdu c ! 16)) w"
proof -
  have "\<not> len - 6 < unat (requestAdu c ! 16)" using assms(3) by simp
  then show ?thesis
    using assms(2) conn_wfD [OF assms(1)]
    by (simp add: modbusServerProcessReadWriteMultipleRegsReq_def mem_simps cong: if_cong)
qed

lemma read_write_regs_truncated:
  assumes "conn_wf c" and "7 \<le> requestAduPos c" and "10 \<le> len" and "6 + unat (requestAdu c ! 16) \<le> len"
    and "unat (requestAdu c ! 16) \<le> 242"
  shows "serves tab (tab w) (read_then_write_regs (tab w)
      (take (10 + unat (requestAdu c ! 16)) (drop 7 (requestAdu c))))
    (modbusServerProcessReadWriteMultipleRegsReq S locals c 7 len w)"
  unfolding read_write_length_irrelevant [OF assms(1,3,4)]
  by (rule read_write_regs_serves [OF assms(1,2) refl]) (use assms(5) in simp_all)

text \<open>All or nothing, from the specification of the two handlers.\<close>

lemma write_regs_atomic:
  assumes "conn_wf c" and "7 \<le> requestAduPos c" and "7 + len \<le> 260"
    and run: "modbusServerProcessWriteMultipleRegsReq S c 7 len w = Some (e, c', w')"
  shows "tab w' = (if e = NO_ERROR
    then (tab w)\<lparr>regs := store (regs (tab w)) (LOAD16BE (requestAdu c) 8)
      (bytes_regs (requestAdu c) 13 (unat (LOAD16BE (requestAdu c) 10)))\<rparr> else tab w)"
proof -
  define pdu where "pdu = take len (drop 7 (requestAdu c))"
  have fit: "7 + len \<le> length (requestAdu c)" using assms conn_wfD [OF assms(1)] by simp
  note P = pdu_bytes [OF pdu_def fit]
  from write_regs_serves [OF assms(1,2) pdu_def assms(3), of w] run have sv:
    "case spec_write_regs (tab w) pdu of
        Malformed \<Rightarrow> e = ERROR_INVALID_LENGTH \<and> tab w' = tab w
      | Exception x \<Rightarrow> is_exception e \<and> modbusServerTranslateExceptionCode e = x \<and> tab w' = tab w
      | Reply rsp t' \<Rightarrow> e = NO_ERROR \<and> tab w' = t' \<and> response_pdu c' = rsp"
    by (simp add: serves_def)
  show ?thesis
  proof (cases "spec_write_regs (tab w) pdu")
    case (Reply rsp t')
    then have "6 \<le> len" "6 + unat (LOAD16BE pdu 3) * 2 \<le> len"
      "t' = (tab w)\<lparr>regs := store (regs (tab w)) (LOAD16BE pdu 1) (bytes_regs pdu 6 (unat (LOAD16BE pdu 3)))\<rparr>"
      using P(1) by (auto simp: spec_write_regs_def Let_def split: if_splits)
    with sv Reply P(3) [of 1] P(3) [of 3] P(4) [of 6 "unat (LOAD16BE pdu 3)"] show ?thesis
      by (simp add: ntohs_get16)
  qed (use sv in \<open>auto simp: is_exception_def\<close>)
qed

lemma write_coils_atomic:
  assumes "conn_wf c" and "7 \<le> requestAduPos c" and "7 + len \<le> 260"
    and run: "modbusServerProcessWriteMultipleCoilsReq S c 7 len w = Some (e, c', w')"
  shows "tab w' = (if e = NO_ERROR
    then (tab w)\<lparr>coils := store (coils (tab w)) (LOAD16BE (requestAdu c) 8)
      (unpack (requestAdu c) 13 (unat (LOAD16BE (requestAdu c) 10)))\<rparr> else tab w)"
proof -
  define pdu where "pdu = take len (drop 7 (requestAdu c))"
  have fit: "7 + len \<le> length (requestAdu c)" using assms conn_wfD [OF assms(1)] by simp
  note P = pdu_bytes [OF pdu_def fit]
  from write_coils_serves [OF assms(1,2) pdu_def assms(3), of w] run have sv:
    "case spec_write_coils (tab w) pdu of
        Malformed \<Rightarrow> e = ERROR_INVALID_LENGTH \<and> tab w' = tab w
      | Exception x \<Rightarrow> is_exception e \<and> modbusServerTranslateExceptionCode e = x \<and> tab w' = tab w
      | Reply rsp t' \<Rightarrow> e = NO_ERROR \<and> tab w' = t' \<and> response_pdu c' = rsp"
    by (simp add: serves_def)
  show ?thesis
  proof (cases "spec_write_coils (tab w) pdu")
    case (Reply rsp t')
    then have "6 \<le> len" "6 + (unat (LOAD16BE pdu 3) + 7) div 8 \<le> len"
      "t' = (tab w)\<lparr>coils := store (coils (tab w)) (LOAD16BE pdu 1) (unpack pdu 6 (unat (LOAD16BE pdu 3)))\<rparr>"
      using P(1) by (auto simp: spec_write_coils_def Let_def split: if_splits)
    with sv Reply P(3) [of 1] P(3) [of 3] P(5) [of 6 "unat (LOAD16BE pdu 3)"] show ?thesis
      by (simp add: ntohs_get16)
  qed (use sv in \<open>auto simp: is_exception_def\<close>)
qed

end

end
