(* ===== verification/ServerFrame.thy ===== *)
theory ServerFrame
  imports ModbusServerSafe
begin

text \<open>
  What a request cannot touch.  The locale \<open>callback_frame\<close> says that the user callbacks leave a part
  \<open>f\<close> of the world alone; under it the whole processing of a request does.  It is how the sockets,
  which the callbacks do not use, are known to be the same before and after a request.
\<close>

locale callback_frame =
  fixes S :: "'w ModbusServerSettings" and f :: "'w \<Rightarrow> 'x"
  assumes lock: "f (modbusServerLock S w) = f w"
    and unlock: "modbusServerUnlock S w = Some w' \<Longrightarrow> f w' = f w"
    and read_coil: "modbusServerReadCoil S a s w = (e, s', w') \<Longrightarrow> f w' = f w"
    and read_reg: "modbusServerReadReg S a v w = (e, v', w') \<Longrightarrow> f w' = f w"
    and write_coil: "modbusServerWriteCoil S a s b w = (e, w') \<Longrightarrow> f w' = f w"
    and write_reg: "modbusServerWriteReg S a v b w = (e, w') \<Longrightarrow> f w' = f w"
begin

definition framed :: "'w \<Rightarrow> 'w handler_result \<Rightarrow> bool" where
  "framed w r \<longleftrightarrow> (\<forall>e c w'. r = Some (e, c, w') \<longrightarrow> f w' = f w)"

lemma framed_Some [simp]: "framed w (Some (e, c, w')) \<longleftrightarrow> f w' = f w"
  by (auto simp: framed_def)

lemma framed_bind:
  "(\<And>x. r = Some x \<Longrightarrow> framed w (g x)) \<Longrightarrow> framed w (Option.bind r g)"
  by (auto simp: framed_def bind_eq_Some_conv)

lemma callback_frames:
  "f (snd (snd (modbusServerReadCoil S a s w))) = f w" "f (snd (snd (modbusServerReadReg S a v w))) = f w"
  "f (snd (modbusServerWriteCoil S a s b w)) = f w" "f (snd (modbusServerWriteReg S a v b w)) = f w"
  using read_coil [of a s w] read_reg [of a v w] write_coil [of a s b w] write_reg [of a v b w]
  by (metis prod.collapse)+

lemma framed_if: "(b \<Longrightarrow> framed w x) \<Longrightarrow> (\<not> b \<Longrightarrow> framed w y) \<Longrightarrow> framed w (if b then x else y)"
  by simp

lemma framed_finish [simp]: "framed w (finish_response c adu n w') \<longleftrightarrow> f w' = f w \<or> finish_response c adu n w' = None"
  by (auto simp: finish_response_def framed_def bind_eq_Some_conv)

text \<open>The loops, by the distance to their bound.\<close>

lemma readCoils_loop_frame:
  "readCoils_loop S a q p i e st adu w = Some (e', adu', w') \<Longrightarrow> f w' = f w"
proof (induction "q - i" arbitrary: i e st adu w)
  case 0
  then show ?case by (simp add: readCoils_loop.simps [of S a q])
next
  case (Suc n)
  obtain e1 s1 w1 where r: "modbusServerReadCoil S (a + word_of_nat i) st w = (e1, s1, w1)" by (metis prod_cases3)
  from Suc(1) [of "Suc i" e1 s1 _ w1] Suc(2,3) r read_coil [OF r] show ?case
    by (simp add: readCoils_loop.simps [of S a q p i] bind_eq_Some_conv split: if_splits) fastforce+
qed

lemma readRegs_loop_frame:
  "readRegs_loop S a q p i e v adu w = Some (e', adu', w') \<Longrightarrow> f w' = f w"
proof (induction "q - i" arbitrary: i e v adu w)
  case 0
  then show ?case by (simp add: readRegs_loop.simps [of S a q])
next
  case (Suc n)
  obtain e1 v1 w1 where r: "modbusServerReadReg S (a + word_of_nat i) v w = (e1, v1, w1)" by (metis prod_cases3)
  from Suc(1) [of "Suc i" e1 v1 _ w1] Suc(2,3) r read_reg [OF r] show ?case
    by (simp add: readRegs_loop.simps [of S a q p i] bind_eq_Some_conv split: if_splits) fastforce
qed

lemma writeCoils_loop_frame:
  "writeCoils_loop S a q req p b i e w = Some (e', w') \<Longrightarrow> f w' = f w"
proof (induction "q - i" arbitrary: i e w)
  case 0
  then show ?case by (simp add: writeCoils_loop.simps [of S a q])
next
  case (Suc n)
  show ?case
  proof (cases "e = NO_ERROR")
    case True
    have "i < q" using Suc(2) by simp
    with True Suc(3) obtain x where x: "MODBUS_TEST_COIL req p i = Some x"
      by (simp add: writeCoils_loop.simps [of S a q req p b i] bind_eq_Some_conv) blast
    obtain e1 w1 where r: "modbusServerWriteCoil S (a + word_of_nat i) x b w = (e1, w1)" by (metis surj_pair)
    have "writeCoils_loop S a q req p b (Suc i) e1 w1 = Some (e', w')"
      using \<open>i < q\<close> Suc(3) True x r by (simp add: writeCoils_loop.simps [of S a q req p b i])
    with Suc(1) [of "Suc i" e1 w1] Suc(2) write_coil [OF r] show ?thesis by simp
  qed (use Suc(3) in \<open>simp add: writeCoils_loop.simps [of S a q req p b i]\<close>)
qed

lemma writeRegs_loop_frame:
  "writeRegs_loop S a q req p b i e w = Some (e', w') \<Longrightarrow> f w' = f w"
proof (induction "q - i" arbitrary: i e w)
  case 0
  then show ?case by (simp add: writeRegs_loop.simps [of S a q])
next
  case (Suc n)
  show ?case
  proof (cases "e = NO_ERROR")
    case True
    have "i < q" using Suc(2) by simp
    with True Suc(3) obtain x where x: "rd16 req (p + 2 * i) = Some x"
      by (simp add: writeRegs_loop.simps [of S a q req p b i] bind_eq_Some_conv) blast
    obtain e1 w1 where r: "modbusServerWriteReg S (a + word_of_nat i) (ntohs x) b w = (e1, w1)" by (metis surj_pair)
    have "writeRegs_loop S a q req p b (Suc i) e1 w1 = Some (e', w')"
      using \<open>i < q\<close> Suc(3) True x r by (simp add: writeRegs_loop.simps [of S a q req p b i])
    with Suc(1) [of "Suc i" e1 w1] Suc(2) write_reg [OF r] show ?thesis by simp
  qed (use Suc(3) in \<open>simp add: writeRegs_loop.simps [of S a q req p b i]\<close>)
qed

lemmas loop_frames = readCoils_loop_frame readRegs_loop_frame writeCoils_loop_frame writeRegs_loop_frame

text \<open>A handler: every world it passes on was left by a callback.\<close>

lemmas handler_frame_intros = framed_bind framed_if

lemma read_coils_frame: "framed w (modbusServerProcessReadCoilsReq S locals c p n w)"
  unfolding modbusServerProcessReadCoilsReq_def Let_def split_def
  by (intro handler_frame_intros) (auto dest!: unlock loop_frames simp: lock callback_frames)

lemma read_discrete_inputs_frame: "framed w (modbusServerProcessReadDiscreteInputsReq S locals c p n w)"
  unfolding modbusServerProcessReadDiscreteInputsReq_def Let_def split_def
  by (intro handler_frame_intros) (auto dest!: unlock loop_frames simp: lock callback_frames)

lemma read_holding_regs_frame: "framed w (modbusServerProcessReadHoldingRegsReq S locals c p n w)"
  unfolding modbusServerProcessReadHoldingRegsReq_def Let_def split_def
  by (intro handler_frame_intros) (auto dest!: unlock loop_frames simp: lock callback_frames)

lemma read_input_regs_frame: "framed w (modbusServerProcessReadInputRegsReq S locals c p n w)"
  unfolding modbusServerProcessReadInputRegsReq_def Let_def split_def
  by (intro handler_frame_intros) (auto dest!: unlock loop_frames simp: lock callback_frames)

lemma write_single_coil_frame: "framed w (modbusServerProcessWriteSingleCoilReq S c p n w)"
  unfolding modbusServerProcessWriteSingleCoilReq_def Let_def split_def
  by (intro handler_frame_intros) (auto dest!: unlock loop_frames simp: lock callback_frames)

lemma write_single_reg_frame: "framed w (modbusServerProcessWriteSingleRegReq S c p n w)"
  unfolding modbusServerProcessWriteSingleRegReq_def Let_def split_def
  by (intro handler_frame_intros) (auto dest!: unlock loop_frames simp: lock callback_frames)

lemma write_multiple_coils_frame: "framed w (modbusServerProcessWriteMultipleCoilsReq S c p n w)"
  unfolding modbusServerProcessWriteMultipleCoilsReq_def Let_def split_def
  by (intro handler_frame_intros) (auto dest!: unlock loop_frames simp: lock callback_frames)

lemma write_multiple_regs_frame: "framed w (modbusServerProcessWriteMultipleRegsReq S c p n w)"
  unfolding modbusServerProcessWriteMultipleRegsReq_def Let_def split_def
  by (intro handler_frame_intros) (auto dest!: unlock loop_frames simp: lock callback_frames)

lemma mask_write_reg_frame: "framed w (modbusServerProcessMaskWriteRegReq S locals c p n w)"
  unfolding modbusServerProcessMaskWriteRegReq_def Let_def split_def
  by (intro handler_frame_intros) (auto dest!: unlock loop_frames simp: lock callback_frames)

lemma read_write_regs_frame: "framed w (modbusServerProcessReadWriteMultipleRegsReq S locals c p n w)"
  unfolding modbusServerProcessReadWriteMultipleRegsReq_def Let_def split_def
  by (intro handler_frame_intros) (auto dest!: unlock loop_frames simp: lock callback_frames)

lemmas handler_frames = read_coils_frame read_discrete_inputs_frame read_holding_regs_frame read_input_regs_frame
  write_single_coil_frame write_single_reg_frame write_multiple_coils_frame write_multiple_regs_frame
  mask_write_reg_frame read_write_regs_frame

lemma process_request_frame:
  "modbusServerProcessRequest S locals c w = Some (e, c', w') \<Longrightarrow> f w' = f w"
proof -
  have "framed w (modbusServerDispatch S locals x d p n w)" for x d p n
    by (simp add: modbusServerDispatch_def handler_frames)
  then have "framed w (modbusServerProcessRequest S locals c w)"
    unfolding modbusServerProcessRequest_def split_def Let_def
    by (intro handler_frame_intros) (auto simp: framed_def modbusServerFormatExceptionResp_def finish_response_def
        bind_eq_Some_conv split: if_splits)
  then show "modbusServerProcessRequest S locals c w = Some (e, c', w') \<Longrightarrow> f w' = f w" by simp
qed

end

end
