(* ===== verification/App.thy ===== *)
theory App
  imports ModbusServer ModbusTable ServerFrame
begin

text \<open>
  The data the application of \<open>main_freertos.c\<close> serves: two registers and two coils, global arrays
  that the callbacks read and write.  The arrays are indexed with the constants 0 and 1 only, so
  they are functions of the index.  The record is extensible: whatever else the world holds (the
  sockets, the clock) is its extension.

  The callbacks satisfy the contract \<open>modbus_table\<close>, so the server built by \<open>main\<close> implements the
  reference specification over this table.
\<close>

record app_world =
  serverReg :: "nat \<Rightarrow> u16"
  serverCoil :: "nat \<Rightarrow> bool"

definition modbusServerLockCallback :: "'z app_world_scheme \<Rightarrow> 'z app_world_scheme" where
  "modbusServerLockCallback w = w"

definition modbusServerUnlockCallback :: "'z app_world_scheme \<Rightarrow> 'z app_world_scheme" where
  "modbusServerUnlockCallback w = w"

definition modbusServerReadCoilCallback ::
    "u16 \<Rightarrow> bool \<Rightarrow> 'z app_world_scheme \<Rightarrow> error_t \<times> bool \<times> 'z app_world_scheme" where
  "modbusServerReadCoilCallback address st w =
     (if address = 0 then (NO_ERROR, serverCoil w 0, w)
      else if address = 1 then (NO_ERROR, serverCoil w 1, w)
      else (ERROR_INVALID_ADDRESS, st, w))"

definition modbusServerWriteCoilCallback ::
    "u16 \<Rightarrow> bool \<Rightarrow> bool \<Rightarrow> 'z app_world_scheme \<Rightarrow> error_t \<times> 'z app_world_scheme" where
  "modbusServerWriteCoilCallback address st commit w =
     (if address = 0 then
        (let w = (if commit then w\<lparr>serverCoil := (serverCoil w)(0 := st)\<rparr> else w) in (NO_ERROR, w))
      else if address = 1 then
        (let w = (if commit then w\<lparr>serverCoil := (serverCoil w)(1 := st)\<rparr> else w) in (NO_ERROR, w))
      else (ERROR_INVALID_ADDRESS, w))"

definition modbusServerReadRegCallback ::
    "u16 \<Rightarrow> u16 \<Rightarrow> 'z app_world_scheme \<Rightarrow> error_t \<times> u16 \<times> 'z app_world_scheme" where
  "modbusServerReadRegCallback address v w =
     (if address = 0 then (NO_ERROR, serverReg w 0, w)
      else if address = 1 then (NO_ERROR, serverReg w 1, w)
      else (ERROR_INVALID_ADDRESS, v, w))"

definition modbusServerWriteRegCallback ::
    "u16 \<Rightarrow> u16 \<Rightarrow> bool \<Rightarrow> 'z app_world_scheme \<Rightarrow> error_t \<times> 'z app_world_scheme" where
  "modbusServerWriteRegCallback address v commit w =
     (if address = 0 then
        (let w = (if commit then w\<lparr>serverReg := (serverReg w)(0 := v)\<rparr> else w) in (NO_ERROR, w))
      else if address = 1 then
        (let w = (if commit then w\<lparr>serverReg := (serverReg w)(1 := v)\<rparr> else w) in (NO_ERROR, w))
      else (ERROR_INVALID_ADDRESS, w))"

text \<open>The settings \<open>main\<close> passes to \<open>modbusServerInit\<close>: the defaults, changed field by field.\<close>

definition app_settings :: "'z app_world_scheme ModbusServerSettings" where
  "app_settings =
     modbusServerGetDefaultSettings
       \<lparr>interface := Some 0, port := MODBUS_TCP_PORT,
        lockCallback := Some modbusServerLockCallback,
        unlockCallback := Some modbusServerUnlockCallback,
        readCoilCallback := Some modbusServerReadCoilCallback,
        writeCoilCallback := Some modbusServerWriteCoilCallback,
        readRegCallback := Some modbusServerReadRegCallback,
        writeRegValueCallback := Some modbusServerWriteRegCallback\<rparr>"

text \<open>The abstraction: the two arrays as partial maps from addresses.\<close>

definition app_tables :: "'z app_world_scheme \<Rightarrow> tables" where
  "app_tables w =
     \<lparr>coils = [0 \<mapsto> serverCoil w 0, 1 \<mapsto> serverCoil w 1],
      regs = [0 \<mapsto> serverReg w 0, 1 \<mapsto> serverReg w 1]\<rparr>"

lemma app_settings_simps:
  "modbusServerReadCoil app_settings = modbusServerReadCoilCallback"
  "modbusServerWriteCoil app_settings = modbusServerWriteCoilCallback"
  "modbusServerReadReg app_settings = modbusServerReadRegCallback"
  "modbusServerWriteReg app_settings = modbusServerWriteRegCallback"
  "modbusServerLock app_settings w = w" "modbusServerUnlock app_settings w = Some w"
  by (simp_all add: fun_eq_iff app_settings_def modbusServerReadCoil_def modbusServerWriteCoil_def
      modbusServerReadReg_def modbusServerWriteReg_def modbusServerLock_def modbusServerUnlock_def
      modbusServerLockCallback_def modbusServerUnlockCallback_def)

lemma app_write_coil_law:
  assumes "modbusServerWriteCoilCallback a s commit w = (e, w')"
  shows "if coils (app_tables w) a = None then e = ERROR_INVALID_ADDRESS \<and> app_tables w' = app_tables w
    else e = NO_ERROR \<and> app_tables w' =
      (if commit then (app_tables w)\<lparr>coils := (coils (app_tables w))(a \<mapsto> s)\<rparr> else app_tables w)"
  using assms
  by (auto simp: modbusServerWriteCoilCallback_def app_tables_def Let_def fun_eq_iff split: if_splits)

lemma app_write_reg_law:
  assumes "modbusServerWriteRegCallback a v commit w = (e, w')"
  shows "if regs (app_tables w) a = None then e = ERROR_INVALID_ADDRESS \<and> app_tables w' = app_tables w
    else e = NO_ERROR \<and> app_tables w' =
      (if commit then (app_tables w)\<lparr>regs := (regs (app_tables w))(a \<mapsto> v)\<rparr> else app_tables w)"
  using assms
  by (auto simp: modbusServerWriteRegCallback_def app_tables_def Let_def fun_eq_iff split: if_splits)

interpretation app: modbus_table "app_settings :: 'z app_world_scheme ModbusServerSettings" app_tables
proof unfold_locales
  fix a s and w w' :: "'z app_world_scheme" and e s'
  assume "modbusServerReadCoil app_settings a s w = (e, s', w')"
  then show "app_tables w' = app_tables w \<and> (case coils (app_tables w) a of
      Some b \<Rightarrow> e = NO_ERROR \<and> s' = b | None \<Rightarrow> e = ERROR_INVALID_ADDRESS)"
    by (auto simp: app_settings_simps modbusServerReadCoilCallback_def app_tables_def split: if_splits)
next
  fix a v and w w' :: "'z app_world_scheme" and e v'
  assume "modbusServerReadReg app_settings a v w = (e, v', w')"
  then show "app_tables w' = app_tables w \<and> (case regs (app_tables w) a of
      Some x \<Rightarrow> e = NO_ERROR \<and> v' = x | None \<Rightarrow> e = ERROR_INVALID_ADDRESS)"
    by (auto simp: app_settings_simps modbusServerReadRegCallback_def app_tables_def split: if_splits)
next
  fix a s commit and w w' :: "'z app_world_scheme" and e
  assume "modbusServerWriteCoil app_settings a s commit w = (e, w')"
  then show "if coils (app_tables w) a = None then e = ERROR_INVALID_ADDRESS \<and> app_tables w' = app_tables w
    else e = NO_ERROR \<and> app_tables w' =
      (if commit then (app_tables w)\<lparr>coils := (coils (app_tables w))(a \<mapsto> s)\<rparr> else app_tables w)"
    unfolding app_settings_simps by (rule app_write_coil_law)
next
  fix a v commit and w w' :: "'z app_world_scheme" and e
  assume "modbusServerWriteReg app_settings a v commit w = (e, w')"
  then show "if regs (app_tables w) a = None then e = ERROR_INVALID_ADDRESS \<and> app_tables w' = app_tables w
    else e = NO_ERROR \<and> app_tables w' =
      (if commit then (app_tables w)\<lparr>regs := (regs (app_tables w))(a \<mapsto> v)\<rparr> else app_tables w)"
    unfolding app_settings_simps by (rule app_write_reg_law)
qed (simp_all add: app_settings_simps)

text \<open>The callbacks reach the two arrays only: whatever else the world holds is the same afterwards.\<close>

lemma app_frame:
  assumes "\<And>w v. f (w\<lparr>serverReg := v\<rparr>) = f w" and "\<And>w v. f (w\<lparr>serverCoil := v\<rparr>) = f w"
  shows "callback_frame (app_settings :: 'z app_world_scheme ModbusServerSettings) f"
  by unfold_locales
    (auto simp: app_settings_simps modbusServerReadCoilCallback_def modbusServerReadRegCallback_def
      modbusServerWriteCoilCallback_def modbusServerWriteRegCallback_def assms Let_def split: if_splits)

interpretation app_more: callback_frame "app_settings :: 'z app_world_scheme ModbusServerSettings" app_world.more
  by (rule app_frame) simp_all

end
