(* ===== verification/ServerProperties.thy ===== *)
theory ServerProperties
  imports App
begin

text \<open>
  The properties of the Modbus/TCP server, each with a witness that applies it to a concrete
  connection, and the concrete data the witnesses use.
\<close>

subsection \<open>Data for the witnesses\<close>

text \<open>A connection that has just received the request \<open>pdu\<close> for unit 255, in a zeroed buffer or before other bytes.\<close>

definition request_conn :: "buffer \<Rightarrow> buffer \<Rightarrow> ModbusClientConnection" where
  "request_conn pdu rest = cleared_connection
     \<lparr>socket := Some 1, state := MODBUS_CONNECTION_STATE_RECEIVING,
      requestAdu := [0x12, 0x34, 0, 0, 0, word_of_nat (length pdu + 1), 255] @ pdu @ rest @
        replicate (253 - length pdu - length rest) 0,
      requestAduLen := 7 + length pdu, requestAduPos := 7 + length pdu, requestUnitId := 255\<rparr>"

lemma request_conn_wf:
  "length pdu + length rest \<le> 253 \<Longrightarrow> conn_wf (request_conn pdu rest)"
  by (simp add: request_conn_def conn_wf_def cleared_connection_def)

lemma request_conn_pdu [simp]: "request_pdu (request_conn pdu rest) = pdu"
  by (simp add: request_pdu_def request_conn_def)

lemma request_conn_pos [simp]:
  "requestAduPos (request_conn pdu rest) = 7 + length pdu"
  "requestAduLen (request_conn pdu rest) = 7 + length pdu"
  by (simp_all add: request_conn_def)

definition demo_world :: app_world where
  "demo_world = \<lparr>serverReg = (\<lambda>_. 0)(0 := 0x1234, 1 := 0xABCD), serverCoil = (\<lambda>_. False)(1 := True)\<rparr>"

definition demo_locals :: stack_locals where
  "demo_locals = \<lparr>junk_state = True, junk_value = 0xFFFF\<rparr>"

text \<open>A socket layer that delivers the same bytes on every receive and sends everything.\<close>

definition demo_ops :: "systime_t \<Rightarrow> buffer \<Rightarrow> 'w net_ops" where
  "demo_ops time data =
     \<lparr>osGetSystemTime = Pair time, osCreateEvent = Pair True, osDeleteEvent = id,
      socketOpen = Pair (Some 0), socketBindToInterface = (\<lambda>_ _. Pair NO_ERROR),
      socketBind = (\<lambda>_ _. Pair NO_ERROR), socketListen = (\<lambda>_ _. Pair NO_ERROR),
      socketAccept = (\<lambda>_. Pair (Some 7)), socketSetTimeout = (\<lambda>_ _. Pair NO_ERROR),
      socketReceive = (\<lambda>_ n w. (NO_ERROR, take n data, w)),
      socketSend = (\<lambda>_ d w. (NO_ERROR, length d, w)), socketClose = (\<lambda>_ w. w),
      socketPoll = (\<lambda>ds _ w. (NO_ERROR, map eventMask ds, w)),
      socketConnect = (\<lambda>_ _ _. Pair NO_ERROR), netGetRand = Pair 4, osCreateTask = Pair True\<rparr>"

lemma demo_ops_ok: "net_ok (demo_ops time data)"
  by (simp add: net_ok_def demo_ops_def)

lemma two_addresses:
  "defined t a 2 \<longleftrightarrow> t a \<noteq> None \<and> t (a + 1) \<noteq> None" "fetch t a 2 = [the (t a), the (t (a + 1))]"
  "defined t a (Suc 0) \<longleftrightarrow> t a \<noteq> None" "fetch t a (Suc 0) = [the (t a)]"
  using defined_Suc [of t a 0] defined_Suc [of t a 1] defined_Suc [of t "a + 1" 0]
    fetch_Suc [of t a 0] fetch_Suc [of t a 1] fetch_Suc [of t "a + 1" 0]
  by (simp_all add: numeral_2_eq_2 fetch_def)

lemma demo_read:
  "spec (app_tables demo_world) [3, 0, 0, 0, 2] =
     Reply [3, 4, 0x12, 0x34, 0xAB, 0xCD] (app_tables demo_world)"
proof -
  have "LOAD16BE [3, 0, 0, 0, 2] 1 = 0" "LOAD16BE [3, 0, 0, 0, 2] 3 = 2"
    by (simp_all add: LOAD16BE_def)
  moreover have "reg_bytes [0x1234, 0xABCD] = [0x12, 0x34, 0xAB, 0xCD]" by (simp add: be_bytes_def)
  ultimately show ?thesis
    by (simp add: spec_def spec_read_regs_def two_addresses app_tables_def demo_world_def)
qed

lemma app_callbacks_ok: "callbacks_ok app_settings"
  by (rule app.callbacks_ok)

subsection \<open>Requests\<close>

text \<open>
  C1: whatever table of coils and registers the user callbacks implement, \<open>modbusServerProcessRequest\<close>
  answers a complete request exactly as the reference specification of the protocol says: the same
  response bytes, the same new table, an exception response with the specified code, or no response
  for a malformed PDU.  Two classes of requests are excepted: read/write requests up to four bytes
  shorter than announced (\<open>read_write_regs_accepts_truncated\<close>), and read/write requests whose ranges
  overlap, where the code reads before it writes (\<open>read_write_reads_before_writing\<close>).
\<close>

theorem server_implements_spec:
  assumes "modbus_table S tab" and "conn_wf c" and "7 \<le> requestAduPos c"
    and "\<not> truncated_read_write (request_pdu c)" and "\<not> overlapping_read_write (request_pdu c)"
  shows "answered tab (tab w) (spec (tab w) (request_pdu c)) (request_pdu c)
    (modbusServerProcessRequest S locals c w)"
  by (rule modbus_table.process_request_answered [OF assms])

lemma server_implements_spec_witness:
  "answered app_tables (app_tables demo_world)
     (Reply [3, 4, 0x12, 0x34, 0xAB, 0xCD] (app_tables demo_world)) [3, 0, 0, 0, 2]
     (modbusServerProcessRequest app_settings demo_locals (request_conn [3, 0, 0, 0, 2] []) demo_world)"
  using server_implements_spec [OF app.modbus_table_axioms request_conn_wf [of "[3, 0, 0, 0, 2]" "[]"],
      of demo_world demo_locals]
  by (simp add: truncated_read_write_def overlapping_read_write_def demo_read)

text \<open>
  C24: no request, however malformed, and no user callback makes \<open>modbusServerProcessRequest\<close> leave its
  buffers: it returns, and it leaves either a complete response of 2 to 253 PDU bytes ready to be
  sent, or an error with nothing but the response buffer changed.
\<close>

theorem process_request_memory_safe:
  assumes "conn_wf c" and "7 \<le> requestAduPos c" and "callbacks_ok S"
  shows "handler_ok c (modbusServerProcessRequest S locals c w)"
  by (rule process_request_ok [OF assms])

lemma process_request_memory_safe_witness:
  "handler_ok (request_conn [15, 0, 0, 0xFF, 0xFF, 200] [])
     (modbusServerProcessRequest app_settings demo_locals (request_conn [15, 0, 0, 0xFF, 0xFF, 200] []) demo_world)"
  by (rule process_request_memory_safe) (simp_all add: request_conn_wf app_callbacks_ok)

text \<open>
  A response carries the transaction, protocol and unit identifiers of its request, its length
  field announces exactly the bytes that follow, and the request is still in its buffer.
\<close>

lemma response_header_echoes_request:
  assumes "conn_wf c" and "7 \<le> requestAduPos c" and "callbacks_ok S"
    and "modbusServerProcessRequest S locals c w = Some (NO_ERROR, c', w')"
  shows "LOAD16BE (responseAdu c') 0 = LOAD16BE (requestAdu c) 0 \<and>
    LOAD16BE (responseAdu c') 2 = LOAD16BE (requestAdu c) 2 \<and>
    responseAdu c' ! 6 = requestAdu c ! 6 \<and>
    responseAduLen c' = 6 + unat (LOAD16BE (responseAdu c') 4) \<and> responseAduPos c' = 0 \<and>
    9 \<le> responseAduLen c' \<and> responseAduLen c' \<le> 260 \<and>
    state c' = MODBUS_CONNECTION_STATE_SENDING \<and> requestAdu c' = requestAdu c"
proof -
  from process_request_ok [OF assms(1-3), of locals w] assms(4) obtain len where "replied c c' len"
    by (auto simp: handler_ok_def)
  then obtain adu where "length adu = 260" and "2 \<le> len" "len \<le> 253"
    and "c' = c\<lparr>responseAdu := mbap_reply (requestAdu c) len adu, responseAduLen := 7 + len,
      responseAduPos := 0, state := MODBUS_CONNECTION_STATE_SENDING\<rparr>"
    by (auto simp: replied_def)
  then show ?thesis
    by (simp add: ntohs_get16 [symmetric] mbap_reply_def del: of_nat_Suc of_nat_add)
qed

lemma response_header_echoes_request_example:
  "\<exists>c' w'. modbusServerProcessRequest app_settings demo_locals (request_conn [3, 0, 0, 0, 2] []) demo_world =
      Some (NO_ERROR, c', w') \<and> LOAD16BE (responseAdu c') 0 = 0x1234 \<and> responseAdu c' ! 6 = 255"
proof -
  let ?c = "request_conn [3, 0, 0, 0, 2] []"
  have wf: "conn_wf ?c" "7 \<le> requestAduPos ?c" by (simp_all add: request_conn_wf)
  from app.process_request_answered [OF wf, of demo_world demo_locals] obtain c' w' where
    run: "modbusServerProcessRequest app_settings demo_locals ?c demo_world = Some (NO_ERROR, c', w')"
    by (auto simp: answered_def truncated_read_write_def overlapping_read_write_def demo_read)
  have "LOAD16BE (requestAdu ?c) 0 = 0x1234" "requestAdu ?c ! 6 = 255"
    by (simp_all add: request_conn_def LOAD16BE_def)
  with run response_header_echoes_request [OF wf app_callbacks_ok run] show ?thesis by auto
qed

text \<open>
  A request to write several registers is all or nothing: if any address is rejected no register
  changes, and otherwise the registers are the ones the request carries, in order.
\<close>

lemma write_multiple_regs_atomic:
  assumes "modbus_table S tab" and "conn_wf c" and "7 \<le> requestAduPos c" and "7 + len \<le> 260"
    and "modbusServerProcessWriteMultipleRegsReq S c 7 len w = Some (e, c', w')"
  shows "tab w' = (if e = NO_ERROR
    then (tab w)\<lparr>regs := store (regs (tab w)) (LOAD16BE (requestAdu c) 8)
      (bytes_regs (requestAdu c) 13 (unat (LOAD16BE (requestAdu c) 10)))\<rparr> else tab w)"
  by (rule modbus_table.write_regs_atomic [OF assms])

text \<open>The witness: two registers from address 1; address 2 does not exist, so register 1 keeps its value.\<close>

lemma write_multiple_regs_atomic_example:
  "\<exists>e c' w'. modbusServerProcessWriteMultipleRegsReq app_settings
      (request_conn [16, 0, 1, 0, 2, 4, 9, 9, 9, 9] []) 7 10 demo_world = Some (e, c', w') \<and>
    e = ERROR_INVALID_ADDRESS \<and> app_tables w' = app_tables demo_world"
proof -
  let ?pdu = "[16, 0, 1, 0, 2, 4, 9, 9, 9, 9] :: buffer"
  let ?c = "request_conn ?pdu []"
  have wf: "conn_wf ?c" "7 \<le> requestAduPos ?c" by (simp_all add: request_conn_wf)
  have pdu: "?pdu = take 10 (drop 7 (requestAdu ?c))" by (simp add: request_conn_def)
  have "LOAD16BE ?pdu 1 = 1" "LOAD16BE ?pdu 3 = 2" by (simp_all add: LOAD16BE_def)
  then have "spec_write_regs (app_tables demo_world) ?pdu = Exception 2"
    by (simp add: spec_write_regs_def two_addresses app_tables_def)
  with app.write_regs_serves [OF wf pdu, of demo_world] obtain e c' w' where
    run: "modbusServerProcessWriteMultipleRegsReq app_settings ?c 7 10 demo_world = Some (e, c', w')"
    and e: "is_exception e" "modbusServerTranslateExceptionCode e = 2"
    by (auto simp: serves_def)
  from e have "e = ERROR_INVALID_ADDRESS"
    by (auto simp: is_exception_def modbusServerTranslateExceptionCode_def)
  with run write_multiple_regs_atomic [OF app.modbus_table_axioms wf _ run] show ?thesis by simp
qed

text \<open>
  C32: a read/write request that is up to four bytes shorter than its byte count announces is not
  rejected: the handler serves it as if the missing bytes had arrived, and writes whatever the
  request buffer holds there.
\<close>

theorem read_write_regs_accepts_truncated:
  assumes "modbus_table S tab" and "conn_wf c" and "7 \<le> requestAduPos c" and "10 \<le> len"
    and "6 + unat (requestAdu c ! 16) \<le> len" and "unat (requestAdu c ! 16) \<le> 242"
  shows "serves tab (tab w) (read_then_write_regs (tab w)
      (take (10 + unat (requestAdu c ! 16)) (drop 7 (requestAdu c))))
    (modbusServerProcessReadWriteMultipleRegsReq S locals c 7 len w)"
  by (rule modbus_table.read_write_regs_truncated [OF assms])

text \<open>The witness: ten bytes arrive, fourteen are announced, and register 0 gets two stale bytes.\<close>

lemma read_write_regs_accepts_truncated_witness:
  "\<exists>c' w'. modbusServerProcessReadWriteMultipleRegsReq app_settings demo_locals
      (request_conn [23, 0, 0, 0, 1, 0, 0, 0, 2, 4] [0xDE, 0xAD, 0xBE, 0xEF]) 7 10 demo_world =
      Some (NO_ERROR, c', w') \<and> serverReg w' 0 = 0xDEAD \<and> serverReg w' 1 = 0xBEEF"
proof -
  let ?c = "request_conn [23, 0, 0, 0, 1, 0, 0, 0, 2, 4] [0xDE, 0xAD, 0xBE, 0xEF]"
  let ?all = "[23, 0, 0, 0, 1, 0, 0, 0, 2, 4, 0xDE, 0xAD, 0xBE, 0xEF] :: buffer"
  have wf: "conn_wf ?c" "7 \<le> requestAduPos ?c" by (simp_all add: request_conn_wf)
  have n: "requestAdu ?c ! 16 = 4" "take 14 (drop 7 (requestAdu ?c)) = ?all"
    by (simp_all add: request_conn_def)
  have ld: "LOAD16BE ?all 1 = 0" "LOAD16BE ?all 3 = 1" "LOAD16BE ?all 5 = 0" "LOAD16BE ?all 7 = 2"
    "bytes_regs ?all 10 2 = [0xDEAD, 0xBEEF]"
    by (simp_all add: LOAD16BE_def bytes_regs_def upt_rec)
  then obtain rsp where sp: "read_then_write_regs (app_tables demo_world) ?all = Reply rsp
      ((app_tables demo_world)\<lparr>regs := store (regs (app_tables demo_world)) 0 [0xDEAD, 0xBEEF]\<rparr>)"
    by (simp add: read_then_write_regs_def two_addresses app_tables_def)
  have "serves app_tables (app_tables demo_world) (read_then_write_regs (app_tables demo_world) ?all)
      (modbusServerProcessReadWriteMultipleRegsReq app_settings demo_locals ?c 7 10 demo_world)"
    using read_write_regs_accepts_truncated [OF app.modbus_table_axioms wf, of 10 demo_world demo_locals] n
    by simp
  then obtain c' w' where run: "modbusServerProcessReadWriteMultipleRegsReq app_settings demo_locals ?c 7 10
        demo_world = Some (NO_ERROR, c', w')"
    and t: "regs (app_tables w') = store (regs (app_tables demo_world)) 0 [0xDEAD, 0xBEEF]"
    unfolding sp by (auto simp: serves_def)
  from fun_cong [OF t, of 0] fun_cong [OF t, of 1] run show ?thesis by (simp add: app_tables_def)
qed

text \<open>
  C2: whenever the specification answers a read/write request, the code answers too and leaves the same
  tables, but the values it returns are those the registers had before the write, whereas the
  specification, like the comment in the client, has the write come first: the two differ where the
  ranges overlap.
\<close>

theorem read_write_reads_before_writing:
  assumes "modbus_table S tab" and "conn_wf c" and "7 \<le> requestAduPos c"
    and "\<not> truncated_read_write pdu" and "request_pdu c = pdu" and "pdu ! 0 = 23"
    and "spec (tab w) pdu = Reply rsp t"
  shows "\<exists>c' w'. modbusServerProcessRequest S locals c w = Some (NO_ERROR, c', w') \<and> tab w' = t \<and>
    response_pdu c' = 23 # word_of_nat (unat (LOAD16BE pdu 3) * 2) #
      reg_bytes (fetch (regs (tab w)) (LOAD16BE pdu 1) (unat (LOAD16BE pdu 3)))"
  by (rule modbus_table.read_write_old_values [OF assms])

text \<open>The witness: register 0 is read and written by the same request, and the old value is returned.\<close>

lemma read_write_reads_before_writing_witness:
  "let pdu = [23, 0, 0, 0, 1, 0, 0, 0, 1, 2, 0xDE, 0xAD]
   in (\<exists>t. spec (app_tables demo_world) pdu = Reply [23, 2, 0xDE, 0xAD] t) \<and>
      (\<exists>c' w'. modbusServerProcessRequest app_settings demo_locals (request_conn pdu []) demo_world =
         Some (NO_ERROR, c', w') \<and> response_pdu c' = [23, 2, 0x12, 0x34] \<and> serverReg w' 0 = 0xDEAD)"
proof -
  let ?pdu = "[23, 0, 0, 0, 1, 0, 0, 0, 1, 2, 0xDE, 0xAD] :: buffer"
  let ?c = "request_conn ?pdu []"
  let ?t = "(app_tables demo_world)\<lparr>regs := (regs (app_tables demo_world))(0 \<mapsto> 0xDEAD)\<rparr>"
  have wf: "conn_wf ?c" "7 \<le> requestAduPos ?c" by (simp_all add: request_conn_wf)
  have ld: "LOAD16BE ?pdu 1 = 0" "LOAD16BE ?pdu 3 = 1" "LOAD16BE ?pdu 5 = 0" "LOAD16BE ?pdu 7 = 1"
    "bytes_regs ?pdu 10 (Suc 0) = [0xDEAD]"
    by (simp_all add: LOAD16BE_def bytes_regs_def)
  then have sp: "spec (app_tables demo_world) ?pdu = Reply [23, 2, 0xDE, 0xAD] ?t"
    by (simp add: spec_def spec_read_write_regs_def two_addresses app_tables_def be_bytes_def)
  have old: "regs (app_tables demo_world) 0 = Some 0x1234" by (simp add: app_tables_def demo_world_def)
  have "\<not> truncated_read_write ?pdu" by (simp add: truncated_read_write_def)
  from read_write_reads_before_writing [OF app.modbus_table_axioms wf this _ _ sp, of demo_locals] old ld
  obtain c' w' where r: "modbusServerProcessRequest app_settings demo_locals ?c demo_world = Some (NO_ERROR, c', w')"
    "app_tables w' = ?t" "response_pdu c' = [23, 2, 0x12, 0x34]"
    by (auto simp: two_addresses be_bytes_def)
  from arg_cong [OF r(2), of regs] have "regs (app_tables w') 0 = Some 0xDEAD" by simp
  then have "serverReg w' 0 = 0xDEAD" by (simp add: app_tables_def split: if_splits)
  with r sp show ?thesis by (auto simp: Let_def)
qed

subsection \<open>Connections\<close>

text \<open>
  C25: the event handler of an open connection never reaches undefined behaviour and keeps the
  connection invariant, whatever bytes the peer sends, in whatever pieces, and whatever the sockets
  and the user callbacks return.
\<close>

theorem connection_events_invariant:
  assumes "conn_inv c" and "state c \<noteq> MODBUS_CONNECTION_STATE_CLOSED" and "callbacks_ok S" and "net_ok ops"
  shows "\<exists>c' w'. modbusServerProcessConnectionEvents S ops locals c w = Some (c', w') \<and> conn_inv c'"
  by (rule process_events_ok [OF assms])

lemma fresh_conn_inv: "conn_inv (fresh_connection (Some 1) 0)"
  by (rule fresh_connection_inv)

lemma connection_events_invariant_witness:
  "\<exists>c' w'. modbusServerProcessConnectionEvents app_settings (demo_ops 5 [0, 1, 0, 0, 0, 6, 255, 3])
      demo_locals (fresh_connection (Some 1) 0) demo_world = Some (c', w') \<and> conn_inv c'"
  by (rule connection_events_invariant [OF fresh_conn_inv _ app_callbacks_ok demo_ops_ok])
    (simp add: fresh_connection_def)

lemma receive_request_appends:
  assumes "conn_inv c" and "state c = MODBUS_CONNECTION_STATE_RECEIVING" and "callbacks_ok S" and "net_ok ops"
    and "requestAduPos c < 7 \<or> requestAduPos c < requestAduLen c"
    and "socketReceive ops (socket c)
      ((if requestAduPos c < 7 then 7 else requestAduLen c) - requestAduPos c) w = (NO_ERROR, data, w2)"
    and "receive_request S ops locals c w = Some (e, c', w')"
  shows "requestAdu c' = blit (requestAdu c) (requestAduPos c) data"
proof -
  have wf: "conn_wf c" using assms(1) by (rule conn_inv_wf)
  note L = conn_wfD [OF wf]
  let ?c = "c\<lparr>requestAdu := blit (requestAdu c) (requestAduPos c) data,
    requestAduPos := requestAduPos c + length data\<rparr>"
  have fit: "requestAduPos c + length data \<le> 260"
    using net_okD(1) [OF assms(4,6)] assms(5) L by (auto split: if_splits)
  have mbap: "modbusServerParseMbapHeader ?c = Some (e1, c1) \<Longrightarrow> requestAdu c1 = requestAdu ?c" for e1 c1
    by (auto simp: modbusServerParseMbapHeader_def Let_def bind_eq_Some_conv split: if_splits)
  have proc: "7 \<le> requestAduPos ?c \<Longrightarrow> modbusServerProcessRequest S locals ?c w2 = Some (e1, c1, w1) \<Longrightarrow>
      requestAdu c1 = requestAdu ?c" for e1 c1 w1
    using process_request_ok [OF _ _ assms(3), of ?c locals w2] wf L fit
    by (auto simp: handler_ok_def replied_def conn_wf_def split: if_splits)
  show ?thesis
  proof (cases "requestAduPos c < 7")
    case True
    then have "receive_request S ops locals c w =
        (if 7 \<le> requestAduPos c + length data
         then (do { (error, c) \<leftarrow> modbusServerParseMbapHeader ?c; Some (error, c, w2) })
         else Some (NO_ERROR, ?c, w2))"
      using assms(6) L fit by (simp add: receive_request_def mem_simps Let_def)
    then show ?thesis
      using assms(7) mbap by (cases "modbusServerParseMbapHeader ?c") (auto split: if_splits)
  next
    case False
    then have "receive_request S ops locals c w =
        (if requestAduLen c \<le> requestAduPos c + length data \<and>
            (unitId S = 0 \<or> unitId S = 255 \<or> unitId S = requestUnitId c)
         then modbusServerProcessRequest S locals ?c w2 else Some (NO_ERROR, ?c, w2))"
      using assms(5,6) L fit by (simp add: receive_request_def mem_simps Let_def)
    with assms(7) have "modbusServerProcessRequest S locals ?c w2 = Some (e, c', w') \<or>
        c' = ?c" by (simp split: if_splits)
    then show ?thesis using proc [of e c' w'] False by auto
  qed
qed

text \<open>
  A receive event appends the bytes the socket delivered to those already received; it never
  loses, reorders or overwrites a byte of the request.
\<close>

lemma receive_event_appends:
  assumes "conn_inv c" and "state c = MODBUS_CONNECTION_STATE_RECEIVING" and "callbacks_ok S" and "net_ok ops"
    and "requestAduPos c < 7 \<or> requestAduPos c < requestAduLen c"
    and "osGetSystemTime ops w = (time, w1)"
    and "socketReceive ops (socket c)
      ((if requestAduPos c < 7 then 7 else requestAduLen c) - requestAduPos c) w1 = (NO_ERROR, data, w2)"
    and "modbusServerProcessConnectionEvents S ops locals c w = Some (c', w')"
  shows "take (requestAduPos c + length data) (requestAdu c') = take (requestAduPos c) (requestAdu c) @ data"
proof -
  let ?c = "c\<lparr>timestamp := time\<rparr>"
  have inv: "conn_inv ?c" using assms(1,2) by (simp add: conn_inv_def)
  from receive_request_ok [OF inv _ assms(3,4), of locals w1] assms(2) obtain e c1 w3 where
    r: "receive_request S ops locals ?c w1 = Some (e, c1, w3)"
    by (auto simp: branch_ok_def)
  have adu: "requestAdu c1 = blit (requestAdu c) (requestAduPos c) data"
    using receive_request_appends [OF inv _ assms(3,4) _ _ r, of data w2] assms(2,5,7)
    by (simp cong: if_cong)
  have "requestAdu c' = requestAdu c1"
    using assms(2,6,8) r
    by (auto simp: modbusServerProcessConnectionEvents_def Let_def modbusServerCloseConnection_def split: if_splits)
  moreover have "requestAduPos c \<le> length (requestAdu c)"
    using conn_wfD [OF conn_inv_wf [OF assms(1)]] assms(5) by auto
  ultimately show ?thesis using adu by (simp add: take_blit_end)
qed

lemma receive_event_appends_example:
  "\<exists>c' w'. modbusServerProcessConnectionEvents app_settings (demo_ops 5 [0, 1, 0])
      demo_locals (fresh_connection (Some 1) 0) demo_world = Some (c', w') \<and> take 3 (requestAdu c') = [0, 1, 0]"
proof -
  let ?c = "fresh_connection (Some 1) 0" and ?ops = "demo_ops 5 [0, 1, 0] :: app_world net_ops"
  obtain c' w' where run: "modbusServerProcessConnectionEvents app_settings ?ops demo_locals ?c demo_world =
      Some (c', w')"
    using process_events_ok [OF fresh_conn_inv _ app_callbacks_ok demo_ops_ok, of 5 "[0, 1, 0]" demo_locals demo_world]
    by (force simp: fresh_connection_def)
  have "take (requestAduPos ?c + length [0, 1, 0 :: u8]) (requestAdu c') =
      take (requestAduPos ?c) (requestAdu ?c) @ [0, 1, 0]"
    by (rule receive_event_appends [OF fresh_conn_inv _ app_callbacks_ok demo_ops_ok _ _ _ run])
      (simp_all add: fresh_connection_def cleared_connection_def demo_ops_def)
  then have "take 3 (requestAdu c') = [0, 1, 0]"
    by (simp add: fresh_connection_def cleared_connection_def numeral_3_eq_3)
  with run show ?thesis by blast
qed

lemma event_of_full_request:
  assumes "state c = MODBUS_CONNECTION_STATE_RECEIVING" and "7 \<le> requestAduPos c"
    and "requestAduLen c \<le> requestAduPos c"
    and "modbusServerProcessConnectionEvents S ops locals c w = Some (c', w')"
  shows "state c' = MODBUS_CONNECTION_STATE_CLOSED"
  using assms close_connection_closed(1)
  by (cases "osGetSystemTime ops w")
    (auto simp: modbusServerProcessConnectionEvents_def receive_request_def Let_def
      dest!: arg_cong [where f = fst])

text \<open>
  C33: a request for another unit is neither answered nor discarded: the connection keeps waiting with
  a full request buffer, and the next event, whatever it is, closes it.
\<close>

theorem unit_mismatch_closes:
  assumes "conn_wf c" and "state c = MODBUS_CONNECTION_STATE_RECEIVING"
    and "7 \<le> requestAduPos c" and "requestAduPos c + length data = requestAduLen c" and "data \<noteq> []"
    and "osGetSystemTime ops w = (time, w1)"
    and "socketReceive ops (socket c) (length data) w1 = (NO_ERROR, data, w2)"
    and "unitId S \<noteq> 0" and "unitId S \<noteq> 255" and "unitId S \<noteq> requestUnitId c"
  shows "\<exists>c1. modbusServerProcessConnectionEvents S ops locals c w = Some (c1, w2) \<and>
    state c1 = MODBUS_CONNECTION_STATE_RECEIVING \<and> responseAdu c1 = responseAdu c \<and>
    (\<forall>ops' w3 c2 w4. modbusServerProcessConnectionEvents S ops' locals c1 w3 = Some (c2, w4) \<longrightarrow>
      state c2 = MODBUS_CONNECTION_STATE_CLOSED)"
proof -
  let ?c = "c\<lparr>timestamp := time, requestAdu := blit (requestAdu c) (requestAduPos c) data,
    requestAduPos := requestAduLen c\<rparr>"
  have rest: "requestAduLen c - requestAduPos c = length data" "requestAduPos c < requestAduLen c"
    using assms(4,5) by (cases data; simp)+
  have "modbusServerProcessConnectionEvents S ops locals c w = Some (?c, w2)"
    using assms(2-4,6-10) rest conn_wfD [OF assms(1)]
    by (simp add: modbusServerProcessConnectionEvents_def receive_request_def mem_simps Let_def)
  moreover have "modbusServerProcessConnectionEvents S ops' locals ?c w3 = Some (c2, w4) \<Longrightarrow>
      state c2 = MODBUS_CONNECTION_STATE_CLOSED" for ops' w3 c2 w4
    by (rule event_of_full_request [of ?c]) (use assms(2,3) rest in auto)
  ultimately show ?thesis using assms(2) by auto
qed

lemma unit_mismatch_closes_witness:
  "\<exists>c1. modbusServerProcessConnectionEvents (app_settings\<lparr>unitId := 1\<rparr>) (demo_ops 5 [3, 0, 0, 0, 2])
      demo_locals ((request_conn [0, 0, 0, 0, 0] [])\<lparr>requestAduPos := 7\<rparr>) demo_world = Some (c1, demo_world) \<and>
    state c1 = MODBUS_CONNECTION_STATE_RECEIVING"
proof -
  let ?c = "(request_conn [0, 0, 0, 0, 0] [])\<lparr>requestAduPos := 7\<rparr>"
  have "conn_wf ?c" by (simp add: request_conn_wf)
  from unit_mismatch_closes [OF this, of "[3, 0, 0, 0, 2]" "demo_ops 5 [3, 0, 0, 0, 2]" demo_world 5
      demo_world demo_world "app_settings\<lparr>unitId := 1\<rparr>" demo_locals]
  show ?thesis by (auto simp: request_conn_def demo_ops_def)
qed

subsection \<open>The server\<close>

text \<open>
  C26: after \<open>modbusServerInit\<close>, every number of rounds of the server task runs without undefined
  behaviour, and the connection table keeps its invariant: two entries, each well formed, an entry
  closed exactly when it holds no socket.
\<close>

theorem server_runs_forever:
  assumes "net_ok ops" and "callbacks_ok S" and "modbusServerInit ops S w = (e, ctx, w')"
  shows "\<exists>ctx' w''. server_rounds ops locals n ctx w' = Some (ctx', w'') \<and> server_inv ctx'"
proof -
  have "server_inv ctx" "settings ctx = S"
    using init_inv [of ops S w] init_settings [of ops S w] assms(3) by simp_all
  then show ?thesis using server_rounds_ok [of ctx ops locals n w'] assms(1,2) by auto
qed

lemma server_runs_forever_witness:
  "\<exists>ctx' w''. server_rounds (demo_ops 5 [1]) demo_locals 1000
     (fst (snd (modbusServerInit (demo_ops 5 [1]) app_settings demo_world)))
     (snd (snd (modbusServerInit (demo_ops 5 [1]) app_settings demo_world))) = Some (ctx', w'') \<and> server_inv ctx'"
  by (rule server_runs_forever [OF demo_ops_ok app_callbacks_ok,
      of 5 "[1]" demo_world "fst (modbusServerInit (demo_ops 5 [1]) app_settings demo_world)"]) simp

text \<open>
  C31: the periodic tick closes exactly the open connections that have been idle for at least the
  timeout, also when the tick counter wraps, and leaves the others alone.
\<close>

theorem tick_closes_idle:
  assumes "osGetSystemTime ops w = (time, w1)" and "i < length (connection ctx)"
    and "time = timestamp (connection ctx ! i) + word_of_nat age" and "age < 2147483648"
  shows "connection (fst (modbusServerTick ops ctx w)) ! i =
    (if 60000 \<le> age \<and> state (connection ctx ! i) \<noteq> MODBUS_CONNECTION_STATE_CLOSED
     then (connection ctx ! i)\<lparr>socket := None, state := MODBUS_CONNECTION_STATE_CLOSED\<rparr>
     else connection ctx ! i)"
proof -
  have "idle time (connection ctx ! i) \<longleftrightarrow>
      60000 \<le> age \<and> state (connection ctx ! i) \<noteq> MODBUS_CONNECTION_STATE_CLOSED"
    using timeCompare_deadline [of age 60000 "timestamp (connection ctx ! i)"] assms(4)
    by (auto simp: idle_def assms(3))
  then show ?thesis
    using assms(2) by (simp add: tick_eq [OF assms(1)] closed_def)
qed

text \<open>The clock of the witness wrapped: the connection is from tick \<open>2 ^ 32 - 1\<close>, the time is 59999.\<close>

lemma tick_closes_idle_witness:
  "let c = fresh_connection (Some 1) 0xFFFFFFFF;
       ctx = \<lparr>settings = app_settings, listener = Some 0, connection = [c, cleared_connection]\<rparr>
   in connection (fst (modbusServerTick (demo_ops 59999 []) ctx demo_world)) ! 0 =
        c\<lparr>socket := None, state := MODBUS_CONNECTION_STATE_CLOSED\<rparr>"
proof -
  let ?c = "fresh_connection (Some 1) 0xFFFFFFFF"
  let ?ctx = "\<lparr>settings = app_settings :: app_world ModbusServerSettings, listener = Some 0,
    connection = [?c, cleared_connection]\<rparr>"
  have "connection (fst (modbusServerTick (demo_ops 59999 []) ?ctx demo_world)) ! 0 =
    (if 60000 \<le> (60000 :: nat) \<and> state (connection ?ctx ! 0) \<noteq> MODBUS_CONNECTION_STATE_CLOSED
     then (connection ?ctx ! 0)\<lparr>socket := None, state := MODBUS_CONNECTION_STATE_CLOSED\<rparr>
     else connection ?ctx ! 0)"
    by (rule tick_closes_idle) (simp_all add: demo_ops_def fresh_connection_def)
  then show ?thesis by (simp add: fresh_connection_def)
qed

text \<open>
  A new connection takes the first closed entry of the table or else the entry that has waited
  longest (in 32-bit ticks, so also across a wrap of the clock); the other entry is not touched.
\<close>

lemma accept_takes_slot:
  assumes "length (connection ctx) = 2" and "osGetSystemTime ops w = (time, w1)"
    and "socketAccept ops (listener ctx) w1 = (Some k, w2)"
  shows "\<exists>ctx' w'. modbusServerAcceptConnection ops ctx w = Some (ctx', w') \<and>
    connection ctx' = (connection ctx)
      [(if state (connection ctx ! 0) = MODBUS_CONNECTION_STATE_CLOSED then 0
        else if state (connection ctx ! 1) = MODBUS_CONNECTION_STATE_CLOSED then 1
        else if time - timestamp (connection ctx ! 0) < time - timestamp (connection ctx ! 1) then 1 else 0) :=
       cleared_connection\<lparr>socket := Some k, timestamp := time, state := MODBUS_CONNECTION_STATE_RECEIVING\<rparr>]"
proof -
  obtain e w3 where "socketSetTimeout ops (Some k) 0 w2 = (e, w3)" by (metis surj_pair)
  from accept_eq [OF assms this] show ?thesis
    by (simp add: accept_slot_def older_def fresh_connection_def)
qed

lemma accept_takes_slot_example:
  "let c = fresh_connection (Some 1) 0xFFFFFFF0; d = fresh_connection (Some 2) 3;
       ctx = \<lparr>settings = app_settings, listener = Some 0, connection = [d, c]\<rparr>
   in \<exists>ctx' w'. modbusServerAcceptConnection (demo_ops 5 []) ctx demo_world = Some (ctx', w') \<and>
        connection ctx' = [d, fresh_connection (Some 7) 5]"
proof -
  let ?c = "fresh_connection (Some 1) 0xFFFFFFF0" and ?d = "fresh_connection (Some 2) 3"
  let ?ctx = "\<lparr>settings = app_settings :: app_world ModbusServerSettings, listener = Some 0,
    connection = [?d, ?c]\<rparr>"
  from accept_takes_slot [of ?ctx "demo_ops 5 []" demo_world 5 demo_world 7 demo_world]
  show ?thesis by (simp add: demo_ops_def fresh_connection_def)
qed

end
