(* ===== verification/ModbusClientMisc.thy ===== *)
theory ModbusClientMisc
  imports ModbusCommon OsPort
begin

text \<open>
  The state of the Modbus/TCP client (\<open>modbus_client.h\<close>) and \<open>modbus_client_misc.c\<close>: the transaction
  state machine that sends a request and waits for the matching response, the check of a response
  against its request, and the MBAP header.  \<open>modbusClientParseExceptionResp\<close> of
  \<open>modbus_client_pdu.c\<close> is here because the check calls it.
\<close>

datatype ModbusClientState =
    MODBUS_CLIENT_STATE_DISCONNECTED
  | MODBUS_CLIENT_STATE_CONNECTING
  | MODBUS_CLIENT_STATE_CONNECTED
  | MODBUS_CLIENT_STATE_SENDING
  | MODBUS_CLIENT_STATE_RECEIVING
  | MODBUS_CLIENT_STATE_COMPLETE

text \<open>\<open>ModbusClientContext\<close>; its members are prefixed because the server has members of the same names.\<close>

record ModbusClientContext =
  cl_state :: ModbusClientState
  cl_interface :: "nat option"
  cl_unitId :: u8
  cl_transactionId :: u16
  cl_socket :: "socket_handle option"
  cl_timestamp :: systime_t
  cl_timeout :: systime_t
  cl_requestAdu :: buffer
  cl_requestAduLen :: nat
  cl_requestAduPos :: nat
  cl_responseAdu :: buffer
  cl_responseAduLen :: nat
  cl_responseAduPos :: nat
  cl_exceptionCode :: u8

type_synonym 'w client_result = "(error_t \<times> ModbusClientContext \<times> 'w) option"

subsection \<open>The PDUs inside the ADUs\<close>

definition modbusClientGetRequestPdu :: "ModbusClientContext \<Rightarrow> nat" where
  "modbusClientGetRequestPdu ctx = sizeof_ModbusHeader"

definition modbusClientGetResponsePdu :: "ModbusClientContext \<Rightarrow> nat \<times> nat" where
  "modbusClientGetResponsePdu ctx =
     (sizeof_ModbusHeader,
      if cl_responseAduLen ctx \<ge> sizeof_ModbusHeader
      then cl_responseAduLen ctx - sizeof_ModbusHeader else 0)"

lemma modbusClientGetRequestPdu_simp [simp]: "modbusClientGetRequestPdu c = 7"
  by (simp add: modbusClientGetRequestPdu_def)

lemma modbusClientGetResponsePdu_simp [simp]: "modbusClientGetResponsePdu c = (7, cl_responseAduLen c - 7)"
  by (simp add: modbusClientGetResponsePdu_def)

subsection \<open>The MBAP header\<close>

definition modbusClientFormatMbapHeader ::
    "'w net_ops \<Rightarrow> ModbusClientContext \<Rightarrow> nat \<Rightarrow> 'w \<Rightarrow> 'w client_result" where
  "modbusClientFormatMbapHeader ops ctx len w = do {
     let ctx = ctx\<lparr>cl_transactionId := cl_transactionId ctx + 1\<rparr>;
     adu \<leftarrow> wr16 (cl_requestAdu ctx) 0 (htons (cl_transactionId ctx));
     adu \<leftarrow> wr16 adu 2 (htons MODBUS_PROTOCOL_ID);
     adu \<leftarrow> wr16 adu 4 (htons (word_of_nat (len + 1)));
     adu \<leftarrow> wr8 adu 6 (cl_unitId ctx);
     let (time, w) = osGetSystemTime ops w;
     Some (NO_ERROR, ctx\<lparr>cl_requestAdu := adu, cl_requestAduLen := len + sizeof_ModbusHeader,
       cl_requestAduPos := 0, cl_timestamp := time, cl_state := MODBUS_CLIENT_STATE_SENDING\<rparr>, w)
   }"

definition modbusClientParseMbapHeader ::
    "ModbusClientContext \<Rightarrow> (error_t \<times> ModbusClientContext) option" where
  "modbusClientParseMbapHeader ctx =
     (if cl_responseAduPos ctx < sizeof_ModbusHeader then Some (ERROR_INVALID_LENGTH, ctx)
      else do {
        len \<leftarrow> rd16 (cl_responseAdu ctx) 4;
        let n = unat (ntohs len);
        if n < 1 then Some (ERROR_INVALID_LENGTH, ctx)
        else do {
          let n = n - 1;
          protocolId \<leftarrow> rd16 (cl_responseAdu ctx) 2;
          if ntohs protocolId \<noteq> MODBUS_PROTOCOL_ID then Some (ERROR_WRONG_IDENTIFIER, ctx)
          else if n > MODBUS_MAX_PDU_SIZE then Some (ERROR_INVALID_LENGTH, ctx)
          else Some (NO_ERROR, ctx\<lparr>cl_responseAduLen := sizeof_ModbusHeader + n\<rparr>)
        }
      })"

subsection \<open>Matching a response with the request\<close>

definition modbusClientParseExceptionResp ::
    "ModbusClientContext \<Rightarrow> (error_t \<times> ModbusClientContext) option" where
  "modbusClientParseExceptionResp ctx =
     (case modbusClientGetResponsePdu ctx of (response, len) \<Rightarrow>
        if len < sizeof_ModbusExceptionResp then Some (ERROR_INVALID_LENGTH, ctx)
        else do {
          exceptionCode \<leftarrow> rd8 (cl_responseAdu ctx) (response + 1);
          Some (ERROR_EXCEPTION_RECEIVED, ctx\<lparr>cl_exceptionCode := exceptionCode\<rparr>)
        })"

definition modbusClientCheckResp ::
    "ModbusClientContext \<Rightarrow> (error_t \<times> ModbusClientContext) option" where
  "modbusClientCheckResp ctx =
     (if cl_requestAduLen ctx < sizeof_ModbusHeader + 1 then Some (ERROR_INVALID_LENGTH, ctx)
      else if cl_responseAduLen ctx < sizeof_ModbusHeader + 1 then Some (ERROR_INVALID_LENGTH, ctx)
      else do {
        responseId \<leftarrow> rd16 (cl_responseAdu ctx) 0;
        requestId \<leftarrow> rd16 (cl_requestAdu ctx) 0;
        if responseId \<noteq> requestId then Some (ERROR_WRONG_IDENTIFIER, ctx)
        else do {
          responseUnit \<leftarrow> rd8 (cl_responseAdu ctx) 6;
          requestUnit \<leftarrow> rd8 (cl_requestAdu ctx) 6;
          if responseUnit \<noteq> requestUnit then Some (ERROR_UNEXPECTED_RESPONSE, ctx)
          else do {
            responseFunction \<leftarrow> rd8 (cl_responseAdu ctx) 7;
            requestFunction \<leftarrow> rd8 (cl_requestAdu ctx) 7;
            if responseFunction AND MODBUS_FUNCTION_CODE_MASK \<noteq> requestFunction AND MODBUS_FUNCTION_CODE_MASK
            then Some (ERROR_UNEXPECTED_RESPONSE, ctx)
            else if responseFunction AND MODBUS_EXCEPTION_MASK \<noteq> 0
            then modbusClientParseExceptionResp ctx
            else Some (NO_ERROR, ctx)
          }
        }
      })"

subsection \<open>One step of a transaction\<close>

definition client_send :: "'w net_ops \<Rightarrow> ModbusClientContext \<Rightarrow> 'w \<Rightarrow> 'w client_result" where
  "client_send ops ctx w =
     (if cl_requestAduPos ctx < cl_requestAduLen ctx then do {
        data \<leftarrow> rds (cl_requestAdu ctx) (cl_requestAduPos ctx) (cl_requestAduLen ctx - cl_requestAduPos ctx);
        (case socketSend ops (cl_socket ctx) data w of
           (error, n, w) \<Rightarrow>
             if error = NO_ERROR
             then Some (error, ctx\<lparr>cl_requestAduPos := cl_requestAduPos ctx + n\<rparr>, w)
             else Some (error, ctx, w))
      }
      else Some (NO_ERROR, ctx\<lparr>cl_responseAduLen := 0, cl_responseAduPos := 0,
        cl_state := MODBUS_CLIENT_STATE_RECEIVING\<rparr>, w))"

definition client_receive :: "'w net_ops \<Rightarrow> ModbusClientContext \<Rightarrow> 'w \<Rightarrow> 'w client_result" where
  "client_receive ops ctx w =
     (if cl_responseAduPos ctx < sizeof_ModbusHeader then
        (case socketReceive ops (cl_socket ctx) (sizeof_ModbusHeader - cl_responseAduPos ctx) w of
           (error, data, w) \<Rightarrow> do {
             adu \<leftarrow> wrs (cl_responseAdu ctx) (cl_responseAduPos ctx) data;
             let ctx = ctx\<lparr>cl_responseAdu := adu\<rparr>;
             if error = NO_ERROR then do {
               let ctx = ctx\<lparr>cl_responseAduPos := cl_responseAduPos ctx + length data\<rparr>;
               if cl_responseAduPos ctx \<ge> sizeof_ModbusHeader then do {
                 (error, ctx) \<leftarrow> modbusClientParseMbapHeader ctx;
                 Some (error, ctx, w)
               }
               else Some (NO_ERROR, ctx, w)
             }
             else Some (error, ctx, w)
           })
      else if cl_responseAduPos ctx < cl_responseAduLen ctx then
        (case socketReceive ops (cl_socket ctx) (cl_responseAduLen ctx - cl_responseAduPos ctx) w of
           (error, data, w) \<Rightarrow> do {
             adu \<leftarrow> wrs (cl_responseAdu ctx) (cl_responseAduPos ctx) data;
             let ctx = ctx\<lparr>cl_responseAdu := adu\<rparr>;
             if error = NO_ERROR
             then Some (NO_ERROR, ctx\<lparr>cl_responseAduPos := cl_responseAduPos ctx + length data\<rparr>, w)
             else Some (error, ctx, w)
           })
      else do {
        (error, ctx) \<leftarrow> modbusClientCheckResp ctx;
        if error = NO_ERROR
        then Some (NO_ERROR, ctx\<lparr>cl_state := MODBUS_CLIENT_STATE_COMPLETE\<rparr>, w)
        else if error = ERROR_WRONG_IDENTIFIER
        then Some (NO_ERROR, ctx\<lparr>cl_responseAduLen := 0, cl_responseAduPos := 0\<rparr>, w)
        else Some (error, ctx, w)
      })"

definition modbusClientTransaction :: "'w net_ops \<Rightarrow> ModbusClientContext \<Rightarrow> 'w \<Rightarrow> 'w client_result" where
  "modbusClientTransaction ops ctx w =
     (case osGetSystemTime ops w of (time, w) \<Rightarrow>
      case (if timeCompare (cl_timestamp ctx + cl_timeout ctx) time > 0
            then socketSetTimeout ops (cl_socket ctx) (cl_timestamp ctx + cl_timeout ctx - time) w
            else socketSetTimeout ops (cl_socket ctx) 0 w) of (_, w) \<Rightarrow> do {
        (error, ctx, w) \<leftarrow>
          (case cl_state ctx of
             MODBUS_CLIENT_STATE_SENDING \<Rightarrow> client_send ops ctx w
           | MODBUS_CLIENT_STATE_RECEIVING \<Rightarrow> client_receive ops ctx w
           | _ \<Rightarrow> Some (ERROR_WRONG_STATE, ctx, w));
        let error = (if error = ERROR_WOULD_BLOCK \<or> error = ERROR_TIMEOUT then ERROR_TIMEOUT else error);
        let ctx = (if error \<noteq> NO_ERROR \<and> error \<noteq> ERROR_WOULD_BLOCK
                   then ctx\<lparr>cl_state := MODBUS_CLIENT_STATE_CONNECTED\<rparr> else ctx);
        Some (error, ctx, w)
      })"

subsection \<open>Well-formed contexts\<close>

definition client_wf :: "ModbusClientContext \<Rightarrow> bool" where
  "client_wf c \<longleftrightarrow>
     length (cl_requestAdu c) = MODBUS_MAX_ADU_SIZE \<and> length (cl_responseAdu c) = MODBUS_MAX_ADU_SIZE \<and>
     cl_requestAduLen c \<le> MODBUS_MAX_ADU_SIZE \<and> cl_responseAduLen c \<le> MODBUS_MAX_ADU_SIZE"

lemma client_wfD:
  assumes "client_wf c"
  shows "length (cl_requestAdu c) = 260" "length (cl_responseAdu c) = 260"
    "cl_requestAduLen c \<le> 260" "cl_responseAduLen c \<le> 260"
  using assms by (simp_all add: client_wf_def)

lemma client_wf_update [simp]:
  "client_wf (c\<lparr>cl_state := s\<rparr>) = client_wf c" "client_wf (c\<lparr>cl_socket := k\<rparr>) = client_wf c"
  "client_wf (c\<lparr>cl_timestamp := t\<rparr>) = client_wf c" "client_wf (c\<lparr>cl_timeout := t\<rparr>) = client_wf c"
  "client_wf (c\<lparr>cl_requestAduPos := n\<rparr>) = client_wf c" "client_wf (c\<lparr>cl_responseAduPos := n\<rparr>) = client_wf c"
  "client_wf (c\<lparr>cl_exceptionCode := x\<rparr>) = client_wf c" "client_wf (c\<lparr>cl_transactionId := i\<rparr>) = client_wf c"
  by (simp_all add: client_wf_def)

lemma client_wf_updateI [intro]:
  "client_wf c \<Longrightarrow> length b = 260 \<Longrightarrow> client_wf (c\<lparr>cl_responseAdu := b\<rparr>)"
  "client_wf c \<Longrightarrow> length b = 260 \<Longrightarrow> client_wf (c\<lparr>cl_requestAdu := b\<rparr>)"
  "client_wf c \<Longrightarrow> n \<le> 260 \<Longrightarrow> client_wf (c\<lparr>cl_requestAduLen := n\<rparr>)"
  "client_wf c \<Longrightarrow> n \<le> 260 \<Longrightarrow> client_wf (c\<lparr>cl_responseAduLen := n\<rparr>)"
  by (simp_all add: client_wf_def)

text \<open>
  A context in a transaction: the response received so far fits its announced length.
\<close>

definition client_inv :: "ModbusClientContext \<Rightarrow> bool" where
  "client_inv c \<longleftrightarrow> client_wf c \<and>
     (cl_state c = MODBUS_CLIENT_STATE_RECEIVING \<longrightarrow>
        cl_responseAduPos c < 7 \<or> cl_responseAduPos c \<le> cl_responseAduLen c)"

lemma client_inv_wf: "client_inv c \<Longrightarrow> client_wf c"
  by (simp add: client_inv_def)

end
