(* ===== verification/ModbusClientPdu.thy ===== *)
theory ModbusClientPdu
  imports ModbusClientMisc
begin

text \<open>
  \<open>modbus_client_pdu.c\<close>: one definition per function that formats a request or parses a response.
  A pointer to the values to write or to the memory for the values read is a list; an access beyond
  its end is undefined behaviour (\<open>None\<close>).  A quantity is a \<open>uint_t\<close>.
\<close>

definition put :: "'a list \<Rightarrow> nat \<Rightarrow> 'a \<Rightarrow> 'a list option" where
  "put xs i v = (if i < length xs then Some (xs[i := v]) else None)"

definition pick :: "'a list \<Rightarrow> nat \<Rightarrow> 'a option" where
  "pick xs i = (if i < length xs then Some (xs ! i) else None)"

lemma put_in [mem_simps]: "i < length xs \<Longrightarrow> put xs i v = Some (xs[i := v])"
  by (simp add: put_def)

lemma pick_in [mem_simps]: "i < length xs \<Longrightarrow> pick xs i = Some (xs ! i)"
  by (simp add: pick_def)

subsection \<open>Formatting requests\<close>

definition modbusClientFormatReadCoilsReq ::
    "'w net_ops \<Rightarrow> ModbusClientContext \<Rightarrow> u16 \<Rightarrow> nat \<Rightarrow> 'w \<Rightarrow> 'w client_result" where
  "modbusClientFormatReadCoilsReq ops ctx address quantity w = do {
     let request = modbusClientGetRequestPdu ctx;
     adu \<leftarrow> wr8 (cl_requestAdu ctx) request MODBUS_FUNCTION_READ_COILS;
     adu \<leftarrow> wr16 adu (request + 1) (htons address);
     adu \<leftarrow> wr16 adu (request + 3) (htons (word_of_nat quantity));
     modbusClientFormatMbapHeader ops (ctx\<lparr>cl_requestAdu := adu\<rparr>) sizeof_ModbusReadReq w
   }"

definition modbusClientFormatReadDiscreteInputsReq ::
    "'w net_ops \<Rightarrow> ModbusClientContext \<Rightarrow> u16 \<Rightarrow> nat \<Rightarrow> 'w \<Rightarrow> 'w client_result" where
  "modbusClientFormatReadDiscreteInputsReq ops ctx address quantity w = do {
     let request = modbusClientGetRequestPdu ctx;
     adu \<leftarrow> wr8 (cl_requestAdu ctx) request MODBUS_FUNCTION_READ_DISCRETE_INPUTS;
     adu \<leftarrow> wr16 adu (request + 1) (htons address);
     adu \<leftarrow> wr16 adu (request + 3) (htons (word_of_nat quantity));
     modbusClientFormatMbapHeader ops (ctx\<lparr>cl_requestAdu := adu\<rparr>) sizeof_ModbusReadReq w
   }"

definition modbusClientFormatReadHoldingRegsReq ::
    "'w net_ops \<Rightarrow> ModbusClientContext \<Rightarrow> u16 \<Rightarrow> nat \<Rightarrow> 'w \<Rightarrow> 'w client_result" where
  "modbusClientFormatReadHoldingRegsReq ops ctx address quantity w = do {
     let request = modbusClientGetRequestPdu ctx;
     adu \<leftarrow> wr8 (cl_requestAdu ctx) request MODBUS_FUNCTION_READ_HOLDING_REGS;
     adu \<leftarrow> wr16 adu (request + 1) (htons address);
     adu \<leftarrow> wr16 adu (request + 3) (htons (word_of_nat quantity));
     modbusClientFormatMbapHeader ops (ctx\<lparr>cl_requestAdu := adu\<rparr>) sizeof_ModbusReadReq w
   }"

definition modbusClientFormatReadInputRegsReq ::
    "'w net_ops \<Rightarrow> ModbusClientContext \<Rightarrow> u16 \<Rightarrow> nat \<Rightarrow> 'w \<Rightarrow> 'w client_result" where
  "modbusClientFormatReadInputRegsReq ops ctx address quantity w = do {
     let request = modbusClientGetRequestPdu ctx;
     adu \<leftarrow> wr8 (cl_requestAdu ctx) request MODBUS_FUNCTION_READ_INPUT_REGS;
     adu \<leftarrow> wr16 adu (request + 1) (htons address);
     adu \<leftarrow> wr16 adu (request + 3) (htons (word_of_nat quantity));
     modbusClientFormatMbapHeader ops (ctx\<lparr>cl_requestAdu := adu\<rparr>) sizeof_ModbusReadReq w
   }"

definition modbusClientFormatWriteSingleCoilReq ::
    "'w net_ops \<Rightarrow> ModbusClientContext \<Rightarrow> u16 \<Rightarrow> bool \<Rightarrow> 'w \<Rightarrow> 'w client_result" where
  "modbusClientFormatWriteSingleCoilReq ops ctx address v w = do {
     let request = modbusClientGetRequestPdu ctx;
     adu \<leftarrow> wr8 (cl_requestAdu ctx) request MODBUS_FUNCTION_WRITE_SINGLE_COIL;
     adu \<leftarrow> wr16 adu (request + 1) (htons address);
     adu \<leftarrow> wr16 adu (request + 3) (if v then htons MODBUS_COIL_STATE_ON else htons MODBUS_COIL_STATE_OFF);
     modbusClientFormatMbapHeader ops (ctx\<lparr>cl_requestAdu := adu\<rparr>) sizeof_ModbusWriteSingle w
   }"

definition modbusClientFormatWriteSingleRegReq ::
    "'w net_ops \<Rightarrow> ModbusClientContext \<Rightarrow> u16 \<Rightarrow> u16 \<Rightarrow> 'w \<Rightarrow> 'w client_result" where
  "modbusClientFormatWriteSingleRegReq ops ctx address v w = do {
     let request = modbusClientGetRequestPdu ctx;
     adu \<leftarrow> wr8 (cl_requestAdu ctx) request MODBUS_FUNCTION_WRITE_SINGLE_REG;
     adu \<leftarrow> wr16 adu (request + 1) (htons address);
     adu \<leftarrow> wr16 adu (request + 3) (htons v);
     modbusClientFormatMbapHeader ops (ctx\<lparr>cl_requestAdu := adu\<rparr>) sizeof_ModbusWriteSingle w
   }"

definition modbusClientFormatMaskWriteRegReq ::
    "'w net_ops \<Rightarrow> ModbusClientContext \<Rightarrow> u16 \<Rightarrow> u16 \<Rightarrow> u16 \<Rightarrow> 'w \<Rightarrow> 'w client_result" where
  "modbusClientFormatMaskWriteRegReq ops ctx address andMask orMask w = do {
     let request = modbusClientGetRequestPdu ctx;
     adu \<leftarrow> wr8 (cl_requestAdu ctx) request MODBUS_FUNCTION_MASK_WRITE_REG;
     adu \<leftarrow> wr16 adu (request + 1) (htons address);
     adu \<leftarrow> wr16 adu (request + 3) (htons andMask);
     adu \<leftarrow> wr16 adu (request + 5) (htons orMask);
     modbusClientFormatMbapHeader ops (ctx\<lparr>cl_requestAdu := adu\<rparr>) sizeof_ModbusMaskWriteReg w
   }"

definition modbusClientFormatWriteMultipleCoilsReq ::
    "'w net_ops \<Rightarrow> ModbusClientContext \<Rightarrow> u16 \<Rightarrow> nat \<Rightarrow> buffer \<Rightarrow> 'w \<Rightarrow> 'w client_result" where
  "modbusClientFormatWriteMultipleCoilsReq ops ctx address quantity v w = do {
     let request = modbusClientGetRequestPdu ctx;
     adu \<leftarrow> wr8 (cl_requestAdu ctx) request MODBUS_FUNCTION_WRITE_MULTIPLE_COILS;
     adu \<leftarrow> wr16 adu (request + 1) (htons address);
     adu \<leftarrow> wr16 adu (request + 3) (htons (word_of_nat quantity));
     adu \<leftarrow> wr8 adu (request + 5) (word_of_nat ((quantity + 7) div 8));
     byteCount \<leftarrow> rd8 adu (request + 5);
     data \<leftarrow> rds v 0 (unat byteCount);
     adu \<leftarrow> wrs adu (request + 6) data;
     byteCount \<leftarrow> rd8 adu (request + 5);
     modbusClientFormatMbapHeader ops (ctx\<lparr>cl_requestAdu := adu\<rparr>)
       (sizeof_ModbusWriteMultipleReq + unat byteCount) w
   }"

text \<open>The loop that copies registers into a request; it calls \<open>ntohs\<close> where \<open>htons\<close> is meant.\<close>

function putRegs_loop :: "u16 list \<Rightarrow> nat \<Rightarrow> nat \<Rightarrow> nat \<Rightarrow> buffer \<Rightarrow> buffer option" where
  "putRegs_loop v quantity a i adu =
     (if i < quantity then do {
        x \<leftarrow> pick v i;
        adu \<leftarrow> wr16 adu (a + 2 * i) (ntohs x);
        putRegs_loop v quantity a (Suc i) adu
      }
      else Some adu)"
  by pat_completeness auto
termination
  by (relation "measure (\<lambda>(v, quantity, a, i, adu). quantity - i)") auto

declare putRegs_loop.simps [simp del]

definition modbusClientFormatWriteMultipleRegsReq ::
    "'w net_ops \<Rightarrow> ModbusClientContext \<Rightarrow> u16 \<Rightarrow> nat \<Rightarrow> u16 list \<Rightarrow> 'w \<Rightarrow> 'w client_result" where
  "modbusClientFormatWriteMultipleRegsReq ops ctx address quantity v w = do {
     let request = modbusClientGetRequestPdu ctx;
     adu \<leftarrow> wr8 (cl_requestAdu ctx) request MODBUS_FUNCTION_WRITE_MULTIPLE_REGS;
     adu \<leftarrow> wr16 adu (request + 1) (htons address);
     adu \<leftarrow> wr16 adu (request + 3) (htons (word_of_nat quantity));
     adu \<leftarrow> wr8 adu (request + 5) (word_of_nat (quantity * 2));
     adu \<leftarrow> putRegs_loop v quantity (request + 6) 0 adu;
     byteCount \<leftarrow> rd8 adu (request + 5);
     modbusClientFormatMbapHeader ops (ctx\<lparr>cl_requestAdu := adu\<rparr>)
       (sizeof_ModbusWriteMultipleReq + unat byteCount) w
   }"

definition modbusClientFormatReadWriteMultipleRegsReq ::
    "'w net_ops \<Rightarrow> ModbusClientContext \<Rightarrow> u16 \<Rightarrow> u16 \<Rightarrow> u16 \<Rightarrow> u16 \<Rightarrow> u16 list \<Rightarrow> 'w \<Rightarrow> 'w client_result" where
  "modbusClientFormatReadWriteMultipleRegsReq ops ctx readAddress readQuantity writeAddress writeQuantity v w = do {
     let request = modbusClientGetRequestPdu ctx;
     adu \<leftarrow> wr8 (cl_requestAdu ctx) request MODBUS_FUNCTION_READ_WRITE_MULTIPLE_REGS;
     adu \<leftarrow> wr16 adu (request + 1) (htons readAddress);
     adu \<leftarrow> wr16 adu (request + 3) (htons readQuantity);
     adu \<leftarrow> wr16 adu (request + 5) (htons writeAddress);
     adu \<leftarrow> wr16 adu (request + 7) (htons writeQuantity);
     adu \<leftarrow> wr8 adu (request + 9) (word_of_nat (unat writeQuantity * 2));
     adu \<leftarrow> putRegs_loop v (unat writeQuantity) (request + 10) 0 adu;
     byteCount \<leftarrow> rd8 adu (request + 9);
     modbusClientFormatMbapHeader ops (ctx\<lparr>cl_requestAdu := adu\<rparr>)
       (sizeof_ModbusReadWriteMultipleRegsReq + unat byteCount) w
   }"

subsection \<open>Parsing responses\<close>

text \<open>
  A parser returns the status and what the memory for the values holds afterwards; the responses to
  writes carry no values.
\<close>

definition modbusClientParseReadCoilsResp ::
    "ModbusClientContext \<Rightarrow> nat \<Rightarrow> buffer \<Rightarrow> (error_t \<times> buffer) option" where
  "modbusClientParseReadCoilsResp ctx quantity v =
     (case modbusClientGetResponsePdu ctx of (response, len) \<Rightarrow>
        if len < sizeof_ModbusReadResp then Some (ERROR_INVALID_LENGTH, v)
        else do {
          let n = len - sizeof_ModbusReadResp;
          functionCode \<leftarrow> rd8 (cl_responseAdu ctx) response;
          if functionCode \<noteq> MODBUS_FUNCTION_READ_COILS then Some (ERROR_INVALID_RESPONSE, v)
          else do {
            byteCount \<leftarrow> rd8 (cl_responseAdu ctx) (response + 1);
            if unat byteCount \<noteq> n \<or> unat byteCount \<noteq> (quantity + 7) div 8
            then Some (ERROR_INVALID_LENGTH, v)
            else do {
              data \<leftarrow> rds (cl_responseAdu ctx) (response + 2) (unat byteCount);
              v \<leftarrow> wrs v 0 data;
              Some (NO_ERROR, v)
            }
          }
        })"

definition modbusClientParseReadDiscreteInputsResp ::
    "ModbusClientContext \<Rightarrow> nat \<Rightarrow> buffer \<Rightarrow> (error_t \<times> buffer) option" where
  "modbusClientParseReadDiscreteInputsResp ctx quantity v =
     (case modbusClientGetResponsePdu ctx of (response, len) \<Rightarrow>
        if len < sizeof_ModbusReadResp then Some (ERROR_INVALID_LENGTH, v)
        else do {
          let n = len - sizeof_ModbusReadResp;
          functionCode \<leftarrow> rd8 (cl_responseAdu ctx) response;
          if functionCode \<noteq> MODBUS_FUNCTION_READ_DISCRETE_INPUTS then Some (ERROR_INVALID_RESPONSE, v)
          else do {
            byteCount \<leftarrow> rd8 (cl_responseAdu ctx) (response + 1);
            if unat byteCount \<noteq> n \<or> unat byteCount \<noteq> (quantity + 7) div 8
            then Some (ERROR_INVALID_LENGTH, v)
            else do {
              data \<leftarrow> rds (cl_responseAdu ctx) (response + 2) (unat byteCount);
              v \<leftarrow> wrs v 0 data;
              Some (NO_ERROR, v)
            }
          }
        })"

function getRegs_loop :: "buffer \<Rightarrow> nat \<Rightarrow> nat \<Rightarrow> nat \<Rightarrow> u16 list \<Rightarrow> u16 list option" where
  "getRegs_loop adu quantity a i v =
     (if i < quantity then do {
        x \<leftarrow> rd16 adu (a + 2 * i);
        v \<leftarrow> put v i (ntohs x);
        getRegs_loop adu quantity a (Suc i) v
      }
      else Some v)"
  by pat_completeness auto
termination
  by (relation "measure (\<lambda>(adu, quantity, a, i, v). quantity - i)") auto

declare getRegs_loop.simps [simp del]

definition modbusClientParseReadHoldingRegsResp ::
    "ModbusClientContext \<Rightarrow> nat \<Rightarrow> u16 list \<Rightarrow> (error_t \<times> u16 list) option" where
  "modbusClientParseReadHoldingRegsResp ctx quantity v =
     (case modbusClientGetResponsePdu ctx of (response, len) \<Rightarrow>
        if len < sizeof_ModbusReadResp then Some (ERROR_INVALID_LENGTH, v)
        else do {
          let n = len - sizeof_ModbusReadResp;
          functionCode \<leftarrow> rd8 (cl_responseAdu ctx) response;
          if functionCode \<noteq> MODBUS_FUNCTION_READ_HOLDING_REGS then Some (ERROR_INVALID_RESPONSE, v)
          else do {
            byteCount \<leftarrow> rd8 (cl_responseAdu ctx) (response + 1);
            if unat byteCount \<noteq> n \<or> unat byteCount \<noteq> quantity * 2
            then Some (ERROR_INVALID_LENGTH, v)
            else do {
              v \<leftarrow> getRegs_loop (cl_responseAdu ctx) quantity (response + 2) 0 v;
              Some (NO_ERROR, v)
            }
          }
        })"

definition modbusClientParseReadInputRegsResp ::
    "ModbusClientContext \<Rightarrow> nat \<Rightarrow> u16 list \<Rightarrow> (error_t \<times> u16 list) option" where
  "modbusClientParseReadInputRegsResp ctx quantity v =
     (case modbusClientGetResponsePdu ctx of (response, len) \<Rightarrow>
        if len < sizeof_ModbusReadResp then Some (ERROR_INVALID_LENGTH, v)
        else do {
          let n = len - sizeof_ModbusReadResp;
          functionCode \<leftarrow> rd8 (cl_responseAdu ctx) response;
          if functionCode \<noteq> MODBUS_FUNCTION_READ_INPUT_REGS then Some (ERROR_INVALID_RESPONSE, v)
          else do {
            byteCount \<leftarrow> rd8 (cl_responseAdu ctx) (response + 1);
            if unat byteCount \<noteq> n \<or> unat byteCount \<noteq> quantity * 2
            then Some (ERROR_INVALID_LENGTH, v)
            else do {
              v \<leftarrow> getRegs_loop (cl_responseAdu ctx) quantity (response + 2) 0 v;
              Some (NO_ERROR, v)
            }
          }
        })"

definition modbusClientParseReadWriteMultipleRegsResp ::
    "ModbusClientContext \<Rightarrow> nat \<Rightarrow> u16 list \<Rightarrow> (error_t \<times> u16 list) option" where
  "modbusClientParseReadWriteMultipleRegsResp ctx quantity v =
     (case modbusClientGetResponsePdu ctx of (response, len) \<Rightarrow>
        if len < sizeof_ModbusReadResp then Some (ERROR_INVALID_LENGTH, v)
        else do {
          let n = len - sizeof_ModbusReadResp;
          functionCode \<leftarrow> rd8 (cl_responseAdu ctx) response;
          if functionCode \<noteq> MODBUS_FUNCTION_READ_WRITE_MULTIPLE_REGS then Some (ERROR_INVALID_RESPONSE, v)
          else do {
            byteCount \<leftarrow> rd8 (cl_responseAdu ctx) (response + 1);
            if unat byteCount \<noteq> n \<or> unat byteCount \<noteq> quantity * 2
            then Some (ERROR_INVALID_LENGTH, v)
            else do {
              v \<leftarrow> getRegs_loop (cl_responseAdu ctx) quantity (response + 2) 0 v;
              Some (NO_ERROR, v)
            }
          }
        })"

definition modbusClientParseWriteSingleCoilResp ::
    "ModbusClientContext \<Rightarrow> u16 \<Rightarrow> bool \<Rightarrow> error_t option" where
  "modbusClientParseWriteSingleCoilResp ctx address v =
     (case modbusClientGetResponsePdu ctx of (response, len) \<Rightarrow>
        if len < sizeof_ModbusWriteSingle then Some ERROR_INVALID_LENGTH
        else do {
          functionCode \<leftarrow> rd8 (cl_responseAdu ctx) response;
          if functionCode \<noteq> MODBUS_FUNCTION_WRITE_SINGLE_COIL then Some ERROR_INVALID_RESPONSE
          else do {
            let referenceValue = (if v then MODBUS_COIL_STATE_ON else MODBUS_COIL_STATE_OFF);
            x0 \<leftarrow> rd16 (cl_responseAdu ctx) (response + 1);
            x1 \<leftarrow> rd16 (cl_responseAdu ctx) (response + 3);
            if ntohs x0 \<noteq> address \<or> ntohs x1 \<noteq> referenceValue
            then Some ERROR_INVALID_RESPONSE else Some NO_ERROR
          }
        })"

definition modbusClientParseWriteSingleRegResp ::
    "ModbusClientContext \<Rightarrow> u16 \<Rightarrow> u16 \<Rightarrow> error_t option" where
  "modbusClientParseWriteSingleRegResp ctx address v =
     (case modbusClientGetResponsePdu ctx of (response, len) \<Rightarrow>
        if len < sizeof_ModbusWriteSingle then Some ERROR_INVALID_LENGTH
        else do {
          functionCode \<leftarrow> rd8 (cl_responseAdu ctx) response;
          if functionCode \<noteq> MODBUS_FUNCTION_WRITE_SINGLE_REG then Some ERROR_INVALID_RESPONSE
          else do {
            x0 \<leftarrow> rd16 (cl_responseAdu ctx) (response + 1);
            x1 \<leftarrow> rd16 (cl_responseAdu ctx) (response + 3);
            if ntohs x0 \<noteq> address \<or> ntohs x1 \<noteq> v
            then Some ERROR_INVALID_RESPONSE else Some NO_ERROR
          }
        })"

definition modbusClientParseWriteMultipleCoilsResp ::
    "ModbusClientContext \<Rightarrow> u16 \<Rightarrow> nat \<Rightarrow> error_t option" where
  "modbusClientParseWriteMultipleCoilsResp ctx address quantity =
     (case modbusClientGetResponsePdu ctx of (response, len) \<Rightarrow>
        if len < sizeof_ModbusWriteMultipleResp then Some ERROR_INVALID_LENGTH
        else do {
          functionCode \<leftarrow> rd8 (cl_responseAdu ctx) response;
          if functionCode \<noteq> MODBUS_FUNCTION_WRITE_MULTIPLE_COILS then Some ERROR_INVALID_RESPONSE
          else do {
            x0 \<leftarrow> rd16 (cl_responseAdu ctx) (response + 1);
            x1 \<leftarrow> rd16 (cl_responseAdu ctx) (response + 3);
            if ntohs x0 \<noteq> address \<or> unat (ntohs x1) \<noteq> quantity
            then Some ERROR_INVALID_RESPONSE else Some NO_ERROR
          }
        })"

definition modbusClientParseWriteMultipleRegsResp ::
    "ModbusClientContext \<Rightarrow> u16 \<Rightarrow> nat \<Rightarrow> error_t option" where
  "modbusClientParseWriteMultipleRegsResp ctx address quantity =
     (case modbusClientGetResponsePdu ctx of (response, len) \<Rightarrow>
        if len < sizeof_ModbusWriteMultipleResp then Some ERROR_INVALID_LENGTH
        else do {
          functionCode \<leftarrow> rd8 (cl_responseAdu ctx) response;
          if functionCode \<noteq> MODBUS_FUNCTION_WRITE_MULTIPLE_REGS then Some ERROR_INVALID_RESPONSE
          else do {
            x0 \<leftarrow> rd16 (cl_responseAdu ctx) (response + 1);
            x1 \<leftarrow> rd16 (cl_responseAdu ctx) (response + 3);
            if ntohs x0 \<noteq> address \<or> unat (ntohs x1) \<noteq> quantity
            then Some ERROR_INVALID_RESPONSE else Some NO_ERROR
          }
        })"

definition modbusClientParseMaskWriteRegResp ::
    "ModbusClientContext \<Rightarrow> u16 \<Rightarrow> u16 \<Rightarrow> u16 \<Rightarrow> error_t option" where
  "modbusClientParseMaskWriteRegResp ctx address andMask orMask =
     (case modbusClientGetResponsePdu ctx of (response, len) \<Rightarrow>
        if len < sizeof_ModbusMaskWriteReg then Some ERROR_INVALID_LENGTH
        else do {
          functionCode \<leftarrow> rd8 (cl_responseAdu ctx) response;
          if functionCode \<noteq> MODBUS_FUNCTION_MASK_WRITE_REG then Some ERROR_INVALID_RESPONSE
          else do {
            x0 \<leftarrow> rd16 (cl_responseAdu ctx) (response + 1);
            x1 \<leftarrow> rd16 (cl_responseAdu ctx) (response + 3);
            x2 \<leftarrow> rd16 (cl_responseAdu ctx) (response + 5);
            if ntohs x0 \<noteq> address \<or> ntohs x1 \<noteq> andMask \<or> ntohs x2 \<noteq> orMask
            then Some ERROR_INVALID_RESPONSE else Some NO_ERROR
          }
        })"

end
