(* ===== verification/ModbusClient.thy ===== *)
theory ModbusClient
  imports ModbusClientPdu
begin

text \<open>
  \<open>modbus_client.c\<close>: the functions the application calls.  The context pointer and the pointers to
  values are taken to be valid.  Every request runs the same \<open>while(!error)\<close> loop, \<open>client_loop\<close>, with
  its own functions to format the request and to parse the response.  The loop ends only if the peer
  lets it, so it is a partial function: \<open>None\<close> stands for undefined behaviour and for a loop that
  never returns.
\<close>

abbreviation (input) MODBUS_CLIENT_DEFAULT_TIMEOUT :: systime_t where
  "MODBUS_CLIENT_DEFAULT_TIMEOUT \<equiv> 20000"

subsection \<open>The context\<close>

definition cleared_client :: ModbusClientContext where
  "cleared_client =
     \<lparr>cl_state = MODBUS_CLIENT_STATE_DISCONNECTED, cl_interface = None, cl_unitId = 0,
      cl_transactionId = 0, cl_socket = None, cl_timestamp = 0, cl_timeout = 0,
      cl_requestAdu = replicate MODBUS_MAX_ADU_SIZE 0, cl_requestAduLen = 0, cl_requestAduPos = 0,
      cl_responseAdu = replicate MODBUS_MAX_ADU_SIZE 0, cl_responseAduLen = 0,
      cl_responseAduPos = 0, cl_exceptionCode = 0\<rparr>"

definition modbusClientInit :: "'w net_ops \<Rightarrow> 'w \<Rightarrow> error_t \<times> ModbusClientContext \<times> 'w" where
  "modbusClientInit ops w =
     (let ctx = cleared_client\<lparr>cl_state := MODBUS_CLIENT_STATE_DISCONNECTED,
            cl_timeout := MODBUS_CLIENT_DEFAULT_TIMEOUT, cl_unitId := MODBUS_DEFAULT_UNIT_ID\<rparr>;
          (r, w) = netGetRand ops w
      in (NO_ERROR, ctx\<lparr>cl_transactionId := ucast r\<rparr>, w))"

definition modbusClientSetTimeout ::
    "ModbusClientContext \<Rightarrow> systime_t \<Rightarrow> error_t \<times> ModbusClientContext" where
  "modbusClientSetTimeout ctx timeout = (NO_ERROR, ctx\<lparr>cl_timeout := timeout\<rparr>)"

definition modbusClientSetUnitId ::
    "ModbusClientContext \<Rightarrow> u8 \<Rightarrow> error_t \<times> ModbusClientContext" where
  "modbusClientSetUnitId ctx uid = (NO_ERROR, ctx\<lparr>cl_unitId := uid\<rparr>)"

definition modbusClientBindToInterface ::
    "ModbusClientContext \<Rightarrow> nat option \<Rightarrow> error_t \<times> ModbusClientContext" where
  "modbusClientBindToInterface ctx i = (NO_ERROR, ctx\<lparr>cl_interface := i\<rparr>)"

definition modbusClientGetExceptionCode :: "ModbusClientContext \<Rightarrow> error_t \<times> u8" where
  "modbusClientGetExceptionCode ctx = (NO_ERROR, cl_exceptionCode ctx)"

definition modbusClientDisconnect ::
    "'w net_ops \<Rightarrow> ModbusClientContext \<Rightarrow> 'w \<Rightarrow> error_t \<times> ModbusClientContext \<times> 'w" where
  "modbusClientDisconnect ops ctx w =
     (let (ctx, w) = (if cl_socket ctx \<noteq> None
                      then (ctx\<lparr>cl_socket := None\<rparr>, socketClose ops (cl_socket ctx) w) else (ctx, w))
      in (NO_ERROR, ctx\<lparr>cl_state := MODBUS_CLIENT_STATE_DISCONNECTED\<rparr>, w))"

definition modbusClientDeinit ::
    "'w net_ops \<Rightarrow> ModbusClientContext \<Rightarrow> 'w \<Rightarrow> ModbusClientContext \<times> 'w" where
  "modbusClientDeinit ops ctx w =
     (let w = (if cl_socket ctx \<noteq> None then socketClose ops (cl_socket ctx) w else w)
      in (cleared_client, w))"

subsection \<open>Connecting\<close>

text \<open>One pass of the body of the loop; the flag says whether \<open>break\<close> was reached.\<close>

definition connect_step ::
    "'w net_ops \<Rightarrow> u32 \<Rightarrow> u16 \<Rightarrow> ModbusClientContext \<Rightarrow> 'w \<Rightarrow> bool \<times> error_t \<times> ModbusClientContext \<times> 'w" where
  "connect_step ops serverIpAddr serverPort ctx w =
     (case cl_state ctx of
        MODBUS_CLIENT_STATE_DISCONNECTED \<Rightarrow>
          (case socketOpen ops w of (k, w) \<Rightarrow>
             let ctx = ctx\<lparr>cl_socket := k\<rparr>
             in if k \<noteq> None then
                  (case socketBindToInterface ops k (cl_interface ctx) w of (error, w) \<Rightarrow>
                   case (if error = NO_ERROR then socketSetTimeout ops k (cl_timeout ctx) w
                         else (error, w)) of (error, w) \<Rightarrow>
                     if error = NO_ERROR then
                       (case osGetSystemTime ops w of (time, w) \<Rightarrow>
                          (False, error, ctx\<lparr>cl_timestamp := time,
                             cl_state := MODBUS_CLIENT_STATE_CONNECTING\<rparr>, w))
                     else (False, error, ctx, w))
                else (False, ERROR_OPEN_FAILED, ctx, w))
      | MODBUS_CLIENT_STATE_CONNECTING \<Rightarrow>
          (case socketConnect ops (cl_socket ctx) serverIpAddr serverPort w of (error, w) \<Rightarrow>
             if error = NO_ERROR
             then (False, NO_ERROR, ctx\<lparr>cl_state := MODBUS_CLIENT_STATE_CONNECTED\<rparr>, w)
             else if error = ERROR_WOULD_BLOCK \<or> error = ERROR_TIMEOUT
             then (False, ERROR_TIMEOUT, ctx, w)
             else (False, error, ctx, w))
      | MODBUS_CLIENT_STATE_CONNECTED \<Rightarrow> (True, NO_ERROR, ctx, w)
      | _ \<Rightarrow> (False, ERROR_WRONG_STATE, ctx, w))"

partial_function (option) connect_loop ::
    "'w net_ops \<Rightarrow> u32 \<Rightarrow> u16 \<Rightarrow> error_t \<Rightarrow> ModbusClientContext \<Rightarrow> 'w \<Rightarrow> 'w client_result" where
  "connect_loop ops serverIpAddr serverPort error ctx w =
     (if error \<noteq> NO_ERROR then Some (error, ctx, w)
      else (case connect_step ops serverIpAddr serverPort ctx w of (stop, error, ctx, w) \<Rightarrow>
        if stop then Some (error, ctx, w)
        else connect_loop ops serverIpAddr serverPort error ctx w))"

definition modbusClientConnect ::
    "'w net_ops \<Rightarrow> ModbusClientContext \<Rightarrow> u32 \<Rightarrow> u16 \<Rightarrow> 'w \<Rightarrow> 'w client_result" where
  "modbusClientConnect ops ctx serverIpAddr serverPort w = do {
     (error, ctx, w) \<leftarrow> connect_loop ops serverIpAddr serverPort NO_ERROR ctx w;
     if error \<noteq> NO_ERROR \<and> error \<noteq> ERROR_WOULD_BLOCK then
       (let (ctx, w) = (if cl_socket ctx \<noteq> None
                        then (ctx\<lparr>cl_socket := None\<rparr>, socketClose ops (cl_socket ctx) w) else (ctx, w))
        in Some (error, ctx\<lparr>cl_state := MODBUS_CLIENT_STATE_DISCONNECTED\<rparr>, w))
     else Some (error, ctx, w)
   }"

subsection \<open>Requests\<close>

partial_function (option) client_loop ::
    "'w net_ops \<Rightarrow> (ModbusClientContext \<Rightarrow> 'w \<Rightarrow> 'w client_result) \<Rightarrow>
     (ModbusClientContext \<Rightarrow> 'v \<Rightarrow> (error_t \<times> 'v) option) \<Rightarrow>
     error_t \<Rightarrow> ModbusClientContext \<Rightarrow> 'v \<Rightarrow> 'w \<Rightarrow> (error_t \<times> ModbusClientContext \<times> 'v \<times> 'w) option" where
  "client_loop ops format parse error ctx v w =
     (if error \<noteq> NO_ERROR then Some (error, ctx, v, w)
      else if cl_state ctx = MODBUS_CLIENT_STATE_CONNECTED then
        Option.bind (format ctx w) (\<lambda>(error, ctx, w). client_loop ops format parse error ctx v w)
      else if cl_state ctx = MODBUS_CLIENT_STATE_SENDING \<or> cl_state ctx = MODBUS_CLIENT_STATE_RECEIVING then
        Option.bind (modbusClientTransaction ops ctx w)
          (\<lambda>(error, ctx, w). client_loop ops format parse error ctx v w)
      else if cl_state ctx = MODBUS_CLIENT_STATE_COMPLETE then
        Option.bind (parse ctx v)
          (\<lambda>(error, v). Some (error, ctx\<lparr>cl_state := MODBUS_CLIENT_STATE_CONNECTED\<rparr>, v, w))
      else client_loop ops format parse ERROR_NOT_CONNECTED ctx v w)"

text \<open>A request whose response carries no values.\<close>

definition no_values :: "(ModbusClientContext \<Rightarrow> error_t option) \<Rightarrow> ModbusClientContext \<Rightarrow> unit \<Rightarrow> (error_t \<times> unit) option" where
  "no_values parse ctx v = map_option (\<lambda>error. (error, v)) (parse ctx)"

definition modbusClientReadCoils ::
    "'w net_ops \<Rightarrow> ModbusClientContext \<Rightarrow> u16 \<Rightarrow> nat \<Rightarrow> buffer \<Rightarrow> 'w \<Rightarrow>
     (error_t \<times> ModbusClientContext \<times> buffer \<times> 'w) option" where
  "modbusClientReadCoils ops ctx address quantity v w =
     (if quantity < 1 \<or> quantity > 2000 then Some (ERROR_INVALID_PARAMETER, ctx, v, w)
      else client_loop ops (\<lambda>ctx. modbusClientFormatReadCoilsReq ops ctx address quantity)
       (\<lambda>ctx. modbusClientParseReadCoilsResp ctx quantity) NO_ERROR ctx v w)"

text \<open>The address parameter of this function is a \<open>uint8_t\<close>.\<close>

definition modbusClientReadDiscreteInputs ::
    "'w net_ops \<Rightarrow> ModbusClientContext \<Rightarrow> u8 \<Rightarrow> nat \<Rightarrow> buffer \<Rightarrow> 'w \<Rightarrow>
     (error_t \<times> ModbusClientContext \<times> buffer \<times> 'w) option" where
  "modbusClientReadDiscreteInputs ops ctx address quantity v w =
     (if quantity < 1 \<or> quantity > 2000 then Some (ERROR_INVALID_PARAMETER, ctx, v, w)
      else client_loop ops (\<lambda>ctx. modbusClientFormatReadDiscreteInputsReq ops ctx (ucast address) quantity)
       (\<lambda>ctx. modbusClientParseReadDiscreteInputsResp ctx quantity) NO_ERROR ctx v w)"

definition modbusClientReadHoldingRegs ::
    "'w net_ops \<Rightarrow> ModbusClientContext \<Rightarrow> u16 \<Rightarrow> nat \<Rightarrow> u16 list \<Rightarrow> 'w \<Rightarrow>
     (error_t \<times> ModbusClientContext \<times> u16 list \<times> 'w) option" where
  "modbusClientReadHoldingRegs ops ctx address quantity v w =
     (if quantity < 1 \<or> quantity > 125 then Some (ERROR_INVALID_PARAMETER, ctx, v, w)
      else client_loop ops (\<lambda>ctx. modbusClientFormatReadHoldingRegsReq ops ctx address quantity)
       (\<lambda>ctx. modbusClientParseReadHoldingRegsResp ctx quantity) NO_ERROR ctx v w)"

definition modbusClientReadInputRegs ::
    "'w net_ops \<Rightarrow> ModbusClientContext \<Rightarrow> u16 \<Rightarrow> nat \<Rightarrow> u16 list \<Rightarrow> 'w \<Rightarrow>
     (error_t \<times> ModbusClientContext \<times> u16 list \<times> 'w) option" where
  "modbusClientReadInputRegs ops ctx address quantity v w =
     (if quantity < 1 \<or> quantity > 125 then Some (ERROR_INVALID_PARAMETER, ctx, v, w)
      else client_loop ops (\<lambda>ctx. modbusClientFormatReadInputRegsReq ops ctx address quantity)
       (\<lambda>ctx. modbusClientParseReadInputRegsResp ctx quantity) NO_ERROR ctx v w)"

definition modbusClientWriteSingleCoil ::
    "'w net_ops \<Rightarrow> ModbusClientContext \<Rightarrow> u16 \<Rightarrow> bool \<Rightarrow> 'w \<Rightarrow>
     (error_t \<times> ModbusClientContext \<times> unit \<times> 'w) option" where
  "modbusClientWriteSingleCoil ops ctx address x w =
     client_loop ops (\<lambda>ctx. modbusClientFormatWriteSingleCoilReq ops ctx address x)
       (no_values (\<lambda>ctx. modbusClientParseWriteSingleCoilResp ctx address x)) NO_ERROR ctx () w"

definition modbusClientWriteSingleReg ::
    "'w net_ops \<Rightarrow> ModbusClientContext \<Rightarrow> u16 \<Rightarrow> u16 \<Rightarrow> 'w \<Rightarrow>
     (error_t \<times> ModbusClientContext \<times> unit \<times> 'w) option" where
  "modbusClientWriteSingleReg ops ctx address x w =
     client_loop ops (\<lambda>ctx. modbusClientFormatWriteSingleRegReq ops ctx address x)
       (no_values (\<lambda>ctx. modbusClientParseWriteSingleRegResp ctx address x)) NO_ERROR ctx () w"

definition modbusClientWriteMultipleCoils ::
    "'w net_ops \<Rightarrow> ModbusClientContext \<Rightarrow> u16 \<Rightarrow> nat \<Rightarrow> buffer \<Rightarrow> 'w \<Rightarrow>
     (error_t \<times> ModbusClientContext \<times> unit \<times> 'w) option" where
  "modbusClientWriteMultipleCoils ops ctx address quantity x w =
     (if quantity < 1 \<or> quantity > 1968 then Some (ERROR_INVALID_PARAMETER, ctx, (), w)
      else client_loop ops (\<lambda>ctx. modbusClientFormatWriteMultipleCoilsReq ops ctx address quantity x)
       (no_values (\<lambda>ctx. modbusClientParseWriteMultipleCoilsResp ctx address quantity)) NO_ERROR ctx () w)"

definition modbusClientWriteMultipleRegs ::
    "'w net_ops \<Rightarrow> ModbusClientContext \<Rightarrow> u16 \<Rightarrow> nat \<Rightarrow> u16 list \<Rightarrow> 'w \<Rightarrow>
     (error_t \<times> ModbusClientContext \<times> unit \<times> 'w) option" where
  "modbusClientWriteMultipleRegs ops ctx address quantity x w =
     (if quantity < 1 \<or> quantity > 123 then Some (ERROR_INVALID_PARAMETER, ctx, (), w)
      else client_loop ops (\<lambda>ctx. modbusClientFormatWriteMultipleRegsReq ops ctx address quantity x)
       (no_values (\<lambda>ctx. modbusClientParseWriteMultipleRegsResp ctx address quantity)) NO_ERROR ctx () w)"

definition modbusClientMaskWriteReg ::
    "'w net_ops \<Rightarrow> ModbusClientContext \<Rightarrow> u16 \<Rightarrow> u16 \<Rightarrow> u16 \<Rightarrow> 'w \<Rightarrow>
     (error_t \<times> ModbusClientContext \<times> unit \<times> 'w) option" where
  "modbusClientMaskWriteReg ops ctx address andMask orMask w =
     client_loop ops (\<lambda>ctx. modbusClientFormatMaskWriteRegReq ops ctx address andMask orMask)
       (no_values (\<lambda>ctx. modbusClientParseMaskWriteRegResp ctx address andMask orMask)) NO_ERROR ctx () w"

definition modbusClientReadWriteMultipleRegs ::
    "'w net_ops \<Rightarrow> ModbusClientContext \<Rightarrow> u16 \<Rightarrow> u16 \<Rightarrow> u16 list \<Rightarrow> u16 \<Rightarrow> u16 \<Rightarrow> u16 list \<Rightarrow> 'w \<Rightarrow>
     (error_t \<times> ModbusClientContext \<times> u16 list \<times> 'w) option" where
  "modbusClientReadWriteMultipleRegs ops ctx readAddress readQuantity v writeAddress writeQuantity x w =
     (if unat readQuantity < 1 \<or> unat readQuantity > 125 \<or> unat writeQuantity < 1 \<or> unat writeQuantity > 121 then Some (ERROR_INVALID_PARAMETER, ctx, v, w)
      else client_loop ops (\<lambda>ctx. modbusClientFormatReadWriteMultipleRegsReq ops ctx readAddress readQuantity writeAddress writeQuantity x)
       (\<lambda>ctx. modbusClientParseReadWriteMultipleRegsResp ctx (unat readQuantity)) NO_ERROR ctx v w)"

end
