(* ===== verification/ModbusClientSafe.thy ===== *)
theory ModbusClientSafe
  imports ModbusClient
begin

text \<open>
  What the client guarantees against any server: no step of a transaction leaves the buffers, every
  failed transaction returns the client to the connected state, and every request returns if the
  peer sends finitely many bytes.
\<close>

subsection \<open>The MBAP header\<close>

definition mbap_request :: "u16 \<Rightarrow> u8 \<Rightarrow> nat \<Rightarrow> buffer \<Rightarrow> buffer" where
  "mbap_request tid uid len adu =
     (set16 (set16 (set16 adu 0 (htons tid)) 2 (htons MODBUS_PROTOCOL_ID)) 4 (htons (word_of_nat (len + 1))))
       [6 := uid]"

lemma length_mbap_request [simp]: "length (mbap_request tid uid len adu) = length adu"
  by (simp add: mbap_request_def)

lemma nth_mbap_request_pdu [simp]: "7 \<le> j \<Longrightarrow> mbap_request tid uid len adu ! j = adu ! j"
  by (simp add: mbap_request_def)

lemma client_format_mbap_eq:
  assumes "client_wf c" and "osGetSystemTime ops w = (time, w')"
  shows "modbusClientFormatMbapHeader ops c len w = Some (NO_ERROR,
    c\<lparr>cl_transactionId := cl_transactionId c + 1,
      cl_requestAdu := mbap_request (cl_transactionId c + 1) (cl_unitId c) len (cl_requestAdu c),
      cl_requestAduLen := len + 7, cl_requestAduPos := 0, cl_timestamp := time,
      cl_state := MODBUS_CLIENT_STATE_SENDING\<rparr>, w')"
  using assms client_wfD [OF assms(1)]
  by (simp add: modbusClientFormatMbapHeader_def mem_simps mbap_request_def Let_def)

lemma client_parse_mbap_ok:
  assumes "client_wf c" and "7 \<le> cl_responseAduPos c" and "mbap_acceptable (cl_responseAdu c)"
  shows "modbusClientParseMbapHeader c =
    Some (NO_ERROR, c\<lparr>cl_responseAduLen := 6 + mbap_length (cl_responseAdu c)\<rparr>)"
  using assms(2,3) client_wfD(2) [OF assms(1)]
  by (simp add: modbusClientParseMbapHeader_def mem_simps mbap_acceptable_def mbap_length_def Let_def
      del: unat_u16_bound) arith

lemma client_parse_mbap_reject:
  assumes "client_wf c" and "7 \<le> cl_responseAduPos c" and "\<not> mbap_acceptable (cl_responseAdu c)"
  shows "\<exists>e\<in>{ERROR_INVALID_LENGTH, ERROR_WRONG_IDENTIFIER}. modbusClientParseMbapHeader c = Some (e, c)"
  using assms(2,3) client_wfD(2) [OF assms(1)]
  by (simp add: modbusClientParseMbapHeader_def mem_simps mbap_acceptable_def mbap_length_def Let_def
      not_less not_le) linarith

subsection \<open>Matching a response\<close>

lemma client_check_eq:
  assumes "client_wf c"
  shows "modbusClientCheckResp c =
    (let req = cl_requestAdu c; resp = cl_responseAdu c
     in if cl_requestAduLen c < 8 \<or> cl_responseAduLen c < 8 then Some (ERROR_INVALID_LENGTH, c)
        else if get16 resp 0 \<noteq> get16 req 0 then Some (ERROR_WRONG_IDENTIFIER, c)
        else if resp ! 6 \<noteq> req ! 6 then Some (ERROR_UNEXPECTED_RESPONSE, c)
        else if resp ! 7 AND 0x7F \<noteq> req ! 7 AND 0x7F then Some (ERROR_UNEXPECTED_RESPONSE, c)
        else if resp ! 7 AND 0x80 = 0 then Some (NO_ERROR, c)
        else if cl_responseAduLen c < 9 then Some (ERROR_INVALID_LENGTH, c)
        else Some (ERROR_EXCEPTION_RECEIVED, c\<lparr>cl_exceptionCode := resp ! 8\<rparr>))"
  using client_wfD [OF assms]
  by (auto simp: modbusClientCheckResp_def modbusClientParseExceptionResp_def mem_simps Let_def)

subsection \<open>One step of a transaction\<close>

text \<open>
  The peer sends finitely many bytes: \<open>left\<close> bounds what it will still send, every successful receive
  takes at least one byte of it, and every successful send takes at least one byte of the request.
\<close>

definition finite_peer :: "'w net_ops \<Rightarrow> ('w \<Rightarrow> nat) \<Rightarrow> bool" where
  "finite_peer ops left \<longleftrightarrow>
     (\<forall>k n w. 0 < n \<and> fst (socketReceive ops k n w) = NO_ERROR \<longrightarrow>
        left (snd (snd (socketReceive ops k n w))) < left w) \<and>
     (\<forall>k d w. d \<noteq> [] \<and> fst (socketSend ops k d w) = NO_ERROR \<longrightarrow>
        0 < fst (snd (socketSend ops k d w)) \<and> left (snd (snd (socketSend ops k d w))) \<le> left w) \<and>
     (\<forall>w. left (snd (osGetSystemTime ops w)) \<le> left w) \<and>
     (\<forall>k t w. left (snd (socketSetTimeout ops k t w)) \<le> left w)"

lemma finite_peerD:
  assumes "finite_peer ops left"
  shows "socketReceive ops k n w = (NO_ERROR, data, w1) \<Longrightarrow> 0 < n \<Longrightarrow> left w1 < left w"
    and "socketSend ops k d w = (NO_ERROR, m, w1) \<Longrightarrow> d \<noteq> [] \<Longrightarrow> 0 < m \<and> left w1 \<le> left w"
    and "osGetSystemTime ops w = (t, w1) \<Longrightarrow> left w1 \<le> left w"
    and "socketSetTimeout ops k t w = (e, w1) \<Longrightarrow> left w1 \<le> left w"
proof -
  note F = assms [unfolded finite_peer_def]
  show "socketReceive ops k n w = (NO_ERROR, data, w1) \<Longrightarrow> 0 < n \<Longrightarrow> left w1 < left w"
    using conjunct1 [OF F] by (metis fst_conv snd_conv)
  show "socketSend ops k d w = (NO_ERROR, m, w1) \<Longrightarrow> d \<noteq> [] \<Longrightarrow> 0 < m \<and> left w1 \<le> left w"
    using conjunct1 [OF conjunct2 [OF F]] by (metis fst_conv snd_conv)
  show "osGetSystemTime ops w = (t, w1) \<Longrightarrow> left w1 \<le> left w"
    using F by (metis snd_conv)
  show "socketSetTimeout ops k t w = (e, w1) \<Longrightarrow> left w1 \<le> left w"
    using F by (metis snd_conv)
qed

text \<open>The passes a request can still make.\<close>

definition rank :: "('w \<Rightarrow> nat) \<Rightarrow> ModbusClientContext \<Rightarrow> 'w \<Rightarrow> nat" where
  "rank left c w =
     (case cl_state c of
        MODBUS_CLIENT_STATE_CONNECTED \<Rightarrow> 2 * left w + 400
      | MODBUS_CLIENT_STATE_SENDING \<Rightarrow> 2 * left w + 2 + (cl_requestAduLen c - cl_requestAduPos c)
      | MODBUS_CLIENT_STATE_RECEIVING \<Rightarrow> 2 * left w +
          (if 7 \<le> cl_responseAduPos c \<and> cl_responseAduLen c \<le> cl_responseAduPos c then 2 else 1)
      | _ \<Rightarrow> 0)"

text \<open>
  A step from the sending or the receiving state: it keeps the request and the context well formed, and it
  either fails back to the connected state or goes on with a smaller rank.
\<close>

definition step_ok ::
    "ModbusClientContext \<Rightarrow> 'w client_result \<Rightarrow> bool" where
  "step_ok c r \<longleftrightarrow> (\<exists>e c' w'. r = Some (e, c', w') \<and>
     client_wf c' \<and> (e = NO_ERROR \<longrightarrow> client_inv c') \<and>
     cl_requestAdu c' = cl_requestAdu c \<and> cl_requestAduLen c' = cl_requestAduLen c \<and>
     cl_socket c' = cl_socket c \<and> cl_timeout c' = cl_timeout c \<and>
     (e = NO_ERROR \<longrightarrow> cl_state c' \<in> {MODBUS_CLIENT_STATE_SENDING, MODBUS_CLIENT_STATE_RECEIVING,
        MODBUS_CLIENT_STATE_COMPLETE}))"

definition progress :: "('w \<Rightarrow> nat) \<Rightarrow> nat \<Rightarrow> 'w client_result \<Rightarrow> bool" where
  "progress left n r \<longleftrightarrow> (\<forall>c' w'. r = Some (NO_ERROR, c', w') \<longrightarrow> rank left c' w' < n)"

lemma client_send_ok:
  assumes "client_inv c" and "cl_state c = MODBUS_CLIENT_STATE_SENDING" and "net_ok ops"
  shows "step_ok c (client_send ops c w)"
    and "finite_peer ops left \<Longrightarrow> progress left (rank left c w) (client_send ops c w)"
proof -
  note L = client_wfD [OF client_inv_wf [OF assms(1)]]
  let ?data = "take (cl_requestAduLen c - cl_requestAduPos c) (drop (cl_requestAduPos c) (cl_requestAdu c))"
  obtain e n w1 where r: "socketSend ops (cl_socket c) ?data w = (e, n, w1)" by (metis prod_cases3)
  have run: "client_send ops c w =
      (if cl_requestAduPos c < cl_requestAduLen c
       then Some (e, if e = NO_ERROR then c\<lparr>cl_requestAduPos := cl_requestAduPos c + n\<rparr> else c, w1)
       else Some (NO_ERROR, c\<lparr>cl_responseAduLen := 0, cl_responseAduPos := 0,
         cl_state := MODBUS_CLIENT_STATE_RECEIVING\<rparr>, w))"
    using r L by (simp add: client_send_def mem_simps)
  show "step_ok c (client_send ops c w)"
    unfolding run using assms(1,2) by (auto simp: step_ok_def client_inv_def client_wf_def)
  assume fin: "finite_peer ops left"
  show "progress left (rank left c w) (client_send ops c w)"
  proof (cases "cl_requestAduPos c < cl_requestAduLen c \<and> e = NO_ERROR")
    case True
    then have "?data \<noteq> []" using L by simp
    with finite_peerD(2) [OF fin, OF r [unfolded conjunct2 [OF True]]] have "0 < n" "left w1 \<le> left w" by auto
    with True show ?thesis unfolding run using assms(2) by (simp add: progress_def rank_def; arith)
  next
    case False
    then show ?thesis unfolding run using assms(2) by (auto simp: progress_def rank_def)
  qed
qed

lemma step_ok_Some:
  "step_ok c (Some (e, c', w')) \<longleftrightarrow> client_wf c' \<and> (e = NO_ERROR \<longrightarrow> client_inv c') \<and>
     cl_requestAdu c' = cl_requestAdu c \<and> cl_requestAduLen c' = cl_requestAduLen c \<and>
     cl_socket c' = cl_socket c \<and> cl_timeout c' = cl_timeout c \<and>
     (e = NO_ERROR \<longrightarrow> cl_state c' \<in> {MODBUS_CLIENT_STATE_SENDING, MODBUS_CLIENT_STATE_RECEIVING,
        MODBUS_CLIENT_STATE_COMPLETE})"
  by (simp add: step_ok_def)

lemma progress_Some:
  "progress left n (Some (e, c', w')) \<longleftrightarrow> (e = NO_ERROR \<longrightarrow> rank left c' w' < n)"
  by (auto simp: progress_def)

lemma client_receive_header_ok:
  assumes "client_inv c" and "cl_state c = MODBUS_CLIENT_STATE_RECEIVING" and "net_ok ops"
    and "cl_responseAduPos c < 7"
  shows "step_ok c (client_receive ops c w)"
    and "finite_peer ops left \<Longrightarrow> progress left (rank left c w) (client_receive ops c w)"
proof -
  note wf = client_inv_wf [OF assms(1)]
  note L = client_wfD [OF wf]
  obtain e data w1 where r: "socketReceive ops (cl_socket c) (7 - cl_responseAduPos c) w = (e, data, w1)"
    by (metis prod_cases3)
  have n: "cl_responseAduPos c + length data \<le> 7" using net_okD(1) [OF assms(3) r] assms(4) by simp
  let ?c = "c\<lparr>cl_responseAdu := blit (cl_responseAdu c) (cl_responseAduPos c) data\<rparr>"
  let ?d = "?c\<lparr>cl_responseAduPos := cl_responseAduPos c + length data\<rparr>"
  have wfd: "client_wf ?d" using wf n L by (auto intro: client_wf_updateI)
  have run: "client_receive ops c w =
      (if e \<noteq> NO_ERROR then Some (e, ?c, w1)
       else if cl_responseAduPos c + length data < 7 then Some (NO_ERROR, ?d, w1)
       else (do { (error, ctx) \<leftarrow> modbusClientParseMbapHeader ?d; Some (error, ctx, w1) }))"
    using r assms(4) n L by (simp add: client_receive_def mem_simps Let_def)
  have parse: "\<exists>e'. modbusClientParseMbapHeader ?d = Some (e', ?d) \<and> e' \<noteq> NO_ERROR \<or>
      modbusClientParseMbapHeader ?d = Some (NO_ERROR,
        ?d\<lparr>cl_responseAduLen := 6 + mbap_length (cl_responseAdu ?d)\<rparr>) \<and>
      1 \<le> mbap_length (cl_responseAdu ?d) \<and> mbap_length (cl_responseAdu ?d) \<le> 254"
    if full: "7 \<le> cl_responseAduPos c + length data"
  proof (cases "mbap_acceptable (cl_responseAdu ?d)")
    case True
    with client_parse_mbap_ok [OF wfd] full show ?thesis by (auto simp: mbap_acceptable_def)
  next
    case False
    with client_parse_mbap_reject [OF wfd] full show ?thesis by fastforce
  qed
  show "step_ok c (client_receive ops c w)"
  proof (cases "e = NO_ERROR \<and> 7 \<le> cl_responseAduPos c + length data")
    case True
    with parse n wfd assms(2) show ?thesis
      unfolding run by (auto simp: step_ok_Some client_inv_def client_wf_def)
  next
    case False
    with wfd wf assms(1,2,4) n show ?thesis
      unfolding run by (auto simp: step_ok_Some client_inv_def client_wf_def)
  qed
  assume fin: "finite_peer ops left"
  show "progress left (rank left c w) (client_receive ops c w)"
  proof (cases "e = NO_ERROR")
    case True
    with finite_peerD(1) [OF fin, of "cl_socket c" "7 - cl_responseAduPos c" w data w1] r assms(4)
    have "left w1 < left w" by simp
    then have less: "2 * left w1 + 2 < 2 * left w + 1" by simp
    have "rank left c w = 2 * left w + 1" using assms(2,4) by (simp add: rank_def)
    moreover have "rank left d w1 \<le> 2 * left w1 + 2" if "cl_state d = MODBUS_CLIENT_STATE_RECEIVING" for d
      using that by (simp add: rank_def)
    ultimately have "rank left d w1 < rank left c w" if "cl_state d = MODBUS_CLIENT_STATE_RECEIVING" for d
      using less that by (metis order.strict_trans1)
    with parse assms(2) show ?thesis
      unfolding run by (cases "cl_responseAduPos c + length data < 7") (auto simp: progress_Some not_less)
  qed (simp add: run progress_Some)
qed

lemma client_receive_body_ok:
  assumes "client_inv c" and "cl_state c = MODBUS_CLIENT_STATE_RECEIVING" and "net_ok ops"
    and "7 \<le> cl_responseAduPos c" and "cl_responseAduPos c < cl_responseAduLen c"
  shows "step_ok c (client_receive ops c w)"
    and "finite_peer ops left \<Longrightarrow> progress left (rank left c w) (client_receive ops c w)"
proof -
  note wf = client_inv_wf [OF assms(1)]
  note L = client_wfD [OF wf]
  obtain e data w1 where
    r: "socketReceive ops (cl_socket c) (cl_responseAduLen c - cl_responseAduPos c) w = (e, data, w1)"
    by (metis prod_cases3)
  have n: "cl_responseAduPos c + length data \<le> cl_responseAduLen c"
    using net_okD(1) [OF assms(3) r] assms(5) by simp
  let ?c = "c\<lparr>cl_responseAdu := blit (cl_responseAdu c) (cl_responseAduPos c) data\<rparr>"
  have run: "client_receive ops c w = Some (e,
      if e = NO_ERROR then ?c\<lparr>cl_responseAduPos := cl_responseAduPos c + length data\<rparr> else ?c, w1)"
    using r assms(4,5) n L by (simp add: client_receive_def mem_simps Let_def)
  show "step_ok c (client_receive ops c w)"
    unfolding run using assms(1,2,4,5) n L by (auto simp: step_ok_Some client_inv_def client_wf_def)
  assume fin: "finite_peer ops left"
  show "progress left (rank left c w) (client_receive ops c w)"
  proof (cases "e = NO_ERROR")
    case True
    with finite_peerD(1) [OF fin, of "cl_socket c" "cl_responseAduLen c - cl_responseAduPos c" w data w1]
      r assms(5)
    have "left w1 < left w" by simp
    with True show ?thesis unfolding run using assms(2,4,5) by (simp add: progress_Some rank_def)
  qed (simp add: run progress_Some)
qed

lemma client_receive_check_ok:
  assumes "client_inv c" and "cl_state c = MODBUS_CLIENT_STATE_RECEIVING"
    and "7 \<le> cl_responseAduPos c" and "cl_responseAduLen c \<le> cl_responseAduPos c"
  shows "step_ok c (client_receive ops c w)"
    and "progress left (rank left c w) (client_receive ops c w)"
proof -
  note wf = client_inv_wf [OF assms(1)]
  have "\<exists>e d. modbusClientCheckResp c = Some (e, d) \<and>
      (d = c \<or> (\<exists>x. d = c\<lparr>cl_exceptionCode := x\<rparr>) \<and> e = ERROR_EXCEPTION_RECEIVED)"
    unfolding client_check_eq [OF wf] Let_def by auto
  then obtain e d where ch: "modbusClientCheckResp c = Some (e, d)"
    and d: "d = c \<or> (\<exists>x. d = c\<lparr>cl_exceptionCode := x\<rparr>) \<and> e = ERROR_EXCEPTION_RECEIVED" by blast
  have run: "client_receive ops c w =
      (if e = NO_ERROR then Some (NO_ERROR, d\<lparr>cl_state := MODBUS_CLIENT_STATE_COMPLETE\<rparr>, w)
       else if e = ERROR_WRONG_IDENTIFIER
       then Some (NO_ERROR, d\<lparr>cl_responseAduLen := 0, cl_responseAduPos := 0\<rparr>, w)
       else Some (e, d, w))"
    using ch assms(3,4) by (simp add: client_receive_def)
  show "step_ok c (client_receive ops c w)"
    unfolding run using d assms(1,2) by (auto simp: step_ok_Some client_inv_def client_wf_def)
  show "progress left (rank left c w) (client_receive ops c w)"
    unfolding run using d assms(2-4) by (auto simp: progress_Some rank_def)
qed

lemma client_receive_ok:
  assumes "client_inv c" and "cl_state c = MODBUS_CLIENT_STATE_RECEIVING" and "net_ok ops"
  shows "step_ok c (client_receive ops c w)"
    and "finite_peer ops left \<Longrightarrow> progress left (rank left c w) (client_receive ops c w)"
proof -
  consider "cl_responseAduPos c < 7" | "7 \<le> cl_responseAduPos c" "cl_responseAduPos c < cl_responseAduLen c"
    | "7 \<le> cl_responseAduPos c" "cl_responseAduLen c \<le> cl_responseAduPos c" by linarith
  note split = this
  from split show "step_ok c (client_receive ops c w)"
    using assms client_receive_header_ok(1) client_receive_body_ok(1) client_receive_check_ok(1)
    by (metis not_less)
  assume "finite_peer ops left"
  with split show "progress left (rank left c w) (client_receive ops c w)"
    using assms client_receive_header_ok(2) client_receive_body_ok(2) client_receive_check_ok(2)
    by (metis not_less)
qed

lemma transaction_ok:
  assumes "client_inv c" and "net_ok ops"
    and "cl_state c = MODBUS_CLIENT_STATE_SENDING \<or> cl_state c = MODBUS_CLIENT_STATE_RECEIVING"
  shows "\<exists>e c' w'. modbusClientTransaction ops c w = Some (e, c', w') \<and> client_inv c' \<and>
    cl_requestAdu c' = cl_requestAdu c \<and> cl_requestAduLen c' = cl_requestAduLen c \<and>
    cl_socket c' = cl_socket c \<and> cl_timeout c' = cl_timeout c \<and>
    (if e = NO_ERROR
     then cl_state c' \<in> {MODBUS_CLIENT_STATE_SENDING, MODBUS_CLIENT_STATE_RECEIVING, MODBUS_CLIENT_STATE_COMPLETE} \<and>
       (finite_peer ops left \<longrightarrow> rank left c' w' < rank left c w)
     else cl_state c' = MODBUS_CLIENT_STATE_CONNECTED \<and> e \<noteq> ERROR_WOULD_BLOCK)"
proof -
  obtain time w1 where t: "osGetSystemTime ops w = (time, w1)" by (metis surj_pair)
  let ?t = "if timeCompare (cl_timestamp c + cl_timeout c) time > 0
    then socketSetTimeout ops (cl_socket c) (cl_timestamp c + cl_timeout c - time) w1
    else socketSetTimeout ops (cl_socket c) 0 w1"
  obtain e0 w2 where st: "?t = (e0, w2)" by (metis surj_pair)
  let ?step = "case cl_state c of MODBUS_CLIENT_STATE_SENDING \<Rightarrow> client_send ops c w2
    | MODBUS_CLIENT_STATE_RECEIVING \<Rightarrow> client_receive ops c w2
    | _ \<Rightarrow> Some (ERROR_WRONG_STATE, c, w2)"
  have "step_ok c ?step"
    using assms client_send_ok(1) [OF assms(1)] client_receive_ok(1) [OF assms(1)] by auto
  then obtain e d w3 where d: "?step = Some (e, d, w3)" "client_wf d" "e = NO_ERROR \<longrightarrow> client_inv d"
    "cl_requestAdu d = cl_requestAdu c" "cl_requestAduLen d = cl_requestAduLen c"
    "cl_socket d = cl_socket c" "cl_timeout d = cl_timeout c"
    "e = NO_ERROR \<longrightarrow> cl_state d \<in> {MODBUS_CLIENT_STATE_SENDING, MODBUS_CLIENT_STATE_RECEIVING,
       MODBUS_CLIENT_STATE_COMPLETE}"
    unfolding step_ok_def by auto
  have pr: "rank left d w3 < rank left c w" if fin: "finite_peer ops left" and e: "e = NO_ERROR"
  proof -
    have "left w2 \<le> left w1"
      using finite_peerD(4) [OF fin, of "cl_socket c" _ w1 e0 w2] st by (auto split: if_splits)
    then have "left w2 \<le> left w" using finite_peerD(3) [OF fin t] by simp
    then have "rank left c w2 \<le> rank left c w" using assms(3) by (auto simp: rank_def)
    moreover have "progress left (rank left c w2) ?step"
      using assms client_send_ok(2) [OF assms(1) _ assms(2) fin] client_receive_ok(2) [OF assms(1) _ assms(2) fin]
      by auto
    ultimately show ?thesis using d(1) e by (simp add: progress_Some)
  qed
  show ?thesis
  proof (cases "e = NO_ERROR")
    case True
    with d t st pr show ?thesis by (simp add: modbusClientTransaction_def)
  next
    case False
    have "modbusClientTransaction ops c w =
        (let e = (if e = ERROR_WOULD_BLOCK \<or> e = ERROR_TIMEOUT then ERROR_TIMEOUT else e)
         in Some (e, d\<lparr>cl_state := MODBUS_CLIENT_STATE_CONNECTED\<rparr>, w3))"
      using d(1) t st False by (simp add: modbusClientTransaction_def Let_def)
    with False d show ?thesis by (simp add: Let_def client_inv_def)
  qed
qed

subsection \<open>The request loop\<close>

text \<open>What the loop needs of the functions it is given.\<close>

definition format_ok :: "(ModbusClientContext \<Rightarrow> 'w \<Rightarrow> 'w client_result) \<Rightarrow> ('w \<Rightarrow> nat) \<Rightarrow> bool" where
  "format_ok format left \<longleftrightarrow> (\<forall>c w. client_inv c \<longrightarrow>
     (\<exists>c' w'. format c w = Some (NO_ERROR, c', w') \<and> client_inv c' \<and>
        cl_state c' = MODBUS_CLIENT_STATE_SENDING \<and> cl_requestAduLen c' \<le> 260 \<and> left w' \<le> left w))"

definition parse_ok :: "(ModbusClientContext \<Rightarrow> 'v \<Rightarrow> (error_t \<times> 'v) option) \<Rightarrow> 'v \<Rightarrow> bool" where
  "parse_ok parse v \<longleftrightarrow> (\<forall>c. client_inv c \<longrightarrow> parse c v \<noteq> None)"

lemma client_loop_returns:
  assumes "net_ok ops" and "finite_peer ops left" and "format_ok format left" and "parse_ok parse v"
    and "client_inv c"
  shows "\<exists>e c' v' w'. client_loop ops format parse NO_ERROR c v w = Some (e, c', v', w') \<and> client_inv c' \<and>
    (cl_state c \<notin> {MODBUS_CLIENT_STATE_DISCONNECTED, MODBUS_CLIENT_STATE_CONNECTING} \<longrightarrow>
      cl_state c' = MODBUS_CLIENT_STATE_CONNECTED)"
  using assms(5)
proof (induction "rank left c w" arbitrary: c w rule: less_induct)
  case less
  have done_: "client_loop ops format parse e c v w = Some (e, c, v, w)" if "e \<noteq> NO_ERROR" for e c w
    using that by (subst client_loop.simps) simp
  show ?case
  proof (cases "cl_state c")
    case MODBUS_CLIENT_STATE_CONNECTED
    from assms(3) less.prems obtain c1 w1 where f: "format c w = Some (NO_ERROR, c1, w1)" "client_inv c1"
      "cl_state c1 = MODBUS_CLIENT_STATE_SENDING" "cl_requestAduLen c1 \<le> 260" "left w1 \<le> left w"
      unfolding format_ok_def by blast
    then have "rank left c1 w1 < rank left c w" using MODBUS_CLIENT_STATE_CONNECTED by (simp add: rank_def)
    from less.hyps [OF this f(2)] f(1,3) MODBUS_CLIENT_STATE_CONNECTED show ?thesis
      by (subst client_loop.simps) auto
  next
    case MODBUS_CLIENT_STATE_COMPLETE
    from assms(4) less.prems obtain e v' where "parse c v = Some (e, v')"
      unfolding parse_ok_def by fastforce
    with MODBUS_CLIENT_STATE_COMPLETE less.prems show ?thesis
      by (subst client_loop.simps) (simp add: client_inv_def)
  next
    case MODBUS_CLIENT_STATE_DISCONNECTED
    with less.prems show ?thesis by (subst client_loop.simps) (simp add: done_)
  next
    case MODBUS_CLIENT_STATE_CONNECTING
    with less.prems show ?thesis by (subst client_loop.simps) (simp add: done_)
  next
    case MODBUS_CLIENT_STATE_SENDING
    with transaction_ok [OF less.prems assms(1), of w left] obtain e c1 w1 where
      t: "modbusClientTransaction ops c w = Some (e, c1, w1)" "client_inv c1"
      "if e = NO_ERROR
       then cl_state c1 \<in> {MODBUS_CLIENT_STATE_SENDING, MODBUS_CLIENT_STATE_RECEIVING, MODBUS_CLIENT_STATE_COMPLETE}
         \<and> rank left c1 w1 < rank left c w
       else cl_state c1 = MODBUS_CLIENT_STATE_CONNECTED"
      using assms(2) by (auto split: if_splits)
    have run: "client_loop ops format parse NO_ERROR c v w = client_loop ops format parse e c1 v w1"
      using t(1) MODBUS_CLIENT_STATE_SENDING by (subst client_loop.simps) simp
    show ?thesis
      using t less.hyps [of c1 w1] unfolding run by (cases "e = NO_ERROR") (auto simp: done_)
  next
    case MODBUS_CLIENT_STATE_RECEIVING
    with transaction_ok [OF less.prems assms(1), of w left] obtain e c1 w1 where
      t: "modbusClientTransaction ops c w = Some (e, c1, w1)" "client_inv c1"
      "if e = NO_ERROR
       then cl_state c1 \<in> {MODBUS_CLIENT_STATE_SENDING, MODBUS_CLIENT_STATE_RECEIVING, MODBUS_CLIENT_STATE_COMPLETE}
         \<and> rank left c1 w1 < rank left c w
       else cl_state c1 = MODBUS_CLIENT_STATE_CONNECTED"
      using assms(2) by (auto split: if_splits)
    have run: "client_loop ops format parse NO_ERROR c v w = client_loop ops format parse e c1 v w1"
      using t(1) MODBUS_CLIENT_STATE_RECEIVING by (subst client_loop.simps) simp
    show ?thesis
      using t less.hyps [of c1 w1] unfolding run by (cases "e = NO_ERROR") (auto simp: done_)
  qed
qed

end
