(* ===== verification/ModbusClientFun.thy ===== *)
theory ModbusClientFun
  imports ModbusClientSafe ModbusSpec
begin

text \<open>
  The functional behaviour of the client: which bytes a request is, what is read from a response, and
  that no function that formats or parses leaves its buffers.
\<close>

subsection \<open>Requests as lists of bytes\<close>

definition client_request_pdu :: "ModbusClientContext \<Rightarrow> buffer" where
  "client_request_pdu c = take (cl_requestAduLen c - sizeof_ModbusHeader) (drop sizeof_ModbusHeader (cl_requestAdu c))"

definition client_response_pdu :: "ModbusClientContext \<Rightarrow> buffer" where
  "client_response_pdu c = take (cl_responseAduLen c - sizeof_ModbusHeader) (drop sizeof_ModbusHeader (cl_responseAdu c))"

definition read_pdu :: "u8 \<Rightarrow> u16 \<Rightarrow> u16 \<Rightarrow> buffer" where
  "read_pdu f a x = f # be_bytes a @ be_bytes x"

definition write_coils_pdu :: "u16 \<Rightarrow> nat \<Rightarrow> buffer \<Rightarrow> buffer" where
  "write_coils_pdu a q data = MODBUS_FUNCTION_WRITE_MULTIPLE_COILS # be_bytes a @ be_bytes (word_of_nat q) @
     word_of_nat ((q + 7) div 8) # take ((q + 7) div 8) data"

definition write_regs_pdu :: "u16 \<Rightarrow> u16 list \<Rightarrow> buffer" where
  "write_regs_pdu a vs = MODBUS_FUNCTION_WRITE_MULTIPLE_REGS # be_bytes a @ be_bytes (word_of_nat (length vs)) @
     word_of_nat (length vs * 2) # reg_bytes vs"

definition mask_pdu :: "u16 \<Rightarrow> u16 \<Rightarrow> u16 \<Rightarrow> buffer" where
  "mask_pdu a am om = MODBUS_FUNCTION_MASK_WRITE_REG # be_bytes a @ be_bytes am @ be_bytes om"

definition read_write_pdu :: "u16 \<Rightarrow> u16 \<Rightarrow> u16 \<Rightarrow> u16 list \<Rightarrow> buffer" where
  "read_write_pdu ra rq wa vs = MODBUS_FUNCTION_READ_WRITE_MULTIPLE_REGS #
     be_bytes ra @ be_bytes rq @ be_bytes wa @ be_bytes (word_of_nat (length vs)) @
     word_of_nat (length vs * 2) # reg_bytes vs"

lemma length_pdus [simp]:
  "length (read_pdu f a x) = 5" "length (write_regs_pdu a vs) = 6 + 2 * length vs"
  "length (mask_pdu a am om) = 7" "length (read_write_pdu ra rq wa vs) = 10 + 2 * length vs"
  "(q + 7) div 8 \<le> length data \<Longrightarrow> length (write_coils_pdu a q data) = 6 + (q + 7) div 8"
  by (simp_all add: read_pdu_def write_regs_pdu_def mask_pdu_def read_write_pdu_def write_coils_pdu_def)

text \<open>The context after a request with the given PDU has been formatted.\<close>

definition formatted :: "ModbusClientContext \<Rightarrow> buffer \<Rightarrow> systime_t \<Rightarrow> ModbusClientContext" where
  "formatted c pdu time = c\<lparr>cl_transactionId := cl_transactionId c + 1,
     cl_requestAdu := mbap_request (cl_transactionId c + 1) (cl_unitId c) (length pdu)
       (blit (cl_requestAdu c) 7 pdu),
     cl_requestAduLen := length pdu + 7, cl_requestAduPos := 0, cl_timestamp := time,
     cl_state := MODBUS_CLIENT_STATE_SENDING\<rparr>"

lemma format_done:
  assumes "client_wf c" and "length pdu \<le> 253" and "osGetSystemTime ops w = (time, w')" and "n = length pdu"
  shows "modbusClientFormatMbapHeader ops (c\<lparr>cl_requestAdu := blit (cl_requestAdu c) 7 pdu\<rparr>) n w =
    Some (NO_ERROR, formatted c pdu time, w')"
proof -
  let ?c = "c\<lparr>cl_requestAdu := blit (cl_requestAdu c) 7 pdu\<rparr>"
  have "client_wf ?c" using assms(1,2) client_wfD [OF assms(1)] by (auto intro: client_wf_updateI)
  from client_format_mbap_eq [OF this assms(3)] show ?thesis by (simp add: formatted_def assms(4))
qed

lemma formatted_inv:
  assumes "client_wf c" and "length pdu \<le> 253"
  shows "client_inv (formatted c pdu time)"
  using assms client_wfD [OF assms(1)] by (simp add: formatted_def client_inv_def client_wf_def)

lemma formatted_pdu:
  assumes "client_wf c" and "length pdu \<le> 253"
  shows "client_request_pdu (formatted c pdu time) = pdu"
  using assms(2) client_wfD [OF assms(1)]
  by (intro nth_equalityI) (auto simp: client_request_pdu_def formatted_def nth_blit)

subsection \<open>Building a PDU in the buffer\<close>

lemma upd_blit: "i < length b \<Longrightarrow> b[i := v] = blit b i [v]"
  by (rule nth_equalityI) (auto simp: nth_blit nth_list_update)

lemma blit_chain:
  "j = i + length xs \<Longrightarrow> j + length ys \<le> length b \<Longrightarrow> blit (blit b i xs) j ys = blit b i (xs @ ys)"
  by (simp add: blit_blit)

lemma wr8_blit: "i < length b \<Longrightarrow> wr8 b i v = Some (blit b i [v])"
  by (simp add: mem_simps upd_blit)

lemma wr16_blit: "Suc i < length b \<Longrightarrow> wr16 b i (htons v) = Some (blit b i (be_bytes v))"
  by (simp add: mem_simps set16_blit)

lemma ntohs_htons_eq: "ntohs = htons"
  by (simp add: fun_eq_iff ntohs_def htons_def)

lemma putRegs_loop_eq:
  assumes "q \<le> length v" and "a + 2 * q \<le> length adu" and "i \<le> q"
  shows "putRegs_loop v q a i adu = Some (blit adu (a + 2 * i) (reg_bytes (drop i (take q v))))"
  using assms
proof (induction "q - i" arbitrary: i adu)
  case 0
  then show ?case by (subst putRegs_loop.simps) auto
next
  case (Suc n)
  have i: "i < q" using Suc.hyps(2) by simp
  let ?adu = "blit adu (a + 2 * i) (be_bytes (v ! i))"
  have fit: "Suc (a + 2 * i) < length adu" using i Suc.prems by simp
  have "putRegs_loop v q a i adu = putRegs_loop v q a (Suc i) ?adu"
    using i Suc.prems fit by (subst putRegs_loop.simps) (simp add: mem_simps ntohs_htons_eq set16_blit)
  also have "\<dots> = Some (blit ?adu (a + 2 * Suc i) (reg_bytes (drop (Suc i) (take q v))))"
    using Suc.hyps i Suc.prems fit by simp
  also have "blit ?adu (a + 2 * Suc i) (reg_bytes (drop (Suc i) (take q v))) =
      blit adu (a + 2 * i) (be_bytes (v ! i) @ reg_bytes (drop (Suc i) (take q v)))"
    using Suc.prems i by (intro blit_chain) auto
  also have "be_bytes (v ! i) @ reg_bytes (drop (Suc i) (take q v)) = reg_bytes (drop i (take q v))"
    using Suc.prems i by (simp add: Cons_nth_drop_Suc [symmetric])
  finally show ?case .
qed

subsection \<open>What each function formats\<close>

lemma format_read_eqs:
  assumes "client_wf c" and "osGetSystemTime ops w = (time, w')"
  shows "modbusClientFormatReadCoilsReq ops c a q w = Some (NO_ERROR, formatted c (read_pdu 1 a (word_of_nat q)) time, w')"
    and "modbusClientFormatReadDiscreteInputsReq ops c a q w = Some (NO_ERROR, formatted c (read_pdu 2 a (word_of_nat q)) time, w')"
    and "modbusClientFormatReadHoldingRegsReq ops c a q w = Some (NO_ERROR, formatted c (read_pdu 3 a (word_of_nat q)) time, w')"
    and "modbusClientFormatReadInputRegsReq ops c a q w = Some (NO_ERROR, formatted c (read_pdu 4 a (word_of_nat q)) time, w')"
    and "modbusClientFormatWriteSingleCoilReq ops c a s w =
      Some (NO_ERROR, formatted c (read_pdu 5 a (if s then MODBUS_COIL_STATE_ON else MODBUS_COIL_STATE_OFF)) time, w')"
    and "modbusClientFormatWriteSingleRegReq ops c a x w = Some (NO_ERROR, formatted c (read_pdu 6 a x) time, w')"
proof -
  note L = client_wfD [OF assms(1)]
  have *: "blit (blit (blit (cl_requestAdu c) 7 [f]) 8 (be_bytes a)) 10 (be_bytes y) =
      blit (cl_requestAdu c) 7 (read_pdu f a y)" for f y
    using L by (simp add: blit_chain read_pdu_def)
  have done_: "modbusClientFormatMbapHeader ops
      (c\<lparr>cl_requestAdu := blit (cl_requestAdu c) 7 (read_pdu f a y)\<rparr>) 5 w =
      Some (NO_ERROR, formatted c (read_pdu f a y) time, w')" for f y
    by (rule format_done) (use assms in simp_all)
  note S = wr8_blit wr16_blit * done_ L Let_def
  show "modbusClientFormatReadCoilsReq ops c a q w = Some (NO_ERROR, formatted c (read_pdu 1 a (word_of_nat q)) time, w')"
    by (simp add: modbusClientFormatReadCoilsReq_def S)
  show "modbusClientFormatReadDiscreteInputsReq ops c a q w = Some (NO_ERROR, formatted c (read_pdu 2 a (word_of_nat q)) time, w')"
    by (simp add: modbusClientFormatReadDiscreteInputsReq_def S)
  show "modbusClientFormatReadHoldingRegsReq ops c a q w = Some (NO_ERROR, formatted c (read_pdu 3 a (word_of_nat q)) time, w')"
    by (simp add: modbusClientFormatReadHoldingRegsReq_def S)
  show "modbusClientFormatReadInputRegsReq ops c a q w = Some (NO_ERROR, formatted c (read_pdu 4 a (word_of_nat q)) time, w')"
    by (simp add: modbusClientFormatReadInputRegsReq_def S)
  show "modbusClientFormatWriteSingleCoilReq ops c a s w =
      Some (NO_ERROR, formatted c (read_pdu 5 a (if s then MODBUS_COIL_STATE_ON else MODBUS_COIL_STATE_OFF)) time, w')"
    by (cases s) (simp_all add: modbusClientFormatWriteSingleCoilReq_def S)
  show "modbusClientFormatWriteSingleRegReq ops c a x w = Some (NO_ERROR, formatted c (read_pdu 6 a x) time, w')"
    by (simp add: modbusClientFormatWriteSingleRegReq_def S)
qed

lemma format_mask_eq:
  assumes "client_wf c" and "osGetSystemTime ops w = (time, w')"
  shows "modbusClientFormatMaskWriteRegReq ops c a am om w = Some (NO_ERROR, formatted c (mask_pdu a am om) time, w')"
proof -
  note L = client_wfD [OF assms(1)]
  have *: "blit (blit (blit (blit (cl_requestAdu c) 7 [22]) 8 (be_bytes a)) 10 (be_bytes am)) 12 (be_bytes om) =
      blit (cl_requestAdu c) 7 (mask_pdu a am om)"
    using L by (simp add: blit_chain mask_pdu_def)
  have "modbusClientFormatMbapHeader ops (c\<lparr>cl_requestAdu := blit (cl_requestAdu c) 7 (mask_pdu a am om)\<rparr>) 7 w =
      Some (NO_ERROR, formatted c (mask_pdu a am om) time, w')"
    by (rule format_done) (use assms in simp_all)
  then show ?thesis
    by (simp add: modbusClientFormatMaskWriteRegReq_def wr8_blit wr16_blit * L Let_def)
qed

lemma format_write_coils_eq:
  assumes "client_wf c" and "osGetSystemTime ops w = (time, w')" and "q \<le> 1968" and "(q + 7) div 8 \<le> length v"
  shows "modbusClientFormatWriteMultipleCoilsReq ops c a q v w =
    Some (NO_ERROR, formatted c (write_coils_pdu a q v) time, w')"
proof -
  note L = client_wfD [OF assms(1)]
  have nb: "(q + 7) div 8 \<le> 246" using div_le_mono [of "q + 7" 1975 8] assms(3) by simp
  then have n: "unat (word_of_nat ((q + 7) div 8) :: u8) = (q + 7) div 8" by (intro unat_of_nat_u8) simp
  let ?hdr = "15 # be_bytes a @ be_bytes (word_of_nat q) @ [word_of_nat ((q + 7) div 8)]"
  let ?b = "blit (cl_requestAdu c) 7 ?hdr"
  have 1: "blit (blit (blit (blit (cl_requestAdu c) 7 [15]) 8 (be_bytes a)) 10 (be_bytes (word_of_nat q))) 12
      [word_of_nat ((q + 7) div 8)] = ?b"
    using L by (simp add: blit_chain)
  have 2: "blit ?b 13 (take ((q + 7) div 8) v) = blit (cl_requestAdu c) 7 (write_coils_pdu a q v)"
    using L nb assms(4) by (subst blit_chain) (simp_all add: write_coils_pdu_def)
  have c: "?b ! 12 = word_of_nat ((q + 7) div 8)" using L by (simp add: nth_blit nth_append)
  have c2: "blit (cl_requestAdu c) 7 (write_coils_pdu a q v) ! 12 = word_of_nat ((q + 7) div 8)"
    unfolding 2 [symmetric] using L nb assms(4) c by (subst nth_blit) simp_all
  have "modbusClientFormatMbapHeader ops (c\<lparr>cl_requestAdu := blit (cl_requestAdu c) 7 (write_coils_pdu a q v)\<rparr>)
      (6 + (q + 7) div 8) w = Some (NO_ERROR, formatted c (write_coils_pdu a q v) time, w')"
    by (rule format_done) (use assms nb in simp_all)
  then show ?thesis
    using L nb assms(4) c c2
    by (simp add: modbusClientFormatWriteMultipleCoilsReq_def wr8_blit wr16_blit 1 2 n rd8_in rds_in wrs_in Let_def)
qed

lemma format_write_regs_eq:
  assumes "client_wf c" and "osGetSystemTime ops w = (time, w')" and "q \<le> 123" and "q \<le> length v"
  shows "modbusClientFormatWriteMultipleRegsReq ops c a q v w =
    Some (NO_ERROR, formatted c (write_regs_pdu a (take q v)) time, w')"
proof -
  note L = client_wfD [OF assms(1)]
  have n: "unat (word_of_nat (q * 2) :: u8) = q * 2" using assms(3) by (intro unat_of_nat_u8) simp
  let ?b = "blit (cl_requestAdu c) 7 (16 # be_bytes a @ be_bytes (word_of_nat q) @ [word_of_nat (q * 2)])"
  let ?pdu = "write_regs_pdu a (take q v)"
  have 1: "blit (blit (blit (blit (cl_requestAdu c) 7 [16]) 8 (be_bytes a)) 10 (be_bytes (word_of_nat q))) 12
      [word_of_nat (q * 2)] = ?b"
    using L by (simp add: blit_chain del: of_nat_mult)
  have 2: "blit ?b 13 (reg_bytes (take q v)) = blit (cl_requestAdu c) 7 ?pdu"
    using L assms(3,4) by (subst blit_chain) (simp_all add: write_regs_pdu_def del: of_nat_mult)
  have c2: "blit (cl_requestAdu c) 7 ?pdu ! 12 = word_of_nat (q * 2)"
    unfolding 2 [symmetric] using L assms(3,4) by (simp add: nth_blit nth_append)
  have loop: "putRegs_loop v q 13 0 ?b = Some (blit (cl_requestAdu c) 7 ?pdu)"
    using putRegs_loop_eq [of q v 13 ?b 0] L assms(3,4) 2 by (simp del: of_nat_mult)
  have "modbusClientFormatMbapHeader ops (c\<lparr>cl_requestAdu := blit (cl_requestAdu c) 7 ?pdu\<rparr>) (6 + q * 2) w =
      Some (NO_ERROR, formatted c ?pdu time, w')"
    by (rule format_done) (use assms in simp_all)
  then show ?thesis
    using L assms(3,4) c2
    by (simp add: modbusClientFormatWriteMultipleRegsReq_def wr8_blit wr16_blit 1 n loop rd8_in Let_def del: of_nat_mult)
qed

lemma format_read_write_eq:
  assumes "client_wf c" and "osGetSystemTime ops w = (time, w')" and "unat wq \<le> 121" and "unat wq \<le> length v"
  shows "modbusClientFormatReadWriteMultipleRegsReq ops c ra rq wa wq v w =
    Some (NO_ERROR, formatted c (read_write_pdu ra rq wa (take (unat wq) v)) time, w')"
proof -
  note L = client_wfD [OF assms(1)]
  let ?q = "unat wq"
  have n: "unat (word_of_nat (?q * 2) :: u8) = ?q * 2" using assms(3) by (intro unat_of_nat_u8) simp
  let ?b = "blit (cl_requestAdu c) 7 (23 # be_bytes ra @ be_bytes rq @ be_bytes wa @ be_bytes wq @ [word_of_nat (?q * 2)])"
  let ?pdu = "read_write_pdu ra rq wa (take ?q v)"
  have 1: "blit (blit (blit (blit (blit (blit (cl_requestAdu c) 7 [23]) 8 (be_bytes ra)) 10 (be_bytes rq)) 12
      (be_bytes wa)) 14 (be_bytes wq)) 16 [word_of_nat (?q * 2)] = ?b"
    using L by (simp add: blit_chain del: of_nat_mult)
  have 2: "blit ?b 17 (reg_bytes (take ?q v)) = blit (cl_requestAdu c) 7 ?pdu"
    using L assms(3,4) by (subst blit_chain) (simp_all add: read_write_pdu_def del: of_nat_mult)
  have c2: "blit (cl_requestAdu c) 7 ?pdu ! 16 = word_of_nat (?q * 2)"
    unfolding 2 [symmetric] using L assms(3,4) by (simp add: nth_blit nth_append)
  have loop: "putRegs_loop v ?q 17 0 ?b = Some (blit (cl_requestAdu c) 7 ?pdu)"
    using putRegs_loop_eq [of ?q v 17 ?b 0] L assms(3,4) 2 by (simp del: of_nat_mult)
  have "modbusClientFormatMbapHeader ops (c\<lparr>cl_requestAdu := blit (cl_requestAdu c) 7 ?pdu\<rparr>) (10 + ?q * 2) w =
      Some (NO_ERROR, formatted c ?pdu time, w')"
    by (rule format_done) (use assms in simp_all)
  then show ?thesis
    using L assms(3,4) c2
    by (simp add: modbusClientFormatReadWriteMultipleRegsReq_def wr8_blit wr16_blit 1 n loop rd8_in Let_def
        del: of_nat_mult)
qed

subsection \<open>What is read from a response\<close>

lemma getRegs_loop_eq:
  assumes "q \<le> length v" and "a + 2 * q \<le> length adu" and "i \<le> q"
  shows "getRegs_loop adu q a i v =
    Some (take i v @ map (\<lambda>k. LOAD16BE adu (a + 2 * k)) [i..<q] @ drop q v)"
  using assms
proof (induction "q - i" arbitrary: i v)
  case 0
  then show ?case by (subst getRegs_loop.simps) auto
next
  case (Suc n)
  have i: "i < q" using Suc.hyps(2) by simp
  let ?v = "v[i := LOAD16BE adu (a + 2 * i)]"
  have "getRegs_loop adu q a i v = getRegs_loop adu q a (Suc i) ?v"
    using i Suc.prems by (subst getRegs_loop.simps) (simp add: mem_simps ntohs_get16)
  also have "\<dots> = Some (take (Suc i) ?v @ map (\<lambda>k. LOAD16BE adu (a + 2 * k)) [Suc i..<q] @ drop q ?v)"
    using Suc.hyps i Suc.prems by simp
  finally show ?case
    using i Suc.prems by (simp add: take_Suc_conv_app_nth upt_conv_Cons)
qed

definition bits_response :: "u8 \<Rightarrow> buffer \<Rightarrow> nat \<Rightarrow> buffer \<Rightarrow> error_t \<times> buffer" where
  "bits_response f rsp q v =
     (if length rsp < 2 then (ERROR_INVALID_LENGTH, v)
      else if rsp ! 0 \<noteq> f then (ERROR_INVALID_RESPONSE, v)
      else if unat (rsp ! 1) \<noteq> length rsp - 2 \<or> unat (rsp ! 1) \<noteq> (q + 7) div 8 then (ERROR_INVALID_LENGTH, v)
      else (NO_ERROR, blit v 0 (drop 2 rsp)))"

definition regs_response :: "u8 \<Rightarrow> buffer \<Rightarrow> nat \<Rightarrow> u16 list \<Rightarrow> error_t \<times> u16 list" where
  "regs_response f rsp q v =
     (if length rsp < 2 then (ERROR_INVALID_LENGTH, v)
      else if rsp ! 0 \<noteq> f then (ERROR_INVALID_RESPONSE, v)
      else if unat (rsp ! 1) \<noteq> length rsp - 2 \<or> unat (rsp ! 1) \<noteq> q * 2 then (ERROR_INVALID_LENGTH, v)
      else (NO_ERROR, bytes_regs rsp 2 q @ drop q v))"

definition echo_response :: "nat \<Rightarrow> buffer \<Rightarrow> buffer \<Rightarrow> error_t" where
  "echo_response n rsp expected =
     (if length rsp < n then ERROR_INVALID_LENGTH
      else if take n rsp \<noteq> expected then ERROR_INVALID_RESPONSE else NO_ERROR)"

lemma response_bytes:
  assumes "client_wf c" and "rsp = client_response_pdu c"
  shows "cl_responseAduLen c - 7 = length rsp"
    and "i < length rsp \<Longrightarrow> rd8 (cl_responseAdu c) (7 + i) = Some (rsp ! i)"
    and "Suc i < length rsp \<Longrightarrow> rd16 (cl_responseAdu c) (7 + i) = Some (get16 rsp i)"
    and "a + n \<le> length rsp \<Longrightarrow> rds (cl_responseAdu c) (7 + a) n = Some (take n (drop a rsp))"
proof -
  note L = client_wfD [OF assms(1)]
  have R: "rsp = take (cl_responseAduLen c - 7) (drop 7 (cl_responseAdu c))"
    unfolding assms(2) client_response_pdu_def ..
  show len: "cl_responseAduLen c - 7 = length rsp" unfolding R using L by simp
  have fit: "i < length rsp \<Longrightarrow> 7 + i < 260" for i using len L by simp
  have nth: "i < length rsp \<Longrightarrow> rsp ! i = cl_responseAdu c ! (7 + i)" for i
    unfolding R using L by simp
  show "i < length rsp \<Longrightarrow> rd8 (cl_responseAdu c) (7 + i) = Some (rsp ! i)"
    using fit [of i] nth L by (simp add: mem_simps)
  show "Suc i < length rsp \<Longrightarrow> rd16 (cl_responseAdu c) (7 + i) = Some (get16 rsp i)"
    using fit [of "Suc i"] nth L by (simp add: mem_simps get16_def)
  show "rds (cl_responseAdu c) (7 + a) n = Some (take n (drop a rsp))" if an: "a + n \<le> length rsp"
  proof -
    have "7 + a + n \<le> length (cl_responseAdu c)" using an len L by simp
    moreover have "take n (drop (7 + a) (cl_responseAdu c)) = take n (drop a rsp)"
      using an by (intro nth_equalityI) (use calculation in \<open>simp_all add: nth add.assoc\<close>)
    ultimately show ?thesis by (simp add: rds_in)
  qed
qed

lemma response_bytes_2:
  assumes "client_wf c" and "rsp = client_response_pdu c" and "2 \<le> length rsp"
  shows "rd8 (cl_responseAdu c) 7 = Some (rsp ! 0)" and "rd8 (cl_responseAdu c) 8 = Some (rsp ! 1)"
    and "rds (cl_responseAdu c) 9 (length rsp - 2) = Some (drop 2 rsp)"
proof -
  note R = response_bytes [OF assms(1,2)]
  have "0 < length rsp" "1 < length rsp" "2 + (length rsp - 2) \<le> length rsp" using assms(3) by linarith+
  from R(2) [OF this(1)] R(2) [OF this(2)] R(4) [OF this(3)]
  show "rd8 (cl_responseAdu c) 7 = Some (rsp ! 0)" "rd8 (cl_responseAdu c) 8 = Some (rsp ! 1)"
    "rds (cl_responseAdu c) 9 (length rsp - 2) = Some (drop 2 rsp)" by simp_all
qed

lemma parse_bits_eqs:
  assumes "client_wf c" and "(q + 7) div 8 \<le> length v" and "rsp = client_response_pdu c"
  shows "modbusClientParseReadCoilsResp c q v = Some (bits_response 1 rsp q v)"
    and "modbusClientParseReadDiscreteInputsResp c q v = Some (bits_response 2 rsp q v)"
proof -
  note R = response_bytes(1) [OF assms(1,3)]
  have both: "modbusClientParseReadCoilsResp c q v = Some (bits_response 1 rsp q v) \<and>
      modbusClientParseReadDiscreteInputsResp c q v = Some (bits_response 2 rsp q v)"
  proof (cases "length rsp < 2")
    case True
    then show ?thesis
      by (simp add: modbusClientParseReadCoilsResp_def modbusClientParseReadDiscreteInputsResp_def
          bits_response_def R)
  next
    case False
    then have "2 \<le> length rsp" by simp
    note B = response_bytes_2 [OF assms(1,3) this]
    have w: "rds (cl_responseAdu c) 9 ((q + 7) div 8) = Some (drop 2 rsp) \<and>
        wrs v 0 (drop 2 rsp) = Some (blit v 0 (drop 2 rsp))" if "length rsp - 2 = (q + 7) div 8"
      using assms(2) B(3) that by (simp add: wrs_in)
    show ?thesis
      using False B(1,2) w
      by (cases "unat (rsp ! 1) = length rsp - 2")
        (simp_all add: modbusClientParseReadCoilsResp_def modbusClientParseReadDiscreteInputsResp_def
          bits_response_def R Let_def)
  qed
  show "modbusClientParseReadCoilsResp c q v = Some (bits_response 1 rsp q v)" using both ..
  show "modbusClientParseReadDiscreteInputsResp c q v = Some (bits_response 2 rsp q v)" using both ..
qed

lemma parse_regs_eqs:
  assumes "client_wf c" and "q \<le> length v" and "rsp = client_response_pdu c"
  shows "modbusClientParseReadHoldingRegsResp c q v = Some (regs_response 3 rsp q v)"
    and "modbusClientParseReadInputRegsResp c q v = Some (regs_response 4 rsp q v)"
    and "modbusClientParseReadWriteMultipleRegsResp c q v = Some (regs_response 23 rsp q v)"
proof -
  note R = response_bytes(1) [OF assms(1,3)]
  note L = client_wfD [OF assms(1)]
  have all: "modbusClientParseReadHoldingRegsResp c q v = Some (regs_response 3 rsp q v) \<and>
      modbusClientParseReadInputRegsResp c q v = Some (regs_response 4 rsp q v) \<and>
      modbusClientParseReadWriteMultipleRegsResp c q v = Some (regs_response 23 rsp q v)"
  proof (cases "length rsp < 2")
    case True
    then show ?thesis
      by (simp add: modbusClientParseReadHoldingRegsResp_def modbusClientParseReadInputRegsResp_def
          modbusClientParseReadWriteMultipleRegsResp_def regs_response_def R)
  next
    case False
    then have "2 \<le> length rsp" by simp
    note B = response_bytes_2 [OF assms(1,3) this]
    have w: "getRegs_loop (cl_responseAdu c) q 9 0 v = Some (bytes_regs rsp 2 q @ drop q v)"
      if q: "length rsp - 2 = q * 2"
    proof -
      have fit: "7 + (cl_responseAduLen c - 7) \<le> length (cl_responseAdu c)" "2 + 2 * q \<le> cl_responseAduLen c - 7"
        using R False q L by linarith+
      from pdu_bytes(4) [OF _ fit(1) fit(2)] assms(3)
      have "bytes_regs (cl_responseAdu c) 9 q = bytes_regs rsp 2 q"
        by (simp add: client_response_pdu_def)
      moreover have "9 + 2 * q \<le> length (cl_responseAdu c)" using fit by linarith
      ultimately show ?thesis
        using getRegs_loop_eq [OF assms(2), of 9 "cl_responseAdu c" 0] by (simp add: bytes_regs_def)
    qed
    show ?thesis
      using False B w
      by (cases "unat (rsp ! 1) = length rsp - 2")
        (simp_all add: modbusClientParseReadHoldingRegsResp_def modbusClientParseReadInputRegsResp_def
          modbusClientParseReadWriteMultipleRegsResp_def regs_response_def R Let_def)
  qed
  show "modbusClientParseReadHoldingRegsResp c q v = Some (regs_response 3 rsp q v)" using all by blast
  show "modbusClientParseReadInputRegsResp c q v = Some (regs_response 4 rsp q v)" using all by blast
  show "modbusClientParseReadWriteMultipleRegsResp c q v = Some (regs_response 23 rsp q v)" using all by blast
qed

lemma be_bytes_LOAD16BE: "be_bytes (LOAD16BE b i) = [b ! i, b ! Suc i]"
proof -
  have "ucast (drop_bit 8 (LOAD16BE b i)) = b ! i" "ucast (LOAD16BE b i) = b ! Suc i"
    by (rule bit_word_eqI; simp add: LOAD16BE_def bit_simps)+
  then show ?thesis by (simp add: be_bytes_def)
qed

lemma LOAD16BE_be_bytes: "LOAD16BE (be_bytes x) 0 = x"
  by (rule bit_word_eqI) (auto simp: LOAD16BE_def be_bytes_def bit_simps)

lemma be_bytes_inject [simp]: "be_bytes x = be_bytes y \<longleftrightarrow> x = y"
  by (metis LOAD16BE_be_bytes)

lemma take_read_pdu:
  assumes "5 \<le> length rsp"
  shows "take 5 rsp = read_pdu f a x \<longleftrightarrow> rsp ! 0 = f \<and> LOAD16BE rsp 1 = a \<and> LOAD16BE rsp 3 = x"
proof -
  have "take 5 rsp = rsp ! 0 # be_bytes (LOAD16BE rsp 1) @ be_bytes (LOAD16BE rsp 3)"
    using assms unfolding be_bytes_LOAD16BE
    by (intro nth_equalityI) (auto simp: nth_Cons' numeral_eq_Suc less_Suc_eq)
  then show ?thesis by (simp add: read_pdu_def)
qed

lemma take_mask_pdu:
  assumes "7 \<le> length rsp"
  shows "take 7 rsp = mask_pdu a am om \<longleftrightarrow>
    rsp ! 0 = 22 \<and> LOAD16BE rsp 1 = a \<and> LOAD16BE rsp 3 = am \<and> LOAD16BE rsp 5 = om"
proof -
  have "take 7 rsp = rsp ! 0 # be_bytes (LOAD16BE rsp 1) @ be_bytes (LOAD16BE rsp 3) @ be_bytes (LOAD16BE rsp 5)"
    using assms unfolding be_bytes_LOAD16BE
    by (intro nth_equalityI) (auto simp: nth_Cons' numeral_eq_Suc less_Suc_eq)
  then show ?thesis by (simp add: mask_pdu_def)
qed

lemma response_members:
  assumes "client_wf c" and "rsp = client_response_pdu c"
  shows "0 < length rsp \<Longrightarrow> rd8 (cl_responseAdu c) 7 = Some (rsp ! 0)"
    and "5 \<le> length rsp \<Longrightarrow> rd16 (cl_responseAdu c) 8 = Some (get16 rsp 1)"
    and "5 \<le> length rsp \<Longrightarrow> rd16 (cl_responseAdu c) 10 = Some (get16 rsp 3)"
    and "7 \<le> length rsp \<Longrightarrow> rd16 (cl_responseAdu c) 12 = Some (get16 rsp 5)"
proof -
  note R = response_bytes [OF assms]
  show "0 < length rsp \<Longrightarrow> rd8 (cl_responseAdu c) 7 = Some (rsp ! 0)" using R(2) [of 0] by simp
  show "rd16 (cl_responseAdu c) 8 = Some (get16 rsp 1)" if "5 \<le> length rsp"
  proof -
    have "Suc 1 < length rsp" using that by simp
    from R(3) [OF this] show ?thesis by simp
  qed
  show "rd16 (cl_responseAdu c) 10 = Some (get16 rsp 3)" if "5 \<le> length rsp"
  proof -
    have "Suc 3 < length rsp" using that by simp
    from R(3) [OF this] show ?thesis by simp
  qed
  show "rd16 (cl_responseAdu c) 12 = Some (get16 rsp 5)" if "7 \<le> length rsp"
  proof -
    have "Suc 5 < length rsp" using that by simp
    from R(3) [OF this] show ?thesis by simp
  qed
qed

lemma word_nat_cast_id: "word_of_nat (unat (x :: u16)) = x"
  by simp

lemma unat_eq_word: "q < 65536 \<Longrightarrow> unat (x :: u16) = q \<longleftrightarrow> x = word_of_nat q"
  by (metis unat_of_nat_u16 word_nat_cast_id)

lemma parse_echo_eqs:
  assumes "client_wf c" and "rsp = client_response_pdu c" and "q < 65536"
  shows "modbusClientParseWriteSingleCoilResp c a s =
      Some (echo_response 5 rsp (read_pdu 5 a (if s then MODBUS_COIL_STATE_ON else MODBUS_COIL_STATE_OFF)))"
    and "modbusClientParseWriteSingleRegResp c a x = Some (echo_response 5 rsp (read_pdu 6 a x))"
    and "modbusClientParseWriteMultipleCoilsResp c a q = Some (echo_response 5 rsp (read_pdu 15 a (word_of_nat q)))"
    and "modbusClientParseWriteMultipleRegsResp c a q = Some (echo_response 5 rsp (read_pdu 16 a (word_of_nat q)))"
    and "modbusClientParseMaskWriteRegResp c a am om = Some (echo_response 7 rsp (mask_pdu a am om))"
proof -
  note R = response_bytes(1) [OF assms(1,2)]
  note M = response_members [OF assms(1,2)]
  have M5: "rd8 (cl_responseAdu c) 7 = Some (rsp ! 0)" "rd16 (cl_responseAdu c) 8 = Some (get16 rsp 1)"
    "rd16 (cl_responseAdu c) 10 = Some (get16 rsp 3)" if "\<not> length rsp < 5"
    using M(1-3) that by (cases rsp; simp)+
  have M7: "rd8 (cl_responseAdu c) 7 = Some (rsp ! 0)" "rd16 (cl_responseAdu c) 8 = Some (get16 rsp 1)"
    "rd16 (cl_responseAdu c) 10 = Some (get16 rsp 3)" "rd16 (cl_responseAdu c) 12 = Some (get16 rsp 5)"
    if "\<not> length rsp < 7"
    using M that by (cases rsp; simp)+
  show "modbusClientParseWriteSingleCoilResp c a s =
      Some (echo_response 5 rsp (read_pdu 5 a (if s then MODBUS_COIL_STATE_ON else MODBUS_COIL_STATE_OFF)))"
    using M5 by (cases "length rsp < 5")
      (simp_all add: modbusClientParseWriteSingleCoilResp_def echo_response_def R take_read_pdu ntohs_get16 Let_def)
  show "modbusClientParseWriteSingleRegResp c a x = Some (echo_response 5 rsp (read_pdu 6 a x))"
    using M5 by (cases "length rsp < 5")
      (simp_all add: modbusClientParseWriteSingleRegResp_def echo_response_def R take_read_pdu ntohs_get16)
  show "modbusClientParseWriteMultipleCoilsResp c a q = Some (echo_response 5 rsp (read_pdu 15 a (word_of_nat q)))"
    using M5 by (cases "length rsp < 5")
      (simp_all add: modbusClientParseWriteMultipleCoilsResp_def echo_response_def R take_read_pdu ntohs_get16
        unat_eq_word [OF assms(3)])
  show "modbusClientParseWriteMultipleRegsResp c a q = Some (echo_response 5 rsp (read_pdu 16 a (word_of_nat q)))"
    using M5 by (cases "length rsp < 5")
      (simp_all add: modbusClientParseWriteMultipleRegsResp_def echo_response_def R take_read_pdu ntohs_get16
        unat_eq_word [OF assms(3)])
  show "modbusClientParseMaskWriteRegResp c a am om = Some (echo_response 7 rsp (mask_pdu a am om))"
    using M7 by (cases "length rsp < 7")
      (simp_all add: modbusClientParseMaskWriteRegResp_def echo_response_def R take_mask_pdu ntohs_get16)
qed

end
