(* ===== verification/ClientProperties.thy ===== *)
theory ClientProperties
  imports ModbusClientFun
begin

text \<open>
  The properties of the Modbus/TCP client, each with a witness on a concrete context and peer.
\<close>

subsection \<open>Data for the witnesses\<close>

text \<open>A peer that holds a list of bytes to be received, one call at a time, then times out.\<close>

definition script_ops :: "buffer net_ops" where
  "script_ops =
     \<lparr>osGetSystemTime = Pair 0, osCreateEvent = Pair True, osDeleteEvent = id,
      socketOpen = Pair (Some 3), socketBindToInterface = (\<lambda>_ _. Pair NO_ERROR),
      socketBind = (\<lambda>_ _. Pair NO_ERROR), socketListen = (\<lambda>_ _. Pair NO_ERROR),
      socketAccept = (\<lambda>_. Pair None), socketSetTimeout = (\<lambda>_ _. Pair NO_ERROR),
      socketReceive = (\<lambda>_ n w. if w = [] then (ERROR_TIMEOUT, [], w)
        else (NO_ERROR, take n w, drop n w)),
      socketSend = (\<lambda>_ d w. (NO_ERROR, length d, w)), socketClose = (\<lambda>_ w. w),
      socketPoll = (\<lambda>ds _ w. (NO_ERROR, map eventMask ds, w)),
      socketConnect = (\<lambda>_ _ _. Pair NO_ERROR), netGetRand = Pair 4, osCreateTask = Pair True\<rparr>"

lemma script_net_ok: "net_ok script_ops"
  by (simp add: net_ok_def script_ops_def)

lemma script_finite: "finite_peer script_ops length"
  by (auto simp: finite_peer_def script_ops_def)

definition demo_client :: ModbusClientContext where
  "demo_client = cleared_client\<lparr>cl_state := MODBUS_CLIENT_STATE_CONNECTED, cl_socket := Some 3,
     cl_unitId := 255, cl_timeout := 20000\<rparr>"

lemma demo_client_inv: "client_inv demo_client"
  by (simp add: demo_client_def cleared_client_def client_inv_def client_wf_def)

subsection \<open>Transactions\<close>

text \<open>
  C29: one step of a transaction never leaves the buffers of the client, whatever the server sends;
  it keeps the request, and when it fails the client is back in the connected state with a status
  other than \<open>ERROR_WOULD_BLOCK\<close>.
\<close>

theorem client_transaction_safe:
  assumes "client_inv c" and "net_ok ops"
    and "cl_state c = MODBUS_CLIENT_STATE_SENDING \<or> cl_state c = MODBUS_CLIENT_STATE_RECEIVING"
  shows "\<exists>e c' w'. modbusClientTransaction ops c w = Some (e, c', w') \<and> client_inv c' \<and>
    cl_requestAdu c' = cl_requestAdu c \<and> cl_socket c' = cl_socket c \<and>
    (if e = NO_ERROR
     then cl_state c' \<in> {MODBUS_CLIENT_STATE_SENDING, MODBUS_CLIENT_STATE_RECEIVING, MODBUS_CLIENT_STATE_COMPLETE}
     else cl_state c' = MODBUS_CLIENT_STATE_CONNECTED \<and> e \<noteq> ERROR_WOULD_BLOCK)"
  using transaction_ok [OF assms, of w "\<lambda>_. 0"] by (auto split: if_splits)

lemma client_transaction_safe_witness:
  "\<exists>e c' w'. modbusClientTransaction script_ops (demo_client\<lparr>cl_state := MODBUS_CLIENT_STATE_RECEIVING\<rparr>)
      [0, 0, 0, 1, 0, 3, 255] = Some (e, c', w') \<and> client_inv c'"
proof -
  have "client_inv (demo_client\<lparr>cl_state := MODBUS_CLIENT_STATE_RECEIVING\<rparr>)"
    by (simp add: demo_client_def cleared_client_def client_inv_def client_wf_def)
  from client_transaction_safe [OF this script_net_ok] show ?thesis by fastforce
qed

lemma exception_bit: "(x :: u8) AND 0x80 = 0 \<longleftrightarrow> \<not> bit x 7"
proof -
  have "x AND 0x80 = x AND 2 ^ 7" by simp
  then show ?thesis by (simp only: and_exp_eq_0_iff_not_bit)
qed

text \<open>
  C28: a response is accepted, as a normal response or as an exception, only if its transaction
  identifier, unit identifier and function code (without the exception bit) are those of the request.
\<close>

theorem client_accepts_matching_only:
  assumes "client_wf c" and "modbusClientCheckResp c = Some (e, c')"
    and "e = NO_ERROR \<or> e = ERROR_EXCEPTION_RECEIVED"
  shows "LOAD16BE (cl_responseAdu c) 0 = LOAD16BE (cl_requestAdu c) 0 \<and>
    cl_responseAdu c ! 6 = cl_requestAdu c ! 6 \<and>
    cl_responseAdu c ! 7 AND 0x7F = cl_requestAdu c ! 7 AND 0x7F \<and>
    (e = ERROR_EXCEPTION_RECEIVED \<longleftrightarrow> bit (cl_responseAdu c ! 7) 7) \<and>
    (e = ERROR_EXCEPTION_RECEIVED \<longrightarrow> cl_exceptionCode c' = cl_responseAdu c ! 8)"
proof -
  let ?req = "cl_requestAdu c" and ?resp = "cl_responseAdu c"
  have "get16 ?resp 0 = get16 ?req 0 \<and> ?resp ! 6 = ?req ! 6 \<and> ?resp ! 7 AND 0x7F = ?req ! 7 AND 0x7F \<and>
      (e = ERROR_EXCEPTION_RECEIVED \<longleftrightarrow> ?resp ! 7 AND 0x80 \<noteq> 0) \<and>
      (e = ERROR_EXCEPTION_RECEIVED \<longrightarrow> cl_exceptionCode c' = ?resp ! 8)"
    using assms(3) assms(2) [unfolded client_check_eq [OF assms(1)] Let_def]
    by (simp split: if_split_asm) auto
  then show ?thesis by (simp add: ntohs_get16 [symmetric] exception_bit)
qed

text \<open>The context of the witness: request 0x0005 for unit 1, answered with an exception.\<close>

definition answered_client :: ModbusClientContext where
  "answered_client = cleared_client
     \<lparr>cl_requestAdu := [0, 5, 0, 0, 0, 6, 1, 3] @ replicate 252 0, cl_requestAduLen := 12,
      cl_responseAdu := [0, 5, 0, 0, 0, 3, 1, 0x83, 2] @ replicate 251 0, cl_responseAduLen := 9\<rparr>"

lemma client_accepts_matching_only_witness:
  "\<exists>c'. modbusClientCheckResp answered_client = Some (ERROR_EXCEPTION_RECEIVED, c') \<and> cl_exceptionCode c' = 2"
proof -
  have wf: "client_wf answered_client"
    by (simp add: answered_client_def cleared_client_def client_wf_def)
  have "\<exists>c'. modbusClientCheckResp answered_client = Some (ERROR_EXCEPTION_RECEIVED, c')"
    unfolding client_check_eq [OF wf] by (simp add: answered_client_def get16_def)
  then obtain c' where c: "modbusClientCheckResp answered_client = Some (ERROR_EXCEPTION_RECEIVED, c')" by blast
  from client_accepts_matching_only [OF wf c] have "cl_exceptionCode c' = cl_responseAdu answered_client ! 8" by simp
  with c show ?thesis by (simp add: answered_client_def)
qed

subsection \<open>Requests\<close>

lemma format_ok_formatted:
  assumes "\<And>c w time w'. client_wf c \<Longrightarrow> osGetSystemTime ops w = (time, w') \<Longrightarrow>
      format c w = Some (NO_ERROR, formatted c pdu time, w')"
    and "length pdu \<le> 253" and "finite_peer ops left"
  shows "format_ok format left"
  unfolding format_ok_def
proof (intro allI impI)
  fix c w assume "client_inv c"
  then have wf: "client_wf c" by (rule client_inv_wf)
  obtain time w' where t: "osGetSystemTime ops w = (time, w')" by (metis surj_pair)
  have "client_inv (formatted c pdu time)" by (rule formatted_inv [OF wf assms(2)])
  moreover have "left w' \<le> left w" by (rule finite_peerD(3) [OF assms(3) t])
  ultimately show "\<exists>c' w'. format c w = Some (NO_ERROR, c', w') \<and> client_inv c' \<and>
      cl_state c' = MODBUS_CLIENT_STATE_SENDING \<and> cl_requestAduLen c' \<le> 260 \<and> left w' \<le> left w"
    using assms(1) [OF wf t] assms(2) by (auto simp: formatted_def)
qed

lemma parse_ok_echo:
  assumes "\<And>c. client_wf c \<Longrightarrow> \<exists>e. parse c = Some e"
  shows "parse_ok (no_values parse) ()"
  unfolding parse_ok_def no_values_def using assms client_inv_wf by fastforce

lemma parse_ok_values:
  assumes "\<And>c. client_wf c \<Longrightarrow> \<exists>r. parse c v = Some r"
  shows "parse_ok parse v"
  unfolding parse_ok_def using assms client_inv_wf by fastforce

definition returns :: "(error_t \<times> ModbusClientContext \<times> 'v \<times> 'w) option \<Rightarrow> bool" where
  "returns r \<longleftrightarrow> (\<exists>e c' v w'. r = Some (e, c', v, w') \<and> client_inv c')"

lemma client_loop_returns':
  assumes "net_ok ops" and "finite_peer ops left" and "client_inv c"
    and "\<And>c w time w'. client_wf c \<Longrightarrow> osGetSystemTime ops w = (time, w') \<Longrightarrow>
      format c w = Some (NO_ERROR, formatted c pdu time, w')"
    and "length pdu \<le> 253" and "parse_ok parse v"
  shows "returns (client_loop ops format parse NO_ERROR c v w)"
proof -
  have f: "format_ok format left" by (rule format_ok_formatted [where ops = ops and pdu = pdu]) (use assms in auto)
  from client_loop_returns [OF assms(1,2) f assms(6,3), of w] show ?thesis by (auto simp: returns_def)
qed

text \<open>
  C27: every request returns, without undefined behaviour, against every peer that sends finitely many
  bytes: whatever the responses contain, whether they match, and however they are cut into pieces.
  The memory for the values must have room for what the caller asks for; Read/Write Multiple Registers takes
  its two addresses, quantities and arrays independently of each other.
\<close>

theorem client_requests_return:
  assumes "net_ok ops" and "finite_peer ops left" and "client_inv c"
    and "(q + 7) div 8 \<le> length bits" and "q \<le> length vals" and "unat rq \<le> length rvals" and "unat wq \<le> length wvals"
  shows "returns (modbusClientReadCoils ops c a q bits w) \<and> returns (modbusClientReadDiscreteInputs ops c b q bits w) \<and>
    returns (modbusClientReadHoldingRegs ops c a q vals w) \<and> returns (modbusClientReadInputRegs ops c a q vals w) \<and>
    returns (modbusClientWriteSingleCoil ops c a s w) \<and> returns (modbusClientWriteSingleReg ops c a x w) \<and>
    returns (modbusClientWriteMultipleCoils ops c a q bits w) \<and> returns (modbusClientWriteMultipleRegs ops c a q vals w) \<and>
    returns (modbusClientMaskWriteReg ops c a x y w) \<and>
    returns (modbusClientReadWriteMultipleRegs ops c ra rq rvals wa wq wvals w)"
proof -
  note R = client_loop_returns' [OF assms(1-3)]
  have stop: "returns (Some (e, c, v, w))" for e :: error_t and v :: 'x and w :: 'y
    using assms(3) by (simp add: returns_def)
  have "returns (modbusClientReadCoils ops c a q bits w)"
    unfolding modbusClientReadCoils_def
    by (cases "q < 1 \<or> 2000 < q", simp add: stop, simp, rule R, rule format_read_eqs(1))
      (use parse_bits_eqs(1) [OF _ assms(4) refl] in \<open>auto intro!: parse_ok_values\<close>)
  moreover have "returns (modbusClientReadDiscreteInputs ops c b q bits w)"
    unfolding modbusClientReadDiscreteInputs_def
    by (cases "q < 1 \<or> 2000 < q", simp add: stop, simp, rule R, rule format_read_eqs(2))
      (use parse_bits_eqs(2) [OF _ assms(4) refl] in \<open>auto intro!: parse_ok_values\<close>)
  moreover have "returns (modbusClientReadHoldingRegs ops c a q vals w)"
    unfolding modbusClientReadHoldingRegs_def
    by (cases "q < 1 \<or> 125 < q", simp add: stop, simp, rule R, rule format_read_eqs(3))
      (use parse_regs_eqs(1) [OF _ assms(5) refl] in \<open>auto intro!: parse_ok_values\<close>)
  moreover have "returns (modbusClientReadInputRegs ops c a q vals w)"
    unfolding modbusClientReadInputRegs_def
    by (cases "q < 1 \<or> 125 < q", simp add: stop, simp, rule R, rule format_read_eqs(4))
      (use parse_regs_eqs(2) [OF _ assms(5) refl] in \<open>auto intro!: parse_ok_values\<close>)
  moreover have "returns (modbusClientWriteSingleCoil ops c a s w)"
    unfolding modbusClientWriteSingleCoil_def
    by (rule R, rule format_read_eqs(5)) (use parse_echo_eqs(1) [OF _ refl, of _ 0] in \<open>auto intro!: parse_ok_echo\<close>)
  moreover have "returns (modbusClientWriteSingleReg ops c a x w)"
    unfolding modbusClientWriteSingleReg_def
    by (rule R, rule format_read_eqs(6)) (use parse_echo_eqs(2) [OF _ refl, of _ 0] in \<open>auto intro!: parse_ok_echo\<close>)
  moreover have "returns (modbusClientMaskWriteReg ops c a x y w)"
    unfolding modbusClientMaskWriteReg_def
    by (rule R, rule format_mask_eq) (use parse_echo_eqs(5) [OF _ refl, of _ 0] in \<open>auto intro!: parse_ok_echo\<close>)
  moreover have "returns (modbusClientWriteMultipleCoils ops c a q bits w)"
  proof (cases "q < 1 \<or> 1968 < q")
    case False
    then have "(q + 7) div 8 \<le> 246" using div_le_mono [of "q + 7" 1975 8] by simp
    with False show ?thesis
      unfolding modbusClientWriteMultipleCoils_def
      by (simp, intro R [where pdu = "write_coils_pdu a q bits"] format_write_coils_eq)
        (use assms(4) parse_echo_eqs(3) [OF _ refl, of _ q] in \<open>auto intro!: parse_ok_echo\<close>)
  qed (simp add: modbusClientWriteMultipleCoils_def stop)
  moreover have "returns (modbusClientWriteMultipleRegs ops c a q vals w)"
  proof (cases "q < 1 \<or> 123 < q")
    case False
    then show ?thesis
      unfolding modbusClientWriteMultipleRegs_def
      by (simp, intro R [where pdu = "write_regs_pdu a (take q vals)"] format_write_regs_eq)
        (use assms(5) parse_echo_eqs(4) [OF _ refl, of _ q] in \<open>auto intro!: parse_ok_echo\<close>)
  qed (simp add: modbusClientWriteMultipleRegs_def stop)
  moreover have "returns (modbusClientReadWriteMultipleRegs ops c ra rq rvals wa wq wvals w)"
  proof (cases "unat rq < 1 \<or> unat rq > 125 \<or> unat wq < 1 \<or> unat wq > 121")
    case False
    then show ?thesis
      unfolding modbusClientReadWriteMultipleRegs_def if_not_P [OF False]
      by (intro R [where pdu = "read_write_pdu ra rq wa (take (unat wq) wvals)"] format_read_write_eq)
        (use assms(7) parse_regs_eqs(3) [OF _ assms(6) refl] in \<open>auto intro!: parse_ok_values\<close>)
  qed (simp add: modbusClientReadWriteMultipleRegs_def stop)
  ultimately show ?thesis by blast
qed

lemma client_requests_return_witness:
  "returns (modbusClientReadHoldingRegs script_ops demo_client 0 2 [7, 7] [0, 1, 0, 0, 0, 7, 255, 3, 4, 1, 2, 3, 4]) \<and>
   returns (modbusClientReadWriteMultipleRegs script_ops demo_client 10 2 [7, 7] 40 1 [9]
     [0, 1, 0, 0, 0, 7, 255, 3, 4, 1, 2, 3, 4])"
  using client_requests_return [OF script_net_ok script_finite demo_client_inv, of 2 "[0]" "[7, 7]" 2 "[7, 7]" 1 "[9]"]
  by simp





subsection \<open>Connecting\<close>

text \<open>
  Connecting takes finitely many steps; it ends connected, or with an error, with no socket left
  open and the client disconnected.
\<close>

lemma client_connect_returns:
  "\<exists>e c' w'. modbusClientConnect ops c ip p w = Some (e, c', w') \<and>
    (e = NO_ERROR \<longrightarrow> cl_state c' = MODBUS_CLIENT_STATE_CONNECTED) \<and>
    (e \<noteq> NO_ERROR \<and> e \<noteq> ERROR_WOULD_BLOCK \<longrightarrow>
       cl_state c' = MODBUS_CLIENT_STATE_DISCONNECTED \<and> cl_socket c' = None)"
proof -
  have fail: "connect_loop ops ip p e c w = Some (e, c, w)" if "e \<noteq> NO_ERROR" for e c w
    using that by (subst connect_loop.simps) simp
  have three: "\<exists>e c' w'. connect_loop ops ip p NO_ERROR c w = Some (e, c', w') \<and>
      (e = NO_ERROR \<longrightarrow> cl_state c' = MODBUS_CLIENT_STATE_CONNECTED)"
    if "cl_state c = MODBUS_CLIENT_STATE_CONNECTED" for c w
    using that by (subst connect_loop.simps) (simp add: connect_step_def)
  have two: "\<exists>e c' w'. connect_loop ops ip p NO_ERROR c w = Some (e, c', w') \<and>
      (e = NO_ERROR \<longrightarrow> cl_state c' = MODBUS_CLIENT_STATE_CONNECTED)"
    if "cl_state c = MODBUS_CLIENT_STATE_CONNECTING" for c w
    using that three by (subst connect_loop.simps) (auto simp: connect_step_def fail split: prod.splits)
  have one: "\<exists>e c' w'. connect_loop ops ip p NO_ERROR c w = Some (e, c', w') \<and>
      (e = NO_ERROR \<longrightarrow> cl_state c' = MODBUS_CLIENT_STATE_CONNECTED)" for c w
  proof (cases "cl_state c")
    case MODBUS_CLIENT_STATE_DISCONNECTED
    obtain stop e c1 w1 where st: "connect_step ops ip p c w = (stop, e, c1, w1)" by (metis prod_cases4)
    with MODBUS_CLIENT_STATE_DISCONNECTED have "\<not> stop"
      and "e = NO_ERROR \<Longrightarrow> cl_state c1 = MODBUS_CLIENT_STATE_CONNECTING"
      by (auto simp: connect_step_def Let_def split: prod.splits if_splits)
    with st two [of c1 w1] show ?thesis
      by (subst connect_loop.simps) (cases "e = NO_ERROR"; simp add: fail)
  next
    case MODBUS_CLIENT_STATE_CONNECTING then show ?thesis by (rule two)
  next
    case MODBUS_CLIENT_STATE_CONNECTED then show ?thesis by (rule three)
  qed (subst connect_loop.simps, simp add: connect_step_def fail)+
  from one [of c w] obtain e c1 w1 where run: "connect_loop ops ip p NO_ERROR c w = Some (e, c1, w1)"
    and ok: "e = NO_ERROR \<longrightarrow> cl_state c1 = MODBUS_CLIENT_STATE_CONNECTED" by blast
  then show ?thesis by (cases "cl_socket c1") (auto simp: modbusClientConnect_def Let_def)
qed

lemma client_connect_returns_example:
  "\<exists>c' w'. modbusClientConnect script_ops cleared_client 0xC0A802E6 502 [] = Some (NO_ERROR, c', w') \<and>
    cl_state c' = MODBUS_CLIENT_STATE_CONNECTED"
proof -
  from client_connect_returns [of script_ops cleared_client "0xC0A802E6" 502 "[]"] obtain e c' w' where
    c: "modbusClientConnect script_ops cleared_client 0xC0A802E6 502 [] = Some (e, c', w')"
    "e = NO_ERROR \<longrightarrow> cl_state c' = MODBUS_CLIENT_STATE_CONNECTED" by blast
  then have "e = NO_ERROR"
    by (simp add: modbusClientConnect_def connect_loop.simps connect_step_def script_ops_def cleared_client_def)
  with c show ?thesis by blast
qed

end
