(* ===== verification/RoundTrip.thy ===== *)
theory RoundTrip
  imports ModbusTable ModbusClientFun
begin

text \<open>
  Client and server together: the ADU a client formats, handed to the server, and the ADU the server
  answers with, handed back to the client.
\<close>

subsection \<open>Handing over the ADUs\<close>

text \<open>The server connection after it received all of the client's request, and the client after it
  received all of the response.\<close>

definition deliver_request :: "ModbusClientContext \<Rightarrow> ModbusClientConnection \<Rightarrow> ModbusClientConnection" where
  "deliver_request c d = d\<lparr>requestAdu := cl_requestAdu c, requestAduLen := cl_requestAduLen c,
     requestAduPos := cl_requestAduLen c\<rparr>"

definition deliver_response :: "ModbusClientConnection \<Rightarrow> ModbusClientContext \<Rightarrow> ModbusClientContext" where
  "deliver_response d c = c\<lparr>cl_responseAdu := responseAdu d, cl_responseAduLen := responseAduLen d,
     cl_responseAduPos := responseAduLen d\<rparr>"

lemma deliver_request_wf:
  assumes "client_wf c" and "conn_wf d"
  shows "conn_wf (deliver_request c d)"
  using client_wfD [OF assms(1)] assms(2) by (simp add: deliver_request_def conn_wf_def)

lemma deliver_request_pdu: "request_pdu (deliver_request c d) = client_request_pdu c"
  by (simp add: deliver_request_def request_pdu_def client_request_pdu_def)

lemma deliver_response_wf:
  assumes "client_wf c" and "conn_wf d"
  shows "client_wf (deliver_response d c)"
  using client_wfD [OF assms(1)] conn_wfD [OF assms(2)] by (simp add: deliver_response_def client_wf_def)

lemma deliver_response_pdu: "client_response_pdu (deliver_response d c) = response_pdu d"
  by (simp add: deliver_response_def response_pdu_def client_response_pdu_def)

subsection \<open>The exchange of one request\<close>

lemma spec_reply_function:
  "spec t pdu = Reply rsp t' \<Longrightarrow> pdu \<noteq> [] \<and> rsp \<noteq> [] \<and> rsp ! 0 = pdu ! 0 \<and>
    pdu ! 0 \<in> {1, 2, 3, 4, 5, 6, 15, 16, 22, 23}"
  by (auto simp: spec_def spec_read_bits_def spec_read_regs_def spec_write_coil_def spec_write_reg_def
      spec_write_coils_def spec_write_regs_def spec_mask_reg_def spec_read_write_regs_def Let_def
      split: if_splits option.splits)

lemma function_code_mask:
  "(f :: u8) \<in> {1, 2, 3, 4, 5, 6, 15, 16, 22, 23} \<Longrightarrow> f AND 0x80 = 0 \<and>
    (0x80 OR f) AND 0x7F = f AND 0x7F \<and> (0x80 OR f) AND 0x80 \<noteq> 0"
  by auto

context modbus_table
begin

lemma exchange:
  assumes "client_wf c" and "conn_wf d" and "1 \<le> length pdu" and "length pdu \<le> 253"
    and "pdu ! 0 \<in> {1, 2, 3, 4, 5, 6, 15, 16, 22, 23}"
    and "\<not> truncated_read_write pdu \<and> \<not> overlapping_read_write pdu"
    and "c1 = formatted c pdu time" and "d1 = deliver_request c1 d"
  shows "case spec (tab w) pdu of
      Malformed \<Rightarrow> True
    | Exception x \<Rightarrow> \<exists>d2 w2. modbusServerProcessRequest S locals d1 w = Some (NO_ERROR, d2, w2) \<and> tab w2 = tab w \<and>
        modbusClientCheckResp (deliver_response d2 c1) =
          Some (ERROR_EXCEPTION_RECEIVED, (deliver_response d2 c1)\<lparr>cl_exceptionCode := x\<rparr>)
    | Reply rsp t \<Rightarrow> \<exists>d2 w2. modbusServerProcessRequest S locals d1 w = Some (NO_ERROR, d2, w2) \<and> tab w2 = t \<and>
        client_response_pdu (deliver_response d2 c1) = rsp \<and> client_wf (deliver_response d2 c1) \<and>
        modbusClientCheckResp (deliver_response d2 c1) = Some (NO_ERROR, deliver_response d2 c1)"
proof (cases "spec (tab w) pdu = Malformed")
  case False
  have wfc: "client_wf c1"
    using client_inv_wf [OF formatted_inv [OF assms(1,4)]] by (simp add: assms(7))
  have wfd: "conn_wf d1" using deliver_request_wf [OF wfc assms(2)] by (simp add: assms(8))
  have pdu: "request_pdu d1 = pdu"
    by (simp add: assms(8) deliver_request_pdu) (simp add: assms(7) formatted_pdu [OF assms(1,4)])
  have len: "cl_requestAduLen c1 = length pdu + 7" by (simp add: assms(7) formatted_def)
  have pos: "7 \<le> requestAduPos d1" by (simp add: assms(8) deliver_request_def len)
  have same: "requestAdu d1 = cl_requestAdu c1" by (simp add: assms(8) deliver_request_def)
  have f: "requestAdu d1 ! 7 = pdu ! 0"
    using pdu assms(3,4) conn_wfD [OF wfd] by (auto simp: request_pdu_def)
  note M = function_code_mask [OF assms(5)]
  from process_request_answered [OF wfd pos, of w locals] pdu assms(6)
  have ans: "answered tab (tab w) (spec (tab w) pdu) pdu (modbusServerProcessRequest S locals d1 w)" by simp
  then obtain d2 w2 where run: "modbusServerProcessRequest S locals d1 w = Some (NO_ERROR, d2, w2)"
    using False by (cases "spec (tab w) pdu") (auto simp: answered_def)
  from process_request_ok [OF wfd pos callbacks_ok, of locals w] run obtain n where
    rep: "replied d1 d2 n" by (auto simp: handler_ok_def)
  then have wf2: "conn_wf d2" and n: "2 \<le> n" "responseAduLen d2 = 7 + n"
    and hdr: "get16 (responseAdu d2) 0 = get16 (requestAdu d1) 0" "responseAdu d2 ! 6 = requestAdu d1 ! 6"
    using replied_wf [OF wfd] by (auto simp: replied_def mbap_reply_def)
  let ?c = "deliver_response d2 c1"
  have wf: "client_wf ?c" by (rule deliver_response_wf [OF wfc wf2])
  have rsp: "response_pdu d2 \<noteq> [] \<Longrightarrow> responseAdu d2 ! 7 = response_pdu d2 ! 0"
    by (auto simp: response_pdu_def)
  have check: "modbusClientCheckResp ?c =
      (if responseAdu d2 ! 7 AND 0x7F \<noteq> pdu ! 0 AND 0x7F then Some (ERROR_UNEXPECTED_RESPONSE, ?c)
       else if responseAdu d2 ! 7 AND 0x80 = 0 then Some (NO_ERROR, ?c)
       else Some (ERROR_EXCEPTION_RECEIVED, ?c\<lparr>cl_exceptionCode := responseAdu d2 ! 8\<rparr>))"
    unfolding client_check_eq [OF wf] using n hdr same f len assms(3)
    by (cases pdu) (simp_all add: deliver_response_def Let_def)
  show ?thesis
  proof (cases "spec (tab w) pdu")
    case (Exception x)
    with ans run have t: "tab w2 = tab w" and r: "response_pdu d2 = [0x80 OR pdu ! 0, x]"
      by (auto simp: answered_def)
    have "responseAdu d2 ! 7 = 0x80 OR pdu ! 0" using rsp r by simp
    moreover have "responseAdu d2 ! 8 = x"
      using arg_cong [OF r, of "\<lambda>xs. xs ! 1"] n conn_wfD [OF wf2] by (simp add: response_pdu_def)
    ultimately show ?thesis using Exception run t check M by simp
  next
    case (Reply rsp' t)
    with ans run have t: "tab w2 = t" and r: "response_pdu d2 = rsp'" by (auto simp: answered_def)
    from spec_reply_function [OF Reply] have "rsp' \<noteq> []" "rsp' ! 0 = pdu ! 0" by auto
    with rsp r have "responseAdu d2 ! 7 = pdu ! 0" by simp
    then show ?thesis using Reply run t check M r wf by (simp add: deliver_response_pdu)
  qed (use False in simp)
qed simp

end

subsection \<open>What the specification makes of the client's requests\<close>

lemma LOAD16BE_Cons [simp]: "LOAD16BE (x # xs) (Suc i) = LOAD16BE xs i"
  by (simp add: LOAD16BE_def)

lemma LOAD16BE_be_append [simp]:
  "LOAD16BE (be_bytes v @ xs) 0 = v" "LOAD16BE (be_bytes v @ xs) (Suc (Suc i)) = LOAD16BE xs i"
  using LOAD16BE_be_bytes [of v] by (simp_all add: LOAD16BE_def be_bytes_def)

lemma bytes_regs_reg_bytes:
  "bytes_regs (reg_bytes vs @ zs) 0 (length vs) = vs"
proof (induction vs)
  case (Cons v vs)
  have "bytes_regs (be_bytes v @ ys) 0 (Suc n) = v # bytes_regs ys 0 n" for ys n
    by (simp add: bytes_regs_def upt_conv_Cons map_Suc_upt [symmetric] del: upt_Suc)
  with Cons show ?case by simp
qed (simp add: bytes_regs_def)

lemma bytes_regs_drop: "a + 2 * q \<le> length b \<Longrightarrow> bytes_regs b a q = bytes_regs (drop a b) 0 q"
  by (simp add: bytes_regs_def LOAD16BE_def)

lemma read_pdu_members:
  "read_pdu f a x ! 0 = f" "LOAD16BE (read_pdu f a x) 1 = a" "LOAD16BE (read_pdu f a x) 3 = x"
  by (simp_all add: read_pdu_def numeral_eq_Suc LOAD16BE_be_bytes)

lemma mask_pdu_members:
  "mask_pdu a am om ! 0 = 22" "LOAD16BE (mask_pdu a am om) 1 = a" "LOAD16BE (mask_pdu a am om) 3 = am"
  "LOAD16BE (mask_pdu a am om) 5 = om"
  by (simp_all add: mask_pdu_def numeral_eq_Suc LOAD16BE_be_bytes)

lemma write_regs_pdu_members:
  "write_regs_pdu a vs ! 0 = 16" "LOAD16BE (write_regs_pdu a vs) 1 = a"
  "LOAD16BE (write_regs_pdu a vs) 3 = word_of_nat (length vs)"
  "write_regs_pdu a vs ! 5 = word_of_nat (length vs * 2)"
  "bytes_regs (write_regs_pdu a vs) 6 (length vs) = vs"
  "take 5 (write_regs_pdu a vs) = read_pdu 16 a (word_of_nat (length vs))"
proof -
  have d: "drop 6 (write_regs_pdu a vs) = reg_bytes vs" by (simp add: write_regs_pdu_def)
  show "bytes_regs (write_regs_pdu a vs) 6 (length vs) = vs"
    using bytes_regs_drop [of 6 "length vs" "write_regs_pdu a vs"] bytes_regs_reg_bytes [of vs "[]"] d by simp
  show "LOAD16BE (write_regs_pdu a vs) 1 = a" "LOAD16BE (write_regs_pdu a vs) 3 = word_of_nat (length vs)"
    by (simp_all add: write_regs_pdu_def numeral_3_eq_3)
qed (simp_all add: write_regs_pdu_def read_pdu_def be_bytes_def del: of_nat_mult)

lemma write_coils_pdu_members:
  assumes "(q + 7) div 8 \<le> length v"
  shows "write_coils_pdu a q v ! 0 = 15" "LOAD16BE (write_coils_pdu a q v) 1 = a"
    "LOAD16BE (write_coils_pdu a q v) 3 = word_of_nat q"
    "write_coils_pdu a q v ! 5 = word_of_nat ((q + 7) div 8)"
    "unpack (write_coils_pdu a q v) 6 q = unpack v 0 q"
    "take 5 (write_coils_pdu a q v) = read_pdu 15 a (word_of_nat q)"
proof -
  have d: "drop 6 (write_coils_pdu a q v) = take ((q + 7) div 8) v" by (simp add: write_coils_pdu_def be_bytes_def)
  have "coil_at (write_coils_pdu a q v) 6 i = coil_at v 0 i" if "i < q" for i
  proof -
    have "coil_at (write_coils_pdu a q v) 6 i = coil_at (drop 6 (write_coils_pdu a q v)) 0 i"
      using assms by (subst coil_at_drop) simp_all
    also have "\<dots> = coil_at v 0 i" unfolding d using byte_index_less [OF that] by (simp add: coil_at_def)
    finally show ?thesis .
  qed
  then show "unpack (write_coils_pdu a q v) 6 q = unpack v 0 q" by (simp add: unpack_def)
  show "LOAD16BE (write_coils_pdu a q v) 1 = a" "LOAD16BE (write_coils_pdu a q v) 3 = word_of_nat q"
    by (simp_all add: write_coils_pdu_def numeral_3_eq_3)
qed (simp_all add: write_coils_pdu_def read_pdu_def be_bytes_def)

lemma read_write_pdu_members:
  "read_write_pdu ra rq wa vs ! 0 = 23" "LOAD16BE (read_write_pdu ra rq wa vs) 1 = ra"
  "LOAD16BE (read_write_pdu ra rq wa vs) 3 = rq" "LOAD16BE (read_write_pdu ra rq wa vs) 5 = wa"
  "LOAD16BE (read_write_pdu ra rq wa vs) 7 = word_of_nat (length vs)"
  "read_write_pdu ra rq wa vs ! 9 = word_of_nat (length vs * 2)"
  "bytes_regs (read_write_pdu ra rq wa vs) 10 (length vs) = vs"
proof -
  have d: "drop 10 (read_write_pdu ra rq wa vs) = reg_bytes vs"
    by (simp add: read_write_pdu_def be_bytes_def)
  show "bytes_regs (read_write_pdu ra rq wa vs) 10 (length vs) = vs"
    using bytes_regs_drop [of 10 "length vs" "read_write_pdu ra rq wa vs"] bytes_regs_reg_bytes [of vs "[]"] d
    by simp
  show "LOAD16BE (read_write_pdu ra rq wa vs) 1 = ra" "LOAD16BE (read_write_pdu ra rq wa vs) 3 = rq"
    "LOAD16BE (read_write_pdu ra rq wa vs) 5 = wa" "LOAD16BE (read_write_pdu ra rq wa vs) 7 = word_of_nat (length vs)"
    by (simp_all add: read_write_pdu_def numeral_eq_Suc)
qed (simp_all add: read_write_pdu_def be_bytes_def del: of_nat_mult)

text \<open>Each request of the client under the specification.\<close>

lemma spec_client_read_bits:
  assumes "f = 1 \<or> f = 2" and "1 \<le> q" and "q \<le> 2000"
  shows "spec t (read_pdu f a (word_of_nat q)) = (if defined (coils t) a q
    then Reply (f # word_of_nat ((q + 7) div 8) # pack (fetch (coils t) a q)) t else Exception 2)"
  using assms read_pdu_members [of f a "word_of_nat q"]
  by (auto simp: spec_def spec_read_bits_def Let_def read_pdu_def)

lemma spec_client_read_regs:
  assumes "f = 3 \<or> f = 4" and "1 \<le> q" and "q \<le> 125"
  shows "spec t (read_pdu f a (word_of_nat q)) = (if defined (regs t) a q
    then Reply (f # word_of_nat (q * 2) # reg_bytes (fetch (regs t) a q)) t else Exception 2)"
  using assms read_pdu_members [of f a "word_of_nat q"]
  by (auto simp: spec_def spec_read_regs_def Let_def read_pdu_def simp del: of_nat_mult)

lemma spec_client_write_coil:
  "spec t (read_pdu 5 a (if s then MODBUS_COIL_STATE_ON else MODBUS_COIL_STATE_OFF)) =
    (if coils t a = None then Exception 2
     else Reply (read_pdu 5 a (if s then MODBUS_COIL_STATE_ON else MODBUS_COIL_STATE_OFF))
       (t\<lparr>coils := (coils t)(a \<mapsto> s)\<rparr>))"
  using read_pdu_members [of 5 a "if s then MODBUS_COIL_STATE_ON else MODBUS_COIL_STATE_OFF"]
  by (auto simp: spec_def spec_write_coil_def Let_def read_pdu_def be_bytes_def)

lemma spec_client_write_reg:
  "spec t (read_pdu 6 a x) = (if regs t a = None then Exception 2
     else Reply (read_pdu 6 a x) (t\<lparr>regs := (regs t)(a \<mapsto> x)\<rparr>))"
  using read_pdu_members [of 6 a x]
  by (auto simp: spec_def spec_write_reg_def Let_def read_pdu_def be_bytes_def)

lemma spec_client_write_coils:
  assumes "1 \<le> q" and "q \<le> 1968" and "(q + 7) div 8 \<le> length v"
  shows "spec t (write_coils_pdu a q v) = (if defined (coils t) a q
    then Reply (read_pdu 15 a (word_of_nat q)) (t\<lparr>coils := store (coils t) a (unpack v 0 q)\<rparr>) else Exception 2)"
proof -
  have n: "unat (word_of_nat ((q + 7) div 8) :: u8) = (q + 7) div 8" using assms(2) by (intro coil_bytes_word) simp
  have "write_coils_pdu a q v \<noteq> []" by (simp add: write_coils_pdu_def)
  then show ?thesis
    using assms write_coils_pdu_members [OF assms(3), of a] n
    by (auto simp: spec_def spec_write_coils_def Let_def)
qed

lemma spec_client_write_regs:
  assumes "1 \<le> length vs" and "length vs \<le> 123"
  shows "spec t (write_regs_pdu a vs) = (if defined (regs t) a (length vs)
    then Reply (read_pdu 16 a (word_of_nat (length vs))) (t\<lparr>regs := store (regs t) a vs\<rparr>) else Exception 2)"
proof -
  have n: "unat (word_of_nat (length vs * 2) :: u8) = length vs * 2" using assms by (intro unat_of_nat_u8) simp
  have "write_regs_pdu a vs \<noteq> []" by (simp add: write_regs_pdu_def)
  then show ?thesis
    using assms write_regs_pdu_members [of a vs] n
    by (auto simp: spec_def spec_write_regs_def Let_def simp del: of_nat_mult)
qed

lemma spec_client_mask:
  "spec t (mask_pdu a am om) = (case regs t a of None \<Rightarrow> Exception 2
    | Some v \<Rightarrow> Reply (mask_pdu a am om) (t\<lparr>regs := (regs t)(a \<mapsto> (v AND am) OR (om AND NOT am))\<rparr>))"
proof -
  have "mask_pdu a am om \<noteq> []" "take 7 (mask_pdu a am om) = mask_pdu a am om" by (simp_all add: mask_pdu_def)
  then show ?thesis
    using mask_pdu_members [of a am om] by (auto simp: spec_def spec_mask_reg_def Let_def split: option.splits)
qed

lemma spec_client_read_write:
  assumes "1 \<le> unat rq" and "unat rq \<le> 125" and "1 \<le> length vs" and "length vs \<le> 121"
  shows "spec t (read_write_pdu ra rq wa vs) =
    (if defined (regs t) ra (unat rq) \<and> defined (regs t) wa (length vs)
     then Reply (23 # word_of_nat (unat rq * 2) # reg_bytes (fetch (store (regs t) wa vs) ra (unat rq)))
       (t\<lparr>regs := store (regs t) wa vs\<rparr>) else Exception 2)"
proof -
  have n: "unat (word_of_nat (length vs * 2) :: u8) = length vs * 2" using assms by (intro unat_of_nat_u8) simp
  have "read_write_pdu ra rq wa vs \<noteq> []" by (simp add: read_write_pdu_def)
  then show ?thesis
    using assms read_write_pdu_members [of ra rq wa vs] n
    by (auto simp: spec_def spec_read_write_regs_def Let_def simp del: of_nat_mult)
qed

lemma not_truncated:
  "\<not> truncated_read_write (read_write_pdu ra rq wa vs)" if "length vs \<le> 121"
proof -
  have "unat (word_of_nat (length vs * 2) :: u8) = length vs * 2" using that by (intro unat_of_nat_u8) simp
  then show ?thesis
    using read_write_pdu_members(6) [of ra rq wa vs] by (simp add: truncated_read_write_def del: of_nat_mult)
qed

subsection \<open>A whole request\<close>

text \<open>The server processes the client's request and the client checks the response.\<close>

definition exchange_once ::
    "'w ModbusServerSettings \<Rightarrow> stack_locals \<Rightarrow> ModbusClientConnection \<Rightarrow> ModbusClientContext \<Rightarrow> 'w \<Rightarrow>
     (error_t \<times> ModbusClientContext \<times> 'w) option" where
  "exchange_once S locals d c w = do {
     (_, d, w) \<leftarrow> modbusServerProcessRequest S locals (deliver_request c d) w;
     (error, c) \<leftarrow> modbusClientCheckResp (deliver_response d c);
     Some (error, c, w)
   }"

lemma bits_response_ok:
  assumes "length bs = q" and "q \<le> 2000"
  shows "bits_response f (f # word_of_nat ((q + 7) div 8) # pack bs) q v = (NO_ERROR, blit v 0 (pack bs))"
  using assms coil_bytes_word [OF assms(2)] by (simp add: bits_response_def)

lemma regs_response_ok:
  assumes "length xs = q" and "q \<le> 125"
  shows "regs_response f (f # word_of_nat (q * 2) # reg_bytes xs) q v = (NO_ERROR, xs @ drop q v)"
proof -
  have "unat (word_of_nat (q * 2) :: u8) = q * 2" using assms by (intro unat_of_nat_u8) simp
  moreover have "bytes_regs (f # word_of_nat (q * 2) # reg_bytes xs) 2 q = xs"
    using bytes_regs_drop [of 2 q "f # word_of_nat (q * 2) # reg_bytes xs"] bytes_regs_reg_bytes [of xs "[]"] assms
    by simp
  ultimately show ?thesis using assms by (simp add: regs_response_def del: of_nat_mult)
qed

lemma echo_response_ok: "length rsp = n \<Longrightarrow> echo_response n rsp rsp = NO_ERROR"
  by (simp add: echo_response_def)

context modbus_table
begin

text \<open>An answered request reaches the client as the response of the specification.\<close>

lemma exchange_reply:
  assumes "spec (tab w) pdu = Reply rsp t" and "client_wf c" and "conn_wf d" and "length pdu \<le> 253"
    and "\<not> truncated_read_write pdu \<and> \<not> overlapping_read_write pdu"
  shows "\<exists>c2 w2. exchange_once S locals d (formatted c pdu time) w = Some (NO_ERROR, c2, w2) \<and> tab w2 = t \<and>
    client_wf c2 \<and> client_response_pdu c2 = rsp"
proof -
  note F = spec_reply_function [OF assms(1)]
  have "1 \<le> length pdu" using F by (cases pdu) auto
  from exchange [OF assms(2,3) this assms(4) _ assms(5) refl refl, where w = w and locals = locals and time = time] F assms(1) show ?thesis
    by (auto simp: exchange_once_def)
qed

lemma exchange_exception:
  assumes "spec (tab w) pdu = Exception x" and "client_wf c" and "conn_wf d" and "length pdu \<le> 253"
    and "\<not> truncated_read_write pdu \<and> \<not> overlapping_read_write pdu" and "pdu \<noteq> []" and "pdu ! 0 \<in> {1, 2, 3, 4, 5, 6, 15, 16, 22, 23}"
  shows "\<exists>c2 w2. exchange_once S locals d (formatted c pdu time) w = Some (ERROR_EXCEPTION_RECEIVED, c2, w2) \<and>
    tab w2 = tab w \<and> cl_exceptionCode c2 = x"
proof -
  have "1 \<le> length pdu" using assms(6) by (cases pdu) auto
  from exchange [OF assms(2,3) this assms(4,7,5) refl refl, where w = w and locals = locals and time = time] assms(1) show ?thesis
    by (auto simp: exchange_once_def)
qed

lemma exchange_read_regs:
  assumes "client_wf c" and "conn_wf d" and "1 \<le> q" and "q \<le> 125" and "q \<le> length v"
    and "modbusClientFormatReadHoldingRegsReq ops c a q n = Some (e, c1, n1)"
  shows "if defined (regs (tab w)) a q
    then \<exists>c2 w2. exchange_once S locals d c1 w = Some (NO_ERROR, c2, w2) \<and> tab w2 = tab w \<and>
      modbusClientParseReadHoldingRegsResp c2 q v = Some (NO_ERROR, fetch (regs (tab w)) a q @ drop q v)
    else \<exists>c2 w2. exchange_once S locals d c1 w = Some (ERROR_EXCEPTION_RECEIVED, c2, w2) \<and> tab w2 = tab w \<and>
      cl_exceptionCode c2 = 2"
proof -
  obtain time n2 where t: "osGetSystemTime ops n = (time, n2)" by (metis surj_pair)
  let ?pdu = "read_pdu 3 a (word_of_nat q)"
  have c1: "c1 = formatted c ?pdu time" using format_read_eqs(3) [OF assms(1) t, of a q] assms(6) by simp
  have p: "length ?pdu \<le> 253" "\<not> truncated_read_write ?pdu \<and> \<not> overlapping_read_write ?pdu" "?pdu \<noteq> []" "?pdu ! 0 = 3"
    by (simp_all add: truncated_read_write_def overlapping_read_write_def read_pdu_def)
  note sp = spec_client_read_regs [of 3 q "tab w" a, OF _ assms(3,4)]
  show ?thesis
  proof (cases "defined (regs (tab w)) a q")
    case True
    with sp have "spec (tab w) ?pdu = Reply (3 # word_of_nat (q * 2) # reg_bytes (fetch (regs (tab w)) a q)) (tab w)"
      by (simp del: of_nat_mult)
    from exchange_reply [OF this assms(1,2) p(1,2), of locals time] True show ?thesis
      using parse_regs_eqs(1) [OF _ assms(5) refl] regs_response_ok [of "fetch (regs (tab w)) a q" q 3 v] assms(4)
      by (fastforce simp: c1 simp del: of_nat_mult)
  next
    case False
    with sp have "spec (tab w) ?pdu = Exception 2" by simp
    from exchange_exception [OF this assms(1,2) p(1,2,3), of locals time] False show ?thesis by (simp add: c1 p(4))
  qed
qed

lemma exchange_read_coils:
  assumes "client_wf c" and "conn_wf d" and "1 \<le> q" and "q \<le> 2000" and "(q + 7) div 8 \<le> length v"
    and "modbusClientFormatReadCoilsReq ops c a q n = Some (e, c1, n1)"
  shows "if defined (coils (tab w)) a q
    then \<exists>c2 w2. exchange_once S locals d c1 w = Some (NO_ERROR, c2, w2) \<and> tab w2 = tab w \<and>
      modbusClientParseReadCoilsResp c2 q v = Some (NO_ERROR, blit v 0 (pack (fetch (coils (tab w)) a q)))
    else \<exists>c2 w2. exchange_once S locals d c1 w = Some (ERROR_EXCEPTION_RECEIVED, c2, w2) \<and> tab w2 = tab w \<and>
      cl_exceptionCode c2 = 2"
proof -
  obtain time n2 where t: "osGetSystemTime ops n = (time, n2)" by (metis surj_pair)
  let ?pdu = "read_pdu 1 a (word_of_nat q)"
  have c1: "c1 = formatted c ?pdu time" using format_read_eqs(1) [OF assms(1) t, of a q] assms(6) by simp
  have p: "length ?pdu \<le> 253" "\<not> truncated_read_write ?pdu \<and> \<not> overlapping_read_write ?pdu" "?pdu \<noteq> []" "?pdu ! 0 = 1"
    by (simp_all add: truncated_read_write_def overlapping_read_write_def read_pdu_def)
  note sp = spec_client_read_bits [of 1 q "tab w" a, OF _ assms(3,4)]
  show ?thesis
  proof (cases "defined (coils (tab w)) a q")
    case True
    with sp have "spec (tab w) ?pdu = Reply (1 # word_of_nat ((q + 7) div 8) # pack (fetch (coils (tab w)) a q)) (tab w)"
      by simp
    from exchange_reply [OF this assms(1,2) p(1,2), of locals time] True show ?thesis
      using parse_bits_eqs(1) [OF _ assms(5) refl] bits_response_ok [of "fetch (coils (tab w)) a q" q 1 v] assms(4)
      by (fastforce simp: c1)
  next
    case False
    with sp have "spec (tab w) ?pdu = Exception 2" by simp
    from exchange_exception [OF this assms(1,2) p(1,2,3), of locals time] False show ?thesis by (simp add: c1 p(4))
  qed
qed

lemma exchange_write_regs:
  assumes "client_wf c" and "conn_wf d" and "1 \<le> q" and "q \<le> 123" and "q \<le> length v"
    and "modbusClientFormatWriteMultipleRegsReq ops c a q v n = Some (e, c1, n1)"
  shows "if defined (regs (tab w)) a q
    then \<exists>c2 w2. exchange_once S locals d c1 w = Some (NO_ERROR, c2, w2) \<and>
      tab w2 = (tab w)\<lparr>regs := store (regs (tab w)) a (take q v)\<rparr> \<and>
      modbusClientParseWriteMultipleRegsResp c2 a q = Some NO_ERROR
    else \<exists>c2 w2. exchange_once S locals d c1 w = Some (ERROR_EXCEPTION_RECEIVED, c2, w2) \<and> tab w2 = tab w \<and>
      cl_exceptionCode c2 = 2"
proof -
  obtain time n2 where t: "osGetSystemTime ops n = (time, n2)" by (metis surj_pair)
  let ?pdu = "write_regs_pdu a (take q v)"
  have len: "length (take q v) = q" using assms(5) by simp
  have c1: "c1 = formatted c ?pdu time" using format_write_regs_eq [OF assms(1) t assms(4,5)] assms(6) by simp
  have p: "length ?pdu \<le> 253" "\<not> truncated_read_write ?pdu \<and> \<not> overlapping_read_write ?pdu" "?pdu \<noteq> []" "?pdu ! 0 = 16"
    using assms(4,5) by (simp_all add: truncated_read_write_def overlapping_read_write_def write_regs_pdu_def)
  note sp = spec_client_write_regs [of "take q v" "tab w" a, unfolded len, OF assms(3,4)]
  show ?thesis
  proof (cases "defined (regs (tab w)) a q")
    case True
    with sp have "spec (tab w) ?pdu = Reply (read_pdu 16 a (word_of_nat q))
        ((tab w)\<lparr>regs := store (regs (tab w)) a (take q v)\<rparr>)" by simp
    from exchange_reply [OF this assms(1,2) p(1,2), of locals time] True show ?thesis
      using parse_echo_eqs(4) [OF _ refl, of _ q a] echo_response_ok [of "read_pdu 16 a (word_of_nat q)" 5] assms(4)
      by (fastforce simp: c1)
  next
    case False
    with sp have "spec (tab w) ?pdu = Exception 2" by simp
    from exchange_exception [OF this assms(1,2) p(1,2,3), of locals time] False show ?thesis by (simp add: c1 p(4))
  qed
qed

lemma exchange_write_coils:
  assumes "client_wf c" and "conn_wf d" and "1 \<le> q" and "q \<le> 1968" and "(q + 7) div 8 \<le> length v"
    and "modbusClientFormatWriteMultipleCoilsReq ops c a q v n = Some (e, c1, n1)"
  shows "if defined (coils (tab w)) a q
    then \<exists>c2 w2. exchange_once S locals d c1 w = Some (NO_ERROR, c2, w2) \<and>
      tab w2 = (tab w)\<lparr>coils := store (coils (tab w)) a (unpack v 0 q)\<rparr> \<and>
      modbusClientParseWriteMultipleCoilsResp c2 a q = Some NO_ERROR
    else \<exists>c2 w2. exchange_once S locals d c1 w = Some (ERROR_EXCEPTION_RECEIVED, c2, w2) \<and> tab w2 = tab w \<and>
      cl_exceptionCode c2 = 2"
proof -
  obtain time n2 where t: "osGetSystemTime ops n = (time, n2)" by (metis surj_pair)
  let ?pdu = "write_coils_pdu a q v"
  have nb: "(q + 7) div 8 \<le> 246" using div_le_mono [of "q + 7" 1975 8] assms(4) by simp
  have c1: "c1 = formatted c ?pdu time" using format_write_coils_eq [OF assms(1) t assms(4,5)] assms(6) by simp
  have p: "length ?pdu \<le> 253" "\<not> truncated_read_write ?pdu \<and> \<not> overlapping_read_write ?pdu" "?pdu \<noteq> []" "?pdu ! 0 = 15"
    using nb assms(5) by (simp_all add: truncated_read_write_def overlapping_read_write_def) (simp_all add: write_coils_pdu_def)
  note sp = spec_client_write_coils [OF assms(3,4,5), of "tab w" a]
  show ?thesis
  proof (cases "defined (coils (tab w)) a q")
    case True
    with sp have "spec (tab w) ?pdu = Reply (read_pdu 15 a (word_of_nat q))
        ((tab w)\<lparr>coils := store (coils (tab w)) a (unpack v 0 q)\<rparr>)" by simp
    from exchange_reply [OF this assms(1,2) p(1,2), of locals time] True show ?thesis
      using parse_echo_eqs(3) [OF _ refl, of _ q a] echo_response_ok [of "read_pdu 15 a (word_of_nat q)" 5] assms(4)
      by (fastforce simp: c1)
  next
    case False
    with sp have "spec (tab w) ?pdu = Exception 2" by simp
    from exchange_exception [OF this assms(1,2) p(1,2,3), of locals time] False show ?thesis by (simp add: c1 p(4))
  qed
qed

end

end
