(* ===== verification/ServerStream.thy ===== *)
theory ServerStream
  imports ModbusServer ModbusTable ServerFrame
begin

text \<open>
  A connection of the server as a transformer of byte streams.  The event handler sees the stream of
  its socket in arbitrary pieces; over any number of events it turns the concatenation of complete
  requests into the concatenation of their responses.
\<close>

subsection \<open>The socket\<close>

text \<open>
  What a connected stream socket does: a receive delivers some of the next bytes of the incoming stream, a send
  appends some of its bytes to the outgoing one, and neither touches the tables.  How many bytes move at a time is
  left open, and either may time out instead, without moving a byte; \<open>slack\<close> bounds how often that happens before
  bytes move again.  A send that times out after it has taken some of the bytes, as \<open>tcpSend\<close> may, is not of this
  kind: see \<open>partial_send_repeats_bytes\<close>.
\<close>

definition stream_socket ::
    "'w net_ops \<Rightarrow> socket_handle \<Rightarrow> ('w \<Rightarrow> buffer) \<Rightarrow> ('w \<Rightarrow> buffer) \<Rightarrow> ('w \<Rightarrow> tables) \<Rightarrow> ('w \<Rightarrow> nat) \<Rightarrow> bool" where
  "stream_socket ops k inc out tab slack \<longleftrightarrow>
     (\<forall>w t w'. osGetSystemTime ops w = (t, w') \<longrightarrow>
        inc w' = inc w \<and> out w' = out w \<and> tab w' = tab w \<and> slack w' \<le> slack w) \<and>
     (\<forall>n w e d w'. socketReceive ops (Some k) n w = (e, d, w') \<and> 0 < n \<and> inc w \<noteq> [] \<longrightarrow>
        out w' = out w \<and> tab w' = tab w \<and> inc w = d @ inc w' \<and>
        (e = NO_ERROR \<and> d \<noteq> [] \<and> length d \<le> n \<or> e = ERROR_TIMEOUT \<and> d = [] \<and> slack w' < slack w)) \<and>
     (\<forall>d w e m w'. socketSend ops (Some k) d w = (e, m, w') \<and> d \<noteq> [] \<longrightarrow>
        inc w' = inc w \<and> tab w' = tab w \<and> out w' = out w @ take m d \<and>
        (e = NO_ERROR \<and> 0 < m \<and> m \<le> length d \<or> e = ERROR_TIMEOUT \<and> m = 0 \<and> slack w' < slack w))"

lemma stream_socketD:
  assumes "stream_socket ops k inc out tab slack"
  shows "osGetSystemTime ops w = (t, w') \<Longrightarrow>
      inc w' = inc w \<and> out w' = out w \<and> tab w' = tab w \<and> slack w' \<le> slack w"
    and "socketReceive ops (Some k) n w = (e, d, w') \<Longrightarrow> 0 < n \<Longrightarrow> inc w \<noteq> [] \<Longrightarrow>
      out w' = out w \<and> tab w' = tab w \<and> inc w = d @ inc w' \<and>
      (e = NO_ERROR \<and> d \<noteq> [] \<and> length d \<le> n \<or> e = ERROR_TIMEOUT \<and> d = [] \<and> slack w' < slack w)"
    and "socketSend ops (Some k) b w = (e, m, w') \<Longrightarrow> b \<noteq> [] \<Longrightarrow>
      inc w' = inc w \<and> tab w' = tab w \<and> out w' = out w @ take m b \<and>
      (e = NO_ERROR \<and> 0 < m \<and> m \<le> length b \<or> e = ERROR_TIMEOUT \<and> m = 0 \<and> slack w' < slack w)"
  using assms unfolding stream_socket_def by blast+

subsection \<open>Requests and responses as ADUs\<close>

definition complete_adu :: "u8 \<Rightarrow> buffer \<Rightarrow> bool" where
  "complete_adu u adu \<longleftrightarrow> 8 \<le> length adu \<and> length adu \<le> MODBUS_MAX_ADU_SIZE \<and> LOAD16BE adu 2 = 0 \<and>
     unat (LOAD16BE adu 4) = length adu - 6 \<and> (u = 0 \<or> u = 255 \<or> u = adu ! 6) \<and>
     \<not> truncated_read_write (drop 7 adu) \<and> \<not> overlapping_read_write (drop 7 adu)"

definition reply_adu :: "buffer \<Rightarrow> buffer \<Rightarrow> buffer" where
  "reply_adu adu rsp = take 4 adu @ be_bytes (word_of_nat (length rsp + 1)) @ adu ! 6 # rsp"

text \<open>The response ADU and the new tables; a malformed PDU has none.\<close>

definition answer :: "tables \<Rightarrow> buffer \<Rightarrow> (buffer \<times> tables) option" where
  "answer t adu = (case spec t (drop 7 adu) of
     Malformed \<Rightarrow> None
   | Exception x \<Rightarrow> Some (reply_adu adu [MODBUS_EXCEPTION_MASK OR adu ! 7, x], t)
   | Reply rsp t' \<Rightarrow> Some (reply_adu adu rsp, t'))"

fun answer_all :: "tables \<Rightarrow> buffer list \<Rightarrow> (buffer \<times> tables) option" where
  "answer_all t [] = Some ([], t)"
| "answer_all t (adu # adus) = do {
     (rsp, t) \<leftarrow> answer t adu;
     (rsps, t) \<leftarrow> answer_all t adus;
     Some (rsp @ rsps, t)
   }"

subsection \<open>Events\<close>

fun server_events ::
    "'w ModbusServerSettings \<Rightarrow> 'w net_ops \<Rightarrow> stack_locals \<Rightarrow> nat \<Rightarrow> ModbusClientConnection \<Rightarrow> 'w \<Rightarrow>
     (ModbusClientConnection \<times> 'w) option" where
  "server_events S ops locals 0 c w = Some (c, w)"
| "server_events S ops locals (Suc n) c w = do {
     (c, w) \<leftarrow> modbusServerProcessConnectionEvents S ops locals c w;
     server_events S ops locals n c w
   }"

lemma server_events_add:
  "server_events S ops locals m c w = Some (c1, w1) \<Longrightarrow> server_events S ops locals n c1 w1 = r \<Longrightarrow>
   server_events S ops locals (m + n) c w = r"
  by (induction m arbitrary: c w) (auto simp: bind_eq_Some_conv)

text \<open>The states a connection passes through: collecting a request, sending a response, idle.\<close>

definition collecting :: "socket_handle \<Rightarrow> buffer \<Rightarrow> ModbusClientConnection \<Rightarrow> bool" where
  "collecting k adu c \<longleftrightarrow> conn_wf c \<and> state c = MODBUS_CONNECTION_STATE_RECEIVING \<and> socket c = Some k \<and>
     requestAduPos c < length adu \<and>
     (7 \<le> requestAduPos c \<longrightarrow> requestAduLen c = length adu \<and> requestUnitId c = adu ! 6) \<and>
     take (requestAduPos c) (requestAdu c) = take (requestAduPos c) adu"

definition sending :: "socket_handle \<Rightarrow> buffer \<Rightarrow> ModbusClientConnection \<Rightarrow> bool" where
  "sending k rsp c \<longleftrightarrow> conn_wf c \<and> state c = MODBUS_CONNECTION_STATE_SENDING \<and> socket c = Some k \<and>
     responseAduPos c < responseAduLen c \<and> take (responseAduLen c) (responseAdu c) = rsp"

definition waiting :: "socket_handle \<Rightarrow> ModbusClientConnection \<Rightarrow> bool" where
  "waiting k c \<longleftrightarrow> conn_wf c \<and> state c = MODBUS_CONNECTION_STATE_RECEIVING \<and> socket c = Some k \<and>
     requestAduPos c = 0"

lemma waiting_collecting: "waiting k c \<Longrightarrow> complete_adu u adu \<Longrightarrow> collecting k adu c"
  by (auto simp: waiting_def collecting_def complete_adu_def)

lemma split_stream:
  assumes "xs @ rest = d @ s" and "length d \<le> length xs"
  shows "d = take (length d) xs" and "s = drop (length d) xs @ rest"
  using arg_cong [OF assms(1), of "take (length d)"] arg_cong [OF assms(1), of "drop (length d)"] assms(2)
  by simp_all

lemma prefix_nth: "take n b = take n a \<Longrightarrow> i < n \<Longrightarrow> b ! i = a ! (i :: nat)"
  by (metis nth_take)

lemma prefix_LOAD16BE: "take n b = take n a \<Longrightarrow> Suc i < n \<Longrightarrow> LOAD16BE b i = LOAD16BE a i"
  using prefix_nth [of n b a i] prefix_nth [of n b a "Suc i"] by (simp add: LOAD16BE_def)

lemma complete_header:
  assumes "complete_adu u adu" and "take 7 b = take 7 adu"
  shows "mbap_acceptable b" and "6 + mbap_length b = length adu" and "b ! 6 = adu ! 6"
proof -
  have l: "8 \<le> length adu" "length adu \<le> 260" "unat (LOAD16BE adu 4) = length adu - 6" "LOAD16BE adu 2 = 0"
    using assms(1) by (simp_all add: complete_adu_def)
  have e: "LOAD16BE b 2 = LOAD16BE adu 2" "LOAD16BE b 4 = LOAD16BE adu 4"
    by (rule prefix_LOAD16BE [OF assms(2)], simp)+
  have n: "mbap_length b = length adu - 6" by (simp add: mbap_length_def ntohs_get16 e l)
  with l show "6 + mbap_length b = length adu" by simp
  have "1 \<le> mbap_length b" "mbap_length b \<le> 254" using n l by linarith+
  then show "mbap_acceptable b" by (simp add: mbap_acceptable_def ntohs_get16 e l)
  show "b ! 6 = adu ! 6" by (rule prefix_nth [OF assms(2)]) simp
qed

subsection \<open>One event\<close>

text \<open>Receiving a piece that does not complete the request.\<close>

lemma receive_piece:
  assumes "complete_adu (unitId S) adu" and "collecting k adu c"
    and "socketReceive ops (Some k) ((if requestAduPos c < 7 then 7 else requestAduLen c) - requestAduPos c) w =
      (NO_ERROR, d, w1)"
    and "d \<noteq> []" and "d = take (length d) (drop (requestAduPos c) adu)"
    and "length d \<le> (if requestAduPos c < 7 then 7 else requestAduLen c) - requestAduPos c"
    and "requestAduPos c + length d < length adu"
  shows "\<exists>c1. receive_request S ops locals c w = Some (NO_ERROR, c1, w1) \<and> collecting k adu c1 \<and>
    requestAduPos c1 = requestAduPos c + length d"
proof -
  have wf: "conn_wf c" and st: "state c = MODBUS_CONNECTION_STATE_RECEIVING" "socket c = Some k"
    and len: "7 \<le> requestAduPos c \<Longrightarrow> requestAduLen c = length adu \<and> requestUnitId c = adu ! 6"
    and pre: "take (requestAduPos c) (requestAdu c) = take (requestAduPos c) adu"
    using assms(2) by (auto simp: collecting_def)
  note L = conn_wfD [OF wf]
  have adu: "8 \<le> length adu" "length adu \<le> 260" using assms(1) by (simp_all add: complete_adu_def)
  let ?c = "c\<lparr>requestAdu := blit (requestAdu c) (requestAduPos c) d, requestAduPos := requestAduPos c + length d\<rparr>"
  have fit: "requestAduPos c + length d \<le> length (requestAdu c)" using assms(7) adu L by simp
  have wf': "conn_wf ?c" using wf fit L by (auto intro: conn_wf_updateI)
  have pre': "take (requestAduPos c + length d) (requestAdu ?c) = take (requestAduPos c + length d) adu"
    using take_blit_end [of "requestAduPos c" "requestAdu c" d] fit pre arg_cong [OF assms(5), of "(@) (take (requestAduPos c) adu)"]
    by (simp add: take_add)
  show ?thesis
  proof (cases "requestAduPos c < 7")
    case True
    show ?thesis
    proof (cases "requestAduPos c + length d = 7")
      case False
      with True assms(6) have "requestAduPos c + length d < 7" by simp
      then have "receive_request S ops locals c w = Some (NO_ERROR, ?c, w1)"
        using True assms(3,6) fit st by (simp add: receive_request_def mem_simps Let_def)
      moreover have "collecting k adu ?c"
        using wf' st pre' assms(7) \<open>requestAduPos c + length d < 7\<close> by (simp add: collecting_def)
      ultimately show ?thesis by auto
    next
      case 7: True
      have "take 7 (requestAdu ?c) = take 7 adu" using pre' 7 by simp
      note H = complete_header [OF assms(1) this]
      let ?c1 = "?c\<lparr>requestUnitId := requestAdu ?c ! 6, requestAduLen := length adu\<rparr>"
      have "modbusServerParseMbapHeader ?c = Some (NO_ERROR, ?c1)"
        using parse_mbap_ok [OF wf' _ H(1)] 7 H(2) by simp
      then have "receive_request S ops locals c w = Some (NO_ERROR, ?c1, w1)"
        using True 7 assms(3) fit st by (simp add: receive_request_def mem_simps Let_def)
      moreover have "collecting k adu ?c1"
        using conn_wf_updateI(3) [OF wf' adu(2)] st pre' 7 adu H(3) by (simp add: collecting_def conn_wf_def)
      ultimately show ?thesis using 7 by auto
    qed
  next
    case False
    then have "receive_request S ops locals c w = Some (NO_ERROR, ?c, w1)"
      using assms(3,7) len fit st by (simp add: receive_request_def mem_simps Let_def)
    moreover have "collecting k adu ?c"
      using wf' st pre' False len assms(7) by (simp add: collecting_def)
    ultimately show ?thesis by auto
  qed
qed

text \<open>The last piece: the request is processed, and with an answer the connection starts sending it.\<close>

lemma prefix_request_pdu:
  assumes "take (length adu) (requestAdu c) = adu" and "requestAduLen c = length adu"
  shows "request_pdu c = drop 7 adu"
  using arg_cong [OF assms(1), of "drop 7"] by (simp add: request_pdu_def assms(2) drop_take)

lemma answer_cases:
  assumes "answer t adu = Some (rsp, t')"
  shows "(\<exists>x. spec t (drop 7 adu) = Exception x \<and> rsp = reply_adu adu [0x80 OR adu ! 7, x] \<and> t' = t) \<or>
    (\<exists>r. spec t (drop 7 adu) = Reply r t' \<and> rsp = reply_adu adu r)"
  using assms by (auto simp: answer_def split: outcome.splits)

lemma mbap_reply_bytes:
  assumes "length b = 260" and "2 \<le> n" and "n \<le> 253"
  shows "take (7 + n) (mbap_reply req n b) =
    [req ! 0, req ! 1, req ! 2, req ! 3] @ be_bytes (word_of_nat (n + 1)) @ req ! 6 # take n (drop 7 b)"
proof -
  have "take 7 (mbap_reply req n b) = map (\<lambda>j. mbap_reply req n b ! j) [0..<7]"
    using assms by (intro nth_equalityI) simp_all
  also have "\<dots> = [req ! 0, req ! 1, req ! 2, req ! 3] @ be_bytes (word_of_nat (n + 1)) @ [req ! 6]"
  proof -
    have "[0..<7] = [0, 1, 2, 3, 4, 5, 6 :: nat]" by (simp add: upt_rec)
    with assms show ?thesis
      by (simp add: mbap_reply_def set16_def ucast_get16 htons_bytes be_bytes_def One_nat_def [symmetric] del: One_nat_def)
  qed
  finally show ?thesis using take_drop_mbap_reply [OF assms(1), of n] by (simp add: take_add)
qed

lemma receive_last:
  fixes S :: "'w ModbusServerSettings"
  assumes "modbus_table S tab" and "complete_adu (unitId S) adu" and "collecting k adu c" and "7 \<le> requestAduPos c"
    and "socketReceive ops (Some k) (requestAduLen c - requestAduPos c) w = (NO_ERROR, d, w1)"
    and "d = drop (requestAduPos c) adu" and "answer (tab w1) adu = Some (rsp, t)"
  shows "\<exists>c1 w2. receive_request S ops locals c w = Some (NO_ERROR, c1, w2) \<and> sending k rsp c1 \<and>
    responseAduPos c1 = 0 \<and> tab w2 = t \<and> (\<forall>f :: 'w \<Rightarrow> buffer. callback_frame S f \<longrightarrow> f w2 = f w1)"
proof -
  have wf: "conn_wf c" and st: "state c = MODBUS_CONNECTION_STATE_RECEIVING" "socket c = Some k"
    and len: "requestAduLen c = length adu" "requestUnitId c = adu ! 6" "requestAduPos c < length adu"
    and pre: "take (requestAduPos c) (requestAdu c) = take (requestAduPos c) adu"
    using assms(3,4) by (auto simp: collecting_def)
  note L = conn_wfD [OF wf]
  have adu: "8 \<le> length adu" "length adu \<le> 260" "\<not> truncated_read_write (drop 7 adu)" "\<not> overlapping_read_write (drop 7 adu)"
    and unit: "unitId S = 0 \<or> unitId S = 255 \<or> unitId S = adu ! 6"
    using assms(2) by (simp_all add: complete_adu_def)
  let ?c = "c\<lparr>requestAdu := blit (requestAdu c) (requestAduPos c) d, requestAduPos := length adu\<rparr>"
  have n: "requestAduPos c + length d = length adu" using assms(6) len(3) by simp
  have fit: "requestAduPos c + length d \<le> length (requestAdu c)" unfolding n using adu L by simp
  have wf': "conn_wf ?c" using wf fit L by (auto intro: conn_wf_updateI)
  have whole: "take (length adu) (requestAdu ?c) = adu"
    using take_blit_end [OF add_leD1 [OF fit], of d] pre assms(6) unfolding n by simp
  have pdu: "request_pdu ?c = drop 7 adu"
    by (rule prefix_request_pdu [OF whole]) (simp add: len)
  have run: "receive_request S ops locals c w = modbusServerProcessRequest S locals ?c w1"
    using assms(4,5) len unit fit n st by (simp add: receive_request_def mem_simps Let_def)
  have ans: "answered tab (tab w1) (spec (tab w1) (drop 7 adu)) (drop 7 adu) (modbusServerProcessRequest S locals ?c w1)"
    using modbus_table.process_request_answered [OF assms(1) wf', of w1 locals] adu pdu by simp
  from answer_cases [OF assms(7)] obtain c1 w2 r where
    p: "modbusServerProcessRequest S locals ?c w1 = Some (NO_ERROR, c1, w2)"
    and r: "response_pdu c1 = r" "rsp = reply_adu adu r" "tab w2 = t"
    using ans adu(1) by (auto simp: answered_def)
  have "handler_ok ?c (Some (NO_ERROR, c1, w2))"
    using process_request_ok [OF wf' _ modbus_table.callbacks_ok [OF assms(1)], of locals w1] adu p by simp
  then obtain m b where b: "length b = 260" "2 \<le> m" "m \<le> 253"
    and c1: "c1 = ?c\<lparr>responseAdu := mbap_reply (requestAdu ?c) m b, responseAduLen := 7 + m, responseAduPos := 0,
      state := MODBUS_CONNECTION_STATE_SENDING\<rparr>"
    by (auto simp: handler_ok_def replied_def)
  have "r = take m (drop 7 b)" using r(1) b by (simp add: c1 response_pdu_def take_drop_mbap_reply)
  moreover have "take 4 adu = [requestAdu ?c ! 0, requestAdu ?c ! 1, requestAdu ?c ! 2, requestAdu ?c ! 3]"
    "requestAdu ?c ! 6 = adu ! 6"
  proof -
    have "requestAdu ?c ! j = adu ! j" if "j < 7" for j
      using prefix_nth [of "length adu" "requestAdu ?c" adu j] whole adu that by simp
    moreover have "take 4 adu = map ((!) adu) [0..<4]" using adu by (intro nth_equalityI) simp_all
    moreover have "[0..<4] = [0, 1, 2, 3 :: nat]" by (simp add: upt_rec)
    ultimately show "take 4 adu = [requestAdu ?c ! 0, requestAdu ?c ! 1, requestAdu ?c ! 2, requestAdu ?c ! 3]"
      "requestAdu ?c ! 6 = adu ! 6" by simp_all
  qed
  ultimately have "take (responseAduLen c1) (responseAdu c1) = rsp"
    using mbap_reply_bytes [OF b] b by (simp add: c1 r(2) reply_adu_def)
  moreover have "conn_wf c1" using wf' b by (simp add: c1 conn_wf_def)
  ultimately have "sending k rsp c1" using st by (simp add: sending_def c1)
  moreover have "f w2 = f w1" if "callback_frame S f" for f :: "'w \<Rightarrow> buffer"
    by (rule callback_frame.process_request_frame [OF that p])
  ultimately show ?thesis using run p r c1 by simp
qed

text \<open>Sending a piece of the response.\<close>

lemma send_piece:
  assumes "sending k rsp c" and "socketSend ops (Some k) (drop (responseAduPos c) rsp) w = (NO_ERROR, m, w1)"
    and "0 < m" and "m \<le> length (drop (responseAduPos c) rsp)"
  shows "\<exists>c1. send_response ops c w = Some (NO_ERROR, c1, w1) \<and>
    (if responseAduPos c + m = length rsp then waiting k c1
     else sending k rsp c1 \<and> responseAduPos c1 = responseAduPos c + m)"
proof -
  have wf: "conn_wf c" and st: "state c = MODBUS_CONNECTION_STATE_SENDING" "socket c = Some k"
    and pos: "responseAduPos c < responseAduLen c" and rsp: "take (responseAduLen c) (responseAdu c) = rsp"
    using assms(1) by (auto simp: sending_def)
  note L = conn_wfD [OF wf]
  have len: "length rsp = responseAduLen c" using rsp L by auto
  have data: "take (responseAduLen c - responseAduPos c) (drop (responseAduPos c) (responseAdu c)) =
      drop (responseAduPos c) rsp" using rsp by (simp add: drop_take [symmetric])
  have "responseAduPos c + (responseAduLen c - responseAduPos c) \<le> length (responseAdu c)" using L pos by simp
  then show ?thesis
    using assms(2-) st pos wf rsp len L
    by (auto simp: send_response_def mem_simps data Let_def waiting_def sending_def conn_wf_def)
qed

subsection \<open>Runs of events\<close>

text \<open>What the environment of a run is: the table, the frame of the callbacks and the socket.\<close>

definition stream_server ::
    "'w ModbusServerSettings \<Rightarrow> 'w net_ops \<Rightarrow> socket_handle \<Rightarrow> ('w \<Rightarrow> tables) \<Rightarrow> ('w \<Rightarrow> buffer) \<Rightarrow> ('w \<Rightarrow> buffer) \<Rightarrow>
     ('w \<Rightarrow> nat) \<Rightarrow> bool" where
  "stream_server S ops k tab inc out slack \<longleftrightarrow>
     modbus_table S tab \<and> callback_frame S inc \<and> callback_frame S out \<and> stream_socket ops k inc out tab slack"

text \<open>The event handler keeps the connection also when the socket times out.\<close>

lemma events_receiving:
  assumes "osGetSystemTime ops w = (time, w0)" and "state c = MODBUS_CONNECTION_STATE_RECEIVING"
    and "receive_request S ops locals (c\<lparr>timestamp := time\<rparr>) w0 = Some (e, c1, w1)"
    and "e = NO_ERROR \<or> e = ERROR_TIMEOUT"
  shows "modbusServerProcessConnectionEvents S ops locals c w = Some (c1, w1)"
  using assms by (auto simp: modbusServerProcessConnectionEvents_def Let_def)

lemma events_sending:
  assumes "osGetSystemTime ops w = (time, w0)" and "state c = MODBUS_CONNECTION_STATE_SENDING"
    and "send_response ops (c\<lparr>timestamp := time\<rparr>) w0 = Some (e, c1, w1)"
    and "e = NO_ERROR \<or> e = ERROR_TIMEOUT"
  shows "modbusServerProcessConnectionEvents S ops locals c w = Some (c1, w1)"
  using assms by (auto simp: modbusServerProcessConnectionEvents_def Let_def)

lemma timestamp_states [simp]:
  "collecting k adu (c\<lparr>timestamp := t\<rparr>) = collecting k adu c"
  "sending k rsp (c\<lparr>timestamp := t\<rparr>) = sending k rsp c"
  by (simp_all add: collecting_def sending_def)

lemma receive_timeout:
  assumes "state c = MODBUS_CONNECTION_STATE_RECEIVING" and "socket c = Some k"
    and "socketReceive ops (Some k) ((if requestAduPos c < 7 then 7 else requestAduLen c) - requestAduPos c) w =
      (ERROR_TIMEOUT, [], w1)"
    and "conn_wf c" and "collecting k adu c"
  shows "receive_request S ops locals c w = Some (ERROR_TIMEOUT, c, w1)"
  using assms conn_wfD [OF assms(4)]
  by (cases "requestAduPos c < 7") (auto simp: collecting_def receive_request_def mem_simps Let_def)

text \<open>A send that times out leaves the connection as it was, whatever the socket has taken.\<close>

lemma send_timeout:
  assumes "sending k rsp c" and "socketSend ops (Some k) (drop (responseAduPos c) rsp) w = (ERROR_TIMEOUT, m, w1)"
  shows "send_response ops c w = Some (ERROR_TIMEOUT, c, w1)"
proof -
  have wf: "conn_wf c" and st: "state c = MODBUS_CONNECTION_STATE_SENDING" "socket c = Some k"
    and pos: "responseAduPos c < responseAduLen c" and rsp: "take (responseAduLen c) (responseAdu c) = rsp"
    using assms(1) by (auto simp: sending_def)
  note L = conn_wfD [OF wf]
  have data: "take (responseAduLen c - responseAduPos c) (drop (responseAduPos c) (responseAdu c)) =
      drop (responseAduPos c) rsp" using rsp by (simp add: drop_take [symmetric])
  have "responseAduPos c + (responseAduLen c - responseAduPos c) \<le> length (responseAdu c)" using L pos by simp
  then show ?thesis using assms(2) st pos L by (simp add: send_response_def mem_simps data Let_def)
qed

lemma send_all:
  assumes "stream_server S ops k tab inc out slack" and "sending k rsp c"
  shows "\<exists>n c1 w1. server_events S ops locals n c w = Some (c1, w1) \<and> waiting k c1 \<and> inc w1 = inc w \<and>
    tab w1 = tab w \<and> out w1 = out w @ drop (responseAduPos c) rsp"
proof -
  have net: "stream_socket ops k inc out tab slack" using assms(1) by (simp add: stream_server_def)
  have "\<exists>n c1 w1. server_events S ops locals n c w = Some (c1, w1) \<and> waiting k c1 \<and> inc w1 = inc w \<and>
      tab w1 = tab w \<and> out w1 = out w @ drop (responseAduPos c) rsp"
    if "sending k rsp c" and "p = (length rsp - responseAduPos c, slack w)" for p c w
    using that
  proof (induction p arbitrary: c w rule: wf_induct_rule [OF wf_lex_prod [OF wf_less_than wf_less_than]])
    case (1 p c w)
    note IH = 1(1) and send = 1(2) and p = 1(3)
    have st: "state c = MODBUS_CONNECTION_STATE_SENDING" "responseAduPos c < length rsp"
      using send conn_wfD [of c] by (auto simp: sending_def)
    obtain time w0 where t: "osGetSystemTime ops w = (time, w0)" by (metis surj_pair)
    let ?d = "drop (responseAduPos c) rsp" and ?c = "c\<lparr>timestamp := time\<rparr>"
    have send': "sending k rsp ?c" using send by simp
    obtain e m w1 where s: "socketSend ops (Some k) ?d w0 = (e, m, w1)" by (rule prod_cases3)
    note T = stream_socketD(1) [OF net t] and M = stream_socketD(3) [OF net s]
    have ne: "?d \<noteq> []" using st(2) by simp
    show ?case
    proof (cases "e = NO_ERROR")
      case False
      with M ne have F: "e = ERROR_TIMEOUT" "m = 0" "slack w1 < slack w0" "inc w1 = inc w0" "tab w1 = tab w0" "out w1 = out w0"
        by auto
      note step = events_sending [OF t st(1) send_timeout [OF send'], of m w1 S locals]
      have "((length rsp - responseAduPos ?c, slack w1), p) \<in> less_than <*lex*> less_than" using F T by (simp add: p)
      from IH [OF this send' refl] F T step s show ?thesis
        by (elim exE) (rule exI [of _ "Suc _"], fastforce)
    next
      case True
      with M ne have M: "0 < m" "m \<le> length ?d" "inc w1 = inc w0" "out w1 = out w0 @ take m ?d" "tab w1 = tab w0" by auto
      from send_piece [of k rsp ?c ops w0 m w1] send s M True obtain c1 where
        r: "send_response ops ?c w0 = Some (NO_ERROR, c1, w1)"
        and c1: "if responseAduPos c + m = length rsp then waiting k c1
          else sending k rsp c1 \<and> responseAduPos c1 = responseAduPos c + m" by auto
      note step = events_sending [OF t st(1) r, of S locals]
      show ?thesis
      proof (cases "responseAduPos c + m = length rsp")
        case True
        with step c1 T M show ?thesis by (intro exI [of _ "Suc 0"] exI [of _ c1] exI [of _ w1]) simp
      next
        case False
        with c1 have s1: "sending k rsp c1" "responseAduPos c1 = responseAduPos c + m" by simp_all
        have "((length rsp - responseAduPos c1, slack w1), p) \<in> less_than <*lex*> less_than"
        proof -
          have "length rsp - responseAduPos c1 < length rsp - responseAduPos c" using s1(2) M(1) st(2) by linarith
          then show ?thesis by (simp add: p)
        qed
        from IH [OF this s1(1) refl] obtain n c2 w2 where
          "server_events S ops locals n c1 w1 = Some (c2, w2)" "waiting k c2" "inc w2 = inc w1" "tab w2 = tab w1"
          "out w2 = out w1 @ drop (responseAduPos c1) rsp" by blast
        moreover have "take m ?d @ drop (responseAduPos c1) rsp = ?d"
          using append_take_drop_id [of m ?d] s1(2) by (simp add: add.commute)
        ultimately show ?thesis using step T M by (intro exI [of _ "Suc n"] exI [of _ c2] exI [of _ w2]) simp
      qed
    qed
  qed
  then show ?thesis using assms(2) by blast
qed

lemma collect_all:
  fixes S :: "'w ModbusServerSettings"
  assumes "stream_server S ops k tab inc out slack" and "complete_adu (unitId S) adu"
    and "collecting k adu c" and "inc w = drop (requestAduPos c) adu @ rest" and "answer (tab w) adu = Some (rsp, t)"
  shows "\<exists>n c1 w1. server_events S ops locals n c w = Some (c1, w1) \<and> sending k rsp c1 \<and> responseAduPos c1 = 0 \<and>
    inc w1 = rest \<and> tab w1 = t \<and> out w1 = out w"
proof -
  have net: "stream_socket ops k inc out tab slack" and table: "modbus_table S tab"
    and frames: "callback_frame S inc" "callback_frame S out" using assms(1) by (simp_all add: stream_server_def)
  have adu: "8 \<le> length adu" using assms(2) by (simp add: complete_adu_def)
  have "\<exists>n c1 w1. server_events S ops locals n c w = Some (c1, w1) \<and> sending k rsp c1 \<and> responseAduPos c1 = 0 \<and>
      inc w1 = rest \<and> tab w1 = t \<and> out w1 = out w"
    if "collecting k adu c" and "inc w = drop (requestAduPos c) adu @ rest" and "answer (tab w) adu = Some (rsp, t)"
      and "p = (length adu - requestAduPos c, slack w)" for p c w
    using that
  proof (induction p arbitrary: c w rule: wf_induct_rule [OF wf_lex_prod [OF wf_less_than wf_less_than]])
    case (1 p c w)
    note IH = 1(1) and coll = 1(2) and inc = 1(3) and ans = 1(4) and p = 1(5)
    have st: "state c = MODBUS_CONNECTION_STATE_RECEIVING" "requestAduPos c < length adu" "socket c = Some k" "conn_wf c"
      and len: "7 \<le> requestAduPos c \<Longrightarrow> requestAduLen c = length adu"
      using coll by (auto simp: collecting_def)
    obtain time w0 where t: "osGetSystemTime ops w = (time, w0)" by (metis surj_pair)
    let ?c = "c\<lparr>timestamp := time\<rparr>"
    have coll': "collecting k adu ?c" using coll by simp
    note T = stream_socketD(1) [OF net t]
    define n where "n = (if requestAduPos c < 7 then 7 else requestAduLen c) - requestAduPos c"
    have n: "0 < n" "n \<le> length adu - requestAduPos c" using st adu len by (auto simp: n_def)
    obtain e d w1 where s: "socketReceive ops (Some k) n w0 = (e, d, w1)" by (rule prod_cases3)
    have some: "inc w0 = drop (requestAduPos c) adu @ rest" "inc w0 \<noteq> []" using T inc st(2) by simp_all
    note D = stream_socketD(2) [OF net s n(1) some(2)]
    show ?case
    proof (cases "e = NO_ERROR")
      case False
      with D have F: "e = ERROR_TIMEOUT" "d = []" "slack w1 < slack w0" "inc w1 = inc w0" "tab w1 = tab w0" "out w1 = out w0"
        by auto
      have "receive_request S ops locals ?c w0 = Some (ERROR_TIMEOUT, ?c, w1)"
        by (rule receive_timeout [OF _ _ _ _ coll'])
          (use st s F in \<open>simp_all add: n_def conn_wf_def cong: if_cong\<close>)
      note step = events_receiving [OF t st(1) this]
      have less: "((length adu - requestAduPos ?c, slack w1), p) \<in> less_than <*lex*> less_than" using F T by (simp add: p)
      from IH [OF less coll' _ _ refl] F T ans some obtain m c2 w2 where
        "server_events S ops locals m ?c w1 = Some (c2, w2)" "sending k rsp c2 \<and> responseAduPos c2 = 0 \<and>
        inc w2 = rest \<and> tab w2 = t \<and> out w2 = out w1" by auto
      with step F T show ?thesis by (intro exI [of _ "Suc m"] exI [of _ c2] exI [of _ w2]) simp
    next
      case True
      with D have D: "e = NO_ERROR" "d \<noteq> []" "length d \<le> n" "inc w0 = d @ inc w1" "out w1 = out w0" "tab w1 = tab w0" by auto
      have "length d \<le> length (drop (requestAduPos c) adu)" using D(3) n by simp
      from split_stream [of "drop (requestAduPos c) adu" rest d "inc w1", OF _ this] some D(4)
      have d: "d = take (length d) (drop (requestAduPos c) adu)"
        and inc1: "inc w1 = drop (requestAduPos c + length d) adu @ rest" by (simp_all add: add.commute)
      show ?thesis
      proof (cases "requestAduPos c + length d < length adu")
        case True
        from receive_piece [OF assms(2) coll', of ops w0 d w1 locals] s D d True obtain c1 where
          r: "receive_request S ops locals ?c w0 = Some (NO_ERROR, c1, w1)" and c1: "collecting k adu c1"
          "requestAduPos c1 = requestAduPos c + length d" by (auto simp: n_def cong: if_cong)
        have less: "((length adu - requestAduPos c1, slack w1), p) \<in> less_than <*lex*> less_than"
        proof -
          have "0 < length d" using D(2) by simp
          then have "length adu - requestAduPos c1 < length adu - requestAduPos c" using c1(2) st(2) by linarith
          then show ?thesis by (simp add: p)
        qed
        from IH [OF less c1(1) _ _ refl] inc1 c1(2) ans D T obtain m c2 w2 where
          "server_events S ops locals m c1 w1 = Some (c2, w2)" "sending k rsp c2 \<and> responseAduPos c2 = 0 \<and>
          inc w2 = rest \<and> tab w2 = t \<and> out w2 = out w1" by auto
        with events_receiving [OF t st(1) r] D T show ?thesis
          by (intro exI [of _ "Suc m"] exI [of _ c2] exI [of _ w2]) simp
      next
        case False
        then have whole: "d = drop (requestAduPos c) adu" and big: "7 \<le> requestAduPos c"
          using d D(3) adu by (auto simp: n_def split: if_splits)
        from receive_last [OF table assms(2) coll', of ops w0 d w1 rsp t locals] s D whole big ans T obtain c1 w2 where
          r: "receive_request S ops locals ?c w0 = Some (NO_ERROR, c1, w2)"
          and c1: "sending k rsp c1" "responseAduPos c1 = 0" "tab w2 = t"
          and f: "\<And>f :: 'w \<Rightarrow> buffer. callback_frame S f \<Longrightarrow> f w2 = f w1" by (auto simp: n_def)
        have "inc w2 = rest" "out w2 = out w" using f [OF frames(1)] f [OF frames(2)] inc1 False D T by simp_all
        with events_receiving [OF t st(1) r] c1 show ?thesis
          by (intro exI [of _ "Suc 0"] exI [of _ c1] exI [of _ w2]) simp
      qed
    qed
  qed
  then show ?thesis using assms(3-5) by blast
qed

lemma serve_one:
  assumes "stream_server S ops k tab inc out slack" and "complete_adu (unitId S) adu" and "waiting k c"
    and "inc w = adu @ rest" and "answer (tab w) adu = Some (rsp, t)"
  shows "\<exists>n c1 w1. server_events S ops locals n c w = Some (c1, w1) \<and> waiting k c1 \<and> inc w1 = rest \<and>
    tab w1 = t \<and> out w1 = out w @ rsp"
proof -
  have coll: "collecting k adu c" and pos: "requestAduPos c = 0"
    using waiting_collecting [OF assms(3,2)] assms(3) by (simp_all add: waiting_def)
  from collect_all [OF assms(1,2) coll, of w rest rsp t locals] pos assms(4,5) obtain n c1 w1 where
    n: "server_events S ops locals n c w = Some (c1, w1)" "sending k rsp c1" "responseAduPos c1 = 0"
    "inc w1 = rest" "tab w1 = t" "out w1 = out w" by auto
  from send_all [OF assms(1) n(2), of locals w1] n(3) obtain m c2 w2 where
    m: "server_events S ops locals m c1 w1 = Some (c2, w2)" "waiting k c2" "inc w2 = inc w1" "tab w2 = tab w1"
    "out w2 = out w1 @ rsp" by auto
  show ?thesis using server_events_add [OF n(1) m(1)] m n by auto
qed

lemma serve_all:
  assumes "stream_server S ops k tab inc out slack" and "\<forall>adu\<in>set adus. complete_adu (unitId S) adu" and "waiting k c"
    and "inc w = concat adus @ rest" and "answer_all (tab w) adus = Some (rsps, t)"
  shows "\<exists>n c1 w1. server_events S ops locals n c w = Some (c1, w1) \<and> waiting k c1 \<and> inc w1 = rest \<and>
    tab w1 = t \<and> out w1 = out w @ rsps"
  using assms(2-)
proof (induction adus arbitrary: c w rsps)
  case Nil
  then show ?case by (intro exI [of _ 0] exI [of _ c] exI [of _ w]) simp
next
  case (Cons adu adus)
  from Cons.prems(4) obtain rsp t1 rsps' where a: "answer (tab w) adu = Some (rsp, t1)"
    "answer_all t1 adus = Some (rsps', t)" "rsps = rsp @ rsps'" by (auto simp: bind_eq_Some_conv)
  from serve_one [OF assms(1) _ Cons.prems(2) _ a(1), of "concat adus @ rest" locals] Cons.prems obtain n c1 w1 where
    n: "server_events S ops locals n c w = Some (c1, w1)" "waiting k c1" "inc w1 = concat adus @ rest" "tab w1 = t1"
    "out w1 = out w @ rsp" by auto
  from Cons.IH [of c1 w1 rsps'] Cons.prems(1) n a obtain m c2 w2 where
    "server_events S ops locals m c1 w1 = Some (c2, w2)" "waiting k c2 \<and> inc w2 = rest \<and> tab w2 = t \<and>
     out w2 = out w1 @ rsps'" by auto
  with server_events_add [OF n(1)] n a show ?case by fastforce
qed

end
