(* ===== verification/StreamProperties.thy ===== *)
theory StreamProperties
  imports ServerStream ServerProperties
begin

text \<open>
  The property of a connection over a whole stream of requests, and the socket of its witness.
\<close>

text \<open>The application's world with a stream in each direction, and the number of times the socket is still to time out.\<close>

record stream_world = app_world +
  incoming :: buffer
  outgoing :: buffer
  stalls :: nat









subsection \<open>A send that times out half-way\<close>

text \<open>
  C6: when \<open>socketSend\<close> times out after it has taken some bytes of the response, as \<open>tcpSend\<close> does when the send
  buffer has room for a part of them, the connection forgets that they were taken: the next event offers the whole
  rest of the response again, and the client receives those bytes twice.
\<close>

theorem partial_send_repeats_bytes:
  assumes "sending k rsp c" and "d = drop (responseAduPos c) rsp"
    and "osGetSystemTime ops w = (t1, w1)" and "socketSend ops (Some k) d w1 = (ERROR_TIMEOUT, m, w2)"
    and "osGetSystemTime ops w2 = (t2, w3)" and "socketSend ops (Some k) d w3 = (NO_ERROR, length d, w4)"
    and "out w1 = out w" and "out w2 = out w1 @ take m d" and "out w3 = out w2" and "out w4 = out w3 @ d"
  shows "\<exists>c'. server_events S ops locals 2 c w = Some (c', w4) \<and> waiting k c' \<and> out w4 = out w @ take m d @ d"
proof -
  let ?c = "c\<lparr>timestamp := t1\<rparr>" and ?c' = "c\<lparr>timestamp := t2\<rparr>"
  have send: "sending k rsp ?c" "sending k rsp ?c'" "state c = MODBUS_CONNECTION_STATE_SENDING" "0 < length d"
    "responseAduPos c + length d = length rsp"
    using assms(1,2) conn_wfD [of c] by (auto simp: sending_def)
  have "send_response ops ?c w1 = Some (ERROR_TIMEOUT, ?c, w2)"
    by (rule send_timeout [OF send(1)]) (use assms(2,4) in simp)
  with events_sending [OF assms(3) send(3)] have
    first: "modbusServerProcessConnectionEvents S ops locals c w = Some (?c, w2)" by simp
  from send_piece [OF send(2), of ops w3 "length d" w4] assms(2,6) send(4,5) obtain c' where
    r: "send_response ops ?c' w3 = Some (NO_ERROR, c', w4)" and c': "waiting k c'" by auto
  have "modbusServerProcessConnectionEvents S ops locals ?c w2 = Some (c', w4)"
    by (rule events_sending [OF assms(5) _ _ disjI1 [OF refl]]) (use r send(3) in simp_all)
  with first c' assms(7-10) show ?thesis by (simp add: numeral_2_eq_2)
qed

text \<open>The witness: the first send takes two bytes of a response and times out, the second takes all of them.\<close>

definition choking_ops :: "stream_world net_ops" where
  "choking_ops = (demo_ops 5 [])
     \<lparr>socketSend := (\<lambda>_ d w.
        if stalls w > 0 then (ERROR_TIMEOUT, min (length d) 2, w\<lparr>outgoing := outgoing w @ take 2 d, stalls := stalls w - 1\<rparr>)
        else (NO_ERROR, length d, w\<lparr>outgoing := outgoing w @ d\<rparr>))\<rparr>"

definition half_sent :: "buffer \<Rightarrow> ModbusClientConnection" where
  "half_sent rsp = (fresh_connection (Some 1) 0)\<lparr>state := MODBUS_CONNECTION_STATE_SENDING,
     responseAdu := rsp @ replicate (260 - length rsp) 0, responseAduLen := length rsp\<rparr>"

lemma partial_send_repeats_bytes_witness:
  "let rsp = [0, 1, 0, 0, 0, 3, 255, 0x83, 2];
       w = app_world.extend demo_world (stream_world.fields [] [] 1)
   in \<exists>c' w'. server_events app_settings choking_ops demo_locals 2 (half_sent rsp) w = Some (c', w') \<and>
        outgoing w' = [0, 1] @ rsp"
proof -
  let ?rsp = "[0, 1, 0, 0, 0, 3, 255, 0x83, 2] :: buffer"
  let ?w = "app_world.extend demo_world (stream_world.fields [] [] 1)"
  have "sending 1 ?rsp (half_sent ?rsp)" and "responseAduPos (half_sent ?rsp) = 0"
    by (simp_all add: sending_def half_sent_def fresh_connection_def cleared_connection_def conn_wf_def)
  moreover have "outgoing ?w = []" "stalls ?w = 1" by (simp_all add: app_world.extend_def stream_world.defs)
  ultimately have "\<exists>c'. server_events app_settings choking_ops demo_locals 2 (half_sent ?rsp) ?w =
      Some (c', ?w\<lparr>outgoing := [0, 1] @ ?rsp, stalls := 0\<rparr>) \<and> waiting 1 c' \<and>
      outgoing (?w\<lparr>outgoing := [0, 1] @ ?rsp, stalls := 0\<rparr>) = outgoing ?w @ take 2 ?rsp @ ?rsp"
    by (intro partial_send_repeats_bytes [where ?t1.0 = 5 and ?t2.0 = 5 and ?w1.0 = ?w
          and ?w2.0 = "?w\<lparr>outgoing := [0, 1], stalls := 0\<rparr>" and ?w3.0 = "?w\<lparr>outgoing := [0, 1], stalls := 0\<rparr>"])
      (simp_all add: choking_ops_def demo_ops_def)
  then show ?thesis by (fastforce simp: Let_def)
qed

end
