(* ===== verification/AppClient.thy ===== *)
theory AppClient
  imports App ClientProperties
begin

text \<open>
  The client task of \<open>main_freertos.c\<close>: \<open>modbusClient\<close>, one write of the two served registers to the
  remote device, and \<open>userTask\<close>, which connects and then repeats it forever.  The global
  \<open>modbusClientContext\<close> is passed explicitly; the registers are the ones the server task serves.
\<close>

text \<open>What the task needs of the operating system and of name resolution besides the sockets.\<close>

record 'w app_ops =
  osDelayTask :: "systime_t \<Rightarrow> 'w \<Rightarrow> 'w"
  getHostByName :: "'w \<Rightarrow> error_t \<times> u32 \<times> 'w"

definition device_id :: int where
  "device_id = 100"

text \<open>
  \<open>regValueW\<close> has five elements of which the first two are written; only they are sent.  The exception
  code is retrieved to be printed.
\<close>

definition modbusClient ::
    "'z app_world_scheme net_ops \<Rightarrow> 'z app_world_scheme app_ops \<Rightarrow> ModbusClientContext \<Rightarrow> 'z app_world_scheme \<Rightarrow>
     'z app_world_scheme client_result" where
  "modbusClient ops aops ctx w = do {
     let regValueW = [serverReg w 0, serverReg w 1];
     (error, ctx, _, w) \<leftarrow>
        modbusClientWriteMultipleRegs ops ctx (word_of_int ((device_id - 1) * 10)) 2 regValueW w;
     if error = NO_ERROR then Some (error, ctx, osDelayTask aops 1000 w)
     else if error = ERROR_EXCEPTION_RECEIVED then Some (error, ctx, osDelayTask aops 1000 w)
     else Some (error, ctx, w)
   }"

text \<open>One pass of the connection loop; a failed resolution leaves the address as it was.\<close>

definition user_connect_step ::
    "'w net_ops \<Rightarrow> 'w app_ops \<Rightarrow> u32 \<Rightarrow> ModbusClientContext \<Rightarrow> 'w \<Rightarrow> (error_t \<times> u32 \<times> ModbusClientContext \<times> 'w) option" where
  "user_connect_step ops aops ipAddr ctx w =
     (case getHostByName aops w of (error, resolved, w) \<Rightarrow>
      let ipAddr = (if error = NO_ERROR then resolved else ipAddr);
          ctx = snd (modbusClientSetTimeout ctx 15000)
      in do {
        (error, ctx, w) \<leftarrow> modbusClientConnect ops ctx ipAddr 502 w;
        Some (error, ipAddr, ctx, osDelayTask aops 5000 w)
      })"

partial_function (option) user_connect ::
    "'w net_ops \<Rightarrow> 'w app_ops \<Rightarrow> u32 \<Rightarrow> ModbusClientContext \<Rightarrow> 'w \<Rightarrow> (ModbusClientContext \<times> 'w) option" where
  "user_connect ops aops ipAddr ctx w =
     Option.bind (user_connect_step ops aops ipAddr ctx w)
       (\<lambda>(error, ipAddr, ctx, w).
          if error \<noteq> NO_ERROR then user_connect ops aops ipAddr ctx w else Some (ctx, w))"

text \<open>The endless loop of \<open>userTask\<close>, any number of rounds of it.\<close>

fun user_rounds ::
    "'z app_world_scheme net_ops \<Rightarrow> 'z app_world_scheme app_ops \<Rightarrow> nat \<Rightarrow> ModbusClientContext \<Rightarrow>
     'z app_world_scheme \<Rightarrow> (ModbusClientContext \<times> 'z app_world_scheme) option" where
  "user_rounds ops aops 0 ctx w = Some (ctx, w)"
| "user_rounds ops aops (Suc n) ctx w = do {
     (_, ctx, w) \<leftarrow> modbusClient ops aops ctx w;
     user_rounds ops aops n ctx w
   }"

definition userTask ::
    "'z app_world_scheme net_ops \<Rightarrow> 'z app_world_scheme app_ops \<Rightarrow> u32 \<Rightarrow> nat \<Rightarrow> ModbusClientContext \<Rightarrow>
     'z app_world_scheme \<Rightarrow> (ModbusClientContext \<times> 'z app_world_scheme) option" where
  "userTask ops aops junk n ctx w = do {
     (ctx, w) \<leftarrow> user_connect ops aops junk ctx w;
     user_rounds ops aops n ctx w
   }"

subsection \<open>A connection that was lost\<close>

text \<open>A socket on which every send fails, with one and the same status.\<close>

definition dead_socket :: "'w net_ops \<Rightarrow> error_t \<Rightarrow> bool" where
  "dead_socket ops e \<longleftrightarrow> e \<noteq> NO_ERROR \<and> e \<noteq> ERROR_EXCEPTION_RECEIVED \<and>
     (\<forall>k d w. \<exists>m w'. socketSend ops k d w = (e, m, w'))"

definition lost_round :: "'w client_result \<Rightarrow> bool" where
  "lost_round r \<longleftrightarrow> (\<exists>e c w. r = Some (e, c, w) \<and> e \<noteq> NO_ERROR \<and> e \<noteq> ERROR_EXCEPTION_RECEIVED \<and> client_inv c \<and>
     cl_state c = MODBUS_CLIENT_STATE_CONNECTED)"

lemma transaction_dead:
  assumes "dead_socket ops e" and "client_wf c" and "cl_state c = MODBUS_CLIENT_STATE_SENDING"
    and "cl_requestAduPos c < cl_requestAduLen c"
  shows "lost_round (modbusClientTransaction ops c w)"
proof -
  obtain time w1 where t: "osGetSystemTime ops w = (time, w1)" by (metis surj_pair)
  obtain e0 w2 where st: "(if timeCompare (cl_timestamp c + cl_timeout c) time > 0
    then socketSetTimeout ops (cl_socket c) (cl_timestamp c + cl_timeout c - time) w1
    else socketSetTimeout ops (cl_socket c) 0 w1) = (e0, w2)" by (metis surj_pair)
  note L = client_wfD [OF assms(2)]
  let ?d = "take (cl_requestAduLen c - cl_requestAduPos c) (drop (cl_requestAduPos c) (cl_requestAdu c))"
  have e: "e \<noteq> NO_ERROR" "e \<noteq> ERROR_EXCEPTION_RECEIVED" using assms(1) by (simp_all add: dead_socket_def)
  have "\<exists>m w'. socketSend ops (cl_socket c) ?d w2 = (e, m, w')" using assms(1) unfolding dead_socket_def by blast
  then obtain m w3 where s: "socketSend ops (cl_socket c) ?d w2 = (e, m, w3)" by blast
  have "cl_requestAduPos c + (cl_requestAduLen c - cl_requestAduPos c) \<le> length (cl_requestAdu c)"
    using L assms(4) by simp
  then have "client_send ops c w2 = Some (e, c, w3)"
    using s e assms(4) by (simp add: client_send_def mem_simps)
  then show ?thesis
    using t st assms(2,3) e by (simp add: modbusClientTransaction_def lost_round_def client_inv_def Let_def)
qed

lemma modbusClient_dead:
  assumes "dead_socket ops e" and "client_inv c" and "cl_state c = MODBUS_CLIENT_STATE_CONNECTED"
  shows "\<exists>r. lost_round r \<and> (\<forall>aops. modbusClient ops aops c w = r)"
proof -
  let ?v = "[serverReg w 0, serverReg w 1]" and ?a = "word_of_int ((device_id - 1) * 10) :: u16"
  obtain time w1 where t: "osGetSystemTime ops w = (time, w1)" by (metis surj_pair)
  note wf = client_inv_wf [OF assms(2)]
  let ?c = "formatted c (write_regs_pdu ?a ?v) time"
  have f: "modbusClientFormatWriteMultipleRegsReq ops c ?a 2 ?v w = Some (NO_ERROR, ?c, w1)"
    using format_write_regs_eq [OF wf t, of 2 ?v ?a] by simp
  have inv: "client_inv ?c" by (rule formatted_inv [OF wf]) simp
  have "lost_round (modbusClientTransaction ops ?c w1)"
    by (rule transaction_dead [OF assms(1) client_inv_wf [OF inv]]) (simp_all add: formatted_def)
  then obtain e1 c1 w2 where x: "modbusClientTransaction ops ?c w1 = Some (e1, c1, w2)" "e1 \<noteq> NO_ERROR"
    "e1 \<noteq> ERROR_EXCEPTION_RECEIVED" and l: "lost_round (Some (e1, c1, w2))" by (auto simp: lost_round_def)
  have st: "cl_state ?c = MODBUS_CLIENT_STATE_SENDING" by (simp add: formatted_def)
  have "modbusClientWriteMultipleRegs ops c ?a 2 ?v w = Some (e1, c1, (), w2)"
    using f x assms(3) st
    by (simp add: modbusClientWriteMultipleRegs_def client_loop.simps [of ops _ _ NO_ERROR]
        client_loop.simps [of ops _ _ e1])
  then have "modbusClient ops aops c w = Some (e1, c1, w2)" for aops
    using x by (simp add: modbusClient_def Let_def)
  with l show ?thesis by blast
qed

lemma user_rounds_dead:
  assumes "dead_socket ops e" and "client_inv c" and "cl_state c = MODBUS_CLIENT_STATE_CONNECTED"
  shows "\<exists>c' w'. client_inv c' \<and> cl_state c' = MODBUS_CLIENT_STATE_CONNECTED \<and>
    (\<forall>aops. user_rounds ops aops n c w = Some (c', w'))"
  using assms(2,3)
proof (induction n arbitrary: c w)
  case (Suc n)
  from modbusClient_dead [OF assms(1) Suc.prems, of w] obtain e1 c1 w1 where
    r: "\<And>aops. modbusClient ops aops c w = Some (e1, c1, w1)" "client_inv c1" "cl_state c1 = MODBUS_CLIENT_STATE_CONNECTED"
    by (auto simp: lost_round_def)
  from Suc.IH [OF r(2,3), of w1] r(1) show ?case by simp
qed simp

subsection \<open>The task\<close>

lemma modbusClient_returns:
  assumes "net_ok ops" and "finite_peer ops left" and "client_inv c"
  shows "\<exists>e c' w'. modbusClient ops aops c w = Some (e, c', w') \<and> client_inv c'"
proof -
  define v where "v = [serverReg w 0, serverReg w 1]"
  define a where "a = (word_of_int ((device_id - 1) * 10) :: u16)"
  have v: "take 2 v = v" "length v = 2" by (simp_all add: v_def)
  note R = client_loop_returns' [OF assms]
  have "returns (modbusClientWriteMultipleRegs ops c a 2 v w)"
    unfolding modbusClientWriteMultipleRegs_def
    by (simp, rule R, rule format_write_regs_eq) (use parse_echo_eqs(4) [OF _ refl, of _ 2] v in \<open>auto intro!: parse_ok_echo\<close>)
  then show ?thesis by (auto simp: returns_def modbusClient_def Let_def v_def a_def split: if_splits)
qed

text \<open>
  C34: after the connection is lost, the client task calls \<open>modbusClient\<close> over and over: whatever the
  number of rounds, every one of them fails, the client stays in the connected state, and nothing the
  task does depends on \<open>osDelayTask\<close> or on name resolution, so it neither waits between the rounds nor
  connects again.
\<close>

theorem user_task_spins:
  assumes "dead_socket ops e" and "client_inv c" and "cl_state c = MODBUS_CLIENT_STATE_CONNECTED"
  shows "\<exists>c' w'. cl_state c' = MODBUS_CLIENT_STATE_CONNECTED \<and> (\<forall>aops. user_rounds ops aops n c w = Some (c', w')) \<and>
    (\<forall>aops. \<exists>e2 c2 w2. modbusClient ops aops c' w' = Some (e2, c2, w2) \<and> e2 \<noteq> NO_ERROR)"
proof -
  from user_rounds_dead [OF assms, of n w] obtain c' w' where r: "client_inv c'"
    "cl_state c' = MODBUS_CLIENT_STATE_CONNECTED" "\<And>aops. user_rounds ops aops n c w = Some (c', w')" by blast
  from modbusClient_dead [OF assms(1) r(1,2), of w'] show ?thesis using r(2,3) by (auto simp: lost_round_def)
qed

definition reset_ops :: "app_world net_ops" where
  "reset_ops = \<lparr>osGetSystemTime = Pair 0, osCreateEvent = Pair True, osDeleteEvent = id,
      socketOpen = Pair (Some 3), socketBindToInterface = (\<lambda>_ _. Pair NO_ERROR),
      socketBind = (\<lambda>_ _. Pair NO_ERROR), socketListen = (\<lambda>_ _. Pair NO_ERROR),
      socketAccept = (\<lambda>_. Pair None), socketSetTimeout = (\<lambda>_ _. Pair NO_ERROR),
      socketReceive = (\<lambda>_ n w. (ERROR_CONNECTION_RESET, [], w)),
      socketSend = (\<lambda>_ d w. (ERROR_CONNECTION_RESET, 0, w)), socketClose = (\<lambda>_ w. w),
      socketPoll = (\<lambda>ds _ w. (NO_ERROR, map eventMask ds, w)),
      socketConnect = (\<lambda>_ _ _. Pair NO_ERROR), netGetRand = Pair 4, osCreateTask = Pair True\<rparr>"

lemma user_task_spins_witness:
  "\<exists>c' w'. cl_state c' = MODBUS_CLIENT_STATE_CONNECTED \<and>
    (\<forall>aops. user_rounds reset_ops aops 1000 demo_client \<lparr>serverReg = (\<lambda>_. 0), serverCoil = (\<lambda>_. False)\<rparr> = Some (c', w'))"
proof -
  have "dead_socket reset_ops ERROR_CONNECTION_RESET" by (simp add: dead_socket_def reset_ops_def)
  from user_task_spins [OF this demo_client_inv] show ?thesis by (fastforce simp: demo_client_def)
qed

end
