(* ===== verification/TcpTypes.thy ===== *)
theory TcpTypes
  imports Endian OsPort
begin

text \<open>
  The data of TCP: \<open>core/tcp.h\<close>, the part of \<open>core/socket.h\<close> that TCP uses, and the operating system and
  IP layer as \<open>tcp.c\<close>, \<open>tcp_fsm.c\<close>, \<open>tcp_misc.c\<close> and \<open>tcp_timer.c\<close> call them.  The options of the build are the
  defaults of the headers: congestion control on, selective acknowledgments off.

  Every integer keeps the width it has in C, so sequence numbers and windows wrap as they do there.
  A queue is a list; the send and receive buffers are the bytes of their chunks, and \<open>[]\<close> once released
  (\<open>NetMemSpec\<close> shows that the multi-part buffers behave as such lists).
\<close>

subsection \<open>Addresses and headers\<close>

datatype IpAddr = NoAddr | Ipv4Addr u32 | Ipv6Addr "u8 list"

datatype IpPseudoHeader =
    Ipv4Pseudo (pseudo_srcAddr4: u32) (pseudo_destAddr4: u32) (pseudo_length4: u16)
  | Ipv6Pseudo (pseudo_srcAddr6: "u8 list") (pseudo_destAddr6: "u8 list") (pseudo_length6: u32)

definition be16 :: "u16 \<Rightarrow> buffer" where
  "be16 v = [ucast (drop_bit 8 v), ucast v]"

definition be32 :: "u32 \<Rightarrow> buffer" where
  "be32 v = [ucast (drop_bit 24 v), ucast (drop_bit 16 v), ucast (drop_bit 8 v), ucast v]"

definition get_be16 :: "buffer \<Rightarrow> nat \<Rightarrow> u16" where
  "get_be16 b i = push_bit 8 (ucast (b ! i)) OR ucast (b ! Suc i)"

definition get_be32 :: "buffer \<Rightarrow> nat \<Rightarrow> u32" where
  "get_be32 b i = push_bit 24 (ucast (b ! i)) OR push_bit 16 (ucast (b ! (i + 1))) OR push_bit 8 (ucast (b ! (i + 2))) OR
     ucast (b ! (i + 3))"

text \<open>An IPv4 address is kept in network byte order; these are its bytes in memory.\<close>

definition le32 :: "u32 \<Rightarrow> buffer" where
  "le32 v = [ucast v, ucast (drop_bit 8 v), ucast (drop_bit 16 v), ucast (drop_bit 24 v)]"

text \<open>The bytes of a pseudo header: source, destination, protocol (6) and length.\<close>

fun pseudo_bytes :: "IpPseudoHeader \<Rightarrow> buffer" where
  "pseudo_bytes (Ipv4Pseudo src dest len) = le32 src @ le32 dest @ [0, 6] @ be16 len"
| "pseudo_bytes (Ipv6Pseudo src dest len) = src @ dest @ be32 len @ [0, 0, 0, 6]"

abbreviation (input) TCP_FLAG_FIN :: u8 where "TCP_FLAG_FIN \<equiv> 0x01"
abbreviation (input) TCP_FLAG_SYN :: u8 where "TCP_FLAG_SYN \<equiv> 0x02"
abbreviation (input) TCP_FLAG_RST :: u8 where "TCP_FLAG_RST \<equiv> 0x04"
abbreviation (input) TCP_FLAG_PSH :: u8 where "TCP_FLAG_PSH \<equiv> 0x08"
abbreviation (input) TCP_FLAG_ACK :: u8 where "TCP_FLAG_ACK \<equiv> 0x10"

abbreviation (input) TCP_OPTION_END :: u8 where "TCP_OPTION_END \<equiv> 0"
abbreviation (input) TCP_OPTION_NOP :: u8 where "TCP_OPTION_NOP \<equiv> 1"
abbreviation (input) TCP_OPTION_MAX_SEGMENT_SIZE :: u8 where "TCP_OPTION_MAX_SEGMENT_SIZE \<equiv> 2"

text \<open>
  A header with its members in host byte order.  The code converts them in place; the bytes on the
  wire are \<open>tcp_header_bytes\<close>.  The checksum is the 16-bit word as it lies in memory.
\<close>

record TcpHeader =
  th_srcPort :: u16
  th_destPort :: u16
  th_seqNum :: u32
  th_ackNum :: u32
  th_dataOffset :: nat
  th_flags :: u8
  th_window :: u16
  th_checksum :: u16
  th_options :: buffer

definition has_flag :: "TcpHeader \<Rightarrow> u8 \<Rightarrow> bool" where
  "has_flag segment f \<longleftrightarrow> th_flags segment AND f \<noteq> 0"

definition tcp_header_bytes :: "TcpHeader \<Rightarrow> buffer" where
  "tcp_header_bytes h =
     be16 (th_srcPort h) @ be16 (th_destPort h) @ be32 (th_seqNum h) @ be32 (th_ackNum h) @
     [push_bit 4 (word_of_nat (th_dataOffset h)), th_flags h AND 0x3F] @ be16 (th_window h) @
     [ucast (th_checksum h), ucast (drop_bit 8 (th_checksum h))] @ [0, 0] @ th_options h"

definition tcp_header_of :: "buffer \<Rightarrow> TcpHeader" where
  "tcp_header_of b =
     \<lparr>th_srcPort = get_be16 b 0, th_destPort = get_be16 b 2, th_seqNum = get_be32 b 4, th_ackNum = get_be32 b 8,
      th_dataOffset = unat (drop_bit 4 (b ! 12)), th_flags = b ! 13 AND 0x3F, th_window = get_be16 b 14,
      th_checksum = get16 b 16, th_options = take (unat (drop_bit 4 (b ! 12)) * 4 - 20) (drop 20 b)\<rparr>"

subsection \<open>Timers, queues and sockets\<close>

record TcpTimer =
  timer_running :: bool
  timer_startTime :: systime_t
  timer_interval :: systime_t

text \<open>\<open>TCP_CMP_SEQ(a, b)\<close>: sequence numbers are compared by the sign of their 32-bit difference.\<close>

definition TCP_CMP_SEQ :: "u32 \<Rightarrow> u32 \<Rightarrow> int" where
  "TCP_CMP_SEQ a b = sint (a - b)"

record TcpQueueItem =
  q_length :: u32
  q_pseudoHeader :: IpPseudoHeader
  q_header :: buffer

record TcpSynQueueItem =
  syn_interface :: "nat option"
  syn_srcAddr :: IpAddr
  syn_srcPort :: u16
  syn_destAddr :: IpAddr
  syn_isn :: u32
  syn_mss :: u16

datatype TcpState =
    TCP_STATE_CLOSED
  | TCP_STATE_LISTEN
  | TCP_STATE_SYN_SENT
  | TCP_STATE_SYN_RECEIVED
  | TCP_STATE_ESTABLISHED
  | TCP_STATE_CLOSE_WAIT
  | TCP_STATE_LAST_ACK
  | TCP_STATE_FIN_WAIT_1
  | TCP_STATE_FIN_WAIT_2
  | TCP_STATE_CLOSING
  | TCP_STATE_TIME_WAIT

datatype TcpCongestState = TCP_CONGEST_STATE_IDLE | TCP_CONGEST_STATE_RECOVERY | TCP_CONGEST_STATE_LOSS_RECOVERY

abbreviation (input) SOCKET_TYPE_UNUSED :: nat where "SOCKET_TYPE_UNUSED \<equiv> 0"
abbreviation (input) SOCKET_TYPE_STREAM :: nat where "SOCKET_TYPE_STREAM \<equiv> 1"

record Socket =
  sk_descriptor :: nat
  sk_type :: nat
  sk_interface :: "nat option"
  localIpAddr :: IpAddr
  localPort :: u16
  remoteIpAddr :: IpAddr
  remotePort :: u16
  sk_timeout :: systime_t
  sk_eventMask :: u32
  sk_eventFlags :: u32
  sk_userEvent :: bool
  sk_state :: TcpState
  ownedFlag :: bool
  closedFlag :: bool
  resetFlag :: bool
  smss :: u16
  rmss :: u16
  iss :: u32
  irs :: u32
  sndUna :: u32
  sndNxt :: u32
  sndUser :: u16
  sndWnd :: u16
  maxSndWnd :: u16
  sndWl1 :: u32
  sndWl2 :: u32
  rcvNxt :: u32
  rcvUser :: u16
  rcvWnd :: u16
  rttBusy :: bool
  rttSeqNum :: u32
  rttStartTime :: systime_t
  srtt :: systime_t
  rttvar :: systime_t
  rto :: systime_t
  congestState :: TcpCongestState
  cwnd :: u16
  ssthresh :: u16
  dupAckCount :: u32
  sk_n :: u32
  recover :: u32
  txBuffer :: buffer
  txBufferSize :: u32
  rxBuffer :: buffer
  rxBufferSize :: u32
  retransmitQueue :: "TcpQueueItem list"
  retransmitTimer :: TcpTimer
  retransmitCount :: u32
  synQueue :: "TcpSynQueueItem list"
  synQueueSize :: u32
  wndProbeCount :: u32
  wndProbeInterval :: systime_t
  persistTimer :: TcpTimer
  overrideTimer :: TcpTimer
  finWait2Timer :: TcpTimer
  timeWaitTimer :: TcpTimer
  sackBlock :: "(u32 \<times> u32) list"

text \<open>
  What TCP needs of the rest: the clock, the allocator (the bytes of the new block, or
  \<open>None\<close>), the IP layer, a
  source of random numbers, the state of the link, and the events that wake up tasks.
\<close>

record 'w tcp_ops =
  sysTime :: "'w \<Rightarrow> systime_t \<times> 'w"
  memAlloc :: "nat \<Rightarrow> 'w \<Rightarrow> buffer option \<times> 'w"
  ipSend :: "nat option \<Rightarrow> IpPseudoHeader \<Rightarrow> buffer \<Rightarrow> 'w \<Rightarrow> error_t \<times> 'w"
  sysRand :: "'w \<Rightarrow> u32 \<times> 'w"
  selectSource :: "nat option \<Rightarrow> IpAddr \<Rightarrow> 'w \<Rightarrow> (error_t \<times> nat option \<times> IpAddr) \<times> 'w"
  linkUp :: "nat \<Rightarrow> 'w \<Rightarrow> bool"
  setEvent :: "nat \<Rightarrow> bool \<Rightarrow> 'w \<Rightarrow> 'w"

end
