(* ===== verification/TcpSegment.thy ===== *)
theory TcpSegment
  imports TcpTypes IpChecksum
begin

text \<open>
  The parts of \<open>tcp_timer.c\<close> and \<open>tcp_misc.c\<close> that the state machine is built on: timers, options, the
  circular send and receive buffers, events and states, and sending a segment.

  \<open>None\<close> is undefined behaviour (an access outside a buffer, a division by zero) or a loop that does not end.
\<close>

subsection \<open>Timers\<close>

definition tcpTimerStart :: "'w tcp_ops \<Rightarrow> TcpTimer \<Rightarrow> systime_t \<Rightarrow> 'w \<Rightarrow> TcpTimer \<times> 'w" where
  "tcpTimerStart ops timer delay w =
     (case sysTime ops w of (time, w) \<Rightarrow>
        (timer\<lparr>timer_startTime := time, timer_interval := delay, timer_running := True\<rparr>, w))"

definition tcpTimerStop :: "TcpTimer \<Rightarrow> TcpTimer" where
  "tcpTimerStop timer = timer\<lparr>timer_running := False\<rparr>"

definition tcpTimerRunning :: "TcpTimer \<Rightarrow> bool" where
  "tcpTimerRunning timer = timer_running timer"

definition tcpTimerElapsed :: "'w tcp_ops \<Rightarrow> TcpTimer \<Rightarrow> 'w \<Rightarrow> bool \<times> 'w" where
  "tcpTimerElapsed ops timer w =
     (if \<not> timer_running timer then (False, w)
      else case sysTime ops w of (time, w) \<Rightarrow>
        (timeCompare time (timer_startTime timer + timer_interval timer) \<ge> 0, w))"

subsection \<open>Options\<close>

abbreviation (input) TCP_MAX_HEADER_LENGTH :: nat where "TCP_MAX_HEADER_LENGTH \<equiv> 60"
abbreviation (input) sizeof_TcpHeader :: nat where "sizeof_TcpHeader \<equiv> 20"

text \<open>The option ends at a multiple of four bytes; \<open>NOP\<close>s before it pad it.\<close>

definition tcpAddOption :: "TcpHeader \<Rightarrow> u8 \<Rightarrow> buffer \<Rightarrow> error_t \<times> TcpHeader" where
  "tcpAddOption segment kind val =
     (let len = length val + 2 in
      if th_dataOffset segment * 4 + len > TCP_MAX_HEADER_LENGTH then (ERROR_FAILURE, segment)
      else
        let i = th_dataOffset segment * 4 - sizeof_TcpHeader;
            paddingSize = (if len mod 4 \<noteq> 0 then 4 - len mod 4 else 0);
            opts = take i (th_options segment) @ replicate paddingSize TCP_OPTION_NOP @ [kind, word_of_nat len] @ val
        in (NO_ERROR, segment\<lparr>th_options := opts,
              th_dataOffset := (sizeof_TcpHeader + (i + paddingSize + len)) div 4\<rparr>))"

text \<open>The position of an option among the options, if it is there.  The loop may run forever.\<close>

partial_function (option) get_option_loop :: "buffer \<Rightarrow> u8 \<Rightarrow> nat \<Rightarrow> nat \<Rightarrow> nat option option" where
  "get_option_loop opts kind len i =
     (if i < len then
        Option.bind (rd8 opts i) (\<lambda>k.
          if k = TCP_OPTION_NOP then get_option_loop opts kind len (i + 1)
          else if k = TCP_OPTION_END then Some None
          else if i + 1 \<ge> len then Some None
          else Option.bind (rd8 opts (i + 1)) (\<lambda>l.
            if i + unat l > len then Some None
            else if k = kind then Some (Some i)
            else get_option_loop opts kind len (i + unat l)))
      else Some None)"

definition tcpGetOption :: "TcpHeader \<Rightarrow> u8 \<Rightarrow> nat option option" where
  "tcpGetOption segment kind =
     (if th_dataOffset segment < 5 then Some None
      else get_option_loop (th_options segment) kind (th_dataOffset segment * 4 - sizeof_TcpHeader) 0)"

text \<open>The value of the maximum segment size option of an incoming segment, if it is present and has length 4.\<close>

definition mss_option :: "TcpHeader \<Rightarrow> u16 option option" where
  "mss_option segment = do {
     r \<leftarrow> tcpGetOption segment TCP_OPTION_MAX_SEGMENT_SIZE;
     (case r of
        None \<Rightarrow> Some None
      | Some i \<Rightarrow> do {
          l \<leftarrow> rd8 (th_options segment) (i + 1);
          if l = 4 then do { v \<leftarrow> rds (th_options segment) (i + 2) 2; Some (Some (get_be16 v 0)) }
          else Some None
        })
   }"

subsection \<open>The circular buffers\<close>

text \<open>
  The code computes the second length as \<open>length - size + offset\<close>; it wraps around twice where
  \<open>length\<close> is less than the size, and is \<open>length + offset - size\<close>.

  The multi-part buffer operations on the bytes of a buffer: \<open>netBufferWrite\<close>, \<open>netBufferRead\<close>,
  \<open>netBufferCopy\<close> and \<open>netBufferConcat\<close> stop at the end of the buffer.
\<close>

definition buf_write :: "buffer \<Rightarrow> nat \<Rightarrow> buffer \<Rightarrow> buffer" where
  "buf_write b off vs = blit b off (take (length b - off) vs)"

definition buf_read :: "buffer \<Rightarrow> nat \<Rightarrow> nat \<Rightarrow> buffer" where
  "buf_read b off n = take n (drop off b)"

definition buf_concat :: "buffer \<Rightarrow> nat \<Rightarrow> nat \<Rightarrow> error_t \<times> buffer" where
  "buf_concat b off n =
     (if off \<ge> length b then (ERROR_INVALID_PARAMETER, [])
      else if off + n > length b then (ERROR_FAILURE, buf_read b off n)
      else (NO_ERROR, buf_read b off n))"

text \<open>An offset in a circular buffer is taken modulo its size, which must not be zero.\<close>

definition ring_offset :: "u32 \<Rightarrow> u32 \<Rightarrow> u32 \<Rightarrow> nat option" where
  "ring_offset seqNum isn n = (if n = 0 then None else Some (unat (seqNum - isn - 1) mod unat n))"

definition tcpWriteTxBuffer :: "Socket \<Rightarrow> u32 \<Rightarrow> buffer \<Rightarrow> Socket option" where
  "tcpWriteTxBuffer sk seqNum data = do {
     offset \<leftarrow> ring_offset seqNum (iss sk) (txBufferSize sk);
     let n = unat (txBufferSize sk);
     if offset + length data \<le> n then Some (sk\<lparr>txBuffer := buf_write (txBuffer sk) offset data\<rparr>)
     else Some (sk\<lparr>txBuffer := buf_write (buf_write (txBuffer sk) offset (take (n - offset) data)) 0
                                 (drop (n - offset) data)\<rparr>)
   }"

definition tcpReadTxBuffer :: "Socket \<Rightarrow> u32 \<Rightarrow> nat \<Rightarrow> (error_t \<times> buffer) option" where
  "tcpReadTxBuffer sk seqNum len = do {
     offset \<leftarrow> ring_offset seqNum (iss sk) (txBufferSize sk);
     let n = unat (txBufferSize sk);
     if offset + len \<le> n then Some (buf_concat (txBuffer sk) offset len)
     else
       (case buf_concat (txBuffer sk) offset (n - offset) of (error, data) \<Rightarrow>
          if error \<noteq> NO_ERROR then Some (error, data)
          else (case buf_concat (txBuffer sk) 0 (len + offset - n) of (error, data') \<Rightarrow> Some (error, data @ data')))
   }"

text \<open>\<open>netBufferCopy\<close> changes nothing when one of the offsets lies outside.\<close>

definition buf_copy :: "buffer \<Rightarrow> nat \<Rightarrow> buffer \<Rightarrow> nat \<Rightarrow> nat \<Rightarrow> buffer" where
  "buf_copy b off src srcOff n =
     (if off \<ge> length b \<or> srcOff \<ge> length src then b else buf_write b off (buf_read src srcOff n))"

definition tcpWriteRxBuffer :: "Socket \<Rightarrow> u32 \<Rightarrow> buffer \<Rightarrow> nat \<Rightarrow> nat \<Rightarrow> Socket option" where
  "tcpWriteRxBuffer sk seqNum data dataOffset len = do {
     offset \<leftarrow> ring_offset seqNum (irs sk) (rxBufferSize sk);
     let n = unat (rxBufferSize sk);
     if offset + len \<le> n then Some (sk\<lparr>rxBuffer := buf_copy (rxBuffer sk) offset data dataOffset len\<rparr>)
     else Some (sk\<lparr>rxBuffer := buf_copy (buf_copy (rxBuffer sk) offset data dataOffset (n - offset)) 0
                                 data (dataOffset + n - offset) (len + offset - n)\<rparr>)
   }"

text \<open>The bytes go to the start of the user's memory; what is not read leaves it as it was.\<close>

definition tcpReadRxBuffer :: "Socket \<Rightarrow> u32 \<Rightarrow> buffer \<Rightarrow> nat \<Rightarrow> buffer option" where
  "tcpReadRxBuffer sk seqNum data len = do {
     offset \<leftarrow> ring_offset seqNum (irs sk) (rxBufferSize sk);
     let n = unat (rxBufferSize sk);
     if offset + len \<le> n then wrs data 0 (buf_read (rxBuffer sk) offset len)
     else do {
       data \<leftarrow> wrs data 0 (buf_read (rxBuffer sk) offset (n - offset));
       wrs data (n - offset) (buf_read (rxBuffer sk) 0 (len + offset - n))
     }
   }"

subsection \<open>Events and states\<close>

abbreviation (input) SOCKET_EVENT_CONNECTED :: u32 where "SOCKET_EVENT_CONNECTED \<equiv> 0x0001"
abbreviation (input) SOCKET_EVENT_CLOSED :: u32 where "SOCKET_EVENT_CLOSED \<equiv> 0x0002"
abbreviation (input) EVENT_TX_READY :: u32 where "EVENT_TX_READY \<equiv> 0x0004"
abbreviation (input) SOCKET_EVENT_TX_DONE :: u32 where "SOCKET_EVENT_TX_DONE \<equiv> 0x0008"
abbreviation (input) SOCKET_EVENT_TX_ACKED :: u32 where "SOCKET_EVENT_TX_ACKED \<equiv> 0x0010"
abbreviation (input) SOCKET_EVENT_TX_SHUTDOWN :: u32 where "SOCKET_EVENT_TX_SHUTDOWN \<equiv> 0x0020"
abbreviation (input) EVENT_RX_READY :: u32 where "EVENT_RX_READY \<equiv> 0x0040"
abbreviation (input) SOCKET_EVENT_RX_SHUTDOWN :: u32 where "SOCKET_EVENT_RX_SHUTDOWN \<equiv> 0x0080"
abbreviation (input) SOCKET_EVENT_LINK_UP :: u32 where "SOCKET_EVENT_LINK_UP \<equiv> 0x0100"
abbreviation (input) SOCKET_EVENT_LINK_DOWN :: u32 where "SOCKET_EVENT_LINK_DOWN \<equiv> 0x0200"

definition state_events :: "Socket \<Rightarrow> u32" where
  "state_events sk =
     (case sk_state sk of
        TCP_STATE_ESTABLISHED \<Rightarrow> SOCKET_EVENT_CONNECTED
      | TCP_STATE_FIN_WAIT_1 \<Rightarrow> SOCKET_EVENT_CONNECTED
      | TCP_STATE_FIN_WAIT_2 \<Rightarrow> SOCKET_EVENT_CONNECTED OR SOCKET_EVENT_TX_SHUTDOWN
      | TCP_STATE_CLOSE_WAIT \<Rightarrow> SOCKET_EVENT_CONNECTED OR SOCKET_EVENT_RX_SHUTDOWN
      | TCP_STATE_LAST_ACK \<Rightarrow> SOCKET_EVENT_CONNECTED OR SOCKET_EVENT_RX_SHUTDOWN
      | TCP_STATE_CLOSING \<Rightarrow> SOCKET_EVENT_CONNECTED OR SOCKET_EVENT_RX_SHUTDOWN
      | TCP_STATE_TIME_WAIT \<Rightarrow> SOCKET_EVENT_CLOSED OR SOCKET_EVENT_TX_SHUTDOWN OR SOCKET_EVENT_RX_SHUTDOWN
      | TCP_STATE_CLOSED \<Rightarrow> SOCKET_EVENT_CLOSED OR SOCKET_EVENT_TX_SHUTDOWN OR SOCKET_EVENT_RX_SHUTDOWN
      | _ \<Rightarrow> 0)"

definition tx_events :: "Socket \<Rightarrow> u32" where
  "tx_events sk =
     (if sk_state sk = TCP_STATE_SYN_SENT \<or> sk_state sk = TCP_STATE_SYN_RECEIVED
      then SOCKET_EVENT_TX_DONE OR SOCKET_EVENT_TX_ACKED
      else if sk_state sk = TCP_STATE_ESTABLISHED \<or> sk_state sk = TCP_STATE_CLOSE_WAIT
      then (if ucast (sndUser sk) + sndNxt sk - sndUna sk < txBufferSize sk then EVENT_TX_READY else 0) OR
           (if sndUser sk = 0
            then SOCKET_EVENT_TX_DONE OR (if TCP_CMP_SEQ (sndUna sk) (sndNxt sk) \<ge> 0 then SOCKET_EVENT_TX_ACKED else 0)
            else 0)
      else if sk_state sk \<noteq> TCP_STATE_LISTEN
      then EVENT_TX_READY OR SOCKET_EVENT_TX_DONE OR SOCKET_EVENT_TX_ACKED
      else 0)"

definition rx_events :: "Socket \<Rightarrow> u32" where
  "rx_events sk =
     (if sk_state sk = TCP_STATE_ESTABLISHED \<or> sk_state sk = TCP_STATE_FIN_WAIT_1 \<or> sk_state sk = TCP_STATE_FIN_WAIT_2
      then (if rcvUser sk > 0 then EVENT_RX_READY else 0)
      else if sk_state sk = TCP_STATE_LISTEN then (if synQueue sk \<noteq> [] then EVENT_RX_READY else 0)
      else if sk_state sk \<noteq> TCP_STATE_SYN_SENT \<and> sk_state sk \<noteq> TCP_STATE_SYN_RECEIVED then EVENT_RX_READY
      else 0)"

definition link_events :: "'w tcp_ops \<Rightarrow> Socket \<Rightarrow> 'w \<Rightarrow> u32" where
  "link_events ops sk w =
     (case sk_interface sk of
        None \<Rightarrow> 0
      | Some i \<Rightarrow> if linkUp ops i w then SOCKET_EVENT_LINK_UP else SOCKET_EVENT_LINK_DOWN)"

definition tcpUpdateEvents :: "'w tcp_ops \<Rightarrow> Socket \<Rightarrow> 'w \<Rightarrow> Socket \<times> 'w" where
  "tcpUpdateEvents ops sk w =
     (let f = (state_events sk OR tx_events sk OR rx_events sk OR link_events ops sk w) AND sk_eventMask sk;
          sk = sk\<lparr>sk_eventFlags := f\<rparr>
      in if f \<noteq> 0
         then let w = setEvent ops (sk_descriptor sk) False w
              in (sk, if sk_userEvent sk then setEvent ops (sk_descriptor sk) True w else w)
         else (sk, w))"

definition tcpChangeState :: "'w tcp_ops \<Rightarrow> Socket \<Rightarrow> TcpState \<Rightarrow> 'w \<Rightarrow> Socket \<times> 'w" where
  "tcpChangeState ops sk newState w =
     (let sk = (if newState = TCP_STATE_CLOSED
                then if sk_state sk = TCP_STATE_LAST_ACK \<or> sk_state sk = TCP_STATE_TIME_WAIT
                     then sk\<lparr>closedFlag := True\<rparr> else sk\<lparr>resetFlag := True\<rparr>
                else sk)
      in tcpUpdateEvents ops (sk\<lparr>sk_state := newState\<rparr>) w)"

subsection \<open>Sending\<close>

text \<open>
  The pseudo header of a segment of \<open>len\<close> bytes from the socket.  The local address of a socket with a
  remote address is of the same family; reading the other member of the union is undefined.
\<close>

definition socket_pseudo :: "Socket \<Rightarrow> nat \<Rightarrow> IpPseudoHeader option option" where
  "socket_pseudo sk len =
     (case remoteIpAddr sk of
        NoAddr \<Rightarrow> Some None
      | Ipv4Addr dest \<Rightarrow>
          (case localIpAddr sk of Ipv4Addr src \<Rightarrow> Some (Some (Ipv4Pseudo src dest (word_of_nat len))) | _ \<Rightarrow> None)
      | Ipv6Addr dest \<Rightarrow>
          (case localIpAddr sk of Ipv6Addr src \<Rightarrow> Some (Some (Ipv6Pseudo src dest (word_of_nat len))) | _ \<Rightarrow> None))"

definition finish_checksum :: "IpPseudoHeader \<Rightarrow> TcpHeader \<Rightarrow> buffer \<Rightarrow> TcpHeader" where
  "finish_checksum ph segment data =
     segment\<lparr>th_checksum := ipCalcUpperLayerChecksum (pseudo_bytes ph) 0 (tcp_header_bytes segment @ data)\<rparr>"

text \<open>\<open>sizeof(TcpQueueItem)\<close>; the allocator is asked for that many bytes.\<close>

abbreviation (input) sizeof_TcpQueueItem :: nat where "sizeof_TcpQueueItem \<equiv> 116"
abbreviation (input) sizeof_TcpSynQueueItem :: nat where "sizeof_TcpSynQueueItem \<equiv> 56"
abbreviation (input) NET_BUFFER_SIZE :: nat where "NET_BUFFER_SIZE \<equiv> 1536"

text \<open>Adding a segment to the retransmission queue, which starts the round-trip measurement and the timer.\<close>

definition queue_segment ::
    "'w tcp_ops \<Rightarrow> Socket \<Rightarrow> IpPseudoHeader \<Rightarrow> TcpHeader \<Rightarrow> u32 \<Rightarrow> 'w \<Rightarrow> error_t \<times> Socket \<times> 'w" where
  "queue_segment ops sk ph segment len w =
     (case memAlloc ops sizeof_TcpQueueItem w of (block, w) \<Rightarrow>
        if block = None then (ERROR_OUT_OF_MEMORY, sk, w)
        else
          let item = \<lparr>q_length = len, q_pseudoHeader = ph, q_header = tcp_header_bytes segment\<rparr>;
              sk = sk\<lparr>retransmitQueue := retransmitQueue sk @ [item]\<rparr>;
              (sk, w) =
                (if rttBusy sk then (sk, w)
                 else case sysTime ops w of (time, w) \<Rightarrow>
                   (sk\<lparr>rttStartTime := time, rttSeqNum := th_seqNum segment, rttBusy := True, sk_n := 0\<rparr>, w));
              (sk, w) =
                (if tcpTimerRunning (retransmitTimer sk) then (sk, w)
                 else case tcpTimerStart ops (retransmitTimer sk) (rto sk) w of (timer, w) \<Rightarrow>
                   (sk\<lparr>retransmitTimer := timer, retransmitCount := 0\<rparr>, w))
          in (NO_ERROR, sk, w))"

text \<open>The header of a new segment, and what is done once its data is there.\<close>

definition new_segment :: "Socket \<Rightarrow> u8 \<Rightarrow> u32 \<Rightarrow> u32 \<Rightarrow> TcpHeader" where
  "new_segment sk flags seqNum ackNum =
     (let segment = \<lparr>th_srcPort = localPort sk, th_destPort = remotePort sk, th_seqNum = seqNum,
            th_ackNum = (if flags AND TCP_FLAG_ACK \<noteq> 0 then ackNum else 0), th_dataOffset = 5, th_flags = flags,
            th_window = rcvWnd sk, th_checksum = 0, th_options = []\<rparr>
      in if flags AND TCP_FLAG_SYN \<noteq> 0
         then snd (tcpAddOption segment TCP_OPTION_MAX_SEGMENT_SIZE (be16 (rmss sk))) else segment)"

definition submit_segment ::
    "'w tcp_ops \<Rightarrow> Socket \<Rightarrow> IpPseudoHeader \<Rightarrow> TcpHeader \<Rightarrow> buffer \<Rightarrow> u32 \<Rightarrow> bool \<Rightarrow> 'w \<Rightarrow> error_t \<times> Socket \<times> 'w" where
  "submit_segment ops sk ph segment data len addToQueue w =
     (let segment = finish_checksum ph segment data;
          (error, sk, w) = (if addToQueue then queue_segment ops sk ph segment len w else (NO_ERROR, sk, w))
      in if error \<noteq> NO_ERROR then (error, sk, w)
         else case ipSend ops (sk_interface sk) ph (tcp_header_bytes segment @ data) w of (error, w) \<Rightarrow> (error, sk, w))"

definition tcpSendSegment ::
    "'w tcp_ops \<Rightarrow> Socket \<Rightarrow> u8 \<Rightarrow> u32 \<Rightarrow> u32 \<Rightarrow> u32 \<Rightarrow> bool \<Rightarrow> 'w \<Rightarrow> (error_t \<times> Socket \<times> 'w) option" where
  "tcpSendSegment ops sk flags seqNum ackNum len addToQueue w =
     (case memAlloc ops NET_BUFFER_SIZE w of (block, w) \<Rightarrow>
        if block = None then Some (ERROR_OUT_OF_MEMORY, sk, w)
        else do {
          let segment = new_segment sk flags seqNum ackNum;
          (error, data) \<leftarrow> (if len > 0 then tcpReadTxBuffer sk seqNum (unat len) else Some (NO_ERROR, []));
          if error \<noteq> NO_ERROR then Some (error, sk, w)
          else do {
            pseudo \<leftarrow> socket_pseudo sk (th_dataOffset segment * 4 + unat len);
            (case pseudo of
               None \<Rightarrow> Some (ERROR_INVALID_ADDRESS, sk, w)
             | Some ph \<Rightarrow> Some (submit_segment ops sk ph segment data len addToQueue w))
          }
        })"

text \<open>The reset sent in answer to a segment, its pseudo header the one of the segment turned round.\<close>

definition tcpSendResetSegment ::
    "'w tcp_ops \<Rightarrow> nat option \<Rightarrow> IpPseudoHeader \<Rightarrow> TcpHeader \<Rightarrow> u32 \<Rightarrow> 'w \<Rightarrow> error_t \<times> 'w" where
  "tcpSendResetSegment ops interface pseudoHeader segment len w =
     (let (flags, seqNum, ackNum) =
            (if has_flag segment TCP_FLAG_ACK then (TCP_FLAG_RST, th_ackNum segment, 0)
             else (TCP_FLAG_RST OR TCP_FLAG_ACK, 0,
                   th_seqNum segment + len + (if has_flag segment TCP_FLAG_SYN then 1 else 0) +
                   (if has_flag segment TCP_FLAG_FIN then 1 else 0)))
      in case memAlloc ops NET_BUFFER_SIZE w of (block, w) \<Rightarrow>
        if block = None then (ERROR_OUT_OF_MEMORY, w)
        else
          let segment2 = \<lparr>th_srcPort = th_destPort segment, th_destPort = th_srcPort segment, th_seqNum = seqNum,
                th_ackNum = ackNum, th_dataOffset = 5, th_flags = flags, th_window = 0, th_checksum = 0, th_options = []\<rparr>;
              pseudoHeader2 = (case pseudoHeader of
                 Ipv4Pseudo src dest _ \<Rightarrow> Ipv4Pseudo dest src (word_of_nat sizeof_TcpHeader)
               | Ipv6Pseudo src dest _ \<Rightarrow> Ipv6Pseudo dest src (word_of_nat sizeof_TcpHeader));
              segment2 = finish_checksum pseudoHeader2 segment2 []
          in ipSend ops interface pseudoHeader2 (tcp_header_bytes segment2) w)"

end
