(* ===== verification/TcpMisc.thy ===== *)
theory TcpMisc
  imports TcpSegment
begin

text \<open>
  The rest of \<open>tcp_misc.c\<close>: the checks of an incoming segment, windows, retransmission, congestion control,
  out-of-order data, and the Nagle algorithm.
\<close>

abbreviation (input) TCP_MAX_MSS :: u16 where "TCP_MAX_MSS \<equiv> 1430"
abbreviation (input) TCP_MIN_MSS :: u16 where "TCP_MIN_MSS \<equiv> 64"
abbreviation (input) TCP_DEFAULT_MSS :: u16 where "TCP_DEFAULT_MSS \<equiv> 536"
abbreviation (input) TCP_INITIAL_RTO :: u32 where "TCP_INITIAL_RTO \<equiv> 1000"
abbreviation (input) TCP_MIN_RTO :: u32 where "TCP_MIN_RTO \<equiv> 1000"
abbreviation (input) TCP_MAX_RTO :: u32 where "TCP_MAX_RTO \<equiv> 60000"
abbreviation (input) TCP_FAST_RETRANSMIT_THRES :: u32 where "TCP_FAST_RETRANSMIT_THRES \<equiv> 3"
abbreviation (input) TCP_DEFAULT_PROBE_INTERVAL :: u32 where "TCP_DEFAULT_PROBE_INTERVAL \<equiv> 1000"
abbreviation (input) TCP_MAX_SACK_BLOCKS :: nat where "TCP_MAX_SACK_BLOCKS \<equiv> 4"
abbreviation (input) SOCKET_FLAG_NO_DELAY :: u32 where "SOCKET_FLAG_NO_DELAY \<equiv> 0x4000"
abbreviation (input) SOCKET_FLAG_DELAY :: u32 where "SOCKET_FLAG_DELAY \<equiv> 0x8000"

subsection \<open>Sequence number and SYN bit\<close>

definition seq_acceptable :: "Socket \<Rightarrow> TcpHeader \<Rightarrow> u32 \<Rightarrow> bool" where
  "seq_acceptable sk segment len =
     (let wnd = ucast (rcvWnd sk) :: u32 in
      if len = 0 \<and> rcvWnd sk = 0 then th_seqNum segment = rcvNxt sk
      else if len = 0 then
        TCP_CMP_SEQ (th_seqNum segment) (rcvNxt sk) \<ge> 0 \<and> TCP_CMP_SEQ (th_seqNum segment) (rcvNxt sk + wnd) < 0
      else if rcvWnd sk \<noteq> 0 then
        TCP_CMP_SEQ (th_seqNum segment) (rcvNxt sk) \<ge> 0 \<and> TCP_CMP_SEQ (th_seqNum segment) (rcvNxt sk + wnd) < 0 \<or>
        TCP_CMP_SEQ (th_seqNum segment + len - 1) (rcvNxt sk) \<ge> 0 \<and>
        TCP_CMP_SEQ (th_seqNum segment + len - 1) (rcvNxt sk + wnd) < 0
      else False)"

definition tcpCheckSequenceNumber ::
    "'w tcp_ops \<Rightarrow> Socket \<Rightarrow> TcpHeader \<Rightarrow> u32 \<Rightarrow> 'w \<Rightarrow> (error_t \<times> Socket \<times> 'w) option" where
  "tcpCheckSequenceNumber ops sk segment len w =
     (if seq_acceptable sk segment len then Some (NO_ERROR, sk, w)
      else if has_flag segment TCP_FLAG_RST then Some (ERROR_FAILURE, sk, w)
      else do {
        (_, sk, w) \<leftarrow> tcpSendSegment ops sk TCP_FLAG_ACK (sndNxt sk) (rcvNxt sk) 0 False w;
        Some (ERROR_FAILURE, sk, w)
      })"

definition tcpCheckSyn ::
    "'w tcp_ops \<Rightarrow> Socket \<Rightarrow> TcpHeader \<Rightarrow> u32 \<Rightarrow> 'w \<Rightarrow> (error_t \<times> Socket \<times> 'w) option" where
  "tcpCheckSyn ops sk segment len w =
     (if has_flag segment TCP_FLAG_SYN then do {
        (_, sk, w) \<leftarrow>
          (if has_flag segment TCP_FLAG_ACK then tcpSendSegment ops sk TCP_FLAG_RST (th_ackNum segment) 0 0 False w
           else tcpSendSegment ops sk (TCP_FLAG_RST OR TCP_FLAG_ACK) 0 (th_seqNum segment + len + 1) 0 False w);
        Some (ERROR_FAILURE, sk, w)
      }
      else Some (NO_ERROR, sk, w))"

text \<open>A queued connection request from the same address and port to the same address.\<close>

fun syn_matches :: "IpPseudoHeader \<Rightarrow> TcpSynQueueItem \<Rightarrow> bool" where
  "syn_matches (Ipv4Pseudo src dest _) item \<longleftrightarrow> syn_srcAddr item = Ipv4Addr src \<and> syn_destAddr item = Ipv4Addr dest"
| "syn_matches (Ipv6Pseudo src dest _) item \<longleftrightarrow> syn_srcAddr item = Ipv6Addr src \<and> syn_destAddr item = Ipv6Addr dest"

definition tcpIsDuplicateSyn :: "Socket \<Rightarrow> IpPseudoHeader \<Rightarrow> TcpHeader \<Rightarrow> bool" where
  "tcpIsDuplicateSyn sk pseudoHeader segment \<longleftrightarrow>
     (\<exists>item \<in> set (synQueue sk). syn_matches pseudoHeader item \<and> syn_srcPort item = th_srcPort segment)"

definition tcpIsDuplicateAck :: "Socket \<Rightarrow> TcpHeader \<Rightarrow> u32 \<Rightarrow> bool" where
  "tcpIsDuplicateAck sk segment len \<longleftrightarrow>
     retransmitQueue sk \<noteq> [] \<and> len = 0 \<and> \<not> has_flag segment (TCP_FLAG_SYN OR TCP_FLAG_FIN) \<and>
     th_ackNum segment = sndUna sk \<and> th_window segment = sndWnd sk"

subsection \<open>Retransmission\<close>

text \<open>The sequence numbers an item of the retransmission queue occupies.\<close>

definition item_header :: "TcpQueueItem \<Rightarrow> TcpHeader" where
  "item_header item = tcp_header_of (q_header item)"

definition item_length :: "TcpQueueItem \<Rightarrow> u32" where
  "item_length item =
     (if has_flag (item_header item) TCP_FLAG_SYN then 1
      else if has_flag (item_header item) TCP_FLAG_FIN then q_length item + 1
      else q_length item)"

definition item_acked :: "u32 \<Rightarrow> TcpQueueItem \<Rightarrow> bool" where
  "item_acked una item \<longleftrightarrow> TCP_CMP_SEQ una (th_seqNum (item_header item) + item_length item) \<ge> 0"

text \<open>The loop of \<open>tcpUpdateRetransmitQueue\<close>: what stays in the queue, and the timer and counter.\<close>

fun acked_loop :: "'w tcp_ops \<Rightarrow> Socket \<Rightarrow> TcpQueueItem list \<Rightarrow> 'w \<Rightarrow> TcpQueueItem list \<times> Socket \<times> 'w" where
  "acked_loop ops sk [] w = ([], sk, w)"
| "acked_loop ops sk (item # queue) w =
     (if item_acked (sndUna sk) item
      then (case tcpTimerStart ops (retransmitTimer sk) (rto sk) w of (timer, w) \<Rightarrow>
              acked_loop ops (sk\<lparr>retransmitTimer := timer, retransmitCount := 0\<rparr>) queue w)
      else (case acked_loop ops sk queue w of (rest, sk, w) \<Rightarrow> (item # rest, sk, w)))"

definition tcpUpdateRetransmitQueue :: "'w tcp_ops \<Rightarrow> Socket \<Rightarrow> 'w \<Rightarrow> Socket \<times> 'w" where
  "tcpUpdateRetransmitQueue ops sk w =
     (case acked_loop ops sk (retransmitQueue sk) w of (queue, sk, w) \<Rightarrow>
        let sk = sk\<lparr>retransmitQueue := queue\<rparr>
        in (if queue = [] then sk\<lparr>retransmitTimer := tcpTimerStop (retransmitTimer sk)\<rparr> else sk, w))"

definition tcpFlushRetransmitQueue :: "Socket \<Rightarrow> Socket" where
  "tcpFlushRetransmitQueue sk = sk\<lparr>retransmitQueue := [], retransmitTimer := tcpTimerStop (retransmitTimer sk)\<rparr>"

definition tcpFlushSynQueue :: "Socket \<Rightarrow> Socket" where
  "tcpFlushSynQueue sk = sk\<lparr>synQueue := []\<rparr>"

definition tcpDeleteControlBlock :: "Socket \<Rightarrow> Socket" where
  "tcpDeleteControlBlock sk =
     (tcpFlushSynQueue (tcpFlushRetransmitQueue sk))\<lparr>txBuffer := [], rxBuffer := []\<rparr>"

text \<open>Segments are sent again from the head of the queue, at most \<open>smss\<close> bytes of data.\<close>

fun retransmit_loop :: "'w tcp_ops \<Rightarrow> Socket \<Rightarrow> TcpQueueItem list \<Rightarrow> u32 \<Rightarrow> 'w \<Rightarrow> (error_t \<times> 'w) option" where
  "retransmit_loop ops sk [] len w = Some (NO_ERROR, w)"
| "retransmit_loop ops sk (item # queue) len w =
     (let len = len + q_length item in
      if len > ucast (smss sk) then Some (NO_ERROR, w)
      else case memAlloc ops NET_BUFFER_SIZE w of (block, w) \<Rightarrow>
        if block = None then Some (ERROR_OUT_OF_MEMORY, w)
        else do {
          (error, data) \<leftarrow> tcpReadTxBuffer sk (th_seqNum (item_header item)) (unat (q_length item));
          if error \<noteq> NO_ERROR then Some (error, w)
          else (case ipSend ops (sk_interface sk) (q_pseudoHeader item) (q_header item @ data) w of (error, w) \<Rightarrow>
            if error \<noteq> NO_ERROR then Some (error, w)
            else retransmit_loop ops sk queue len w)
        })"

definition tcpRetransmitSegment :: "'w tcp_ops \<Rightarrow> Socket \<Rightarrow> 'w \<Rightarrow> (error_t \<times> 'w) option" where
  "tcpRetransmitSegment ops sk w = retransmit_loop ops sk (retransmitQueue sk) 0 w"

text \<open>The estimators for a new measurement \<open>r\<close>, and the timeout computed from them.\<close>

definition rtt_sample :: "Socket \<Rightarrow> systime_t \<Rightarrow> Socket" where
  "rtt_sample sk r =
     (if srtt sk = 0 \<and> rttvar sk = 0 then sk\<lparr>srtt := r, rttvar := r div 2\<rparr>
      else let delta = (if r > srtt sk then r - srtt sk else srtt sk - r)
           in sk\<lparr>rttvar := (3 * rttvar sk + delta) div 4, srtt := (7 * srtt sk + r) div 8\<rparr>)"

definition bounded_rto :: "Socket \<Rightarrow> systime_t" where
  "bounded_rto sk = min (max (srtt sk + 4 * rttvar sk) TCP_MIN_RTO) TCP_MAX_RTO"

definition tcpComputeRto :: "'w tcp_ops \<Rightarrow> Socket \<Rightarrow> 'w \<Rightarrow> bool \<times> Socket \<times> 'w" where
  "tcpComputeRto ops sk w =
     (if rttBusy sk \<and> TCP_CMP_SEQ (sndUna sk) (rttSeqNum sk) > 0
      then case sysTime ops w of (time, w) \<Rightarrow>
        let sk = rtt_sample sk (time - rttStartTime sk)
        in (True, sk\<lparr>rto := bounded_rto sk, rttBusy := False\<rparr>, w)
      else (False, sk, w))"

subsection \<open>Congestion control\<close>

definition tcpFastRetransmit :: "'w tcp_ops \<Rightarrow> Socket \<Rightarrow> 'w \<Rightarrow> (Socket \<times> 'w) option" where
  "tcpFastRetransmit ops sk w = do {
     let flightSize = sndNxt sk - sndUna sk;
     let sk = sk\<lparr>ssthresh := ucast (max (flightSize div 2) (2 * ucast (smss sk))), recover := sndNxt sk - 1\<rparr>;
     (_, w) \<leftarrow> tcpRetransmitSegment ops sk w;
     Some (sk\<lparr>cwnd := ucast (ucast (ssthresh sk) + TCP_FAST_RETRANSMIT_THRES * ucast (smss sk) :: u32),
              congestState := TCP_CONGEST_STATE_RECOVERY\<rparr>, w)
   }"

definition tcpFastRecovery :: "'w tcp_ops \<Rightarrow> Socket \<Rightarrow> TcpHeader \<Rightarrow> u32 \<Rightarrow> 'w \<Rightarrow> (Socket \<times> 'w) option" where
  "tcpFastRecovery ops sk segment n w =
     (if TCP_CMP_SEQ (th_ackNum segment) (recover sk) > 0
      then Some (sk\<lparr>cwnd := ssthresh sk, congestState := TCP_CONGEST_STATE_IDLE\<rparr>, w)
      else do {
        (_, w) \<leftarrow> tcpRetransmitSegment ops sk w;
        let sk = (if ucast (cwnd sk) > n then sk\<lparr>cwnd := cwnd sk - ucast n\<rparr> else sk);
        let sk = (if n \<ge> ucast (smss sk) then sk\<lparr>cwnd := cwnd sk + smss sk\<rparr> else sk);
        Some (sk\<lparr>congestState := TCP_CONGEST_STATE_RECOVERY\<rparr>, w)
      })"

definition tcpFastLossRecovery :: "'w tcp_ops \<Rightarrow> Socket \<Rightarrow> TcpHeader \<Rightarrow> 'w \<Rightarrow> (Socket \<times> 'w) option" where
  "tcpFastLossRecovery ops sk segment w =
     (if TCP_CMP_SEQ (th_ackNum segment) (recover sk) > 0
      then Some (sk\<lparr>congestState := TCP_CONGEST_STATE_IDLE\<rparr>, w)
      else do {
        (_, w) \<leftarrow> tcpRetransmitSegment ops sk w;
        Some (sk\<lparr>congestState := TCP_CONGEST_STATE_LOSS_RECOVERY\<rparr>, w)
      })"

subsection \<open>Windows\<close>

definition tcpUpdateSendWindow :: "'w tcp_ops \<Rightarrow> Socket \<Rightarrow> TcpHeader \<Rightarrow> 'w \<Rightarrow> Socket \<times> 'w" where
  "tcpUpdateSendWindow ops sk segment w =
     (if th_seqNum segment = sndWl1 sk \<and> th_ackNum segment = sndWl2 sk
      then (if th_window segment > sndWnd sk
            then sk\<lparr>sndWnd := th_window segment, sndWl1 := th_seqNum segment, sndWl2 := th_ackNum segment,
                    maxSndWnd := max (maxSndWnd sk) (th_window segment)\<rparr>
            else sk, w)
      else if TCP_CMP_SEQ (th_seqNum segment) (sndWl1 sk) \<ge> 0 \<and> TCP_CMP_SEQ (th_ackNum segment) (sndWl2 sk) \<ge> 0
      then
        let (sk, w) =
              (if th_window segment = 0 \<and> sndWnd sk \<noteq> 0
               then case tcpTimerStart ops (persistTimer sk) TCP_DEFAULT_PROBE_INTERVAL w of (timer, w) \<Rightarrow>
                 (sk\<lparr>wndProbeCount := 0, wndProbeInterval := TCP_DEFAULT_PROBE_INTERVAL, persistTimer := timer\<rparr>, w)
               else (sk, w))
        in (sk\<lparr>sndWnd := th_window segment, sndWl1 := th_seqNum segment, sndWl2 := th_ackNum segment,
               maxSndWnd := max (maxSndWnd sk) (th_window segment)\<rparr>, w)
      else (sk, w))"

definition tcpUpdateReceiveWindow :: "'w tcp_ops \<Rightarrow> Socket \<Rightarrow> 'w \<Rightarrow> (Socket \<times> 'w) option" where
  "tcpUpdateReceiveWindow ops sk w =
     (let reduction = ucast (rxBufferSize sk - ucast (rcvUser sk) - ucast (rcvWnd sk)) :: u16;
          threshold = min (ucast (rmss sk)) (rxBufferSize sk div 2)
      in if ucast (rcvWnd sk) + ucast reduction \<ge> threshold
         then if ucast (rcvWnd sk) < threshold
              then do {
                let sk = sk\<lparr>rcvWnd := rcvWnd sk + reduction\<rparr>;
                (_, sk, w) \<leftarrow> tcpSendSegment ops sk TCP_FLAG_ACK (sndNxt sk) (rcvNxt sk) 0 False w;
                Some (sk, w)
              }
              else Some (sk\<lparr>rcvWnd := rcvWnd sk + reduction\<rparr>, w)
         else Some (sk, w))"

subsection \<open>Acknowledgments\<close>

text \<open>The number of bytes an acknowledgment of new data covers, without the SYN.\<close>

definition acked_bytes :: "Socket \<Rightarrow> TcpHeader \<Rightarrow> u32" where
  "acked_bytes sk segment =
     (let n = th_ackNum segment - sndUna sk in if sndUna sk = iss sk then n - 1 else n)"

text \<open>What it does to the congestion window: recovery, slow start or congestion avoidance.\<close>

definition congestion_step ::
    "'w tcp_ops \<Rightarrow> Socket \<Rightarrow> TcpHeader \<Rightarrow> u32 \<Rightarrow> bool \<Rightarrow> 'w \<Rightarrow> (Socket \<times> 'w) option" where
  "congestion_step ops sk segment n updateFlag w =
     (if congestState sk = TCP_CONGEST_STATE_RECOVERY then tcpFastRecovery ops sk segment n w
      else do {
        let sk = sk\<lparr>dupAckCount := 0\<rparr>;
        (sk, w) \<leftarrow> (if congestState sk = TCP_CONGEST_STATE_LOSS_RECOVERY then tcpFastLossRecovery ops sk segment w
                    else Some (sk, w));
        Some (if cwnd sk < ssthresh sk then sk\<lparr>cwnd := cwnd sk + ucast (min n (ucast (smss sk)))\<rparr>
              else if updateFlag then sk\<lparr>cwnd := cwnd sk + ucast (min (sk_n sk) (ucast (smss sk)))\<rparr>
              else sk, w)
      })"

definition ack_new_data :: "'w tcp_ops \<Rightarrow> Socket \<Rightarrow> TcpHeader \<Rightarrow> 'w \<Rightarrow> (Socket \<times> 'w) option" where
  "ack_new_data ops sk segment w = do {
     let n = acked_bytes sk segment;
     let sk = sk\<lparr>sk_n := sk_n sk + n, sndUna := th_ackNum segment\<rparr>;
     let (updateFlag, sk, w) = tcpComputeRto ops sk w;
     let (sk, w) = tcpUpdateRetransmitQueue ops sk w;
     (sk, w) \<leftarrow> congestion_step ops sk segment n updateFlag w;
     Some (sk\<lparr>cwnd := ucast (min (ucast (cwnd sk)) (txBufferSize sk))\<rparr>, w)
   }"

text \<open>How many duplicates trigger a fast retransmission.\<close>

definition dup_ack_thresh :: "Socket \<Rightarrow> u32" where
  "dup_ack_thresh sk =
     (let ownd = sndNxt sk - sndUna sk in
      if sndUser sk = 0 \<or> ucast (sndWnd sk) \<le> sndNxt sk - sndUna sk
      then if ownd \<le> 3 * ucast (smss sk) then 1
           else if ownd \<le> 4 * ucast (smss sk) then 2
           else TCP_FAST_RETRANSMIT_THRES
      else TCP_FAST_RETRANSMIT_THRES)"

text \<open>An acknowledgment of nothing new, which may be a duplicate.\<close>

definition ack_old_data :: "'w tcp_ops \<Rightarrow> Socket \<Rightarrow> TcpHeader \<Rightarrow> bool \<Rightarrow> 'w \<Rightarrow> (Socket \<times> 'w) option" where
  "ack_old_data ops sk segment duplicateFlag w = do {
     let sk = sk\<lparr>dupAckCount := (if duplicateFlag then dupAckCount sk + 1 else 0)\<rparr>;
     (sk, w) \<leftarrow>
       (case congestState sk of
          TCP_CONGEST_STATE_IDLE \<Rightarrow>
            if dupAckCount sk \<ge> dup_ack_thresh sk \<and> TCP_CMP_SEQ (th_ackNum segment) (recover sk + 1) > 0
            then tcpFastRetransmit ops sk w
            else Some (sk, w)
        | TCP_CONGEST_STATE_RECOVERY \<Rightarrow>
            Some (if duplicateFlag then sk\<lparr>cwnd := cwnd sk + smss sk\<rparr> else sk, w)
        | TCP_CONGEST_STATE_LOSS_RECOVERY \<Rightarrow> Some (sk, w));
     Some (sk\<lparr>cwnd := ucast (min (ucast (cwnd sk)) (txBufferSize sk))\<rparr>, w)
   }"

definition tcpCheckAck ::
    "'w tcp_ops \<Rightarrow> Socket \<Rightarrow> TcpHeader \<Rightarrow> u32 \<Rightarrow> 'w \<Rightarrow> (error_t \<times> Socket \<times> 'w) option" where
  "tcpCheckAck ops sk segment len w =
     (if \<not> has_flag segment TCP_FLAG_ACK then Some (ERROR_FAILURE, sk, w)
      else if TCP_CMP_SEQ (th_ackNum segment) (sndUna sk) < 0 then Some (NO_ERROR, sk, w)
      else if TCP_CMP_SEQ (th_ackNum segment) (sndNxt sk) > 0 then do {
        (_, sk, w) \<leftarrow> tcpSendSegment ops sk TCP_FLAG_ACK (sndNxt sk) (rcvNxt sk) 0 False w;
        Some (ERROR_FAILURE, sk, w)
      }
      else do {
        let duplicateFlag = tcpIsDuplicateAck sk segment len;
        let (sk, w) = tcpUpdateSendWindow ops sk segment w;
        (sk, w) \<leftarrow> (if TCP_CMP_SEQ (th_ackNum segment) (sndUna sk) > 0 then ack_new_data ops sk segment w
                    else ack_old_data ops sk segment duplicateFlag w);
        let (sk, w) = tcpUpdateEvents ops sk w;
        Some (NO_ERROR, sk, w)
      })"

subsection \<open>Incoming data\<close>

text \<open>
  The loop over the blocks received out of order: those that touch the new one are merged into it, with
  \<open>MIN\<close> and \<open>MAX\<close> on the unsigned numbers.
\<close>

fun merge_blocks :: "(u32 \<times> u32) list \<Rightarrow> u32 \<Rightarrow> u32 \<Rightarrow> (u32 \<times> u32) list \<times> u32 \<times> u32" where
  "merge_blocks [] leftEdge rightEdge = ([], leftEdge, rightEdge)"
| "merge_blocks ((l, r) # bs) leftEdge rightEdge =
     (if TCP_CMP_SEQ rightEdge l \<ge> 0 \<and> TCP_CMP_SEQ leftEdge r \<le> 0
      then merge_blocks bs (min leftEdge l) (max rightEdge r)
      else (case merge_blocks bs leftEdge rightEdge of (rest, leftEdge, rightEdge) \<Rightarrow>
              ((l, r) # rest, leftEdge, rightEdge)))"

definition tcpUpdateSackBlocks :: "Socket \<Rightarrow> u32 \<Rightarrow> u32 \<Rightarrow> Socket \<times> u32 \<times> u32" where
  "tcpUpdateSackBlocks sk leftEdge rightEdge =
     (case merge_blocks (sackBlock sk) leftEdge rightEdge of (bs, leftEdge, rightEdge) \<Rightarrow>
        (sk\<lparr>sackBlock := (if TCP_CMP_SEQ leftEdge (rcvNxt sk) > 0
                          then take TCP_MAX_SACK_BLOCKS ((leftEdge, rightEdge) # bs) else bs)\<rparr>,
         leftEdge, rightEdge))"

text \<open>
  The part of a segment that falls in the receive window: the position of its first byte in the data, and
  its first sequence number and the one behind the last.
\<close>

definition clip_segment :: "Socket \<Rightarrow> u32 \<Rightarrow> u32 \<Rightarrow> nat \<times> u32 \<times> u32" where
  "clip_segment sk seqNum len =
     (let (offset, leftEdge) =
            (if TCP_CMP_SEQ seqNum (rcvNxt sk) < 0 then (unat (rcvNxt sk - seqNum), rcvNxt sk) else (0, seqNum));
          rightEdge = seqNum + len;
          rightEdge =
            (if TCP_CMP_SEQ rightEdge (rcvNxt sk + ucast (rcvWnd sk)) > 0 then rcvNxt sk + ucast (rcvWnd sk)
             else rightEdge)
      in (offset, leftEdge, rightEdge))"

text \<open>\<open>data\<close> is what follows the header of the segment.\<close>

definition tcpProcessSegmentData ::
    "'w tcp_ops \<Rightarrow> Socket \<Rightarrow> TcpHeader \<Rightarrow> buffer \<Rightarrow> u32 \<Rightarrow> 'w \<Rightarrow> (Socket \<times> 'w) option" where
  "tcpProcessSegmentData ops sk segment data len w = do {
     let (offset, leftEdge, rightEdge) = clip_segment sk (th_seqNum segment) len;
     sk \<leftarrow> tcpWriteRxBuffer sk leftEdge data offset (unat (rightEdge - leftEdge));
     let (sk, leftEdge, rightEdge) = tcpUpdateSackBlocks sk leftEdge rightEdge;
     if TCP_CMP_SEQ leftEdge (rcvNxt sk) > 0 then do {
       (_, sk, w) \<leftarrow> tcpSendSegment ops sk TCP_FLAG_ACK (sndNxt sk) (rcvNxt sk) 0 False w;
       Some (sk, w)
     }
     else do {
       let len = rightEdge - leftEdge;
       let sk = sk\<lparr>rcvNxt := rcvNxt sk + len, rcvUser := rcvUser sk + ucast len, rcvWnd := rcvWnd sk - ucast len\<rparr>;
       (_, sk, w) \<leftarrow> tcpSendSegment ops sk TCP_FLAG_ACK (sndNxt sk) (rcvNxt sk) 0 False w;
       Some (tcpUpdateEvents ops sk w)
     }
   }"

subsection \<open>The Nagle algorithm\<close>

text \<open>How many bytes one pass of the loop sends, if it does not stop.\<close>

definition nagle_size :: "Socket \<Rightarrow> u32 \<Rightarrow> u32 \<Rightarrow> u32 option" where
  "nagle_size sk flags u =
     (let n = min (min u (ucast (sndUser sk))) (ucast (smss sk));
          full = min (ucast (sndUser sk)) u
      in if flags AND SOCKET_FLAG_NO_DELAY \<noteq> 0 then (if n > 0 then Some n else None)
         else if flags AND SOCKET_FLAG_DELAY \<noteq> 0 then (if full \<ge> ucast (smss sk) then Some n else None)
         else if full \<ge> ucast (smss sk) then Some n
         else if sndNxt sk = sndUna sk \<and> ucast (sndUser sk) \<le> u then Some n
         else if full \<ge> ucast (maxSndWnd sk div 2) then Some n
         else None)"

text \<open>The loop returns the status of the last segment and stops at the first one that fails.\<close>

partial_function (option) nagle_loop ::
    "'w tcp_ops \<Rightarrow> u32 \<Rightarrow> u32 \<Rightarrow> Socket \<Rightarrow> 'w \<Rightarrow> (error_t \<times> Socket \<times> 'w) option" where
  "nagle_loop ops flags u sk w =
     (if sndUser sk > 0 \<and> sint u > 0 then
        (case nagle_size sk flags u of
           None \<Rightarrow> Some (NO_ERROR, sk, w)
         | Some n \<Rightarrow>
             Option.bind (tcpSendSegment ops sk (TCP_FLAG_PSH OR TCP_FLAG_ACK) (sndNxt sk) (rcvNxt sk) n True w)
               (\<lambda>(error, sk, w).
                  if error \<noteq> NO_ERROR then Some (error, sk, w)
                  else nagle_loop ops flags (u - n) (sk\<lparr>sndNxt := sndNxt sk + n, sndUser := sndUser sk - ucast n\<rparr>) w))
      else Some (NO_ERROR, sk, w))"

definition usable_window :: "Socket \<Rightarrow> u32" where
  "usable_window sk =
     min (min (ucast (sndWnd sk)) (txBufferSize sk)) (ucast (cwnd sk)) - (sndNxt sk - sndUna sk)"

definition tcpNagleAlgo :: "'w tcp_ops \<Rightarrow> Socket \<Rightarrow> u32 \<Rightarrow> 'w \<Rightarrow> (error_t \<times> Socket \<times> 'w) option" where
  "tcpNagleAlgo ops sk flags w = do {
     (error, sk, w) \<leftarrow> nagle_loop ops flags (usable_window sk) sk w;
     if error \<noteq> NO_ERROR then Some (error, sk, w)
     else let (sk, w) = tcpUpdateEvents ops sk w in Some (NO_ERROR, sk, w)
   }"

end
