(* ===== verification/TcpFsm.thy ===== *)
theory TcpFsm
  imports TcpMisc
begin

text \<open>
  The state machine of \<open>tcp_fsm.c\<close>: one function per state, and \<open>tcpProcessSegment\<close>, which checks an
  incoming segment, finds its socket and calls the function of the state it is in.
\<close>

type_synonym 'w fsm_result = "(Socket \<times> 'w) option"

abbreviation (input) TCP_INITIAL_WINDOW :: u32 where "TCP_INITIAL_WINDOW \<equiv> 3"
abbreviation (input) TCP_FIN_WAIT_2_TIMER :: u32 where "TCP_FIN_WAIT_2_TIMER \<equiv> 4000"
abbreviation (input) TCP_2MSL_TIMER :: u32 where "TCP_2MSL_TIMER \<equiv> 4000"

definition tcpStateClosed ::
    "'w tcp_ops \<Rightarrow> nat option \<Rightarrow> IpPseudoHeader \<Rightarrow> TcpHeader \<Rightarrow> u32 \<Rightarrow> 'w \<Rightarrow> 'w" where
  "tcpStateClosed ops interface pseudoHeader segment len w =
     (if has_flag segment TCP_FLAG_RST then w
      else snd (tcpSendResetSegment ops interface pseudoHeader segment len w))"

text \<open>The source and destination of a segment as the queue of connection requests keeps them.\<close>

fun pseudo_src :: "IpPseudoHeader \<Rightarrow> IpAddr" where
  "pseudo_src (Ipv4Pseudo src dest _) = Ipv4Addr src"
| "pseudo_src (Ipv6Pseudo src dest _) = Ipv6Addr src"

fun pseudo_dest :: "IpPseudoHeader \<Rightarrow> IpAddr" where
  "pseudo_dest (Ipv4Pseudo src dest _) = Ipv4Addr dest"
| "pseudo_dest (Ipv6Pseudo src dest _) = Ipv6Addr dest"

text \<open>The maximum segment size of a peer is kept between the limits of the stack.\<close>

definition clamp_mss :: "u16 \<Rightarrow> u16" where
  "clamp_mss mss = max (min mss TCP_MAX_MSS) TCP_MIN_MSS"

definition tcpStateListen ::
    "'w tcp_ops \<Rightarrow> Socket \<Rightarrow> nat option \<Rightarrow> IpPseudoHeader \<Rightarrow> TcpHeader \<Rightarrow> u32 \<Rightarrow> 'w \<Rightarrow> 'w fsm_result" where
  "tcpStateListen ops sk interface pseudoHeader segment len w =
     (if has_flag segment TCP_FLAG_RST then Some (sk, w)
      else if has_flag segment TCP_FLAG_ACK
      then Some (sk, snd (tcpSendResetSegment ops interface pseudoHeader segment len w))
      else if has_flag segment TCP_FLAG_SYN then
        if tcpIsDuplicateSyn sk pseudoHeader segment then Some (sk, w)
        else if synQueue sk \<noteq> [] \<and> word_of_nat (length (synQueue sk)) \<ge> synQueueSize sk then Some (sk, w)
        else case memAlloc ops sizeof_TcpSynQueueItem w of (block, w) \<Rightarrow>
          if block = None then Some (sk, w)
          else do {
            r \<leftarrow> mss_option segment;
            let mss = (case r of None \<Rightarrow> min TCP_DEFAULT_MSS TCP_MAX_MSS | Some m \<Rightarrow> clamp_mss m);
            let item = \<lparr>syn_interface = interface, syn_srcAddr = pseudo_src pseudoHeader,
                  syn_srcPort = th_srcPort segment, syn_destAddr = pseudo_dest pseudoHeader,
                  syn_isn = th_seqNum segment, syn_mss = mss\<rparr>;
            Some (tcpUpdateEvents ops (sk\<lparr>synQueue := synQueue sk @ [item]\<rparr>) w)
          }
      else Some (sk, w))"

text \<open>What a SYN of the peer sets: sequence numbers, round-trip time, segment size and congestion window.\<close>

definition syn_received ::
    "'w tcp_ops \<Rightarrow> Socket \<Rightarrow> TcpHeader \<Rightarrow> 'w \<Rightarrow> 'w fsm_result" where
  "syn_received ops sk segment w = do {
     let sk = sk\<lparr>irs := th_seqNum segment, rcvNxt := th_seqNum segment + 1\<rparr>;
     let sk = (if has_flag segment TCP_FLAG_ACK then sk\<lparr>sndUna := th_ackNum segment\<rparr> else sk);
     let (_, sk, w) = tcpComputeRto ops sk w;
     let (sk, w) = tcpUpdateRetransmitQueue ops sk w;
     r \<leftarrow> mss_option segment;
     let sk = (case r of None \<Rightarrow> sk | Some m \<Rightarrow> sk\<lparr>smss := clamp_mss m\<rparr>);
     Some (sk\<lparr>cwnd := ucast (min (TCP_INITIAL_WINDOW * ucast (smss sk)) (txBufferSize sk))\<rparr>, w)
   }"

definition tcpStateSynSent :: "'w tcp_ops \<Rightarrow> Socket \<Rightarrow> TcpHeader \<Rightarrow> u32 \<Rightarrow> 'w \<Rightarrow> 'w fsm_result" where
  "tcpStateSynSent ops sk segment len w =
     (if has_flag segment TCP_FLAG_ACK \<and> th_ackNum segment \<noteq> sndNxt sk then
        if has_flag segment TCP_FLAG_RST then Some (sk, w)
        else do {
          (_, sk, w) \<leftarrow> tcpSendSegment ops sk TCP_FLAG_RST (th_ackNum segment) 0 0 False w;
          Some (sk, w)
        }
      else if has_flag segment TCP_FLAG_RST then
        Some (if has_flag segment TCP_FLAG_ACK then tcpChangeState ops sk TCP_STATE_CLOSED w else (sk, w))
      else if has_flag segment TCP_FLAG_SYN then do {
        (sk, w) \<leftarrow> syn_received ops sk segment w;
        if TCP_CMP_SEQ (sndUna sk) (iss sk) > 0 then do {
          let sk = sk\<lparr>sndWnd := th_window segment, sndWl1 := th_seqNum segment, sndWl2 := th_ackNum segment,
                maxSndWnd := th_window segment\<rparr>;
          (_, sk, w) \<leftarrow> tcpSendSegment ops sk TCP_FLAG_ACK (sndNxt sk) (rcvNxt sk) 0 False w;
          Some (tcpChangeState ops sk TCP_STATE_ESTABLISHED w)
        }
        else do {
          (_, sk, w) \<leftarrow> tcpSendSegment ops sk (TCP_FLAG_SYN OR TCP_FLAG_ACK) (iss sk) (rcvNxt sk) 0 True w;
          Some (tcpChangeState ops sk TCP_STATE_SYN_RECEIVED w)
        }
      }
      else Some (sk, w))"

text \<open>
  What the synchronised states do first: the sequence number, the RST bit and the SYN bit.  The flag
  says whether the segment is to be processed further.
\<close>

definition accept_segment ::
    "'w tcp_ops \<Rightarrow> Socket \<Rightarrow> TcpHeader \<Rightarrow> u32 \<Rightarrow> 'w \<Rightarrow> (bool \<times> Socket \<times> 'w) option" where
  "accept_segment ops sk segment len w = do {
     (error, sk, w) \<leftarrow> tcpCheckSequenceNumber ops sk segment len w;
     if error \<noteq> NO_ERROR then Some (False, sk, w)
     else if has_flag segment TCP_FLAG_RST then
       (case tcpChangeState ops sk TCP_STATE_CLOSED w of (sk, w) \<Rightarrow> Some (False, sk, w))
     else do {
       (error, sk, w) \<leftarrow> tcpCheckSyn ops sk segment len w;
       Some (error = NO_ERROR, sk, w)
     }
   }"

definition tcpStateEstablished ::
    "'w tcp_ops \<Rightarrow> Socket \<Rightarrow> TcpHeader \<Rightarrow> buffer \<Rightarrow> u32 \<Rightarrow> 'w \<Rightarrow> 'w fsm_result" where
  "tcpStateEstablished ops sk segment data len w = do {
     (ok, sk, w) \<leftarrow> accept_segment ops sk segment len w;
     if \<not> ok then Some (sk, w)
     else do {
       (error, sk, w) \<leftarrow> tcpCheckAck ops sk segment len w;
       if error \<noteq> NO_ERROR then Some (sk, w)
       else do {
         (sk, w) \<leftarrow> (if len > 0 then tcpProcessSegmentData ops sk segment data len w else Some (sk, w));
         (sk, w) \<leftarrow>
           (if has_flag segment TCP_FLAG_FIN \<and> rcvNxt sk = th_seqNum segment + len then do {
              let sk = sk\<lparr>rcvNxt := rcvNxt sk + 1\<rparr>;
              (_, sk, w) \<leftarrow> tcpSendSegment ops sk TCP_FLAG_ACK (sndNxt sk) (rcvNxt sk) 0 False w;
              Some (tcpChangeState ops sk TCP_STATE_CLOSE_WAIT w)
            }
            else Some (sk, w));
         (_, sk, w) \<leftarrow> tcpNagleAlgo ops sk (if dupAckCount sk > 0 then SOCKET_FLAG_NO_DELAY else 0) w;
         Some (sk, w)
       }
     }
   }"

definition tcpStateSynReceived ::
    "'w tcp_ops \<Rightarrow> Socket \<Rightarrow> TcpHeader \<Rightarrow> buffer \<Rightarrow> u32 \<Rightarrow> 'w \<Rightarrow> 'w fsm_result" where
  "tcpStateSynReceived ops sk segment data len w = do {
     (ok, sk, w) \<leftarrow> accept_segment ops sk segment len w;
     if \<not> ok then Some (sk, w)
     else if \<not> has_flag segment TCP_FLAG_ACK then Some (sk, w)
     else if th_ackNum segment \<noteq> sndNxt sk then do {
       (_, sk, w) \<leftarrow> tcpSendSegment ops sk TCP_FLAG_RST (th_ackNum segment) 0 0 False w;
       Some (sk, w)
     }
     else do {
       let sk = sk\<lparr>sndWnd := th_window segment, sndWl1 := th_seqNum segment, sndWl2 := th_ackNum segment,
             maxSndWnd := th_window segment\<rparr>;
       let (sk, w) = tcpChangeState ops sk TCP_STATE_ESTABLISHED w;
       tcpStateEstablished ops sk segment data len w
     }
   }"

definition tcpStateCloseWait :: "'w tcp_ops \<Rightarrow> Socket \<Rightarrow> TcpHeader \<Rightarrow> u32 \<Rightarrow> 'w \<Rightarrow> 'w fsm_result" where
  "tcpStateCloseWait ops sk segment len w = do {
     (ok, sk, w) \<leftarrow> accept_segment ops sk segment len w;
     if \<not> ok then Some (sk, w)
     else do {
       (error, sk, w) \<leftarrow> tcpCheckAck ops sk segment len w;
       if error \<noteq> NO_ERROR then Some (sk, w)
       else do {
         (_, sk, w) \<leftarrow> tcpNagleAlgo ops sk (if dupAckCount sk > 0 then SOCKET_FLAG_NO_DELAY else 0) w;
         Some (sk, w)
       }
     }
   }"

definition tcpStateLastAck :: "'w tcp_ops \<Rightarrow> Socket \<Rightarrow> TcpHeader \<Rightarrow> u32 \<Rightarrow> 'w \<Rightarrow> 'w fsm_result" where
  "tcpStateLastAck ops sk segment len w = do {
     (ok, sk, w) \<leftarrow> accept_segment ops sk segment len w;
     Some (if ok \<and> has_flag segment TCP_FLAG_ACK \<and> th_ackNum segment = sndNxt sk
           then tcpChangeState ops sk TCP_STATE_CLOSED w else (sk, w))
   }"

text \<open>Entering TIME-WAIT: the control block is deleted and the 2MSL timer started.\<close>

definition enter_time_wait :: "'w tcp_ops \<Rightarrow> Socket \<Rightarrow> 'w \<Rightarrow> Socket \<times> 'w" where
  "enter_time_wait ops sk w =
     (let sk = tcpDeleteControlBlock sk
      in case tcpTimerStart ops (timeWaitTimer sk) TCP_2MSL_TIMER w of (timer, w) \<Rightarrow>
        tcpChangeState ops (sk\<lparr>timeWaitTimer := timer\<rparr>) TCP_STATE_TIME_WAIT w)"

definition tcpStateFinWait1 ::
    "'w tcp_ops \<Rightarrow> Socket \<Rightarrow> TcpHeader \<Rightarrow> buffer \<Rightarrow> u32 \<Rightarrow> 'w \<Rightarrow> 'w fsm_result" where
  "tcpStateFinWait1 ops sk segment data len w = do {
     (ok, sk, w) \<leftarrow> accept_segment ops sk segment len w;
     if \<not> ok then Some (sk, w)
     else do {
       (error, sk, w) \<leftarrow> tcpCheckAck ops sk segment len w;
       if error \<noteq> NO_ERROR then Some (sk, w)
       else do {
         let (sk, w) =
               (if th_ackNum segment = sndNxt sk
                then case tcpTimerStart ops (finWait2Timer sk) TCP_FIN_WAIT_2_TIMER w of (timer, w) \<Rightarrow>
                  tcpChangeState ops (sk\<lparr>finWait2Timer := timer\<rparr>) TCP_STATE_FIN_WAIT_2 w
                else (sk, w));
         (sk, w) \<leftarrow> (if len > 0 then tcpProcessSegmentData ops sk segment data len w else Some (sk, w));
         if has_flag segment TCP_FLAG_FIN \<and> rcvNxt sk = th_seqNum segment + len then do {
           let sk = sk\<lparr>rcvNxt := rcvNxt sk + 1\<rparr>;
           (_, sk, w) \<leftarrow> tcpSendSegment ops sk TCP_FLAG_ACK (sndNxt sk) (rcvNxt sk) 0 False w;
           Some (if th_ackNum segment = sndNxt sk then enter_time_wait ops sk w
                 else tcpChangeState ops sk TCP_STATE_CLOSING w)
         }
         else Some (sk, w)
       }
     }
   }"

definition tcpStateFinWait2 ::
    "'w tcp_ops \<Rightarrow> Socket \<Rightarrow> TcpHeader \<Rightarrow> buffer \<Rightarrow> u32 \<Rightarrow> 'w \<Rightarrow> 'w fsm_result" where
  "tcpStateFinWait2 ops sk segment data len w = do {
     (ok, sk, w) \<leftarrow> accept_segment ops sk segment len w;
     if \<not> ok then Some (sk, w)
     else do {
       (error, sk, w) \<leftarrow> tcpCheckAck ops sk segment len w;
       if error \<noteq> NO_ERROR then Some (sk, w)
       else do {
         (sk, w) \<leftarrow> (if len > 0 then tcpProcessSegmentData ops sk segment data len w else Some (sk, w));
         if has_flag segment TCP_FLAG_FIN \<and> rcvNxt sk = th_seqNum segment + len then do {
           let sk = sk\<lparr>rcvNxt := rcvNxt sk + 1\<rparr>;
           (_, sk, w) \<leftarrow> tcpSendSegment ops sk TCP_FLAG_ACK (sndNxt sk) (rcvNxt sk) 0 False w;
           Some (enter_time_wait ops sk w)
         }
         else Some (sk, w)
       }
     }
   }"

definition tcpStateClosing :: "'w tcp_ops \<Rightarrow> Socket \<Rightarrow> TcpHeader \<Rightarrow> u32 \<Rightarrow> 'w \<Rightarrow> 'w fsm_result" where
  "tcpStateClosing ops sk segment len w = do {
     (ok, sk, w) \<leftarrow> accept_segment ops sk segment len w;
     if \<not> ok then Some (sk, w)
     else do {
       (error, sk, w) \<leftarrow> tcpCheckAck ops sk segment len w;
       Some (if error = NO_ERROR \<and> th_ackNum segment = sndNxt sk then enter_time_wait ops sk w else (sk, w))
     }
   }"

definition tcpStateTimeWait :: "'w tcp_ops \<Rightarrow> Socket \<Rightarrow> TcpHeader \<Rightarrow> u32 \<Rightarrow> 'w \<Rightarrow> 'w fsm_result" where
  "tcpStateTimeWait ops sk segment len w = do {
     (error, sk, w) \<leftarrow> tcpCheckSequenceNumber ops sk segment len w;
     if error \<noteq> NO_ERROR then Some (sk, w)
     else if has_flag segment TCP_FLAG_RST then
       (case tcpChangeState ops sk TCP_STATE_CLOSED w of (sk, w) \<Rightarrow>
          Some (if ownedFlag sk then sk else (tcpDeleteControlBlock sk)\<lparr>sk_type := SOCKET_TYPE_UNUSED\<rparr>, w))
     else do {
       (error, sk, w) \<leftarrow> tcpCheckSyn ops sk segment len w;
       if error = NO_ERROR \<and> has_flag segment TCP_FLAG_ACK \<and> has_flag segment TCP_FLAG_FIN then do {
         (_, sk, w) \<leftarrow> tcpSendSegment ops sk TCP_FLAG_ACK (sndNxt sk) (rcvNxt sk) 0 False w;
         (case tcpTimerStart ops (timeWaitTimer sk) TCP_2MSL_TIMER w of (timer, w) \<Rightarrow>
            Some (sk\<lparr>timeWaitTimer := timer\<rparr>, w))
       }
       else Some (sk, w)
     }
   }"

subsection \<open>Dispatch\<close>

text \<open>Whether a socket may receive a segment: its interface, port and addresses.\<close>

fun addr_matches :: "Socket \<Rightarrow> IpPseudoHeader \<Rightarrow> bool" where
  "addr_matches sk (Ipv4Pseudo src dest _) \<longleftrightarrow>
     (localIpAddr sk = NoAddr \<or> localIpAddr sk = Ipv4Addr dest) \<and> (remoteIpAddr sk = NoAddr \<or> remoteIpAddr sk = Ipv4Addr src)"
| "addr_matches sk (Ipv6Pseudo src dest _) \<longleftrightarrow>
     (localIpAddr sk = NoAddr \<or> localIpAddr sk = Ipv6Addr dest) \<and> (remoteIpAddr sk = NoAddr \<or> remoteIpAddr sk = Ipv6Addr src)"

definition socket_matches :: "nat \<Rightarrow> IpPseudoHeader \<Rightarrow> TcpHeader \<Rightarrow> Socket \<Rightarrow> bool" where
  "socket_matches interface pseudoHeader segment sk \<longleftrightarrow>
     sk_type sk = SOCKET_TYPE_STREAM \<and> (sk_interface sk = None \<or> sk_interface sk = Some interface) \<and>
     localPort sk = th_destPort segment \<and> addr_matches sk pseudoHeader"

text \<open>The socket table from index \<open>i\<close> on: the connection of the segment, or else the first listening socket.\<close>

fun find_socket ::
    "nat \<Rightarrow> IpPseudoHeader \<Rightarrow> TcpHeader \<Rightarrow> Socket list \<Rightarrow> nat \<Rightarrow> nat option \<Rightarrow> nat option" where
  "find_socket interface pseudoHeader segment [] i passive = passive"
| "find_socket interface pseudoHeader segment (sk # table) i passive =
     (if socket_matches interface pseudoHeader segment sk then
        let passive = (if sk_state sk = TCP_STATE_LISTEN \<and> passive = None then Some i else passive)
        in if remotePort sk = th_srcPort segment then Some i
           else find_socket interface pseudoHeader segment table (i + 1) passive
      else find_socket interface pseudoHeader segment table (i + 1) passive)"

text \<open>
  Broadcast and multicast destinations are ignored; \<open>isBroadcast\<close> stands for \<open>ipv4IsBroadcastAddr\<close> on the
  interface.  The multicast prefixes are those of IPv4 (\<open>224.0.0.0/4\<close>, in network byte order) and IPv6 (\<open>ff00::/8\<close>).
\<close>

fun unicast_dest :: "(u32 \<Rightarrow> bool) \<Rightarrow> IpPseudoHeader \<Rightarrow> bool" where
  "unicast_dest isBroadcast (Ipv4Pseudo src dest _) \<longleftrightarrow> \<not> isBroadcast dest \<and> dest AND 0xF0 \<noteq> 0xE0"
| "unicast_dest isBroadcast (Ipv6Pseudo src dest _) \<longleftrightarrow> \<not> (dest \<noteq> [] \<and> hd dest = 0xFF)"

definition dispatch_segment ::
    "'w tcp_ops \<Rightarrow> nat \<Rightarrow> IpPseudoHeader \<Rightarrow> TcpHeader \<Rightarrow> buffer \<Rightarrow> Socket \<Rightarrow> 'w \<Rightarrow> 'w fsm_result" where
  "dispatch_segment ops interface pseudoHeader segment data sk w =
     (let len = word_of_nat (length data) in
      case sk_state sk of
        TCP_STATE_CLOSED \<Rightarrow> Some (sk, tcpStateClosed ops (Some interface) pseudoHeader segment len w)
      | TCP_STATE_LISTEN \<Rightarrow> tcpStateListen ops sk (Some interface) pseudoHeader segment len w
      | TCP_STATE_SYN_SENT \<Rightarrow> tcpStateSynSent ops sk segment len w
      | TCP_STATE_SYN_RECEIVED \<Rightarrow> tcpStateSynReceived ops sk segment data len w
      | TCP_STATE_ESTABLISHED \<Rightarrow> tcpStateEstablished ops sk segment data len w
      | TCP_STATE_CLOSE_WAIT \<Rightarrow> tcpStateCloseWait ops sk segment len w
      | TCP_STATE_LAST_ACK \<Rightarrow> tcpStateLastAck ops sk segment len w
      | TCP_STATE_FIN_WAIT_1 \<Rightarrow> tcpStateFinWait1 ops sk segment data len w
      | TCP_STATE_FIN_WAIT_2 \<Rightarrow> tcpStateFinWait2 ops sk segment data len w
      | TCP_STATE_CLOSING \<Rightarrow> tcpStateClosing ops sk segment len w
      | TCP_STATE_TIME_WAIT \<Rightarrow> tcpStateTimeWait ops sk segment len w)"

text \<open>\<open>b\<close> is the segment as it arrived: the bytes of the buffer from the offset on.\<close>

definition tcpProcessSegment ::
    "'w tcp_ops \<Rightarrow> (u32 \<Rightarrow> bool) \<Rightarrow> nat \<Rightarrow> IpPseudoHeader \<Rightarrow> buffer \<Rightarrow> Socket list \<Rightarrow> 'w \<Rightarrow> (Socket list \<times> 'w) option" where
  "tcpProcessSegment ops isBroadcast interface pseudoHeader b table w =
     (if \<not> unicast_dest isBroadcast pseudoHeader then Some (table, w)
      else if length b < sizeof_TcpHeader then Some (table, w)
      else
        let segment = tcp_header_of b in
        if th_dataOffset segment < 5 \<or> th_dataOffset segment * 4 > length b then Some (table, w)
        else if ipCalcUpperLayerChecksum (pseudo_bytes pseudoHeader) 0 b \<noteq> 0 then Some (table, w)
        else
          let data = drop (th_dataOffset segment * 4) b in
          case find_socket interface pseudoHeader segment table 0 None of
            None \<Rightarrow>
              Some (table, if has_flag segment TCP_FLAG_RST then w
                           else snd (tcpSendResetSegment ops (Some interface) pseudoHeader segment
                                       (word_of_nat (length data)) w))
          | Some i \<Rightarrow> do {
              (sk, w) \<leftarrow> dispatch_segment ops interface pseudoHeader segment data (table ! i) w;
              Some (table[i := sk], w)
            })"

end
