(* ===== verification/TcpUser.thy ===== *)
theory TcpUser
  imports TcpFsm
begin

text \<open>
  \<open>tcp_timer.c\<close>: the periodic \<open>tcpTick\<close>; and \<open>tcp.c\<close>: the functions the socket layer calls, which wait for
  events of the connection.  While a task waits it has released the mutex of the stack, so that the other
  tasks may process segments and timers: \<open>wait\<close> is what they do to the socket and the world until the
  event is set or the timeout elapses.
\<close>

subsection \<open>Timers\<close>

abbreviation (input) TCP_MAX_RETRIES :: u32 where "TCP_MAX_RETRIES \<equiv> 5"
abbreviation (input) TCP_LOSS_WINDOW :: u32 where "TCP_LOSS_WINDOW \<equiv> 1"
abbreviation (input) TCP_MAX_PROBE_INTERVAL :: u32 where "TCP_MAX_PROBE_INTERVAL \<equiv> 60000"
abbreviation (input) TCP_OVERRIDE_TIMEOUT :: u32 where "TCP_OVERRIDE_TIMEOUT \<equiv> 500"

text \<open>The congestion state after a retransmission timeout.\<close>

definition timed_out :: "Socket \<Rightarrow> Socket" where
  "timed_out sk =
     (let sk = (if retransmitCount sk = 0
                then sk\<lparr>ssthresh := ucast (max ((sndNxt sk - sndUna sk) div 2) (2 * ucast (smss sk)))\<rparr> else sk)
      in sk\<lparr>cwnd := ucast (min (TCP_LOSS_WINDOW * ucast (smss sk)) (txBufferSize sk)),
            recover := sndNxt sk - 1, congestState := TCP_CONGEST_STATE_LOSS_RECOVERY\<rparr>)"

definition tick_retransmit :: "'w tcp_ops \<Rightarrow> Socket \<Rightarrow> 'w \<Rightarrow> 'w fsm_result" where
  "tick_retransmit ops sk w =
     (if retransmitQueue sk = [] then Some (sk, w)
      else case tcpTimerElapsed ops (retransmitTimer sk) w of (elapsed, w) \<Rightarrow>
        if \<not> elapsed then Some (sk, w)
        else do {
          let sk = timed_out sk;
          if retransmitCount sk < TCP_MAX_RETRIES then do {
            (_, w) \<leftarrow> tcpRetransmitSegment ops sk w;
            let sk = sk\<lparr>rto := min (rto sk * 2) TCP_MAX_RTO\<rparr>;
            (case tcpTimerStart ops (retransmitTimer sk) (rto sk) w of (timer, w) \<Rightarrow>
               Some (sk\<lparr>retransmitTimer := timer, retransmitCount := retransmitCount sk + 1, rttBusy := False\<rparr>, w))
          }
          else (case tcpChangeState ops sk TCP_STATE_CLOSED w of (sk, w) \<Rightarrow>
                  Some (sk\<lparr>retransmitTimer := tcpTimerStop (retransmitTimer sk), rttBusy := False\<rparr>, w))
        })"

definition tick_persist :: "'w tcp_ops \<Rightarrow> Socket \<Rightarrow> 'w \<Rightarrow> 'w fsm_result" where
  "tick_persist ops sk w =
     (if sndWnd sk = 0 \<and> wndProbeInterval sk \<noteq> 0 then
        (case tcpTimerElapsed ops (persistTimer sk) w of (elapsed, w) \<Rightarrow>
           if \<not> elapsed then Some (sk, w)
           else if wndProbeCount sk < TCP_MAX_RETRIES then do {
             (_, sk, w) \<leftarrow> tcpSendSegment ops sk TCP_FLAG_ACK (sndNxt sk - 1) (rcvNxt sk) 0 False w;
             let sk = sk\<lparr>wndProbeInterval := min (wndProbeInterval sk * 2) TCP_MAX_PROBE_INTERVAL\<rparr>;
             (case tcpTimerStart ops (persistTimer sk) (wndProbeInterval sk) w of (timer, w) \<Rightarrow>
                Some (sk\<lparr>persistTimer := timer, wndProbeCount := wndProbeCount sk + 1\<rparr>, w))
           }
           else Some (tcpChangeState ops sk TCP_STATE_CLOSED w))
      else Some (sk, w))"

text \<open>The loop that sends as much as the window allows, whatever the size of the segments.\<close>

partial_function (option) override_loop :: "'w tcp_ops \<Rightarrow> u32 \<Rightarrow> Socket \<Rightarrow> 'w \<Rightarrow> 'w fsm_result" where
  "override_loop ops u sk w =
     (if sndUser sk > 0 \<and> sint u > 0 then
        let n = min (min u (ucast (sndUser sk))) (ucast (smss sk)) in
        Option.bind (tcpSendSegment ops sk (TCP_FLAG_PSH OR TCP_FLAG_ACK) (sndNxt sk) (rcvNxt sk) n True w)
          (\<lambda>(error, sk, w).
             if error \<noteq> NO_ERROR then Some (sk, w)
             else override_loop ops (u - n) (sk\<lparr>sndNxt := sndNxt sk + n, sndUser := sndUser sk - ucast n\<rparr>) w)
      else Some (sk, w))"

definition tick_override :: "'w tcp_ops \<Rightarrow> Socket \<Rightarrow> 'w \<Rightarrow> 'w fsm_result" where
  "tick_override ops sk w =
     (if (sk_state sk = TCP_STATE_ESTABLISHED \<or> sk_state sk = TCP_STATE_CLOSE_WAIT) \<and> sndUser sk > 0 then
        (case tcpTimerElapsed ops (overrideTimer sk) w of (elapsed, w) \<Rightarrow>
           if \<not> elapsed then Some (sk, w)
           else do {
             (sk, w) \<leftarrow> override_loop ops (usable_window sk) sk w;
             let (sk, w) = tcpUpdateEvents ops sk w;
             Some (if sndUser sk > 0
                   then case tcpTimerStart ops (overrideTimer sk) TCP_OVERRIDE_TIMEOUT w of (timer, w) \<Rightarrow>
                     (sk\<lparr>overrideTimer := timer\<rparr>, w)
                   else (sk, w))
           })
      else Some (sk, w))"

definition tick_fin_wait_2 :: "'w tcp_ops \<Rightarrow> Socket \<Rightarrow> 'w \<Rightarrow> Socket \<times> 'w" where
  "tick_fin_wait_2 ops sk w =
     (if sk_state sk = TCP_STATE_FIN_WAIT_2 then
        (case tcpTimerElapsed ops (finWait2Timer sk) w of (elapsed, w) \<Rightarrow>
           if elapsed then tcpChangeState ops sk TCP_STATE_CLOSED w else (sk, w))
      else (sk, w))"

definition tick_time_wait :: "'w tcp_ops \<Rightarrow> Socket \<Rightarrow> 'w \<Rightarrow> Socket \<times> 'w" where
  "tick_time_wait ops sk w =
     (if sk_state sk = TCP_STATE_TIME_WAIT then
        (case tcpTimerElapsed ops (timeWaitTimer sk) w of (elapsed, w) \<Rightarrow>
           if elapsed
           then (case tcpChangeState ops sk TCP_STATE_CLOSED w of (sk, w) \<Rightarrow>
                   (if ownedFlag sk then sk else (tcpDeleteControlBlock sk)\<lparr>sk_type := SOCKET_TYPE_UNUSED\<rparr>, w))
           else (sk, w))
      else (sk, w))"

text \<open>The body of the loop of \<open>tcpTick\<close>.\<close>

definition tcpTickSocket :: "'w tcp_ops \<Rightarrow> Socket \<Rightarrow> 'w \<Rightarrow> 'w fsm_result" where
  "tcpTickSocket ops sk w =
     (if sk_type sk \<noteq> SOCKET_TYPE_STREAM \<or> sk_state sk = TCP_STATE_CLOSED then Some (sk, w)
      else do {
        (sk, w) \<leftarrow> tick_retransmit ops sk w;
        if sk_state sk = TCP_STATE_CLOSED then Some (sk, w)
        else do {
          (sk, w) \<leftarrow> tick_persist ops sk w;
          (sk, w) \<leftarrow> tick_override ops sk w;
          let (sk, w) = tick_fin_wait_2 ops sk w;
          Some (tick_time_wait ops sk w)
        }
      })"

fun tcpTick :: "'w tcp_ops \<Rightarrow> Socket list \<Rightarrow> 'w \<Rightarrow> (Socket list \<times> 'w) option" where
  "tcpTick ops [] w = Some ([], w)"
| "tcpTick ops (sk # table) w = do {
     (sk, w) \<leftarrow> tcpTickSocket ops sk w;
     (table, w) \<leftarrow> tcpTick ops table w;
     Some (sk # table, w)
   }"

subsection \<open>Waiting\<close>

type_synonym 'w waiter = "Socket \<Rightarrow> systime_t \<Rightarrow> 'w \<Rightarrow> Socket \<times> 'w"

definition tcpWaitForEvents ::
    "'w tcp_ops \<Rightarrow> 'w waiter \<Rightarrow> Socket \<Rightarrow> u32 \<Rightarrow> systime_t \<Rightarrow> 'w \<Rightarrow> u32 \<times> Socket \<times> 'w" where
  "tcpWaitForEvents ops wait sk events timeout w =
     (let sk = sk\<lparr>sk_eventMask := events\<rparr>;
          (sk, w) = tcpUpdateEvents ops sk w;
          (sk, w) = (if sk_eventFlags sk = 0 then wait sk timeout w else (sk, w))
      in (sk_eventFlags sk, sk, w))"

subsection \<open>Sending and receiving\<close>

abbreviation (input) SOCKET_FLAG_DONT_WAIT :: u32 where "SOCKET_FLAG_DONT_WAIT \<equiv> 0x0100"
abbreviation (input) SOCKET_FLAG_WAIT_ALL :: u32 where "SOCKET_FLAG_WAIT_ALL \<equiv> 0x0800"
abbreviation (input) SOCKET_FLAG_BREAK_CHAR :: u32 where "SOCKET_FLAG_BREAK_CHAR \<equiv> 0x1000"
abbreviation (input) SOCKET_FLAG_WAIT_ACK :: u32 where "SOCKET_FLAG_WAIT_ACK \<equiv> 0x2000"

text \<open>Whether data may be sent in the state of the socket, or the error if not.\<close>

definition send_state :: "Socket \<Rightarrow> error_t" where
  "send_state sk =
     (case sk_state sk of
        TCP_STATE_ESTABLISHED \<Rightarrow> NO_ERROR
      | TCP_STATE_CLOSE_WAIT \<Rightarrow> NO_ERROR
      | TCP_STATE_LAST_ACK \<Rightarrow> ERROR_CONNECTION_CLOSING
      | TCP_STATE_FIN_WAIT_1 \<Rightarrow> ERROR_CONNECTION_CLOSING
      | TCP_STATE_FIN_WAIT_2 \<Rightarrow> ERROR_CONNECTION_CLOSING
      | TCP_STATE_CLOSING \<Rightarrow> ERROR_CONNECTION_CLOSING
      | TCP_STATE_TIME_WAIT \<Rightarrow> ERROR_CONNECTION_CLOSING
      | _ \<Rightarrow> if resetFlag sk then ERROR_CONNECTION_RESET else ERROR_NOT_CONNECTED)"

text \<open>Writing to the send buffer what fits; yields the number of bytes taken.\<close>

definition send_chunk :: "'w tcp_ops \<Rightarrow> Socket \<Rightarrow> buffer \<Rightarrow> 'w \<Rightarrow> (error_t \<times> nat \<times> Socket \<times> 'w) option" where
  "send_chunk ops sk data w =
     (let n = ucast (sndUser sk) + sndNxt sk - sndUna sk in
      if n \<ge> txBufferSize sk then Some (ERROR_FAILURE, 0, sk, w)
      else
        let n = min (unat (txBufferSize sk - n)) (length data) in
        if n > 0 then do {
          sk \<leftarrow> tcpWriteTxBuffer sk (sndNxt sk + ucast (sndUser sk)) (take n data);
          let sk = sk\<lparr>sndUser := sndUser sk + word_of_nat n\<rparr>;
          let (sk, w) = tcpUpdateEvents ops sk w;
          Some (NO_ERROR, n,
            if unat (sndUser sk) = n
            then case tcpTimerStart ops (overrideTimer sk) TCP_OVERRIDE_TIMEOUT w of (timer, w) \<Rightarrow>
              (sk\<lparr>overrideTimer := timer\<rparr>, w)
            else (sk, w))
        }
        else Some (NO_ERROR, 0, sk, w))"

text \<open>The loop; \<open>data\<close> is what is still to be written, \<open>written\<close> the number of bytes written.\<close>

partial_function (option) send_loop ::
    "'w tcp_ops \<Rightarrow> 'w waiter \<Rightarrow> u32 \<Rightarrow> buffer \<Rightarrow> nat \<Rightarrow> Socket \<Rightarrow> 'w \<Rightarrow> (error_t \<times> nat \<times> Socket \<times> 'w) option" where
  "send_loop ops wait flags data written sk w =
     (case tcpWaitForEvents ops wait sk EVENT_TX_READY (sk_timeout sk) w of (event, sk, w) \<Rightarrow>
        if event \<noteq> EVENT_TX_READY then Some (ERROR_TIMEOUT, written, sk, w)
        else if send_state sk \<noteq> NO_ERROR then Some (send_state sk, written, sk, w)
        else Option.bind (send_chunk ops sk data w) (\<lambda>(error, n, sk, w).
          if error \<noteq> NO_ERROR then Some (error, written, sk, w)
          else Option.bind (tcpNagleAlgo ops sk flags w) (\<lambda>(_, sk, w).
            if n < length data then send_loop ops wait flags (drop n data) (written + n) sk w
            else Some (NO_ERROR, written + n, sk, w))))"

definition tcpSend ::
    "'w tcp_ops \<Rightarrow> 'w waiter \<Rightarrow> Socket \<Rightarrow> buffer \<Rightarrow> u32 \<Rightarrow> 'w \<Rightarrow> (error_t \<times> nat \<times> Socket \<times> 'w) option" where
  "tcpSend ops wait sk data flags w =
     (if sk_state sk = TCP_STATE_LISTEN then Some (ERROR_NOT_CONNECTED, 0, sk, w)
      else do {
        (error, written, sk, w) \<leftarrow> send_loop ops wait flags data 0 sk w;
        if error \<noteq> NO_ERROR then Some (error, written, sk, w)
        else if flags AND SOCKET_FLAG_WAIT_ACK \<noteq> 0 then
          (case tcpWaitForEvents ops wait sk SOCKET_EVENT_TX_ACKED (sk_timeout sk) w of (event, sk, w) \<Rightarrow>
             Some (if event \<noteq> SOCKET_EVENT_TX_ACKED then ERROR_TIMEOUT
                   else if sk_state sk \<noteq> TCP_STATE_ESTABLISHED \<and> sk_state sk \<noteq> TCP_STATE_CLOSE_WAIT
                   then ERROR_NOT_CONNECTED else NO_ERROR, written, sk, w))
        else Some (NO_ERROR, written, sk, w)
      })"

text \<open>
  Where the next byte for the user is, or what \<open>tcpReceive\<close> returns in this state.  Behind a FIN the
  sequence number of the FIN is not data.
\<close>

definition receive_seq :: "Socket \<Rightarrow> nat \<Rightarrow> error_t + u32" where
  "receive_seq sk received =
     (let behind_fin =
            (if rcvUser sk = 0 then Inl (if received > 0 then NO_ERROR else ERROR_END_OF_STREAM)
             else Inr (rcvNxt sk - 1 - ucast (rcvUser sk)))
      in case sk_state sk of
           TCP_STATE_ESTABLISHED \<Rightarrow> Inr (rcvNxt sk - ucast (rcvUser sk))
         | TCP_STATE_FIN_WAIT_1 \<Rightarrow> Inr (rcvNxt sk - ucast (rcvUser sk))
         | TCP_STATE_FIN_WAIT_2 \<Rightarrow> Inr (rcvNxt sk - ucast (rcvUser sk))
         | TCP_STATE_CLOSE_WAIT \<Rightarrow> behind_fin
         | TCP_STATE_LAST_ACK \<Rightarrow> behind_fin
         | TCP_STATE_CLOSING \<Rightarrow> behind_fin
         | TCP_STATE_TIME_WAIT \<Rightarrow> behind_fin
         | _ \<Rightarrow> if resetFlag sk then Inl ERROR_CONNECTION_RESET
                else if \<not> closedFlag sk then Inl ERROR_NOT_CONNECTED
                else behind_fin)"

text \<open>The length of the data up to the break character, if it is there.\<close>

fun break_length :: "u8 \<Rightarrow> buffer \<Rightarrow> nat" where
  "break_length c [] = 0"
| "break_length c (b # bs) = (if b = c then 1 else Suc (break_length c bs))"

text \<open>One pass of the loop; \<open>data\<close> is the memory behind the bytes received.  The flag says whether to stop.\<close>

definition receive_chunk ::
    "'w tcp_ops \<Rightarrow> Socket \<Rightarrow> u32 \<Rightarrow> u32 \<Rightarrow> buffer \<Rightarrow> nat \<Rightarrow> 'w \<Rightarrow> (bool \<times> nat \<times> buffer \<times> Socket \<times> 'w) option" where
  "receive_chunk ops sk flags seqNum data space w = do {
     let n = min (unat (rcvUser sk)) space;
     data \<leftarrow> tcpReadRxBuffer sk seqNum data n;
     let n = (if flags AND SOCKET_FLAG_BREAK_CHAR \<noteq> 0 then min n (break_length (ucast flags) (take n data)) else n);
     let sk = sk\<lparr>rcvUser := rcvUser sk - word_of_nat n\<rparr>;
     (sk, w) \<leftarrow> tcpUpdateReceiveWindow ops sk w;
     let (sk, w) = tcpUpdateEvents ops sk w;
     stop \<leftarrow> (if flags AND SOCKET_FLAG_BREAK_CHAR \<noteq> 0 then map_option (\<lambda>b. b = ucast flags) (rd8 data (n - 1))
             else Some (flags AND SOCKET_FLAG_WAIT_ALL = 0));
     Some (stop, n, data, sk, w)
   }"

partial_function (option) receive_loop ::
    "'w tcp_ops \<Rightarrow> 'w waiter \<Rightarrow> u32 \<Rightarrow> nat \<Rightarrow> nat \<Rightarrow> buffer \<Rightarrow> Socket \<Rightarrow> 'w \<Rightarrow>
     (error_t \<times> nat \<times> buffer \<times> Socket \<times> 'w) option" where
  "receive_loop ops wait flags n received data sk w =
     (if \<not> received < n then Some (NO_ERROR, received, data, sk, w)
      else (case tcpWaitForEvents ops wait sk EVENT_RX_READY
              (if flags AND SOCKET_FLAG_DONT_WAIT \<noteq> 0 then 0 else sk_timeout sk) w of (event, sk, w) \<Rightarrow>
        if event \<noteq> EVENT_RX_READY then Some (ERROR_TIMEOUT, received, data, sk, w)
        else (case receive_seq sk received of
           Inl error \<Rightarrow> Some (error, received, data, sk, w)
         | Inr seqNum \<Rightarrow>
             if rcvUser sk = 0 then Some (ERROR_FAILURE, received, data, sk, w)
             else Option.bind (receive_chunk ops sk flags seqNum (drop received data) (n - received) w)
               (\<lambda>(stop, k, rest, sk, w).
                  if stop then Some (NO_ERROR, received + k, take received data @ rest, sk, w)
                  else receive_loop ops wait flags n (received + k) (take received data @ rest) sk w))))"

definition tcpReceive ::
    "'w tcp_ops \<Rightarrow> 'w waiter \<Rightarrow> Socket \<Rightarrow> buffer \<Rightarrow> nat \<Rightarrow> u32 \<Rightarrow> 'w \<Rightarrow>
     (error_t \<times> nat \<times> buffer \<times> Socket \<times> 'w) option" where
  "tcpReceive ops wait sk data n flags w =
     (if sk_state sk = TCP_STATE_LISTEN then Some (ERROR_NOT_CONNECTED, 0, data, sk, w)
      else receive_loop ops wait flags n 0 data sk w)"

end
