(* ===== verification/TcpConn.thy ===== *)
theory TcpConn
  imports TcpUser
begin

text \<open>
  The rest of \<open>tcp.c\<close>, and \<open>socketOpen\<close> of \<open>socket.c\<close>: opening, connecting, listening, accepting, shutting
  down and aborting.
\<close>

subsection \<open>Connecting\<close>

text \<open>
  \<open>netBufferSetLength\<close> on an empty buffer or one that is long enough, in terms of its bytes: blocks of
  1536 bytes are added while there is room for descriptors.  A buffer in between is not modelled.
\<close>

abbreviation (input) SOCKET_BUFFER_CHUNKS :: nat where "SOCKET_BUFFER_CHUNKS \<equiv> 15"

fun alloc_bytes :: "'w tcp_ops \<Rightarrow> nat \<Rightarrow> nat \<Rightarrow> 'w \<Rightarrow> error_t \<times> buffer \<times> 'w" where
  "alloc_bytes ops 0 len w = (if len > 0 then ERROR_OUT_OF_RESOURCES else NO_ERROR, [], w)"
| "alloc_bytes ops (Suc room) len w =
     (if len > 0 then
        (case memAlloc ops NET_BUFFER_SIZE w of
           (None, w) \<Rightarrow> (ERROR_OUT_OF_MEMORY, [], w)
         | (Some d, w) \<Rightarrow>
             (case alloc_bytes ops room (len - min len NET_BUFFER_SIZE) w of (e, rest, w) \<Rightarrow>
                (e, take (min len NET_BUFFER_SIZE) d @ rest, w)))
      else (NO_ERROR, [], w))"

definition set_buffer_length :: "'w tcp_ops \<Rightarrow> buffer \<Rightarrow> u32 \<Rightarrow> 'w \<Rightarrow> (error_t \<times> buffer \<times> 'w) option" where
  "set_buffer_length ops b n w =
     (if unat n \<le> length b then Some (NO_ERROR, take (unat n) b, w)
      else if b = [] then Some (alloc_bytes ops SOCKET_BUFFER_CHUNKS (unat n) w)
      else None)"

definition set_buffers :: "'w tcp_ops \<Rightarrow> Socket \<Rightarrow> 'w \<Rightarrow> (error_t \<times> Socket \<times> 'w) option" where
  "set_buffers ops sk w = do {
     (error, b, w) \<leftarrow> set_buffer_length ops (txBuffer sk) (txBufferSize sk) w;
     let sk = sk\<lparr>txBuffer := b\<rparr>;
     if error \<noteq> NO_ERROR then Some (error, sk, w)
     else do {
       (error, b, w) \<leftarrow> set_buffer_length ops (rxBuffer sk) (rxBufferSize sk) w;
       Some (error, sk\<lparr>rxBuffer := b\<rparr>, w)
     }
   }"

fun ipIsUnspecifiedAddr :: "IpAddr \<Rightarrow> bool" where
  "ipIsUnspecifiedAddr (Ipv4Addr a) \<longleftrightarrow> a = 0"
| "ipIsUnspecifiedAddr (Ipv6Addr a) \<longleftrightarrow> (\<forall>b \<in> set a. b = 0)"
| "ipIsUnspecifiedAddr NoAddr \<longleftrightarrow> False"

text \<open>
  The part of \<open>tcpConnect\<close> for a closed socket: choosing the addresses, allocating the buffers, initialising the
  control block and sending the SYN.
\<close>

definition connect_start ::
    "'w tcp_ops \<Rightarrow> Socket \<Rightarrow> IpAddr \<Rightarrow> u16 \<Rightarrow> 'w \<Rightarrow> (error_t \<times> Socket \<times> 'w) option" where
  "connect_start ops sk remIp remPort w = do {
     let sk = sk\<lparr>remoteIpAddr := remIp, remotePort := remPort\<rparr>;
     (case selectSource ops (sk_interface sk) remIp w of ((error, interface, addr), w) \<Rightarrow> do {
        let sk = sk\<lparr>sk_interface := interface, localIpAddr := addr\<rparr>;
        if error \<noteq> NO_ERROR then Some (error, sk, w)
        else if ipIsUnspecifiedAddr addr then Some (ERROR_NOT_CONFIGURED, sk, w)
        else do {
          (error, sk, w) \<leftarrow> set_buffers ops (sk\<lparr>ownedFlag := True\<rparr>) w;
          if error \<noteq> NO_ERROR then Some (error, tcpDeleteControlBlock sk, w)
          else (case sysRand ops w of (rand, w) \<Rightarrow> do {
            let sk = sk\<lparr>smss := min TCP_DEFAULT_MSS TCP_MAX_MSS,
                  rmss := ucast (min (rxBufferSize sk) (ucast TCP_MAX_MSS)), iss := rand, sndUna := rand,
                  sndNxt := rand + 1, rcvUser := 0, rcvWnd := ucast (rxBufferSize sk), rto := TCP_INITIAL_RTO,
                  congestState := TCP_CONGEST_STATE_IDLE, ssthresh := 0xFFFF, recover := rand\<rparr>;
            let sk = sk\<lparr>cwnd := ucast (min (TCP_INITIAL_WINDOW * ucast (smss sk)) (txBufferSize sk))\<rparr>;
            (error, sk, w) \<leftarrow> tcpSendSegment ops sk TCP_FLAG_SYN (iss sk) 0 0 True w;
            if error \<noteq> NO_ERROR then Some (error, sk, w)
            else (case tcpChangeState ops sk TCP_STATE_SYN_SENT w of (sk, w) \<Rightarrow> Some (NO_ERROR, sk, w))
          })
        }
     })
   }"

definition tcpConnect ::
    "'w tcp_ops \<Rightarrow> 'w waiter \<Rightarrow> Socket \<Rightarrow> IpAddr \<Rightarrow> u16 \<Rightarrow> 'w \<Rightarrow> (error_t \<times> Socket \<times> 'w) option" where
  "tcpConnect ops wait sk remIp remPort w = do {
     (stop, sk, w) \<leftarrow>
       (if sk_state sk \<noteq> TCP_STATE_CLOSED then Some (NO_ERROR, sk, w) else connect_start ops sk remIp remPort w);
     if stop \<noteq> NO_ERROR then Some (stop, sk, w)
     else (case tcpWaitForEvents ops wait sk (SOCKET_EVENT_CONNECTED OR SOCKET_EVENT_CLOSED) (sk_timeout sk) w of
       (event, sk, w) \<Rightarrow>
         Some (if event = SOCKET_EVENT_CONNECTED then NO_ERROR
               else if event = SOCKET_EVENT_CLOSED then ERROR_CONNECTION_FAILED
               else ERROR_TIMEOUT, sk, w))
   }"

subsection \<open>Shutting down and aborting\<close>

text \<open>
  Sending the FIN: the data written so far is sent first.  \<open>newState\<close> is FIN-WAIT-1 or LAST-ACK, chosen
  before the data is flushed.
\<close>

definition emit_fin :: "'w tcp_ops \<Rightarrow> Socket \<Rightarrow> TcpState \<Rightarrow> 'w \<Rightarrow> (error_t \<times> Socket \<times> 'w) option" where
  "emit_fin ops sk newState w = do {
     (error, sk, w) \<leftarrow> tcpSendSegment ops sk (TCP_FLAG_FIN OR TCP_FLAG_ACK) (sndNxt sk) (rcvNxt sk) 0 True w;
     if error \<noteq> NO_ERROR then Some (error, sk, w)
     else (case tcpChangeState ops (sk\<lparr>sndNxt := sndNxt sk + 1\<rparr>) newState w of (sk, w) \<Rightarrow> Some (NO_ERROR, sk, w))
   }"

definition send_fin ::
    "'w tcp_ops \<Rightarrow> 'w waiter \<Rightarrow> Socket \<Rightarrow> TcpState \<Rightarrow> 'w \<Rightarrow> (error_t \<times> Socket \<times> 'w) option" where
  "send_fin ops wait sk newState w = do {
     (error, _, sk, w) \<leftarrow> tcpSend ops wait sk [] SOCKET_FLAG_NO_DELAY w;
     if error \<noteq> NO_ERROR then Some (error, sk, w)
     else (case tcpWaitForEvents ops wait sk SOCKET_EVENT_TX_DONE (sk_timeout sk) w of (event, sk, w) \<Rightarrow>
       if event \<noteq> SOCKET_EVENT_TX_DONE then Some (ERROR_TIMEOUT, sk, w)
       else do {
         (error, sk, w) \<leftarrow> emit_fin ops sk newState w;
         if error \<noteq> NO_ERROR then Some (error, sk, w)
         else (case tcpWaitForEvents ops wait sk SOCKET_EVENT_TX_SHUTDOWN (sk_timeout sk) w of (event, sk, w) \<Rightarrow>
           Some (if event \<noteq> SOCKET_EVENT_TX_SHUTDOWN then ERROR_TIMEOUT else NO_ERROR, sk, w))
       })
   }"

definition wait_shutdown ::
    "'w tcp_ops \<Rightarrow> 'w waiter \<Rightarrow> Socket \<Rightarrow> u32 \<Rightarrow> 'w \<Rightarrow> error_t \<times> Socket \<times> 'w" where
  "wait_shutdown ops wait sk events w =
     (case tcpWaitForEvents ops wait sk events (sk_timeout sk) w of (event, sk, w) \<Rightarrow>
        (if event \<noteq> events then ERROR_TIMEOUT else NO_ERROR, sk, w))"

definition shutdown_send ::
    "'w tcp_ops \<Rightarrow> 'w waiter \<Rightarrow> Socket \<Rightarrow> 'w \<Rightarrow> (error_t \<times> Socket \<times> 'w) option" where
  "shutdown_send ops wait sk w =
     (case sk_state sk of
        TCP_STATE_CLOSED \<Rightarrow> Some (ERROR_NOT_CONNECTED, sk, w)
      | TCP_STATE_LISTEN \<Rightarrow> Some (ERROR_NOT_CONNECTED, sk, w)
      | TCP_STATE_SYN_RECEIVED \<Rightarrow> send_fin ops wait sk TCP_STATE_FIN_WAIT_1 w
      | TCP_STATE_ESTABLISHED \<Rightarrow> send_fin ops wait sk TCP_STATE_FIN_WAIT_1 w
      | TCP_STATE_CLOSE_WAIT \<Rightarrow> send_fin ops wait sk TCP_STATE_LAST_ACK w
      | TCP_STATE_FIN_WAIT_1 \<Rightarrow> Some (wait_shutdown ops wait sk SOCKET_EVENT_TX_SHUTDOWN w)
      | TCP_STATE_CLOSING \<Rightarrow> Some (wait_shutdown ops wait sk SOCKET_EVENT_TX_SHUTDOWN w)
      | TCP_STATE_LAST_ACK \<Rightarrow> Some (wait_shutdown ops wait sk SOCKET_EVENT_TX_SHUTDOWN w)
      | _ \<Rightarrow> Some (NO_ERROR, sk, w))"

definition shutdown_receive ::
    "'w tcp_ops \<Rightarrow> 'w waiter \<Rightarrow> Socket \<Rightarrow> 'w \<Rightarrow> error_t \<times> Socket \<times> 'w" where
  "shutdown_receive ops wait sk w =
     (case sk_state sk of
        TCP_STATE_CLOSED \<Rightarrow> (ERROR_NOT_CONNECTED, sk, w)
      | TCP_STATE_LISTEN \<Rightarrow> (ERROR_NOT_CONNECTED, sk, w)
      | TCP_STATE_SYN_SENT \<Rightarrow> wait_shutdown ops wait sk SOCKET_EVENT_RX_SHUTDOWN w
      | TCP_STATE_SYN_RECEIVED \<Rightarrow> wait_shutdown ops wait sk SOCKET_EVENT_RX_SHUTDOWN w
      | TCP_STATE_ESTABLISHED \<Rightarrow> wait_shutdown ops wait sk SOCKET_EVENT_RX_SHUTDOWN w
      | TCP_STATE_FIN_WAIT_1 \<Rightarrow> wait_shutdown ops wait sk SOCKET_EVENT_RX_SHUTDOWN w
      | TCP_STATE_FIN_WAIT_2 \<Rightarrow> wait_shutdown ops wait sk SOCKET_EVENT_RX_SHUTDOWN w
      | _ \<Rightarrow> (NO_ERROR, sk, w))"

abbreviation (input) SOCKET_SD_RECEIVE :: nat where "SOCKET_SD_RECEIVE \<equiv> 0"
abbreviation (input) SOCKET_SD_SEND :: nat where "SOCKET_SD_SEND \<equiv> 1"
abbreviation (input) SOCKET_SD_BOTH :: nat where "SOCKET_SD_BOTH \<equiv> 2"

definition tcpShutdown ::
    "'w tcp_ops \<Rightarrow> 'w waiter \<Rightarrow> Socket \<Rightarrow> nat \<Rightarrow> 'w \<Rightarrow> (error_t \<times> Socket \<times> 'w) option" where
  "tcpShutdown ops wait sk how w = do {
     (error, sk, w) \<leftarrow> (if how = SOCKET_SD_SEND \<or> how = SOCKET_SD_BOTH then shutdown_send ops wait sk w
                       else Some (NO_ERROR, sk, w));
     if error \<noteq> NO_ERROR then Some (error, sk, w)
     else Some (if how = SOCKET_SD_RECEIVE \<or> how = SOCKET_SD_BOTH then shutdown_receive ops wait sk w
                else (NO_ERROR, sk, w))
   }"

definition close_socket :: "'w tcp_ops \<Rightarrow> Socket \<Rightarrow> 'w \<Rightarrow> Socket \<times> 'w" where
  "close_socket ops sk w =
     (case tcpChangeState ops sk TCP_STATE_CLOSED w of (sk, w) \<Rightarrow>
        ((tcpDeleteControlBlock sk)\<lparr>sk_type := SOCKET_TYPE_UNUSED\<rparr>, w))"

definition tcpAbort :: "'w tcp_ops \<Rightarrow> Socket \<Rightarrow> 'w \<Rightarrow> (error_t \<times> Socket \<times> 'w) option" where
  "tcpAbort ops sk w =
     (if sk_state sk \<in> {TCP_STATE_SYN_RECEIVED, TCP_STATE_ESTABLISHED, TCP_STATE_FIN_WAIT_1, TCP_STATE_FIN_WAIT_2,
            TCP_STATE_CLOSE_WAIT} then do {
        (error, sk, w) \<leftarrow> tcpSendSegment ops sk TCP_FLAG_RST (sndNxt sk) 0 0 False w;
        let (sk, w) = close_socket ops sk w;
        Some (error, sk, w)
      }
      else if sk_state sk = TCP_STATE_TIME_WAIT then Some (NO_ERROR, sk\<lparr>ownedFlag := False\<rparr>, w)
      else case close_socket ops sk w of (sk, w) \<Rightarrow> Some (NO_ERROR, sk, w))"

subsection \<open>Listening and accepting\<close>

text \<open>The globals of the stack: the socket table and \<open>tcpDynamicPort\<close>.\<close>

record 'w tcp_stack =
  socketTable :: "Socket list"
  tcpDynamicPort :: u16
  outside :: 'w

abbreviation (input) SOCKET_EPHEMERAL_PORT_MIN :: u32 where "SOCKET_EPHEMERAL_PORT_MIN \<equiv> 49152"
abbreviation (input) SOCKET_EPHEMERAL_PORT_MAX :: u32 where "SOCKET_EPHEMERAL_PORT_MAX \<equiv> 65535"
abbreviation (input) TCP_DEFAULT_SYN_QUEUE_SIZE :: u32 where "TCP_DEFAULT_SYN_QUEUE_SIZE \<equiv> 4"
abbreviation (input) TCP_MAX_SYN_QUEUE_SIZE :: u32 where "TCP_MAX_SYN_QUEUE_SIZE \<equiv> 16"

definition tcpInit :: "'w tcp_stack \<Rightarrow> error_t \<times> 'w tcp_stack" where
  "tcpInit st = (NO_ERROR, st\<lparr>tcpDynamicPort := 0\<rparr>)"

definition tcpGetDynamicPort :: "'w tcp_ops \<Rightarrow> 'w tcp_stack \<Rightarrow> u16 \<times> 'w tcp_stack" where
  "tcpGetDynamicPort ops st =
     (let port = ucast (tcpDynamicPort st) :: u32;
          (port, st) =
            (if port < SOCKET_EPHEMERAL_PORT_MIN \<or> port > SOCKET_EPHEMERAL_PORT_MAX
             then case sysRand ops (outside st) of (r, w) \<Rightarrow>
               (SOCKET_EPHEMERAL_PORT_MIN + r mod (SOCKET_EPHEMERAL_PORT_MAX - SOCKET_EPHEMERAL_PORT_MIN + 1),
                st\<lparr>outside := w\<rparr>)
             else (port, st));
          st = st\<lparr>tcpDynamicPort := (if port < SOCKET_EPHEMERAL_PORT_MAX then ucast (port + 1)
                                     else ucast SOCKET_EPHEMERAL_PORT_MIN)\<rparr>
      in (ucast port, st))"

definition tcpListen :: "'w tcp_ops \<Rightarrow> Socket \<Rightarrow> u32 \<Rightarrow> 'w \<Rightarrow> error_t \<times> Socket \<times> 'w" where
  "tcpListen ops sk backlog w =
     (if sk_state sk \<noteq> TCP_STATE_CLOSED then (ERROR_ALREADY_CONNECTED, sk, w)
      else
        let sk = sk\<lparr>synQueueSize := (if backlog > 0 then backlog else TCP_DEFAULT_SYN_QUEUE_SIZE)\<rparr>;
            sk = sk\<lparr>synQueueSize := min (synQueueSize sk) TCP_MAX_SYN_QUEUE_SIZE\<rparr>;
            (sk, w) = tcpChangeState ops sk TCP_STATE_LISTEN w
        in (NO_ERROR, sk, w))"

text \<open>The connection that has been in TIME-WAIT for longest; \<open>oldest\<close> is the best so far.\<close>

fun oldest_loop :: "systime_t \<Rightarrow> Socket list \<Rightarrow> nat \<Rightarrow> (nat \<times> Socket) option \<Rightarrow> nat option" where
  "oldest_loop time [] i oldest = map_option fst oldest"
| "oldest_loop time (sk # table) i oldest =
     (if sk_type sk = SOCKET_TYPE_STREAM \<and> sk_state sk = TCP_STATE_TIME_WAIT then
        let oldest = (case oldest of None \<Rightarrow> (i, sk) | Some x \<Rightarrow> x);
            oldest = (if time - timer_startTime (timeWaitTimer sk) > time - timer_startTime (timeWaitTimer (snd oldest))
                      then (i, sk) else oldest)
        in oldest_loop time table (i + 1) (Some oldest)
      else oldest_loop time table (i + 1) oldest)"

definition tcpKillOldestConnection :: "'w tcp_ops \<Rightarrow> 'w tcp_stack \<Rightarrow> nat option \<times> 'w tcp_stack" where
  "tcpKillOldestConnection ops st =
     (case sysTime ops (outside st) of (time, w) \<Rightarrow>
        case oldest_loop time (socketTable st) 0 None of
          None \<Rightarrow> (None, st\<lparr>outside := w\<rparr>)
        | Some i \<Rightarrow>
            (case close_socket ops (socketTable st ! i) w of (sk, w) \<Rightarrow>
               (Some i, st\<lparr>socketTable := (socketTable st)[i := sk], outside := w\<rparr>)))"

text \<open>A cleared timer and a cleared socket (\<open>memset\<close>), with what \<open>socketOpen\<close> then fills in.\<close>

definition cleared_timer :: TcpTimer where
  "cleared_timer = \<lparr>timer_running = False, timer_startTime = 0, timer_interval = 0\<rparr>"

definition opened_socket :: "nat \<Rightarrow> u16 \<Rightarrow> Socket" where
  "opened_socket i port =
     \<lparr>sk_descriptor = i, sk_type = SOCKET_TYPE_STREAM, sk_interface = None, localIpAddr = NoAddr, localPort = port,
      remoteIpAddr = NoAddr, remotePort = 0, sk_timeout = 0xFFFFFFFF, sk_eventMask = 0, sk_eventFlags = 0,
      sk_userEvent = False, sk_state = TCP_STATE_CLOSED, ownedFlag = False, closedFlag = False, resetFlag = False,
      smss = 0, rmss = 0, iss = 0, irs = 0, sndUna = 0, sndNxt = 0, sndUser = 0, sndWnd = 0, maxSndWnd = 0,
      sndWl1 = 0, sndWl2 = 0, rcvNxt = 0, rcvUser = 0, rcvWnd = 0, rttBusy = False, rttSeqNum = 0, rttStartTime = 0,
      srtt = 0, rttvar = 0, rto = 0, congestState = TCP_CONGEST_STATE_IDLE, cwnd = 0, ssthresh = 0, dupAckCount = 0,
      sk_n = 0, recover = 0, txBuffer = [], txBufferSize = 2860, rxBuffer = [], rxBufferSize = 2860,
      retransmitQueue = [], retransmitTimer = cleared_timer, retransmitCount = 0, synQueue = [], synQueueSize = 0,
      wndProbeCount = 0, wndProbeInterval = 0, persistTimer = cleared_timer, overrideTimer = cleared_timer,
      finWait2Timer = cleared_timer, timeWaitTimer = cleared_timer, sackBlock = []\<rparr>"

fun first_unused :: "Socket list \<Rightarrow> nat \<Rightarrow> nat option" where
  "first_unused [] i = None"
| "first_unused (sk # table) i = (if sk_type sk = SOCKET_TYPE_UNUSED then Some i else first_unused table (i + 1))"

text \<open>\<open>socketOpen\<close> for a stream socket.\<close>

definition socketOpenStream :: "'w tcp_ops \<Rightarrow> 'w tcp_stack \<Rightarrow> nat option \<times> 'w tcp_stack" where
  "socketOpenStream ops st =
     (let (port, st) = tcpGetDynamicPort ops st;
          (slot, st) = (case first_unused (socketTable st) 0 of
             Some i \<Rightarrow> (Some i, st)
           | None \<Rightarrow> tcpKillOldestConnection ops st)
      in case slot of
           None \<Rightarrow> (None, st)
         | Some i \<Rightarrow> (Some i, st\<lparr>socketTable := (socketTable st)[i := opened_socket i port]\<rparr>))"

text \<open>
  The connection made from a queued request, on a socket just opened; \<open>listener\<close> is the listening socket.  The
  congestion state reset here is that of the listening socket.
\<close>

definition setup_connection ::
    "'w tcp_ops \<Rightarrow> Socket \<Rightarrow> TcpSynQueueItem \<Rightarrow> Socket \<Rightarrow> 'w \<Rightarrow> (error_t \<times> Socket \<times> Socket \<times> 'w) option" where
  "setup_connection ops listener item sk w = do {
     let sk = sk\<lparr>ownedFlag := True, txBufferSize := txBufferSize listener, rxBufferSize := rxBufferSize listener\<rparr>;
     (error, sk, w) \<leftarrow> set_buffers ops sk w;
     if error \<noteq> NO_ERROR then Some (error, listener, sk, w)
     else (case sysRand ops w of (rand, w) \<Rightarrow> do {
       let sk = sk\<lparr>sk_interface := syn_interface item, localIpAddr := syn_destAddr item,
             localPort := localPort listener, remoteIpAddr := syn_srcAddr item, remotePort := syn_srcPort item,
             smss := syn_mss item, rmss := ucast (min (rxBufferSize sk) (ucast TCP_MAX_MSS)), iss := rand,
             irs := syn_isn item, sndUna := rand, sndNxt := rand + 1, rcvNxt := syn_isn item + 1, rcvUser := 0,
             rcvWnd := ucast (rxBufferSize sk), rto := TCP_INITIAL_RTO, ssthresh := 0xFFFF, recover := rand\<rparr>;
       let sk = sk\<lparr>cwnd := ucast (min (TCP_INITIAL_WINDOW * ucast (smss sk)) (txBufferSize sk))\<rparr>;
       (error, sk, w) \<leftarrow> tcpSendSegment ops sk (TCP_FLAG_SYN OR TCP_FLAG_ACK) (iss sk) (rcvNxt sk) 0 True w;
       Some (error, listener\<lparr>congestState := TCP_CONGEST_STATE_IDLE\<rparr>, sk, w)
     })
   }"

text \<open>
  \<open>tcpAccept\<close> on the socket of index \<open>k\<close>; \<open>wait\<close> is what the other tasks do to the stack while it waits.
\<close>

partial_function (option) accept_loop ::
    "'w tcp_ops \<Rightarrow> (nat \<Rightarrow> systime_t \<Rightarrow> 'w tcp_stack \<Rightarrow> 'w tcp_stack) \<Rightarrow> nat \<Rightarrow> 'w tcp_stack \<Rightarrow>
     (nat option \<times> 'w tcp_stack) option" where
  "accept_loop ops wait k st =
     (let listener = socketTable st ! k;
          st = (if synQueue listener \<noteq> [] then st
                else wait k (sk_timeout listener)
                  (st\<lparr>socketTable := (socketTable st)[k := listener\<lparr>sk_eventMask := EVENT_RX_READY\<rparr>]\<rparr>));
          listener = socketTable st ! k
      in (case synQueue listener of
            [] \<Rightarrow> Some (None, st)
          | item # queue \<Rightarrow>
              (case socketOpenStream ops st of
                 (None, st) \<Rightarrow>
                   accept_loop ops wait k
                     (st\<lparr>socketTable := (socketTable st)[k := (socketTable st ! k)\<lparr>synQueue := queue\<rparr>]\<rparr>)
               | (Some i, st) \<Rightarrow>
                   Option.bind (setup_connection ops listener item (socketTable st ! i) (outside st))
                     (\<lambda>(error, listener, sk, w).
                       if error = NO_ERROR then
                         let (listener, w) = tcpUpdateEvents ops (listener\<lparr>synQueue := queue\<rparr>) w;
                             (sk, w) = tcpChangeState ops sk TCP_STATE_SYN_RECEIVED w
                         in Some (Some i, st\<lparr>socketTable := (socketTable st)[k := listener, i := sk], outside := w\<rparr>)
                       else Option.bind (tcpAbort ops sk w) (\<lambda>(_, sk, w).
                         accept_loop ops wait k
                           (st\<lparr>socketTable := (socketTable st)[k := listener\<lparr>synQueue := queue\<rparr>, i := sk],
                               outside := w\<rparr>))))))"

definition tcpAccept ::
    "'w tcp_ops \<Rightarrow> (nat \<Rightarrow> systime_t \<Rightarrow> 'w tcp_stack \<Rightarrow> 'w tcp_stack) \<Rightarrow> nat \<Rightarrow> 'w tcp_stack \<Rightarrow>
     (nat option \<times> 'w tcp_stack) option" where
  "tcpAccept ops wait k st =
     (if sk_state (socketTable st ! k) \<noteq> TCP_STATE_LISTEN then Some (None, st) else accept_loop ops wait k st)"

end
