(* ===== verification/TcpView.thy ===== *)
theory TcpView
  imports TcpConn
begin

text \<open>
  The part of a socket the state machine depends on, and what each helper of \<open>tcp_misc.c\<close> does to it.
  The other members (timers, the retransmission queue, the congestion window, events) may change freely.
\<close>

named_theorems view_simps

text \<open>Sequence numbers and windows of the two directions, the state, the addresses and the buffers.\<close>

definition conn :: "Socket \<Rightarrow> nat \<times> TcpState \<times> bool \<times> IpAddr \<times> IpAddr \<times> TcpSynQueueItem list \<times> u32" where
  "conn sk = (sk_type sk, sk_state sk, closedFlag sk, localIpAddr sk, remoteIpAddr sk, synQueue sk, synQueueSize sk)"

definition snd_side :: "Socket \<Rightarrow> u32 \<times> u32 \<times> u32 \<times> u16 \<times> u16 \<times> buffer \<times> u32" where
  "snd_side sk = (iss sk, sndUna sk, sndNxt sk, sndUser sk, smss sk, txBuffer sk, txBufferSize sk)"

definition rcv_side :: "Socket \<Rightarrow> u32 \<times> u32 \<times> u16 \<times> u16 \<times> buffer \<times> u32 \<times> (u32 \<times> u32) list" where
  "rcv_side sk = (irs sk, rcvNxt sk, rcvUser sk, rcvWnd sk, rxBuffer sk, rxBufferSize sk, sackBlock sk)"

definition same :: "Socket \<Rightarrow> Socket \<Rightarrow> bool" where
  "same sk' sk \<longleftrightarrow> conn sk' = conn sk \<and> snd_side sk' = snd_side sk \<and> rcv_side sk' = rcv_side sk"

lemma same_refl [simp]: "same sk sk"
  by (simp add: same_def)

lemma same_trans [trans]: "same a b \<Longrightarrow> same b c \<Longrightarrow> same a c"
  by (simp add: same_def)

lemma same_eqs:
  assumes "same sk' sk"
  shows "sk_type sk' = sk_type sk" and "sk_state sk' = sk_state sk" and "closedFlag sk' = closedFlag sk"
    and "localIpAddr sk' = localIpAddr sk" and "remoteIpAddr sk' = remoteIpAddr sk"
    and "iss sk' = iss sk" and "sndUna sk' = sndUna sk" and "sndNxt sk' = sndNxt sk" and "sndUser sk' = sndUser sk"
    and "smss sk' = smss sk" and "txBuffer sk' = txBuffer sk" and "txBufferSize sk' = txBufferSize sk"
    and "irs sk' = irs sk" and "rcvNxt sk' = rcvNxt sk" and "rcvUser sk' = rcvUser sk" and "rcvWnd sk' = rcvWnd sk"
    and "rxBuffer sk' = rxBuffer sk" and "rxBufferSize sk' = rxBufferSize sk"
    and "sackBlock sk' = sackBlock sk" and "synQueue sk' = synQueue sk" and "synQueueSize sk' = synQueueSize sk"
  using assms by (simp_all add: same_def conn_def snd_side_def rcv_side_def)

text \<open>Updates of the other members.\<close>

lemma same_upd [simp, view_simps]:
  "same (sk\<lparr>sk_eventFlags := f\<rparr>) sk"
  "same (sk\<lparr>sk_eventMask := f\<rparr>) sk"
  "same (sk\<lparr>retransmitQueue := q\<rparr>) sk"
  "same (sk\<lparr>retransmitTimer := t\<rparr>) sk"
  "same (sk\<lparr>retransmitTimer := t, retransmitCount := c\<rparr>) sk"
  "same (sk\<lparr>rttStartTime := u, rttSeqNum := s, rttBusy := b, sk_n := n\<rparr>) sk"
  "same (sk\<lparr>overrideTimer := t\<rparr>) sk"
  "same (sk\<lparr>finWait2Timer := t\<rparr>) sk"
  "same (sk\<lparr>timeWaitTimer := t\<rparr>) sk"
  "same (sk\<lparr>rttBusy := b\<rparr>) sk"
  "same (sk\<lparr>dupAckCount := d\<rparr>) sk"
  "same (sk\<lparr>cwnd := cw\<rparr>) sk"
  by (simp_all add: same_def conn_def snd_side_def rcv_side_def)

lemma tcpUpdateEvents_same: "same (fst (tcpUpdateEvents ops sk w)) sk"
  by (simp add: tcpUpdateEvents_def Let_def)

lemma tcpUpdateEvents_cases:
  obtains sk' w' where "tcpUpdateEvents ops sk w = (sk', w')" and "same sk' sk"
  by (metis prod.collapse tcpUpdateEvents_same)

text \<open>The new state, and the flag that tells an orderly close from a reset.\<close>

definition to_state :: "TcpState \<Rightarrow> Socket \<Rightarrow> Socket" where
  "to_state st sk =
     (if st = TCP_STATE_CLOSED
      then if sk_state sk = TCP_STATE_LAST_ACK \<or> sk_state sk = TCP_STATE_TIME_WAIT
           then sk\<lparr>closedFlag := True, sk_state := st\<rparr> else sk\<lparr>resetFlag := True, sk_state := st\<rparr>
      else sk\<lparr>sk_state := st\<rparr>)"

lemma tcpChangeState_same: "same (fst (tcpChangeState ops sk st w)) (to_state st sk)"
  unfolding tcpChangeState_def to_state_def Let_def
  by (simp add: tcpUpdateEvents_same split: if_split)

lemma tcpChangeState_cases:
  obtains sk' w' where "tcpChangeState ops sk st w = (sk', w')" and "same sk' (to_state st sk)"
  by (metis prod.collapse tcpChangeState_same)

lemma tcpTimerStart_cases:
  obtains timer w' where "tcpTimerStart ops t d w = (timer, w')"
  by (metis surj_pair)

lemma tcpTimerElapsed_cases:
  obtains e w' where "tcpTimerElapsed ops t w = (e, w')"
  by (metis surj_pair)

subsection \<open>Sending\<close>

definition route_ok :: "Socket \<Rightarrow> bool" where
  "route_ok sk \<longleftrightarrow> socket_pseudo sk 0 \<noteq> None"

lemma socket_pseudo_Some:
  assumes "route_ok sk"
  obtains pseudo where "socket_pseudo sk n = Some pseudo"
  using assms unfolding route_ok_def socket_pseudo_def by (auto split: IpAddr.splits)

lemma route_ok_same: "same sk' sk \<Longrightarrow> route_ok sk' = route_ok sk"
  by (simp add: route_ok_def socket_pseudo_def same_eqs cong: IpAddr.case_cong)

lemma queue_segment_same:
  obtains e sk' w' where "queue_segment ops sk ph segment len w = (e, sk', w')" and "same sk' sk"
proof -
  have "same (fst (snd (queue_segment ops sk ph segment len w))) sk"
    unfolding queue_segment_def Let_def
    by (simp add: same_def conn_def snd_side_def rcv_side_def split: prod.split)
  then show ?thesis using that by (metis prod.collapse)
qed

lemma tcpReadTxBuffer_Some:
  assumes "txBufferSize sk \<noteq> 0"
  obtains e d where "tcpReadTxBuffer sk seqNum n = Some (e, d)"
  using assms unfolding tcpReadTxBuffer_def ring_offset_def
  by (fastforce simp: Let_def split: prod.split)

lemma submit_segment_same: "same (fst (snd (submit_segment ops sk ph segment d len addToQueue w))) sk"
proof -
  obtain e sk' w' where q: "(if addToQueue then queue_segment ops sk ph (finish_checksum ph segment d) len w
      else (NO_ERROR, sk, w)) = (e, sk', w')" and s: "same sk' sk"
    by (metis (full_types) queue_segment_same same_refl)
  then show ?thesis by (simp add: submit_segment_def Let_def split: prod.split)
qed

lemma tcpSendSegment_cases:
  assumes "route_ok sk" and "len = 0 \<or> txBufferSize sk \<noteq> 0"
  obtains e sk' w' where "tcpSendSegment ops sk fl seqNum ackNum len addToQueue w = Some (e, sk', w')"
    and "same sk' sk"
proof (cases "memAlloc ops NET_BUFFER_SIZE w")
  case (Pair block w1)
  obtain e d where read: "(if len > 0 then tcpReadTxBuffer sk seqNum (unat len) else Some (NO_ERROR, [])) = Some (e, d)"
  proof (cases "len = 0")
    case False
    then obtain e d where "tcpReadTxBuffer sk seqNum (unat len) = Some (e, d)"
      using assms(2) tcpReadTxBuffer_Some by blast
    with False that show ?thesis by (simp add: word_neq_0_conv)
  qed (use that in simp)
  obtain pseudo where "socket_pseudo sk (th_dataOffset (new_segment sk fl seqNum ackNum) * 4 + unat len) = Some pseudo"
    using socket_pseudo_Some [OF assms(1)] .
  then have "\<exists>e sk' w'. tcpSendSegment ops sk fl seqNum ackNum len addToQueue w = Some (e, sk', w') \<and> same sk' sk"
    unfolding tcpSendSegment_def using Pair read
      submit_segment_same [of ops sk _ "new_segment sk fl seqNum ackNum" d len addToQueue w1]
    by (cases pseudo) (auto simp: Let_def, metis prod.collapse)
  with that show ?thesis by blast
qed

lemma send_control_cases:
  assumes "route_ok sk"
  obtains e sk' w' where "tcpSendSegment ops sk fl seqNum ackNum 0 addToQueue w = Some (e, sk', w')" and "same sk' sk"
  using assms by (rule tcpSendSegment_cases [where len = 0]) (simp, rule that)

subsection \<open>Retransmission and congestion control\<close>

lemma acked_loop_same: "same (fst (snd (acked_loop ops sk queue w))) sk"
proof (induction queue arbitrary: sk w)
  case (Cons item queue)
  show ?case
  proof (cases "item_acked (sndUna sk) item")
    case True
    obtain timer w' where t: "tcpTimerStart ops (retransmitTimer sk) (rto sk) w = (timer, w')"
      by (rule tcpTimerStart_cases)
    have "same (fst (snd (acked_loop ops sk (item # queue) w))) (sk\<lparr>retransmitTimer := timer, retransmitCount := 0\<rparr>)"
      using True t Cons.IH by simp
    then show ?thesis using same_trans same_upd(5) by blast
  next
    case False
    then show ?thesis using Cons.IH [of sk w] by (auto split: prod.split)
  qed
qed simp

lemma tcpUpdateRetransmitQueue_same: "same (fst (tcpUpdateRetransmitQueue ops sk w)) sk"
proof -
  obtain q sk' w' where a: "acked_loop ops sk (retransmitQueue sk) w = (q, sk', w')" by (metis prod.collapse)
  then have "same sk' sk" using acked_loop_same [of ops sk "retransmitQueue sk" w] by simp
  with a show ?thesis
    by (simp add: tcpUpdateRetransmitQueue_def Let_def same_def conn_def snd_side_def rcv_side_def)
qed

lemma retransmit_loop_Some:
  assumes "txBufferSize sk \<noteq> 0"
  shows "retransmit_loop ops sk queue len w \<noteq> None"
proof (induction queue arbitrary: len w)
  case (Cons item queue)
  obtain e d where "tcpReadTxBuffer sk (th_seqNum (item_header item)) (unat (q_length item)) = Some (e, d)"
    using assms tcpReadTxBuffer_Some by blast
  then show ?case using Cons.IH by (simp add: Let_def split: prod.split)
qed simp

lemma tcpRetransmitSegment_cases:
  assumes "txBufferSize sk \<noteq> 0"
  obtains e w' where "tcpRetransmitSegment ops sk w = Some (e, w')"
  using retransmit_loop_Some [OF assms, of ops "retransmitQueue sk" 0 w] unfolding tcpRetransmitSegment_def by auto

lemma rtt_sample_same: "same (rtt_sample sk r) sk"
  by (simp add: rtt_sample_def Let_def same_def conn_def snd_side_def rcv_side_def)

lemma tcpComputeRto_same: "same (fst (snd (tcpComputeRto ops sk w))) sk"
proof -
  have "same (sk'\<lparr>rto := v, rttBusy := False\<rparr>) sk'" for sk' v
    by (simp add: same_def conn_def snd_side_def rcv_side_def)
  then show ?thesis
    using rtt_sample_same same_trans by (simp add: tcpComputeRto_def Let_def split: prod.split) blast
qed

lemma tcpFastRetransmit_cases:
  assumes "txBufferSize sk \<noteq> 0"
  obtains sk' w' where "tcpFastRetransmit ops sk w = Some (sk', w')" and "same sk' sk"
proof -
  let ?sk = "sk\<lparr>ssthresh := ucast (max ((sndNxt sk - sndUna sk) div 2) (2 * ucast (smss sk))), recover := sndNxt sk - 1\<rparr>"
  obtain e w' where "tcpRetransmitSegment ops ?sk w = Some (e, w')"
    using assms by (rule_tac tcpRetransmitSegment_cases [of ?sk ops w]) simp_all
  then have "\<exists>sk' w'. tcpFastRetransmit ops sk w = Some (sk', w') \<and> same sk' sk"
    by (simp add: tcpFastRetransmit_def Let_def same_def conn_def snd_side_def rcv_side_def)
  with that show ?thesis by blast
qed

lemma tcpFastRecovery_cases:
  assumes "txBufferSize sk \<noteq> 0"
  obtains sk' w' where "tcpFastRecovery ops sk segment n w = Some (sk', w')" and "same sk' sk"
proof -
  obtain e w' where r: "tcpRetransmitSegment ops sk w = Some (e, w')" using tcpRetransmitSegment_cases [OF assms] .
  have "\<exists>sk' w'. tcpFastRecovery ops sk segment n w = Some (sk', w') \<and> same sk' sk"
    unfolding tcpFastRecovery_def Let_def by (simp add: r same_def conn_def snd_side_def rcv_side_def)
  with that show ?thesis by blast
qed

lemma tcpFastLossRecovery_cases:
  assumes "txBufferSize sk \<noteq> 0"
  obtains sk' w' where "tcpFastLossRecovery ops sk segment w = Some (sk', w')" and "same sk' sk"
proof -
  obtain e w' where r: "tcpRetransmitSegment ops sk w = Some (e, w')" using tcpRetransmitSegment_cases [OF assms] .
  have "\<exists>sk' w'. tcpFastLossRecovery ops sk segment w = Some (sk', w') \<and> same sk' sk"
    unfolding tcpFastLossRecovery_def Let_def by (simp add: r same_def conn_def snd_side_def rcv_side_def)
  with that show ?thesis by blast
qed

lemma tcpUpdateSendWindow_same: "same (fst (tcpUpdateSendWindow ops sk segment w)) sk"
  unfolding tcpUpdateSendWindow_def Let_def
  by (simp add: same_def conn_def snd_side_def rcv_side_def split: prod.split)

subsection \<open>Acknowledgments\<close>

lemma congestion_step_cases:
  assumes "txBufferSize sk \<noteq> 0"
  obtains sk' w' where "congestion_step ops sk segment n updateFlag w = Some (sk', w')" and "same sk' sk"
proof (cases "congestState sk = TCP_CONGEST_STATE_RECOVERY")
  case True
  then show ?thesis
    using tcpFastRecovery_cases [OF assms, of ops segment n w] that by (auto simp: congestion_step_def)
next
  case False
  let ?sk = "sk\<lparr>dupAckCount := 0\<rparr>"
  obtain sk1 w1 where r: "(if congestState ?sk = TCP_CONGEST_STATE_LOSS_RECOVERY then tcpFastLossRecovery ops ?sk segment w
                      else Some (?sk, w)) = Some (sk1, w1)" and s: "same sk1 sk"
  proof (cases "congestState ?sk = TCP_CONGEST_STATE_LOSS_RECOVERY")
    case True
    have "txBufferSize ?sk \<noteq> 0" using assms by simp
    then obtain sk' w' where "tcpFastLossRecovery ops ?sk segment w = Some (sk', w')" and "same sk' ?sk"
      by (rule tcpFastLossRecovery_cases)
    with True that show ?thesis using same_trans same_upd(11) by auto
  qed (use that in auto)
  have "same (sk1\<lparr>cwnd := c\<rparr>) sk" for c using s same_trans same_upd(12) by blast
  with False r s that show ?thesis by (auto simp: congestion_step_def Let_def)
qed

text \<open>The acknowledgment number becomes the first one not acknowledged.\<close>

lemma ack_new_data_cases:
  assumes "txBufferSize sk \<noteq> 0"
  obtains sk' w' where "ack_new_data ops sk segment w = Some (sk', w')" and "same sk' (sk\<lparr>sndUna := th_ackNum segment\<rparr>)"
proof -
  define n where "n = acked_bytes sk segment"
  define sk0 where "sk0 = sk\<lparr>sk_n := sk_n sk + n, sndUna := th_ackNum segment\<rparr>"
  have s0: "same sk0 (sk\<lparr>sndUna := th_ackNum segment\<rparr>)"
    by (simp add: sk0_def same_def conn_def snd_side_def rcv_side_def)
  obtain u sk1 w1 where 1: "tcpComputeRto ops sk0 w = (u, sk1, w1)" and s1: "same sk1 sk0"
    by (metis prod.collapse tcpComputeRto_same)
  obtain sk2 w2 where 2: "tcpUpdateRetransmitQueue ops sk1 w1 = (sk2, w2)" and s2: "same sk2 sk1"
    by (metis prod.collapse tcpUpdateRetransmitQueue_same)
  have s: "same sk2 (sk\<lparr>sndUna := th_ackNum segment\<rparr>)" using s0 s1 s2 same_trans by blast
  then have "txBufferSize sk2 \<noteq> 0" using assms by (simp add: same_eqs(12))
  then obtain sk3 w3 where 3: "congestion_step ops sk2 segment n u w2 = Some (sk3, w3)" and s3: "same sk3 sk2"
    by (rule congestion_step_cases)
  have "ack_new_data ops sk segment w = Some (sk3\<lparr>cwnd := ucast (min (ucast (cwnd sk3)) (txBufferSize sk3))\<rparr>, w3)"
    unfolding ack_new_data_def Let_def n_def [symmetric] sk0_def [symmetric] by (simp add: 1 2 3)
  moreover have "same (sk3\<lparr>cwnd := ucast (min (ucast (cwnd sk3)) (txBufferSize sk3))\<rparr>) (sk\<lparr>sndUna := th_ackNum segment\<rparr>)"
    using s s3 same_trans same_upd(12) by blast
  ultimately show ?thesis using that by blast
qed

lemma ack_old_data_cases:
  assumes "txBufferSize sk \<noteq> 0"
  obtains sk' w' where "ack_old_data ops sk segment dup w = Some (sk', w')" and "same sk' sk"
proof -
  define sk0 where "sk0 = sk\<lparr>dupAckCount := (if dup then dupAckCount sk + 1 else 0)\<rparr>"
  have s0: "same sk0 sk" and "txBufferSize sk0 \<noteq> 0" using assms by (simp_all add: sk0_def)
  obtain sk1 w1 where 1: "(case congestState sk0 of
          TCP_CONGEST_STATE_IDLE \<Rightarrow>
            if dupAckCount sk0 \<ge> dup_ack_thresh sk0 \<and> TCP_CMP_SEQ (th_ackNum segment) (recover sk0 + 1) > 0
            then tcpFastRetransmit ops sk0 w
            else Some (sk0, w)
        | TCP_CONGEST_STATE_RECOVERY \<Rightarrow>
            Some (if dup then sk0\<lparr>cwnd := cwnd sk0 + smss sk0\<rparr> else sk0, w)
        | TCP_CONGEST_STATE_LOSS_RECOVERY \<Rightarrow> Some (sk0, w)) = Some (sk1, w1)" and s1: "same sk1 sk0"
  proof (cases "congestState sk0")
    case TCP_CONGEST_STATE_IDLE
    obtain sk' w' where "tcpFastRetransmit ops sk0 w = Some (sk', w')" and "same sk' sk0"
      using tcpFastRetransmit_cases [OF \<open>txBufferSize sk0 \<noteq> 0\<close>] .
    with TCP_CONGEST_STATE_IDLE that show ?thesis
      by (cases "dupAckCount sk0 \<ge> dup_ack_thresh sk0 \<and> TCP_CMP_SEQ (th_ackNum segment) (recover sk0 + 1) > 0") simp_all
  next
    case TCP_CONGEST_STATE_RECOVERY
    with that show ?thesis by (cases dup) simp_all
  next
    case TCP_CONGEST_STATE_LOSS_RECOVERY
    with that show ?thesis by simp
  qed
  have "ack_old_data ops sk segment dup w = Some (sk1\<lparr>cwnd := ucast (min (ucast (cwnd sk1)) (txBufferSize sk1))\<rparr>, w1)"
    unfolding ack_old_data_def Let_def sk0_def [symmetric] using 1 by simp
  moreover have "same (sk1\<lparr>cwnd := ucast (min (ucast (cwnd sk1)) (txBufferSize sk1))\<rparr>) sk"
    using s0 s1 same_trans same_upd(12) by blast
  ultimately show ?thesis using that by blast
qed

text \<open>
  What \<open>tcpCheckAck\<close> does to the socket: nothing, or it moves \<open>sndUna\<close> to an acknowledgment number between
  \<open>sndUna\<close> and \<open>sndNxt\<close>.
\<close>

definition ack_range :: "Socket \<Rightarrow> u32 \<Rightarrow> bool" where
  "ack_range sk ack \<longleftrightarrow> TCP_CMP_SEQ ack (sndUna sk) > 0 \<and> TCP_CMP_SEQ ack (sndNxt sk) \<le> 0"

lemma tcpCheckAck_cases:
  assumes "route_ok sk" and "txBufferSize sk \<noteq> 0"
  obtains (kept) e sk' w' where "tcpCheckAck ops sk segment len w = Some (e, sk', w')" and "same sk' sk"
      and "e = NO_ERROR \<longrightarrow> has_flag segment TCP_FLAG_ACK" and "ack_range sk (th_ackNum segment) \<longrightarrow> e \<noteq> NO_ERROR"
    | (acked) sk' w' where "tcpCheckAck ops sk segment len w = Some (NO_ERROR, sk', w')"
      and "same sk' (sk\<lparr>sndUna := th_ackNum segment\<rparr>)" and "ack_range sk (th_ackNum segment)"
      and "has_flag segment TCP_FLAG_ACK"
proof -
  let ?ack = "th_ackNum segment"
  let ?goal = "\<exists>e sk' w'. tcpCheckAck ops sk segment len w = Some (e, sk', w') \<and>
     (same sk' sk \<and> (e = NO_ERROR \<longrightarrow> has_flag segment TCP_FLAG_ACK) \<and> (ack_range sk ?ack \<longrightarrow> e \<noteq> NO_ERROR) \<or>
      e = NO_ERROR \<and> same sk' (sk\<lparr>sndUna := ?ack\<rparr>) \<and> ack_range sk ?ack \<and> has_flag segment TCP_FLAG_ACK)"
  consider "\<not> has_flag segment TCP_FLAG_ACK" | "has_flag segment TCP_FLAG_ACK" "TCP_CMP_SEQ ?ack (sndUna sk) < 0"
    | "has_flag segment TCP_FLAG_ACK" "\<not> TCP_CMP_SEQ ?ack (sndUna sk) < 0" "TCP_CMP_SEQ ?ack (sndNxt sk) > 0"
    | "has_flag segment TCP_FLAG_ACK" "\<not> TCP_CMP_SEQ ?ack (sndUna sk) < 0" "\<not> TCP_CMP_SEQ ?ack (sndNxt sk) > 0"
    by blast
  then have ?goal
  proof cases
    case 3
    obtain e sk' w' where "tcpSendSegment ops sk TCP_FLAG_ACK (sndNxt sk) (rcvNxt sk) 0 False w = Some (e, sk', w')"
      and "same sk' sk"
      using send_control_cases [OF assms(1)] .
    with 3 show ?thesis by (auto simp: tcpCheckAck_def)
  next
    case 4
    define dup where "dup = tcpIsDuplicateAck sk segment len"
    obtain sk1 w1 where 1: "tcpUpdateSendWindow ops sk segment w = (sk1, w1)" and s1: "same sk1 sk"
      by (metis prod.collapse tcpUpdateSendWindow_same)
    have tx: "txBufferSize sk1 \<noteq> 0" and una: "sndUna sk1 = sndUna sk" using assms(2) s1 by (simp_all add: same_eqs)
    have unf: "tcpCheckAck ops sk segment len w = do {
        (sk, w) \<leftarrow> (if TCP_CMP_SEQ ?ack (sndUna sk) > 0 then ack_new_data ops sk1 segment w1
                    else ack_old_data ops sk1 segment dup w1);
        let (sk, w) = tcpUpdateEvents ops sk w;
        Some (NO_ERROR, sk, w)
      }"
      using 4 by (simp add: tcpCheckAck_def Let_def 1 dup_def [symmetric] una)
    show ?thesis
    proof (cases "TCP_CMP_SEQ ?ack (sndUna sk) > 0")
      case True
      obtain sk2 w2 where 2: "ack_new_data ops sk1 segment w1 = Some (sk2, w2)"
        and s2: "same sk2 (sk1\<lparr>sndUna := ?ack\<rparr>)" using ack_new_data_cases [OF tx] .
      obtain sk3 w3 where 3: "tcpUpdateEvents ops sk2 w2 = (sk3, w3)" and s3: "same sk3 sk2"
        by (rule tcpUpdateEvents_cases)
      have "same (sk1\<lparr>sndUna := ?ack\<rparr>) (sk\<lparr>sndUna := ?ack\<rparr>)"
        using s1 by (simp add: same_def conn_def snd_side_def rcv_side_def)
      then have "same sk3 (sk\<lparr>sndUna := ?ack\<rparr>)" using s2 s3 same_trans by blast
      with True 4 2 3 show ?thesis by (simp add: unf ack_range_def)
    next
      case False
      obtain sk2 w2 where 2: "ack_old_data ops sk1 segment dup w1 = Some (sk2, w2)" and s2: "same sk2 sk1"
        using ack_old_data_cases [OF tx] .
      obtain sk3 w3 where 3: "tcpUpdateEvents ops sk2 w2 = (sk3, w3)" and s3: "same sk3 sk2"
        by (rule tcpUpdateEvents_cases)
      have "same sk3 sk" using s1 s2 s3 same_trans by blast
      with False 4 2 3 show ?thesis by (simp add: unf ack_range_def)
    qed
  qed (simp_all add: tcpCheckAck_def ack_range_def)
  then show thesis using that by blast
qed

end
