(* ===== verification/TcpSeq.thy ===== *)
theory TcpSeq
  imports TcpView
begin

text \<open>
  Sequence numbers: \<open>TCP_CMP_SEQ\<close> orders numbers that lie less than \<open>2 ^ 31\<close> behind a common base by their
  distance to it, whether or not they wrap around in between.  This makes the test of incoming sequence
  numbers the one of RFC 793.
\<close>

abbreviation dist :: "u32 \<Rightarrow> u32 \<Rightarrow> nat" where
  "dist base x \<equiv> unat (x - base)"

abbreviation half :: nat where "half \<equiv> 2147483648"

lemma dist_add: "dist base x + n < 4294967296 \<Longrightarrow> dist base (x + word_of_nat n) = dist base x + n"
proof -
  assume a: "dist base x + n < 4294967296"
  have "x + word_of_nat n - base = word_of_nat (dist base x + n)" by simp
  then show ?thesis using a by (simp only: unat_of_nat_u32)
qed

lemma dist_diff:
  assumes "dist base y \<le> dist base x"
  shows "unat (x - y) = dist base x - dist base y"
proof -
  have "x - y = (x - base) - (y - base)" by simp
  then show ?thesis using assms by (simp only: unat_sub word_le_nat_alt)
qed

lemma dist_split:
  assumes "dist base y \<le> dist base x"
  shows "x = y + word_of_nat (dist base x - dist base y)"
proof -
  have "word_of_nat (unat (x - y)) = x - y" by simp
  then show ?thesis using dist_diff [OF assms] by simp
qed

lemma unat_sub_wrap: "unat (p :: u32) < unat q \<Longrightarrow> unat (p - q) = unat p + 4294967296 - unat q"
  by (simp add: unat_sub_if_size word_size)

lemma cmp_nonneg_iff:
  assumes "dist base x < half" and "dist base y < half"
  shows "0 \<le> TCP_CMP_SEQ x y \<longleftrightarrow> dist base y \<le> dist base x"
proof (cases "dist base y \<le> dist base x")
  case True
  then have "unat (x - y) < half" using assms dist_diff [OF True] by linarith
  then show ?thesis using True unfolding TCP_CMP_SEQ_def sint_nonneg_iff by simp
next
  case False
  define p q where "p = x - base" and "q = y - base"
  have "x - y = p - q" and "unat p < unat q" using False by (simp_all add: p_def q_def)
  then have "unat (x - y) = unat p + 4294967296 - unat q" by (simp only: unat_sub_wrap)
  moreover have "unat q < half" and "unat p < half" using assms by (simp_all add: p_def q_def)
  ultimately have "\<not> unat (x - y) < half" by linarith
  then show ?thesis using False unfolding TCP_CMP_SEQ_def sint_nonneg_iff by simp
qed

lemma TCP_CMP_SEQ_zero [simp]: "TCP_CMP_SEQ x y = 0 \<longleftrightarrow> x = y"
  unfolding TCP_CMP_SEQ_def by (metis eq_iff_diff_eq_0 signed_0 signed_word_eqI)

lemma cmp_pos_iff:
  assumes "dist base x < half" and "dist base y < half"
  shows "0 < TCP_CMP_SEQ x y \<longleftrightarrow> dist base y < dist base x"
proof -
  have "0 < TCP_CMP_SEQ x y \<longleftrightarrow> 0 \<le> TCP_CMP_SEQ x y \<and> x \<noteq> y" using TCP_CMP_SEQ_zero [of x y] by linarith
  also have "\<dots> \<longleftrightarrow> dist base y < dist base x"
  proof -
    have "x = y \<longleftrightarrow> dist base x = dist base y" by (metis diff_add_cancel unsigned_word_eqI)
    then show ?thesis using cmp_nonneg_iff [OF assms] by linarith
  qed
  finally show ?thesis .
qed

lemma cmp_neg_iff:
  "dist base x < half \<Longrightarrow> dist base y < half \<Longrightarrow> TCP_CMP_SEQ x y < 0 \<longleftrightarrow> dist base x < dist base y"
  using cmp_nonneg_iff [of x base y] by linarith

lemma cmp_le_iff:
  "dist base x < half \<Longrightarrow> dist base y < half \<Longrightarrow> TCP_CMP_SEQ x y \<le> 0 \<longleftrightarrow> dist base x \<le> dist base y"
  using cmp_pos_iff [of x base y] by linarith

lemmas cmp_iffs = cmp_nonneg_iff cmp_pos_iff cmp_neg_iff cmp_le_iff

text \<open>In a window of at most 65535 numbers: the sign of the difference alone tells that a number is in it.\<close>

lemma unat_u16_max: "unat (x :: u16) \<le> 65535"
proof -
  have "unat x < 2 ^ LENGTH(16)" by (rule unsigned_less)
  also have "(2::nat) ^ LENGTH(16) = 65536" by simp
  finally show ?thesis by linarith
qed

lemmas unat_u16_u32 [simp] = unat_ucast16

lemma in_window_iff:
  fixes wnd :: u16
  shows "TCP_CMP_SEQ x nxt \<ge> 0 \<and> TCP_CMP_SEQ x (nxt + ucast wnd) < 0 \<longleftrightarrow> dist nxt x < unat wnd"
proof -
  have w: "unat wnd \<le> 65535" by (rule unat_u16_max)
  have d0: "dist nxt nxt = 0" by simp
  have dw: "dist nxt (nxt + ucast wnd) = unat wnd" by simp
  show ?thesis
  proof (cases "dist nxt x < half")
    case True
    then show ?thesis using w d0 dw by (simp add: cmp_nonneg_iff [of _ nxt] cmp_neg_iff [of _ nxt] del: diff_self)
  next
    case False
    then show ?thesis using w by (simp add: TCP_CMP_SEQ_def sint_nonneg_iff)
  qed
qed

text \<open>
  The acceptability test of RFC 793 on the numbers a segment of \<open>len\<close> bytes occupies, relative to \<open>RCV.NXT\<close>:
  an empty segment must start at or in the window, any other one must have its first or its last byte in it.
\<close>

definition rfc793_acceptable :: "u32 \<Rightarrow> nat \<Rightarrow> u32 \<Rightarrow> nat \<Rightarrow> bool" where
  "rfc793_acceptable nxt wnd seqNum len \<longleftrightarrow>
     (let in_window = (\<lambda>x. dist nxt x < wnd) in
      if len = 0 then (if wnd = 0 then seqNum = nxt else in_window seqNum)
      else wnd \<noteq> 0 \<and> (in_window seqNum \<or> in_window (seqNum + word_of_nat len - 1)))"

lemma seq_acceptable_eq:
  "seq_acceptable sk segment len \<longleftrightarrow>
   rfc793_acceptable (rcvNxt sk) (unat (rcvWnd sk)) (th_seqNum segment) (unat len)"
proof -
  have l: "unat len = 0 \<longleftrightarrow> len = 0" by (rule unat_eq_0)
  have w: "unat (rcvWnd sk) = 0 \<longleftrightarrow> rcvWnd sk = 0" by (rule unat_eq_0)
  show ?thesis
    unfolding seq_acceptable_def rfc793_acceptable_def Let_def in_window_iff l w
    by simp
qed

section \<open>Blocks received out of order\<close>

text \<open>
  The blocks of data received out of order.  Relative to a base (\<open>RCV.NXT\<close>) a block is an interval of
  offsets; the blocks lie in the window and do not touch each other.  \<open>tcpUpdateSackBlocks\<close> keeps this, and
  what it reports as received has been received.
\<close>

definition block_ok :: "u32 \<Rightarrow> nat \<Rightarrow> u32 \<times> u32 \<Rightarrow> bool" where
  "block_ok base wnd = (\<lambda>(l, r). dist base l \<le> dist base r \<and> dist base r \<le> wnd)"

definition apart :: "u32 \<Rightarrow> u32 \<times> u32 \<Rightarrow> u32 \<times> u32 \<Rightarrow> bool" where
  "apart base = (\<lambda>(l, r) (l', r'). dist base r < dist base l' \<or> dist base r' < dist base l)"

definition blocks_ok :: "u32 \<Rightarrow> nat \<Rightarrow> (u32 \<times> u32) list \<Rightarrow> bool" where
  "blocks_ok base wnd bs \<longleftrightarrow> (\<forall>b \<in> set bs. block_ok base wnd b) \<and> sorted_wrt (apart base) bs"

definition covers :: "u32 \<Rightarrow> u32 \<times> u32 \<Rightarrow> nat set" where
  "covers base = (\<lambda>(l, r). {dist base l..<dist base r})"

lemma apart_commute: "apart base b c = apart base c b"
  by (auto simp: apart_def split: prod.splits)

lemma blocks_ok_Cons:
  "blocks_ok base wnd (b # bs) \<longleftrightarrow> block_ok base wnd b \<and> (\<forall>c \<in> set bs. apart base b c) \<and> blocks_ok base wnd bs"
  by (auto simp: blocks_ok_def)

text \<open>Two blocks that touch, merged with \<open>MIN\<close> and \<open>MAX\<close> on the numbers as they are.\<close>

lemma touching_iff:
  assumes "block_ok base wnd (l, r)" and "block_ok base wnd (l', r')" and "wnd < half"
  shows "TCP_CMP_SEQ r l' \<ge> 0 \<and> TCP_CMP_SEQ l r' \<le> 0 \<longleftrightarrow> \<not> apart base (l, r) (l', r')"
  using assms by (auto simp: block_ok_def apart_def cmp_nonneg_iff [of _ base] cmp_le_iff [of _ base])

lemma merge_two:
  assumes "block_ok base wnd (l, r)" and "block_ok base wnd (l', r')" and "\<not> apart base (l, r) (l', r')"
  shows "block_ok base wnd (min l l', max r r')"
    and "covers base (min l l', max r r') \<subseteq> covers base (l, r) \<union> covers base (l', r')"
    and "block_ok base wnd b \<Longrightarrow> apart base b (l, r) \<Longrightarrow> apart base b (l', r') \<Longrightarrow>
      apart base b (min l l', max r r')"
    and "dist base l = 0 \<Longrightarrow> l = base"
proof -
  have m: "min l l' = l \<or> min l l' = l'" "max r r' = r \<or> max r r' = r'" by (auto simp: min_def max_def)
  show "block_ok base wnd (min l l', max r r')"
    using assms m by (auto simp: block_ok_def apart_def)
  show "covers base (min l l', max r r') \<subseteq> covers base (l, r) \<union> covers base (l', r')"
    using assms m by (auto simp: block_ok_def apart_def covers_def)
  show "block_ok base wnd b \<Longrightarrow> apart base b (l, r) \<Longrightarrow> apart base b (l', r') \<Longrightarrow>
      apart base b (min l l', max r r')"
    using assms m by (cases b) (auto simp: block_ok_def apart_def)
  show "dist base l = 0 \<Longrightarrow> l = base" by (simp add: unat_eq_0)
qed

lemma merge_blocks_ok:
  assumes "merge_blocks bs l r = (bs', l', r')" and "blocks_ok base wnd bs" and "block_ok base wnd (l, r)"
    and "wnd < half"
  shows "block_ok base wnd (l', r') \<and> set bs' \<subseteq> set bs \<and> blocks_ok base wnd ((l', r') # bs') \<and>
    covers base (l', r') \<subseteq> covers base (l, r) \<union> (\<Union>b \<in> set bs. covers base b) \<and>
    (\<forall>b. block_ok base wnd b \<and> apart base b (l, r) \<and> (\<forall>c \<in> set bs. apart base b c) \<longrightarrow> apart base b (l', r'))"
  using assms(1-3)
proof (induction bs arbitrary: l r bs' l' r')
  case Nil
  then show ?case by (auto simp: blocks_ok_def)
next
  case (Cons b bs)
  obtain lb rb where b: "b = (lb, rb)" by (cases b)
  have ok: "block_ok base wnd (lb, rb)" "\<forall>c \<in> set bs. apart base (lb, rb) c" "blocks_ok base wnd bs"
    using Cons.prems(2) by (simp_all add: b blocks_ok_Cons)
  note touch = touching_iff [OF Cons.prems(3) ok(1) assms(4)]
  show ?case
  proof (cases "apart base (l, r) (lb, rb)")
    case True
    then have n: "\<not> (TCP_CMP_SEQ r lb \<ge> 0 \<and> TCP_CMP_SEQ l rb \<le> 0)" using touch by blast
    obtain rest l2 r2 where m: "merge_blocks bs l r = (rest, l2, r2)" by (metis prod.collapse)
    with n Cons.prems(1) have eq: "bs' = b # rest" "l' = l2" "r' = r2" by (auto simp: b)
    note IH = Cons.IH [OF m ok(3) Cons.prems(3)]
    have "apart base b (l, r)" using True apart_commute b by blast
    moreover have "block_ok base wnd b" and "\<forall>c \<in> set bs. apart base b c" using ok(1,2) b by auto
    ultimately have sep: "apart base b (l', r')" using IH unfolding eq by blast
    have "blocks_ok base wnd ((l', r') # bs')"
      using IH sep ok(1,2) by (auto simp: eq b blocks_ok_Cons apart_commute)
    then show ?thesis using IH by (auto simp: eq)
  next
    case False
    then have t: "TCP_CMP_SEQ r lb \<ge> 0 \<and> TCP_CMP_SEQ l rb \<le> 0" using touch by blast
    have m: "merge_blocks bs (min l lb) (max r rb) = (bs', l', r')"
      using Cons.prems(1) t by (simp add: b)
    note two = merge_two [OF Cons.prems(3) ok(1) False]
    note IH = Cons.IH [OF m ok(3) two(1)]
    have "covers base (l', r') \<subseteq> covers base (l, r) \<union> (\<Union>c \<in> set (b # bs). covers base c)"
      using IH two(2) by (auto simp: b)
    moreover have "\<forall>c. block_ok base wnd c \<and> apart base c (l, r) \<and> (\<forall>d \<in> set (b # bs). apart base c d) \<longrightarrow>
        apart base c (l', r')"
      using IH two(3) by (simp add: b)
    ultimately show ?thesis using IH by auto
  qed
qed

text \<open>
  The list is updated for a new block in the window.  If the result starts at \<open>RCV.NXT\<close>, the blocks that
  remain lie beyond its end.
\<close>

lemma tcpUpdateSackBlocks_ok:
  assumes "tcpUpdateSackBlocks sk l r = (sk', l', r')" and "blocks_ok (rcvNxt sk) wnd (sackBlock sk)"
    and "block_ok (rcvNxt sk) wnd (l, r)" and "wnd < half"
  obtains bs where "sk' = sk\<lparr>sackBlock := bs\<rparr>" and "blocks_ok (rcvNxt sk) wnd bs" and "block_ok (rcvNxt sk) wnd (l', r')"
    and "covers (rcvNxt sk) (l', r') \<subseteq> covers (rcvNxt sk) (l, r) \<union> (\<Union>b \<in> set (sackBlock sk). covers (rcvNxt sk) b)"
    and "(\<Union>b \<in> set bs. covers (rcvNxt sk) b) \<subseteq>
         covers (rcvNxt sk) (l, r) \<union> (\<Union>b \<in> set (sackBlock sk). covers (rcvNxt sk) b)"
    and "l' = rcvNxt sk \<Longrightarrow> \<forall>b \<in> set bs. dist (rcvNxt sk) r' < dist (rcvNxt sk) (fst b)"
    and "set bs \<subseteq> insert (l', r') (set (sackBlock sk))" and "0 < TCP_CMP_SEQ l' (rcvNxt sk) \<longleftrightarrow> l' \<noteq> rcvNxt sk"
proof -
  let ?b = "rcvNxt sk"
  obtain bs1 where m: "merge_blocks (sackBlock sk) l r = (bs1, l', r')"
    and sk': "sk' = sk\<lparr>sackBlock := (if TCP_CMP_SEQ l' ?b > 0 then take TCP_MAX_SACK_BLOCKS ((l', r') # bs1) else bs1)\<rparr>"
    using assms(1) unfolding tcpUpdateSackBlocks_def by (auto split: prod.splits)
  note ok = merge_blocks_ok [OF m assms(2-4)]
  define bs where "bs = (if TCP_CMP_SEQ l' ?b > 0 then take TCP_MAX_SACK_BLOCKS ((l', r') # bs1) else bs1)"
  have wnd: "block_ok ?b wnd (l', r')" using ok by blast
  then have pos: "0 < TCP_CMP_SEQ l' ?b \<longleftrightarrow> l' \<noteq> ?b"
    using assms(4) cmp_pos_iff [of l' ?b ?b] by (auto simp: block_ok_def unat_eq_0 word_neq_0_conv)
  have sub: "set bs \<subseteq> set ((l', r') # bs1)" by (auto simp: bs_def dest: in_set_takeD)
  have "blocks_ok ?b wnd bs"
  proof -
    have "blocks_ok ?b wnd (take n ((l', r') # bs1))" for n
      using ok unfolding blocks_ok_def by (meson in_set_takeD sorted_wrt_take)
    moreover have "blocks_ok ?b wnd bs1" using ok by (simp add: blocks_ok_Cons)
    ultimately show ?thesis unfolding bs_def by (simp only: split: if_split) blast
  qed
  moreover have "\<forall>b \<in> set bs. dist ?b r' < dist ?b (fst b)" if "l' = ?b"
  proof -
    have "bs = bs1" using that pos by (simp add: bs_def)
    moreover have "\<forall>b \<in> set bs1. apart ?b (l', r') b" using ok by (simp add: blocks_ok_Cons)
    ultimately show ?thesis using that by (auto simp: apart_def)
  qed
  moreover have "(\<Union>b \<in> set bs. covers ?b b) \<subseteq> covers ?b (l, r) \<union> (\<Union>b \<in> set (sackBlock sk). covers ?b b)"
    using sub ok by auto
  moreover have "set bs \<subseteq> insert (l', r') (set (sackBlock sk))" using sub ok by auto
  moreover have "sk' = sk\<lparr>sackBlock := bs\<rparr>" using sk' by (simp only: bs_def)
  ultimately show thesis using that [of bs] wnd ok pos by blast
qed

end
