(* ===== verification/TcpNagle.thy ===== *)
theory TcpNagle
  imports TcpSeq
begin

text \<open>
  The loops that send data: they end, send no more than the usable window and no more than the user wrote,
  and move exactly what they send from the one counter to the other.
\<close>

definition sent :: "nat \<Rightarrow> Socket \<Rightarrow> Socket" where
  "sent n sk = sk\<lparr>sndNxt := sndNxt sk + word_of_nat n, sndUser := sndUser sk - word_of_nat n\<rparr>"

lemma same_sent: "same sk' sk \<Longrightarrow> same (sent n sk') (sent n sk)"
  by (simp add: sent_def same_def conn_def snd_side_def rcv_side_def)

lemma sent_sent: "same (sent n (sent m sk)) (sent (m + n) sk)"
  by (simp add: sent_def same_def conn_def snd_side_def rcv_side_def algebra_simps)

lemma sent_0: "same (sent 0 sk) sk"
  by (simp add: sent_def same_def conn_def snd_side_def rcv_side_def)

lemma unat_sent_user: "n \<le> unat (sndUser sk) \<Longrightarrow> unat (sndUser (sent n sk)) = unat (sndUser sk) - n"
  using unat_u16_max [of "sndUser sk"]
  by (simp add: sent_def unat_sub word_le_nat_alt unsigned_of_nat take_bit_nat_eq_self)

lemma route_ok_sent: "route_ok (sent n sk) = route_ok sk"
  by (simp add: route_ok_def socket_pseudo_def sent_def cong: IpAddr.case_cong)

text \<open>What one pass sends.\<close>

definition pass_size :: "Socket \<Rightarrow> u32 \<Rightarrow> u32" where
  "pass_size sk u = min (min u (ucast (sndUser sk))) (ucast (smss sk))"

lemma nagle_size_eq: "nagle_size sk flags u = Some n \<Longrightarrow> n = pass_size sk u"
  by (auto simp: nagle_size_def Let_def pass_size_def split: if_splits)

lemma pass_size_bounds:
  assumes "sndUser sk > 0" and "sint u > 0" and "smss sk \<noteq> 0"
  shows "0 < unat (pass_size sk u)" and "unat (pass_size sk u) \<le> unat (sndUser sk)"
    and "unat (pass_size sk u) \<le> unat u" and "unat (pass_size sk u) \<le> unat (smss sk)"
proof -
  have m: "unat (pass_size sk u) = min (min (unat u) (unat (sndUser sk))) (unat (smss sk))"
    by (auto simp: pass_size_def min_def word_le_nat_alt)
  have "u \<noteq> 0" using assms(2) by auto
  then have "0 < unat u" "0 < unat (sndUser sk)" "0 < unat (smss sk)"
    using assms by (simp_all add: unat_gt_0 word_neq_0_conv)
  with m show "0 < unat (pass_size sk u)" by simp
  from m show "unat (pass_size sk u) \<le> unat (sndUser sk)" "unat (pass_size sk u) \<le> unat u"
    "unat (pass_size sk u) \<le> unat (smss sk)" by simp_all
qed

text \<open>One pass of either loop, and what remains of the window.\<close>

lemma send_pass:
  assumes "route_ok sk" and "txBufferSize sk \<noteq> 0" and "n = pass_size sk u"
  obtains (failed) e sk' w' where
      "tcpSendSegment ops sk fl (sndNxt sk) (rcvNxt sk) n True w = Some (e, sk', w')" and "e \<noteq> NO_ERROR" and "same sk' sk"
    | (done1) sk' w' where
      "tcpSendSegment ops sk fl (sndNxt sk) (rcvNxt sk) n True w = Some (NO_ERROR, sk', w')" and "same sk' sk"
      and "same (sk'\<lparr>sndNxt := sndNxt sk' + n, sndUser := sndUser sk' - ucast n\<rparr>) (sent (unat n) sk)"
proof -
  obtain e sk' w' where s: "tcpSendSegment ops sk fl (sndNxt sk) (rcvNxt sk) n True w = Some (e, sk', w')"
    and same: "same sk' sk"
    using tcpSendSegment_cases [OF assms(1) disjI2 [OF assms(2)]] .
  have "sk'\<lparr>sndNxt := sndNxt sk' + n, sndUser := sndUser sk' - ucast n\<rparr> = sent (unat n) sk'"
    by (simp add: sent_def)
  with same have "same (sk'\<lparr>sndNxt := sndNxt sk' + n, sndUser := sndUser sk' - ucast n\<rparr>) (sent (unat n) sk)"
    by (simp add: same_sent)
  with s same that show ?thesis by blast
qed

text \<open>The loops send at most the usable window and at most what the user wrote.\<close>

lemma window_left:
  assumes "sint (u :: u32) > 0" and "unat n \<le> unat u"
  shows "unat (u - n) = unat u - unat n" and "unat u < half"
proof -
  show "unat (u - n) = unat u - unat n" using assms(2) by (simp add: unat_sub word_le_nat_alt)
  show "unat u < half" using assms(1) sint_nonneg_iff [of u] by simp
qed

lemma nagle_loop_cases:
  assumes "route_ok sk" and "txBufferSize sk \<noteq> 0" and "smss sk \<noteq> 0"
  shows "\<exists>e n sk' w'. nagle_loop ops flags u sk w = Some (e, sk', w') \<and> n \<le> unat (sndUser sk) \<and>
    (sint u > 0 \<and> n \<le> unat u \<or> n = 0) \<and> same sk' (sent n sk)"
  using assms
proof (induction "unat (sndUser sk)" arbitrary: u sk w rule: less_induct)
  case less
  have none: ?case if "nagle_loop ops flags u sk w = Some (e, sk', w')" and "same sk' sk" for e sk' w'
    using that sent_0 [of sk] by (auto simp: same_def intro!: exI [of _ "0 :: nat"])
  show ?case
  proof (cases "sndUser sk > 0 \<and> sint u > 0")
    case False
    have "nagle_loop ops flags u sk w = Some (NO_ERROR, sk, w)"
      by (subst nagle_loop.simps) (rule if_not_P [OF False])
    then show ?thesis by (rule none) simp
  next
    case loop: True
    show ?thesis
    proof (cases "nagle_size sk flags u")
      case None
      with loop have "nagle_loop ops flags u sk w = Some (NO_ERROR, sk, w)" by (subst nagle_loop.simps) simp
      then show ?thesis by (rule none) simp
    next
      case (Some n)
      then have n: "n = pass_size sk u" by (rule nagle_size_eq)
      note b = pass_size_bounds [OF loop [THEN conjunct1] loop [THEN conjunct2] less.prems(3), folded n]
      show ?thesis
      proof (rule send_pass [OF less.prems(1,2) n, of ops "TCP_FLAG_PSH OR TCP_FLAG_ACK" w])
        fix e sk' w'
        assume "tcpSendSegment ops sk (TCP_FLAG_PSH OR TCP_FLAG_ACK) (sndNxt sk) (rcvNxt sk) n True w = Some (e, sk', w')"
          and "e \<noteq> NO_ERROR" and same: "same sk' sk"
        with loop Some have "nagle_loop ops flags u sk w = Some (e, sk', w')" by (subst nagle_loop.simps) simp
        then show ?thesis using same by (rule none)
      next
        fix sk' w'
        assume s: "tcpSendSegment ops sk (TCP_FLAG_PSH OR TCP_FLAG_ACK) (sndNxt sk) (rcvNxt sk) n True w = Some (NO_ERROR, sk', w')"
          and same': "same (sk'\<lparr>sndNxt := sndNxt sk' + n, sndUser := sndUser sk' - ucast n\<rparr>) (sent (unat n) sk)"
        define sk2 where "sk2 = sk'\<lparr>sndNxt := sndNxt sk' + n, sndUser := sndUser sk' - ucast n\<rparr>"
        have eq: "nagle_loop ops flags u sk w = nagle_loop ops flags (u - n) sk2 w'"
          using loop Some s by (subst nagle_loop.simps) (simp add: sk2_def)
        have s2: "same sk2 (sent (unat n) sk)" using same' by (simp only: sk2_def)
        have user: "unat (sndUser sk2) = unat (sndUser sk) - unat n"
          using unat_sent_user [OF b(2)] s2 by (simp add: same_eqs)
        have "route_ok sk2" "txBufferSize sk2 \<noteq> 0" "smss sk2 \<noteq> 0"
        proof -
          show "route_ok sk2" using less.prems(1) route_ok_same [OF s2] by (simp only: route_ok_sent)
          show "txBufferSize sk2 \<noteq> 0" "smss sk2 \<noteq> 0" using less.prems s2 by (simp_all add: same_eqs sent_def)
        qed
        with user b less.hyps [of sk2 "u - n" w'] obtain e m sk3 w3 where
          r: "nagle_loop ops flags (u - n) sk2 w' = Some (e, sk3, w3)" "m \<le> unat (sndUser sk2)"
            "sint (u - n) > 0 \<and> m \<le> unat (u - n) \<or> m = 0" "same sk3 (sent m sk2)" by auto
        have "same sk3 (sent (unat n + m) sk)"
          using r(4) same_sent [OF s2] sent_sent same_trans by blast
        moreover have "unat n + m \<le> unat u"
          using r(3) b(3) window_left(1) [OF loop [THEN conjunct2] b(3)] by auto
        ultimately show ?thesis using eq r(1,2) user b(2) loop by (intro exI [of _ e] exI [of _ "unat n + m"] exI) auto
      qed
    qed
  qed
qed

text \<open>The loop of the override timer is that of the Nagle algorithm with \<open>SOCKET_FLAG_NO_DELAY\<close>.\<close>

lemma nagle_size_no_delay:
  assumes "sndUser sk > 0" and "sint u > 0" and "smss sk \<noteq> 0"
  shows "nagle_size sk SOCKET_FLAG_NO_DELAY u = Some (pass_size sk u)"
  using pass_size_bounds(1) [OF assms] by (simp add: nagle_size_def Let_def pass_size_def unat_gt_0 word_neq_0_conv)

lemma override_loop_eq:
  assumes "route_ok sk" and "txBufferSize sk \<noteq> 0" and "smss sk \<noteq> 0"
  shows "override_loop ops u sk w = map_option snd (nagle_loop ops SOCKET_FLAG_NO_DELAY u sk w)"
  using assms
proof (induction "unat (sndUser sk)" arbitrary: u sk w rule: less_induct)
  case less
  show ?case
  proof (cases "sndUser sk > 0 \<and> sint u > 0")
    case False
    have "override_loop ops u sk w = Some (sk, w)" by (subst override_loop.simps) (rule if_not_P [OF False])
    moreover have "nagle_loop ops SOCKET_FLAG_NO_DELAY u sk w = Some (NO_ERROR, sk, w)"
      by (subst nagle_loop.simps) (rule if_not_P [OF False])
    ultimately show ?thesis by simp
  next
    case loop: True
    define n where "n = pass_size sk u"
    note size = nagle_size_no_delay [OF loop [THEN conjunct1] loop [THEN conjunct2] less.prems(3), folded n_def]
    note b = pass_size_bounds [OF loop [THEN conjunct1] loop [THEN conjunct2] less.prems(3), folded n_def]
    show ?thesis
    proof (rule send_pass [OF less.prems(1,2) n_def, of ops "TCP_FLAG_PSH OR TCP_FLAG_ACK" w])
      fix e sk' w'
      assume "tcpSendSegment ops sk (TCP_FLAG_PSH OR TCP_FLAG_ACK) (sndNxt sk) (rcvNxt sk) n True w = Some (e, sk', w')"
        and "e \<noteq> NO_ERROR"
      with loop size show ?thesis
        by (subst override_loop.simps, subst nagle_loop.simps) (simp add: n_def pass_size_def Let_def)
    next
      fix sk' w'
      assume s: "tcpSendSegment ops sk (TCP_FLAG_PSH OR TCP_FLAG_ACK) (sndNxt sk) (rcvNxt sk) n True w = Some (NO_ERROR, sk', w')"
        and same': "same (sk'\<lparr>sndNxt := sndNxt sk' + n, sndUser := sndUser sk' - ucast n\<rparr>) (sent (unat n) sk)"
      define sk2 where "sk2 = sk'\<lparr>sndNxt := sndNxt sk' + n, sndUser := sndUser sk' - ucast n\<rparr>"
      have s2: "same sk2 (sent (unat n) sk)" using same' by (simp only: sk2_def)
      have "unat (sndUser sk2) < unat (sndUser sk)"
        using unat_sent_user [OF b(2)] s2 b(1,2) by (simp add: same_eqs)
      moreover have "route_ok sk2" using less.prems(1) route_ok_same [OF s2] by (simp only: route_ok_sent)
      moreover have "txBufferSize sk2 \<noteq> 0" "smss sk2 \<noteq> 0" using less.prems s2 by (simp_all add: same_eqs sent_def)
      ultimately have IH: "override_loop ops (u - n) sk2 w' = map_option snd (nagle_loop ops SOCKET_FLAG_NO_DELAY (u - n) sk2 w')"
        by (rule less.hyps)
      have "override_loop ops u sk w = override_loop ops (u - n) sk2 w'"
        using loop s by (subst override_loop.simps) (simp add: sk2_def n_def pass_size_def Let_def)
      moreover have "nagle_loop ops SOCKET_FLAG_NO_DELAY u sk w = nagle_loop ops SOCKET_FLAG_NO_DELAY (u - n) sk2 w'"
        using loop s size by (subst nagle_loop.simps) (simp add: sk2_def)
      ultimately show ?thesis using IH by simp
    qed
  qed
qed

end
