(* ===== verification/TcpInv.thy ===== *)
theory TcpInv
  imports TcpNagle
begin

text \<open>
  The invariant of a socket: what was sent and not acknowledged, with what waits to be sent, fits the send
  buffer; what was received and not read, with the window offered, fits the receive buffer; the blocks received
  out of order lie in the window.
\<close>

abbreviation flight :: "Socket \<Rightarrow> nat" where
  "flight sk \<equiv> dist (sndUna sk) (sndNxt sk)"

text \<open>Both buffers have a size the socket layer admits.\<close>

definition sizes_ok :: "Socket \<Rightarrow> bool" where
  "sizes_ok sk \<longleftrightarrow> 0 < unat (txBufferSize sk) \<and> unat (txBufferSize sk) \<le> 22880 \<and>
     0 < unat (rxBufferSize sk) \<and> unat (rxBufferSize sk) \<le> 22880"

text \<open>The states in which no FIN has been sent: only then may the user still write.\<close>

definition sending :: "TcpState \<Rightarrow> bool" where
  "sending st \<longleftrightarrow> st \<in> {TCP_STATE_SYN_SENT, TCP_STATE_SYN_RECEIVED, TCP_STATE_ESTABLISHED, TCP_STATE_CLOSE_WAIT}"

text \<open>The states in which the data of a segment is taken.\<close>

definition receiving :: "TcpState \<Rightarrow> bool" where
  "receiving st \<longleftrightarrow> st \<in> {TCP_STATE_ESTABLISHED, TCP_STATE_FIN_WAIT_1, TCP_STATE_FIN_WAIT_2}"

definition snd_ok :: "Socket \<Rightarrow> bool" where
  "snd_ok sk \<longleftrightarrow> 64 \<le> unat (smss sk) \<and> unat (smss sk) \<le> 1430 \<and>
     flight sk + unat (sndUser sk) \<le> unat (txBufferSize sk) + (if sending (sk_state sk) then 0 else 1) \<and>
     (sk_state sk = TCP_STATE_SYN_SENT \<longrightarrow> sndUna sk = iss sk \<and> sndNxt sk = iss sk + 1)"

definition sack_ok :: "Socket \<Rightarrow> bool" where
  "sack_ok sk \<longleftrightarrow>
     (sk_state sk \<in> {TCP_STATE_SYN_SENT, TCP_STATE_SYN_RECEIVED} \<longrightarrow> sackBlock sk = []) \<and>
     (receiving (sk_state sk) \<longrightarrow>
        blocks_ok (rcvNxt sk) (unat (rcvWnd sk)) (sackBlock sk) \<and> (\<forall>b \<in> set (sackBlock sk). fst b \<noteq> rcvNxt sk))"

definition rcv_ok :: "Socket \<Rightarrow> bool" where
  "rcv_ok sk \<longleftrightarrow> unat (rcvUser sk) + unat (rcvWnd sk) \<le> unat (rxBufferSize sk)"

text \<open>A socket that has, or had and closed in order, a connection.\<close>

definition connected :: "Socket \<Rightarrow> bool" where
  "connected sk \<longleftrightarrow> sk_state sk \<noteq> TCP_STATE_CLOSED \<and> sk_state sk \<noteq> TCP_STATE_LISTEN \<or> closedFlag sk"

text \<open>The queue of connection requests: bounded, and its segment sizes are between the limits of the stack.\<close>

fun same_family :: "IpAddr \<Rightarrow> IpAddr \<Rightarrow> bool" where
  "same_family (Ipv4Addr a) (Ipv4Addr b) = True"
| "same_family (Ipv6Addr a) (Ipv6Addr b) = True"
| "same_family a b = False"

definition syn_item_ok :: "TcpSynQueueItem \<Rightarrow> bool" where
  "syn_item_ok item \<longleftrightarrow> 64 \<le> unat (syn_mss item) \<and> unat (syn_mss item) \<le> 1430 \<and>
     same_family (syn_srcAddr item) (syn_destAddr item)"

definition listen_ok :: "Socket \<Rightarrow> bool" where
  "listen_ok sk \<longleftrightarrow> (sk_state sk = TCP_STATE_LISTEN \<longrightarrow>
     route_ok sk \<and> 1 \<le> unat (synQueueSize sk) \<and> unat (synQueueSize sk) \<le> 16 \<and> length (synQueue sk) \<le> unat (synQueueSize sk) \<and>
     (\<forall>item \<in> set (synQueue sk). syn_item_ok item))"

definition tcp_inv :: "Socket \<Rightarrow> bool" where
  "tcp_inv sk \<longleftrightarrow> sizes_ok sk \<and> listen_ok sk \<and>
     (connected sk \<longrightarrow> route_ok sk \<and> snd_ok sk \<and> rcv_ok sk \<and> sack_ok sk)"

lemmas tcp_inv_defs = tcp_inv_def sizes_ok_def listen_ok_def connected_def snd_ok_def rcv_ok_def sack_ok_def

lemma tcp_inv_same: "same sk' sk \<Longrightarrow> tcp_inv sk' = tcp_inv sk"
  using route_ok_same [of sk' sk] by (simp add: tcp_inv_defs same_eqs)

text \<open>What the buffers hold does not matter.\<close>

lemma tcp_inv_buffers: "tcp_inv (sk\<lparr>txBuffer := b\<rparr>) = tcp_inv sk" "tcp_inv (sk\<lparr>rxBuffer := b\<rparr>) = tcp_inv sk"
  by (simp_all add: tcp_inv_defs route_ok_def socket_pseudo_def cong: IpAddr.case_cong)

lemma connected_same: "same sk' sk \<Longrightarrow> connected sk' = connected sk"
  by (simp add: connected_def same_eqs)

lemma tcp_invD:
  assumes "tcp_inv sk"
  shows "sizes_ok sk" and "txBufferSize sk \<noteq> 0" and "rxBufferSize sk \<noteq> 0"
    and "connected sk \<Longrightarrow> route_ok sk" and "connected sk \<Longrightarrow> snd_ok sk" and "connected sk \<Longrightarrow> rcv_ok sk"
    and "connected sk \<Longrightarrow> sack_ok sk" and "connected sk \<Longrightarrow> smss sk \<noteq> 0"
  using assms by (auto simp: tcp_inv_def sizes_ok_def snd_ok_def)

subsection \<open>Changing the state\<close>

text \<open>The state may change to any that asks no more of the counters.\<close>

lemma to_state_simps [simp]:
  "sk_state (to_state st sk) = st" "sndUna (to_state st sk) = sndUna sk" "sndNxt (to_state st sk) = sndNxt sk"
  "sndUser (to_state st sk) = sndUser sk" "smss (to_state st sk) = smss sk" "txBufferSize (to_state st sk) = txBufferSize sk"
  "rcvNxt (to_state st sk) = rcvNxt sk" "rcvUser (to_state st sk) = rcvUser sk" "rcvWnd (to_state st sk) = rcvWnd sk"
  "rxBufferSize (to_state st sk) = rxBufferSize sk" "sackBlock (to_state st sk) = sackBlock sk"
  "localIpAddr (to_state st sk) = localIpAddr sk" "remoteIpAddr (to_state st sk) = remoteIpAddr sk"
  "synQueue (to_state st sk) = synQueue sk" "synQueueSize (to_state st sk) = synQueueSize sk" "sk_type (to_state st sk) = sk_type sk"
  "iss (to_state st sk) = iss sk" "rcvNxt (to_state st sk) = rcvNxt sk"
  by (simp_all add: to_state_def)

lemma route_ok_to_state [simp]: "route_ok (to_state st sk) = route_ok sk"
  by (simp add: route_ok_def socket_pseudo_def cong: IpAddr.case_cong)

lemma closedFlag_to_state:
  "closedFlag (to_state st sk) \<longleftrightarrow> closedFlag sk \<or>
     st = TCP_STATE_CLOSED \<and> (sk_state sk = TCP_STATE_LAST_ACK \<or> sk_state sk = TCP_STATE_TIME_WAIT)"
  by (auto simp: to_state_def)

text \<open>The states a connection may go to without new data: those of the diagram that are entered without a SYN.\<close>

definition next_ok :: "TcpState \<Rightarrow> TcpState \<Rightarrow> bool" where
  "next_ok st st' \<longleftrightarrow> st' \<noteq> TCP_STATE_LISTEN \<and> st' \<noteq> TCP_STATE_SYN_SENT \<and> st' \<noteq> TCP_STATE_SYN_RECEIVED \<and>
     (sending st' \<longrightarrow> sending st) \<and> (receiving st' \<longrightarrow> receiving st)"

lemma to_state_ok [simp]:
  "sizes_ok (to_state st sk) = sizes_ok sk" "rcv_ok (to_state st sk) = rcv_ok sk"
  "st \<noteq> TCP_STATE_LISTEN \<Longrightarrow> listen_ok (to_state st sk)"
  by (simp_all add: sizes_ok_def rcv_ok_def listen_ok_def)

lemma tcp_inv_to_state:
  assumes inv: "tcp_inv sk" and c: "connected sk" and n: "next_ok (sk_state sk) st"
  shows "tcp_inv (to_state st sk)"
proof -
  have "snd_ok (to_state st sk)" using tcp_invD(5) [OF inv c] n by (simp add: snd_ok_def next_ok_def split: if_splits)
  moreover have "sack_ok (to_state st sk)" using tcp_invD(7) [OF inv c] n by (simp add: sack_ok_def next_ok_def)
  ultimately show ?thesis
    using tcp_invD [OF inv] c n unfolding tcp_inv_def by (simp add: next_ok_def)
qed

text \<open>From SYN-SENT and SYN-RECEIVED to ESTABLISHED: nothing is queued out of order yet.\<close>

lemma tcp_inv_established:
  assumes inv: "tcp_inv sk" and st: "sk_state sk = TCP_STATE_SYN_SENT \<or> sk_state sk = TCP_STATE_SYN_RECEIVED"
  shows "tcp_inv (to_state TCP_STATE_ESTABLISHED sk)"
proof -
  have c: "connected sk" using st by (auto simp: connected_def)
  have "snd_ok (to_state TCP_STATE_ESTABLISHED sk)"
    using tcp_invD(5) [OF inv c] st by (auto simp: snd_ok_def sending_def)
  moreover have "sack_ok (to_state TCP_STATE_ESTABLISHED sk)"
    using tcp_invD(7) [OF inv c] st by (auto simp: sack_ok_def blocks_ok_def)
  ultimately show ?thesis using tcp_invD [OF inv] c unfolding tcp_inv_def by simp
qed

subsection \<open>Acknowledgments and sending\<close>

lemma tcp_inv_acked:
  assumes "tcp_inv sk" and "connected sk" and "ack_range sk ack" and "sk_state sk \<noteq> TCP_STATE_SYN_SENT"
  shows "tcp_inv (sk\<lparr>sndUna := ack\<rparr>)" and "dist ack (sndNxt sk) < flight sk"
proof -
  have f: "flight sk \<le> 22881" and o: "snd_ok sk"
    using tcp_invD(1,5) [OF assms(1)] assms(2) by (auto simp: snd_ok_def sizes_ok_def split: if_splits)
  define a where "a = dist (sndUna sk) ack"
  have d0: "dist (sndUna sk) (sndUna sk) = 0" by simp
  have pos: "0 < a" and le: "a \<le> flight sk"
  proof -
    have r: "TCP_CMP_SEQ ack (sndUna sk) > 0" "\<not> TCP_CMP_SEQ ack (sndNxt sk) > 0"
      using assms(3) by (auto simp: ack_range_def)
    have "a < half"
    proof -
      have "0 \<le> TCP_CMP_SEQ ack (sndUna sk)" using r(1) by linarith
      then show ?thesis by (simp add: a_def TCP_CMP_SEQ_def sint_nonneg_iff)
    qed
    then show "0 < a" "a \<le> flight sk"
      using r f cmp_pos_iff [of ack "sndUna sk" "sndUna sk"] cmp_pos_iff [of ack "sndUna sk" "sndNxt sk"] d0
      unfolding a_def by linarith+
  qed
  have new: "dist ack (sndNxt sk) = flight sk - a"
    using dist_diff [where base = "sndUna sk" and y = ack and x = "sndNxt sk"] le by (simp add: a_def)
  then show "dist ack (sndNxt sk) < flight sk" using pos le by linarith
  have "snd_ok (sk\<lparr>sndUna := ack\<rparr>)" using o new assms(4) by (auto simp: snd_ok_def split: if_splits)
  moreover have r: "route_ok (sk\<lparr>sndUna := ack\<rparr>) = route_ok sk"
    by (simp add: route_ok_def socket_pseudo_def cong: IpAddr.case_cong)
  moreover have "sizes_ok (sk\<lparr>sndUna := ack\<rparr>) = sizes_ok sk" "listen_ok (sk\<lparr>sndUna := ack\<rparr>) = listen_ok sk"
    "rcv_ok (sk\<lparr>sndUna := ack\<rparr>) = rcv_ok sk" "sack_ok (sk\<lparr>sndUna := ack\<rparr>) = sack_ok sk"
    by (simp_all add: sizes_ok_def listen_ok_def rcv_ok_def sack_ok_def r)
  ultimately show "tcp_inv (sk\<lparr>sndUna := ack\<rparr>)"
    using assms(1,2) tcp_invD [OF assms(1)] unfolding tcp_inv_def by simp
qed

lemma flight_sent:
  assumes "flight sk + n < 4294967296"
  shows "flight (sent n sk) = flight sk + n"
  using dist_add [OF assms] by (simp add: sent_def)

lemma tcp_inv_sent:
  assumes "tcp_inv sk" and "connected sk" and "n \<le> unat (sndUser sk)" and "sk_state sk \<noteq> TCP_STATE_SYN_SENT"
  shows "tcp_inv (sent n sk)"
proof -
  have o: "snd_ok sk" and s: "sizes_ok sk" using tcp_invD [OF assms(1)] assms(2) by auto
  have b: "flight sk + unat (sndUser sk) \<le> 22881" using o s by (auto simp: snd_ok_def sizes_ok_def split: if_splits)
  then have "flight (sent n sk) = flight sk + n" using assms(3) by (intro flight_sent) linarith
  moreover have "unat (sndUser (sent n sk)) = unat (sndUser sk) - n" using assms(3) by (rule unat_sent_user)
  moreover have "sk_state (sent n sk) = sk_state sk" "smss (sent n sk) = smss sk" "txBufferSize (sent n sk) = txBufferSize sk"
    by (simp_all add: sent_def)
  ultimately have "snd_ok (sent n sk)" using o assms(3,4) by (simp add: snd_ok_def)
  moreover have "sizes_ok (sent n sk) = sizes_ok sk" "listen_ok (sent n sk) = listen_ok sk" "rcv_ok (sent n sk) = rcv_ok sk"
    "sack_ok (sent n sk) = sack_ok sk"
    using route_ok_sent [of n sk] by (simp_all add: sizes_ok_def listen_ok_def rcv_ok_def sack_ok_def sent_def)
  ultimately show ?thesis
    using assms(1,2) tcp_invD [OF assms(1)] unfolding tcp_inv_def route_ok_sent by simp
qed

text \<open>Any socket may be closed.\<close>

lemma tcp_inv_closed:
  assumes "tcp_inv sk"
  shows "tcp_inv (to_state TCP_STATE_CLOSED sk)"
proof (cases "connected sk")
  case True
  then show ?thesis
    by (rule tcp_inv_to_state [OF assms]) (simp add: next_ok_def sending_def receiving_def)
next
  case False
  then have "\<not> connected (to_state TCP_STATE_CLOSED sk)" by (auto simp: connected_def closedFlag_to_state)
  then show ?thesis using assms by (simp add: tcp_inv_def)
qed

end
