(* ===== verification/TcpData.thy ===== *)
theory TcpData
  imports TcpInv
begin

text \<open>
  The data of a segment: the part that falls in the window goes to the receive buffer, the counters move by
  what is now contiguous, and the window shrinks by as much as the unread data grows.
\<close>

subsection \<open>Clipping\<close>

lemma dist_last:
  assumes "dist base (x + word_of_nat n - 1) = e" and "0 < n" and "n \<le> 65535" and "e \<le> 65535"
  shows "n \<le> e + 1 \<Longrightarrow> dist base x = e + 1 - n" and "e + 1 < n \<Longrightarrow> dist base x \<ge> half"
    and "e + 1 < n \<Longrightarrow> unat (base - x) = n - (e + 1)"
proof -
  have "word_of_nat e = (x + word_of_nat n - 1 - base)" unfolding assms(1) [symmetric] by simp
  then have eq: "x - base = word_of_nat (e + 1) - word_of_nat n" by simp
  have u: "unat (word_of_nat (e + 1) :: u32) = e + 1" "unat (word_of_nat n :: u32) = n"
    using assms(3,4) by (simp_all only: unat_of_nat_u32)
  show "dist base x = e + 1 - n" if "n \<le> e + 1"
    unfolding eq using u that by (subst unat_sub) (simp_all only: word_le_nat_alt)
  show "dist base x \<ge> half" if "e + 1 < n"
  proof -
    have "unat (word_of_nat (e + 1) - word_of_nat n :: u32) = e + 1 + 4294967296 - n"
      using unat_sub_wrap [of "word_of_nat (e + 1)" "word_of_nat n"] u that by (simp only:)
    then show ?thesis unfolding eq using assms(3) by linarith
  qed
  have "base - x = word_of_nat n - word_of_nat (e + 1)" using eq by (metis minus_diff_eq)
  then show "unat (base - x) = n - (e + 1)" if "e + 1 < n"
    using u that by (simp only: unat_sub word_le_nat_alt)
qed

lemma clip_ok:
  assumes acc: "seq_acceptable sk segment len" and len: "0 < unat len" "unat len \<le> 65535"
    and clip: "clip_segment sk (th_seqNum segment) len = (offset, l, r)"
  shows "block_ok (rcvNxt sk) (unat (rcvWnd sk)) (l, r)" and "dist (rcvNxt sk) l < dist (rcvNxt sk) r"
    and "offset + unat (r - l) \<le> unat len" and "l = th_seqNum segment + word_of_nat offset"
proof -
  define base wnd s where "base = rcvNxt sk" and "wnd = unat (rcvWnd sk)" and "s = dist base (th_seqNum segment)"
  define seqNum where "seqNum = th_seqNum segment"
  have w: "wnd \<le> 65535" unfolding wnd_def by (rule unat_u16_max)
  have sd: "s = dist base seqNum" by (simp add: s_def seqNum_def)
  have d0: "dist base base = 0" and dw: "dist base (base + ucast (rcvWnd sk)) = wnd" by (simp_all add: wnd_def)
  have acc': "wnd \<noteq> 0 \<and> (s < wnd \<or> dist base (seqNum + word_of_nat (unat len) - 1) < wnd)"
    using acc len(1) unfolding seq_acceptable_eq rfc793_acceptable_def by (auto simp: base_def wnd_def s_def seqNum_def)
  obtain k where k: "clip_segment sk (th_seqNum segment) len = (offset, l, r)"
    "k = dist base l" "l = seqNum + word_of_nat offset" "k < wnd" "offset < unat len"
    "dist base (seqNum + len) = k + (unat len - offset)"
  proof (cases "s < wnd")
    case True
    then have "\<not> TCP_CMP_SEQ seqNum base < 0"
      using w d0 cmp_neg_iff [of seqNum base base] unfolding sd by auto
    then have "offset = 0" "l = seqNum" using clip by (auto simp: clip_segment_def Let_def base_def seqNum_def)
    moreover have "dist base (seqNum + len) = s + unat len"
      using dist_add [where base = base and x = seqNum and n = "unat len"] True w len by (simp add: sd)
    ultimately show ?thesis using that [of s] clip True len sd by simp
  next
    case False
    define e where "e = dist base (seqNum + word_of_nat (unat len) - 1)"
    have e: "e < wnd" using acc' False by (simp add: e_def)
    have le: "e \<le> 65535" using e w by linarith
    note last = dist_last [OF e_def [symmetric] len le]
    have lt: "e + 1 < unat len"
    proof (rule ccontr)
      assume "\<not> e + 1 < unat len"
      then have "s = e + 1 - unat len" using last(1) sd by simp
      then show False using False e len(1) by linarith
    qed
    have "\<not> 0 \<le> TCP_CMP_SEQ seqNum base"
      using last(2) [OF lt] unfolding TCP_CMP_SEQ_def sint_nonneg_iff by linarith
    then have o: "offset = unat (base - seqNum)" "l = base" using clip by (auto simp: clip_segment_def Let_def base_def seqNum_def)
    have off: "offset = unat len - (e + 1)" unfolding o(1) by (rule last(3) [OF lt])
    have "seqNum + len = base + word_of_nat (e + 1)"
    proof -
      have "word_of_nat e = seqNum + word_of_nat (unat len) - 1 - base" unfolding e_def by simp
      then show ?thesis by simp
    qed
    then have "dist base (seqNum + len) = e + 1"
      using dist_add [where base = base and x = base and n = "e + 1"] e w d0 by (simp only:)
    moreover have "l = seqNum + word_of_nat offset" by (simp add: o)
    ultimately show ?thesis using that [of 0] clip lt off e o(2) d0 by simp
  qed
  have fits: "k + (unat len - offset) < half" and kw: "k < half" using k w len by linarith+
  have dr: "dist base r = min wnd (k + (unat len - offset))"
  proof -
    have r: "r = (if TCP_CMP_SEQ (seqNum + len) (base + ucast (rcvWnd sk)) > 0 then base + ucast (rcvWnd sk) else seqNum + len)"
      using clip by (auto simp: clip_segment_def Let_def base_def seqNum_def split: if_splits)
    have "TCP_CMP_SEQ (seqNum + len) (base + ucast (rcvWnd sk)) > 0 \<longleftrightarrow> wnd < k + (unat len - offset)"
      using cmp_pos_iff [of "seqNum + len" base "base + ucast (rcvWnd sk)"] fits w dw k(6) by linarith
    then show ?thesis using dw k(6) unfolding r by (simp split: if_split)
  qed
  have lt: "k < dist base r" and le: "dist base r \<le> wnd" using dr k(4,5) by linarith+
  show "block_ok (rcvNxt sk) (unat (rcvWnd sk)) (l, r)"
    using lt le k(2) by (simp add: block_ok_def base_def wnd_def)
  show "dist (rcvNxt sk) l < dist (rcvNxt sk) r" using lt k(2) by (simp add: base_def)
  have "unat (r - l) = dist base r - k"
    using dist_diff [where base = base and y = l and x = r] lt k(2) by linarith
  then show "offset + unat (r - l) \<le> unat len" using dr k(5) by linarith
  show "l = th_seqNum segment + word_of_nat offset" using k(3) by (simp add: seqNum_def)
qed

subsection \<open>The receive buffer\<close>

lemma length_buf_write: "length (buf_write b off vs) = length b"
proof (cases "off \<le> length b")
  case True
  then show ?thesis by (simp add: buf_write_def length_blit)
next
  case False
  then show ?thesis by (simp add: buf_write_def length_blit)
qed

lemma length_buf_copy: "length (buf_copy b off src srcOff n) = length b"
  by (simp add: buf_copy_def length_buf_write)

lemma tcpWriteRxBuffer_cases:
  assumes "rxBufferSize sk \<noteq> 0"
  obtains b where "tcpWriteRxBuffer sk seqNum data off len = Some (sk\<lparr>rxBuffer := b\<rparr>)" and "length b = length (rxBuffer sk)"
proof (cases "ring_offset seqNum (irs sk) (rxBufferSize sk)")
  case None
  then show ?thesis using assms by (simp add: ring_offset_def)
next
  case (Some offset)
  show ?thesis
  proof (cases "offset + len \<le> unat (rxBufferSize sk)")
    case True
    then have "tcpWriteRxBuffer sk seqNum data off len = Some (sk\<lparr>rxBuffer := buf_copy (rxBuffer sk) offset data off len\<rparr>)"
      by (simp add: tcpWriteRxBuffer_def Some)
    then show ?thesis by (rule that) (simp add: length_buf_copy)
  next
    case False
    let ?n = "unat (rxBufferSize sk)"
    have "tcpWriteRxBuffer sk seqNum data off len =
        Some (sk\<lparr>rxBuffer := buf_copy (buf_copy (rxBuffer sk) offset data off (?n - offset)) 0
                 data (off + ?n - offset) (len + offset - ?n)\<rparr>)"
      using False by (simp add: tcpWriteRxBuffer_def Some Let_def)
    then show ?thesis by (rule that) (simp add: length_buf_copy)
  qed
qed

subsection \<open>Contiguous data\<close>

text \<open>\<open>n\<close> more bytes of data are contiguous: they are for the user and no longer in the window.\<close>

definition arrived :: "u32 \<Rightarrow> Socket \<Rightarrow> Socket" where
  "arrived n sk = sk\<lparr>rcvNxt := rcvNxt sk + n, rcvUser := rcvUser sk + ucast n, rcvWnd := rcvWnd sk - ucast n\<rparr>"

lemma unat_ucast_u32_u16: "unat n \<le> 65535 \<Longrightarrow> unat (ucast (n :: u32) :: u16) = unat n"
  by (simp add: unsigned_ucast_eq take_bit_nat_eq_self)

lemma arrived_counters:
  assumes "rcv_ok sk" and "sizes_ok sk" and "unat n \<le> unat (rcvWnd sk)"
  shows "unat (rcvUser (arrived n sk)) = unat (rcvUser sk) + unat n"
    and "unat (rcvWnd (arrived n sk)) = unat (rcvWnd sk) - unat n"
proof -
  have s: "unat (rcvUser sk) + unat (rcvWnd sk) \<le> 22880" using assms(1,2) by (simp add: rcv_ok_def sizes_ok_def)
  define m :: u16 where "m = ucast n"
  have m: "unat m = unat n" using s assms(3) by (auto simp: m_def unat_ucast_u32_u16)
  have "unat (rcvUser sk + m) = unat (rcvUser sk) + unat m"
    using s assms(3) m by (subst unat_add_lem [THEN iffD1]) simp_all
  moreover have "unat (rcvWnd sk - m) = unat (rcvWnd sk) - unat m"
    using assms(3) m by (simp add: unat_sub word_le_nat_alt)
  ultimately show "unat (rcvUser (arrived n sk)) = unat (rcvUser sk) + unat n"
    and "unat (rcvWnd (arrived n sk)) = unat (rcvWnd sk) - unat n"
    by (simp_all add: arrived_def m_def [symmetric] m)
qed

text \<open>The blocks beyond the new \<open>RCV.NXT\<close> stay in order when the base moves to it.\<close>

lemma blocks_ok_shift:
  assumes "blocks_ok base wnd bs" and "\<forall>b \<in> set bs. dist base x < dist base (fst b)"
  shows "blocks_ok x (wnd - dist base x) bs" and "\<forall>b \<in> set bs. fst b \<noteq> x"
proof -
  have d: "dist x (fst b) = dist base (fst b) - dist base x \<and> dist x (snd b) = dist base (snd b) - dist base x \<and>
      dist base x < dist base (fst b) \<and> dist base (fst b) \<le> dist base (snd b) \<and> dist base (snd b) \<le> wnd"
    if "b \<in> set bs" for b
  proof -
    have "block_ok base wnd b" and "dist base x < dist base (fst b)" using that assms by (auto simp: blocks_ok_def)
    then show ?thesis
      using dist_diff [where base = base and y = x and x = "fst b"] dist_diff [where base = base and y = x and x = "snd b"]
      by (cases b) (auto simp: block_ok_def)
  qed
  have "block_ok x (wnd - dist base x) b" if "b \<in> set bs" for b
    using d [OF that] by (cases b) (auto simp: block_ok_def)
  moreover have "sorted_wrt (apart x) bs"
  proof (rule sorted_wrt_mono_rel)
    show "sorted_wrt (apart base) bs" using assms(1) by (simp add: blocks_ok_def)
    fix b c assume "b \<in> set bs" and "c \<in> set bs" and "apart base b c"
    then show "apart x b c" using d [of b] d [of c] by (cases b; cases c) (auto simp: apart_def)
  qed
  ultimately show "blocks_ok x (wnd - dist base x) bs" by (simp add: blocks_ok_def)
  show "\<forall>b \<in> set bs. fst b \<noteq> x" using d by fastforce
qed

lemma tcp_inv_arrived:
  assumes inv: "tcp_inv sk" and st: "receiving (sk_state sk)"
    and n: "unat n \<le> unat (rcvWnd sk)" and bs: "blocks_ok (rcvNxt sk) (unat (rcvWnd sk)) bs"
    and after: "\<forall>b \<in> set bs. unat n < dist (rcvNxt sk) (fst b)"
  shows "tcp_inv (arrived n (sk\<lparr>sackBlock := bs\<rparr>))"
proof -
  let ?sk = "sk\<lparr>sackBlock := bs\<rparr>"
  have c: "connected sk" using st by (auto simp: connected_def receiving_def)
  note ok = tcp_invD [OF inv]
  have rcv: "rcv_ok ?sk" "sizes_ok ?sk" using ok(1) ok(6) [OF c] by (simp_all add: rcv_ok_def sizes_ok_def)
  note cnt = arrived_counters [OF rcv, of n]
  have d: "dist (rcvNxt sk) (rcvNxt sk + n) = unat n" by simp
  have "rcv_ok (arrived n ?sk)"
    using rcv(1) cnt n by (simp add: rcv_ok_def) (simp add: arrived_def)
  moreover have "sack_ok (arrived n ?sk)"
    using blocks_ok_shift [OF bs, of "rcvNxt sk + n"] after d cnt(2) n st
    by (auto simp: sack_ok_def arrived_def receiving_def)
  moreover have "sizes_ok (arrived n ?sk)" "listen_ok (arrived n ?sk)" "snd_ok (arrived n ?sk)" "route_ok (arrived n ?sk)"
    using ok(1) ok(4,5) [OF c] inv
    by (simp_all add: sizes_ok_def listen_ok_def snd_ok_def arrived_def tcp_inv_def route_ok_def socket_pseudo_def
        cong: IpAddr.case_cong)
  ultimately show ?thesis by (simp add: tcp_inv_def)
qed

subsection \<open>Processing the data\<close>

text \<open>
  A segment with data that passed the test of its sequence number: the invariant and the sending side are kept,
  and \<open>RCV.NXT\<close> and the counters move together.
\<close>

lemma tcpProcessSegmentData_ok:
  assumes inv: "tcp_inv sk" and st: "receiving (sk_state sk)"
    and acc: "seq_acceptable sk segment len" and len: "0 < unat len" "unat len \<le> 65535"
  obtains sk' w' where "tcpProcessSegmentData ops sk segment data len w = Some (sk', w')" and "tcp_inv sk'"
    and "conn sk' = conn sk" and "snd_side sk' = snd_side sk"
proof -
  have c: "connected sk" using st by (auto simp: connected_def receiving_def)
  note ok = tcp_invD [OF inv]
  obtain offset l r where clip: "clip_segment sk (th_seqNum segment) len = (offset, l, r)" by (metis prod.collapse)
  note cl = clip_ok [OF acc len clip]
  obtain b where wr: "tcpWriteRxBuffer sk l data offset (unat (r - l)) = Some (sk\<lparr>rxBuffer := b\<rparr>)"
    and lb: "length b = length (rxBuffer sk)"
    using tcpWriteRxBuffer_cases [OF ok(3)] .
  define sk1 where "sk1 = sk\<lparr>rxBuffer := b\<rparr>"
  have inv1: "tcp_inv sk1" using inv by (simp add: sk1_def tcp_inv_buffers)
  have s1: "rcvNxt sk1 = rcvNxt sk" "rcvWnd sk1 = rcvWnd sk" "sackBlock sk1 = sackBlock sk" "sk_state sk1 = sk_state sk"
    by (simp_all add: sk1_def)
  obtain sk2 l2 r2 where up: "tcpUpdateSackBlocks sk1 l r = (sk2, l2, r2)" by (metis prod.collapse)
  have sack: "blocks_ok (rcvNxt sk) (unat (rcvWnd sk)) (sackBlock sk)" "\<forall>b \<in> set (sackBlock sk). fst b \<noteq> rcvNxt sk"
    using ok(7) [OF c] st by (auto simp: sack_ok_def)
  have wnd: "unat (rcvWnd sk) < half" using unat_u16_max [of "rcvWnd sk"] by linarith
  obtain bs where sk2: "sk2 = sk1\<lparr>sackBlock := bs\<rparr>" and bs: "blocks_ok (rcvNxt sk) (unat (rcvWnd sk)) bs"
    and new: "block_ok (rcvNxt sk) (unat (rcvWnd sk)) (l2, r2)"
    and after: "l2 = rcvNxt sk \<Longrightarrow> \<forall>b \<in> set bs. dist (rcvNxt sk) r2 < dist (rcvNxt sk) (fst b)"
    and sub: "set bs \<subseteq> insert (l2, r2) (set (sackBlock sk))" and pos: "0 < TCP_CMP_SEQ l2 (rcvNxt sk) \<longleftrightarrow> l2 \<noteq> rcvNxt sk"
    using tcpUpdateSackBlocks_ok [OF up, of "unat (rcvWnd sk)"] sack cl(1) wnd s1 by (simp only:) blast
  have nxt2: "rcvNxt sk2 = rcvNxt sk" and route2: "route_ok sk2" and st2: "sk_state sk2 = sk_state sk"
    using ok(4) [OF c] by (simp_all add: sk2 sk1_def route_ok_def socket_pseudo_def cong: IpAddr.case_cong)
  have conn2: "conn sk2 = conn sk" "snd_side sk2 = snd_side sk" by (simp_all add: sk2 sk1_def conn_def snd_side_def)
  show ?thesis
  proof (cases "0 < TCP_CMP_SEQ l2 (rcvNxt sk)")
    case True
    obtain e sk3 w3 where send: "tcpSendSegment ops sk2 TCP_FLAG_ACK (sndNxt sk2) (rcvNxt sk2) 0 False w = Some (e, sk3, w3)"
      and s3: "same sk3 sk2" using send_control_cases [OF route2] .
    have "sack_ok sk2"
      using True pos sub sack bs st2 st ok(7) [OF c] by (auto simp: sack_ok_def sk2 sk1_def receiving_def)
    moreover have "sizes_ok sk2" "listen_ok sk2" "snd_ok sk2" "rcv_ok sk2"
      using inv ok(5,6) [OF c] route2 unfolding tcp_inv_def
      by (simp_all add: sizes_ok_def listen_ok_def snd_ok_def rcv_ok_def sk2 sk1_def)
    ultimately have "tcp_inv sk2" using route2 by (simp add: tcp_inv_def)
    then have "tcp_inv sk3" using tcp_inv_same [OF s3] by simp
    moreover have "tcpProcessSegmentData ops sk segment data len w = Some (sk3, w3)"
      using True by (simp add: tcpProcessSegmentData_def clip wr sk1_def [symmetric] up send [unfolded nxt2] nxt2)
    ultimately show ?thesis using that conn2 s3 by (simp add: same_def)
  next
    case False
    then have l2: "l2 = rcvNxt sk" using pos by blast
    define sk3 where "sk3 = arrived (r2 - l2) sk2"
    have n: "unat (r2 - l2) \<le> unat (rcvWnd sk)" using new by (simp add: block_ok_def l2)
    have inv3: "tcp_inv sk3"
      unfolding sk3_def sk2
      by (rule tcp_inv_arrived [OF inv1])
        (use st n bs after l2 s1 in simp_all)
    have "connected sk3" using c by (simp add: sk3_def sk2 sk1_def arrived_def connected_def)
    then have "route_ok sk3" using tcp_invD(4) [OF inv3] by simp
    then obtain e sk4 w4 where send: "tcpSendSegment ops sk3 TCP_FLAG_ACK (sndNxt sk3) (rcvNxt sk3) 0 False w = Some (e, sk4, w4)"
      and s4: "same sk4 sk3" by (rule send_control_cases)
    obtain sk5 w5 where ev: "tcpUpdateEvents ops sk4 w4 = (sk5, w5)" and s5: "same sk5 sk4" by (rule tcpUpdateEvents_cases)
    have "tcpProcessSegmentData ops sk segment data len w = Some (sk5, w5)"
    proof -
      have eq: "sk2\<lparr>rcvNxt := rcvNxt sk + (r2 - l2), rcvUser := rcvUser sk2 + ucast (r2 - l2),
          rcvWnd := rcvWnd sk2 - ucast (r2 - l2)\<rparr> = sk3"
        and "sndNxt sk3 = sndNxt sk2" "rcvNxt sk3 = rcvNxt sk + (r2 - l2)"
        by (simp_all add: sk3_def arrived_def nxt2)
      then have "tcpSendSegment ops sk3 TCP_FLAG_ACK (sndNxt sk2) (rcvNxt sk + (r2 - l2)) 0 False w = Some (e, sk4, w4)"
        using send by simp
      with False ev show ?thesis
        by (simp add: tcpProcessSegmentData_def clip wr sk1_def [symmetric] up nxt2 Let_def eq)
    qed
    moreover have "tcp_inv sk5" using inv3 tcp_inv_same [OF s4] tcp_inv_same [OF s5] by simp
    moreover have "conn sk3 = conn sk2" "snd_side sk3 = snd_side sk2"
      by (simp_all add: sk3_def arrived_def conn_def snd_side_def)
    ultimately show ?thesis using that conn2 s4 s5 by (simp add: same_def)
  qed
qed

end
