(* ===== verification/TcpSafe.thy ===== *)
theory TcpSafe
  imports TcpData
begin

text \<open>
  Every incoming segment: the function of each state returns, keeps the invariant, and moves the connection
  only along the state diagram of RFC 793, for the cause the diagram names.
\<close>

abbreviation FIN :: "TcpHeader \<Rightarrow> bool" where "FIN segment \<equiv> has_flag segment TCP_FLAG_FIN"
abbreviation SYN :: "TcpHeader \<Rightarrow> bool" where "SYN segment \<equiv> has_flag segment TCP_FLAG_SYN"
abbreviation RST :: "TcpHeader \<Rightarrow> bool" where "RST segment \<equiv> has_flag segment TCP_FLAG_RST"
abbreviation ACK :: "TcpHeader \<Rightarrow> bool" where "ACK segment \<equiv> has_flag segment TCP_FLAG_ACK"

text \<open>The moves of the diagram a segment can cause.\<close>

definition acks_all :: "Socket \<Rightarrow> TcpHeader \<Rightarrow> bool" where
  "acks_all sk segment \<longleftrightarrow> ACK segment \<and> th_ackNum segment = sndNxt sk"

definition rfc793_move :: "Socket \<Rightarrow> TcpHeader \<Rightarrow> TcpState \<Rightarrow> bool" where
  "rfc793_move sk segment st \<longleftrightarrow>
     st = sk_state sk \<or>
     RST segment \<and> st = TCP_STATE_CLOSED \<and> sk_state sk \<noteq> TCP_STATE_LISTEN \<or>
     (case sk_state sk of
        TCP_STATE_SYN_SENT \<Rightarrow>
          SYN segment \<and> (acks_all sk segment \<and> st = TCP_STATE_ESTABLISHED \<or> \<not> ACK segment \<and> st = TCP_STATE_SYN_RECEIVED)
      | TCP_STATE_SYN_RECEIVED \<Rightarrow>
          acks_all sk segment \<and> (st = TCP_STATE_ESTABLISHED \<or> FIN segment \<and> st = TCP_STATE_CLOSE_WAIT)
      | TCP_STATE_ESTABLISHED \<Rightarrow> ACK segment \<and> FIN segment \<and> st = TCP_STATE_CLOSE_WAIT
      | TCP_STATE_FIN_WAIT_1 \<Rightarrow>
          acks_all sk segment \<and> st = TCP_STATE_FIN_WAIT_2 \<or>
          ACK segment \<and> \<not> acks_all sk segment \<and> FIN segment \<and> st = TCP_STATE_CLOSING \<or>
          acks_all sk segment \<and> FIN segment \<and> st = TCP_STATE_TIME_WAIT
      | TCP_STATE_FIN_WAIT_2 \<Rightarrow> ACK segment \<and> FIN segment \<and> st = TCP_STATE_TIME_WAIT
      | TCP_STATE_CLOSING \<Rightarrow> acks_all sk segment \<and> st = TCP_STATE_TIME_WAIT
      | TCP_STATE_LAST_ACK \<Rightarrow> acks_all sk segment \<and> st = TCP_STATE_CLOSED
      | _ \<Rightarrow> False)"

lemma rfc793_stay [simp]: "rfc793_move sk segment (sk_state sk)"
  by (simp add: rfc793_move_def)

lemma rfc793_reset: "RST segment \<Longrightarrow> sk_state sk \<noteq> TCP_STATE_LISTEN \<Longrightarrow> rfc793_move sk segment TCP_STATE_CLOSED"
  by (simp add: rfc793_move_def)

definition handles :: "Socket \<Rightarrow> TcpHeader \<Rightarrow> (Socket \<times> 'w) option \<Rightarrow> bool" where
  "handles sk segment r \<longleftrightarrow> (\<exists>sk' w'. r = Some (sk', w') \<and> tcp_inv sk' \<and> rfc793_move sk segment (sk_state sk'))"

lemma handlesI: "r = Some (sk', w') \<Longrightarrow> tcp_inv sk' \<Longrightarrow> rfc793_move sk segment (sk_state sk') \<Longrightarrow> handles sk segment r"
  by (auto simp: handles_def)

lemma handles_stay: "r = Some (sk', w') \<Longrightarrow> tcp_inv sk' \<Longrightarrow> conn sk' = conn sk \<Longrightarrow> handles sk segment r"
  by (auto simp: handles_def conn_def rfc793_move_def)

subsection \<open>The checks all the synchronised states make\<close>

lemma connectedI: "sk_state sk \<noteq> TCP_STATE_CLOSED \<Longrightarrow> sk_state sk \<noteq> TCP_STATE_LISTEN \<Longrightarrow> connected sk"
  by (simp add: connected_def)

lemma tcpCheckSequenceNumber_cases:
  assumes "route_ok sk"
  obtains (ok) "seq_acceptable sk segment len" and "tcpCheckSequenceNumber ops sk segment len w = Some (NO_ERROR, sk, w)"
    | (bad) sk' w' where "tcpCheckSequenceNumber ops sk segment len w = Some (ERROR_FAILURE, sk', w')" and "same sk' sk"
proof (cases "seq_acceptable sk segment len")
  case True
  then show ?thesis using ok by (simp add: tcpCheckSequenceNumber_def)
next
  case False
  show ?thesis
  proof (cases "RST segment")
    case True
    with False show ?thesis using bad [of sk w] by (simp add: tcpCheckSequenceNumber_def)
  next
    case no_rst: False
    obtain e sk' w' where "tcpSendSegment ops sk TCP_FLAG_ACK (sndNxt sk) (rcvNxt sk) 0 False w = Some (e, sk', w')"
      and "same sk' sk" using send_control_cases [OF assms] .
    with False no_rst show ?thesis using bad [of sk' w'] by (simp add: tcpCheckSequenceNumber_def)
  qed
qed

lemma tcpCheckSyn_cases:
  assumes "route_ok sk"
  obtains (ok) "\<not> SYN segment" and "tcpCheckSyn ops sk segment len w = Some (NO_ERROR, sk, w)"
    | (bad) sk' w' where "tcpCheckSyn ops sk segment len w = Some (ERROR_FAILURE, sk', w')" and "same sk' sk"
proof (cases "SYN segment")
  case True
  show ?thesis
  proof (cases "ACK segment")
    case ack: True
    obtain e sk' w' where "tcpSendSegment ops sk TCP_FLAG_RST (th_ackNum segment) 0 0 False w = Some (e, sk', w')"
      and "same sk' sk" using send_control_cases [OF assms] .
    with True ack show ?thesis using bad [of sk' w'] by (simp add: tcpCheckSyn_def)
  next
    case no_ack: False
    obtain e sk' w' where "tcpSendSegment ops sk (TCP_FLAG_RST OR TCP_FLAG_ACK) 0 (th_seqNum segment + len + 1) 0 False w =
        Some (e, sk', w')" and "same sk' sk" using send_control_cases [OF assms] .
    with True no_ack show ?thesis using bad [of sk' w'] by (simp add: tcpCheckSyn_def)
  qed
next
  case False
  then show ?thesis using ok by (simp add: tcpCheckSyn_def)
qed

text \<open>A segment is accepted, or answered, or resets the connection.\<close>

lemma accept_segment_cases:
  assumes inv: "tcp_inv sk" and st: "sk_state sk \<noteq> TCP_STATE_CLOSED" "sk_state sk \<noteq> TCP_STATE_LISTEN"
  obtains (ok) "accept_segment ops sk segment len w = Some (True, sk, w)" and "seq_acceptable sk segment len"
      and "\<not> SYN segment" and "\<not> RST segment"
    | (stop) sk' w' where "accept_segment ops sk segment len w = Some (False, sk', w')" and "tcp_inv sk'"
      and "rfc793_move sk segment (sk_state sk')"
proof -
  have c: "connected sk" and route: "route_ok sk" using connectedI [OF st] tcp_invD(4) [OF inv] by auto
  show ?thesis
  proof (rule tcpCheckSequenceNumber_cases [OF route, of segment len ops w])
    fix sk' w'
    assume "tcpCheckSequenceNumber ops sk segment len w = Some (ERROR_FAILURE, sk', w')" and s: "same sk' sk"
    then have "accept_segment ops sk segment len w = Some (False, sk', w')" by (simp add: accept_segment_def)
    then show ?thesis using stop tcp_inv_same [OF s] inv s by (simp add: same_eqs)
  next
    assume acc: "seq_acceptable sk segment len" and seq: "tcpCheckSequenceNumber ops sk segment len w = Some (NO_ERROR, sk, w)"
    show ?thesis
    proof (cases "RST segment")
      case True
      obtain sk' w' where ch: "tcpChangeState ops sk TCP_STATE_CLOSED w = (sk', w')" and s: "same sk' (to_state TCP_STATE_CLOSED sk)"
        by (rule tcpChangeState_cases)
      have "accept_segment ops sk segment len w = Some (False, sk', w')"
        using True seq ch by (simp add: accept_segment_def)
      moreover have "tcp_inv (to_state TCP_STATE_CLOSED sk)"
        by (rule tcp_inv_to_state [OF inv c]) (simp add: next_ok_def sending_def receiving_def)
      ultimately show ?thesis
        using stop tcp_inv_same [OF s] s rfc793_reset [OF True st(2)] by (simp add: same_eqs)
    next
      case False
      show ?thesis
      proof (rule tcpCheckSyn_cases [OF route, of segment ops len w])
        fix sk' w'
        assume "tcpCheckSyn ops sk segment len w = Some (ERROR_FAILURE, sk', w')" and s: "same sk' sk"
        with False seq have "accept_segment ops sk segment len w = Some (False, sk', w')" by (simp add: accept_segment_def)
        then show ?thesis using stop tcp_inv_same [OF s] inv s by (simp add: same_eqs)
      next
        assume "\<not> SYN segment" and "tcpCheckSyn ops sk segment len w = Some (NO_ERROR, sk, w)"
        with False seq acc show ?thesis using ok by (simp add: accept_segment_def)
      qed
    qed
  qed
qed

text \<open>The acknowledgment: the receiving side and the state are kept.\<close>

lemma tcpCheckAck_ok:
  assumes inv: "tcp_inv sk" and st: "sk_state sk \<noteq> TCP_STATE_CLOSED" "sk_state sk \<noteq> TCP_STATE_LISTEN"
    "sk_state sk \<noteq> TCP_STATE_SYN_SENT"
  obtains e sk' w' where "tcpCheckAck ops sk segment len w = Some (e, sk', w')" and "tcp_inv sk'"
    and "conn sk' = conn sk" and "rcv_side sk' = rcv_side sk" and "sndNxt sk' = sndNxt sk"
    and "e = NO_ERROR \<Longrightarrow> ACK segment"
proof -
  have c: "connected sk" using st by (rule_tac connectedI)
  note ok = tcp_invD [OF inv]
  show ?thesis
  proof (rule tcpCheckAck_cases [OF ok(4) [OF c] ok(2), of ops segment len w])
    fix e sk' w'
    assume "tcpCheckAck ops sk segment len w = Some (e, sk', w')" and s: "same sk' sk" and "e = NO_ERROR \<longrightarrow> ACK segment"
    then show ?thesis using that tcp_inv_same [OF s] inv by (simp add: same_def snd_side_def)
  next
    fix sk' w'
    assume r: "tcpCheckAck ops sk segment len w = Some (NO_ERROR, sk', w')" and s: "same sk' (sk\<lparr>sndUna := th_ackNum segment\<rparr>)"
      and range: "ack_range sk (th_ackNum segment)" and "ACK segment"
    have "tcp_inv sk'" using tcp_inv_same [OF s] tcp_inv_acked(1) [OF inv c range st(3)] by simp
    moreover have "conn sk' = conn sk" "rcv_side sk' = rcv_side sk" "sndNxt sk' = sndNxt sk"
      using s by (simp_all add: same_def conn_def rcv_side_def snd_side_def)
    ultimately show ?thesis using that r \<open>ACK segment\<close> by simp
  qed
qed

text \<open>Sending what the Nagle algorithm lets out.\<close>

lemma tcpNagleAlgo_ok:
  assumes inv: "tcp_inv sk" and st: "sk_state sk \<noteq> TCP_STATE_CLOSED" "sk_state sk \<noteq> TCP_STATE_LISTEN"
    "sk_state sk \<noteq> TCP_STATE_SYN_SENT"
  obtains e sk' w' where "tcpNagleAlgo ops sk fl w = Some (e, sk', w')" and "tcp_inv sk'" and "conn sk' = conn sk"
proof -
  have c: "connected sk" using st by (rule_tac connectedI)
  note ok = tcp_invD [OF inv]
  obtain e n sk1 w1 where l: "nagle_loop ops fl (usable_window sk) sk w = Some (e, sk1, w1)" and n: "n \<le> unat (sndUser sk)"
    and s: "same sk1 (sent n sk)"
    using nagle_loop_cases [OF ok(4) [OF c] ok(2) ok(8) [OF c], of ops fl "usable_window sk" w] by (elim exE conjE)
  have inv1: "tcp_inv sk1" using tcp_inv_same [OF s] tcp_inv_sent [OF inv c n st(3)] by simp
  have c1: "conn sk1 = conn sk" using s by (simp add: same_def conn_def sent_def)
  obtain sk2 w2 where ev: "tcpUpdateEvents ops sk1 w1 = (sk2, w2)" and s2: "same sk2 sk1" by (rule tcpUpdateEvents_cases)
  show ?thesis
  proof (cases "e = NO_ERROR")
    case True
    then have "tcpNagleAlgo ops sk fl w = Some (NO_ERROR, sk2, w2)" using l ev by (simp add: tcpNagleAlgo_def)
    then show ?thesis using that inv1 c1 s2 tcp_inv_same [OF s2] by (simp add: same_def)
  next
    case False
    then have "tcpNagleAlgo ops sk fl w = Some (e, sk1, w1)" using l by (simp add: tcpNagleAlgo_def)
    then show ?thesis using that inv1 c1 by simp
  qed
qed

lemma conn_state: "conn sk' = conn sk \<Longrightarrow> sk_state sk' = sk_state sk"
  by (simp add: conn_def)

end
