(* ===== verification/TcpStates.thy ===== *)
theory TcpStates
  imports TcpSafe
begin

text \<open>The functions of the states, one after the other.\<close>

subsection \<open>Receiving a FIN\<close>

text \<open>What a state in which no data is taken asks of a socket.\<close>

definition counters_ok :: "Socket \<Rightarrow> bool" where
  "counters_ok sk \<longleftrightarrow> sizes_ok sk \<and> route_ok sk \<and> snd_ok sk \<and> rcv_ok sk"

lemma counters_ok_same: "same sk' sk \<Longrightarrow> counters_ok sk' = counters_ok sk"
  using route_ok_same [of sk' sk] by (simp add: counters_ok_def sizes_ok_def snd_ok_def rcv_ok_def same_eqs)

lemma counters_okI: "tcp_inv sk \<Longrightarrow> connected sk \<Longrightarrow> counters_ok sk"
  using tcp_invD [of sk] by (simp add: counters_ok_def)

lemma tcp_inv_quiet:
  assumes "counters_ok sk" and "\<not> receiving st" and "st \<notin> {TCP_STATE_LISTEN, TCP_STATE_SYN_SENT, TCP_STATE_SYN_RECEIVED}"
    and "sending st \<longrightarrow> sending (sk_state sk)"
  shows "tcp_inv (to_state st sk)"
proof -
  have "snd_ok (to_state st sk)" using assms by (simp add: counters_ok_def snd_ok_def split: if_splits)
  moreover have "sack_ok (to_state st sk)" using assms by (simp add: sack_ok_def)
  ultimately show ?thesis using assms by (simp add: tcp_inv_def counters_ok_def)
qed

lemma counters_ok_fin: "counters_ok (sk\<lparr>rcvNxt := n\<rparr>) = counters_ok sk"
  by (simp add: counters_ok_def sizes_ok_def snd_ok_def rcv_ok_def route_ok_def socket_pseudo_def cong: IpAddr.case_cong)

lemma fin_acked:
  assumes "tcp_inv sk" and "connected sk"
  obtains e sk' w' where
    "tcpSendSegment ops (sk\<lparr>rcvNxt := rcvNxt sk + 1\<rparr>) TCP_FLAG_ACK (sndNxt sk) (rcvNxt sk + 1) 0 False w = Some (e, sk', w')"
    and "counters_ok sk'" and "conn sk' = conn sk" and "sndNxt sk' = sndNxt sk"
proof -
  let ?sk = "sk\<lparr>rcvNxt := rcvNxt sk + 1\<rparr>"
  have c: "counters_ok ?sk" using counters_okI [OF assms] by (simp add: counters_ok_fin)
  then have r: "route_ok ?sk" by (simp add: counters_ok_def)
  obtain e sk' w' where "tcpSendSegment ops ?sk TCP_FLAG_ACK (sndNxt sk) (rcvNxt sk + 1) 0 False w = Some (e, sk', w')"
    and s: "same sk' ?sk" using send_control_cases [OF r] .
  moreover have "conn sk' = conn sk" "sndNxt sk' = sndNxt sk" using s by (simp_all add: same_def conn_def snd_side_def)
  ultimately show ?thesis using that c counters_ok_same [OF s] by simp
qed

lemma enter_time_wait_ok:
  assumes "counters_ok sk"
  obtains sk' w' where "enter_time_wait ops sk w = (sk', w')" and "tcp_inv sk'" and "sk_state sk' = TCP_STATE_TIME_WAIT"
proof -
  obtain timer w1 where t: "tcpTimerStart ops (timeWaitTimer (tcpDeleteControlBlock sk)) TCP_2MSL_TIMER w = (timer, w1)"
    by (rule tcpTimerStart_cases)
  define sk1 where "sk1 = (tcpDeleteControlBlock sk)\<lparr>timeWaitTimer := timer\<rparr>"
  obtain sk' w' where ch: "tcpChangeState ops sk1 TCP_STATE_TIME_WAIT w1 = (sk', w')"
    and s: "same sk' (to_state TCP_STATE_TIME_WAIT sk1)" by (rule tcpChangeState_cases)
  have "counters_ok sk1"
    using assms
    by (simp add: counters_ok_def sizes_ok_def snd_ok_def rcv_ok_def route_ok_def socket_pseudo_def sk1_def
        tcpDeleteControlBlock_def tcpFlushSynQueue_def tcpFlushRetransmitQueue_def cong: IpAddr.case_cong)
  then have "tcp_inv (to_state TCP_STATE_TIME_WAIT sk1)"
    by (rule tcp_inv_quiet) (simp_all add: receiving_def sending_def)
  moreover have "enter_time_wait ops sk w = (sk', w')" using t ch by (simp add: enter_time_wait_def Let_def sk1_def)
  ultimately show ?thesis using that tcp_inv_same [OF s] s by (simp add: same_eqs)
qed

lemma change_quiet:
  assumes "counters_ok sk" and "\<not> receiving st" and "st \<notin> {TCP_STATE_LISTEN, TCP_STATE_SYN_SENT, TCP_STATE_SYN_RECEIVED}"
    and "sending st \<longrightarrow> sending (sk_state sk)"
  obtains sk' w' where "tcpChangeState ops sk st w = (sk', w')" and "tcp_inv sk'" and "sk_state sk' = st"
proof -
  obtain sk' w' where ch: "tcpChangeState ops sk st w = (sk', w')" and s: "same sk' (to_state st sk)" by (rule tcpChangeState_cases)
  then show ?thesis using that tcp_inv_quiet [OF assms] tcp_inv_same [OF s] by (simp add: same_eqs)
qed

subsection \<open>The synchronised states\<close>

text \<open>The data, if there is any.\<close>

lemma data_ok:
  assumes inv: "tcp_inv sk" and st: "receiving (sk_state sk)" and acc: "seq_acceptable sk segment len"
    and len: "unat len \<le> 65535"
  obtains sk' w' where "(if len > 0 then tcpProcessSegmentData ops sk segment data len w else Some (sk, w)) = Some (sk', w')"
    and "tcp_inv sk'" and "conn sk' = conn sk" and "sndNxt sk' = sndNxt sk"
proof (cases "len > 0")
  case True
  then have "0 < unat len" by (simp add: unat_gt_0 word_neq_0_conv)
  from tcpProcessSegmentData_ok [OF inv st acc this len, of ops data w] obtain sk' w'
    where "tcpProcessSegmentData ops sk segment data len w = Some (sk', w')" and "tcp_inv sk'"
      and "conn sk' = conn sk" and "snd_side sk' = snd_side sk" .
  with True that show ?thesis by (simp add: snd_side_def)
next
  case False
  with that inv show ?thesis by simp
qed

lemma seq_acceptable_rcv:
  "rcv_side sk' = rcv_side sk \<Longrightarrow> seq_acceptable sk' segment len = seq_acceptable sk segment len"
  by (simp add: seq_acceptable_def rcv_side_def)

lemma tcpStateEstablished_ok:
  assumes inv: "tcp_inv sk" and st: "sk_state sk = TCP_STATE_ESTABLISHED" and len: "unat len \<le> 65535"
  shows "handles sk segment (tcpStateEstablished ops sk segment data len w)"
proof -
  have st': "sk_state sk \<noteq> TCP_STATE_CLOSED" "sk_state sk \<noteq> TCP_STATE_LISTEN" using st by simp_all
  show ?thesis
  proof (rule accept_segment_cases [OF inv st', of ops segment len w])
    fix sk' w'
    assume "accept_segment ops sk segment len w = Some (False, sk', w')" and "tcp_inv sk'"
      and "rfc793_move sk segment (sk_state sk')"
    then show ?thesis by (intro handlesI) (simp_all add: tcpStateEstablished_def)
  next
    assume a: "accept_segment ops sk segment len w = Some (True, sk, w)" and acc: "seq_acceptable sk segment len"
    from st have n: "sk_state sk \<noteq> TCP_STATE_SYN_SENT" by simp
    obtain e sk1 w1 where ack: "tcpCheckAck ops sk segment len w = Some (e, sk1, w1)" and inv1: "tcp_inv sk1"
      and c1: "conn sk1 = conn sk" and r1: "rcv_side sk1 = rcv_side sk" and fl: "e = NO_ERROR \<Longrightarrow> ACK segment"
      using tcpCheckAck_ok [OF inv st' n] by metis
    show ?thesis
    proof (cases "e = NO_ERROR")
      case False
      then have "tcpStateEstablished ops sk segment data len w = Some (sk1, w1)"
        using a ack by (simp add: tcpStateEstablished_def)
      then show ?thesis using inv1 c1 by (rule handles_stay)
    next
      case True
      have rec: "receiving (sk_state sk1)" using st conn_state [OF c1] by (simp add: receiving_def)
      obtain sk2 w2 where d: "(if len > 0 then tcpProcessSegmentData ops sk1 segment data len w1 else Some (sk1, w1)) = Some (sk2, w2)"
        and inv2: "tcp_inv sk2" and c2: "conn sk2 = conn sk1"
        using data_ok [OF inv1 rec _ len] acc seq_acceptable_rcv [OF r1] by metis
      have st2: "sk_state sk2 = TCP_STATE_ESTABLISHED" using st conn_state [OF c1] conn_state [OF c2] by simp
      have con2: "connected sk2" using st2 by (simp add: connected_def)
      obtain sk3 w3 where f: "(if FIN segment \<and> rcvNxt sk2 = th_seqNum segment + len then do {
              let sk = sk2\<lparr>rcvNxt := rcvNxt sk2 + 1\<rparr>;
              (_, sk, w) \<leftarrow> tcpSendSegment ops sk TCP_FLAG_ACK (sndNxt sk) (rcvNxt sk) 0 False w2;
              Some (tcpChangeState ops sk TCP_STATE_CLOSE_WAIT w)
            }
            else Some (sk2, w2)) = Some (sk3, w3)" and inv3: "tcp_inv sk3"
        and st3: "sk_state sk3 = TCP_STATE_ESTABLISHED \<or> FIN segment \<and> sk_state sk3 = TCP_STATE_CLOSE_WAIT"
      proof (cases "FIN segment \<and> rcvNxt sk2 = th_seqNum segment + len")
        case True
        obtain e sk' w' where s: "tcpSendSegment ops (sk2\<lparr>rcvNxt := rcvNxt sk2 + 1\<rparr>) TCP_FLAG_ACK (sndNxt sk2) (rcvNxt sk2 + 1) 0 False w2 = Some (e, sk', w')"
          and k: "counters_ok sk'" and c': "conn sk' = conn sk2" using fin_acked [OF inv2 con2] .
        obtain sk'' w'' where "tcpChangeState ops sk' TCP_STATE_CLOSE_WAIT w' = (sk'', w'')" and "tcp_inv sk''"
          and "sk_state sk'' = TCP_STATE_CLOSE_WAIT"
          by (rule change_quiet [OF k, of TCP_STATE_CLOSE_WAIT])
            (use st2 conn_state [OF c'] in \<open>simp_all add: receiving_def sending_def\<close>)
        with True s that show ?thesis by simp
      next
        case False
        show ?thesis by (rule that [OF if_not_P [OF False] inv2]) (use st2 in simp)
      qed
      have n3: "sk_state sk3 \<noteq> TCP_STATE_CLOSED" "sk_state sk3 \<noteq> TCP_STATE_LISTEN" "sk_state sk3 \<noteq> TCP_STATE_SYN_SENT"
        using st3 by auto
      obtain e4 sk4 w4 where ng: "tcpNagleAlgo ops sk3 (if dupAckCount sk3 > 0 then SOCKET_FLAG_NO_DELAY else 0) w3 = Some (e4, sk4, w4)"
        and inv4: "tcp_inv sk4" and c4: "conn sk4 = conn sk3" using tcpNagleAlgo_ok [OF inv3 n3] .
      have "rfc793_move sk segment (sk_state sk4)"
        using conn_state [OF c4] st3 st fl [OF True] by (auto simp: rfc793_move_def)
      moreover have "tcpStateEstablished ops sk segment data len w = Some (sk4, w4)"
        unfolding tcpStateEstablished_def using a ack True d f ng by simp
      ultimately show ?thesis using inv4 by (intro handlesI)
    qed
  qed
qed

text \<open>The window members of the sending side may be set freely.\<close>

lemma same_window [simp]: "same (sk\<lparr>sndWnd := a, sndWl1 := b, sndWl2 := c, maxSndWnd := d\<rparr>) sk"
  by (simp add: same_def conn_def snd_side_def rcv_side_def)

lemma tcpStateSynReceived_ok:
  assumes inv: "tcp_inv sk" and st: "sk_state sk = TCP_STATE_SYN_RECEIVED" and len: "unat len \<le> 65535"
  shows "handles sk segment (tcpStateSynReceived ops sk segment data len w)"
proof -
  have st': "sk_state sk \<noteq> TCP_STATE_CLOSED" "sk_state sk \<noteq> TCP_STATE_LISTEN" using st by simp_all
  have route: "route_ok sk" using tcp_invD(4) [OF inv connectedI [OF st']] .
  show ?thesis
  proof (rule accept_segment_cases [OF inv st', of ops segment len w])
    fix sk' w'
    assume "accept_segment ops sk segment len w = Some (False, sk', w')" and "tcp_inv sk'"
      and "rfc793_move sk segment (sk_state sk')"
    then show ?thesis by (intro handlesI) (simp_all add: tcpStateSynReceived_def)
  next
    assume a: "accept_segment ops sk segment len w = Some (True, sk, w)"
    consider "\<not> ACK segment" | "ACK segment" "th_ackNum segment \<noteq> sndNxt sk" | "acks_all sk segment"
      by (auto simp: acks_all_def)
    then show ?thesis
    proof cases
      case 1
      then have "tcpStateSynReceived ops sk segment data len w = Some (sk, w)" using a by (simp add: tcpStateSynReceived_def)
      then show ?thesis using inv by (rule handles_stay) simp
    next
      case 2
      obtain e sk' w' where "tcpSendSegment ops sk TCP_FLAG_RST (th_ackNum segment) 0 0 False w = Some (e, sk', w')"
        and s: "same sk' sk" using send_control_cases [OF route] .
      with 2 a have "tcpStateSynReceived ops sk segment data len w = Some (sk', w')" by (simp add: tcpStateSynReceived_def)
      then show ?thesis by (rule handles_stay) (use inv tcp_inv_same [OF s] s in \<open>simp_all add: same_def\<close>)
    next
      case 3
      define sk1 where "sk1 = sk\<lparr>sndWnd := th_window segment, sndWl1 := th_seqNum segment, sndWl2 := th_ackNum segment,
             maxSndWnd := th_window segment\<rparr>"
      have s1: "same sk1 sk" by (simp add: sk1_def)
      obtain sk2 w2 where ch: "tcpChangeState ops sk1 TCP_STATE_ESTABLISHED w = (sk2, w2)"
        and s2: "same sk2 (to_state TCP_STATE_ESTABLISHED sk1)" by (rule tcpChangeState_cases)
      have "tcp_inv sk1" using inv tcp_inv_same [OF s1] by simp
      then have inv2: "tcp_inv sk2"
        using tcp_inv_established st s1 tcp_inv_same [OF s2] by (simp add: same_eqs)
      have st2: "sk_state sk2 = TCP_STATE_ESTABLISHED" using s2 by (simp add: same_eqs)
      obtain sk3 w3 where e: "tcpStateEstablished ops sk2 segment data len w2 = Some (sk3, w3)" and "tcp_inv sk3"
        and m: "rfc793_move sk2 segment (sk_state sk3)"
        using tcpStateEstablished_ok [OF inv2 st2 len, of segment ops data w2] by (auto simp: handles_def)
      moreover have "rfc793_move sk segment (sk_state sk3)"
        using m st st2 3 by (auto simp: rfc793_move_def)
      moreover have "tcpStateSynReceived ops sk segment data len w = Some (sk3, w3)"
        using a 3 ch e by (simp add: tcpStateSynReceived_def acks_all_def sk1_def)
      ultimately show ?thesis by (intro handlesI)
    qed
  qed
qed

lemma tcpStateCloseWait_ok:
  assumes inv: "tcp_inv sk" and st: "sk_state sk = TCP_STATE_CLOSE_WAIT"
  shows "handles sk segment (tcpStateCloseWait ops sk segment len w)"
proof -
  have st': "sk_state sk \<noteq> TCP_STATE_CLOSED" "sk_state sk \<noteq> TCP_STATE_LISTEN" "sk_state sk \<noteq> TCP_STATE_SYN_SENT"
    using st by simp_all
  show ?thesis
  proof (rule accept_segment_cases [OF inv st'(1,2), of ops segment len w])
    fix sk' w'
    assume "accept_segment ops sk segment len w = Some (False, sk', w')" and "tcp_inv sk'"
      and "rfc793_move sk segment (sk_state sk')"
    then show ?thesis by (intro handlesI) (simp_all add: tcpStateCloseWait_def)
  next
    assume a: "accept_segment ops sk segment len w = Some (True, sk, w)"
    obtain e sk1 w1 where ack: "tcpCheckAck ops sk segment len w = Some (e, sk1, w1)" and inv1: "tcp_inv sk1"
      and c1: "conn sk1 = conn sk" using tcpCheckAck_ok [OF inv st'] by metis
    have n: "sk_state sk1 \<noteq> TCP_STATE_CLOSED" "sk_state sk1 \<noteq> TCP_STATE_LISTEN" "sk_state sk1 \<noteq> TCP_STATE_SYN_SENT"
      using st' conn_state [OF c1] by simp_all
    obtain e4 sk4 w4 where "tcpNagleAlgo ops sk1 (if dupAckCount sk1 > 0 then SOCKET_FLAG_NO_DELAY else 0) w1 = Some (e4, sk4, w4)"
      and "tcp_inv sk4" and "conn sk4 = conn sk1" using tcpNagleAlgo_ok [OF inv1 n] .
    with a ack c1 inv1 show ?thesis
      by (cases "e = NO_ERROR") (auto intro!: handles_stay simp: tcpStateCloseWait_def)
  qed
qed

lemma tcpStateLastAck_ok:
  assumes inv: "tcp_inv sk" and st: "sk_state sk = TCP_STATE_LAST_ACK"
  shows "handles sk segment (tcpStateLastAck ops sk segment len w)"
proof -
  have st': "sk_state sk \<noteq> TCP_STATE_CLOSED" "sk_state sk \<noteq> TCP_STATE_LISTEN" using st by simp_all
  show ?thesis
  proof (rule accept_segment_cases [OF inv st', of ops segment len w])
    fix sk' w'
    assume "accept_segment ops sk segment len w = Some (False, sk', w')" and "tcp_inv sk'"
      and "rfc793_move sk segment (sk_state sk')"
    then show ?thesis by (intro handlesI) (simp_all add: tcpStateLastAck_def)
  next
    assume a: "accept_segment ops sk segment len w = Some (True, sk, w)"
    show ?thesis
    proof (cases "acks_all sk segment")
      case True
      have k: "counters_ok sk" using counters_okI [OF inv connectedI [OF st']] .
      obtain sk' w' where ch: "tcpChangeState ops sk TCP_STATE_CLOSED w = (sk', w')" and "tcp_inv sk'"
        and "sk_state sk' = TCP_STATE_CLOSED"
        by (rule change_quiet [OF k, of TCP_STATE_CLOSED]) (simp_all add: receiving_def sending_def)
      moreover have "tcpStateLastAck ops sk segment len w = Some (sk', w')"
        using a True ch by (simp add: tcpStateLastAck_def acks_all_def)
      ultimately show ?thesis using True st by (auto simp: handles_def rfc793_move_def)
    next
      case False
      then have "tcpStateLastAck ops sk segment len w = Some (sk, w)"
        using a by (auto simp: tcpStateLastAck_def acks_all_def)
      then show ?thesis using inv by (rule handles_stay) simp
    qed
  qed
qed

lemma tcpStateClosing_ok:
  assumes inv: "tcp_inv sk" and st: "sk_state sk = TCP_STATE_CLOSING"
  shows "handles sk segment (tcpStateClosing ops sk segment len w)"
proof -
  have st': "sk_state sk \<noteq> TCP_STATE_CLOSED" "sk_state sk \<noteq> TCP_STATE_LISTEN" "sk_state sk \<noteq> TCP_STATE_SYN_SENT"
    using st by simp_all
  show ?thesis
  proof (rule accept_segment_cases [OF inv st'(1,2), of ops segment len w])
    fix sk' w'
    assume "accept_segment ops sk segment len w = Some (False, sk', w')" and "tcp_inv sk'"
      and "rfc793_move sk segment (sk_state sk')"
    then show ?thesis by (intro handlesI) (simp_all add: tcpStateClosing_def)
  next
    assume a: "accept_segment ops sk segment len w = Some (True, sk, w)"
    obtain e sk1 w1 where ack: "tcpCheckAck ops sk segment len w = Some (e, sk1, w1)" and inv1: "tcp_inv sk1"
      and c1: "conn sk1 = conn sk" and n1: "sndNxt sk1 = sndNxt sk" and fl: "e = NO_ERROR \<Longrightarrow> ACK segment"
      using tcpCheckAck_ok [OF inv st'] by metis
    show ?thesis
    proof (cases "e = NO_ERROR \<and> th_ackNum segment = sndNxt sk")
      case True
      have "connected sk1" using st' conn_state [OF c1] by (simp add: connected_def)
      then have "counters_ok sk1" using counters_okI [OF inv1] by simp
      then obtain sk2 w2 where "enter_time_wait ops sk1 w1 = (sk2, w2)" and "tcp_inv sk2"
        and "sk_state sk2 = TCP_STATE_TIME_WAIT" by (rule enter_time_wait_ok)
      with True a ack n1 fl st show ?thesis
        by (auto simp: handles_def rfc793_move_def acks_all_def tcpStateClosing_def)
    next
      case False
      then have "tcpStateClosing ops sk segment len w = Some (sk1, w1)" using a ack n1 by (auto simp: tcpStateClosing_def)
      then show ?thesis using inv1 c1 by (rule handles_stay)
    qed
  qed
qed

text \<open>FIN-WAIT-2, and FIN-WAIT-1 once the acknowledgment and the data have been processed.\<close>

lemma tcpStateFinWait2_ok:
  assumes inv: "tcp_inv sk" and st: "sk_state sk = TCP_STATE_FIN_WAIT_2" and len: "unat len \<le> 65535"
  shows "handles sk segment (tcpStateFinWait2 ops sk segment data len w)"
proof -
  have st': "sk_state sk \<noteq> TCP_STATE_CLOSED" "sk_state sk \<noteq> TCP_STATE_LISTEN" "sk_state sk \<noteq> TCP_STATE_SYN_SENT"
    using st by simp_all
  show ?thesis
  proof (rule accept_segment_cases [OF inv st'(1,2), of ops segment len w])
    fix sk' w'
    assume "accept_segment ops sk segment len w = Some (False, sk', w')" and "tcp_inv sk'"
      and "rfc793_move sk segment (sk_state sk')"
    then show ?thesis by (intro handlesI) (simp_all add: tcpStateFinWait2_def)
  next
    assume a: "accept_segment ops sk segment len w = Some (True, sk, w)" and acc: "seq_acceptable sk segment len"
    obtain e sk1 w1 where ack: "tcpCheckAck ops sk segment len w = Some (e, sk1, w1)" and inv1: "tcp_inv sk1"
      and c1: "conn sk1 = conn sk" and r1: "rcv_side sk1 = rcv_side sk" and fl: "e = NO_ERROR \<Longrightarrow> ACK segment"
      using tcpCheckAck_ok [OF inv st'] by metis
    show ?thesis
    proof (cases "e = NO_ERROR")
      case False
      then have "tcpStateFinWait2 ops sk segment data len w = Some (sk1, w1)"
        using a ack by (simp add: tcpStateFinWait2_def)
      then show ?thesis using inv1 c1 by (rule handles_stay)
    next
      case True
      have rec: "receiving (sk_state sk1)" using st conn_state [OF c1] by (simp add: receiving_def)
      obtain sk2 w2 where d: "(if len > 0 then tcpProcessSegmentData ops sk1 segment data len w1 else Some (sk1, w1)) = Some (sk2, w2)"
        and inv2: "tcp_inv sk2" and c2: "conn sk2 = conn sk1"
        using data_ok [OF inv1 rec _ len] acc seq_acceptable_rcv [OF r1] by metis
      have con2: "connected sk2" using st' conn_state [OF c1] conn_state [OF c2] by (simp add: connected_def)
      show ?thesis
      proof (cases "FIN segment \<and> rcvNxt sk2 = th_seqNum segment + len")
        case fin: True
        obtain e sk' w' where s: "tcpSendSegment ops (sk2\<lparr>rcvNxt := rcvNxt sk2 + 1\<rparr>) TCP_FLAG_ACK (sndNxt sk2) (rcvNxt sk2 + 1) 0 False w2 = Some (e, sk', w')"
          and k: "counters_ok sk'" using fin_acked [OF inv2 con2] .
        obtain sk3 w3 where t: "enter_time_wait ops sk' w' = (sk3, w3)" and "tcp_inv sk3"
          and "sk_state sk3 = TCP_STATE_TIME_WAIT" using enter_time_wait_ok [OF k] .
        moreover have "tcpStateFinWait2 ops sk segment data len w = Some (sk3, w3)"
          unfolding tcpStateFinWait2_def using a ack True d fin s t by simp
        ultimately show ?thesis using fl [OF True] fin st by (auto simp: handles_def rfc793_move_def)
      next
        case False
        then have "tcpStateFinWait2 ops sk segment data len w = Some (sk2, w2)"
          unfolding tcpStateFinWait2_def using a ack True d by auto
        then show ?thesis using inv2 by (rule handles_stay) (use c1 c2 in simp)
      qed
    qed
  qed
qed

end
