(* ===== verification/TcpDispatch.thy ===== *)
theory TcpDispatch
  imports TcpStates
begin

text \<open>The remaining states, the dispatch on the state, and the segment as it arrives from the IP layer.\<close>

subsection \<open>FIN-WAIT-1\<close>

text \<open>The acknowledgment of our FIN moves the connection to FIN-WAIT-2 before the data is looked at.\<close>

lemma fin_wait_ack:
  assumes inv: "tcp_inv sk" and st: "sk_state sk = TCP_STATE_FIN_WAIT_1"
  obtains sk' w' where
    "(if th_ackNum segment = sndNxt sk
      then case tcpTimerStart ops (finWait2Timer sk) TCP_FIN_WAIT_2_TIMER w of (timer, w) \<Rightarrow>
        tcpChangeState ops (sk\<lparr>finWait2Timer := timer\<rparr>) TCP_STATE_FIN_WAIT_2 w
      else (sk, w)) = (sk', w')" and "tcp_inv sk'" and "rcv_side sk' = rcv_side sk" and "sndNxt sk' = sndNxt sk"
    and "sk_state sk' = (if th_ackNum segment = sndNxt sk then TCP_STATE_FIN_WAIT_2 else TCP_STATE_FIN_WAIT_1)"
proof (cases "th_ackNum segment = sndNxt sk")
  case True
  obtain timer w1 where t: "tcpTimerStart ops (finWait2Timer sk) TCP_FIN_WAIT_2_TIMER w = (timer, w1)"
    by (rule tcpTimerStart_cases)
  define sk1 where "sk1 = sk\<lparr>finWait2Timer := timer\<rparr>"
  have s1: "same sk1 sk" by (simp add: sk1_def)
  obtain sk' w' where ch: "tcpChangeState ops sk1 TCP_STATE_FIN_WAIT_2 w1 = (sk', w')"
    and s: "same sk' (to_state TCP_STATE_FIN_WAIT_2 sk1)" by (rule tcpChangeState_cases)
  have "tcp_inv sk1" "connected sk1" "next_ok (sk_state sk1) TCP_STATE_FIN_WAIT_2"
    using inv st tcp_inv_same [OF s1] s1
    by (simp_all add: connected_def same_eqs next_ok_def sending_def receiving_def)
  then have "tcp_inv sk'" using tcp_inv_to_state tcp_inv_same [OF s] by blast
  moreover have "rcv_side sk' = rcv_side sk" "sndNxt sk' = sndNxt sk"
    using s s1 by (simp_all add: same_def rcv_side_def snd_side_def to_state_def)
  moreover have "(case tcpTimerStart ops (finWait2Timer sk) TCP_FIN_WAIT_2_TIMER w of (timer, w) \<Rightarrow>
        tcpChangeState ops (sk\<lparr>finWait2Timer := timer\<rparr>) TCP_STATE_FIN_WAIT_2 w) = (sk', w')"
    using t ch by (simp add: sk1_def)
  ultimately show ?thesis using True that s by (simp add: same_eqs)
next
  case False
  with that inv st show ?thesis by simp
qed

lemma tcpStateFinWait1_ok:
  assumes inv: "tcp_inv sk" and st: "sk_state sk = TCP_STATE_FIN_WAIT_1" and len: "unat len \<le> 65535"
  shows "handles sk segment (tcpStateFinWait1 ops sk segment data len w)"
proof -
  have st': "sk_state sk \<noteq> TCP_STATE_CLOSED" "sk_state sk \<noteq> TCP_STATE_LISTEN" "sk_state sk \<noteq> TCP_STATE_SYN_SENT"
    using st by simp_all
  show ?thesis
  proof (rule accept_segment_cases [OF inv st'(1,2), of ops segment len w])
    fix sk' w'
    assume "accept_segment ops sk segment len w = Some (False, sk', w')" and "tcp_inv sk'"
      and "rfc793_move sk segment (sk_state sk')"
    then show ?thesis by (intro handlesI) (simp_all add: tcpStateFinWait1_def)
  next
    assume a: "accept_segment ops sk segment len w = Some (True, sk, w)" and acc: "seq_acceptable sk segment len"
    obtain e sk0 w0 where ack: "tcpCheckAck ops sk segment len w = Some (e, sk0, w0)" and inv0: "tcp_inv sk0"
      and c0: "conn sk0 = conn sk" and r0: "rcv_side sk0 = rcv_side sk" and n0: "sndNxt sk0 = sndNxt sk"
      and fl: "e = NO_ERROR \<Longrightarrow> ACK segment"
      using tcpCheckAck_ok [OF inv st'] by metis
    show ?thesis
    proof (cases "e = NO_ERROR")
      case False
      then have "tcpStateFinWait1 ops sk segment data len w = Some (sk0, w0)"
        using a ack by (simp add: tcpStateFinWait1_def)
      then show ?thesis using inv0 c0 by (rule handles_stay)
    next
      case True
      have st0: "sk_state sk0 = TCP_STATE_FIN_WAIT_1" using st conn_state [OF c0] by simp
      obtain sk1 w1 where f: "(if th_ackNum segment = sndNxt sk0
               then case tcpTimerStart ops (finWait2Timer sk0) TCP_FIN_WAIT_2_TIMER w0 of (timer, w) \<Rightarrow>
                  tcpChangeState ops (sk0\<lparr>finWait2Timer := timer\<rparr>) TCP_STATE_FIN_WAIT_2 w
               else (sk0, w0)) = (sk1, w1)" and inv1: "tcp_inv sk1" and r1: "rcv_side sk1 = rcv_side sk0"
        and n1: "sndNxt sk1 = sndNxt sk0"
        and st1: "sk_state sk1 = (if th_ackNum segment = sndNxt sk0 then TCP_STATE_FIN_WAIT_2 else TCP_STATE_FIN_WAIT_1)"
        using fin_wait_ack [OF inv0 st0] .
      have rec: "receiving (sk_state sk1)" using st1 by (simp add: receiving_def)
      have acc1: "seq_acceptable sk1 segment len" using acc seq_acceptable_rcv r0 r1 by metis
      obtain sk2 w2 where d: "(if len > 0 then tcpProcessSegmentData ops sk1 segment data len w1 else Some (sk1, w1)) = Some (sk2, w2)"
        and inv2: "tcp_inv sk2" and c2: "conn sk2 = conn sk1" and n2: "sndNxt sk2 = sndNxt sk1"
        using data_ok [OF inv1 rec acc1 len] .
      have con2: "connected sk2" using st1 conn_state [OF c2] by (simp add: connected_def)
      show ?thesis
      proof (cases "FIN segment \<and> rcvNxt sk2 = th_seqNum segment + len")
        case fin: True
        obtain e sk' w' where s: "tcpSendSegment ops (sk2\<lparr>rcvNxt := rcvNxt sk2 + 1\<rparr>) TCP_FLAG_ACK (sndNxt sk2) (rcvNxt sk2 + 1) 0 False w2 = Some (e, sk', w')"
          and k: "counters_ok sk'" and n': "sndNxt sk' = sndNxt sk2" using fin_acked [OF inv2 con2] .
        have n: "sndNxt sk' = sndNxt sk" using n0 n1 n2 n' by simp
        show ?thesis
        proof (cases "th_ackNum segment = sndNxt sk")
          case all: True
          obtain sk3 w3 where t: "enter_time_wait ops sk' w' = (sk3, w3)" and "tcp_inv sk3"
            and "sk_state sk3 = TCP_STATE_TIME_WAIT" using enter_time_wait_ok [OF k] .
          moreover have "tcpStateFinWait1 ops sk segment data len w = Some (sk3, w3)"
            unfolding tcpStateFinWait1_def using a ack True d fin s t f n all by simp
          ultimately show ?thesis using fl [OF True] fin st all by (auto simp: handles_def rfc793_move_def acks_all_def)
        next
          case part: False
          obtain sk3 w3 where t: "tcpChangeState ops sk' TCP_STATE_CLOSING w' = (sk3, w3)" and "tcp_inv sk3"
            and "sk_state sk3 = TCP_STATE_CLOSING"
            by (rule change_quiet [OF k, of TCP_STATE_CLOSING]) (simp_all add: receiving_def sending_def)
          moreover have "tcpStateFinWait1 ops sk segment data len w = Some (sk3, w3)"
            unfolding tcpStateFinWait1_def using a ack True d fin s t f n part by simp
          ultimately show ?thesis using fl [OF True] fin st part by (auto simp: handles_def rfc793_move_def acks_all_def)
        qed
      next
        case False
        then have "tcpStateFinWait1 ops sk segment data len w = Some (sk2, w2)"
          unfolding tcpStateFinWait1_def using a ack True d f by auto
        moreover have "rfc793_move sk segment (sk_state sk2)"
          using st st1 conn_state [OF c2] n0 fl [OF True] by (auto simp: rfc793_move_def acks_all_def)
        ultimately show ?thesis using inv2 by (intro handlesI)
      qed
    qed
  qed
qed

subsection \<open>TIME-WAIT\<close>

lemma tcp_inv_deleted: "tcp_inv sk \<Longrightarrow> tcp_inv ((tcpDeleteControlBlock sk)\<lparr>sk_type := t\<rparr>)"
  by (simp add: tcp_inv_def sizes_ok_def listen_ok_def connected_def snd_ok_def rcv_ok_def sack_ok_def route_ok_def
      socket_pseudo_def tcpDeleteControlBlock_def tcpFlushSynQueue_def tcpFlushRetransmitQueue_def cong: IpAddr.case_cong)

lemma sk_state_deleted: "sk_state ((tcpDeleteControlBlock sk)\<lparr>sk_type := t\<rparr>) = sk_state sk"
  by (simp add: tcpDeleteControlBlock_def tcpFlushSynQueue_def tcpFlushRetransmitQueue_def)

lemma tcpStateTimeWait_ok:
  assumes inv: "tcp_inv sk" and st: "sk_state sk = TCP_STATE_TIME_WAIT"
  shows "handles sk segment (tcpStateTimeWait ops sk segment len w)"
proof -
  have st': "sk_state sk \<noteq> TCP_STATE_CLOSED" "sk_state sk \<noteq> TCP_STATE_LISTEN" using st by simp_all
  have c: "connected sk" and route: "route_ok sk" using connectedI [OF st'] tcp_invD(4) [OF inv] by auto
  show ?thesis
  proof (rule tcpCheckSequenceNumber_cases [OF route, of segment len ops w])
    fix sk' w'
    assume "tcpCheckSequenceNumber ops sk segment len w = Some (ERROR_FAILURE, sk', w')" and s: "same sk' sk"
    then have "tcpStateTimeWait ops sk segment len w = Some (sk', w')" by (simp add: tcpStateTimeWait_def)
    then show ?thesis by (rule handles_stay) (use inv tcp_inv_same [OF s] s in \<open>simp_all add: same_def\<close>)
  next
    assume seq: "tcpCheckSequenceNumber ops sk segment len w = Some (NO_ERROR, sk, w)"
    show ?thesis
    proof (cases "RST segment")
      case True
      obtain sk' w' where ch: "tcpChangeState ops sk TCP_STATE_CLOSED w = (sk', w')" and i: "tcp_inv sk'"
        and s: "sk_state sk' = TCP_STATE_CLOSED"
        by (rule change_quiet [OF counters_okI [OF inv c], of TCP_STATE_CLOSED]) (simp_all add: receiving_def sending_def)
      then have "tcpStateTimeWait ops sk segment len w =
          Some (if ownedFlag sk' then sk' else (tcpDeleteControlBlock sk')\<lparr>sk_type := SOCKET_TYPE_UNUSED\<rparr>, w')"
        using True seq by (simp add: tcpStateTimeWait_def)
      then show ?thesis
        by (rule handlesI) (use i s tcp_inv_deleted [OF i] rfc793_reset [OF True st'(2)] in \<open>simp_all add: sk_state_deleted\<close>)
    next
      case False
      show ?thesis
      proof (rule tcpCheckSyn_cases [OF route, of segment ops len w])
        fix sk' w'
        assume "tcpCheckSyn ops sk segment len w = Some (ERROR_FAILURE, sk', w')" and s: "same sk' sk"
        with False seq have "tcpStateTimeWait ops sk segment len w = Some (sk', w')" by (simp add: tcpStateTimeWait_def)
        then show ?thesis by (rule handles_stay) (use inv tcp_inv_same [OF s] s in \<open>simp_all add: same_def\<close>)
      next
        assume syn: "tcpCheckSyn ops sk segment len w = Some (NO_ERROR, sk, w)"
        show ?thesis
        proof (cases "ACK segment \<and> FIN segment")
          case True
          obtain e sk' w' where "tcpSendSegment ops sk TCP_FLAG_ACK (sndNxt sk) (rcvNxt sk) 0 False w = Some (e, sk', w')"
            and s: "same sk' sk" using send_control_cases [OF route] .
          moreover obtain timer w2 where "tcpTimerStart ops (timeWaitTimer sk') TCP_2MSL_TIMER w' = (timer, w2)"
            by (rule tcpTimerStart_cases)
          ultimately have "tcpStateTimeWait ops sk segment len w = Some (sk'\<lparr>timeWaitTimer := timer\<rparr>, w2)"
            using True False seq syn by (simp add: tcpStateTimeWait_def)
          moreover have "same (sk'\<lparr>timeWaitTimer := timer\<rparr>) sk" using s same_trans same_upd(9) by blast
          ultimately show ?thesis using inv tcp_inv_same [of "sk'\<lparr>timeWaitTimer := timer\<rparr>" sk]
            by (intro handles_stay [where sk' = "sk'\<lparr>timeWaitTimer := timer\<rparr>"]) (simp_all add: same_def)
        next
          case n: False
          then have "tcpStateTimeWait ops sk segment len w = Some (sk, w)"
            using False seq syn by (auto simp: tcpStateTimeWait_def)
          then show ?thesis using inv by (rule handles_stay) simp
        qed
      qed
    qed
  qed
qed

end
