(* ===== verification/TcpOpen.thy ===== *)
theory TcpOpen
  imports TcpDispatch
begin

text \<open>Opening a connection: SYN-SENT and LISTEN; then the dispatch on the state.\<close>

subsection \<open>SYN-SENT\<close>

lemma clamp_mss_bounds: "64 \<le> unat (clamp_mss m) \<and> unat (clamp_mss m) \<le> 1430"
  by (auto simp: clamp_mss_def min_def max_def word_le_nat_alt)

lemma same_to_state: "same a b \<Longrightarrow> same (to_state st a) (to_state st b)"
  by (simp add: same_def conn_def snd_side_def rcv_side_def to_state_def)

text \<open>What the SYN of the peer does to the socket.\<close>

lemma syn_received_ok:
  assumes inv: "tcp_inv sk" and st: "sk_state sk = TCP_STATE_SYN_SENT" and opt: "mss_option segment \<noteq> None"
    and ack: "ACK segment \<Longrightarrow> th_ackNum segment = sndNxt sk"
  obtains sk' w' where "syn_received ops sk segment w = Some (sk', w')" and "route_ok sk'"
    and "tcp_inv (to_state TCP_STATE_ESTABLISHED sk')" and "tcp_inv (to_state TCP_STATE_SYN_RECEIVED sk')"
    and "0 < TCP_CMP_SEQ (sndUna sk') (iss sk') \<longleftrightarrow> ACK segment"
proof -
  have c: "connected sk" using st by (simp add: connected_def)
  note ok = tcp_invD [OF inv]
  have syn: "sndUna sk = iss sk" "sndNxt sk = iss sk + 1" using ok(5) [OF c] st by (auto simp: snd_ok_def)
  define sk1 where "sk1 = (if ACK segment
      then sk\<lparr>irs := th_seqNum segment, rcvNxt := th_seqNum segment + 1, sndUna := th_ackNum segment\<rparr>
      else sk\<lparr>irs := th_seqNum segment, rcvNxt := th_seqNum segment + 1\<rparr>)"
  obtain u sk2 w2 where rto: "tcpComputeRto ops sk1 w = (u, sk2, w2)" and s2: "same sk2 sk1"
    by (metis prod.collapse tcpComputeRto_same)
  obtain sk3 w3 where q: "tcpUpdateRetransmitQueue ops sk2 w2 = (sk3, w3)" and s3: "same sk3 sk2"
    by (metis prod.collapse tcpUpdateRetransmitQueue_same)
  obtain r where r: "mss_option segment = Some r" using opt by blast
  define sk4 where "sk4 = (case r of None \<Rightarrow> sk3 | Some m \<Rightarrow> sk3\<lparr>smss := clamp_mss m\<rparr>)"
  define sk5 where "sk5 = sk4\<lparr>cwnd := ucast (min (TCP_INITIAL_WINDOW * ucast (smss sk4)) (txBufferSize sk4))\<rparr>"
  have eq: "syn_received ops sk segment w = Some (sk5, w3)"
    unfolding syn_received_def sk5_def sk4_def
    by (simp add: Let_def rto q r sk1_def [symmetric] cong: if_cong)
  have s31: "same sk3 sk1" using s2 s3 same_trans by blast
  have una: "sndUna sk1 = (if ACK segment then sndNxt sk else iss sk)" using ack syn by (simp add: sk1_def)
  have mss: "64 \<le> unat (smss sk4) \<and> unat (smss sk4) \<le> 1430"
    using ok(5) [OF c] s31 clamp_mss_bounds by (auto simp: sk4_def snd_ok_def same_eqs sk1_def split: option.split)
  have s5: "same sk5 (sk1\<lparr>smss := smss sk4\<rparr>)"
    using s31 unfolding sk5_def sk4_def
    by (cases r) (simp_all add: same_def conn_def snd_side_def rcv_side_def)
  have fl: "flight sk1 \<le> flight sk" using una syn by (simp add: sk1_def)
  have base: "tcp_inv (to_state st' (sk1\<lparr>smss := smss sk4\<rparr>))"
    if "st' = TCP_STATE_ESTABLISHED \<or> st' = TCP_STATE_SYN_RECEIVED" for st'
  proof -
    let ?s = "to_state st' (sk1\<lparr>smss := smss sk4\<rparr>)"
    have "sizes_ok ?s" "rcv_ok ?s" "route_ok ?s" "listen_ok ?s"
      using ok(1) ok(4,6) [OF c] that
      by (auto simp: sizes_ok_def rcv_ok_def sk1_def listen_ok_def route_ok_def socket_pseudo_def cong: IpAddr.case_cong)
    moreover have "sack_ok ?s" using ok(7) [OF c] st that by (auto simp: sack_ok_def sk1_def blocks_ok_def)
    moreover have "snd_ok ?s"
      using ok(5) [OF c] st that mss fl by (auto simp: snd_ok_def sending_def sk1_def)
    ultimately show ?thesis by (simp add: tcp_inv_def)
  qed
  have "tcp_inv (to_state st' sk5)" if "st' = TCP_STATE_ESTABLISHED \<or> st' = TCP_STATE_SYN_RECEIVED" for st'
    using base [OF that] tcp_inv_same [OF same_to_state [OF s5]] by simp
  moreover have "route_ok sk5"
    using ok(4) [OF c] route_ok_same [OF s5]
    by (simp add: sk1_def route_ok_def socket_pseudo_def cong: IpAddr.case_cong)
  moreover have "0 < TCP_CMP_SEQ (sndUna sk5) (iss sk5) \<longleftrightarrow> ACK segment"
  proof -
    have "iss sk5 = iss sk" and "sndUna sk5 = sndUna sk1" using s5 by (simp_all add: same_eqs sk1_def)
    then show ?thesis unfolding una using syn by (simp add: TCP_CMP_SEQ_def)
  qed
  ultimately show ?thesis using that eq by blast
qed

lemma tcpStateSynSent_ok:
  assumes inv: "tcp_inv sk" and st: "sk_state sk = TCP_STATE_SYN_SENT"
    and opt: "mss_option segment \<noteq> None \<or> tcpStateSynSent ops sk segment len w \<noteq> None"
  shows "handles sk segment (tcpStateSynSent ops sk segment len w)"
proof -
  have st': "sk_state sk \<noteq> TCP_STATE_CLOSED" "sk_state sk \<noteq> TCP_STATE_LISTEN" using st by simp_all
  have c: "connected sk" and route: "route_ok sk" using connectedI [OF st'] tcp_invD(4) [OF inv] by auto
  consider (bad) "ACK segment" "th_ackNum segment \<noteq> sndNxt sk"
    | (rst) "ACK segment \<longrightarrow> th_ackNum segment = sndNxt sk" "RST segment"
    | (syn) "ACK segment \<longrightarrow> th_ackNum segment = sndNxt sk" "\<not> RST segment" "SYN segment"
    | (none) "ACK segment \<longrightarrow> th_ackNum segment = sndNxt sk" "\<not> RST segment" "\<not> SYN segment" by blast
  then show ?thesis
  proof cases
    case bad
    obtain e sk' w' where "tcpSendSegment ops sk TCP_FLAG_RST (th_ackNum segment) 0 0 False w = Some (e, sk', w')"
      and s: "same sk' sk" using send_control_cases [OF route] .
    with bad inv tcp_inv_same [OF s] s show ?thesis
      by (cases "RST segment") (auto simp: tcpStateSynSent_def handles_def same_eqs)
  next
    case rst
    obtain sk' w' where "tcpChangeState ops sk TCP_STATE_CLOSED w = (sk', w')" and "tcp_inv sk'"
      and "sk_state sk' = TCP_STATE_CLOSED"
      by (rule change_quiet [OF counters_okI [OF inv c], of TCP_STATE_CLOSED]) (simp_all add: receiving_def sending_def)
    with rst inv rfc793_reset [OF rst(2) st'(2)] show ?thesis
      by (cases "ACK segment") (auto simp: tcpStateSynSent_def handles_def)
  next
    case syn
    then have "mss_option segment = None \<Longrightarrow> tcpStateSynSent ops sk segment len w = None"
      by (auto simp: tcpStateSynSent_def syn_received_def Let_def split: prod.splits)
    with opt have opt': "mss_option segment \<noteq> None" by metis
    from syn obtain sk1 w1 where i: "syn_received ops sk segment w = Some (sk1, w1)" and r1: "route_ok sk1"
      and inv1: "tcp_inv (to_state TCP_STATE_ESTABLISHED sk1)" "tcp_inv (to_state TCP_STATE_SYN_RECEIVED sk1)"
      and cmp: "0 < TCP_CMP_SEQ (sndUna sk1) (iss sk1) \<longleftrightarrow> ACK segment"
      using syn_received_ok [OF inv st opt', of ops w] by blast
    show ?thesis
    proof (cases "ACK segment")
      case True
      define sk2 where "sk2 = sk1\<lparr>sndWnd := th_window segment, sndWl1 := th_seqNum segment, sndWl2 := th_ackNum segment,
                maxSndWnd := th_window segment\<rparr>"
      have s2: "same sk2 sk1" by (simp add: sk2_def)
      then have "route_ok sk2" using r1 route_ok_same by blast
      then obtain e sk3 w3 where s: "tcpSendSegment ops sk2 TCP_FLAG_ACK (sndNxt sk2) (rcvNxt sk2) 0 False w1 = Some (e, sk3, w3)"
        and s3: "same sk3 sk2" by (rule send_control_cases)
      obtain sk4 w4 where ch: "tcpChangeState ops sk3 TCP_STATE_ESTABLISHED w3 = (sk4, w4)"
        and s4: "same sk4 (to_state TCP_STATE_ESTABLISHED sk3)" by (rule tcpChangeState_cases)
      have "same sk4 (to_state TCP_STATE_ESTABLISHED sk1)" using s2 s3 s4 same_to_state same_trans by blast
      then have "tcp_inv sk4" and "sk_state sk4 = TCP_STATE_ESTABLISHED"
        using inv1(1) tcp_inv_same by (auto simp: same_eqs)
      moreover have "tcpStateSynSent ops sk segment len w = Some (sk4, w4)"
        using syn True i cmp s ch unfolding sk2_def by (simp add: tcpStateSynSent_def Let_def)
      ultimately show ?thesis using syn True st by (auto simp: handles_def rfc793_move_def acks_all_def)
    next
      case False
      obtain e sk3 w3 where s: "tcpSendSegment ops sk1 (TCP_FLAG_SYN OR TCP_FLAG_ACK) (iss sk1) (rcvNxt sk1) 0 True w1 = Some (e, sk3, w3)"
        and s3: "same sk3 sk1" using send_control_cases [OF r1] .
      obtain sk4 w4 where ch: "tcpChangeState ops sk3 TCP_STATE_SYN_RECEIVED w3 = (sk4, w4)"
        and s4: "same sk4 (to_state TCP_STATE_SYN_RECEIVED sk3)" by (rule tcpChangeState_cases)
      have "same sk4 (to_state TCP_STATE_SYN_RECEIVED sk1)" using s3 s4 same_to_state same_trans by blast
      then have "tcp_inv sk4" and "sk_state sk4 = TCP_STATE_SYN_RECEIVED"
        using inv1(2) tcp_inv_same by (auto simp: same_eqs)
      moreover have "tcpStateSynSent ops sk segment len w = Some (sk4, w4)"
        using syn False i cmp s ch by (simp add: tcpStateSynSent_def Let_def)
      ultimately show ?thesis using syn False st by (auto simp: handles_def rfc793_move_def)
    qed
  next
    case none
    then have "tcpStateSynSent ops sk segment len w = Some (sk, w)" by (auto simp: tcpStateSynSent_def)
    then show ?thesis using inv by (rule handles_stay) simp
  qed
qed

subsection \<open>LISTEN\<close>

text \<open>The queue of connection requests is bounded, and holds no request twice.\<close>

lemma word_of_nat_ge_iff:
  assumes "n \<le> 65535"
  shows "(word_of_nat n :: u32) \<ge> m \<longleftrightarrow> unat m \<le> n"
proof -
  have "unat (word_of_nat n :: u32) = n" using assms by (intro unat_of_nat_u32) linarith
  then show ?thesis by (simp add: word_le_nat_alt)
qed

lemma same_family_pseudo: "same_family (pseudo_src ph) (pseudo_dest ph)"
  by (cases ph) simp_all

lemma tcpStateListen_cases:
  assumes inv: "tcp_inv sk" and st: "sk_state sk = TCP_STATE_LISTEN"
    and opt: "mss_option segment \<noteq> None \<or> tcpStateListen ops sk interface ph segment len w \<noteq> None"
  obtains (kept) w' where "tcpStateListen ops sk interface ph segment len w = Some (sk, w')"
    | (queued) sk' w' item where "tcpStateListen ops sk interface ph segment len w = Some (sk', w')"
      and "same sk' (sk\<lparr>synQueue := synQueue sk @ [item]\<rparr>)" and "syn_item_ok item"
      and "length (synQueue sk) < unat (synQueueSize sk)" and "\<not> tcpIsDuplicateSyn sk ph segment"
      and "syn_srcAddr item = pseudo_src ph" and "syn_srcPort item = th_srcPort segment"
proof -
  obtain block w1 where al: "memAlloc ops sizeof_TcpSynQueueItem w = (block, w1)" by (metis surj_pair)
  consider "RST segment" | "\<not> RST segment" "ACK segment" | "\<not> RST segment" "\<not> ACK segment" "\<not> SYN segment"
    | "\<not> RST segment" "\<not> ACK segment" "SYN segment" "tcpIsDuplicateSyn sk ph segment"
    | "\<not> RST segment" "\<not> ACK segment" "SYN segment" "\<not> tcpIsDuplicateSyn sk ph segment"
      "synQueue sk \<noteq> [] \<and> word_of_nat (length (synQueue sk)) \<ge> synQueueSize sk"
    | "\<not> RST segment" "\<not> ACK segment" "SYN segment" "\<not> tcpIsDuplicateSyn sk ph segment"
      "\<not> (synQueue sk \<noteq> [] \<and> word_of_nat (length (synQueue sk)) \<ge> synQueueSize sk)" "block = None"
    | "\<not> RST segment" "\<not> ACK segment" "SYN segment" "\<not> tcpIsDuplicateSyn sk ph segment"
      "\<not> (synQueue sk \<noteq> [] \<and> word_of_nat (length (synQueue sk)) \<ge> synQueueSize sk)" "block \<noteq> None"
    by blast
  then show ?thesis
  proof cases
    case 7
    then have "mss_option segment = None \<Longrightarrow> tcpStateListen ops sk interface ph segment len w = None"
      using al by (auto simp: tcpStateListen_def)
    with opt have opt': "mss_option segment \<noteq> None" by metis
    obtain r where r: "mss_option segment = Some r" using opt' by blast
    define mss where "mss = (case r of None \<Rightarrow> min TCP_DEFAULT_MSS TCP_MAX_MSS | Some m \<Rightarrow> clamp_mss m)"
    define item where "item = \<lparr>syn_interface = interface, syn_srcAddr = pseudo_src ph,
                  syn_srcPort = th_srcPort segment, syn_destAddr = pseudo_dest ph,
                  syn_isn = th_seqNum segment, syn_mss = mss\<rparr>"
    have "64 \<le> unat mss \<and> unat mss \<le> 1430" using clamp_mss_bounds by (auto simp: mss_def split: option.split)
    then have item: "syn_item_ok item" by (simp add: syn_item_ok_def item_def same_family_pseudo)
    obtain sk' w' where ev: "tcpUpdateEvents ops (sk\<lparr>synQueue := synQueue sk @ [item]\<rparr>) w1 = (sk', w')"
      and s: "same sk' (sk\<lparr>synQueue := synQueue sk @ [item]\<rparr>)" by (rule tcpUpdateEvents_cases)
    have l: "length (synQueue sk) \<le> 16" and q: "1 \<le> unat (synQueueSize sk)"
      using inv st by (auto simp: tcp_inv_def listen_ok_def)
    have "length (synQueue sk) < unat (synQueueSize sk)"
    proof (cases "synQueue sk = []")
      case True
      then show ?thesis using q by simp
    next
      case False
      then show ?thesis using 7(5) word_of_nat_ge_iff [of "length (synQueue sk)" "synQueueSize sk"] l by auto
    qed
    moreover have "tcpStateListen ops sk interface ph segment len w = Some (sk', w')"
      using 7 al r ev unfolding tcpStateListen_def by (auto simp: mss_def [symmetric] item_def [symmetric])
    ultimately show ?thesis using queued [of sk' w' item] s item 7(4) by (simp add: item_def)
  qed (use kept al in \<open>auto simp: tcpStateListen_def\<close>)
qed

lemma tcpStateListen_ok:
  assumes inv: "tcp_inv sk" and st: "sk_state sk = TCP_STATE_LISTEN"
    and opt: "mss_option segment \<noteq> None \<or> tcpStateListen ops sk interface ph segment len w \<noteq> None"
  shows "handles sk segment (tcpStateListen ops sk interface ph segment len w)"
proof (rule tcpStateListen_cases [OF inv st opt])
  fix w'
  assume "tcpStateListen ops sk interface ph segment len w = Some (sk, w')"
  then show ?thesis using inv by (rule handles_stay) simp
next
  fix sk' w' item
  assume r: "tcpStateListen ops sk interface ph segment len w = Some (sk', w')"
    and s: "same sk' (sk\<lparr>synQueue := synQueue sk @ [item]\<rparr>)" and item: "syn_item_ok item"
    and l: "length (synQueue sk) < unat (synQueueSize sk)"
  let ?sk = "sk\<lparr>synQueue := synQueue sk @ [item]\<rparr>"
  have "sizes_ok ?sk = sizes_ok sk" "connected ?sk = connected sk" "route_ok ?sk = route_ok sk" "snd_ok ?sk = snd_ok sk"
    "rcv_ok ?sk = rcv_ok sk" "sack_ok ?sk = sack_ok sk"
    by (simp_all add: sizes_ok_def connected_def route_ok_def socket_pseudo_def snd_ok_def rcv_ok_def sack_ok_def
        cong: IpAddr.case_cong)
  moreover from this have "listen_ok ?sk" using inv st l item by (auto simp: tcp_inv_def listen_ok_def)
  ultimately have "tcp_inv sk'" using inv tcp_inv_same [OF s] by (simp add: tcp_inv_def)
  moreover have "sk_state sk' = sk_state sk" using s by (simp add: same_eqs)
  ultimately show ?thesis using r by (auto simp: handles_def)
qed

subsection \<open>Dispatch\<close>

text \<open>A segment whose options cannot be read matters only where its SYN is taken.\<close>

lemma dispatch_segment_ok:
  assumes inv: "tcp_inv sk" and len: "length data \<le> 65535"
    and opt: "mss_option segment \<noteq> None \<or> dispatch_segment ops interface ph segment data sk w \<noteq> None"
  shows "handles sk segment (dispatch_segment ops interface ph segment data sk w)"
proof -
  have l: "unat (word_of_nat (length data) :: u32) \<le> 65535" using len unat_of_nat_u32 [of "length data"] by linarith
  show ?thesis
  proof (cases "sk_state sk")
    case TCP_STATE_CLOSED
    then have "dispatch_segment ops interface ph segment data sk w =
        Some (sk, tcpStateClosed ops (Some interface) ph segment (word_of_nat (length data)) w)"
      by (simp add: dispatch_segment_def)
    then show ?thesis using inv by (rule handles_stay) simp
  next
    case st: TCP_STATE_LISTEN
    then have "dispatch_segment ops interface ph segment data sk w =
        tcpStateListen ops sk (Some interface) ph segment (word_of_nat (length data)) w"
      by (simp add: dispatch_segment_def)
    then show ?thesis using tcpStateListen_ok [OF inv st] opt by metis
  next
    case st: TCP_STATE_SYN_SENT
    then have "dispatch_segment ops interface ph segment data sk w =
        tcpStateSynSent ops sk segment (word_of_nat (length data)) w"
      by (simp add: dispatch_segment_def)
    then show ?thesis using tcpStateSynSent_ok [OF inv st] opt by metis
  qed (simp_all add: dispatch_segment_def
      tcpStateSynReceived_ok [OF inv _ l] tcpStateEstablished_ok [OF inv _ l] tcpStateCloseWait_ok [OF inv]
      tcpStateLastAck_ok [OF inv] tcpStateFinWait1_ok [OF inv _ l] tcpStateFinWait2_ok [OF inv _ l]
      tcpStateClosing_ok [OF inv] tcpStateTimeWait_ok [OF inv])
qed

text \<open>The one way not to return: the options of a SYN that is to be taken cannot be read.\<close>

definition syn_unreadable :: "Socket \<Rightarrow> TcpHeader \<Rightarrow> bool" where
  "syn_unreadable sk segment \<longleftrightarrow> (sk_state sk = TCP_STATE_LISTEN \<or> sk_state sk = TCP_STATE_SYN_SENT) \<and>
     SYN segment \<and> \<not> RST segment \<and> mss_option segment = None"

lemma dispatch_segment_stuck:
  assumes inv: "tcp_inv sk" and len: "length data \<le> 65535"
    and stuck: "dispatch_segment ops interface ph segment data sk w = None"
  shows "syn_unreadable sk segment"
proof -
  have opt: "mss_option segment = None"
  proof (rule ccontr)
    assume "mss_option segment \<noteq> None"
    then have "mss_option segment \<noteq> None \<or> dispatch_segment ops interface ph segment data sk w \<noteq> None" by (rule disjI1)
    then have "handles sk segment (dispatch_segment ops interface ph segment data sk w)"
      by (rule dispatch_segment_ok [OF inv len])
    then show False using stuck by (simp add: handles_def)
  qed
  have l: "unat (word_of_nat (length data) :: u32) \<le> 65535" using len unat_of_nat_u32 [of "length data"] by linarith
  have two: "sk_state sk = TCP_STATE_LISTEN \<or> sk_state sk = TCP_STATE_SYN_SENT"
  proof (cases "sk_state sk")
    case TCP_STATE_SYN_RECEIVED
    then show ?thesis using tcpStateSynReceived_ok [OF inv _ l, of segment ops data w] stuck by (simp add: dispatch_segment_def handles_def)
  next
    case TCP_STATE_ESTABLISHED
    then show ?thesis using tcpStateEstablished_ok [OF inv _ l, of segment ops data w] stuck by (simp add: dispatch_segment_def handles_def)
  next
    case TCP_STATE_FIN_WAIT_1
    then show ?thesis using tcpStateFinWait1_ok [OF inv _ l, of segment ops data w] stuck by (simp add: dispatch_segment_def handles_def)
  next
    case TCP_STATE_FIN_WAIT_2
    then show ?thesis using tcpStateFinWait2_ok [OF inv _ l, of segment ops data w] stuck by (simp add: dispatch_segment_def handles_def)
  next
    case TCP_STATE_CLOSE_WAIT
    then show ?thesis using tcpStateCloseWait_ok [OF inv, of segment ops "word_of_nat (length data)" w] stuck by (simp add: dispatch_segment_def handles_def)
  next
    case TCP_STATE_LAST_ACK
    then show ?thesis using tcpStateLastAck_ok [OF inv, of segment ops "word_of_nat (length data)" w] stuck by (simp add: dispatch_segment_def handles_def)
  next
    case TCP_STATE_CLOSING
    then show ?thesis using tcpStateClosing_ok [OF inv, of segment ops "word_of_nat (length data)" w] stuck by (simp add: dispatch_segment_def handles_def)
  next
    case TCP_STATE_TIME_WAIT
    then show ?thesis using tcpStateTimeWait_ok [OF inv, of segment ops "word_of_nat (length data)" w] stuck by (simp add: dispatch_segment_def handles_def)
  qed (use stuck in \<open>simp_all add: dispatch_segment_def\<close>)
  moreover have "SYN segment \<and> \<not> RST segment"
    using two
  proof
    assume st: "sk_state sk = TCP_STATE_LISTEN"
    then have "tcpStateListen ops sk (Some interface) ph segment (word_of_nat (length data)) w = None"
      using stuck by (simp add: dispatch_segment_def)
    then show ?thesis unfolding tcpStateListen_def by (cases "RST segment"; cases "ACK segment"; cases "SYN segment") simp_all
  next
    assume st: "sk_state sk = TCP_STATE_SYN_SENT"
    then have "connected sk" by (simp add: connected_def)
    then have route: "route_ok sk" by (rule tcp_invD(4) [OF inv])
    obtain e sk1 w1 where "tcpSendSegment ops sk TCP_FLAG_RST (th_ackNum segment) 0 0 False w = Some (e, sk1, w1)"
      using send_control_cases [OF route] .
    moreover have "tcpStateSynSent ops sk segment (word_of_nat (length data)) w = None"
      using stuck st by (simp add: dispatch_segment_def)
    ultimately show ?thesis
      unfolding tcpStateSynSent_def by (cases "RST segment"; cases "SYN segment") (simp_all split: if_splits)
  qed
  ultimately show ?thesis using opt by (simp add: syn_unreadable_def)
qed

end
