(* ===== verification/TcpCalls.thy ===== *)
theory TcpCalls
  imports TcpOpen
begin

text \<open>
  The periodic tick of a connection and the calls of the user: they return, keep the invariant, and a tick
  changes the state only to close the connection.
\<close>

definition ticks :: "Socket \<Rightarrow> (Socket \<times> 'w) option \<Rightarrow> bool" where
  "ticks sk r \<longleftrightarrow> (\<exists>sk' w'. r = Some (sk', w') \<and> tcp_inv sk' \<and>
     (sk_state sk' = sk_state sk \<or> sk_state sk' = TCP_STATE_CLOSED))"

lemma ticks_same:
  "r = Some (sk', w') \<Longrightarrow> tcp_inv sk \<Longrightarrow> same sk' sk \<Longrightarrow> ticks sk r"
  using tcp_inv_same [of sk' sk] by (auto simp: ticks_def same_eqs)

lemma closed_tick:
  assumes "tcp_inv sk"
  obtains sk' w' where "tcpChangeState ops sk TCP_STATE_CLOSED w = (sk', w')" and "tcp_inv sk'"
    and "sk_state sk' = TCP_STATE_CLOSED"
proof -
  obtain sk' w' where "tcpChangeState ops sk TCP_STATE_CLOSED w = (sk', w')" and s: "same sk' (to_state TCP_STATE_CLOSED sk)"
    by (rule tcpChangeState_cases)
  then show ?thesis using that tcp_inv_closed [OF assms] tcp_inv_same [OF s] by (simp add: same_eqs)
qed

subsection \<open>Retransmission and window probes\<close>

lemma timed_out_same: "same (timed_out sk) sk"
  by (simp add: timed_out_def Let_def same_def conn_def snd_side_def rcv_side_def)

lemma timed_out_simps [simp]: "retransmitCount (timed_out sk) = retransmitCount sk" "rto (timed_out sk) = rto sk"
  "retransmitTimer (timed_out sk) = retransmitTimer sk" "retransmitQueue (timed_out sk) = retransmitQueue sk"
  by (simp_all add: timed_out_def Let_def)

lemma tick_retransmit_ok:
  assumes inv: "tcp_inv sk"
  shows "ticks sk (tick_retransmit ops sk w)"
proof -
  obtain elapsed w1 where t: "tcpTimerElapsed ops (retransmitTimer sk) w = (elapsed, w1)" by (rule tcpTimerElapsed_cases)
  have inv': "tcp_inv (timed_out sk)" using inv tcp_inv_same [OF timed_out_same] by simp
  consider "retransmitQueue sk = [] \<or> \<not> elapsed" | "retransmitQueue sk \<noteq> []" "elapsed" "retransmitCount sk < TCP_MAX_RETRIES"
    | "retransmitQueue sk \<noteq> []" "elapsed" "\<not> retransmitCount sk < TCP_MAX_RETRIES" by blast
  then show ?thesis
  proof cases
    case 1
    then have "\<exists>w'. tick_retransmit ops sk w = Some (sk, w')" using t by (auto simp: tick_retransmit_def)
    then show ?thesis using inv by (auto simp: ticks_def)
  next
    case 2
    obtain e w2 where r: "tcpRetransmitSegment ops (timed_out sk) w1 = Some (e, w2)"
      using tcpRetransmitSegment_cases [OF tcp_invD(2) [OF inv']] .
    define v where "v = min (rto sk * 2) TCP_MAX_RTO"
    obtain timer w3 where s: "tcpTimerStart ops (retransmitTimer sk) v w2 = (timer, w3)" by (rule tcpTimerStart_cases)
    have "tick_retransmit ops sk w =
        Some ((timed_out sk)\<lparr>rto := v, retransmitTimer := timer, retransmitCount := retransmitCount sk + 1, rttBusy := False\<rparr>, w3)"
      using 2 t r s by (simp add: tick_retransmit_def Let_def v_def)
    moreover have "same ((timed_out sk)\<lparr>rto := v, retransmitTimer := timer, retransmitCount := n, rttBusy := False\<rparr>) sk" for n
      using timed_out_same [of sk] by (simp add: same_def conn_def snd_side_def rcv_side_def)
    ultimately show ?thesis using inv by (intro ticks_same)
  next
    case 3
    obtain sk' w' where ch: "tcpChangeState ops (timed_out sk) TCP_STATE_CLOSED w1 = (sk', w')" and i: "tcp_inv sk'"
      and st: "sk_state sk' = TCP_STATE_CLOSED" using closed_tick [OF inv'] .
    let ?sk = "sk'\<lparr>retransmitTimer := tcpTimerStop (retransmitTimer sk'), rttBusy := False\<rparr>"
    have "tick_retransmit ops sk w = Some (?sk, w')" using 3 t ch by (simp add: tick_retransmit_def Let_def)
    moreover have "same ?sk sk'" by (simp add: same_def conn_def snd_side_def rcv_side_def)
    ultimately show ?thesis using i st tcp_inv_same [of ?sk sk'] by (auto simp: ticks_def)
  qed
qed

lemma tick_persist_ok:
  assumes inv: "tcp_inv sk" and route: "route_ok sk"
  shows "ticks sk (tick_persist ops sk w)"
proof -
  obtain elapsed w1 where t: "tcpTimerElapsed ops (persistTimer sk) w = (elapsed, w1)" by (rule tcpTimerElapsed_cases)
  consider "\<not> (sndWnd sk = 0 \<and> wndProbeInterval sk \<noteq> 0) \<or> \<not> elapsed"
    | "sndWnd sk = 0 \<and> wndProbeInterval sk \<noteq> 0" "elapsed" "wndProbeCount sk < TCP_MAX_RETRIES"
    | "sndWnd sk = 0 \<and> wndProbeInterval sk \<noteq> 0" "elapsed" "\<not> wndProbeCount sk < TCP_MAX_RETRIES" by blast
  then show ?thesis
  proof cases
    case 1
    then have "\<exists>w'. tick_persist ops sk w = Some (sk, w')" using t by (auto simp: tick_persist_def)
    then show ?thesis using inv by (auto simp: ticks_def)
  next
    case 2
    obtain e sk1 w2 where s: "tcpSendSegment ops sk TCP_FLAG_ACK (sndNxt sk - 1) (rcvNxt sk) 0 False w1 = Some (e, sk1, w2)"
      and s1: "same sk1 sk" using send_control_cases [OF route] .
    define v where "v = min (wndProbeInterval sk1 * 2) TCP_MAX_PROBE_INTERVAL"
    obtain timer w3 where ts: "tcpTimerStart ops (persistTimer sk1) v w2 = (timer, w3)" by (rule tcpTimerStart_cases)
    have "tick_persist ops sk w =
        Some (sk1\<lparr>wndProbeInterval := v, persistTimer := timer, wndProbeCount := wndProbeCount sk1 + 1\<rparr>, w3)"
      using 2 t s ts by (simp add: tick_persist_def Let_def v_def)
    moreover have "same (sk1\<lparr>wndProbeInterval := v, persistTimer := timer, wndProbeCount := n\<rparr>) sk" for n
      using s1 by (simp add: same_def conn_def snd_side_def rcv_side_def)
    ultimately show ?thesis using inv by (intro ticks_same)
  next
    case 3
    obtain sk' w' where "tcpChangeState ops sk TCP_STATE_CLOSED w1 = (sk', w')" and "tcp_inv sk'"
      and "sk_state sk' = TCP_STATE_CLOSED" using closed_tick [OF inv] .
    with 3 t show ?thesis by (auto simp: tick_persist_def ticks_def)
  qed
qed

lemma tick_override_ok:
  assumes inv: "tcp_inv sk"
  shows "\<exists>sk' w'. tick_override ops sk w = Some (sk', w') \<and> tcp_inv sk' \<and> conn sk' = conn sk"
proof -
  obtain elapsed w1 where t: "tcpTimerElapsed ops (overrideTimer sk) w = (elapsed, w1)" by (rule tcpTimerElapsed_cases)
  show ?thesis
  proof (cases "((sk_state sk = TCP_STATE_ESTABLISHED \<or> sk_state sk = TCP_STATE_CLOSE_WAIT) \<and> sndUser sk > 0) \<and> elapsed")
    case False
    then have "\<exists>w'. tick_override ops sk w = Some (sk, w')" using t by (auto simp: tick_override_def)
    then show ?thesis using inv by auto
  next
    case True
    then have c: "connected sk" and st: "sk_state sk \<noteq> TCP_STATE_SYN_SENT" by (auto simp: connected_def)
    note ok = tcp_invD [OF inv]
    obtain e n sk1 w2 where l: "nagle_loop ops SOCKET_FLAG_NO_DELAY (usable_window sk) sk w1 = Some (e, sk1, w2)"
      and n: "n \<le> unat (sndUser sk)" and s: "same sk1 (sent n sk)"
      using nagle_loop_cases [OF ok(4) [OF c] ok(2) ok(8) [OF c], of ops SOCKET_FLAG_NO_DELAY "usable_window sk" w1]
      by (elim exE conjE)
    have o: "override_loop ops (usable_window sk) sk w1 = Some (sk1, w2)"
      using override_loop_eq [OF ok(4) [OF c] ok(2) ok(8) [OF c], of ops "usable_window sk" w1] l by simp
    have inv1: "tcp_inv sk1" using tcp_inv_same [OF s] tcp_inv_sent [OF inv c n st] by simp
    have c1: "conn sk1 = conn sk" using s by (simp add: same_def conn_def sent_def)
    obtain sk2 w3 where ev: "tcpUpdateEvents ops sk1 w2 = (sk2, w3)" and s2: "same sk2 sk1" by (rule tcpUpdateEvents_cases)
    obtain timer w4 where ts: "tcpTimerStart ops (overrideTimer sk2) TCP_OVERRIDE_TIMEOUT w3 = (timer, w4)"
      by (rule tcpTimerStart_cases)
    have "tick_override ops sk w = Some (if sndUser sk2 > 0 then (sk2\<lparr>overrideTimer := timer\<rparr>, w4) else (sk2, w3))"
      using True t o ev ts by (simp add: tick_override_def)
    moreover have "same (sk2\<lparr>overrideTimer := timer\<rparr>) sk1" using s2 same_trans same_upd(7) by blast
    ultimately show ?thesis
      using inv1 c1 tcp_inv_same [OF s2] tcp_inv_same [of "sk2\<lparr>overrideTimer := timer\<rparr>" sk1] s2
      by (auto simp: same_def)
  qed
qed

lemma tick_fin_wait_2_ok:
  assumes inv: "tcp_inv sk"
  shows "ticks sk (Some (tick_fin_wait_2 ops sk w))"
proof -
  obtain elapsed w1 where t: "tcpTimerElapsed ops (finWait2Timer sk) w = (elapsed, w1)" by (rule tcpTimerElapsed_cases)
  obtain sk' w' where "tcpChangeState ops sk TCP_STATE_CLOSED w1 = (sk', w')" and "tcp_inv sk'"
    and "sk_state sk' = TCP_STATE_CLOSED" using closed_tick [OF inv] .
  with t inv show ?thesis by (auto simp: tick_fin_wait_2_def ticks_def)
qed

lemma tick_time_wait_ok:
  assumes inv: "tcp_inv sk"
  shows "ticks sk (Some (tick_time_wait ops sk w))"
proof -
  obtain elapsed w1 where t: "tcpTimerElapsed ops (timeWaitTimer sk) w = (elapsed, w1)" by (rule tcpTimerElapsed_cases)
  obtain sk' w' where "tcpChangeState ops sk TCP_STATE_CLOSED w1 = (sk', w')" and i: "tcp_inv sk'"
    and "sk_state sk' = TCP_STATE_CLOSED" using closed_tick [OF inv] .
  moreover define sk'' where "sk'' = (if ownedFlag sk' then sk' else (tcpDeleteControlBlock sk')\<lparr>sk_type := SOCKET_TYPE_UNUSED\<rparr>)"
  moreover have "tcp_inv sk''" and "sk_state sk'' = sk_state sk'"
    using i tcp_inv_deleted [OF i] by (simp_all add: sk''_def sk_state_deleted)
  ultimately have "tick_time_wait ops sk w = (sk'', w') \<and> tcp_inv sk'' \<and> sk_state sk'' = TCP_STATE_CLOSED \<or>
      tick_time_wait ops sk w = (sk, w1) \<or> tick_time_wait ops sk w = (sk, w)"
    using t by (simp add: tick_time_wait_def)
  then show ?thesis using inv by (auto simp: ticks_def)
qed

subsection \<open>The tick\<close>

lemma ticks_Some:
  assumes "ticks sk r"
  obtains sk' w' where "r = Some (sk', w')" and "tcp_inv sk'" and "sk_state sk' = sk_state sk \<or> sk_state sk' = TCP_STATE_CLOSED"
  using assms by (auto simp: ticks_def)

lemma route_ok_inv: "tcp_inv sk \<Longrightarrow> sk_state sk \<noteq> TCP_STATE_CLOSED \<Longrightarrow> route_ok sk"
  by (auto simp: tcp_inv_def listen_ok_def connected_def)

lemma tcpTickSocket_ok:
  assumes inv: "tcp_inv sk"
  shows "ticks sk (tcpTickSocket ops sk w)"
proof (cases "sk_type sk \<noteq> SOCKET_TYPE_STREAM \<or> sk_state sk = TCP_STATE_CLOSED")
  case True
  then have "tcpTickSocket ops sk w = Some (sk, w)" unfolding tcpTickSocket_def by (rule if_P)
  then show ?thesis using inv by (simp add: ticks_def)
next
  case False
  obtain sk1 w1 where 1: "tick_retransmit ops sk w = Some (sk1, w1)" "tcp_inv sk1"
    "sk_state sk1 = sk_state sk \<or> sk_state sk1 = TCP_STATE_CLOSED"
    using tick_retransmit_ok [OF inv, of ops w] by (rule ticks_Some)
  show ?thesis
  proof (cases "sk_state sk1 = TCP_STATE_CLOSED")
    case True
    then show ?thesis using False 1 by (auto simp: tcpTickSocket_def ticks_def)
  next
    case open1: False
    obtain sk2 w2 where 2: "tick_persist ops sk1 w1 = Some (sk2, w2)" "tcp_inv sk2"
      "sk_state sk2 = sk_state sk1 \<or> sk_state sk2 = TCP_STATE_CLOSED"
      using tick_persist_ok [OF 1(2) route_ok_inv [OF 1(2) open1], of ops w1] by (rule ticks_Some)
    obtain sk3 w3 where 3: "tick_override ops sk2 w2 = Some (sk3, w3)" "tcp_inv sk3" "conn sk3 = conn sk2"
      using tick_override_ok [OF 2(2), of ops w2] by (elim exE conjE)
    obtain sk4 w4 where 4: "Some (tick_fin_wait_2 ops sk3 w3) = Some (sk4, w4)" "tcp_inv sk4"
      "sk_state sk4 = sk_state sk3 \<or> sk_state sk4 = TCP_STATE_CLOSED"
      using tick_fin_wait_2_ok [OF 3(2), of ops w3] by (rule ticks_Some)
    obtain sk5 w5 where 5: "Some (tick_time_wait ops sk4 w4) = Some (sk5, w5)" "tcp_inv sk5"
      "sk_state sk5 = sk_state sk4 \<or> sk_state sk5 = TCP_STATE_CLOSED"
      using tick_time_wait_ok [OF 4(2), of ops w4] by (rule ticks_Some)
    have "tcpTickSocket ops sk w = Some (sk5, w5)"
      using False open1 1(1) 2(1) 3(1) 4(1) 5(1) by (simp add: tcpTickSocket_def)
    then show ?thesis using 1(3) 2(3) conn_state [OF 3(3)] 4(3) 5(2,3) by (auto simp: ticks_def)
  qed
qed

section \<open>The calls of the user\<close>

text \<open>The steps of the user calls: writing, reading, sending the FIN, opening, accepting and aborting.\<close>

subsection \<open>Writing\<close>

text \<open>\<open>n\<close> more bytes wait to be sent.\<close>

definition queued :: "nat \<Rightarrow> Socket \<Rightarrow> Socket" where
  "queued n sk = sk\<lparr>sndUser := sndUser sk + word_of_nat n\<rparr>"

lemma tcpWriteTxBuffer_cases:
  assumes "txBufferSize sk \<noteq> 0"
  obtains b where "tcpWriteTxBuffer sk seqNum data = Some (sk\<lparr>txBuffer := b\<rparr>)" and "length b = length (txBuffer sk)"
proof (cases "ring_offset seqNum (iss sk) (txBufferSize sk)")
  case None
  then show ?thesis using assms by (simp add: ring_offset_def)
next
  case (Some offset)
  show ?thesis
  proof (cases "offset + length data \<le> unat (txBufferSize sk)")
    case True
    then have "tcpWriteTxBuffer sk seqNum data = Some (sk\<lparr>txBuffer := buf_write (txBuffer sk) offset data\<rparr>)"
      by (simp add: tcpWriteTxBuffer_def Some)
    then show ?thesis by (rule that) (simp add: length_buf_write)
  next
    case False
    let ?n = "unat (txBufferSize sk)"
    have "tcpWriteTxBuffer sk seqNum data =
        Some (sk\<lparr>txBuffer := buf_write (buf_write (txBuffer sk) offset (take (?n - offset) data)) 0 (drop (?n - offset) data)\<rparr>)"
      using False by (simp add: tcpWriteTxBuffer_def Some Let_def)
    then show ?thesis by (rule that) (simp add: length_buf_write)
  qed
qed

lemma unat_u16_of_nat: "n \<le> 65535 \<Longrightarrow> unat (word_of_nat n :: u16) = n"
  by (simp add: unsigned_of_nat take_bit_nat_eq_self)

lemma tcp_inv_queued:
  assumes inv: "tcp_inv sk" and st: "sk_state sk = TCP_STATE_ESTABLISHED \<or> sk_state sk = TCP_STATE_CLOSE_WAIT"
    and n: "flight sk + unat (sndUser sk) + n \<le> unat (txBufferSize sk)"
  shows "tcp_inv (queued n sk)"
proof -
  have c: "connected sk" using st by (auto simp: connected_def)
  note ok = tcp_invD [OF inv]
  have le: "unat (sndUser sk) + n \<le> 22880" using n ok(1) by (simp add: sizes_ok_def)
  have m: "unat (word_of_nat n :: u16) = n" using le by (intro unat_u16_of_nat) linarith
  have "unat (sndUser sk + word_of_nat n) = unat (sndUser sk) + n"
    using le m by (subst unat_add_lem [THEN iffD1]) simp_all
  then have "snd_ok (queued n sk)"
    using ok(5) [OF c] st n by (auto simp: snd_ok_def queued_def)
  moreover have "route_ok (queued n sk) = route_ok sk" "sizes_ok (queued n sk) = sizes_ok sk"
    "rcv_ok (queued n sk) = rcv_ok sk" "sack_ok (queued n sk) = sack_ok sk" "listen_ok (queued n sk)"
    using st by (auto simp: route_ok_def socket_pseudo_def sizes_ok_def rcv_ok_def sack_ok_def listen_ok_def queued_def
        cong: IpAddr.case_cong)
  ultimately show ?thesis using ok c by (simp add: tcp_inv_def)
qed

lemma tx_used:
  assumes "tcp_inv sk" and "connected sk"
  shows "unat (ucast (sndUser sk) + sndNxt sk - sndUna sk :: u32) = flight sk + unat (sndUser sk)"
proof -
  have b: "flight sk + unat (sndUser sk) < 4294967296"
    using tcp_invD(1,5) [OF assms(1)] assms(2) by (auto simp: snd_ok_def sizes_ok_def split: if_splits)
  have "ucast (sndUser sk) + sndNxt sk - sndUna sk = (sndNxt sk - sndUna sk) + (ucast (sndUser sk) :: u32)" by simp
  moreover have "unat ((sndNxt sk - sndUna sk) + (ucast (sndUser sk) :: u32)) = flight sk + unat (sndUser sk)"
    using b by (subst unat_add_lem [THEN iffD1]) simp_all
  ultimately show ?thesis by (simp only:)
qed

lemma send_chunk_ok:
  assumes inv: "tcp_inv sk" and st: "sk_state sk = TCP_STATE_ESTABLISHED \<or> sk_state sk = TCP_STATE_CLOSE_WAIT"
  obtains e n sk' w' where "send_chunk ops sk data w = Some (e, n, sk', w')" and "tcp_inv sk'" and "conn sk' = conn sk"
    and "n \<le> length data"
proof -
  have c: "connected sk" using st by (auto simp: connected_def)
  note ok = tcp_invD [OF inv]
  define used where "used = (ucast (sndUser sk) + sndNxt sk - sndUna sk :: u32)"
  have u: "unat used = flight sk + unat (sndUser sk)" using tx_used [OF inv c] by (simp add: used_def)
  define n where "n = min (unat (txBufferSize sk - used)) (length data)"
  consider "used \<ge> txBufferSize sk" | "\<not> used \<ge> txBufferSize sk" "n = 0" | "\<not> used \<ge> txBufferSize sk" "n > 0" by blast
  then show ?thesis
  proof cases
    case 1
    then have "send_chunk ops sk data w = Some (ERROR_FAILURE, 0, sk, w)" by (simp add: send_chunk_def used_def)
    then show ?thesis using that inv by simp
  next
    case 2
    then have "send_chunk ops sk data w = Some (NO_ERROR, 0, sk, w)"
      by (simp add: send_chunk_def used_def [symmetric] n_def [symmetric] Let_def)
    then show ?thesis using that inv by simp
  next
    case 3
    then have lt: "used < txBufferSize sk" by simp
    then have d: "unat (txBufferSize sk - used) = unat (txBufferSize sk) - unat used"
      by (simp add: unat_sub order_less_imp_le)
    have room: "flight sk + unat (sndUser sk) + n \<le> unat (txBufferSize sk)"
      using d u lt by (simp add: n_def word_less_nat_alt)
    obtain b where wr: "tcpWriteTxBuffer sk (sndNxt sk + ucast (sndUser sk)) (take n data) = Some (sk\<lparr>txBuffer := b\<rparr>)"
      and lb: "length b = length (txBuffer sk)" using tcpWriteTxBuffer_cases [OF ok(2)] .
    define sk1 where "sk1 = sk\<lparr>txBuffer := b\<rparr>"
    have inv1: "tcp_inv sk1" using inv by (simp add: sk1_def tcp_inv_buffers)
    have inv2: "tcp_inv (queued n sk1)"
      by (rule tcp_inv_queued [OF inv1]) (use st room in \<open>simp_all add: sk1_def\<close>)
    obtain sk3 w3 where ev: "tcpUpdateEvents ops (queued n sk1) w = (sk3, w3)" and s3: "same sk3 (queued n sk1)"
      by (rule tcpUpdateEvents_cases)
    obtain timer w4 where ts: "tcpTimerStart ops (overrideTimer sk3) TCP_OVERRIDE_TIMEOUT w3 = (timer, w4)"
      by (rule tcpTimerStart_cases)
    have r: "send_chunk ops sk data w =
        Some (NO_ERROR, n, if unat (sndUser sk3) = n then (sk3\<lparr>overrideTimer := timer\<rparr>, w4) else (sk3, w3))"
      using 3 wr ev ts
      by (simp add: send_chunk_def used_def [symmetric] n_def [symmetric] Let_def sk1_def [symmetric] queued_def)
    have c3: "conn sk3 = conn sk" and i3: "tcp_inv sk3"
      using s3 inv2 tcp_inv_same [OF s3] by (simp_all add: same_def queued_def conn_def sk1_def)
    have s4: "same (sk3\<lparr>overrideTimer := timer\<rparr>) sk3" by simp
    have "n \<le> length data" by (simp add: n_def)
    with r c3 i3 tcp_inv_same [OF s4] s4 that show ?thesis
      by (cases "unat (sndUser sk3) = n") (simp_all add: same_def)
  qed
qed

subsection \<open>Reading\<close>

text \<open>\<open>n\<close> bytes have been handed to the user.\<close>

definition taken :: "nat \<Rightarrow> Socket \<Rightarrow> Socket" where
  "taken n sk = sk\<lparr>rcvUser := rcvUser sk - word_of_nat n\<rparr>"

lemma taken_user: "n \<le> unat (rcvUser sk) \<Longrightarrow> unat (rcvUser (taken n sk)) = unat (rcvUser sk) - n"
  using unat_u16_max [of "rcvUser sk"] unat_u16_of_nat [of n]
  by (simp add: taken_def unat_sub word_le_nat_alt)

lemma taken_frame:
  "route_ok (taken n sk) = route_ok sk" "sizes_ok (taken n sk) = sizes_ok sk" "snd_ok (taken n sk) = snd_ok sk"
  "sack_ok (taken n sk) = sack_ok sk" "listen_ok (taken n sk) = listen_ok sk" "connected (taken n sk) = connected sk"
  by (simp_all add: route_ok_def socket_pseudo_def sizes_ok_def snd_ok_def sack_ok_def listen_ok_def connected_def taken_def
      cong: IpAddr.case_cong)

lemma tcp_inv_taken:
  assumes "tcp_inv sk" and "n \<le> unat (rcvUser sk)"
  shows "tcp_inv (taken n sk)"
proof -
  have "rcv_ok (taken n sk)" if "rcv_ok sk"
    using that taken_user [OF assms(2)] by (simp add: rcv_ok_def) (simp add: taken_def)
  then show ?thesis using assms(1) by (simp add: tcp_inv_def taken_frame)
qed

text \<open>Opening the receive window as far as the buffer allows.\<close>

lemma blocks_ok_mono: "blocks_ok base wnd bs \<Longrightarrow> wnd \<le> wnd' \<Longrightarrow> blocks_ok base wnd' bs"
  by (fastforce simp: blocks_ok_def block_ok_def)

definition opened :: "Socket \<Rightarrow> Socket" where
  "opened sk = sk\<lparr>rcvWnd := rcvWnd sk + ucast (rxBufferSize sk - ucast (rcvUser sk) - ucast (rcvWnd sk))\<rparr>"

lemma opened_wnd:
  assumes "rcv_ok sk" and "sizes_ok sk"
  shows "unat (rcvWnd (opened sk)) = unat (rxBufferSize sk) - unat (rcvUser sk)"
proof -
  define red where "red = (rxBufferSize sk - ucast (rcvUser sk) - ucast (rcvWnd sk) :: u32)"
  have b: "unat (rcvUser sk) + unat (rcvWnd sk) \<le> unat (rxBufferSize sk)" "unat (rxBufferSize sk) \<le> 22880"
    using assms by (simp_all add: rcv_ok_def sizes_ok_def)
  have 1: "unat (rxBufferSize sk - ucast (rcvUser sk)) = unat (rxBufferSize sk) - unat (rcvUser sk)"
    using b by (subst unat_sub) (simp_all add: word_le_nat_alt)
  then have 2: "unat red = unat (rxBufferSize sk) - unat (rcvUser sk) - unat (rcvWnd sk)"
    unfolding red_def using b by (subst unat_sub) (simp_all add: word_le_nat_alt)
  then have 3: "unat (ucast red :: u16) = unat red" using b by (intro unat_ucast_u32_u16) linarith
  have "unat (rcvWnd sk + ucast red) = unat (rcvWnd sk) + unat red"
    using b 2 3 by (subst unat_add_lem [THEN iffD1]) simp_all
  then show ?thesis using b 2 by (simp add: opened_def red_def [symmetric])
qed

lemma tcp_inv_opened:
  assumes inv: "tcp_inv sk" and c: "connected sk"
  shows "tcp_inv (opened sk)"
proof -
  note ok = tcp_invD [OF inv]
  note w = opened_wnd [OF ok(6) [OF c] ok(1)]
  have le: "unat (rcvWnd sk) \<le> unat (rcvWnd (opened sk))" using ok(6) [OF c] w by (simp add: rcv_ok_def)
  have "rcv_ok (opened sk)" using ok(6) [OF c] w by (simp add: rcv_ok_def) (simp add: opened_def)
  moreover have "sack_ok (opened sk)"
    using ok(7) [OF c] blocks_ok_mono [OF _ le] by (simp add: sack_ok_def) (simp add: opened_def)
  moreover have "route_ok (opened sk) = route_ok sk" "sizes_ok (opened sk) = sizes_ok sk" "snd_ok (opened sk) = snd_ok sk"
    "listen_ok (opened sk) = listen_ok sk" "connected (opened sk) = connected sk"
    by (simp_all add: route_ok_def socket_pseudo_def sizes_ok_def snd_ok_def listen_ok_def connected_def opened_def
        cong: IpAddr.case_cong)
  ultimately show ?thesis using inv c by (simp add: tcp_inv_def)
qed

lemma tcpUpdateReceiveWindow_ok:
  assumes inv: "tcp_inv sk" and c: "connected sk"
  obtains sk' w' where "tcpUpdateReceiveWindow ops sk w = Some (sk', w')" and "tcp_inv sk'" and "conn sk' = conn sk"
proof -
  define red where "red = (ucast (rxBufferSize sk - ucast (rcvUser sk) - ucast (rcvWnd sk)) :: u16)"
  define thr where "thr = min (ucast (rmss sk)) (rxBufferSize sk div 2)"
  have o: "opened sk = sk\<lparr>rcvWnd := rcvWnd sk + red\<rparr>" by (simp add: opened_def red_def)
  have inv1: "tcp_inv (opened sk)" by (rule tcp_inv_opened [OF inv c])
  have c1: "conn (opened sk) = conn sk" by (simp add: opened_def conn_def)
  have r1: "route_ok (opened sk)"
    using tcp_invD(4) [OF inv1] c by (simp add: connected_def opened_def)
  obtain e sk2 w2 where s: "tcpSendSegment ops (opened sk) TCP_FLAG_ACK (sndNxt sk) (rcvNxt sk) 0 False w = Some (e, sk2, w2)"
    and s2: "same sk2 (opened sk)" using send_control_cases [OF r1] .
  have r: "tcpUpdateReceiveWindow ops sk w =
      (if ucast (rcvWnd sk) + ucast red \<ge> thr
       then if ucast (rcvWnd sk) < thr then Some (sk2, w2) else Some (opened sk, w) else Some (sk, w))"
    using s unfolding o by (simp add: tcpUpdateReceiveWindow_def red_def [symmetric] thr_def [symmetric] Let_def)
  show ?thesis
  proof (cases "ucast (rcvWnd sk) + ucast red \<ge> thr")
    case True
    show ?thesis
    proof (cases "ucast (rcvWnd sk) < thr")
      case True
      with \<open>ucast (rcvWnd sk) + ucast red \<ge> thr\<close> have "tcpUpdateReceiveWindow ops sk w = Some (sk2, w2)" using r by simp
      then show ?thesis using that inv1 c1 tcp_inv_same [OF s2] s2 by (simp add: same_def)
    next
      case False
      with \<open>ucast (rcvWnd sk) + ucast red \<ge> thr\<close> have "tcpUpdateReceiveWindow ops sk w = Some (opened sk, w)" using r by simp
      then show ?thesis using that inv1 c1 by simp
    qed
  next
    case False
    then have "tcpUpdateReceiveWindow ops sk w = Some (sk, w)" using r by simp
    then show ?thesis using that inv by simp
  qed
qed

lemma wrs_Some: "i + length vs \<le> length d \<Longrightarrow> \<exists>d'. wrs d i vs = Some d' \<and> length d' = length d"
  by (simp add: wrs_def)

lemma tcpReadRxBuffer_cases:
  assumes "rxBufferSize sk \<noteq> 0" and "len \<le> length data"
  obtains d where "tcpReadRxBuffer sk seqNum data len = Some d" and "length d = length data"
proof (cases "ring_offset seqNum (irs sk) (rxBufferSize sk)")
  case None
  then show ?thesis using assms by (simp add: ring_offset_def)
next
  case (Some offset)
  let ?n = "unat (rxBufferSize sk)"
  have lr: "length (buf_read b i n) \<le> n" for b i n by (simp add: buf_read_def)
  have off: "offset < ?n"
    using Some assms(1) by (auto simp: ring_offset_def unat_gt_0 word_neq_0_conv split: if_splits)
  show ?thesis
  proof (cases "offset + len \<le> ?n")
    case True
    have "0 + length (buf_read (rxBuffer sk) offset len) \<le> length data"
      using lr [of "rxBuffer sk" offset len] assms(2) by linarith
    from wrs_Some [OF this] True that show ?thesis by (auto simp: tcpReadRxBuffer_def Some)
  next
    case False
    have "0 + length (buf_read (rxBuffer sk) offset (?n - offset)) \<le> length data"
      using lr [of "rxBuffer sk" offset "?n - offset"] assms(2) False by linarith
    from wrs_Some [OF this] obtain d where d: "wrs data 0 (buf_read (rxBuffer sk) offset (?n - offset)) = Some d"
      "length d = length data" by auto
    have "(?n - offset) + length (buf_read (rxBuffer sk) 0 (len + offset - ?n)) \<le> length d"
      using lr [of "rxBuffer sk" 0 "len + offset - ?n"] assms(2) False off d(2) by linarith
    from wrs_Some [OF this] d that False show ?thesis by (auto simp: tcpReadRxBuffer_def Some Let_def)
  qed
qed

lemma break_length_bounds: "bs \<noteq> [] \<Longrightarrow> 1 \<le> break_length c bs"
  by (cases bs) auto

lemma receive_chunk_ok:
  assumes inv: "tcp_inv sk" and c: "connected sk" and user: "rcvUser sk \<noteq> 0" and space: "0 < space" "space \<le> length data"
  obtains stop n d sk' w' where "receive_chunk ops sk fl seqNum data space w = Some (stop, n, d, sk', w')"
    and "tcp_inv sk'" and "conn sk' = conn sk" and "1 \<le> n" and "n \<le> space" and "length d = length data"
proof -
  note ok = tcp_invD [OF inv]
  define n0 where "n0 = min (unat (rcvUser sk)) space"
  have n0: "1 \<le> n0" "n0 \<le> length data" "n0 \<le> unat (rcvUser sk)" "n0 \<le> space"
    using user space by (auto simp: n0_def unat_gt_0 word_neq_0_conv Suc_le_eq)
  obtain d where rd: "tcpReadRxBuffer sk seqNum data n0 = Some d" and ld: "length d = length data"
    using tcpReadRxBuffer_cases [OF ok(3) n0(2)] .
  define n where "n = (if fl AND SOCKET_FLAG_BREAK_CHAR \<noteq> 0 then min n0 (break_length (ucast fl) (take n0 d)) else n0)"
  have "take n0 d \<noteq> []" using n0 ld by auto
  then have n: "1 \<le> n" "n \<le> n0" using n0(1) break_length_bounds [of "take n0 d" "ucast fl"] by (simp_all add: n_def)
  have inv1: "tcp_inv (taken n sk)" using tcp_inv_taken [OF inv] n n0 by simp
  obtain sk1 w1 where up: "tcpUpdateReceiveWindow ops (taken n sk) w = Some (sk1, w1)" and inv2: "tcp_inv sk1"
    and c1: "conn sk1 = conn (taken n sk)"
    using tcpUpdateReceiveWindow_ok [OF inv1] c by (metis taken_frame(6))
  obtain sk2 w2 where ev: "tcpUpdateEvents ops sk1 w1 = (sk2, w2)" and s2: "same sk2 sk1" by (rule tcpUpdateEvents_cases)
  obtain stop where st: "(if fl AND SOCKET_FLAG_BREAK_CHAR \<noteq> 0 then map_option (\<lambda>b. b = ucast fl) (rd8 d (n - 1))
             else Some (fl AND SOCKET_FLAG_WAIT_ALL = 0)) = Some stop"
  proof -
    have "rd8 d (n - 1) \<noteq> None" using n n0 ld by (simp add: rd8_def)
    then show ?thesis using that by (cases "fl AND SOCKET_FLAG_BREAK_CHAR \<noteq> 0") auto
  qed
  have "receive_chunk ops sk fl seqNum data space w = Some (stop, n, d, sk2, w2)"
  proof (cases "fl AND SOCKET_FLAG_BREAK_CHAR \<noteq> 0")
    case True
    then have "n = min n0 (break_length (ucast fl) (take n0 d))" by (simp add: n_def)
    with True up ev st show ?thesis unfolding taken_def
      by (auto simp: receive_chunk_def n0_def [symmetric] rd Let_def)
  next
    case False
    then have "n = n0" by (simp add: n_def)
    with False up ev st show ?thesis unfolding taken_def
      by (simp add: receive_chunk_def n0_def [symmetric] rd Let_def)
  qed
  moreover have "tcp_inv sk2" using inv2 tcp_inv_same [OF s2] by simp
  moreover have "conn sk2 = conn sk" using s2 c1 by (simp add: same_def taken_def conn_def)
  ultimately show ?thesis using that n n0 ld by simp
qed

subsection \<open>The FIN\<close>

lemma emit_fin_ok:
  assumes inv: "tcp_inv sk" and user: "sndUser sk = 0"
    and st: "sk_state sk = TCP_STATE_ESTABLISHED \<and> st = TCP_STATE_FIN_WAIT_1 \<or>
      sk_state sk = TCP_STATE_CLOSE_WAIT \<and> st = TCP_STATE_LAST_ACK"
  obtains e sk' w' where "emit_fin ops sk st w = Some (e, sk', w')" and "tcp_inv sk'"
    and "sk_state sk' = (if e = NO_ERROR then st else sk_state sk)"
proof -
  have c: "connected sk" using st by (auto simp: connected_def)
  note ok = tcp_invD [OF inv]
  obtain e sk1 w1 where s: "tcpSendSegment ops sk (TCP_FLAG_FIN OR TCP_FLAG_ACK) (sndNxt sk) (rcvNxt sk) 0 True w = Some (e, sk1, w1)"
    and s1: "same sk1 sk" using send_control_cases [OF ok(4) [OF c]] .
  show ?thesis
  proof (cases "e = NO_ERROR")
    case False
    then have "emit_fin ops sk st w = Some (e, sk1, w1)" using s by (simp add: emit_fin_def)
    then show ?thesis using that inv tcp_inv_same [OF s1] s1 False by (simp add: same_eqs)
  next
    case True
    define sk2 where "sk2 = sk1\<lparr>sndNxt := sndNxt sk1 + 1\<rparr>"
    obtain sk' w' where ch: "tcpChangeState ops sk2 st w1 = (sk', w')" and s': "same sk' (to_state st sk2)"
      by (rule tcpChangeState_cases)
    have f: "flight sk \<le> unat (txBufferSize sk)" "unat (txBufferSize sk) \<le> 22880"
      using ok(1) ok(5) [OF c] user st by (auto simp: snd_ok_def sizes_ok_def sending_def split: if_splits)
    have f2: "flight sk2 = flight sk + 1"
      using dist_add [where base = "sndUna sk" and x = "sndNxt sk" and n = 1] f s1 by (simp add: sk2_def same_eqs)
    have "snd_ok (to_state st sk2)"
      using ok(5) [OF c] user st f f2 s1 by (auto simp: snd_ok_def sending_def same_eqs sk2_def)
    moreover have "sack_ok (to_state st sk2)"
      using ok(7) [OF c] st s1 by (auto simp: sack_ok_def receiving_def same_eqs sk2_def)
    moreover have "sizes_ok (to_state st sk2)" "rcv_ok (to_state st sk2)" "route_ok (to_state st sk2)" "listen_ok (to_state st sk2)"
      using ok(1) ok(4,6) [OF c] st s1 route_ok_same [OF s1]
      by (auto simp: sizes_ok_def rcv_ok_def same_eqs sk2_def listen_ok_def route_ok_def socket_pseudo_def cong: IpAddr.case_cong)
    ultimately have "tcp_inv sk'" using tcp_inv_same [OF s'] by (simp add: tcp_inv_def)
    moreover have "emit_fin ops sk st w = Some (NO_ERROR, sk', w')"
      using s True ch by (simp add: emit_fin_def sk2_def)
    ultimately show ?thesis using that s' by (simp add: same_eqs)
  qed
qed

subsection \<open>Aborting\<close>

lemma close_socket_ok:
  assumes "tcp_inv sk"
  shows "tcp_inv (fst (close_socket ops sk w))"
proof -
  obtain sk' w' where "tcpChangeState ops sk TCP_STATE_CLOSED w = (sk', w')" and "tcp_inv sk'"
    by (rule closed_tick [OF assms])
  then show ?thesis using tcp_inv_deleted by (simp add: close_socket_def)
qed

lemma tcpAbort_ok:
  assumes inv: "tcp_inv sk"
  obtains e sk' w' where "tcpAbort ops sk w = Some (e, sk', w')" and "tcp_inv sk'"
proof (cases "sk_state sk \<in> {TCP_STATE_SYN_RECEIVED, TCP_STATE_ESTABLISHED, TCP_STATE_FIN_WAIT_1, TCP_STATE_FIN_WAIT_2,
            TCP_STATE_CLOSE_WAIT}")
  case True
  then have "connected sk" by (auto simp: connected_def)
  then have route: "route_ok sk" using tcp_invD(4) [OF inv] by simp
  obtain e sk1 w1 where s: "tcpSendSegment ops sk TCP_FLAG_RST (sndNxt sk) 0 0 False w = Some (e, sk1, w1)"
    and s1: "same sk1 sk" using send_control_cases [OF route] .
  obtain sk2 w2 where cl: "close_socket ops sk1 w1 = (sk2, w2)" by (metis surj_pair)
  have "tcp_inv sk2" using close_socket_ok [of sk1 ops w1] inv tcp_inv_same [OF s1] cl by simp
  moreover have "tcpAbort ops sk w = Some (e, sk2, w2)"
    unfolding tcpAbort_def if_P [OF True] using s cl by simp
  ultimately show ?thesis using that by simp
next
  case False
  obtain sk2 w2 where cl: "close_socket ops sk w = (sk2, w2)" by (metis surj_pair)
  have i2: "tcp_inv sk2" using close_socket_ok [OF inv, of ops w] cl by simp
  have "same (sk\<lparr>ownedFlag := False\<rparr>) sk" by (simp add: same_def conn_def snd_side_def rcv_side_def)
  then have i1: "tcp_inv (sk\<lparr>ownedFlag := False\<rparr>)" using inv tcp_inv_same by blast
  have "tcpAbort ops sk w = (if sk_state sk = TCP_STATE_TIME_WAIT then Some (NO_ERROR, sk\<lparr>ownedFlag := False\<rparr>, w)
      else Some (NO_ERROR, sk2, w2))"
    unfolding tcpAbort_def if_not_P [OF False] using cl by simp
  then show ?thesis using that i1 i2 by (cases "sk_state sk = TCP_STATE_TIME_WAIT") simp_all
qed

end
