(* ===== verification/TcpReach.thy ===== *)
theory TcpReach
  imports TcpCalls
begin

text \<open>
  A connection from its socket being opened on: every interleaving of segments, ticks and steps of user calls
  keeps the invariant.
\<close>

subsection \<open>Opening a connection\<close>

text \<open>A socket as \<open>socketOpen\<close> returns it, its buffer sizes perhaps changed since.\<close>

definition fresh_socket :: "Socket \<Rightarrow> bool" where
  "fresh_socket sk \<longleftrightarrow> sk_state sk = TCP_STATE_CLOSED \<and> \<not> closedFlag sk \<and> sizes_ok sk \<and> txBuffer sk = [] \<and>
     rxBuffer sk = [] \<and> sackBlock sk = [] \<and> sndUser sk = 0 \<and> synQueue sk = [] \<and> remoteIpAddr sk = NoAddr"

lemma fresh_opened:
  assumes "0 < unat n" "unat n \<le> 22880" "0 < unat m" "unat m \<le> 22880"
  shows "fresh_socket ((opened_socket i port)\<lparr>txBufferSize := n, rxBufferSize := m\<rparr>)"
  using assms by (simp add: fresh_socket_def opened_socket_def sizes_ok_def)

text \<open>
  A closed socket that can be connected again: no byte of an earlier connection waits to be sent, none was received
  out of order, and its buffers were freed or are large enough.  \<open>tcpConnect\<close> takes any closed socket, and resets
  neither \<open>sndUser\<close> nor the list of blocks nor \<open>closedFlag\<close> (see \<open>reconnect_keeps_stale_state\<close>): of a socket that
  is not reusable in this sense, the counters of the new connection are wrong from the start.
\<close>

definition reusable :: "Socket \<Rightarrow> bool" where
  "reusable sk \<longleftrightarrow> sk_state sk = TCP_STATE_CLOSED \<and> \<not> closedFlag sk \<and> sizes_ok sk \<and>
     (txBuffer sk = [] \<or> unat (txBufferSize sk) \<le> length (txBuffer sk)) \<and>
     (rxBuffer sk = [] \<or> unat (rxBufferSize sk) \<le> length (rxBuffer sk)) \<and> sackBlock sk = [] \<and> sndUser sk = 0"

lemma fresh_reusable: "fresh_socket sk \<Longrightarrow> reusable sk"
  by (simp add: fresh_socket_def reusable_def)

text \<open>The IP layer chooses a source address of the family of the destination.\<close>

definition source_ok :: "'w tcp_ops \<Rightarrow> bool" where
  "source_ok ops \<longleftrightarrow> (\<forall>i a w e i' src w'. selectSource ops i a w = ((e, i', src), w') \<longrightarrow> e = NO_ERROR \<longrightarrow> same_family src a)"

lemma same_family_route: "same_family (localIpAddr sk) (remoteIpAddr sk) \<Longrightarrow> route_ok sk"
  by (cases "localIpAddr sk"; cases "remoteIpAddr sk") (simp_all add: route_ok_def socket_pseudo_def)

lemma same_family_sym: "same_family a b = same_family b a"
  by (cases a; cases b) simp_all

text \<open>The buffers are allocated; nothing else changes.\<close>

lemma set_buffers_cases:
  assumes "txBuffer sk = [] \<or> unat (txBufferSize sk) \<le> length (txBuffer sk)"
    and "rxBuffer sk = [] \<or> unat (rxBufferSize sk) \<le> length (rxBuffer sk)"
  obtains e b c w' where "set_buffers ops sk w = Some (e, sk\<lparr>txBuffer := b, rxBuffer := c\<rparr>, w')"
proof -
  have tx: "\<exists>e b' w'. set_buffer_length ops b n w = Some (e, b', w')" if "b = [] \<or> unat n \<le> length b" for b n w
    using that by (cases "alloc_bytes ops SOCKET_BUFFER_CHUNKS (unat n) w") (auto simp: set_buffer_length_def)
  obtain e b w1 where 1: "set_buffer_length ops (txBuffer sk) (txBufferSize sk) w = Some (e, b, w1)"
    using tx [OF assms(1)] by metis
  show ?thesis
  proof (cases "e = NO_ERROR")
    case True
    obtain e2 c w2 where "set_buffer_length ops (rxBuffer sk) (rxBufferSize sk) w1 = Some (e2, c, w2)"
      using tx [OF assms(2)] by metis
    with 1 True have "set_buffers ops sk w = Some (e2, sk\<lparr>txBuffer := b, rxBuffer := c\<rparr>, w2)"
      by (simp add: set_buffers_def)
    then show ?thesis by (rule that)
  next
    case False
    have "sk\<lparr>txBuffer := b\<rparr> = sk\<lparr>txBuffer := b, rxBuffer := rxBuffer sk\<rparr>" by simp
    with 1 False have "set_buffers ops sk w = Some (e, sk\<lparr>txBuffer := b, rxBuffer := rxBuffer sk\<rparr>, w1)"
      by (simp add: set_buffers_def)
    then show ?thesis by (rule that)
  qed
qed

text \<open>The control block of a new connection, as far as the invariant depends on it.\<close>

definition new_block :: "Socket \<Rightarrow> bool" where
  "new_block sk \<longleftrightarrow> sizes_ok sk \<and> route_ok sk \<and> 64 \<le> unat (smss sk) \<and> unat (smss sk) \<le> 1430 \<and>
     sndUna sk = iss sk \<and> sndNxt sk = iss sk + 1 \<and> sndUser sk = 0 \<and> rcvUser sk = 0 \<and>
     rcvWnd sk = ucast (rxBufferSize sk) \<and> sackBlock sk = [] \<and> sk_state sk = TCP_STATE_CLOSED \<and> \<not> closedFlag sk"

lemma new_block_same: "same sk' sk \<Longrightarrow> new_block sk' = new_block sk"
  using route_ok_same [of sk' sk] by (simp add: new_block_def sizes_ok_def same_eqs)

lemma new_block_inv:
  assumes "new_block sk"
  shows "tcp_inv sk" and "tcp_inv (to_state TCP_STATE_SYN_SENT sk)" and "tcp_inv (to_state TCP_STATE_SYN_RECEIVED sk)"
proof -
  note n = assms [unfolded new_block_def]
  show "tcp_inv sk" using n by (auto simp: tcp_inv_def connected_def listen_ok_def)
  have w: "unat (rcvWnd sk) = unat (rxBufferSize sk)"
    using n by (auto simp: sizes_ok_def unat_ucast_u32_u16)
  have fl: "flight sk = 1" using n by simp
  have snd: "snd_ok (to_state st sk)" if "st = TCP_STATE_SYN_SENT \<or> st = TCP_STATE_SYN_RECEIVED" for st
    using that n fl by (auto simp: snd_ok_def sending_def sizes_ok_def)
  have rcv: "rcv_ok sk" using n w by (simp add: rcv_ok_def)
  have sack: "sack_ok (to_state st sk)" if "st = TCP_STATE_SYN_SENT \<or> st = TCP_STATE_SYN_RECEIVED" for st
    using that n by (auto simp: sack_ok_def receiving_def)
  show "tcp_inv (to_state TCP_STATE_SYN_SENT sk)" "tcp_inv (to_state TCP_STATE_SYN_RECEIVED sk)"
    using n snd rcv sack by (simp_all add: tcp_inv_def)
qed

lemma tcpSendSegment_same:
  assumes "tcpSendSegment ops sk fl seqNum ackNum len q w = Some (e, sk', w')"
  shows "same sk' sk"
proof -
  have "same s sk" if "queue_segment ops sk ph segment n w = (e, s, w')" for ph segment n w e s w'
    using queue_segment_same [of ops sk ph segment n w "same s sk"] that by simp
  then have "same (fst (snd (submit_segment ops sk ph segment data len q w))) sk" for ph segment data w
    by (cases "queue_segment ops sk ph (finish_checksum ph segment data) len w")
      (auto simp: submit_segment_def Let_def split: prod.splits)
  then show ?thesis
    using assms unfolding tcpSendSegment_def Let_def
    by (auto simp: bind_eq_Some_conv split: prod.splits option.splits if_splits) (metis fst_conv snd_conv)+
qed

lemma connect_start_ok:
  assumes src: "source_ok ops" and fresh: "reusable sk"
  obtains e sk' w' where "connect_start ops sk remIp remPort w = Some (e, sk', w')" and "tcp_inv sk'"
    and "sk_state sk' = (if e = NO_ERROR then TCP_STATE_SYN_SENT else TCP_STATE_CLOSED)"
proof -
  note f = fresh [unfolded reusable_def]
  obtain e0 i0 addr w0 where sel: "selectSource ops (sk_interface sk) remIp w = ((e0, i0, addr), w0)" by (metis surj_pair)
  define sk0 where "sk0 = sk\<lparr>remoteIpAddr := remIp, remotePort := remPort, sk_interface := i0, localIpAddr := addr\<rparr>"
  have closed: "tcp_inv s" if "sk_state s = TCP_STATE_CLOSED" "\<not> closedFlag s" "sizes_ok s" for s
    using that by (auto simp: tcp_inv_def connected_def listen_ok_def)
  have i0: "tcp_inv sk0" using f by (intro closed) (simp_all add: sk0_def sizes_ok_def)
  consider "e0 \<noteq> NO_ERROR" | "e0 = NO_ERROR" "ipIsUnspecifiedAddr addr" | "e0 = NO_ERROR" "\<not> ipIsUnspecifiedAddr addr" by blast
  then show ?thesis
  proof cases
    case 1
    then have "connect_start ops sk remIp remPort w = Some (e0, sk0, w0)" using sel by (simp add: connect_start_def sk0_def Let_def)
    then show ?thesis using that i0 1 f by (simp add: sk0_def)
  next
    case 2
    then have "connect_start ops sk remIp remPort w = Some (ERROR_NOT_CONFIGURED, sk0, w0)"
      using sel by (simp add: connect_start_def sk0_def Let_def)
    then show ?thesis using that i0 f by (simp add: sk0_def)
  next
    case 3
    obtain e1 b c w1 where sb: "set_buffers ops (sk0\<lparr>ownedFlag := True\<rparr>) w0 =
        Some (e1, sk0\<lparr>ownedFlag := True, txBuffer := b, rxBuffer := c\<rparr>, w1)"
      by (rule set_buffers_cases [of "sk0\<lparr>ownedFlag := True\<rparr>"]) (use f in \<open>simp_all add: sk0_def\<close>)
    define sk1 where "sk1 = sk0\<lparr>ownedFlag := True, txBuffer := b, rxBuffer := c\<rparr>"
    show ?thesis
    proof (cases "e1 = NO_ERROR")
      case False
      then have "connect_start ops sk remIp remPort w = Some (e1, tcpDeleteControlBlock sk1, w1)"
        using 3 sel sb by (simp add: connect_start_def sk0_def Let_def sk1_def)
      moreover have "tcp_inv (tcpDeleteControlBlock sk1)"
        using f by (intro closed)
          (simp_all add: sk1_def sk0_def sizes_ok_def tcpDeleteControlBlock_def tcpFlushSynQueue_def tcpFlushRetransmitQueue_def)
      ultimately show ?thesis using that False f
        by (simp add: sk1_def sk0_def tcpDeleteControlBlock_def tcpFlushSynQueue_def tcpFlushRetransmitQueue_def)
    next
      case True
      obtain rand w2 where rnd: "sysRand ops w1 = (rand, w2)" by (metis surj_pair)
      define sk2 where "sk2 = sk1\<lparr>smss := min TCP_DEFAULT_MSS TCP_MAX_MSS,
                  rmss := ucast (min (rxBufferSize sk1) (ucast TCP_MAX_MSS)), iss := rand, sndUna := rand,
                  sndNxt := rand + 1, rcvUser := 0, rcvWnd := ucast (rxBufferSize sk1), rto := TCP_INITIAL_RTO,
                  congestState := TCP_CONGEST_STATE_IDLE, ssthresh := 0xFFFF, recover := rand\<rparr>"
      define sk3 where "sk3 = sk2\<lparr>cwnd := ucast (min (TCP_INITIAL_WINDOW * ucast (smss sk2)) (txBufferSize sk2))\<rparr>"
      have fam: "same_family addr remIp" using src [unfolded source_ok_def, rule_format, OF sel 3(1)] .
      have nb: "new_block sk3"
        unfolding new_block_def
      proof (intro conjI)
        show "route_ok sk3" by (rule same_family_route) (use fam in \<open>simp add: sk3_def sk2_def sk1_def sk0_def\<close>)
      qed (use f in \<open>simp_all add: sk3_def sk2_def sk1_def sk0_def sizes_ok_def\<close>)
      obtain e4 sk4 w4 where s: "tcpSendSegment ops sk3 TCP_FLAG_SYN (iss sk3) 0 0 True w2 = Some (e4, sk4, w4)"
        and s4: "same sk4 sk3" by (rule send_control_cases [of sk3]) (use nb in \<open>simp_all add: new_block_def\<close>)
      have nb4: "new_block sk4" using nb new_block_same [OF s4] by simp
      obtain sk5 w5 where ch: "tcpChangeState ops sk4 TCP_STATE_SYN_SENT w4 = (sk5, w5)"
        and s5: "same sk5 (to_state TCP_STATE_SYN_SENT sk4)" by (rule tcpChangeState_cases)
      have i5: "tcp_inv sk5" using new_block_inv(2) [OF nb4] tcp_inv_same [OF s5] by simp
      have "connect_start ops sk remIp remPort w =
          (if e4 \<noteq> NO_ERROR then Some (e4, sk4, w4) else Some (NO_ERROR, sk5, w5))"
      proof -
        have "connect_start ops sk remIp remPort w = do {
            (error, sk, w) \<leftarrow> tcpSendSegment ops sk3 TCP_FLAG_SYN (iss sk3) 0 0 True w2;
            if error \<noteq> NO_ERROR then Some (error, sk, w)
            else (case tcpChangeState ops sk TCP_STATE_SYN_SENT w of (sk, w) \<Rightarrow> Some (NO_ERROR, sk, w))
          }"
          using 3 sel sb True rnd unfolding connect_start_def sk3_def sk2_def sk1_def sk0_def by (simp add: Let_def)
        then show ?thesis using s ch by simp
      qed
      then show ?thesis
        using that i5 s5 new_block_inv(1) [OF nb4] nb4 by (cases "e4 = NO_ERROR") (simp_all add: same_eqs new_block_def)
    qed
  qed
qed

text \<open>What \<open>tcpConnect\<close> does not reset.\<close>

lemma reconnect_keeps_stale_state:
  assumes run: "connect_start ops sk remIp remPort w = Some (NO_ERROR, sk', w')"
  shows "sndUser sk' = sndUser sk \<and> sackBlock sk' = sackBlock sk \<and> closedFlag sk' = closedFlag sk"
proof -
  obtain e0 i0 addr w0 where sel: "selectSource ops (sk_interface sk) remIp w = ((e0, i0, addr), w0)" by (metis surj_pair)
  define sk0 where "sk0 = sk\<lparr>remoteIpAddr := remIp, remotePort := remPort, sk_interface := i0, localIpAddr := addr, ownedFlag := True\<rparr>"
  have ok: "e0 = NO_ERROR" "\<not> ipIsUnspecifiedAddr addr"
    using run sel by (auto simp: connect_start_def Let_def split: if_splits)
  from run sel ok obtain e1 sk1 w1 where sb: "set_buffers ops sk0 w0 = Some (e1, sk1, w1)" and e1: "e1 = NO_ERROR"
    by (auto simp: connect_start_def Let_def bind_eq_Some_conv sk0_def split: if_splits)
  have k1: "sndUser sk1 = sndUser sk \<and> sackBlock sk1 = sackBlock sk \<and> closedFlag sk1 = closedFlag sk"
    using sb by (auto simp: set_buffers_def Let_def bind_eq_Some_conv sk0_def split: if_splits)
  obtain rand w2 where rnd: "sysRand ops w1 = (rand, w2)" by (metis surj_pair)
  define sk2 where "sk2 = sk1\<lparr>smss := min TCP_DEFAULT_MSS TCP_MAX_MSS,
              rmss := ucast (min (rxBufferSize sk1) (ucast TCP_MAX_MSS)), iss := rand, sndUna := rand,
              sndNxt := rand + 1, rcvUser := 0, rcvWnd := ucast (rxBufferSize sk1), rto := TCP_INITIAL_RTO,
              congestState := TCP_CONGEST_STATE_IDLE, ssthresh := 0xFFFF, recover := rand\<rparr>"
  define sk3 where "sk3 = sk2\<lparr>cwnd := ucast (min (TCP_INITIAL_WINDOW * ucast (smss sk2)) (txBufferSize sk2))\<rparr>"
  have k3: "sndUser sk3 = sndUser sk1 \<and> sackBlock sk3 = sackBlock sk1 \<and> closedFlag sk3 = closedFlag sk1"
    by (simp add: sk3_def sk2_def)
  have eq: "connect_start ops sk remIp remPort w = do {
      (error, sk, w) \<leftarrow> tcpSendSegment ops sk3 TCP_FLAG_SYN (iss sk3) 0 0 True w2;
      if error \<noteq> NO_ERROR then Some (error, sk, w)
      else (case tcpChangeState ops sk TCP_STATE_SYN_SENT w of (sk, w) \<Rightarrow> Some (NO_ERROR, sk, w))
    }"
    using sel ok sb [unfolded e1] rnd unfolding connect_start_def sk3_def sk2_def sk0_def by (simp add: Let_def)
  obtain e4 sk4 w4 where s: "tcpSendSegment ops sk3 TCP_FLAG_SYN (iss sk3) 0 0 True w2 = Some (e4, sk4, w4)"
    using run eq by (cases "tcpSendSegment ops sk3 TCP_FLAG_SYN (iss sk3) 0 0 True w2") auto
  obtain sk5 w5 where ch5: "tcpChangeState ops sk4 TCP_STATE_SYN_SENT w4 = (sk5, w5)" by (metis surj_pair)
  have ch: "tcpChangeState ops sk4 TCP_STATE_SYN_SENT w4 = (sk', w')"
    using run eq s ch5 by (auto split: if_splits)
  have "same sk' (to_state TCP_STATE_SYN_SENT sk4)" using tcpChangeState_same [of ops sk4 TCP_STATE_SYN_SENT w4] ch by simp
  moreover have "same sk4 sk3" using s by (rule tcpSendSegment_same)
  ultimately show ?thesis using k1 k3 by (simp add: same_eqs closedFlag_to_state)
qed

subsection \<open>Accepting a connection\<close>

lemma unconnected_inv: "sk_state sk = TCP_STATE_CLOSED \<Longrightarrow> \<not> closedFlag sk \<Longrightarrow> sizes_ok sk \<Longrightarrow> tcp_inv sk"
  by (auto simp: tcp_inv_def connected_def listen_ok_def)

lemma setup_connection_ok:
  assumes fresh: "fresh_socket sk" and sizes: "sizes_ok listener" and item: "syn_item_ok item"
  obtains e l sk' w' where "setup_connection ops listener item sk w = Some (e, l, sk', w')"
    and "l = listener\<lparr>congestState := congestState l\<rparr>" and "tcp_inv sk'"
    and "e = NO_ERROR \<Longrightarrow> new_block sk'"
proof -
  note f = fresh [unfolded fresh_socket_def]
  define sk0 where "sk0 = sk\<lparr>ownedFlag := True, txBufferSize := txBufferSize listener, rxBufferSize := rxBufferSize listener\<rparr>"
  obtain e1 b c w1 where sb: "set_buffers ops sk0 w = Some (e1, sk0\<lparr>txBuffer := b, rxBuffer := c\<rparr>, w1)"
    by (rule set_buffers_cases [of sk0]) (use f in \<open>simp_all add: sk0_def\<close>)
  define sk1 where "sk1 = sk0\<lparr>txBuffer := b, rxBuffer := c\<rparr>"
  have i1: "tcp_inv sk1"
    using f sizes by (intro unconnected_inv) (simp_all add: sk1_def sk0_def sizes_ok_def)
  show ?thesis
  proof (cases "e1 = NO_ERROR")
    case False
    then have "setup_connection ops listener item sk w = Some (e1, listener, sk1, w1)"
      using sb by (simp add: setup_connection_def sk0_def sk1_def Let_def)
    then show ?thesis using that i1 False by simp
  next
    case True
    obtain rand w2 where rnd: "sysRand ops w1 = (rand, w2)" by (metis surj_pair)
    define sk2 where "sk2 = sk1\<lparr>sk_interface := syn_interface item, localIpAddr := syn_destAddr item,
             localPort := localPort listener, remoteIpAddr := syn_srcAddr item, remotePort := syn_srcPort item,
             smss := syn_mss item, rmss := ucast (min (rxBufferSize sk1) (ucast TCP_MAX_MSS)), iss := rand,
             irs := syn_isn item, sndUna := rand, sndNxt := rand + 1, rcvNxt := syn_isn item + 1, rcvUser := 0,
             rcvWnd := ucast (rxBufferSize sk1), rto := TCP_INITIAL_RTO, ssthresh := 0xFFFF, recover := rand\<rparr>"
    define sk3 where "sk3 = sk2\<lparr>cwnd := ucast (min (TCP_INITIAL_WINDOW * ucast (smss sk2)) (txBufferSize sk2))\<rparr>"
    have nb: "new_block sk3"
      unfolding new_block_def
    proof (intro conjI)
      show "route_ok sk3"
        by (rule same_family_route)
          (use item same_family_sym in \<open>simp add: sk3_def sk2_def sk1_def sk0_def syn_item_ok_def\<close>)
    qed (use f sizes item in \<open>simp_all add: sk3_def sk2_def sk1_def sk0_def sizes_ok_def syn_item_ok_def\<close>)
    have r3: "route_ok sk3" using nb by (simp add: new_block_def)
    obtain e4 sk4 w4 where
      s: "tcpSendSegment ops sk3 (TCP_FLAG_SYN OR TCP_FLAG_ACK) (iss sk3) (rcvNxt sk3) 0 True w2 = Some (e4, sk4, w4)"
      and s4: "same sk4 sk3" using send_control_cases [OF r3] .
    have nb4: "new_block sk4" using nb new_block_same [OF s4] by simp
    have "setup_connection ops listener item sk w = do {
        (error, sk, w) \<leftarrow> tcpSendSegment ops sk3 (TCP_FLAG_SYN OR TCP_FLAG_ACK) (iss sk3) (rcvNxt sk3) 0 True w2;
        Some (error, listener\<lparr>congestState := TCP_CONGEST_STATE_IDLE\<rparr>, sk, w)
      }"
      using sb True rnd unfolding setup_connection_def sk3_def sk2_def sk1_def sk0_def by (simp add: Let_def)
    then have "setup_connection ops listener item sk w = Some (e4, listener\<lparr>congestState := TCP_CONGEST_STATE_IDLE\<rparr>, sk4, w4)"
      using s by simp
    then show ?thesis using that nb4 new_block_inv(1) [OF nb4] by simp
  qed
qed

lemma tcpListen_ok:
  assumes fresh: "reusable sk" and route: "route_ok sk" and queue: "synQueue sk = []"
  shows "tcp_inv (fst (snd (tcpListen ops sk backlog w)))"
proof -
  note f = fresh [unfolded reusable_def]
  define n where "n = min (if backlog > 0 then backlog else TCP_DEFAULT_SYN_QUEUE_SIZE) TCP_MAX_SYN_QUEUE_SIZE"
  define sk1 where "sk1 = sk\<lparr>synQueueSize := n\<rparr>"
  obtain sk2 w2 where ch: "tcpChangeState ops sk1 TCP_STATE_LISTEN w = (sk2, w2)"
    and s2: "same sk2 (to_state TCP_STATE_LISTEN sk1)" by (rule tcpChangeState_cases)
  have n: "1 \<le> unat n" "unat n \<le> 16"
    by (auto simp: n_def min_def word_le_nat_alt Suc_le_eq unat_gt_0 word_neq_0_conv)
  have "route_ok sk1" using route by (simp add: sk1_def route_ok_def socket_pseudo_def cong: IpAddr.case_cong)
  then have "tcp_inv (to_state TCP_STATE_LISTEN sk1)"
    using f n queue by (simp add: tcp_inv_def connected_def listen_ok_def closedFlag_to_state) (simp add: sk1_def sizes_ok_def)
  then have "tcp_inv sk2" using tcp_inv_same [OF s2] by simp
  moreover have "tcpListen ops sk backlog w = (NO_ERROR, sk2, w2)"
    using f ch unfolding tcpListen_def sk1_def n_def by (simp add: Let_def)
  ultimately show ?thesis by simp
qed

subsection \<open>Reachable sockets\<close>

text \<open>
  One step of a socket: an incoming segment, a tick, or a step of a user call between two points at which the
  stack may run other tasks.  Two things the code can do are left out, because they break the accounting.  A closed
  socket is connected again only if it is \<open>reusable\<close>.  And the FIN of \<open>tcpShutdown\<close> is sent from the state it was
  chosen for: \<open>tcpShutdown\<close> does not look again after waiting for the send buffer to drain, so a FIN or a RST of the
  peer that arrives meanwhile is overridden (\<open>TcpShutdown.shutdown_overrides_state\<close>).
\<close>

inductive tcp_step :: "'w tcp_ops \<Rightarrow> Socket \<Rightarrow> Socket \<Rightarrow> bool" for ops :: "'w tcp_ops" where
  connect: "reusable sk \<Longrightarrow> connect_start ops sk remIp remPort w = Some (e, sk', w') \<Longrightarrow> tcp_step ops sk sk'"
| listen: "reusable sk \<Longrightarrow> route_ok sk \<Longrightarrow> synQueue sk = [] \<Longrightarrow> tcpListen ops sk backlog w = (e, sk', w') \<Longrightarrow> tcp_step ops sk sk'"
| user: "tcp_step ops sk (sk\<lparr>sk_timeout := timeout, sk_eventMask := m, sk_eventFlags := f, sk_userEvent := b\<rparr>)"
| pop: "sk_state sk = TCP_STATE_LISTEN \<Longrightarrow> synQueue sk = item # queue \<Longrightarrow>
    tcp_step ops sk (sk\<lparr>congestState := c, synQueue := queue\<rparr>)"
| segment: "length data \<le> 65535 \<Longrightarrow>
    dispatch_segment ops interface ph segment data sk w = Some (sk', w') \<Longrightarrow> tcp_step ops sk sk'"
| tick: "tcpTickSocket ops sk w = Some (sk', w') \<Longrightarrow> tcp_step ops sk sk'"
| send: "send_state sk = NO_ERROR \<Longrightarrow> send_chunk ops sk data w = Some (e, n, sk', w') \<Longrightarrow> tcp_step ops sk sk'"
| nagle: "send_state sk = NO_ERROR \<Longrightarrow> tcpNagleAlgo ops sk flags w = Some (e, sk', w') \<Longrightarrow> tcp_step ops sk sk'"
| receive: "receive_seq sk got = Inr seqNum \<Longrightarrow> rcvUser sk \<noteq> 0 \<Longrightarrow> 0 < space \<Longrightarrow> space \<le> length data \<Longrightarrow>
    receive_chunk ops sk flags seqNum data space w = Some (stop, n, d, sk', w') \<Longrightarrow> tcp_step ops sk sk'"
| fin: "sndUser sk = 0 \<Longrightarrow>
    sk_state sk = TCP_STATE_ESTABLISHED \<and> st = TCP_STATE_FIN_WAIT_1 \<or>
    sk_state sk = TCP_STATE_CLOSE_WAIT \<and> st = TCP_STATE_LAST_ACK \<Longrightarrow>
    emit_fin ops sk st w = Some (e, sk', w') \<Longrightarrow> tcp_step ops sk sk'"
| abort: "tcpAbort ops sk w = Some (e, sk', w') \<Longrightarrow> tcp_step ops sk sk'"

text \<open>
  The sockets of a running stack: a socket that was opened, with the buffer sizes the user chose; one made by
  accepting a request queued on a listening socket; and what steps make of them.
\<close>

inductive tcp_reach :: "'w tcp_ops \<Rightarrow> Socket \<Rightarrow> bool" for ops :: "'w tcp_ops" where
  opened: "0 < unat n \<Longrightarrow> unat n \<le> 22880 \<Longrightarrow> 0 < unat m \<Longrightarrow> unat m \<le> 22880 \<Longrightarrow>
    tcp_reach ops ((opened_socket i port)\<lparr>txBufferSize := n, rxBufferSize := m\<rparr>)"
| accepted: "tcp_reach ops listener \<Longrightarrow> sk_state listener = TCP_STATE_LISTEN \<Longrightarrow> item \<in> set (synQueue listener) \<Longrightarrow>
    setup_connection ops listener item (opened_socket i port) w = Some (NO_ERROR, l, sk, w') \<Longrightarrow>
    tcpChangeState ops sk TCP_STATE_SYN_RECEIVED w' = (sk', w'') \<Longrightarrow> tcp_reach ops sk'"
| step: "tcp_reach ops sk \<Longrightarrow> tcp_step ops sk sk' \<Longrightarrow> tcp_reach ops sk'"

lemma send_state_iff:
  "send_state sk = NO_ERROR \<longleftrightarrow> sk_state sk = TCP_STATE_ESTABLISHED \<or> sk_state sk = TCP_STATE_CLOSE_WAIT"
  by (simp add: send_state_def split: TcpState.split)

lemma receive_seq_connected: "receive_seq sk got = Inr seqNum \<Longrightarrow> connected sk"
  by (auto simp: receive_seq_def connected_def Let_def split: TcpState.splits if_splits)

lemma tcp_step_inv:
  assumes src: "source_ok ops" and step: "tcp_step ops sk sk'" and inv: "tcp_inv sk"
  shows "tcp_inv sk'"
  using step
proof cases
  case (connect remIp remPort w e w')
  obtain e1 sk1 w1 where "connect_start ops sk remIp remPort w = Some (e1, sk1, w1)" "tcp_inv sk1"
    by (rule connect_start_ok [OF src connect(1)])
  then show ?thesis using connect(2) by simp
next
  case (listen backlog w e w')
  then show ?thesis using tcpListen_ok [OF listen(1-3), of ops backlog w] by simp
next
  case (user timeout m f b)
  have "same sk' sk" by (simp add: user same_def conn_def snd_side_def rcv_side_def)
  then show ?thesis using inv tcp_inv_same by blast
next
  case (pop item queue c)
  let ?sk = "sk\<lparr>congestState := c, synQueue := queue\<rparr>"
  have "sizes_ok ?sk = sizes_ok sk" "connected ?sk = connected sk" "route_ok ?sk = route_ok sk"
    "snd_ok ?sk = snd_ok sk" "rcv_ok ?sk = rcv_ok sk" "sack_ok ?sk = sack_ok sk"
    by (simp_all add: sizes_ok_def connected_def route_ok_def socket_pseudo_def snd_ok_def rcv_ok_def sack_ok_def
        cong: IpAddr.case_cong)
  moreover have "listen_ok sk" using inv by (simp add: tcp_inv_def)
  ultimately have "listen_ok ?sk" using pop by (auto simp: listen_ok_def)
  then show ?thesis using inv pop \<open>sizes_ok ?sk = _\<close> \<open>connected ?sk = _\<close> \<open>route_ok ?sk = _\<close> \<open>snd_ok ?sk = _\<close>
      \<open>rcv_ok ?sk = _\<close> \<open>sack_ok ?sk = _\<close> by (simp add: tcp_inv_def)
next
  case (segment data interface ph seg w w')
  then show ?thesis
    using dispatch_segment_ok [OF inv segment(1), of seg ops interface ph w] by (auto simp: handles_def)
next
  case (tick w w')
  then show ?thesis using tcpTickSocket_ok [OF inv, of ops w] by (auto simp: ticks_def)
next
  case (send data w e n w')
  obtain e1 n1 sk1 w1 where "send_chunk ops sk data w = Some (e1, n1, sk1, w1)" "tcp_inv sk1"
    using send_chunk_ok [OF inv send(1) [unfolded send_state_iff]] .
  then show ?thesis using send(2) by simp
next
  case (nagle fl w e w')
  have st: "sk_state sk \<noteq> TCP_STATE_CLOSED" "sk_state sk \<noteq> TCP_STATE_LISTEN" "sk_state sk \<noteq> TCP_STATE_SYN_SENT"
    using nagle(1) by (auto simp: send_state_iff)
  obtain e1 sk1 w1 where "tcpNagleAlgo ops sk fl w = Some (e1, sk1, w1)" "tcp_inv sk1"
    using tcpNagleAlgo_ok [OF inv st] .
  then show ?thesis using nagle(2) by simp
next
  case (receive got seqNum space data fl w stop n d w')
  obtain stop1 n1 d1 sk1 w1 where "receive_chunk ops sk fl seqNum data space w = Some (stop1, n1, d1, sk1, w1)" "tcp_inv sk1"
    using receive_chunk_ok [OF inv receive_seq_connected [OF receive(1)] receive(2,3,4)] .
  then show ?thesis using receive(5) by simp
next
  case (fin st w e w')
  obtain e1 sk1 w1 where "emit_fin ops sk st w = Some (e1, sk1, w1)" "tcp_inv sk1"
    using emit_fin_ok [OF inv fin(1,2)] .
  then show ?thesis using fin(3) by simp
next
  case (abort w e w')
  obtain e1 sk1 w1 where "tcpAbort ops sk w = Some (e1, sk1, w1)" "tcp_inv sk1" by (rule tcpAbort_ok [OF inv])
  then show ?thesis using abort by simp
qed

lemma tcp_reach_inv:
  assumes reach: "tcp_reach ops sk" and src: "source_ok ops"
  shows "tcp_inv sk"
  using reach
proof induction
  case (opened n m i port)
  then have "fresh_socket ((opened_socket i port)\<lparr>txBufferSize := n, rxBufferSize := m\<rparr>)" by (rule fresh_opened)
  then show ?case by (intro unconnected_inv) (simp_all add: fresh_socket_def)
next
  case (accepted listener item i port w l sk w' sk' w'')
  have fresh: "fresh_socket (opened_socket i port)"
    by (simp add: fresh_socket_def opened_socket_def sizes_ok_def)
  have sizes: "sizes_ok listener" and item: "syn_item_ok item"
    using accepted(2,3) accepted.IH by (auto simp: tcp_inv_def listen_ok_def)
  obtain e1 l1 sk1 w1 where s: "setup_connection ops listener item (opened_socket i port) w = Some (e1, l1, sk1, w1)"
    and nb: "e1 = NO_ERROR \<Longrightarrow> new_block sk1" by (rule setup_connection_ok [OF fresh sizes item, of ops w]) (rule that)
  have "new_block sk" using nb s accepted(4) by simp
  then have i: "tcp_inv (to_state TCP_STATE_SYN_RECEIVED sk)" by (rule new_block_inv(3))
  obtain sk2 w2 where "tcpChangeState ops sk TCP_STATE_SYN_RECEIVED w' = (sk2, w2)"
    and s2: "same sk2 (to_state TCP_STATE_SYN_RECEIVED sk)" by (rule tcpChangeState_cases)
  then show ?case using i tcp_inv_same [OF s2] accepted(5) by simp
next
  case (step sk sk')
  then show ?case using tcp_step_inv [OF src] by blast
qed

end
