(* ===== verification/TcpDemo.thy ===== *)
theory TcpDemo
  imports TcpReach
begin

text \<open>
  A small connection the witnesses of the TCP properties run on: buffers of 8 bytes, a peer that answers the SYN
  with sequence number 99 and offers a window of 6.
\<close>

fun demo_source :: "nat option \<Rightarrow> IpAddr \<Rightarrow> unit \<Rightarrow> (error_t \<times> nat option \<times> IpAddr) \<times> unit" where
  "demo_source i (Ipv4Addr a) w = ((NO_ERROR, i, Ipv4Addr 1), w)"
| "demo_source i (Ipv6Addr a) w = ((NO_ERROR, i, Ipv6Addr (replicate 16 1)), w)"
| "demo_source i NoAddr w = ((ERROR_NOT_CONFIGURED, i, NoAddr), w)"

definition demo_ops :: "unit tcp_ops" where
  "demo_ops = \<lparr>sysTime = \<lambda>w. (0, w), memAlloc = \<lambda>n w. (Some (replicate n 0), w), ipSend = \<lambda>i ph b w. (NO_ERROR, w),
     sysRand = \<lambda>w. (41, w), selectSource = demo_source, linkUp = \<lambda>i w. True, setEvent = \<lambda>i b w. w\<rparr>"

lemma demo_ops_simps [simp]:
  "sysTime demo_ops w = (0, w)" "memAlloc demo_ops n w = (Some (replicate n 0), w)"
  "ipSend demo_ops i ph b w = (NO_ERROR, w)" "sysRand demo_ops w = (41, w)" "setEvent demo_ops d f w = w"
  "selectSource demo_ops i a w = demo_source i a w" "linkUp demo_ops n w = True"
  by (simp_all add: demo_ops_def)

lemma demo_source_ok: "source_ok demo_ops"
  by (auto simp: source_ok_def elim!: demo_source.elims)

lemma alloc_bytes_none: "alloc_bytes ops room 0 w = (NO_ERROR, [], w)"
  by (cases room) simp_all

lemma demo_alloc: "0 < len \<Longrightarrow> len \<le> 1536 \<Longrightarrow> alloc_bytes demo_ops (Suc room) len w = (NO_ERROR, replicate len 0, w)"
  by (simp add: alloc_bytes_none min_def)

lemmas demo_run = Let_def opened_socket_def set_buffers_def set_buffer_length_def tcpSendSegment_def
  socket_pseudo_def submit_segment_def queue_segment_def tcpTimerStart_def tcpTimerRunning_def cleared_timer_def
  tcpChangeState_def tcpUpdateEvents_def state_events_def tx_events_def rx_events_def link_events_def

subsection \<open>Connecting\<close>

definition demo_closed :: Socket where
  "demo_closed = (opened_socket 0 1000)\<lparr>txBufferSize := 8, rxBufferSize := 8\<rparr>"

definition demo_syn_sent :: Socket where
  "demo_syn_sent = fst (snd (the (connect_start demo_ops demo_closed (Ipv4Addr 2) 502 ())))"

lemma demo_connect: "connect_start demo_ops demo_closed (Ipv4Addr 2) 502 () = Some (NO_ERROR, demo_syn_sent, ())"
proof -
  have "\<exists>sk. connect_start demo_ops demo_closed (Ipv4Addr 2) 502 () = Some (NO_ERROR, sk, ())"
    using demo_alloc [of 8 14] unfolding connect_start_def demo_closed_def by (simp add: demo_run)
  then show ?thesis by (auto simp: demo_syn_sent_def)
qed

definition syn_ack :: TcpHeader where
  "syn_ack = \<lparr>th_srcPort = 502, th_destPort = 1000, th_seqNum = 99, th_ackNum = 42, th_dataOffset = 5,
     th_flags = TCP_FLAG_SYN OR TCP_FLAG_ACK, th_window = 6, th_checksum = 0, th_options = []\<rparr>"

definition demo_pseudo :: IpPseudoHeader where
  "demo_pseudo = Ipv4Pseudo 2 1 20"

text \<open>The answer of a peer that starts with the number \<open>n\<close>.\<close>

abbreviation syn_ack_from :: "u32 \<Rightarrow> TcpHeader" where
  "syn_ack_from n \<equiv> syn_ack\<lparr>th_seqNum := n\<rparr>"

lemma no_options: "mss_option (syn_ack_from n) = Some None"
  by (simp add: mss_option_def syn_ack_def tcpGetOption_def get_option_loop.simps)

definition demo_open :: "u32 \<Rightarrow> Socket" where
  "demo_open n = fst (the (dispatch_segment demo_ops 0 demo_pseudo (syn_ack_from n) [] demo_syn_sent ()))"

lemma demo_establish_ex:
  "\<exists>sk. dispatch_segment demo_ops 0 demo_pseudo (syn_ack_from n) [] demo_syn_sent () = Some (sk, ()) \<and>
     sk_state sk = TCP_STATE_ESTABLISHED \<and> iss sk = 41 \<and> sndUna sk = 42 \<and> sndNxt sk = 42 \<and> sndUser sk = 0 \<and>
     sndWnd sk = 6 \<and> maxSndWnd sk = 6 \<and> smss sk = 536 \<and> cwnd sk = 8 \<and> irs sk = n \<and> rcvNxt sk = n + 1 \<and> rcvUser sk = 0 \<and>
     rcvWnd sk = 8 \<and> sackBlock sk = [] \<and> txBufferSize sk = 8 \<and> rxBufferSize sk = 8 \<and> txBuffer sk = replicate 8 0 \<and>
     rxBuffer sk = replicate 8 0 \<and> localIpAddr sk = Ipv4Addr 1 \<and> remoteIpAddr sk = Ipv4Addr 2 \<and> \<not> closedFlag sk \<and>
     congestState sk = TCP_CONGEST_STATE_IDLE \<and> dupAckCount sk = 0 \<and> sndWl1 sk = n \<and> sndWl2 sk = 42 \<and> recover sk = 41 \<and>
     sk_eventMask sk = 0"
  using demo_alloc [of 8 14] no_options [of n]
  unfolding demo_syn_sent_def connect_start_def demo_closed_def demo_pseudo_def
  by (simp add: demo_run dispatch_segment_def tcpStateSynSent_def syn_received_def tcpComputeRto_def rtt_sample_def
    bounded_rto_def tcpUpdateRetransmitQueue_def has_flag_def syn_ack_def TCP_CMP_SEQ_def)

lemma demo_establish:
  "dispatch_segment demo_ops 0 demo_pseudo (syn_ack_from n) [] demo_syn_sent () = Some (demo_open n, ())"
  using demo_establish_ex [of n] by (auto simp: demo_open_def)

lemma demo_open [simp]:
  "sk_state (demo_open n) = TCP_STATE_ESTABLISHED" "iss (demo_open n) = 41" "sndUna (demo_open n) = 42"
  "sndNxt (demo_open n) = 42" "sndUser (demo_open n) = 0" "sndWnd (demo_open n) = 6" "maxSndWnd (demo_open n) = 6"
  "smss (demo_open n) = 536" "cwnd (demo_open n) = 8" "irs (demo_open n) = n" "rcvNxt (demo_open n) = n + 1"
  "rcvUser (demo_open n) = 0" "rcvWnd (demo_open n) = 8" "sackBlock (demo_open n) = []" "txBufferSize (demo_open n) = 8"
  "rxBufferSize (demo_open n) = 8" "txBuffer (demo_open n) = replicate 8 0" "rxBuffer (demo_open n) = replicate 8 0"
  "localIpAddr (demo_open n) = Ipv4Addr 1" "remoteIpAddr (demo_open n) = Ipv4Addr 2" "\<not> closedFlag (demo_open n)"
  "congestState (demo_open n) = TCP_CONGEST_STATE_IDLE" "dupAckCount (demo_open n) = 0" "sndWl1 (demo_open n) = n"
  "sndWl2 (demo_open n) = 42" "recover (demo_open n) = 41" "sk_eventMask (demo_open n) = 0"
  using demo_establish_ex [of n] demo_establish [of n] by auto

lemma demo_open_reach: "tcp_reach demo_ops (demo_open n)"
proof -
  have "tcp_reach demo_ops demo_closed" unfolding demo_closed_def by (rule opened) simp_all
  moreover have "reusable demo_closed" unfolding demo_closed_def by (rule fresh_reusable [OF fresh_opened]) simp_all
  ultimately have "tcp_reach demo_ops demo_syn_sent" by (blast intro: tcp_reach.step tcp_step.connect demo_connect)
  then show ?thesis by (rule tcp_reach.step [OF _ tcp_step.segment [OF _ demo_establish]]) simp
qed

abbreviation demo_sk :: Socket where
  "demo_sk \<equiv> demo_open 99"

lemmas demo_reach = demo_open_reach [of 99]

subsection \<open>Seven bytes waiting\<close>

definition demo_queued :: Socket where
  "demo_queued = fst (snd (snd (the (send_chunk demo_ops demo_sk [1, 2, 3, 4, 5, 6, 7] ()))))"

lemma demo_queued_ex:
  "\<exists>sk. send_chunk demo_ops demo_sk [1, 2, 3, 4, 5, 6, 7] () = Some (NO_ERROR, 7, sk, ()) \<and>
     sk_state sk = TCP_STATE_ESTABLISHED \<and> iss sk = 41 \<and> sndUna sk = 42 \<and> sndNxt sk = 42 \<and> sndUser sk = 7 \<and>
     sndWnd sk = 6 \<and> cwnd sk = 8 \<and> smss sk = 536 \<and> txBufferSize sk = 8 \<and> txBuffer sk = [1, 2, 3, 4, 5, 6, 7, 0] \<and>
     localIpAddr sk = Ipv4Addr 1 \<and> remoteIpAddr sk = Ipv4Addr 2"
  by (simp add: send_chunk_def tcpWriteTxBuffer_def ring_offset_def tcpUpdateEvents_def tcpTimerStart_def Let_def
    buf_write_def blit_def split: if_split)

lemma demo_queued [simp]:
  "sk_state demo_queued = TCP_STATE_ESTABLISHED" "iss demo_queued = 41" "sndUna demo_queued = 42" "sndNxt demo_queued = 42"
  "sndUser demo_queued = 7" "sndWnd demo_queued = 6" "cwnd demo_queued = 8" "smss demo_queued = 536"
  "txBufferSize demo_queued = 8" "txBuffer demo_queued = [1, 2, 3, 4, 5, 6, 7, 0]"
  "localIpAddr demo_queued = Ipv4Addr 1" "remoteIpAddr demo_queued = Ipv4Addr 2"
  using demo_queued_ex by (auto simp: demo_queued_def)

lemma demo_queued_reach: "tcp_reach demo_ops demo_queued" "send_state demo_queued = NO_ERROR"
proof -
  have "send_chunk demo_ops demo_sk [1, 2, 3, 4, 5, 6, 7] () = Some (NO_ERROR, 7, demo_queued, ())"
    using demo_queued_ex by (auto simp: demo_queued_def)
  then show "tcp_reach demo_ops demo_queued"
    by (rule tcp_reach.step [OF demo_reach tcp_step.send, rotated]) (simp add: send_state_def)
qed (simp add: send_state_def)

end
