(* ===== verification/TcpReturns.thy ===== *)
theory TcpReturns
  imports TcpReach
begin

text \<open>
  The blocking calls return: whatever the other tasks do while the caller waits, as long as they only do steps of
  the stack, every pass of the loops of \<open>tcpSend\<close> and \<open>tcpReceive\<close> makes progress.
\<close>

text \<open>While a task waits, the others leave it a reachable socket.\<close>

definition waiter_ok :: "'w tcp_ops \<Rightarrow> 'w waiter \<Rightarrow> bool" where
  "waiter_ok ops wait \<longleftrightarrow> (\<forall>sk timeout w. tcp_reach ops sk \<longrightarrow> tcp_reach ops (fst (wait sk timeout w)))"

lemma tcpUpdateEvents_reach:
  assumes "tcp_reach ops sk"
  shows "tcp_reach ops (fst (tcpUpdateEvents ops (sk\<lparr>sk_eventMask := m\<rparr>) w))"
proof -
  have "\<exists>f. fst (tcpUpdateEvents ops (sk\<lparr>sk_eventMask := m\<rparr>) w) = sk\<lparr>sk_eventMask := m, sk_eventFlags := f\<rparr>"
    unfolding tcpUpdateEvents_def Let_def by (auto split: if_split)
  then obtain f where "fst (tcpUpdateEvents ops (sk\<lparr>sk_eventMask := m\<rparr>) w) = sk\<lparr>sk_eventMask := m, sk_eventFlags := f\<rparr>" ..
  moreover have "tcp_step ops sk (sk\<lparr>sk_timeout := sk_timeout sk, sk_eventMask := m, sk_eventFlags := f,
      sk_userEvent := sk_userEvent sk\<rparr>)" by (rule tcp_step.user)
  ultimately show ?thesis using tcp_reach.step [OF assms] by simp
qed

lemma tcpWaitForEvents_reach:
  assumes "tcp_reach ops sk" and "waiter_ok ops wait"
  obtains event sk' w' where "tcpWaitForEvents ops wait sk events timeout w = (event, sk', w')" and "tcp_reach ops sk'"
proof -
  obtain sk1 w1 where u: "tcpUpdateEvents ops (sk\<lparr>sk_eventMask := events\<rparr>) w = (sk1, w1)" by (metis surj_pair)
  have r1: "tcp_reach ops sk1" using tcpUpdateEvents_reach [OF assms(1), of events w] u by simp
  obtain sk2 w2 where s: "(if sk_eventFlags sk1 = 0 then wait sk1 timeout w1 else (sk1, w1)) = (sk2, w2)" by (metis surj_pair)
  have "tcp_reach ops sk2" using assms(2) r1 s unfolding waiter_ok_def by (metis fst_conv)
  moreover have "tcpWaitForEvents ops wait sk events timeout w = (sk_eventFlags sk2, sk2, w2)"
    using u s by (simp add: tcpWaitForEvents_def Let_def)
  ultimately show ?thesis using that by simp
qed

subsection \<open>Sending\<close>

text \<open>A pass writes at least one byte if there is room and anything to write.\<close>

lemma send_chunk_progress:
  assumes "send_chunk ops sk data w = Some (NO_ERROR, n, sk', w')" and "data \<noteq> []"
  shows "0 < n"
proof -
  let ?used = "ucast (sndUser sk) + sndNxt sk - sndUna sk"
  have lt: "\<not> txBufferSize sk \<le> ?used"
    using assms(1) by (auto simp: send_chunk_def Let_def)
  then have pos: "min (unat (txBufferSize sk - ?used)) (length data) > 0" using assms(2) by (simp add: unat_gt_0)
  have "n = min (unat (txBufferSize sk - ?used)) (length data)"
    using assms(1) lt pos unfolding send_chunk_def Let_def by (auto split: bind_splits if_splits prod.splits)
  then show ?thesis using pos by (simp only:)
qed

lemma send_loop_returns:
  assumes src: "source_ok ops" and wait: "waiter_ok ops wait" and reach: "tcp_reach ops sk"
  shows "\<exists>e n sk' w'. send_loop ops wait flags data written sk w = Some (e, n, sk', w') \<and> tcp_reach ops sk' \<and>
    written \<le> n \<and> n \<le> written + length data \<and> (e = NO_ERROR \<longrightarrow> n = written + length data)"
  using reach
proof (induction "length data" arbitrary: data written sk w rule: less_induct)
  case less
  obtain event sk1 w1 where ev: "tcpWaitForEvents ops wait sk EVENT_TX_READY (sk_timeout sk) w = (event, sk1, w1)"
    and r1: "tcp_reach ops sk1" by (rule tcpWaitForEvents_reach [OF less.prems wait])
  note unfold = send_loop.simps [of ops wait flags data written sk w, unfolded ev]
  consider "event \<noteq> EVENT_TX_READY" | "event = EVENT_TX_READY" "send_state sk1 \<noteq> NO_ERROR"
    | "event = EVENT_TX_READY" "send_state sk1 = NO_ERROR" by blast
  then show ?case
  proof cases
    case 1
    then show ?thesis using r1 by (simp add: unfold)
  next
    case 2
    then show ?thesis using r1 by (simp add: unfold)
  next
    case 3
    have inv1: "tcp_inv sk1" by (rule tcp_reach_inv [OF r1 src])
    obtain e n sk2 w2 where c: "send_chunk ops sk1 data w1 = Some (e, n, sk2, w2)" and inv2: "tcp_inv sk2"
      and conn: "conn sk2 = conn sk1" and n: "n \<le> length data"
      using send_chunk_ok [OF inv1 3(2) [unfolded send_state_iff]] .
    have r2: "tcp_reach ops sk2" by (rule tcp_reach.step [OF r1 tcp_step.send [OF 3(2) c]])
    show ?thesis
    proof (cases "e = NO_ERROR")
      case False
      then show ?thesis using r2 3 c by (simp add: unfold)
    next
      case True
      have s2: "send_state sk2 = NO_ERROR" using 3(2) conn_state [OF conn] by (simp add: send_state_iff)
      then have st: "sk_state sk2 \<noteq> TCP_STATE_CLOSED" "sk_state sk2 \<noteq> TCP_STATE_LISTEN" "sk_state sk2 \<noteq> TCP_STATE_SYN_SENT"
        by (auto simp: send_state_iff)
      obtain e3 sk3 w3 where ng: "tcpNagleAlgo ops sk2 flags w2 = Some (e3, sk3, w3)"
        using tcpNagleAlgo_ok [OF inv2 st] .
      have r3: "tcp_reach ops sk3" by (rule tcp_reach.step [OF r2 tcp_step.nagle [OF s2 ng]])
      have eq: "send_loop ops wait flags data written sk w =
          (if n < length data then send_loop ops wait flags (drop n data) (written + n) sk3 w3
           else Some (NO_ERROR, written + n, sk3, w3))"
        using 3 c True ng by (simp add: unfold)
      show ?thesis
      proof (cases "n < length data")
        case True
        then have "0 < n" using send_chunk_progress [of ops sk1 data w1 n] c \<open>e = NO_ERROR\<close> by fastforce
        then have "length (drop n data) < length data" using True by simp
        from less.hyps [OF this r3, of "written + n" w3]
        show ?thesis using eq True by auto
      next
        case False
        then show ?thesis using eq n r3 by simp
      qed
    qed
  qed
qed

lemma tcpSend_returns:
  assumes src: "source_ok ops" and wait: "waiter_ok ops wait" and reach: "tcp_reach ops sk"
  obtains e n sk' w' where "tcpSend ops wait sk data flags w = Some (e, n, sk', w')" and "tcp_reach ops sk'"
    and "n \<le> length data" and "e = NO_ERROR \<Longrightarrow> n = length data"
proof (cases "sk_state sk = TCP_STATE_LISTEN")
  case True
  then have "tcpSend ops wait sk data flags w = Some (ERROR_NOT_CONNECTED, 0, sk, w)" by (simp add: tcpSend_def)
  then show ?thesis using that reach by simp
next
  case False
  obtain e n sk1 w1 where l: "send_loop ops wait flags data 0 sk w = Some (e, n, sk1, w1)" and r1: "tcp_reach ops sk1"
    and n: "n \<le> length data" "e = NO_ERROR \<Longrightarrow> n = length data"
    using send_loop_returns [OF src wait reach, of flags data 0 w] by auto
  obtain event sk2 w2 where ev: "tcpWaitForEvents ops wait sk1 SOCKET_EVENT_TX_ACKED (sk_timeout sk1) w1 = (event, sk2, w2)"
    and r2: "tcp_reach ops sk2" by (rule tcpWaitForEvents_reach [OF r1 wait])
  consider "e \<noteq> NO_ERROR" | "e = NO_ERROR" "flags AND SOCKET_FLAG_WAIT_ACK \<noteq> 0" | "e = NO_ERROR" "flags AND SOCKET_FLAG_WAIT_ACK = 0"
    by blast
  then show ?thesis
  proof cases
    case 1
    then show ?thesis using that [of e n sk1 w1] False l r1 n by (simp add: tcpSend_def)
  next
    case 2
    define e2 where "e2 = (if event \<noteq> SOCKET_EVENT_TX_ACKED then ERROR_TIMEOUT
                   else if sk_state sk2 \<noteq> TCP_STATE_ESTABLISHED \<and> sk_state sk2 \<noteq> TCP_STATE_CLOSE_WAIT
                   then ERROR_NOT_CONNECTED else NO_ERROR)"
    have "tcpSend ops wait sk data flags w = Some (e2, n, sk2, w2)"
      using 2 False l ev by (simp add: tcpSend_def e2_def)
    then show ?thesis using that r2 n 2(1) by blast
  next
    case 3
    then show ?thesis using that [of NO_ERROR n sk1 w1] False l r1 n by (simp add: tcpSend_def)
  qed
qed

subsection \<open>Receiving\<close>

lemma receive_loop_returns:
  assumes src: "source_ok ops" and wait: "waiter_ok ops wait" and reach: "tcp_reach ops sk"
    and room: "n \<le> length data" and got: "got \<le> n"
  shows "\<exists>e k d sk' w'. receive_loop ops wait flags n got data sk w = Some (e, k, d, sk', w') \<and> tcp_reach ops sk' \<and>
    got \<le> k \<and> k \<le> n \<and> length d = length data \<and> take got d = take got data"
  using reach room got
proof (induction "n - got" arbitrary: got data sk w rule: less_induct)
  case less
  show ?case
  proof (cases "got < n")
    case False
    then have "receive_loop ops wait flags n got data sk w = Some (NO_ERROR, got, data, sk, w)"
      by (subst receive_loop.simps) simp
    then show ?thesis using less.prems False by simp
  next
    case more: True
    obtain event sk1 w1 where
      ev: "tcpWaitForEvents ops wait sk EVENT_RX_READY (if flags AND SOCKET_FLAG_DONT_WAIT \<noteq> 0 then 0 else sk_timeout sk) w =
        (event, sk1, w1)" and r1: "tcp_reach ops sk1" by (rule tcpWaitForEvents_reach [OF less.prems(1) wait])
    note unfold = receive_loop.simps [of ops wait flags n got data sk w, unfolded ev]
    have inv1: "tcp_inv sk1" by (rule tcp_reach_inv [OF r1 src])
    consider "event \<noteq> EVENT_RX_READY" | e where "event = EVENT_RX_READY" "receive_seq sk1 got = Inl e"
      | s where "event = EVENT_RX_READY" "receive_seq sk1 got = Inr s" "rcvUser sk1 = 0"
      | s where "event = EVENT_RX_READY" "receive_seq sk1 got = Inr s" "rcvUser sk1 \<noteq> 0"
      by (cases "receive_seq sk1 got") auto
    then show ?thesis
    proof cases
      case 4
      let ?rest = "drop got data"
      have space: "0 < n - got" "n - got \<le> length ?rest" using more less.prems by simp_all
      obtain stop k d sk2 w2 where c: "receive_chunk ops sk1 flags s ?rest (n - got) w1 = Some (stop, k, d, sk2, w2)"
        and k: "1 \<le> k" "k \<le> n - got" and ld: "length d = length ?rest"
        using receive_chunk_ok [OF inv1 receive_seq_connected [OF 4(2)] 4(3) space] .
      have r2: "tcp_reach ops sk2" by (rule tcp_reach.step [OF r1 tcp_step.receive [OF 4(2,3) space c]])
      let ?d = "take got data @ d"
      have eq: "receive_loop ops wait flags n got data sk w =
          (if stop then Some (NO_ERROR, got + k, ?d, sk2, w2) else receive_loop ops wait flags n (got + k) ?d sk2 w2)"
        using 4 more c by (simp add: unfold)
      have len: "length ?d = length data" "take got ?d = take got data" using ld less.prems by simp_all
      show ?thesis
      proof (cases stop)
        case True
        then show ?thesis using eq r2 k len by simp
      next
        case False
        have "n - (got + k) < n - got" using k by linarith
        moreover have "n \<le> length ?d" "got + k \<le> n" using less.prems len k by simp_all
        ultimately obtain e k2 d2 sk3 w3 where
          3: "receive_loop ops wait flags n (got + k) ?d sk2 w2 = Some (e, k2, d2, sk3, w3)" "tcp_reach ops sk3"
            "got + k \<le> k2" "k2 \<le> n" "length d2 = length ?d" "take (got + k) d2 = take (got + k) ?d"
          using less.hyps r2 by blast
        have "take got d2 = take got ?d" using arg_cong [OF 3(6), of "take got"] by (simp add: min_absorb1)
        then show ?thesis using eq False 3 len by auto
      qed
    qed (use more less.prems r1 in \<open>auto simp: unfold\<close>)
  qed
qed

lemma tcpReceive_returns:
  assumes "source_ok ops" and "waiter_ok ops wait" and "tcp_reach ops sk" and "n \<le> length data"
  obtains e k d sk' w' where "tcpReceive ops wait sk data n flags w = Some (e, k, d, sk', w')" and "tcp_reach ops sk'"
    and "k \<le> n" and "length d = length data"
  using receive_loop_returns [OF assms(1-4), of 0 flags w] assms(3)
  by (cases "sk_state sk = TCP_STATE_LISTEN") (auto simp: tcpReceive_def)

end
