(* ===== verification/TcpProperties.thy ===== *)
theory TcpProperties
  imports TcpDemo TcpReturns
begin

text \<open>The properties of TCP as a whole: accounting, moves of the state machine, and calls that return.\<close>

subsection \<open>Accounting\<close>

text \<open>
  C11: In every reachable socket the counters agree with the buffers, where a socket is reachable by the steps of
  \<open>tcp_step\<close>: any segment, tick, call or abort, but no connecting again of a closed socket on which data of the last
  connection is left over, and no FIN of \<open>tcpShutdown\<close> from a state other than the one it was chosen for; the code
  does both, and the accounting does not survive them.  The bytes sent and not acknowledged with
  those that wait to be sent fit the send buffer (a FIN counts as one more once it is sent); the bytes not yet
  read with the window offered fit the receive buffer, so the peer is never invited to overrun it; the segment
  size is within the limits of the stack; the blocks received out of order lie inside the window, none starts at
  the next number expected and no two touch; and the queue of connection requests is bounded.
\<close>

theorem tcp_reachable_accounting:
  assumes "tcp_reach ops sk" and "source_ok ops"
  shows "(connected sk \<longrightarrow>
      flight sk + unat (sndUser sk) \<le> unat (txBufferSize sk) + (if sending (sk_state sk) then 0 else 1) \<and>
      unat (rcvUser sk) + unat (rcvWnd sk) \<le> unat (rxBufferSize sk) \<and>
      64 \<le> unat (smss sk) \<and> unat (smss sk) \<le> 1430) \<and>
    (receiving (sk_state sk) \<longrightarrow>
      (\<forall>(l, r) \<in> set (sackBlock sk). l \<noteq> rcvNxt sk \<and> dist (rcvNxt sk) l \<le> dist (rcvNxt sk) r \<and>
         dist (rcvNxt sk) r \<le> unat (rcvWnd sk)) \<and>
      sorted_wrt (\<lambda>(l, r) (l', r'). dist (rcvNxt sk) r < dist (rcvNxt sk) l' \<or> dist (rcvNxt sk) r' < dist (rcvNxt sk) l)
        (sackBlock sk)) \<and>
    (sk_state sk = TCP_STATE_LISTEN \<longrightarrow> length (synQueue sk) \<le> unat (synQueueSize sk) \<and> unat (synQueueSize sk) \<le> 16)"
proof (intro conjI impI)
  have inv: "tcp_inv sk" by (rule tcp_reach_inv [OF assms])
  note ok = tcp_invD [OF inv]
  {
    assume c: "connected sk"
    note snd = ok(5) [OF c, unfolded snd_ok_def]
    show "flight sk + unat (sndUser sk) \<le> unat (txBufferSize sk) + (if sending (sk_state sk) then 0 else 1)"
      using snd by (elim conjE)
    show "unat (rcvUser sk) + unat (rcvWnd sk) \<le> unat (rxBufferSize sk)" using ok(6) [OF c] by (simp add: rcv_ok_def)
    show "64 \<le> unat (smss sk)" "unat (smss sk) \<le> 1430" using snd by simp_all
  }
  {
    assume r: "receiving (sk_state sk)"
    then have c: "connected sk" by (auto simp: receiving_def connected_def)
    note sack = ok(7) [OF c] r
    show "\<forall>(l, r) \<in> set (sackBlock sk). l \<noteq> rcvNxt sk \<and> dist (rcvNxt sk) l \<le> dist (rcvNxt sk) r \<and>
         dist (rcvNxt sk) r \<le> unat (rcvWnd sk)"
      using sack by (auto simp: sack_ok_def blocks_ok_def block_ok_def)
    show "sorted_wrt (\<lambda>(l, r) (l', r'). dist (rcvNxt sk) r < dist (rcvNxt sk) l' \<or> dist (rcvNxt sk) r' < dist (rcvNxt sk) l)
        (sackBlock sk)"
      using sack by (simp add: sack_ok_def blocks_ok_def apart_def [abs_def])
  }
  assume "sk_state sk = TCP_STATE_LISTEN"
  then show "length (synQueue sk) \<le> unat (synQueueSize sk)" "unat (synQueueSize sk) \<le> 16"
    using inv by (simp_all add: tcp_inv_def listen_ok_def)
qed

lemma tcp_reachable_accounting_witness:
  "connected demo_sk \<and> flight demo_sk + unat (sndUser demo_sk) \<le> 8 \<and> unat (rcvUser demo_sk) + unat (rcvWnd demo_sk) \<le> 8"
  using tcp_reachable_accounting [OF demo_reach demo_source_ok] by (simp add: connected_def sending_def)

subsection \<open>The state machine\<close>

text \<open>
  C12: Every segment that arrives at a reachable socket, in any state and with any flags, numbers, options and data, is
  handled without undefined behaviour; the socket is reachable again, and its state is the old one or the one the state
  diagram of RFC 793 has for the flags and the acknowledgment number of the segment.  There is one way not to return: a
  SYN, in LISTEN or SYN-SENT, with options that cannot be read, over which \<open>tcpGetOption\<close> loops for ever.  Reachable is
  meant as for the accounting.
\<close>

theorem segments_follow_rfc793:
  assumes "tcp_reach ops sk" and "source_ok ops" and "length data \<le> 65535"
  shows "(\<exists>sk' w'. dispatch_segment ops interface ph segment data sk w = Some (sk', w') \<and> tcp_reach ops sk' \<and>
      rfc793_move sk segment (sk_state sk')) \<or>
    dispatch_segment ops interface ph segment data sk w = None \<and> syn_unreadable sk segment"
proof (cases "dispatch_segment ops interface ph segment data sk w")
  case None
  then have "syn_unreadable sk segment" by (rule dispatch_segment_stuck [OF tcp_reach_inv [OF assms(1,2)] assms(3)])
  with None show ?thesis by simp
next
  case (Some r)
  obtain sk' w' where r: "dispatch_segment ops interface ph segment data sk w = Some (sk', w')"
    using Some by (cases r) simp
  have "tcp_reach ops sk'" by (rule tcp_reach.step [OF assms(1) tcp_step.segment [OF assms(3) r]])
  moreover have "handles sk segment (dispatch_segment ops interface ph segment data sk w)"
    by (rule dispatch_segment_ok [OF tcp_reach_inv [OF assms(1,2)] assms(3)]) (simp add: r)
  ultimately show ?thesis using r by (auto simp: handles_def)
qed

text \<open>A FIN of the peer with data.\<close>

definition demo_fin :: TcpHeader where
  "demo_fin = \<lparr>th_srcPort = 502, th_destPort = 1000, th_seqNum = 100, th_ackNum = 42, th_dataOffset = 5,
     th_flags = TCP_FLAG_FIN OR TCP_FLAG_ACK, th_window = 6, th_checksum = 0, th_options = []\<rparr>"

lemma segments_follow_rfc793_witness:
  "\<exists>sk' w'. dispatch_segment demo_ops 0 demo_pseudo demo_fin [1, 2] demo_sk () = Some (sk', w') \<and>
     sk_state sk' \<in> {TCP_STATE_ESTABLISHED, TCP_STATE_CLOSE_WAIT}"
proof -
  have "\<not> syn_unreadable demo_sk demo_fin" by (simp add: syn_unreadable_def)
  then show ?thesis
    using segments_follow_rfc793 [OF demo_reach demo_source_ok, of "[1, 2]" 0 demo_pseudo demo_fin "()"]
    by (auto simp: rfc793_move_def has_flag_def demo_fin_def)
qed

subsection \<open>Calls that return\<close>

text \<open>
  C15: The blocking calls of a reachable socket return, whatever the other tasks do meanwhile, as long as they only
  do steps of the stack.  \<open>tcpSend\<close> takes all its bytes or reports an error and how many it took; \<open>tcpReceive\<close>
  stays inside the user's memory; the tick and \<open>tcpAbort\<close> return at once.
\<close>

theorem tcp_calls_return:
  assumes "source_ok ops" and "waiter_ok ops wait" and "tcp_reach ops sk" and "n \<le> length buf"
  shows "(\<exists>e k sk' w'. tcpSend ops wait sk data flags w = Some (e, k, sk', w') \<and> tcp_reach ops sk' \<and>
      k \<le> length data \<and> (e = NO_ERROR \<longrightarrow> k = length data)) \<and>
    (\<exists>e k d sk' w'. tcpReceive ops wait sk buf n flags w = Some (e, k, d, sk', w') \<and> tcp_reach ops sk' \<and>
      k \<le> n \<and> length d = length buf) \<and>
    (\<exists>sk' w'. tcpTickSocket ops sk w = Some (sk', w') \<and> tcp_reach ops sk' \<and>
      (sk_state sk' = sk_state sk \<or> sk_state sk' = TCP_STATE_CLOSED)) \<and>
    (\<exists>e sk' w'. tcpAbort ops sk w = Some (e, sk', w') \<and> tcp_reach ops sk')"
proof (intro conjI)
  have inv: "tcp_inv sk" by (rule tcp_reach_inv [OF assms(3,1)])
  show "\<exists>e k sk' w'. tcpSend ops wait sk data flags w = Some (e, k, sk', w') \<and> tcp_reach ops sk' \<and>
      k \<le> length data \<and> (e = NO_ERROR \<longrightarrow> k = length data)"
    by (rule tcpSend_returns [OF assms(1-3), of data flags w]) blast
  show "\<exists>e k d sk' w'. tcpReceive ops wait sk buf n flags w = Some (e, k, d, sk', w') \<and> tcp_reach ops sk' \<and>
      k \<le> n \<and> length d = length buf"
    by (rule tcpReceive_returns [OF assms(1-4), of flags w]) blast
  show "\<exists>sk' w'. tcpTickSocket ops sk w = Some (sk', w') \<and> tcp_reach ops sk' \<and>
      (sk_state sk' = sk_state sk \<or> sk_state sk' = TCP_STATE_CLOSED)"
    using tcpTickSocket_ok [OF inv, of ops w] tcp_reach.step [OF assms(3) tcp_step.tick] by (auto simp: ticks_def)
  show "\<exists>e sk' w'. tcpAbort ops sk w = Some (e, sk', w') \<and> tcp_reach ops sk'"
    by (rule tcpAbort_ok [OF inv, of ops w]) (blast intro: tcp_reach.step [OF assms(3) tcp_step.abort])
qed

lemma tcp_calls_return_witness:
  "\<exists>e k sk' w'. tcpSend demo_ops (\<lambda>sk timeout w. (sk, w)) demo_sk [1, 2, 3, 4, 5, 6, 7, 8, 9, 10] 0 () = Some (e, k, sk', w') \<and>
     k \<le> 10"
proof -
  have "waiter_ok demo_ops (\<lambda>sk timeout w. (sk, w))" by (simp add: waiter_ok_def)
  from tcp_calls_return [OF demo_source_ok this demo_reach, of 0 "[]" "[1, 2, 3, 4, 5, 6, 7, 8, 9, 10]" 0 "()"]
  show ?thesis by fastforce
qed

subsection \<open>Acceptable segments\<close>



subsection \<open>Sending within the window\<close>

text \<open>
  C16: Sending never overruns the peer: \<open>tcpNagleAlgo\<close> returns, sends a prefix of the bytes waiting, and afterwards
  no more is unacknowledged than before or than the smallest of the window of the peer, the send buffer and the
  congestion window.
\<close>

theorem nagle_sends_within_window:
  assumes "tcp_reach ops sk" and "source_ok ops" and "send_state sk = NO_ERROR"
  shows "\<exists>e n sk' w'. tcpNagleAlgo ops sk flags w = Some (e, sk', w') \<and> n \<le> unat (sndUser sk) \<and>
    sndUna sk' = sndUna sk \<and> sndNxt sk' = sndNxt sk + word_of_nat n \<and> unat (sndUser sk') = unat (sndUser sk) - n \<and>
    flight sk' = flight sk + n \<and>
    flight sk' \<le> max (flight sk) (min (min (unat (sndWnd sk)) (unat (txBufferSize sk))) (unat (cwnd sk)))"
proof -
  have inv: "tcp_inv sk" by (rule tcp_reach_inv [OF assms(1,2)])
  have st: "sk_state sk = TCP_STATE_ESTABLISHED \<or> sk_state sk = TCP_STATE_CLOSE_WAIT" using assms(3) by (simp only: send_state_iff)
  then have c: "connected sk" by (auto simp: connected_def)
  note ok = tcp_invD [OF inv]
  obtain e n sk1 w1 where l: "nagle_loop ops flags (usable_window sk) sk w = Some (e, sk1, w1)" and n: "n \<le> unat (sndUser sk)"
    and u: "sint (usable_window sk) > 0 \<and> n \<le> unat (usable_window sk) \<or> n = 0" and s1: "same sk1 (sent n sk)"
    using nagle_loop_cases [OF ok(4) [OF c] ok(2) ok(8) [OF c], of ops flags "usable_window sk" w] by (elim exE conjE)
  obtain sk2 w2 where ev: "tcpUpdateEvents ops sk1 w1 = (sk2, w2)" and s2: "same sk2 sk1" by (rule tcpUpdateEvents_cases)
  define skf where "skf = (if e = NO_ERROR then sk2 else sk1)"
  define wf where "wf = (if e = NO_ERROR then w2 else w1)"
  have r: "tcpNagleAlgo ops sk flags w = Some (e, skf, wf)" using l ev by (simp add: tcpNagleAlgo_def skf_def wf_def)
  have sf: "same skf (sent n sk)" using s1 same_trans [OF s2 s1] by (simp add: skf_def)
  have fl: "flight sk + unat (sndUser sk) \<le> 22880"
    using ok(1) ok(5) [OF c] st by (auto simp: sizes_ok_def snd_ok_def sending_def split: if_splits)
  have fn: "flight skf = flight sk + n" using flight_sent [of sk n] fl n sf by (simp add: same_eqs)
  define win where "win = min (min (ucast (sndWnd sk)) (txBufferSize sk)) (ucast (cwnd sk) :: u32)"
  have win: "unat win = min (min (unat (sndWnd sk)) (unat (txBufferSize sk))) (unat (cwnd sk))"
    by (simp add: win_def min_def word_le_nat_alt)
  have uw: "usable_window sk = win - (sndNxt sk - sndUna sk)" by (simp add: usable_window_def win_def)
  have "flight sk + n \<le> max (flight sk) (unat win)"
  proof (cases "flight sk \<le> unat win")
    case True
    then have "unat (usable_window sk) = unat win - flight sk" unfolding uw by (simp add: unat_sub word_le_nat_alt)
    then show ?thesis using u True by auto
  next
    case False
    have "unat (usable_window sk) = unat win + 4294967296 - flight sk"
      unfolding uw using False by (intro unat_sub_wrap) simp
    then have "\<not> unat (usable_window sk) < half" using fl False by simp
    then have "\<not> sint (usable_window sk) > 0" using sint_nonneg_iff [of "usable_window sk"] by simp
    then show ?thesis using u by simp
  qed
  then show ?thesis
    using r n fn sf unat_sent_user [OF n] unfolding win [symmetric]
    by (intro exI [of _ e] exI [of _ n] exI [of _ skf] exI [of _ wf]) (simp add: same_eqs, simp add: sent_def)
qed

lemma nagle_sends_within_window_witness:
  "\<exists>e n sk' w'. tcpNagleAlgo demo_ops demo_queued SOCKET_FLAG_NO_DELAY () = Some (e, sk', w') \<and> n \<le> 7 \<and>
     flight sk' = n \<and> flight sk' \<le> 6"
  using nagle_sends_within_window [OF demo_queued_reach(1) demo_source_ok demo_queued_reach(2), of SOCKET_FLAG_NO_DELAY "()"]
  by fastforce

end
