(* ===== verification/TcpWire.thy ===== *)
theory TcpWire
  imports TcpReach
begin

text \<open>
  The option parser of \<open>tcpGetOption\<close>.  It returns for every header but those in which it meets, before the option
  it looks for, an option of length zero: there it goes round forever.
\<close>

text \<open>Whether the parser gets stuck on a list of options, looking for \<open>kind\<close>.\<close>

function stuck :: "u8 \<Rightarrow> buffer \<Rightarrow> bool" where
  "stuck kind [] \<longleftrightarrow> False"
| "stuck kind (k # opts) \<longleftrightarrow>
     (if k = TCP_OPTION_NOP then stuck kind opts
      else k \<noteq> TCP_OPTION_END \<and> opts \<noteq> [] \<and> unat (hd opts) \<le> Suc (length opts) \<and> k \<noteq> kind \<and>
        (hd opts = 0 \<or> stuck kind (drop (unat (hd opts) - 1) opts)))"
  by pat_completeness auto

termination
  by (relation "measure (\<lambda>(kind, opts). length opts)") auto

text \<open>What the loop finds when it returns: an option of the right kind that ends in the header.\<close>

definition option_at :: "buffer \<Rightarrow> u8 \<Rightarrow> nat \<Rightarrow> bool" where
  "option_at opts kind i \<longleftrightarrow> i + 1 < length opts \<and> opts ! i = kind \<and> i + unat (opts ! (i + 1)) \<le> length opts"

lemma loop_step:
  assumes "i < length opts"
  shows "get_option_loop opts kind (length opts) i =
     (if opts ! i = TCP_OPTION_NOP then get_option_loop opts kind (length opts) (i + 1)
      else if opts ! i = TCP_OPTION_END then Some None
      else if i + 1 \<ge> length opts then Some None
      else if i + unat (opts ! (i + 1)) > length opts then Some None
      else if opts ! i = kind then Some (Some i)
      else get_option_loop opts kind (length opts) (i + unat (opts ! (i + 1))))"
  using assms by (subst get_option_loop.simps) (simp add: rd8_def)

lemma loop_end: "\<not> i < length opts \<Longrightarrow> get_option_loop opts kind (length opts) i = Some None"
  by (subst get_option_loop.simps) simp

lemma stuck_step:
  assumes "i < length opts"
  shows "stuck kind (drop i opts) \<longleftrightarrow>
     (if opts ! i = TCP_OPTION_NOP then stuck kind (drop (i + 1) opts)
      else opts ! i \<noteq> TCP_OPTION_END \<and> i + 1 < length opts \<and> i + unat (opts ! (i + 1)) \<le> length opts \<and> opts ! i \<noteq> kind \<and>
        (opts ! (i + 1) = 0 \<or> stuck kind (drop (i + unat (opts ! (i + 1))) opts)))"
proof -
  have d: "drop i opts = opts ! i # drop (i + 1) opts" using assms by (simp add: Cons_nth_drop_Suc)
  show ?thesis
  proof (cases "i + 1 < length opts")
    case True
    then have h: "hd (drop (i + 1) opts) = opts ! (i + 1)" by (rule hd_drop_conv_nth)
    have "drop (unat l - 1) (drop (i + 1) opts) = drop (i + unat l) opts" if "l \<noteq> 0" for l :: u8
    proof -
      have "0 < unat l" using that by (simp add: unat_gt_0)
      then show ?thesis by (simp add: add.commute)
    qed
    moreover have "unat (opts ! (i + 1)) \<le> Suc (length (drop (i + 1) opts)) \<longleftrightarrow> i + unat (opts ! (i + 1)) \<le> length opts"
      using True by auto
    ultimately show ?thesis using True h unfolding d stuck.simps(2) h
      by (cases "opts ! (i + 1) = 0") auto
  next
    case False
    then show ?thesis unfolding d stuck.simps(2) by simp
  qed
qed

lemma loop_returns:
  assumes "\<not> stuck kind (drop i opts)"
  shows "\<exists>r. get_option_loop opts kind (length opts) i = Some r \<and> (\<forall>j. r = Some j \<longrightarrow> option_at opts kind j)"
  using assms
proof (induction "length opts - i" arbitrary: i rule: less_induct)
  case less
  show ?case
  proof (cases "i < length opts")
    case False
    then show ?thesis by (simp add: loop_end)
  next
    case True
    note step = loop_step [OF True, of kind] and stk = less.prems [unfolded stuck_step [OF True]]
    consider "opts ! i = TCP_OPTION_NOP"
      | "opts ! i \<noteq> TCP_OPTION_NOP" "opts ! i = TCP_OPTION_END \<or> i + 1 \<ge> length opts \<or> i + unat (opts ! (i + 1)) > length opts"
      | "opts ! i \<noteq> TCP_OPTION_NOP" "opts ! i \<noteq> TCP_OPTION_END" "i + 1 < length opts" "i + unat (opts ! (i + 1)) \<le> length opts"
        "opts ! i = kind"
      | "opts ! i \<noteq> TCP_OPTION_NOP" "opts ! i \<noteq> TCP_OPTION_END" "i + 1 < length opts" "i + unat (opts ! (i + 1)) \<le> length opts"
        "opts ! i \<noteq> kind" by linarith
    then show ?thesis
    proof cases
      case 1
      then show ?thesis using less.hyps [of "i + 1"] stk True step by simp
    next
      case 2
      then have "get_option_loop opts kind (length opts) i = Some None" using step by auto
      then show ?thesis by simp
    next
      case 3
      then show ?thesis using step by (simp add: option_at_def)
    next
      case 4
      let ?j = "i + unat (opts ! (i + 1))"
      have "opts ! (i + 1) \<noteq> 0" and ns: "\<not> stuck kind (drop ?j opts)" using stk 4 by auto
      then have "length opts - ?j < length opts - i" using True by (simp add: unat_gt_0 diff_less_mono2)
      from less.hyps [OF this ns] show ?thesis using step 4 by simp
    qed
  qed
qed

text \<open>If the loop returns, it was not stuck: no finite number of rounds leads past a length of zero.\<close>

lemma loop_returned:
  assumes "get_option_loop opts kind len i = Some r"
  shows "len = length opts \<longrightarrow> \<not> stuck kind (drop i opts)"
proof (induction opts kind len i r rule: get_option_loop.raw_induct)
  case 2
  show ?case by (rule assms)
next
  case (1 loop opts kind len i r)
  show ?case
  proof (intro impI, cases "i < length opts")
    assume len: "len = length opts"
    case True
    have ns: "\<not> stuck kind (drop j opts)" if "loop opts kind (length opts) j = Some r" for j using 1(1) [OF that] by simp
    have ret: "(if opts ! i = TCP_OPTION_NOP then loop opts kind (length opts) (i + 1)
      else if opts ! i = TCP_OPTION_END then Some None
      else if i + 1 \<ge> length opts then Some None
      else if i + unat (opts ! (i + 1)) > length opts then Some None
      else if opts ! i = kind then Some (Some i)
      else loop opts kind (length opts) (i + unat (opts ! (i + 1)))) = Some r"
      using 1(2) True len
      by (cases "opts ! i = 1"; cases "opts ! i = 0"; cases "i + 1 \<ge> length opts")
        (simp_all add: rd8_def split: if_split_asm)
    let ?j = "i + unat (opts ! (i + 1))"
    consider "opts ! i = TCP_OPTION_NOP"
      | "opts ! i = TCP_OPTION_END \<or> i + 1 \<ge> length opts \<or> ?j > length opts \<or> opts ! i = kind" "opts ! i \<noteq> TCP_OPTION_NOP"
      | "opts ! i \<noteq> TCP_OPTION_NOP" "loop opts kind (length opts) ?j = Some r"
      using ret by (auto split: if_split_asm)
    then show "\<not> stuck kind (drop i opts)"
    proof cases
      case 1
      then show ?thesis using ret ns [of "i + 1"] by (simp add: stuck_step [OF True])
    next
      case 2
      then show ?thesis unfolding stuck_step [OF True] by auto
    next
      case 3
      show ?thesis
      proof (cases "opts ! (i + 1) = 0")
        case True
        then show ?thesis using ns [OF 3(2)] by simp
      next
        case False
        then show ?thesis using 3 ns [OF 3(2)] unfolding stuck_step [OF \<open>i < length opts\<close>] by auto
      qed
    qed
  qed simp
qed

lemma loop_stuck_iff: "get_option_loop opts kind (length opts) 0 = None \<longleftrightarrow> stuck kind opts"
  using loop_returns [of kind 0 opts] loop_returned [of opts kind "length opts" 0]
  by (cases "get_option_loop opts kind (length opts) 0") auto

text \<open>The same for the maximum segment size option; its value is inside the header.\<close>

lemma mss_option_stuck_iff:
  assumes "5 \<le> th_dataOffset segment" and "length (th_options segment) = th_dataOffset segment * 4 - 20"
  shows "mss_option segment = None \<longleftrightarrow> stuck TCP_OPTION_MAX_SEGMENT_SIZE (th_options segment)"
proof -
  let ?opts = "th_options segment"
  have g: "tcpGetOption segment TCP_OPTION_MAX_SEGMENT_SIZE =
      get_option_loop ?opts TCP_OPTION_MAX_SEGMENT_SIZE (length ?opts) 0"
    using assms by (simp add: tcpGetOption_def)
  show ?thesis
  proof (cases "stuck TCP_OPTION_MAX_SEGMENT_SIZE ?opts")
    case True
    then have "tcpGetOption segment TCP_OPTION_MAX_SEGMENT_SIZE = None" unfolding g loop_stuck_iff .
    then show ?thesis using True by (simp add: mss_option_def)
  next
    case False
    then obtain r where r: "get_option_loop ?opts TCP_OPTION_MAX_SEGMENT_SIZE (length ?opts) 0 = Some r"
      and at: "\<And>j. r = Some j \<Longrightarrow> option_at ?opts TCP_OPTION_MAX_SEGMENT_SIZE j"
      using loop_returns [of TCP_OPTION_MAX_SEGMENT_SIZE 0 ?opts] by auto
    have "mss_option segment \<noteq> None"
    proof (cases r)
      case None
      then show ?thesis using g r by (simp add: mss_option_def)
    next
      case (Some i)
      have i: "i + 1 < length ?opts" "i + unat (?opts ! (i + 1)) \<le> length ?opts" using at [OF Some] by (simp_all add: option_at_def)
      show ?thesis
      proof (cases "?opts ! (i + 1) = 4")
        case True
        then have "i + 2 + 2 \<le> length ?opts" using i(2) by simp
        then show ?thesis using g r Some i True by (simp add: mss_option_def rd8_def rds_def)
      qed (use g r Some i in \<open>simp add: mss_option_def rd8_def\<close>)
    qed
    then show ?thesis using False by simp
  qed
qed

section \<open>A header on the wire\<close>

text \<open>
  A segment on the wire: the header of a segment the code sends is read back as it was, its checksum verifies, and
  the data follows it.
\<close>

lemma get_be16_be16: "get_be16 (be16 v @ b) 0 = v"
  by (rule bit_word_eqI) (auto simp: get_be16_def be16_def bit_simps)

lemma get_be32_be32: "get_be32 (be32 v @ b) 0 = v"
proof (rule bit_word_eqI)
  fix n
  assume "n < LENGTH(32)"
  then consider "n < 8" | k where "n = 8 + k" "k < 8" | k where "n = 16 + k" "k < 8" | k where "n = 24 + k" "k < 8"
    by (cases "n < 8"; cases "n < 16"; cases "n < 24") (auto dest!: le_Suc_ex simp: not_less)
  then show "bit (get_be32 (be32 v @ b) 0) n = bit v n"
    by cases (auto simp: get_be32_def be32_def bit_simps)
qed

lemma get16_bytes: "get16 (ucast v # ucast (drop_bit 8 v) # b) 0 = v"
  by (rule bit_word_eqI) (auto simp: get16_def bit_simps)

lemma be_length: "length (be16 v) = 2" "length (be32 u) = 4"
  by (simp_all add: be16_def be32_def)

text \<open>A header the code builds: the offset of the data counts the options, and only the six flags are set.\<close>

definition header_ok :: "TcpHeader \<Rightarrow> bool" where
  "header_ok h \<longleftrightarrow> 5 \<le> th_dataOffset h \<and> th_dataOffset h \<le> 15 \<and> th_flags h AND 0x3F = th_flags h \<and>
     length (th_options h) = th_dataOffset h * 4 - 20"

lemma header_ok_new_segment:
  assumes "fl AND 0x3F = fl"
  shows "header_ok (new_segment sk fl seqNum ackNum)"
proof (cases "fl AND TCP_FLAG_SYN = 0")
  case True
  then show ?thesis using assms by (simp add: header_ok_def new_segment_def Let_def)
next
  case False
  then show ?thesis using assms by (simp add: header_ok_def new_segment_def tcpAddOption_def Let_def be_length)
qed

lemma header_ok_checksum: "header_ok (h\<lparr>th_checksum := c\<rparr>) = header_ok h"
  by (simp add: header_ok_def)

lemma nibble: "n \<le> 15 \<Longrightarrow> unat (drop_bit 4 (push_bit 4 (word_of_nat n :: u8))) = n"
proof -
  assume "n \<le> 15"
  then have "n \<in> set [0..<16]" by simp
  moreover have "\<forall>n \<in> set [0..<16]. unat (drop_bit 4 (push_bit 4 (word_of_nat n :: u8))) = n" by code_simp
  ultimately show ?thesis by blast
qed

text \<open>The bytes of the header up to the checksum.\<close>

definition header_front :: "TcpHeader \<Rightarrow> buffer" where
  "header_front h = be16 (th_srcPort h) @ be16 (th_destPort h) @ be32 (th_seqNum h) @ be32 (th_ackNum h) @
     [push_bit 4 (word_of_nat (th_dataOffset h)), th_flags h AND 0x3F] @ be16 (th_window h)"

lemma header_bytes_eq:
  "tcp_header_bytes h = header_front h @ [ucast (th_checksum h), ucast (drop_bit 8 (th_checksum h))] @ [0, 0] @ th_options h"
  by (simp add: tcp_header_bytes_def header_front_def)

lemma length_header_front: "length (header_front h) = 16"
  by (simp add: header_front_def be_length)

lemma length_header: "header_ok h \<Longrightarrow> length (tcp_header_bytes h) = th_dataOffset h * 4"
  unfolding header_bytes_eq header_ok_def by (simp only: length_append length_header_front) (simp, linarith)

lemma get_be16_drop: "i + 1 < length b \<Longrightarrow> get_be16 b i = get_be16 (drop i b) 0"
  by (simp add: get_be16_def)

lemma get_be32_drop: "i + 3 < length b \<Longrightarrow> get_be32 b i = get_be32 (drop i b) 0"
  by (simp add: get_be32_def)

lemma header_round_trip:
  assumes "header_ok h"
  shows "tcp_header_of (tcp_header_bytes h @ d) = h"
proof -
  let ?b = "tcp_header_bytes h @ d"
  have len: "20 \<le> length ?b" using assms by (simp add: length_header) (simp add: header_ok_def)
  note simps = header_bytes_eq header_front_def be_length
  have "get_be16 ?b 0 = th_srcPort h" using get_be16_be16 by (simp add: simps)
  moreover have "get_be16 ?b 2 = th_destPort h"
    using len by (subst get_be16_drop) (simp_all add: simps get_be16_be16)
  moreover have "get_be32 ?b 4 = th_seqNum h"
    using len by (subst get_be32_drop) (simp_all add: simps get_be32_be32)
  moreover have "get_be32 ?b 8 = th_ackNum h"
    using len by (subst get_be32_drop) (simp_all add: simps get_be32_be32)
  moreover have "get_be16 ?b 14 = th_window h"
    using len by (subst get_be16_drop) (simp_all add: simps get_be16_be16)
  moreover have "?b ! 12 = push_bit 4 (word_of_nat (th_dataOffset h))" "?b ! 13 = th_flags h AND 0x3F"
    by (simp_all add: simps be16_def be32_def)
  moreover have "get16 ?b 16 = th_checksum h"
    using get16_bytes [of "th_checksum h" "[0, 0] @ th_options h @ d"] length_header_front [of h]
    by (simp add: header_bytes_eq get16_def nth_append)
  moreover have "take (th_dataOffset h * 4 - 20) (drop 20 ?b) = th_options h"
    using assms length_header_front [of h] by (simp add: header_bytes_eq header_ok_def)
  ultimately show ?thesis
    using assms by (simp add: tcp_header_of_def nibble header_ok_def)
qed

lemma checksum_verifies:
  assumes "even (length (pseudo_bytes ph))" and "th_checksum h = 0"
  shows "ipCalcUpperLayerChecksum (pseudo_bytes ph) 0 (tcp_header_bytes (finish_checksum ph h d) @ d) = 0"
proof -
  let ?pre = "pseudo_bytes ph @ header_front h" and ?post = "[0, 0] @ th_options h @ d"
  define r where "r = rfc1071 (?pre @ [0, 0] @ ?post)"
  have "th_checksum (finish_checksum ph h d) = r"
    using assms by (simp add: finish_checksum_def r_def ipCalcUpperLayerChecksum_eq header_bytes_eq)
  moreover have "header_front (finish_checksum ph h d) = header_front h" "th_options (finish_checksum ph h d) = th_options h"
    by (simp_all add: finish_checksum_def header_front_def)
  ultimately have "pseudo_bytes ph @ tcp_header_bytes (finish_checksum ph h d) @ d =
      ?pre @ [ucast r, ucast (drop_bit 8 r)] @ ?post" by (simp add: header_bytes_eq)
  moreover have "even (length ?pre)" using assms(1) by (simp add: length_header_front)
  ultimately show ?thesis
    using rfc1071_verifies [OF _ r_def] assms(1) by (simp add: ipCalcUpperLayerChecksum_eq)
qed

end
