(* ===== verification/TcpWireProperties.thy ===== *)
theory TcpWireProperties
  imports TcpDemo TcpWire
begin

text \<open>The properties of what TCP reads off the wire and puts on it.\<close>

subsection \<open>Options\<close>

text \<open>
  C23: The option parser returns for exactly the headers in which it meets no option of length zero before the option
  it looks for; then what it finds is an option of that kind that ends inside the header.  At an option of length zero
  it goes round forever.
\<close>

theorem option_parser_returns:
  assumes "5 \<le> th_dataOffset segment" and "length (th_options segment) = th_dataOffset segment * 4 - 20"
  shows "(tcpGetOption segment kind = None \<longleftrightarrow> stuck kind (th_options segment)) \<and>
    (\<forall>i. tcpGetOption segment kind = Some (Some i) \<longrightarrow> option_at (th_options segment) kind i)"
proof -
  have g: "tcpGetOption segment kind = get_option_loop (th_options segment) kind (length (th_options segment)) 0"
    using assms by (simp add: tcpGetOption_def)
  show ?thesis
    unfolding g loop_stuck_iff
    using loop_returned [of "th_options segment" kind "length (th_options segment)" 0]
      loop_returns [of kind 0 "th_options segment"] by fastforce
qed

text \<open>A maximum segment size behind padding is found at its place; a zero length before it is the end.\<close>

definition syn_with :: "buffer \<Rightarrow> TcpHeader" where
  "syn_with opts = \<lparr>th_srcPort = 4000, th_destPort = 1000, th_seqNum = 7, th_ackNum = 0, th_dataOffset = 5 + length opts div 4,
     th_flags = TCP_FLAG_SYN, th_window = 6, th_checksum = 0, th_options = opts\<rparr>"

lemma option_parser_returns_witness:
  "tcpGetOption (syn_with [3, 0, 2, 4, 5, 180, 0, 0]) 2 = None \<and> tcpGetOption (syn_with [1, 1, 1, 2, 4, 5, 180, 0]) 2 \<noteq> None"
  using option_parser_returns [of "syn_with [3, 0, 2, 4, 5, 180, 0, 0]" 2]
    option_parser_returns [of "syn_with [1, 1, 1, 2, 4, 5, 180, 0]" 2]
  by (simp add: syn_with_def)

text \<open>
  C22: One SYN stops the network task.  A segment with a valid checksum that asks for a connection at a listening
  socket with room in its queue, and has an option of length zero before the maximum segment size, is never done
  with: \<open>tcpProcessSegment\<close> does not return.
\<close>

theorem syn_option_hangs_listener:
  assumes "unicast_dest bc ph" and "20 \<le> length b" and "segment = tcp_header_of b" and "5 \<le> th_dataOffset segment"
    and "th_dataOffset segment * 4 \<le> length b" and "ipCalcUpperLayerChecksum (pseudo_bytes ph) 0 b = 0"
    and "find_socket ifc ph segment table 0 None = Some i" and "sk_state (table ! i) = TCP_STATE_LISTEN"
    and "SYN segment" and "\<not> ACK segment" and "\<not> RST segment" and "\<not> tcpIsDuplicateSyn (table ! i) ph segment"
    and "length (synQueue (table ! i)) < unat (synQueueSize (table ! i))"
    and "fst (memAlloc ops sizeof_TcpSynQueueItem w) \<noteq> None"
    and "stuck TCP_OPTION_MAX_SEGMENT_SIZE (th_options segment)"
  shows "tcpProcessSegment ops bc ifc ph b table w = None"
proof -
  have l: "length (th_options segment) = th_dataOffset segment * 4 - 20"
    using assms(2,4,5) unfolding assms(3) by (simp add: tcp_header_of_def)
  then have hang: "mss_option segment = None" using mss_option_stuck_iff [OF assms(4) l] assms(15) by simp
  have "unat (synQueueSize (table ! i)) < 2 ^ LENGTH(32)" by (rule unsigned_less)
  then have "unat (word_of_nat (length (synQueue (table ! i))) :: u32) = length (synQueue (table ! i))"
    using assms(13) by (intro unat_of_nat_u32) simp
  then have room: "\<not> (synQueue (table ! i) \<noteq> [] \<and> word_of_nat (length (synQueue (table ! i))) \<ge> synQueueSize (table ! i))"
    using assms(13) by (simp add: word_le_nat_alt not_le)
  obtain block w1 where al: "memAlloc ops sizeof_TcpSynQueueItem w = (block, w1)" "block \<noteq> None"
    using assms(14) by (cases "memAlloc ops sizeof_TcpSynQueueItem w") simp
  have "dispatch_segment ops ifc ph segment (drop (th_dataOffset segment * 4) b) (table ! i) w = None"
    using assms(8-12) room al hang by (simp add: dispatch_segment_def tcpStateListen_def)
  then show ?thesis
    using assms(1-7) by (simp add: tcpProcessSegment_def Let_def)
qed

text \<open>A listening socket and 24 bytes that stop it.\<close>

definition demo_listener :: Socket where
  "demo_listener = demo_closed\<lparr>sk_state := TCP_STATE_LISTEN, synQueueSize := 4\<rparr>"

definition killer :: buffer where
  "killer = [15, 160, 3, 232, 0, 0, 0, 7, 0, 0, 0, 0, 96, 2, 0, 6, 134, 74, 0, 0, 3, 0, 0, 0]"

lemma killer_header:
  "tcp_header_of killer = (syn_with [3, 0, 0, 0])\<lparr>th_checksum := 0x4A86\<rparr>"
  by code_simp

lemma killer_length: "length killer = 24"
  by (simp add: killer_def)

lemma killer_verifies [simplified]: "ipCalcUpperLayerChecksum (pseudo_bytes (Ipv4Pseudo 2 1 24)) 0 killer = 0"
  by code_simp

lemma syn_option_hangs_listener_witness:
  "tcpProcessSegment demo_ops (\<lambda>a. False) 0 (Ipv4Pseudo 2 1 24) killer [demo_listener] () = None"
proof (rule syn_option_hangs_listener [where segment = "tcp_header_of killer" and i = 0])
  show "find_socket 0 (Ipv4Pseudo 2 1 24) (tcp_header_of killer) [demo_listener] 0 None = Some 0"
    by (simp add: killer_header syn_with_def demo_listener_def demo_closed_def opened_socket_def socket_matches_def)
qed (simp_all add: killer_header killer_verifies killer_length syn_with_def demo_listener_def demo_closed_def opened_socket_def
    tcpIsDuplicateSyn_def has_flag_def)

subsection \<open>From one stack to the other\<close>

lemma submit_segment_done:
  assumes "submit_segment ops sk ph h d len q w = (NO_ERROR, sk', w')"
  shows "\<exists>w1. ipSend ops (sk_interface sk') ph (tcp_header_bytes (finish_checksum ph h d) @ d) w1 = (NO_ERROR, w')"
proof -
  obtain e sk1 w1 where "(if q then queue_segment ops sk ph (finish_checksum ph h d) len w else (NO_ERROR, sk, w)) = (e, sk1, w1)"
    by (metis surj_pair)
  then show ?thesis
    using assms by (auto simp: submit_segment_def Let_def split: if_split_asm prod.split_asm)
qed

lemma tcpSendSegment_done:
  assumes "tcpSendSegment ops sk fl seqNum ackNum len q w = Some (NO_ERROR, sk', w')"
  obtains ph d w1 where
    "(if len > 0 then tcpReadTxBuffer sk seqNum (unat len) else Some (NO_ERROR, [])) = Some (NO_ERROR, d)"
    and "socket_pseudo sk (th_dataOffset (new_segment sk fl seqNum ackNum) * 4 + unat len) = Some (Some ph)"
    and "ipSend ops (sk_interface sk') ph
      (tcp_header_bytes (finish_checksum ph (new_segment sk fl seqNum ackNum) d) @ d) w1 = (NO_ERROR, w')"
proof -
  let ?new = "new_segment sk fl seqNum ackNum" and ?rd = "if len > 0 then tcpReadTxBuffer sk seqNum (unat len) else Some (NO_ERROR, [])"
  obtain block w0 where al: "memAlloc ops NET_BUFFER_SIZE w = (block, w0)" by (metis surj_pair)
  then obtain y where y: "block = Some y" using assms by (cases block) (simp_all add: tcpSendSegment_def)
  have r: "Option.bind ?rd (\<lambda>(error, d). if error \<noteq> NO_ERROR then Some (error, sk, w0)
      else Option.bind (socket_pseudo sk (th_dataOffset ?new * 4 + unat len)) (\<lambda>pseudo. case pseudo of
          None \<Rightarrow> Some (ERROR_INVALID_ADDRESS, sk, w0)
        | Some ph \<Rightarrow> Some (submit_segment ops sk ph ?new d len q w0))) = Some (NO_ERROR, sk', w')"
    using assms unfolding tcpSendSegment_def al y Let_def by simp
  obtain e d where rd: "?rd = Some (e, d)" using r by (cases ?rd) auto
  have e: "e = NO_ERROR" using r unfolding rd by (auto split: if_split_asm)
  obtain pseudo where p: "socket_pseudo sk (th_dataOffset ?new * 4 + unat len) = Some pseudo"
    using r unfolding rd e by (cases "socket_pseudo sk (th_dataOffset ?new * 4 + unat len)") auto
  obtain ph where ph: "pseudo = Some ph" using r unfolding rd e by (cases pseudo) (auto simp: p)
  have "submit_segment ops sk ph ?new d len q w0 = (NO_ERROR, sk', w')" using r unfolding rd e by (simp add: p ph)
  from submit_segment_done [OF this] obtain w1 where
    "ipSend ops (sk_interface sk') ph (tcp_header_bytes (finish_checksum ph ?new d) @ d) w1 = (NO_ERROR, w')" ..
  with rd e p ph show ?thesis by (intro that) simp_all
qed

text \<open>
  C14: What one stack sends the other reads.  When a segment has been sent, the bytes handed to the IP layer are a
  header with the number, flags, acknowledgment and window asked for, followed by the bytes of the send buffer; and
  any stack they arrive at passes all its checks (length, offset, checksum), reads that header and that data back and
  hands them to the socket of the connection.
\<close>

theorem sent_segment_is_received:
  fixes ops :: "'w tcp_ops" and peer :: "'v tcp_ops"
  assumes "tcpSendSegment ops sk flags seqNum ackNum len q w = Some (NO_ERROR, sk', w')" and "flags AND 0x3F = flags"
    and "remoteIpAddr sk = Ipv4Addr dest" and "\<not> bc dest" and "dest AND 0xF0 \<noteq> 0xE0"
  shows "\<exists>ph segment d i w1. ipSend ops i ph (tcp_header_bytes segment @ d) w1 = (NO_ERROR, w') \<and>
    (if len > 0 then tcpReadTxBuffer sk seqNum (unat len) = Some (NO_ERROR, d) else d = []) \<and>
    th_srcPort segment = localPort sk \<and> th_destPort segment = remotePort sk \<and> th_seqNum segment = seqNum \<and>
    th_flags segment = flags \<and> (flags AND TCP_FLAG_ACK \<noteq> 0 \<longrightarrow> th_ackNum segment = ackNum) \<and>
    th_window segment = rcvWnd sk \<and>
    tcpProcessSegment peer bc ifc ph (tcp_header_bytes segment @ d) table v =
      (case find_socket ifc ph segment table 0 None of
         None \<Rightarrow> Some (table, if RST segment then v
                   else snd (tcpSendResetSegment peer (Some ifc) ph segment (word_of_nat (length d)) v))
       | Some k \<Rightarrow> map_option (\<lambda>(sk, v). (table[k := sk], v)) (dispatch_segment peer ifc ph segment d (table ! k) v))"
proof -
  let ?new = "new_segment sk flags seqNum ackNum"
  obtain ph d w1 where d: "(if len > 0 then tcpReadTxBuffer sk seqNum (unat len) else Some (NO_ERROR, [])) = Some (NO_ERROR, d)"
    and ph: "socket_pseudo sk (th_dataOffset ?new * 4 + unat len) = Some (Some ph)"
    and sent: "ipSend ops (sk_interface sk') ph (tcp_header_bytes (finish_checksum ph ?new d) @ d) w1 = (NO_ERROR, w')"
    by (rule tcpSendSegment_done [OF assms(1)])
  define segment where "segment = finish_checksum ph ?new d"
  obtain src l where ip4: "ph = Ipv4Pseudo src dest l"
    using ph assms(3) by (auto simp: socket_pseudo_def split: IpAddr.splits)
  then have even: "even (length (pseudo_bytes ph))" and uni: "unicast_dest bc ph"
    using assms(4,5) by (simp_all add: le32_def be_length)
  have ok: "header_ok segment"
    using header_ok_new_segment [OF assms(2)] by (simp add: segment_def finish_checksum_def header_ok_checksum)
  have new: "th_checksum ?new = 0" "th_srcPort ?new = localPort sk" "th_destPort ?new = remotePort sk"
    "th_seqNum ?new = seqNum" "th_flags ?new = flags" "flags AND TCP_FLAG_ACK \<noteq> 0 \<longrightarrow> th_ackNum ?new = ackNum"
    "th_window ?new = rcvWnd sk"
    by (simp_all add: new_segment_def tcpAddOption_def Let_def)
  let ?b = "tcp_header_bytes segment @ d"
  have len: "length (tcp_header_bytes segment) = th_dataOffset segment * 4" by (rule length_header [OF ok])
  have "ipCalcUpperLayerChecksum (pseudo_bytes ph) 0 ?b = 0"
    unfolding segment_def by (rule checksum_verifies [OF even new(1)])
  moreover have "tcp_header_of ?b = segment" by (rule header_round_trip [OF ok])
  moreover have "5 \<le> th_dataOffset segment" using ok by (simp add: header_ok_def)
  ultimately have "tcpProcessSegment peer bc ifc ph ?b table v =
      (case find_socket ifc ph segment table 0 None of
         None \<Rightarrow> Some (table, if RST segment then v
                   else snd (tcpSendResetSegment peer (Some ifc) ph segment (word_of_nat (length d)) v))
       | Some k \<Rightarrow> map_option (\<lambda>(sk, v). (table[k := sk], v)) (dispatch_segment peer ifc ph segment d (table ! k) v))"
    using len uni
    by (simp add: tcpProcessSegment_def Let_def map_option_bind split: option.split) (auto simp: Option.bind_eq_Some_conv split: bind_split)
  moreover have "if len > 0 then tcpReadTxBuffer sk seqNum (unat len) = Some (NO_ERROR, d) else d = []"
    using d by (simp split: if_splits)
  moreover have "th_srcPort segment = localPort sk" "th_destPort segment = remotePort sk" "th_seqNum segment = seqNum"
    "th_flags segment = flags" "flags AND TCP_FLAG_ACK \<noteq> 0 \<longrightarrow> th_ackNum segment = ackNum" "th_window segment = rcvWnd sk"
    using new by (simp_all add: segment_def finish_checksum_def)
  ultimately show ?thesis using sent [folded segment_def] by blast
qed

text \<open>Six of the seven bytes of the demonstration connection on their way.\<close>

lemma demo_data: "tcpReadTxBuffer demo_queued 42 6 = Some (NO_ERROR, [1, 2, 3, 4, 5, 6])"
  by (simp add: tcpReadTxBuffer_def ring_offset_def buf_concat_def buf_read_def Let_def)

lemma demo_sent: "\<exists>sk'. tcpSendSegment demo_ops demo_queued 0x18 42 100 6 True () = Some (NO_ERROR, sk', ())"
  by (simp add: tcpSendSegment_def socket_pseudo_def submit_segment_def queue_segment_def demo_data Let_def
    split: prod.split)

lemma sent_segment_is_received_witness:
  "\<exists>ph segment d. tcpReadTxBuffer demo_queued 42 6 = Some (NO_ERROR, d) \<and> th_seqNum segment = 42 \<and> th_flags segment = 0x18 \<and>
     tcpProcessSegment demo_ops (\<lambda>a. False) 0 ph (tcp_header_bytes segment @ d) [] () =
       Some ([], if RST segment then () else snd (tcpSendResetSegment demo_ops (Some 0) ph segment (word_of_nat (length d)) ()))"
proof -
  obtain sk' where "tcpSendSegment demo_ops demo_queued 0x18 42 100 6 True () = Some (NO_ERROR, sk', ())" using demo_sent ..
  from sent_segment_is_received [OF this, of 2 "\<lambda>a. False" demo_ops 0 "[]" "()"] show ?thesis by auto
qed

end
