(* ===== verification/TcpRing.thy ===== *)
theory TcpRing
  imports TcpCalls
begin

text \<open>
  The send and receive buffers as rings.  The byte at position \<open>k\<close> of the stream lies at \<open>k mod n\<close>.  The locale
  \<open>byte_ring\<close> is the contract of a ring; the functions of \<open>tcp_misc.c\<close> that write and read the two buffers provide it.
\<close>

subsection \<open>Writing and reading a ring\<close>

definition ring_put :: "buffer \<Rightarrow> nat \<Rightarrow> buffer \<Rightarrow> buffer" where
  "ring_put b k vs =
     (let n = length b; off = k mod n in
      if off + length vs \<le> n then buf_write b off vs
      else buf_write (buf_write b off (take (n - off) vs)) 0 (drop (n - off) vs))"

definition ring_get :: "buffer \<Rightarrow> nat \<Rightarrow> nat \<Rightarrow> buffer" where
  "ring_get b k len =
     (let n = length b; off = k mod n in
      if off + len \<le> n then buf_read b off len else buf_read b off (n - off) @ buf_read b 0 (len + off - n))"

lemma buf_write_fits: "off + length vs \<le> length b \<Longrightarrow> buf_write b off vs = blit b off vs"
  by (simp add: buf_write_def)

lemma length_ring_put [simp]: "length (ring_put b k vs) = length b"
  by (simp add: ring_put_def length_buf_write Let_def)

text \<open>Where a position in reach of another lies.\<close>

lemma mod_reach:
  fixes k :: nat
  assumes "j < n"
  shows "(k + j) mod n = (if k mod n + j < n then k mod n + j else k mod n + j - n)"
proof -
  have m: "(k + j) mod n = (k mod n + j) mod n" by (rule mod_add_left_eq [symmetric])
  have "k mod n < n" using assms by (intro mod_less_divisor) linarith
  then have "k mod n + j < 2 * n" using assms by linarith
  then show ?thesis unfolding m by (auto simp: mod_nat_eqI le_mod_geq)
qed

lemma ring_put_in:
  assumes "length vs \<le> length b" and "j < length vs"
  shows "ring_put b k vs ! ((k + j) mod length b) = vs ! j"
proof -
  let ?n = "length b" and ?off = "k mod length b"
  have off: "?off < ?n" using assms by (intro mod_less_divisor) linarith
  have m: "(k + j) mod ?n = (if ?off + j < ?n then ?off + j else ?off + j - ?n)"
    using assms by (intro mod_reach) auto
  show ?thesis
  proof (cases "?off + length vs \<le> ?n")
    case True
    then have "?off + j < ?n" using assms(2) by linarith
    then show ?thesis using True assms(2) m by (simp add: ring_put_def Let_def buf_write_fits nth_blit_inside)
  next
    case False
    define b1 where "b1 = blit b ?off (take (?n - ?off) vs)"
    have l1: "length b1 = ?n" using off assms by (simp add: b1_def)
    have "ring_put b k vs = blit b1 0 (drop (?n - ?off) vs)"
      using False off assms l1 by (simp add: ring_put_def Let_def buf_write_fits b1_def)
    moreover have "blit b1 0 (drop (?n - ?off) vs) ! (if ?off + j < ?n then ?off + j else ?off + j - ?n) = vs ! j"
    proof (cases "?off + j < ?n")
      case True
      then have "blit b1 0 (drop (?n - ?off) vs) ! (?off + j) = b1 ! (?off + j)"
        using assms l1 by (intro nth_blit_above) auto
      also have "\<dots> = take (?n - ?off) vs ! j"
        unfolding b1_def using True off assms by (subst nth_blit_inside) auto
      finally show ?thesis using True by simp
    next
      case False
      then have "blit b1 0 (drop (?n - ?off) vs) ! (?off + j - ?n) = drop (?n - ?off) vs ! (?off + j - ?n)"
        using assms l1 off by (subst nth_blit_inside) auto
      then show ?thesis using False off assms by (simp add: add.commute)
    qed
    ultimately show ?thesis unfolding m by simp
  qed
qed

lemma ring_put_out:
  assumes "length vs \<le> length b" and "i < length b" and "\<And>j. j < length vs \<Longrightarrow> (k + j) mod length b \<noteq> i"
  shows "ring_put b k vs ! i = b ! i"
proof -
  let ?n = "length b" and ?off = "k mod length b"
  have off: "?off < ?n" using assms(2) by (intro mod_less_divisor) linarith
  have m: "(k + j) mod ?n = (if ?off + j < ?n then ?off + j else ?off + j - ?n)" if "j < length vs" for j
    using assms(1) that by (intro mod_reach) auto
  show ?thesis
  proof (cases "?off + length vs \<le> ?n")
    case True
    have "i < ?off \<or> ?off + length vs \<le> i"
    proof (rule ccontr)
      assume "\<not> ?thesis"
      then have "i - ?off < length vs" "(k + (i - ?off)) mod ?n = i" using m [of "i - ?off"] assms(2) by auto
      then show False using assms(3) by blast
    qed
    then show ?thesis using True by (auto simp: ring_put_def Let_def buf_write_fits nth_blit)
  next
    case False
    define b1 where "b1 = blit b ?off (take (?n - ?off) vs)"
    have l1: "length b1 = ?n" using off assms by (simp add: b1_def)
    have eq: "ring_put b k vs = blit b1 0 (drop (?n - ?off) vs)"
      using False off assms l1 by (simp add: ring_put_def Let_def buf_write_fits b1_def)
    have "i < ?off"
    proof (rule ccontr)
      assume "\<not> i < ?off"
      then have "i - ?off < length vs" "(k + (i - ?off)) mod ?n = i" using m [of "i - ?off"] False assms(2) by auto
      then show False using assms(3) by blast
    qed
    moreover have "?off + length vs - ?n \<le> i"
    proof (rule ccontr)
      assume "\<not> ?thesis"
      then have "?n - ?off + i < length vs" "(k + (?n - ?off + i)) mod ?n = i" using m [of "?n - ?off + i"] off by auto
      then show False using assms(3) by blast
    qed
    ultimately have i: "i < ?off" "length vs - (?n - ?off) \<le> i" using off by linarith+
    have "blit b1 0 (drop (?n - ?off) vs) ! i = b1 ! i" using i off assms(1) l1 by (intro nth_blit_above) simp_all
    moreover have "b1 ! i = b ! i" unfolding b1_def using i off by (intro nth_blit_below) simp_all
    ultimately show ?thesis unfolding eq by simp
  qed
qed

lemma ring_get_eq:
  assumes "len \<le> length b"
  shows "ring_get b k len = map (\<lambda>j. b ! ((k + j) mod length b)) [0..<len]"
proof (cases "b = []")
  case True
  then show ?thesis using assms by (simp add: ring_get_def buf_read_def)
next
  case ne: False
  let ?n = "length b" and ?off = "k mod length b"
  have off: "?off < ?n" using ne by (intro mod_less_divisor) simp
  have m: "(k + j) mod ?n = (if ?off + j < ?n then ?off + j else ?off + j - ?n)" if "j < len" for j
    using assms that by (intro mod_reach) auto
  show ?thesis
  proof (cases "?off + len \<le> ?n")
    case True
    then show ?thesis
      using m by (intro nth_equalityI) (auto simp: ring_get_def Let_def buf_read_def)
  next
    case False
    then have "length (ring_get b k len) = len" using off assms by (simp add: ring_get_def Let_def buf_read_def)
    moreover have "ring_get b k len ! j = b ! ((k + j) mod ?n)" if "j < len" for j
      using False off assms that m [OF that] by (auto simp: ring_get_def Let_def buf_read_def nth_append add.commute)
    ultimately show ?thesis by (intro nth_equalityI) simp_all
  qed
qed

subsection \<open>The buffers of a socket\<close>

lemma ring_offset_pos:
  assumes "n \<noteq> 0" and "k < 4294967296"
  shows "ring_offset (isn + 1 + word_of_nat k) isn n = Some (k mod unat n)"
  using assms by (simp add: ring_offset_def)

lemma tcpWriteTxBuffer_ring:
  assumes "txBufferSize sk \<noteq> 0" and "length (txBuffer sk) = unat (txBufferSize sk)" and "k < 4294967296"
  shows "tcpWriteTxBuffer sk (iss sk + 1 + word_of_nat k) vs = Some (sk\<lparr>txBuffer := ring_put (txBuffer sk) k vs\<rparr>)"
  using assms by (simp add: tcpWriteTxBuffer_def ring_offset_pos ring_put_def Let_def)

lemma tcpReadTxBuffer_ring:
  assumes "txBufferSize sk \<noteq> 0" and "length (txBuffer sk) = unat (txBufferSize sk)" and "k < 4294967296"
    and "n \<le> unat (txBufferSize sk)"
  shows "tcpReadTxBuffer sk (iss sk + 1 + word_of_nat k) n = Some (NO_ERROR, ring_get (txBuffer sk) k n)"
proof -
  have "0 < unat (txBufferSize sk)" using assms(1) by (simp add: unat_gt_0 word_neq_0_conv)
  then have "k mod unat (txBufferSize sk) < unat (txBufferSize sk)" by simp
  then show ?thesis using assms by (simp add: tcpReadTxBuffer_def ring_offset_pos ring_get_def buf_concat_def Let_def)
qed

lemma buf_copy_fits:
  assumes "off < length b" and "srcOff + n \<le> length src"
  shows "buf_copy b off src srcOff n = buf_write b off (take n (drop srcOff src))"
  using assms by (auto simp: buf_copy_def buf_read_def buf_write_def)

lemma tcpWriteRxBuffer_ring:
  assumes "rxBufferSize sk \<noteq> 0" and "length (rxBuffer sk) = unat (rxBufferSize sk)" and "k < 4294967296"
    and "off + len \<le> length data"
  shows "tcpWriteRxBuffer sk (irs sk + 1 + word_of_nat k) data off len =
    Some (sk\<lparr>rxBuffer := ring_put (rxBuffer sk) k (take len (drop off data))\<rparr>)"
proof -
  let ?n = "unat (rxBufferSize sk)" and ?o = "k mod unat (rxBufferSize sk)"
  have n: "0 < ?n" using assms(1) by (simp add: unat_gt_0 word_neq_0_conv)
  then have o: "?o < ?n" by simp
  show ?thesis
  proof (cases "?o + len \<le> ?n")
    case True
    then show ?thesis
      using assms o by (simp add: tcpWriteRxBuffer_def ring_offset_pos ring_put_def Let_def buf_copy_fits)
  next
    case False
    then have "take (?n - ?o) (take len (drop off data)) = take (?n - ?o) (drop off data)"
      and "drop (?n - ?o) (take len (drop off data)) = take (len + ?o - ?n) (drop (off + ?n - ?o) data)"
      using o by (simp_all add: drop_take ac_simps)
    moreover have "buf_copy (rxBuffer sk) ?o data off (?n - ?o) = buf_write (rxBuffer sk) ?o (take (?n - ?o) (drop off data))"
      using assms False o by (intro buf_copy_fits) simp_all
    moreover have "buf_copy b 0 data (off + ?n - ?o) (len + ?o - ?n) =
        buf_write b 0 (take (len + ?o - ?n) (drop (off + ?n - ?o) data))" if "length b = ?n" for b
    proof (rule buf_copy_fits)
      show "off + ?n - ?o + (len + ?o - ?n) \<le> length data" using False o assms(4) by linarith
    qed (use n that in simp)
    ultimately show ?thesis
      using False assms by (simp add: tcpWriteRxBuffer_def ring_offset_pos ring_put_def Let_def length_buf_write)
  qed
qed

lemma tcpReadRxBuffer_ring:
  assumes "rxBufferSize sk \<noteq> 0" and "length (rxBuffer sk) = unat (rxBufferSize sk)" and "k < 4294967296"
    and "n \<le> unat (rxBufferSize sk)" and "n \<le> length data"
  shows "tcpReadRxBuffer sk (irs sk + 1 + word_of_nat k) data n = Some (ring_get (rxBuffer sk) k n @ drop n data)"
proof -
  let ?n = "unat (rxBufferSize sk)" and ?o = "k mod unat (rxBufferSize sk)"
  have "0 < ?n" using assms(1) by (simp add: unat_gt_0 word_neq_0_conv)
  then have o: "?o < ?n" by simp
  have w: "wrs data 0 vs = Some (vs @ drop (length vs) data)" if "length vs \<le> length data" for vs
    using that by (simp add: wrs_def blit_def)
  show ?thesis
  proof (cases "?o + n \<le> ?n")
    case True
    then show ?thesis
      using assms w [of "buf_read (rxBuffer sk) ?o n"]
      by (simp add: tcpReadRxBuffer_def ring_offset_pos ring_get_def Let_def) (simp add: buf_read_def)
  next
    case False
    define v1 v2 where "v1 = buf_read (rxBuffer sk) ?o (?n - ?o)" and "v2 = buf_read (rxBuffer sk) 0 (n + ?o - ?n)"
    have l: "length v1 = ?n - ?o" "length v2 = n + ?o - ?n" using False o assms by (simp_all add: v1_def v2_def buf_read_def)
    have "wrs data 0 v1 = Some (v1 @ drop (length v1) data)" using w [of v1] l False o assms by simp
    moreover have "wrs (v1 @ drop (length v1) data) (?n - ?o) v2 = Some (v1 @ v2 @ drop n data)"
      using l False o assms by (simp add: wrs_def blit_def)
    ultimately show ?thesis
      using False assms by (simp add: tcpReadRxBuffer_def ring_offset_pos ring_get_def Let_def v1_def v2_def)
  qed
qed

subsection \<open>The contract of a ring\<close>

text \<open>
  A ring gives access to the bytes of a stream by their position: writing sets the bytes it covers and keeps every
  other that is at most a capacity away; reading returns them in order.
\<close>

locale byte_ring =
  fixes ring_ok :: "'r \<Rightarrow> bool" and cap :: "'r \<Rightarrow> nat" and byte :: "'r \<Rightarrow> nat \<Rightarrow> u8"
    and put :: "'r \<Rightarrow> nat \<Rightarrow> buffer \<Rightarrow> 'r" and get :: "'r \<Rightarrow> nat \<Rightarrow> nat \<Rightarrow> buffer"
  assumes put_ok: "ring_ok r \<Longrightarrow> length vs \<le> cap r \<Longrightarrow> k < 4294967296 \<Longrightarrow> ring_ok (put r k vs) \<and> cap (put r k vs) = cap r"
    and put_in: "ring_ok r \<Longrightarrow> length vs \<le> cap r \<Longrightarrow> k < 4294967296 \<Longrightarrow> j < length vs \<Longrightarrow> byte (put r k vs) (k + j) = vs ! j"
    and put_out: "ring_ok r \<Longrightarrow> length vs \<le> cap r \<Longrightarrow> k < 4294967296 \<Longrightarrow> i < k \<or> k + length vs \<le> i \<Longrightarrow>
      k + length vs \<le> i + cap r \<Longrightarrow> i < k + cap r \<Longrightarrow> byte (put r k vs) i = byte r i"
    and get_bytes: "ring_ok r \<Longrightarrow> n \<le> cap r \<Longrightarrow> k < 4294967296 \<Longrightarrow> get r k n = map (\<lambda>j. byte r (k + j)) [0..<n]"
begin

definition holds :: "(nat \<Rightarrow> u8) \<Rightarrow> nat set \<Rightarrow> 'r \<Rightarrow> bool" where
  "holds S A r \<longleftrightarrow> (\<forall>k \<in> A. byte r k = S k)"

lemma holds_mono: "holds S A r \<Longrightarrow> B \<subseteq> A \<Longrightarrow> holds S B r"
  by (auto simp: holds_def)

lemma holds_put:
  assumes "ring_ok r" and "holds S A r" and "A \<subseteq> {lo..<lo + cap r}" and "lo \<le> k" and "k + length vs \<le> lo + cap r"
    and "k < 4294967296" and "\<And>j. j < length vs \<Longrightarrow> vs ! j = S (k + j)"
  shows "holds S (A \<union> {k..<k + length vs}) (put r k vs)"
  unfolding holds_def
proof
  fix i assume i: "i \<in> A \<union> {k..<k + length vs}"
  have len: "length vs \<le> cap r" using assms(4,5) by linarith
  show "byte (put r k vs) i = S i"
  proof (cases "k \<le> i \<and> i < k + length vs")
    case True
    then have "i - k < length vs" "k + (i - k) = i" by linarith+
    then show ?thesis using put_in [OF assms(1) len assms(6), of "i - k"] assms(7) [of "i - k"] by simp
  next
    case False
    then have "i \<in> A" "i < k \<or> k + length vs \<le> i" using i by auto
    moreover have "k + length vs \<le> i + cap r" "i < k + cap r" using \<open>i \<in> A\<close> assms(3,4,5) by auto
    ultimately show ?thesis using put_out [OF assms(1) len assms(6)] assms(2) by (simp add: holds_def)
  qed
qed

lemma holds_get:
  assumes "ring_ok r" and "holds S {k..<k + n} r" and "n \<le> cap r" and "k < 4294967296"
  shows "get r k n = map S [k..<k + n]"
proof -
  have "get r k n = map (\<lambda>j. S (k + j)) [0..<n]"
    using assms(2) get_bytes [OF assms(1,3,4)] by (simp add: holds_def)
  also have "\<dots> = map S [k..<k + n]" by (intro nth_equalityI) simp_all
  finally show ?thesis .
qed

end

definition tx_ok :: "Socket \<Rightarrow> bool" where
  "tx_ok sk \<longleftrightarrow> txBufferSize sk \<noteq> 0 \<and> length (txBuffer sk) = unat (txBufferSize sk)"

definition rx_ok :: "Socket \<Rightarrow> bool" where
  "rx_ok sk \<longleftrightarrow> rxBufferSize sk \<noteq> 0 \<and> length (rxBuffer sk) = unat (rxBufferSize sk)"

definition tx_put :: "Socket \<Rightarrow> nat \<Rightarrow> buffer \<Rightarrow> Socket" where
  "tx_put sk k vs = the (tcpWriteTxBuffer sk (iss sk + 1 + word_of_nat k) vs)"

definition tx_get :: "Socket \<Rightarrow> nat \<Rightarrow> nat \<Rightarrow> buffer" where
  "tx_get sk k n = snd (the (tcpReadTxBuffer sk (iss sk + 1 + word_of_nat k) n))"

definition rx_put :: "Socket \<Rightarrow> nat \<Rightarrow> buffer \<Rightarrow> Socket" where
  "rx_put sk k vs = the (tcpWriteRxBuffer sk (irs sk + 1 + word_of_nat k) vs 0 (length vs))"

definition rx_get :: "Socket \<Rightarrow> nat \<Rightarrow> nat \<Rightarrow> buffer" where
  "rx_get sk k n = the (tcpReadRxBuffer sk (irs sk + 1 + word_of_nat k) (replicate n 0) n)"

lemma ring_mod_out:
  fixes k :: nat
  assumes "i < k \<or> k + l \<le> i" and "k + l \<le> i + n" and "i < k + n" and "j < l"
  shows "(k + j) mod n \<noteq> i mod n"
proof
  assume m: "(k + j) mod n = i mod n"
  have "k + j \<noteq> i" "k + j < i + n" "i < k + j + n" using assms by auto
  then consider "i < k + j" "k + j - i < n" | "k + j < i" "i - (k + j) < n" by linarith
  then show False
  proof cases
    case 1
    then have "n dvd k + j - i" using m by (simp add: mod_eq_dvd_iff_nat [symmetric])
    then show False using 1 by (auto dest: dvd_imp_le)
  next
    case 2
    then have "n dvd i - (k + j)" using m by (simp add: mod_eq_dvd_iff_nat [symmetric])
    then show False using 2 by (auto dest: dvd_imp_le)
  qed
qed

interpretation tx: byte_ring tx_ok "\<lambda>sk. unat (txBufferSize sk)" "\<lambda>sk k. txBuffer sk ! (k mod unat (txBufferSize sk))"
  tx_put tx_get
proof
  fix sk :: Socket and k :: nat and vs :: buffer
  assume ok: "tx_ok sk" and len: "length vs \<le> unat (txBufferSize sk)" and k: "k < 4294967296"
  have put: "tx_put sk k vs = sk\<lparr>txBuffer := ring_put (txBuffer sk) k vs\<rparr>"
    using tcpWriteTxBuffer_ring [of sk k vs] ok k by (simp add: tx_put_def tx_ok_def)
  show "tx_ok (tx_put sk k vs) \<and> unat (txBufferSize (tx_put sk k vs)) = unat (txBufferSize sk)"
    using ok by (simp add: put tx_ok_def)
  show "txBuffer (tx_put sk k vs) ! ((k + j) mod unat (txBufferSize (tx_put sk k vs))) = vs ! j" if "j < length vs" for j
    using ring_put_in [of vs "txBuffer sk" j k] ok len that by (simp add: put tx_ok_def)
  show "txBuffer (tx_put sk k vs) ! (i mod unat (txBufferSize (tx_put sk k vs))) = txBuffer sk ! (i mod unat (txBufferSize sk))"
    if "i < k \<or> k + length vs \<le> i" "k + length vs \<le> i + unat (txBufferSize sk)" "i < k + unat (txBufferSize sk)" for i
    using ring_put_out [of vs "txBuffer sk" "i mod unat (txBufferSize sk)" k] ring_mod_out [OF that] ok len
    by (simp add: put tx_ok_def unat_gt_0 word_neq_0_conv)
next
  fix sk :: Socket and n k :: nat
  assume "tx_ok sk" and "n \<le> unat (txBufferSize sk)" and "k < (4294967296 :: nat)"
  then show "tx_get sk k n = map (\<lambda>j. txBuffer sk ! ((k + j) mod unat (txBufferSize sk))) [0..<n]"
    using tcpReadTxBuffer_ring [of sk k n] by (simp add: tx_get_def tx_ok_def ring_get_eq)
qed

interpretation rx: byte_ring rx_ok "\<lambda>sk. unat (rxBufferSize sk)" "\<lambda>sk k. rxBuffer sk ! (k mod unat (rxBufferSize sk))"
  rx_put rx_get
proof
  fix sk :: Socket and k :: nat and vs :: buffer
  assume ok: "rx_ok sk" and len: "length vs \<le> unat (rxBufferSize sk)" and k: "k < 4294967296"
  have put: "rx_put sk k vs = sk\<lparr>rxBuffer := ring_put (rxBuffer sk) k vs\<rparr>"
    using tcpWriteRxBuffer_ring [of sk k 0 "length vs" vs] ok k by (simp add: rx_put_def rx_ok_def)
  show "rx_ok (rx_put sk k vs) \<and> unat (rxBufferSize (rx_put sk k vs)) = unat (rxBufferSize sk)"
    using ok by (simp add: put rx_ok_def)
  show "rxBuffer (rx_put sk k vs) ! ((k + j) mod unat (rxBufferSize (rx_put sk k vs))) = vs ! j" if "j < length vs" for j
    using ring_put_in [of vs "rxBuffer sk" j k] ok len that by (simp add: put rx_ok_def)
  show "rxBuffer (rx_put sk k vs) ! (i mod unat (rxBufferSize (rx_put sk k vs))) = rxBuffer sk ! (i mod unat (rxBufferSize sk))"
    if "i < k \<or> k + length vs \<le> i" "k + length vs \<le> i + unat (rxBufferSize sk)" "i < k + unat (rxBufferSize sk)" for i
    using ring_put_out [of vs "rxBuffer sk" "i mod unat (rxBufferSize sk)" k] ring_mod_out [OF that] ok len
    by (simp add: put rx_ok_def unat_gt_0 word_neq_0_conv)
next
  fix sk :: Socket and n k :: nat
  assume "rx_ok sk" and "n \<le> unat (rxBufferSize sk)" and "k < (4294967296 :: nat)"
  then show "rx_get sk k n = map (\<lambda>j. rxBuffer sk ! ((k + j) mod unat (rxBufferSize sk))) [0..<n]"
    using tcpReadRxBuffer_ring [of sk k n "replicate n 0"] by (simp add: rx_get_def rx_ok_def ring_get_eq)
qed

end
