(* ===== verification/TcpFlow.thy ===== *)
theory TcpFlow
  imports TcpReach TcpRing
begin

text \<open>
  What the two streams of bytes of a connection look like in a socket, and which functions leave them alone.
\<close>

subsection \<open>The streams in a socket\<close>

text \<open>The states in which data is taken in order, and those behind the FIN of the peer, whose number is no data.\<close>

definition in_order :: "Socket \<Rightarrow> bool" where
  "in_order sk \<longleftrightarrow> receiving (sk_state sk) \<or> sk_state sk = TCP_STATE_SYN_RECEIVED"

definition behind_fin :: "Socket \<Rightarrow> bool" where
  "behind_fin sk \<longleftrightarrow>
     sk_state sk \<in> {TCP_STATE_CLOSE_WAIT, TCP_STATE_LAST_ACK, TCP_STATE_CLOSING, TCP_STATE_TIME_WAIT} \<or>
     sk_state sk = TCP_STATE_CLOSED \<and> closedFlag sk"

lemma not_behind_fin: "\<not> behind_fin sk \<Longrightarrow> sk_state sk \<noteq> TCP_STATE_TIME_WAIT"
  by (auto simp: behind_fin_def)

definition fin_sent :: "TcpState \<Rightarrow> nat" where
  "fin_sent st =
     (if st \<in> {TCP_STATE_FIN_WAIT_1, TCP_STATE_FIN_WAIT_2, TCP_STATE_CLOSING, TCP_STATE_LAST_ACK} then 1 else 0)"

text \<open>The positions in the stream of the peer of the data received out of order; \<open>q\<close> is that of \<open>RCV.NXT\<close>.\<close>

definition ahead :: "Socket \<Rightarrow> nat \<Rightarrow> nat set" where
  "ahead sk q = (\<Union>b \<in> set (sackBlock sk). (\<lambda>j. q + j) ` covers (rcvNxt sk) b)"

text \<open>
  The peer sends the bytes \<open>S\<close>; the user has read \<open>r\<close> of them.  Those that wait for the user lie in the receive
  buffer at their position, as do those received ahead of order.  In TIME-WAIT the buffer was freed.
\<close>

definition received_ok :: "(nat \<Rightarrow> u8) \<Rightarrow> nat \<Rightarrow> Socket \<Rightarrow> bool" where
  "received_ok S r sk \<longleftrightarrow> (closedFlag sk \<longrightarrow> sk_state sk = TCP_STATE_CLOSED) \<and>
     (sk_state sk = TCP_STATE_TIME_WAIT \<longrightarrow> rxBuffer sk = []) \<and>
     (in_order sk \<or> behind_fin sk \<and> rxBuffer sk \<noteq> [] \<longrightarrow>
        rx_ok sk \<and> r + unat (rcvUser sk) < 4294967296 \<and>
        rcvNxt sk = irs sk + 1 + word_of_nat (r + unat (rcvUser sk)) + (if behind_fin sk then 1 else 0) \<and>
        rx.holds S {r..<r + unat (rcvUser sk)} sk \<and>
        (in_order sk \<longrightarrow> rx.holds S (ahead sk (r + unat (rcvUser sk))) sk))"

text \<open>
  The user has written the bytes \<open>W\<close>; those that are not yet acknowledged, sent or not, lie in the send buffer.
  Behind 4 GiB the offsets in the buffer jump, unless its size divides \<open>2 ^ 32\<close>.
\<close>

definition unacked :: "nat \<Rightarrow> Socket \<Rightarrow> nat set" where
  "unacked n sk = {k. k < n \<and> n + fin_sent (sk_state sk) \<le> k + flight sk + unat (sndUser sk)}"

definition written_ok :: "buffer \<Rightarrow> Socket \<Rightarrow> bool" where
  "written_ok W sk \<longleftrightarrow> sk_state sk \<noteq> TCP_STATE_LISTEN \<and> sk_state sk \<noteq> TCP_STATE_SYN_SENT \<and>
     (sk_state sk \<noteq> TCP_STATE_CLOSED \<and> sk_state sk \<noteq> TCP_STATE_TIME_WAIT \<and> length W < 4294967296 \<longrightarrow>
        tx_ok sk \<and>
        sndNxt sk + ucast (sndUser sk) = iss sk + 1 + word_of_nat (length W + fin_sent (sk_state sk)) \<and>
        tx.holds ((!) W) (unacked (length W) sk) sk)"

definition flow_ok :: "(nat \<Rightarrow> u8) \<Rightarrow> nat \<Rightarrow> buffer \<Rightarrow> Socket \<Rightarrow> bool" where
  "flow_ok S r W sk \<longleftrightarrow> received_ok S r sk \<and> written_ok W sk"

subsection \<open>What leaves the streams alone\<close>

text \<open>Nothing is received and nothing written; the acknowledgments may move, and bytes may be sent.\<close>

definition quiet :: "Socket \<Rightarrow> Socket \<Rightarrow> bool" where
  "quiet sk' sk \<longleftrightarrow> rcv_side sk' = rcv_side sk \<and> iss sk' = iss sk \<and> txBuffer sk' = txBuffer sk \<and>
     txBufferSize sk' = txBufferSize sk \<and> sndNxt sk' + ucast (sndUser sk') = sndNxt sk + ucast (sndUser sk) \<and>
     flight sk' + unat (sndUser sk') \<le> flight sk + unat (sndUser sk)"

lemma quiet_same: "same sk' sk \<Longrightarrow> quiet sk' sk"
  by (simp add: quiet_def same_def snd_side_def)

lemma quiet_trans: "quiet a b \<Longrightarrow> quiet b c \<Longrightarrow> quiet a c"
  by (simp add: quiet_def)

lemma quiet_same_trans: "same a b \<Longrightarrow> quiet b c \<Longrightarrow> quiet a c"
  using quiet_same quiet_trans by blast

lemma rcv_side_eqs:
  assumes "rcv_side sk' = rcv_side sk"
  shows "irs sk' = irs sk" "rcvNxt sk' = rcvNxt sk" "rcvUser sk' = rcvUser sk" "rcvWnd sk' = rcvWnd sk"
    "rxBuffer sk' = rxBuffer sk" "rxBufferSize sk' = rxBufferSize sk" "sackBlock sk' = sackBlock sk"
  using assms by (simp_all add: rcv_side_def)

lemma conn_eqs:
  assumes "conn sk' = conn sk"
  shows "sk_state sk' = sk_state sk" "closedFlag sk' = closedFlag sk"
  using assms by (simp_all add: conn_def)

lemma received_ok_cong:
  assumes rcv: "rcv_side sk' = rcv_side sk" and "in_order sk' \<longrightarrow> in_order sk" and "behind_fin sk' = behind_fin sk"
    and "closedFlag sk' \<longrightarrow> sk_state sk' = TCP_STATE_CLOSED"
    and "sk_state sk' = TCP_STATE_TIME_WAIT \<longrightarrow> sk_state sk = TCP_STATE_TIME_WAIT" and "received_ok S r sk"
  shows "received_ok S r sk'"
  using assms(2,4-6) unfolding received_ok_def rx_ok_def rx.holds_def ahead_def rcv_side_eqs [OF rcv] assms(3) by blast

lemma received_ok_rcv:
  assumes rcv: "rcv_side sk' = rcv_side sk" and c: "conn sk' = conn sk" and ok: "received_ok S r sk"
  shows "received_ok S r sk'"
proof (rule received_ok_cong [OF rcv _ _ _ _ ok])
  show "in_order sk' \<longrightarrow> in_order sk" "behind_fin sk' = behind_fin sk"
    unfolding in_order_def behind_fin_def conn_eqs [OF c] by simp_all
  show "closedFlag sk' \<longrightarrow> sk_state sk' = TCP_STATE_CLOSED" unfolding conn_eqs [OF c] using ok by (simp add: received_ok_def)
  show "sk_state sk' = TCP_STATE_TIME_WAIT \<longrightarrow> sk_state sk = TCP_STATE_TIME_WAIT" unfolding conn_eqs [OF c] by simp
qed

lemma received_same: "same sk' sk \<Longrightarrow> received_ok S r sk \<Longrightarrow> received_ok S r sk'"
  by (rule received_ok_rcv) (simp_all add: same_def)

lemma written_ok_quiet:
  assumes q: "quiet sk' sk" and st: "sk_state sk' = sk_state sk" and ok: "written_ok W sk"
  shows "written_ok W sk'"
proof -
  have sub: "unacked (length W) sk' \<subseteq> unacked (length W) sk"
    unfolding unacked_def st
  proof (intro Collect_mono impI conjI; elim conjE)
    fix k
    assume "length W + fin_sent (sk_state sk) \<le> k + flight sk' + unat (sndUser sk')"
    then show "length W + fin_sent (sk_state sk) \<le> k + flight sk + unat (sndUser sk)"
      using q unfolding quiet_def by linarith
  qed
  show ?thesis
    using ok q sub unfolding written_ok_def st by (simp add: quiet_def tx_ok_def tx.holds_def) blast
qed

lemma flow_quiet:
  assumes "flow_ok S r W sk" and "quiet sk' sk" and "conn sk' = conn sk"
  shows "flow_ok S r W sk'"
  using assms received_ok_rcv [of sk' sk] written_ok_quiet [OF assms(2) conn_state [OF assms(3)]]
  by (simp add: flow_ok_def quiet_def)

lemma flow_same: "flow_ok S r W sk \<Longrightarrow> same sk' sk \<Longrightarrow> flow_ok S r W sk'"
  using flow_quiet quiet_same by (simp add: same_def)

subsection \<open>The checks, the acknowledgment and the Nagle algorithm\<close>

lemma to_state_view:
  "rcv_side (to_state st sk) = rcv_side sk" "snd_side (to_state st sk) = snd_side sk"
  by (simp_all add: to_state_def rcv_side_def snd_side_def)

text \<open>A segment that is not accepted leaves the socket as it was or closes it.\<close>

lemma accept_segment_flow:
  assumes inv: "tcp_inv sk" and st: "sk_state sk \<noteq> TCP_STATE_CLOSED" "sk_state sk \<noteq> TCP_STATE_LISTEN"
    and r: "accept_segment ops sk segment len w = Some (ok, sk', w')"
  shows "ok \<and> sk' = sk \<and> seq_acceptable sk segment len \<or>
    \<not> ok \<and> (same sk' sk \<or> same sk' (to_state TCP_STATE_CLOSED sk))"
proof -
  have route: "route_ok sk" using connectedI [OF st] tcp_invD(4) [OF inv] by simp
  show ?thesis
  proof (rule tcpCheckSequenceNumber_cases [OF route, of segment len ops w])
    fix sk1 w1
    assume "tcpCheckSequenceNumber ops sk segment len w = Some (ERROR_FAILURE, sk1, w1)" and "same sk1 sk"
    then show ?thesis using r by (simp add: accept_segment_def)
  next
    assume acc: "seq_acceptable sk segment len" and seq: "tcpCheckSequenceNumber ops sk segment len w = Some (NO_ERROR, sk, w)"
    show ?thesis
    proof (rule tcpCheckSyn_cases [OF route, of segment ops len w])
      fix sk1 w1
      assume "tcpCheckSyn ops sk segment len w = Some (ERROR_FAILURE, sk1, w1)" and "same sk1 sk"
      then show ?thesis
        using r seq tcpChangeState_same [of ops sk TCP_STATE_CLOSED w] by (auto simp: accept_segment_def split: if_splits)
    next
      assume "tcpCheckSyn ops sk segment len w = Some (NO_ERROR, sk, w)"
      then show ?thesis
        using r seq acc tcpChangeState_same [of ops sk TCP_STATE_CLOSED w] by (auto simp: accept_segment_def split: if_splits)
    qed
  qed
qed

lemma quiet_acked:
  assumes inv: "tcp_inv sk" and st: "sk_state sk \<noteq> TCP_STATE_CLOSED" "sk_state sk \<noteq> TCP_STATE_LISTEN"
    "sk_state sk \<noteq> TCP_STATE_SYN_SENT" and range: "ack_range sk ack"
  shows "quiet (sk\<lparr>sndUna := ack\<rparr>) sk"
  using tcp_inv_acked(2) [OF inv connectedI [OF st(1,2)] range st(3)] by (simp add: quiet_def rcv_side_def)

lemma tcpCheckAck_flow:
  assumes inv: "tcp_inv sk" and st: "sk_state sk \<noteq> TCP_STATE_CLOSED" "sk_state sk \<noteq> TCP_STATE_LISTEN"
    "sk_state sk \<noteq> TCP_STATE_SYN_SENT"
    and r: "tcpCheckAck ops sk segment len w = Some (e, sk', w')"
  shows "quiet sk' sk" and "conn sk' = conn sk" and "tcp_inv sk'" and "sndNxt sk' = sndNxt sk"
proof -
  note ok = tcp_invD [OF inv]
  have c: "connected sk" by (rule connectedI [OF st(1,2)])
  show "quiet sk' sk"
  proof (rule tcpCheckAck_cases [OF ok(4) [OF c] ok(2), of ops segment len w])
    fix e1 sk1 w1
    assume "tcpCheckAck ops sk segment len w = Some (e1, sk1, w1)" and "same sk1 sk"
    then show ?thesis using r quiet_same by simp
  next
    fix sk1 w1
    assume "tcpCheckAck ops sk segment len w = Some (NO_ERROR, sk1, w1)" and "same sk1 (sk\<lparr>sndUna := th_ackNum segment\<rparr>)"
      and "ack_range sk (th_ackNum segment)"
    then show ?thesis using r quiet_same_trans quiet_acked [OF inv st] by simp
  qed
  obtain e1 sk1 w1 where "tcpCheckAck ops sk segment len w = Some (e1, sk1, w1)" and "tcp_inv sk1"
    and "conn sk1 = conn sk" and "sndNxt sk1 = sndNxt sk"
    using tcpCheckAck_ok [OF inv st, of ops segment len w] by metis
  then show "conn sk' = conn sk" and "tcp_inv sk'" and "sndNxt sk' = sndNxt sk" using r by simp_all
qed

lemma quiet_sent:
  assumes "tcp_inv sk" and "connected sk" and n: "n \<le> unat (sndUser sk)"
  shows "quiet (sent n sk) sk"
proof -
  have b: "flight sk + unat (sndUser sk) \<le> 22881"
    using tcp_invD(1,5) [OF assms(1)] assms(2) by (auto simp: snd_ok_def sizes_ok_def split: if_splits)
  have f: "flight (sent n sk) = flight sk + n" using b n by (intro flight_sent) linarith
  have u: "unat (sndUser (sent n sk)) = unat (sndUser sk) - n" by (rule unat_sent_user [OF n])
  have "sndNxt (sent n sk) + ucast (sndUser (sent n sk)) = sndNxt sk + ucast (sndUser sk)"
  proof -
    have x: "ucast (sndUser (sent n sk)) = (word_of_nat (unat (sndUser sk) - n) :: u32)" unfolding u [symmetric] by simp
    have y: "ucast (sndUser sk) = (word_of_nat (n + (unat (sndUser sk) - n)) :: u32)" using n by simp
    show ?thesis unfolding x y by (simp add: sent_def)
  qed
  then show ?thesis using f u n by (simp add: quiet_def) (simp add: sent_def rcv_side_def)
qed

lemma nagle_loop_flow:
  assumes inv: "tcp_inv sk" and c: "connected sk" and r: "nagle_loop ops fl u sk w = Some (e, sk', w')"
  shows "quiet sk' sk"
proof -
  note ok = tcp_invD [OF inv]
  obtain e1 n sk1 w1 where "nagle_loop ops fl u sk w = Some (e1, sk1, w1)" and n: "n \<le> unat (sndUser sk)"
    and s: "same sk1 (sent n sk)"
    using nagle_loop_cases [OF ok(4) [OF c] ok(2) ok(8) [OF c], of ops fl u w] by (elim exE conjE)
  then show ?thesis using r quiet_same_trans [OF s quiet_sent [OF inv c n]] by simp
qed

lemma tcpNagleAlgo_flow:
  assumes inv: "tcp_inv sk" and st: "sk_state sk \<noteq> TCP_STATE_CLOSED" "sk_state sk \<noteq> TCP_STATE_LISTEN"
    "sk_state sk \<noteq> TCP_STATE_SYN_SENT" and r: "tcpNagleAlgo ops sk fl w = Some (e, sk', w')"
  shows "quiet sk' sk" and "conn sk' = conn sk"
proof -
  obtain e1 sk1 w1 where l: "nagle_loop ops fl (usable_window sk) sk w = Some (e1, sk1, w1)"
    using r by (auto simp: tcpNagleAlgo_def bind_eq_Some_conv)
  have q: "quiet sk1 sk" by (rule nagle_loop_flow [OF inv connectedI [OF st(1,2)] l])
  obtain sk2 w2 where ev: "tcpUpdateEvents ops sk1 w1 = (sk2, w2)" and s2: "same sk2 sk1" by (rule tcpUpdateEvents_cases)
  have "sk' = sk1 \<or> sk' = sk2" using r l ev by (auto simp: tcpNagleAlgo_def split: if_splits)
  then show "quiet sk' sk" using q quiet_same_trans [OF s2] by blast
  obtain e2 sk3 w3 where "tcpNagleAlgo ops sk fl w = Some (e2, sk3, w3)" and "conn sk3 = conn sk"
    using tcpNagleAlgo_ok [OF inv st, of ops fl w] by metis
  then show "conn sk' = conn sk" using r by simp
qed

end
