(* ===== verification/TcpArrive.thy ===== *)
theory TcpArrive
  imports TcpFlow
begin

text \<open>Data that arrives: what \<open>tcpProcessSegmentData\<close> stores and hands to the user is the stream of the peer.\<close>

text \<open>
  A segment agrees with the stream when those of its bytes that fall in the window are the bytes of the stream at
  their numbers.  All numbers of the connection are told apart by their 32 bits.
\<close>

definition agrees :: "(nat \<Rightarrow> u8) \<Rightarrow> nat \<Rightarrow> Socket \<Rightarrow> TcpHeader \<Rightarrow> buffer \<Rightarrow> bool" where
  "agrees S r sk segment data \<longleftrightarrow>
     r + unat (rcvUser sk) + unat (rcvWnd sk) < 4294967296 \<and>
     (\<forall>i < length data. dist (rcvNxt sk) (th_seqNum segment + word_of_nat i) < unat (rcvWnd sk) \<longrightarrow>
        data ! i = S (r + unat (rcvUser sk) + dist (rcvNxt sk) (th_seqNum segment + word_of_nat i)))"

lemma agrees_cong: "rcv_side sk' = rcv_side sk \<Longrightarrow> agrees S r sk segment data \<Longrightarrow> agrees S r sk' segment data"
  using rcv_side_eqs [of sk' sk] unfolding agrees_def by simp

lemma shift_covers: "(\<lambda>j. q + j) ` covers base b = {q + dist base (fst b)..<q + dist base (snd b)}"
  by (cases b) (simp add: covers_def add.commute)

lemma ahead_eq: "ahead sk q = (\<Union>b \<in> set (sackBlock sk). {q + dist (rcvNxt sk) (fst b)..<q + dist (rcvNxt sk) (snd b)})"
  by (simp add: ahead_def shift_covers)

lemma ahead_window:
  assumes "blocks_ok (rcvNxt sk) wnd (sackBlock sk)"
  shows "ahead sk q \<subseteq> {q..<q + wnd}"
  using assms by (fastforce simp: ahead_eq blocks_ok_def block_ok_def)

text \<open>Writing the part of a segment that was not cut off.\<close>

lemma clipped_written:
  assumes inv: "tcp_inv sk" and st: "receiving (sk_state sk)" and ok: "received_ok S r sk"
    and agr: "agrees S r sk segment data" and acc: "seq_acceptable sk segment len" and len: "0 < unat len" "unat len = length data"
    and short: "length data \<le> 65535"
    and clip: "clip_segment sk (th_seqNum segment) len = (offset, l, e)"
    and q: "q = r + unat (rcvUser sk)"
  obtains sk' where "tcpWriteRxBuffer sk l data offset (unat (e - l)) = Some sk'" and "sk' = sk\<lparr>rxBuffer := rxBuffer sk'\<rparr>"
    and "rx_ok sk'"
    and "rx.holds S ({r..<q} \<union> ahead sk q \<union> {q + dist (rcvNxt sk) l..<q + dist (rcvNxt sk) e}) sk'"
proof -
  have c: "connected sk" using st by (auto simp: connected_def receiving_def)
  have io: "in_order sk" using st by (simp add: in_order_def)
  have nb: "\<not> behind_fin sk" using st by (auto simp: behind_fin_def receiving_def)
  note inv' = tcp_invD [OF inv]
  note cl = clip_ok [OF acc len(1) _ clip, unfolded len(2), OF short]
  define n k vs where "n = unat (e - l)" and "k = q + dist (rcvNxt sk) l" and "vs = take n (drop offset data)"
  have blk: "dist (rcvNxt sk) l < dist (rcvNxt sk) e" "dist (rcvNxt sk) e \<le> unat (rcvWnd sk)"
    using cl(1,2) by (auto simp: block_ok_def)
  have n: "n = dist (rcvNxt sk) e - dist (rcvNxt sk) l"
    using dist_diff [where base = "rcvNxt sk" and y = l and x = e] blk by (simp add: n_def)
  have big: "q + unat (rcvWnd sk) < 4294967296" using agr by (simp add: agrees_def q)
  have k: "k < 4294967296" "k + n = q + dist (rcvNxt sk) e" using big blk n by (simp_all add: k_def)
  have room: "unat (rcvUser sk) + unat (rcvWnd sk) \<le> unat (rxBufferSize sk)" using inv'(6) [OF c] by (simp add: rcv_ok_def)
  have rxok: "rx_ok sk" and nxt: "rcvNxt sk = irs sk + 1 + word_of_nat q" and h: "rx.holds S {r..<q} sk" "rx.holds S (ahead sk q) sk"
    using ok io nb by (simp_all add: received_ok_def q)
  have "l = irs sk + 1 + word_of_nat k"
  proof -
    have "l = rcvNxt sk + word_of_nat (dist (rcvNxt sk) l)" by simp
    then show ?thesis by (simp add: nxt k_def)
  qed
  moreover have lv: "length vs = n" using cl(3) by (simp add: vs_def n_def)
  moreover have fit: "offset + n \<le> length data" using cl(3) by (simp add: n_def)
  ultimately have wr: "tcpWriteRxBuffer sk l data offset n = Some (sk\<lparr>rxBuffer := ring_put (rxBuffer sk) k vs\<rparr>)"
    using tcpWriteRxBuffer_ring [of sk k offset n data] rxok k by (simp add: rx_ok_def vs_def)
  have put: "rx_put sk k vs = sk\<lparr>rxBuffer := ring_put (rxBuffer sk) k vs\<rparr>"
    using tcpWriteRxBuffer_ring [of sk k 0 "length vs" vs] rxok k by (simp add: rx_put_def rx_ok_def)
  have bytes: "vs ! j = S (k + j)" if "j < length vs" for j
  proof -
    have j: "j < n" "offset + j < length data" using that fit lv by auto
    have "dist (rcvNxt sk) (th_seqNum segment + word_of_nat (offset + j)) = dist (rcvNxt sk) l + j"
      using dist_add [where base = "rcvNxt sk" and x = l and n = j] blk big n j(1) unfolding cl(4) by (simp add: add.assoc)
    moreover have "dist (rcvNxt sk) l + j < unat (rcvWnd sk)" using j(1) n blk by linarith
    ultimately have "data ! (offset + j) = S (q + (dist (rcvNxt sk) l + j))"
      using agr j(2) unfolding agrees_def q by metis
    then show ?thesis using j fit by (simp add: vs_def k_def add.assoc)
  qed
  have sack: "blocks_ok (rcvNxt sk) (unat (rcvWnd sk)) (sackBlock sk)" using inv'(7) [OF c] st by (simp add: sack_ok_def)
  have "rx.holds S ({r..<q} \<union> ahead sk q \<union> {k..<k + length vs}) (rx_put sk k vs)"
  proof (rule rx.holds_put [OF rxok _ _ _ _ k(1) bytes])
    show "rx.holds S ({r..<q} \<union> ahead sk q) sk" using h by (auto simp: rx.holds_def)
    show "{r..<q} \<union> ahead sk q \<subseteq> {r..<r + unat (rxBufferSize sk)}"
      using ahead_window [OF sack, of q] room by (auto simp: q)
    show "r \<le> k" "k + length vs \<le> r + unat (rxBufferSize sk)" using blk room k(2) lv by (simp_all add: k_def q)
  qed
  then have "rx.holds S ({r..<q} \<union> ahead sk q \<union> {q + dist (rcvNxt sk) l..<q + dist (rcvNxt sk) e}) (rx_put sk k vs)"
    unfolding lv k(2) by (simp add: k_def)
  then show ?thesis
    using that [of "sk\<lparr>rxBuffer := ring_put (rxBuffer sk) k vs\<rparr>"] wr rxok lv k(2) put
    by (simp add: n_def [symmetric] rx_ok_def)
qed

text \<open>The data that becomes contiguous is handed over: the position moves, what lies ahead stays where it is.\<close>

lemma ahead_shift:
  assumes "blocks_ok (rcvNxt sk) wnd (sackBlock sk)" and "\<forall>b \<in> set (sackBlock sk). unat n < dist (rcvNxt sk) (fst b)"
  shows "ahead (arrived n sk) (q + unat n) = ahead sk q"
proof -
  have "{q + unat n + dist (rcvNxt sk + n) (fst b)..<q + unat n + dist (rcvNxt sk + n) (snd b)} =
      {q + dist (rcvNxt sk) (fst b)..<q + dist (rcvNxt sk) (snd b)}" if "b \<in> set (sackBlock sk)" for b
  proof -
    have "block_ok (rcvNxt sk) wnd b" "unat n < dist (rcvNxt sk) (fst b)" using that assms by (auto simp: blocks_ok_def)
    then show ?thesis
      using dist_diff [where base = "rcvNxt sk" and y = "rcvNxt sk + n" and x = "fst b"]
        dist_diff [where base = "rcvNxt sk" and y = "rcvNxt sk + n" and x = "snd b"]
      by (cases b) (simp add: block_ok_def)
  qed
  then show ?thesis by (simp add: ahead_eq arrived_def)
qed

lemma received_arrived:
  assumes inv: "tcp_inv sk" and io: "in_order sk" "\<not> behind_fin sk" "\<not> closedFlag sk" and q: "q = r + unat (rcvUser sk)"
    and nxt: "rcvNxt sk = irs sk + 1 + word_of_nat q" and rx: "rx_ok sk"
    and n: "unat n \<le> unat (rcvWnd sk)" and big: "q + unat n < 4294967296"
    and bs: "blocks_ok (rcvNxt sk) wnd (sackBlock sk)" "\<forall>b \<in> set (sackBlock sk). unat n < dist (rcvNxt sk) (fst b)"
    and c: "connected sk" and h: "rx.holds S ({r..<q} \<union> ahead sk q \<union> {q..<q + unat n}) sk"
  shows "received_ok S r (arrived n sk)"
proof -
  have user: "unat (rcvUser (arrived n sk)) = unat (rcvUser sk) + unat n"
    using arrived_counters(1) [OF tcp_invD(6) [OF inv c] tcp_invD(1) [OF inv] n] .
  have st: "in_order (arrived n sk)" "\<not> behind_fin (arrived n sk)" "\<not> closedFlag (arrived n sk)"
    using io by (simp_all add: arrived_def in_order_def behind_fin_def)
  have "ahead (arrived n sk) (q + unat n) = ahead sk q" by (rule ahead_shift [OF bs])
  moreover have "{r..<q + unat n} \<subseteq> {r..<q} \<union> {q..<q + unat n}" by auto
  ultimately have "rx.holds S ({r..<q + unat n} \<union> ahead (arrived n sk) (q + unat n)) sk"
    using h by (auto simp: rx.holds_def)
  moreover have "rcvNxt (arrived n sk) = irs sk + 1 + word_of_nat (q + unat n)"
    by (simp add: arrived_def nxt)
  moreover have "rx_ok (arrived n sk)" using rx by (simp add: rx_ok_def arrived_def)
  ultimately show ?thesis
    unfolding received_ok_def user using st big not_behind_fin [OF st(2)]
    by (simp add: q add.assoc rx.holds_def) (simp add: arrived_def)
qed

text \<open>Data processed in a state that takes it.\<close>

lemma segment_data_flow:
  assumes inv: "tcp_inv sk" and st: "receiving (sk_state sk)" and ok: "received_ok S r sk"
    and agr: "agrees S r sk segment data" and acc: "seq_acceptable sk segment len" and len: "0 < unat len" "unat len = length data"
    and short: "length data \<le> 65535" and run: "tcpProcessSegmentData ops sk segment data len w = Some (sk', w')"
  shows "received_ok S r sk'"
proof -
  have c: "connected sk" using st by (auto simp: connected_def receiving_def)
  have io: "in_order sk" "\<not> behind_fin sk" using st by (auto simp: in_order_def behind_fin_def receiving_def)
  note inv' = tcp_invD [OF inv]
  obtain offset l e where clip: "clip_segment sk (th_seqNum segment) len = (offset, l, e)" by (metis prod.collapse)
  note cl = clip_ok [OF acc len(1) _ clip, unfolded len(2), OF short]
  define q where "q = r + unat (rcvUser sk)"
  obtain sk1 where wr: "tcpWriteRxBuffer sk l data offset (unat (e - l)) = Some sk1" and u1: "sk1 = sk\<lparr>rxBuffer := rxBuffer sk1\<rparr>"
    and rx1: "rx_ok sk1" and h1: "rx.holds S ({r..<q} \<union> ahead sk q \<union> {q + dist (rcvNxt sk) l..<q + dist (rcvNxt sk) e}) sk1"
    by (rule clipped_written [OF inv st ok agr acc len short clip q_def])
  define b where "b = rxBuffer sk1"
  have s1: "sk1 = sk\<lparr>rxBuffer := b\<rparr>" using u1 by (simp add: b_def)
  have inv1: "tcp_inv sk1" using inv by (simp add: s1 tcp_inv_buffers)
  have sack: "blocks_ok (rcvNxt sk) (unat (rcvWnd sk)) (sackBlock sk)" using inv'(7) [OF c] st by (simp add: sack_ok_def)
  have wnd: "unat (rcvWnd sk) < half" using unat_u16_max [of "rcvWnd sk"] by linarith
  obtain sk2 l2 r2 where up: "tcpUpdateSackBlocks sk1 l e = (sk2, l2, r2)" by (metis prod.collapse)
  obtain bs where sk2: "sk2 = sk1\<lparr>sackBlock := bs\<rparr>" and bs: "blocks_ok (rcvNxt sk) (unat (rcvWnd sk)) bs"
    and new: "block_ok (rcvNxt sk) (unat (rcvWnd sk)) (l2, r2)"
    and cov: "covers (rcvNxt sk) (l2, r2) \<subseteq> covers (rcvNxt sk) (l, e) \<union> (\<Union>b \<in> set (sackBlock sk). covers (rcvNxt sk) b)"
      "(\<Union>b \<in> set bs. covers (rcvNxt sk) b) \<subseteq> covers (rcvNxt sk) (l, e) \<union> (\<Union>b \<in> set (sackBlock sk). covers (rcvNxt sk) b)"
    and after: "l2 = rcvNxt sk \<Longrightarrow> \<forall>b \<in> set bs. dist (rcvNxt sk) r2 < dist (rcvNxt sk) (fst b)"
    and pos: "0 < TCP_CMP_SEQ l2 (rcvNxt sk) \<longleftrightarrow> l2 \<noteq> rcvNxt sk"
    using tcpUpdateSackBlocks_ok [OF up, of "unat (rcvWnd sk)"] sack cl(1) wnd by (simp add: s1) blast
  have route: "route_ok sk" by (rule inv'(4) [OF c])
  have nxt: "rcvNxt sk = irs sk + 1 + word_of_nat q" and nc: "\<not> closedFlag sk" and q32: "q < 4294967296"
    using ok io st by (auto simp: received_ok_def q_def receiving_def)
  let ?all = "{r..<q} \<union> ahead sk q \<union> {q + dist (rcvNxt sk) l..<q + dist (rcvNxt sk) e}"
  have all: "(\<lambda>j. q + j) ` (covers (rcvNxt sk) (l, e) \<union> (\<Union>b \<in> set (sackBlock sk). covers (rcvNxt sk) b)) \<subseteq> ?all"
    by (auto simp: shift_covers ahead_eq image_Un image_UN)
  have st2: "in_order sk2" "\<not> behind_fin sk2" "\<not> closedFlag sk2" "rcvNxt sk2 = rcvNxt sk" "irs sk2 = irs sk" "rcvUser sk2 = rcvUser sk"
    "rcvWnd sk2 = rcvWnd sk" "sackBlock sk2 = bs" "rx_ok sk2"
    using io nc rx1 by (simp_all add: sk2 s1 in_order_def behind_fin_def rx_ok_def)
  have ahead2: "ahead sk2 q \<subseteq> ?all"
    using image_mono [OF cov(2), of "\<lambda>j. q + j"] all by (simp add: ahead_def st2 image_UN)
  have h2: "rx.holds S (?all \<union> ahead sk2 q) sk2"
    using rx.holds_mono [OF h1, of "?all \<union> ahead sk2 q"] ahead2 by (simp add: rx.holds_def sk2)
  have route2: "route_ok sk2" using route by (simp add: sk2 s1 route_ok_def socket_pseudo_def cong: IpAddr.case_cong)
  show ?thesis
  proof (cases "0 < TCP_CMP_SEQ l2 (rcvNxt sk)")
    case True
    obtain e3 sk3 w3 where send: "tcpSendSegment ops sk2 TCP_FLAG_ACK (sndNxt sk2) (rcvNxt sk2) 0 False w = Some (e3, sk3, w3)"
      and s3: "same sk3 sk2" using send_control_cases [OF route2] .
    have "received_ok S r sk2" using h2 st2 not_behind_fin [OF st2(2)] q32 nxt by (simp add: received_ok_def q_def rx.holds_def)
    then have "received_ok S r sk3" by (rule received_same [OF s3])
    moreover have "sk' = sk3"
      using run True st2(4) send by (simp add: tcpProcessSegmentData_def clip wr up)
    ultimately show ?thesis by simp
  next
    case False
    then have l2: "l2 = rcvNxt sk" using pos by blast
    have n: "unat (r2 - l2) \<le> unat (rcvWnd sk)" using new by (simp add: block_ok_def l2)
    define sk3 where "sk3 = arrived (r2 - l2) sk2"
    have inv3: "tcp_inv sk3"
      unfolding sk3_def sk2 by (rule tcp_inv_arrived [OF inv1]) (use st n bs after l2 in \<open>simp_all add: s1\<close>)
    have r3: "received_ok S r sk3"
      unfolding sk3_def
    proof (rule received_arrived [OF _ st2(1,2,3) _ _ st2(9)])
      show "tcp_inv sk2"
      proof -
        have "sack_ok sk2" using bs after l2 st by (auto simp: sack_ok_def sk2 s1 receiving_def)
        moreover have "sizes_ok sk2" "listen_ok sk2" "snd_ok sk2" "rcv_ok sk2"
          using inv inv'(5,6) [OF c] route2 unfolding tcp_inv_def
          by (simp_all add: sizes_ok_def listen_ok_def snd_ok_def rcv_ok_def sk2 s1)
        ultimately show ?thesis using route2 by (simp add: tcp_inv_def)
      qed
      show "q = r + unat (rcvUser sk2)" "rcvNxt sk2 = irs sk2 + 1 + word_of_nat q" using nxt st2 by (simp_all add: q_def)
      show "unat (r2 - l2) \<le> unat (rcvWnd sk2)" "q + unat (r2 - l2) < 4294967296"
        using n agr st2 by (simp_all add: agrees_def q_def)
      show "blocks_ok (rcvNxt sk2) (unat (rcvWnd sk)) (sackBlock sk2)"
        "\<forall>b\<in>set (sackBlock sk2). unat (r2 - l2) < dist (rcvNxt sk2) (fst b)" using bs after l2 st2 by simp_all
      show "connected sk2" using c by (simp add: sk2 s1 connected_def)
      have "{q..<q + unat (r2 - l2)} \<subseteq> ?all"
        using image_mono [OF cov(1), of "\<lambda>j. q + j"] all by (simp add: shift_covers l2)
      then show "rx.holds S ({r..<q} \<union> ahead sk2 q \<union> {q..<q + unat (r2 - l2)}) sk2"
        by (intro rx.holds_mono [OF h2]) auto
    qed
    have "connected sk3" using c by (simp add: sk3_def sk2 s1 arrived_def connected_def)
    then have route3: "route_ok sk3" using tcp_invD(4) [OF inv3] by simp
    obtain e4 sk4 w4 where send: "tcpSendSegment ops sk3 TCP_FLAG_ACK (sndNxt sk3) (rcvNxt sk3) 0 False w = Some (e4, sk4, w4)"
      and s4: "same sk4 sk3" using send_control_cases [OF route3] .
    obtain sk5 w5 where ev: "tcpUpdateEvents ops sk4 w4 = (sk5, w5)" and s5: "same sk5 sk4" by (rule tcpUpdateEvents_cases)
    have "received_ok S r sk5" by (rule received_same [OF s5 received_same [OF s4 r3]])
    moreover have "sk' = sk5"
    proof -
      have eq: "sk2\<lparr>rcvNxt := rcvNxt sk + (r2 - l2), rcvUser := rcvUser sk2 + ucast (r2 - l2),
          rcvWnd := rcvWnd sk2 - ucast (r2 - l2)\<rparr> = sk3" and "sndNxt sk3 = sndNxt sk2" "rcvNxt sk3 = rcvNxt sk + (r2 - l2)"
        by (simp_all add: sk3_def arrived_def st2)
      then have "tcpSendSegment ops sk3 TCP_FLAG_ACK (sndNxt sk2) (rcvNxt sk + (r2 - l2)) 0 False w = Some (e4, sk4, w4)"
        using send by simp
      with False ev run show ?thesis by (simp add: tcpProcessSegmentData_def clip wr up st2(4) Let_def eq)
    qed
    ultimately show ?thesis by simp
  qed
qed

end
