(* ===== verification/TcpFlowStates.thy ===== *)
theory TcpFlowStates
  imports TcpArrive
begin

text \<open>The streams through the functions of the states: an incoming segment keeps both.\<close>

subsection \<open>Changes of state\<close>

lemma in_order_not_behind: "in_order sk \<Longrightarrow> \<not> behind_fin sk"
  by (auto simp: in_order_def behind_fin_def receiving_def)

lemma to_state_members [simp]:
  "irs (to_state st sk) = irs sk" "rxBuffer (to_state st sk) = rxBuffer sk" "txBuffer (to_state st sk) = txBuffer sk"
  by (simp_all add: to_state_def)

lemma received_to_state:
  assumes ok: "received_ok S r sk" and io: "in_order (to_state st sk) \<longrightarrow> in_order sk"
    and behind: "behind_fin (to_state st sk) \<longrightarrow> behind_fin sk" and cl: "st \<noteq> TCP_STATE_CLOSED \<longrightarrow> \<not> closedFlag sk"
    and tw: "st \<noteq> TCP_STATE_TIME_WAIT"
  shows "received_ok S r (to_state st sk)"
proof -
  have "closedFlag (to_state st sk) \<longrightarrow> st = TCP_STATE_CLOSED" using cl by (auto simp: closedFlag_to_state)
  moreover have "behind_fin (to_state st sk) = behind_fin sk" if "in_order (to_state st sk) \<or> behind_fin (to_state st sk)"
    using that io behind in_order_not_behind by blast
  moreover have "ahead (to_state st sk) q = ahead sk q" for q by (simp add: ahead_def)
  ultimately show ?thesis
    using ok io behind tw unfolding received_ok_def by (auto simp: rx_ok_def rx.holds_def)
qed

lemma written_to_state:
  assumes "written_ok W sk" and "st \<noteq> TCP_STATE_LISTEN" and "st \<noteq> TCP_STATE_SYN_SENT"
    and "st \<noteq> TCP_STATE_CLOSED \<and> st \<noteq> TCP_STATE_TIME_WAIT \<longrightarrow>
      sk_state sk \<noteq> TCP_STATE_CLOSED \<and> sk_state sk \<noteq> TCP_STATE_TIME_WAIT \<and> fin_sent st = fin_sent (sk_state sk)"
  shows "written_ok W (to_state st sk)"
  using assms by (auto simp: written_ok_def unacked_def tx_ok_def tx.holds_def)

lemma flow_not_closed: "flow_ok S r W sk \<Longrightarrow> sk_state sk \<noteq> TCP_STATE_CLOSED \<Longrightarrow> \<not> closedFlag sk"
  by (auto simp: flow_ok_def received_ok_def)

lemma flow_closed:
  assumes "flow_ok S r W sk" and "sk_state sk \<noteq> TCP_STATE_CLOSED"
  shows "flow_ok S r W (to_state TCP_STATE_CLOSED sk)"
proof -
  have "in_order (to_state TCP_STATE_CLOSED sk) \<longrightarrow> in_order sk" "behind_fin (to_state TCP_STATE_CLOSED sk) \<longrightarrow> behind_fin sk"
    using flow_not_closed [OF assms] by (auto simp: in_order_def behind_fin_def receiving_def closedFlag_to_state)
  then show ?thesis
    using assms received_to_state [of S r sk TCP_STATE_CLOSED] written_to_state [of W sk TCP_STATE_CLOSED]
    by (simp add: flow_ok_def)
qed

text \<open>The FIN of the peer: its number is the next one expected.\<close>

lemma flow_fin:
  assumes ok: "flow_ok S r W sk" and io: "in_order sk" and s: "same sk' (sk\<lparr>rcvNxt := rcvNxt sk + 1\<rparr>)"
    and st: "behind_fin (to_state st sk')" and fin: "fin_sent st = fin_sent (sk_state sk)" and c: "st \<noteq> TCP_STATE_CLOSED" "st \<noteq> TCP_STATE_TIME_WAIT"
  shows "flow_ok S r W (to_state st sk')"
proof -
  note eqs = same_eqs [OF s, simplified]
  have n: "sk_state sk \<noteq> TCP_STATE_CLOSED" "sk_state sk \<noteq> TCP_STATE_TIME_WAIT" using io by (auto simp: in_order_def receiving_def)
  have nio: "\<not> in_order (to_state st sk')" using st in_order_not_behind by blast
  have "\<not> closedFlag (to_state st sk')" using flow_not_closed [OF ok n(1)] c by (simp add: closedFlag_to_state eqs)
  then have "received_ok S r (to_state st sk')"
    using ok io st c nio in_order_not_behind [OF io]
    by (auto simp: flow_ok_def received_ok_def rx_ok_def rx.holds_def eqs)
  moreover have "written_ok W (to_state st sk')"
  proof (rule written_to_state)
    show "written_ok W sk'"
      using ok by (simp add: flow_ok_def written_ok_def unacked_def tx_ok_def tx.holds_def eqs)
    show "st \<noteq> TCP_STATE_LISTEN" "st \<noteq> TCP_STATE_SYN_SENT" using st c by (auto simp: behind_fin_def)
  qed (use n fin in \<open>simp add: eqs\<close>)
  ultimately show ?thesis by (simp add: flow_ok_def)
qed

text \<open>In TIME-WAIT the buffers are gone.\<close>

lemma enter_time_wait_flow:
  assumes "\<not> closedFlag sk" and "enter_time_wait ops sk w = (sk', w')"
  shows "flow_ok S r W sk'"
proof -
  obtain timer w1 where t: "tcpTimerStart ops (timeWaitTimer (tcpDeleteControlBlock sk)) TCP_2MSL_TIMER w = (timer, w1)"
    by (rule tcpTimerStart_cases)
  define sk1 where "sk1 = (tcpDeleteControlBlock sk)\<lparr>timeWaitTimer := timer\<rparr>"
  have "same sk' (to_state TCP_STATE_TIME_WAIT sk1)"
    using assms(2) t tcpChangeState_same [of ops sk1 TCP_STATE_TIME_WAIT w1] by (simp add: enter_time_wait_def Let_def sk1_def)
  moreover have "flow_ok S r W (to_state TCP_STATE_TIME_WAIT sk1)"
    using assms(1)
    by (simp add: flow_ok_def received_ok_def written_ok_def in_order_def receiving_def closedFlag_to_state sk1_def
        tcpDeleteControlBlock_def tcpFlushSynQueue_def tcpFlushRetransmitQueue_def)
  ultimately show ?thesis by (rule flow_same [rotated])
qed

subsection \<open>What the states share\<close>

lemma checked_flow:
  assumes inv: "tcp_inv sk" and st: "sk_state sk \<noteq> TCP_STATE_CLOSED" "sk_state sk \<noteq> TCP_STATE_LISTEN"
    "sk_state sk \<noteq> TCP_STATE_SYN_SENT" and ok: "flow_ok S r W sk"
    and run: "do {
      (ok, sk, w) \<leftarrow> accept_segment ops sk segment len w;
      if \<not> ok then Some (sk, w)
      else do {
        (error, sk, w) \<leftarrow> tcpCheckAck ops sk segment len w;
        if error \<noteq> NO_ERROR then Some (sk, w) else K sk w
      }
    } = Some (sk', w')"
    and K: "\<And>sk1 w1. K sk1 w1 = Some (sk', w') \<Longrightarrow> quiet sk1 sk \<Longrightarrow> conn sk1 = conn sk \<Longrightarrow> tcp_inv sk1 \<Longrightarrow>
      sndNxt sk1 = sndNxt sk \<Longrightarrow> seq_acceptable sk segment len \<Longrightarrow> flow_ok S r W sk1 \<Longrightarrow> flow_ok S r W sk'"
  shows "flow_ok S r W sk'"
proof -
  obtain ok1 sk1 w1 where a: "accept_segment ops sk segment len w = Some (ok1, sk1, w1)"
    using run by (auto simp: bind_eq_Some_conv)
  from accept_segment_flow [OF inv st(1,2) a] show ?thesis
  proof (elim disjE conjE)
    assume "\<not> ok1" and "same sk1 sk"
    then show ?thesis using run a flow_same [OF ok] by simp
  next
    assume "\<not> ok1" and "same sk1 (to_state TCP_STATE_CLOSED sk)"
    then show ?thesis using run a flow_same [OF flow_closed [OF ok st(1)]] by simp
  next
    assume o: "ok1" "sk1 = sk" and acc: "seq_acceptable sk segment len"
    obtain e sk2 w2 where ack: "tcpCheckAck ops sk segment len w1 = Some (e, sk2, w2)"
      using run a o by (auto simp: bind_eq_Some_conv)
    note q = tcpCheckAck_flow [OF inv st ack]
    have ok2: "flow_ok S r W sk2" by (rule flow_quiet [OF ok q(1,2)])
    show ?thesis
    proof (cases "e = NO_ERROR")
      case True
      then have "K sk2 w2 = Some (sk', w')" using run a o ack by simp
      then show ?thesis by (rule K [OF _ q acc ok2])
    next
      case False
      then show ?thesis using run a o ack ok2 by simp
    qed
  qed
qed

lemma data_flow:
  assumes inv: "tcp_inv sk" and st: "receiving (sk_state sk)" and ok: "flow_ok S r W sk"
    and agr: "agrees S r sk segment data" and acc: "seq_acceptable sk segment len"
    and len: "len = word_of_nat (length data)" "length data \<le> 65535"
    and run: "(if len > 0 then tcpProcessSegmentData ops sk segment data len w else Some (sk, w)) = Some (sk', w')"
  shows "flow_ok S r W sk' \<and> conn sk' = conn sk \<and> snd_side sk' = snd_side sk \<and> tcp_inv sk'"
proof (cases "len > 0")
  case True
  have u: "unat len = length data" using len by (simp add: unat_of_nat_u32)
  have l: "0 < unat len" using True by (simp add: unat_gt_0 word_neq_0_conv)
  have l': "unat len \<le> 65535" using len(2) u by simp
  have p: "tcpProcessSegmentData ops sk segment data len w = Some (sk', w')" using run True by simp
  obtain sk1 w1 where "tcpProcessSegmentData ops sk segment data len w = Some (sk1, w1)" and "tcp_inv sk1"
    and "conn sk1 = conn sk" and "snd_side sk1 = snd_side sk"
    using tcpProcessSegmentData_ok [OF inv st acc l l'] .
  then have frame: "conn sk' = conn sk" "snd_side sk' = snd_side sk" "tcp_inv sk'" using p by simp_all
  have "received_ok S r sk'"
    by (rule segment_data_flow [OF inv st _ agr acc l u len(2) p]) (use ok in \<open>simp add: flow_ok_def\<close>)
  moreover have "written_ok W sk'"
    using ok frame(2) conn_state [OF frame(1)]
    by (simp add: flow_ok_def written_ok_def unacked_def tx_ok_def tx.holds_def snd_side_def)
  ultimately show ?thesis using frame by (simp add: flow_ok_def)
next
  case False
  then show ?thesis using run ok inv by simp
qed

text \<open>A FIN next in order is acknowledged before the state changes.\<close>

lemma fin_then:
  assumes inv: "tcp_inv sk" and c: "connected sk"
    and run: "(if has_flag segment TCP_FLAG_FIN \<and> rcvNxt sk = th_seqNum segment + len then do {
           let sk = sk\<lparr>rcvNxt := rcvNxt sk + 1\<rparr>;
           (_, sk, w) \<leftarrow> tcpSendSegment ops sk TCP_FLAG_ACK (sndNxt sk) (rcvNxt sk) 0 False w;
           Some (F sk w)
         } else Some (sk, w)) = Some (sk', w')"
  obtains (fin) sk1 w1 where "F sk1 w1 = (sk', w')" and "same sk1 (sk\<lparr>rcvNxt := rcvNxt sk + 1\<rparr>)" and "counters_ok sk1"
    | (none) "sk' = sk"
proof (cases "has_flag segment TCP_FLAG_FIN \<and> rcvNxt sk = th_seqNum segment + len")
  case True
  have k: "counters_ok (sk\<lparr>rcvNxt := rcvNxt sk + 1\<rparr>)" using counters_okI [OF inv c] by (simp add: counters_ok_fin)
  then have "route_ok (sk\<lparr>rcvNxt := rcvNxt sk + 1\<rparr>)" by (simp add: counters_ok_def)
  then obtain e sk1 w1 where
    s: "tcpSendSegment ops (sk\<lparr>rcvNxt := rcvNxt sk + 1\<rparr>) TCP_FLAG_ACK (sndNxt sk) (rcvNxt sk + 1) 0 False w = Some (e, sk1, w1)"
    and same: "same sk1 (sk\<lparr>rcvNxt := rcvNxt sk + 1\<rparr>)" by (rule send_control_cases [where sk = "sk\<lparr>rcvNxt := rcvNxt sk + 1\<rparr>"])
  have "F sk1 w1 = (sk', w')" using run True s by simp
  then show ?thesis using fin same counters_ok_same [OF same] k by simp
next
  case False
  then show ?thesis using run none by auto
qed

lemma change_flow:
  assumes ok: "flow_ok S r W sk" and io: "in_order sk" and s: "same sk1 (sk\<lparr>rcvNxt := rcvNxt sk + 1\<rparr>)"
    and st: "st \<in> {TCP_STATE_CLOSE_WAIT, TCP_STATE_CLOSING}" and fin: "fin_sent st = fin_sent (sk_state sk)"
    and run: "tcpChangeState ops sk1 st w = (sk', w')"
  shows "flow_ok S r W sk'"
proof -
  have "flow_ok S r W (to_state st sk1)"
    by (rule flow_fin [OF ok io s _ fin]) (use st in \<open>auto simp: behind_fin_def\<close>)
  moreover have "same sk' (to_state st sk1)" using tcpChangeState_same [of ops sk1 st w] run by simp
  ultimately show ?thesis by (rule flow_same)
qed

lemma nagle_flow:
  assumes "flow_ok S r W sk" and "tcp_inv sk" and "sk_state sk = TCP_STATE_ESTABLISHED \<or> sk_state sk = TCP_STATE_CLOSE_WAIT"
    and "tcpNagleAlgo ops sk fl w = Some (e, sk', w')"
  shows "flow_ok S r W sk'"
proof -
  have st: "sk_state sk \<noteq> TCP_STATE_CLOSED" "sk_state sk \<noteq> TCP_STATE_LISTEN" "sk_state sk \<noteq> TCP_STATE_SYN_SENT"
    using assms(3) by auto
  show ?thesis by (rule flow_quiet [OF assms(1) tcpNagleAlgo_flow [OF assms(2) st assms(4)]])
qed

subsection \<open>The states\<close>

lemma tcpStateEstablished_flow:
  assumes inv: "tcp_inv sk" and st: "sk_state sk = TCP_STATE_ESTABLISHED" and ok: "flow_ok S r W sk"
    and agr: "agrees S r sk segment data" and len: "len = word_of_nat (length data)" "length data \<le> 65535"
    and run: "tcpStateEstablished ops sk segment data len w = Some (sk', w')"
  shows "flow_ok S r W sk'"
proof (rule checked_flow [OF inv _ _ _ ok run [unfolded tcpStateEstablished_def]])
  fix sk1 w1
  assume q: "quiet sk1 sk" and c1: "conn sk1 = conn sk" and inv1: "tcp_inv sk1" and acc: "seq_acceptable sk segment len"
    and ok1: "flow_ok S r W sk1" and K: "do {
      (sk, w) \<leftarrow> (if len > 0 then tcpProcessSegmentData ops sk1 segment data len w1 else Some (sk1, w1));
      (sk, w) \<leftarrow>
        (if has_flag segment TCP_FLAG_FIN \<and> rcvNxt sk = th_seqNum segment + len then do {
           let sk = sk\<lparr>rcvNxt := rcvNxt sk + 1\<rparr>;
           (_, sk, w) \<leftarrow> tcpSendSegment ops sk TCP_FLAG_ACK (sndNxt sk) (rcvNxt sk) 0 False w;
           Some (tcpChangeState ops sk TCP_STATE_CLOSE_WAIT w)
         }
         else Some (sk, w));
      (_, sk, w) \<leftarrow> tcpNagleAlgo ops sk (if dupAckCount sk > 0 then SOCKET_FLAG_NO_DELAY else 0) w;
      Some (sk, w)
    } = Some (sk', w')"
  have r1: "rcv_side sk1 = rcv_side sk" using q by (simp add: quiet_def)
  have st1: "sk_state sk1 = TCP_STATE_ESTABLISHED" using st conn_state [OF c1] by simp
  obtain sk2 w2 where d: "(if len > 0 then tcpProcessSegmentData ops sk1 segment data len w1 else Some (sk1, w1)) = Some (sk2, w2)"
    using K by (auto simp: bind_eq_Some_conv)
  have f2: "flow_ok S r W sk2 \<and> conn sk2 = conn sk1 \<and> snd_side sk2 = snd_side sk1 \<and> tcp_inv sk2"
    by (rule data_flow [OF inv1 _ ok1 agrees_cong [OF r1 agr] _ len d])
      (use st1 acc seq_acceptable_rcv [OF r1] in \<open>simp_all add: receiving_def\<close>)
  then have st2: "sk_state sk2 = TCP_STATE_ESTABLISHED" and c2: "connected sk2"
    using st1 conn_state [of sk2 sk1] by (simp_all add: connected_def)
  obtain sk3 w3 where f: "(if has_flag segment TCP_FLAG_FIN \<and> rcvNxt sk2 = th_seqNum segment + len then do {
           let sk = sk2\<lparr>rcvNxt := rcvNxt sk2 + 1\<rparr>;
           (_, sk, w) \<leftarrow> tcpSendSegment ops sk TCP_FLAG_ACK (sndNxt sk) (rcvNxt sk) 0 False w2;
           Some (tcpChangeState ops sk TCP_STATE_CLOSE_WAIT w)
         } else Some (sk2, w2)) = Some (sk3, w3)"
    using K d by (auto simp: bind_eq_Some_conv)
  have io: "in_order sk2" using st2 by (simp add: in_order_def receiving_def)
  have "flow_ok S r W sk3 \<and> tcp_inv sk3 \<and> (sk_state sk3 = TCP_STATE_ESTABLISHED \<or> sk_state sk3 = TCP_STATE_CLOSE_WAIT)"
    using f
  proof (rule fin_then [rotated 2])
    fix sk4 w4
    assume ch: "tcpChangeState ops sk4 TCP_STATE_CLOSE_WAIT w4 = (sk3, w3)" and s4: "same sk4 (sk2\<lparr>rcvNxt := rcvNxt sk2 + 1\<rparr>)"
      and k: "counters_ok sk4"
    obtain sk5 w5 where "tcpChangeState ops sk4 TCP_STATE_CLOSE_WAIT w4 = (sk5, w5)" and "tcp_inv sk5"
      and "sk_state sk5 = TCP_STATE_CLOSE_WAIT"
      by (rule change_quiet [OF k, of TCP_STATE_CLOSE_WAIT])
        (use st2 same_eqs(2) [OF s4] in \<open>simp_all add: receiving_def sending_def\<close>)
    moreover have "flow_ok S r W sk3"
      by (rule change_flow [OF _ io s4 _ _ ch]) (use f2 st2 in \<open>simp_all add: fin_sent_def\<close>)
    ultimately show ?thesis using ch by simp
  qed (use f2 st2 c2 in simp_all)
  moreover obtain e w5 where "tcpNagleAlgo ops sk3 (if dupAckCount sk3 > 0 then SOCKET_FLAG_NO_DELAY else 0) w3 = Some (e, sk', w5)"
    using K d f by (auto simp: bind_eq_Some_conv)
  ultimately show "flow_ok S r W sk'" by (elim conjE) (rule nagle_flow)
qed (use st in simp_all)

lemma tcpStateSynReceived_flow:
  assumes inv: "tcp_inv sk" and st: "sk_state sk = TCP_STATE_SYN_RECEIVED" and ok: "flow_ok S r W sk"
    and agr: "agrees S r sk segment data" and len: "len = word_of_nat (length data)" "length data \<le> 65535"
    and run: "tcpStateSynReceived ops sk segment data len w = Some (sk', w')"
  shows "flow_ok S r W sk'"
proof -
  have st': "sk_state sk \<noteq> TCP_STATE_CLOSED" "sk_state sk \<noteq> TCP_STATE_LISTEN" using st by simp_all
  have route: "route_ok sk" using tcp_invD(4) [OF inv connectedI [OF st']] .
  obtain ok1 sk1 w1 where a: "accept_segment ops sk segment len w = Some (ok1, sk1, w1)"
    using run by (auto simp: tcpStateSynReceived_def bind_eq_Some_conv)
  from accept_segment_flow [OF inv st' a] show ?thesis
  proof (elim disjE conjE)
    assume "\<not> ok1" and "same sk1 sk"
    then show ?thesis using run a flow_same [OF ok] by (simp add: tcpStateSynReceived_def)
  next
    assume "\<not> ok1" and "same sk1 (to_state TCP_STATE_CLOSED sk)"
    then show ?thesis using run a flow_same [OF flow_closed [OF ok st'(1)]] by (simp add: tcpStateSynReceived_def)
  next
    assume o: "ok1" "sk1 = sk"
    show ?thesis
    proof (cases "ACK segment \<and> th_ackNum segment = sndNxt sk")
      case False
      obtain e sk2 w2 where "tcpSendSegment ops sk TCP_FLAG_RST (th_ackNum segment) 0 0 False w1 = Some (e, sk2, w2)"
        and "same sk2 sk" using send_control_cases [OF route] .
      then show ?thesis using run a o False ok flow_same [OF ok] by (auto simp: tcpStateSynReceived_def split: if_splits)
    next
      case True
      define sk2 where "sk2 = sk\<lparr>sndWnd := th_window segment, sndWl1 := th_seqNum segment, sndWl2 := th_ackNum segment,
             maxSndWnd := th_window segment\<rparr>"
      have s2: "same sk2 sk" by (simp add: sk2_def)
      obtain sk3 w3 where ch: "tcpChangeState ops sk2 TCP_STATE_ESTABLISHED w1 = (sk3, w3)"
        and s3: "same sk3 (to_state TCP_STATE_ESTABLISHED sk2)" by (rule tcpChangeState_cases)
      have same: "same sk3 (to_state TCP_STATE_ESTABLISHED sk)" using s2 s3 same_to_state same_trans by blast
      have "flow_ok S r W (to_state TCP_STATE_ESTABLISHED sk)"
        using ok st flow_not_closed [OF ok]
        by (auto simp: flow_ok_def intro!: received_to_state written_to_state)
          (auto simp: in_order_def behind_fin_def receiving_def fin_sent_def)
      then have ok3: "flow_ok S r W sk3" using same by (rule flow_same)
      have inv3: "tcp_inv sk3" using tcp_inv_established [OF inv] st tcp_inv_same [OF same] by simp
      have st3: "sk_state sk3 = TCP_STATE_ESTABLISHED" using same by (simp add: same_eqs)
      have "rcv_side sk3 = rcv_side sk" using same by (simp add: same_def to_state_view)
      then have agr3: "agrees S r sk3 segment data" using agr by (rule agrees_cong)
      have "tcpStateEstablished ops sk3 segment data len w3 = Some (sk', w')"
        using run a o True ch unfolding sk2_def by (simp add: tcpStateSynReceived_def)
      then show ?thesis by (rule tcpStateEstablished_flow [OF inv3 st3 ok3 agr3 len])
    qed
  qed
qed

lemma tcpStateCloseWait_flow:
  assumes inv: "tcp_inv sk" and st: "sk_state sk = TCP_STATE_CLOSE_WAIT" and ok: "flow_ok S r W sk"
    and run: "tcpStateCloseWait ops sk segment len w = Some (sk', w')"
  shows "flow_ok S r W sk'"
proof (rule checked_flow [OF inv _ _ _ ok run [unfolded tcpStateCloseWait_def]])
  fix sk1 w1
  assume K: "do {
      (_, sk, w) \<leftarrow> tcpNagleAlgo ops sk1 (if dupAckCount sk1 > 0 then SOCKET_FLAG_NO_DELAY else 0) w1;
      Some (sk, w)
    } = Some (sk', w')" and c: "conn sk1 = conn sk" and inv1: "tcp_inv sk1" and ok1: "flow_ok S r W sk1"
  obtain e w2 where ng: "tcpNagleAlgo ops sk1 (if dupAckCount sk1 > 0 then SOCKET_FLAG_NO_DELAY else 0) w1 = Some (e, sk', w2)"
    using K by (auto simp: bind_eq_Some_conv)
  show "flow_ok S r W sk'" by (rule nagle_flow [OF ok1 inv1 _ ng]) (use conn_state [OF c] st in simp)
qed (use st in simp_all)

lemma tcpStateLastAck_flow:
  assumes inv: "tcp_inv sk" and st: "sk_state sk = TCP_STATE_LAST_ACK" and ok: "flow_ok S r W sk"
    and run: "tcpStateLastAck ops sk segment len w = Some (sk', w')"
  shows "flow_ok S r W sk'"
proof -
  have st': "sk_state sk \<noteq> TCP_STATE_CLOSED" "sk_state sk \<noteq> TCP_STATE_LISTEN" using st by simp_all
  obtain ok1 sk1 w1 where a: "accept_segment ops sk segment len w = Some (ok1, sk1, w1)"
    using run by (auto simp: tcpStateLastAck_def bind_eq_Some_conv)
  have "same sk' sk \<or> same sk' (to_state TCP_STATE_CLOSED sk)"
    using accept_segment_flow [OF inv st' a] run a tcpChangeState_same [of ops sk1 TCP_STATE_CLOSED w1]
    by (auto simp: tcpStateLastAck_def split: if_splits)
  then show ?thesis using flow_same [OF ok] flow_same [OF flow_closed [OF ok st'(1)]] by blast
qed

lemma tcpStateClosing_flow:
  assumes inv: "tcp_inv sk" and st: "sk_state sk = TCP_STATE_CLOSING" and ok: "flow_ok S r W sk"
    and run: "tcpStateClosing ops sk segment len w = Some (sk', w')"
  shows "flow_ok S r W sk'"
proof (rule checked_flow [OF inv _ _ _ ok,
      where K = "\<lambda>sk w. Some (if th_ackNum segment = sndNxt sk then enter_time_wait ops sk w else (sk, w))"])
  show "do {
      (ok, sk, w) \<leftarrow> accept_segment ops sk segment len w;
      if \<not> ok then Some (sk, w)
      else do {
        (error, sk, w) \<leftarrow> tcpCheckAck ops sk segment len w;
        if error \<noteq> NO_ERROR then Some (sk, w)
        else Some (if th_ackNum segment = sndNxt sk then enter_time_wait ops sk w else (sk, w))
      }
    } = Some (sk', w')"
    unfolding run [symmetric] tcpStateClosing_def by (auto split: Option.bind_split)
  fix sk1 w1
  assume K: "Some (if th_ackNum segment = sndNxt sk1 then enter_time_wait ops sk1 w1 else (sk1, w1)) = Some (sk', w')"
    and c: "conn sk1 = conn sk" and ok1: "flow_ok S r W sk1"
  have "\<not> closedFlag sk1" using flow_not_closed [OF ok1] conn_state [OF c] st by simp
  then show "flow_ok S r W sk'" using K ok1 enter_time_wait_flow [of sk1 ops w1] by (simp split: if_splits)
qed (use st in simp_all)

text \<open>The data and the FIN in the states that wait for the FIN of the peer.\<close>

lemma fin_wait_flow:
  assumes inv: "tcp_inv sk" and st: "sk_state sk = TCP_STATE_FIN_WAIT_1 \<or> sk_state sk = TCP_STATE_FIN_WAIT_2"
    and ok: "flow_ok S r W sk" and agr: "agrees S r sk segment data" and acc: "seq_acceptable sk segment len"
    and len: "len = word_of_nat (length data)" "length data \<le> 65535"
    and run: "do {
      (sk, w) \<leftarrow> (if len > 0 then tcpProcessSegmentData ops sk segment data len w else Some (sk, w));
      if has_flag segment TCP_FLAG_FIN \<and> rcvNxt sk = th_seqNum segment + len then do {
        let sk = sk\<lparr>rcvNxt := rcvNxt sk + 1\<rparr>;
        (_, sk, w) \<leftarrow> tcpSendSegment ops sk TCP_FLAG_ACK (sndNxt sk) (rcvNxt sk) 0 False w;
        Some (F sk w)
      }
      else Some (sk, w)
    } = Some (sk', w')"
    and F: "\<And>sk1 w1. F sk1 w1 = (sk', w') \<Longrightarrow> sndNxt sk1 = sndNxt sk \<Longrightarrow> enter_time_wait ops sk1 w1 = (sk', w') \<or>
      sk_state sk = TCP_STATE_FIN_WAIT_1 \<and> tcpChangeState ops sk1 TCP_STATE_CLOSING w1 = (sk', w')"
  shows "flow_ok S r W sk'"
proof -
  have rec: "receiving (sk_state sk)" using st by (auto simp: receiving_def)
  obtain sk2 w2 where d: "(if len > 0 then tcpProcessSegmentData ops sk segment data len w else Some (sk, w)) = Some (sk2, w2)"
    using run by (auto simp: bind_eq_Some_conv)
  have f2: "flow_ok S r W sk2" "conn sk2 = conn sk" "tcp_inv sk2" "sndNxt sk2 = sndNxt sk"
    using data_flow [OF inv rec ok agr acc len d] by (simp_all add: snd_side_def)
  have io: "in_order sk2" and c: "connected sk2" and open2: "\<not> closedFlag sk2"
    using rec st conn_state [OF f2(2)] flow_not_closed [OF f2(1)] by (auto simp: in_order_def connected_def)
  have "(if has_flag segment TCP_FLAG_FIN \<and> rcvNxt sk2 = th_seqNum segment + len then do {
        let sk = sk2\<lparr>rcvNxt := rcvNxt sk2 + 1\<rparr>;
        (_, sk, w) \<leftarrow> tcpSendSegment ops sk TCP_FLAG_ACK (sndNxt sk) (rcvNxt sk) 0 False w2;
        Some (F sk w)
      } else Some (sk2, w2)) = Some (sk', w')"
    using run d by simp
  then show ?thesis
  proof (rule fin_then [OF f2(3) c])
    fix sk3 w3
    assume f: "F sk3 w3 = (sk', w')" and s: "same sk3 (sk2\<lparr>rcvNxt := rcvNxt sk2 + 1\<rparr>)"
    have "sndNxt sk3 = sndNxt sk" using same_eqs(8) [OF s] f2(4) by simp
    from F [OF f this] show ?thesis
    proof
      assume "enter_time_wait ops sk3 w3 = (sk', w')"
      then show ?thesis using open2 same_eqs(3) [OF s] by (intro enter_time_wait_flow) simp_all
    next
      assume ch: "sk_state sk = TCP_STATE_FIN_WAIT_1 \<and> tcpChangeState ops sk3 TCP_STATE_CLOSING w3 = (sk', w')"
      show ?thesis
        by (rule change_flow [OF f2(1) io s _ _ conjunct2 [OF ch]])
          (use ch conn_state [OF f2(2)] in \<open>simp_all add: fin_sent_def\<close>)
    qed
  qed (use f2 in simp)
qed

lemma tcpStateFinWait2_flow:
  assumes inv: "tcp_inv sk" and st: "sk_state sk = TCP_STATE_FIN_WAIT_2" and ok: "flow_ok S r W sk"
    and agr: "agrees S r sk segment data" and len: "len = word_of_nat (length data)" "length data \<le> 65535"
    and run: "tcpStateFinWait2 ops sk segment data len w = Some (sk', w')"
  shows "flow_ok S r W sk'"
proof (rule checked_flow [OF inv _ _ _ ok run [unfolded tcpStateFinWait2_def]])
  fix sk1 w1
  assume q: "quiet sk1 sk" and c1: "conn sk1 = conn sk" and inv1: "tcp_inv sk1" and acc: "seq_acceptable sk segment len"
    and ok1: "flow_ok S r W sk1" and K: "do {
      (sk, w) \<leftarrow> (if len > 0 then tcpProcessSegmentData ops sk1 segment data len w1 else Some (sk1, w1));
      if has_flag segment TCP_FLAG_FIN \<and> rcvNxt sk = th_seqNum segment + len then do {
        let sk = sk\<lparr>rcvNxt := rcvNxt sk + 1\<rparr>;
        (_, sk, w) \<leftarrow> tcpSendSegment ops sk TCP_FLAG_ACK (sndNxt sk) (rcvNxt sk) 0 False w;
        Some (enter_time_wait ops sk w)
      }
      else Some (sk, w)
    } = Some (sk', w')"
  have r1: "rcv_side sk1 = rcv_side sk" using q by (simp add: quiet_def)
  show "flow_ok S r W sk'"
    by (rule fin_wait_flow [OF inv1 _ ok1 agrees_cong [OF r1 agr] _ len K])
      (use st conn_state [OF c1] acc seq_acceptable_rcv [OF r1] in simp_all)
qed (use st in simp_all)

lemma fin_wait_ack_flow:
  assumes st: "sk_state sk = TCP_STATE_FIN_WAIT_1" and ok: "flow_ok S r W sk"
    and run: "(if th_ackNum segment = sndNxt sk
      then case tcpTimerStart ops (finWait2Timer sk) TCP_FIN_WAIT_2_TIMER w of (timer, w) \<Rightarrow>
        tcpChangeState ops (sk\<lparr>finWait2Timer := timer\<rparr>) TCP_STATE_FIN_WAIT_2 w
      else (sk, w)) = (sk', w')"
  shows "flow_ok S r W sk'"
proof (cases "th_ackNum segment = sndNxt sk")
  case True
  obtain timer w1 where t: "tcpTimerStart ops (finWait2Timer sk) TCP_FIN_WAIT_2_TIMER w = (timer, w1)"
    by (rule tcpTimerStart_cases)
  define sk1 where "sk1 = sk\<lparr>finWait2Timer := timer\<rparr>"
  have "same sk1 sk" by (simp add: sk1_def)
  then have "same sk' (to_state TCP_STATE_FIN_WAIT_2 sk)"
    using run True t tcpChangeState_same [of ops sk1 TCP_STATE_FIN_WAIT_2 w1] same_trans same_to_state
    by (fastforce simp: sk1_def)
  moreover have "flow_ok S r W (to_state TCP_STATE_FIN_WAIT_2 sk)"
    using ok st flow_not_closed [OF ok]
    by (auto simp: flow_ok_def intro!: received_to_state written_to_state)
      (auto simp: in_order_def behind_fin_def receiving_def fin_sent_def)
  ultimately show ?thesis by (rule flow_same [rotated])
next
  case False
  then show ?thesis using run ok by simp
qed

lemma tcpStateFinWait1_flow:
  assumes inv: "tcp_inv sk" and st: "sk_state sk = TCP_STATE_FIN_WAIT_1" and ok: "flow_ok S r W sk"
    and agr: "agrees S r sk segment data" and len: "len = word_of_nat (length data)" "length data \<le> 65535"
    and run: "tcpStateFinWait1 ops sk segment data len w = Some (sk', w')"
  shows "flow_ok S r W sk'"
proof (rule checked_flow [OF inv _ _ _ ok run [unfolded tcpStateFinWait1_def]])
  fix sk0 w0
  assume q: "quiet sk0 sk" and c0: "conn sk0 = conn sk" and inv0: "tcp_inv sk0" and acc: "seq_acceptable sk segment len"
    and ok0: "flow_ok S r W sk0" and K: "do {
      let (sk, w) =
            (if th_ackNum segment = sndNxt sk0
             then case tcpTimerStart ops (finWait2Timer sk0) TCP_FIN_WAIT_2_TIMER w0 of (timer, w) \<Rightarrow>
               tcpChangeState ops (sk0\<lparr>finWait2Timer := timer\<rparr>) TCP_STATE_FIN_WAIT_2 w
             else (sk0, w0));
      (sk, w) \<leftarrow> (if len > 0 then tcpProcessSegmentData ops sk segment data len w else Some (sk, w));
      if has_flag segment TCP_FLAG_FIN \<and> rcvNxt sk = th_seqNum segment + len then do {
        let sk = sk\<lparr>rcvNxt := rcvNxt sk + 1\<rparr>;
        (_, sk, w) \<leftarrow> tcpSendSegment ops sk TCP_FLAG_ACK (sndNxt sk) (rcvNxt sk) 0 False w;
        Some (if th_ackNum segment = sndNxt sk then enter_time_wait ops sk w
              else tcpChangeState ops sk TCP_STATE_CLOSING w)
      }
      else Some (sk, w)
    } = Some (sk', w')"
  have st0: "sk_state sk0 = TCP_STATE_FIN_WAIT_1" using st conn_state [OF c0] by simp
  obtain sk1 w1 where f: "(if th_ackNum segment = sndNxt sk0
      then case tcpTimerStart ops (finWait2Timer sk0) TCP_FIN_WAIT_2_TIMER w0 of (timer, w) \<Rightarrow>
        tcpChangeState ops (sk0\<lparr>finWait2Timer := timer\<rparr>) TCP_STATE_FIN_WAIT_2 w
      else (sk0, w0)) = (sk1, w1)" and inv1: "tcp_inv sk1" and r1: "rcv_side sk1 = rcv_side sk0"
    and n1: "sndNxt sk1 = sndNxt sk0" and st1: "sk_state sk1 = (if th_ackNum segment = sndNxt sk0 then TCP_STATE_FIN_WAIT_2 else TCP_STATE_FIN_WAIT_1)"
    using fin_wait_ack [OF inv0 st0] by metis
  have ok1: "flow_ok S r W sk1" by (rule fin_wait_ack_flow [OF st0 ok0 f])
  have r: "rcv_side sk1 = rcv_side sk" using q r1 by (simp add: quiet_def)
  have K1: "do {
      (sk, w) \<leftarrow> (if len > 0 then tcpProcessSegmentData ops sk1 segment data len w1 else Some (sk1, w1));
      if has_flag segment TCP_FLAG_FIN \<and> rcvNxt sk = th_seqNum segment + len then do {
        let sk = sk\<lparr>rcvNxt := rcvNxt sk + 1\<rparr>;
        (_, sk, w) \<leftarrow> tcpSendSegment ops sk TCP_FLAG_ACK (sndNxt sk) (rcvNxt sk) 0 False w;
        Some (if th_ackNum segment = sndNxt sk then enter_time_wait ops sk w
              else tcpChangeState ops sk TCP_STATE_CLOSING w)
      }
      else Some (sk, w)
    } = Some (sk', w')"
    using K unfolding f by simp
  show "flow_ok S r W sk'"
  proof (rule fin_wait_flow [OF inv1 _ ok1 agrees_cong [OF r agr] _ len K1])
    show "sk_state sk1 = TCP_STATE_FIN_WAIT_1 \<or> sk_state sk1 = TCP_STATE_FIN_WAIT_2" using st1 by simp
    show "seq_acceptable sk1 segment len" using acc seq_acceptable_rcv [OF r] by simp
    fix sk3 w3
    assume "(if th_ackNum segment = sndNxt sk3 then enter_time_wait ops sk3 w3 else tcpChangeState ops sk3 TCP_STATE_CLOSING w3) = (sk', w')"
      and "sndNxt sk3 = sndNxt sk1"
    then show "enter_time_wait ops sk3 w3 = (sk', w') \<or>
        sk_state sk1 = TCP_STATE_FIN_WAIT_1 \<and> tcpChangeState ops sk3 TCP_STATE_CLOSING w3 = (sk', w')"
      using st1 n1 by (simp split: if_splits)
  qed
qed (use st in simp_all)

lemma deleted_flow:
  assumes "flow_ok S r W sk" and "sk_state sk = TCP_STATE_CLOSED"
  shows "flow_ok S r W ((tcpDeleteControlBlock sk)\<lparr>sk_type := t\<rparr>)"
  using assms
  by (simp add: flow_ok_def received_ok_def written_ok_def in_order_def receiving_def
      tcpDeleteControlBlock_def tcpFlushSynQueue_def tcpFlushRetransmitQueue_def)

lemma tcpStateTimeWait_flow:
  assumes inv: "tcp_inv sk" and st: "sk_state sk = TCP_STATE_TIME_WAIT" and ok: "flow_ok S r W sk"
    and run: "tcpStateTimeWait ops sk segment len w = Some (sk', w')"
  shows "flow_ok S r W sk'"
proof -
  have st': "sk_state sk \<noteq> TCP_STATE_CLOSED" "sk_state sk \<noteq> TCP_STATE_LISTEN" using st by simp_all
  have route: "route_ok sk" using tcp_invD(4) [OF inv connectedI [OF st']] .
  show ?thesis
  proof (rule tcpCheckSequenceNumber_cases [OF route, of segment len ops w])
    fix sk1 w1
    assume "tcpCheckSequenceNumber ops sk segment len w = Some (ERROR_FAILURE, sk1, w1)" and "same sk1 sk"
    then show ?thesis using run flow_same [OF ok] by (simp add: tcpStateTimeWait_def)
  next
    assume seq: "tcpCheckSequenceNumber ops sk segment len w = Some (NO_ERROR, sk, w)"
    show ?thesis
    proof (cases "RST segment")
      case True
      obtain sk1 w1 where ch: "tcpChangeState ops sk TCP_STATE_CLOSED w = (sk1, w1)"
        and s: "same sk1 (to_state TCP_STATE_CLOSED sk)" by (rule tcpChangeState_cases)
      have ok1: "flow_ok S r W sk1" by (rule flow_same [OF flow_closed [OF ok st'(1)] s])
      have "sk' = sk1 \<or> sk' = (tcpDeleteControlBlock sk1)\<lparr>sk_type := SOCKET_TYPE_UNUSED\<rparr>"
        using run seq True ch by (auto simp: tcpStateTimeWait_def)
      then show ?thesis using ok1 deleted_flow [OF ok1] s by (auto simp: same_eqs)
    next
      case False
      show ?thesis
      proof (rule tcpCheckSyn_cases [OF route, of segment ops len w])
        fix sk1 w1
        assume "tcpCheckSyn ops sk segment len w = Some (ERROR_FAILURE, sk1, w1)" and "same sk1 sk"
        then show ?thesis using run seq False flow_same [OF ok] by (simp add: tcpStateTimeWait_def)
      next
        assume syn: "tcpCheckSyn ops sk segment len w = Some (NO_ERROR, sk, w)"
        obtain e sk1 w1 where s: "tcpSendSegment ops sk TCP_FLAG_ACK (sndNxt sk) (rcvNxt sk) 0 False w = Some (e, sk1, w1)"
          and s1: "same sk1 sk" using send_control_cases [OF route] .
        obtain timer w2 where t: "tcpTimerStart ops (timeWaitTimer sk1) TCP_2MSL_TIMER w1 = (timer, w2)"
          by (rule tcpTimerStart_cases)
        have "same (sk1\<lparr>timeWaitTimer := timer\<rparr>) sk" using s1 same_trans same_upd(9) by blast
        moreover have "sk' = sk \<or> sk' = sk1\<lparr>timeWaitTimer := timer\<rparr>"
          using run seq False syn s t by (auto simp: tcpStateTimeWait_def split: if_splits)
        ultimately show ?thesis using ok flow_same [OF ok] by auto
      qed
    qed
  qed
qed

text \<open>A segment that agrees with the stream of the peer keeps both streams.\<close>

lemma dispatch_segment_flow:
  assumes inv: "tcp_inv sk" and ok: "flow_ok S r W sk" and agr: "in_order sk \<Longrightarrow> agrees S r sk segment data" and len: "length data \<le> 65535"
    and run: "dispatch_segment ops interface ph segment data sk w = Some (sk', w')"
  shows "flow_ok S r W sk'"
proof -
  note run' = run [unfolded dispatch_segment_def Let_def]
  show ?thesis
  proof (cases "sk_state sk")
    case TCP_STATE_CLOSED
    then show ?thesis using run' ok by simp
  next
    case TCP_STATE_LISTEN
    then show ?thesis using ok by (simp add: flow_ok_def written_ok_def)
  next
    case TCP_STATE_SYN_SENT
    then show ?thesis using ok by (simp add: flow_ok_def written_ok_def)
  next
    case st: TCP_STATE_SYN_RECEIVED
    then have "in_order sk" by (simp add: in_order_def receiving_def)
    from tcpStateSynReceived_flow [OF inv st ok agr [OF this] refl len] show ?thesis using run' st by simp
  next
    case st: TCP_STATE_ESTABLISHED
    then have "in_order sk" by (simp add: in_order_def receiving_def)
    from tcpStateEstablished_flow [OF inv st ok agr [OF this] refl len] show ?thesis using run' st by simp
  next
    case TCP_STATE_CLOSE_WAIT
    then show ?thesis using tcpStateCloseWait_flow [OF inv _ ok] run' by simp
  next
    case TCP_STATE_LAST_ACK
    then show ?thesis using tcpStateLastAck_flow [OF inv _ ok] run' by simp
  next
    case st: TCP_STATE_FIN_WAIT_1
    then have "in_order sk" by (simp add: in_order_def receiving_def)
    from tcpStateFinWait1_flow [OF inv st ok agr [OF this] refl len] show ?thesis using run' st by simp
  next
    case st: TCP_STATE_FIN_WAIT_2
    then have "in_order sk" by (simp add: in_order_def receiving_def)
    from tcpStateFinWait2_flow [OF inv st ok agr [OF this] refl len] show ?thesis using run' st by simp
  next
    case TCP_STATE_CLOSING
    then show ?thesis using tcpStateClosing_flow [OF inv _ ok] run' by simp
  next
    case TCP_STATE_TIME_WAIT
    then show ?thesis using tcpStateTimeWait_flow [OF inv _ ok] run' by simp
  qed
qed

end
