(* ===== verification/TcpFlowCalls.thy ===== *)
theory TcpFlowCalls
  imports TcpFlowStates
begin

text \<open>The streams through the tick and the steps of the user calls.\<close>

subsection \<open>The tick\<close>

lemma ticksD: "ticks sk (Some (sk', w')) \<Longrightarrow> tcp_inv sk'"
  by (simp add: ticks_def)

lemma tick_retransmit_flow:
  assumes inv: "tcp_inv sk" and ok: "flow_ok S r W sk" and st: "sk_state sk \<noteq> TCP_STATE_CLOSED"
    and run: "tick_retransmit ops sk w = Some (sk', w')"
  shows "flow_ok S r W sk'"
proof -
  obtain elapsed w1 where t: "tcpTimerElapsed ops (retransmitTimer sk) w = (elapsed, w1)" by (rule tcpTimerElapsed_cases)
  have inv': "tcp_inv (timed_out sk)" using inv tcp_inv_same [OF timed_out_same] by simp
  have ok1: "flow_ok S r W (timed_out sk)" by (rule flow_same [OF ok timed_out_same])
  obtain e w2 where r: "tcpRetransmitSegment ops (timed_out sk) w1 = Some (e, w2)"
    using tcpRetransmitSegment_cases [OF tcp_invD(2) [OF inv']] .
  obtain timer w3 where s: "tcpTimerStart ops (retransmitTimer sk) (min (rto sk * 2) TCP_MAX_RTO) w2 = (timer, w3)"
    by (rule tcpTimerStart_cases)
  obtain sk2 w4 where ch: "tcpChangeState ops (timed_out sk) TCP_STATE_CLOSED w1 = (sk2, w4)"
    and s2: "same sk2 (to_state TCP_STATE_CLOSED (timed_out sk))" by (rule tcpChangeState_cases)
  have ok2: "flow_ok S r W sk2"
    by (rule flow_same [OF flow_closed [OF ok1] s2]) (use st same_eqs(2) [OF timed_out_same] in simp)
  have "sk' = sk \<or>
      sk' = (timed_out sk)\<lparr>rto := min (rto sk * 2) TCP_MAX_RTO, retransmitTimer := timer,
        retransmitCount := retransmitCount sk + 1, rttBusy := False\<rparr> \<or>
      sk' = sk2\<lparr>retransmitTimer := tcpTimerStop (retransmitTimer sk2), rttBusy := False\<rparr>"
    using run t r s ch by (auto simp: tick_retransmit_def Let_def split: if_splits)
  moreover have "same ((timed_out sk)\<lparr>rto := a, retransmitTimer := b, retransmitCount := c, rttBusy := False\<rparr>) (timed_out sk)"
    "same (sk2\<lparr>retransmitTimer := b, rttBusy := False\<rparr>) sk2" for a b c
    by (simp_all add: same_def conn_def snd_side_def rcv_side_def)
  ultimately show ?thesis using ok flow_same [OF ok1] flow_same [OF ok2] by blast
qed

lemma tick_persist_flow:
  assumes route: "route_ok sk" and ok: "flow_ok S r W sk" and st: "sk_state sk \<noteq> TCP_STATE_CLOSED"
    and run: "tick_persist ops sk w = Some (sk', w')"
  shows "flow_ok S r W sk'"
proof -
  obtain elapsed w1 where t: "tcpTimerElapsed ops (persistTimer sk) w = (elapsed, w1)" by (rule tcpTimerElapsed_cases)
  obtain e sk1 w2 where s: "tcpSendSegment ops sk TCP_FLAG_ACK (sndNxt sk - 1) (rcvNxt sk) 0 False w1 = Some (e, sk1, w2)"
    and s1: "same sk1 sk" using send_control_cases [OF route] .
  define v where "v = min (wndProbeInterval sk1 * 2) TCP_MAX_PROBE_INTERVAL"
  obtain timer w3 where ts: "tcpTimerStart ops (persistTimer sk1) v w2 = (timer, w3)" by (rule tcpTimerStart_cases)
  have "sk' = sk \<or> sk' = sk1\<lparr>wndProbeInterval := v, persistTimer := timer, wndProbeCount := wndProbeCount sk1 + 1\<rparr> \<or>
      same sk' (to_state TCP_STATE_CLOSED sk)"
    using run t s ts tcpChangeState_same [of ops sk TCP_STATE_CLOSED w1]
    by (auto simp: tick_persist_def Let_def v_def split: if_splits)
  moreover have "same (sk1\<lparr>wndProbeInterval := v, persistTimer := timer, wndProbeCount := n\<rparr>) sk" for n
    using s1 by (simp add: same_def conn_def snd_side_def rcv_side_def)
  ultimately show ?thesis using ok flow_same [OF ok] flow_same [OF flow_closed [OF ok st]] by blast
qed

lemma tick_override_flow:
  assumes inv: "tcp_inv sk" and ok: "flow_ok S r W sk" and run: "tick_override ops sk w = Some (sk', w')"
  shows "flow_ok S r W sk'"
proof -
  obtain elapsed w1 where t: "tcpTimerElapsed ops (overrideTimer sk) w = (elapsed, w1)" by (rule tcpTimerElapsed_cases)
  show ?thesis
  proof (cases "((sk_state sk = TCP_STATE_ESTABLISHED \<or> sk_state sk = TCP_STATE_CLOSE_WAIT) \<and> sndUser sk > 0) \<and> elapsed")
    case False
    then have "sk' = sk" using run t by (auto simp: tick_override_def split: if_splits)
    then show ?thesis using ok by simp
  next
    case True
    then have c: "connected sk" by (auto simp: connected_def)
    note inv' = tcp_invD [OF inv]
    obtain e n sk1 w2 where l: "nagle_loop ops SOCKET_FLAG_NO_DELAY (usable_window sk) sk w1 = Some (e, sk1, w2)"
      and n: "n \<le> unat (sndUser sk)" and s: "same sk1 (sent n sk)"
      using nagle_loop_cases [OF inv'(4) [OF c] inv'(2) inv'(8) [OF c], of ops SOCKET_FLAG_NO_DELAY "usable_window sk" w1]
      by (elim exE conjE)
    have o: "override_loop ops (usable_window sk) sk w1 = Some (sk1, w2)"
      using override_loop_eq [OF inv'(4) [OF c] inv'(2) inv'(8) [OF c], of ops "usable_window sk" w1] l by simp
    have c1: "conn sk1 = conn sk" using s by (simp add: same_def conn_def sent_def)
    have ok1: "flow_ok S r W sk1" by (rule flow_quiet [OF ok nagle_loop_flow [OF inv c l] c1])
    obtain sk2 w3 where ev: "tcpUpdateEvents ops sk1 w2 = (sk2, w3)" and s2: "same sk2 sk1" by (rule tcpUpdateEvents_cases)
    obtain timer w4 where ts: "tcpTimerStart ops (overrideTimer sk2) TCP_OVERRIDE_TIMEOUT w3 = (timer, w4)"
      by (rule tcpTimerStart_cases)
    have "sk' = sk2 \<or> sk' = sk2\<lparr>overrideTimer := timer\<rparr>"
      using run True t o ev ts by (auto simp: tick_override_def split: if_splits)
    moreover have "same (sk2\<lparr>overrideTimer := timer\<rparr>) sk1" using s2 same_trans same_upd(7) by blast
    ultimately show ?thesis using flow_same [OF ok1] s2 by blast
  qed
qed

lemma tick_fin_wait_2_flow:
  assumes ok: "flow_ok S r W sk" and run: "tick_fin_wait_2 ops sk w = (sk', w')"
  shows "flow_ok S r W sk'"
proof -
  obtain elapsed w1 where t: "tcpTimerElapsed ops (finWait2Timer sk) w = (elapsed, w1)" by (rule tcpTimerElapsed_cases)
  have "sk' = sk \<or> sk_state sk = TCP_STATE_FIN_WAIT_2 \<and> same sk' (to_state TCP_STATE_CLOSED sk)"
    using run t tcpChangeState_same [of ops sk TCP_STATE_CLOSED w1] by (auto simp: tick_fin_wait_2_def split: if_splits)
  then show ?thesis using ok flow_same [OF flow_closed [OF ok]] by auto
qed

lemma tick_time_wait_flow:
  assumes ok: "flow_ok S r W sk" and run: "tick_time_wait ops sk w = (sk', w')"
  shows "flow_ok S r W sk'"
proof -
  obtain elapsed w1 where t: "tcpTimerElapsed ops (timeWaitTimer sk) w = (elapsed, w1)" by (rule tcpTimerElapsed_cases)
  show ?thesis
  proof (cases "sk_state sk = TCP_STATE_TIME_WAIT \<and> elapsed")
    case True
    obtain sk1 w2 where ch: "tcpChangeState ops sk TCP_STATE_CLOSED w1 = (sk1, w2)"
      and s1: "same sk1 (to_state TCP_STATE_CLOSED sk)" by (rule tcpChangeState_cases)
    have ok1: "flow_ok S r W sk1" by (rule flow_same [OF flow_closed [OF ok] s1]) (use True in simp)
    have "sk' = sk1 \<or> sk' = (tcpDeleteControlBlock sk1)\<lparr>sk_type := SOCKET_TYPE_UNUSED\<rparr>"
      using run True t ch by (auto simp: tick_time_wait_def)
    then show ?thesis using ok1 deleted_flow [OF ok1] s1 by (auto simp: same_eqs)
  next
    case False
    then show ?thesis using run t ok by (auto simp: tick_time_wait_def split: if_splits)
  qed
qed

lemma tcpTickSocket_flow:
  assumes inv: "tcp_inv sk" and ok: "flow_ok S r W sk" and run: "tcpTickSocket ops sk w = Some (sk', w')"
  shows "flow_ok S r W sk'"
proof (cases "sk_type sk \<noteq> SOCKET_TYPE_STREAM \<or> sk_state sk = TCP_STATE_CLOSED")
  case True
  then have "tcpTickSocket ops sk w = Some (sk, w)" unfolding tcpTickSocket_def by (rule if_P)
  then show ?thesis using run ok by simp
next
  case False
  then have st: "sk_state sk \<noteq> TCP_STATE_CLOSED" by simp
  obtain sk1 w1 where 1: "tick_retransmit ops sk w = Some (sk1, w1)"
    using run unfolding tcpTickSocket_def if_not_P [OF False] by (auto simp: bind_eq_Some_conv)
  have ok1: "flow_ok S r W sk1" by (rule tick_retransmit_flow [OF inv ok st 1])
  have inv1: "tcp_inv sk1" using tick_retransmit_ok [OF inv, of ops w] 1 by (auto intro: ticksD)
  show ?thesis
  proof (cases "sk_state sk1 = TCP_STATE_CLOSED")
    case True
    then show ?thesis using run 1 ok1 unfolding tcpTickSocket_def if_not_P [OF False] by simp
  next
    case open1: False
    have route: "route_ok sk1" by (rule route_ok_inv [OF inv1 open1])
    obtain sk2 w2 where 2: "tick_persist ops sk1 w1 = Some (sk2, w2)"
      using run 1 open1 unfolding tcpTickSocket_def if_not_P [OF False] by (auto simp: bind_eq_Some_conv)
    have ok2: "flow_ok S r W sk2" by (rule tick_persist_flow [OF route ok1 open1 2])
    have inv2: "tcp_inv sk2" using tick_persist_ok [OF inv1 route, of ops w1] 2 by (auto intro: ticksD)
    obtain sk3 w3 where 3: "tick_override ops sk2 w2 = Some (sk3, w3)"
      using run 1 open1 2 unfolding tcpTickSocket_def if_not_P [OF False] by (auto simp: bind_eq_Some_conv)
    have ok3: "flow_ok S r W sk3" by (rule tick_override_flow [OF inv2 ok2 3])
    obtain sk4 w4 where 4: "tick_fin_wait_2 ops sk3 w3 = (sk4, w4)" by (metis surj_pair)
    have "tick_time_wait ops sk4 w4 = (sk', w')"
      using run 1 open1 2 3 4 unfolding tcpTickSocket_def if_not_P [OF False] by simp
    then show ?thesis by (rule tick_time_wait_flow [OF tick_fin_wait_2_flow [OF ok3 4]])
  qed
qed

subsection \<open>Writing\<close>

text \<open>The bytes taken from the user follow those written before.\<close>

lemma send_chunk_run:
  assumes inv: "tcp_inv sk" and st: "sk_state sk = TCP_STATE_ESTABLISHED \<or> sk_state sk = TCP_STATE_CLOSE_WAIT"
    and run: "send_chunk ops sk data w = Some (e, n, sk', w')"
  shows "n = 0 \<and> sk' = sk \<or> n \<le> length data \<and> flight sk + unat (sndUser sk) + n \<le> unat (txBufferSize sk) \<and>
    (\<exists>b. tcpWriteTxBuffer sk (sndNxt sk + ucast (sndUser sk)) (take n data) = Some (sk\<lparr>txBuffer := b\<rparr>) \<and>
      same sk' (queued n (sk\<lparr>txBuffer := b\<rparr>)))"
proof -
  have c: "connected sk" using st by (auto simp: connected_def)
  note ok = tcp_invD [OF inv]
  define used where "used = (ucast (sndUser sk) + sndNxt sk - sndUna sk :: u32)"
  have u: "unat used = flight sk + unat (sndUser sk)" using tx_used [OF inv c] by (simp add: used_def)
  define m where "m = min (unat (txBufferSize sk - used)) (length data)"
  show ?thesis
  proof (cases "used \<ge> txBufferSize sk \<or> m = 0")
    case True
    then have "n = 0 \<and> sk' = sk"
      using run by (simp add: send_chunk_def used_def [symmetric] m_def [symmetric] Let_def split: if_split_asm)
    then show ?thesis by blast
  next
    case False
    then have lt: "used < txBufferSize sk" and m: "m > 0" by auto
    have d: "unat (txBufferSize sk - used) = unat (txBufferSize sk) - unat used"
      using lt by (simp add: unat_sub order_less_imp_le)
    have room: "flight sk + unat (sndUser sk) + m \<le> unat (txBufferSize sk)"
      using d u lt by (simp add: m_def word_less_nat_alt)
    obtain b where wr: "tcpWriteTxBuffer sk (sndNxt sk + ucast (sndUser sk)) (take m data) = Some (sk\<lparr>txBuffer := b\<rparr>)"
      using tcpWriteTxBuffer_cases [OF ok(2)] .
    obtain sk3 w3 where ev: "tcpUpdateEvents ops (queued m (sk\<lparr>txBuffer := b\<rparr>)) w = (sk3, w3)"
      and s3: "same sk3 (queued m (sk\<lparr>txBuffer := b\<rparr>))" by (rule tcpUpdateEvents_cases)
    obtain timer w4 where ts: "tcpTimerStart ops (overrideTimer sk3) TCP_OVERRIDE_TIMEOUT w3 = (timer, w4)"
      by (rule tcpTimerStart_cases)
    have "send_chunk ops sk data w =
        Some (NO_ERROR, m, if unat (sndUser sk3) = m then (sk3\<lparr>overrideTimer := timer\<rparr>, w4) else (sk3, w3))"
      using lt m wr ev ts by (simp add: send_chunk_def used_def [symmetric] m_def [symmetric] Let_def queued_def)
    then have "n = m" and "sk' = sk3 \<or> sk' = sk3\<lparr>overrideTimer := timer\<rparr>" using run by (auto split: if_splits)
    moreover have "same (sk3\<lparr>overrideTimer := timer\<rparr>) (queued m (sk\<lparr>txBuffer := b\<rparr>))" using s3 same_trans same_upd(7) by blast
    moreover have "m \<le> length data" by (simp add: m_def)
    ultimately show ?thesis using room wr s3 by blast
  qed
qed

lemma queued_user:
  assumes "unat (sndUser sk) + n \<le> 65535"
  shows "unat (sndUser (queued n sk)) = unat (sndUser sk) + n"
proof -
  have m: "unat (word_of_nat n :: u16) = n" using assms by (intro unat_u16_of_nat) linarith
  then show ?thesis using assms by (simp add: queued_def) (subst unat_add_lem [THEN iffD1]; simp)
qed

lemma queued_members [simp]:
  "sk_state (queued n sk) = sk_state sk" "sndUna (queued n sk) = sndUna sk" "sndNxt (queued n sk) = sndNxt sk"
  "iss (queued n sk) = iss sk" "txBuffer (queued n sk) = txBuffer sk" "txBufferSize (queued n sk) = txBufferSize sk"
  "rcv_side (queued n sk) = rcv_side sk" "conn (queued n sk) = conn sk"
  by (simp_all add: queued_def rcv_side_def conn_def)

lemma tx_frame [simp]: "rcv_side (sk\<lparr>txBuffer := b\<rparr>) = rcv_side sk" "conn (sk\<lparr>txBuffer := b\<rparr>) = conn sk"
  by (simp_all add: rcv_side_def conn_def)

lemma written_queued:
  assumes st: "sk_state sk = TCP_STATE_ESTABLISHED \<or> sk_state sk = TCP_STATE_CLOSE_WAIT"
    and ok: "written_ok W sk" and len: "length W + length vs < 4294967296"
    and room: "flight sk + unat (sndUser sk) + length vs \<le> unat (txBufferSize sk)" and size: "unat (txBufferSize sk) \<le> 22880"
    and wr: "tcpWriteTxBuffer sk (sndNxt sk + ucast (sndUser sk)) vs = Some (sk\<lparr>txBuffer := b\<rparr>)"
  shows "written_ok (W @ vs) (queued (length vs) (sk\<lparr>txBuffer := b\<rparr>))"
proof -
  let ?k = "length W"
  have f: "fin_sent (sk_state sk) = 0" using st by (auto simp: fin_sent_def)
  have tx: "tx_ok sk" and nxt: "sndNxt sk + ucast (sndUser sk) = iss sk + 1 + word_of_nat ?k"
    and h: "tx.holds ((!) W) (unacked ?k sk) sk"
    using ok st f len by (auto simp: written_ok_def)
  have put: "sk\<lparr>txBuffer := b\<rparr> = tx_put sk ?k vs" using wr unfolding nxt by (simp add: tx_put_def)
  have u: "unat (sndUser (queued (length vs) (sk\<lparr>txBuffer := b\<rparr>))) = unat (sndUser sk) + length vs"
    by (subst queued_user) (use room size in simp_all)
  have "tx_ok (tx_put sk ?k vs)" using tx.put_ok [OF tx, of vs ?k] room len by simp
  then have tx1: "tx_ok (queued (length vs) (sk\<lparr>txBuffer := b\<rparr>))" unfolding put [symmetric] by (simp add: tx_ok_def)
  have "tx.holds ((!) (W @ vs)) (unacked ?k sk \<union> {?k..<?k + length vs}) (tx_put sk ?k vs)"
  proof (rule tx.holds_put [OF tx])
    show "tx.holds ((!) (W @ vs)) (unacked ?k sk) sk"
      using h by (simp add: tx.holds_def unacked_def nth_append)
    show "unacked ?k sk \<subseteq> {?k - (flight sk + unat (sndUser sk))..<?k - (flight sk + unat (sndUser sk)) + unat (txBufferSize sk)}"
      using room by (auto simp: unacked_def)
    show "?k + length vs \<le> ?k - (flight sk + unat (sndUser sk)) + unat (txBufferSize sk)" using room by linarith
  qed (use len in simp_all)
  moreover have "unacked (length (W @ vs)) (queued (length vs) (sk\<lparr>txBuffer := b\<rparr>)) \<subseteq> unacked ?k sk \<union> {?k..<?k + length vs}"
    using u f by (auto simp: unacked_def)
  ultimately have "tx.holds ((!) (W @ vs)) (unacked (length (W @ vs)) (queued (length vs) (sk\<lparr>txBuffer := b\<rparr>)))
      (queued (length vs) (sk\<lparr>txBuffer := b\<rparr>))"
    unfolding put [symmetric] by (auto simp: tx.holds_def)
  moreover have "sndNxt sk + ucast (sndUser (queued (length vs) (sk\<lparr>txBuffer := b\<rparr>))) = iss sk + 1 + word_of_nat (?k + length vs)"
  proof -
    have "(ucast (sndUser (queued (length vs) (sk\<lparr>txBuffer := b\<rparr>))) :: u32) = ucast (sndUser sk) + word_of_nat (length vs)"
      by (rule word_unat_eq_iff [THEN iffD2]) (use u room size in \<open>simp add: unat_word_ariths\<close>)
    then show ?thesis using nxt by (simp add: add.assoc [symmetric])
  qed
  ultimately show ?thesis using st f tx1 len by (auto simp: written_ok_def)
qed

lemma send_chunk_flow:
  assumes inv: "tcp_inv sk" and st: "sk_state sk = TCP_STATE_ESTABLISHED \<or> sk_state sk = TCP_STATE_CLOSE_WAIT"
    and ok: "flow_ok S r W sk"
    and run: "send_chunk ops sk data w = Some (e, n, sk', w')"
  shows "flow_ok S r (W @ take n data) sk'"
  using send_chunk_run [OF inv st run]
proof (elim disjE conjE exE)
  assume "n = 0" and "sk' = sk"
  then show ?thesis using ok by simp
next
  fix b
  assume n: "n \<le> length data" and room: "flight sk + unat (sndUser sk) + n \<le> unat (txBufferSize sk)"
    and wr: "tcpWriteTxBuffer sk (sndNxt sk + ucast (sndUser sk)) (take n data) = Some (sk\<lparr>txBuffer := b\<rparr>)"
    and s: "same sk' (queued n (sk\<lparr>txBuffer := b\<rparr>))"
  have l: "length (take n data) = n" using n by simp
  have "written_ok (W @ take n data) (queued n (sk\<lparr>txBuffer := b\<rparr>))"
  proof (cases "length W + n < 4294967296")
    case True
    then show ?thesis
      using written_queued [OF st _ _ _ _ wr, of W] ok n room tcp_invD(1) [OF inv] by (simp add: flow_ok_def sizes_ok_def)
  next
    case False
    then show ?thesis using st n by (auto simp: written_ok_def queued_def)
  qed
  moreover have "received_ok S r (queued n (sk\<lparr>txBuffer := b\<rparr>))"
    by (rule received_ok_rcv [of _ sk]) (use ok in \<open>simp_all add: flow_ok_def\<close>)
  ultimately show ?thesis by (intro flow_same [OF _ s]) (simp add: flow_ok_def)
qed

subsection \<open>Reading\<close>

lemma tcpUpdateReceiveWindow_run:
  assumes inv: "tcp_inv sk" and c: "connected sk" and run: "tcpUpdateReceiveWindow ops sk w = Some (sk', w')"
  shows "same sk' sk \<or> same sk' (opened sk)"
proof -
  have inv1: "tcp_inv (opened sk)" by (rule tcp_inv_opened [OF inv c])
  have "route_ok (opened sk)" using tcp_invD(4) [OF inv1] c by (simp add: connected_def opened_def)
  then obtain e sk2 w2 where s: "tcpSendSegment ops (opened sk) TCP_FLAG_ACK (sndNxt sk) (rcvNxt sk) 0 False w = Some (e, sk2, w2)"
    and s2: "same sk2 (opened sk)" by (rule send_control_cases)
  have "sk' = sk \<or> sk' = sk2 \<or> sk' = opened sk"
    using run s unfolding tcpUpdateReceiveWindow_def opened_def by (auto simp: Let_def split: if_splits)
  then show ?thesis using s2 by auto
qed

lemma opened_flow: "flow_ok S r W (opened sk) = flow_ok S r W sk"
  by (simp add: flow_ok_def received_ok_def written_ok_def opened_def in_order_def behind_fin_def rx_ok_def tx_ok_def
      rx.holds_def tx.holds_def ahead_def unacked_def)

lemma taken_members [simp]:
  "sk_state (taken n sk) = sk_state sk" "closedFlag (taken n sk) = closedFlag sk" "rxBuffer (taken n sk) = rxBuffer sk"
  "rxBufferSize (taken n sk) = rxBufferSize sk" "rcvNxt (taken n sk) = rcvNxt sk" "irs (taken n sk) = irs sk"
  "sackBlock (taken n sk) = sackBlock sk"
  by (simp_all add: taken_def)

lemma taken_flow:
  assumes ok: "flow_ok S r W sk" and n: "n \<le> unat (rcvUser sk)"
  shows "flow_ok S (r + n) W (taken n sk)"
proof -
  have q: "r + n + unat (rcvUser (taken n sk)) = r + unat (rcvUser sk)" using taken_user [OF n] n by simp
  have eqs: "in_order (taken n sk) = in_order sk" "behind_fin (taken n sk) = behind_fin sk" "rx_ok (taken n sk) = rx_ok sk"
    "ahead (taken n sk) = ahead sk" "rx.holds S A (taken n sk) = rx.holds S A sk" for A
    by (simp_all add: in_order_def behind_fin_def rx_ok_def ahead_def rx.holds_def fun_eq_iff)
  have sub: "rx.holds S {r..<r + unat (rcvUser sk)} sk \<Longrightarrow> rx.holds S {r + n..<r + unat (rcvUser sk)} sk"
    by (erule rx.holds_mono) auto
  have "received_ok S r sk" using ok by (simp add: flow_ok_def)
  then have "received_ok S (r + n) (taken n sk)"
    unfolding received_ok_def q eqs taken_members using sub by blast
  moreover have "written_ok W (taken n sk)"
    using ok by (simp add: flow_ok_def written_ok_def tx_ok_def tx.holds_def unacked_def taken_def)
  ultimately show ?thesis by (simp add: flow_ok_def)
qed

lemma receive_position:
  assumes "received_ok S r sk" and "rxBuffer sk \<noteq> []" and "receive_seq sk got = Inr seqNum"
  shows "seqNum = irs sk + 1 + word_of_nat r" and "rx_ok sk" and "r + unat (rcvUser sk) < 4294967296"
    and "rx.holds S {r..<r + unat (rcvUser sk)} sk"
proof -
  have at: "in_order sk \<and> seqNum = rcvNxt sk - ucast (rcvUser sk) \<or> behind_fin sk \<and> seqNum = rcvNxt sk - 1 - ucast (rcvUser sk)"
    using assms(1,3)
    by (auto simp: receive_seq_def received_ok_def in_order_def receiving_def behind_fin_def Let_def
        split: TcpState.split_asm if_split_asm)
  then have "in_order sk \<or> behind_fin sk \<and> rxBuffer sk \<noteq> []" using assms(2) by blast
  then show "rx_ok sk" "r + unat (rcvUser sk) < 4294967296" "rx.holds S {r..<r + unat (rcvUser sk)} sk"
    and "seqNum = irs sk + 1 + word_of_nat r"
    using assms(1) at in_order_not_behind by (auto simp: received_ok_def)
qed

text \<open>
  Behind the FIN the receive buffer may be gone while bytes still wait for the user: then nothing is copied, and only
  the counter goes down.
\<close>

lemma tcpReadRxBuffer_freed:
  assumes "rxBuffer sk = []" and "rxBufferSize sk \<noteq> 0" and "n \<le> length data"
  shows "tcpReadRxBuffer sk seqNum data n = Some data"
  using assms by (auto simp: tcpReadRxBuffer_def ring_offset_def buf_read_def Let_def wrs_def)

lemma receive_chunk_lost:
  assumes inv: "tcp_inv sk" and ok: "flow_ok S r W sk" and seq: "receive_seq sk got = Inr seqNum" and gone: "rxBuffer sk = []"
    and space: "space \<le> length data"
    and run: "receive_chunk ops sk fl seqNum data space w = Some (stop, n, d, sk', w')"
  shows "flow_ok S r W sk'" and "d = data"
proof -
  have c: "connected sk" by (rule receive_seq_connected [OF seq])
  note inv' = tcp_invD [OF inv]
  have size: "unat (rxBufferSize sk) \<noteq> 0" using inv'(1) by (simp add: sizes_ok_def)
  define n0 where "n0 = min (unat (rcvUser sk)) space"
  have rd: "tcpReadRxBuffer sk seqNum data n0 = Some data"
    by (rule tcpReadRxBuffer_freed [OF gone]) (use size space in \<open>auto simp: n0_def\<close>)
  obtain sk1 w1 where d: "d = data" and n: "n \<le> n0"
    and up: "tcpUpdateReceiveWindow ops (taken n sk) w = Some (sk1, w1)" and ev: "sk' = fst (tcpUpdateEvents ops sk1 w1)"
    using run rd unfolding receive_chunk_def n0_def [symmetric] taken_def
    by (auto simp: bind_eq_Some_conv Let_def split: prod.splits if_splits)
  show "d = data" by (rule d)
  have inv1: "tcp_inv (taken n sk)" using tcp_inv_taken [OF inv] n by (simp add: n0_def)
  have io: "\<not> in_order sk" using ok gone size by (auto simp: flow_ok_def received_ok_def rx_ok_def)
  then have "received_ok S r (taken n sk)"
    using ok gone by (simp add: flow_ok_def received_ok_def in_order_def)
  moreover have "written_ok W (taken n sk)"
    using ok by (simp add: flow_ok_def written_ok_def tx_ok_def tx.holds_def unacked_def taken_def)
  ultimately have ok1: "flow_ok S r W (taken n sk)" by (simp add: flow_ok_def)
  have ok2: "flow_ok S r W (opened (taken n sk))" using ok1 by (simp only: opened_flow)
  have "flow_ok S r W sk1"
    using tcpUpdateReceiveWindow_run [OF inv1 _ up] c flow_same [OF ok1] flow_same [OF ok2] by (auto simp: taken_frame)
  then show "flow_ok S r W sk'" unfolding ev using tcpUpdateEvents_same by (rule flow_same)
qed

lemma receive_chunk_flow:
  assumes inv: "tcp_inv sk" and ok: "flow_ok S r W sk" and seq: "receive_seq sk got = Inr seqNum" and user: "rcvUser sk \<noteq> 0"
    and space: "0 < space" "space \<le> length data" and data: "rxBuffer sk \<noteq> []"
    and run: "receive_chunk ops sk fl seqNum data space w = Some (stop, n, d, sk', w')"
  shows "take n d = map S [r..<r + n] \<and> flow_ok S (r + n) W sk'"
proof -
  have c: "connected sk" by (rule receive_seq_connected [OF seq])
  note inv' = tcp_invD [OF inv]
  have "received_ok S r sk" using ok by (simp add: flow_ok_def)
  note pos = receive_position [OF this data seq]
  define n0 where "n0 = min (unat (rcvUser sk)) space"
  have n0: "n0 \<le> length data" "n0 \<le> unat (rcvUser sk)" using space by (simp_all add: n0_def)
  have size: "n0 \<le> unat (rxBufferSize sk)" using inv'(6) [OF c] n0(2) by (simp add: rcv_ok_def)
  have r32: "r < 4294967296" using pos(3) by linarith
  have rx: "rxBufferSize sk \<noteq> 0" "length (rxBuffer sk) = unat (rxBufferSize sk)" using pos(2) by (simp_all add: rx_ok_def)
  have get: "ring_get (rxBuffer sk) r n0 = map S [r..<r + n0]"
  proof -
    have "rx_get sk r n0 = map S [r..<r + n0]"
      by (rule rx.holds_get [OF pos(2) rx.holds_mono [OF pos(4)] size r32]) (use n0(2) in auto)
    then show ?thesis using tcpReadRxBuffer_ring [OF rx r32 size, of "replicate n0 0"] by (simp add: rx_get_def)
  qed
  have rd: "tcpReadRxBuffer sk seqNum data n0 = Some (map S [r..<r + n0] @ drop n0 data)"
    using tcpReadRxBuffer_ring [OF rx r32 size n0(1)] pos(1) get by simp
  obtain sk1 w1 where d: "d = map S [r..<r + n0] @ drop n0 data" and n: "n \<le> n0"
    and up: "tcpUpdateReceiveWindow ops (taken n sk) w = Some (sk1, w1)" and ev: "sk' = fst (tcpUpdateEvents ops sk1 w1)"
    using run rd unfolding receive_chunk_def n0_def [symmetric] taken_def
    by (auto simp: bind_eq_Some_conv Let_def split: prod.splits if_splits)
  have inv1: "tcp_inv (taken n sk)" using tcp_inv_taken [OF inv] n n0 by simp
  have ok1: "flow_ok S (r + n) W (taken n sk)" using taken_flow [OF ok] n n0 by simp
  have ok2: "flow_ok S (r + n) W (opened (taken n sk))" using ok1 by (simp only: opened_flow)
  have "flow_ok S (r + n) W sk1"
    using tcpUpdateReceiveWindow_run [OF inv1 _ up] c flow_same [OF ok1] flow_same [OF ok2] by (auto simp: taken_frame)
  then have "flow_ok S (r + n) W sk'" unfolding ev using tcpUpdateEvents_same by (rule flow_same)
  moreover have "take n d = map S [r..<r + n]"
    using n by (simp add: d take_map)
  ultimately show ?thesis by simp
qed

subsection \<open>The FIN and abort\<close>

lemma emit_fin_flow:
  assumes inv: "tcp_inv sk" and ok: "flow_ok S r W sk" and user: "sndUser sk = 0"
    and st: "sk_state sk = TCP_STATE_ESTABLISHED \<and> st = TCP_STATE_FIN_WAIT_1 \<or>
      sk_state sk = TCP_STATE_CLOSE_WAIT \<and> st = TCP_STATE_LAST_ACK"
    and run: "emit_fin ops sk st w = Some (e, sk', w')"
  shows "flow_ok S r W sk'"
proof -
  have c: "connected sk" using st by (auto simp: connected_def)
  note inv' = tcp_invD [OF inv]
  obtain e1 sk1 w1 where s: "tcpSendSegment ops sk (TCP_FLAG_FIN OR TCP_FLAG_ACK) (sndNxt sk) (rcvNxt sk) 0 True w = Some (e1, sk1, w1)"
    and s1: "same sk1 sk" using send_control_cases [OF inv'(4) [OF c]] .
  have ok1: "flow_ok S r W sk1" by (rule flow_same [OF ok s1])
  note eqs = same_eqs [OF s1]
  show ?thesis
  proof (cases "e1 = NO_ERROR")
    case False
    then show ?thesis using run s ok1 by (simp add: emit_fin_def)
  next
    case True
    let ?sk = "to_state st (sk1\<lparr>sndNxt := sndNxt sk1 + 1\<rparr>)"
    have run': "same sk' ?sk"
      using run s True tcpChangeState_same [of ops "sk1\<lparr>sndNxt := sndNxt sk1 + 1\<rparr>" st w1] by (auto simp: emit_fin_def)
    have f: "flight sk \<le> 22880"
      using inv'(1) inv'(5) [OF c] user st by (auto simp: snd_ok_def sizes_ok_def sending_def split: if_splits)
    have f2: "flight ?sk = flight sk1 + 1"
      using dist_add [where base = "sndUna sk" and x = "sndNxt sk" and n = 1] f eqs by simp
    have "written_ok W sk1" using ok1 by (simp add: flow_ok_def)
    then have "written_ok W ?sk"
      using st user f2 eqs by (auto simp: written_ok_def tx_ok_def tx.holds_def unacked_def fin_sent_def)
    moreover have "received_ok S r ?sk"
    proof -
      have cl: "\<not> closedFlag sk1" using flow_not_closed [OF ok1] st eqs by auto
      have "received_ok S r (sk1\<lparr>sndNxt := sndNxt sk1 + 1\<rparr>)"
        by (rule received_ok_rcv [of _ sk1]) (use ok1 in \<open>simp_all add: flow_ok_def rcv_side_def conn_def\<close>)
      then show ?thesis
        by (rule received_to_state) (use cl st eqs in \<open>auto simp: in_order_def behind_fin_def receiving_def\<close>)
    qed
    ultimately show ?thesis by (intro flow_same [OF _ run']) (simp add: flow_ok_def)
  qed
qed

lemma close_socket_flow:
  assumes ok: "flow_ok S r W sk"
  shows "flow_ok S r W (fst (close_socket ops sk w))"
proof -
  obtain sk1 w1 where ch: "tcpChangeState ops sk TCP_STATE_CLOSED w = (sk1, w1)"
    and s: "same sk1 (to_state TCP_STATE_CLOSED sk)" by (rule tcpChangeState_cases)
  have "flow_ok S r W ((tcpDeleteControlBlock sk1)\<lparr>sk_type := SOCKET_TYPE_UNUSED\<rparr>)"
    using same_eqs(2) [OF s]
    by (simp add: flow_ok_def received_ok_def written_ok_def in_order_def receiving_def
        tcpDeleteControlBlock_def tcpFlushSynQueue_def tcpFlushRetransmitQueue_def)
  then show ?thesis using ch by (simp add: close_socket_def)
qed

lemma tcpAbort_flow:
  assumes inv: "tcp_inv sk" and ok: "flow_ok S r W sk" and run: "tcpAbort ops sk w = Some (e, sk', w')"
  shows "flow_ok S r W sk'"
proof (cases "sk_state sk \<in> {TCP_STATE_SYN_RECEIVED, TCP_STATE_ESTABLISHED, TCP_STATE_FIN_WAIT_1, TCP_STATE_FIN_WAIT_2,
            TCP_STATE_CLOSE_WAIT}")
  case True
  then have "connected sk" by (auto simp: connected_def)
  then obtain e1 sk1 w1 where s: "tcpSendSegment ops sk TCP_FLAG_RST (sndNxt sk) 0 0 False w = Some (e1, sk1, w1)"
    and s1: "same sk1 sk" using send_control_cases tcp_invD(4) [OF inv] by metis
  have "sk' = fst (close_socket ops sk1 w1)" using run s unfolding tcpAbort_def if_P [OF True] by (auto split: prod.splits)
  then show ?thesis using close_socket_flow [OF flow_same [OF ok s1], of ops w1] by simp
next
  case False
  have "same (sk\<lparr>ownedFlag := False\<rparr>) sk" by (simp add: same_def conn_def snd_side_def rcv_side_def)
  then have "flow_ok S r W (sk\<lparr>ownedFlag := False\<rparr>)" by (rule flow_same [OF ok])
  moreover have "sk' = sk\<lparr>ownedFlag := False\<rparr> \<or> sk' = fst (close_socket ops sk w)"
    using run unfolding tcpAbort_def if_not_P [OF False] by (auto split: prod.splits if_splits)
  ultimately show ?thesis using close_socket_flow [OF ok, of ops w] by auto
qed

end
