(* ===== verification/TcpDeliver.thy ===== *)
theory TcpDeliver
  imports TcpFlowCalls
begin

text \<open>Data that comes in order is handed to the user.\<close>

lemma clip_in_order:
  assumes "th_seqNum segment = rcvNxt sk" and "unat len \<le> unat (rcvWnd sk)"
  shows "clip_segment sk (th_seqNum segment) len = (0, rcvNxt sk, rcvNxt sk + len)"
proof -
  have w: "unat (rcvWnd sk) \<le> 65535" by (rule unat_u16_max)
  have "dist (rcvNxt sk) (rcvNxt sk + len) = unat len" and "dist (rcvNxt sk) (rcvNxt sk + ucast (rcvWnd sk)) = unat (rcvWnd sk)"
    by simp_all
  then have "\<not> 0 < TCP_CMP_SEQ (rcvNxt sk + len) (rcvNxt sk + ucast (rcvWnd sk))"
    using cmp_pos_iff [of "rcvNxt sk + len" "rcvNxt sk" "rcvNxt sk + ucast (rcvWnd sk)"] w assms(2) by simp
  then show ?thesis using assms(1) by (simp add: clip_segment_def TCP_CMP_SEQ_def)
qed

lemma data_in_order:
  assumes "sackBlock sk = []" and "th_seqNum segment = rcvNxt sk" and "unat len \<le> unat (rcvWnd sk)"
    and run: "tcpProcessSegmentData ops sk segment data len w = Some (sk', w')"
  shows "rcvUser sk' = rcvUser sk + ucast len"
proof -
  obtain sk1 where wr: "tcpWriteRxBuffer sk (rcvNxt sk) data 0 (unat len) = Some sk1"
    using run clip_in_order [OF assms(2,3)] by (auto simp: tcpProcessSegmentData_def bind_eq_Some_conv)
  then obtain b where sk1: "sk1 = sk\<lparr>rxBuffer := b\<rparr>"
    by (auto simp: tcpWriteRxBuffer_def bind_eq_Some_conv Let_def split: if_splits)
  have up: "tcpUpdateSackBlocks sk1 (rcvNxt sk) (rcvNxt sk + len) = (sk1, rcvNxt sk, rcvNxt sk + len)"
    using assms(1) by (simp add: tcpUpdateSackBlocks_def sk1 TCP_CMP_SEQ_def)
  define sk2 where "sk2 = sk1\<lparr>rcvNxt := rcvNxt sk + len, rcvUser := rcvUser sk + ucast len, rcvWnd := rcvWnd sk - ucast len\<rparr>"
  obtain e sk3 w3 where s: "tcpSendSegment ops sk2 TCP_FLAG_ACK (sndNxt sk2) (rcvNxt sk2) 0 False w = Some (e, sk3, w3)"
    and "sk' = fst (tcpUpdateEvents ops sk3 w3)"
    using run clip_in_order [OF assms(2,3)] wr up
    by (auto simp: tcpProcessSegmentData_def bind_eq_Some_conv TCP_CMP_SEQ_def sk1 sk2_def)
  then have "same sk' sk2" using tcpUpdateEvents_same [of ops sk3 w3] tcpSendSegment_same [OF s] same_trans by metis
  then show ?thesis by (simp add: same_eqs(15) sk2_def)
qed

text \<open>
  A segment of an established connection without RST, SYN and FIN, with the next bytes of the peer, as many as fit the
  window, and an acknowledgment of nothing that was not sent.
\<close>

lemma established_delivers:
  assumes inv: "tcp_inv sk" and st: "sk_state sk = TCP_STATE_ESTABLISHED" and sack: "sackBlock sk = []"
    and seq: "th_seqNum segment = rcvNxt sk" and n: "0 < length data" "length data \<le> unat (rcvWnd sk)"
    and fl: "ACK segment" "\<not> RST segment" "\<not> SYN segment" "\<not> FIN segment"
    and ack: "TCP_CMP_SEQ (th_ackNum segment) (sndNxt sk) \<le> 0"
    and run: "dispatch_segment ops interface ph segment data sk w = Some (sk', w')"
  shows "unat (rcvUser sk') = unat (rcvUser sk) + length data" and "sk_state sk' = TCP_STATE_ESTABLISHED"
proof -
  have st': "sk_state sk \<noteq> TCP_STATE_CLOSED" "sk_state sk \<noteq> TCP_STATE_LISTEN" "sk_state sk \<noteq> TCP_STATE_SYN_SENT"
    using st by simp_all
  have w: "unat (rcvWnd sk) \<le> 65535" by (rule unat_u16_max)
  define len :: u32 where "len = word_of_nat (length data)"
  have u: "unat len = length data" using n(2) w by (simp add: len_def unat_of_nat_u32)
  have l: "0 < len" using n(1) u by (metis unat_gt_0 word_neq_0_conv)
  have "unat len \<noteq> 0" and wnd: "0 < unat (rcvWnd sk)" using n u by linarith+
  moreover have "dist (rcvNxt sk) (th_seqNum segment) < unat (rcvWnd sk)" using seq wnd by (simp only: diff_self unat_0)
  ultimately have acc: "seq_acceptable sk segment len"
    unfolding seq_acceptable_eq rfc793_acceptable_def Let_def by (simp only: if_False) blast
  have a: "accept_segment ops sk segment len w = Some (True, sk, w)"
    using acc fl by (simp add: accept_segment_def tcpCheckSequenceNumber_def tcpCheckSyn_def)
  obtain e sk1 w1 where ck: "tcpCheckAck ops sk segment len w = Some (e, sk1, w1)" and inv1: "tcp_inv sk1"
    and c1: "conn sk1 = conn sk" and r1: "rcv_side sk1 = rcv_side sk"
    using tcpCheckAck_ok [OF inv st'] by metis
  have e: "e = NO_ERROR"
    using ck fl ack by (cases "TCP_CMP_SEQ (th_ackNum segment) (sndUna sk) < 0")
      (auto simp: tcpCheckAck_def bind_eq_Some_conv split: prod.splits)
  note r = rcv_side_eqs [OF r1]
  have st1: "sk_state sk1 = TCP_STATE_ESTABLISHED" using st conn_state [OF c1] by simp
  have p: "receiving (sk_state sk1)" "seq_acceptable sk1 segment len" "0 < unat len" "unat len \<le> 65535"
    using st1 acc seq_acceptable_rcv [OF r1] n u w by (simp_all add: receiving_def)
  obtain sk2 w2 where d: "tcpProcessSegmentData ops sk1 segment data len w1 = Some (sk2, w2)"
    and inv2: "tcp_inv sk2" and c2: "conn sk2 = conn sk1"
    using tcpProcessSegmentData_ok [OF inv1 p, of ops data w1] by metis
  have user: "rcvUser sk2 = rcvUser sk + ucast len"
    using data_in_order [OF _ _ _ d] sack seq n u by (simp add: r)
  have st2: "sk_state sk2 \<noteq> TCP_STATE_CLOSED" "sk_state sk2 \<noteq> TCP_STATE_LISTEN" "sk_state sk2 \<noteq> TCP_STATE_SYN_SENT"
    using st1 conn_state [OF c2] by simp_all
  define flag where "flag = (if dupAckCount sk2 > 0 then SOCKET_FLAG_NO_DELAY else 0)"
  have "tcpStateEstablished ops sk segment data len w = Option.bind (tcpNagleAlgo ops sk2 flag w2) (\<lambda>(_, sk, w). Some (sk, w))"
    using a ck e d l fl by (simp add: tcpStateEstablished_def flag_def)
  moreover have "tcpStateEstablished ops sk segment data len w = Some (sk', w')"
    using run st by (simp add: dispatch_segment_def len_def)
  ultimately obtain e3 w3 where nag: "tcpNagleAlgo ops sk2 flag w2 = Some (e3, sk', w3)"
    by (cases "tcpNagleAlgo ops sk2 flag w2") auto
  note fin = tcpNagleAlgo_flow [OF inv2 st2 nag]
  show "sk_state sk' = TCP_STATE_ESTABLISHED" using st1 conn_state [OF c2] conn_state [OF fin(2)] by simp
  have "rcvUser sk' = rcvUser sk2"
    using fin(1) by (metis quiet_def rcv_side_eqs(3))
  moreover have "unat (rcvUser sk + ucast len :: u16) = unat (rcvUser sk) + unat len"
    using arrived_counters(1) [OF tcp_invD(6) [OF inv connectedI [OF st'(1,2)]] tcp_invD(1) [OF inv], of len] n(2) u
    by (simp add: arrived_def)
  ultimately show "unat (rcvUser sk') = unat (rcvUser sk) + length data" using user u by simp
qed

end
