(* ===== verification/TcpShutdown.thy ===== *)
theory TcpShutdown
  imports TcpDemo
begin

text \<open>
  What \<open>tcpShutdown\<close> does when the peer closes or resets the connection while it waits for the send buffer to drain.
\<close>

subsection \<open>The state is overridden\<close>

text \<open>The FIN goes out whatever the state is by then, and the new state is the one chosen before the wait.\<close>

lemma emit_fin_members:
  assumes "tcpSendSegment ops sk (TCP_FLAG_FIN OR TCP_FLAG_ACK) (sndNxt sk) (rcvNxt sk) 0 True w = Some (NO_ERROR, sk1, w1)"
  obtains sk' w' where "emit_fin ops sk st w = Some (NO_ERROR, sk', w')"
    and "same sk' (to_state st (sk1\<lparr>sndNxt := sndNxt sk1 + 1\<rparr>))" and "same sk1 sk"
proof -
  obtain sk' w' where "tcpChangeState ops (sk1\<lparr>sndNxt := sndNxt sk1 + 1\<rparr>) st w1 = (sk', w')"
    and s: "same sk' (to_state st (sk1\<lparr>sndNxt := sndNxt sk1 + 1\<rparr>))" by (rule tcpChangeState_cases)
  then have "emit_fin ops sk st w = Some (NO_ERROR, sk', w')" using assms by (simp add: emit_fin_def)
  then show ?thesis using s tcpSendSegment_same [OF assms] by (rule that)
qed

text \<open>
  C13: A FIN that arrives while \<open>tcpShutdown\<close> waits for the send buffer to drain is forgotten.  \<open>tcpShutdown\<close> chooses
  FIN-WAIT-1 before it waits and does not look at the state again: whatever the state has become meanwhile, its FIN is
  sent and the state is set to FIN-WAIT-1.  If the peer had reset the connection, the closed socket is a connection
  again.  If the peer had closed its end, so that the state was CLOSE-WAIT, the bytes that wait for the user are from
  then on read one position too far on, with the first of them lost; and once they are read, the end of the stream is
  not reported any more.
\<close>

theorem shutdown_overrides_state:
  assumes "sk_state sk = TCP_STATE_ESTABLISHED"
    and "tcpSend ops wait sk [] SOCKET_FLAG_NO_DELAY w = Some (NO_ERROR, n, sk1, w1)"
    and "tcpWaitForEvents ops wait sk1 SOCKET_EVENT_TX_DONE (sk_timeout sk1) w1 = (SOCKET_EVENT_TX_DONE, sk2, w2)"
    and "tcpSendSegment ops sk2 (TCP_FLAG_FIN OR TCP_FLAG_ACK) (sndNxt sk2) (rcvNxt sk2) 0 True w2 = Some (NO_ERROR, sk3, w3)"
  shows "\<exists>sk' w'. tcpShutdown ops wait sk SOCKET_SD_SEND w = Some (wait_shutdown ops wait sk' SOCKET_EVENT_TX_SHUTDOWN w') \<and>
    sk_state sk' = TCP_STATE_FIN_WAIT_1 \<and> rcvUser sk' = rcvUser sk2 \<and> rxBuffer sk' = rxBuffer sk2 \<and>
    (sk_state sk2 = TCP_STATE_CLOSE_WAIT \<longrightarrow>
      (\<forall>got seqNum. receive_seq sk2 got = Inr seqNum \<longrightarrow> receive_seq sk' got = Inr (seqNum + 1)) \<and>
      (rcvUser sk2 = 0 \<longrightarrow> receive_seq sk2 0 = Inl ERROR_END_OF_STREAM \<and> receive_seq sk' 0 \<noteq> Inl ERROR_END_OF_STREAM))"
proof -
  obtain sk' w' where fin: "emit_fin ops sk2 TCP_STATE_FIN_WAIT_1 w2 = Some (NO_ERROR, sk', w')"
    and s: "same sk' (to_state TCP_STATE_FIN_WAIT_1 (sk3\<lparr>sndNxt := sndNxt sk3 + 1\<rparr>))" and s3: "same sk3 sk2"
    using emit_fin_members [OF assms(4)] .
  have m: "sk_state sk' = TCP_STATE_FIN_WAIT_1" "rcvUser sk' = rcvUser sk2" "rxBuffer sk' = rxBuffer sk2" "rcvNxt sk' = rcvNxt sk2"
    using same_eqs [OF s] same_eqs [OF s3] by (simp_all add: to_state_def)
  have "shutdown_send ops wait sk w = Some (wait_shutdown ops wait sk' SOCKET_EVENT_TX_SHUTDOWN w')"
    using assms(1-3) fin by (simp add: shutdown_send_def send_fin_def wait_shutdown_def split: prod.split)
  then have "tcpShutdown ops wait sk SOCKET_SD_SEND w = Some (wait_shutdown ops wait sk' SOCKET_EVENT_TX_SHUTDOWN w')"
    by (simp add: tcpShutdown_def split: prod.split)
  then show ?thesis using m by (intro exI [of _ sk'] exI [of _ w']) (auto simp: receive_seq_def Let_def)
qed

subsection \<open>The race in a small connection\<close>

text \<open>
  Seven bytes wait to be sent and the window of the peer is six: \<open>tcpShutdown\<close> has to wait.  Meanwhile the peer
  acknowledges the six bytes, sends a byte of its own and closes its end.
\<close>

definition demo_race :: TcpHeader where
  "demo_race = \<lparr>th_srcPort = 502, th_destPort = 1000, th_seqNum = 100, th_ackNum = 48, th_dataOffset = 5,
     th_flags = TCP_FLAG_FIN OR TCP_FLAG_ACK, th_window = 6, th_checksum = 0, th_options = []\<rparr>"

definition demo_race_wait :: "unit waiter" where
  "demo_race_wait sk timeout w = the (dispatch_segment demo_ops 0 demo_pseudo demo_race [5] sk w)"

lemma demo_sk_more: "ssthresh demo_sk = 0xFFFF \<and> sk_interface demo_sk = None"
  using demo_alloc [of 8 14] no_options [of 99]
  unfolding demo_open_def demo_syn_sent_def connect_start_def demo_closed_def demo_pseudo_def
  by (simp add: demo_run dispatch_segment_def tcpStateSynSent_def syn_received_def tcpComputeRto_def rtt_sample_def
    bounded_rto_def tcpUpdateRetransmitQueue_def has_flag_def syn_ack_def TCP_CMP_SEQ_def)

lemma demo_queued_more:
  "irs demo_queued = 99 \<and> rcvNxt demo_queued = 100 \<and> rcvUser demo_queued = 0 \<and> rcvWnd demo_queued = 8 \<and>
   sackBlock demo_queued = [] \<and> rxBufferSize demo_queued = 8 \<and> rxBuffer demo_queued = replicate 8 0 \<and>
   congestState demo_queued = TCP_CONGEST_STATE_IDLE \<and> dupAckCount demo_queued = 0 \<and>
   sndWl1 demo_queued = 99 \<and> sndWl2 demo_queued = 42 \<and> recover demo_queued = 41 \<and> maxSndWnd demo_queued = 6 \<and>
   sk_interface demo_queued = None \<and> ssthresh demo_queued = 0xFFFF"
  using demo_sk_more unfolding demo_queued_def
  by (simp add: send_chunk_def tcpWriteTxBuffer_def ring_offset_def tcpUpdateEvents_def tcpTimerStart_def Let_def
    buf_write_def blit_def split: if_split)

definition flushed :: "Socket \<Rightarrow> bool" where
  "flushed sk \<longleftrightarrow>
     sk_state sk = TCP_STATE_ESTABLISHED \<and> sndUser sk = 1 \<and> sndNxt sk = 48 \<and> sndUna sk = 42 \<and> iss sk = 41 \<and>
     sndWnd sk = 6 \<and> cwnd sk = 8 \<and> smss sk = 536 \<and> txBufferSize sk = 8 \<and> txBuffer sk = [1, 2, 3, 4, 5, 6, 7, 0] \<and>
     localIpAddr sk = Ipv4Addr 1 \<and> remoteIpAddr sk = Ipv4Addr 2 \<and> irs sk = 99 \<and> rcvNxt sk = 100 \<and> rcvUser sk = 0 \<and>
     rcvWnd sk = 8 \<and> sackBlock sk = [] \<and> rxBufferSize sk = 8 \<and> rxBuffer sk = replicate 8 0 \<and>
     congestState sk = TCP_CONGEST_STATE_IDLE \<and> dupAckCount sk = 0 \<and> sndWl1 sk = 99 \<and> sndWl2 sk = 42 \<and> recover sk = 41 \<and>
     maxSndWnd sk = 6 \<and> sk_interface sk = None \<and> ssthresh sk = 0xFFFF"

lemmas tcp_data_run = demo_run dispatch_segment_def tcpStateEstablished_def accept_segment_def tcpCheckSequenceNumber_def
  seq_acceptable_def tcpCheckSyn_def tcpCheckAck_def tcpIsDuplicateAck_def ack_old_data_def dup_ack_thresh_def
  tcpUpdateSendWindow_def has_flag_def TCP_CMP_SEQ_def tcpProcessSegmentData_def clip_segment_def tcpWriteRxBuffer_def
  ring_offset_def buf_copy_def buf_write_def buf_read_def blit_def tcpUpdateSackBlocks_def tcpNagleAlgo_def nagle_loop.simps
  tcpWaitForEvents_def link_events_def usable_window_def tcpReadTxBuffer_def nagle_size_def buf_concat_def

lemma demo_flush:
  "\<exists>sk. tcpSend demo_ops wait demo_queued [] SOCKET_FLAG_NO_DELAY () = Some (NO_ERROR, 0, sk, ()) \<and> flushed sk"
  using demo_queued_more
  by (simp add: tcpSend_def send_loop.simps tcp_data_run send_state_def send_chunk_def tcpWriteTxBuffer_def flushed_def)

subsection \<open>The acknowledgment\<close>

text \<open>What the bookkeeping of the retransmissions and of the round trip time may change.\<close>

lemma acked_keeps: "\<exists>t c. fst (snd (acked_loop ops sk q w)) = sk\<lparr>retransmitTimer := t, retransmitCount := c\<rparr>"
proof (induction q arbitrary: sk w)
  case Nil
  show ?case by (intro exI [of _ "retransmitTimer sk"] exI [of _ "retransmitCount sk"]) simp
next
  case (Cons item q)
  obtain t w1 where t: "tcpTimerStart ops (retransmitTimer sk) (rto sk) w = (t, w1)" by (metis surj_pair)
  show ?case using Cons [of "sk\<lparr>retransmitTimer := t, retransmitCount := 0\<rparr>" w1] Cons [of sk w] t
    by (fastforce split: prod.split)
qed

lemma queue_keeps:
  obtains q t c where "tcpUpdateRetransmitQueue demo_ops sk () =
    (sk\<lparr>retransmitQueue := q, retransmitTimer := t, retransmitCount := c\<rparr>, ())"
proof -
  obtain q sk1 where a: "acked_loop demo_ops sk (retransmitQueue sk) () = (q, sk1, ())" by (metis surj_pair unit.exhaust)
  obtain t c where "sk1 = sk\<lparr>retransmitTimer := t, retransmitCount := c\<rparr>"
    using acked_keeps [of demo_ops sk "retransmitQueue sk" "()"] a by auto
  then have "tcpUpdateRetransmitQueue demo_ops sk () =
      (sk\<lparr>retransmitQueue := q, retransmitTimer := (if q = [] then tcpTimerStop t else t), retransmitCount := c\<rparr>, ())"
    using a by (simp add: tcpUpdateRetransmitQueue_def Let_def)
  then show ?thesis by (rule that)
qed

lemma rtt_keeps: "\<exists>a b. rtt_sample sk r = sk\<lparr>srtt := a, rttvar := b\<rparr>"
proof (cases "srtt sk = 0 \<and> rttvar sk = 0")
  case True
  then show ?thesis unfolding rtt_sample_def by auto
next
  case False
  define x y where "x = (7 * srtt sk + r) div 8"
    and "y = (3 * rttvar sk + (if r > srtt sk then r - srtt sk else srtt sk - r)) div 4"
  have "rtt_sample sk r = sk\<lparr>srtt := x, rttvar := y\<rparr>"
    using False by (simp only: rtt_sample_def Let_def if_False x_def y_def) simp
  then show ?thesis by blast
qed

lemma rto_keeps:
  obtains u a b c d where "tcpComputeRto demo_ops sk () = (u, sk\<lparr>srtt := a, rttvar := b, rto := c, rttBusy := d\<rparr>, ())"
proof -
  obtain a b where s: "rtt_sample sk (0 - rttStartTime sk) = sk\<lparr>srtt := a, rttvar := b\<rparr>" using rtt_keeps by blast
  define x where "x = bounded_rto (sk\<lparr>srtt := a, rttvar := b\<rparr>)"
  show ?thesis
  proof (cases "rttBusy sk \<and> TCP_CMP_SEQ (sndUna sk) (rttSeqNum sk) > 0")
    case True
    then have "tcpComputeRto demo_ops sk () = (True, sk\<lparr>srtt := a, rttvar := b, rto := x, rttBusy := False\<rparr>, ())"
      using s by (simp add: tcpComputeRto_def x_def Let_def)
    then show ?thesis by (rule that)
  next
    case False
    then have "tcpComputeRto demo_ops sk () = (False, sk\<lparr>srtt := srtt sk, rttvar := rttvar sk, rto := rto sk, rttBusy := rttBusy sk\<rparr>, ())"
      by (auto simp: tcpComputeRto_def)
    then show ?thesis by (rule that)
  qed
qed

lemma demo_ack:
  assumes "congestState sk = TCP_CONGEST_STATE_IDLE" "ssthresh sk = 0xFFFF" "cwnd sk = 8" "smss sk = 536" "txBufferSize sk = 8"
    and "acked_bytes sk seg = m" "m = 1 \<or> m = 6"
  obtains n a b c d q t e where "ack_new_data demo_ops sk seg () = Some (sk\<lparr>sk_n := n, sndUna := th_ackNum seg, srtt := a,
     rttvar := b, rto := c, rttBusy := d, retransmitQueue := q, retransmitTimer := t, retransmitCount := e, dupAckCount := 0,
     cwnd := 8\<rparr>, ())"
proof -
  let ?sk = "sk\<lparr>sk_n := sk_n sk + m, sndUna := th_ackNum seg\<rparr>"
  obtain u a b c d where r: "tcpComputeRto demo_ops ?sk () = (u, ?sk\<lparr>srtt := a, rttvar := b, rto := c, rttBusy := d\<rparr>, ())"
    by (rule rto_keeps)
  let ?sk1 = "?sk\<lparr>srtt := a, rttvar := b, rto := c, rttBusy := d\<rparr>"
  obtain q t e where u: "tcpUpdateRetransmitQueue demo_ops ?sk1 () =
      (?sk1\<lparr>retransmitQueue := q, retransmitTimer := t, retransmitCount := e\<rparr>, ())" by (rule queue_keeps)
  show ?thesis by (rule that [where n = "sk_n sk + m"]) (use assms r u in \<open>auto simp: ack_new_data_def Let_def congestion_step_def\<close>)
qed

lemma demo_race_done:
  assumes "flushed sk"
  shows "\<exists>sk'. tcpWaitForEvents demo_ops demo_race_wait sk SOCKET_EVENT_TX_DONE (sk_timeout sk) () =
      (SOCKET_EVENT_TX_DONE, sk', ()) \<and> sk_state sk' = TCP_STATE_CLOSE_WAIT \<and> rcvUser sk' = 1 \<and> rcvNxt sk' = 102 \<and>
    localIpAddr sk' = Ipv4Addr 1 \<and> remoteIpAddr sk' = Ipv4Addr 2"
proof -
  note f = assms [unfolded flushed_def]
  let ?sk = "sk\<lparr>sk_eventMask := 8, sk_eventFlags := 0, sndWnd := 6, sndWl1 := 100, sndWl2 := 48, maxSndWnd := 6\<rparr>"
  obtain n a b c d q t e where ack: "ack_new_data demo_ops ?sk demo_race () = Some (?sk\<lparr>sk_n := n, sndUna := th_ackNum demo_race,
     srtt := a, rttvar := b, rto := c, rttBusy := d, retransmitQueue := q, retransmitTimer := t, retransmitCount := e,
     dupAckCount := 0, cwnd := 8\<rparr>, ())"
    by (rule demo_ack [of ?sk demo_race 6]) (use f in \<open>simp_all add: acked_bytes_def demo_race_def\<close>)
  show ?thesis using f ack by (simp add: demo_race_wait_def tcp_data_run demo_race_def)
qed

text \<open>The byte that waits has the number 100, and after \<open>tcpShutdown\<close> the user would read from 101 on.\<close>

lemma shutdown_overrides_state_witness:
  "\<exists>sk' w'. tcpShutdown demo_ops demo_race_wait demo_queued SOCKET_SD_SEND () =
      Some (wait_shutdown demo_ops demo_race_wait sk' SOCKET_EVENT_TX_SHUTDOWN w') \<and>
    sk_state sk' = TCP_STATE_FIN_WAIT_1 \<and> rcvUser sk' = 1 \<and> receive_seq sk' 0 = Inr 101"
proof -
  obtain sk1 where 1: "tcpSend demo_ops demo_race_wait demo_queued [] SOCKET_FLAG_NO_DELAY () = Some (NO_ERROR, 0, sk1, ())"
    and f: "flushed sk1" using demo_flush by blast
  obtain sk2 where 2: "tcpWaitForEvents demo_ops demo_race_wait sk1 SOCKET_EVENT_TX_DONE (sk_timeout sk1) () =
      (SOCKET_EVENT_TX_DONE, sk2, ())" and m: "sk_state sk2 = TCP_STATE_CLOSE_WAIT" "rcvUser sk2 = 1" "rcvNxt sk2 = 102"
    and ip: "localIpAddr sk2 = Ipv4Addr 1" "remoteIpAddr sk2 = Ipv4Addr 2"
    using demo_race_done [OF f] by blast
  have "\<exists>sk3. tcpSendSegment demo_ops sk2 (TCP_FLAG_FIN OR TCP_FLAG_ACK) (sndNxt sk2) (rcvNxt sk2) 0 True () =
      Some (NO_ERROR, sk3, ())"
    by (cases "rttBusy sk2"; cases "timer_running (retransmitTimer sk2)") (simp_all add: demo_run ip)
  then obtain sk3 where 3: "tcpSendSegment demo_ops sk2 (TCP_FLAG_FIN OR TCP_FLAG_ACK) (sndNxt sk2) (rcvNxt sk2) 0 True () =
      Some (NO_ERROR, sk3, ())" ..
  have "receive_seq sk2 0 = Inr 100" using m by (simp add: receive_seq_def)
  then show ?thesis
    using shutdown_overrides_state [OF demo_queued(1) 1 2 3] m by auto
qed

subsection \<open>A send that times out half-way\<close>

text \<open>
  Of two more bytes one fits the send buffer: \<open>tcpSend\<close> has taken it when it reports the timeout, which is the case
  \<open>StreamProperties.partial_send_repeats_bytes\<close> is about.
\<close>

lemma send_times_out_half_way:
  "\<exists>sk. tcpSend demo_ops (\<lambda>sk t w. (sk, w)) demo_queued [8, 9] 0 () = Some (ERROR_TIMEOUT, 1, sk, ())"
  using demo_queued_more
  by (simp add: tcpSend_def send_loop.simps tcp_data_run send_state_def send_chunk_def tcpWriteTxBuffer_def)

end
