(* ===== verification/TcpStreamProperties.thy ===== *)
theory TcpStreamProperties
  imports TcpDeliver TcpShutdown
begin

text \<open>
  The properties of a connection as a pair of streams: what the user reads is what the peer sent, and what is sent is
  what the user wrote.
\<close>

subsection \<open>A connection with its streams\<close>

text \<open>A connection on which nothing has been sent or received yet.\<close>

definition just_open :: "Socket \<Rightarrow> bool" where
  "just_open sk \<longleftrightarrow> (sk_state sk = TCP_STATE_SYN_RECEIVED \<or> sk_state sk = TCP_STATE_ESTABLISHED) \<and> \<not> closedFlag sk \<and>
     tx_ok sk \<and> rx_ok sk \<and> sndNxt sk = iss sk + 1 \<and> sndUser sk = 0 \<and> rcvNxt sk = irs sk + 1 \<and> rcvUser sk = 0 \<and> sackBlock sk = []"

text \<open>
  The sockets of a connection, with the bytes \<open>W\<close> its user has written and the bytes \<open>R\<close> that were copied to him, when
  the peer sends the bytes \<open>S\<close>.  A segment of the peer agrees with \<open>S\<close> and arrives while the receive window ends below
  4 GiB: behind that, the buffer offsets of the code jump.  A connection is not connected again, and the FIN of
  \<open>tcpShutdown\<close> is sent from the state it was chosen for (\<open>TcpShutdown.shutdown_overrides_state\<close> is about the other case).
  Reading goes on when the receive buffer was freed, but then nothing is copied (\<open>lost\<close>).
\<close>

inductive tcp_run :: "'w tcp_ops \<Rightarrow> (nat \<Rightarrow> u8) \<Rightarrow> Socket \<Rightarrow> buffer \<Rightarrow> buffer \<Rightarrow> bool"
  for ops :: "'w tcp_ops" and S :: "nat \<Rightarrow> u8" where
  start: "tcp_reach ops sk \<Longrightarrow> just_open sk \<Longrightarrow> tcp_run ops S sk [] []"
| segment: "tcp_run ops S sk W R \<Longrightarrow> (in_order sk \<longrightarrow> agrees S (length R) sk segment data) \<Longrightarrow>
    length data \<le> 65535 \<Longrightarrow> dispatch_segment ops interface ph segment data sk w = Some (sk', w') \<Longrightarrow> tcp_run ops S sk' W R"
| send: "tcp_run ops S sk W R \<Longrightarrow> send_state sk = NO_ERROR \<Longrightarrow>
    send_chunk ops sk data w = Some (e, n, sk', w') \<Longrightarrow> tcp_run ops S sk' (W @ take n data) R"
| receive: "tcp_run ops S sk W R \<Longrightarrow> receive_seq sk got = Inr seqNum \<Longrightarrow> rcvUser sk \<noteq> 0 \<Longrightarrow> 0 < space \<Longrightarrow> space \<le> length data \<Longrightarrow>
    rxBuffer sk \<noteq> [] \<Longrightarrow> receive_chunk ops sk flags seqNum data space w = Some (stop, n, d, sk', w') \<Longrightarrow>
    tcp_run ops S sk' W (R @ take n d)"
| lost: "tcp_run ops S sk W R \<Longrightarrow> receive_seq sk got = Inr seqNum \<Longrightarrow> rcvUser sk \<noteq> 0 \<Longrightarrow> 0 < space \<Longrightarrow> space \<le> length data \<Longrightarrow>
    rxBuffer sk = [] \<Longrightarrow> receive_chunk ops sk flags seqNum data space w = Some (stop, n, d, sk', w') \<Longrightarrow> tcp_run ops S sk' W R"
| user: "tcp_run ops S sk W R \<Longrightarrow>
    tcp_run ops S (sk\<lparr>sk_timeout := timeout, sk_eventMask := m, sk_eventFlags := f, sk_userEvent := b\<rparr>) W R"
| tick: "tcp_run ops S sk W R \<Longrightarrow> tcpTickSocket ops sk w = Some (sk', w') \<Longrightarrow> tcp_run ops S sk' W R"
| nagle: "tcp_run ops S sk W R \<Longrightarrow> send_state sk = NO_ERROR \<Longrightarrow> tcpNagleAlgo ops sk flags w = Some (e, sk', w') \<Longrightarrow>
    tcp_run ops S sk' W R"
| fin: "tcp_run ops S sk W R \<Longrightarrow> sndUser sk = 0 \<Longrightarrow>
    sk_state sk = TCP_STATE_ESTABLISHED \<and> st = TCP_STATE_FIN_WAIT_1 \<or>
    sk_state sk = TCP_STATE_CLOSE_WAIT \<and> st = TCP_STATE_LAST_ACK \<Longrightarrow>
    emit_fin ops sk st w = Some (e, sk', w') \<Longrightarrow> tcp_run ops S sk' W R"
| abort: "tcp_run ops S sk W R \<Longrightarrow> tcpAbort ops sk w = Some (e, sk', w') \<Longrightarrow> tcp_run ops S sk' W R"

lemma just_open_flow: "just_open sk \<Longrightarrow> flow_ok S 0 [] sk"
  by (auto simp: just_open_def flow_ok_def received_ok_def written_ok_def fin_sent_def behind_fin_def ahead_def rx.holds_def
      tx.holds_def unacked_def)

lemma tcp_run_reach: "tcp_run ops S sk W R \<Longrightarrow> tcp_reach ops sk"
  by (induction rule: tcp_run.induct) (blast intro: tcp_reach.step tcp_step.intros)+

lemma tcp_run_inv: "tcp_run ops S sk W R \<Longrightarrow> source_ok ops \<Longrightarrow> tcp_inv sk"
  by (rule tcp_reach_inv [OF tcp_run_reach])

lemma tcp_run_flow:
  assumes run: "tcp_run ops S sk W R" and src: "source_ok ops"
  shows "flow_ok S (length R) W sk \<and> R = map S [0..<length R]"
  using run
proof induction
  case (start sk)
  then show ?case using just_open_flow by simp
next
  case (segment sk W R segment data interface ph w sk' w')
  show ?case using dispatch_segment_flow [OF tcp_run_inv [OF segment(1) src] _ _ segment(3,4)] segment(2) segment.IH by simp
next
  case (send sk W R data w e n sk' w')
  show ?case using send_chunk_flow [OF tcp_run_inv [OF send(1) src] send(2) [unfolded send_state_iff] _ send(3)] send.IH by simp
next
  case (receive sk W R got seqNum space data flags w stop n d sk' w')
  note r = receive_chunk_flow [OF tcp_run_inv [OF receive(1) src] conjunct1 [OF receive.IH] receive(2-6) receive(7)]
  have f: "take n d = map S [length R..<length R + n]" using r by (rule conjunct1)
  then have n: "length (take n d) = n" by simp
  have "R @ take n d = map S [0..<length R] @ map S [length R..<length R + n]"
    using conjunct2 [OF receive.IH] f by (rule arg_cong2)
  also have "\<dots> = map S [0..<length R + n]" by (simp add: upt_add_eq_append [of 0 "length R" n])
  finally show ?case using r n by simp
next
  case (lost sk W R got seqNum space data flags w stop n d sk' w')
  show ?case
    using receive_chunk_lost(1) [OF tcp_run_inv [OF lost(1) src] conjunct1 [OF lost.IH] lost(2,6,5,7)] lost.IH by blast
next
  case user
  show ?case
    by (rule conjI [OF flow_same [OF conjunct1 [OF user.IH]] conjunct2 [OF user.IH]])
      (simp add: same_def conn_def snd_side_def rcv_side_def)
next
  case (tick sk W R w sk' w')
  show ?case using tcpTickSocket_flow [OF tcp_run_inv [OF tick(1) src] _ tick(2)] tick.IH by simp
next
  case (nagle sk W R flags w e sk' w')
  show ?case
    using nagle_flow [OF _ tcp_run_inv [OF nagle(1) src] nagle(2) [unfolded send_state_iff] nagle(3)] nagle.IH by simp
next
  case (fin sk W R st w e sk' w')
  show ?case using emit_fin_flow [OF tcp_run_inv [OF fin(1) src] _ fin(2-4)] fin.IH by simp
next
  case (abort sk W R w e sk' w')
  show ?case using tcpAbort_flow [OF tcp_run_inv [OF abort(1) src] _ abort(2)] abort.IH by simp
qed

subsection \<open>Receiving\<close>

text \<open>
  C7: TCP delivers the stream of the peer.  However its segments are cut, repeated, reordered or lost on the way, the
  bytes copied to the user are the first bytes the peer sent, in order, without gaps and without repetition.  Meanwhile
  anything may happen that \<open>tcp_run\<close> has: sending, ticks, the FIN of either side, reset and abort.  It has less than
  4 GiB from the peer, no connecting again, and the FIN of \<open>tcpShutdown\<close> only from the state it was chosen for.  Not all
  the bytes that were acknowledged need be copied: those unread when the FIN of the peer leads to TIME-WAIT are lost,
  which the next property is about.
\<close>

theorem received_bytes_are_the_stream:
  assumes "tcp_run ops S sk W R" and "source_ok ops"
  shows "R = map S [0..<length R]"
  using tcp_run_flow [OF assms] by (rule conjunct2)

text \<open>Two bytes of the peer that arrive in two segments, the second one first; the user reads one of them.\<close>

definition demo_segment :: "u32 \<Rightarrow> TcpHeader" where
  "demo_segment n = \<lparr>th_srcPort = 502, th_destPort = 1000, th_seqNum = n, th_ackNum = 42, th_dataOffset = 5,
     th_flags = TCP_FLAG_ACK, th_window = 6, th_checksum = 0, th_options = []\<rparr>"

definition demo_stream :: "nat \<Rightarrow> u8" where
  "demo_stream k = word_of_nat (10 + k)"

lemma demo_just_open: "just_open (demo_open n)"
  by (simp add: just_open_def tx_ok_def rx_ok_def)

lemma demo_ahead_ex:
  "\<exists>sk. dispatch_segment demo_ops 0 demo_pseudo (demo_segment 101) [11] demo_sk () = Some (sk, ()) \<and>
     sk_state sk = TCP_STATE_ESTABLISHED \<and> sndUna sk = 42 \<and> sndNxt sk = 42 \<and> sndUser sk = 0 \<and> iss sk = 41 \<and> sndWnd sk = 6 \<and>
     smss sk = 536 \<and> congestState sk = TCP_CONGEST_STATE_IDLE \<and> dupAckCount sk = 0 \<and> sndWl1 sk = 101 \<and> sndWl2 sk = 42 \<and>
     recover sk = 41 \<and> localIpAddr sk = Ipv4Addr 1 \<and> remoteIpAddr sk = Ipv4Addr 2 \<and> sk_eventMask sk = 0 \<and>
     irs sk = 99 \<and> rcvNxt sk = 100 \<and> rcvUser sk = 0 \<and> rcvWnd sk = 8 \<and> sackBlock sk = [(101, 102)] \<and>
     rxBufferSize sk = 8 \<and> txBufferSize sk = 8 \<and> rxBuffer sk = [0, 11] @ replicate 6 0"
  by (simp add: tcp_data_run demo_segment_def)

lemma demo_both_ex:
  assumes "sk_state sk = TCP_STATE_ESTABLISHED \<and> sndUna sk = 42 \<and> sndNxt sk = 42 \<and> sndUser sk = 0 \<and> iss sk = 41 \<and> sndWnd sk = 6 \<and>
     smss sk = 536 \<and> congestState sk = TCP_CONGEST_STATE_IDLE \<and> dupAckCount sk = 0 \<and> sndWl1 sk = 101 \<and> sndWl2 sk = 42 \<and>
     recover sk = 41 \<and> localIpAddr sk = Ipv4Addr 1 \<and> remoteIpAddr sk = Ipv4Addr 2 \<and> sk_eventMask sk = 0 \<and>
     irs sk = 99 \<and> rcvNxt sk = 100 \<and> rcvUser sk = 0 \<and> rcvWnd sk = 8 \<and> sackBlock sk = [(101, 102)] \<and>
     rxBufferSize sk = 8 \<and> txBufferSize sk = 8 \<and> rxBuffer sk = [0, 11] @ replicate 6 0"
  shows "\<exists>sk'. dispatch_segment demo_ops 0 demo_pseudo (demo_segment 100) [10] sk () = Some (sk', ()) \<and>
     sk_state sk' = TCP_STATE_ESTABLISHED \<and> irs sk' = 99 \<and> rcvNxt sk' = 102 \<and> rcvUser sk' = 2 \<and> rcvWnd sk' = 6 \<and>
     rxBufferSize sk' = 8 \<and> rxBuffer sk' = [10, 11] @ replicate 6 0"
  using assms by (simp add: tcp_data_run demo_segment_def)

lemma demo_received: "\<exists>sk. tcp_run demo_ops demo_stream sk [] [10]"
proof -
  obtain a where a: "dispatch_segment demo_ops 0 demo_pseudo (demo_segment 101) [11] demo_sk () = Some (a, ())"
    and a': "irs a = 99 \<and> rcvNxt a = 100 \<and> rcvUser a = 0 \<and> rcvWnd a = 8"
    and ax: "\<exists>b. dispatch_segment demo_ops 0 demo_pseudo (demo_segment 100) [10] a () = Some (b, ()) \<and>
     sk_state b = TCP_STATE_ESTABLISHED \<and> irs b = 99 \<and> rcvNxt b = 102 \<and> rcvUser b = 2 \<and> rcvWnd b = 6 \<and>
     rxBufferSize b = 8 \<and> rxBuffer b = [10, 11] @ replicate 6 0"
    using demo_ahead_ex demo_both_ex by blast
  from ax obtain b where b: "dispatch_segment demo_ops 0 demo_pseudo (demo_segment 100) [10] a () = Some (b, ())"
    and b': "sk_state b = TCP_STATE_ESTABLISHED \<and> irs b = 99 \<and> rcvNxt b = 102 \<and> rcvUser b = 2 \<and> rcvWnd b = 6 \<and>
     rxBufferSize b = 8 \<and> rxBuffer b = [10, 11] @ replicate 6 0" by blast
  have "tcp_run demo_ops demo_stream demo_sk [] []" by (rule tcp_run.start [OF demo_reach demo_just_open])
  then have "tcp_run demo_ops demo_stream a [] []"
    by (rule tcp_run.segment [OF _ _ _ a]) (simp_all add: agrees_def demo_segment_def demo_stream_def)
  then have run: "tcp_run demo_ops demo_stream b [] []"
    by (rule tcp_run.segment [OF _ _ _ b]) (use a' in \<open>simp_all add: agrees_def demo_segment_def demo_stream_def\<close>)
  have "connected b" using b' by (simp add: connected_def)
  then obtain stop n d c where c: "receive_chunk demo_ops b 0 100 [0] 1 () = Some (stop, n, d, c, ())"
    and n: "1 \<le> n" "n \<le> 1" "length d = 1"
    by (rule receive_chunk_ok [OF tcp_run_inv [OF run demo_source_ok], of 1 "[0]" demo_ops 0 100 "()"]) (use b' in simp_all)
  have go: "tcp_run demo_ops demo_stream c [] ([] @ take n d)"
    by (rule tcp_run.receive [OF run _ _ _ _ _ c, of 0]) (use b' in \<open>simp_all add: receive_seq_def\<close>)
  have "take n d = map demo_stream [0..<1]" using tcp_run_flow [OF go demo_source_ok] n by simp
  then show ?thesis using go by (auto simp: demo_stream_def)
qed

lemma received_bytes_are_the_stream_witness:
  "\<exists>sk. tcp_run demo_ops demo_stream sk [] [10] \<and> [10] = map demo_stream [0..<1]"
proof -
  obtain sk where "tcp_run demo_ops demo_stream sk [] [10]" using demo_received by blast
  with received_bytes_are_the_stream [OF this demo_source_ok] show ?thesis by auto
qed

subsection \<open>What is not received\<close>

lemma receive_freed:
  assumes "tcp_run ops S sk W R" and "source_ok ops" and "sk_state sk = TCP_STATE_TIME_WAIT"
  shows "rxBuffer sk = []"
  using tcp_run_flow [OF assms(1,2)] assms(3) by (simp add: flow_ok_def received_ok_def)

lemma time_wait_ready:
  assumes "sk_state sk = TCP_STATE_TIME_WAIT"
  obtains w' where "tcpWaitForEvents ops wait sk EVENT_RX_READY t w =
    (EVENT_RX_READY, sk\<lparr>sk_eventMask := EVENT_RX_READY, sk_eventFlags := EVENT_RX_READY\<rparr>, w')"
proof -
  have "link_events ops s w AND EVENT_RX_READY = 0" for s :: Socket
    by (simp add: link_events_def split: option.split)
  then have "(state_events s OR tx_events s OR rx_events s OR link_events ops s w) AND EVENT_RX_READY = EVENT_RX_READY"
    if "sk_state s = TCP_STATE_TIME_WAIT" for s :: Socket
    using that by (simp add: state_events_def tx_events_def rx_events_def bit.conj_disj_distrib2)
  then show ?thesis
    by (intro that) (use assms in \<open>simp add: tcpWaitForEvents_def tcpUpdateEvents_def Let_def\<close>)
qed

text \<open>
  C8: Bytes that were acknowledged are lost when the connection ends on both sides before they are read, and
  \<open>tcpReceive\<close> reports them all the same.  In TIME-WAIT the receive buffer was freed, while the counter of the bytes
  that wait for the user was not: a call returns at once, without an error, and says that it has received as many bytes
  as wait and as fit the memory of the user, which it has not touched.
\<close>

theorem time_wait_loses_unread_bytes:
  assumes "tcp_run ops S sk W R" and "source_ok ops" and "sk_state sk = TCP_STATE_TIME_WAIT" and "rcvUser sk \<noteq> 0"
    and "0 < n" and "n \<le> length buf" and "flags AND SOCKET_FLAG_WAIT_ALL = 0" and "flags AND SOCKET_FLAG_BREAK_CHAR = 0"
  shows "rxBuffer sk = [] \<and> (\<exists>sk' w'. tcpReceive ops wait sk buf n flags w =
      Some (NO_ERROR, min (unat (rcvUser sk)) n, buf, sk', w') \<and> tcp_run ops S sk' W R)"
proof -
  let ?sk = "sk\<lparr>sk_eventMask := EVENT_RX_READY, sk_eventFlags := EVENT_RX_READY\<rparr>"
  define t where "t = (if flags AND SOCKET_FLAG_DONT_WAIT \<noteq> 0 then 0 else sk_timeout sk)"
  obtain w1 where ev: "tcpWaitForEvents ops wait sk EVENT_RX_READY t w = (EVENT_RX_READY, ?sk, w1)"
    using time_wait_ready [OF assms(3)] .
  have gone: "rxBuffer sk = []" by (rule receive_freed [OF assms(1-3)])
  have run: "tcp_run ops S ?sk W R" using tcp_run.user [OF assms(1), where timeout = "sk_timeout sk" and b = "sk_userEvent sk"] by simp
  have seq: "receive_seq ?sk 0 = Inr (rcvNxt sk - 1 - ucast (rcvUser sk))" using assms(3,4) by (simp add: receive_seq_def)
  have c: "connected ?sk" using assms(3) by (simp add: connected_def)
  obtain stop k d sk' w' where ch: "receive_chunk ops ?sk flags (rcvNxt sk - 1 - ucast (rcvUser sk)) buf n w1 = Some (stop, k, d, sk', w')"
    by (rule receive_chunk_ok [OF tcp_run_inv [OF run assms(2)] c]) (use assms(4-6) in auto)
  have d: "d = buf" by (rule receive_chunk_lost(2) [OF tcp_run_inv [OF run assms(2)] conjunct1 [OF tcp_run_flow [OF run assms(2)]] seq _ assms(6) ch])
    (simp add: gone)
  have "stop \<and> k = min (unat (rcvUser sk)) n"
    using ch assms(7,8) unfolding receive_chunk_def by (auto simp: bind_eq_Some_conv Let_def split: prod.splits)
  moreover have "tcp_run ops S sk' W R" by (rule tcp_run.lost [OF run seq _ assms(5,6) _ ch]) (simp_all add: gone assms(4))
  ultimately show ?thesis
    using ev seq ch d gone assms(3-5) unfolding tcpReceive_def receive_loop.simps [of ops wait flags n 0 buf sk w] t_def [symmetric]
    by simp
qed

text \<open>
  The user closes his end; then the peer acknowledges that, sends a byte and closes its own end, all in one segment.
\<close>

definition demo_last :: TcpHeader where
  "demo_last = \<lparr>th_srcPort = 502, th_destPort = 1000, th_seqNum = 100, th_ackNum = 43, th_dataOffset = 5,
     th_flags = TCP_FLAG_FIN OR TCP_FLAG_ACK, th_window = 6, th_checksum = 0, th_options = []\<rparr>"

definition fin_waiting :: "Socket \<Rightarrow> bool" where
  "fin_waiting sk \<longleftrightarrow>
     sk_state sk = TCP_STATE_FIN_WAIT_1 \<and> iss sk = 41 \<and> sndUser sk = 0 \<and> sndNxt sk = 43 \<and> sndUna sk = 42 \<and> sndWnd sk = 6 \<and> cwnd sk = 8 \<and>
     smss sk = 536 \<and> txBufferSize sk = 8 \<and> localIpAddr sk = Ipv4Addr 1 \<and> remoteIpAddr sk = Ipv4Addr 2 \<and> irs sk = 99 \<and>
     rcvNxt sk = 100 \<and> rcvUser sk = 0 \<and> rcvWnd sk = 8 \<and> sackBlock sk = [] \<and> rxBufferSize sk = 8 \<and>
     rxBuffer sk = replicate 8 0 \<and> congestState sk = TCP_CONGEST_STATE_IDLE \<and> dupAckCount sk = 0 \<and> sndWl1 sk = 99 \<and>
     sndWl2 sk = 42 \<and> recover sk = 41 \<and> maxSndWnd sk = 6 \<and> ssthresh sk = 0xFFFF \<and> sk_eventMask sk = 0"

lemma demo_fin_sent: "\<exists>sk. emit_fin demo_ops demo_sk TCP_STATE_FIN_WAIT_1 () = Some (NO_ERROR, sk, ()) \<and> fin_waiting sk"
  using demo_sk_more by (cases "rttBusy demo_sk"; cases "timer_running (retransmitTimer demo_sk)")
    (simp_all add: emit_fin_def demo_run fin_waiting_def)

lemma demo_last_done:
  assumes "fin_waiting sk"
  shows "\<exists>sk'. dispatch_segment demo_ops 0 demo_pseudo demo_last [10] sk () = Some (sk', ()) \<and>
    sk_state sk' = TCP_STATE_TIME_WAIT \<and> rcvUser sk' = 1"
proof -
  note f = assms [unfolded fin_waiting_def]
  let ?sk = "sk\<lparr>sndWnd := 6, sndWl1 := 100, sndWl2 := 43, maxSndWnd := 6\<rparr>"
  obtain n a b c d q t e where ack: "ack_new_data demo_ops ?sk demo_last () = Some (?sk\<lparr>sk_n := n, sndUna := th_ackNum demo_last,
     srtt := a, rttvar := b, rto := c, rttBusy := d, retransmitQueue := q, retransmitTimer := t, retransmitCount := e,
     dupAckCount := 0, cwnd := 8\<rparr>, ())"
    by (rule demo_ack [of ?sk demo_last 1]) (use f in \<open>simp_all add: acked_bytes_def demo_last_def\<close>)
  show ?thesis using f ack
    by (simp add: tcp_data_run tcpStateFinWait1_def enter_time_wait_def demo_last_def tcpDeleteControlBlock_def
      tcpFlushSynQueue_def tcpFlushRetransmitQueue_def)
qed

lemma time_wait_loses_unread_bytes_witness:
  "\<exists>sk sk'. sk_state sk = TCP_STATE_TIME_WAIT \<and> rcvUser sk = 1 \<and>
     tcpReceive demo_ops (\<lambda>sk t w. (sk, w)) sk [77] 1 0 () = Some (NO_ERROR, 1, [77], sk', ())"
proof -
  obtain a where a: "emit_fin demo_ops demo_sk TCP_STATE_FIN_WAIT_1 () = Some (NO_ERROR, a, ())" and fa: "fin_waiting a"
    using demo_fin_sent by blast
  obtain b where b: "dispatch_segment demo_ops 0 demo_pseudo demo_last [10] a () = Some (b, ())"
    and fb: "sk_state b = TCP_STATE_TIME_WAIT" "rcvUser b = 1" using demo_last_done [OF fa] by blast
  have "tcp_run demo_ops demo_stream demo_sk [] []" by (rule tcp_run.start [OF demo_reach demo_just_open])
  then have "tcp_run demo_ops demo_stream a [] []" by (rule tcp_run.fin [OF _ _ _ a]) simp_all
  then have "tcp_run demo_ops demo_stream b [] []"
    by (rule tcp_run.segment [OF _ _ _ b]) (use fa in \<open>simp_all add: fin_waiting_def agrees_def demo_last_def demo_stream_def\<close>)
  from time_wait_loses_unread_bytes [OF this demo_source_ok fb(1), of 1 "[77]" 0 "\<lambda>sk t w. (sk, w)" "()"]
  show ?thesis using fb by auto
qed

subsection \<open>Sending\<close>

text \<open>What is not acknowledged fits the send buffer.\<close>

lemma unacked_fits:
  assumes inv: "tcp_inv sk" and ok: "written_ok W sk" and st: "sk_state sk \<noteq> TCP_STATE_CLOSED" "sk_state sk \<noteq> TCP_STATE_TIME_WAIT"
    and k: "length W + fin_sent (sk_state sk) \<le> k + flight sk + unat (sndUser sk)" "k + n \<le> length W"
  shows "n \<le> unat (txBufferSize sk)" and "n \<le> 22880"
proof -
  have st': "sk_state sk \<noteq> TCP_STATE_LISTEN" "sk_state sk \<noteq> TCP_STATE_SYN_SENT" using ok by (simp_all add: written_ok_def)
  then have "connected sk" using st by (simp add: connected_def)
  from tcp_invD(5) [OF inv this]
  have "flight sk + unat (sndUser sk) \<le> unat (txBufferSize sk) + (if sending (sk_state sk) then 0 else 1)"
    unfolding snd_ok_def by (elim conjE)
  moreover have "fin_sent (sk_state sk) = (if sending (sk_state sk) then 0 else 1)"
    using st st' by (cases "sk_state sk") (simp_all add: fin_sent_def sending_def)
  ultimately show "n \<le> unat (txBufferSize sk)" using k by linarith
  moreover have "unat (txBufferSize sk) \<le> 22880" using tcp_invD(1) [OF inv] by (simp add: sizes_ok_def)
  ultimately show "n \<le> 22880" by linarith
qed

lemma sent_bytes:
  assumes "tcp_run ops S sk W R" and "source_ok ops" and "sk_state sk \<noteq> TCP_STATE_CLOSED" and "sk_state sk \<noteq> TCP_STATE_TIME_WAIT"
    and "length W < 4294967296" and "length W + fin_sent (sk_state sk) \<le> k + flight sk + unat (sndUser sk)" and "k + n \<le> length W"
  shows "tcpReadTxBuffer sk (iss sk + 1 + word_of_nat k) n = Some (NO_ERROR, take n (drop k W))"
proof -
  have inv: "tcp_inv sk" by (rule tcp_run_inv [OF assms(1,2)])
  have ok: "written_ok W sk" using tcp_run_flow [OF assms(1,2)] by (simp add: flow_ok_def)
  then have tx: "tx_ok sk" and h: "tx.holds ((!) W) (unacked (length W) sk) sk"
    and nxt: "sndNxt sk + ucast (sndUser sk) = iss sk + 1 + word_of_nat (length W + fin_sent (sk_state sk))"
    using assms(3-5) by (simp_all add: written_ok_def)
  note n = unacked_fits(1) [OF inv ok assms(3,4,6,7)]
  show ?thesis
  proof (cases "k < 4294967296")
    case True
    have "{k..<k + n} \<subseteq> unacked (length W) sk" using assms(6,7) by (auto simp: unacked_def)
    then have "tx_get sk k n = map ((!) W) [k..<k + n]" by (intro tx.holds_get [OF tx tx.holds_mono [OF h] n True])
    moreover have "map ((!) W) [k..<k + n] = take n (drop k W)" using assms(7) by (intro nth_equalityI) simp_all
    ultimately show ?thesis using tcpReadTxBuffer_ring [of sk k n] tx n True by (simp add: tx_ok_def tx_get_def)
  next
    case False
    then show ?thesis using assms(5,7) by linarith
  qed
qed

text \<open>
  C10: What is sent is what the user wrote, as long as he has written fewer than 4 GiB and the socket is neither in
  CLOSED nor in TIME-WAIT, where the send buffer is gone.  The send buffer yields, at the sequence numbers of bytes
  that are not yet acknowledged, the bytes the user wrote, in order; so every segment that is sent or sent again from
  there carries the stream of the user.  The socket is one of a run as \<open>tcp_run\<close> has it.  Behind 4 GiB the sequence
  numbers start again, and the offsets of the code with them.
\<close>

theorem sent_bytes_are_written:
  assumes "tcp_run ops S sk W R" and "source_ok ops" and "sk_state sk \<noteq> TCP_STATE_CLOSED" and "sk_state sk \<noteq> TCP_STATE_TIME_WAIT"
    and "length W < 4294967296" and "length W + fin_sent (sk_state sk) \<le> k + flight sk + unat (sndUser sk)" and "k + n \<le> length W"
  shows "tcpReadTxBuffer sk (iss sk + 1 + word_of_nat k) n = Some (NO_ERROR, take n (drop k W))"
  by (rule sent_bytes [OF assms])

text \<open>Of the seven bytes waiting to be sent, three from the middle.\<close>

lemma demo_queued_run: "tcp_run demo_ops S demo_queued [1, 2, 3, 4, 5, 6, 7] []"
proof -
  have "send_chunk demo_ops demo_sk [1, 2, 3, 4, 5, 6, 7] () = Some (NO_ERROR, 7, demo_queued, ())"
    using demo_queued_ex by (auto simp: demo_queued_def)
  from tcp_run.send [OF tcp_run.start [OF demo_reach demo_just_open] _ this]
  show ?thesis by (simp add: send_state_def)
qed

lemma sent_bytes_are_written_witness: "tcpReadTxBuffer demo_queued 44 3 = Some (NO_ERROR, [3, 4, 5])"
  using sent_bytes_are_written [OF demo_queued_run demo_source_ok, of 2 3] by (simp add: fin_sent_def)

subsection \<open>From one stack to the other\<close>






end
