(* ===== verification/Ipv4Types.thy ===== *)
theory Ipv4Types
  imports IpChecksum TcpTypes
begin

text \<open>
  The data of IPv4: \<open>ipv4/ipv4.h\<close>, \<open>ipv4/ipv4_frag.h\<close>, and what the IP layer calls.  A packet is a pointer into
  the heap of \<open>NetMem\<close>; an address is the 32-bit word as it lies in memory.
\<close>

subsection \<open>Members of packed structures in memory\<close>

definition member :: "pointer \<Rightarrow> nat \<Rightarrow> pointer" where
  "member p i = (fst p, snd p + i)"

definition load8 :: "heap \<Rightarrow> pointer \<Rightarrow> u8 option" where
  "load8 h p = map_option (\<lambda>d. d ! 0) (load h p 1)"

definition load16 :: "heap \<Rightarrow> pointer \<Rightarrow> u16 option" where
  "load16 h p = map_option (\<lambda>d. get16 d 0) (load h p 2)"

definition get_le32 :: "buffer \<Rightarrow> nat \<Rightarrow> u32" where
  "get_le32 b i = le_word (b ! i) (b ! (i + 1)) (b ! (i + 2)) (b ! (i + 3))"

definition load32 :: "heap \<Rightarrow> pointer \<Rightarrow> u32 option" where
  "load32 h p = map_option (\<lambda>d. get_le32 d 0) (load h p 4)"

definition le16 :: "u16 \<Rightarrow> buffer" where
  "le16 v = [ucast v, ucast (drop_bit 8 v)]"

definition store16 :: "heap \<Rightarrow> pointer \<Rightarrow> u16 \<Rightarrow> heap option" where
  "store16 h p v = store_bytes h p (le16 v)"

text \<open>The difference of two values of type \<open>size_t\<close>, which wraps.\<close>

definition size_sub :: "nat \<Rightarrow> nat \<Rightarrow> nat" where
  "size_sub a b = (if b \<le> a then a - b else a + 4294967296 - b)"

lemma size_sub_le [simp]: "b \<le> a \<Longrightarrow> size_sub a b = a - b"
  by (simp add: size_sub_def)

subsection \<open>Constants\<close>

abbreviation (input) sizeof_Ipv4Header :: nat where "sizeof_Ipv4Header \<equiv> 20"
abbreviation (input) sizeof_Ipv4HoleDesc :: nat where "sizeof_Ipv4HoleDesc \<equiv> 6"
abbreviation (input) IPV4_FLAG_MF :: u16 where "IPV4_FLAG_MF \<equiv> 0x2000"
abbreviation (input) IPV4_OFFSET_MASK :: u16 where "IPV4_OFFSET_MASK \<equiv> 0x1FFF"
abbreviation (input) IPV4_INFINITY :: u16 where "IPV4_INFINITY \<equiv> 0xFFFF"
abbreviation (input) IPV4_MAX_FRAG_DATAGRAM_SIZE :: nat where "IPV4_MAX_FRAG_DATAGRAM_SIZE \<equiv> 8192"
abbreviation (input) IPV4_FRAG_TIME_TO_LIVE :: u32 where "IPV4_FRAG_TIME_TO_LIVE \<equiv> 15000"
abbreviation (input) MAX_FRAG_CHUNKS :: nat where "MAX_FRAG_CHUNKS \<equiv> 7"

abbreviation (input) IPV4_PROTOCOL_ICMP :: u8 where "IPV4_PROTOCOL_ICMP \<equiv> 1"
abbreviation (input) IPV4_PROTOCOL_TCP :: u8 where "IPV4_PROTOCOL_TCP \<equiv> 6"
abbreviation (input) IPV4_PROTOCOL_UDP :: u8 where "IPV4_PROTOCOL_UDP \<equiv> 17"
abbreviation (input) ICMP_TYPE_DEST_UNREACHABLE :: u8 where "ICMP_TYPE_DEST_UNREACHABLE \<equiv> 3"
abbreviation (input) ICMP_CODE_PROTOCOL_UNREACHABLE :: u8 where "ICMP_CODE_PROTOCOL_UNREACHABLE \<equiv> 2"
abbreviation (input) ICMP_CODE_PORT_UNREACHABLE :: u8 where "ICMP_CODE_PORT_UNREACHABLE \<equiv> 3"
abbreviation (input) ICMP_TYPE_TIME_EXCEEDED :: u8 where "ICMP_TYPE_TIME_EXCEEDED \<equiv> 11"
abbreviation (input) ICMP_CODE_REASSEMBLY_TIME_EXCEEDED :: u8 where "ICMP_CODE_REASSEMBLY_TIME_EXCEEDED \<equiv> 1"

subsection \<open>Headers and contexts\<close>

text \<open>The pseudo header, with its length in host byte order.\<close>

record Ipv4PseudoHeader =
  ph_srcAddr :: u32
  ph_destAddr :: u32
  ph_protocol :: u8
  ph_length :: u16

text \<open>Pointers to the members of a header.\<close>

abbreviation ip_totalLength :: "pointer \<Rightarrow> pointer" where "ip_totalLength p \<equiv> member p 2"
abbreviation ip_identification :: "pointer \<Rightarrow> pointer" where "ip_identification p \<equiv> member p 4"
abbreviation ip_fragmentOffset :: "pointer \<Rightarrow> pointer" where "ip_fragmentOffset p \<equiv> member p 6"
abbreviation ip_protocol :: "pointer \<Rightarrow> pointer" where "ip_protocol p \<equiv> member p 9"
abbreviation ip_headerChecksum :: "pointer \<Rightarrow> pointer" where "ip_headerChecksum p \<equiv> member p 10"
abbreviation ip_srcAddr :: "pointer \<Rightarrow> pointer" where "ip_srcAddr p \<equiv> member p 12"
abbreviation ip_destAddr :: "pointer \<Rightarrow> pointer" where "ip_destAddr p \<equiv> member p 16"

text \<open>The two halves of the first byte: the version, and the length of the header in words of four bytes.\<close>

definition load_version :: "heap \<Rightarrow> pointer \<Rightarrow> u8 option" where
  "load_version h p = map_option (drop_bit 4) (load8 h p)"

definition load_headerLength :: "heap \<Rightarrow> pointer \<Rightarrow> nat option" where
  "load_headerLength h p = map_option (\<lambda>b. unat (b AND 0x0F)) (load8 h p)"

text \<open>A datagram being reassembled.\<close>

record Ipv4FragDesc =
  frag_timestamp :: systime_t
  frag_headerLength :: nat
  frag_dataLen :: nat
  frag_firstHole :: u16
  frag_buffer :: NetBuffer

definition cleared_frag :: Ipv4FragDesc where
  "cleared_frag = \<lparr>frag_timestamp = 0, frag_headerLength = 0, frag_dataLen = 0, frag_firstHole = 0,
     frag_buffer = \<lparr>maxChunkCount = 0, chunks = []\<rparr>\<rparr>"

text \<open>
  What the IP layer calls: the allocator, the clock, the protocols above it and ICMP.  These get the bytes of the
  multi-part buffer that holds the datagram and the offset of the payload; whatever they do to their own data is a
  change of the world.
\<close>

record 'w ip_ops =
  ipAlloc :: "'w allocator"
  ipTime :: "'w \<Rightarrow> systime_t \<times> 'w"
  icmpInput :: "nat \<Rightarrow> u32 \<Rightarrow> buffer \<Rightarrow> nat \<Rightarrow> 'w \<Rightarrow> 'w"
  tcpInput :: "nat \<Rightarrow> Ipv4PseudoHeader \<Rightarrow> buffer \<Rightarrow> nat \<Rightarrow> 'w \<Rightarrow> 'w"
  udpInput :: "nat \<Rightarrow> Ipv4PseudoHeader \<Rightarrow> buffer \<Rightarrow> nat \<Rightarrow> 'w \<Rightarrow> error_t \<times> 'w"
  icmpError :: "nat \<Rightarrow> u8 \<Rightarrow> u8 \<Rightarrow> buffer \<Rightarrow> 'w \<Rightarrow> 'w"

end
