(* ===== verification/Ipv4Frag.thy ===== *)
theory Ipv4Frag
  imports Ipv4Types
begin

text \<open>
  \<open>ipv4ProcessDatagram\<close> of \<open>ipv4.c\<close> and the reassembly of \<open>ipv4_frag.c\<close>.  The list of holes of RFC 815 lives in
  the holes: a descriptor of six bytes at the start of each hole of the buffer, which names the next hole by its
  offset.  Dereferencing a null pointer or leaving a block is \<open>None\<close>, and so is a loop that does not end.
\<close>

subsection \<open>Handing a datagram to the protocol above\<close>

definition ipv4ProcessDatagram :: "'w ip_ops \<Rightarrow> nat \<Rightarrow> NetBuffer \<Rightarrow> 'w sys \<Rightarrow> 'w sys option" where
  "ipv4ProcessDatagram ops interface buffer s =
     (let len = netBufferGetLength buffer in
      case netBufferAt buffer 0 of
        None \<Rightarrow> Some s
      | Some header \<Rightarrow> do {
          hl \<leftarrow> load_headerLength (mem s) header;
          srcAddr \<leftarrow> load32 (mem s) (ip_srcAddr header);
          destAddr \<leftarrow> load32 (mem s) (ip_destAddr header);
          protocol \<leftarrow> load8 (mem s) (ip_protocol header);
          let offset = hl * 4;
          let pseudoHeader = \<lparr>ph_srcAddr = srcAddr, ph_destAddr = destAddr, ph_protocol = protocol,
            ph_length = word_of_nat (size_sub len offset)\<rparr>;
          bytes \<leftarrow> netBufferRead buffer 0 len (mem s);
          let (error, w) =
            (if protocol = IPV4_PROTOCOL_ICMP then (NO_ERROR, icmpInput ops interface srcAddr bytes offset (world s))
             else if protocol = IPV4_PROTOCOL_TCP then (NO_ERROR, tcpInput ops interface pseudoHeader bytes offset (world s))
             else if protocol = IPV4_PROTOCOL_UDP then udpInput ops interface pseudoHeader bytes offset (world s)
             else (ERROR_PROTOCOL_UNREACHABLE, world s));
          let w = (if error = ERROR_PROTOCOL_UNREACHABLE
            then icmpError ops interface ICMP_TYPE_DEST_UNREACHABLE ICMP_CODE_PROTOCOL_UNREACHABLE bytes w else w);
          let w = (if error = ERROR_PORT_UNREACHABLE
            then icmpError ops interface ICMP_TYPE_DEST_UNREACHABLE ICMP_CODE_PORT_UNREACHABLE bytes w else w);
          Some (s\<lparr>world := w\<rparr>)
        })"

subsection \<open>Holes\<close>

definition ipv4FindHole :: "Ipv4FragDesc \<Rightarrow> u16 \<Rightarrow> pointer option" where
  "ipv4FindHole frag offset = netBufferAt (frag_buffer frag) (frag_headerLength frag + unat offset)"

abbreviation hole_first :: "pointer \<Rightarrow> pointer" where "hole_first p \<equiv> member p 0"
abbreviation hole_last :: "pointer \<Rightarrow> pointer" where "hole_last p \<equiv> member p 2"
abbreviation hole_next :: "pointer \<Rightarrow> pointer" where "hole_next p \<equiv> member p 4"

text \<open>The link that leads to the current hole: in the previous hole, or in the descriptor of the datagram.\<close>

definition get_link :: "Ipv4FragDesc \<Rightarrow> pointer option \<Rightarrow> heap \<Rightarrow> u16 option" where
  "get_link frag prevHole h = (case prevHole of Some q \<Rightarrow> load16 h (hole_next q) | None \<Rightarrow> Some (frag_firstHole frag))"

definition set_link :: "Ipv4FragDesc \<Rightarrow> pointer option \<Rightarrow> u16 \<Rightarrow> heap \<Rightarrow> (Ipv4FragDesc \<times> heap) option" where
  "set_link frag prevHole v h =
     (case prevHole of
        Some q \<Rightarrow> map_option (Pair frag) (store16 h (hole_next q) v)
      | None \<Rightarrow> Some (frag\<lparr>frag_firstHole := v\<rparr>, h))"

text \<open>Creating an entry for a hole and inserting it behind the previous one, which it becomes.\<close>

definition insert_hole ::
    "Ipv4FragDesc \<Rightarrow> pointer option \<Rightarrow> u16 \<Rightarrow> u16 \<Rightarrow> heap \<Rightarrow> (Ipv4FragDesc \<times> pointer option \<times> heap) option" where
  "insert_hole frag prevHole lo hi h = do {
     hole \<leftarrow> ipv4FindHole frag lo;
     h \<leftarrow> store16 h (hole_first hole) lo;
     h \<leftarrow> store16 h (hole_last hole) hi;
     n \<leftarrow> get_link frag prevHole h;
     h \<leftarrow> store16 h (hole_next hole) n;
     f \<leftarrow> load16 h (hole_first hole);
     (frag, h) \<leftarrow> set_link frag prevHole f h;
     Some (frag, Some hole, h)
   }"

text \<open>One pass of the loop over the holes: the arriving data \<open>dataFirst..dataLast\<close> against one hole.\<close>

definition hole_step ::
    "u16 \<Rightarrow> u16 \<Rightarrow> bool \<Rightarrow> Ipv4FragDesc \<Rightarrow> pointer option \<Rightarrow> pointer \<Rightarrow> heap \<Rightarrow>
     (Ipv4FragDesc \<times> pointer option \<times> heap) option" where
  "hole_step dataFirst dataLast moreFragments frag prevHole hole h = do {
     holeFirst \<leftarrow> load16 h (hole_first hole);
     holeLast \<leftarrow> load16 h (hole_last hole);
     (if dataFirst < holeLast \<and> dataLast > holeFirst then do {
        n \<leftarrow> load16 h (hole_next hole);
        (frag, h) \<leftarrow> set_link frag prevHole n h;
        (frag, prevHole, h) \<leftarrow>
          (if dataFirst > holeFirst then insert_hole frag prevHole holeFirst dataFirst h else Some (frag, prevHole, h));
        (if dataLast < holeLast \<and> moreFragments then insert_hole frag prevHole dataLast holeLast h
         else Some (frag, prevHole, h))
      }
      else Some (frag, Some hole, h))
   }"

partial_function (option) hole_loop ::
    "u16 \<Rightarrow> u16 \<Rightarrow> bool \<Rightarrow> Ipv4FragDesc \<Rightarrow> pointer option \<Rightarrow> pointer option \<Rightarrow> heap \<Rightarrow> (Ipv4FragDesc \<times> heap) option" where
  "hole_loop dataFirst dataLast moreFragments frag prevHole hole h =
     (case hole of
        None \<Rightarrow> Some (frag, h)
      | Some p \<Rightarrow>
          Option.bind (hole_step dataFirst dataLast moreFragments frag prevHole p h) (\<lambda>(frag, prevHole, h).
            Option.bind (get_link frag prevHole h) (\<lambda>n.
              hole_loop dataFirst dataLast moreFragments frag prevHole (ipv4FindHole frag n) h)))"

subsection \<open>The reassembly queue\<close>

text \<open>Dropping the datagram of an entry.\<close>

definition drop_frag :: "'w ip_ops \<Rightarrow> Ipv4FragDesc \<Rightarrow> 'w sys \<Rightarrow> (Ipv4FragDesc \<times> 'w sys) option" where
  "drop_frag ops frag s = do {
     (_, b, s) \<leftarrow> netBufferSetLength (ipAlloc ops) (frag_buffer frag) 0 s;
     Some (frag\<lparr>frag_buffer := b\<rparr>, s)
   }"

definition frag_in_use :: "Ipv4FragDesc \<Rightarrow> bool" where
  "frag_in_use frag \<longleftrightarrow> chunkCount (frag_buffer frag) > 0"

definition same_datagram :: "pointer \<Rightarrow> pointer \<Rightarrow> heap \<Rightarrow> bool option" where
  "same_datagram datagram packet h = do {
     a \<leftarrow> load32 h (ip_srcAddr datagram); a' \<leftarrow> load32 h (ip_srcAddr packet);
     if a \<noteq> a' then Some False else do {
     b \<leftarrow> load32 h (ip_destAddr datagram); b' \<leftarrow> load32 h (ip_destAddr packet);
     if b \<noteq> b' then Some False else do {
     c \<leftarrow> load16 h (ip_identification datagram); c' \<leftarrow> load16 h (ip_identification packet);
     if c \<noteq> c' then Some False else do {
     d \<leftarrow> load8 h (ip_protocol datagram); d' \<leftarrow> load8 h (ip_protocol packet);
     Some (d = d')
   }}}}"

text \<open>The index of the entry that the packet belongs to.\<close>

fun match_frag :: "Ipv4FragDesc list \<Rightarrow> pointer \<Rightarrow> heap \<Rightarrow> nat \<Rightarrow> nat option option" where
  "match_frag [] packet h i = Some None"
| "match_frag (frag # fs) packet h i =
     (if frag_in_use frag then do {
        datagram \<leftarrow> netBufferAt (frag_buffer frag) 0;
        same \<leftarrow> same_datagram datagram packet h;
        if same then Some (Some i) else match_frag fs packet h (Suc i)
      }
      else match_frag fs packet h (Suc i))"

fun free_frag :: "Ipv4FragDesc list \<Rightarrow> nat \<Rightarrow> nat option" where
  "free_frag [] i = None"
| "free_frag (frag # fs) i = (if frag_in_use frag then free_frag fs (Suc i) else Some i)"

definition set_first_chunk_length :: "nat \<Rightarrow> NetBuffer \<Rightarrow> NetBuffer option" where
  "set_first_chunk_length n b =
     (case chunks b of
        [] \<Rightarrow> None
      | c # cs \<Rightarrow> Some (b\<lparr>chunks := c\<lparr>chunk_length := n mod 65536\<rparr> # cs\<rparr>))"

text \<open>A new entry; the flag says whether it could be made.\<close>

definition new_frag :: "'w ip_ops \<Rightarrow> pointer \<Rightarrow> Ipv4FragDesc \<Rightarrow> 'w sys \<Rightarrow> (bool \<times> Ipv4FragDesc \<times> 'w sys) option" where
  "new_frag ops packet frag s = do {
     let frag = frag\<lparr>frag_buffer := (frag_buffer frag)\<lparr>maxChunkCount := MAX_FRAG_CHUNKS\<rparr>\<rparr>;
     (error, b, s) \<leftarrow> netBufferSetLength (ipAlloc ops) (frag_buffer frag) (NET_MEM_POOL_BUFFER_SIZE + sizeof_Ipv4HoleDesc) s;
     let frag = frag\<lparr>frag_buffer := b\<rparr>;
     if error \<noteq> NO_ERROR then do {
       (frag, s) \<leftarrow> drop_frag ops frag s;
       Some (False, frag, s)
     }
     else do {
       hl \<leftarrow> load_headerLength (mem s) packet;
       let frag = frag\<lparr>frag_headerLength := hl * 4, frag_dataLen := 0\<rparr>;
       b \<leftarrow> set_first_chunk_length (hl * 4) (frag_buffer frag);
       let frag = frag\<lparr>frag_buffer := b\<rparr>;
       header \<leftarrow> load (mem s) packet (hl * 4);
       (_, h) \<leftarrow> netBufferWrite (frag_buffer frag) 0 header (mem s);
       let (time, w) = ipTime ops (world s);
       let frag = frag\<lparr>frag_timestamp := time, frag_firstHole := 0\<rparr>;
       hole \<leftarrow> ipv4FindHole frag (frag_firstHole frag);
       h \<leftarrow> store16 h (hole_first hole) 0;
       h \<leftarrow> store16 h (hole_last hole) IPV4_INFINITY;
       h \<leftarrow> store16 h (hole_next hole) IPV4_INFINITY;
       Some (True, frag, \<lparr>mem = h, world = w\<rparr>)
     }
   }"

definition ipv4SearchFragQueue ::
    "'w ip_ops \<Rightarrow> Ipv4FragDesc list \<Rightarrow> pointer \<Rightarrow> 'w sys \<Rightarrow> (nat option \<times> Ipv4FragDesc list \<times> 'w sys) option" where
  "ipv4SearchFragQueue ops queue packet s = do {
     found \<leftarrow> match_frag queue packet (mem s) 0;
     (case found of
        Some i \<Rightarrow> Some (Some i, queue, s)
      | None \<Rightarrow>
          (case free_frag queue 0 of
             None \<Rightarrow> Some (None, queue, s)
           | Some i \<Rightarrow> do {
               (ok, frag, s) \<leftarrow> new_frag ops packet (queue ! i) s;
               Some (if ok then Some i else None, queue[i := frag], s)
             }))
   }"

fun ipv4FlushFragQueue :: "'w ip_ops \<Rightarrow> Ipv4FragDesc list \<Rightarrow> 'w sys \<Rightarrow> (Ipv4FragDesc list \<times> 'w sys) option" where
  "ipv4FlushFragQueue ops [] s = Some ([], s)"
| "ipv4FlushFragQueue ops (frag # fs) s = do {
     (frag, s) \<leftarrow> drop_frag ops frag s;
     (fs, s) \<leftarrow> ipv4FlushFragQueue ops fs s;
     Some (frag # fs, s)
   }"

subsection \<open>Reassembly\<close>

text \<open>
  The first fragment brings the header of the datagram.  The flag says whether to go on; otherwise the datagram
  was dropped.
\<close>

definition first_fragment ::
    "'w ip_ops \<Rightarrow> pointer \<Rightarrow> Ipv4FragDesc \<Rightarrow> 'w sys \<Rightarrow> (bool \<times> Ipv4FragDesc \<times> 'w sys) option" where
  "first_fragment ops packet frag s = do {
     hl \<leftarrow> load_headerLength (mem s) packet;
     let frag = frag\<lparr>frag_headerLength := hl * 4\<rparr>;
     if frag_headerLength frag + frag_dataLen frag > IPV4_MAX_FRAG_DATAGRAM_SIZE
     then do { (frag, s) \<leftarrow> drop_frag ops frag s; Some (False, frag, s) }
     else do {
       c \<leftarrow> (case chunks (frag_buffer frag) of [] \<Rightarrow> None | c # _ \<Rightarrow> Some c);
       if frag_headerLength frag > chunk_size c
       then do { (frag, s) \<leftarrow> drop_frag ops frag s; Some (False, frag, s) }
       else do {
         b \<leftarrow> set_first_chunk_length (frag_headerLength frag) (frag_buffer frag);
         let frag = frag\<lparr>frag_buffer := b\<rparr>;
         header \<leftarrow> load (mem s) packet (frag_headerLength frag);
         (_, h) \<leftarrow> netBufferWrite (frag_buffer frag) 0 header (mem s);
         Some (True, frag, s\<lparr>mem := h\<rparr>)
       }
     }
   }"

definition enlarge_frag ::
    "'w ip_ops \<Rightarrow> u16 \<Rightarrow> Ipv4FragDesc \<Rightarrow> 'w sys \<Rightarrow> (bool \<times> Ipv4FragDesc \<times> 'w sys) option" where
  "enlarge_frag ops dataLast frag s =
     (if unat dataLast > frag_dataLen frag then
        if frag_headerLength frag + unat dataLast > IPV4_MAX_FRAG_DATAGRAM_SIZE
        then do { (frag, s) \<leftarrow> drop_frag ops frag s; Some (False, frag, s) }
        else do {
          (error, b, s) \<leftarrow> netBufferSetLength (ipAlloc ops) (frag_buffer frag)
            (frag_headerLength frag + unat dataLast + sizeof_Ipv4HoleDesc) s;
          let frag = frag\<lparr>frag_buffer := b\<rparr>;
          if error \<noteq> NO_ERROR
          then do { (frag, s) \<leftarrow> drop_frag ops frag s; Some (False, frag, s) }
          else Some (True, frag\<lparr>frag_dataLen := unat dataLast\<rparr>, s)
        }
      else Some (True, frag, s))"

text \<open>The datagram is complete: its header is corrected and it is processed.\<close>

definition deliver_frag :: "'w ip_ops \<Rightarrow> nat \<Rightarrow> Ipv4FragDesc \<Rightarrow> 'w sys \<Rightarrow> (Ipv4FragDesc \<times> 'w sys) option" where
  "deliver_frag ops interface frag s = do {
     let len = frag_headerLength frag + frag_dataLen frag;
     (error, b, s) \<leftarrow> netBufferSetLength (ipAlloc ops) (frag_buffer frag) len s;
     let frag = frag\<lparr>frag_buffer := b\<rparr>;
     s \<leftarrow> (if error \<noteq> NO_ERROR then Some s
           else do {
             datagram \<leftarrow> netBufferAt (frag_buffer frag) 0;
             h \<leftarrow> store16 (mem s) (ip_totalLength datagram) (htons (word_of_nat len));
             h \<leftarrow> store16 h (ip_fragmentOffset datagram) 0;
             h \<leftarrow> store16 h (ip_headerChecksum datagram) 0;
             ipv4ProcessDatagram ops interface (frag_buffer frag) (s\<lparr>mem := h\<rparr>)
           });
     drop_frag ops frag s
   }"

text \<open>What happens to the entry of the datagram; the flag of a step says whether the next one takes place.\<close>

definition add_fragment ::
    "'w ip_ops \<Rightarrow> nat \<Rightarrow> pointer \<Rightarrow> nat \<Rightarrow> u16 \<Rightarrow> u16 \<Rightarrow> u16 \<Rightarrow> Ipv4FragDesc \<Rightarrow> 'w sys \<Rightarrow>
     (Ipv4FragDesc \<times> 'w sys) option" where
  "add_fragment ops interface packet len offset dataFirst dataLast frag s = do {
     (go, frag, s) \<leftarrow> (if offset AND IPV4_OFFSET_MASK = 0 then first_fragment ops packet frag s else Some (True, frag, s));
     if \<not> go then Some (frag, s)
     else do {
       (go, frag, s) \<leftarrow> enlarge_frag ops dataLast frag s;
       if \<not> go then Some (frag, s)
       else do {
         (frag, h) \<leftarrow> hole_loop dataFirst dataLast (offset AND IPV4_FLAG_MF \<noteq> 0) frag None
           (ipv4FindHole frag (frag_firstHole frag)) (mem s);
         hl \<leftarrow> load_headerLength h packet;
         data \<leftarrow> load h (member packet (hl * 4)) len;
         (_, h) \<leftarrow> netBufferWrite (frag_buffer frag) (frag_headerLength frag + unat dataFirst) data h;
         let s = s\<lparr>mem := h\<rparr>;
         if ipv4FindHole frag (frag_firstHole frag) = None then deliver_frag ops interface frag s
         else Some (frag, s)
       }
     }
   }"

definition ipv4ReassembleDatagram ::
    "'w ip_ops \<Rightarrow> nat \<Rightarrow> Ipv4FragDesc list \<Rightarrow> pointer \<Rightarrow> nat \<Rightarrow> 'w sys \<Rightarrow> (Ipv4FragDesc list \<times> 'w sys) option" where
  "ipv4ReassembleDatagram ops interface queue packet len s = do {
     hl \<leftarrow> load_headerLength (mem s) packet;
     let len = size_sub len (hl * 4);
     offset \<leftarrow> map_option ntohs (load16 (mem s) (ip_fragmentOffset packet));
     if offset AND IPV4_FLAG_MF \<noteq> 0 \<and> len mod 8 \<noteq> 0 then Some (queue, s)
     else do {
       let dataFirst = (offset AND IPV4_OFFSET_MASK) * 8;
       let dataLast = dataFirst + word_of_nat len;
       (found, queue, s) \<leftarrow> ipv4SearchFragQueue ops queue packet s;
       (case found of
          None \<Rightarrow> Some (queue, s)
        | Some i \<Rightarrow> do {
            (frag, s) \<leftarrow> add_fragment ops interface packet len offset dataFirst dataLast (queue ! i) s;
            Some (queue[i := frag], s)
          })
     }
   }"

subsection \<open>The timeout\<close>

text \<open>The entry whose time has run out; an ICMP message tells the source if the first fragment had arrived.\<close>

definition expire_frag :: "'w ip_ops \<Rightarrow> nat \<Rightarrow> Ipv4FragDesc \<Rightarrow> 'w sys \<Rightarrow> (Ipv4FragDesc \<times> 'w sys) option" where
  "expire_frag ops interface frag s =
     (case ipv4FindHole frag (frag_firstHole frag) of
        None \<Rightarrow> drop_frag ops frag s
      | Some hole \<Rightarrow> do {
          holeFirst \<leftarrow> load16 (mem s) (hole_first hole);
          if holeFirst > 0 then do {
            (error, b, s) \<leftarrow> netBufferSetLength (ipAlloc ops) (frag_buffer frag)
              (frag_headerLength frag + unat holeFirst) s;
            let frag = frag\<lparr>frag_buffer := b\<rparr>;
            if error = NO_ERROR then do {
              bytes \<leftarrow> netBufferRead b 0 (netBufferGetLength b) (mem s);
              let w = icmpError ops interface ICMP_TYPE_TIME_EXCEEDED ICMP_CODE_REASSEMBLY_TIME_EXCEEDED bytes (world s);
              drop_frag ops frag (s\<lparr>world := w\<rparr>)
            }
            else drop_frag ops frag s
          }
          else drop_frag ops frag s
        })"

fun frag_tick_loop ::
    "'w ip_ops \<Rightarrow> nat \<Rightarrow> systime_t \<Rightarrow> Ipv4FragDesc list \<Rightarrow> 'w sys \<Rightarrow> (Ipv4FragDesc list \<times> 'w sys) option" where
  "frag_tick_loop ops interface time [] s = Some ([], s)"
| "frag_tick_loop ops interface time (frag # fs) s = do {
     (frag, s) \<leftarrow>
       (if frag_in_use frag \<and> time - frag_timestamp frag \<ge> IPV4_FRAG_TIME_TO_LIVE
        then expire_frag ops interface frag s else Some (frag, s));
     (fs, s) \<leftarrow> frag_tick_loop ops interface time fs s;
     Some (frag # fs, s)
   }"

definition ipv4FragTick ::
    "'w ip_ops \<Rightarrow> nat \<Rightarrow> Ipv4FragDesc list \<Rightarrow> 'w sys \<Rightarrow> (Ipv4FragDesc list \<times> 'w sys) option" where
  "ipv4FragTick ops interface queue s =
     (case ipTime ops (world s) of (time, w) \<Rightarrow> frag_tick_loop ops interface time queue (s\<lparr>world := w\<rparr>))"

end
