(* ===== verification/Ipv4FragMem.thy ===== *)
theory Ipv4FragMem
  imports Ipv4Frag
begin

text \<open>
  The reassembly buffer in memory: the first chunk holds the header, the others hold the payload and six more bytes,
  so that a hole may start right behind the last byte received.  A descriptor at a multiple of eight never crosses the
  border of two chunks; reading and writing it is reading and writing the bytes of the payload.
\<close>

subsection \<open>The layout\<close>

definition full_chunks :: "ChunkDesc list \<Rightarrow> bool" where
  "full_chunks cs \<longleftrightarrow> cs \<noteq> [] \<and> (\<forall>c \<in> set cs. chunk_size c = 1536) \<and> (\<forall>c \<in> set (butlast cs). chunk_length c = 1536)"

definition frag_layout :: "heap \<Rightarrow> Ipv4FragDesc \<Rightarrow> bool" where
  "frag_layout h frag \<longleftrightarrow> nb_ok h (frag_buffer frag) \<and> maxChunkCount (frag_buffer frag) = MAX_FRAG_CHUNKS \<and>
     20 \<le> frag_headerLength frag \<and> frag_headerLength frag \<le> 60 \<and> frag_headerLength frag + frag_dataLen frag \<le> 8192 \<and>
     (\<exists>c cs. chunks (frag_buffer frag) = c # cs \<and> chunk_size c = 1536 \<and> full_chunks cs \<and>
        chunk_length c = frag_headerLength frag \<and> chunks_total cs = frag_dataLen frag + 6)"

definition frag_header :: "heap \<Rightarrow> Ipv4FragDesc \<Rightarrow> buffer" where
  "frag_header h frag = chunk_bytes h (hd (chunks (frag_buffer frag)))"

definition payload :: "heap \<Rightarrow> Ipv4FragDesc \<Rightarrow> buffer" where
  "payload h frag = contents h (tl (chunks (frag_buffer frag)))"

abbreviation frag_blocks :: "Ipv4FragDesc \<Rightarrow> nat set" where
  "frag_blocks frag \<equiv> chunk_blocks (chunks (frag_buffer frag))"

text \<open>Two entries that differ in the first hole and the time only.\<close>

definition same_buffer :: "Ipv4FragDesc \<Rightarrow> Ipv4FragDesc \<Rightarrow> bool" where
  "same_buffer frag frag' \<longleftrightarrow> frag_buffer frag' = frag_buffer frag \<and> frag_headerLength frag' = frag_headerLength frag \<and>
     frag_dataLen frag' = frag_dataLen frag"

lemma same_buffer_refl [simp]: "same_buffer frag frag" "same_buffer frag (frag\<lparr>frag_firstHole := k\<rparr>)"
    "same_buffer frag (frag\<lparr>frag_timestamp := t\<rparr>)"
  by (simp_all add: same_buffer_def)

lemma same_buffer_trans: "same_buffer a b \<Longrightarrow> same_buffer b c \<Longrightarrow> same_buffer a c"
  by (simp add: same_buffer_def)

lemma same_buffer_eqs:
  assumes "same_buffer frag frag'"
  shows "frag_layout h frag' = frag_layout h frag" and "payload h frag' = payload h frag"
    and "frag_header h frag' = frag_header h frag" and "ipv4FindHole frag' k = ipv4FindHole frag k"
    and "frag_blocks frag' = frag_blocks frag" and "frag_dataLen frag' = frag_dataLen frag"
    and "frag_headerLength frag' = frag_headerLength frag" and "frag_buffer frag' = frag_buffer frag"
  using assms by (simp_all add: same_buffer_def frag_layout_def payload_def frag_header_def ipv4FindHole_def)

lemma layoutE:
  assumes "frag_layout h frag"
  obtains c cs where "chunks (frag_buffer frag) = c # cs" and "chunk_size c = 1536" and "full_chunks cs"
    and "chunk_length c = frag_headerLength frag" and "chunks_total cs = frag_dataLen frag + 6"
    and "chunk_ok h c" and "chunks_ok h cs" and "block_distinct (c # cs)" and "frag_header h frag = chunk_bytes h c"
    and "payload h frag = contents h cs"
proof -
  from assms obtain c cs where c: "chunks (frag_buffer frag) = c # cs" "chunk_size c = 1536" "full_chunks cs"
      "chunk_length c = frag_headerLength frag" "chunks_total cs = frag_dataLen frag + 6" "nb_ok h (frag_buffer frag)"
    unfolding frag_layout_def by blast
  then have "owning (c # cs) = c # cs" by (simp add: owning_def full_chunks_def)
  then have "block_distinct (c # cs)" using c(1,6) by (metis nb_ok_def owners_ok_def)
  with c that show ?thesis by (simp add: nb_ok_def frag_header_def payload_def)
qed

lemma layout_lengths:
  assumes "frag_layout h frag"
  shows "length (frag_header h frag) = frag_headerLength frag" and "length (payload h frag) = frag_dataLen frag + 6"
    and "frag_headerLength frag + frag_dataLen frag \<le> 8192" and "20 \<le> frag_headerLength frag" and "frag_headerLength frag \<le> 60"
proof -
  show "length (frag_header h frag) = frag_headerLength frag" "length (payload h frag) = frag_dataLen frag + 6"
    using assms by (elim layoutE; simp)+
qed (use assms in \<open>simp_all add: frag_layout_def\<close>)

lemma layout_writes:
  assumes "writes_in B h h'"
  shows "frag_layout h' frag = frag_layout h frag"
proof -
  have "nb_ok h' b = nb_ok h b" for b
    using assms by (simp add: nb_ok_def chunks_ok_writes [OF assms] owners_ok_cong [of _ h' h] writes_in_def)
  then show ?thesis by (simp add: frag_layout_def)
qed

lemma layout_contents: "frag_layout h frag \<Longrightarrow> contents h (chunks (frag_buffer frag)) = frag_header h frag @ payload h frag"
  by (elim layoutE) simp

subsection \<open>Descriptors\<close>

lemma full_chunks_Cons:
  "full_chunks (c # cs) \<longleftrightarrow> chunk_size c = 1536 \<and> (cs \<noteq> [] \<longrightarrow> chunk_length c = 1536 \<and> full_chunks cs)"
  by (cases cs) (auto simp: full_chunks_def)

text \<open>Six bytes at a multiple of eight lie in one chunk.\<close>

lemma find_in_chunk:
  assumes "full_chunks cs" and "off mod 8 = 0" and "off + 6 \<le> chunks_total cs"
  shows "\<exists>pre c ds i. skip_chunks cs off = Some (c # ds, i) \<and> cs = pre @ c # ds \<and> off = chunks_total pre + i \<and>
    i + 6 \<le> chunk_length c"
  using assms
proof (induction cs arbitrary: off)
  case (Cons c cs)
  show ?case
  proof (cases "off < chunk_length c")
    case True
    have "off + 6 \<le> chunk_length c"
    proof (cases "cs = []")
      case False
      then have "chunk_length c = 1536" using Cons.prems by (simp add: full_chunks_Cons)
      with True Cons.prems(2) show ?thesis by presburger
    qed (use Cons.prems in simp)
    with True show ?thesis by (intro exI [of _ "[]"] exI [of _ c] exI [of _ cs] exI [of _ off]) simp
  next
    case False
    then have "cs \<noteq> []" using Cons.prems by auto
    with Cons.prems have c: "chunk_length c = 1536" "full_chunks cs" by (simp_all add: full_chunks_Cons)
    have "(off - 1536) mod 8 = 0" using Cons.prems(2) by presburger
    moreover have "off - 1536 + 6 \<le> chunks_total cs" using False Cons.prems(3) c(1) by simp
    ultimately have "\<exists>pre d ds i. skip_chunks cs (off - 1536) = Some (d # ds, i) \<and> cs = pre @ d # ds \<and>
        off - 1536 = chunks_total pre + i \<and> i + 6 \<le> chunk_length d"
      by (rule Cons.IH [OF c(2)])
    then obtain pre d ds i where
      "skip_chunks cs (off - 1536) = Some (d # ds, i)" "cs = pre @ d # ds" "off - 1536 = chunks_total pre + i" "i + 6 \<le> chunk_length d"
      by blast
    with False c(1) show ?thesis by (intro exI [of _ "c # pre"] exI [of _ d] exI [of _ ds] exI [of _ i]) simp
  qed
qed (simp add: full_chunks_def)

definition hole_fits :: "Ipv4FragDesc \<Rightarrow> u16 \<Rightarrow> bool" where
  "hole_fits frag off \<longleftrightarrow> unat off mod 8 = 0 \<and> unat off \<le> frag_dataLen frag"

lemma find_hole:
  assumes "frag_layout h frag" and "hole_fits frag off"
  obtains c cs pre d ds i p where "chunks (frag_buffer frag) = c # cs" and "cs = pre @ d # ds" and "unat off = chunks_total pre + i"
    and "i + 6 \<le> chunk_length d" and "ipv4FindHole frag off = Some p" and "chunk_at d i = Some p"
proof -
  from assms(1) obtain c cs where c: "chunks (frag_buffer frag) = c # cs" "full_chunks cs"
      "chunk_length c = frag_headerLength frag" "chunks_total cs = frag_dataLen frag + 6" "chunks_ok h cs"
    by (rule layoutE)
  from find_in_chunk [OF c(2)] assms(2) c(4) obtain pre d ds i where
    d: "skip_chunks cs (unat off) = Some (d # ds, i)" "cs = pre @ d # ds" "unat off = chunks_total pre + i" "i + 6 \<le> chunk_length d"
    unfolding hole_fits_def by (metis add_le_mono1)
  have "chunk_ok h d" using c(5) d(2) by simp
  then obtain p where p: "chunk_at d i = Some p" by (auto simp: chunk_ok_def chunk_at_def)
  have "ipv4FindHole frag off = Some p" using c d p by (simp add: ipv4FindHole_def netBufferAt_def)
  with c d p that show ?thesis by blast
qed

lemma find_hole_Some: "frag_layout h frag \<Longrightarrow> hole_fits frag off \<Longrightarrow> \<exists>p. ipv4FindHole frag off = Some p"
  using find_hole by metis

lemma find_hole_None:
  assumes "frag_layout h frag"
  shows "ipv4FindHole frag IPV4_INFINITY = None"
  using layout_lengths(3) [OF assms]
  by - (rule layoutE [OF assms], simp add: ipv4FindHole_def netBufferAt_def skip_chunks_None)

lemma chunk_at_member: "chunk_at d i = Some p \<Longrightarrow> chunk_at d (i + j) = Some (member p j)"
  by (auto simp: chunk_at_def member_def)

lemma length_le16 [simp]: "length (le16 v) = 2"
  by (simp add: le16_def)

lemma get16_take: "i + 2 \<le> length P \<Longrightarrow> get16 (take 2 (drop i P)) 0 = get16 P i"
  by (simp add: get16_def)

lemma hole_load:
  assumes lay: "frag_layout h frag" and fits: "hole_fits frag off" and p: "ipv4FindHole frag off = Some p" and "j \<le> 4"
  shows "load16 h (member p j) = Some (get16 (payload h frag) (unat off + j))"
proof -
  from find_hole [OF lay fits] obtain c cs pre d ds i q where
    d: "chunks (frag_buffer frag) = c # cs" "cs = pre @ d # ds" "unat off = chunks_total pre + i" "i + 6 \<le> chunk_length d"
      "ipv4FindHole frag off = Some q" "chunk_at d i = Some q" .
  have q: "q = p" using d(5) p by simp
  have ok: "chunks_ok h pre" "chunk_ok h d" "chunks_ok h ds" using lay d(1,2) by (simp_all add: frag_layout_def nb_ok_def)
  have "i + j + 2 \<le> chunk_length d" using d(4) assms(4) by simp
  from load_chunk [OF ok(2) this] have "load h (member p j) 2 = Some (take 2 (drop (i + j) (chunk_bytes h d)))"
    using chunk_at_member [OF d(6), of j] by (simp add: q)
  moreover have "take 2 (drop (unat off + j) (payload h frag)) = take 2 (drop (i + j) (chunk_bytes h d))"
    using d ok assms(4) by (simp add: payload_def)
  ultimately have "load h (member p j) 2 = Some (take 2 (drop (unat off + j) (payload h frag)))" by simp
  moreover have "unat off + j + 2 \<le> length (payload h frag)"
    using fits assms(4) layout_lengths [OF lay] by (simp add: hole_fits_def)
  ultimately show ?thesis by (simp add: load16_def get16_take)
qed

lemma hole_store:
  assumes lay: "frag_layout h frag" and fits: "hole_fits frag off" and p: "ipv4FindHole frag off = Some p" and "j \<le> 4"
  obtains h' where "store16 h (member p j) v = Some h'" and "writes_in (frag_blocks frag) h h'" and "frag_layout h' frag"
    and "payload h' frag = blit (payload h frag) (unat off + j) (le16 v)" and "frag_header h' frag = frag_header h frag"
proof -
  from find_hole [OF lay fits] obtain c cs pre d ds i q where
    d: "chunks (frag_buffer frag) = c # cs" "cs = pre @ d # ds" "unat off = chunks_total pre + i" "i + 6 \<le> chunk_length d"
      "ipv4FindHole frag off = Some q" "chunk_at d i = Some q" .
  have q: "q = p" using d(5) p by simp
  have ok: "chunk_ok h c" "chunks_ok h pre" "chunk_ok h d" "chunks_ok h ds"
    using lay d(1,2) by (simp_all add: frag_layout_def nb_ok_def)
  from lay have dist: "block_distinct (c # pre @ d # ds)" by (elim layoutE) (simp add: d)
  have "i + j + length (le16 v) \<le> chunk_length d" using d(4) assms(4) by simp
  from store_chunk [OF ok(3) this] obtain h' where h': "store_bytes h (member p j) (le16 v) = Some h'"
      "writes_in {chunk_block d} h h'" "chunk_bytes h' d = blit (chunk_bytes h d) (i + j) (le16 v)"
    using chunk_at_member [OF d(6), of j] by (auto simp: q)
  have w: "writes_in (frag_blocks frag) h h'" by (rule writes_in_mono [OF h'(2)]) (simp add: d)
  have nd: "chunk_block d \<notin> chunk_blocks pre" "chunk_block d \<notin> chunk_blocks ds" "chunk_block c \<noteq> chunk_block d"
    using dist by (auto simp: block_distinct_def)
  have fr: "chunk_bytes h' c = chunk_bytes h c" "contents h' pre = contents h pre" "contents h' ds = contents h ds"
    using nd by (simp_all add: chunk_bytes_frame [OF h'(2)] contents_frame [OF h'(2)])
  have "payload h' frag = blit (payload h frag) (unat off + j) (le16 v)"
    using d ok fr h'(3) assms(4) by (simp add: payload_def blit_append_right blit_append_left)
  moreover have "frag_header h' frag = frag_header h frag" using fr by (simp add: frag_header_def d)
  ultimately show ?thesis using that h'(1) w lay layout_writes [OF w] by (simp add: store16_def)
qed

end
