(* ===== verification/Ipv4Holes.thy ===== *)
theory Ipv4Holes
  imports Ipv4FragMem
begin

text \<open>
  The list of holes: as a linked list of descriptors in the payload (\<open>chain\<close>), and as the intervals it stands for.
  The loop of \<open>ipv4ReassembleDatagram\<close> takes the arriving data out of the intervals (\<open>punch\<close>).
\<close>

type_synonym hole = "u16 \<times> u16"

subsection \<open>Descriptors in the payload\<close>

definition desc :: "buffer \<Rightarrow> u16 \<Rightarrow> u16 \<times> u16 \<times> u16" where
  "desc P k = (get16 P (unat k), get16 P (unat k + 2), get16 P (unat k + 4))"

text \<open>Only the six bytes at the offsets in \<open>X\<close> have changed.\<close>

definition untouched :: "u16 set \<Rightarrow> buffer \<Rightarrow> buffer \<Rightarrow> bool" where
  "untouched X P P' \<longleftrightarrow> length P' = length P \<and>
     (\<forall>i < length P. (\<forall>x \<in> X. \<not> (unat x \<le> i \<and> i < unat x + 6)) \<longrightarrow> P' ! i = P ! i)"

lemma untouched_refl [simp]: "untouched X P P"
  by (simp add: untouched_def)

lemma untouched_trans: "untouched X P Q \<Longrightarrow> untouched Y Q R \<Longrightarrow> X \<subseteq> Z \<Longrightarrow> Y \<subseteq> Z \<Longrightarrow> untouched Z P R"
  unfolding untouched_def by (metis subsetD)

lemma untouched_blit: "unat k + j + 2 \<le> length P \<Longrightarrow> j \<le> 4 \<Longrightarrow> k \<in> X \<Longrightarrow> untouched X P (blit P (unat k + j) (le16 v))"
  by (fastforce simp: untouched_def nth_blit)

abbreviation aligned :: "u16 \<Rightarrow> bool" where
  "aligned k \<equiv> unat k mod 8 = 0"

lemma aligned_apart: "aligned k \<Longrightarrow> aligned x \<Longrightarrow> x \<noteq> k \<Longrightarrow> unat x + 8 \<le> unat k \<or> unat k + 8 \<le> unat x"
proof -
  assume a: "aligned k" "aligned x" "x \<noteq> k"
  then have "unat x \<noteq> unat k" by (simp add: word_unat_eq_iff)
  with a(1,2) show ?thesis by presburger
qed

lemma desc_same:
  assumes "\<And>j. j < 6 \<Longrightarrow> P' ! (unat k + j) = P ! (unat k + j)"
  shows "desc P' k = desc P k"
  using assms [of 0] assms [of 1] assms [of 2] assms [of 3] assms [of 4] assms [of 5]
  by (simp add: desc_def get16_def numeral_eq_Suc)

lemma desc_untouched:
  assumes "untouched X P P'" and "aligned k" and "unat k + 6 \<le> length P" and "k \<notin> X" and "\<And>x. x \<in> X \<Longrightarrow> aligned x"
  shows "desc P' k = desc P k"
proof -
  have "P' ! (unat k + j) = P ! (unat k + j)" if "j < 6" for j
  proof -
    have "\<not> (unat x \<le> unat k + j \<and> unat k + j < unat x + 6)" if "x \<in> X" for x
      using aligned_apart [OF assms(2) assms(5) [OF that]] that assms(4) \<open>j < 6\<close> by fastforce
    with assms(1,3) that show ?thesis by (simp add: untouched_def)
  qed
  then show ?thesis by (rule desc_same)
qed

lemma get16_blit_same: "i + 2 \<le> length P \<Longrightarrow> get16 (blit P i (le16 v)) i = v"
  by (simp add: get16_def nth_blit le16_def) (rule bit_word_eqI, auto simp: bit_simps)

lemma get16_blit_other: "i + 2 \<le> length P \<Longrightarrow> j + 2 \<le> i \<or> i + 2 \<le> j \<Longrightarrow> get16 (blit P i (le16 v)) j = get16 P j"
  by (auto simp: get16_def nth_blit)

lemma desc_blit:
  assumes "unat k + 6 \<le> length P"
  shows "desc (blit P (unat k + 0) (le16 v)) k = (v, snd (desc P k))"
    and "desc (blit P (unat k + 2) (le16 v)) k = (fst (desc P k), v, snd (snd (desc P k)))"
    and "desc (blit P (unat k + 4) (le16 v)) k = (fst (desc P k), fst (snd (desc P k)), v)"
  using assms get16_blit_same [of "unat k" P v] by (simp_all add: desc_def get16_blit_same get16_blit_other)

subsection \<open>Chains of descriptors\<close>

primrec chain :: "(u16 \<Rightarrow> u16 \<times> u16 \<times> u16) \<Rightarrow> u16 \<Rightarrow> hole list \<Rightarrow> u16 \<Rightarrow> bool" where
  "chain D k [] k' \<longleftrightarrow> k = k'"
| "chain D k (x # hs) k' \<longleftrightarrow> k = fst x \<and> (\<exists>n. D k = (fst x, snd x, n) \<and> chain D n hs k')"

lemma chain_append: "chain D k (xs @ ys) k' \<longleftrightarrow> (\<exists>m. chain D k xs m \<and> chain D m ys k')"
  by (induction xs arbitrary: k) auto

lemma chain_cong: "(\<And>x. x \<in> set hs \<Longrightarrow> D' (fst x) = D (fst x)) \<Longrightarrow> chain D' k hs k' = chain D k hs k'"
proof (induction hs arbitrary: k)
  case (Cons x hs)
  have "D' (fst x) = D (fst x)" using Cons.prems by simp
  moreover have "chain D' n hs k' = chain D n hs k'" for n using Cons by simp
  ultimately show ?case by (cases "k = fst x") simp_all
qed simp

abbreviation starts :: "hole list \<Rightarrow> u16 set" where
  "starts hs \<equiv> fst ` set hs"

definition prev_is :: "Ipv4FragDesc \<Rightarrow> hole list \<Rightarrow> pointer option \<Rightarrow> bool" where
  "prev_is frag pre prevHole \<longleftrightarrow>
     (if pre = [] then prevHole = None else prevHole \<noteq> None \<and> prevHole = ipv4FindHole frag (fst (last pre)))"

text \<open>The holes \<open>pre\<close> are linked, the last one is \<open>prevHole\<close>, and its link holds \<open>k\<close>.\<close>

definition linked :: "heap \<Rightarrow> Ipv4FragDesc \<Rightarrow> hole list \<Rightarrow> pointer option \<Rightarrow> u16 \<Rightarrow> bool" where
  "linked h frag pre prevHole k \<longleftrightarrow> frag_layout h frag \<and> prev_is frag pre prevHole \<and>
     chain (desc (payload h frag)) (frag_firstHole frag) pre k \<and> (\<forall>x \<in> starts pre. hole_fits frag x) \<and> distinct (map fst pre)"

lemma fits_in: "frag_layout h frag \<Longrightarrow> hole_fits frag k \<Longrightarrow> aligned k \<and> unat k + 6 \<le> length (payload h frag)"
  by (simp add: hole_fits_def layout_lengths)

lemma linked_untouched:
  assumes "linked h frag pre prevHole k" and "untouched X (payload h frag) (payload h' frag)" and "X \<inter> starts pre = {}"
    and "\<And>x. x \<in> X \<Longrightarrow> aligned x" and "frag_layout h' frag"
  shows "linked h' frag pre prevHole k"
proof -
  have "desc (payload h' frag) (fst x) = desc (payload h frag) (fst x)" if "x \<in> set pre" for x
    using assms that fits_in [of h frag "fst x"] by (intro desc_untouched [OF assms(2)]) (auto simp: linked_def)
  then have "chain (desc (payload h' frag)) (frag_firstHole frag) pre k = chain (desc (payload h frag)) (frag_firstHole frag) pre k"
    by (rule chain_cong)
  then show ?thesis using assms(1,5) by (simp add: linked_def)
qed

lemma chain_untouched:
  assumes "chain (desc P) k hs k'" and "untouched X P P'" and "X \<inter> starts hs = {}"
    and "\<And>x. x \<in> X \<Longrightarrow> aligned x" and "\<And>x. x \<in> starts hs \<Longrightarrow> aligned x \<and> unat x + 6 \<le> length P"
  shows "chain (desc P') k hs k'"
proof -
  have "desc P' (fst x) = desc P (fst x)" if "x \<in> set hs" for x
    using assms that by (intro desc_untouched [OF assms(2)]) auto
  then show ?thesis using chain_cong [of hs "desc P'" "desc P"] assms(1) by blast
qed

subsection \<open>The links\<close>

lemma linked_last:
  assumes "linked h frag pre prevHole k" and "pre \<noteq> []"
  obtains q f l where "prevHole = Some q" and "ipv4FindHole frag f = Some q" and "f = fst (last pre)" and "hole_fits frag f"
    and "desc (payload h frag) f = (f, l, k)" and "chain (desc (payload h frag)) (frag_firstHole frag) (butlast pre) f"
    and "pre = butlast pre @ [(f, l)]"
proof -
  obtain xs f l where pre: "pre = xs @ [(f, l)]" using assms(2) by (metis append_butlast_last_id prod.exhaust)
  have "prev_is frag pre prevHole" and c: "chain (desc (payload h frag)) (frag_firstHole frag) pre k"
    and f: "hole_fits frag f" using assms(1) by (simp_all add: linked_def pre)
  then obtain q where q: "prevHole = Some q" "ipv4FindHole frag f = Some q" by (auto simp: prev_is_def pre)
  from c have "chain (desc (payload h frag)) (frag_firstHole frag) xs f \<and> desc (payload h frag) f = (f, l, k)"
    by (auto simp: pre chain_append)
  then show ?thesis by (intro that [of q f l]) (simp_all add: q f pre)
qed

lemma get_link_eq: "linked h frag pre prevHole k \<Longrightarrow> get_link frag prevHole h = Some k"
proof (cases "pre = []")
  case False
  assume l: "linked h frag pre prevHole k"
  then have lay: "frag_layout h frag" by (simp add: linked_def)
  from linked_last [OF l False] obtain q f l where "prevHole = Some q" "ipv4FindHole frag f = Some q" "hole_fits frag f"
    "desc (payload h frag) f = (f, l, k)" by metis
  then show ?thesis using hole_load [OF lay, of f q 4] by (simp add: get_link_def desc_def)
qed (simp add: linked_def get_link_def prev_is_def)

lemma linked_same_buffer:
  "same_buffer frag frag' \<Longrightarrow> linked h frag' pre prevHole k \<longleftrightarrow>
     frag_layout h frag \<and> prev_is frag pre prevHole \<and> chain (desc (payload h frag)) (frag_firstHole frag') pre k \<and>
     (\<forall>x \<in> starts pre. hole_fits frag x) \<and> distinct (map fst pre)"
  by (simp add: linked_def same_buffer_eqs prev_is_def hole_fits_def)

text \<open>What a step of the loop leaves alone: the blocks of others, the header, and the bytes outside the descriptors.\<close>

definition hole_frame :: "heap \<Rightarrow> Ipv4FragDesc \<Rightarrow> u16 set \<Rightarrow> heap \<Rightarrow> Ipv4FragDesc \<Rightarrow> bool" where
  "hole_frame h frag X h' frag' \<longleftrightarrow> same_buffer frag frag' \<and> writes_in (frag_blocks frag) h h' \<and> frag_header h' frag = frag_header h frag \<and>
     untouched X (payload h frag) (payload h' frag)"

lemma hole_frame_refl [simp]: "hole_frame h frag X h frag" "hole_frame h frag X h (frag\<lparr>frag_firstHole := k\<rparr>)"
  by (simp_all add: hole_frame_def)

lemma hole_frame_trans:
  assumes "hole_frame h frag X h1 frag1" and "hole_frame h1 frag1 Y h2 frag2" and "X \<subseteq> Z" and "Y \<subseteq> Z"
  shows "hole_frame h frag Z h2 frag2"
  using assms untouched_trans [OF _ _ assms(3,4)] writes_in_trans [of "frag_blocks frag" h h1 "frag_blocks frag" h2]
    same_buffer_eqs [of frag frag1] same_buffer_trans [of frag frag1 frag2]
  by (auto simp: hole_frame_def)

lemma hole_store_frame:
  assumes "frag_layout h frag" and "hole_fits frag off" and "ipv4FindHole frag off = Some p" and "j \<le> 4"
  obtains h' where "store16 h (member p j) v = Some h'" and "hole_frame h frag {off} h' frag" and "frag_layout h' frag"
    and "payload h' frag = blit (payload h frag) (unat off + j) (le16 v)"
proof -
  have "unat off + j + 2 \<le> length (payload h frag)" using fits_in [OF assms(1,2)] assms(4) by linarith
  then have "untouched {off} (payload h frag) (blit (payload h frag) (unat off + j) (le16 v))"
    using assms(4) by (rule untouched_blit) simp
  with hole_store [OF assms, of v] that show ?thesis unfolding hole_frame_def by (metis same_buffer_refl(1))
qed

lemma set_link_eq:
  assumes l: "linked h frag pre prevHole k"
  obtains frag' h' where "set_link frag prevHole v h = Some (frag', h')" and "linked h' frag' pre prevHole v"
    and "hole_frame h frag (starts pre) h' frag'"
proof (cases "pre = []")
  case True
  with l have "frag_layout h frag" "prevHole = None" by (simp_all add: linked_def prev_is_def)
  then show ?thesis using that [of "frag\<lparr>frag_firstHole := v\<rparr>" h] True
    by (simp add: set_link_def linked_same_buffer [OF same_buffer_refl(2)] prev_is_def)
next
  case False
  have lay: "frag_layout h frag" using l by (simp add: linked_def)
  from linked_last [OF l False] obtain q f b where q: "prevHole = Some q" "ipv4FindHole frag f = Some q" "f = fst (last pre)"
    "hole_fits frag f" "desc (payload h frag) f = (f, b, k)"
    "chain (desc (payload h frag)) (frag_firstHole frag) (butlast pre) f" "pre = butlast pre @ [(f, b)]" .
  obtain h' where h': "store16 h (hole_next q) v = Some h'" "hole_frame h frag {f} h' frag" "frag_layout h' frag"
    "payload h' frag = blit (payload h frag) (unat f + 4) (le16 v)"
    using hole_store_frame [OF lay q(4,2), of 4 v] by auto
  have fit: "\<forall>x \<in> starts pre. hole_fits frag x" and dist: "distinct (map fst pre)" using l by (simp_all add: linked_def)
  have df: "desc (payload h' frag) f = (f, b, v)" using h'(4) q(5) desc_blit(3) fits_in [OF lay q(4)] by simp
  have un: "untouched {f} (payload h frag) (payload h' frag)" using h'(2) by (simp add: hole_frame_def)
  have "distinct (map fst (butlast pre @ [(f, b)]))" using dist q(7) by simp
  then have nf: "f \<notin> starts (butlast pre)" by simp
  have sub: "set (butlast pre) \<subseteq> set pre" by (auto dest: in_set_butlastD)
  have "chain (desc (payload h' frag)) (frag_firstHole frag) (butlast pre) f"
  proof (rule chain_untouched [OF q(6) un])
    show "{f} \<inter> starts (butlast pre) = {}" using nf by simp
    show "aligned x" if "x \<in> {f}" for x using that fits_in [OF lay q(4)] by simp
    show "aligned x \<and> unat x + 6 \<le> length (payload h frag)" if "x \<in> starts (butlast pre)" for x
    proof -
      have "x \<in> starts pre" using that sub by (auto simp only: image_iff)
      then show ?thesis by (intro fits_in [OF lay] bspec [OF fit])
    qed
  qed
  with df have "chain (desc (payload h' frag)) (frag_firstHole frag) pre v"
    by (subst q(7)) (simp add: chain_append)
  then have "linked h' frag pre prevHole v" using l h'(3) by (simp add: linked_def)
  moreover have "hole_frame h frag (starts pre) h' frag"
    using h'(2) by (rule hole_frame_trans [OF _ hole_frame_refl(1)]) (use q(3) False in auto)
  ultimately show ?thesis using that h'(1) q(1) by (simp add: set_link_def)
qed

subsection \<open>Inserting a hole\<close>

lemma hole_frame_layout: "hole_frame h frag X h' frag' \<Longrightarrow> frag_layout h frag \<Longrightarrow> frag_layout h' frag'"
  using same_buffer_eqs(1) [of frag frag' h'] layout_writes [of "frag_blocks frag" h h' frag] by (simp add: hole_frame_def)

lemma hole_frame_untouched:
  assumes "hole_frame h frag X h' frag'"
  shows "untouched X (payload h frag) (payload h' frag')" and "length (payload h' frag') = length (payload h frag)"
proof -
  show u: "untouched X (payload h frag) (payload h' frag')"
    using assms same_buffer_eqs(2) [of frag frag' h'] by (simp add: hole_frame_def)
  then show "length (payload h' frag') = length (payload h frag)" by (simp add: untouched_def)
qed

lemma store_desc:
  assumes "frag_layout h frag" and "hole_fits frag off" and "ipv4FindHole frag off = Some p"
  obtains h' where "store16 h (hole_first p) v = Some h'" and "hole_frame h frag {off} h' frag" and "frag_layout h' frag"
    and "desc (payload h' frag) off = (v, snd (desc (payload h frag) off))"
  using hole_store_frame [OF assms, of 0 v] desc_blit(1) [of off "payload h frag" v] fits_in [OF assms(1,2)]
  by (metis add_0_right zero_le)

lemma store_desc_last:
  assumes "frag_layout h frag" and "hole_fits frag off" and "ipv4FindHole frag off = Some p"
  obtains h' where "store16 h (hole_last p) v = Some h'" and "hole_frame h frag {off} h' frag" and "frag_layout h' frag"
    and "desc (payload h' frag) off = (fst (desc (payload h frag) off), v, snd (snd (desc (payload h frag) off)))"
proof -
  have "(2::nat) \<le> 4" by simp
  from hole_store_frame [OF assms this, of v] that desc_blit(2) [of off "payload h frag" v] fits_in [OF assms(1,2)]
  show ?thesis by metis
qed

lemma store_desc_next:
  assumes "frag_layout h frag" and "hole_fits frag off" and "ipv4FindHole frag off = Some p"
  obtains h' where "store16 h (hole_next p) v = Some h'" and "hole_frame h frag {off} h' frag" and "frag_layout h' frag"
    and "desc (payload h' frag) off = (fst (desc (payload h frag) off), fst (snd (desc (payload h frag) off)), v)"
proof -
  have "(4::nat) \<le> 4" by simp
  from hole_store_frame [OF assms this, of v] that desc_blit(3) [of off "payload h frag" v] fits_in [OF assms(1,2)]
  show ?thesis by metis
qed

lemma linked_frame:
  assumes "linked h frag pre prevHole k" and "hole_frame h frag {f} h' frag" and "f \<notin> starts pre" and "aligned f"
  shows "linked h' frag pre prevHole k"
  using linked_untouched [OF assms(1), of "{f}" h'] assms hole_frame_untouched(1) [OF assms(2)] hole_frame_layout [OF assms(2)]
  by (simp add: linked_def)

lemma insert_hole_eq:
  assumes l: "linked h frag pre prevHole k" and fits: "hole_fits frag f" and new: "f \<notin> starts pre"
  obtains frag' p h' where "insert_hole frag prevHole f b h = Some (frag', Some p, h')"
    and "linked h' frag' (pre @ [(f, b)]) (Some p) k" and "hole_frame h frag (insert f (starts pre)) h' frag'"
proof -
  have lay: "frag_layout h frag" using l by (simp add: linked_def)
  have al: "aligned f" using fits by (simp add: hole_fits_def)
  obtain p where p: "ipv4FindHole frag f = Some p" using find_hole_Some [OF lay fits] by blast
  obtain h1 where h1: "store16 h (hole_first p) f = Some h1" "hole_frame h frag {f} h1 frag" "frag_layout h1 frag"
    "desc (payload h1 frag) f = (f, snd (desc (payload h frag) f))" by (rule store_desc [OF lay fits p])
  obtain h2 where h2: "store16 h1 (hole_last p) b = Some h2" "hole_frame h1 frag {f} h2 frag" "frag_layout h2 frag"
    "desc (payload h2 frag) f = (fst (desc (payload h1 frag) f), b, snd (snd (desc (payload h1 frag) f)))"
    by (rule store_desc_last [OF h1(3) fits p])
  obtain h3 where h3: "store16 h2 (hole_next p) k = Some h3" "hole_frame h2 frag {f} h3 frag" "frag_layout h3 frag"
    "desc (payload h3 frag) f = (fst (desc (payload h2 frag) f), fst (snd (desc (payload h2 frag) f)), k)"
    by (rule store_desc_next [OF h2(3) fits p])
  have l2: "linked h2 frag pre prevHole k" by (intro linked_frame [OF _ h2(2) new al] linked_frame [OF l h1(2) new al])
  have l3: "linked h3 frag pre prevHole k" by (rule linked_frame [OF l2 h3(2) new al])
  have d3: "desc (payload h3 frag) f = (f, b, k)" using h1(4) h2(4) h3(4) by simp
  obtain frag' h4 where h4: "set_link frag prevHole f h3 = Some (frag', h4)" "linked h4 frag' pre prevHole f"
    "hole_frame h3 frag (starts pre) h4 frag'" by (rule set_link_eq [OF l3])
  have rd: "load16 h3 (hole_first p) = Some f" using hole_load [OF h3(3) fits p, of 0] d3 by (simp add: desc_def)
  have run: "insert_hole frag prevHole f b h = Some (frag', Some p, h4)"
    using p h1(1) h2(1) h3(1) h4(1) rd get_link_eq [OF l2] by (simp add: insert_hole_def)
  have fr: "hole_frame h frag (insert f (starts pre)) h4 frag'"
    by (rule hole_frame_trans [OF hole_frame_trans [OF hole_frame_trans [OF h1(2) h2(2)] h3(2)] h4(3)]) auto
  have "desc (payload h4 frag') f = desc (payload h3 frag) f"
    by (rule desc_untouched [OF hole_frame_untouched(1) [OF h4(3)] al])
      (use fits_in [OF h3(3) fits] new l in \<open>auto simp: linked_def hole_fits_def\<close>)
  moreover have sb: "same_buffer frag frag'" using fr by (simp add: hole_frame_def)
  ultimately have "linked h4 frag' (pre @ [(f, b)]) (Some p) k"
    using h4(2) d3 p fits new by (auto simp: linked_def chain_append prev_is_def same_buffer_eqs [OF sb] hole_fits_def)
  with run fr that show ?thesis by blast
qed

subsection \<open>Taking data out of the holes\<close>

definition punch1 :: "u16 \<Rightarrow> u16 \<Rightarrow> bool \<Rightarrow> hole \<Rightarrow> hole list" where
  "punch1 a b mf x =
     (if a < snd x \<and> fst x < b
      then (if fst x < a then [(fst x, a)] else []) @ (if b < snd x \<and> mf then [(b, snd x)] else [])
      else [x])"

definition punch :: "u16 \<Rightarrow> u16 \<Rightarrow> bool \<Rightarrow> hole list \<Rightarrow> hole list" where
  "punch a b mf hs = concat (map (punch1 a b mf) hs)"

lemma punch_simps [simp]: "punch a b mf [] = []" "punch a b mf (x # hs) = punch1 a b mf x @ punch a b mf hs"
  by (simp_all add: punch_def)

text \<open>The holes of a datagram of which \<open>n\<close> bytes have been seen: in ascending order, and aligned but for the last end.\<close>

definition hole_ok :: "nat \<Rightarrow> hole \<Rightarrow> bool" where
  "hole_ok n x \<longleftrightarrow> fst x < snd x \<and> aligned (fst x) \<and> unat (fst x) \<le> n \<and> (aligned (snd x) \<or> snd x = IPV4_INFINITY)"

definition holes_ok :: "nat \<Rightarrow> hole list \<Rightarrow> bool" where
  "holes_ok n hs \<longleftrightarrow> (\<forall>x \<in> set hs. hole_ok n x) \<and> sorted_wrt (\<lambda>x y. snd x \<le> fst y) hs"

lemma holes_ok_simps [simp]:
  "holes_ok n []" "holes_ok n (x # hs) \<longleftrightarrow> hole_ok n x \<and> holes_ok n hs \<and> (\<forall>y \<in> set hs. snd x \<le> fst y)"
  by (auto simp: holes_ok_def)

lemma holes_ok_append:
  "holes_ok n (xs @ ys) \<longleftrightarrow> holes_ok n xs \<and> holes_ok n ys \<and> (\<forall>x \<in> set xs. \<forall>y \<in> set ys. snd x \<le> fst y)"
  by (auto simp: holes_ok_def sorted_wrt_append)

lemma holes_ok_distinct: "holes_ok n hs \<Longrightarrow> distinct (map fst hs)"
proof (induction hs)
  case (Cons x hs)
  have "fst x \<noteq> fst y" if "y \<in> set hs" for y using Cons.prems that by (force simp: hole_ok_def)
  with Cons show ?case by auto
qed simp

lemma punch1_ok:
  assumes "hole_ok n x" and "a \<le> b" and "aligned a" and "mf \<longrightarrow> aligned b" and "unat b \<le> n"
  shows "holes_ok n (punch1 a b mf x)" and "\<And>y. y \<in> set (punch1 a b mf x) \<Longrightarrow> fst x \<le> fst y \<and> fst y < snd y \<and> snd y \<le> snd x"
proof -
  have "a < snd x \<Longrightarrow> fst x < a \<Longrightarrow> hole_ok n (fst x, a)" using assms by (simp add: hole_ok_def)
  moreover have "fst x < b \<Longrightarrow> b < snd x \<Longrightarrow> mf \<Longrightarrow> hole_ok n (b, snd x)" using assms by (simp add: hole_ok_def)
  ultimately show "holes_ok n (punch1 a b mf x)" using assms(1,2) by (simp add: punch1_def)
  have "fst x < snd x" using assms(1) by (simp add: hole_ok_def)
  then show "fst x \<le> fst y \<and> fst y < snd y \<and> snd y \<le> snd x" if "y \<in> set (punch1 a b mf x)" for y
    using that assms(2) by (cases "a < snd x \<and> fst x < b"; cases "fst x < a"; cases "b < snd x \<and> mf") (auto simp: punch1_def)
qed

lemma holes_ok_punch1:
  assumes "holes_ok n (pre @ x # hs)" and "a \<le> b" and "aligned a" and "mf \<longrightarrow> aligned b" and "unat b \<le> n"
  shows "holes_ok n (pre @ punch1 a b mf x @ hs)"
proof -
  have "hole_ok n x" using assms(1) by (simp add: holes_ok_append)
  note p = punch1_ok [OF this assms(2-5)]
  show ?thesis using assms(1) p(1) by (fastforce simp: holes_ok_append dest: p(2) intro: order_trans)
qed

text \<open>Where descriptors may lie.\<close>

definition hole_starts :: "nat \<Rightarrow> hole list \<Rightarrow> u16 set" where
  "hole_starts n hs = {k. aligned k \<and> unat k \<le> n \<and> (\<exists>y \<in> set hs. fst y \<le> k \<and> k < snd y)}"

lemma starts_hole_starts: "holes_ok n hs \<Longrightarrow> starts hs \<subseteq> hole_starts n hs"
  by (force simp: holes_ok_def hole_ok_def hole_starts_def)

lemma hole_starts_punch1:
  assumes "hole_ok n x" and "a \<le> b" and "aligned a" and "mf \<longrightarrow> aligned b" and "unat b \<le> n"
  shows "hole_starts n (pre @ punch1 a b mf x @ hs) \<subseteq> hole_starts n (pre @ x # hs)"
  using punch1_ok(2) [OF assms] by (fastforce simp: hole_starts_def)

subsection \<open>The loop\<close>

lemma hole_step_eq:
  assumes l: "linked h frag pre prevHole f" and d: "desc (payload h frag) f = (f, b', n)" and ok: "holes_ok (frag_dataLen frag) (pre @ (f, b') # hs)"
    and ab: "a \<le> b" "aligned a" "mf \<longrightarrow> aligned b" "unat b \<le> frag_dataLen frag"
  obtains frag' q p h' where "ipv4FindHole frag f = Some p" and "hole_step a b mf frag prevHole p h = Some (frag', q, h')"
    and "linked h' frag' (pre @ punch1 a b mf (f, b')) q n"
    and "hole_frame h frag (starts (pre @ punch1 a b mf (f, b'))) h' frag'"
proof -
  let ?x = "(f, b')"
  have lay: "frag_layout h frag" using l by (simp add: linked_def)
  have fits: "hole_fits frag k" if "hole_ok (frag_dataLen frag) (k, m)" for k m using that by (simp add: hole_fits_def hole_ok_def)
  have okx: "hole_ok (frag_dataLen frag) ?x" using ok by (simp add: holes_ok_append)
  note ff = fits [OF okx]
  obtain p where p: "ipv4FindHole frag f = Some p" using find_hole_Some [OF lay ff] by blast
  have rd: "load16 h (hole_first p) = Some f" "load16 h (hole_last p) = Some b'" "load16 h (hole_next p) = Some n"
    using hole_load [OF lay ff p, of 0] hole_load [OF lay ff p, of 2] hole_load [OF lay ff p, of 4] d by (simp_all add: desc_def)
  have new: "f \<notin> starts pre" using holes_ok_distinct [OF ok] by auto
  show ?thesis
  proof (cases "a < b' \<and> f < b")
    case False
    then have step: "hole_step a b mf frag prevHole p h = Some (frag, Some p, h)" using rd by (auto simp: hole_step_def)
    have "linked h frag (pre @ [?x]) (Some p) n" using l d p ff new by (simp add: linked_def chain_append prev_is_def)
    moreover have "punch1 a b mf ?x = [?x]" using False by (auto simp: punch1_def)
    ultimately show ?thesis using that [OF p step] by simp
  next
    case True
    obtain frag1 h1 where s1: "set_link frag prevHole n h = Some (frag1, h1)" "linked h1 frag1 pre prevHole n"
      "hole_frame h frag (starts pre) h1 frag1" by (rule set_link_eq [OF l])
    have sb1: "same_buffer frag frag1" using s1(3) by (simp add: hole_frame_def)
    define xs where "xs = (if f < a then [(f, a)] else [])"
    have "\<exists>frag2 q2 h2. (if a > f then insert_hole frag1 prevHole f a h1 else Some (frag1, prevHole, h1)) = Some (frag2, q2, h2) \<and>
        linked h2 frag2 (pre @ xs) q2 n \<and> hole_frame h frag (starts (pre @ xs)) h2 frag2"
    proof (cases "f < a")
      case True
      have "hole_fits frag1 f" using ff by (simp add: hole_fits_def same_buffer_eqs [OF sb1])
      from insert_hole_eq [OF s1(2) this new] obtain frag2 q h2 where
        i: "insert_hole frag1 prevHole f a h1 = Some (frag2, Some q, h2)" "linked h2 frag2 (pre @ [(f, a)]) (Some q) n"
          "hole_frame h1 frag1 (insert f (starts pre)) h2 frag2" by blast
      have "hole_frame h frag (starts (pre @ xs)) h2 frag2" by (rule hole_frame_trans [OF s1(3) i(3)]) (use True in \<open>auto simp: xs_def\<close>)
      with i True show ?thesis by (simp add: xs_def)
    qed (use s1 in \<open>simp add: xs_def\<close>)
    then obtain frag2 q2 h2 where s2:
      "(if a > f then insert_hole frag1 prevHole f a h1 else Some (frag1, prevHole, h1)) = Some (frag2, q2, h2)"
      "linked h2 frag2 (pre @ xs) q2 n" "hole_frame h frag (starts (pre @ xs)) h2 frag2" by blast
    have sb2: "same_buffer frag frag2" using s2(3) by (simp add: hole_frame_def)
    show ?thesis
    proof (cases "b < b' \<and> mf")
      case False
      then have "punch1 a b mf ?x = xs" using True by (auto simp: punch1_def xs_def)
      moreover have "hole_step a b mf frag prevHole p h = Some (frag2, q2, h2)"
        using rd True False s1(1) s2(1) by (auto simp: hole_step_def)
      ultimately show ?thesis using that [OF p] s2 by simp
    next
      case more: True
      then have pun: "punch1 a b mf ?x = xs @ [(b, b')]" using True by (auto simp: punch1_def xs_def)
      have ok2: "holes_ok (frag_dataLen frag) (pre @ (xs @ [(b, b')]) @ hs)"
        using holes_ok_punch1 [OF ok ab] by (simp add: pun)
      then have "hole_ok (frag_dataLen frag) (b, b')" by (simp add: holes_ok_append)
      then have fb: "hole_fits frag2 b" using fits by (simp add: hole_fits_def same_buffer_eqs [OF sb2])
      have nb: "b \<notin> starts (pre @ xs)" using holes_ok_distinct [OF ok2] by auto
      from insert_hole_eq [OF s2(2) fb nb] obtain frag3 q h3 where
        i: "insert_hole frag2 q2 b b' h2 = Some (frag3, Some q, h3)" "linked h3 frag3 ((pre @ xs) @ [(b, b')]) (Some q) n"
          "hole_frame h2 frag2 (insert b (starts (pre @ xs))) h3 frag3" by blast
      have "hole_frame h frag (starts (pre @ punch1 a b mf ?x)) h3 frag3"
        by (rule hole_frame_trans [OF s2(3) i(3)]) (auto simp: pun)
      moreover have "hole_step a b mf frag prevHole p h = Some (frag3, Some q, h3)"
        using rd True more s1(1) s2(1) i(1) by (auto simp: hole_step_def)
      ultimately show ?thesis using that [OF p] i(2) by (simp add: pun)
    qed
  qed
qed

lemma hole_loop_eq:
  assumes "linked h frag pre prevHole k" and "chain (desc (payload h frag)) k hs IPV4_INFINITY"
    and "holes_ok (frag_dataLen frag) (pre @ hs)" and ab: "a \<le> b" "aligned a" "mf \<longrightarrow> aligned b" "unat b \<le> frag_dataLen frag"
  shows "\<exists>frag' h' q. hole_loop a b mf frag prevHole (ipv4FindHole frag k) h = Some (frag', h') \<and>
    linked h' frag' (pre @ punch a b mf hs) q IPV4_INFINITY \<and> holes_ok (frag_dataLen frag) (pre @ punch a b mf hs) \<and>
    hole_frame h frag (hole_starts (frag_dataLen frag) (pre @ hs)) h' frag'"
  using assms
proof (induction hs arbitrary: h frag pre prevHole k)
  case Nil
  then have "k = IPV4_INFINITY" "frag_layout h frag" by (simp_all add: linked_def)
  then have "ipv4FindHole frag k = None" using find_hole_None by simp
  then have "hole_loop a b mf frag prevHole (ipv4FindHole frag k) h = Some (frag, h)" by (simp add: hole_loop.simps)
  with Nil show ?case by (intro exI [of _ frag] exI [of _ h] exI [of _ prevHole]) simp
next
  case (Cons x hs)
  obtain f b' where x: "x = (f, b')" by fastforce
  from Cons.prems(2) obtain n where k: "k = f" and d: "desc (payload h frag) f = (f, b', n)"
    and ch: "chain (desc (payload h frag)) n hs IPV4_INFINITY" by (auto simp: x)
  have l: "linked h frag pre prevHole f" using Cons.prems(1) k by simp
  have ok: "holes_ok (frag_dataLen frag) (pre @ (f, b') # hs)" using Cons.prems(3) x by simp
  from hole_step_eq [OF l d ok Cons.prems(4-7)] obtain frag1 q p h1 where
    s: "ipv4FindHole frag f = Some p" "hole_step a b mf frag prevHole p h = Some (frag1, q, h1)"
      "linked h1 frag1 (pre @ punch1 a b mf (f, b')) q n" "hole_frame h frag (starts (pre @ punch1 a b mf (f, b'))) h1 frag1" .
  have ok1: "holes_ok (frag_dataLen frag) ((pre @ punch1 a b mf (f, b')) @ hs)"
    using holes_ok_punch1 [OF ok Cons.prems(4-7)] by simp
  have sb: "same_buffer frag frag1" using s(4) by (simp add: hole_frame_def)
  note eqs = same_buffer_eqs [OF sb]
  have lay: "frag_layout h frag" using l by (simp add: linked_def)
  have oks: "\<forall>y \<in> set ((pre @ punch1 a b mf (f, b')) @ hs). aligned (fst y) \<and> unat (fst y) \<le> frag_dataLen frag"
    using ok1 by (simp add: holes_ok_def hole_ok_def)
  have "chain (desc (payload h1 frag1)) n hs IPV4_INFINITY"
  proof (rule chain_untouched [OF ch hole_frame_untouched(1) [OF s(4)]])
    show "starts (pre @ punch1 a b mf (f, b')) \<inter> starts hs = {}" using holes_ok_distinct [OF ok1] by auto
    show "aligned y" if "y \<in> starts (pre @ punch1 a b mf (f, b'))" for y using that oks by auto
    show "aligned y \<and> unat y + 6 \<le> length (payload h frag)" if "y \<in> starts hs" for y
      using that oks layout_lengths(2) [OF lay] by auto
  qed
  from Cons.IH [OF s(3) this] ok1 Cons.prems(4-7) eqs(6) obtain frag' h' q' where
    r: "hole_loop a b mf frag1 q (ipv4FindHole frag1 n) h1 = Some (frag', h')"
      "linked h' frag' ((pre @ punch1 a b mf (f, b')) @ punch a b mf hs) q' IPV4_INFINITY"
      "holes_ok (frag_dataLen frag) ((pre @ punch1 a b mf (f, b')) @ punch a b mf hs)"
      "hole_frame h1 frag1 (hole_starts (frag_dataLen frag) ((pre @ punch1 a b mf (f, b')) @ hs)) h' frag'" by auto
  have "hole_loop a b mf frag prevHole (ipv4FindHole frag k) h = Some (frag', h')"
    using s(1,2) r(1) get_link_eq [OF s(3)] k by (subst hole_loop.simps) simp
  moreover have "hole_frame h frag (hole_starts (frag_dataLen frag) (pre @ x # hs)) h' frag'"
  proof (rule hole_frame_trans [OF s(4) r(4)])
    have okx: "hole_ok (frag_dataLen frag) (f, b')" using ok by (simp add: holes_ok_append)
    show sub: "hole_starts (frag_dataLen frag) ((pre @ punch1 a b mf (f, b')) @ hs) \<subseteq> hole_starts (frag_dataLen frag) (pre @ x # hs)"
      using hole_starts_punch1 [OF okx Cons.prems(4-7)] by (simp add: x)
    show "starts (pre @ punch1 a b mf (f, b')) \<subseteq> hole_starts (frag_dataLen frag) (pre @ x # hs)"
      using starts_hole_starts [OF ok1] sub by auto
  qed
  ultimately show ?case using r(2,3) by (auto simp: x)
qed

end
