(* ===== verification/Ipv4FragStep.thy ===== *)
theory Ipv4FragStep
  imports Ipv4Holes
begin

text \<open>
  The steps of the reassembly on an entry of the queue: each keeps the layout and the holes, or drops the datagram,
  and touches nobody else's memory.
\<close>

subsection \<open>Entries\<close>

definition frag_holes :: "heap \<Rightarrow> Ipv4FragDesc \<Rightarrow> hole list \<Rightarrow> bool" where
  "frag_holes h frag hs \<longleftrightarrow> frag_layout h frag \<and> holes_ok (frag_dataLen frag) hs \<and>
     chain (desc (payload h frag)) (frag_firstHole frag) hs IPV4_INFINITY"

definition frag_inv :: "heap \<Rightarrow> Ipv4FragDesc \<Rightarrow> bool" where
  "frag_inv h frag \<longleftrightarrow> (if frag_in_use frag then \<exists>hs. frag_holes h frag hs else chunks (frag_buffer frag) = [])"

text \<open>A step changes only the blocks of its entry, and the entry holds on to every block it has allocated.\<close>

definition entry_step :: "'w sys \<Rightarrow> Ipv4FragDesc \<Rightarrow> 'w sys \<Rightarrow> Ipv4FragDesc \<Rightarrow> bool" where
  "entry_step s frag s' frag' \<longleftrightarrow> heap_ok (mem s') \<and> frag_blocks frag' \<subseteq> live (mem s') \<and>
     live (mem s') - frag_blocks frag' = live (mem s) - frag_blocks frag \<and>
     (\<forall>x \<in> live (mem s) - frag_blocks frag. blocks (mem s') x = blocks (mem s) x)"

lemma entry_step_trans: "entry_step s frag s1 frag1 \<Longrightarrow> entry_step s1 frag1 s2 frag2 \<Longrightarrow> entry_step s frag s2 frag2"
  by (simp add: entry_step_def)

lemma entry_step_refl: "heap_ok (mem s) \<Longrightarrow> frag_blocks frag \<subseteq> live (mem s) \<Longrightarrow> entry_step s frag s frag"
  by (simp add: entry_step_def)

lemma writes_in_live: "writes_in B h h' \<Longrightarrow> live h' = live h"
proof -
  assume "writes_in B h h'"
  then have "map_option length (blocks h' b) = map_option length (blocks h b)" for b by (simp add: writes_in_def)
  then have "blocks h' b = None \<longleftrightarrow> blocks h b = None" for b by (metis option.map_disc_iff)
  then show ?thesis by (simp add: live_def)
qed

lemma writes_in_heap_ok: "writes_in B h h' \<Longrightarrow> heap_ok h' = heap_ok h"
proof -
  assume w: "writes_in B h h'"
  have "heap_ok g \<longleftrightarrow> (\<forall>b \<in> live g. b < fresh_block g)" for g by (auto simp: heap_ok_def live_def)
  with writes_in_live [OF w] w show ?thesis by (simp add: writes_in_def)
qed

lemma entry_step_writes:
  assumes "writes_in (frag_blocks frag) (mem s) h" and "heap_ok (mem s)" and "frag_blocks frag \<subseteq> live (mem s)"
    and "frag_blocks frag' = frag_blocks frag"
  shows "entry_step s frag (s\<lparr>mem := h\<rparr>) frag'" and "entry_step s frag \<lparr>mem = h, world = w\<rparr> frag'"
  using assms writes_in_live [OF assms(1)] writes_in_heap_ok [OF assms(1)] by (auto simp: entry_step_def writes_in_def)

lemma layout_all_owned:
  assumes "frag_layout h frag"
  shows "owning (chunks (frag_buffer frag)) = chunks (frag_buffer frag)" and "frag_blocks frag \<subseteq> live h"
proof -
  from assms show o: "owning (chunks (frag_buffer frag)) = chunks (frag_buffer frag)"
    by (elim layoutE) (simp add: full_chunks_def owning_def)
  have "owners_ok h (chunks (frag_buffer frag))" using assms by (simp add: frag_layout_def nb_ok_def)
  from owner_live [OF this] o show "frag_blocks frag \<subseteq> live h" by simp
qed

text \<open>The entry whose datagram has been dropped.\<close>

definition emptied :: "Ipv4FragDesc \<Rightarrow> Ipv4FragDesc" where
  "emptied frag = frag\<lparr>frag_buffer := (frag_buffer frag)\<lparr>chunks := []\<rparr>\<rparr>"

lemma emptied_simps [simp]: "\<not> frag_in_use (emptied frag)" "frag_blocks (emptied frag) = {}" "frag_inv h (emptied frag)"
  by (simp_all add: emptied_def frag_in_use_def frag_inv_def)

lemma freed_live: "live (freed B h) = live h - B"
  by (auto simp: live_def freed_def)

lemma drop_frag_eq:
  assumes "owners_ok (mem s) (chunks (frag_buffer frag))" and "owning (chunks (frag_buffer frag)) = chunks (frag_buffer frag)"
    and "heap_ok (mem s)"
  shows "drop_frag ops frag s = Some (emptied frag, s\<lparr>mem := freed (frag_blocks frag) (mem s)\<rparr>)"
    and "entry_step s frag (s\<lparr>mem := freed (frag_blocks frag) (mem s)\<rparr>) (emptied frag)"
proof -
  show "drop_frag ops frag s = Some (emptied frag, s\<lparr>mem := freed (frag_blocks frag) (mem s)\<rparr>)"
    using set_length_zero [OF assms(1)] assms(2) by (simp add: drop_frag_def emptied_def)
  show "entry_step s frag (s\<lparr>mem := freed (frag_blocks frag) (mem s)\<rparr>) (emptied frag)"
    using assms(3) by (auto simp: entry_step_def freed_live heap_ok_def) (auto simp: freed_def split: if_splits)
qed

lemma layout_drop:
  assumes "frag_layout (mem s) frag" and "heap_ok (mem s)"
  shows "\<exists>s'. drop_frag ops frag s = Some (emptied frag, s') \<and> entry_step s frag s' (emptied frag) \<and> world s' = world s"
  using drop_frag_eq [OF _ layout_all_owned(1) [OF assms(1)] assms(2)] assms(1)
  by (auto simp: frag_layout_def nb_ok_def)

subsection \<open>Resizing\<close>

lemma full_chunks_append:
  "ds \<noteq> [] \<Longrightarrow> full_chunks (cs @ ds) \<longleftrightarrow>
     full_chunks ds \<and> (\<forall>c \<in> set cs. chunk_size c = 1536 \<and> chunk_length c = 1536)"
  by (auto simp: full_chunks_def butlast_append)

lemma adjust_full:
  assumes "full_chunks cs" and "chunks_total cs < len"
  shows "adjust_chunks cs len = (butlast cs @ [last cs\<lparr>chunk_length := min (len - chunks_total (butlast cs)) 1536\<rparr>],
    len - chunks_total (butlast cs) - min (len - chunks_total (butlast cs)) 1536, [])"
  using assms
proof (induction cs arbitrary: len)
  case (Cons c cs)
  show ?case
  proof (cases "cs = []")
    case True
    with Cons.prems show ?thesis by (auto simp: full_chunks_def)
  next
    case False
    with Cons.prems have "full_chunks cs" "chunks_total cs < len - chunk_length c" by (auto simp: full_chunks_Cons)
    from Cons.IH [OF this] False Cons.prems show ?thesis by (auto simp: Let_def)
  qed
qed (simp add: full_chunks_def)

text \<open>Chunks added to the buffer: the ones before them have been filled up.\<close>

lemma grow_full:
  assumes "alloc_ok alloc" and "heap_ok (mem s)" and "full_chunks cs" and "chunks_total cs < len"
    and b: "chunks b = c # cs" "chunk_size c = 1536"
    and run: "netBufferSetLength alloc b (chunk_length c + len) s = Some (NO_ERROR, b', s')"
  shows "\<exists>cs'. chunks b' = c # cs' \<and> full_chunks cs'"
proof -
  define l where "l = min (len - chunks_total (butlast cs)) 1536"
  define kept where "kept = butlast cs @ [last cs\<lparr>chunk_length := l\<rparr>]"
  define left where "left = len - chunks_total (butlast cs) - l"
  have ne: "cs \<noteq> []" using assms(3) by (simp add: full_chunks_def)
  have "\<not> chunk_length c + len \<le> chunk_length c" using assms(4) by simp
  then have adj: "adjust_chunks (chunks b) (chunk_length c + len) = (c # kept, left, [])"
    using adjust_full [OF assms(3,4)] ne b by (simp add: Let_def l_def kept_def left_def)
  have kept: "full_chunks kept" unfolding kept_def
    using assms(3) ne by (subst full_chunks_append) (auto simp: full_chunks_def dest: in_set_butlastD)
  show ?thesis
  proof (cases "left = 0")
    case True
    with run adj have "b' = b\<lparr>chunks := c # kept\<rparr>" by (simp add: netBufferSetLength_def)
    with kept show ?thesis by auto
  next
    case False
    then have l: "l = 1536" unfolding left_def l_def by linarith
    obtain e1 cs1 s1 where g: "grow_chunks alloc (maxChunkCount b - length (c # kept)) (c # kept) left s = (e1, cs1, s1)"
      by (metis prod_cases3)
    with run adj False have r: "b' = b\<lparr>chunks := cs1\<rparr>" "e1 = NO_ERROR" by (auto simp: netBufferSetLength_def)
    from grow_chunks_ok [OF assms(1) g assms(2)] r(2) obtain new where
      n: "cs1 = (c # kept) @ new" "\<forall>c \<in> set new. chunk_size c = 1536" "\<forall>c \<in> set (butlast new). chunk_length c = 1536"
        "chunks_total new = left" by auto
    have "new \<noteq> []" using n(4) False by auto
    moreover have "\<forall>c \<in> set kept. chunk_size c = 1536 \<and> chunk_length c = 1536"
      using assms(3) ne l by (auto simp: kept_def full_chunks_def dest: in_set_butlastD)
    ultimately have "full_chunks (kept @ new)" using n(2,3) by (subst full_chunks_append) (simp_all add: full_chunks_def)
    with n(1) r(1) show ?thesis by simp
  qed
qed

lemma holes_ok_mono: "holes_ok n hs \<Longrightarrow> n \<le> m \<Longrightarrow> holes_ok m hs"
  by (auto simp: holes_ok_def hole_ok_def intro: order_trans)

lemma get16_prefix: "take n P' = P \<Longrightarrow> length P = n \<Longrightarrow> i + 2 \<le> n \<Longrightarrow> get16 P' i = get16 P i"
  by (auto simp: get16_def)

lemma chain_prefix:
  assumes "chain (desc P) k hs k'" and "take (n + 6) P' = P" and "length P = n + 6" and "\<forall>x \<in> set hs. unat (fst x) \<le> n"
  shows "chain (desc P') k hs k'"
proof -
  have "desc P' (fst x) = desc P (fst x)" if "x \<in> set hs" for x
  proof -
    have "unat (fst x) \<le> n" using assms(4) that by simp
    then show ?thesis by (simp add: desc_def get16_prefix [OF assms(2,3)])
  qed
  then show ?thesis using chain_cong [of hs "desc P'" "desc P"] assms(1) by blast
qed

lemma setLength_grows:
  assumes "alloc_ok alloc" and "heap_ok (mem s)" and lay: "frag_layout (mem s) frag" and n: "frag_dataLen frag < n"
    and "frag_headerLength frag + n \<le> 8192"
  shows "\<exists>e b s'. netBufferSetLength alloc (frag_buffer frag) (frag_headerLength frag + n + 6) s = Some (e, b, s') \<and>
    entry_step s frag s' (frag\<lparr>frag_buffer := b\<rparr>) \<and> owners_ok (mem s') (chunks b) \<and> owning (chunks b) = chunks b \<and>
    (e = NO_ERROR \<longrightarrow> frag_layout (mem s') (frag\<lparr>frag_buffer := b, frag_dataLen := n\<rparr>) \<and>
      take (frag_dataLen frag + 6) (payload (mem s') (frag\<lparr>frag_buffer := b\<rparr>)) = payload (mem s) frag \<and>
      frag_header (mem s') (frag\<lparr>frag_buffer := b\<rparr>) = frag_header (mem s) frag)"
proof -
  let ?len = "frag_headerLength frag + n + 6" let ?b = "frag_buffer frag"
  from lay obtain c cs where c: "chunks ?b = c # cs" "chunk_size c = 1536" "full_chunks cs" "chunk_length c = frag_headerLength frag"
      "chunks_total cs = frag_dataLen frag + 6" "chunk_ok (mem s) c" "chunks_ok (mem s) cs"
      "frag_header (mem s) frag = chunk_bytes (mem s) c" "payload (mem s) frag = contents (mem s) cs" by (rule layoutE) blast
  have nb: "nb_ok (mem s) ?b" and max: "maxChunkCount ?b = 7" using lay by (simp_all add: frag_layout_def)
  note own = layout_all_owned [OF lay]
  have less: "chunks_total (chunks ?b) < ?len" using c n by simp
  obtain e b s' where run: "netBufferSetLength alloc ?b ?len s = Some (e, b, s')"
  proof -
    from adjust_grow [of "mem s" "chunks ?b" ?len] nb less obtain kept where
      "adjust_chunks (chunks ?b) ?len = (kept, ?len - chunks_total kept, [])" by (auto simp: nb_ok_def)
    moreover obtain e1 cs1 s1 where
      "grow_chunks alloc (maxChunkCount ?b - length kept) kept (?len - chunks_total kept) s = (e1, cs1, s1)"
      by (metis prod_cases3)
    ultimately have "\<exists>r. netBufferSetLength alloc ?b ?len s = Some r" by (auto simp: netBufferSetLength_def)
    then show ?thesis using that by (metis prod_cases3)
  qed
  from set_length_grow [OF assms(1,2) nb less run own(2)] have g: "heap_ok (mem s')" "nb_ok (mem s') b" "maxChunkCount b = 7"
      "take (chunks_total (chunks ?b)) (contents (mem s') (chunks b)) = contents (mem s) (chunks ?b)"
      "\<forall>x \<in> live (mem s). blocks (mem s') x = blocks (mem s) x" "live (mem s) \<subseteq> live (mem s')"
      "owned_blocks (chunks b) - owned_blocks (chunks ?b) = live (mem s') - live (mem s)"
      "owned_blocks (chunks ?b) \<subseteq> owned_blocks (chunks b)" "e = NO_ERROR \<longrightarrow> chunks_total (chunks b) = ?len"
    using max by (auto split: if_splits)
  have ow: "owners_ok (mem s') (chunks b)" using g(2) by (simp add: nb_ok_def)
  have all: "owning (chunks b) = chunks b"
  proof -
    from adjust_grow [of "mem s" "chunks ?b" ?len] nb less obtain kept where k:
      "adjust_chunks (chunks ?b) ?len = (kept, ?len - chunks_total kept, [])" "list_all2 same_chunk (chunks ?b) kept"
      by (auto simp: nb_ok_def)
    have kept: "owning kept = kept"
    proof -
      have "\<forall>x \<in> set kept. chunk_size x > 0"
      proof
        fix x assume "x \<in> set kept"
        then obtain y where "y \<in> set (chunks ?b)" "same_chunk y x"
          using k(2) by (metis in_set_conv_nth list_all2_conv_all_nth)
        then show "chunk_size x > 0" using c(1-3) by (auto simp: same_chunk_def full_chunks_def)
      qed
      then show ?thesis by (simp add: owning_def)
    qed
    show ?thesis
    proof (cases "?len - chunks_total kept = 0")
      case True
      then show ?thesis using run k(1) kept by (auto simp: netBufferSetLength_def)
    next
      case False
      obtain e1 cs1 s1 where gr: "grow_chunks alloc (maxChunkCount ?b - length kept) kept (?len - chunks_total kept) s = (e1, cs1, s1)"
        by (metis prod_cases3)
      from grow_chunks_ok [OF assms(1) gr assms(2)] obtain new where "cs1 = kept @ new" "owning new = new" by blast
      then show ?thesis using run k(1) kept False gr by (auto simp: netBufferSetLength_def)
    qed
  qed
  have es: "entry_step s frag s' (frag\<lparr>frag_buffer := b\<rparr>)"
    using g(1,5,6,7,8) own owner_live [OF ow] by (auto simp: entry_step_def all)
  have "frag_layout (mem s') (frag\<lparr>frag_buffer := b, frag_dataLen := n\<rparr>) \<and>
      take (frag_dataLen frag + 6) (payload (mem s') (frag\<lparr>frag_buffer := b\<rparr>)) = payload (mem s) frag \<and>
      frag_header (mem s') (frag\<lparr>frag_buffer := b\<rparr>) = frag_header (mem s) frag" if e: "e = NO_ERROR"
  proof -
    have "netBufferSetLength alloc ?b (chunk_length c + (n + 6)) s = Some (NO_ERROR, b, s')"
      using run e c(4) by (simp add: add.assoc)
    from grow_full [OF assms(1,2) c(3) _ c(1,2) this] c(5) n obtain cs' where cs': "chunks b = c # cs'" "full_chunks cs'" by auto
    have ok': "chunk_ok (mem s') c" "chunks_ok (mem s') cs'" using g(2) cs'(1) by (simp_all add: nb_ok_def)
    have "take (chunk_length c + (frag_dataLen frag + 6)) (chunk_bytes (mem s') c @ contents (mem s') cs') =
        chunk_bytes (mem s) c @ contents (mem s) cs" using g(4) cs'(1) c by simp
    then have eq: "chunk_bytes (mem s') c @ take (frag_dataLen frag + 6) (contents (mem s') cs') = chunk_bytes (mem s) c @ contents (mem s) cs"
      using ok'(1) by simp
    then have "chunk_bytes (mem s') c = chunk_bytes (mem s) c" "take (frag_dataLen frag + 6) (contents (mem s') cs') = contents (mem s) cs"
      using ok'(1) c(6) by simp_all
    moreover have "chunks_total cs' = n + 6" using g(9) e cs'(1) c(4) by simp
    ultimately show ?thesis using g(2,3) cs' c lay assms(5) by (simp add: frag_layout_def payload_def frag_header_def)
  qed
  with run es ow all show ?thesis by blast
qed

lemma enlarge_frag_layout:
  assumes "alloc_ok (ipAlloc ops)" and "heap_ok (mem s)" and lay: "frag_layout (mem s) frag"
  obtains go frag' s' where "enlarge_frag ops b frag s = Some (go, frag', s')" and "entry_step s frag s' frag'"
    and "go \<longrightarrow> frag_layout (mem s') frag' \<and> frag_firstHole frag' = frag_firstHole frag \<and> frag_dataLen frag' = max (frag_dataLen frag) (unat b) \<and>
      frag_headerLength frag' = frag_headerLength frag \<and> frag_header (mem s') frag' = frag_header (mem s) frag \<and>
      take (frag_dataLen frag + 6) (payload (mem s') frag') = payload (mem s) frag"
    and "\<not> go \<longrightarrow> \<not> frag_in_use frag' \<and> frag_inv (mem s') frag'"
proof (cases "frag_dataLen frag < unat b")
  case False
  have "entry_step s frag s frag" using layout_all_owned(2) [OF lay] assms(2) by (rule entry_step_refl [rotated])
  moreover have "take (frag_dataLen frag + 6) (payload (mem s) frag) = payload (mem s) frag"
    using layout_lengths(2) [OF lay] by simp
  ultimately show ?thesis using that [of True frag s] False lay by (simp add: enlarge_frag_def max_def)
next
  case True
  show ?thesis
  proof (cases "frag_headerLength frag + unat b > 8192")
    case too: True
    from layout_drop [OF lay assms(2), of ops] obtain s' where
      d: "drop_frag ops frag s = Some (emptied frag, s')" "entry_step s frag s' (emptied frag)" by blast
    show ?thesis by (rule that [of False "emptied frag" s']) (use d True too in \<open>simp_all add: enlarge_frag_def\<close>)
  next
    case False
    then have le: "frag_headerLength frag + unat b \<le> 8192" by simp
    from setLength_grows [OF assms(1,2) lay True le] obtain e buf s1 where
      run: "netBufferSetLength (ipAlloc ops) (frag_buffer frag) (frag_headerLength frag + unat b + 6) s = Some (e, buf, s1)"
      and es: "entry_step s frag s1 (frag\<lparr>frag_buffer := buf\<rparr>)" and ow: "owners_ok (mem s1) (chunks buf)" "owning (chunks buf) = chunks buf"
      and ok': "e = NO_ERROR \<longrightarrow> frag_layout (mem s1) (frag\<lparr>frag_buffer := buf, frag_dataLen := unat b\<rparr>) \<and>
        take (frag_dataLen frag + 6) (payload (mem s1) (frag\<lparr>frag_buffer := buf\<rparr>)) = payload (mem s) frag \<and>
        frag_header (mem s1) (frag\<lparr>frag_buffer := buf\<rparr>) = frag_header (mem s) frag" by blast
    have pay: "payload h (frag\<lparr>frag_buffer := buf, frag_dataLen := n\<rparr>) = payload h (frag\<lparr>frag_buffer := buf\<rparr>)"
      "frag_header h (frag\<lparr>frag_buffer := buf, frag_dataLen := n\<rparr>) = frag_header h (frag\<lparr>frag_buffer := buf\<rparr>)" for h n
      by (simp_all add: payload_def frag_header_def)
    show ?thesis
    proof (cases "e = NO_ERROR")
      case e: True
      let ?f = "frag\<lparr>frag_buffer := buf, frag_dataLen := unat b\<rparr>"
      have "entry_step s frag s1 ?f" using es by (simp add: entry_step_def)
      then show ?thesis using that [of True ?f s1] run e True False ok' pay
        by (simp add: enlarge_frag_def)
    next
      case e: False
      let ?f = "frag\<lparr>frag_buffer := buf\<rparr>"
      have hp: "heap_ok (mem s1)" using es by (simp add: entry_step_def)
      note d = drop_frag_eq [of s1 ?f, OF _ _ hp]
      show ?thesis
        by (rule that [of False "emptied ?f" "s1\<lparr>mem := freed (frag_blocks ?f) (mem s1)\<rparr>"])
          (use run e True False d ow entry_step_trans [OF es] in \<open>simp_all add: enlarge_frag_def\<close>)
    qed
  qed
qed

lemma enlarge_frag_eq:
  assumes alloc: "alloc_ok (ipAlloc ops)" and hp: "heap_ok (mem s)" and inv: "frag_holes (mem s) frag hs"
  obtains go frag' s' where "enlarge_frag ops b frag s = Some (go, frag', s')" and "entry_step s frag s' frag'"
    and "go \<longrightarrow> frag_holes (mem s') frag' hs \<and> frag_dataLen frag' = max (frag_dataLen frag) (unat b) \<and>
      frag_headerLength frag' = frag_headerLength frag \<and> frag_header (mem s') frag' = frag_header (mem s) frag \<and>
      take (frag_dataLen frag + 6) (payload (mem s') frag') = payload (mem s) frag"
    and "\<not> go \<longrightarrow> \<not> frag_in_use frag' \<and> frag_inv (mem s') frag'"
proof -
  have lay: "frag_layout (mem s) frag" and ok: "holes_ok (frag_dataLen frag) hs"
    and ch: "chain (desc (payload (mem s) frag)) (frag_firstHole frag) hs IPV4_INFINITY" using inv by (simp_all add: frag_holes_def)
  obtain go frag' s' where e: "enlarge_frag ops b frag s = Some (go, frag', s')" "entry_step s frag s' frag'"
    "go \<longrightarrow> frag_layout (mem s') frag' \<and> frag_firstHole frag' = frag_firstHole frag \<and> frag_dataLen frag' = max (frag_dataLen frag) (unat b) \<and>
      frag_headerLength frag' = frag_headerLength frag \<and> frag_header (mem s') frag' = frag_header (mem s) frag \<and>
      take (frag_dataLen frag + 6) (payload (mem s') frag') = payload (mem s) frag"
    "\<not> go \<longrightarrow> \<not> frag_in_use frag' \<and> frag_inv (mem s') frag'"
    by (rule enlarge_frag_layout [OF alloc hp lay])
  have "frag_holes (mem s') frag' hs" if go
  proof -
    have "\<forall>x \<in> set hs. unat (fst x) \<le> frag_dataLen frag" using ok by (simp add: holes_ok_def hole_ok_def)
    from chain_prefix [OF ch _ layout_lengths(2) [OF lay] this, of "payload (mem s') frag'"]
    show ?thesis using e(3) that holes_ok_mono [OF ok, of "frag_dataLen frag'"] by (simp add: frag_holes_def)
  qed
  then show thesis using that [OF e(1,2)] e(3,4) by blast
qed

end
