(* ===== verification/Ipv4FragAdd.thy ===== *)
theory Ipv4FragAdd
  imports Ipv4FragStep
begin

text \<open>
  The arrival of a fragment at its entry: the header of a first fragment, the data, a new entry, and the delivery of a
  complete datagram.
\<close>

subsection \<open>Packets\<close>

definition packet_at :: "heap \<Rightarrow> pointer \<Rightarrow> buffer \<Rightarrow> bool" where
  "packet_at h p bytes \<longleftrightarrow> load h p (length bytes) = Some bytes"

lemma packet_load: "packet_at h p bytes \<Longrightarrow> i + n \<le> length bytes \<Longrightarrow> load h (member p i) n = Some (take n (drop i bytes))"
proof -
  assume p: "packet_at h p bytes" and le: "i + n \<le> length bytes"
  from p obtain d where d: "blocks h (fst p) = Some d" "snd p + length bytes \<le> length d"
    and b: "take (length bytes) (drop (snd p) d) = bytes"
    by (auto simp: packet_at_def load_def rds_def bind_eq_Some_conv split: if_splits)
  have "take n (drop i bytes) = take n (drop i (take (length bytes) (drop (snd p) d)))" using b by simp
  also have "\<dots> = take n (drop (snd p + i) d)" using le by (simp add: drop_take add.commute)
  finally show ?thesis using d le by (simp add: load_def rds_def member_def)
qed

lemma member_0 [simp]: "member p 0 = p"
  by (simp add: member_def)

lemma packet_members:
  assumes "packet_at h p bytes"
  shows "i < length bytes \<Longrightarrow> load8 h (member p i) = Some (bytes ! i)"
    and "i + 2 \<le> length bytes \<Longrightarrow> load16 h (member p i) = Some (get16 bytes i)"
    and "i + 4 \<le> length bytes \<Longrightarrow> load32 h (member p i) = Some (get_le32 bytes i)"
  using packet_load [OF assms, of i 1] packet_load [OF assms, of i 2] packet_load [OF assms, of i 4]
  by (simp_all add: load8_def load16_def load32_def get16_def get_le32_def)

lemma packet_at_frame: "packet_at h p bytes \<Longrightarrow> blocks h' (fst p) = blocks h (fst p) \<Longrightarrow> packet_at h' p bytes"
  by (simp add: packet_at_def load_def)

text \<open>The length of the header a packet announces, and packets long enough for their header.\<close>

definition header_len :: "buffer \<Rightarrow> nat" where
  "header_len bytes = unat (bytes ! 0 AND 0x0F) * 4"

definition ip_packet :: "buffer \<Rightarrow> bool" where
  "ip_packet bytes \<longleftrightarrow> 20 \<le> header_len bytes \<and> header_len bytes \<le> length bytes"

lemma header_len_le: "header_len bytes \<le> 60"
proof -
  have "bytes ! 0 AND 0x0F \<le> (0x0F :: u8)" by (rule word_and_le1)
  then have "unat (bytes ! 0 AND 0x0F) \<le> 15" by (simp add: word_le_nat_alt)
  then show ?thesis by (simp add: header_len_def)
qed

lemma packet_headerLength:
  "packet_at h p bytes \<Longrightarrow> ip_packet bytes \<Longrightarrow> \<exists>hl. load_headerLength h p = Some hl \<and> hl * 4 = header_len bytes"
  using packet_members(1) [of h p bytes 0] by (cases "bytes = []") (auto simp: load_headerLength_def ip_packet_def header_len_def)

subsection \<open>Writing into the buffer\<close>

lemma frag_write:
  assumes lay: "frag_layout h frag" and "off + length vs \<le> frag_headerLength frag + frag_dataLen frag + 6"
  obtains n h' where "netBufferWrite (frag_buffer frag) off vs h = Some (n, h')" and "writes_in (frag_blocks frag) h h'"
    and "frag_layout h' frag" and "frag_header h' frag @ payload h' frag = blit (frag_header h frag @ payload h frag) off vs"
proof -
  from lay obtain c cs where c: "chunks (frag_buffer frag) = c # cs" "block_distinct (c # cs)"
      "chunk_length c = frag_headerLength frag" "chunks_total cs = frag_dataLen frag + 6" "chunk_ok h c" "chunks_ok h cs"
    by (elim layoutE)
  have ok: "chunks_ok h (chunks (frag_buffer frag))" "block_distinct (chunks (frag_buffer frag))" using c by simp_all
  from write_chunks_eq [OF ok, of off vs] obtain h' where
    w: "write_chunks (chunks (frag_buffer frag)) off vs h = Some (min (length vs) (chunks_total (chunks (frag_buffer frag)) - off), h')"
      "writes_in (frag_blocks frag) h h'"
      "contents h' (chunks (frag_buffer frag)) = blit (contents h (chunks (frag_buffer frag))) off (take (chunks_total (chunks (frag_buffer frag)) - off) vs)"
    by blast
  have "take (chunks_total (chunks (frag_buffer frag)) - off) vs = vs" using assms(2) c by simp
  moreover have lay': "frag_layout h' frag" using lay layout_writes [OF w(2)] by simp
  ultimately show ?thesis using that w lay layout_contents by (simp add: netBufferWrite_def)
qed

lemma frag_write_payload:
  assumes lay: "frag_layout h frag" and "a + length vs \<le> frag_dataLen frag + 6"
  obtains n h' where "netBufferWrite (frag_buffer frag) (frag_headerLength frag + a) vs h = Some (n, h')"
    and "writes_in (frag_blocks frag) h h'" and "frag_layout h' frag" and "frag_header h' frag = frag_header h frag"
    and "payload h' frag = blit (payload h frag) a vs"
proof -
  from assms(2) have "frag_headerLength frag + a + length vs \<le> frag_headerLength frag + frag_dataLen frag + 6" by simp
  from frag_write [OF lay this] obtain n h' where w:
    "netBufferWrite (frag_buffer frag) (frag_headerLength frag + a) vs h = Some (n, h')" "writes_in (frag_blocks frag) h h'"
    "frag_layout h' frag" and eq: "frag_header h' frag @ payload h' frag =
      blit (frag_header h frag @ payload h frag) (frag_headerLength frag + a) vs" by blast
  have "blit (frag_header h frag @ payload h frag) (frag_headerLength frag + a) vs = frag_header h frag @ blit (payload h frag) a vs"
    using layout_lengths(1) [OF lay] by (simp add: blit_append_right)
  with eq layout_lengths(1) [OF lay] layout_lengths(1) [OF w(3)] that [OF w] show ?thesis by simp
qed

lemma frag_write_header:
  assumes lay: "frag_layout h frag" and "length vs = frag_headerLength frag"
  obtains n h' where "netBufferWrite (frag_buffer frag) 0 vs h = Some (n, h')"
    and "writes_in (frag_blocks frag) h h'" and "frag_layout h' frag" and "frag_header h' frag = vs"
    and "payload h' frag = payload h frag"
proof -
  from assms(2) have "0 + length vs \<le> frag_headerLength frag + frag_dataLen frag + 6" by simp
  from frag_write [OF lay this] obtain n h' where w: "netBufferWrite (frag_buffer frag) 0 vs h = Some (n, h')"
    "writes_in (frag_blocks frag) h h'" "frag_layout h' frag"
    and eq: "frag_header h' frag @ payload h' frag = blit (frag_header h frag @ payload h frag) 0 vs" by blast
  have "blit (frag_header h frag @ payload h frag) 0 vs = vs @ payload h frag"
    using layout_lengths(1) [OF lay] assms(2) by (simp add: blit_def)
  with eq assms(2) layout_lengths(1) [OF w(3)] that [OF w] show ?thesis by simp
qed

text \<open>A header of another length.\<close>

lemma set_first_chunk_eq:
  assumes nb: "nb_ok h b" and c: "chunks b = c # cs" "chunk_size c = 1536" and "n \<le> 60"
  defines "b' \<equiv> b\<lparr>chunks := c\<lparr>chunk_length := n\<rparr> # cs\<rparr>"
  shows "set_first_chunk_length n b = Some b'" and "nb_ok h b'" and "chunk_blocks (chunks b') = chunk_blocks (chunks b)"
proof -
  let ?c = "c\<lparr>chunk_length := n\<rparr>"
  have ok: "chunk_ok h c" "chunks_ok h cs" "owners_ok h cs" "block_owner h c" "chunk_block c \<notin> owned_blocks cs" "alias_free (c # cs)"
    using c nb by (auto simp: nb_ok_def)
  have "block_owner h ?c" "chunk_block ?c = chunk_block c" using ok(4) by (simp_all add: block_owner_def chunk_block_def)
  moreover have "chunk_ok h ?c" using ok(4) c(2) assms(4) by (auto simp: block_owner_def chunk_ok_def)
  moreover have "alias_free (?c # cs)" using ok(6) c(2) by (auto simp: alias_free_def chunk_block_def split: if_splits)
  ultimately show "nb_ok h b'" "chunk_blocks (chunks b') = chunk_blocks (chunks b)" using ok c by (simp_all add: nb_ok_def b'_def)
  show "set_first_chunk_length n b = Some b'" using c(1) assms(4) by (simp add: set_first_chunk_length_def b'_def)
qed

lemma set_header_length:
  assumes lay: "frag_layout h frag" and "20 \<le> n" and "n \<le> 60" and "n + frag_dataLen frag \<le> 8192"
  obtains b where "set_first_chunk_length n (frag_buffer frag) = Some b"
    and "frag_layout h (frag\<lparr>frag_headerLength := n, frag_buffer := b\<rparr>)"
    and "payload h (frag\<lparr>frag_headerLength := n, frag_buffer := b\<rparr>) = payload h frag"
    and "chunk_blocks (chunks b) = frag_blocks frag"
proof -
  from lay obtain c cs where c: "chunks (frag_buffer frag) = c # cs" "chunk_size c = 1536" "full_chunks cs"
      "chunks_total cs = frag_dataLen frag + 6" "payload h frag = contents h cs" by (elim layoutE)
  have nb: "nb_ok h (frag_buffer frag)" using lay by (simp add: frag_layout_def)
  note e = set_first_chunk_eq [OF nb c(1,2) assms(3)]
  show ?thesis by (rule that [OF e(1)]) (use e lay assms c in \<open>simp_all add: frag_layout_def payload_def\<close>)
qed

lemma frag_holes_cong:
  assumes "frag_holes h frag hs" and "frag_layout h' frag'" and "frag_dataLen frag' = frag_dataLen frag"
    and "payload h' frag' = payload h frag" and "frag_firstHole frag' = frag_firstHole frag"
  shows "frag_holes h' frag' hs"
  using assms by (simp add: frag_holes_def)

lemma first_fragment_layout:
  assumes hp: "heap_ok (mem s)" and lay: "frag_layout (mem s) frag"
    and pk: "packet_at (mem s) packet bytes" "ip_packet bytes"
  obtains go frag' s' where "first_fragment ops packet frag s = Some (go, frag', s')" and "entry_step s frag s' frag'"
    and "go \<longrightarrow> frag_layout (mem s') frag' \<and> frag_firstHole frag' = frag_firstHole frag \<and> frag_dataLen frag' = frag_dataLen frag \<and>
      frag_header (mem s') frag' = take (header_len bytes) bytes \<and> payload (mem s') frag' = payload (mem s) frag"
    and "\<not> go \<longrightarrow> \<not> frag_in_use frag' \<and> frag_inv (mem s') frag'"
    and "header_len bytes + frag_dataLen frag \<le> 8192 \<longrightarrow> go" and "world s' = world s"
proof -
  obtain hl where hl: "load_headerLength (mem s) packet = Some hl" "hl * 4 = header_len bytes"
    using packet_headerLength [OF pk] by blast
  have n: "20 \<le> header_len bytes" "header_len bytes \<le> 60" using pk(2) header_len_le by (auto simp: ip_packet_def)
  show ?thesis
  proof (cases "header_len bytes + frag_dataLen frag > 8192")
    case True
    let ?f = "frag\<lparr>frag_headerLength := header_len bytes\<rparr>"
    have "owners_ok (mem s) (chunks (frag_buffer ?f))" "owning (chunks (frag_buffer ?f)) = chunks (frag_buffer ?f)"
      using lay layout_all_owned(1) [OF lay] by (simp_all add: frag_layout_def nb_ok_def)
    note d = drop_frag_eq [OF this hp]
    show ?thesis
      by (rule that [of False "emptied ?f" "s\<lparr>mem := freed (frag_blocks ?f) (mem s)\<rparr>"])
        (use d True hl in \<open>simp_all add: first_fragment_def entry_step_def\<close>)
  next
    case False
    then have le: "header_len bytes + frag_dataLen frag \<le> 8192" by simp
    obtain b where b: "set_first_chunk_length (header_len bytes) (frag_buffer frag) = Some b"
      "frag_layout (mem s) (frag\<lparr>frag_headerLength := header_len bytes, frag_buffer := b\<rparr>)"
      "payload (mem s) (frag\<lparr>frag_headerLength := header_len bytes, frag_buffer := b\<rparr>) = payload (mem s) frag"
      "chunk_blocks (chunks b) = frag_blocks frag" by (rule set_header_length [OF lay n le])
    let ?f = "frag\<lparr>frag_headerLength := header_len bytes, frag_buffer := b\<rparr>"
    have "length (take (header_len bytes) bytes) = frag_headerLength ?f" using pk(2) by (simp add: ip_packet_def)
    from frag_write_header [OF b(2) this] obtain m h' where
      w: "netBufferWrite (frag_buffer ?f) 0 (take (header_len bytes) bytes) (mem s) = Some (m, h')" "writes_in (frag_blocks ?f) (mem s) h'"
        "frag_layout h' ?f" "frag_header h' ?f = take (header_len bytes) bytes" "payload h' ?f = payload (mem s) ?f" .
    have ld: "load (mem s) packet (header_len bytes) = Some (take (header_len bytes) bytes)"
      using packet_load [OF pk(1), of 0 "header_len bytes"] pk(2) by (simp add: ip_packet_def)
    obtain c cs where c: "chunks (frag_buffer frag) = c # cs" "chunk_size c = 1536" using lay by (elim layoutE)
    have run: "first_fragment ops packet frag s = Some (True, ?f, s\<lparr>mem := h'\<rparr>)"
      using hl b(1) w(1) ld c n False by (simp add: first_fragment_def)
    have "writes_in (frag_blocks frag) (mem s) h'" using w(2) b(4) by simp
    then have "entry_step s frag (s\<lparr>mem := h'\<rparr>) ?f"
      using hp layout_all_owned(2) [OF lay] b(4) by (intro entry_step_writes(1)) simp_all
    then show ?thesis using that [OF run] w b(3) by simp
  qed
qed

lemma first_fragment_eq:
  assumes hp: "heap_ok (mem s)" and inv: "frag_holes (mem s) frag hs"
    and pk: "packet_at (mem s) packet bytes" "ip_packet bytes"
  obtains go frag' s' where "first_fragment ops packet frag s = Some (go, frag', s')" and "entry_step s frag s' frag'"
    and "go \<longrightarrow> frag_holes (mem s') frag' hs \<and> frag_dataLen frag' = frag_dataLen frag \<and>
      frag_header (mem s') frag' = take (header_len bytes) bytes \<and> payload (mem s') frag' = payload (mem s) frag"
    and "\<not> go \<longrightarrow> \<not> frag_in_use frag' \<and> frag_inv (mem s') frag'"
    and "header_len bytes + frag_dataLen frag \<le> 8192 \<longrightarrow> go" and "world s' = world s"
proof -
  have lay: "frag_layout (mem s) frag" using inv by (simp add: frag_holes_def)
  obtain go frag' s' where f: "first_fragment ops packet frag s = Some (go, frag', s')" "entry_step s frag s' frag'"
    "go \<longrightarrow> frag_layout (mem s') frag' \<and> frag_firstHole frag' = frag_firstHole frag \<and> frag_dataLen frag' = frag_dataLen frag \<and>
      frag_header (mem s') frag' = take (header_len bytes) bytes \<and> payload (mem s') frag' = payload (mem s) frag"
    "\<not> go \<longrightarrow> \<not> frag_in_use frag' \<and> frag_inv (mem s') frag'"
    "header_len bytes + frag_dataLen frag \<le> 8192 \<longrightarrow> go" "world s' = world s"
    by (rule first_fragment_layout [OF hp lay pk])
  show thesis by (rule that [OF f(1,2) _ f(4,5,6)]) (use f(3) frag_holes_cong [OF inv] in blast)
qed

subsection \<open>A new entry\<close>

lemma grow_succeeds:
  assumes "\<And>w. fst (alloc 1536 w) \<noteq> None" and "len \<le> room * 1536"
  shows "\<exists>cs' s'. grow_chunks alloc room cs len s = (NO_ERROR, cs', s')"
  using assms(2)
proof (induction room arbitrary: cs len s)
  case (Suc room)
  obtain d w where "alloc 1536 (world s) = (Some d, w)" using assms(1) [of "world s"] by (cases "alloc 1536 (world s)") auto
  then obtain p s1 where "memPoolAlloc alloc 1536 s = (Some p, s1)" by (auto simp: memPoolAlloc_def)
  with Suc show ?case by (auto simp: Let_def)
qed simp

lemma two_chunks:
  assumes "chunks_total new = 1542" and "\<forall>c \<in> set new. chunk_length c \<le> 1536" and "\<forall>c \<in> set (butlast new). chunk_length c = 1536"
  shows "\<exists>c d. new = [c, d] \<and> chunk_length d = 6"
proof (cases new)
  case (Cons c ds)
  with assms show ?thesis
  proof (cases ds)
    case (Cons d es)
    with assms \<open>new = c # ds\<close> show ?thesis by (cases es) auto
  qed simp
qed (use assms in simp)

definition allocs :: "'w ip_ops \<Rightarrow> bool" where
  "allocs ops \<longleftrightarrow> (\<forall>w. fst (ipAlloc ops 1536 w) \<noteq> None)"

lemma new_frag_eq:
  assumes alloc: "alloc_ok (ipAlloc ops)" and hp: "heap_ok (mem s)" and free: "chunks (frag_buffer frag) = []"
    and pk: "packet_at (mem s) packet bytes" "ip_packet bytes" "fst packet \<in> live (mem s)"
  obtains go frag' s' where "new_frag ops packet frag s = Some (go, frag', s')" and "entry_step s frag s' frag'"
    and "go \<longrightarrow> frag_holes (mem s') frag' [(0, IPV4_INFINITY)] \<and> frag_dataLen frag' = 0 \<and>
      frag_header (mem s') frag' = take (header_len bytes) bytes"
    and "\<not> go \<longrightarrow> \<not> frag_in_use frag' \<and> frag_inv (mem s') frag'" and "allocs ops \<longrightarrow> go"
proof -
  let ?b0 = "(frag_buffer frag)\<lparr>maxChunkCount := 7\<rparr>"
  obtain e cs s1 where g: "grow_chunks (ipAlloc ops) 7 [] 1542 s = (e, cs, s1)" by (metis prod_cases3)
  let ?b1 = "?b0\<lparr>chunks := cs\<rparr>"
  have sl: "netBufferSetLength (ipAlloc ops) ?b0 1542 s = Some (e, ?b1, s1)" using g free by (simp add: netBufferSetLength_def)
  from grow_chunks_ok [OF alloc g hp] have n: "heap_ok (mem s1)" "chunks_ok (mem s1) cs" "owners_ok (mem s1) cs"
      "live (mem s1) = live (mem s) \<union> chunk_blocks cs" "chunk_blocks cs \<inter> live (mem s) = {}"
      "\<forall>b \<in> live (mem s). blocks (mem s1) b = blocks (mem s) b" "owning cs = cs" "\<forall>c \<in> set cs. chunk_size c = 1536"
      "\<forall>c \<in> set (butlast cs). chunk_length c = 1536" "e = NO_ERROR \<longrightarrow> chunks_total cs = 1542" by (auto split: if_splits)
  have es1: "entry_step s frag s1 f" if "frag_blocks f = chunk_blocks cs" for f
    using n that free by (auto simp: entry_step_def)
  have good: "e = NO_ERROR" if "allocs ops"
    using grow_succeeds [of "ipAlloc ops" 1542 7 "[]" s] that g by (auto simp: allocs_def)
  show ?thesis
  proof (cases "e = NO_ERROR")
    case False
    let ?f = "frag\<lparr>frag_buffer := ?b1\<rparr>"
    have "owners_ok (mem s1) (chunks (frag_buffer ?f))" "owning (chunks (frag_buffer ?f)) = chunks (frag_buffer ?f)" using n(3,7) by simp_all
    note d = drop_frag_eq [OF this n(1)]
    have "frag_blocks ?f = chunk_blocks cs" by simp
    from entry_step_trans [OF es1 [OF this] d(2)]
    show ?thesis by (rule that [of False "emptied ?f", rotated]) (use sl False d(1) good in \<open>auto simp: new_frag_def\<close>)
  next
    case e: True
    have "\<forall>c \<in> set cs. chunk_length c \<le> 1536"
    proof
      fix c assume c: "c \<in> set cs"
      then have "block_owner (mem s1) c" "chunk_ok (mem s1) c" using n(2,3,7,8) by (auto simp: owners_ok_def chunks_ok_def)
      then show "chunk_length c \<le> 1536" using c n(8) by (auto simp: block_owner_def chunk_ok_def)
    qed
    from two_chunks [OF _ this n(9)] n(10) e obtain c d where cd: "cs = [c, d]" "chunk_length d = 6" by auto
    obtain hl where hl: "load_headerLength (mem s1) packet = Some hl" "hl * 4 = header_len bytes"
      using packet_headerLength [OF packet_at_frame [OF pk(1)] pk(2), of "mem s1"] n(6) pk(3) by auto
    have len: "20 \<le> header_len bytes" "header_len bytes \<le> 60" using pk(2) header_len_le by (auto simp: ip_packet_def)
    have nb: "nb_ok (mem s1) ?b1" using n(2,3,7,8) by (auto simp: nb_ok_def alias_free_def)
    have ch: "chunks ?b1 = c # [d]" "chunk_size c = 1536" using cd n(8) by simp_all
    define b2 where "b2 = ?b1\<lparr>chunks := [c\<lparr>chunk_length := header_len bytes\<rparr>, d]\<rparr>"
    note fc = set_first_chunk_eq [OF nb ch len(2), folded b2_def]
    define f2 where "f2 = frag\<lparr>frag_headerLength := header_len bytes, frag_dataLen := 0, frag_buffer := b2\<rparr>"
    have lay: "frag_layout (mem s1) f2"
      using fc(2) len cd n(8) by (simp add: frag_layout_def f2_def b2_def full_chunks_def)
    have bl: "frag_blocks f2 = chunk_blocks cs" using fc(3) by (simp add: f2_def)
    have "length (take (header_len bytes) bytes) = frag_headerLength f2" using pk(2) by (simp add: ip_packet_def f2_def)
    from frag_write_header [OF lay this] obtain m h1 where
      w: "netBufferWrite (frag_buffer f2) 0 (take (header_len bytes) bytes) (mem s1) = Some (m, h1)" "writes_in (frag_blocks f2) (mem s1) h1"
        "frag_layout h1 f2" "frag_header h1 f2 = take (header_len bytes) bytes" "payload h1 f2 = payload (mem s1) f2" .
    obtain t wd where t: "ipTime ops (world s1) = (t, wd)" by fastforce
    define f3 where "f3 = f2\<lparr>frag_timestamp := t, frag_firstHole := 0\<rparr>"
    have sb: "same_buffer f2 f3" by (simp add: f3_def same_buffer_def)
    have lay3: "frag_layout h1 f3" using w(3) same_buffer_eqs(1) [OF sb] by simp
    have fits: "hole_fits f3 0" by (simp add: hole_fits_def)
    obtain p where p: "ipv4FindHole f3 0 = Some p" using find_hole_Some [OF lay3 fits] by blast
    obtain h2 where h2: "store16 h1 (hole_first p) 0 = Some h2" "hole_frame h1 f3 {0} h2 f3" "frag_layout h2 f3"
      "desc (payload h2 f3) 0 = (0, snd (desc (payload h1 f3) 0))" by (rule store_desc [OF lay3 fits p])
    obtain h3 where h3: "store16 h2 (hole_last p) IPV4_INFINITY = Some h3" "hole_frame h2 f3 {0} h3 f3" "frag_layout h3 f3"
      "desc (payload h3 f3) 0 = (fst (desc (payload h2 f3) 0), IPV4_INFINITY, snd (snd (desc (payload h2 f3) 0)))"
      by (rule store_desc_last [OF h2(3) fits p])
    obtain h4 where h4: "store16 h3 (hole_next p) IPV4_INFINITY = Some h4" "hole_frame h3 f3 {0} h4 f3" "frag_layout h4 f3"
      "desc (payload h4 f3) 0 = (fst (desc (payload h3 f3) 0), fst (snd (desc (payload h3 f3) 0)), IPV4_INFINITY)"
      by (rule store_desc_next [OF h3(3) fits p])
    have ld: "load (mem s1) packet (header_len bytes) = Some (take (header_len bytes) bytes)"
      using packet_load [OF packet_at_frame [OF pk(1), of "mem s1"], of 0 "header_len bytes"] pk(2,3) n(6) by (simp add: ip_packet_def)
    have run: "new_frag ops packet frag s = Some (True, f3, \<lparr>mem = h4, world = wd\<rparr>)"
      using sl e hl ld fc(1) w(1) t p h2(1) h3(1) h4(1) by (simp add: new_frag_def f3_def f2_def b2_def Let_def)
    have fr: "hole_frame h1 f3 {0} h4 f3"
      by (rule hole_frame_trans [OF hole_frame_trans [OF h2(2) h3(2)] h4(2)]) auto
    then have "writes_in (frag_blocks f3) (mem s1) h4" "frag_header h4 f3 = frag_header h1 f3"
      using w(2) writes_in_trans [OF w(2), of "frag_blocks f3" h4 "frag_blocks f3"] same_buffer_eqs(5) [OF sb] by (simp_all add: hole_frame_def)
    moreover have blf: "frag_blocks f3 = chunk_blocks cs" using bl same_buffer_eqs(5) [OF sb] by simp
    ultimately have "entry_step s1 f3 \<lparr>mem = h4, world = wd\<rparr> f3" and hd: "frag_header h4 f3 = take (header_len bytes) bytes"
      using n(1,4) w(4) same_buffer_eqs(3) [OF sb] by (auto intro!: entry_step_writes(2))
    then have es: "entry_step s frag \<lparr>mem = h4, world = wd\<rparr> f3" using entry_step_trans [OF es1] blf by blast
    have "frag_holes h4 f3 [(0, IPV4_INFINITY)]"
      using h4(3,4) h3(4) h2(4) by (simp add: frag_holes_def hole_ok_def f3_def f2_def)
    with run es hd show ?thesis using that [OF run es] by (simp add: f3_def f2_def)
  qed
qed

end
