(* ===== verification/Ipv4Deliver.thy ===== *)
theory Ipv4Deliver
  imports Ipv4FragAdd
begin

text \<open>
  What a datagram does when it reaches the IP layer whole: \<open>ipv4ProcessDatagram\<close> as a function of its bytes, and the
  delivery of a reassembled one.
\<close>

definition ip_deliver :: "'w ip_ops \<Rightarrow> nat \<Rightarrow> buffer \<Rightarrow> 'w \<Rightarrow> 'w" where
  "ip_deliver ops interface bytes w =
     (let offset = header_len bytes; srcAddr = get_le32 bytes 12;
          ph = \<lparr>ph_srcAddr = srcAddr, ph_destAddr = get_le32 bytes 16, ph_protocol = bytes ! 9,
            ph_length = word_of_nat (size_sub (length bytes) offset)\<rparr>
      in if bytes ! 9 = IPV4_PROTOCOL_ICMP then icmpInput ops interface srcAddr bytes offset w
         else if bytes ! 9 = IPV4_PROTOCOL_TCP then tcpInput ops interface ph bytes offset w
         else if bytes ! 9 = IPV4_PROTOCOL_UDP then
           (case udpInput ops interface ph bytes offset w of (error, w) \<Rightarrow>
              if error = ERROR_PROTOCOL_UNREACHABLE
              then icmpError ops interface ICMP_TYPE_DEST_UNREACHABLE ICMP_CODE_PROTOCOL_UNREACHABLE bytes w
              else if error = ERROR_PORT_UNREACHABLE
              then icmpError ops interface ICMP_TYPE_DEST_UNREACHABLE ICMP_CODE_PORT_UNREACHABLE bytes w
              else w)
         else icmpError ops interface ICMP_TYPE_DEST_UNREACHABLE ICMP_CODE_PROTOCOL_UNREACHABLE bytes w)"

lemma chunk_packet:
  assumes "chunk_ok h c"
  obtains p where "chunk_at c 0 = Some p" and "packet_at h p (chunk_bytes h c)" and "fst p = chunk_block c"
  using load_chunk [OF assms, of 0 "chunk_length c"] assms by (auto simp: packet_at_def)

lemma contents_members:
  assumes "chunks_ok h (c # cs)" and "chunk_length c \<ge> 20"
  obtains p where "chunk_at c 0 = Some p" and "load8 h p = Some (contents h (c # cs) ! 0)"
    and "load8 h (ip_protocol p) = Some (contents h (c # cs) ! 9)"
    and "load32 h (ip_srcAddr p) = Some (get_le32 (contents h (c # cs)) 12)"
    and "load32 h (ip_destAddr p) = Some (get_le32 (contents h (c # cs)) 16)"
proof -
  have ok: "chunk_ok h c" using assms(1) by simp
  obtain p where p: "chunk_at c 0 = Some p" "packet_at h p (chunk_bytes h c)" by (rule chunk_packet [OF ok])
  have n: "contents h (c # cs) ! i = chunk_bytes h c ! i" if "i < 20" for i
    using assms(2) ok that by (simp add: nth_append)
  note m = packet_members [OF p(2)]
  show ?thesis
    by (rule that [OF p(1)]) (use m(1) [of 0] m(1) [of 9] m(3) [of 12] m(3) [of 16] assms(2) ok in \<open>simp_all add: n get_le32_def del: contents_simps\<close>)
qed

lemma ipv4ProcessDatagram_eq:
  assumes ok: "chunks_ok (mem s) (chunks b)" and c: "chunks b = c # cs" "20 \<le> chunk_length c"
  shows "ipv4ProcessDatagram ops interface b s =
    Some (s\<lparr>world := ip_deliver ops interface (contents (mem s) (chunks b)) (world s)\<rparr>)"
proof -
  have ok': "chunks_ok (mem s) (c # cs)" using ok c(1) by simp
  obtain p where p: "chunk_at c 0 = Some p" "load8 (mem s) p = Some (contents (mem s) (c # cs) ! 0)"
    "load8 (mem s) (ip_protocol p) = Some (contents (mem s) (c # cs) ! 9)"
    "load32 (mem s) (ip_srcAddr p) = Some (get_le32 (contents (mem s) (c # cs)) 12)"
    "load32 (mem s) (ip_destAddr p) = Some (get_le32 (contents (mem s) (c # cs)) 16)"
    by (rule contents_members [OF ok' c(2)])
  have at: "netBufferAt b 0 = Some p" using c p(1) by (simp add: netBufferAt_def)
  have len: "netBufferGetLength b = length (contents (mem s) (chunks b))" using ok by (simp add: netBufferGetLength_eq)
  have rd: "netBufferRead b 0 (netBufferGetLength b) (mem s) = Some (contents (mem s) (chunks b))"
    using read_chunks_eq [OF ok] ok by (simp add: netBufferRead_def netBufferGetLength_eq)
  show ?thesis
    unfolding ipv4ProcessDatagram_def ip_deliver_def header_len_def load_headerLength_def
    using p at rd by (simp add: Let_def c(1) [symmetric] len split: prod.split)
qed

subsection \<open>The delivery of a reassembled datagram\<close>

text \<open>Cutting the buffer of an entry back.\<close>

lemma frag_shrink:
  assumes hp: "heap_ok (mem s)" and lay: "frag_layout (mem s) frag" and le: "n \<le> frag_headerLength frag + frag_dataLen frag + 6"
  obtains kept F where "netBufferSetLength (ipAlloc ops) (frag_buffer frag) n s =
      Some (NO_ERROR, (frag_buffer frag)\<lparr>chunks := kept\<rparr>, s\<lparr>mem := freed F (mem s)\<rparr>)"
    and "F \<subseteq> frag_blocks frag" and "nb_ok (freed F (mem s)) ((frag_buffer frag)\<lparr>chunks := kept\<rparr>)" and "owning kept = kept"
    and "chunk_blocks kept = frag_blocks frag - F" and "contents (freed F (mem s)) kept = take n (contents (mem s) (chunks (frag_buffer frag)))"
    and "entry_step s frag (s\<lparr>mem := freed F (mem s)\<rparr>) (frag\<lparr>frag_buffer := (frag_buffer frag)\<lparr>chunks := kept\<rparr>\<rparr>)"
    and "kept = fst (adjust_chunks (chunks (frag_buffer frag)) n)"
proof -
  let ?b = "frag_buffer frag"
  have nb: "nb_ok (mem s) ?b" using lay by (simp add: frag_layout_def)
  note own = layout_all_owned [OF lay]
  have tot: "n \<le> chunks_total (chunks ?b)" using le lay by (elim layoutE) simp
  from set_length_shrink [OF nb tot, of "ipAlloc ops"] obtain kept F where
    k: "netBufferSetLength (ipAlloc ops) ?b n s = Some (NO_ERROR, ?b\<lparr>chunks := kept\<rparr>, s\<lparr>mem := freed F (mem s)\<rparr>)"
      "F \<subseteq> owned_blocks (chunks ?b)" "nb_ok (freed F (mem s)) (?b\<lparr>chunks := kept\<rparr>)" "chunks_total kept = n"
      "owned_blocks kept = owned_blocks (chunks ?b) - F" "chunk_blocks kept \<subseteq> chunk_blocks (chunks ?b)"
      "contents (freed F (mem s)) kept = take n (contents (mem s) (chunks ?b))" by (elim exE conjE)
  have ad: "kept = fst (adjust_chunks (chunks ?b) n)"
  proof -
    from nb have "chunks_ok (mem s) (chunks ?b)" by (simp add: nb_ok_def)
    from adjust_shrink [OF this tot] obtain kept2 rest where a: "adjust_chunks (chunks ?b) n = (kept2, 0, rest)" by blast
    with k(1) have "?b\<lparr>chunks := kept2\<rparr> = ?b\<lparr>chunks := kept\<rparr>" by (auto simp: netBufferSetLength_def bind_eq_Some_conv)
    from arg_cong [OF this, of chunks] a show ?thesis by simp
  qed
  have "chunk_size x > 0" if "x \<in> set kept" for x
  proof (rule ccontr)
    assume "\<not> chunk_size x > 0"
    then have no: "chunk_block x \<notin> owned_blocks kept" using k(3) that by (simp add: nb_ok_def alias_free_def)
    moreover have "chunk_block x \<in> frag_blocks frag" using k(6) that by auto
    ultimately have "chunk_block x \<in> F" using k(5) own(1) by auto
    moreover have "chunk_block x \<notin> F"
      using k(3) that by (auto simp: nb_ok_def chunks_ok_def chunk_ok_def chunk_block_def freed_def split: if_splits)
    ultimately show False by simp
  qed
  then have all: "owning kept = kept" by (simp add: owning_def)
  have F: "F \<subseteq> frag_blocks frag" "chunk_blocks kept = frag_blocks frag - F" using k(2,5) own(1) all by simp_all
  have "heap_ok (freed F (mem s))" using hp by (auto simp: heap_ok_def freed_def)
  moreover have "blocks (freed F (mem s)) x = blocks (mem s) x" if "x \<in> live (mem s) - frag_blocks frag" for x
    using that F(1) by (auto simp: freed_def)
  ultimately have "entry_step s frag (s\<lparr>mem := freed F (mem s)\<rparr>) (frag\<lparr>frag_buffer := ?b\<lparr>chunks := kept\<rparr>\<rparr>)"
    using F own(2) by (auto simp: entry_step_def freed_live)
  from that [OF k(1) F(1) k(3) all F(2) k(7) this ad] show thesis .
qed

text \<open>The header the code gives it: total length, no fragment offset, no checksum.\<close>

definition datagram_header :: "buffer \<Rightarrow> nat \<Rightarrow> buffer" where
  "datagram_header header len =
     blit (blit (blit header 2 (le16 (htons (word_of_nat len)))) 6 (le16 0)) 10 (le16 0)"

lemma chunk_store16:
  assumes "chunks_ok h (c # cs)" and "chunk_block c \<notin> chunk_blocks cs" and "chunk_at c 0 = Some p" and "j + 2 \<le> chunk_length c"
  obtains h' where "store16 h (member p j) v = Some h'" and "writes_in {chunk_block c} h h'"
    and "chunk_bytes h' c = blit (chunk_bytes h c) j (le16 v)" and "contents h' cs = contents h cs"
proof -
  have ok: "chunk_ok h c" using assms(1) by simp
  from store_chunk [OF ok, of j "le16 v"] assms(4) obtain q h' where
    "chunk_at c j = Some q" "store_bytes h q (le16 v) = Some h'" "writes_in {chunk_block c} h h'"
    "chunk_bytes h' c = blit (chunk_bytes h c) j (le16 v)" by auto
  moreover from this(3) have "contents h' cs = contents h cs" using assms(2) by (simp add: contents_frame)
  ultimately show ?thesis using that chunk_at_member [OF assms(3), of j] by (simp add: store16_def)
qed

lemma length_datagram_header: "20 \<le> length header \<Longrightarrow> length (datagram_header header len) = length header"
  by (simp add: datagram_header_def)

lemma adjust_first: "cs \<noteq> [] \<Longrightarrow> chunk_length c \<le> len \<Longrightarrow> 0 < len \<Longrightarrow> \<exists>ks. fst (adjust_chunks (c # cs) len) = c # ks"
  by (cases "adjust_chunks cs (len - chunk_length c)") (auto simp: Let_def split: prod.split)

lemma deliver_frag_eq:
  assumes hp: "heap_ok (mem s)" and lay: "frag_layout (mem s) frag"
  obtains frag' s' where "deliver_frag ops interface frag s = Some (frag', s')" and "entry_step s frag s' frag'"
    and "\<not> frag_in_use frag'" and "frag_inv (mem s') frag'"
    and "world s' = ip_deliver ops interface
      (datagram_header (frag_header (mem s) frag) (frag_headerLength frag + frag_dataLen frag) @ take (frag_dataLen frag) (payload (mem s) frag))
      (world s)"
proof -
  let ?b = "frag_buffer frag" let ?len = "frag_headerLength frag + frag_dataLen frag"
  from lay obtain c cs where c: "chunks ?b = c # cs" "full_chunks cs" "chunk_length c = frag_headerLength frag"
      "chunks_total cs = frag_dataLen frag + 6" by (elim layoutE)
  note lens = layout_lengths [OF lay] note own = layout_all_owned [OF lay]
  have le: "?len \<le> ?len + 6" by simp
  obtain kept F where
    k: "netBufferSetLength (ipAlloc ops) ?b ?len s = Some (NO_ERROR, ?b\<lparr>chunks := kept\<rparr>, s\<lparr>mem := freed F (mem s)\<rparr>)"
      "F \<subseteq> frag_blocks frag" "nb_ok (freed F (mem s)) (?b\<lparr>chunks := kept\<rparr>)" "owning kept = kept" "chunk_blocks kept = frag_blocks frag - F"
      "contents (freed F (mem s)) kept = take ?len (contents (mem s) (chunks ?b))"
      "entry_step s frag (s\<lparr>mem := freed F (mem s)\<rparr>) (frag\<lparr>frag_buffer := ?b\<lparr>chunks := kept\<rparr>\<rparr>)"
      "kept = fst (adjust_chunks (chunks ?b) ?len)" by (rule frag_shrink [OF hp lay le])
  have cont: "contents (freed F (mem s)) kept = frag_header (mem s) frag @ take (frag_dataLen frag) (payload (mem s) frag)"
    using k(6) layout_contents [OF lay] lens by simp
  have "cs \<noteq> []" using c(2) by (simp add: full_chunks_def)
  from adjust_first [OF this, of c ?len] c(1,3) lens(4) k(8) obtain ks where ks: "kept = c # ks" by auto
  let ?h0 = "freed F (mem s)"
  have ok0: "chunks_ok ?h0 (c # ks)" and ow0: "owners_ok ?h0 (c # ks)" using k(3) ks by (simp_all add: nb_ok_def)
  have all: "owning (c # ks) = c # ks" using k(4) ks by simp
  have "block_distinct (c # ks)" using ow0 all by (metis owners_ok_def)
  then have dist: "chunk_block c \<notin> chunk_blocks ks" by simp
  have ck: "chunk_ok ?h0 c" using ok0 by simp
  obtain p where p: "chunk_at c 0 = Some p" by (rule chunk_packet [OF ck])
  have l20: "20 \<le> chunk_length c" using c(3) lens(4) by simp
  obtain h1 where h1: "store16 ?h0 (ip_totalLength p) (htons (word_of_nat ?len)) = Some h1" "writes_in {chunk_block c} ?h0 h1"
    "chunk_bytes h1 c = blit (chunk_bytes ?h0 c) 2 (le16 (htons (word_of_nat ?len)))" "contents h1 ks = contents ?h0 ks"
    by (rule chunk_store16 [OF ok0 dist p, of 2]) (use l20 in simp_all)
  have ok1: "chunks_ok h1 (c # ks)" using ok0 chunks_ok_writes [OF h1(2)] by blast
  obtain h2 where h2: "store16 h1 (ip_fragmentOffset p) 0 = Some h2" "writes_in {chunk_block c} h1 h2"
    "chunk_bytes h2 c = blit (chunk_bytes h1 c) 6 (le16 0)" "contents h2 ks = contents h1 ks"
    by (rule chunk_store16 [OF ok1 dist p, of 6]) (use l20 in simp_all)
  have ok2: "chunks_ok h2 (c # ks)" using ok1 chunks_ok_writes [OF h2(2)] by blast
  obtain h3 where h3: "store16 h2 (ip_headerChecksum p) 0 = Some h3" "writes_in {chunk_block c} h2 h3"
    "chunk_bytes h3 c = blit (chunk_bytes h2 c) 10 (le16 0)" "contents h3 ks = contents h2 ks"
    by (rule chunk_store16 [OF ok2 dist p, of 10]) (use l20 in simp_all)
  have ok3: "chunks_ok h3 (c # ks)" using ok2 chunks_ok_writes [OF h3(2)] by blast
  have w3: "writes_in {chunk_block c} ?h0 h3"
    by (rule writes_in_trans [OF writes_in_trans [OF h1(2) h2(2)] h3(2)]) auto
  have b0: "chunk_bytes ?h0 c = frag_header (mem s) frag" "contents ?h0 ks = take (frag_dataLen frag) (payload (mem s) frag)"
    using cont ks ck c(3) lens(1) by (simp_all add: append_eq_append_conv)
  have bytes: "contents h3 (c # ks) = datagram_header (frag_header (mem s) frag) ?len @ take (frag_dataLen frag) (payload (mem s) frag)"
    by (simp add: h3(3,4) h2(3,4) h1(3,4) b0 datagram_header_def)
  let ?f1 = "frag\<lparr>frag_buffer := ?b\<lparr>chunks := kept\<rparr>\<rparr>"
  let ?s3 = "s\<lparr>mem := h3, world := ip_deliver ops interface (contents h3 (c # ks)) (world s)\<rparr>"
  have at: "netBufferAt (?b\<lparr>chunks := kept\<rparr>) 0 = Some p" using p l20 ks by (simp add: netBufferAt_def)
  have pr: "ipv4ProcessDatagram ops interface (?b\<lparr>chunks := kept\<rparr>) (s\<lparr>mem := h3\<rparr>) = Some ?s3"
    using ipv4ProcessDatagram_eq [of "s\<lparr>mem := h3\<rparr>" "?b\<lparr>chunks := kept\<rparr>" c ks ops interface] ok3 l20 ks by simp
  have hp3: "heap_ok h3" using hp writes_in_heap_ok [OF w3] by (auto simp: heap_ok_def freed_def)
  have "owners_ok h3 (c # ks)" using ow0 w3 by (subst owners_ok_cong [of _ h3 ?h0]) (simp_all add: writes_in_def)
  then have d0: "owners_ok (mem ?s3) (chunks (frag_buffer ?f1))" "owning (chunks (frag_buffer ?f1)) = chunks (frag_buffer ?f1)" "heap_ok (mem ?s3)"
    using all hp3 by (simp_all add: ks)
  note d = drop_frag_eq [OF d0]
  have "writes_in (chunk_blocks kept) ?h0 h3" by (rule writes_in_mono [OF w3]) (simp add: ks)
  then have "entry_step (s\<lparr>mem := ?h0\<rparr>) (frag\<lparr>frag_buffer := ?b\<lparr>chunks := kept\<rparr>\<rparr>) ?s3 ?f1"
    using entry_step_writes(2) [of ?f1 "s\<lparr>mem := ?h0\<rparr>" h3 ?f1] k(7) by (simp add: entry_step_def)
  from entry_step_trans [OF k(7) this] have "entry_step s frag ?s3 ?f1" .
  from entry_step_trans [OF this d(2)] have es: "entry_step s frag (?s3\<lparr>mem := freed (frag_blocks ?f1) (mem ?s3)\<rparr>) (emptied ?f1)" .
  have "deliver_frag ops interface frag s = Some (emptied ?f1, ?s3\<lparr>mem := freed (frag_blocks ?f1) (mem ?s3)\<rparr>)"
    using k(1) at h1(1) h2(1) h3(1) pr d(1) by (simp add: deliver_frag_def)
  from that [OF this es] show ?thesis using bytes by simp
qed

end
