(* ===== verification/Ipv4Reassemble.thy ===== *)
theory Ipv4Reassemble
  imports Ipv4Deliver
begin

text \<open>
  What the holes mean: a byte is in a hole as long as it has not arrived.  \<open>rebuilt D R ended\<close> relates the holes and
  the payload of an entry to the datagram \<open>D\<close>, the positions \<open>R\<close> that have arrived, and whether its last fragment has.
\<close>

definition in_holes :: "hole list \<Rightarrow> nat \<Rightarrow> bool" where
  "in_holes hs i \<longleftrightarrow> (\<exists>x \<in> set hs. unat (fst x) \<le> i \<and> i < unat (snd x))"

lemma in_holes_simps [simp]:
  "\<not> in_holes [] i" "in_holes (x # hs) i \<longleftrightarrow> unat (fst x) \<le> i \<and> i < unat (snd x) \<or> in_holes hs i"
  "in_holes (xs @ ys) i \<longleftrightarrow> in_holes xs i \<or> in_holes ys i"
  by (auto simp: in_holes_def)

lemma in_holes_more:
  assumes "a \<le> b"
  shows "in_holes (punch a b True hs) i \<longleftrightarrow> in_holes hs i \<and> \<not> (unat a \<le> i \<and> i < unat b)"
proof (induction hs)
  case (Cons x hs)
  have "in_holes (punch1 a b True x) i \<longleftrightarrow> unat (fst x) \<le> i \<and> i < unat (snd x) \<and> \<not> (unat a \<le> i \<and> i < unat b)"
    using assms by (auto simp: punch1_def word_less_nat_alt word_le_nat_alt)
  with Cons.IH show ?case by auto
qed simp

lemma in_holes_last:
  assumes "a \<le> b" and "\<And>x. x \<in> set hs \<Longrightarrow> fst x < b"
  shows "in_holes (punch a b False hs) i \<longleftrightarrow> in_holes hs i \<and> i < unat a"
  using assms(2)
proof (induction hs)
  case (Cons x hs)
  have "fst x < b" using Cons.prems by simp
  then have "in_holes (punch1 a b False x) i \<longleftrightarrow> unat (fst x) \<le> i \<and> i < unat (snd x) \<and> i < unat a"
    using assms(1) by (auto simp: punch1_def word_less_nat_alt word_le_nat_alt)
  with Cons show ?case by auto
qed simp

lemma in_punch:
  assumes "a \<le> b" and "unat a \<le> i" and "i < unat b"
  shows "\<not> in_holes (punch a b mf hs) i"
proof (induction hs)
  case (Cons x hs)
  have "\<not> in_holes (punch1 a b mf x) i"
    using assms by (auto simp: punch1_def word_less_nat_alt word_le_nat_alt)
  with Cons.IH show ?case by simp
qed simp

lemma no_holes: "holes_ok n hs \<Longrightarrow> hs = [] \<longleftrightarrow> (\<forall>i < 65535. \<not> in_holes hs i)"
proof
  assume ok: "holes_ok n hs" and none: "\<forall>i < 65535. \<not> in_holes hs i"
  show "hs = []"
  proof (rule ccontr)
    assume "hs \<noteq> []"
    then obtain x ys where hs: "hs = x # ys" by (cases hs) auto
    then have "unat (fst x) < unat (snd x)" using ok by (simp add: hole_ok_def word_less_nat_alt)
    moreover from this have "unat (fst x) < 65535" using unat_u16_bound [of "snd x"] by linarith
    ultimately have "in_holes hs (unat (fst x))" "unat (fst x) < 65535" using hs by auto
    with none show False by blast
  qed
qed simp

text \<open>A piece of the datagram \<open>D\<close>: the bytes from \<open>a\<close> to \<open>b\<close>; more fragments follow unless it is the last one.\<close>

definition piece :: "buffer \<Rightarrow> u16 \<Rightarrow> u16 \<Rightarrow> bool \<Rightarrow> buffer \<Rightarrow> bool" where
  "piece D a b mf data \<longleftrightarrow> unat a \<le> unat b \<and> unat b \<le> length D \<and> aligned a \<and> (mf \<longleftrightarrow> unat b \<noteq> length D) \<and> (mf \<longrightarrow> aligned b) \<and>
     data = take (unat b - unat a) (drop (unat a) D)"

definition rebuilt :: "buffer \<Rightarrow> nat set \<Rightarrow> bool \<Rightarrow> hole list \<Rightarrow> nat \<Rightarrow> buffer \<Rightarrow> bool" where
  "rebuilt D R ended hs n P \<longleftrightarrow> 0 < length D \<and> length D < 65535 \<and> n \<le> length D \<and> R \<subseteq> {..<n} \<and> (ended \<longrightarrow> n = length D) \<and>
     (\<forall>i \<in> R. P ! i = D ! i) \<and>
     (\<forall>x \<in> set hs. unat (fst x) < length D) \<and>
     (\<forall>i < 65535. in_holes hs i \<longleftrightarrow> i \<notin> R \<and> (ended \<longrightarrow> i < length D))"

lemma rebuilt_start: "0 < length D \<Longrightarrow> length D < 65535 \<Longrightarrow> rebuilt D {} False [(0, IPV4_INFINITY)] 0 P"
  by (simp add: rebuilt_def)

lemma rebuilt_done:
  assumes "rebuilt D R ended hs n P" and "holes_ok n hs"
  shows "hs = [] \<longleftrightarrow> ended \<and> R = {..<length D}"
proof -
  have "(\<forall>i < 65535. \<not> in_holes hs i) \<longleftrightarrow> ended \<and> R = {..<length D}"
  proof
    assume none: "\<forall>i < 65535. \<not> in_holes hs i"
    have R: "\<forall>i < 65535. i \<in> R \<or> ended \<and> length D \<le> i" using assms(1) none by (auto simp: rebuilt_def)
    have sub: "R \<subseteq> {..<length D}" and len: "length D < 65535" using assms(1) by (auto simp: rebuilt_def)
    have "ended" using R sub len by (metis lessThan_iff less_irrefl subsetD)
    moreover have "i \<in> R" if "i < length D" for i using R len that by (metis leD less_trans)
    then have "R = {..<length D}" using sub by auto
    ultimately show "ended \<and> R = {..<length D}" by simp
  next
    assume "ended \<and> R = {..<length D}"
    then show "\<forall>i < 65535. \<not> in_holes hs i" using assms(1) by (auto simp: rebuilt_def)
  qed
  with no_holes [OF assms(2)] show ?thesis by simp
qed

lemma punch_starts:
  assumes "x \<in> set (punch a b mf hs)"
  shows "fst x \<in> starts hs \<or> mf \<and> fst x = b"
  using assms by (induction hs) (auto simp: punch1_def split: if_splits)

text \<open>The arrival of a piece.\<close>

lemma rebuilt_piece:
  assumes rb: "rebuilt D R ended hs n P" and pc: "piece D a b mf data"
    and P': "length P' = n' + 6" "n' = max n (unat b)" "\<And>i. i < n' \<Longrightarrow> unat a \<le> i \<Longrightarrow> i < unat b \<Longrightarrow> P' ! i = D ! i"
      "\<And>i. i \<in> R \<Longrightarrow> \<not> (unat a \<le> i \<and> i < unat b) \<Longrightarrow> P' ! i = P ! i"
  shows "rebuilt D (R \<union> {unat a..<unat b}) (ended \<or> \<not> mf) (punch a b mf hs) n' P'"
proof -
  have b: "unat b \<le> length D" "a \<le> b" "mf \<longleftrightarrow> unat b \<noteq> length D" using pc by (auto simp: piece_def word_le_nat_alt)
  have rb': "0 < length D" "length D < 65535" "n \<le> length D" "R \<subseteq> {..<n}" "ended \<longrightarrow> n = length D" "\<And>i. i \<in> R \<Longrightarrow> P ! i = D ! i"
    "\<And>x. x \<in> set hs \<Longrightarrow> unat (fst x) < length D" "\<And>i. i < 65535 \<Longrightarrow> in_holes hs i \<longleftrightarrow> i \<notin> R \<and> (ended \<longrightarrow> i < length D)"
    using rb by (auto simp: rebuilt_def)
  have "P' ! i = D ! i" if "i \<in> R \<union> {unat a..<unat b}" for i
  proof (cases "unat a \<le> i \<and> i < unat b")
    case True
    then show ?thesis using P'(2,3) by auto
  next
    case False
    then show ?thesis using that P'(4) rb'(6) by auto
  qed
  moreover have "unat (fst x) < length D" if "x \<in> set (punch a b mf hs)" for x
    using punch_starts [OF that] rb'(7) b by auto
  moreover have "in_holes (punch a b mf hs) i \<longleftrightarrow> i \<notin> R \<union> {unat a..<unat b} \<and> (ended \<or> \<not> mf \<longrightarrow> i < length D)" if "i < 65535" for i
  proof (cases mf)
    case True
    then show ?thesis using in_holes_more [OF b(2), of hs i] rb'(8) [OF that] by auto
  next
    case False
    have "fst x < b" if "x \<in> set hs" for x using rb'(7) [OF that] False b(3) by (simp add: word_less_nat_alt)
    moreover have "unat a \<le> length D" using pc by (simp add: piece_def)
    ultimately show ?thesis using in_holes_last [OF b(2), of hs i] rb'(8) [OF that] False b(3) by auto
  qed
  moreover have "R \<union> {unat a..<unat b} \<subseteq> {..<n'}" using rb'(4) P'(2) by auto
  moreover have "n' \<le> length D" "ended \<or> \<not> mf \<longrightarrow> n' = length D" using P'(2) rb'(3,5) b by auto
  ultimately show ?thesis using rb'(1,2) by (simp add: rebuilt_def)
qed

text \<open>A complete datagram.\<close>

lemma rebuilt_whole: "rebuilt D {..<length D} True hs n P \<Longrightarrow> length P = n + 6 \<Longrightarrow> take n P = D"
  by (intro nth_equalityI) (auto simp: rebuilt_def)

section \<open>A fragment at its entry\<close>

text \<open>
  The arrival of a fragment as a whole: it is handled without undefined behaviour, and leaves the entry dropped, or
  with the data taken out of its holes, or, when no hole is left, delivered and free again.
\<close>

subsection \<open>Calls of the allocator and the clock\<close>

inductive ip_calls :: "'w ip_ops \<Rightarrow> 'w \<Rightarrow> 'w \<Rightarrow> bool" for ops where
  none: "ip_calls ops w w"
| alloc: "ip_calls ops w w' \<Longrightarrow> ip_calls ops w (snd (ipAlloc ops n w'))"
| time: "ip_calls ops w w' \<Longrightarrow> ip_calls ops w (snd (ipTime ops w'))"

lemma ip_calls_trans: "ip_calls ops w1 w2 \<Longrightarrow> ip_calls ops w2 w3 \<Longrightarrow> ip_calls ops w1 w3"
  by (rotate_tac, induction rule: ip_calls.induct) (auto intro: ip_calls.intros)

lemma ip_calls_alloc: "memPoolAlloc (ipAlloc ops) n s = (r, s') \<Longrightarrow> ip_calls ops (world s) (world s')"
  using ip_calls.alloc [OF ip_calls.none, of ops "world s" n]
  by (auto simp: memPoolAlloc_def split: prod.splits option.splits)

lemma grow_chunks_calls: "grow_chunks (ipAlloc ops) room cs len s = (e, cs', s') \<Longrightarrow> ip_calls ops (world s) (world s')"
proof (induction room arbitrary: cs len s)
  case (Suc room)
  obtain r s1 where a: "memPoolAlloc (ipAlloc ops) 1536 s = (r, s1)" by fastforce
  show ?case
  proof (cases "len > 0 \<and> r \<noteq> None")
    case True
    then obtain p where "r = Some p" by blast
    with a True Suc.prems Suc.IH show ?thesis by (auto simp: Let_def intro: ip_calls_trans [OF ip_calls_alloc [OF a]])
  next
    case False
    with a Suc.prems ip_calls_alloc [OF a] show ?thesis by (cases r) (auto intro: ip_calls.none split: if_splits)
  qed
qed (auto intro: ip_calls.none)

lemma free_chunks_world: "free_chunks cs s = Some s' \<Longrightarrow> world s' = world s"
  by (induction cs arbitrary: s) (auto simp: bind_eq_Some_conv memPoolFree_def split: if_splits)

lemma setLength_calls:
  assumes "netBufferSetLength (ipAlloc ops) b n s = Some (e, b', s')"
  shows "ip_calls ops (world s) (world s')"
  using assms grow_chunks_calls free_chunks_world
  by (fastforce simp: netBufferSetLength_def bind_eq_Some_conv intro: ip_calls.none split: prod.splits if_splits)

lemma drop_frag_world: "drop_frag ops frag s = Some (frag', s') \<Longrightarrow> ip_calls ops (world s) (world s')"
  by (auto simp: drop_frag_def bind_eq_Some_conv intro: setLength_calls)

lemma enlarge_calls:
  assumes "enlarge_frag ops b frag s = Some (go, frag', s')"
  shows "ip_calls ops (world s) (world s')"
  using assms
  by (auto simp: enlarge_frag_def bind_eq_Some_conv Let_def split: if_splits
      intro: ip_calls.none drop_frag_world setLength_calls ip_calls_trans [OF setLength_calls drop_frag_world])

lemma new_frag_calls:
  assumes "new_frag ops packet frag s = Some (go, frag', s')"
  shows "ip_calls ops (world s) (world s')"
proof -
  define time w where "time s1 = fst (ipTime ops (world s1))" and "w s1 = snd (ipTime ops (world s1))" for s1 :: "'a sys"
  then have time: "ipTime ops (world s1) = (time s1, w s1)" for s1 by simp
  have tick: "ip_calls ops (world s) (w s1)" if "ip_calls ops (world s) (world s1)" for s1
    using ip_calls.time [OF that] time by simp
  from assms show ?thesis
    by (auto simp: new_frag_def bind_eq_Some_conv Let_def time split: if_splits
        intro: ip_calls_trans [OF setLength_calls drop_frag_world] tick [OF setLength_calls])
qed

subsection \<open>Enough memory\<close>

lemma full_chunks_total: "full_chunks cs \<Longrightarrow> chunks_total (butlast cs) = 1536 * (length cs - 1)"
proof (induction cs)
  case (Cons c cs)
  then show ?case by (cases "cs = []") (auto simp: full_chunks_Cons neq_Nil_conv)
qed (simp add: full_chunks_def)

lemma setLength_succeeds:
  assumes "allocs ops" and lay: "frag_layout h frag" and n: "frag_dataLen frag < n" "frag_headerLength frag + n \<le> 8192"
    and run: "netBufferSetLength (ipAlloc ops) (frag_buffer frag) (frag_headerLength frag + n + 6) s = Some (e, b, s')"
  shows "e = NO_ERROR"
proof -
  from lay obtain c cs where c: "chunks (frag_buffer frag) = c # cs" "full_chunks cs" "chunk_length c = frag_headerLength frag"
      "chunks_total cs = frag_dataLen frag + 6" by (elim layoutE)
  have max: "maxChunkCount (frag_buffer frag) = 7" using lay by (simp add: frag_layout_def)
  define m where "m = length cs - 1"
  have lc: "length cs = Suc m" using c(2) by (simp add: m_def full_chunks_def)
  have bt: "chunks_total (butlast cs) = 1536 * m" using full_chunks_total [OF c(2)] by (simp add: m_def)
  have le: "chunks_total cs < n + 6" using c(4) n(1) by simp
  define l where "l = min (n + 6 - 1536 * m) 1536"
  define left where "left = n + 6 - 1536 * m - l"
  define kept where "kept = butlast cs @ [last cs\<lparr>chunk_length := l\<rparr>]"
  have "adjust_chunks (c # cs) (frag_headerLength frag + n + 6) = (c # kept, left, [])"
    using adjust_full [OF c(2) le] c(3) lc by (auto simp: bt l_def left_def kept_def Let_def add.assoc)
  moreover have "length kept = Suc m" using lc by (simp add: kept_def)
  moreover have "left \<le> (6 - Suc m) * 1536" using n(2) by (simp add: left_def l_def)
  then obtain cs1 s1 where "grow_chunks (ipAlloc ops) (6 - Suc m) (c # kept) left s = (NO_ERROR, cs1, s1)"
    using grow_succeeds [of "ipAlloc ops" left "6 - Suc m" "c # kept" s] assms(1) by (auto simp: allocs_def)
  ultimately show ?thesis
    using run c(1) max by (auto simp: netBufferSetLength_def bind_eq_Some_conv split: if_splits prod.splits)
qed

lemma enlarge_succeeds:
  assumes "allocs ops" and lay: "frag_layout (mem s) frag" and "frag_headerLength frag + max (frag_dataLen frag) (unat b) \<le> 8192"
    and run: "enlarge_frag ops b frag s = Some (go, frag', s')"
  shows "go"
proof (cases "frag_dataLen frag < unat b")
  case True
  then have le: "frag_headerLength frag + unat b \<le> 8192" using assms(3) by simp
  have ok: "e = NO_ERROR" if "netBufferSetLength (ipAlloc ops) (frag_buffer frag) (frag_headerLength frag + unat b + 6) s = Some (e, bb, s1)" for e bb s1
    by (rule setLength_succeeds [OF assms(1) lay True le that])
  from run True le show ?thesis by (auto simp: enlarge_frag_def bind_eq_Some_conv dest: ok split: if_splits)
qed (use run in \<open>simp add: enlarge_frag_def\<close>)

subsection \<open>The fragment at its entry\<close>

text \<open>A packet that lies apart from the buffer of the entry is still there after a step of the entry.\<close>

lemma packet_after_step:
  assumes "entry_step s frag s' frag'" and "packet_at (mem s) p bytes" and "fst p \<in> live (mem s) - frag_blocks frag"
  shows "packet_at (mem s') p bytes" and "fst p \<in> live (mem s') - frag_blocks frag'"
  using assms by (auto simp: entry_step_def intro: packet_at_frame)

text \<open>Fragments that stay below 64 KiB, with the members of their headers.\<close>

definition fragment :: "buffer \<Rightarrow> nat \<Rightarrow> u16 \<Rightarrow> u16 \<Rightarrow> bool \<Rightarrow> buffer \<Rightarrow> bool" where
  "fragment bytes len a b mf data \<longleftrightarrow> ip_packet bytes \<and> header_len bytes + len \<le> length bytes \<and>
     a = (ntohs (get16 bytes 6) AND IPV4_OFFSET_MASK) * 8 \<and> b = a + word_of_nat len \<and> unat a + len < 65536 \<and>
     mf = (ntohs (get16 bytes 6) AND IPV4_FLAG_MF \<noteq> 0) \<and> data = take len (drop (header_len bytes) bytes)"

lemma offset_times_8: "unat ((offset AND IPV4_OFFSET_MASK) * 8) = unat (offset AND IPV4_OFFSET_MASK) * 8"
proof -
  have "offset AND IPV4_OFFSET_MASK \<le> IPV4_OFFSET_MASK" by (rule word_and_le1)
  then have "unat (offset AND IPV4_OFFSET_MASK) \<le> 8191" by (simp add: word_le_nat_alt)
  then show ?thesis by (simp add: unat_mult_lem [THEN iffD1])
qed

lemma fragmentD:
  assumes "fragment bytes len a b mf data"
  shows "aligned a" and "unat b = unat a + len" and "a \<le> b" and "length data = len"
    and "ntohs (get16 bytes 6) AND IPV4_OFFSET_MASK = 0 \<longleftrightarrow> a = 0"
proof -
  have a: "unat a = unat (ntohs (get16 bytes 6) AND IPV4_OFFSET_MASK) * 8"
    using assms offset_times_8 by (simp add: fragment_def)
  then show "aligned a" by simp
  have "unat a + len < 65536" using assms unfolding fragment_def by (elim conjE)
  moreover from this have "unat (word_of_nat len :: u16) = len" by simp
  ultimately have "unat (a + word_of_nat len) = unat a + len" by (subst unat_add_lem [THEN iffD1]) simp_all
  then show b: "unat b = unat a + len" using assms by (simp add: fragment_def)
  then show "a \<le> b" by (simp add: word_le_nat_alt)
  show "length data = len" using assms by (auto simp: fragment_def)
  show "ntohs (get16 bytes 6) AND IPV4_OFFSET_MASK = 0 \<longleftrightarrow> a = 0"
    using a by (simp add: unat_eq_zero [symmetric] del: unat_eq_zero)
qed

text \<open>What the buffer holds once the data has been copied.\<close>

definition filled :: "buffer \<Rightarrow> u16 \<Rightarrow> u16 \<Rightarrow> buffer \<Rightarrow> hole list \<Rightarrow> heap \<Rightarrow> Ipv4FragDesc \<Rightarrow> buffer \<Rightarrow> nat \<Rightarrow> buffer \<Rightarrow> bool" where
  "filled bytes a b data hs h frag H' n' P' \<longleftrightarrow> n' = max (frag_dataLen frag) (unat b) \<and> length P' = n' + 6 \<and>
     H' = (if a = 0 then take (header_len bytes) bytes else frag_header h frag) \<and>
     (\<forall>i. unat a \<le> i \<and> i < unat b \<longrightarrow> P' ! i = data ! (i - unat a)) \<and>
     (\<forall>i < frag_dataLen frag. \<not> in_holes hs i \<and> \<not> (unat a \<le> i \<and> i < unat b) \<longrightarrow> P' ! i = payload h frag ! i)"

lemma start_in_holes:
  assumes "k \<in> hole_starts n hs" and "holes_ok n hs" and "unat k \<le> i" and "i < unat k + 6" and "i \<le> n + 6" and "n \<le> 8192"
  shows "in_holes hs i"
proof -
  from assms(1) obtain x where x: "x \<in> set hs" "fst x \<le> k" "k < snd x" "aligned k" "unat k \<le> n" by (auto simp: hole_starts_def)
  have "aligned (snd x) \<or> snd x = IPV4_INFINITY" using assms(2) x(1) by (auto simp: holes_ok_def hole_ok_def)
  then have "unat k + 6 \<le> unat (snd x)"
  proof
    assume "aligned (snd x)"
    moreover have "k \<noteq> snd x" using x(3) by simp
    ultimately show ?thesis using aligned_apart [of "snd x" k] x(3,4) by (simp add: word_less_nat_alt)
  next
    assume "snd x = IPV4_INFINITY"
    with x(5) assms(6) show ?thesis by simp
  qed
  with x assms(3,4) show ?thesis by (auto simp: in_holes_def word_le_nat_alt intro!: bexI [of _ x])
qed

lemma untouched_outside:
  assumes "untouched (hole_starts n hs) P P'" and "holes_ok n hs" and "i < length P" and "i \<le> n" and "n \<le> 8192" and "\<not> in_holes hs i"
  shows "P' ! i = P ! i"
proof -
  have "\<not> (unat k \<le> i \<and> i < unat k + 6)" if "k \<in> hole_starts n hs" for k
    using start_in_holes [OF that assms(2), of i] assms(4-6) by auto
  with assms(1,3) show ?thesis by (simp add: untouched_def)
qed

text \<open>The loop and the copy of the data.\<close>

lemma fill_frag:
  assumes hp: "heap_ok (mem s)" and inv: "frag_holes (mem s) frag hs"
    and pk: "packet_at (mem s) packet bytes" "fst packet \<in> live (mem s) - frag_blocks frag"
    and fr: "fragment bytes len a b mf data" and mf: "mf \<longrightarrow> len mod 8 = 0" and n: "unat b \<le> frag_dataLen frag"
  obtains frag' h1 h m hl where "hole_loop a b mf frag None (ipv4FindHole frag (frag_firstHole frag)) (mem s) = Some (frag', h1)"
    and "load_headerLength h1 packet = Some hl" and "load h1 (member packet (hl * 4)) len = Some data"
    and "netBufferWrite (frag_buffer frag') (frag_headerLength frag' + unat a) data h1 = Some (m, h)"
    and "entry_step s frag (s\<lparr>mem := h\<rparr>) frag'" and "frag_holes h frag' (punch a b mf hs)" and "same_buffer frag frag'"
    and "frag_header h frag' = frag_header (mem s) frag"
    and "\<forall>i. unat a \<le> i \<and> i < unat b \<longrightarrow> payload h frag' ! i = data ! (i - unat a)"
    and "\<forall>i < frag_dataLen frag. \<not> in_holes hs i \<and> \<not> (unat a \<le> i \<and> i < unat b) \<longrightarrow> payload h frag' ! i = payload (mem s) frag ! i"
proof -
  note f = fragmentD [OF fr]
  have lay: "frag_layout (mem s) frag" and ok: "holes_ok (frag_dataLen frag) hs"
    and ch: "chain (desc (payload (mem s) frag)) (frag_firstHole frag) hs IPV4_INFINITY" using inv by (simp_all add: frag_holes_def)
  note lens = layout_lengths [OF lay]
  have l0: "linked (mem s) frag [] None (frag_firstHole frag)" using lay by (simp add: linked_def prev_is_def)
  have albm: "mf \<longrightarrow> aligned b" using f(1,2) mf by (auto simp: mod_eq_0_iff_dvd)
  from hole_loop_eq [OF l0 ch _ f(3,1) albm n] ok obtain frag' h1 q where
    r: "hole_loop a b mf frag None (ipv4FindHole frag (frag_firstHole frag)) (mem s) = Some (frag', h1)"
      "linked h1 frag' (punch a b mf hs) q IPV4_INFINITY" "holes_ok (frag_dataLen frag) (punch a b mf hs)"
      "hole_frame (mem s) frag (hole_starts (frag_dataLen frag) hs) h1 frag'" by auto
  have sb: "same_buffer frag frag'" and w1: "writes_in (frag_blocks frag) (mem s) h1"
    and hd1: "frag_header h1 frag = frag_header (mem s) frag" using r(4) by (simp_all add: hole_frame_def)
  note eqs = same_buffer_eqs [OF sb]
  have lay1: "frag_layout h1 frag'" and ch1: "chain (desc (payload h1 frag')) (frag_firstHole frag') (punch a b mf hs) IPV4_INFINITY"
    using r(2) by (simp_all add: linked_def)
  have un: "untouched (hole_starts (frag_dataLen frag) hs) (payload (mem s) frag) (payload h1 frag')"
    using hole_frame_untouched(1) [OF r(4)] .
  have pk1: "packet_at h1 packet bytes" using pk w1 by (auto intro: packet_at_frame simp: writes_in_def)
  have ipk: "ip_packet bytes" and ln: "header_len bytes + len \<le> length bytes" and dt: "data = take len (drop (header_len bytes) bytes)"
    using fr by (auto simp: fragment_def)
  obtain hl where hl: "load_headerLength h1 packet = Some hl" "hl * 4 = header_len bytes" using packet_headerLength [OF pk1 ipk] by blast
  have ld: "load h1 (member packet (hl * 4)) len = Some data" using packet_load [OF pk1 ln] hl(2) dt by simp
  have "unat a + length data \<le> frag_dataLen frag' + 6" using f(2,4) n eqs(6) by simp
  from frag_write_payload [OF lay1 this] obtain m h where
    w: "netBufferWrite (frag_buffer frag') (frag_headerLength frag' + unat a) data h1 = Some (m, h)"
      "writes_in (frag_blocks frag') h1 h" "frag_layout h frag'" "frag_header h frag' = frag_header h1 frag'"
      "payload h frag' = blit (payload h1 frag') (unat a) data" .
  have lenP: "length (payload h1 frag') = frag_dataLen frag + 6" using layout_lengths(2) [OF lay1] eqs(6) by simp
  have fit: "unat a + length data \<le> length (payload h1 frag')" using lenP f(2,4) n by simp
  have wall: "writes_in (frag_blocks frag) (mem s) h"
    by (rule writes_in_trans [OF w1 w(2)]) (simp_all add: eqs(5))
  have es: "entry_step s frag (s\<lparr>mem := h\<rparr>) frag'"
    by (rule entry_step_writes(1) [OF wall hp layout_all_owned(2) [OF lay] eqs(5)])
  have keep: "desc (payload h frag') (fst x) = desc (payload h1 frag') (fst x)" if "x \<in> set (punch a b mf hs)" for x
  proof -
    have okx: "hole_ok (frag_dataLen frag) x" using r(3) that by (simp add: holes_ok_def)
    have "payload h frag' ! (unat (fst x) + j) = payload h1 frag' ! (unat (fst x) + j)" if "j < 6" for j
    proof -
      have st: "fst x \<in> hole_starts (frag_dataLen frag) (punch a b mf hs)" using starts_hole_starts [OF r(3)] \<open>x \<in> set (punch a b mf hs)\<close> by auto
      have "unat (fst x) + j \<le> frag_dataLen frag + 6" using okx \<open>j < 6\<close> by (simp add: hole_ok_def)
      moreover have "frag_dataLen frag \<le> 8192" using lens(3) by simp
      ultimately have "in_holes (punch a b mf hs) (unat (fst x) + j)"
        using start_in_holes [OF st r(3), of "unat (fst x) + j"] \<open>j < 6\<close> by simp
      then have "\<not> (unat a \<le> unat (fst x) + j \<and> unat (fst x) + j < unat b)" using in_punch [OF f(3)] by blast
      then show ?thesis using fit f(2,4) unfolding w(5) by (subst nth_blit) auto
    qed
    then show ?thesis by (rule desc_same)
  qed
  then have "chain (desc (payload h frag')) (frag_firstHole frag') (punch a b mf hs) IPV4_INFINITY"
    using chain_cong [of "punch a b mf hs" "desc (payload h frag')" "desc (payload h1 frag')"] ch1 by blast
  then have fh: "frag_holes h frag' (punch a b mf hs)" using w(3) r(3) by (simp add: frag_holes_def eqs(6))
  have new: "\<forall>i. unat a \<le> i \<and> i < unat b \<longrightarrow> payload h frag' ! i = data ! (i - unat a)"
    using fit f(2,4) by (simp add: w(5) nth_blit)
  have old: "\<forall>i < frag_dataLen frag. \<not> in_holes hs i \<and> \<not> (unat a \<le> i \<and> i < unat b) \<longrightarrow> payload h frag' ! i = payload (mem s) frag ! i"
    using fit f(2,4) untouched_outside [OF un ok] lens by (simp add: w(5) nth_blit)
  have "frag_header h frag' = frag_header (mem s) frag" using w(4) eqs(3) hd1 by simp
  from that [OF r(1) hl(1) ld w(1) es fh sb this new old] show ?thesis .
qed

text \<open>The first step: the header of a first fragment.\<close>

lemma start_fragment:
  assumes hp: "heap_ok (mem s)" and inv: "frag_holes (mem s) frag hs" and pk: "packet_at (mem s) packet bytes"
    and fr: "fragment bytes len a b mf data"
  obtains go frag' s' where
    "(if ntohs (get16 bytes 6) AND IPV4_OFFSET_MASK = 0 then first_fragment ops packet frag s else Some (True, frag, s)) = Some (go, frag', s')"
    and "entry_step s frag s' frag'"
    and "go \<longrightarrow> frag_holes (mem s') frag' hs \<and> frag_dataLen frag' = frag_dataLen frag \<and> payload (mem s') frag' = payload (mem s) frag \<and>
      frag_header (mem s') frag' = (if a = 0 then take (header_len bytes) bytes else frag_header (mem s) frag)"
    and "\<not> go \<longrightarrow> \<not> frag_in_use frag' \<and> frag_inv (mem s') frag'"
    and "frag_dataLen frag \<le> 8132 \<longrightarrow> go" and "world s' = world s"
proof (cases "a = 0")
  case True
  have ip: "ip_packet bytes" using fr by (simp add: fragment_def)
  obtain go frag' s' where r: "first_fragment ops packet frag s = Some (go, frag', s')" "entry_step s frag s' frag'"
    "go \<longrightarrow> frag_holes (mem s') frag' hs \<and> frag_dataLen frag' = frag_dataLen frag \<and>
      frag_header (mem s') frag' = take (header_len bytes) bytes \<and> payload (mem s') frag' = payload (mem s) frag"
    "\<not> go \<longrightarrow> \<not> frag_in_use frag' \<and> frag_inv (mem s') frag'"
    "header_len bytes + frag_dataLen frag \<le> 8192 \<longrightarrow> go" "world s' = world s"
    by (rule first_fragment_eq [OF hp inv pk ip, of ops])
  show ?thesis
    by (rule that [of go frag' s']) (use r True fragmentD(5) [OF fr] header_len_le [of bytes] in auto)
next
  case False
  have "frag_blocks frag \<subseteq> live (mem s)" using inv layout_all_owned(2) by (simp add: frag_holes_def)
  then show ?thesis using that [of True frag s] False fragmentD(5) [OF fr] inv entry_step_refl [OF hp] by simp
qed

definition delivers :: "'w ip_ops \<Rightarrow> nat \<Rightarrow> 'w \<Rightarrow> 'w \<Rightarrow> buffer \<Rightarrow> bool" where
  "delivers ops interface w w' bytes \<longleftrightarrow> (\<exists>v. ip_calls ops w v \<and> w' = ip_deliver ops interface bytes v)"

lemma add_fragment_cases:
  assumes alloc: "alloc_ok (ipAlloc ops)" and hp: "heap_ok (mem s)" and inv: "frag_holes (mem s) frag hs"
    and pk: "packet_at (mem s) packet bytes" "fst packet \<in> live (mem s) - frag_blocks frag"
    and fr: "fragment bytes len a b mf data" and mf: "mf \<longrightarrow> len mod 8 = 0"
  obtains (dropped) frag' s' where "add_fragment ops interface packet len (ntohs (get16 bytes 6)) a b frag s = Some (frag', s')"
      and "entry_step s frag s' frag'" and "\<not> frag_in_use frag'" and "frag_inv (mem s') frag'" and "ip_calls ops (world s) (world s')"
      and "\<not> (allocs ops \<and> max (frag_dataLen frag) (unat b) \<le> 8132)"
  | (kept) frag' s' where "add_fragment ops interface packet len (ntohs (get16 bytes 6)) a b frag s = Some (frag', s')"
      and "entry_step s frag s' frag'" and "punch a b mf hs \<noteq> []" and "frag_holes (mem s') frag' (punch a b mf hs)"
      and "filled bytes a b data hs (mem s) frag (frag_header (mem s') frag') (frag_dataLen frag') (payload (mem s') frag')"
      and "ip_calls ops (world s) (world s')"
  | (complete) frag' s' H n P where "add_fragment ops interface packet len (ntohs (get16 bytes 6)) a b frag s = Some (frag', s')"
      and "entry_step s frag s' frag'" and "\<not> frag_in_use frag'" and "frag_inv (mem s') frag'" and "punch a b mf hs = []"
      and "filled bytes a b data hs (mem s) frag H n P" and "delivers ops interface (world s) (world s') (datagram_header H (length H + n) @ take n P)"
proof -
  let ?run = "add_fragment ops interface packet len (ntohs (get16 bytes 6)) a b frag s"
  obtain go1 f1 s1 where s1:
    "(if ntohs (get16 bytes 6) AND IPV4_OFFSET_MASK = 0 then first_fragment ops packet frag s else Some (True, frag, s)) = Some (go1, f1, s1)"
    "entry_step s frag s1 f1"
    "go1 \<longrightarrow> frag_holes (mem s1) f1 hs \<and> frag_dataLen f1 = frag_dataLen frag \<and> payload (mem s1) f1 = payload (mem s) frag \<and>
      frag_header (mem s1) f1 = (if a = 0 then take (header_len bytes) bytes else frag_header (mem s) frag)"
    "\<not> go1 \<longrightarrow> \<not> frag_in_use f1 \<and> frag_inv (mem s1) f1" "frag_dataLen frag \<le> 8132 \<longrightarrow> go1" "world s1 = world s"
    by (rule start_fragment [OF hp inv pk(1) fr, of ops])
  show thesis
  proof (cases go1)
    case False
    then show thesis using dropped [of f1 s1] s1 by (auto simp: add_fragment_def ip_calls.none)
  next
    case go1: True
    note h1 = mp [OF s1(3) go1]
    have hp1: "heap_ok (mem s1)" using s1(2) by (simp add: entry_step_def)
    have lay1: "frag_layout (mem s1) f1" using h1 by (simp add: frag_holes_def)
    obtain go2 f2 s2 where s2: "enlarge_frag ops b f1 s1 = Some (go2, f2, s2)" "entry_step s1 f1 s2 f2"
      "go2 \<longrightarrow> frag_holes (mem s2) f2 hs \<and> frag_dataLen f2 = max (frag_dataLen f1) (unat b) \<and>
        frag_headerLength f2 = frag_headerLength f1 \<and> frag_header (mem s2) f2 = frag_header (mem s1) f1 \<and>
        take (frag_dataLen f1 + 6) (payload (mem s2) f2) = payload (mem s1) f1"
      "\<not> go2 \<longrightarrow> \<not> frag_in_use f2 \<and> frag_inv (mem s2) f2"
      using enlarge_frag_eq [OF alloc hp1, of f1 hs b] h1 by metis
    have es2: "entry_step s frag s2 f2" by (rule entry_step_trans [OF s1(2) s2(2)])
    have calls2: "ip_calls ops (world s) (world s2)" using enlarge_calls [OF s2(1)] s1(6) by simp
    show thesis
    proof (cases go2)
      case False
      have "\<not> (allocs ops \<and> max (frag_dataLen frag) (unat b) \<le> 8132)"
      proof
        assume a: "allocs ops \<and> max (frag_dataLen frag) (unat b) \<le> 8132"
        have "frag_headerLength f1 + max (frag_dataLen f1) (unat b) \<le> 8192" using a h1 layout_lengths(5) [OF lay1] by linarith
        with enlarge_succeeds [OF _ lay1 this s2(1)] a False show False by simp
      qed
      with False s1 go1 s2 es2 calls2 show thesis by (intro dropped [of f2 s2]) (auto simp: add_fragment_def)
    next
      case go2: True
      note h2 = mp [OF s2(3) go2]
      have hp2: "heap_ok (mem s2)" using s2(2) by (simp add: entry_step_def)
      note pk2 = packet_after_step [OF es2 pk]
      have le: "unat b \<le> frag_dataLen f2" using h2 by simp
      obtain f3 h3 h m hl where fl: "hole_loop a b mf f2 None (ipv4FindHole f2 (frag_firstHole f2)) (mem s2) = Some (f3, h3)"
        "load_headerLength h3 packet = Some hl" "load h3 (member packet (hl * 4)) len = Some data"
        "netBufferWrite (frag_buffer f3) (frag_headerLength f3 + unat a) data h3 = Some (m, h)"
        "entry_step s2 f2 (s2\<lparr>mem := h\<rparr>) f3" "frag_holes h f3 (punch a b mf hs)" "same_buffer f2 f3"
        "frag_header h f3 = frag_header (mem s2) f2"
        "\<forall>i. unat a \<le> i \<and> i < unat b \<longrightarrow> payload h f3 ! i = data ! (i - unat a)"
        "\<forall>i < frag_dataLen f2. \<not> in_holes hs i \<and> \<not> (unat a \<le> i \<and> i < unat b) \<longrightarrow> payload h f3 ! i = payload (mem s2) f2 ! i"
        using fill_frag [OF hp2 conjunct1 [OF h2] pk2 fr mf le] .
      have es3: "entry_step s frag (s2\<lparr>mem := h\<rparr>) f3" by (rule entry_step_trans [OF es2 fl(5)])
      have lay3: "frag_layout h f3" using fl(6) by (simp add: frag_holes_def)
      note eqs = same_buffer_eqs [OF fl(7)]
      have prefix: "payload (mem s2) f2 ! i = payload (mem s) frag ! i" if "i < frag_dataLen frag" for i
      proof -
        have "payload (mem s) frag ! i = take (frag_dataLen f1 + 6) (payload (mem s2) f2) ! i" using h1 h2 by simp
        then show ?thesis using that h1 by simp
      qed
      have filled: "filled bytes a b data hs (mem s) frag (frag_header h f3) (frag_dataLen f3) (payload h f3)"
        using fl(8-10) h1 h2 layout_lengths(2) [OF lay3] prefix by (simp add: filled_def eqs(6))
      have mf': "mf = (ntohs (get16 bytes 6) AND IPV4_FLAG_MF \<noteq> 0)" using fr by (simp add: fragment_def)
      have run: "?run = (if ipv4FindHole f3 (frag_firstHole f3) = None then deliver_frag ops interface f3 (s2\<lparr>mem := h\<rparr>)
          else Some (f3, s2\<lparr>mem := h\<rparr>))"
        using s1(1) go1 s2(1) go2 fl(1-4) mf' by (simp add: add_fragment_def Let_def)
      show thesis
      proof (cases "punch a b mf hs")
        case Nil
        have "frag_firstHole f3 = IPV4_INFINITY" using fl(6) Nil by (simp add: frag_holes_def)
        then have none: "ipv4FindHole f3 (frag_firstHole f3) = None" using find_hole_None [OF lay3] by simp
        have hp3: "heap_ok (mem (s2\<lparr>mem := h\<rparr>))" using es3 by (simp add: entry_step_def)
        have lay3': "frag_layout (mem (s2\<lparr>mem := h\<rparr>)) f3" using lay3 by simp
        obtain f4 s4 where s4: "deliver_frag ops interface f3 (s2\<lparr>mem := h\<rparr>) = Some (f4, s4)"
          "entry_step (s2\<lparr>mem := h\<rparr>) f3 s4 f4" "\<not> frag_in_use f4" "frag_inv (mem s4) f4"
          "world s4 = ip_deliver ops interface (datagram_header (frag_header (mem (s2\<lparr>mem := h\<rparr>)) f3)
            (frag_headerLength f3 + frag_dataLen f3) @ take (frag_dataLen f3) (payload (mem (s2\<lparr>mem := h\<rparr>)) f3)) (world (s2\<lparr>mem := h\<rparr>))"
          by (rule deliver_frag_eq [OF hp3 lay3', of ops interface])
        show thesis
          by (rule complete [of f4 s4 "frag_header h f3" "frag_dataLen f3" "payload h f3"])
            (use run none s4 entry_step_trans [OF es3 s4(2)] Nil filled calls2 layout_lengths(1) [OF lay3] in \<open>auto simp: delivers_def\<close>)
      next
        case (Cons x xs)
        have ch: "frag_firstHole f3 = fst x" "hole_ok (frag_dataLen f3) x" using fl(6) Cons by (simp_all add: frag_holes_def)
        then have "hole_fits f3 (frag_firstHole f3)" by (simp add: hole_fits_def hole_ok_def)
        from find_hole_Some [OF lay3 this] obtain p where "ipv4FindHole f3 (frag_firstHole f3) = Some p" by blast
        then show thesis using kept [of f3 "s2\<lparr>mem := h\<rparr>"] run es3 Cons fl(6) filled calls2 by simp
      qed
    qed
  qed
qed

end
