(* ===== verification/Ipv4Queue.thy ===== *)
theory Ipv4Queue
  imports Ipv4Reassemble
begin

text \<open>
  The reassembly queue as a whole: its entries use blocks of their own, so that a step of one entry leaves the others
  as they are, and an entry is found by the source, the destination, the identification and the protocol of its header.
\<close>

subsection \<open>Entries that keep apart\<close>

definition queue_ok :: "heap \<Rightarrow> Ipv4FragDesc list \<Rightarrow> bool" where
  "queue_ok h q \<longleftrightarrow> heap_ok h \<and> (\<forall>i < length q. frag_inv h (q ! i)) \<and>
     (\<forall>i < length q. \<forall>j < length q. i \<noteq> j \<longrightarrow> frag_blocks (q ! i) \<inter> frag_blocks (q ! j) = {})"

definition queue_blocks :: "Ipv4FragDesc list \<Rightarrow> nat set" where
  "queue_blocks q = (\<Union>i < length q. frag_blocks (q ! i))"

text \<open>A step of the queue changes only the blocks of its entries, and the queue holds on to every block it allocates.\<close>

definition queue_step :: "'w sys \<Rightarrow> Ipv4FragDesc list \<Rightarrow> 'w sys \<Rightarrow> Ipv4FragDesc list \<Rightarrow> bool" where
  "queue_step s q s' q' \<longleftrightarrow> queue_ok (mem s') q' \<and> length q' = length q \<and>
     live (mem s') - queue_blocks q' = live (mem s) - queue_blocks q \<and>
     (\<forall>x \<in> live (mem s) - queue_blocks q. blocks (mem s') x = blocks (mem s) x)"

lemma queue_step_trans: "queue_step s q s1 q1 \<Longrightarrow> queue_step s1 q1 s2 q2 \<Longrightarrow> queue_step s q s2 q2"
  by (auto simp: queue_step_def)

lemma queue_step_refl: "queue_ok (mem s) q \<Longrightarrow> queue_step s q s q"
  by (simp add: queue_step_def)

lemma frag_frame:
  assumes "\<forall>x \<in> frag_blocks frag. blocks h' x = blocks h x"
  shows "frag_layout h' frag = frag_layout h frag" and "payload h' frag = payload h frag \<or> chunks (frag_buffer frag) = []"
    and "frag_header h' frag = frag_header h frag \<or> chunks (frag_buffer frag) = []"
    and "frag_holes h' frag hs = frag_holes h frag hs" and "frag_inv h' frag = frag_inv h frag"
proof -
  have ck: "chunk_ok h' c = chunk_ok h c" "chunk_bytes h' c = chunk_bytes h c" if "c \<in> set (chunks (frag_buffer frag))" for c
  proof -
    have b: "blocks h' (chunk_block c) = blocks h (chunk_block c)" using assms that by blast
    show "chunk_ok h' c = chunk_ok h c"
      by (cases "chunk_address c"; cases "the (chunk_address c)") (use b in \<open>simp_all add: chunk_ok_def chunk_block_def\<close>)
    show "chunk_bytes h' c = chunk_bytes h c"
      by (cases "chunk_address c"; cases "the (chunk_address c)") (use b in \<open>simp_all add: chunk_bytes_def chunk_block_def\<close>)
  qed
  have "chunks_ok h' (chunks (frag_buffer frag)) = chunks_ok h (chunks (frag_buffer frag))" using ck(1) by (simp add: chunks_ok_def)
  moreover have "owners_ok h' (chunks (frag_buffer frag)) = owners_ok h (chunks (frag_buffer frag))"
    by (rule owners_ok_cong) (use assms in \<open>auto simp: owning_def\<close>)
  ultimately show lay: "frag_layout h' frag = frag_layout h frag" by (simp add: frag_layout_def nb_ok_def)
  have pl: "payload h' frag = payload h frag" if "chunks (frag_buffer frag) = c # cs" for c cs
    using ck(2) that unfolding payload_def contents_def by (auto intro!: arg_cong [of _ _ concat])
  then show "payload h' frag = payload h frag \<or> chunks (frag_buffer frag) = []" by (cases "chunks (frag_buffer frag)") auto
  show "frag_header h' frag = frag_header h frag \<or> chunks (frag_buffer frag) = []"
    using ck(2) by (cases "chunks (frag_buffer frag)") (auto simp: frag_header_def)
  show fh: "frag_holes h' frag hs = frag_holes h frag hs" for hs
    using lay pl by (cases "chunks (frag_buffer frag)") (auto simp: frag_holes_def frag_layout_def)
  have "frag_holes h' frag = frag_holes h frag" by (rule ext) (rule fh)
  then show "frag_inv h' frag = frag_inv h frag" by (simp add: frag_inv_def)
qed

lemma queue_frag_blocks: "i < length q \<Longrightarrow> x \<in> frag_blocks (q ! i) \<Longrightarrow> x \<in> queue_blocks q"
  by (auto simp: queue_blocks_def)

lemma frag_inv_live: "frag_inv h frag \<Longrightarrow> frag_blocks frag \<subseteq> live h"
  using layout_all_owned(2) by (auto simp: frag_inv_def frag_holes_def split: if_splits)

lemma queue_ok_live: "queue_ok h q \<Longrightarrow> queue_blocks q \<subseteq> live h"
  using frag_inv_live by (fastforce simp: queue_blocks_def queue_ok_def)

text \<open>A step of one entry is a step of the queue, and the other entries do not notice it.\<close>

lemma other_entry:
  assumes q: "queue_ok (mem s) q" and ij: "i < length q" "j < length q" "j \<noteq> i" and es: "entry_step s (q ! i) s' frag'"
  shows "\<forall>x \<in> frag_blocks (q ! j). blocks (mem s') x = blocks (mem s) x" and "frag_blocks frag' \<inter> frag_blocks (q ! j) = {}"
proof -
  have out: "x \<in> live (mem s) - frag_blocks (q ! i)" if "x \<in> frag_blocks (q ! j)" for x
  proof -
    have "frag_blocks (q ! i) \<inter> frag_blocks (q ! j) = {}" "frag_inv (mem s) (q ! j)" using q ij by (simp_all add: queue_ok_def)
    with that frag_inv_live show ?thesis by blast
  qed
  then show "\<forall>x \<in> frag_blocks (q ! j). blocks (mem s') x = blocks (mem s) x" using es by (simp add: entry_step_def)
  show "frag_blocks frag' \<inter> frag_blocks (q ! j) = {}"
  proof -
    have "frag_blocks (q ! j) \<subseteq> live (mem s) - frag_blocks (q ! i)" using out by blast
    then have "frag_blocks (q ! j) \<subseteq> live (mem s') - frag_blocks frag'" using es by (simp add: entry_step_def)
    then show ?thesis by blast
  qed
qed

lemma queue_update:
  assumes q: "queue_ok (mem s) q" and i: "i < length q" and es: "entry_step s (q ! i) s' frag'" and inv: "frag_inv (mem s') frag'"
  shows "queue_step s q s' (q[i := frag'])"
proof -
  note other = other_entry [OF q i _ _ es]
  have "frag_inv (mem s') (q[i := frag'] ! j)" if "j < length q" for j
    using that inv q frag_frame(5) [OF other(1)] by (cases "j = i") (auto simp: queue_ok_def)
  moreover have "frag_blocks (q[i := frag'] ! j) \<inter> frag_blocks (q[i := frag'] ! k) = {}" if "j < length q" "k < length q" "j \<noteq> k" for j k
    using that q other(2) [of j] other(2) [of k] i by (cases "j = i"; cases "k = i") (auto simp: queue_ok_def)
  ultimately have ok: "queue_ok (mem s') (q[i := frag'])" using es by (simp add: queue_ok_def entry_step_def)
  define R where "R = (\<Union>j \<in> {..<length q} - {i}. frag_blocks (q ! j))"
  have qb: "queue_blocks q = frag_blocks (q ! i) \<union> R" "queue_blocks (q[i := frag']) = frag_blocks frag' \<union> R"
    using i by (auto simp: queue_blocks_def R_def nth_list_update split: if_splits)
  show ?thesis using ok es qb by (auto simp: queue_step_def entry_step_def)
qed

subsection \<open>Finding the entry of a packet\<close>

definition datagram_key :: "buffer \<Rightarrow> u32 \<times> u32 \<times> u16 \<times> u8" where
  "datagram_key bytes = (get_le32 bytes 12, get_le32 bytes 16, get16 bytes 4, bytes ! 9)"

lemma datagram_key_take [simp]: "20 \<le> n \<Longrightarrow> n \<le> length bytes \<Longrightarrow> datagram_key (take n bytes) = datagram_key bytes"
  by (simp add: datagram_key_def get_le32_def get16_def)

lemma same_datagram_eq:
  assumes "packet_at h d header" and "20 \<le> length header" and "packet_at h p bytes" and "20 \<le> length bytes"
  shows "same_datagram d p h = Some (datagram_key header = datagram_key bytes)"
proof -
  note m = packet_members [OF assms(1)] note n = packet_members [OF assms(3)]
  show ?thesis
    using m(1) [of 9] m(2) [of 4] m(3) [of 12] m(3) [of 16] n(1) [of 9] n(2) [of 4] n(3) [of 12] n(3) [of 16] assms(2,4)
    by (simp add: same_datagram_def datagram_key_def)
qed

lemma frag_in_use_iff: "frag_in_use frag \<longleftrightarrow> chunks (frag_buffer frag) \<noteq> []"
  by (simp add: frag_in_use_def)

lemma layout_packet:
  assumes "frag_layout h frag"
  obtains d where "netBufferAt (frag_buffer frag) 0 = Some d" and "packet_at h d (frag_header h frag)" and "frag_in_use frag"
proof -
  from assms obtain c cs where c: "chunks (frag_buffer frag) = c # cs" "chunk_ok h c" "frag_header h frag = chunk_bytes h c"
    "chunk_length c = frag_headerLength frag" by (elim layoutE)
  obtain d where d: "chunk_at c 0 = Some d" "packet_at h d (chunk_bytes h c)" by (rule chunk_packet [OF c(2)])
  have "0 < chunk_length c" using c(4) layout_lengths(4) [OF assms] by simp
  then show ?thesis using that d c by (simp add: netBufferAt_def frag_in_use_iff)
qed

lemma frag_inv_layout: "frag_inv h frag \<Longrightarrow> frag_in_use frag \<Longrightarrow> frag_layout h frag"
  by (auto simp: frag_inv_def frag_holes_def)

lemma queue_ok_inv: "queue_ok h q \<Longrightarrow> j < length q \<Longrightarrow> frag_inv h (q ! j)"
  by (simp add: queue_ok_def)

lemma queue_ok_heap: "queue_ok h q \<Longrightarrow> heap_ok h"
  by (simp add: queue_ok_def)

definition entry_of :: "heap \<Rightarrow> buffer \<Rightarrow> Ipv4FragDesc \<Rightarrow> bool" where
  "entry_of h bytes frag \<longleftrightarrow> frag_in_use frag \<and> datagram_key (frag_header h frag) = datagram_key bytes"

lemma match_frag_eq:
  assumes "\<forall>j < length q. frag_in_use (q ! j) \<longrightarrow> frag_layout h (q ! j)" and pk: "packet_at h p bytes" "20 \<le> length bytes"
  shows "(\<exists>j < length q. entry_of h bytes (q ! j) \<and> match_frag q p h i = Some (Some (i + j))) \<or>
    (\<forall>j < length q. \<not> entry_of h bytes (q ! j)) \<and> match_frag q p h i = Some None"
  using assms(1)
proof (induction q arbitrary: i)
  case (Cons frag q)
  have inv: "frag_in_use frag \<longrightarrow> frag_layout h frag" "\<forall>j < length q. frag_in_use (q ! j) \<longrightarrow> frag_layout h (q ! j)"
    using Cons.prems by (simp_all add: All_less_Suc2)
  have step: "match_frag (frag # q) p h i = (if entry_of h bytes frag then Some (Some i) else match_frag q p h (Suc i))"
  proof (cases "frag_in_use frag")
    case True
    then have lay: "frag_layout h frag" using inv(1) by simp
    obtain d where d: "netBufferAt (frag_buffer frag) 0 = Some d" "packet_at h d (frag_header h frag)" by (rule layout_packet [OF lay])
    have "20 \<le> length (frag_header h frag)" using layout_lengths [OF lay] by simp
    from same_datagram_eq [OF d(2) this pk] True d(1) show ?thesis by (simp add: entry_of_def)
  qed (simp add: entry_of_def)
  show ?case
  proof (cases "entry_of h bytes frag")
    case True
    with step show ?thesis by auto
  next
    case False
    then show ?thesis using step Cons.IH [OF inv(2), of "Suc i"] by (auto simp: less_Suc_eq_0_disj)
  qed
qed simp

lemma free_frag_eq:
  "(\<exists>j < length q. \<not> frag_in_use (q ! j) \<and> free_frag q i = Some (i + j)) \<or> (\<forall>j < length q. frag_in_use (q ! j)) \<and> free_frag q i = None"
proof (induction q arbitrary: i)
  case (Cons frag q)
  then show ?case using Cons.IH [of "Suc i"] by (cases "frag_in_use frag") (auto simp: less_Suc_eq_0_disj)
qed simp

section \<open>A packet at the queue\<close>

text \<open>
  The arrival of a packet at the reassembly queue: the entry it belongs to is found or made, and the fragment is added
  to it.
\<close>

subsection \<open>The search\<close>

lemma search_cases:
  assumes alloc: "alloc_ok (ipAlloc ops)" and q: "queue_ok (mem s) q"
    and pk: "packet_at (mem s) packet bytes" "ip_packet bytes" "fst packet \<in> live (mem s) - queue_blocks q"
  obtains (refused) q' s' where "ipv4SearchFragQueue ops q packet s = Some (None, q', s')" and "queue_step s q s' q'"
      and "ip_calls ops (world s) (world s')" and "\<not> (allocs ops \<and> (\<exists>frag \<in> set q. \<not> frag_in_use frag \<or> entry_of (mem s) bytes frag))"
  | (found) i where "ipv4SearchFragQueue ops q packet s = Some (Some i, q, s)" and "i < length q" and "entry_of (mem s) bytes (q ! i)"
  | (made) i frag' s' where "ipv4SearchFragQueue ops q packet s = Some (Some i, q[i := frag'], s')" and "i < length q"
      and "\<not> frag_in_use (q ! i)" and "\<forall>j < length q. \<not> entry_of (mem s) bytes (q ! j)" and "entry_step s (q ! i) s' frag'"
      and "frag_holes (mem s') frag' [(0, IPV4_INFINITY)]" and "frag_dataLen frag' = 0"
      and "frag_header (mem s') frag' = take (header_len bytes) bytes" and "ip_calls ops (world s) (world s')"
proof -
  have inv: "\<forall>j < length q. frag_in_use (q ! j) \<longrightarrow> frag_layout (mem s) (q ! j)" and hp: "heap_ok (mem s)"
    using frag_inv_layout [OF queue_ok_inv [OF q]] queue_ok_heap [OF q] by simp_all
  have l20: "20 \<le> length bytes" using pk(2) by (simp add: ip_packet_def)
  from match_frag_eq [OF inv pk(1) l20, of 0]
  show thesis
  proof (elim disjE exE conjE)
    fix j assume "j < length q" "entry_of (mem s) bytes (q ! j)" "match_frag q packet (mem s) 0 = Some (Some (0 + j))"
    then show thesis using found [of j] by (simp add: ipv4SearchFragQueue_def)
  next
    assume none: "\<forall>j < length q. \<not> entry_of (mem s) bytes (q ! j)" "match_frag q packet (mem s) 0 = Some None"
    from free_frag_eq [of q 0] show thesis
    proof (elim disjE exE conjE)
      assume "\<forall>j < length q. frag_in_use (q ! j)" "free_frag q 0 = None"
      moreover from this none have "\<not> (\<exists>frag \<in> set q. \<not> frag_in_use frag \<or> entry_of (mem s) bytes frag)" by (metis in_set_conv_nth)
      ultimately show thesis using none queue_step_refl [OF q] by (intro refused [of q s]) (auto simp: ipv4SearchFragQueue_def ip_calls.none)
    next
      fix j assume j: "j < length q" "\<not> frag_in_use (q ! j)" "free_frag q 0 = Some (0 + j)"
      have fr: "chunks (frag_buffer (q ! j)) = []" using j(2) by (simp add: frag_in_use_iff)
      have lv: "fst packet \<in> live (mem s)" using pk(3) by simp
      obtain go frag' s' where n: "new_frag ops packet (q ! j) s = Some (go, frag', s')" "entry_step s (q ! j) s' frag'"
        "go \<longrightarrow> frag_holes (mem s') frag' [(0, IPV4_INFINITY)] \<and> frag_dataLen frag' = 0 \<and> frag_header (mem s') frag' = take (header_len bytes) bytes"
        "\<not> go \<longrightarrow> \<not> frag_in_use frag' \<and> frag_inv (mem s') frag'" "allocs ops \<longrightarrow> go"
        by (rule new_frag_eq [OF alloc hp fr pk(1,2) lv])
      show thesis
      proof (cases go)
        case True
        then show thesis
          using n none j by (intro made [of j frag' s']) (auto simp: ipv4SearchFragQueue_def new_frag_calls)
      next
        case False
        have "queue_step s q s' (q[j := frag'])" using n False by (intro queue_update [OF q j(1)]) simp_all
        then show thesis
          using False n none j by (intro refused [of "q[j := frag']" s']) (auto simp: ipv4SearchFragQueue_def new_frag_calls)
      qed
    qed
  qed
qed

text \<open>A packet outside the queue stays where it is.\<close>

lemma packet_after_queue_step:
  assumes "queue_step s q s' q'" and "packet_at (mem s) p bytes" and "fst p \<in> live (mem s) - queue_blocks q"
  shows "packet_at (mem s') p bytes" and "fst p \<in> live (mem s') - queue_blocks q'"
  using assms by (auto simp: queue_step_def intro: packet_at_frame)

subsection \<open>The arrival\<close>

lemma holes_inv: "frag_holes h frag hs \<Longrightarrow> frag_inv h frag"
  by (auto simp: frag_inv_def frag_holes_def elim: layout_packet)

lemma reassemble_unfold:
  assumes pk: "packet_at (mem s) packet bytes" and fr: "fragment bytes len a b mf data" and mf: "mf \<longrightarrow> len mod 8 = 0"
  shows "ipv4ReassembleDatagram ops interface q packet (header_len bytes + len) s = do {
     (found, q, s) \<leftarrow> ipv4SearchFragQueue ops q packet s;
     (case found of
        None \<Rightarrow> Some (q, s)
      | Some i \<Rightarrow> do {
          (frag, s) \<leftarrow> add_fragment ops interface packet len (ntohs (get16 bytes 6)) a b (q ! i) s;
          Some (q[i := frag], s)
        })
   }"
proof -
  have ip: "ip_packet bytes" using fr by (simp add: fragment_def)
  obtain hl where hl: "load_headerLength (mem s) packet = Some hl" "hl * 4 = header_len bytes"
    using packet_headerLength [OF pk ip] by blast
  have "load16 (mem s) (member packet 6) = Some (get16 bytes 6)"
    using packet_members(2) [OF pk, of 6] ip by (simp add: ip_packet_def)
  moreover have ab: "(ntohs (get16 bytes 6) AND IPV4_OFFSET_MASK) * 8 = a" "a + word_of_nat len = b"
    and nm: "ntohs (get16 bytes 6) AND IPV4_FLAG_MF \<noteq> 0 \<longrightarrow> len mod 8 = 0" using fr mf unfolding fragment_def by blast+
  moreover have "size_sub (header_len bytes + len) (hl * 4) = len" by (simp add: hl(2))
  moreover have "\<not> (ntohs (get16 bytes 6) AND IPV4_FLAG_MF \<noteq> 0 \<and> len mod 8 \<noteq> 0)" by (cases "len mod 8 = 0") (use nm in simp_all)
  ultimately show ?thesis
    unfolding ipv4ReassembleDatagram_def Let_def by (simp only: hl(1) Option.bind.simps option.map if_False)
qed

lemma bad_length_ignored:
  assumes pk: "packet_at (mem s) packet bytes" and fr: "fragment bytes len a b mf data" and mf: "mf" "len mod 8 \<noteq> 0"
  shows "ipv4ReassembleDatagram ops interface q packet (header_len bytes + len) s = Some (q, s)"
proof -
  have ip: "ip_packet bytes" using fr by (simp add: fragment_def)
  obtain hl where hl: "load_headerLength (mem s) packet = Some hl" "hl * 4 = header_len bytes"
    using packet_headerLength [OF pk ip] by blast
  have "load16 (mem s) (member packet 6) = Some (get16 bytes 6)"
    using packet_members(2) [OF pk, of 6] ip by (simp add: ip_packet_def)
  moreover have "ntohs (get16 bytes 6) AND IPV4_FLAG_MF \<noteq> 0" using fr mf(1) unfolding fragment_def by blast
  ultimately show ?thesis using hl mf by (simp add: ipv4ReassembleDatagram_def Let_def)
qed

text \<open>Adding to the entry \<open>i\<close>: the queue makes a step, and at most one datagram is handed on.\<close>

lemma add_at_safe:
  assumes alloc: "alloc_ok (ipAlloc ops)" and q: "queue_ok (mem s) q" and i: "i < length q" "frag_in_use (q ! i)"
    and pk: "packet_at (mem s) packet bytes" "fst packet \<in> live (mem s) - queue_blocks q"
    and fr: "fragment bytes len a b mf data" and mf: "mf \<longrightarrow> len mod 8 = 0"
  obtains frag' s' where "add_fragment ops interface packet len (ntohs (get16 bytes 6)) a b (q ! i) s = Some (frag', s')"
    and "queue_step s q s' (q[i := frag'])"
    and "ip_calls ops (world s) (world s') \<or> (\<exists>datagram. delivers ops interface (world s) (world s') datagram)"
proof -
  have hp: "heap_ok (mem s)" using q by (simp add: queue_ok_def)
  have "frag_inv (mem s) (q ! i)" using q i by (simp add: queue_ok_def)
  then obtain hs where inv: "frag_holes (mem s) (q ! i) hs" using i(2) by (auto simp: frag_inv_def)
  have out: "fst packet \<in> live (mem s) - frag_blocks (q ! i)" using pk(2) i(1) queue_frag_blocks by blast
  show thesis
  proof (cases rule: add_fragment_cases [OF alloc hp inv pk(1) out fr mf, of interface, case_names dropped kept complete])
    case (dropped frag' s')
    then show thesis using that queue_update [OF q i(1)] by blast
  next
    case (kept frag' s')
    then show thesis using that queue_update [OF q i(1)] holes_inv by blast
  next
    case (complete frag' s' H n P)
    then show thesis using that queue_update [OF q i(1)] by blast
  qed
qed

lemma reassemble_safe:
  assumes alloc: "alloc_ok (ipAlloc ops)" and q: "queue_ok (mem s) q"
    and pk: "packet_at (mem s) packet bytes" "fst packet \<in> live (mem s) - queue_blocks q"
    and fr: "fragment bytes len a b mf data"
  obtains q' s' where "ipv4ReassembleDatagram ops interface q packet (header_len bytes + len) s = Some (q', s')"
    and "queue_step s q s' q'"
    and "ip_calls ops (world s) (world s') \<or> (\<exists>datagram. delivers ops interface (world s) (world s') datagram)"
proof (cases "mf \<longrightarrow> len mod 8 = 0")
  case mf: True
  have ip: "ip_packet bytes" using fr by (simp add: fragment_def)
  note run = reassemble_unfold [OF pk(1) fr mf, of ops interface q]
  show thesis
  proof (cases rule: search_cases [OF alloc q pk(1) ip pk(2), case_names refused found made])
    case (refused q' s')
    then show thesis using that [of q' s'] run by simp
  next
    case (found i)
    have use: "frag_in_use (q ! i)" using found(3) by (simp add: entry_of_def)
    show thesis
      by (rule add_at_safe [OF alloc q found(2) use pk fr mf, of interface])
        (rule that, use run found(1) in simp_all)
  next
    case (made i frag' s')
    have st: "queue_step s q s' (q[i := frag'])" by (rule queue_update [OF q made(2,5) holes_inv [OF made(6)]])
    have q1: "queue_ok (mem s') (q[i := frag'])" and i1: "i < length (q[i := frag'])" using st made(2) by (simp_all add: queue_step_def)
    have use: "frag_in_use (q[i := frag'] ! i)" using made(2,6) by (auto simp: frag_holes_def elim: layout_packet)
    obtain f2 s2 where f2: "add_fragment ops interface packet len (ntohs (get16 bytes 6)) a b (q[i := frag'] ! i) s' = Some (f2, s2)"
      "queue_step s' (q[i := frag']) s2 (q[i := frag', i := f2])"
      "ip_calls ops (world s') (world s2) \<or> (\<exists>datagram. delivers ops interface (world s') (world s2) datagram)"
      by (rule add_at_safe [OF alloc q1 i1 use packet_after_queue_step [OF st pk] fr mf])
    have "ip_calls ops (world s) (world s2) \<or> (\<exists>datagram. delivers ops interface (world s) (world s2) datagram)"
      using f2(3) made(9) by (auto simp: delivers_def intro: ip_calls_trans)
    then show thesis using that [of "q[i := f2]" s2] run made(1) f2 queue_step_trans [OF st f2(2)] by simp
  qed
next
  case False
  then show thesis using that [of q s] bad_length_ignored [OF pk(1) fr, of ops interface q] queue_step_refl [OF q] by (simp add: ip_calls.none)
qed

end
