(* ===== verification/Ipv4Datagram.thy ===== *)
theory Ipv4Datagram
  imports Ipv4Queue
begin

text \<open>
  A datagram in fragments: whatever the order in which its pieces arrive, and however often, the queue hands on the
  datagram once the last missing byte has come in, and not before.
\<close>

subsection \<open>Pieces of a datagram\<close>

definition fragment_offset :: "buffer \<Rightarrow> nat" where
  "fragment_offset bytes = unat (ntohs (get16 bytes 6) AND IPV4_OFFSET_MASK) * 8"

definition more_fragments :: "buffer \<Rightarrow> bool" where
  "more_fragments bytes \<longleftrightarrow> ntohs (get16 bytes 6) AND IPV4_FLAG_MF \<noteq> 0"

definition packet_data :: "buffer \<Rightarrow> buffer" where
  "packet_data bytes = drop (header_len bytes) bytes"

text \<open>A packet that carries a piece of the payload \<open>D\<close> of the datagram with the header \<open>H\<close>.\<close>

definition ip_piece :: "buffer \<Rightarrow> buffer \<Rightarrow> buffer \<Rightarrow> bool" where
  "ip_piece H D bytes \<longleftrightarrow> ip_packet bytes \<and> datagram_key bytes = datagram_key H \<and>
     (let a = fragment_offset bytes; data = packet_data bytes; b = a + length data in
        b \<le> length D \<and> data = take (length data) (drop a D) \<and> (more_fragments bytes \<longleftrightarrow> b \<noteq> length D) \<and>
        (more_fragments bytes \<longrightarrow> length data mod 8 = 0) \<and> (a = 0 \<longrightarrow> take (header_len bytes) bytes = H))"

definition covers :: "buffer \<Rightarrow> nat set" where
  "covers bytes = {fragment_offset bytes..<fragment_offset bytes + length (packet_data bytes)}"

lemma ip_pieceD:
  assumes "ip_piece H D bytes" and "length D < 65536"
  obtains a b where "fragment bytes (length (packet_data bytes)) a b (more_fragments bytes) (packet_data bytes)"
    and "piece D a b (more_fragments bytes) (packet_data bytes)" and "covers bytes = {unat a..<unat b}"
    and "more_fragments bytes \<longrightarrow> length (packet_data bytes) mod 8 = 0" and "a = 0 \<longrightarrow> take (header_len bytes) bytes = H"
    and "ip_packet bytes" and "datagram_key bytes = datagram_key H"
proof -
  let ?n = "length (packet_data bytes)"
  define a where "a = (ntohs (get16 bytes 6) AND IPV4_OFFSET_MASK) * 8"
  define b where "b = a + word_of_nat ?n"
  have ip: "ip_packet bytes" and key: "datagram_key bytes = datagram_key H" using assms(1) by (simp_all add: ip_piece_def)
  have a: "unat a = fragment_offset bytes" using offset_times_8 by (simp add: a_def fragment_offset_def)
  have p: "fragment_offset bytes + ?n \<le> length D" "packet_data bytes = take ?n (drop (fragment_offset bytes) D)"
    "more_fragments bytes \<longleftrightarrow> fragment_offset bytes + ?n \<noteq> length D" "more_fragments bytes \<longrightarrow> ?n mod 8 = 0"
    "fragment_offset bytes = 0 \<longrightarrow> take (header_len bytes) bytes = H"
    using assms(1) unfolding ip_piece_def Let_def by blast+
  have fr: "fragment bytes ?n a b (more_fragments bytes) (packet_data bytes)"
    unfolding fragment_def
    using ip p(1) assms(2) a by (simp add: a_def [symmetric] b_def more_fragments_def) (simp add: packet_data_def ip_packet_def)
  note f = fragmentD [OF fr]
  have al: "more_fragments bytes \<longrightarrow> aligned b" using f(1,2) p(4) by (auto simp: mod_eq_0_iff_dvd)
  have pc: "piece D a b (more_fragments bytes) (packet_data bytes)"
    using p al f by (simp add: piece_def a)
  have a0: "a = 0 \<longrightarrow> take (header_len bytes) bytes = H" using p(5) by (simp add: a [symmetric])
  have "covers bytes = {unat a..<unat b}" using f(2) a by (simp add: covers_def)
  from that [OF fr pc this p(4) a0 ip key] show thesis .
qed

subsection \<open>The queue while the datagram is incomplete\<close>

definition idle :: "buffer \<Rightarrow> heap \<Rightarrow> Ipv4FragDesc list \<Rightarrow> bool" where
  "idle H h q \<longleftrightarrow> (\<forall>j < length q. \<not> entry_of h H (q ! j)) \<and> (\<exists>i < length q. \<not> frag_in_use (q ! i))"

definition assembling :: "buffer \<Rightarrow> buffer \<Rightarrow> nat set \<Rightarrow> bool \<Rightarrow> heap \<Rightarrow> Ipv4FragDesc list \<Rightarrow> bool" where
  "assembling H D R ended h q \<longleftrightarrow>
     (\<exists>i < length q. entry_of h H (q ! i) \<and> (\<forall>j < length q. entry_of h H (q ! j) \<longrightarrow> j = i) \<and>
        (\<exists>hs. frag_holes h (q ! i) hs \<and> rebuilt D R ended hs (frag_dataLen (q ! i)) (payload h (q ! i))) \<and>
        (0 \<in> R \<longrightarrow> frag_header h (q ! i) = H))"

definition progress :: "buffer \<Rightarrow> buffer \<Rightarrow> nat set \<Rightarrow> bool \<Rightarrow> heap \<Rightarrow> Ipv4FragDesc list \<Rightarrow> bool" where
  "progress H D R ended h q \<longleftrightarrow> R = {} \<and> \<not> ended \<and> idle H h q \<or> assembling H D R ended h q"

text \<open>Entries of other datagrams stay what they are.\<close>

lemma entry_of_frame:
  assumes q: "queue_ok (mem s) q" and ij: "i < length q" "j < length q" "j \<noteq> i" and es: "entry_step s (q ! i) s' frag'"
  shows "entry_of (mem s') H (q ! j) = entry_of (mem s) H (q ! j)"
  using frag_frame(3) [OF other_entry(1) [OF q ij es]] by (auto simp: entry_of_def frag_in_use_iff)

lemma search_assembling:
  assumes alloc: "alloc_ok (ipAlloc ops)" "allocs ops" and q: "queue_ok (mem s) q"
    and pk: "packet_at (mem s) p bytes" "fst p \<in> live (mem s) - queue_blocks q"
    and ip: "ip_packet bytes" "datagram_key bytes = datagram_key H"
    and i: "i < length q" "entry_of (mem s) H (q ! i)" "\<forall>j < length q. entry_of (mem s) H (q ! j) \<longrightarrow> j = i"
  shows "ipv4SearchFragQueue ops q p s = Some (Some i, q, s)"
proof -
  have eo: "entry_of h bytes frag = entry_of h H frag" for h frag using ip(2) by (simp add: entry_of_def)
  show ?thesis
  proof (cases rule: search_cases [OF alloc(1) q pk(1) ip(1) pk(2), case_names refused found made])
    case (refused q' s')
    then show ?thesis using alloc(2) i(1,2) eo nth_mem by blast
  next
    case (found k)
    then show ?thesis using i by (auto simp: eo)
  next
    case (made k frag' s')
    then show ?thesis using i(1,2) by (simp add: eo)
  qed
qed

text \<open>One piece at the entry of its datagram.\<close>

lemma piece_at_entry:
  assumes alloc: "alloc_ok (ipAlloc ops)" "allocs ops" and q: "queue_ok (mem s) q" and as: "assembling H D R ended (mem s) q"
    and pk: "packet_at (mem s) p bytes" "fst p \<in> live (mem s) - queue_blocks q"
    and pc: "ip_piece H D bytes" and D: "length D \<le> 8132"
  obtains q' s' where "ipv4ReassembleDatagram ops interface q p (length bytes) s = Some (q', s')" and "queue_step s q s' q'"
    and "(ended \<or> \<not> more_fragments bytes) \<and> R \<union> covers bytes = {..<length D} \<longrightarrow>
      idle H (mem s') q' \<and> delivers ops interface (world s) (world s') (datagram_header H (length H + length D) @ D)"
    and "\<not> ((ended \<or> \<not> more_fragments bytes) \<and> R \<union> covers bytes = {..<length D}) \<longrightarrow>
      assembling H D (R \<union> covers bytes) (ended \<or> \<not> more_fragments bytes) (mem s') q' \<and> ip_calls ops (world s) (world s')"
proof -
  let ?mf = "more_fragments bytes" and ?n = "length (packet_data bytes)" and ?data = "packet_data bytes"
  from as obtain i hs where i: "i < length q" "entry_of (mem s) H (q ! i)" "\<forall>j < length q. entry_of (mem s) H (q ! j) \<longrightarrow> j = i"
    and inv: "frag_holes (mem s) (q ! i) hs" and rb: "rebuilt D R ended hs (frag_dataLen (q ! i)) (payload (mem s) (q ! i))"
    and hd0: "0 \<in> R \<longrightarrow> frag_header (mem s) (q ! i) = H"
    using as unfolding assembling_def by (elim exE conjE)
  have D': "length D < 65536" using D by simp
  obtain a b where f: "fragment bytes ?n a b ?mf ?data" "piece D a b ?mf ?data" "covers bytes = {unat a..<unat b}"
    "?mf \<longrightarrow> ?n mod 8 = 0" "a = 0 \<longrightarrow> take (header_len bytes) bytes = H" "ip_packet bytes" "datagram_key bytes = datagram_key H"
    by (rule ip_pieceD [OF pc D'])
  have hp: "heap_ok (mem s)" using q by (simp add: queue_ok_def)
  have out: "fst p \<in> live (mem s) - frag_blocks (q ! i)" using pk(2) i(1) queue_frag_blocks by blast
  have len: "header_len bytes + ?n = length bytes" using f(6) by (simp add: packet_data_def ip_packet_def)
  have sr: "ipv4SearchFragQueue ops q p s = Some (Some i, q, s)"
    by (rule search_assembling [OF alloc q pk f(6,7) i])
  have run: "ipv4ReassembleDatagram ops interface q p (length bytes) s = do {
      (frag, s) \<leftarrow> add_fragment ops interface p ?n (ntohs (get16 bytes 6)) a b (q ! i) s; Some (q[i := frag], s) }"
    using reassemble_unfold [OF pk(1) f(1,4), of ops interface q] sr by (simp add: len)
  have small: "max (frag_dataLen (q ! i)) (unat b) \<le> 8132" using rb f(2) D by (simp add: rebuilt_def piece_def)
  have ab: "a \<le> b" by (rule fragmentD(3) [OF f(1)])
  have step: "rebuilt D (R \<union> covers bytes) (ended \<or> \<not> ?mf) (punch a b ?mf hs) n' P'"
    if "filled bytes a b ?data hs (mem s) (q ! i) H' n' P'" for H' n' P'
  proof -
    have fl: "n' = max (frag_dataLen (q ! i)) (unat b)" "length P' = n' + 6" "\<And>k. unat a \<le> k \<Longrightarrow> k < unat b \<Longrightarrow> P' ! k = ?data ! (k - unat a)"
      "\<And>k. k < frag_dataLen (q ! i) \<Longrightarrow> \<not> in_holes hs k \<Longrightarrow> \<not> (unat a \<le> k \<and> k < unat b) \<Longrightarrow> P' ! k = payload (mem s) (q ! i) ! k"
      using that by (simp_all add: filled_def)
    have d: "?data = take (unat b - unat a) (drop (unat a) D)" "unat b \<le> length D" using f(2) by (simp_all add: piece_def)
    have "P' ! k = D ! k" if "unat a \<le> k" "k < unat b" for k using fl(3) [OF that] d that by simp
    moreover have "P' ! k = payload (mem s) (q ! i) ! k" if k: "k \<in> R" "\<not> (unat a \<le> k \<and> k < unat b)" for k
    proof (rule fl(4) [OF _ _ k(2)])
      show "k < frag_dataLen (q ! i)" using rb k(1) by (auto simp: rebuilt_def)
      moreover have "frag_dataLen (q ! i) \<le> length D" using rb by (simp add: rebuilt_def)
      ultimately have "k < 65535" using D by simp
      then show "\<not> in_holes hs k" using rb k(1) by (auto simp: rebuilt_def)
    qed
    ultimately show ?thesis using rebuilt_piece [OF rb f(2) fl(2,1)] by (simp add: f(3))
  qed
  have done': "punch a b ?mf hs = [] \<longleftrightarrow> (ended \<or> \<not> ?mf) \<and> R \<union> covers bytes = {..<length D}"
    if "filled bytes a b ?data hs (mem s) (q ! i) H' n' P'" "holes_ok n' (punch a b ?mf hs)" for H' n' P'
    by (rule rebuilt_done [OF step [OF that(1)] that(2)])
  have hdr: "H' = (if a = 0 then H else frag_header (mem s) (q ! i))"
    if "filled bytes a b ?data hs (mem s) (q ! i) H' n' P'" for H' n' P' using that f(5) by (simp add: filled_def)
  have hdr0: "H' = H" if "filled bytes a b ?data hs (mem s) (q ! i) H' n' P'" "0 \<in> R \<union> covers bytes" for H' n' P'
    using hdr [OF that(1)] hd0 that(2) by (auto simp: f(3) unat_eq_zero)
  have key: "datagram_key H' = datagram_key H" if "filled bytes a b ?data hs (mem s) (q ! i) H' n' P'" for H' n' P'
    using hdr [OF that] i(2) by (simp add: entry_of_def)
  have others: "entry_of (mem s') H (q[i := frag'] ! j) = (if j = i then entry_of (mem s') H frag' else False)"
    if "entry_step s (q ! i) s' frag'" "j < length q" for s' frag' j
  proof (cases "j = i")
    case False
    have "entry_of (mem s') H (q ! j) = entry_of (mem s) H (q ! j)" by (rule entry_of_frame [OF q i(1) that(2) False that(1)])
    with False i(3) that(2) show ?thesis by auto
  qed (simp add: i(1))
  show thesis
  proof (cases rule: add_fragment_cases [OF alloc(1) hp inv pk(1) out f(1,4), of interface, case_names dropped kept complete])
    case (dropped frag' s')
    with small alloc(2) show thesis by simp
  next
    case (kept frag' s')
    have fh: "frag_holes (mem s') frag' (punch a b ?mf hs)" by (rule kept(4))
    have nd: "\<not> ((ended \<or> \<not> ?mf) \<and> R \<union> covers bytes = {..<length D})"
      using done' [OF kept(5)] kept(3) fh by (simp add: frag_holes_def)
    have "frag_layout (mem s') frag'" using fh by (simp add: frag_holes_def)
    then have "entry_of (mem s') H frag'" using key [OF kept(5)] by (elim layout_packet) (simp add: entry_of_def)
    then have "assembling H D (R \<union> covers bytes) (ended \<or> \<not> ?mf) (mem s') (q[i := frag'])"
      unfolding assembling_def
      using i(1) others [OF kept(2)] fh step [OF kept(5)] hdr0 [OF kept(5)] by (intro exI [of _ i]) auto
    then show thesis
      using that [of "q[i := frag']" s'] run kept(1,6) nd queue_update [OF q i(1) kept(2) holes_inv [OF fh]] by simp
  next
    case (complete frag' s' H' n P)
    have dn: "(ended \<or> \<not> ?mf) \<and> R \<union> covers bytes = {..<length D}"
      using done' [OF complete(6)] complete(5) by simp
    have Dn: "0 < length D" using rb by (simp add: rebuilt_def)
    have H': "H' = H" using hdr0 [OF complete(6)] dn Dn by simp
    have "rebuilt D {..<length D} True [] n P" using step [OF complete(6)] dn complete(5) by simp
    moreover from this have "n = length D" by (simp add: rebuilt_def)
    moreover have "length P = n + 6" using complete(6) by (simp add: filled_def)
    ultimately have P: "take n P = D" "n = length D" using rebuilt_whole by blast+
    have "\<not> entry_of (mem s') H frag'" using complete(3) by (simp add: entry_of_def)
    then have "idle H (mem s') (q[i := frag'])"
      unfolding idle_def using others [OF complete(2)] i(1) complete(3) by (intro conjI allI impI exI [of _ i]) auto
    then show thesis
      using that [of "q[i := frag']" s'] run complete(1,7) dn H' P queue_update [OF q i(1) complete(2,4)] by simp
  qed
qed

text \<open>The first piece makes the entry.\<close>

lemma assembling_start:
  assumes alloc: "alloc_ok (ipAlloc ops)" "allocs ops" and q: "queue_ok (mem s) q" and idle: "idle H (mem s) q"
    and pk: "packet_at (mem s) p bytes" "fst p \<in> live (mem s) - queue_blocks q"
    and pc: "ip_piece H D bytes" and D: "0 < length D" "length D \<le> 8132"
  obtains q1 s1 where "ipv4ReassembleDatagram ops interface q p (length bytes) s = ipv4ReassembleDatagram ops interface q1 p (length bytes) s1"
    and "queue_step s q s1 q1" and "assembling H D {} False (mem s1) q1" and "ip_calls ops (world s) (world s1)"
proof -
  let ?n = "length (packet_data bytes)"
  have D': "length D < 65536" using D by simp
  obtain a b where f: "fragment bytes ?n a b (more_fragments bytes) (packet_data bytes)"
    "more_fragments bytes \<longrightarrow> ?n mod 8 = 0" "ip_packet bytes" "datagram_key bytes = datagram_key H"
    by (rule ip_pieceD [OF pc D'])
  have eo: "entry_of h bytes frag = entry_of h H frag" for h frag using f(4) by (simp add: entry_of_def)
  have len: "header_len bytes + ?n = length bytes" using f(3) by (simp add: packet_data_def ip_packet_def)
  show thesis
  proof (cases rule: search_cases [OF alloc(1) q pk(1) f(3) pk(2), case_names refused found made])
    case (refused q' s')
    then show ?thesis using alloc(2) idle nth_mem unfolding idle_def by blast
  next
    case (found k)
    then show ?thesis using idle by (auto simp: eo idle_def)
  next
    case (made i frag' s')
    let ?q = "q[i := frag']"
    have st: "queue_step s q s' ?q" by (rule queue_update [OF q made(2,5) holes_inv [OF made(6)]])
    have lay: "frag_layout (mem s') frag'" using made(6) by (simp add: frag_holes_def)
    have l20: "20 \<le> header_len bytes" "header_len bytes \<le> length bytes" using f(3) by (simp_all add: ip_packet_def)
    have new: "entry_of (mem s') H frag'"
      using lay made(8) f(4) l20 by (elim layout_packet) (simp add: entry_of_def)
    have old: "j = i" if "j < length q" "entry_of (mem s') H (?q ! j)" for j
    proof (rule ccontr)
      assume "j \<noteq> i"
      from entry_of_frame [OF q made(2) that(1) this made(5), of H] this that made(4) show False by (simp add: eo)
    qed
    have q1: "queue_ok (mem s') ?q" using st by (simp add: queue_step_def)
    have i1: "i < length ?q" "entry_of (mem s') H (?q ! i)" "\<forall>j < length ?q. entry_of (mem s') H (?q ! j) \<longrightarrow> j = i"
      using made(2) new old by simp_all
    note sr = search_assembling [OF alloc q1 packet_after_queue_step [OF st pk] f(3,4) i1]
    have "assembling H D {} False (mem s') ?q"
      unfolding assembling_def
      using i1 made(6,7) made(2) D rebuilt_start [of D "payload (mem s') frag'"] by (intro exI [of _ i]) auto
    moreover have "ipv4ReassembleDatagram ops interface q p (length bytes) s = ipv4ReassembleDatagram ops interface ?q p (length bytes) s'"
      using reassemble_unfold [OF pk(1) f(1,2), of ops interface q] made(1) sr
        reassemble_unfold [OF packet_after_queue_step(1) [OF st pk] f(1,2), of ops interface ?q] by (simp add: len)
    ultimately show thesis using that st made(9) by blast
  qed
qed

lemma delivers_trans: "ip_calls ops w w1 \<Longrightarrow> delivers ops i w1 w2 bytes \<Longrightarrow> delivers ops i w w2 bytes"
  using ip_calls_trans by (fastforce simp: delivers_def)

lemma piece_arrives:
  assumes alloc: "alloc_ok (ipAlloc ops)" "allocs ops" and q: "queue_ok (mem s) q" and pr: "progress H D R ended (mem s) q"
    and pk: "packet_at (mem s) p bytes" "fst p \<in> live (mem s) - queue_blocks q"
    and pc: "ip_piece H D bytes" and D: "0 < length D" "length D \<le> 8132"
  obtains q' s' where "ipv4ReassembleDatagram ops interface q p (length bytes) s = Some (q', s')" and "queue_step s q s' q'"
    and "(ended \<or> \<not> more_fragments bytes) \<and> R \<union> covers bytes = {..<length D} \<longrightarrow>
      idle H (mem s') q' \<and> delivers ops interface (world s) (world s') (datagram_header H (length H + length D) @ D)"
    and "\<not> ((ended \<or> \<not> more_fragments bytes) \<and> R \<union> covers bytes = {..<length D}) \<longrightarrow>
      progress H D (R \<union> covers bytes) (ended \<or> \<not> more_fragments bytes) (mem s') q' \<and> ip_calls ops (world s) (world s')"
proof (cases "assembling H D R ended (mem s) q")
  case True
  obtain q' s' where "ipv4ReassembleDatagram ops interface q p (length bytes) s = Some (q', s')" "queue_step s q s' q'"
    "(ended \<or> \<not> more_fragments bytes) \<and> R \<union> covers bytes = {..<length D} \<longrightarrow>
      idle H (mem s') q' \<and> delivers ops interface (world s) (world s') (datagram_header H (length H + length D) @ D)"
    "\<not> ((ended \<or> \<not> more_fragments bytes) \<and> R \<union> covers bytes = {..<length D}) \<longrightarrow>
      assembling H D (R \<union> covers bytes) (ended \<or> \<not> more_fragments bytes) (mem s') q' \<and> ip_calls ops (world s) (world s')"
    by (rule piece_at_entry [OF alloc q True pk pc D(2)])
  then show thesis using that by (simp add: progress_def)
next
  case False
  then have id: "idle H (mem s) q" "R = {}" "\<not> ended" using pr by (simp_all add: progress_def)
  obtain q1 s1 where s1: "ipv4ReassembleDatagram ops interface q p (length bytes) s = ipv4ReassembleDatagram ops interface q1 p (length bytes) s1"
    "queue_step s q s1 q1" "assembling H D {} False (mem s1) q1" "ip_calls ops (world s) (world s1)"
    by (rule assembling_start [OF alloc q id(1) pk pc D])
  have q1: "queue_ok (mem s1) q1" using s1(2) by (simp add: queue_step_def)
  obtain q' s' where s2: "ipv4ReassembleDatagram ops interface q1 p (length bytes) s1 = Some (q', s')" "queue_step s1 q1 s' q'"
    "(False \<or> \<not> more_fragments bytes) \<and> {} \<union> covers bytes = {..<length D} \<longrightarrow>
      idle H (mem s') q' \<and> delivers ops interface (world s1) (world s') (datagram_header H (length H + length D) @ D)"
    "\<not> ((False \<or> \<not> more_fragments bytes) \<and> {} \<union> covers bytes = {..<length D}) \<longrightarrow>
      assembling H D ({} \<union> covers bytes) (False \<or> \<not> more_fragments bytes) (mem s') q' \<and> ip_calls ops (world s1) (world s')"
    by (rule piece_at_entry [OF alloc q1 s1(3) packet_after_queue_step [OF s1(2) pk] pc D(2)])
  show thesis
    by (rule that [of q' s'])
      (use s1 s2 id queue_step_trans [OF s1(2) s2(2)] in \<open>auto simp: progress_def intro: delivers_trans ip_calls_trans\<close>)
qed

subsection \<open>A sequence of packets\<close>

fun reassemble_all ::
    "'w ip_ops \<Rightarrow> nat \<Rightarrow> Ipv4FragDesc list \<Rightarrow> (pointer \<times> buffer) list \<Rightarrow> 'w sys \<Rightarrow> (Ipv4FragDesc list \<times> 'w sys) option" where
  "reassemble_all ops interface q [] s = Some (q, s)"
| "reassemble_all ops interface q ((p, bytes) # ps) s = do {
     (q, s) \<leftarrow> ipv4ReassembleDatagram ops interface q p (length bytes) s;
     reassemble_all ops interface q ps s
   }"

definition arrived :: "(pointer \<times> buffer) list \<Rightarrow> nat set" where
  "arrived ps = (\<Union>(p, bytes) \<in> set ps. covers bytes)"

definition packets_at :: "heap \<Rightarrow> Ipv4FragDesc list \<Rightarrow> (pointer \<times> buffer) list \<Rightarrow> bool" where
  "packets_at h q ps \<longleftrightarrow> (\<forall>(p, bytes) \<in> set ps. packet_at h p bytes \<and> fst p \<in> live h - queue_blocks q)"

lemma arrived_simps [simp]: "arrived [] = {}" "arrived ((p, bytes) # ps) = covers bytes \<union> arrived ps"
    "arrived (ps @ qs) = arrived ps \<union> arrived qs"
  by (auto simp: arrived_def)

lemma packets_at_simps [simp]: "packets_at h q []"
    "packets_at h q ((p, bytes) # ps) \<longleftrightarrow> packet_at h p bytes \<and> fst p \<in> live h - queue_blocks q \<and> packets_at h q ps"
  by (auto simp: packets_at_def)

lemma packets_after_step: "queue_step s q s' q' \<Longrightarrow> packets_at (mem s) q ps \<Longrightarrow> packets_at (mem s') q' ps"
  using packet_after_queue_step [of s q s' q'] by (fastforce simp: packets_at_def)

text \<open>The piece with the last byte is the last fragment.\<close>

lemma covers_sub: "ip_piece H D bytes \<Longrightarrow> covers bytes \<subseteq> {..<length D}"
  by (auto simp: ip_piece_def covers_def Let_def)

lemma covers_last: "ip_piece H D bytes \<Longrightarrow> length D - 1 \<in> covers bytes \<Longrightarrow> \<not> more_fragments bytes"
  by (auto simp: ip_piece_def covers_def Let_def)

lemma pieces_progress:
  assumes alloc: "alloc_ok (ipAlloc ops)" "allocs ops" and q: "queue_ok (mem s) q" and pr: "progress H D R ended (mem s) q"
    and pk: "packets_at (mem s) q ps" and pc: "\<forall>(p, bytes) \<in> set ps. ip_piece H D bytes" and D: "0 < length D" "length D \<le> 8132"
    and more: "R \<union> arrived ps \<noteq> {..<length D}" "R \<subseteq> {..<length D}" "length D - 1 \<in> R \<longrightarrow> ended"
  obtains q' s' ended' where "reassemble_all ops interface q ps s = Some (q', s')" and "queue_step s q s' q'"
    and "progress H D (R \<union> arrived ps) ended' (mem s') q'" and "length D - 1 \<in> R \<union> arrived ps \<longrightarrow> ended'"
    and "ip_calls ops (world s) (world s')"
proof -
  have "\<exists>q' s' ended'. reassemble_all ops interface q ps s = Some (q', s') \<and> queue_step s q s' q' \<and>
      progress H D (R \<union> arrived ps) ended' (mem s') q' \<and> (length D - 1 \<in> R \<union> arrived ps \<longrightarrow> ended') \<and> ip_calls ops (world s) (world s')"
    using q pr pk pc more
  proof (induction ps arbitrary: q s R ended)
    case Nil
    then show ?case by (auto intro: queue_step_refl ip_calls.none)
  next
    case (Cons x ps)
    obtain p bytes where x: "x = (p, bytes)" by (cases x)
    let ?e = "ended \<or> \<not> more_fragments bytes"
    have pkx: "packet_at (mem s) p bytes" "fst p \<in> live (mem s) - queue_blocks q" "packets_at (mem s) q ps" using Cons.prems(3) by (simp_all add: x)
    have pcx: "ip_piece H D bytes" "\<forall>(p, bytes) \<in> set ps. ip_piece H D bytes" using Cons.prems(4) by (simp_all add: x)
    have sub: "arrived ps \<subseteq> {..<length D}" using pcx(2) covers_sub unfolding arrived_def by blast
    have "R \<union> covers bytes \<noteq> {..<length D}" using Cons.prems(5) sub by (auto simp: x)
    then obtain q1 s1 where s1: "ipv4ReassembleDatagram ops interface q p (length bytes) s = Some (q1, s1)" "queue_step s q s1 q1"
      "progress H D (R \<union> covers bytes) ?e (mem s1) q1" "ip_calls ops (world s) (world s1)"
      using piece_arrives [OF alloc Cons.prems(1,2) pkx(1,2) pcx(1) D, of interface] by metis
    have q1: "queue_ok (mem s1) q1" using s1(2) by (simp add: queue_step_def)
    have pk1: "packets_at (mem s1) q1 ps" by (rule packets_after_step [OF s1(2) pkx(3)])
    have m1: "(R \<union> covers bytes) \<union> arrived ps \<noteq> {..<length D}" "R \<union> covers bytes \<subseteq> {..<length D}" "length D - 1 \<in> R \<union> covers bytes \<longrightarrow> ?e"
      using Cons.prems(5-7) covers_sub [OF pcx(1)] covers_last [OF pcx(1)] by (auto simp: x Un_assoc)
    from Cons.IH [OF q1 s1(3) pk1 pcx(2) m1] obtain q' s' ended' where
      s': "reassemble_all ops interface q1 ps s1 = Some (q', s')" "queue_step s1 q1 s' q'"
      "progress H D (R \<union> covers bytes \<union> arrived ps) ended' (mem s') q'" "length D - 1 \<in> R \<union> covers bytes \<union> arrived ps \<longrightarrow> ended'"
      "ip_calls ops (world s1) (world s')" by (elim exE conjE)
    show ?case
      by (intro exI [of _ q'] exI [of _ s'] exI [of _ ended'] conjI)
        (use s1 s' queue_step_trans [OF s1(2) s'(2)] ip_calls_trans [OF s1(4) s'(5)] in \<open>simp_all add: x Un_assoc\<close>)
  qed
  then show thesis using that by blast
qed

lemma datagram_rebuilt:
  assumes alloc: "alloc_ok (ipAlloc ops)" "allocs ops" and q: "queue_ok (mem s) q" and idle: "idle H (mem s) q"
    and D: "0 < length D" "length D \<le> 8132" and pk: "packets_at (mem s) q (ps @ [(p, bytes)])"
    and pc: "\<forall>(p, bytes) \<in> set (ps @ [(p, bytes)]). ip_piece H D bytes"
    and all: "arrived ps \<noteq> {..<length D}" "arrived (ps @ [(p, bytes)]) = {..<length D}"
  obtains q1 s1 q' s' where "reassemble_all ops interface q ps s = Some (q1, s1)" and "ip_calls ops (world s) (world s1)"
    and "ipv4ReassembleDatagram ops interface q1 p (length bytes) s1 = Some (q', s')"
    and "delivers ops interface (world s1) (world s') (datagram_header H (length H + length D) @ D)"
    and "queue_step s q s' q'" and "idle H (mem s') q'"
proof -
  have pr: "progress H D {} False (mem s) q" using idle by (simp add: progress_def)
  have pkx: "packets_at (mem s) q ps" "packets_at (mem s) q [(p, bytes)]" using pk by (simp_all add: packets_at_def)
  have pcx: "\<forall>(p, bytes) \<in> set ps. ip_piece H D bytes" "ip_piece H D bytes" using pc by auto
  obtain q1 s1 ended where s1: "reassemble_all ops interface q ps s = Some (q1, s1)" "queue_step s q s1 q1"
    "progress H D ({} \<union> arrived ps) ended (mem s1) q1" "length D - 1 \<in> {} \<union> arrived ps \<longrightarrow> ended" "ip_calls ops (world s) (world s1)"
    by (rule pieces_progress [OF alloc q pr pkx(1) pcx(1) D, of interface]) (use all in auto)
  have q1: "queue_ok (mem s1) q1" using s1(2) by (simp add: queue_step_def)
  have pk1: "packet_at (mem s1) p bytes" "fst p \<in> live (mem s1) - queue_blocks q1"
    using packets_after_step [OF s1(2) pkx(2)] by simp_all
  have whole: "{} \<union> arrived ps \<union> covers bytes = {..<length D}" using all(2) by simp
  moreover have "length D - 1 \<in> {} \<union> arrived ps \<union> covers bytes" using D by (subst whole) simp
  then have "ended \<or> \<not> more_fragments bytes" using s1(4) covers_last [OF pcx(2)] by blast
  ultimately have dn: "(ended \<or> \<not> more_fragments bytes) \<and> {} \<union> arrived ps \<union> covers bytes = {..<length D}" by blast
  obtain q' s' where s': "ipv4ReassembleDatagram ops interface q1 p (length bytes) s1 = Some (q', s')" "queue_step s1 q1 s' q'"
    "idle H (mem s') q' \<and> delivers ops interface (world s1) (world s') (datagram_header H (length H + length D) @ D)"
    using piece_arrives [OF alloc q1 s1(3) pk1 pcx(2) D, of interface] dn by metis
  show thesis by (rule that [OF s1(1,5) s'(1)]) (use s'(3) queue_step_trans [OF s1(2) s'(2)] in simp_all)
qed

end
