(* ===== verification/Ipv4Tick.thy ===== *)
theory Ipv4Tick
  imports Ipv4Datagram
begin

text \<open>
  The timeout of the reassembly and the emptying of the queue: an entry older than 15 seconds is dropped, and its
  source is told with the header and the data up to the first hole, provided that the first fragment had arrived.
\<close>

subsection \<open>The queue entry by entry\<close>

lemma queue_blocks_Cons [simp]: "queue_blocks [] = {}" "queue_blocks (frag # q) = frag_blocks frag \<union> queue_blocks q"
  by (auto simp: queue_blocks_def lessThan_Suc_eq_insert_0 zero_less_Suc)

lemma apart_Suc:
  "(\<forall>i < Suc n. \<forall>j < Suc n. i \<noteq> j \<longrightarrow> F i \<inter> F j = {}) \<longleftrightarrow>
     F 0 \<inter> (\<Union>j < n. F (Suc j)) = {} \<and> (\<forall>i < n. \<forall>j < n. i \<noteq> j \<longrightarrow> F (Suc i) \<inter> F (Suc j) = {})"
proof (intro iffI conjI allI impI)
  assume all: "\<forall>i < Suc n. \<forall>j < Suc n. i \<noteq> j \<longrightarrow> F i \<inter> F j = {}"
  have "F 0 \<inter> F (Suc j) = {}" if "j < n" for j using all [rule_format, of 0 "Suc j"] that by simp
  then show "F 0 \<inter> (\<Union>j < n. F (Suc j)) = {}" by blast
  show "F (Suc i) \<inter> F (Suc j) = {}" if "i < n" "j < n" "i \<noteq> j" for i j using all [rule_format, of "Suc i" "Suc j"] that by simp
next
  fix i j assume *: "F 0 \<inter> (\<Union>j < n. F (Suc j)) = {} \<and> (\<forall>i < n. \<forall>j < n. i \<noteq> j \<longrightarrow> F (Suc i) \<inter> F (Suc j) = {})"
    and ij: "i < Suc n" "j < Suc n" "i \<noteq> j"
  then have "F 0 \<inter> F (Suc k) = {}" if "k < n" for k using that by blast
  with * ij show "F i \<inter> F j = {}" by (cases i; cases j) (simp_all add: Int_commute)
qed

lemma queue_ok_Cons:
  "queue_ok h (frag # q) \<longleftrightarrow> frag_inv h frag \<and> queue_ok h q \<and> frag_blocks frag \<inter> queue_blocks q = {}"
proof -
  let ?B = "\<lambda>i. frag_blocks ((frag # q) ! i)"
  have 1: "(\<forall>i < length (frag # q). \<forall>j < length (frag # q). i \<noteq> j \<longrightarrow> ?B i \<inter> ?B j = {}) \<longleftrightarrow>
      frag_blocks frag \<inter> queue_blocks q = {} \<and> (\<forall>i < length q. \<forall>j < length q. i \<noteq> j \<longrightarrow> frag_blocks (q ! i) \<inter> frag_blocks (q ! j) = {})"
    using apart_Suc [of "length q" ?B] unfolding queue_blocks_def by (simp only: list.size add_Suc_right add_0_right nth_Cons_0 nth_Cons_Suc)
  have 2: "(\<forall>i < length (frag # q). frag_inv h ((frag # q) ! i)) \<longleftrightarrow> frag_inv h frag \<and> (\<forall>i < length q. frag_inv h (q ! i))"
    by (simp add: All_less_Suc2)
  show ?thesis unfolding queue_ok_def 1 2 by (rule iffI; (elim conjE)?; intro conjI; assumption)
qed

lemma queue_ok_ConsD:
  assumes "queue_ok h (frag # q)"
  shows "frag_inv h frag" and "queue_ok h q" and "frag_blocks frag \<inter> queue_blocks q = {}" and "heap_ok h"
    and "queue_blocks q \<subseteq> live h - frag_blocks frag"
proof -
  note c = queue_ok_Cons [THEN iffD1, OF assms]
  show "frag_inv h frag" by (rule conjunct1 [OF c])
  show q: "queue_ok h q" by (rule conjunct1 [OF conjunct2 [OF c]])
  show "frag_blocks frag \<inter> queue_blocks q = {}" by (rule conjunct2 [OF conjunct2 [OF c]])
  with queue_ok_live [OF q] show "queue_blocks q \<subseteq> live h - frag_blocks frag" by blast
  show "heap_ok h" using q by (simp add: queue_ok_def)
qed

lemma queue_ok_Nil [simp]: "queue_ok h [] = heap_ok h"
  by (simp add: queue_ok_def)

lemma queue_step_Cons:
  assumes q: "queue_ok (mem s) (frag # q)" and es: "entry_step s frag s1 frag'" and inv: "frag_inv (mem s1) frag'"
    and st: "queue_step s1 q s' q'"
  shows "queue_step s (frag # q) s' (frag' # q')"
proof -
  have out: "frag_blocks frag' \<subseteq> live (mem s1) - queue_blocks q"
  proof -
    have "queue_blocks q \<subseteq> live (mem s) - frag_blocks frag" by (rule queue_ok_ConsD(5) [OF q])
    then have "queue_blocks q \<subseteq> live (mem s1) - frag_blocks frag'" using es by (simp add: entry_step_def)
    moreover have "frag_blocks frag' \<subseteq> live (mem s1)" using es by (simp add: entry_step_def)
    ultimately show ?thesis by blast
  qed
  then have same: "\<forall>x \<in> frag_blocks frag'. blocks (mem s') x = blocks (mem s1) x" using st by (auto simp: queue_step_def)
  have "frag_blocks frag' \<subseteq> live (mem s') - queue_blocks q'" using out st by (simp add: queue_step_def)
  then have "frag_blocks frag' \<inter> queue_blocks q' = {}" by blast
  then have ok: "queue_ok (mem s') (frag' # q')"
    using frag_frame(5) [OF same] inv st unfolding queue_ok_Cons by (intro conjI) (simp_all only: queue_step_def)
  have len: "length q' = length q" using st by (simp add: queue_step_def)
  have "live (mem s') - queue_blocks q' - frag_blocks frag' = live (mem s1) - queue_blocks q - frag_blocks frag'"
    using st by (simp add: queue_step_def)
  moreover have "live (mem s1) - frag_blocks frag' - queue_blocks q = live (mem s) - frag_blocks frag - queue_blocks q"
    using es by (simp add: entry_step_def)
  ultimately have lv: "live (mem s') - (frag_blocks frag' \<union> queue_blocks q') = live (mem s) - (frag_blocks frag \<union> queue_blocks q)" by blast
  have "blocks (mem s') x = blocks (mem s) x" if "x \<in> live (mem s) - (frag_blocks frag \<union> queue_blocks q)" for x
  proof -
    have "x \<in> live (mem s) - frag_blocks frag" using that by blast
    then have "blocks (mem s1) x = blocks (mem s) x" "x \<in> live (mem s1)" using es by (auto simp: entry_step_def)
    then show ?thesis using that st by (auto simp: queue_step_def)
  qed
  with ok len lv show ?thesis by (simp add: queue_step_def)
qed

lemma entry_frame:
  "entry_step s frag s' frag' \<Longrightarrow> B \<subseteq> live (mem s) - frag_blocks frag \<Longrightarrow> \<forall>x \<in> B. blocks (mem s') x = blocks (mem s) x"
proof -
  assume "entry_step s frag s' frag'"
  then have "\<forall>x \<in> live (mem s) - frag_blocks frag. blocks (mem s') x = blocks (mem s) x" unfolding entry_step_def by (elim conjE)
  then show "B \<subseteq> live (mem s) - frag_blocks frag \<Longrightarrow> \<forall>x \<in> B. blocks (mem s') x = blocks (mem s) x" by (meson subsetD)
qed

lemma tail_ok: "queue_ok (mem s) (frag # q) \<Longrightarrow> entry_step s frag s1 frag' \<Longrightarrow> queue_ok (mem s1) q \<and> queue_blocks q \<subseteq> live (mem s) - frag_blocks frag"
proof -
  assume q: "queue_ok (mem s) (frag # q)" and es: "entry_step s frag s1 frag'"
  note sub = queue_ok_ConsD(5) [OF q]
  have "frag_inv (mem s1) (q ! j)" if "j < length q" for j
  proof -
    have "frag_blocks (q ! j) \<subseteq> queue_blocks q" using that queue_frag_blocks by blast
    from entry_frame [OF es order_trans [OF this sub]]
    have "\<forall>x \<in> frag_blocks (q ! j). blocks (mem s1) x = blocks (mem s) x" .
    from frag_frame(5) [OF this] show ?thesis using queue_ok_ConsD(2) [OF q] that by (simp add: queue_ok_def)
  qed
  then have "queue_ok (mem s1) q" using queue_ok_ConsD(2) [OF q] es by (simp add: queue_ok_def entry_step_def)
  with sub show ?thesis by simp
qed

subsection \<open>Dropping entries\<close>

lemma drop_entry:
  assumes hp: "heap_ok (mem s)" and inv: "frag_inv (mem s) frag"
  obtains frag' s' where "drop_frag ops frag s = Some (frag', s')" and "entry_step s frag s' frag'" and "\<not> frag_in_use frag'"
    and "frag_inv (mem s') frag'" and "world s' = world s"
proof -
  have ow: "owners_ok (mem s) (chunks (frag_buffer frag))" "owning (chunks (frag_buffer frag)) = chunks (frag_buffer frag)"
  proof (atomize (full), cases "frag_in_use frag")
    case True
    then have "frag_layout (mem s) frag" using inv by (auto simp: frag_inv_def frag_holes_def)
    then show "owners_ok (mem s) (chunks (frag_buffer frag)) \<and> owning (chunks (frag_buffer frag)) = chunks (frag_buffer frag)"
      using layout_all_owned(1) by (simp add: frag_layout_def nb_ok_def)
  next
    case False
    then show "owners_ok (mem s) (chunks (frag_buffer frag)) \<and> owning (chunks (frag_buffer frag)) = chunks (frag_buffer frag)"
      by (simp add: frag_in_use_iff owners_ok_def owning_def)
  qed
  note d = drop_frag_eq [OF ow hp]
  show thesis by (rule that [OF d(1,2)]) simp_all
qed

lemma flush_queue:
  assumes "queue_ok (mem s) q"
  shows "\<exists>q' s'. ipv4FlushFragQueue ops q s = Some (q', s') \<and> queue_step s q s' q' \<and> (\<forall>frag \<in> set q'. \<not> frag_in_use frag) \<and> world s' = world s"
  using assms
proof (induction q arbitrary: s)
  case (Cons frag q)
  have hp: "heap_ok (mem s)" and inv: "frag_inv (mem s) frag" by (rule queue_ok_ConsD(4) [OF Cons.prems], rule queue_ok_ConsD(1) [OF Cons.prems])
  obtain frag' s1 where d: "drop_frag ops frag s = Some (frag', s1)" "entry_step s frag s1 frag'" "\<not> frag_in_use frag'"
    "frag_inv (mem s1) frag'" "world s1 = world s" by (rule drop_entry [OF hp inv])
  from Cons.IH [OF conjunct1 [OF tail_ok [OF Cons.prems d(2)]]] obtain q' s' where
    f: "ipv4FlushFragQueue ops q s1 = Some (q', s')" "queue_step s1 q s' q'" "\<forall>frag \<in> set q'. \<not> frag_in_use frag" "world s' = world s1"
    by (elim exE conjE)
  show ?case
    by (intro exI [of _ "frag' # q'"] exI [of _ s'] conjI)
      (use d f queue_step_Cons [OF Cons.prems d(2,4) f(2)] in simp_all)
qed (simp add: queue_step_refl)

subsection \<open>The timeout\<close>

text \<open>The message for an entry that has timed out, if any: what had arrived up to the first hole.\<close>

definition timeout_message :: "heap \<Rightarrow> Ipv4FragDesc \<Rightarrow> buffer option" where
  "timeout_message h frag =
     (if frag_firstHole frag = 0 \<or> frag_firstHole frag = IPV4_INFINITY then None
      else Some (frag_header h frag @ take (unat (frag_firstHole frag)) (payload h frag)))"

definition tell_source :: "'w ip_ops \<Rightarrow> nat \<Rightarrow> buffer option \<Rightarrow> 'w \<Rightarrow> 'w" where
  "tell_source ops interface msg w =
     (case msg of
        None \<Rightarrow> w
      | Some bytes \<Rightarrow> icmpError ops interface ICMP_TYPE_TIME_EXCEEDED ICMP_CODE_REASSEMBLY_TIME_EXCEEDED bytes w)"

lemma expire_frag_eq:
  assumes hp: "heap_ok (mem s)" and inv: "frag_inv (mem s) frag" and use: "frag_in_use frag"
  obtains frag' s' where "expire_frag ops interface frag s = Some (frag', s')" and "entry_step s frag s' frag'"
    and "\<not> frag_in_use frag'" and "frag_inv (mem s') frag'"
    and "world s' = tell_source ops interface (timeout_message (mem s) frag) (world s)"
proof -
  from inv use obtain hs where fh: "frag_holes (mem s) frag hs" by (auto simp: frag_inv_def)
  have lay: "frag_layout (mem s) frag" using fh by (simp add: frag_holes_def)
  obtain frag0 s0 where d: "drop_frag ops frag s = Some (frag0, s0)" "entry_step s frag s0 frag0" "\<not> frag_in_use frag0"
    "frag_inv (mem s0) frag0" "world s0 = world s" by (rule drop_entry [OF hp inv])
  show thesis
  proof (cases hs)
    case Nil
    then have "frag_firstHole frag = IPV4_INFINITY" using fh by (simp add: frag_holes_def)
    then have "expire_frag ops interface frag s = drop_frag ops frag s" "timeout_message (mem s) frag = None"
      using find_hole_None [OF lay] by (simp_all add: expire_frag_def timeout_message_def)
    with d that show thesis by (simp add: tell_source_def)
  next
    case (Cons x xs)
    let ?n = "frag_headerLength frag + unat (fst x)"
    have x: "frag_firstHole frag = fst x" "hole_ok (frag_dataLen frag) x" "get16 (payload (mem s) frag) (unat (fst x)) = fst x"
      using fh Cons by (auto simp: frag_holes_def desc_def)
    have inf: "fst x \<noteq> IPV4_INFINITY" using x(2) layout_lengths(3) [OF lay] by (auto simp: hole_ok_def)
    have fits: "hole_fits frag (fst x)" using x(2) by (simp add: hole_fits_def hole_ok_def)
    obtain p where p: "ipv4FindHole frag (fst x) = Some p" using find_hole_Some [OF lay fits] by blast
    have ld: "load16 (mem s) (hole_first p) = Some (fst x)" using hole_load [OF lay fits p, of 0] x(3) by simp
    show thesis
    proof (cases "fst x = 0")
      case True
      then have "expire_frag ops interface frag s = drop_frag ops frag s" "timeout_message (mem s) frag = None"
        using x(1) p ld by (simp_all add: expire_frag_def timeout_message_def)
      with d that show thesis by (simp add: tell_source_def)
    next
      case False
      have le: "?n \<le> frag_headerLength frag + frag_dataLen frag + 6" using x(2) by (simp add: hole_ok_def)
      let ?b = "frag_buffer frag"
      obtain kept F where
        k: "netBufferSetLength (ipAlloc ops) ?b ?n s = Some (NO_ERROR, ?b\<lparr>chunks := kept\<rparr>, s\<lparr>mem := freed F (mem s)\<rparr>)"
          "F \<subseteq> frag_blocks frag" "nb_ok (freed F (mem s)) (?b\<lparr>chunks := kept\<rparr>)" "owning kept = kept" "chunk_blocks kept = frag_blocks frag - F"
          "contents (freed F (mem s)) kept = take ?n (contents (mem s) (chunks ?b))"
          "entry_step s frag (s\<lparr>mem := freed F (mem s)\<rparr>) (frag\<lparr>frag_buffer := ?b\<lparr>chunks := kept\<rparr>\<rparr>)"
        by (rule frag_shrink [OF hp lay le])
      let ?f1 = "frag\<lparr>frag_buffer := ?b\<lparr>chunks := kept\<rparr>\<rparr>"
      have msg: "timeout_message (mem s) frag = Some (contents (freed F (mem s)) kept)"
        using False inf x(1) k(6) layout_contents [OF lay] layout_lengths(1) [OF lay] by (simp add: timeout_message_def)
      let ?s1 = "s\<lparr>mem := freed F (mem s), world := tell_source ops interface (timeout_message (mem s) frag) (world s)\<rparr>"
      have ok: "chunks_ok (freed F (mem s)) kept" "owners_ok (freed F (mem s)) kept" using k(3) by (simp_all add: nb_ok_def)
      have rd: "netBufferRead (?b\<lparr>chunks := kept\<rparr>) 0 (netBufferGetLength (?b\<lparr>chunks := kept\<rparr>)) (freed F (mem s)) =
          Some (contents (freed F (mem s)) kept)"
        using read_chunks_eq [of "freed F (mem s)" kept] ok by (simp add: netBufferRead_def netBufferGetLength_eq)
      have es: "entry_step s frag ?s1 ?f1" using k(7) by (simp add: entry_step_def)
      have "owners_ok (mem ?s1) (chunks (frag_buffer ?f1))" "owning (chunks (frag_buffer ?f1)) = chunks (frag_buffer ?f1)"
        "heap_ok (mem ?s1)" using ok k(4) es by (simp_all add: entry_step_def)
      note d1 = drop_frag_eq [OF this]
      have "expire_frag ops interface frag s = Some (emptied ?f1, ?s1\<lparr>mem := freed (frag_blocks ?f1) (mem ?s1)\<rparr>)"
        using x(1) p ld False k(1) rd d1(1) msg by (simp add: expire_frag_def tell_source_def word_gt_0)
      from that [OF this entry_step_trans [OF es d1(2)]] show thesis by simp
    qed
  qed
qed

text \<open>The entries whose time has run out, and the messages for them in the order of the queue.\<close>

definition timed_out :: "systime_t \<Rightarrow> Ipv4FragDesc \<Rightarrow> bool" where
  "timed_out time frag \<longleftrightarrow> frag_in_use frag \<and> time - frag_timestamp frag \<ge> IPV4_FRAG_TIME_TO_LIVE"

definition timeout_messages :: "systime_t \<Rightarrow> heap \<Rightarrow> Ipv4FragDesc list \<Rightarrow> buffer option list" where
  "timeout_messages time h q = map (timeout_message h) (filter (timed_out time) q)"

lemma timeout_message_frame:
  assumes "\<forall>x \<in> frag_blocks frag. blocks h' x = blocks h x" and "frag_in_use frag"
  shows "timeout_message h' frag = timeout_message h frag"
  using frag_frame(2,3) [OF assms(1)] assms(2) by (auto simp: timeout_message_def frag_in_use_iff)

lemma tick_queue:
  assumes "queue_ok (mem s) q"
  shows "\<exists>q' s'. frag_tick_loop ops interface time q s = Some (q', s') \<and> queue_step s q s' q' \<and>
     (\<forall>i < length q. if timed_out time (q ! i) then \<not> frag_in_use (q' ! i) else q' ! i = q ! i) \<and>
     world s' = fold (tell_source ops interface) (timeout_messages time (mem s) q) (world s)"
  using assms
proof (induction q arbitrary: s)
  case (Cons frag q)
  have hp: "heap_ok (mem s)" and inv: "frag_inv (mem s) frag" by (rule queue_ok_ConsD(4) [OF Cons.prems], rule queue_ok_ConsD(1) [OF Cons.prems])
  define step where "step = (if timed_out time frag then expire_frag ops interface frag s else Some (frag, s))"
  have "\<exists>frag' s1. step = Some (frag', s1) \<and> entry_step s frag s1 frag' \<and> frag_inv (mem s1) frag' \<and>
      (if timed_out time frag then \<not> frag_in_use frag' else frag' = frag) \<and>
      world s1 = fold (tell_source ops interface) (if timed_out time frag then [timeout_message (mem s) frag] else []) (world s)"
  proof (cases "timed_out time frag")
    case True
    then have use: "frag_in_use frag" by (simp add: timed_out_def)
    obtain frag' s1 where "expire_frag ops interface frag s = Some (frag', s1)" "entry_step s frag s1 frag'" "\<not> frag_in_use frag'"
      "frag_inv (mem s1) frag'" "world s1 = tell_source ops interface (timeout_message (mem s) frag) (world s)"
      by (rule expire_frag_eq [OF hp inv use])
    with True show ?thesis by (simp add: step_def)
  next
    case False
    then show ?thesis using entry_step_refl [OF hp] frag_inv_live [OF inv] inv by (auto simp: step_def)
  qed
  then obtain frag' s1 where s1: "step = Some (frag', s1)" "entry_step s frag s1 frag'" "frag_inv (mem s1) frag'"
    "if timed_out time frag then \<not> frag_in_use frag' else frag' = frag"
    "world s1 = fold (tell_source ops interface) (if timed_out time frag then [timeout_message (mem s) frag] else []) (world s)"
    by (elim exE conjE)
  note t = tail_ok [OF Cons.prems s1(2)]
  from Cons.IH [OF conjunct1 [OF t]] obtain q' s' where f: "frag_tick_loop ops interface time q s1 = Some (q', s')" "queue_step s1 q s' q'"
    "\<forall>i < length q. if timed_out time (q ! i) then \<not> frag_in_use (q' ! i) else q' ! i = q ! i"
    "world s' = fold (tell_source ops interface) (timeout_messages time (mem s1) q) (world s1)" by (elim exE conjE)
  have same: "timeout_message (mem s1) f = timeout_message (mem s) f" if f: "f \<in> set (filter (timed_out time) q)" for f
  proof (rule timeout_message_frame)
    from f obtain j where "j < length q" "f = q ! j" by (auto simp: in_set_conv_nth)
    then have "frag_blocks f \<subseteq> queue_blocks q" using queue_frag_blocks by blast
    from entry_frame [OF s1(2) order_trans [OF this conjunct2 [OF t]]]
    show "\<forall>x \<in> frag_blocks f. blocks (mem s1) x = blocks (mem s) x" .
    show "frag_in_use f" using f by (simp add: timed_out_def)
  qed
  have tm: "timeout_messages time (mem s1) q = timeout_messages time (mem s) q"
    unfolding timeout_messages_def by (rule map_cong [OF refl same])
  have w: "world s' = fold (tell_source ops interface) (timeout_messages time (mem s) (frag # q)) (world s)"
    unfolding f(4) s1(5) tm by (cases "timed_out time frag") (simp_all add: timeout_messages_def)
  have run: "frag_tick_loop ops interface time (frag # q) s = Some (frag' # q', s')"
    using s1(1) f(1) by (simp add: step_def timed_out_def)
  have "if timed_out time ((frag # q) ! i) then \<not> frag_in_use ((frag' # q') ! i) else (frag' # q') ! i = (frag # q) ! i"
    if "i < length (frag # q)" for i
    using that f(3) s1(4) by (cases i) auto
  then show ?case using run w queue_step_Cons [OF Cons.prems s1(2,3) f(2)] by blast
qed (simp add: queue_step_refl timeout_messages_def)

end
