(* ===== verification/Ipv4Hang.thy ===== *)
theory Ipv4Hang
  imports Ipv4Datagram
begin

text \<open>
  Nothing keeps the end of a fragment, which \<open>ipv4ReassembleDatagram\<close> computes in 16 bits, from wrapping around.  A
  fragment of 16 bytes at the last offset leaves two holes that overlap, and the fragment at offset 0 that comes next
  links a hole to itself: the loop over the holes goes round for ever.
\<close>

subsection \<open>A loop that does not end\<close>

lemma hole_loop_returned:
  assumes "hole_loop a b mf frag q hole h = Some r"
  shows "\<not> (\<exists>p k. hole = Some p \<and> (\<forall>q. hole_step a b mf frag q p h = Some (frag, Some p, h)) \<and>
    get_link frag (Some p) h = Some k \<and> ipv4FindHole frag k = Some p)"
proof (induction a b mf frag q hole h r rule: hole_loop.raw_induct)
  case 2
  show ?case by (rule assms)
next
  case (1 loop a b mf frag q hole h r)
  show ?case
  proof
    assume "\<exists>p k. hole = Some p \<and> (\<forall>q. hole_step a b mf frag q p h = Some (frag, Some p, h)) \<and>
      get_link frag (Some p) h = Some k \<and> ipv4FindHole frag k = Some p"
    then obtain p k where p: "hole = Some p" "\<forall>q. hole_step a b mf frag q p h = Some (frag, Some p, h)"
      "get_link frag (Some p) h = Some k" "ipv4FindHole frag k = Some p" by blast
    then have "loop a b mf frag (Some p) (Some p) h = Some r" using 1(2) by simp
    from 1(1) [OF this] p(2-4) show False by blast
  qed
qed

lemma self_link_hangs:
  assumes lay: "frag_layout h frag" and fits: "hole_fits frag f" and p: "ipv4FindHole frag f = Some p"
    and d: "desc (payload h frag) f = (f, l, f)" and no: "\<not> (a < l \<and> f < b)"
  shows "hole_loop a b mf frag q (Some p) h = None"
proof -
  have rd: "load16 h (hole_first p) = Some f" "load16 h (hole_last p) = Some l" "load16 h (hole_next p) = Some f"
    using hole_load [OF lay fits p, of 0] hole_load [OF lay fits p, of 2] hole_load [OF lay fits p, of 4] d by (simp_all add: desc_def)
  have "hole_step a b mf frag q' p h = Some (frag, Some p, h)" for q' using rd no by (auto simp: hole_step_def)
  moreover have "get_link frag (Some p) h = Some f" using rd by (simp add: get_link_def)
  ultimately show ?thesis using p hole_loop_returned [of a b mf frag q "Some p" h] by (cases "hole_loop a b mf frag q (Some p) h") blast+
qed

text \<open>Taking one hole out of the list.\<close>

lemma hole_step_hit:
  assumes l: "linked h frag pre prevHole f" and d: "desc (payload h frag) f = (f, l, n)" and fits: "hole_fits frag f"
    and hit: "a < l" "f < b"
  obtains p frag1 h1 where "ipv4FindHole frag f = Some p" and "set_link frag prevHole n h = Some (frag1, h1)"
    and "linked h1 frag1 pre prevHole n" and "hole_frame h frag (starts pre) h1 frag1"
    and "hole_step a b mf frag prevHole p h = do {
        (frag, prevHole, h) \<leftarrow> (if a > f then insert_hole frag1 prevHole f a h1 else Some (frag1, prevHole, h1));
        (if b < l \<and> mf then insert_hole frag prevHole b l h else Some (frag, prevHole, h)) }"
proof -
  have lay: "frag_layout h frag" using l by (simp add: linked_def)
  obtain p where p: "ipv4FindHole frag f = Some p" using find_hole_Some [OF lay fits] by blast
  have rd: "load16 h (hole_first p) = Some f" "load16 h (hole_last p) = Some l" "load16 h (hole_next p) = Some n"
    using hole_load [OF lay fits p, of 0] hole_load [OF lay fits p, of 2] hole_load [OF lay fits p, of 4] d by (simp_all add: desc_def)
  obtain frag1 h1 where s1: "set_link frag prevHole n h = Some (frag1, h1)" "linked h1 frag1 pre prevHole n"
    "hole_frame h frag (starts pre) h1 frag1" by (rule set_link_eq [OF l])
  show thesis by (rule that [OF p s1]) (use rd hit s1(1) in \<open>simp add: hole_step_def\<close>)
qed

text \<open>Inserting a hole behind itself.\<close>

lemma insert_self:
  assumes lay: "frag_layout h frag" and fits: "hole_fits frag f" and p: "ipv4FindHole frag f = Some p"
  obtains h' where "insert_hole frag (Some p) f l h = Some (frag, Some p, h')" and "frag_layout h' frag"
    and "desc (payload h' frag) f = (f, l, f)"
proof -
  obtain h1 where h1: "store16 h (hole_first p) f = Some h1" "hole_frame h frag {f} h1 frag" "frag_layout h1 frag"
    "desc (payload h1 frag) f = (f, snd (desc (payload h frag) f))" by (rule store_desc [OF lay fits p])
  obtain h2 where h2: "store16 h1 (hole_last p) l = Some h2" "hole_frame h1 frag {f} h2 frag" "frag_layout h2 frag"
    "desc (payload h2 frag) f = (fst (desc (payload h1 frag) f), l, snd (snd (desc (payload h1 frag) f)))"
    by (rule store_desc_last [OF h1(3) fits p])
  obtain k where k: "load16 h2 (hole_next p) = Some k" using hole_load [OF h2(3) fits p, of 4] by simp
  obtain h3 where h3: "store16 h2 (hole_next p) k = Some h3" "hole_frame h2 frag {f} h3 frag" "frag_layout h3 frag"
    "desc (payload h3 frag) f = (fst (desc (payload h2 frag) f), fst (snd (desc (payload h2 frag) f)), k)"
    by (rule store_desc_next [OF h2(3) fits p])
  have d3: "desc (payload h3 frag) f = (f, l, k)" using h1(4) h2(4) h3(4) by simp
  have rd: "load16 h3 (hole_first p) = Some f" using hole_load [OF h3(3) fits p, of 0] d3 by (simp add: desc_def)
  obtain h4 where h4: "store16 h3 (hole_next p) f = Some h4" "hole_frame h3 frag {f} h4 frag" "frag_layout h4 frag"
    "desc (payload h4 frag) f = (fst (desc (payload h3 frag) f), fst (snd (desc (payload h3 frag) f)), f)"
    by (rule store_desc_next [OF h3(3) fits p])
  show thesis
    by (rule that [of h4]) (use p h1(1) h2(1) k h3(1) rd h4 d3 in \<open>simp_all add: insert_hole_def get_link_def set_link_def\<close>)
qed

subsection \<open>The two fragments\<close>

text \<open>The holes after the first fragment, which overlap.\<close>

definition overlapping :: "heap \<Rightarrow> Ipv4FragDesc \<Rightarrow> bool" where
  "overlapping h frag \<longleftrightarrow> frag_layout h frag \<and> frag_dataLen frag = 8 \<and>
     chain (desc (payload h frag)) (frag_firstHole frag) [(0, 65528), (8, IPV4_INFINITY)] IPV4_INFINITY"

lemma first_loop:
  assumes inv: "frag_holes h frag [(0, IPV4_INFINITY)]" and n: "frag_dataLen frag = 8"
  obtains frag' h' where "hole_loop 65528 8 True frag None (ipv4FindHole frag (frag_firstHole frag)) h = Some (frag', h')"
    and "overlapping h' frag'" and "same_buffer frag frag'" and "writes_in (frag_blocks frag) h h'" and "frag_header h' frag = frag_header h frag"
proof -
  have lay: "frag_layout h frag" and k: "frag_firstHole frag = 0" and d: "desc (payload h frag) 0 = (0, IPV4_INFINITY, IPV4_INFINITY)"
    using inv by (auto simp: frag_holes_def)
  have l0: "linked h frag [] None 0" using lay k by (simp add: linked_def prev_is_def)
  have f0: "hole_fits frag 0" by (simp add: hole_fits_def)
  have hit: "(65528::u16) < IPV4_INFINITY" "(0::u16) < 8" by simp_all
  obtain p frag1 h1 where s: "ipv4FindHole frag 0 = Some p" "linked h1 frag1 [] None IPV4_INFINITY" "hole_frame h frag (starts []) h1 frag1"
    "hole_step 65528 8 True frag None p h = do {
        (frag, prevHole, h) \<leftarrow> (if (65528::u16) > 0 then insert_hole frag1 None 0 65528 h1 else Some (frag1, None, h1));
        (if (8::u16) < IPV4_INFINITY \<and> True then insert_hole frag prevHole 8 IPV4_INFINITY h else Some (frag, prevHole, h)) }"
    by (rule hole_step_hit [OF l0 d f0 hit])
  have sb1: "same_buffer frag frag1" using s(3) by (simp add: hole_frame_def)
  have f1: "hole_fits frag1 0" by (simp add: hole_fits_def)
  obtain frag2 q h2 where i: "insert_hole frag1 None 0 65528 h1 = Some (frag2, Some q, h2)"
    "linked h2 frag2 ([] @ [(0, 65528)]) (Some q) IPV4_INFINITY" "hole_frame h1 frag1 (insert 0 (starts [])) h2 frag2"
    by (rule insert_hole_eq [OF s(2) f1]) simp
  have fr2: "hole_frame h frag {0} h2 frag2" by (rule hole_frame_trans [OF s(3) i(3)]) simp_all
  have sb2: "same_buffer frag frag2" using fr2 by (simp add: hole_frame_def)
  have f2: "hole_fits frag2 8" using n by (simp add: hole_fits_def same_buffer_eqs [OF sb2])
  obtain frag3 q3 h3 where j: "insert_hole frag2 (Some q) 8 IPV4_INFINITY h2 = Some (frag3, Some q3, h3)"
    "linked h3 frag3 (([] @ [(0, 65528)]) @ [(8, IPV4_INFINITY)]) (Some q3) IPV4_INFINITY"
    "hole_frame h2 frag2 (insert 8 (starts ([] @ [(0, 65528)]))) h3 frag3"
    by (rule insert_hole_eq [OF i(2) f2]) simp
  have fr3: "hole_frame h frag {0, 8} h3 frag3" by (rule hole_frame_trans [OF fr2 j(3)]) simp_all
  have lay3: "frag_layout h3 frag3" using j(2) by (simp add: linked_def)
  have "ipv4FindHole frag3 IPV4_INFINITY = None" by (rule find_hole_None [OF lay3])
  then have "hole_loop 65528 8 True frag None (ipv4FindHole frag (frag_firstHole frag)) h = Some (frag3, h3)"
    using s(1,4) i(1) j(1) get_link_eq [OF j(2)] by (subst hole_loop.simps) (simp add: k, subst hole_loop.simps, simp)
  moreover have "overlapping h3 frag3" using j(2) fr3 n by (auto simp: overlapping_def linked_def hole_frame_def same_buffer_eqs)
  ultimately show thesis using that fr3 by (simp add: hole_frame_def)
qed

lemma second_loop:
  assumes lay: "frag_layout h frag" and n: "frag_dataLen frag = 16"
    and ch: "chain (desc (payload h frag)) (frag_firstHole frag) [(0, 65528), (8, IPV4_INFINITY)] IPV4_INFINITY"
  shows "hole_loop 0 16 True frag None (ipv4FindHole frag (frag_firstHole frag)) h = None"
proof -
  have k: "frag_firstHole frag = 0" and d: "desc (payload h frag) 0 = (0, 65528, 8)" "desc (payload h frag) 8 = (8, IPV4_INFINITY, IPV4_INFINITY)"
    using ch by auto
  have l0: "linked h frag [] None 0" using lay k by (simp add: linked_def prev_is_def)
  have f0: "hole_fits frag 0" by (simp add: hole_fits_def)
  have hit: "(0::u16) < 65528" "(0::u16) < 16" by simp_all
  obtain p frag1 h1 where s: "ipv4FindHole frag 0 = Some p" "linked h1 frag1 [] None 8" "hole_frame h frag (starts []) h1 frag1"
    "hole_step 0 16 True frag None p h = do {
        (frag, prevHole, h) \<leftarrow> (if (0::u16) > 0 then insert_hole frag1 None 0 0 h1 else Some (frag1, None, h1));
        (if (16::u16) < 65528 \<and> True then insert_hole frag prevHole 16 65528 h else Some (frag, prevHole, h)) }"
    by (rule hole_step_hit [OF l0 d(1) f0 hit])
  have sb1: "same_buffer frag frag1" using s(3) by (simp add: hole_frame_def)
  have f1: "hole_fits frag1 16" using n by (simp add: hole_fits_def same_buffer_eqs [OF sb1])
  obtain frag2 q h2 where i: "insert_hole frag1 None 16 65528 h1 = Some (frag2, Some q, h2)"
    "linked h2 frag2 ([] @ [(16, 65528)]) (Some q) 8" "hole_frame h1 frag1 (insert 16 (starts [])) h2 frag2"
    by (rule insert_hole_eq [OF s(2) f1]) simp
  have fr2: "hole_frame h frag {16} h2 frag2" by (rule hole_frame_trans [OF s(3) i(3)]) simp_all
  have sb2: "same_buffer frag frag2" using fr2 by (simp add: hole_frame_def)
  have lay2: "frag_layout h2 frag2" using i(2) by (simp add: linked_def)
  have "desc (payload h2 frag2) 8 = desc (payload h frag) 8"
    by (rule desc_untouched [OF hole_frame_untouched(1) [OF fr2]]) (use n layout_lengths(2) [OF lay] in simp_all)
  then have d2: "desc (payload h2 frag2) 8 = (8, IPV4_INFINITY, IPV4_INFINITY)" using d(2) by simp
  have f2: "hole_fits frag2 8" using n by (simp add: hole_fits_def same_buffer_eqs [OF sb2])
  have hit2: "(0::u16) < IPV4_INFINITY" "(8::u16) < 16" by simp_all
  have q: "ipv4FindHole frag2 16 = Some q" using i(2) by (simp add: linked_def prev_is_def)
  obtain p3 frag3 h3 where t: "ipv4FindHole frag2 8 = Some p3" "set_link frag2 (Some q) IPV4_INFINITY h2 = Some (frag3, h3)"
    "linked h3 frag3 ([] @ [(16, 65528)]) (Some q) IPV4_INFINITY" "hole_frame h2 frag2 (starts ([] @ [(16, 65528)])) h3 frag3"
    "hole_step 0 16 True frag2 (Some q) p3 h2 = do {
        (frag, prevHole, h) \<leftarrow> (if (0::u16) > 8 then insert_hole frag3 (Some q) 8 0 h3 else Some (frag3, Some q, h3));
        (if (16::u16) < IPV4_INFINITY \<and> True then insert_hole frag prevHole 16 IPV4_INFINITY h else Some (frag, prevHole, h)) }"
    by (rule hole_step_hit [OF i(2) d2 f2 hit2])
  have sb3: "same_buffer frag2 frag3" using t(4) by (simp add: hole_frame_def)
  have f3: "hole_fits frag3 16" using n by (simp add: hole_fits_def same_buffer_eqs [OF sb3] same_buffer_eqs [OF sb2])
  have q3: "ipv4FindHole frag3 16 = Some q" using q by (simp add: same_buffer_eqs [OF sb3])
  have lay3: "frag_layout h3 frag3" using t(3) by (simp add: linked_def)
  obtain h4 where u: "insert_hole frag3 (Some q) 16 IPV4_INFINITY h3 = Some (frag3, Some q, h4)" "frag_layout h4 frag3"
    "desc (payload h4 frag3) 16 = (16, IPV4_INFINITY, 16)"
    by (rule insert_self [OF lay3 f3 q3])
  have gl: "get_link frag3 (Some q) h4 = Some 16" using hole_load [OF u(2) f3 q3, of 4] u(3) by (simp add: get_link_def desc_def)
  have hang: "hole_loop 0 16 True frag3 (Some q) (Some q) h4 = None" by (rule self_link_hangs [OF u(2) f3 q3 u(3)]) simp
  have "hole_loop 0 16 True frag2 (Some q) (Some p3) h2 = None"
    using t(5) u(1) gl q3 hang by (subst hole_loop.simps) simp
  then show ?thesis using s(1,4) i(1) get_link_eq [OF i(2)] t(1) by (subst hole_loop.simps) (simp add: k)
qed

text \<open>A write that lies behind the end of the buffer writes nothing.\<close>

lemma write_behind:
  assumes lay: "frag_layout h frag" and "frag_headerLength frag + frag_dataLen frag + 6 \<le> off"
  obtains h' where "netBufferWrite (frag_buffer frag) off vs h = Some (0, h')" and "writes_in (frag_blocks frag) h h'"
    and "frag_layout h' frag" and "payload h' frag = payload h frag" and "frag_header h' frag = frag_header h frag"
proof -
  from lay obtain c cs where c: "chunks (frag_buffer frag) = c # cs" "block_distinct (c # cs)"
      "chunk_length c = frag_headerLength frag" "chunks_total cs = frag_dataLen frag + 6" "chunk_ok h c" "chunks_ok h cs"
    by (elim layoutE)
  have ok: "chunks_ok h (chunks (frag_buffer frag))" "block_distinct (chunks (frag_buffer frag))" using c by simp_all
  have tot: "chunks_total (chunks (frag_buffer frag)) - off = 0" using c assms(2) by simp
  from write_chunks_eq [OF ok, of off vs] obtain h' where
    w: "write_chunks (chunks (frag_buffer frag)) off vs h = Some (0, h')" "writes_in (frag_blocks frag) h h'"
      "contents h' (chunks (frag_buffer frag)) = blit (contents h (chunks (frag_buffer frag))) off []" unfolding tot by auto
  have lay': "frag_layout h' frag" using lay layout_writes [OF w(2)] by simp
  have "length (contents h (chunks (frag_buffer frag))) \<le> off" using ok(1) tot by simp
  then have "frag_header h' frag @ payload h' frag = frag_header h frag @ payload h frag"
    using w(3) layout_contents [OF lay] layout_contents [OF lay'] by (simp add: blit_def)
  moreover have "length (frag_header h' frag) = length (frag_header h frag)" using layout_lengths(1) lay lay' by simp
  ultimately show thesis using that [OF _ w(2) lay'] w(1) by (simp add: netBufferWrite_def)
qed

lemma first_of_two:
  assumes alloc: "alloc_ok (ipAlloc ops)" "allocs ops" and hp: "heap_ok (mem s)"
    and inv: "frag_holes (mem s) frag [(0, IPV4_INFINITY)]" and n: "frag_dataLen frag = 0"
    and pk: "packet_at (mem s) p bytes" "fst p \<in> live (mem s) - frag_blocks frag" "ip_packet bytes" "length bytes = header_len bytes + 16"
    and off: "ntohs (get16 bytes 6) AND IPV4_OFFSET_MASK = 8191" "more_fragments bytes"
  obtains frag' s' where "add_fragment ops interface p 16 (ntohs (get16 bytes 6)) 65528 8 frag s = Some (frag', s')"
    and "entry_step s frag s' frag'" and "overlapping (mem s') frag'" and "frag_header (mem s') frag' = frag_header (mem s) frag"
    and "ip_calls ops (world s) (world s')"
proof -
  have lay: "frag_layout (mem s) frag" using inv by (simp add: frag_holes_def)
  obtain go f1 s1 where e: "enlarge_frag ops 8 frag s = Some (go, f1, s1)" "entry_step s frag s1 f1"
    "go \<longrightarrow> frag_holes (mem s1) f1 [(0, IPV4_INFINITY)] \<and> frag_dataLen f1 = max (frag_dataLen frag) (unat (8 :: u16)) \<and>
      frag_headerLength f1 = frag_headerLength frag \<and> frag_header (mem s1) f1 = frag_header (mem s) frag \<and>
      take (frag_dataLen frag + 6) (payload (mem s1) f1) = payload (mem s) frag"
    by (rule enlarge_frag_eq [OF alloc(1) hp inv])
  have go: "go" by (rule enlarge_succeeds [OF alloc(2) lay _ e(1)]) (use n layout_lengths(5) [OF lay] in simp)
  have h1: "frag_holes (mem s1) f1 [(0, IPV4_INFINITY)]" "frag_dataLen f1 = 8" "frag_header (mem s1) f1 = frag_header (mem s) frag"
    using e(3) go n by simp_all
  obtain f2 h2 where l: "hole_loop 65528 8 True f1 None (ipv4FindHole f1 (frag_firstHole f1)) (mem s1) = Some (f2, h2)"
    "overlapping h2 f2" "same_buffer f1 f2" "writes_in (frag_blocks f1) (mem s1) h2" "frag_header h2 f1 = frag_header (mem s1) f1"
    by (rule first_loop [OF h1(1,2)])
  note eqs = same_buffer_eqs [OF l(3)]
  have lay2: "frag_layout h2 f2" using l(2) by (simp add: overlapping_def)
  note pk1 = packet_after_step [OF e(2) pk(1,2)]
  have pk2: "packet_at h2 p bytes" using packet_at_frame [OF pk1(1)] pk1(2) l(4) by (auto simp: writes_in_def)
  obtain hl where hl: "load_headerLength h2 p = Some hl" "hl * 4 = header_len bytes" using packet_headerLength [OF pk2 pk(3)] by blast
  have ld: "load h2 (member p (hl * 4)) 16 = Some (drop (header_len bytes) bytes)"
    using packet_load [OF pk2, of "header_len bytes" 16] hl(2) pk(4) by simp
  have "frag_headerLength f2 + frag_dataLen f2 + 6 \<le> frag_headerLength f2 + 65528" using h1(2) eqs(6) by simp
  from write_behind [OF lay2 this] obtain h3 where w:
    "netBufferWrite (frag_buffer f2) (frag_headerLength f2 + 65528) (drop (header_len bytes) bytes) h2 = Some (0, h3)"
    "writes_in (frag_blocks f2) h2 h3" "frag_layout h3 f2" "payload h3 f2 = payload h2 f2" "frag_header h3 f2 = frag_header h2 f2" by metis
  have ov: "overlapping h3 f2" using l(2) w(3,4) by (auto simp: overlapping_def)
  have "frag_firstHole f2 = 0" using ov by (simp add: overlapping_def)
  moreover have f20: "hole_fits f2 0" by (simp add: hole_fits_def)
  ultimately obtain x where x: "ipv4FindHole f2 (frag_firstHole f2) = Some x" using find_hole_Some [OF w(3) f20] by metis
  have m: "(ntohs (get16 bytes 6) AND IPV4_FLAG_MF \<noteq> 0) = True" using off(2) by (simp add: more_fragments_def)
  have u: "unat (65528 :: u16) = 65528" by simp
  have run: "add_fragment ops interface p 16 (ntohs (get16 bytes 6)) 65528 8 frag s = Some (f2, s1\<lparr>mem := h3\<rparr>)"
    unfolding add_fragment_def off(1) m
    using e(1) go l(1) hl(1) ld w(1) x by (simp add: u)
  have "writes_in (frag_blocks f1) (mem s1) h3" by (rule writes_in_trans [OF l(4) w(2)]) (simp_all add: eqs(5))
  moreover have "heap_ok (mem s1)" "frag_blocks f1 \<subseteq> live (mem s1)" using e(2) by (simp_all add: entry_step_def)
  ultimately have "entry_step s1 f1 (s1\<lparr>mem := h3\<rparr>) f2" using eqs(5) by (intro entry_step_writes(1))
  from entry_step_trans [OF e(2) this] have es: "entry_step s frag (s1\<lparr>mem := h3\<rparr>) f2" .
  show thesis
    by (rule that [OF run es]) (use ov w(5) l(5) h1(3) eqs(3) enlarge_calls [OF e(1)] in simp_all)
qed

lemma second_of_two:
  assumes alloc: "alloc_ok (ipAlloc ops)" "allocs ops" and hp: "heap_ok (mem s)" and ov: "overlapping (mem s) frag"
    and pk: "packet_at (mem s) p bytes" "ip_packet bytes" and off: "ntohs (get16 bytes 6) AND IPV4_OFFSET_MASK = 0" "more_fragments bytes"
  shows "add_fragment ops interface p 16 (ntohs (get16 bytes 6)) 0 16 frag s = None"
proof -
  have lay: "frag_layout (mem s) frag" and n: "frag_dataLen frag = 8"
    and ch: "chain (desc (payload (mem s) frag)) (frag_firstHole frag) [(0, 65528), (8, IPV4_INFINITY)] IPV4_INFINITY"
    using ov by (simp_all only: overlapping_def)
  obtain go f1 s1 where f: "first_fragment ops p frag s = Some (go, f1, s1)" "entry_step s frag s1 f1"
    "go \<longrightarrow> frag_layout (mem s1) f1 \<and> frag_firstHole f1 = frag_firstHole frag \<and> frag_dataLen f1 = frag_dataLen frag \<and>
      frag_header (mem s1) f1 = take (header_len bytes) bytes \<and> payload (mem s1) f1 = payload (mem s) frag"
    "header_len bytes + frag_dataLen frag \<le> 8192 \<longrightarrow> go"
    by (rule first_fragment_layout [OF hp lay pk])
  have go: go using f(4) n header_len_le [of bytes] by simp
  have lay1: "frag_layout (mem s1) f1" and n1: "frag_dataLen f1 = 8" using f(3) go n by simp_all
  have hp1: "heap_ok (mem s1)" using f(2) by (simp add: entry_step_def)
  obtain go2 f2 s2 where e: "enlarge_frag ops 16 f1 s1 = Some (go2, f2, s2)" "entry_step s1 f1 s2 f2"
    "go2 \<longrightarrow> frag_layout (mem s2) f2 \<and> frag_firstHole f2 = frag_firstHole f1 \<and> frag_dataLen f2 = max (frag_dataLen f1) (unat (16 :: u16)) \<and>
      frag_headerLength f2 = frag_headerLength f1 \<and> frag_header (mem s2) f2 = frag_header (mem s1) f1 \<and>
      take (frag_dataLen f1 + 6) (payload (mem s2) f2) = payload (mem s1) f1"
    by (rule enlarge_frag_layout [OF alloc(1) hp1 lay1])
  have go2: go2 by (rule enlarge_succeeds [OF alloc(2) lay1 _ e(1)]) (use n1 layout_lengths(5) [OF lay1] in simp)
  have n2: "frag_dataLen f2 = 16" and lay2: "frag_layout (mem s2) f2" using e(3) go2 n1 by simp_all
  have "chain (desc (payload (mem s2) f2)) (frag_firstHole f2) [(0, 65528), (8, IPV4_INFINITY)] IPV4_INFINITY"
    using chain_prefix [of "payload (mem s1) f1" "frag_firstHole f2" "[(0, 65528), (8, IPV4_INFINITY)]" IPV4_INFINITY 8 "payload (mem s2) f2"]
      ch e(3) f(3) go go2 n1 layout_lengths(2) [OF lay1] by auto
  from second_loop [OF lay2 n2 this] have hang: "hole_loop 0 16 True f2 None (ipv4FindHole f2 (frag_firstHole f2)) (mem s2) = None" .
  have m: "(ntohs (get16 bytes 6) AND IPV4_FLAG_MF \<noteq> 0) = True" using off(2) by (simp add: more_fragments_def)
  show ?thesis unfolding add_fragment_def off(1) m using f(1) go e(1) go2 hang by simp
qed

subsection \<open>The two packets at the queue\<close>

text \<open>What is common to the two: 16 bytes of data, and more to follow.\<close>

lemma reassemble_16:
  assumes pk: "packet_at (mem s) p bytes" "ip_packet bytes" "length (packet_data bytes) = 16" and mf: "more_fragments bytes"
    and ab: "(ntohs (get16 bytes 6) AND IPV4_OFFSET_MASK) * 8 = a" "a + 16 = b"
  shows "ipv4ReassembleDatagram ops interface q p (length bytes) s = do {
     (found, q, s) \<leftarrow> ipv4SearchFragQueue ops q p s;
     (case found of
        None \<Rightarrow> Some (q, s)
      | Some i \<Rightarrow> do {
          (frag, s) \<leftarrow> add_fragment ops interface p 16 (ntohs (get16 bytes 6)) a b (q ! i) s;
          Some (q[i := frag], s)
        })
   }"
proof -
  obtain hl where hl: "load_headerLength (mem s) p = Some hl" "hl * 4 = header_len bytes"
    using packet_headerLength [OF pk(1,2)] by blast
  have ld: "load16 (mem s) (member p 6) = Some (get16 bytes 6)"
    using packet_members(2) [OF pk(1), of 6] pk(2) by (simp add: ip_packet_def)
  have len: "size_sub (length bytes) (hl * 4) = 16" using pk(2,3) by (simp add: hl(2) packet_data_def ip_packet_def)
  have ab': "a + word_of_nat 16 = b" using ab(2) by simp
  have no: "\<not> (ntohs (get16 bytes 6) AND IPV4_FLAG_MF \<noteq> 0 \<and> (16::nat) mod 8 \<noteq> 0)" by simp
  show ?thesis
    unfolding ipv4ReassembleDatagram_def Let_def hl(1) ld
    by (simp only: len ab(1) ab' no Option.bind.simps option.map if_False)
qed

lemma two_fragments:
  assumes alloc: "alloc_ok (ipAlloc ops)" "allocs ops" and q: "queue_ok (mem s) q" and idle: "idle bytes (mem s) q"
    and p: "packet_at (mem s) p bytes" "fst p \<in> live (mem s) - queue_blocks q" "ip_packet bytes" "length (packet_data bytes) = 16"
      "more_fragments bytes" "ntohs (get16 bytes 6) AND IPV4_OFFSET_MASK = 8191"
    and p': "packet_at (mem s) p' bytes'" "fst p' \<in> live (mem s) - queue_blocks q" "ip_packet bytes'" "length (packet_data bytes') = 16"
      "more_fragments bytes'" "ntohs (get16 bytes' 6) AND IPV4_OFFSET_MASK = 0"
    and key: "datagram_key bytes' = datagram_key bytes"
  obtains q1 s1 where "ipv4ReassembleDatagram ops interface q p (length bytes) s = Some (q1, s1)"
    and "ip_calls ops (world s) (world s1)" and "ipv4ReassembleDatagram ops interface q1 p' (length bytes') s1 = None"
proof -
  note run = reassemble_16 [OF p(1,3,4,5), of 65528 8 ops interface q]
  have l16: "length bytes = header_len bytes + 16" using p(3,4) by (simp add: packet_data_def ip_packet_def)
  show thesis
  proof (cases rule: search_cases [OF alloc(1) q p(1,3,2), case_names refused found made])
    case (refused q' s')
    then show ?thesis using alloc(2) idle nth_mem unfolding idle_def by blast
  next
    case (found k)
    then show ?thesis using idle by (auto simp: idle_def)
  next
    case (made i frag s2)
    have hp2: "heap_ok (mem s2)" using made(5) by (simp add: entry_step_def)
    have st: "queue_step s q s2 (q[i := frag])" by (rule queue_update [OF q made(2,5) holes_inv [OF made(6)]])
    note pk2 = packet_after_queue_step [OF st p(1,2)] and pk2' = packet_after_queue_step [OF st p'(1,2)]
    have q2: "queue_ok (mem s2) (q[i := frag])" and i2: "i < length (q[i := frag])" using st made(2) by (simp_all add: queue_step_def)
    have out: "fst p \<in> live (mem s2) - frag_blocks frag" "fst p' \<in> live (mem s2) - frag_blocks frag"
      using pk2(2) pk2'(2) queue_frag_blocks [OF i2] made(2) by auto
    obtain f1 s1 where f1: "add_fragment ops interface p 16 (ntohs (get16 bytes 6)) 65528 8 frag s2 = Some (f1, s1)"
      "entry_step s2 frag s1 f1" "overlapping (mem s1) f1" "frag_header (mem s1) f1 = frag_header (mem s2) frag"
      "ip_calls ops (world s2) (world s1)"
      by (rule first_of_two [OF alloc hp2 made(6,7) pk2(1) out(1) p(3) l16 p(6,5)])
    let ?q1 = "q[i := f1]"
    have r1: "ipv4ReassembleDatagram ops interface q p (length bytes) s = Some (?q1, s1)"
      using run made(1,2) f1(1) p(6) by simp
    have c1: "ip_calls ops (world s) (world s1)" by (rule ip_calls_trans [OF made(9) f1(5)])
    have es1: "entry_step s (q ! i) s1 f1" by (rule entry_step_trans [OF made(5) f1(2)])
    have hp1: "heap_ok (mem s1)" using f1(2) by (simp add: entry_step_def)
    have lay1: "frag_layout (mem s1) f1" using f1(3) by (simp add: overlapping_def)
    have pk1: "packet_at (mem s1) p' bytes'" by (rule packet_after_step(1) [OF f1(2) pk2'(1) out(2)])
    have l20: "20 \<le> header_len bytes" "header_len bytes \<le> length bytes" "20 \<le> length bytes'" using p(3) p'(3) by (simp_all add: ip_packet_def)
    have new: "entry_of (mem s1) bytes' f1"
      using lay1 f1(4) made(8) key l20 by (elim layout_packet) (simp add: entry_of_def)
    have old: "(frag_in_use (?q1 ! j) \<longrightarrow> frag_layout (mem s1) (?q1 ! j)) \<and> (entry_of (mem s1) bytes' (?q1 ! j) \<longrightarrow> j = i)" if j: "j < length q" for j
    proof (cases "j = i")
      case False
      have "frag_layout (mem s1) (q ! j) = frag_layout (mem s) (q ! j)" by (rule frag_frame(1) [OF other_entry(1) [OF q made(2) j False es1]])
      moreover have "entry_of (mem s1) bytes' (q ! j) = entry_of (mem s) bytes (q ! j)"
        using entry_of_frame [OF q made(2) j False es1, of bytes] key by (simp add: entry_of_def)
      ultimately show ?thesis using False made(4) j frag_inv_layout [OF queue_ok_inv [OF q j]] by simp
    qed (use made(2) lay1 in simp)
    have inv: "\<forall>j < length ?q1. frag_in_use (?q1 ! j) \<longrightarrow> frag_layout (mem s1) (?q1 ! j)" using old by simp
    have "match_frag ?q1 p' (mem s1) 0 = Some (Some i)"
      using match_frag_eq [OF inv pk1 l20(3), of 0] old new made(2) by force
    then have sr: "ipv4SearchFragQueue ops ?q1 p' s1 = Some (Some i, ?q1, s1)" by (simp add: ipv4SearchFragQueue_def)
    have r2: "ipv4ReassembleDatagram ops interface ?q1 p' (length bytes') s1 = None"
      using reassemble_16 [OF pk1 p'(3,4,5), of 0 16 ops interface ?q1] sr made(2) p'(6)
        second_of_two [OF alloc hp1 f1(3) pk1 p'(3,6,5), of interface] by simp
    show thesis by (rule that [OF r1 c1 r2])
  qed
qed

end
