(* ===== verification/Ipv4Properties.thy ===== *)
theory Ipv4Properties
  imports Ipv4Tick Ipv4Hang
begin

text \<open>
  The properties of the IPv4 reassembly, with a sample of the services below and above it: an allocator that always
  succeeds, and a UDP layer that collects the datagrams it gets.
\<close>

definition sample_ops :: "buffer list ip_ops" where
  "sample_ops = \<lparr>ipAlloc = (\<lambda>n w. (Some (replicate n 0), w)), ipTime = (\<lambda>w. (0, w)),
     icmpInput = (\<lambda>_ _ bytes _ w. w @ [bytes]), tcpInput = (\<lambda>_ _ bytes _ w. w @ [bytes]),
     udpInput = (\<lambda>_ _ bytes _ w. (NO_ERROR, w @ [bytes])), icmpError = (\<lambda>_ _ _ bytes w. w @ [bytes])\<rparr>"

lemma sample_alloc: "alloc_ok (ipAlloc sample_ops)" "allocs sample_ops"
  by (simp_all add: sample_ops_def alloc_ok_def allocs_def)

lemma sample_calls: "ip_calls sample_ops w w' \<Longrightarrow> w' = w"
  by (induction rule: ip_calls.induct) (simp_all add: sample_ops_def)

text \<open>Packets with the bytes \<open>x\<close> and \<open>y\<close> for the flags and the fragment offset; the heap holds two of them.\<close>

definition sample_header :: "u8 \<Rightarrow> u8 \<Rightarrow> buffer" where
  "sample_header x y = [0x45, 0, 0, 0, 0, 1, x, y, 64, 17, 0, 0, 192, 168, 0, 1, 192, 168, 0, 2]"

definition two_packets :: "buffer \<Rightarrow> buffer \<Rightarrow> buffer list sys" where
  "two_packets p p' = \<lparr>mem = \<lparr>blocks = [0 \<mapsto> p, 1 \<mapsto> p'], fresh_block = 2\<rparr>, world = []\<rparr>"

abbreviation free_queue :: "Ipv4FragDesc list" where
  "free_queue \<equiv> [cleared_frag]"

lemma sample_queue:
  "queue_ok (mem (two_packets p p')) free_queue" "idle H h free_queue" "queue_blocks free_queue = {}"
  by (auto simp: queue_ok_def two_packets_def heap_ok_def idle_def entry_of_def frag_in_use_def cleared_frag_def frag_inv_def
      queue_blocks_def split: if_splits)

lemma sample_packets:
  "packet_at (mem (two_packets p p')) (0, 0) p" "packet_at (mem (two_packets p p')) (1, 0) p'"
  "0 \<in> live (mem (two_packets p p'))" "1 \<in> live (mem (two_packets p p'))"
  by (simp_all add: packet_at_def two_packets_def load_def rds_def live_def)

lemma sample_header_facts:
  "ip_packet (sample_header x y @ data)" "header_len (sample_header x y @ data) = 20" "packet_data (sample_header x y @ data) = data"
  "take 20 (sample_header x y @ data) = sample_header x y" "length (sample_header x y) = 20"
  "get16 (sample_header x y @ data) 6 = get16 [x, y] 0"
  by (simp_all add: ip_packet_def header_len_def packet_data_def sample_header_def get16_def)

lemma sample_key: "datagram_key (sample_header x y @ data) = datagram_key (sample_header x' y')"
    "datagram_key (sample_header x y @ data) = datagram_key (sample_header x' y' @ data')"
  by (simp_all add: sample_header_def datagram_key_def get_le32_def get16_def)

lemma sample_words: "ntohs (get16 [0x20, 0] 0) = 0x2000" "ntohs (get16 [0, 1] 0) = 1" "ntohs (get16 [0x3F, 0xFF] 0) = 0x3FFF"
  by (simp_all add: get16_def ntohs_def swapInt16_def)

subsection \<open>Rebuilding a datagram\<close>

text \<open>
  C18: The pieces of a datagram arrive in any order and as often as they like, and no allocation fails: the queue hands
  nothing on as long as a byte is missing, and with the last missing byte it hands on the header of the first fragment,
  with the length of the whole datagram, and the payload.  It holds on to no memory of the datagram, and everything
  outside the queue is as before.
\<close>

theorem fragments_rebuild_datagram:
  assumes "alloc_ok (ipAlloc ops)" and "allocs ops" and "queue_ok (mem s) q" and "idle H (mem s) q"
    and "0 < length D" and "length D \<le> 8132" and "packets_at (mem s) q (ps @ [(p, bytes)])"
    and "\<forall>(p, bytes) \<in> set (ps @ [(p, bytes)]). ip_piece H D bytes"
    and "arrived ps \<noteq> {..<length D}" and "arrived (ps @ [(p, bytes)]) = {..<length D}"
  shows "\<exists>q1 s1 q' s'. reassemble_all ops interface q ps s = Some (q1, s1) \<and> ip_calls ops (world s) (world s1) \<and>
    ipv4ReassembleDatagram ops interface q1 p (length bytes) s1 = Some (q', s') \<and>
    delivers ops interface (world s1) (world s') (datagram_header H (length H + length D) @ D) \<and>
    queue_step s q s' q' \<and> idle H (mem s') q'"
  using datagram_rebuilt [OF assms] by metis

lemma sample_offsets:
  "fragment_offset (sample_header 0x20 0 @ data) = 0" "more_fragments (sample_header 0x20 0 @ data)"
  "fragment_offset (sample_header 0 1 @ data) = 8" "\<not> more_fragments (sample_header 0 1 @ data)"
  unfolding fragment_offset_def more_fragments_def sample_header_facts(6) sample_words by simp_all

lemma sample_pieces:
  "ip_piece (sample_header 0x20 0) [1, 2, 3, 4, 5, 6, 7, 8, 9, 10, 11, 12] (sample_header 0x20 0 @ [1, 2, 3, 4, 5, 6, 7, 8])"
  "ip_piece (sample_header 0x20 0) [1, 2, 3, 4, 5, 6, 7, 8, 9, 10, 11, 12] (sample_header 0 1 @ [9, 10, 11, 12])"
  unfolding ip_piece_def Let_def sample_offsets sample_header_facts(2-4)
  by (rule conjI [OF sample_header_facts(1)], rule conjI [OF sample_key(1)], simp add: sample_offsets)+

lemma sample_covers:
  "covers (sample_header 0x20 0 @ [1, 2, 3, 4, 5, 6, 7, 8]) = {0..<8}" "covers (sample_header 0 1 @ [9, 10, 11, 12]) = {8..<12}"
  unfolding covers_def sample_offsets sample_header_facts(3) by (simp_all add: eval_nat_numeral)

lemma fragments_rebuild_datagram_witness:
  "\<exists>q1 s1 q' s'. ipv4ReassembleDatagram sample_ops 0 free_queue (1, 0) 24
      (two_packets (sample_header 0x20 0 @ [1, 2, 3, 4, 5, 6, 7, 8]) (sample_header 0 1 @ [9, 10, 11, 12])) = Some (q1, s1) \<and>
    world s1 = [] \<and> ipv4ReassembleDatagram sample_ops 0 q1 (0, 0) 28 s1 = Some (q', s') \<and>
    world s' = [[0x45, 0, 0, 32, 0, 1, 0, 0, 64, 17, 0, 0, 192, 168, 0, 1, 192, 168, 0, 2, 1, 2, 3, 4, 5, 6, 7, 8, 9, 10, 11, 12]]"
proof -
  let ?a = "sample_header 0x20 0 @ [1, 2, 3, 4, 5, 6, 7, 8]" and ?b = "sample_header 0 1 @ [9, 10, 11, 12]"
  let ?s = "two_packets ?a ?b" and ?H = "sample_header 0x20 0" and ?D = "[1, 2, 3, 4, 5, 6, 7, 8, 9, 10, 11, 12] :: buffer"
  have n: "length ?D = 12" "length ?a = 28" "length ?b = 24" by (simp_all add: sample_header_facts(5))
  have at: "packets_at (mem ?s) free_queue ([((1, 0), ?b)] @ [((0, 0), ?a)])"
    using sample_packets [of ?a ?b] by (simp add: sample_queue del: queue_blocks_Cons)
  have pc: "\<forall>(p, bytes) \<in> set ([((1, 0), ?b)] @ [((0, 0), ?a)]). ip_piece ?H ?D bytes" using sample_pieces by simp
  have "0 \<in> {..<length ?D}" "0 \<notin> arrived [((1, 0), ?b)]" by (simp_all add: sample_covers del: append_Cons)
  then have some: "arrived [((1, 0), ?b)] \<noteq> {..<length ?D}" by blast
  have all: "arrived ([((1, 0), ?b)] @ [((0, 0), ?a)]) = {..<length ?D}"
    unfolding n by (auto simp: sample_covers simp del: append_Cons)
  have D: "0 < length ?D" "length ?D \<le> 8132" by simp_all
  from fragments_rebuild_datagram [OF sample_alloc sample_queue(1,2) D at pc some all, of 0]
  obtain q1 s1 q' s' where r: "reassemble_all sample_ops 0 free_queue [((1, 0), ?b)] ?s = Some (q1, s1)" "ip_calls sample_ops (world ?s) (world s1)"
    "ipv4ReassembleDatagram sample_ops 0 q1 (0, 0) (length ?a) s1 = Some (q', s')"
    "delivers sample_ops 0 (world s1) (world s') (datagram_header ?H (length ?H + length ?D) @ ?D)" by (elim exE conjE)
  have w1: "world s1 = []" using sample_calls [OF r(2)] by (simp add: two_packets_def)
  have dh: "datagram_header ?H (length ?H + length ?D) @ ?D =
      [0x45, 0, 0, 32, 0, 1, 0, 0, 64, 17, 0, 0, 192, 168, 0, 1, 192, 168, 0, 2, 1, 2, 3, 4, 5, 6, 7, 8, 9, 10, 11, 12]"
    by (simp add: datagram_header_def sample_header_def blit_def le16_def htons_def swapInt16_def)
  from r(4) have "world s' = [[0x45, 0, 0, 32, 0, 1, 0, 0, 64, 17, 0, 0, 192, 168, 0, 1, 192, 168, 0, 2, 1, 2, 3, 4, 5, 6, 7, 8, 9, 10, 11, 12]]"
    unfolding dh delivers_def
  proof (elim exE conjE)
    fix v assume "ip_calls sample_ops (world s1) v"
    then have "v = []" using sample_calls w1 by simp
    then show "world s' = ip_deliver sample_ops 0 [0x45, 0, 0, 32, 0, 1, 0, 0, 64, 17, 0, 0, 192, 168, 0, 1, 192, 168, 0, 2,
        1, 2, 3, 4, 5, 6, 7, 8, 9, 10, 11, 12] v \<Longrightarrow> ?thesis" by (simp add: ip_deliver_def sample_ops_def)
  qed
  moreover have "ipv4ReassembleDatagram sample_ops 0 free_queue (1, 0) 24 ?s = Some (q1, s1)" using r(1) n(3) by (auto simp: bind_eq_Some_conv)
  ultimately show ?thesis using r(3) w1 unfolding n by blast
qed

subsection \<open>Any fragment\<close>

text \<open>
  C19: Whatever fragment arrives, as long as it ends below 64 KiB: the reassembly returns, no allocation failure and no
  order of arrival leads out of a buffer, the entries of the queue stay in order and apart from each other, no block is
  leaked, nobody else's block is touched, and at most one datagram is handed on.
\<close>

theorem reassembly_keeps_queue:
  assumes "alloc_ok (ipAlloc ops)" and "queue_ok (mem s) q" and "packet_at (mem s) packet bytes"
    and "fst packet \<in> live (mem s) - queue_blocks q" and "fragment bytes len a b mf data"
  shows "\<exists>q' s'. ipv4ReassembleDatagram ops interface q packet (header_len bytes + len) s = Some (q', s') \<and>
    queue_ok (mem s') q' \<and> length q' = length q \<and>
    live (mem s') - queue_blocks q' = live (mem s) - queue_blocks q \<and>
    (\<forall>x \<in> live (mem s) - queue_blocks q. blocks (mem s') x = blocks (mem s) x) \<and>
    (ip_calls ops (world s) (world s') \<or> (\<exists>datagram. delivers ops interface (world s) (world s') datagram))"
proof -
  obtain q' s' where "ipv4ReassembleDatagram ops interface q packet (header_len bytes + len) s = Some (q', s')"
    "queue_step s q s' q'" "ip_calls ops (world s) (world s') \<or> (\<exists>datagram. delivers ops interface (world s) (world s') datagram)"
    by (rule reassemble_safe [OF assms])
  then show ?thesis by (intro exI [of _ q'] exI [of _ s'] conjI) (simp_all add: queue_step_def)
qed

lemma reassembly_keeps_queue_witness:
  "\<exists>q' s'. ipv4ReassembleDatagram sample_ops 0 free_queue (0, 0) 28 (two_packets (sample_header 0x20 0 @ [1, 2, 3, 4, 5, 6, 7, 8]) []) = Some (q', s') \<and>
    queue_ok (mem s') q' \<and> length q' = 1"
proof -
  let ?a = "sample_header 0x20 0 @ [1, 2, 3, 4, 5, 6, 7, 8]" let ?s = "two_packets ?a []"
  have fr: "fragment ?a 8 0 8 True [1, 2, 3, 4, 5, 6, 7, 8]"
    using sample_words(1) by (simp add: fragment_def sample_header_facts)
  have "fst (0::nat, 0::nat) \<in> live (mem ?s) - queue_blocks free_queue"
    using sample_packets(3) [of ?a "[]"] by (simp add: sample_queue del: queue_blocks_Cons)
  from reassembly_keeps_queue [OF sample_alloc(1) sample_queue(1) sample_packets(1) this fr, of 0]
  show ?thesis by (simp add: sample_header_facts) blast
qed

subsection \<open>The timeout\<close>

text \<open>
  C21: The timer drops the entries older than 15 seconds and leaves the others as they are; the source of a dropped
  datagram whose first fragment had arrived gets one message, with the header and the payload up to the first hole.
\<close>

theorem fragments_time_out:
  assumes "queue_ok (mem s) q" and "ipTime ops (world s) = (time, w)"
  shows "\<exists>q' s'. ipv4FragTick ops interface q s = Some (q', s') \<and> queue_ok (mem s') q' \<and>
    (\<forall>i < length q. if timed_out time (q ! i) then \<not> frag_in_use (q' ! i) else q' ! i = q ! i) \<and>
    live (mem s') - queue_blocks q' = live (mem s) - queue_blocks q \<and>
    (\<forall>x \<in> live (mem s) - queue_blocks q. blocks (mem s') x = blocks (mem s) x) \<and>
    world s' = fold (tell_source ops interface) (timeout_messages time (mem s) q) w"
proof -
  have "queue_ok (mem (s\<lparr>world := w\<rparr>)) q" using assms(1) by simp
  from tick_queue [OF this, of ops interface time] obtain q' s' where
    t: "frag_tick_loop ops interface time q (s\<lparr>world := w\<rparr>) = Some (q', s')" "queue_step (s\<lparr>world := w\<rparr>) q s' q'"
      "\<forall>i < length q. if timed_out time (q ! i) then \<not> frag_in_use (q' ! i) else q' ! i = q ! i"
      "world s' = fold (tell_source ops interface) (timeout_messages time (mem s) q) w" by auto
  have "ipv4FragTick ops interface q s = Some (q', s')" using assms(2) t(1) by (simp add: ipv4FragTick_def)
  with t show ?thesis by (intro exI [of _ q'] exI [of _ s'] conjI) (simp_all add: queue_step_def)
qed

text \<open>
  Two datagrams whose first eight bytes have arrived, one at time 0 and one at time 10000: the entry of each has the
  block of its header, the block of its payload, and behind the data the descriptor of the hole that is left.
\<close>

definition waiting_frag :: "systime_t \<Rightarrow> nat \<Rightarrow> Ipv4FragDesc" where
  "waiting_frag time b = \<lparr>frag_timestamp = time, frag_headerLength = 20, frag_dataLen = 8, frag_firstHole = 8,
     frag_buffer = \<lparr>maxChunkCount = 7, chunks =
       [\<lparr>chunk_address = Some (b, 0), chunk_length = 20, chunk_size = 1536\<rparr>,
        \<lparr>chunk_address = Some (Suc b, 0), chunk_length = 14, chunk_size = 1536\<rparr>]\<rparr>\<rparr>"

definition block_of :: "buffer \<Rightarrow> buffer" where
  "block_of bytes = bytes @ replicate (1536 - length bytes) 0"

definition waiting_heap :: heap where
  "waiting_heap = \<lparr>blocks =
     [0 \<mapsto> block_of (sample_header 0x20 0), 1 \<mapsto> block_of [1, 2, 3, 4, 5, 6, 7, 8, 8, 0, 0xFF, 0xFF, 0xFF, 0xFF],
      2 \<mapsto> block_of (sample_header 0x20 0), 3 \<mapsto> block_of [9, 9, 9, 9, 9, 9, 9, 9, 8, 0, 0xFF, 0xFF, 0xFF, 0xFF]],
     fresh_block = 4\<rparr>"

lemma waiting_bytes:
  "blocks waiting_heap 0 = Some (block_of (sample_header 0x20 0))" "blocks waiting_heap 2 = Some (block_of (sample_header 0x20 0))"
  "blocks waiting_heap (Suc 0) = Some (block_of ([1, 2, 3, 4, 5, 6, 7, 8] @ [8, 0, 0xFF, 0xFF, 0xFF, 0xFF]))"
  "blocks waiting_heap 3 = Some (block_of ([9, 9, 9, 9, 9, 9, 9, 9] @ [8, 0, 0xFF, 0xFF, 0xFF, 0xFF]))"
  by (simp_all add: waiting_heap_def)

lemma block_of [simp]:
  "length bytes \<le> 1536 \<Longrightarrow> length (block_of bytes) = 1536" "take (length bytes) (block_of bytes) = bytes"
  by (simp_all add: block_of_def)

lemma waiting_frag_inv:
  assumes "blocks h b = Some (block_of H)" and "blocks h (Suc b) = Some (block_of (P @ [8, 0, 0xFF, 0xFF, 0xFF, 0xFF]))"
    and "length H = 20" and "length P = 8"
  shows "frag_inv h (waiting_frag time b)" and "frag_header h (waiting_frag time b) = H"
    and "payload h (waiting_frag time b) = P @ [8, 0, 0xFF, 0xFF, 0xFF, 0xFF]"
proof -
  have H: "take 20 (block_of H) = H" and P: "take 14 (block_of (P @ [8, 0, 0xFF, 0xFF, 0xFF, 0xFF])) = P @ [8, 0, 0xFF, 0xFF, 0xFF, 0xFF]"
    using block_of(2) [of H] block_of(2) [of "P @ [8, 0, 0xFF, 0xFF, 0xFF, 0xFF]"] assms(3,4) by simp_all
  show "frag_header h (waiting_frag time b) = H"
    and pay: "payload h (waiting_frag time b) = P @ [8, 0, 0xFF, 0xFF, 0xFF, 0xFF]"
    using assms H P by (simp_all add: frag_header_def payload_def waiting_frag_def chunk_bytes_def)
  have "desc (P @ [8, 0, 0xFF, 0xFF, 0xFF, 0xFF]) 8 = (8, 0xFFFF, 0xFFFF)"
    using assms(4) by (simp add: desc_def get16_def nth_append)
  then have "chain (desc (payload h (waiting_frag time b))) (frag_firstHole (waiting_frag time b)) [(8, 0xFFFF)] 0xFFFF"
    unfolding pay by (simp add: waiting_frag_def)
  moreover have "frag_layout h (waiting_frag time b)"
    using assms
    by (simp add: frag_layout_def waiting_frag_def nb_ok_def chunk_ok_def owners_ok_def block_owner_def alias_free_def
        full_chunks_def chunk_block_def)
  moreover have "holes_ok (frag_dataLen (waiting_frag time b)) [(8, 0xFFFF)]"
    by (simp add: hole_ok_def waiting_frag_def)
  ultimately have "frag_holes h (waiting_frag time b) [(8, 0xFFFF)]" unfolding frag_holes_def by blast
  moreover have "frag_in_use (waiting_frag time b)" by (simp add: frag_in_use_def waiting_frag_def)
  ultimately show "frag_inv h (waiting_frag time b)" by (auto simp: frag_inv_def)
qed

definition late_ops :: "buffer list ip_ops" where
  "late_ops = sample_ops\<lparr>ipTime := (\<lambda>w. (15000, w))\<rparr>"

text \<open>At time 15000 the older one is dropped and its source gets the header and the eight bytes; the other stays.\<close>

lemma fragments_time_out_witness:
  "\<exists>q' s'. ipv4FragTick late_ops 0 [waiting_frag 0 0, waiting_frag 10000 2, cleared_frag] \<lparr>mem = waiting_heap, world = []\<rparr> =
      Some (q', s') \<and>
    \<not> frag_in_use (q' ! 0) \<and> q' ! 1 = waiting_frag 10000 2 \<and>
    world s' = [sample_header 0x20 0 @ [1, 2, 3, 4, 5, 6, 7, 8]]"
proof -
  let ?q = "[waiting_frag 0 0, waiting_frag 10000 2, cleared_frag]" and ?s = "\<lparr>mem = waiting_heap, world = [] :: buffer list\<rparr>"
  note old = waiting_frag_inv [OF waiting_bytes(1,3), of 0]
  have "blocks waiting_heap (Suc 2) = Some (block_of ([9, 9, 9, 9, 9, 9, 9, 9] @ [8, 0, 0xFF, 0xFF, 0xFF, 0xFF]))"
    using waiting_bytes(4) by simp
  note young = waiting_frag_inv(1) [OF waiting_bytes(2) this, of 10000]
  have inv: "frag_inv waiting_heap (waiting_frag 0 0)" "frag_inv waiting_heap (waiting_frag 10000 2)"
    using old(1) young by (simp_all add: sample_header_facts(5))
  have hd: "frag_header waiting_heap (waiting_frag 0 0) = sample_header 0x20 0"
    "payload waiting_heap (waiting_frag 0 0) = [1, 2, 3, 4, 5, 6, 7, 8] @ [8, 0, 0xFF, 0xFF, 0xFF, 0xFF]"
    using old by (simp_all add: sample_header_facts(5))
  have "frag_blocks (waiting_frag 0 0) = {0, 1}" "frag_blocks (waiting_frag 10000 2) = {2, 3}" "frag_blocks cleared_frag = {}"
    by (auto simp: waiting_frag_def chunk_block_def cleared_frag_def)
  moreover have "frag_inv waiting_heap cleared_frag" by (simp add: frag_inv_def frag_in_use_def cleared_frag_def)
  moreover have "heap_ok waiting_heap" by (simp add: heap_ok_def waiting_heap_def)
  ultimately have ok: "queue_ok (mem ?s) ?q" using inv by (simp add: queue_ok_Cons)
  have t: "ipTime late_ops (world ?s) = (15000, [])" by (simp add: late_ops_def)
  have to: "timed_out 15000 (waiting_frag 0 0)" "\<not> timed_out 15000 (waiting_frag 10000 2)" "\<not> timed_out 15000 cleared_frag"
    by (simp_all add: timed_out_def frag_in_use_def waiting_frag_def cleared_frag_def)
  have "timeout_message waiting_heap (waiting_frag 0 0) = Some (sample_header 0x20 0 @ [1, 2, 3, 4, 5, 6, 7, 8])"
    by (simp add: timeout_message_def hd) (simp add: waiting_frag_def)
  then have msg: "timeout_messages 15000 (mem ?s) ?q = [Some (sample_header 0x20 0 @ [1, 2, 3, 4, 5, 6, 7, 8])]"
    using to by (simp add: timeout_messages_def)
  from fragments_time_out [OF ok t, of 0] obtain q' s' where
    "ipv4FragTick late_ops 0 ?q ?s = Some (q', s')"
    and each: "\<forall>i < length ?q. if timed_out 15000 (?q ! i) then \<not> frag_in_use (q' ! i) else q' ! i = ?q ! i"
    and "world s' = fold (tell_source late_ops 0) (timeout_messages 15000 (mem ?s) ?q) []" by (elim exE conjE)
  moreover have "\<not> frag_in_use (q' ! 0)" "q' ! 1 = waiting_frag 10000 2"
    using each [rule_format, of 0] each [rule_format, of 1] to by simp_all
  ultimately show ?thesis
    unfolding msg by (intro exI [of _ q'] exI [of _ s']) (simp add: tell_source_def late_ops_def sample_ops_def)
qed

subsection \<open>A fragment that wraps around\<close>

text \<open>
  C20: The end of a fragment is computed in 16 bits and not checked.  Two packets of 16 bytes of payload that anybody can
  send, the first with the last possible offset and the second with offset zero, both announcing more fragments, stop
  the stack: the first is accepted, and the second makes the loop over the holes go round for ever.
\<close>

theorem two_fragments_hang:
  assumes "alloc_ok (ipAlloc ops)" and "allocs ops" and "queue_ok (mem s) q" and "idle bytes (mem s) q"
    and "packet_at (mem s) p bytes" and "fst p \<in> live (mem s) - queue_blocks q" and "ip_packet bytes"
    and "length (packet_data bytes) = 16" and "more_fragments bytes" and "ntohs (get16 bytes 6) AND IPV4_OFFSET_MASK = 8191"
    and "packet_at (mem s) p' bytes'" and "fst p' \<in> live (mem s) - queue_blocks q" and "ip_packet bytes'"
    and "length (packet_data bytes') = 16" and "more_fragments bytes'" and "ntohs (get16 bytes' 6) AND IPV4_OFFSET_MASK = 0"
    and "datagram_key bytes' = datagram_key bytes"
  shows "\<exists>q1 s1. ipv4ReassembleDatagram ops interface q p (length bytes) s = Some (q1, s1) \<and>
    ipv4ReassembleDatagram ops interface q1 p' (length bytes') s1 = None"
  using two_fragments [OF assms] by metis

lemma two_fragments_hang_witness:
  "\<exists>q1 s1. ipv4ReassembleDatagram sample_ops 0 free_queue (0, 0) 36
      (two_packets (sample_header 0x3F 0xFF @ replicate 16 0) (sample_header 0x20 0 @ replicate 16 0)) = Some (q1, s1) \<and>
    ipv4ReassembleDatagram sample_ops 0 q1 (1, 0) 36 s1 = None"
proof -
  let ?a = "sample_header 0x3F 0xFF @ replicate 16 0" and ?b = "sample_header 0x20 0 @ replicate 16 0"
  let ?s = "two_packets ?a ?b"
  have off: "ntohs (get16 ?a 6) AND IPV4_OFFSET_MASK = 8191" "more_fragments ?a" "ntohs (get16 ?b 6) AND IPV4_OFFSET_MASK = 0" "more_fragments ?b"
    unfolding more_fragments_def sample_header_facts(6) sample_words by simp_all
  have n: "length (packet_data ?a) = 16" "length (packet_data ?b) = 16" "length ?a = 36" "length ?b = 36"
    by (simp_all only: sample_header_facts(3) length_replicate length_append sample_header_facts(5))
  have out: "fst (0::nat, 0::nat) \<in> live (mem ?s) - queue_blocks free_queue" "fst (1::nat, 0::nat) \<in> live (mem ?s) - queue_blocks free_queue"
    using sample_packets(3,4) [of ?a ?b] by (simp_all add: sample_queue del: queue_blocks_Cons)
  from two_fragments_hang [OF sample_alloc sample_queue(1,2) sample_packets(1) out(1) sample_header_facts(1) n(1) off(2,1)
      sample_packets(2) out(2) sample_header_facts(1) n(2) off(4,3) sample_key(2), of 0]
  show ?thesis unfolding n .
qed

end
