(* ===== verification/EthCrc.thy ===== *)
theory EthCrc
  imports Ipv4Types
begin

text \<open>
  The frame check sequence of \<open>ethernet.c\<close>: \<open>ethCalcCrc\<close> over bytes and \<open>ethCalcCrcEx\<close> over the chunks of a
  multi-part buffer, bit by bit (\<open>ETH_FAST_CRC_SUPPORT\<close> is disabled).  One step of the register is linear and
  injective; that makes the check of the receiver work and every burst of up to 32 bits visible.
\<close>

subsection \<open>The code\<close>

definition crc_bit :: "u32 \<Rightarrow> u32" where
  "crc_bit crc = (if crc AND 1 \<noteq> 0 then drop_bit 1 crc XOR 0xEDB88320 else drop_bit 1 crc)"

definition crc_byte :: "u8 \<Rightarrow> u32 \<Rightarrow> u32" where
  "crc_byte p crc = (crc_bit ^^ 8) (crc XOR ucast p)"

definition crc_bytes :: "buffer \<Rightarrow> u32 \<Rightarrow> u32" where
  "crc_bytes data crc = fold crc_byte data crc"

definition ethCalcCrc :: "buffer \<Rightarrow> u32" where
  "ethCalcCrc data = NOT (crc_bytes data 0xFFFFFFFF)"

text \<open>The loop over the chunks.\<close>

fun crc_chunks :: "ChunkDesc list \<Rightarrow> nat \<Rightarrow> nat \<Rightarrow> u32 \<Rightarrow> heap \<Rightarrow> u32 option" where
  "crc_chunks [] offset len crc h = Some crc"
| "crc_chunks (c # cs) offset len crc h =
     (if len = 0 then Some crc
      else if offset < chunk_length c then do {
        p \<leftarrow> chunk_at c offset;
        let n = min (chunk_length c - offset) len;
        data \<leftarrow> load h p n;
        crc_chunks cs 0 (len - n) (crc_bytes data crc) h
      }
      else crc_chunks cs (offset - chunk_length c) len crc h)"

definition ethCalcCrcEx :: "NetBuffer \<Rightarrow> nat \<Rightarrow> nat \<Rightarrow> heap \<Rightarrow> u32 option" where
  "ethCalcCrcEx b offset len h = map_option (\<lambda>crc. NOT crc) (crc_chunks (chunks b) offset len 0xFFFFFFFF h)"

subsection \<open>Chunks do not matter\<close>

lemma crc_bytes_simps [simp]:
  "crc_bytes [] crc = crc" "crc_bytes (p # ps) crc = crc_bytes ps (crc_byte p crc)"
  "crc_bytes (ps @ qs) crc = crc_bytes qs (crc_bytes ps crc)"
  by (simp_all add: crc_bytes_def)

lemma crc_chunks_eq:
  "chunks_ok h cs \<Longrightarrow> crc_chunks cs off len crc h = Some (crc_bytes (take len (drop off (contents h cs))) crc)"
proof (induction cs off len crc h rule: crc_chunks.induct)
  case (2 c cs off len crc h)
  have ok: "chunk_ok h c" "chunks_ok h cs" using 2(3) by simp_all
  show ?case
  proof (cases "len = 0 \<or> chunk_length c \<le> off")
    case True
    then show ?thesis using 2(2) ok by (auto simp: drop_append)
  next
    case False
    define n where "n = min (chunk_length c - off) len"
    have le: "off + n \<le> chunk_length c" using False by (auto simp: n_def)
    from load_chunk [OF ok(1) le] obtain p where
      p: "chunk_at c off = Some p" "load h p n = Some (take n (drop off (chunk_bytes h c)))" by blast
    have "crc_chunks cs 0 (len - n) (crc_bytes (take n (drop off (chunk_bytes h c))) crc) h =
        Some (crc_bytes (take (len - n) (contents h cs)) (crc_bytes (take n (drop off (chunk_bytes h c))) crc))"
      using 2(1) [OF _ _ p(1) n_def p(2) ok(2)] False by simp
    moreover have "take len (drop off (contents h (c # cs))) = take n (drop off (chunk_bytes h c)) @ take (len - n) (contents h cs)"
      using ok(1) False by (auto simp: n_def min_def)
    ultimately show ?thesis using False p by (simp add: n_def [symmetric] Let_def)
  qed
qed simp

lemma ethCalcCrcEx_eq:
  "chunks_ok h (chunks b) \<Longrightarrow>
    ethCalcCrcEx b off len h = Some (ethCalcCrc (take len (drop off (contents h (chunks b)))))"
  by (simp add: ethCalcCrcEx_def ethCalcCrc_def crc_chunks_eq)

subsection \<open>The register is linear\<close>

lemma and_1_bit: "(c AND 1 \<noteq> 0) = bit (c :: u32) 0"
  by (simp add: bit_simps and_one_eq odd_iff_mod_2_eq_one bit_0)

lemma crc_bit_xor: "crc_bit (a XOR b) = crc_bit a XOR crc_bit b"
  unfolding crc_bit_def and_1_bit by (rule bit_eqI) (auto simp: bit_simps)

lemma crc_bit_0 [simp]: "crc_bit 0 = 0"
  by (simp add: crc_bit_def)

lemma crc_bit_zeroD:
  assumes "crc_bit c = 0"
  shows "c = 0"
proof (cases "bit c 0")
  case True
  have top: "\<not> bit c 32" using bit_imp_le_length [of c 32] by auto
  have "bit (crc_bit c) 31"
    unfolding crc_bit_def and_1_bit using True top by (simp add: bit_xor_iff bit_drop_bit_eq)
  with assms show ?thesis by simp
next
  case False
  have "drop_bit 1 c = 0" using assms False by (simp add: crc_bit_def and_1_bit)
  then have "bit (drop_bit 1 c) n = bit (0 :: u32) n" for n by (rule arg_cong)
  then have "\<not> bit c (Suc n)" for n by (simp add: bit_drop_bit_eq)
  with False have "bit c n = bit (0 :: u32) n" for n by (cases n) simp_all
  then show ?thesis by (intro bit_word_eqI)
qed

lemma crc_bits_xor: "(crc_bit ^^ n) (a XOR b) = (crc_bit ^^ n) a XOR (crc_bit ^^ n) b"
  by (induction n) (simp_all add: crc_bit_xor)

lemma crc_bits_zeroD: "(crc_bit ^^ n) c = 0 \<Longrightarrow> c = 0"
  by (induction n) (auto dest: crc_bit_zeroD)

lemma crc_bits_0 [simp]: "(crc_bit ^^ n) 0 = 0"
  by (induction n) simp_all

lemma crc_byte_xor: "crc_byte (p XOR q) (a XOR b) = crc_byte p a XOR crc_byte q b"
proof -
  have "(a XOR b) XOR ucast (p XOR q) = (a XOR ucast p) XOR (b XOR (ucast q :: u32))"
    by (rule bit_eqI) (auto simp: bit_simps)
  then show ?thesis by (simp add: crc_byte_def crc_bits_xor)
qed

lemma crc_bytes_xor:
  "length ps = length qs \<Longrightarrow> crc_bytes (map2 (XOR) ps qs) (a XOR b) = crc_bytes ps a XOR crc_bytes qs b"
proof (induction ps qs arbitrary: a b rule: list_induct2)
  case (Cons p ps q qs)
  then show ?case by (simp add: crc_byte_xor)
qed simp

lemma crc_byte_zeroD: "crc_byte 0 c = 0 \<Longrightarrow> c = 0"
  unfolding crc_byte_def by (drule crc_bits_zeroD) simp

lemma crc_zeros: "crc_bytes (replicate n 0) c = 0 \<Longrightarrow> c = 0"
  by (induction n arbitrary: c) (auto dest!: crc_byte_zeroD)

subsection \<open>Shifting bytes through\<close>

lemma crc_shift:
  assumes "\<And>k. 32 - n \<le> k \<Longrightarrow> \<not> bit (w :: u32) k"
  shows "(crc_bit ^^ n) (push_bit n w) = w"
  using assms
proof (induction n)
  case (Suc n)
  have "\<not> bit (push_bit (Suc n) w) 0" by (simp only: bit_push_bit_iff) simp
  then have "crc_bit (push_bit (Suc n) w) = drop_bit 1 (push_bit (Suc n) w)"
    by (simp only: crc_bit_def and_1_bit if_False)
  also have "\<dots> = push_bit n w"
  proof (rule bit_word_eqI)
    fix m assume "m < LENGTH(32)"
    have "\<not> bit w (m - n)" if "m = 31" using Suc.prems [of "m - n"] that by simp
    with \<open>m < LENGTH(32)\<close> show "bit (drop_bit 1 (push_bit (Suc n) w)) m = bit (push_bit n w) m"
      unfolding bit_drop_bit_eq bit_push_bit_iff comp_def by (cases "m = 31") (auto simp del: push_bit_Suc)
  qed
  finally show ?case using Suc by (simp add: funpow_swap1)
qed simp

text \<open>At most four bytes leave the same register as the word they make.\<close>

fun byte_word :: "buffer \<Rightarrow> u32" where
  "byte_word [] = 0"
| "byte_word (p # ps) = ucast p XOR push_bit 8 (byte_word ps)"

lemma bit_byte_word: "bit (byte_word ps) k \<Longrightarrow> k < 8 * length ps"
proof (induction ps arbitrary: k)
  case (Cons p ps)
  have "k - 8 < 8 * length ps" if "8 \<le> k" "bit (byte_word ps) (k - 8)" using Cons.IH [OF that(2)] .
  then show ?case using Cons.prems not_bit_u8 [of k p]
    by (cases "k < 8") (auto simp: bit_xor_iff bit_push_bit_iff bit_ucast_iff)
qed simp

lemma crc_burst:
  "length ps \<le> 4 \<Longrightarrow> crc_bytes ps crc = (crc_bit ^^ (8 * length ps)) (crc XOR byte_word ps)"
proof (induction ps arbitrary: crc)
  case (Cons p ps)
  have "crc_bytes (p # ps) crc = (crc_bit ^^ (8 * length ps)) ((crc_bit ^^ 8) (crc XOR ucast p) XOR byte_word ps)"
    using Cons by (simp add: crc_byte_def)
  also have "byte_word ps = (crc_bit ^^ 8) (push_bit 8 (byte_word ps))"
    using bit_byte_word [of ps] Cons.prems by (intro crc_shift [symmetric]) force
  also have "(crc_bit ^^ 8) (crc XOR ucast p) XOR (crc_bit ^^ 8) (push_bit 8 (byte_word ps)) =
      (crc_bit ^^ 8) (crc XOR byte_word (p # ps))"
    by (simp add: crc_bits_xor [symmetric] ac_simps)
  finally show ?case by (simp add: funpow_add add.commute [of 8])
qed simp

lemma byte_word_zeroD: "byte_word ps = 0 \<Longrightarrow> length ps \<le> 4 \<Longrightarrow> ps = replicate (length ps) 0"
proof (induction ps)
  case (Cons p ps)
  have b: "bit (ucast p :: u32) k = bit (push_bit 8 (byte_word ps)) k" for k
    using arg_cong [OF Cons.prems(1), of "\<lambda>w. bit w k"] by (auto simp: bit_xor_iff)
  have "\<not> bit p k" for k
    using b [of k] not_bit_u8 [of k p] by (cases "k < 8") (auto simp: bit_push_bit_iff bit_ucast_iff)
  then have "p = 0" by (intro bit_eqI) simp
  moreover have "\<not> bit (byte_word ps) k" for k
    using b [of "k + 8"] bit_byte_word [of ps k] Cons.prems(2) not_bit_u8 [of "k + 8" p]
    by (auto simp: bit_push_bit_iff bit_ucast_iff)
  then have "byte_word ps = 0" by (intro bit_eqI) simp
  ultimately show ?case using Cons by simp
qed simp

subsection \<open>What the check detects, and what it accepts\<close>

lemma word_xor_zero: "a XOR b = 0 \<longleftrightarrow> a = (b :: 'a :: len word)"
  by (metis xor.left_neutral xor_self_eq bit.xor_left_self xor.right_neutral)

lemma crc_bytes_inject: "crc_bytes ps a = crc_bytes ps b \<Longrightarrow> a = b"
proof -
  assume eq: "crc_bytes ps a = crc_bytes ps b"
  have "crc_bytes (map2 (XOR) ps ps) (a XOR b) = 0" using eq by (simp add: crc_bytes_xor)
  moreover have "map2 (XOR) ps ps = replicate (length ps) 0" by (induction ps) simp_all
  ultimately have "a XOR b = 0" using crc_zeros by metis
  then show ?thesis by (simp add: word_xor_zero)
qed

lemma map2_xor_zeroD:
  "map2 (XOR) ps qs = replicate (length ps) (0 :: u8) \<Longrightarrow> length ps = length qs \<Longrightarrow> ps = qs"
proof (induction ps arbitrary: qs)
  case (Cons p ps)
  then obtain q qs' where "qs = q # qs'" by (cases qs) auto
  with Cons show ?case by (auto simp: word_xor_zero) 
qed simp

lemma crc_detects_burst:
  assumes "length ps = length qs" and "length ps \<le> 4" and "ps \<noteq> qs"
  shows "ethCalcCrc (pre @ ps @ post) \<noteq> ethCalcCrc (pre @ qs @ post)"
proof
  let ?a = "crc_bytes pre 0xFFFFFFFF" and ?d = "map2 (XOR) ps qs"
  assume "ethCalcCrc (pre @ ps @ post) = ethCalcCrc (pre @ qs @ post)"
  then have "crc_bytes post (crc_bytes ps ?a) = crc_bytes post (crc_bytes qs ?a)" by (simp add: ethCalcCrc_def)
  then have "crc_bytes ps ?a = crc_bytes qs ?a" by (rule crc_bytes_inject)
  then have "crc_bytes ?d 0 = 0" using crc_bytes_xor [OF assms(1), of ?a ?a] by simp
  then have "byte_word ?d = 0" using assms(1,2) by (simp add: crc_burst) (rule crc_bits_zeroD)
  then have "?d = replicate (length ?d) 0" by (rule byte_word_zeroD) (use assms in simp)
  then show False using map2_xor_zeroD [of ps qs] assms by simp
qed

text \<open>The frame check sequence as it is sent, the least significant byte first.\<close>

definition le32 :: "u32 \<Rightarrow> buffer" where
  "le32 v = [ucast v, ucast (drop_bit 8 v), ucast (drop_bit 16 v), ucast (drop_bit 24 v)]"

lemma byte_word_le32: "byte_word (le32 v) = v"
proof (rule bit_word_eqI)
  fix k assume "k < LENGTH(32)"
  then show "bit (byte_word (le32 v)) k = bit v k"
    by (cases "k < 8"; cases "k < 16"; cases "k < 24")
      (auto simp: le32_def bit_xor_iff bit_push_bit_iff bit_ucast_iff bit_drop_bit_eq not_bit_u8)
qed

lemma funpow_numeral: "(f ^^ numeral k) x = (f ^^ pred_numeral k) (f x)"
  by (simp add: numeral_eq_Suc funpow_swap1)

lemma crc_preset: "(crc_bit ^^ 32) 0xFFFFFFFF = 0xDEBB20E3"
  by (simp add: funpow_numeral crc_bit_def)

lemma crc_residue: "ethCalcCrc (data @ le32 (ethCalcCrc data)) = 0x2144DF1C"
proof -
  let ?c = "crc_bytes data 0xFFFFFFFF"
  have "crc_bytes (le32 (NOT ?c)) ?c = (crc_bit ^^ 32) (?c XOR byte_word (le32 (NOT ?c)))"
    using crc_burst [of "le32 (NOT ?c)" ?c] by (simp add: le32_def)
  also have "?c XOR byte_word (le32 (NOT ?c)) = 0xFFFFFFFF"
    unfolding byte_word_le32 by simp
  also note crc_preset
  finally have "crc_bytes (le32 (NOT ?c)) ?c = 0xDEBB20E3" .
  then have "ethCalcCrc (data @ le32 (ethCalcCrc data)) = NOT 0xDEBB20E3" by (simp only: ethCalcCrc_def crc_bytes_simps)
  also have "\<dots> = 0x2144DF1C" by simp
  finally show ?thesis .
qed

end
