(* ===== verification/NetIf.thy ===== *)
theory NetIf
  imports EthCrc
begin

text \<open>
  A network interface: \<open>NetInterface\<close> of \<open>net.h\<close> with its MAC filter, ARP cache and IPv4 context, and what the link
  layer calls.  VLAN, VMAN and port tagging are disabled and there is one interface (\<open>NET_INTERFACE_COUNT\<close>), so the
  logical and the physical interface of an interface are the interface.  A MAC address is its six bytes.
\<close>

type_synonym MacAddr = buffer

definition MAC_UNSPECIFIED_ADDR :: MacAddr where
  "MAC_UNSPECIFIED_ADDR = [0, 0, 0, 0, 0, 0]"

definition MAC_BROADCAST_ADDR :: MacAddr where
  "MAC_BROADCAST_ADDR = [0xFF, 0xFF, 0xFF, 0xFF, 0xFF, 0xFF]"

definition macCompAddr :: "MacAddr \<Rightarrow> MacAddr \<Rightarrow> bool" where
  "macCompAddr a b \<longleftrightarrow> a = b"

definition macIsMulticastAddr :: "MacAddr \<Rightarrow> bool" where
  "macIsMulticastAddr a \<longleftrightarrow> a ! 0 AND 0x01 \<noteq> 0"

subsection \<open>Constants\<close>

abbreviation (input) MAC_ADDR_FILTER_SIZE :: nat where "MAC_ADDR_FILTER_SIZE \<equiv> 12"
abbreviation (input) IPV4_MULTICAST_FILTER_SIZE :: nat where "IPV4_MULTICAST_FILTER_SIZE \<equiv> 4"
abbreviation (input) IPV4_DNS_SERVER_LIST_SIZE :: nat where "IPV4_DNS_SERVER_LIST_SIZE \<equiv> 2"
abbreviation (input) ARP_CACHE_SIZE :: nat where "ARP_CACHE_SIZE \<equiv> 8"
abbreviation (input) IPV4_MAX_FRAG_DATAGRAMS :: nat where "IPV4_MAX_FRAG_DATAGRAMS \<equiv> 4"
abbreviation (input) sizeof_EthHeader :: nat where "sizeof_EthHeader \<equiv> 14"
abbreviation (input) ETH_MTU :: nat where "ETH_MTU \<equiv> 1500"
abbreviation (input) ETH_CRC_SIZE :: nat where "ETH_CRC_SIZE \<equiv> 4"
abbreviation (input) ETH_MIN_FRAME_SIZE :: nat where "ETH_MIN_FRAME_SIZE \<equiv> 64"
abbreviation (input) ETH_TYPE_IPV4 :: u16 where "ETH_TYPE_IPV4 \<equiv> 0x0800"
abbreviation (input) ETH_TYPE_ARP :: u16 where "ETH_TYPE_ARP \<equiv> 0x0806"

subsection \<open>The driver\<close>

datatype NicType = NIC_TYPE_UNKNOWN | NIC_TYPE_ETHERNET | NIC_TYPE_PPP | NIC_TYPE_6LOWPAN

text \<open>The constants of a driver; its operations are in \<open>link_ops\<close>.\<close>

record NicDriver =
  nic_type :: NicType
  nic_mtu :: nat
  autoPadding :: bool
  autoCrcCalc :: bool
  autoCrcVerif :: bool
  autoCrcStrip :: bool

record MacFilterEntry =
  mac_addr :: MacAddr
  mac_refCount :: u32
  mac_addFlag :: bool
  mac_deleteFlag :: bool

definition cleared_mac_entry :: MacFilterEntry where
  "cleared_mac_entry = \<lparr>mac_addr = MAC_UNSPECIFIED_ADDR, mac_refCount = 0, mac_addFlag = False, mac_deleteFlag = False\<rparr>"

subsection \<open>IPv4 and ARP\<close>

text \<open>The state, the flag and the timer of an entry of the multicast filter belong to IGMP, which is disabled.\<close>

record Ipv4FilterEntry =
  grp_addr :: u32
  grp_refCount :: u32

definition cleared_group_entry :: Ipv4FilterEntry where
  "cleared_group_entry = \<lparr>grp_addr = 0, grp_refCount = 0\<rparr>"

datatype Ipv4AddrState = IPV4_ADDR_STATE_INVALID | IPV4_ADDR_STATE_TENTATIVE | IPV4_ADDR_STATE_VALID

record Ipv4Context =
  linkMtu :: nat
  isRouter :: bool
  ipv4_identification :: u16
  ipv4_addr :: u32
  addrState :: Ipv4AddrState
  addrConflict :: bool
  subnetMask :: u32
  defaultGateway :: u32
  dnsServerList :: "u32 list"
  multicastFilter :: "Ipv4FilterEntry list"
  fragQueue :: "Ipv4FragDesc list"

datatype ArpState =
    ARP_STATE_NONE | ARP_STATE_INCOMPLETE | ARP_STATE_REACHABLE | ARP_STATE_STALE | ARP_STATE_DELAY
  | ARP_STATE_PROBE | ARP_STATE_PERMANENT

text \<open>A packet that waits for an address: the buffer, which is a pointer and its descriptors, and an offset.\<close>

record ArpQueueItem =
  item_ptr :: pointer
  item_buffer :: NetBuffer
  item_offset :: nat

text \<open>The array of packets with its counter \<open>queueSize\<close> is the list of the packets in use.\<close>

record ArpCacheEntry =
  arp_state :: ArpState
  arp_ipAddr :: u32
  arp_macAddr :: MacAddr
  arp_timestamp :: systime_t
  arp_timeout :: systime_t
  arp_retransmitCount :: u32
  arp_queue :: "ArpQueueItem list"

definition cleared_arp_entry :: ArpCacheEntry where
  "cleared_arp_entry = \<lparr>arp_state = ARP_STATE_NONE, arp_ipAddr = 0, arp_macAddr = MAC_UNSPECIFIED_ADDR,
     arp_timestamp = 0, arp_timeout = 0, arp_retransmitCount = 0, arp_queue = []\<rparr>"

subsection \<open>The interface\<close>

record NetInterface =
  if_index :: nat
  nicDriver :: "NicDriver option"
  configured :: bool
  if_macAddr :: MacAddr
  macAddrFilter :: "MacFilterEntry list"
  ipv4Context :: Ipv4Context
  arpCache :: "ArpCacheEntry list"

definition ethInit :: "NetInterface \<Rightarrow> NetInterface" where
  "ethInit interface = interface\<lparr>macAddrFilter := replicate MAC_ADDR_FILTER_SIZE cleared_mac_entry\<rparr>"

definition arpInit :: "NetInterface \<Rightarrow> NetInterface" where
  "arpInit interface = interface\<lparr>arpCache := replicate ARP_CACHE_SIZE cleared_arp_entry\<rparr>"

text \<open>Dereferencing the driver when there is none is undefined.\<close>

definition ipv4Init :: "NetInterface \<Rightarrow> NetInterface option" where
  "ipv4Init interface = map_option (\<lambda>driver. interface\<lparr>ipv4Context :=
     \<lparr>linkMtu = nic_mtu driver, isRouter = False, ipv4_identification = 0, ipv4_addr = 0,
      addrState = IPV4_ADDR_STATE_INVALID, addrConflict = False, subnetMask = 0, defaultGateway = 0,
      dnsServerList = replicate IPV4_DNS_SERVER_LIST_SIZE 0,
      multicastFilter = replicate IPV4_MULTICAST_FILTER_SIZE cleared_group_entry,
      fragQueue = replicate IPV4_MAX_FRAG_DATAGRAMS cleared_frag\<rparr>\<rparr>) (nicDriver interface)"

text \<open>
  What the link layer calls: what IPv4 calls, the operations of the driver, which gets the bytes of a frame, waiting
  for the transmitter, and the seed of the random numbers.  \<open>ethPadding\<close> is where the constant array of zeros lies.
\<close>

record 'w link_ops =
  linkIp :: "'w ip_ops"
  osWaitForTx :: "'w \<Rightarrow> bool \<times> 'w"
  disableIrq :: "'w \<Rightarrow> 'w"
  enableIrq :: "'w \<Rightarrow> 'w"
  driverSend :: "buffer \<Rightarrow> 'w \<Rightarrow> error_t \<times> 'w"
  driverUpdateFilter :: "MacFilterEntry list \<Rightarrow> 'w \<Rightarrow> error_t \<times> 'w"
  netInitRand :: "u32 \<Rightarrow> 'w \<Rightarrow> 'w"
  ethPadding :: pointer

definition enable_if_configured :: "'w link_ops \<Rightarrow> NetInterface \<Rightarrow> 'w \<Rightarrow> 'w" where
  "enable_if_configured ops interface w = (if configured interface then enableIrq ops w else w)"

definition nicUpdateMacAddrFilter :: "'w link_ops \<Rightarrow> NetInterface \<Rightarrow> 'w \<Rightarrow> error_t \<times> 'w" where
  "nicUpdateMacAddrFilter ops interface w =
     (case nicDriver interface of
        None \<Rightarrow> (ERROR_INVALID_INTERFACE, w)
      | Some _ \<Rightarrow>
          let w = disableIrq ops w;
              (error, w) = driverUpdateFilter ops (macAddrFilter interface) w
          in (error, enable_if_configured ops interface w))"

end
