(* ===== verification/MacFilter.thy ===== *)
theory MacFilter
  imports NetIf
begin

text \<open>
  The MAC filter of \<open>ethernet.c\<close>, a table of addresses with reference counts, and the hash table that the driver
  \<open>msp432e4_eth_driver.c\<close> makes of it.  \<open>ref_filter\<close> is the contract of a table with reference counts.
\<close>

subsection \<open>The code\<close>

text \<open>
  The search for an address in a table with reference counts, which also remembers the first free entry: the flag says
  whether the index is that of the address.
\<close>

fun ref_scan :: "('e \<Rightarrow> u32) \<Rightarrow> ('e \<Rightarrow> bool) \<Rightarrow> 'e list \<Rightarrow> nat \<Rightarrow> nat option \<Rightarrow> bool \<times> nat option" where
  "ref_scan count found [] i firstFreeEntry = (False, firstFreeEntry)"
| "ref_scan count found (entry # es) i firstFreeEntry =
     (if count entry > 0
      then if found entry then (True, Some i) else ref_scan count found es (Suc i) firstFreeEntry
      else ref_scan count found es (Suc i) (if firstFreeEntry = None then Some i else firstFreeEntry))"

definition ethCheckDestAddr :: "NetInterface \<Rightarrow> MacAddr \<Rightarrow> error_t" where
  "ethCheckDestAddr interface addr =
     (if macCompAddr addr (if_macAddr interface) then NO_ERROR
      else if macCompAddr addr MAC_BROADCAST_ADDR then NO_ERROR
      else if macIsMulticastAddr addr then
        (if \<exists>entry \<in> set (macAddrFilter interface). mac_refCount entry > 0 \<and> macCompAddr (mac_addr entry) addr
         then NO_ERROR else ERROR_INVALID_ADDRESS)
      else ERROR_INVALID_ADDRESS)"

definition set_mac_entry :: "nat \<Rightarrow> (MacFilterEntry \<Rightarrow> MacFilterEntry) \<Rightarrow> NetInterface \<Rightarrow> NetInterface" where
  "set_mac_entry i f interface = interface\<lparr>macAddrFilter := (macAddrFilter interface)[i := f (macAddrFilter interface ! i)]\<rparr>"

definition ethAcceptMacAddr :: "'w link_ops \<Rightarrow> NetInterface \<Rightarrow> MacAddr \<Rightarrow> 'w \<Rightarrow> error_t \<times> NetInterface \<times> 'w" where
  "ethAcceptMacAddr ops interface addr w =
     (case ref_scan mac_refCount (\<lambda>entry. macCompAddr (mac_addr entry) addr) (macAddrFilter interface) 0 None of
        (True, Some i) \<Rightarrow> (NO_ERROR, set_mac_entry i (\<lambda>e. e\<lparr>mac_refCount := mac_refCount e + 1\<rparr>) interface, w)
      | (_, None) \<Rightarrow> (ERROR_FAILURE, interface, w)
      | (False, Some i) \<Rightarrow>
          let interface = set_mac_entry i (\<lambda>_. \<lparr>mac_addr = addr, mac_refCount = 1, mac_addFlag = True, mac_deleteFlag = False\<rparr>) interface;
              (_, w) = nicUpdateMacAddrFilter ops interface w
          in (NO_ERROR, set_mac_entry i (\<lambda>e. e\<lparr>mac_addFlag := False\<rparr>) interface, w))"

definition ethDropMacAddr :: "'w link_ops \<Rightarrow> NetInterface \<Rightarrow> MacAddr \<Rightarrow> 'w \<Rightarrow> error_t \<times> NetInterface \<times> 'w" where
  "ethDropMacAddr ops interface addr w =
     (case ref_scan mac_refCount (\<lambda>entry. macCompAddr (mac_addr entry) addr) (macAddrFilter interface) 0 None of
        (True, Some i) \<Rightarrow>
          let interface = set_mac_entry i (\<lambda>e. e\<lparr>mac_refCount := mac_refCount e - 1\<rparr>) interface
          in if mac_refCount (macAddrFilter interface ! i) = 0 then
               let interface = set_mac_entry i (\<lambda>e. e\<lparr>mac_deleteFlag := True\<rparr>) interface;
                   (_, w) = nicUpdateMacAddrFilter ops interface w
               in (NO_ERROR, set_mac_entry i (\<lambda>e. e\<lparr>mac_deleteFlag := False, mac_addr := MAC_UNSPECIFIED_ADDR\<rparr>) interface, w)
             else (NO_ERROR, interface, w)
      | _ \<Rightarrow> (ERROR_ADDRESS_NOT_FOUND, interface, w))"

subsection \<open>The hash table of the driver\<close>

definition driver_crc_bit :: "u8 \<Rightarrow> nat \<Rightarrow> u32 \<Rightarrow> u32" where
  "driver_crc_bit p j crc =
     (if (drop_bit 31 crc XOR ucast (drop_bit j p)) AND 0x01 \<noteq> 0 then push_bit 1 crc XOR 0x04C11DB7 else push_bit 1 crc)"

definition msp432e4EthCalcCrc :: "buffer \<Rightarrow> u32" where
  "msp432e4EthCalcCrc data = NOT (fold (\<lambda>p crc. fold (driver_crc_bit p) [0..<8] crc) data 0xFFFFFFFF)"

text \<open>The two hash registers of the controller; the rest of the world is an extension of the record.\<close>

record emac =
  HASHTBLL :: u32
  HASHTBLH :: u32

definition hash_index :: "MacAddr \<Rightarrow> nat" where
  "hash_index addr = unat (drop_bit 26 (msp432e4EthCalcCrc addr) AND 0x3F)"

definition add_to_hash :: "MacFilterEntry \<Rightarrow> u32 \<times> u32 \<Rightarrow> u32 \<times> u32" where
  "add_to_hash entry hashTable =
     (if mac_refCount entry > 0 then
        let k = hash_index (mac_addr entry)
        in if k div 32 = 0 then (fst hashTable OR push_bit (k mod 32) 1, snd hashTable)
           else (fst hashTable, snd hashTable OR push_bit (k mod 32) 1)
      else hashTable)"

definition msp432e4EthUpdateMacAddrFilter ::
    "MacFilterEntry list \<Rightarrow> 'a emac_scheme \<Rightarrow> error_t \<times> 'a emac_scheme" where
  "msp432e4EthUpdateMacAddrFilter entries w =
     (let hashTable = fold add_to_hash entries (0, 0)
      in (NO_ERROR, w\<lparr>HASHTBLL := fst hashTable, HASHTBLH := snd hashTable\<rparr>))"

text \<open>The test of the controller: the bit of the hash table that the index of the address selects.\<close>

definition hash_hit :: "'a emac_scheme \<Rightarrow> MacAddr \<Rightarrow> bool" where
  "hash_hit w addr = (let k = hash_index addr in bit (if k div 32 = 0 then HASHTBLL w else HASHTBLH w) (k mod 32))"

subsection \<open>The CRC of the driver is the mirror image of that of the stack\<close>

lemma rev32_bit: "n < 32 \<Longrightarrow> bit (reverseInt32 x) n \<longleftrightarrow> bit x (31 - n)"
  by (rule bit_reverseInt32)

lemma driver_bit_step:
  "driver_crc_bit p j (reverseInt32 (e XOR ucast (drop_bit j p))) = reverseInt32 (crc_bit e XOR ucast (drop_bit (Suc j) p))"
proof -
  have c: "(drop_bit 31 (reverseInt32 (e XOR ucast (drop_bit j p))) XOR ucast (drop_bit j p)) AND 1 \<noteq> 0 \<longleftrightarrow> e AND 1 \<noteq> 0"
    unfolding and_1_bit by (auto simp: bit_xor_iff bit_drop_bit_eq bit_ucast_iff rev32_bit)
  have s: "push_bit 1 (reverseInt32 (e XOR ucast (drop_bit j p))) = reverseInt32 (drop_bit 1 e XOR ucast (drop_bit (Suc j) p))"
  proof (rule bit_word_eqI)
    fix n assume n: "n < LENGTH(32)"
    show "bit (push_bit 1 (reverseInt32 (e XOR ucast (drop_bit j p)))) n =
        bit (reverseInt32 (drop_bit 1 e XOR ucast (drop_bit (Suc j) p))) n"
    proof (cases n)
      case 0
      then show ?thesis using bit_imp_le_length [of e 32] unfolding bit_push_bit_iff
        by (auto simp: rev32_bit bit_xor_iff bit_ucast_iff bit_drop_bit_eq)
    next
      case (Suc m)
      then have "31 - m = Suc (31 - n)" using n by simp
      then show ?thesis using n Suc unfolding bit_push_bit_iff
        by (auto simp: rev32_bit bit_xor_iff bit_ucast_iff bit_drop_bit_eq)
    qed
  qed
  have r: "reverseInt32 (a XOR b) = reverseInt32 a XOR reverseInt32 b" for a b
    by (rule bit_word_eqI) (simp add: rev32_bit bit_xor_iff)
  have k: "reverseInt32 0xEDB88320 = 0x04C11DB7" by (simp add: reverseInt32_def)
  show ?thesis
  proof (cases "e AND 1 \<noteq> 0")
    case True
    have "crc_bit e XOR ucast (drop_bit (Suc j) p) = (drop_bit 1 e XOR ucast (drop_bit (Suc j) p)) XOR 0xEDB88320"
      using True by (simp add: crc_bit_def ac_simps)
    with c True s k show ?thesis by (simp add: driver_crc_bit_def r del: push_bit_of_1)
  next
    case False
    with c s show ?thesis by (simp only: driver_crc_bit_def crc_bit_def if_False)
  qed
qed

lemma driver_bits:
  "fold (driver_crc_bit p) [j..<j + n] (reverseInt32 (e XOR ucast (drop_bit j p))) =
    reverseInt32 ((crc_bit ^^ n) e XOR ucast (drop_bit (j + n) p))"
proof (induction n arbitrary: j e)
  case (Suc n)
  have "[j..<j + Suc n] = j # [Suc j..<Suc j + n]" by (simp add: upt_conv_Cons)
  then show ?case using Suc.IH [of "Suc j" "crc_bit e"] by (simp add: driver_bit_step funpow_swap1)
qed simp

lemma driver_byte: "fold (driver_crc_bit p) [0..<8] (reverseInt32 crc) = reverseInt32 (crc_byte p crc)"
proof -
  have "drop_bit 8 p = 0" by (rule bit_word_eqI) (simp add: bit_drop_bit_eq)
  then show ?thesis
    using driver_bits [of p 0 8 "crc XOR ucast p"] by (simp add: crc_byte_def ac_simps)
qed

lemma driver_crc_mirrored: "msp432e4EthCalcCrc data = reverseInt32 (ethCalcCrc data)"
proof -
  have "fold (\<lambda>p crc. fold (driver_crc_bit p) [0..<8] crc) data (reverseInt32 crc) = reverseInt32 (crc_bytes data crc)" for crc
    by (induction data arbitrary: crc) (simp_all add: driver_byte crc_bytes_def)
  moreover have "reverseInt32 0xFFFFFFFF = 0xFFFFFFFF" by (simp add: reverseInt32_def)
  moreover have "reverseInt32 (NOT x) = NOT (reverseInt32 x)" for x
    by (rule bit_word_eqI) (auto simp: rev32_bit bit_not_iff)
  ultimately show ?thesis unfolding msp432e4EthCalcCrc_def ethCalcCrc_def by metis
qed

subsection \<open>A table of reference counts\<close>

text \<open>How often an address is in use.\<close>

definition count_of :: "('e \<Rightarrow> 'k) \<Rightarrow> ('e \<Rightarrow> u32) \<Rightarrow> 'e list \<Rightarrow> 'k \<Rightarrow> nat" where
  "count_of key count es k = sum_list (map (\<lambda>e. if key e = k then unat (count e) else 0) es)"

lemma count_of_update:
  "i < length es \<Longrightarrow> count_of key count (es[i := e]) k + (if key (es ! i) = k then unat (count (es ! i)) else 0) =
    count_of key count es k + (if key e = k then unat (count e) else 0)"
  unfolding count_of_def
proof (induction es arbitrary: i)
  case (Cons a es)
  show ?case
  proof (cases i)
    case (Suc j)
    with Cons.prems Cons.IH [of j] show ?thesis unfolding Suc by (simp add: ac_simps cong: if_cong split del: if_split)
  qed (simp add: ac_simps cong: if_cong split del: if_split)
qed simp

lemma count_of_entry: "i < length es \<Longrightarrow> key (es ! i) = k \<Longrightarrow> unat (count (es ! i)) \<le> count_of key count es k"
  unfolding count_of_def
proof (induction es arbitrary: i)
  case (Cons a es)
  then show ?case by (cases i) (auto intro: trans_le_add2)
qed simp

lemma count_of_pos: "0 < count_of key count es k \<longleftrightarrow> (\<exists>e \<in> set es. key e = k \<and> count e > 0)"
  unfolding count_of_def by (induction es) (auto simp: word_greater_zero_iff unat_gt_0)

lemma count_of_replicate [simp]: "count e = 0 \<Longrightarrow> count_of key count (replicate n e) k = 0"
  by (simp add: count_of_def)

lemma ref_scan_cases:
  assumes "ref_scan count found es n free = (hit, r)"
  shows "if hit then \<exists>i. r = Some (n + i) \<and> i < length es \<and> count (es ! i) > 0 \<and> found (es ! i)
    else (\<forall>e \<in> set es. count e > 0 \<longrightarrow> \<not> found e) \<and>
      (r = free \<or> free = None \<and> (\<exists>i. r = Some (n + i) \<and> i < length es \<and> count (es ! i) = 0))"
  using assms
proof (induction es arbitrary: n free)
  case (Cons e es)
  consider (found) "count e > 0" "found e" | (other) "count e > 0" "\<not> found e" | (free) "count e = 0"
    by (auto simp: word_greater_zero_iff)
  then show ?case
  proof cases
    case found
    with Cons.prems have "hit" "r = Some (n + 0)" by simp_all
    with found show ?thesis by (simp only: if_True) (rule exI [of _ 0], simp)
  next
    case other
    with Cons.prems have "ref_scan count found es (Suc n) free = (hit, r)" by simp
    from Cons.IH [OF this] have "if hit then \<exists>i. r = Some (n + Suc i) \<and> i < length es \<and> count (es ! i) > 0 \<and> found (es ! i)
      else (\<forall>e \<in> set es. count e > 0 \<longrightarrow> \<not> found e) \<and>
        (r = free \<or> free = None \<and> (\<exists>i. r = Some (n + Suc i) \<and> i < length es \<and> count (es ! i) = 0))"
      by (cases hit) auto
    with other show ?thesis by (auto split: if_splits)
  next
    case free
    then have "ref_scan count found es (Suc n) (if free = None then Some n else free) = (hit, r)" using Cons.prems by simp
    from Cons.IH [OF this] have "if hit then \<exists>i. r = Some (n + Suc i) \<and> i < length es \<and> count (es ! i) > 0 \<and> found (es ! i)
      else (\<forall>e \<in> set es. count e > 0 \<longrightarrow> \<not> found e) \<and> r = (if free = None then Some n else free)"
      by (auto split: if_splits)
    moreover have "n = n + 0 \<and> 0 < length (e # es) \<and> count ((e # es) ! 0) = 0" using free by simp
    ultimately show ?thesis using free
      by (auto split: if_splits)
  qed
qed (auto split: if_splits)

text \<open>A sequence of additions and removals, with the status of each.\<close>

fun filter_run ::
    "('k \<Rightarrow> 't \<Rightarrow> error_t \<times> 't) \<Rightarrow> ('k \<Rightarrow> 't \<Rightarrow> error_t \<times> 't) \<Rightarrow> (bool \<times> 'k) list \<Rightarrow> 't \<Rightarrow> error_t list \<times> 't" where
  "filter_run add remove [] t = ([], t)"
| "filter_run add remove ((adding, k) # ops) t =
     (let (e, t) = (if adding then add k t else remove k t); (es, t) = filter_run add remove ops t in (e # es, t))"

text \<open>
  The contract of a table with reference counts, whatever it is part of: \<open>uses\<close> says how often a key is in use.  A key
  in use once less than \<open>2 ^ 32 - 1\<close> times can be added unless the table is full; it can be removed when it is in use.
\<close>

locale ref_filter =
  fixes uses :: "'t \<Rightarrow> 'k \<Rightarrow> nat"
    and add :: "'k \<Rightarrow> 't \<Rightarrow> error_t \<times> 't"
    and remove :: "'k \<Rightarrow> 't \<Rightarrow> error_t \<times> 't"
  assumes add_law: "Suc (uses t k) < 4294967296 \<Longrightarrow> add k t = (e, t') \<Longrightarrow>
      uses t' = (if e = NO_ERROR then (uses t)(k := Suc (uses t k)) else uses t)"
    and remove_law: "remove k t = (e, t') \<Longrightarrow>
      uses t' = (uses t)(k := uses t k - 1) \<and> (e = NO_ERROR \<longleftrightarrow> 0 < uses t k)"
begin

lemma filter_run_uses:
  assumes "filter_run add remove ops t = (es, t')" and "\<forall>k. uses t k + length ops < 4294967296"
  shows "uses t' k + length (filter (\<lambda>(op, e). op = (False, k) \<and> e = NO_ERROR) (zip ops es)) =
    uses t k + length (filter (\<lambda>(op, e). op = (True, k) \<and> e = NO_ERROR) (zip ops es))"
  using assms
proof (induction ops arbitrary: t es)
  case (Cons op ops)
  obtain adding j where op: "op = (adding, j)" by fastforce
  obtain e t1 where s: "(if adding then add j t else remove j t) = (e, t1)" by fastforce
  obtain es' t2 where r: "filter_run add remove ops t1 = (es', t2)" by fastforce
  have es: "es = e # es'" "t2 = t'" using Cons.prems(1) s r by (auto simp: op Let_def)
  have less: "Suc (uses t j) < 4294967296" using Cons.prems(2) [rule_format, of j] by simp
  have u: "uses t1 = (if adding then if e = NO_ERROR then (uses t)(j := Suc (uses t j)) else uses t
      else (uses t)(j := uses t j - 1)) \<and> (\<not> adding \<longrightarrow> (e = NO_ERROR \<longleftrightarrow> 0 < uses t j))"
    using s add_law [of t j e t1] remove_law [of j t e t1] less by (auto split: if_splits)
  have "uses t1 i + length ops < 4294967296" for i
    using u Cons.prems(2) [rule_format, of i] by (auto split: if_splits)
  from Cons.IH [OF r [unfolded es]] this have "uses t' k + length (filter (\<lambda>(op, e). op = (False, k) \<and> e = NO_ERROR) (zip ops es')) =
      uses t1 k + length (filter (\<lambda>(op, e). op = (True, k) \<and> e = NO_ERROR) (zip ops es'))" by blast
  with u show ?case by (auto simp: op es split: if_splits)
qed simp

end

subsection \<open>The MAC filter keeps the contract\<close>

definition mac_uses :: "NetInterface \<times> 'w \<Rightarrow> MacAddr \<Rightarrow> nat" where
  "mac_uses t = count_of mac_addr mac_refCount (macAddrFilter (fst t))"

lemma unat_Suc32: "Suc (unat (c :: u32)) < 4294967296 \<Longrightarrow> unat (c + 1) = Suc (unat c)"
  using unat_plus_if' [of c 1] by (simp add: unat_1 split: if_splits)

lemma unat_pred32: "c > 0 \<Longrightarrow> unat (c - 1 :: u32) = unat c - 1"
  by (simp add: word_greater_zero_iff unat_minus_one)

lemma set_mac_entry_filter [simp]:
  "macAddrFilter (set_mac_entry i f interface) = (macAddrFilter interface)[i := f (macAddrFilter interface ! i)]"
  by (simp add: set_mac_entry_def)

text \<open>An entry that keeps its address and its counter, or keeps a counter of zero, changes no use.\<close>

lemma count_of_cong_entry:
  "i < length es \<Longrightarrow> count e = count (es ! i) \<Longrightarrow> key e = key (es ! i) \<or> count e = 0 \<Longrightarrow>
    count_of key count (es[i := e]) = count_of key count es"
proof (rule ext)
  fix k
  assume "i < length es" "count e = count (es ! i)" "key e = key (es ! i) \<or> count e = 0"
  then show "count_of key count (es[i := e]) k = count_of key count es k"
    using count_of_update [of i es key count e k] by (auto split: if_splits)
qed

lemma accept_mac_uses:
  assumes "ethAcceptMacAddr ops interface a w = (e, interface', w')" and "Suc (mac_uses (interface, w) a) < 4294967296"
  shows "mac_uses (interface', w') =
    (if e = NO_ERROR then (mac_uses (interface, w))(a := Suc (mac_uses (interface, w) a)) else mac_uses (interface, w))"
proof -
  let ?t = "macAddrFilter interface"
  obtain hit r where s: "ref_scan mac_refCount (\<lambda>entry. macCompAddr (mac_addr entry) a) ?t 0 None = (hit, r)" by fastforce
  note sc = ref_scan_cases [OF s, unfolded macCompAddr_def]
  consider (hit) i where "hit" "r = Some i" "i < length ?t" "mac_refCount (?t ! i) > 0" "mac_addr (?t ! i) = a"
    | (full) "\<not> hit" "r = None" | (free) i where "\<not> hit" "r = Some i" "i < length ?t" "mac_refCount (?t ! i) = 0"
    using sc by (cases hit; cases r) auto
  then show ?thesis
  proof cases
    case hit
    have "unat (mac_refCount (?t ! i)) \<le> mac_uses (interface, w) a"
      using count_of_entry [of i ?t mac_addr a] hit by (simp add: mac_uses_def)
    then have "unat (mac_refCount (?t ! i) + 1) = Suc (unat (mac_refCount (?t ! i)))"
      by (intro unat_Suc32) (use assms(2) in simp)
    then have "count_of mac_addr mac_refCount (?t[i := (?t ! i)\<lparr>mac_refCount := mac_refCount (?t ! i) + 1\<rparr>]) k =
        (if k = a then Suc (mac_uses (interface, w) k) else mac_uses (interface, w) k)" for k
      using count_of_update [of i ?t mac_addr mac_refCount "(?t ! i)\<lparr>mac_refCount := mac_refCount (?t ! i) + 1\<rparr>" k] hit(3,5)
      by (auto simp: mac_uses_def split: if_splits)
    with assms(1) s hit show ?thesis by (auto simp: ethAcceptMacAddr_def mac_uses_def)
  next
    case full
    with assms(1) s show ?thesis by (auto simp: ethAcceptMacAddr_def)
  next
    case free
    let ?e = "\<lparr>mac_addr = a, mac_refCount = 1, mac_addFlag = True, mac_deleteFlag = False\<rparr>"
    have "count_of mac_addr mac_refCount (?t[i := ?e\<lparr>mac_addFlag := False\<rparr>]) k =
        (if k = a then Suc (mac_uses (interface, w) k) else mac_uses (interface, w) k)" for k
      using count_of_update [of i ?t mac_addr mac_refCount "?e\<lparr>mac_addFlag := False\<rparr>" k] free(3,4)
      by (auto simp: mac_uses_def split: if_splits)
    with assms(1) s free show ?thesis
      by (auto simp: ethAcceptMacAddr_def mac_uses_def Let_def split: prod.splits)
  qed
qed

lemma drop_mac_uses:
  assumes "ethDropMacAddr ops interface a w = (e, interface', w')"
  shows "mac_uses (interface', w') = (mac_uses (interface, w))(a := mac_uses (interface, w) a - 1) \<and>
    (e = NO_ERROR \<longleftrightarrow> 0 < mac_uses (interface, w) a)"
proof -
  let ?t = "macAddrFilter interface"
  obtain hit r where s: "ref_scan mac_refCount (\<lambda>entry. macCompAddr (mac_addr entry) a) ?t 0 None = (hit, r)" by fastforce
  note sc = ref_scan_cases [OF s, unfolded macCompAddr_def]
  show ?thesis
  proof (cases hit)
    case True
    with sc obtain i where i: "r = Some i" "i < length ?t" "mac_refCount (?t ! i) > 0" "mac_addr (?t ! i) = a" by auto
    let ?e = "(?t ! i)\<lparr>mac_refCount := mac_refCount (?t ! i) - 1\<rparr>"
    have pos: "0 < unat (mac_refCount (?t ! i))" using i(3) by (simp add: unat_gt_0)
    then have "0 < mac_uses (interface, w) a"
      using count_of_entry [of i ?t mac_addr a mac_refCount] i by (simp add: mac_uses_def)
    moreover have "count_of mac_addr mac_refCount (?t[i := ?e]) k =
        (if k = a then mac_uses (interface, w) k - 1 else mac_uses (interface, w) k)" for k
      using count_of_update [of i ?t mac_addr mac_refCount ?e k] i(2,4) unat_pred32 [OF i(3)] pos
      by (auto simp: mac_uses_def split: if_splits)
    moreover have "count_of mac_addr mac_refCount (?t[i := ?e\<lparr>mac_deleteFlag := False, mac_addr := MAC_UNSPECIFIED_ADDR\<rparr>]) =
        count_of mac_addr mac_refCount (?t[i := ?e])" if "mac_refCount ?e = 0"
      using count_of_cong_entry [of i "?t[i := ?e]" mac_refCount "?e\<lparr>mac_deleteFlag := False, mac_addr := MAC_UNSPECIFIED_ADDR\<rparr>" mac_addr]
        i(2) that by simp
    ultimately show ?thesis using assms s True i
      by (auto simp: ethDropMacAddr_def mac_uses_def Let_def split: prod.splits if_splits)
  next
    case False
    then have "\<not> 0 < mac_uses (interface, w) a" using sc by (auto simp: mac_uses_def count_of_pos)
    with assms s False show ?thesis by (auto simp: ethDropMacAddr_def)
  qed
qed

text \<open>Nothing but the filter changes.\<close>

lemma accept_mac_frame:
  assumes "ethAcceptMacAddr ops interface a w = (e, interface', w')"
  shows "\<exists>es. interface' = interface\<lparr>macAddrFilter := es\<rparr>" and "e = NO_ERROR \<or> e = ERROR_FAILURE"
  using assms by (auto simp: ethAcceptMacAddr_def set_mac_entry_def Let_def split: prod.splits bool.splits option.splits
    intro: exI [of _ "macAddrFilter interface"])

lemma drop_mac_frame:
  assumes "ethDropMacAddr ops interface a w = (e, interface', w')"
  shows "\<exists>es. interface' = interface\<lparr>macAddrFilter := es\<rparr>"
  using assms by (auto simp: ethDropMacAddr_def set_mac_entry_def Let_def split: prod.splits bool.splits option.splits if_splits
    intro: exI [of _ "macAddrFilter interface"])

interpretation mac: ref_filter mac_uses "\<lambda>a (interface, w). ethAcceptMacAddr ops interface a w"
    "\<lambda>a (interface, w). ethDropMacAddr ops interface a w" for ops :: "'w link_ops"
proof unfold_locales
  fix t :: "NetInterface \<times> 'w" and k e t'
  assume "Suc (mac_uses t k) < 4294967296" and "(case t of (interface, w) \<Rightarrow> ethAcceptMacAddr ops interface k w) = (e, t')"
  then show "mac_uses t' = (if e = NO_ERROR then (mac_uses t)(k := Suc (mac_uses t k)) else mac_uses t)"
    using accept_mac_uses [of ops "fst t" k "snd t" e "fst t'" "snd t'"] by (cases t) simp
next
  fix k and t :: "NetInterface \<times> 'w" and e t'
  assume "(case t of (interface, w) \<Rightarrow> ethDropMacAddr ops interface k w) = (e, t')"
  then show "mac_uses t' = (mac_uses t)(k := mac_uses t k - 1) \<and> (e = NO_ERROR \<longleftrightarrow> 0 < mac_uses t k)"
    using drop_mac_uses [of ops "fst t" k "snd t" e "fst t'" "snd t'"] by (cases t) simp
qed

lemma check_mac_multicast:
  "macIsMulticastAddr a \<Longrightarrow> ethCheckDestAddr interface a = NO_ERROR \<longleftrightarrow>
    a = if_macAddr interface \<or> a = MAC_BROADCAST_ADDR \<or> 0 < mac_uses (interface, w) a"
  by (auto simp: ethCheckDestAddr_def macCompAddr_def mac_uses_def count_of_pos)

subsection \<open>The hash table follows the filter\<close>

definition hash_ok :: "NetInterface \<times> 'a emac_scheme \<Rightarrow> bool" where
  "hash_ok t \<longleftrightarrow> (HASHTBLL (snd t), HASHTBLH (snd t)) = fold add_to_hash (macAddrFilter (fst t)) (0, 0)"

lemma hash_index_less: "hash_index a < 64"
proof -
  have "drop_bit 26 (msp432e4EthCalcCrc a) AND 0x3F \<le> 0x3F" by (rule word_and_le1)
  then show ?thesis by (simp add: hash_index_def word_le_nat_alt)
qed

definition table_bit :: "u32 \<times> u32 \<Rightarrow> nat \<Rightarrow> bool" where
  "table_bit h k = bit (if k div 32 = 0 then fst h else snd h) (k mod 32)"

lemma table_bit_add:
  assumes "k < 64"
  shows "table_bit (add_to_hash e h) k \<longleftrightarrow> table_bit h k \<or> mac_refCount e > 0 \<and> hash_index (mac_addr e) = k"
proof -
  let ?j = "hash_index (mac_addr e)"
  have eq: "?j div 32 = k div 32 \<and> ?j mod 32 = k mod 32 \<longleftrightarrow> ?j = k" by (metis div_mult_mod_eq)
  have le: "?j div 32 \<le> 1" "k div 32 \<le> 1" using hash_index_less [of "mac_addr e"] assms by linarith+
  have b: "bit (push_bit (?j mod 32) 1 :: u32) (k mod 32) \<longleftrightarrow> ?j mod 32 = k mod 32"
    unfolding bit_push_bit_iff bit_1_iff by auto
  show ?thesis
  proof (cases "mac_refCount e > 0")
    case True
    have "table_bit (add_to_hash e h) k \<longleftrightarrow> table_bit h k \<or> ?j div 32 = k div 32 \<and> ?j mod 32 = k mod 32"
      using True le b by (cases "?j div 32 = 0"; cases "k div 32 = 0") (simp_all add: table_bit_def add_to_hash_def Let_def bit_or_iff)
    with eq True show ?thesis by simp
  qed (simp add: add_to_hash_def)
qed

lemma table_bit_fold:
  "k < 64 \<Longrightarrow> table_bit (fold add_to_hash es h) k \<longleftrightarrow>
    table_bit h k \<or> (\<exists>e \<in> set es. mac_refCount e > 0 \<and> hash_index (mac_addr e) = k)"
  by (induction es arbitrary: h) (auto simp: table_bit_add)

text \<open>Every address in use passes the filter of the controller.\<close>

lemma hash_covers:
  assumes "hash_ok (interface, w)" and "0 < mac_uses (interface, w) a"
  shows "hash_hit w a"
proof -
  have "hash_hit w a = table_bit (HASHTBLL w, HASHTBLH w) (hash_index a)"
    by (simp add: hash_hit_def table_bit_def Let_def)
  also have "\<dots> = table_bit (fold add_to_hash (macAddrFilter interface) (0, 0)) (hash_index a)"
    using assms(1) by (simp add: hash_ok_def)
  finally show ?thesis
    using assms(2) by (auto simp: table_bit_fold hash_index_less mac_uses_def count_of_pos)
qed

text \<open>The driver of the application; its interrupt switches leave the hash registers alone.\<close>

definition msp432e4_driver :: "'a emac_scheme link_ops \<Rightarrow> bool" where
  "msp432e4_driver ops \<longleftrightarrow> driverUpdateFilter ops = msp432e4EthUpdateMacAddrFilter \<and>
     (\<forall>w. HASHTBLL (enableIrq ops w) = HASHTBLL w \<and> HASHTBLH (enableIrq ops w) = HASHTBLH w)"

lemma fold_update_cong: "i < length es \<Longrightarrow> f e = f (es ! i) \<Longrightarrow> fold f (es[i := e]) = fold f es"
proof (induction es arbitrary: i)
  case (Cons a es)
  then show ?case by (cases i) auto
qed simp

lemma add_to_hash_cong:
  "(mac_refCount e > 0 \<longleftrightarrow> mac_refCount e' > 0) \<Longrightarrow> mac_refCount e > 0 \<longrightarrow> mac_addr e = mac_addr e' \<Longrightarrow>
    add_to_hash e = add_to_hash e'"
  by (rule ext) (auto simp: add_to_hash_def)

lemma update_filter_hash:
  assumes "msp432e4_driver ops" and "nicDriver interface \<noteq> None" and "nicUpdateMacAddrFilter ops interface w = (e, w')"
  shows "hash_ok (interface, w')"
  using assms by (auto simp: nicUpdateMacAddrFilter_def msp432e4_driver_def msp432e4EthUpdateMacAddrFilter_def hash_ok_def
    enable_if_configured_def Let_def)

lemma hash_ok_entry:
  assumes "hash_ok (interface, w)" and "i < length (macAddrFilter interface)"
    and "add_to_hash (f (macAddrFilter interface ! i)) = add_to_hash (macAddrFilter interface ! i)"
  shows "hash_ok (set_mac_entry i f interface, w)"
  using assms by (simp add: hash_ok_def fold_update_cong)

lemma set_mac_entry_frame [simp]:
  "nicDriver (set_mac_entry i f interface) = nicDriver interface" "if_macAddr (set_mac_entry i f interface) = if_macAddr interface"
  by (simp_all add: set_mac_entry_def)

lemma accept_mac_hash:
  assumes "msp432e4_driver ops" and "nicDriver interface \<noteq> None" and "hash_ok (interface, w)"
    and "Suc (mac_uses (interface, w) a) < 4294967296" and "ethAcceptMacAddr ops interface a w = (e, interface', w')"
  shows "hash_ok (interface', w')"
proof -
  let ?t = "macAddrFilter interface"
  obtain hit r where s: "ref_scan mac_refCount (\<lambda>entry. macCompAddr (mac_addr entry) a) ?t 0 None = (hit, r)" by fastforce
  note sc = ref_scan_cases [OF s, unfolded macCompAddr_def]
  consider (hit) i where "hit" "r = Some i" "i < length ?t" "mac_refCount (?t ! i) > 0" "mac_addr (?t ! i) = a"
    | (full) "\<not> hit" "r = None" | (free) i where "\<not> hit" "r = Some i" "i < length ?t" "mac_refCount (?t ! i) = 0"
    using sc by (cases hit; cases r) auto
  then show ?thesis
  proof cases
    case hit
    have "unat (mac_refCount (?t ! i)) \<le> mac_uses (interface, w) a"
      using count_of_entry [of i ?t mac_addr a] hit by (simp add: mac_uses_def)
    then have "unat (mac_refCount (?t ! i) + 1) = Suc (unat (mac_refCount (?t ! i)))"
      by (intro unat_Suc32) (use assms(4) in simp)
    then have "mac_refCount (?t ! i) + 1 > 0" by (metis unat_gt_0 word_greater_zero_iff zero_less_Suc)
    with hit have "hash_ok (set_mac_entry i (\<lambda>e. e\<lparr>mac_refCount := mac_refCount e + 1\<rparr>) interface, w)"
      by (intro hash_ok_entry [OF assms(3)] add_to_hash_cong) auto
    with assms(5) s hit show ?thesis by (simp add: ethAcceptMacAddr_def)
  next
    case full
    with assms(3,5) s show ?thesis by (simp add: ethAcceptMacAddr_def)
  next
    case free
    let ?n = "set_mac_entry i (\<lambda>_. \<lparr>mac_addr = a, mac_refCount = 1, mac_addFlag = True, mac_deleteFlag = False\<rparr>) interface"
    obtain e1 w1 where u: "nicUpdateMacAddrFilter ops ?n w = (e1, w1)" by fastforce
    have h: "hash_ok (?n, w1)" using update_filter_hash [OF assms(1) _ u] assms(2) by simp
    have "hash_ok (set_mac_entry i (\<lambda>e. e\<lparr>mac_addFlag := False\<rparr>) ?n, w1)"
      by (rule hash_ok_entry [OF h]) (use free in \<open>auto intro!: add_to_hash_cong\<close>)
    with assms(5) s free u show ?thesis by (simp add: ethAcceptMacAddr_def Let_def)
  qed
qed

lemma drop_mac_hash:
  assumes "msp432e4_driver ops" and "nicDriver interface \<noteq> None" and "hash_ok (interface, w)"
    and "ethDropMacAddr ops interface a w = (e, interface', w')"
  shows "hash_ok (interface', w')"
proof -
  let ?t = "macAddrFilter interface"
  obtain hit r where s: "ref_scan mac_refCount (\<lambda>entry. macCompAddr (mac_addr entry) a) ?t 0 None = (hit, r)" by fastforce
  note sc = ref_scan_cases [OF s, unfolded macCompAddr_def]
  show ?thesis
  proof (cases hit)
    case True
    with sc obtain i where i: "r = Some i" "i < length ?t" "mac_refCount (?t ! i) > 0" by auto
    let ?n = "set_mac_entry i (\<lambda>e. e\<lparr>mac_refCount := mac_refCount e - 1\<rparr>) interface"
    show ?thesis
    proof (cases "mac_refCount (macAddrFilter ?n ! i) = 0")
      case zero: True
      let ?d = "set_mac_entry i (\<lambda>e. e\<lparr>mac_deleteFlag := True\<rparr>) ?n"
      obtain e1 w1 where u: "nicUpdateMacAddrFilter ops ?d w = (e1, w1)" by fastforce
      have h: "hash_ok (?d, w1)" using update_filter_hash [OF assms(1) _ u] assms(2) by simp
      have "hash_ok (set_mac_entry i (\<lambda>e. e\<lparr>mac_deleteFlag := False, mac_addr := MAC_UNSPECIFIED_ADDR\<rparr>) ?d, w1)"
        by (rule hash_ok_entry [OF h]) (use i zero in \<open>auto intro!: add_to_hash_cong\<close>)
      with assms(4) s True i zero u show ?thesis by (simp add: ethDropMacAddr_def Let_def)
    next
      case False
      then have "hash_ok (?n, w)"
        using i by (intro hash_ok_entry [OF assms(3)] add_to_hash_cong) (auto simp: word_greater_zero_iff)
      with assms(4) s True i False show ?thesis by (simp add: ethDropMacAddr_def Let_def)
    qed
  next
    case False
    with assms(3,4) s show ?thesis by (auto simp: ethDropMacAddr_def)
  qed
qed

end
