(* ===== verification/Ipv4Addr.thy ===== *)
theory Ipv4Addr
  imports MacFilter
begin

text \<open>
  The addresses of \<open>ipv4.c\<close>: the configuration of an interface, which addresses it accepts, the choice of a source
  address, host groups, and the conversion to and from strings.
\<close>

subsection \<open>Kinds of addresses\<close>

text \<open>\<open>IPV4_ADDR\<close> in the byte order of the target.\<close>

definition IPV4_ADDR :: "nat \<Rightarrow> nat \<Rightarrow> nat \<Rightarrow> nat \<Rightarrow> u32" where
  "IPV4_ADDR a b c d = word_of_nat a OR push_bit 8 (word_of_nat b) OR push_bit 16 (word_of_nat c) OR push_bit 24 (word_of_nat d)"

abbreviation (input) IPV4_UNSPECIFIED_ADDR :: u32 where "IPV4_UNSPECIFIED_ADDR \<equiv> 0"
abbreviation (input) IPV4_BROADCAST_ADDR :: u32 where "IPV4_BROADCAST_ADDR \<equiv> 0xFFFFFFFF"
abbreviation (input) IPV4_LOOPBACK_ADDR :: u32 where "IPV4_LOOPBACK_ADDR \<equiv> 0x0100007F"

lemma ipv4_constants:
  "IPV4_ADDR 0 0 0 0 = IPV4_UNSPECIFIED_ADDR" "IPV4_ADDR 255 255 255 255 = IPV4_BROADCAST_ADDR"
  "IPV4_ADDR 127 0 0 1 = IPV4_LOOPBACK_ADDR" "IPV4_ADDR 224 0 0 0 = 0xE0" "IPV4_ADDR 240 0 0 0 = 0xF0"
  "IPV4_ADDR 169 254 0 0 = 0xFEA9" "IPV4_ADDR 255 255 0 0 = 0xFFFF" "IPV4_ADDR 255 255 255 0 = 0xFFFFFF"
  "IPV4_ADDR 127 0 0 0 = 0x7F" "IPV4_ADDR 255 0 0 0 = 0xFF"
  by (simp_all add: IPV4_ADDR_def)

definition ipv4IsMulticastAddr :: "u32 \<Rightarrow> bool" where
  "ipv4IsMulticastAddr ipAddr \<longleftrightarrow> ipAddr AND 0xF0 = 0xE0"

definition ipv4IsLinkLocalAddr :: "u32 \<Rightarrow> bool" where
  "ipv4IsLinkLocalAddr ipAddr \<longleftrightarrow> ipAddr AND 0xFFFF = 0xFEA9"

definition ipv4IsOnLocalSubnet :: "Ipv4Context \<Rightarrow> u32 \<Rightarrow> bool" where
  "ipv4IsOnLocalSubnet context ipAddr \<longleftrightarrow> ipAddr AND subnetMask context = ipv4_addr context AND subnetMask context"

definition ipv4IsTentativeAddr :: "Ipv4Context \<Rightarrow> u32 \<Rightarrow> bool" where
  "ipv4IsTentativeAddr context ipAddr \<longleftrightarrow> addrState context = IPV4_ADDR_STATE_TENTATIVE \<and> ipv4_addr context = ipAddr"

definition ipv4IsBroadcastAddr :: "Ipv4Context \<Rightarrow> u32 \<Rightarrow> bool" where
  "ipv4IsBroadcastAddr context ipAddr \<longleftrightarrow>
     ipAddr = IPV4_BROADCAST_ADDR \<or>
     ipv4IsOnLocalSubnet context ipAddr \<and> subnetMask context \<noteq> IPV4_BROADCAST_ADDR \<and>
       ipAddr OR subnetMask context = IPV4_BROADCAST_ADDR"

datatype Ipv4AddrScope = IPV4_ADDR_SCOPE_INTERFACE_LOCAL | IPV4_ADDR_SCOPE_LINK_LOCAL | IPV4_ADDR_SCOPE_GLOBAL

fun scope_value :: "Ipv4AddrScope \<Rightarrow> nat" where
  "scope_value IPV4_ADDR_SCOPE_INTERFACE_LOCAL = 1"
| "scope_value IPV4_ADDR_SCOPE_LINK_LOCAL = 2"
| "scope_value IPV4_ADDR_SCOPE_GLOBAL = 3"

definition ipv4GetAddrScope :: "u32 \<Rightarrow> nat" where
  "ipv4GetAddrScope ipAddr = scope_value
     (if ipAddr = IPV4_BROADCAST_ADDR then IPV4_ADDR_SCOPE_LINK_LOCAL
      else if ipv4IsMulticastAddr ipAddr then
        if ipAddr AND 0xFFFFFF = 0xE0 then IPV4_ADDR_SCOPE_LINK_LOCAL else IPV4_ADDR_SCOPE_GLOBAL
      else if ipAddr AND 0xFF = 0x7F then IPV4_ADDR_SCOPE_INTERFACE_LOCAL
      else if ipAddr AND 0xFFFF = 0xFEA9 then IPV4_ADDR_SCOPE_LINK_LOCAL
      else IPV4_ADDR_SCOPE_GLOBAL)"

text \<open>The loop counts the leading ones; \<open>n\<close> is the number of bits left.\<close>

fun prefix_loop :: "u32 \<Rightarrow> nat \<Rightarrow> nat \<Rightarrow> nat" where
  "prefix_loop m i 0 = i"
| "prefix_loop m i (Suc n) = (if bit m (31 - i) then prefix_loop m (Suc i) n else i)"

definition ipv4GetPrefixLength :: "u32 \<Rightarrow> nat" where
  "ipv4GetPrefixLength m = prefix_loop (ntohl m) 0 32"

subsection \<open>Configuration\<close>

text \<open>The functions of the user take the interface and test it against the null pointer, \<open>None\<close>.\<close>

definition set_context :: "(Ipv4Context \<Rightarrow> Ipv4Context) \<Rightarrow> NetInterface \<Rightarrow> NetInterface" where
  "set_context f interface = interface\<lparr>ipv4Context := f (ipv4Context interface)\<rparr>"

definition ipv4SetHostAddr :: "NetInterface option \<Rightarrow> u32 \<Rightarrow> error_t \<times> NetInterface option" where
  "ipv4SetHostAddr interface addr =
     (case interface of
        None \<Rightarrow> (ERROR_INVALID_PARAMETER, None)
      | Some n \<Rightarrow>
          if ipv4IsMulticastAddr addr then (ERROR_INVALID_ADDRESS, Some n)
          else (NO_ERROR, Some (set_context (\<lambda>c. c\<lparr>ipv4_addr := addr, addrConflict := False, addrState :=
            if addr \<noteq> IPV4_UNSPECIFIED_ADDR then IPV4_ADDR_STATE_VALID else IPV4_ADDR_STATE_INVALID\<rparr>) n)))"

text \<open>The functions that read return the value they store, or \<open>None\<close> when they store nothing.\<close>

definition ipv4GetHostAddr :: "NetInterface option \<Rightarrow> error_t \<times> u32 option" where
  "ipv4GetHostAddr interface =
     (case interface of
        None \<Rightarrow> (ERROR_INVALID_PARAMETER, None)
      | Some n \<Rightarrow> (NO_ERROR, Some (if addrState (ipv4Context n) = IPV4_ADDR_STATE_VALID then ipv4_addr (ipv4Context n)
          else IPV4_UNSPECIFIED_ADDR)))"

definition ipv4SetSubnetMask :: "NetInterface option \<Rightarrow> u32 \<Rightarrow> error_t \<times> NetInterface option" where
  "ipv4SetSubnetMask interface m =
     (case interface of
        None \<Rightarrow> (ERROR_INVALID_PARAMETER, None)
      | Some n \<Rightarrow> (NO_ERROR, Some (set_context (\<lambda>c. c\<lparr>subnetMask := m\<rparr>) n)))"

definition ipv4GetSubnetMask :: "NetInterface option \<Rightarrow> error_t \<times> u32 option" where
  "ipv4GetSubnetMask interface =
     (case interface of
        None \<Rightarrow> (ERROR_INVALID_PARAMETER, None)
      | Some n \<Rightarrow> (NO_ERROR, Some (subnetMask (ipv4Context n))))"

definition ipv4SetDefaultGateway :: "NetInterface option \<Rightarrow> u32 \<Rightarrow> error_t \<times> NetInterface option" where
  "ipv4SetDefaultGateway interface addr =
     (case interface of
        None \<Rightarrow> (ERROR_INVALID_PARAMETER, None)
      | Some n \<Rightarrow>
          if ipv4IsMulticastAddr addr then (ERROR_INVALID_ADDRESS, Some n)
          else (NO_ERROR, Some (set_context (\<lambda>c. c\<lparr>defaultGateway := addr\<rparr>) n)))"

definition ipv4GetDefaultGateway :: "NetInterface option \<Rightarrow> error_t \<times> u32 option" where
  "ipv4GetDefaultGateway interface =
     (case interface of
        None \<Rightarrow> (ERROR_INVALID_PARAMETER, None)
      | Some n \<Rightarrow> (NO_ERROR, Some (defaultGateway (ipv4Context n))))"

definition ipv4SetDnsServer :: "NetInterface option \<Rightarrow> nat \<Rightarrow> u32 \<Rightarrow> error_t \<times> NetInterface option" where
  "ipv4SetDnsServer interface index addr =
     (case interface of
        None \<Rightarrow> (ERROR_INVALID_PARAMETER, None)
      | Some n \<Rightarrow>
          if index \<ge> IPV4_DNS_SERVER_LIST_SIZE then (ERROR_OUT_OF_RANGE, Some n)
          else if ipv4IsMulticastAddr addr then (ERROR_INVALID_ADDRESS, Some n)
          else (NO_ERROR, Some (set_context (\<lambda>c. c\<lparr>dnsServerList := (dnsServerList c)[index := addr]\<rparr>) n)))"

definition ipv4GetDnsServer :: "NetInterface option \<Rightarrow> nat \<Rightarrow> error_t \<times> u32 option" where
  "ipv4GetDnsServer interface index =
     (case interface of
        None \<Rightarrow> (ERROR_INVALID_PARAMETER, None)
      | Some n \<Rightarrow>
          if index \<ge> IPV4_DNS_SERVER_LIST_SIZE then (ERROR_OUT_OF_RANGE, Some IPV4_UNSPECIFIED_ADDR)
          else (NO_ERROR, Some (dnsServerList (ipv4Context n) ! index)))"

definition ipv4GetBroadcastAddr :: "NetInterface option \<Rightarrow> error_t \<times> u32 option" where
  "ipv4GetBroadcastAddr interface =
     (case interface of
        None \<Rightarrow> (ERROR_INVALID_PARAMETER, None)
      | Some n \<Rightarrow> (NO_ERROR, Some (ipv4_addr (ipv4Context n) OR NOT (subnetMask (ipv4Context n)))))"

subsection \<open>Filtering\<close>

definition ipv4CheckSourceAddr :: "Ipv4Context \<Rightarrow> u32 \<Rightarrow> error_t" where
  "ipv4CheckSourceAddr context ipAddr =
     (if ipv4IsBroadcastAddr context ipAddr \<or> ipv4IsMulticastAddr ipAddr then ERROR_INVALID_ADDRESS else NO_ERROR)"

definition ipv4CheckDestAddr :: "Ipv4Context \<Rightarrow> u32 \<Rightarrow> error_t" where
  "ipv4CheckDestAddr context ipAddr =
     (if ipv4IsBroadcastAddr context ipAddr then NO_ERROR
      else if ipv4IsMulticastAddr ipAddr then
        (if \<exists>entry \<in> set (multicastFilter context). grp_refCount entry > 0 \<and> grp_addr entry = ipAddr
         then NO_ERROR else ERROR_INVALID_ADDRESS)
      else if addrState context \<noteq> IPV4_ADDR_STATE_INVALID \<and> ipv4_addr context = ipAddr then NO_ERROR
      else ERROR_INVALID_ADDRESS)"

subsection \<open>Source address selection\<close>

text \<open>
  One step of the loop over the interfaces: the best one so far and the current one, both by their index.  The order
  of the subnet masks is that of the host.
\<close>

definition better_source :: "u32 \<Rightarrow> Ipv4Context \<Rightarrow> Ipv4Context \<Rightarrow> bool" where
  "better_source destAddr best current =
     (if ipv4_addr best = destAddr then False
      else if ipv4_addr current = destAddr then True
      else if defaultGateway best = destAddr then False
      else if defaultGateway current = destAddr then True
      else if ipv4GetAddrScope (ipv4_addr current) < ipv4GetAddrScope (ipv4_addr best) then
        ipv4GetAddrScope (ipv4_addr current) \<ge> ipv4GetAddrScope destAddr
      else if ipv4GetAddrScope (ipv4_addr best) < ipv4GetAddrScope (ipv4_addr current) then
        ipv4GetAddrScope (ipv4_addr best) < ipv4GetAddrScope destAddr
      else if ipv4IsOnLocalSubnet best destAddr then False
      else if ipv4IsOnLocalSubnet current destAddr then True
      else ntohl (subnetMask current) > ntohl (subnetMask best))"

fun select_loop :: "nat option \<Rightarrow> u32 \<Rightarrow> NetInterface list \<Rightarrow> nat \<Rightarrow> (nat \<times> Ipv4Context) option \<Rightarrow> (nat \<times> Ipv4Context) option" where
  "select_loop hint destAddr [] i best = best"
| "select_loop hint destAddr (current # ns) i best =
     (let c = ipv4Context current in
      select_loop hint destAddr ns (Suc i)
        (if hint \<noteq> Some i \<and> hint \<noteq> None then best
         else if addrState c \<noteq> IPV4_ADDR_STATE_VALID then best
         else case best of
           None \<Rightarrow> Some (i, c)
         | Some (j, b) \<Rightarrow> if better_source destAddr b c then Some (i, c) else Some (j, b)))"

text \<open>The interface to use and the source address.\<close>

definition ipv4SelectSourceAddr :: "NetInterface list \<Rightarrow> nat option \<Rightarrow> u32 \<Rightarrow> error_t \<times> (nat \<times> u32) option" where
  "ipv4SelectSourceAddr netInterface hint destAddr =
     (case select_loop hint destAddr netInterface 0 None of
        None \<Rightarrow> (ERROR_NO_ADDRESS, None)
      | Some (i, c) \<Rightarrow> (NO_ERROR, Some (i, ipv4_addr c)))"

subsection \<open>Host groups\<close>

definition ipv4MapMulticastAddrToMac :: "u32 \<Rightarrow> error_t \<times> MacAddr option" where
  "ipv4MapMulticastAddrToMac ipAddr =
     (if \<not> ipv4IsMulticastAddr ipAddr then (ERROR_INVALID_ADDRESS, None)
      else let p = le32 ipAddr in (NO_ERROR, Some [0x01, 0x00, 0x5E, p ! 1 AND 0x7F, p ! 2, p ! 3]))"

definition set_group_entry :: "nat \<Rightarrow> (Ipv4FilterEntry \<Rightarrow> Ipv4FilterEntry) \<Rightarrow> NetInterface \<Rightarrow> NetInterface" where
  "set_group_entry i f = set_context (\<lambda>c. c\<lparr>multicastFilter := (multicastFilter c)[i := f (multicastFilter c ! i)]\<rparr>)"

definition ipv4JoinMulticastGroup :: "'w link_ops \<Rightarrow> NetInterface \<Rightarrow> u32 \<Rightarrow> 'w \<Rightarrow> error_t \<times> NetInterface \<times> 'w" where
  "ipv4JoinMulticastGroup ops interface groupAddr w =
     (if \<not> ipv4IsMulticastAddr groupAddr then (ERROR_INVALID_ADDRESS, interface, w)
      else
        (case ref_scan grp_refCount (\<lambda>entry. grp_addr entry = groupAddr) (multicastFilter (ipv4Context interface)) 0 None of
           (True, Some i) \<Rightarrow> (NO_ERROR, set_group_entry i (\<lambda>e. e\<lparr>grp_refCount := grp_refCount e + 1\<rparr>) interface, w)
         | (_, None) \<Rightarrow> (ERROR_FAILURE, interface, w)
         | (False, Some i) \<Rightarrow>
             let (_, macAddr) = ipv4MapMulticastAddrToMac groupAddr;
                 (error, interface, w) = ethAcceptMacAddr ops interface (the macAddr) w
             in if error = NO_ERROR
                then (error, set_group_entry i (\<lambda>_. \<lparr>grp_addr = groupAddr, grp_refCount = 1\<rparr>) interface, w)
                else (error, interface, w)))"

definition ipv4LeaveMulticastGroup :: "'w link_ops \<Rightarrow> NetInterface \<Rightarrow> u32 \<Rightarrow> 'w \<Rightarrow> error_t \<times> NetInterface \<times> 'w" where
  "ipv4LeaveMulticastGroup ops interface groupAddr w =
     (if \<not> ipv4IsMulticastAddr groupAddr then (ERROR_INVALID_ADDRESS, interface, w)
      else
        (case ref_scan grp_refCount (\<lambda>entry. grp_addr entry = groupAddr) (multicastFilter (ipv4Context interface)) 0 None of
           (True, Some i) \<Rightarrow>
             let interface = set_group_entry i (\<lambda>e. e\<lparr>grp_refCount := grp_refCount e - 1\<rparr>) interface
             in if grp_refCount (multicastFilter (ipv4Context interface) ! i) = 0 then
                  let (_, macAddr) = ipv4MapMulticastAddrToMac groupAddr;
                      (_, interface, w) = ethDropMacAddr ops interface (the macAddr) w
                  in (NO_ERROR, set_group_entry i (\<lambda>e. e\<lparr>grp_addr := IPV4_UNSPECIFIED_ADDR\<rparr>) interface, w)
                else (NO_ERROR, interface, w)
         | _ \<Rightarrow> (ERROR_ADDRESS_NOT_FOUND, interface, w)))"

section \<open>Host groups\<close>

text \<open>
  Host groups: the multicast filter keeps the contract \<open>ref_filter\<close>, and the MAC filter and the hash table of the
  controller follow it, although 32 groups share one MAC address.
\<close>

subsection \<open>The multicast filter keeps the contract\<close>

definition group_uses :: "NetInterface \<times> 'w \<Rightarrow> u32 \<Rightarrow> nat" where
  "group_uses t g = (if ipv4IsMulticastAddr g then count_of grp_addr grp_refCount (multicastFilter (ipv4Context (fst t))) g else 0)"

lemma set_group_entry_simps [simp]:
  "multicastFilter (ipv4Context (set_group_entry i f interface)) =
    (multicastFilter (ipv4Context interface))[i := f (multicastFilter (ipv4Context interface) ! i)]"
  "macAddrFilter (set_group_entry i f interface) = macAddrFilter interface"
  "nicDriver (set_group_entry i f interface) = nicDriver interface"
  "if_macAddr (set_group_entry i f interface) = if_macAddr interface"
  by (simp_all add: set_group_entry_def set_context_def)

lemma accept_mac_frames:
  assumes "ethAcceptMacAddr ops interface a w = (e, interface', w')"
  shows "ipv4Context interface' = ipv4Context interface" and "nicDriver interface' = nicDriver interface"
    and "if_macAddr interface' = if_macAddr interface"
  using accept_mac_frame(1) [OF assms] by auto

lemma drop_mac_frames:
  assumes "ethDropMacAddr ops interface a w = (e, interface', w')"
  shows "ipv4Context interface' = ipv4Context interface" and "nicDriver interface' = nicDriver interface"
    and "if_macAddr interface' = if_macAddr interface"
  using drop_mac_frame [OF assms] by auto

abbreviation group_table :: "NetInterface \<Rightarrow> Ipv4FilterEntry list" where
  "group_table interface \<equiv> multicastFilter (ipv4Context interface)"

definition group_mac :: "u32 \<Rightarrow> MacAddr" where
  "group_mac g = the (snd (ipv4MapMulticastAddrToMac g))"

text \<open>What a call can do to the table.\<close>

lemma join_cases:
  assumes "ipv4JoinMulticastGroup ops interface g w = (e, interface', w')"
  obtains (refused) "e \<noteq> NO_ERROR" "group_table interface' = group_table interface" "\<not> ipv4IsMulticastAddr g \<or> interface' = interface \<and> w' = w"
      "\<not> ipv4IsMulticastAddr g \<longrightarrow> interface' = interface \<and> w' = w"
  | (again) i where "ipv4IsMulticastAddr g" "e = NO_ERROR" "i < length (group_table interface)" "grp_refCount (group_table interface ! i) > 0"
      "grp_addr (group_table interface ! i) = g"
      "interface' = set_group_entry i (\<lambda>e. e\<lparr>grp_refCount := grp_refCount e + 1\<rparr>) interface" "w' = w"
  | (added) i n e1 where "ipv4IsMulticastAddr g" "i < length (group_table interface)" "grp_refCount (group_table interface ! i) = 0"
      "ethAcceptMacAddr ops interface (group_mac g) w = (e1, n, w')" "e = e1"
      "interface' = (if e1 = NO_ERROR then set_group_entry i (\<lambda>_. \<lparr>grp_addr = g, grp_refCount = 1\<rparr>) n else n)"
proof (cases "ipv4IsMulticastAddr g")
  case False
  then show ?thesis using assms by (intro refused) (auto simp: ipv4JoinMulticastGroup_def)
next
  case True
  obtain hit r where s: "ref_scan grp_refCount (\<lambda>entry. grp_addr entry = g) (group_table interface) 0 None = (hit, r)" by fastforce
  note sc = ref_scan_cases [OF s]
  consider (hit) i where "hit" "r = Some i" "i < length (group_table interface)" "grp_refCount (group_table interface ! i) > 0"
      "grp_addr (group_table interface ! i) = g"
    | (full) "\<not> hit" "r = None"
    | (free) i where "\<not> hit" "r = Some i" "i < length (group_table interface)" "grp_refCount (group_table interface ! i) = 0"
    using sc by (cases hit; cases r) auto
  then show ?thesis
  proof cases
    case hit
    then show ?thesis using assms s True by (intro again) (auto simp: ipv4JoinMulticastGroup_def)
  next
    case full
    then show ?thesis using assms s True by (intro refused) (auto simp: ipv4JoinMulticastGroup_def)
  next
    case free
    obtain e1 n w1 where a: "ethAcceptMacAddr ops interface (group_mac g) w = (e1, n, w1)" by (rule prod_cases3)
    with assms s True free have "e = e1" "w' = w1"
      "interface' = (if e1 = NO_ERROR then set_group_entry i (\<lambda>_. \<lparr>grp_addr = g, grp_refCount = 1\<rparr>) n else n)"
      by (auto simp: ipv4JoinMulticastGroup_def group_mac_def Let_def split: prod.splits if_splits)
    with a show ?thesis using True free by (intro added) auto
  qed
qed

lemma more_than_one: "0 < c \<Longrightarrow> c - 1 \<noteq> 0 \<Longrightarrow> 1 < (c :: u32)"
proof -
  assume "0 < c" and "c - 1 \<noteq> 0"
  then have "c \<noteq> 0" "c \<noteq> 1" by auto
  then have "unat c \<noteq> unat (0 :: u32)" "unat c \<noteq> unat (1 :: u32)" by (simp_all only: word_unat_eq_iff not_False_eq_True)
  then have "unat c \<noteq> 0" "unat c \<noteq> 1" by simp_all
  then show ?thesis by (simp add: word_less_nat_alt)
qed

lemma leave_cases:
  assumes "ipv4LeaveMulticastGroup ops interface g w = (e, interface', w')"
  obtains (refused) "e \<noteq> NO_ERROR" "interface' = interface" "w' = w" "group_uses (interface, w) g = 0"
  | (stays) i where "ipv4IsMulticastAddr g" "e = NO_ERROR" "i < length (group_table interface)"
      "grp_refCount (group_table interface ! i) > 1" "grp_addr (group_table interface ! i) = g"
      "interface' = set_group_entry i (\<lambda>e. e\<lparr>grp_refCount := grp_refCount e - 1\<rparr>) interface" "w' = w"
  | (removed) i e1 n where "ipv4IsMulticastAddr g" "e = NO_ERROR" "i < length (group_table interface)"
      "grp_refCount (group_table interface ! i) = 1" "grp_addr (group_table interface ! i) = g"
      "ethDropMacAddr ops (set_group_entry i (\<lambda>e. e\<lparr>grp_refCount := grp_refCount e - 1\<rparr>) interface) (group_mac g) w = (e1, n, w')"
      "interface' = set_group_entry i (\<lambda>e. e\<lparr>grp_addr := IPV4_UNSPECIFIED_ADDR\<rparr>) n"
proof (cases "ipv4IsMulticastAddr g")
  case False
  then show ?thesis using assms by (intro refused) (auto simp: ipv4LeaveMulticastGroup_def group_uses_def)
next
  case True
  obtain hit r where s: "ref_scan grp_refCount (\<lambda>entry. grp_addr entry = g) (group_table interface) 0 None = (hit, r)" by fastforce
  note sc = ref_scan_cases [OF s]
  show ?thesis
  proof (cases hit)
    case hit: True
    with sc obtain i where i: "r = Some i" "i < length (group_table interface)" "grp_refCount (group_table interface ! i) > 0"
      "grp_addr (group_table interface ! i) = g" by auto
    let ?n = "set_group_entry i (\<lambda>e. e\<lparr>grp_refCount := grp_refCount e - 1\<rparr>) interface"
    show ?thesis
    proof (cases "grp_refCount (group_table ?n ! i) = 0")
      case zero: True
      obtain e1 n w1 where d: "ethDropMacAddr ops ?n (group_mac g) w = (e1, n, w1)" by (rule prod_cases3)
      with assms s True hit i zero have "e = NO_ERROR" "w' = w1" "interface' = set_group_entry i (\<lambda>e. e\<lparr>grp_addr := IPV4_UNSPECIFIED_ADDR\<rparr>) n"
        by (auto simp: ipv4LeaveMulticastGroup_def group_mac_def Let_def split: prod.splits)
      moreover have "grp_refCount (group_table interface ! i) = 1" using zero i by simp
      ultimately show ?thesis using True i d by (intro removed) auto
    next
      case False
      then have "grp_refCount (group_table interface ! i) - 1 \<noteq> 0" using i(2) by (simp only: set_group_entry_simps nth_list_update_eq) simp
      then have "grp_refCount (group_table interface ! i) > 1" by (rule more_than_one [OF i(3)])
      then show ?thesis using assms s True hit i False by (intro stays) (auto simp: ipv4LeaveMulticastGroup_def Let_def)
    qed
  next
    case False
    then have "\<not> 0 < count_of grp_addr grp_refCount (group_table interface) g" using sc by (auto simp: count_of_pos)
    then show ?thesis using assms s True False by (intro refused) (auto simp: ipv4LeaveMulticastGroup_def group_uses_def)
  qed
qed

lemma join_uses:
  assumes "ipv4JoinMulticastGroup ops interface g w = (e, interface', w')" and "Suc (group_uses (interface, w) g) < 4294967296"
  shows "group_uses (interface', w') =
    (if e = NO_ERROR then (group_uses (interface, w))(g := Suc (group_uses (interface, w) g)) else group_uses (interface, w))"
proof (cases rule: join_cases [OF assms(1), case_names refused again added])
  case refused
  then show ?thesis by (auto simp: group_uses_def)
next
  case (again i)
  let ?t = "group_table interface" let ?e = "(?t ! i)\<lparr>grp_refCount := grp_refCount (?t ! i) + 1\<rparr>"
  have "unat (grp_refCount (?t ! i)) \<le> group_uses (interface, w) g"
    using count_of_entry [of i ?t grp_addr g] again by (simp add: group_uses_def)
  then have "unat (grp_refCount (?t ! i) + 1) = Suc (unat (grp_refCount (?t ! i)))"
    by (intro unat_Suc32) (use assms(2) in simp)
  then have "count_of grp_addr grp_refCount (?t[i := ?e]) k =
      (if k = g then Suc (count_of grp_addr grp_refCount ?t k) else count_of grp_addr grp_refCount ?t k)" for k
    using count_of_update [of i ?t grp_addr grp_refCount ?e k] again(3,5) by (auto split: if_splits)
  with again show ?thesis by (auto simp: group_uses_def fun_eq_iff)
next
  case (added i n e1)
  let ?t = "group_table interface" let ?e = "\<lparr>grp_addr = g, grp_refCount = 1\<rparr>"
  have "count_of grp_addr grp_refCount (?t[i := ?e]) k =
      (if k = g then Suc (count_of grp_addr grp_refCount ?t k) else count_of grp_addr grp_refCount ?t k)" for k
    using count_of_update [of i ?t grp_addr grp_refCount ?e k] added(2,3) by (auto split: if_splits)
  with added accept_mac_frames(1) [OF added(4)] show ?thesis by (auto simp: group_uses_def fun_eq_iff)
qed

lemma leave_uses:
  assumes "ipv4LeaveMulticastGroup ops interface g w = (e, interface', w')"
  shows "group_uses (interface', w') = (group_uses (interface, w))(g := group_uses (interface, w) g - 1) \<and>
    (e = NO_ERROR \<longleftrightarrow> 0 < group_uses (interface, w) g)"
proof (cases rule: leave_cases [OF assms, case_names refused stays removed])
  case refused
  then show ?thesis by (auto simp: group_uses_def fun_eq_iff)
next
  case (stays i)
  let ?t = "group_table interface" let ?e = "(?t ! i)\<lparr>grp_refCount := grp_refCount (?t ! i) - 1\<rparr>"
  have pos: "grp_refCount (?t ! i) > 0" using stays(4) by (meson dual_order.strict_trans word_gt_0 zero_neq_one)
  then have "0 < unat (grp_refCount (?t ! i))" by (simp add: unat_gt_0)
  moreover have "unat (grp_refCount (?t ! i)) \<le> count_of grp_addr grp_refCount ?t g"
    using count_of_entry [of i ?t grp_addr g] stays by simp
  ultimately have "0 < count_of grp_addr grp_refCount ?t g"
    "count_of grp_addr grp_refCount (?t[i := ?e]) k =
      (if k = g then count_of grp_addr grp_refCount ?t k - 1 else count_of grp_addr grp_refCount ?t k)" for k
    using count_of_update [of i ?t grp_addr grp_refCount ?e k] stays(3,5) unat_pred32 [OF pos] by (auto split: if_splits)
  with stays show ?thesis by (auto simp: group_uses_def fun_eq_iff)
next
  case (removed i e1 n)
  let ?t = "group_table interface" let ?e = "(?t ! i)\<lparr>grp_refCount := grp_refCount (?t ! i) - 1\<rparr>"
  have tab: "group_table n = ?t[i := ?e]" using drop_mac_frames(1) [OF removed(6)] by simp
  have "unat (grp_refCount (?t ! i)) \<le> count_of grp_addr grp_refCount ?t g"
    using count_of_entry [of i ?t grp_addr g grp_refCount] removed by simp
  then have "0 < count_of grp_addr grp_refCount ?t g" using removed(4) by simp
  moreover have "count_of grp_addr grp_refCount (?t[i := ?e]) k =
      (if k = g then count_of grp_addr grp_refCount ?t k - 1 else count_of grp_addr grp_refCount ?t k)" for k
    using count_of_update [of i ?t grp_addr grp_refCount ?e k] removed(3,4,5) by (auto split: if_splits)
  moreover have "count_of grp_addr grp_refCount ((?t[i := ?e])[i := ?e\<lparr>grp_addr := IPV4_UNSPECIFIED_ADDR\<rparr>]) =
      count_of grp_addr grp_refCount (?t[i := ?e])"
    using removed(3,4) by (intro count_of_cong_entry) simp_all
  ultimately show ?thesis using removed tab by (auto simp: group_uses_def fun_eq_iff)
qed

interpretation grp: ref_filter group_uses "\<lambda>g (interface, w). ipv4JoinMulticastGroup ops interface g w"
    "\<lambda>g (interface, w). ipv4LeaveMulticastGroup ops interface g w" for ops :: "'w link_ops"
proof unfold_locales
  fix t :: "NetInterface \<times> 'w" and k e t'
  assume "Suc (group_uses t k) < 4294967296" and "(case t of (interface, w) \<Rightarrow> ipv4JoinMulticastGroup ops interface k w) = (e, t')"
  then show "group_uses t' = (if e = NO_ERROR then (group_uses t)(k := Suc (group_uses t k)) else group_uses t)"
    using join_uses [of ops "fst t" k "snd t" e "fst t'" "snd t'"] by (cases t) simp
next
  fix k and t :: "NetInterface \<times> 'w" and e t'
  assume "(case t of (interface, w) \<Rightarrow> ipv4LeaveMulticastGroup ops interface k w) = (e, t')"
  then show "group_uses t' = (group_uses t)(k := group_uses t k - 1) \<and> (e = NO_ERROR \<longleftrightarrow> 0 < group_uses t k)"
    using leave_uses [of ops "fst t" k "snd t" e "fst t'" "snd t'"] by (cases t) simp
qed

lemma check_dest_group:
  "ipv4IsMulticastAddr g \<Longrightarrow> \<not> ipv4IsBroadcastAddr (ipv4Context interface) g \<Longrightarrow>
    ipv4CheckDestAddr (ipv4Context interface) g = NO_ERROR \<longleftrightarrow> 0 < group_uses (interface, w) g"
  by (auto simp: ipv4CheckDestAddr_def group_uses_def count_of_pos)

subsection \<open>The MAC filter follows\<close>

text \<open>
  How many groups in use a MAC address stands for, and the invariant: the MAC filter counts these and the uses of
  others, which are the same number as before the groups were joined.
\<close>

definition mac_claims :: "Ipv4FilterEntry list \<Rightarrow> MacAddr \<Rightarrow> nat" where
  "mac_claims es m = length (filter (\<lambda>e. grp_refCount e > 0 \<and> group_mac (grp_addr e) = m) es)"

definition groups_ok :: "(MacAddr \<Rightarrow> nat) \<Rightarrow> NetInterface \<times> 'w \<Rightarrow> bool" where
  "groups_ok others t \<longleftrightarrow>
     length (group_table (fst t)) = IPV4_MULTICAST_FILTER_SIZE \<and>
     (\<forall>m. mac_uses t m = others m + mac_claims (group_table (fst t)) m \<and> others m + 5 < 4294967296)"

lemma mac_claims_update:
  "i < length es \<Longrightarrow> mac_claims (es[i := e]) m + of_bool (grp_refCount (es ! i) > 0 \<and> group_mac (grp_addr (es ! i)) = m) =
    mac_claims es m + of_bool (grp_refCount e > 0 \<and> group_mac (grp_addr e) = m)"
  unfolding mac_claims_def
proof (induction es arbitrary: i)
  case (Cons a es)
  then show ?case by (cases i) auto
qed simp

lemma mac_claims_le: "mac_claims es m \<le> length es"
  by (simp add: mac_claims_def)

lemma mac_claims_pos: "e \<in> set es \<Longrightarrow> grp_refCount e > 0 \<Longrightarrow> 0 < mac_claims es (group_mac (grp_addr e))"
  by (auto simp: mac_claims_def filter_empty_conv)

lemma groups_ok_bound: "groups_ok others t \<Longrightarrow> Suc (mac_uses t m) < 4294967296"
proof -
  assume ok: "groups_ok others t"
  then have "mac_uses t m = others m + mac_claims (group_table (fst t)) m" "others m + 5 < 4294967296"
    "length (group_table (fst t)) = 4" unfolding groups_ok_def by blast+
  then show ?thesis using mac_claims_le [of "group_table (fst t)" m] by simp
qed

lemma mac_uses_set_group [simp]: "mac_uses (set_group_entry i f interface, w) = mac_uses (interface, w)"
  by (simp add: mac_uses_def)

lemma groups_ok_step:
  assumes "groups_ok others (interface, w)"
    and "i < length (group_table interface)" and "group_table interface' = (group_table interface)[i := e]"
    and "\<And>m. mac_uses (interface', w') m + of_bool (grp_refCount (group_table interface ! i) > 0 \<and> group_mac (grp_addr (group_table interface ! i)) = m) =
      mac_uses (interface, w) m + of_bool (grp_refCount e > 0 \<and> group_mac (grp_addr e) = m)"
  shows "groups_ok others (interface', w')"
proof -
  have "mac_uses (interface', w') m = others m + mac_claims (group_table interface') m" for m
    using assms(1) assms(4) [of m] mac_claims_update [OF assms(2), of e m] by (auto simp: groups_ok_def assms(3))
  with assms(1,3) show ?thesis by (simp add: groups_ok_def)
qed

lemma join_groups_ok:
  assumes "groups_ok others (interface, w)" and "Suc (group_uses (interface, w) g) < 4294967296"
    and "ipv4JoinMulticastGroup ops interface g w = (e, interface', w')"
  shows "groups_ok others (interface', w')"
proof (cases rule: join_cases [OF assms(3), case_names refused again added])
  case refused
  with assms(1) show ?thesis by auto
next
  case (again i)
  let ?t = "group_table interface" let ?e = "(?t ! i)\<lparr>grp_refCount := grp_refCount (?t ! i) + 1\<rparr>"
  have "unat (grp_refCount (?t ! i)) \<le> group_uses (interface, w) g"
    using count_of_entry [of i ?t grp_addr g] again by (simp add: group_uses_def)
  then have "unat (grp_refCount (?t ! i) + 1) = Suc (unat (grp_refCount (?t ! i)))"
    by (intro unat_Suc32) (use assms(2) in simp)
  then have "grp_refCount (?t ! i) + 1 > 0" by (metis unat_gt_0 word_greater_zero_iff zero_less_Suc)
  with again show ?thesis
    by (intro groups_ok_step [OF assms(1) again(3), of interface' ?e]) (simp_all add: mac_uses_def)
next
  case (added i n e1)
  note uses = accept_mac_uses [OF added(4) groups_ok_bound [OF assms(1)]]
  show ?thesis
  proof (cases "e1 = NO_ERROR")
    case True
    let ?e = "\<lparr>grp_addr = g, grp_refCount = 1\<rparr>"
    have t: "group_table interface' = (group_table interface)[i := ?e]"
      using added True accept_mac_frames(1) [OF added(4)] by simp
    have "mac_uses (interface', w') = mac_uses (n, w')" using added True by (simp add: mac_uses_def)
    with uses True added show ?thesis
      by (intro groups_ok_step [OF assms(1) added(2) t]) auto
  next
    case False
    with added accept_mac_frames(1) [OF added(4)] uses assms(1) show ?thesis by (auto simp: groups_ok_def)
  qed
qed

lemma leave_groups_ok:
  assumes "groups_ok others (interface, w)" and "ipv4LeaveMulticastGroup ops interface g w = (e, interface', w')"
  shows "groups_ok others (interface', w')"
proof (cases rule: leave_cases [OF assms(2), case_names refused stays removed])
  case refused
  with assms(1) show ?thesis by simp
next
  case (stays i)
  let ?t = "group_table interface" let ?e = "(?t ! i)\<lparr>grp_refCount := grp_refCount (?t ! i) - 1\<rparr>"
  have "1 < unat (grp_refCount (?t ! i))" using stays(4) by (simp add: word_less_nat_alt)
  then have "grp_refCount (?t ! i) > 0" "grp_refCount (?t ! i) \<noteq> 1" by (auto simp: word_less_nat_alt)
  then have "grp_refCount (?t ! i) > 0" "grp_refCount (?t ! i) - 1 > 0" by (simp_all add: word_greater_zero_iff)
  with stays show ?thesis
    by (intro groups_ok_step [OF assms(1) stays(3), of interface' ?e]) (simp_all add: mac_uses_def)
next
  case (removed i e1 n)
  let ?t = "group_table interface" let ?e = "(?t ! i)\<lparr>grp_refCount := 0, grp_addr := IPV4_UNSPECIFIED_ADDR\<rparr>"
  let ?m = "set_group_entry i (\<lambda>e. e\<lparr>grp_refCount := grp_refCount e - 1\<rparr>) interface"
  have t: "group_table interface' = ?t[i := ?e]"
    using removed drop_mac_frames(1) [OF removed(6)] by simp
  have m: "mac_uses (?m, w) = mac_uses (interface, w)" by (rule mac_uses_set_group)
  have "0 < mac_claims ?t (group_mac g)" using mac_claims_pos [of "?t ! i" ?t] removed(3,4,5) by simp
  then have "0 < mac_uses (interface, w) (group_mac g)" using assms(1) by (simp add: groups_ok_def)
  with removed drop_mac_uses [OF removed(6)] show ?thesis
    by (intro groups_ok_step [OF assms(1) removed(3) t]) (auto simp: m)
qed

lemma join_hash_ok:
  assumes "msp432e4_driver ops" and "nicDriver interface \<noteq> None" and "hash_ok (interface, w)" and "groups_ok others (interface, w)"
    and "ipv4JoinMulticastGroup ops interface g w = (e, interface', w')"
  shows "hash_ok (interface', w')"
proof (cases rule: join_cases [OF assms(5), case_names refused again added])
  case refused
  with assms(3) show ?thesis by auto
next
  case (again i)
  with assms(3) show ?thesis by (simp add: hash_ok_def)
next
  case (added i n e1)
  with accept_mac_hash [OF assms(1-3) groups_ok_bound [OF assms(4)] added(4)] show ?thesis by (auto simp: hash_ok_def)
qed

lemma leave_hash_ok:
  assumes "msp432e4_driver ops" and "nicDriver interface \<noteq> None" and "hash_ok (interface, w)"
    and "ipv4LeaveMulticastGroup ops interface g w = (e, interface', w')"
  shows "hash_ok (interface', w')"
proof (cases rule: leave_cases [OF assms(4), case_names refused stays removed])
  case refused
  with assms(3) show ?thesis by simp
next
  case (stays i)
  with assms(3) show ?thesis by (simp add: hash_ok_def)
next
  case (removed i e1 n)
  have "hash_ok (set_group_entry i (\<lambda>e. e\<lparr>grp_refCount := grp_refCount e - 1\<rparr>) interface, w)"
    using assms(3) by (simp add: hash_ok_def)
  from drop_mac_hash [OF assms(1) _ this removed(6)] removed(7) assms(2) show ?thesis by (simp add: hash_ok_def)
qed

text \<open>The configuration of the interface stays.\<close>

definition same_config :: "NetInterface \<Rightarrow> NetInterface \<Rightarrow> bool" where
  "same_config a b \<longleftrightarrow> nicDriver a = nicDriver b \<and> if_macAddr a = if_macAddr b \<and>
     ipv4_addr (ipv4Context a) = ipv4_addr (ipv4Context b) \<and> addrState (ipv4Context a) = addrState (ipv4Context b) \<and>
     subnetMask (ipv4Context a) = subnetMask (ipv4Context b)"

lemma set_group_entry_config [simp]: "same_config a (set_group_entry i f b) = same_config a b"
  by (simp add: same_config_def set_group_entry_def set_context_def)

lemma same_config_trans: "same_config a b \<Longrightarrow> same_config b c \<Longrightarrow> same_config a c"
  by (simp add: same_config_def)

lemma join_config:
  assumes "ipv4JoinMulticastGroup ops interface g w = (e, interface', w')"
  shows "same_config interface interface'"
proof (cases rule: join_cases [OF assms, case_names refused again added])
  case (added i n e1)
  then have "same_config interface n" using accept_mac_frames [OF added(4)] by (simp add: same_config_def)
  with added show ?thesis by simp
qed (auto simp: same_config_def set_group_entry_def set_context_def)

lemma leave_config:
  assumes "ipv4LeaveMulticastGroup ops interface g w = (e, interface', w')"
  shows "same_config interface interface'"
proof (cases rule: leave_cases [OF assms, case_names refused stays removed])
  case (removed i e1 n)
  then have "same_config (set_group_entry i (\<lambda>e. e\<lparr>grp_refCount := grp_refCount e - 1\<rparr>) interface) n"
    using drop_mac_frames [OF removed(6)] by (simp add: same_config_def)
  with removed show ?thesis by (simp add: same_config_def set_group_entry_def set_context_def)
qed (auto simp: same_config_def set_group_entry_def set_context_def)

subsection \<open>Sequences of joins and leaves\<close>

definition group_run :: "'w link_ops \<Rightarrow> (bool \<times> u32) list \<Rightarrow> NetInterface \<times> 'w \<Rightarrow> error_t list \<times> NetInterface \<times> 'w" where
  "group_run ops = filter_run (\<lambda>g (interface, w). ipv4JoinMulticastGroup ops interface g w)
     (\<lambda>g (interface, w). ipv4LeaveMulticastGroup ops interface g w)"

lemma group_run_ok:
  assumes "group_run ops calls (interface, w) = (es, interface', w')" and "groups_ok others (interface, w)"
    and "\<forall>g. group_uses (interface, w) g + length calls < 4294967296"
  shows "groups_ok others (interface', w') \<and> same_config interface interface' \<and>
    (msp432e4_driver ops \<and> nicDriver interface \<noteq> None \<and> hash_ok (interface, w) \<longrightarrow> hash_ok (interface', w'))"
  using assms
proof (induction calls arbitrary: interface w es)
  case (Cons call calls)
  obtain joining g where c: "call = (joining, g)" by fastforce
  obtain e n v where s: "(if joining then ipv4JoinMulticastGroup ops interface g w else ipv4LeaveMulticastGroup ops interface g w) = (e, n, v)"
    by (rule prod_cases3)
  obtain es' where r: "group_run ops calls (n, v) = (es', interface', w')"
    using Cons.prems(1) s by (auto simp: group_run_def c Let_def split: prod.splits if_splits)
  have less: "Suc (group_uses (interface, w) g) < 4294967296" using Cons.prems(3) [rule_format, of g] by simp
  have "groups_ok others (n, v) \<and> same_config interface n \<and> (\<forall>k. group_uses (n, v) k \<le> group_uses (interface, w) k + 1) \<and>
      (msp432e4_driver ops \<and> nicDriver interface \<noteq> None \<and> hash_ok (interface, w) \<longrightarrow> hash_ok (n, v))"
  proof (cases joining)
    case True
    with s have j: "ipv4JoinMulticastGroup ops interface g w = (e, n, v)" by simp
    have "\<forall>k. group_uses (n, v) k \<le> group_uses (interface, w) k + 1" using join_uses [OF j less] by simp
    moreover have "msp432e4_driver ops \<and> nicDriver interface \<noteq> None \<and> hash_ok (interface, w) \<longrightarrow> hash_ok (n, v)"
      using join_hash_ok [OF _ _ _ Cons.prems(2) j] by simp
    ultimately show ?thesis using join_groups_ok [OF Cons.prems(2) less j] join_config [OF j] by simp
  next
    case False
    with s have l: "ipv4LeaveMulticastGroup ops interface g w = (e, n, v)" by simp
    have "\<forall>k. group_uses (n, v) k \<le> group_uses (interface, w) k + 1" using leave_uses [OF l] by simp
    moreover have "msp432e4_driver ops \<and> nicDriver interface \<noteq> None \<and> hash_ok (interface, w) \<longrightarrow> hash_ok (n, v)"
      using leave_hash_ok [OF _ _ _ l] by simp
    ultimately show ?thesis using leave_groups_ok [OF Cons.prems(2) l] leave_config [OF l] by simp
  qed
  then have ok: "groups_ok others (n, v)" and cf: "same_config interface n"
    and le: "\<And>k. group_uses (n, v) k \<le> group_uses (interface, w) k + 1"
    and h: "msp432e4_driver ops \<and> nicDriver interface \<noteq> None \<and> hash_ok (interface, w) \<longrightarrow> hash_ok (n, v)"
    by blast+
  have u: "\<forall>k. group_uses (n, v) k + length calls < 4294967296"
  proof
    fix k
    show "group_uses (n, v) k + length calls < 4294967296" using le [of k] Cons.prems(3) [rule_format, of k] by simp
  qed
  have d: "nicDriver n = nicDriver interface" using cf by (simp add: same_config_def)
  from Cons.IH [OF r ok u] cf h d show ?case using same_config_trans by metis
qed (simp add: group_run_def same_config_def)

lemma groups_ok_used:
  assumes "groups_ok others (interface, w)" and "0 < group_uses (interface, w) g"
  shows "0 < mac_uses (interface, w) (group_mac g)"
proof -
  have "0 < count_of grp_addr grp_refCount (group_table interface) g"
    using assms(2) unfolding group_uses_def fst_conv by (metis less_irrefl)
  then obtain e where e: "e \<in> set (group_table interface)" "grp_addr e = g" "grp_refCount e > 0" unfolding count_of_pos by blast
  have "mac_uses (interface, w) (group_mac g) = others (group_mac g) + mac_claims (group_table interface) (group_mac g)"
    using assms(1) unfolding groups_ok_def fst_conv by blast
  with mac_claims_pos [OF e(1,3)] e(2) show ?thesis by simp
qed

lemma group_mac_multicast:
  assumes "0 < group_uses (interface, w) g"
  shows "macIsMulticastAddr (group_mac g)"
proof -
  have "ipv4IsMulticastAddr g" using assms unfolding group_uses_def by presburger
  then have "group_mac g ! 0 = 1" by (simp add: group_mac_def ipv4MapMulticastAddrToMac_def Let_def)
  then show ?thesis by (simp add: macIsMulticastAddr_def)
qed

lemma group_mac_accepted:
  assumes "0 < group_uses (interface, w) g" and "0 < mac_uses (interface, w) (group_mac g)"
  shows "ethCheckDestAddr interface (group_mac g) = NO_ERROR"
proof (rule check_mac_multicast [THEN iffD2])
  show "macIsMulticastAddr (group_mac g)" by (rule group_mac_multicast [OF assms(1)])
  show "group_mac g = if_macAddr interface \<or> group_mac g = MAC_BROADCAST_ADDR \<or> 0 < mac_uses (interface, w) (group_mac g)"
    by (intro disjI2) (rule assms(2))
qed

end
