(* ===== verification/AddrStrings.thy ===== *)
theory AddrStrings
  imports Ipv4Addr
begin

text \<open>
  Addresses as strings: the conversions of \<open>ipv4.c\<close> (dot-decimal IPv4 addresses) and \<open>ethernet.c\<close> (MAC addresses and
  EUI-64 identifiers in hexadecimal).  A C string is the list of its characters before the terminator.
\<close>

subsection \<open>The code\<close>

definition char_code :: "char \<Rightarrow> nat" where
  "char_code c = of_char c"

definition dec_digit :: "char \<Rightarrow> nat option" where
  "dec_digit c = (if 48 \<le> char_code c \<and> char_code c \<le> 57 then Some (char_code c - 48) else None)"

definition hex_digit :: "char \<Rightarrow> nat option" where
  "hex_digit c =
     (if 48 \<le> char_code c \<and> char_code c \<le> 57 then Some (char_code c - 48)
      else if 65 \<le> char_code c \<and> char_code c \<le> 70 then Some (char_code c - 65 + 10)
      else if 97 \<le> char_code c \<and> char_code c \<le> 102 then Some (char_code c - 97 + 10)
      else None)"

text \<open>
  The loop the three parsers share: the digits, their base, the separators and the number of bytes.  Its state is the
  index of the current byte, the value of the digits read for it (\<open>-1\<close> is \<open>None\<close>) and the bytes of the address, which
  it overwrites one by one.
\<close>

fun parse_addr ::
    "(char \<Rightarrow> nat option) \<Rightarrow> nat \<Rightarrow> (char \<Rightarrow> bool) \<Rightarrow> nat \<Rightarrow> string \<Rightarrow> nat \<Rightarrow> nat option \<Rightarrow> buffer \<Rightarrow> error_t \<times> buffer" where
  "parse_addr digit base sep n [] i value b =
     (if i = n - 1 then
        (case value of None \<Rightarrow> (ERROR_INVALID_SYNTAX, b) | Some x \<Rightarrow> (NO_ERROR, b[i := word_of_nat x]))
      else (ERROR_INVALID_SYNTAX, b))"
| "parse_addr digit base sep n (c # str) i value b =
     (case digit c of
        Some k \<Rightarrow>
          let x = (case value of None \<Rightarrow> 0 | Some x \<Rightarrow> x) * base + k
          in if x > 255 then (ERROR_INVALID_SYNTAX, b) else parse_addr digit base sep n str i (Some x) b
      | None \<Rightarrow>
          if sep c \<and> i < n then
            (case value of
               None \<Rightarrow> (ERROR_INVALID_SYNTAX, b)
             | Some x \<Rightarrow> parse_addr digit base sep n str (Suc i) None (b[i := word_of_nat x]))
          else (ERROR_INVALID_SYNTAX, b))"

definition dash_or_colon :: "char \<Rightarrow> bool" where
  "dash_or_colon c \<longleftrightarrow> c = CHR ''-'' \<or> c = CHR '':''"

text \<open>The bytes of an IPv4 address are those of the word in memory.\<close>

definition ipv4StringToAddr :: "string \<Rightarrow> u32 \<Rightarrow> error_t \<times> u32" where
  "ipv4StringToAddr str ipAddr =
     (case parse_addr dec_digit 10 (\<lambda>c. c = CHR ''.'') 4 str 0 None (le32 ipAddr) of
        (error, b) \<Rightarrow> (error, get_le32 b 0))"

definition macStringToAddr :: "string \<Rightarrow> MacAddr \<Rightarrow> error_t \<times> MacAddr" where
  "macStringToAddr str addr = parse_addr hex_digit 16 dash_or_colon 6 str 0 None addr"

definition eui64StringToAddr :: "string \<Rightarrow> buffer \<Rightarrow> error_t \<times> buffer" where
  "eui64StringToAddr str eui64 = parse_addr hex_digit 16 dash_or_colon 8 str 0 None eui64"

text \<open>The conversions \<open>%u\<close> and \<open>%02X\<close> of \<open>sprintf\<close>.\<close>

definition digit_char :: "nat \<Rightarrow> char" where
  "digit_char k = char_of (if k < 10 then 48 + k else 55 + k)"

fun dec_string :: "nat \<Rightarrow> string" where
  "dec_string k = (if k < 10 then [digit_char k] else dec_string (k div 10) @ [digit_char (k mod 10)])"

declare dec_string.simps [simp del]

definition hex_string :: "u8 \<Rightarrow> string" where
  "hex_string b = [digit_char (unat b div 16), digit_char (unat b mod 16)]"

fun join_fields :: "string \<Rightarrow> string list \<Rightarrow> string" where
  "join_fields sep [] = []"
| "join_fields sep [w] = w"
| "join_fields sep (w # ws) = w @ sep @ join_fields sep ws"

definition ipv4AddrToString :: "u32 \<Rightarrow> string" where
  "ipv4AddrToString ipAddr = join_fields ''.'' (map (\<lambda>b. dec_string (unat b)) (le32 ipAddr))"

definition macAddrToString :: "MacAddr \<Rightarrow> string" where
  "macAddrToString addr = join_fields ''-'' (map hex_string addr)"

definition eui64AddrToString :: "buffer \<Rightarrow> string" where
  "eui64AddrToString eui64 = join_fields ''-'' (map hex_string eui64)"

definition macAddrToEui64 :: "MacAddr \<Rightarrow> buffer" where
  "macAddrToEui64 addr = [addr ! 0 XOR 0x02, addr ! 1, addr ! 2, 0xFF, 0xFE, addr ! 3, addr ! 4, addr ! 5]"

subsection \<open>Which strings are accepted\<close>

text \<open>The value of the digits of a field behind the digits read before.\<close>

definition field_value :: "(char \<Rightarrow> nat option) \<Rightarrow> nat \<Rightarrow> nat option \<Rightarrow> string \<Rightarrow> nat option" where
  "field_value digit base v w = fold (\<lambda>c v. Some ((case v of None \<Rightarrow> 0 | Some x \<Rightarrow> x) * base + the (digit c))) w v"

definition is_field :: "(char \<Rightarrow> nat option) \<Rightarrow> nat \<Rightarrow> nat option \<Rightarrow> nat \<Rightarrow> string \<Rightarrow> bool" where
  "is_field digit base v x w \<longleftrightarrow> (\<forall>c \<in> set w. digit c \<noteq> None) \<and> field_value digit base v w = Some x \<and> x \<le> 255"

fun denotes :: "(char \<Rightarrow> nat option) \<Rightarrow> nat \<Rightarrow> (char \<Rightarrow> bool) \<Rightarrow> nat option \<Rightarrow> nat list \<Rightarrow> string \<Rightarrow> bool" where
  "denotes digit base sep v [] str \<longleftrightarrow> False"
| "denotes digit base sep v [x] str \<longleftrightarrow> is_field digit base v x str"
| "denotes digit base sep v (x # xs) str \<longleftrightarrow>
     (\<exists>w c rest. str = w @ c # rest \<and> is_field digit base v x w \<and> sep c \<and> denotes digit base sep None xs rest)"

lemma field_value_simps [simp]:
  "field_value digit base v [] = v"
  "field_value digit base v (c # w) = field_value digit base (Some ((case v of None \<Rightarrow> 0 | Some x \<Rightarrow> x) * base + the (digit c))) w"
  "field_value digit base v (w @ w') = field_value digit base (field_value digit base v w) w'"
  by (simp_all add: field_value_def)

lemma field_value_grows: "field_value digit base (Some y) w = Some x \<Longrightarrow> 0 < base \<Longrightarrow> y \<le> x"
proof (induction w arbitrary: y)
  case (Cons c w)
  then have "y * base + the (digit c) \<le> x" by simp
  moreover have "y \<le> y * base" using Cons.prems(2) by (cases base) simp_all
  ultimately show ?case by linarith
qed simp

lemma denotes_digit:
  assumes "digit c = Some k" and "\<And>c. sep c \<Longrightarrow> digit c = None"
  shows "denotes digit base sep v xs (c # str) \<longleftrightarrow>
    denotes digit base sep (Some ((case v of None \<Rightarrow> 0 | Some x \<Rightarrow> x) * base + k)) xs str"
proof (cases "(digit, base, sep, v, xs, str)" rule: denotes.cases)
  case (3 _ _ _ _ x y ys)
  let ?v = "Some ((case v of None \<Rightarrow> 0 | Some x \<Rightarrow> x) * base + k)"
  have "is_field digit base v x (c # w) \<longleftrightarrow> is_field digit base ?v x w" for w using assms(1) by (simp add: is_field_def)
  moreover have "c # str = w @ c' # rest \<and> sep c' \<longleftrightarrow> (\<exists>u. w = c # u \<and> str = u @ c' # rest \<and> sep c')" for w c' rest
    using assms by (cases w) auto
  ultimately show ?thesis using 3 by (simp, metis)
qed (use assms(1) in \<open>auto simp: is_field_def\<close>)

lemma denotes_sep:
  assumes "digit c = None"
  shows "denotes digit base sep v xs (c # str) \<longleftrightarrow>
    (\<exists>x ys. xs = x # ys \<and> v = Some x \<and> x \<le> 255 \<and> sep c \<and> denotes digit base sep None ys str)"
proof (cases "(digit, base, sep, v, xs, str)" rule: denotes.cases)
  case (3 _ _ _ _ x y ys)
  have "c # str = w @ c' # rest \<and> is_field digit base v x w \<longleftrightarrow> w = [] \<and> c' = c \<and> rest = str \<and> v = Some x \<and> x \<le> 255" for w c' rest
    using assms by (cases w) (auto simp: is_field_def)
  then have "(\<exists>w c' rest. c # str = w @ c' # rest \<and> is_field digit base v x w \<and> sep c' \<and> denotes digit base sep None (y # ys) rest) \<longleftrightarrow>
      v = Some x \<and> x \<le> 255 \<and> sep c \<and> denotes digit base sep None (y # ys) str" by metis
  then show ?thesis using 3 by simp
qed (use assms in \<open>auto simp: is_field_def\<close>)

lemma denotes_not_Nil: "denotes digit base sep v xs str \<Longrightarrow> xs \<noteq> []"
  by (cases xs) auto

text \<open>The parser accepts exactly the strings with the right number of fields, and stores their values.\<close>

lemma parse_addr_iff:
  assumes "\<And>c. sep c \<Longrightarrow> digit c = None" and "0 < base" and "i \<le> n" and "length b = n" and "\<forall>x. v = Some x \<longrightarrow> x \<le> 255" and "0 < n"
  shows "parse_addr digit base sep n str i v b = (NO_ERROR, b') \<longleftrightarrow>
    (\<exists>xs. i + length xs = n \<and> denotes digit base sep v xs str \<and> b' = take i b @ map word_of_nat xs)"
  using assms(3-5)
proof (induction str arbitrary: i v b)
  case Nil
  show ?case
  proof (cases "i = n - 1")
    case True
    have len: "i + length xs = n \<longleftrightarrow> (\<exists>x. xs = [x])" for xs :: "nat list"
      using True assms(6) by (cases xs; cases "tl xs") auto
    have upd: "b[i := y] = take i b @ [y]" for y
      using True Nil(2) assms(6) by (simp add: upd_conv_take_nth_drop)
    have "parse_addr digit base sep n [] i v b = (NO_ERROR, b') \<longleftrightarrow> (\<exists>x. v = Some x \<and> b' = b[i := word_of_nat x])"
      using True by (cases v) auto
    also have "\<dots> \<longleftrightarrow> (\<exists>x. denotes digit base sep v [x] [] \<and> b' = take i b @ map word_of_nat [x])"
      using Nil(3) by (auto simp: is_field_def upd)
    also have "\<dots> \<longleftrightarrow> (\<exists>xs. i + length xs = n \<and> denotes digit base sep v xs [] \<and> b' = take i b @ map word_of_nat xs)"
      unfolding len by blast
    finally show ?thesis .
  next
    case False
    have "\<not> (\<exists>xs. i + length xs = n \<and> denotes digit base sep v xs [])"
    proof
      assume "\<exists>xs. i + length xs = n \<and> denotes digit base sep v xs []"
      then obtain xs where xs: "i + length xs = n" "denotes digit base sep v xs []" by blast
      then obtain x where "xs = [x]" by (cases "(digit, base, sep, v, xs, [] :: string)" rule: denotes.cases) auto
      with xs(1) False show False by simp
    qed
    with False show ?thesis by auto
  qed
next
  case (Cons c str)
  show ?case
  proof (cases "digit c")
    case (Some k)
    let ?x = "(case v of None \<Rightarrow> 0 | Some x \<Rightarrow> x) * base + k"
    show ?thesis
    proof (cases "?x > 255")
      case True
      have "\<not> denotes digit base sep (Some ?x) xs str" for xs
      proof
        assume d: "denotes digit base sep (Some ?x) xs str"
        then obtain y w where "is_field digit base (Some ?x) y w"
          by (cases "(digit, base, sep, Some ?x, xs, str)" rule: denotes.cases) auto
        then show False using field_value_grows [of digit base ?x w y] assms(2) True by (simp add: is_field_def)
      qed
      with True Some show ?thesis by (simp add: denotes_digit [of digit c k sep, OF Some assms(1)])
    next
      case False
      then show ?thesis using Some Cons.IH [of i b "Some ?x"] Cons.prems by (simp add: denotes_digit [of digit c k sep, OF Some assms(1)] Let_def)
    qed
  next
    case None
    show ?thesis
    proof (cases "sep c \<and> i < n \<and> v \<noteq> None")
      case True
      then obtain x where v: "v = Some x" "x \<le> 255" using Cons.prems by auto
      have "parse_addr digit base sep n (c # str) i v b = (NO_ERROR, b') \<longleftrightarrow>
          parse_addr digit base sep n str (Suc i) None (b[i := word_of_nat x]) = (NO_ERROR, b')"
        using None True v by simp
      also have "\<dots> \<longleftrightarrow> (\<exists>xs. Suc i + length xs = n \<and> denotes digit base sep None xs str \<and>
          b' = take (Suc i) (b[i := word_of_nat x]) @ map word_of_nat xs)"
        using True Cons.prems by (intro Cons.IH) simp_all
      also have "take (Suc i) (b[i := word_of_nat x]) = take i b @ [word_of_nat x]"
        using True Cons.prems by (simp add: take_Suc_conv_app_nth take_update_cancel)
      also have "(\<exists>xs. Suc i + length xs = n \<and> denotes digit base sep None xs str \<and>
            b' = (take i b @ [word_of_nat x]) @ map word_of_nat xs) \<longleftrightarrow>
          (\<exists>xs. i + length xs = n \<and> denotes digit base sep v xs (c # str) \<and> b' = take i b @ map word_of_nat xs)" (is "?l \<longleftrightarrow> ?r")
      proof
        assume ?l
        then obtain xs where "Suc i + length xs = n" "denotes digit base sep None xs str" "b' = take i b @ word_of_nat x # map word_of_nat xs"
          by auto
        then show ?r unfolding denotes_sep [of digit c, OF None] using v True by (intro exI [of _ "x # xs"]) simp
      next
        assume ?r
        then show ?l unfolding denotes_sep [of digit c, OF None] using v by auto
      qed
      finally show ?thesis .
    next
      case False
      then have "parse_addr digit base sep n (c # str) i v b \<noteq> (NO_ERROR, b')" using None by (cases v) auto
      moreover have "\<not> (\<exists>xs. i + length xs = n \<and> denotes digit base sep v xs (c # str))"
        unfolding denotes_sep [of digit c, OF None] using False by auto
      ultimately show ?thesis by blast
    qed
  qed
qed

subsection \<open>Round trips\<close>

lemma denotes_join:
  assumes "list_all2 (is_field digit base None) xs ws" and "xs \<noteq> []" and "sep c"
  shows "denotes digit base sep None xs (join_fields [c] ws)"
  using assms(1,2)
proof (induction rule: list_all2_induct)
  case (Cons x xs w ws)
  show ?case
  proof (cases xs)
    case Nil
    with Cons show ?thesis by simp
  next
    case (Cons y ys)
    then obtain u us where ws: "ws = u # us" using \<open>list_all2 _ xs ws\<close> by (cases ws) auto
    have d: "denotes digit base sep None xs (join_fields [c] ws)" using Cons.IH [unfolded Cons] Cons by simp
    have "\<exists>w' c' rest. w @ c # join_fields [c] ws = w' @ c' # rest \<and> is_field digit base None x w' \<and> sep c' \<and>
        denotes digit base sep None xs rest"
      using d assms(3) \<open>is_field digit base None x w\<close> by blast
    then show ?thesis using Cons ws by simp
  qed
qed simp

lemma digit_char_code: "k < 16 \<Longrightarrow> char_code (digit_char k) = (if k < 10 then 48 + k else 55 + k)"
  by (simp add: char_code_def digit_char_def)

lemma dec_digit_char: "k < 10 \<Longrightarrow> dec_digit (digit_char k) = Some k"
  by (simp add: dec_digit_def digit_char_code)

lemma hex_digit_char: "k < 16 \<Longrightarrow> hex_digit (digit_char k) = Some k"
  by (simp add: hex_digit_def digit_char_code)

lemma dec_string_field: "field_value dec_digit 10 None (dec_string k) = Some k \<and> (\<forall>c \<in> set (dec_string k). dec_digit c \<noteq> None)"
proof (induction k rule: dec_string.induct)
  case (1 k)
  show ?case
  proof (cases "k < 10")
    case True
    then show ?thesis by (subst (1 2) dec_string.simps) (simp add: dec_digit_char)
  next
    case False
    then show ?thesis using 1 by (subst (1 2) dec_string.simps) (auto simp: dec_digit_char)
  qed
qed

lemma hex_string_field: "is_field hex_digit 16 None (unat b) (hex_string b)"
proof -
  have "unat b div 16 < 16" "unat b mod 16 < 16" using unat_u8_bound [of b] by (simp_all add: div_less_iff_less_mult)
  then show ?thesis using unat_u8_bound [of b] by (simp add: is_field_def hex_string_def hex_digit_char)
qed

lemma sep_not_digit: "c = CHR ''.'' \<Longrightarrow> dec_digit c = None" "dash_or_colon c \<Longrightarrow> hex_digit c = None"
  by (auto simp: dec_digit_def hex_digit_def char_code_def dash_or_colon_def)

lemma map_word_unat: "map word_of_nat (map unat bs) = (bs :: u8 list)"
  by (induction bs) simp_all

lemma hex_round_trip:
  assumes "length bs = n" and "0 < n" and "length b = n"
  shows "parse_addr hex_digit 16 dash_or_colon n (join_fields ''-'' (map hex_string bs)) 0 None b = (NO_ERROR, bs)"
proof -
  have "list_all2 (is_field hex_digit 16 None) (map unat bs) (map hex_string bs)"
    by (simp add: list_all2_map1 list_all2_map2 list_all2_same hex_string_field)
  then have "denotes hex_digit 16 dash_or_colon None (map unat bs) (join_fields ''-'' (map hex_string bs))"
    using assms by (intro denotes_join) (auto simp: dash_or_colon_def)
  then show ?thesis
    using assms by (subst parse_addr_iff [OF sep_not_digit(2)]) (auto intro!: exI [of _ "map unat bs"] simp del: map_map simp: map_word_unat)
qed

lemma get_le32_le32: "get_le32 (le32 v) 0 = v"
proof (rule bit_word_eqI)
  fix k assume "k < LENGTH(32)"
  then show "bit (get_le32 (le32 v) 0) k = bit v k"
    by (cases "k < 8"; cases "k < 16"; cases "k < 24")
      (auto simp: get_le32_def le_word_def le32_def bit_or_iff bit_push_bit_iff bit_ucast_iff bit_drop_bit_eq not_bit_u8)
qed

lemma le32_bytes: "le32 (get_le32 [p, q, r, s] 0) = [p, q, r, s]"
proof -
  have "bit (get_le32 [p, q, r, s] 0) k \<longleftrightarrow>
      (if k < 8 then bit p k else if k < 16 then bit q (k - 8) else if k < 24 then bit r (k - 16) else k < 32 \<and> bit s (k - 24))" for k
    using not_bit_u8 [of k p] not_bit_u8 [of "k - 8" q] not_bit_u8 [of "k - 16" r]
    by (auto simp: get_le32_def le_word_def bit_or_iff bit_push_bit_iff bit_ucast_iff)
  then have b: "\<And>k. bit (get_le32 [p, q, r, s] 0) k = (if k < 8 then bit p k else if k < 16 then bit q (k - 8)
      else if k < 24 then bit r (k - 16) else k < 32 \<and> bit s (k - 24))" by blast
  have "ucast (get_le32 [p, q, r, s] 0) = p" "ucast (drop_bit 8 (get_le32 [p, q, r, s] 0)) = q"
    "ucast (drop_bit 16 (get_le32 [p, q, r, s] 0)) = r" "ucast (drop_bit 24 (get_le32 [p, q, r, s] 0)) = s"
    by (rule bit_word_eqI, simp add: bit_ucast_iff bit_drop_bit_eq b)+
  then show ?thesis by (simp add: le32_def)
qed

lemma dec_round_trip: "ipv4StringToAddr (ipv4AddrToString a) x = (NO_ERROR, a)"
proof -
  let ?ws = "map (\<lambda>b. dec_string (unat b)) (le32 a)"
  have "is_field dec_digit 10 None (unat b) (dec_string (unat b))" for b :: u8
  proof -
    have "unat b \<le> 255" using unat_u8_bound [of b] by linarith
    then show ?thesis using dec_string_field [of "unat b"] by (simp add: is_field_def)
  qed
  then have "list_all2 (is_field dec_digit 10 None) (map unat (le32 a)) ?ws"
    by (simp add: list_all2_map1 list_all2_map2 list_all2_same)
  then have "denotes dec_digit 10 (\<lambda>c. c = CHR ''.'') None (map unat (le32 a)) (join_fields ''.'' ?ws)"
    by (intro denotes_join) (auto simp: le32_def)
  then have "parse_addr dec_digit 10 (\<lambda>c. c = CHR ''.'') 4 (join_fields ''.'' ?ws) 0 None (le32 x) = (NO_ERROR, le32 a)"
    by (subst parse_addr_iff [OF sep_not_digit(1)])
      (auto intro!: exI [of _ "map unat (le32 a)"] simp del: map_map simp: map_word_unat, simp_all add: le32_def)
  then show ?thesis by (simp add: ipv4StringToAddr_def ipv4AddrToString_def get_le32_le32)
qed

subsection \<open>The parsers\<close>

lemma dec_fields_iff:
  "length b = 4 \<Longrightarrow> parse_addr dec_digit 10 (\<lambda>c. c = CHR ''.'') 4 str 0 None b = (NO_ERROR, b') \<longleftrightarrow>
    (\<exists>vs. length vs = 4 \<and> denotes dec_digit 10 (\<lambda>c. c = CHR ''.'') None vs str \<and> b' = map word_of_nat vs)"
  by (subst parse_addr_iff [OF sep_not_digit(1)]) simp_all

lemma ipv4_string_iff:
  "ipv4StringToAddr str x = (NO_ERROR, a) \<longleftrightarrow>
    (\<exists>vs. length vs = 4 \<and> denotes dec_digit 10 (\<lambda>c. c = CHR ''.'') None vs str \<and> le32 a = map word_of_nat vs)"
proof -
  obtain e b where p: "parse_addr dec_digit 10 (\<lambda>c. c = CHR ''.'') 4 str 0 None (le32 x) = (e, b)" by fastforce
  have "length (le32 x) = 4" by (simp add: le32_def)
  then have iff: "e = NO_ERROR \<and> b = b' \<longleftrightarrow>
      (\<exists>vs. length vs = 4 \<and> denotes dec_digit 10 (\<lambda>c. c = CHR ''.'') None vs str \<and> b' = map word_of_nat vs)" for b'
    using dec_fields_iff [of "le32 x" str b'] p by simp
  have le_back: "le32 (get_le32 b 0) = b" if "e = NO_ERROR"
  proof -
    have "length b = 4" using iff [of b] that by auto
    then obtain p q r s where b: "b = [p, q, r, s]" by (auto simp: numeral_eq_Suc length_Suc_conv)
    show ?thesis unfolding b by (rule le32_bytes)
  qed
  have "ipv4StringToAddr str x = (NO_ERROR, a) \<longleftrightarrow> e = NO_ERROR \<and> b = le32 a"
    using p le_back get_le32_le32 by (auto simp: ipv4StringToAddr_def)
  with iff show ?thesis by blast
qed

lemma hex_string_iff:
  "0 < n \<Longrightarrow> length b = n \<Longrightarrow> parse_addr hex_digit 16 dash_or_colon n str 0 None b = (NO_ERROR, b') \<longleftrightarrow>
    (\<exists>vs. length vs = n \<and> denotes hex_digit 16 dash_or_colon None vs str \<and> b' = map word_of_nat vs)"
  using parse_addr_iff [OF sep_not_digit(2), where base = 16 and i = 0 and n = n and b = b and v = None and str = str and b' = b'] by simp

end
