(* ===== verification/LinkProperties.thy ===== *)
theory LinkProperties
  imports AddrStrings BaseProperties
begin

text \<open>
  The properties of the link layer and of addresses: the frame check sequence, host groups and the filters below them,
  and addresses as strings.
\<close>

subsection \<open>The frame check sequence\<close>

text \<open>
  C39: A frame that ends with its check sequence, least significant byte first, passes the test of the receiver, which
  compares the sequence of the whole frame with a constant; and if up to four consecutive bytes of it are changed,
  anywhere, it does not.
\<close>

theorem frame_check_sequence:
  "ethCalcCrc (data @ le32 (ethCalcCrc data)) = 0x2144DF1C \<and>
   (data @ le32 (ethCalcCrc data) = pre @ bytes @ post \<and> length bytes \<le> 4 \<and> length bytes' = length bytes \<and> bytes' \<noteq> bytes \<longrightarrow>
     ethCalcCrc (pre @ bytes' @ post) \<noteq> 0x2144DF1C)"
proof (intro conjI impI)
  show r: "ethCalcCrc (data @ le32 (ethCalcCrc data)) = 0x2144DF1C" by (rule crc_residue)
  assume a: "data @ le32 (ethCalcCrc data) = pre @ bytes @ post \<and> length bytes \<le> 4 \<and> length bytes' = length bytes \<and> bytes' \<noteq> bytes"
  with r have "ethCalcCrc (pre @ bytes @ post) = 0x2144DF1C" by simp
  with crc_detects_burst [of bytes' bytes pre post] a show "ethCalcCrc (pre @ bytes' @ post) \<noteq> 0x2144DF1C" by simp
qed

lemma frame_check_sequence_witness:
  "ethCalcCrc [0x31, 0x32, 0x33, 0x34, 0x35, 0x36, 0x37, 0x38, 0x39] = 0xCBF43926 \<and>
   ethCalcCrc [0x31, 0x32, 0x33, 0x34, 0x35, 0x36, 0x37, 0x38, 0x39, 0x26, 0x39, 0xF4, 0xCB] = 0x2144DF1C \<and>
   ethCalcCrc [0x31, 0x32, 0, 0, 0x35, 0x36, 0x37, 0x38, 0x39, 0x26, 0x39, 0xF4, 0xCB] \<noteq> 0x2144DF1C"
proof -
  let ?d = "[0x31, 0x32, 0x33, 0x34, 0x35, 0x36, 0x37, 0x38, 0x39] :: buffer"
  have c: "ethCalcCrc ?d = 0xCBF43926" by (simp add: ethCalcCrc_def crc_byte_def crc_bit_def funpow_numeral)
  then have l: "le32 (ethCalcCrc ?d) = [0x26, 0x39, 0xF4, 0xCB]" by (simp add: le32_def)
  show ?thesis
    using c frame_check_sequence [of ?d "[0x31, 0x32]" "[0x33, 0x34]" "[0x35, 0x36, 0x37, 0x38, 0x39, 0x26, 0x39, 0xF4, 0xCB]" "[0, 0]"]
    unfolding l by simp
qed

text \<open>
  The three routines that compute the check sequence agree: over a multi-part buffer it is that of the bytes it
  holds, however they are cut into chunks, and the routine of the driver, which goes through the bits the other way
  round, computes its mirror image.
\<close>

lemma crc_routines_agree:
  assumes "chunks_ok h (chunks b)"
  shows "ethCalcCrcEx b offset len h = Some (ethCalcCrc (take len (drop offset (contents h (chunks b))))) \<and>
    msp432e4EthCalcCrc data = reverseInt32 (ethCalcCrc data)"
  using ethCalcCrcEx_eq [OF assms] driver_crc_mirrored by blast

lemma crc_routines_agree_example:
  "ethCalcCrcEx sample_src 1 3 sample_heap = Some (ethCalcCrc [2, 3, 4]) \<and>
   msp432e4EthCalcCrc [2, 3, 4] = reverseInt32 (ethCalcCrc [2, 3, 4])"
  using crc_routines_agree [OF sample_ok(3), of 1 3 "[2, 3, 4]"] by (simp add: sample_contents)

subsection \<open>Host groups\<close>

text \<open>
  C38: After any sequence of joins and leaves, a host group is in use as often as it was joined more than left, each
  counted when it succeeded.  Exactly the groups in use pass the filter of IPv4, and for each of them the MAC address
  it is mapped to, which it shares with 31 others, passes the MAC filter and, with the driver of the application, the
  hash table of the controller.
\<close>

theorem joined_groups_received:
  assumes "groups_ok others (interface, w)" and "\<forall>g. group_uses (interface, w) g + length calls < 4294967296"
    and "group_run ops calls (interface, w) = (es, interface', w')"
  shows "groups_ok others (interface', w') \<and>
    group_uses (interface', w') g + length (filter (\<lambda>(call, e). call = (False, g) \<and> e = NO_ERROR) (zip calls es)) =
      group_uses (interface, w) g + length (filter (\<lambda>(call, e). call = (True, g) \<and> e = NO_ERROR) (zip calls es)) \<and>
    (ipv4IsMulticastAddr g \<and> \<not> ipv4IsBroadcastAddr (ipv4Context interface') g \<longrightarrow>
      (ipv4CheckDestAddr (ipv4Context interface') g = NO_ERROR \<longleftrightarrow> 0 < group_uses (interface', w') g)) \<and>
    (0 < group_uses (interface', w') g \<longrightarrow> ethCheckDestAddr interface' (group_mac g) = NO_ERROR) \<and>
    (0 < group_uses (interface', w') g \<and> msp432e4_driver ops \<and> nicDriver interface \<noteq> None \<and> hash_ok (interface, w) \<longrightarrow>
      hash_hit w' (group_mac g))"
proof -
  from group_run_ok [OF assms(3,1,2)] have ok: "groups_ok others (interface', w')"
    and hash: "msp432e4_driver ops \<and> nicDriver interface \<noteq> None \<and> hash_ok (interface, w) \<longrightarrow> hash_ok (interface', w')"
    by blast+
  have claimed: "0 < mac_uses (interface', w') (group_mac g)" if "0 < group_uses (interface', w') g"
    using groups_ok_used [OF ok that] .
  show ?thesis
  proof (intro conjI impI)
    show "groups_ok others (interface', w')" by (rule ok)
    show "group_uses (interface', w') g + length (filter (\<lambda>(call, e). call = (False, g) \<and> e = NO_ERROR) (zip calls es)) =
      group_uses (interface, w) g + length (filter (\<lambda>(call, e). call = (True, g) \<and> e = NO_ERROR) (zip calls es))"
      by (rule grp.filter_run_uses [OF assms(3) [unfolded group_run_def] assms(2)])
    show "(ipv4CheckDestAddr (ipv4Context interface') g = NO_ERROR) = (0 < group_uses (interface', w') g)"
      if "ipv4IsMulticastAddr g \<and> \<not> ipv4IsBroadcastAddr (ipv4Context interface') g"
      using that by (intro check_dest_group) simp_all
    show "ethCheckDestAddr interface' (group_mac g) = NO_ERROR" if "0 < group_uses (interface', w') g"
      using group_mac_accepted [OF that claimed [OF that]] .
    show "hash_hit w' (group_mac g)"
      if "0 < group_uses (interface', w') g \<and> msp432e4_driver ops \<and> nicDriver interface \<noteq> None \<and> hash_ok (interface, w)"
    proof -
      have "hash_ok (interface', w')" by (rule hash [THEN mp]) (use that in simp)
      then show ?thesis by (rule hash_covers [OF _ claimed]) (use that in simp)
    qed
  qed
qed

text \<open>A cleared interface with the driver of the application.\<close>

definition sample_nic :: NicDriver where
  "sample_nic = \<lparr>nic_type = NIC_TYPE_ETHERNET, nic_mtu = ETH_MTU, autoPadding = True, autoCrcCalc = True, autoCrcVerif = True,
     autoCrcStrip = False\<rparr>"

definition sample_interface :: NetInterface where
  "sample_interface = the (ipv4Init (arpInit (ethInit \<lparr>if_index = 0, nicDriver = Some sample_nic, configured = True,
     if_macAddr = [0x00, 0x1A, 0xB6, 0, 0, 1], macAddrFilter = [], ipv4Context = undefined, arpCache = []\<rparr>)))"

definition sample_link_ops :: "emac link_ops" where
  "sample_link_ops = \<lparr>linkIp = \<lparr>ipAlloc = (\<lambda>n w. (Some (replicate n 0), w)), ipTime = (\<lambda>w. (0, w)), icmpInput = (\<lambda>_ _ _ _ w. w),
     tcpInput = (\<lambda>_ _ _ _ w. w), udpInput = (\<lambda>_ _ _ _ w. (NO_ERROR, w)), icmpError = (\<lambda>_ _ _ _ w. w)\<rparr>,
     osWaitForTx = Pair True, disableIrq = id, enableIrq = id, driverSend = (\<lambda>_ w. (NO_ERROR, w)),
     driverUpdateFilter = msp432e4EthUpdateMacAddrFilter, netInitRand = (\<lambda>_ w. w), ethPadding = (0, 0)\<rparr>"

lemma sample_interface_facts:
  "nicDriver sample_interface \<noteq> None" "macAddrFilter sample_interface = replicate 12 cleared_mac_entry"
  "group_table sample_interface = replicate 4 cleared_group_entry" "subnetMask (ipv4Context sample_interface) = 0"
  by (simp_all add: sample_interface_def ipv4Init_def arpInit_def ethInit_def)

lemma cleared_uses: "count_of mac_addr mac_refCount (replicate n cleared_mac_entry) m = 0"
    "count_of grp_addr grp_refCount (replicate n cleared_group_entry) g = 0" "mac_claims (replicate n cleared_group_entry) m = 0"
  by (simp_all add: cleared_mac_entry_def cleared_group_entry_def mac_claims_def)

lemma joined_groups_received_witness:
  "let (es, interface, w) = group_run sample_link_ops [(True, 0xFB0000E0)] (sample_interface, \<lparr>HASHTBLL = 0, HASHTBLH = 0\<rparr>) in
    es = [NO_ERROR] \<and> ipv4CheckDestAddr (ipv4Context interface) 0xFB0000E0 = NO_ERROR \<and>
    ethCheckDestAddr interface [0x01, 0x00, 0x5E, 0, 0, 0xFB] = NO_ERROR \<and> hash_hit w [0x01, 0x00, 0x5E, 0, 0, 0xFB]"
proof -
  let ?g = "0xFB0000E0 :: u32" and ?w = "\<lparr>HASHTBLL = 0, HASHTBLH = 0\<rparr>"
  obtain es n v where r: "group_run sample_link_ops [(True, ?g)] (sample_interface, ?w) = (es, n, v)" by (rule prod_cases3)
  have z: "group_uses (sample_interface, ?w) g = 0" for g
    by (simp add: group_uses_def sample_interface_facts cleared_uses)
  have ok: "groups_ok (\<lambda>_. 0) (sample_interface, ?w)"
    by (simp add: groups_ok_def mac_uses_def sample_interface_facts cleared_uses)
  have g: "ipv4IsMulticastAddr ?g" "group_mac ?g = [0x01, 0x00, 0x5E, 0, 0, 0xFB]"
    by (simp_all add: ipv4IsMulticastAddr_def group_mac_def ipv4MapMulticastAddrToMac_def le32_def Let_def)
  have es: "es = [NO_ERROR]"
    using r g(1) by (simp add: group_run_def ipv4JoinMulticastGroup_def ethAcceptMacAddr_def sample_interface_facts
      cleared_group_entry_def cleared_mac_entry_def numeral_eq_Suc Let_def split: prod.splits)
  have h: "msp432e4_driver sample_link_ops" "hash_ok (sample_interface, ?w)"
    by (simp_all add: msp432e4_driver_def sample_link_ops_def hash_ok_def sample_interface_facts cleared_mac_entry_def
      add_to_hash_def numeral_eq_Suc)
  have u: "group_uses (n, v) ?g = 1"
    using joined_groups_received [OF ok _ r, of ?g] z by (simp add: es)
  have "\<not> ipv4IsBroadcastAddr (ipv4Context n) ?g"
    using group_run_ok [OF r ok] z by (simp add: same_config_def sample_interface_facts ipv4IsBroadcastAddr_def ipv4IsOnLocalSubnet_def)
  with joined_groups_received [OF ok _ r, of ?g] z u g h sample_interface_facts(1) show ?thesis
    by (simp add: r es)
qed

subsection \<open>Addresses as strings\<close>

text \<open>
  C40: A string is a dot-decimal address exactly when it is four fields of decimal digits, each with a value of at most
  255, with dots between them, and then the four values are the bytes of the address; likewise for MAC addresses, six
  fields of hexadecimal digits between dashes or colons, and for EUI-64 identifiers, eight.
\<close>

theorem address_strings_accepted:
  assumes "length m = 6" and "length e = 8"
  shows "(ipv4StringToAddr str a0 = (NO_ERROR, a) \<longleftrightarrow>
      (\<exists>vs. length vs = 4 \<and> denotes dec_digit 10 (\<lambda>c. c = CHR ''.'') None vs str \<and> le32 a = map word_of_nat vs)) \<and>
    (macStringToAddr str m = (NO_ERROR, m') \<longleftrightarrow>
      (\<exists>vs. length vs = 6 \<and> denotes hex_digit 16 dash_or_colon None vs str \<and> m' = map word_of_nat vs)) \<and>
    (eui64StringToAddr str e = (NO_ERROR, e') \<longleftrightarrow>
      (\<exists>vs. length vs = 8 \<and> denotes hex_digit 16 dash_or_colon None vs str \<and> e' = map word_of_nat vs))"
  unfolding macStringToAddr_def eui64StringToAddr_def
  by (intro conjI ipv4_string_iff hex_string_iff) (simp_all add: assms)

lemma address_strings_accepted_witness:
  "macStringToAddr ''0-1a-B6:00:0:ff'' [0, 0, 0, 0, 0, 0] = (NO_ERROR, [0, 0x1A, 0xB6, 0, 0, 0xFF]) \<and>
   (\<exists>vs. length vs = 6 \<and> denotes hex_digit 16 dash_or_colon None vs ''0-1a-B6:00:0:ff'' \<and> [0, 0x1A, 0xB6, 0, 0, 0xFF] = map (word_of_nat :: nat \<Rightarrow> u8) vs)"
proof -
  have "macStringToAddr ''0-1a-B6:00:0:ff'' [0, 0, 0, 0, 0, 0] = (NO_ERROR, [0, 0x1A, 0xB6, 0, 0, 0xFF])" by code_simp
  with address_strings_accepted [of "[0, 0, 0, 0, 0, 0]" "[0, 0, 0, 0, 0, 0, 0, 0]"] show ?thesis by simp
qed

text \<open>Every address is read back from the string it is printed as.\<close>

lemma address_strings_round_trip:
  assumes "length m = 6" and "length m0 = 6" and "length e = 8" and "length e0 = 8"
  shows "ipv4StringToAddr (ipv4AddrToString a) a0 = (NO_ERROR, a) \<and> macStringToAddr (macAddrToString m) m0 = (NO_ERROR, m) \<and>
    eui64StringToAddr (eui64AddrToString e) e0 = (NO_ERROR, e)"
  unfolding macStringToAddr_def macAddrToString_def eui64StringToAddr_def eui64AddrToString_def
  using dec_round_trip hex_round_trip [OF assms(1) _ assms(2)] hex_round_trip [OF assms(3) _ assms(4)] by simp

lemma address_strings_round_trip_example:
  "ipv4AddrToString 0x0100A8C0 = ''192.168.0.1'' \<and> ipv4StringToAddr ''192.168.0.1'' 0 = (NO_ERROR, 0x0100A8C0) \<and>
   macStringToAddr (macAddrToString [0, 0x1A, 0xB6, 0, 0, 1]) [0, 0, 0, 0, 0, 0] = (NO_ERROR, [0, 0x1A, 0xB6, 0, 0, 1])"
proof -
  have "ipv4AddrToString 0x0100A8C0 = ''192.168.0.1''" by code_simp
  with address_strings_round_trip [of "[0, 0x1A, 0xB6, 0, 0, 1]" "[0, 0, 0, 0, 0, 0]" "[0, 0, 0, 0, 0, 0, 0, 0]" "[0, 0, 0, 0, 0, 0, 0, 0]" "0x0100A8C0" 0]
  show ?thesis by simp
qed

end
