(* ===== verification/Spec2Isabelle.thy ===== *)
theory Spec2Isabelle
  imports BaseProperties ServerProperties ClientProperties RoundTrip StreamProperties AppClient TcpProperties TcpWireProperties TcpStreamProperties Ipv4Properties LinkProperties
begin

text \<open>
  Verification of the Modbus/TCP client and server of TI-modbus: a FreeRTOS application for the
  MSP432E401Y that serves two registers and two coils to Modbus masters and polls another device as a
  master itself, over the CycloneTCP stack; and of parts of that stack: TCP, network buffers, reassembly, addresses and
  the filters of the link layer.

  Parts of the program and the theories that model them.  All paths are under
  \<open>src/mobus_client_server/\<close>, the headers under \<open>src/CycloneTCP_SSL_Crypto_Open_1_8_6/\<close>.

  \<^item> \<open>Prelude\<close>: bytes, buffers and checked accesses.  A C array is a list of bytes; reading or writing
    outside it is undefined behaviour in C and \<open>None\<close> here, so every operation that touches a buffer
    returns an option.  A pointer into a buffer is an offset; a 16-bit member of a packed structure
    is read in the byte order of the target (little-endian), as \<open>get16\<close> and \<open>set16\<close>.
  \<^item> \<open>Endian\<close>: \<open>cpu_endian.c\<close> and the macros of \<open>cpu_endian.h\<close>.
  \<^item> \<open>OsPort\<close>: \<open>error_t\<close> of \<open>error.h\<close> (codes the program never names are \<open>ERROR_OTHER\<close>), the
    wrap-around comparison \<open>timeCompare\<close> of \<open>os_port.h\<close>, and the socket layer and the operating system as the Modbus code calls them, a record of
    operations over the world \<open>'w\<close>.  Their code is a parameter.  \<open>net_ok\<close> states what the Modbus code
    relies on: \<open>socketReceive\<close> delivers at most the bytes asked for, \<open>socketSend\<close> takes at most the
    bytes offered, \<open>socketPoll\<close> fills in one flag word per descriptor.
  \<^item> \<open>ModbusCommon\<close>: \<open>modbus_common.h\<close>: constants, sizes of the packed structures, coil macros.
  \<^item> \<open>ModbusServerMisc\<close>: \<open>modbus_server.h\<close> and the single-connection part of \<open>modbus_server_misc.c\<close>:
    MBAP header, PDU location, calls of the user callbacks, exception codes, and the
    well-formedness \<open>conn_wf\<close> of a connection.
  \<^item> \<open>ModbusServerPdu\<close>: \<open>modbus_server_pdu.c\<close>: the ten request handlers, each the whole C function,
    the dispatch and the exception responses.
  \<^item> \<open>ModbusServer\<close>: \<open>modbus_server.c\<close> and the rest of \<open>modbus_server_misc.c\<close>: initialisation, one
    round of the server task, the connection table, the idle timeout, and the event handler of a
    connection with its receive and send states.
  \<^item> \<open>App\<close>, \<open>AppClient\<close>: \<open>main_freertos.c\<close>: the registers, the coils, the six callbacks and the settings of
    the server; \<open>modbusClient\<close> and \<open>userTask\<close>, the client task.
  \<^item> \<open>ModbusClientMisc\<close>, \<open>ModbusClientPdu\<close>, \<open>ModbusClient\<close>: \<open>modbus_client_misc.c\<close>,
    \<open>modbus_client_pdu.c\<close> and \<open>modbus_client.c\<close>: the transaction state machine, the formatting of the
    ten requests and the parsing of their responses, and the application interface.
  \<^item> \<open>NetMem\<close>: \<open>net_mem.c\<close> and \<open>net_mem.h\<close>: multi-part buffers as lists of chunk descriptors over a heap
    of blocks (\<open>heap\<close>), with \<open>NET_MEM_POOL_SUPPORT\<close> disabled.
  \<^item> \<open>IpChecksum\<close>: the checksum routines of \<open>ip.c\<close>, over bytes at an address and over chunks.
  \<^item> \<open>Ipv4Types\<close>, \<open>Ipv4Frag\<close>: \<open>ipv4.h\<close>, \<open>ipv4_frag.h\<close>, \<open>ipv4ProcessDatagram\<close> of \<open>ipv4.c\<close> and the reassembly of
    \<open>ipv4_frag.c\<close>: packets and the descriptors of the holes are bytes in the heap of \<open>NetMem\<close>; \<open>ip_ops\<close> is what IPv4
    calls (allocator, clock, ICMP, TCP and UDP).
  \<^item> \<open>EthCrc\<close>, \<open>NetIf\<close>, \<open>MacFilter\<close>: the frame check sequence of \<open>ethernet.c\<close>, with \<open>ETH_FAST_CRC_SUPPORT\<close> disabled;
    \<open>NetInterface\<close> of \<open>net.h\<close>, its initialisation and \<open>nic.c\<close> where the filter needs it (\<open>link_ops\<close> is what the link layer
    calls); the MAC filter of \<open>ethernet.c\<close> and the hash table \<open>msp432e4_eth_driver.c\<close> computes from it.
  \<^item> \<open>Ipv4Addr\<close>, \<open>AddrStrings\<close>: \<open>ipv4.c\<close>: the configuration of an interface, which source and destination addresses
    are accepted, the choice of a source address, host groups; the conversions between addresses and strings of
    \<open>ipv4.c\<close> and \<open>ethernet.c\<close>.
  \<^item> \<open>TcpTypes\<close>: \<open>tcp.h\<close> and the part of \<open>socket.h\<close> TCP uses: the record \<open>Socket\<close>, headers, timers, states;
    \<open>tcp_ops\<close>, a record of what TCP calls (the clock, the allocator, the IP layer, random numbers, events).
  \<^item> \<open>TcpSegment\<close>, \<open>TcpMisc\<close>: \<open>tcp_misc.c\<close> and the timers of \<open>tcp_timer.c\<close>: options, the circular buffers, sending
    a segment, the checks of an incoming one, windows, SACK blocks, retransmission, congestion control, the
    algorithm of Nagle.
  \<^item> \<open>TcpFsm\<close>: \<open>tcp_fsm.c\<close>: one function per state, and \<open>tcpProcessSegment\<close>.
  \<^item> \<open>TcpUser\<close>, \<open>TcpConn\<close>: \<open>tcpTick\<close> of \<open>tcp_timer.c\<close>, the functions of \<open>tcp.c\<close> and \<open>socketOpen\<close> of \<open>socket.c\<close>.

  How the parts interact.  The server task polls the sockets, hands every ready connection to
  \<open>modbusServerProcessConnectionEvents\<close>, accepts new connections and closes idle ones.  The event
  handler collects an ADU piece by piece, calls \<open>modbusServerProcessRequest\<close> on it, which calls the
  user callbacks, and sends the response piece by piece.  The client formats a request, and
  \<open>modbusClientTransaction\<close> sends it and collects a response until \<open>modbusClientCheckResp\<close> accepts
  one or the timeout elapses; the parsers then copy the values out.  The stack keeps a table of sockets.
  The network task calls \<open>tcpProcessSegment\<close> for every segment that arrives and \<open>tcpTick\<close> periodically; the tasks of
  the user call \<open>tcpConnect\<close>, \<open>tcpSend\<close>, \<open>tcpReceive\<close> and the others, which wait for events the network task raises.

  Specifications and what the lemmas show.

  \<^item> \<open>ModbusSpec\<close> is a reference specification of a Modbus server: a pure function from two partial
    maps (coils and registers) and the bytes of a PDU to \<open>Malformed\<close>, \<open>Exception\<close> or \<open>Reply\<close>.
  \<^item> \<open>ModbusServerSafe\<close>: every handler stays inside its buffers and leaves a complete response or an
    error, for arbitrary callbacks (\<open>handler_ok\<close>; \<open>callbacks_ok\<close> asks only that an unlock callback
    exists where a lock callback does).
  \<^item> \<open>ModbusTable\<close>: the locale \<open>modbus_table\<close> is the contract of the user callbacks: they implement
    a table, the validation phase changes nothing and predicts the commit phase.  Under it every handler
    implements the specification, with two exceptions: the requests of \<open>truncated_read_write\<close>, which the
    code accepts although they are too short, and those of \<open>overlapping_read_write\<close>, which it answers with the
    registers as they were before its own write (\<open>read_then_write_regs\<close>).  \<open>App\<close> interprets the locale on the application's callbacks.
  \<^item> \<open>ModbusServer\<close>: \<open>conn_inv\<close> and \<open>server_inv\<close> are invariants of the event handler, the accept, the
    tick and the round of the task.
  \<^item> \<open>ModbusClientSafe\<close>: a step of a transaction keeps \<open>client_inv\<close> and either fails or decreases a
    rank, so requests return against every peer that sends finitely many bytes (\<open>finite_peer\<close>).
  \<^item> \<open>ModbusClientFun\<close>: the formatters and the parsers as equations on PDUs.
  \<^item> \<open>RoundTrip\<close>: the client's request through the server and back, for each function of the protocol.
  \<^item> \<open>ServerFrame\<close>: the locale \<open>callback_frame\<close>: request processing leaves alone what the callbacks do
    not touch (the network), and it is interpreted on the application's callbacks.
  \<^item> \<open>ServerStream\<close>, \<open>StreamProperties\<close>: a connection as a stream: requests that arrive cut into
    arbitrary pieces are answered in order.  The socket may time out without moving a byte (\<open>slack\<close> bounds how often
    before it does move some); what happens when it times out half-way is \<open>partial_send_repeats_bytes\<close>.
  \<^item> \<open>NetMemSpec\<close>, \<open>NetMemOwn\<close>: a multi-part buffer as the sequence of its bytes, which blocks it owns, and
    what every operation does to both.
  \<^item> \<open>TcpView\<close>, \<open>TcpSeq\<close>, \<open>TcpNagle\<close>: which members of a socket each helper changes (\<open>same\<close>), the
    order of sequence numbers in a window, the blocks received out of order as intervals relative to the next
    number expected, and the loops that send.
  \<^item> \<open>TcpInv\<close>: the invariant \<open>tcp_inv\<close> of a socket.  \<open>TcpData\<close>, \<open>TcpSafe\<close>, \<open>TcpStates\<close>, \<open>TcpDispatch\<close> and
    \<open>TcpOpen\<close>: every function of the state machine keeps it and follows RFC 793 (\<open>rfc793_move\<close>);
    \<open>TcpCalls\<close>: so do the tick and the steps of the user calls.
  \<^item> \<open>TcpReach\<close>: \<open>tcp_reach\<close>, the sockets reached from an opened or accepted one by any interleaving of the
    steps \<open>tcp_step\<close>; \<open>TcpReturns\<close>: the blocking calls return; \<open>TcpShutdown\<close>: the race in \<open>tcpShutdown\<close>.
  \<^item> \<open>TcpWire\<close>: for which options the parser ends, and that a header is read back as it was sent.
  \<^item> \<open>TcpRing\<close>: the locale \<open>byte_ring\<close>, a ring of bytes that holds part of a stream, interpreted on the send buffer
    and on the receive buffer.  \<open>TcpFlow\<close>: the streams of a socket: \<open>received_ok\<close>, what the receive buffer holds of the
    stream of the peer, in order or ahead of it in SACK blocks, and \<open>written_ok\<close>, what the send buffer holds of the
    stream of the user.  \<open>TcpArrive\<close>, \<open>TcpFlowStates\<close> and \<open>TcpFlowCalls\<close>: an arriving segment, every function of the
    state machine, the tick and the steps of the user calls keep both.  \<open>TcpDeliver\<close>: data in order reaches the user.
    \<open>TcpStreamProperties\<close>: \<open>tcp_run\<close>, a connection with its two streams.
  \<^item> \<open>Ipv4FragMem\<close>, \<open>Ipv4Holes\<close>: the reassembly buffer as a header and a payload, and the holes linked inside it as a
    list (\<open>chain\<close>), which the loop of the code turns into \<open>punch\<close> of that list.  \<open>Ipv4FragStep\<close>, \<open>Ipv4FragAdd\<close> and
    \<open>Ipv4Deliver\<close>: the other steps at an entry of the queue (\<open>frag_inv\<close>, \<open>entry_step\<close>).
    \<open>Ipv4Reassemble\<close>: what a list of holes says of the datagram (\<open>rebuilt\<close>), and a fragment at its entry.  \<open>Ipv4Queue\<close>,
    \<open>Ipv4Datagram\<close> and \<open>Ipv4Tick\<close>: the queue (\<open>queue_ok\<close>), a packet at the queue, a sequence of pieces,
    and the timeout.  \<open>Ipv4Hang\<close>: the fragments that make the loop over the holes run forever.
  \<^item> \<open>EthCrc\<close>: one step of the register of the CRC is linear and injective, so the receiver accepts what was sent and
    sees every burst of up to 32 bits.  \<open>MacFilter\<close>: the locale \<open>ref_filter\<close> is the contract of a table of reference
    counts, interpreted on the MAC filter and, in \<open>Ipv4Addr\<close>, on the host groups; \<open>groups_ok\<close> says that every MAC address
    has the entry its groups need.  \<open>AddrStrings\<close>: \<open>denotes\<close> says which strings stand for an address.
  \<^item> \<open>BaseProperties\<close>, \<open>ServerProperties\<close>, \<open>ClientProperties\<close>, \<open>TcpProperties\<close>,
    \<open>TcpWireProperties\<close>, \<open>TcpStreamProperties\<close>, \<open>Ipv4Properties\<close>, \<open>LinkProperties\<close> and this theory: the properties, each with a witness that applies it to concrete
    data; those of TCP run on the connection of \<open>TcpDemo\<close>.

  Loops.  The loops over coils, registers and connections recurse with the distance to the bound as
  their measure.  The retry loops of the client, \<open>client_loop\<close> and \<open>connect_loop\<close>, may run forever in
  principle: they are partial functions over option in which a run that does not end is \<open>None\<close>, and
  \<open>client_requests_return\<close> and \<open>client_connect_returns\<close> show that it does end.  The endless loop of
  \<open>modbusServerTask\<close> is its body; \<open>server_rounds\<close> iterates it any number of times.  No fuel is used.

  The option parser of TCP can loop forever; it is a partial function too, and \<open>option_parser_returns\<close> says when it does
  not.  So can the loop over the holes of a datagram: \<open>two_fragments_hang\<close> says how, and \<open>reassembly_keeps_queue\<close> that it
  returns for every fragment that does not wrap around.  The loops of \<open>tcpSend\<close>, \<open>tcpReceive\<close>, \<open>tcpAccept\<close> and of the algorithm of Nagle are partial functions that are
  shown to return.

  Abstractions of the TCP model.  The send and receive buffers are flat lists of bytes: the chunks they are made of
  are those of \<open>NetMem\<close>, and \<open>set_buffer_length\<close> is \<open>netBufferSetLength\<close> on an empty buffer, or one long
  enough, in those terms.  A header is taken to lie in one chunk of the incoming buffer.  Whether a destination is a
  broadcast address is a parameter.  A task that waits hands the socket to the others: what they do to it is the
  parameter \<open>wait\<close>.  The network mutex makes every step atomic; \<open>tcpAccept\<close> releases it around \<open>socketOpen\<close>, which the
  model runs without interruption.

  What the relations leave out.  \<open>tcp_step\<close>, on which \<open>tcp_reach\<close> and the accounting rest, lacks two things the code can
  do, because the accounting does not survive them: it connects a closed socket again only if nothing of its last
  connection is left over (\<open>reusable\<close>; \<open>reconnect_keeps_stale_state\<close> shows what \<open>tcpConnect\<close> does not reset), and
  the FIN of \<open>tcpShutdown\<close> is sent from the state it was chosen for (\<open>shutdown_overrides_state\<close> is about the other case).
  \<open>tcp_run\<close> in addition lets the peer send less than 4 GiB, and the properties of the send buffer ask that the user
  has written less, since the offsets of the code jump there.  It has reading from a buffer that was freed, of which
  nothing is copied (\<open>time_wait_loses_unread_bytes\<close>).

  Not modelled: trace output, hardware and board code, the task of the LED, sending and receiving at the IP, ARP and
  Ethernet layers but for reassembly, the filters, addresses and checksums, UDP and the protocols over it, and IPv6 but for its addresses; \<open>tcpGetState\<close>, which reads one member.  The
  preprocessor options are those of the application (\<open>NET_RTOS_SUPPORT\<close> enabled, \<open>TCP_SACK_SUPPORT\<close> disabled).  Locking
  of the Modbus tables is the call of the lock and unlock callbacks only; a handler runs without interleaving.
\<close>

section \<open>Properties of client and server together\<close>

lemma demo_client_wf: "client_wf demo_client"
  by (rule client_inv_wf [OF demo_client_inv])

lemma fresh_wf: "conn_wf (fresh_connection (Some 1) 0)"
  by (rule conn_inv_wf [OF fresh_conn_inv])

lemma formats_some:
  "osGetSystemTime script_ops n = (0, n)"
  by (simp add: script_ops_def)

text \<open>
  C3: reading holding registers: the request the client formats, processed by the server and parsed by
  the client again, yields exactly the registers of the server's table in order, in the caller's
  memory, and changes nothing; where an address does not exist the client gets exception code 2.
\<close>

theorem read_holding_regs_round_trip:
  assumes "modbus_table S tab" and "client_wf c" and "conn_wf d" and "1 \<le> q" and "q \<le> 125" and "q \<le> length v"
    and "modbusClientFormatReadHoldingRegsReq ops c a q n = Some (e, c1, n1)"
  shows "if defined (regs (tab w)) a q
    then \<exists>c2 w2. exchange_once S locals d c1 w = Some (NO_ERROR, c2, w2) \<and> tab w2 = tab w \<and>
      modbusClientParseReadHoldingRegsResp c2 q v = Some (NO_ERROR, fetch (regs (tab w)) a q @ drop q v)
    else \<exists>c2 w2. exchange_once S locals d c1 w = Some (ERROR_EXCEPTION_RECEIVED, c2, w2) \<and> tab w2 = tab w \<and>
      cl_exceptionCode c2 = 2"
  by (rule modbus_table.exchange_read_regs [OF assms])

lemma read_holding_regs_round_trip_witness:
  "\<exists>c1 c2 w2. modbusClientFormatReadHoldingRegsReq script_ops demo_client 0 2 [] = Some (NO_ERROR, c1, []) \<and>
    exchange_once app_settings demo_locals (fresh_connection (Some 1) 0) c1 demo_world = Some (NO_ERROR, c2, w2) \<and>
    modbusClientParseReadHoldingRegsResp c2 2 [7, 8, 9] = Some (NO_ERROR, [0x1234, 0xABCD, 9])"
proof -
  note f = format_read_eqs(3) [OF demo_client_wf formats_some, of 0 2 "[]"]
  have "defined (regs (app_tables demo_world)) 0 2" "fetch (regs (app_tables demo_world)) 0 2 = [0x1234, 0xABCD]"
    by (simp_all add: two_addresses app_tables_def demo_world_def)
  with f read_holding_regs_round_trip [OF app.modbus_table_axioms demo_client_wf fresh_wf _ _ _ f,
      of "[7, 8, 9]" demo_world demo_locals] show ?thesis by auto
qed

text \<open>
  Reading coils: the caller's memory receives the server's coils, eight to a byte, the first in
  the least significant bit, the last byte padded with zeros.
\<close>

lemma read_coils_round_trip:
  assumes "modbus_table S tab" and "client_wf c" and "conn_wf d" and "1 \<le> q" and "q \<le> 2000"
    and "(q + 7) div 8 \<le> length v"
    and "modbusClientFormatReadCoilsReq ops c a q n = Some (e, c1, n1)"
  shows "if defined (coils (tab w)) a q
    then \<exists>c2 w2. exchange_once S locals d c1 w = Some (NO_ERROR, c2, w2) \<and> tab w2 = tab w \<and>
      modbusClientParseReadCoilsResp c2 q v = Some (NO_ERROR, blit v 0 (pack (fetch (coils (tab w)) a q)))
    else \<exists>c2 w2. exchange_once S locals d c1 w = Some (ERROR_EXCEPTION_RECEIVED, c2, w2) \<and> tab w2 = tab w \<and>
      cl_exceptionCode c2 = 2"
  by (rule modbus_table.exchange_read_coils [OF assms])

text \<open>The witness: three coils from address 0; coil 2 does not exist.\<close>

lemma read_coils_round_trip_example:
  "\<exists>c1 c2 w2. modbusClientFormatReadCoilsReq script_ops demo_client 0 3 [] = Some (NO_ERROR, c1, []) \<and>
    exchange_once app_settings demo_locals (fresh_connection (Some 1) 0) c1 demo_world =
      Some (ERROR_EXCEPTION_RECEIVED, c2, w2) \<and> cl_exceptionCode c2 = 2"
proof -
  note f = format_read_eqs(1) [OF demo_client_wf formats_some, of 0 3 "[]"]
  have "\<not> defined (coils (app_tables demo_world)) 0 3"
    by (auto simp: defined_def app_tables_def intro!: exI [of _ 2])
  with f read_coils_round_trip [OF app.modbus_table_axioms demo_client_wf fresh_wf _ _ _ f,
      of "[0]" demo_world demo_locals] show ?thesis by auto
qed

text \<open>
  C4: writing registers: a request the client reports as written has stored the caller's values at
  consecutive addresses of the server's table and nothing else, and a rejected one has changed nothing.
\<close>

theorem write_regs_round_trip:
  assumes "modbus_table S tab" and "client_wf c" and "conn_wf d" and "1 \<le> q" and "q \<le> 123" and "q \<le> length v"
    and "modbusClientFormatWriteMultipleRegsReq ops c a q v n = Some (e, c1, n1)"
  shows "if defined (regs (tab w)) a q
    then \<exists>c2 w2. exchange_once S locals d c1 w = Some (NO_ERROR, c2, w2) \<and>
      tab w2 = (tab w)\<lparr>regs := store (regs (tab w)) a (take q v)\<rparr> \<and>
      modbusClientParseWriteMultipleRegsResp c2 a q = Some NO_ERROR
    else \<exists>c2 w2. exchange_once S locals d c1 w = Some (ERROR_EXCEPTION_RECEIVED, c2, w2) \<and> tab w2 = tab w \<and>
      cl_exceptionCode c2 = 2"
  by (rule modbus_table.exchange_write_regs [OF assms])

lemma write_regs_round_trip_witness:
  "\<exists>c1 c2 w2. modbusClientFormatWriteMultipleRegsReq script_ops demo_client 0 2 [0xDEAD, 0xBEEF] [] =
      Some (NO_ERROR, c1, []) \<and>
    exchange_once app_settings demo_locals (fresh_connection (Some 1) 0) c1 demo_world = Some (NO_ERROR, c2, w2) \<and>
    serverReg w2 0 = 0xDEAD \<and> serverReg w2 1 = 0xBEEF"
proof -
  have f: "modbusClientFormatWriteMultipleRegsReq script_ops demo_client 0 2 [0xDEAD, 0xBEEF] [] =
      Some (NO_ERROR, formatted demo_client (write_regs_pdu 0 [0xDEAD, 0xBEEF]) 0, [])"
    using format_write_regs_eq [OF demo_client_wf formats_some, of 2 "[0xDEAD, 0xBEEF]" 0 "[]"] by simp
  have "defined (regs (app_tables demo_world)) 0 2" by (simp add: two_addresses app_tables_def)
  with write_regs_round_trip [OF app.modbus_table_axioms demo_client_wf fresh_wf _ _ _ f,
      of demo_world demo_locals] obtain c2 w2 where
    x: "exchange_once app_settings demo_locals (fresh_connection (Some 1) 0)
      (formatted demo_client (write_regs_pdu 0 [0xDEAD, 0xBEEF]) 0) demo_world = Some (NO_ERROR, c2, w2)"
    and t: "app_tables w2 = (app_tables demo_world)\<lparr>regs :=
      store (regs (app_tables demo_world)) 0 [0xDEAD, 0xBEEF]\<rparr>" by auto
  from t have "regs (app_tables w2) = store (regs (app_tables demo_world)) 0 [0xDEAD, 0xBEEF]" by simp
  from fun_cong [OF this, of 0] fun_cong [OF this, of 1] f x show ?thesis by (simp add: app_tables_def)
qed

text \<open>
  Writing coils: the packed bits of the caller reach consecutive addresses of the server's table.
\<close>

lemma write_coils_round_trip:
  assumes "modbus_table S tab" and "client_wf c" and "conn_wf d" and "1 \<le> q" and "q \<le> 1968"
    and "(q + 7) div 8 \<le> length v"
    and "modbusClientFormatWriteMultipleCoilsReq ops c a q v n = Some (e, c1, n1)"
  shows "if defined (coils (tab w)) a q
    then \<exists>c2 w2. exchange_once S locals d c1 w = Some (NO_ERROR, c2, w2) \<and>
      tab w2 = (tab w)\<lparr>coils := store (coils (tab w)) a (unpack v 0 q)\<rparr> \<and>
      modbusClientParseWriteMultipleCoilsResp c2 a q = Some NO_ERROR
    else \<exists>c2 w2. exchange_once S locals d c1 w = Some (ERROR_EXCEPTION_RECEIVED, c2, w2) \<and> tab w2 = tab w \<and>
      cl_exceptionCode c2 = 2"
  by (rule modbus_table.exchange_write_coils [OF assms])

lemma write_coils_round_trip_example:
  "\<exists>c1 c2 w2. modbusClientFormatWriteMultipleCoilsReq script_ops demo_client 0 2 [1] [] = Some (NO_ERROR, c1, []) \<and>
    exchange_once app_settings demo_locals (fresh_connection (Some 1) 0) c1 demo_world = Some (NO_ERROR, c2, w2) \<and>
    serverCoil w2 0 = True \<and> serverCoil w2 1 = False"
proof -
  have f: "modbusClientFormatWriteMultipleCoilsReq script_ops demo_client 0 2 [1] [] =
      Some (NO_ERROR, formatted demo_client (write_coils_pdu 0 2 [1]) 0, [])"
    using format_write_coils_eq [OF demo_client_wf formats_some, of 2 "[1]" 0 "[]"] by simp
  have "defined (coils (app_tables demo_world)) 0 2" by (simp add: two_addresses app_tables_def)
  with write_coils_round_trip [OF app.modbus_table_axioms demo_client_wf fresh_wf _ _ _ f,
      of demo_world demo_locals] obtain c2 w2 where
    x: "exchange_once app_settings demo_locals (fresh_connection (Some 1) 0)
      (formatted demo_client (write_coils_pdu 0 2 [1]) 0) demo_world = Some (NO_ERROR, c2, w2)"
    and t: "app_tables w2 = (app_tables demo_world)\<lparr>coils :=
      store (coils (app_tables demo_world)) 0 (unpack [1] 0 2)\<rparr>" by auto
  have "unpack [1] 0 2 = [True, False]" by (simp add: unpack_def coil_at_def upt_rec)
  with t have "coils (app_tables w2) = store (coils (app_tables demo_world)) 0 [True, False]" by simp
  from fun_cong [OF this, of 0] fun_cong [OF this, of 1] f x show ?thesis by (simp add: app_tables_def)
qed

end
